(* ===== verification/CapyBase.thy ===== *)
theory CapyBase
  imports Main "HOL-Library.Word"
begin

text \<open>
  Shared vocabulary of the CapyOS development. Every other theory imports this one.

  \<^item> the C integer types as fixed-width words, so that \<open>+\<close>, \<open>-\<close> and \<open>*\<close> wrap;
  \<^item> C arrays with static storage as functions from the index (\<open>carr\<close>). An access is
    always guarded the way the source guards it, and the component theories prove the
    indices to be in range where the source relies on it;
  \<^item> the fact collections the component theories feed and use;
  \<^item> generic facts on first-match searches (the shape of nearly every table scan of the
    kernel), on cardinalities of filtered index ranges and on words.
\<close>

unbundle bit_operations_syntax

type_synonym u8 = "8 word"
type_synonym u16 = "16 word"
type_synonym u32 = "32 word"
type_synonym u64 = "64 word"
type_synonym i32 = "32 word"
type_synonym 'a carr = "nat \<Rightarrow> 'a"

named_theorems capy_inv \<open>preservation of the component invariants\<close>
named_theorems capy_frame \<open>what an operation leaves unchanged\<close>

subsection \<open>First-match searches\<close>

lemma find_upt_from_Some:
  "find P [m..<n] = Some i \<Longrightarrow> m \<le> i \<and> i < n \<and> P i \<and> (\<forall>j. m \<le> j \<longrightarrow> j < i \<longrightarrow> \<not> P j)"
proof (induction m arbitrary: rule: measure_induct_rule [of "\<lambda>m. n - m"])
  case (less m)
  show ?case
  proof (cases "m < n")
    case True
    then have split: "[m..<n] = m # [Suc m..<n]" by (rule upt_conv_Cons)
    show ?thesis
    proof (cases "P m")
      case True
      with less.prems split have "i = m" by simp
      with True \<open>m < n\<close> show ?thesis by auto
    next
      case False
      with less.prems split have "find P [Suc m..<n] = Some i" by simp
      with less.IH [of "Suc m"] \<open>m < n\<close>
      have "Suc m \<le> i \<and> i < n \<and> P i \<and> (\<forall>j. Suc m \<le> j \<longrightarrow> j < i \<longrightarrow> \<not> P j)"
        by simp
      with False show ?thesis
        by (metis Suc_leD Suc_leI le_neq_implies_less)
    qed
  next
    case False
    with less.prems show ?thesis by simp
  qed
qed

lemma find_upt_Some:
  "find P [0..<n] = Some i \<longleftrightarrow> i < n \<and> P i \<and> (\<forall>j<i. \<not> P j)" (is "?L \<longleftrightarrow> ?R")
proof
  assume ?L
  then show ?R using find_upt_from_Some [of P 0 n i] by simp
next
  assume r: ?R
  then obtain k where k: "find P [0..<n] = Some k"
    by (cases "find P [0..<n]") (auto simp: find_None_iff)
  then have "k < n \<and> P k \<and> (\<forall>j<k. \<not> P j)"
    using find_upt_from_Some [of P 0 n k] by simp
  with r have "k = i" by (meson linorder_neqE_nat)
  with k show ?L by simp
qed

lemma find_upt_None:
  "find P [m..<n] = None \<longleftrightarrow> (\<forall>i. m \<le> i \<longrightarrow> i < n \<longrightarrow> \<not> P i)"
  by (auto simp: find_None_iff)

lemma find_SomeD: "find P xs = Some x \<Longrightarrow> x \<in> set xs \<and> P x"
  by (auto simp: find_Some_iff)

subsection \<open>Counting indices\<close>

lemma card_filter_remove:
  assumes "finite A" and "x \<in> A"
  shows "card (A - {x}) = card A - 1" and "0 < card A"
  using assms by (auto simp: card_gt_0_iff)

lemma card_below [simp]: "card {p. p < n \<and> P p} \<le> (n::nat)"
proof -
  have "card {p. p < n \<and> P p} \<le> card {..<n}"
    by (rule card_mono) auto
  then show ?thesis by simp
qed

lemma finite_below [simp]: "finite {p. p < (n::nat) \<and> P p}"
  by simp

subsection \<open>Words\<close>

lemma unat_minus_one_pos: "w \<noteq> 0 \<Longrightarrow> unat (w - 1) = unat w - 1"
  for w :: "'a::len word"
  by (simp add: unat_minus_one)

lemma unat_plus_one_no_wrap:
  "unat w + 1 < 2 ^ LENGTH('a) \<Longrightarrow> unat (w + 1) = unat w + 1"
  for w :: "'a::len word"
  by (simp add: unat_word_ariths)

lemma word_gt_0_unat: "(0 < w) = (0 < unat w)"
  for w :: "'a::len word"
  by (simp add: word_gt_0 unat_gt_0)

lemma and_not_mask_shift: "w AND NOT (mask n) = push_bit n (drop_bit n w)" for w :: "'a::len word"
  by (rule bit_eqI) (auto simp: bit_simps)

lemma unat_and_not_mask: "unat (w AND NOT (mask n)) = unat w div 2 ^ n * 2 ^ n" for w :: "'a::len word"
proof -
  have "unat w < 2 ^ LENGTH('a)" by (rule unsigned_less)
  then have "unat w div 2 ^ n * 2 ^ n < 2 ^ LENGTH('a)"
    using div_times_less_eq_dividend [of "unat w" "2 ^ n"] by linarith
  then show ?thesis
    unfolding and_not_mask_shift unsigned_push_bit_eq unsigned_drop_bit_eq
    by (simp add: push_bit_eq_mult drop_bit_eq_div take_bit_eq_mod)
qed

lemma unat_two_power: "k < LENGTH('a) \<Longrightarrow> unat (2 ^ k :: 'a::len word) = 2 ^ k"
proof -
  assume "k < LENGTH('a)"
  then have "unat (of_nat (2 ^ k) :: 'a word) = 2 ^ k" by (simp only: unat_of_nat) (simp add: take_bit_eq_mod)
  then show ?thesis by simp
qed

lemma mask_15: "(15 :: u64) = mask 4"
  by (simp add: mask_eq_exp_minus_1)

subsection \<open>Bits of a byte, the shape of every bitmap of the kernel\<close>

lemma byte_bit_test: "(w AND 2 ^ n = 0) = (\<not> bit w n)" for w :: u8
  using bit_iff_and_push_bit_not_eq_0 [of w n] by simp

lemma byte_bit_set: "m < 8 \<Longrightarrow> bit (w OR 2 ^ m) n = (bit w n \<or> m = n)" for w :: u8
  by (auto simp: bit_or_iff bit_exp_iff possible_bit_def)

lemma byte_bit_clear: "m < 8 \<Longrightarrow> bit (w AND NOT (2 ^ m)) n = (bit w n \<and> m \<noteq> n)" for w :: u8
  by (auto simp: bit_and_iff bit_not_iff bit_exp_iff possible_bit_def dest: bit_imp_le_length)

lemma div_mod_8_eq: "(p div 8 = q div 8 \<and> p mod 8 = q mod 8) = (p = q)" for p q :: nat
  by (metis div_mult_mod_eq)

end
