(* ===== verification/Sched.thy ===== *)
theory Sched
  imports CapyBase
begin

text \<open>
  Tasks and the scheduler: \<^verbatim>\<open>src/src/kernel/task.c\<close> and \<^verbatim>\<open>src/src/kernel/scheduler.c\<close>. The static
  task table, the doubly linked run queue threaded through it, the current and the idle
  task, and the tick handler are the fields and operations of \<open>sched\<close>.

  A pointer to a task is the index of its slot (\<open>nat option\<close>, \<open>None\<close> for NULL). A \<^verbatim>\<open>for\<close> loop over
  the run queue follows the \<open>next\<close> links; \<open>walk\<close> bounds it by the 64 slots of the table, which
  is enough for every list without repetition (in a corrupted, cyclic list the C loop would
  not end; the invariant \<open>run_queue\<close> excludes it). The outcome of \<^verbatim>\<open>kmalloc\<close> is an argument; the
  switch of stacks itself (\<^verbatim>\<open>context_switch\<close>, \<^verbatim>\<open>arch_sched_apply_kernel_stack\<close>) and the
  smoke-test hooks are not modelled: after \<open>schedule\<close>, \<open>current_task\<close> names the task that runs.
\<close>

datatype task_state =
  TASK_STATE_UNUSED | TASK_STATE_CREATED | TASK_STATE_READY | TASK_STATE_RUNNING
| TASK_STATE_BLOCKED | TASK_STATE_SLEEPING | TASK_STATE_ZOMBIE | TASK_STATE_DEAD

type_synonym task_priority = nat

definition TASK_MAX_COUNT :: nat where "TASK_MAX_COUNT = 64"
definition TASK_NAME_MAX :: nat where "TASK_NAME_MAX = 32"
definition TASK_KERNEL_STACK_SIZE :: nat where "TASK_KERNEL_STACK_SIZE = 16384"
definition SCHED_DEFAULT_QUANTUM :: u32 where "SCHED_DEFAULT_QUANTUM = 10"
definition TASK_PRIORITY_IDLE :: task_priority where "TASK_PRIORITY_IDLE = 0"
definition TASK_PRIORITY_NORMAL :: task_priority where "TASK_PRIORITY_NORMAL = 2"

record task_context =
  cx_rsp :: u64
  cx_rbp :: u64
  cx_rbx :: u64
  cx_r12 :: u64
  cx_r13 :: u64
  cx_r14 :: u64
  cx_r15 :: u64
  cx_rip :: u64
  cx_rflags :: u64
  cx_cr3 :: u64
  cx_fx_state :: "u8 carr"

record task =
  tk_pid :: u32
  tk_ppid :: u32
  tk_name :: string
  tk_state :: task_state
  tk_priority :: task_priority
  tk_context :: task_context
  tk_kernel_stack :: "u64 option"
  tk_stack_mem :: "u64 \<Rightarrow> u64"
  tk_user_stack :: "u64 option"
  tk_kernel_stack_size :: nat
  tk_user_stack_size :: nat
  tk_cr3 :: u64
  tk_uid :: u32
  tk_gid :: u32
  tk_cpu_time_ns :: u64
  tk_wake_tick :: u64
  tk_exit_code :: int
  tk_quantum_remaining :: u32
  tk_next :: "nat option"
  tk_prev :: "nat option"
  tk_wait_channel :: "nat option"
  tk_active_session :: "nat option"

datatype scheduler_policy = SCHED_POLICY_ROUND_ROBIN | SCHED_POLICY_PRIORITY | SCHED_POLICY_COOPERATIVE

record scheduler_stats =
  total_switches :: u64
  total_ticks :: u64
  idle_ticks :: u64
  runnable_count :: u32
  blocked_count :: u32
  sleeping_count :: u32

record sched =
  task_table :: "task carr"
  next_pid :: u32
  current_task :: "nat option"
  task_active_count :: u32
  run_queue_head :: "nat option"
  run_queue_tail :: "nat option"
  idle_task :: "nat option"
  current_policy :: scheduler_policy
  sched_stats :: scheduler_stats
  sched_running :: bool
  preempt_disable_count :: u32

definition upd_task :: "nat \<Rightarrow> (task \<Rightarrow> task) \<Rightarrow> sched \<Rightarrow> sched" where
  "upd_task i f s = s\<lparr>task_table := (task_table s)(i := f (task_table s i))\<rparr>"

definition upd_stats :: "(scheduler_stats \<Rightarrow> scheduler_stats) \<Rightarrow> sched \<Rightarrow> sched" where
  "upd_stats f s = s\<lparr>sched_stats := f (sched_stats s)\<rparr>"

abbreviation tstate :: "sched \<Rightarrow> nat \<Rightarrow> task_state" where
  "tstate s i \<equiv> tk_state (task_table s i)"

subsection \<open>The run queue (\<^verbatim>\<open>scheduler.c\<close>)\<close>

definition scheduler_init :: "scheduler_policy \<Rightarrow> sched \<Rightarrow> sched" where
  "scheduler_init policy s =
     s\<lparr>run_queue_head := None, run_queue_tail := None, idle_task := None, current_policy := policy,
       sched_stats := \<lparr>total_switches = 0, total_ticks = 0, idle_ticks = 0, runnable_count = 0,
                       blocked_count = 0, sleeping_count = 0\<rparr>, sched_running := False\<rparr>"

definition scheduler_preempt_disable :: "sched \<Rightarrow> sched" where
  "scheduler_preempt_disable s = s\<lparr>preempt_disable_count := preempt_disable_count s + 1\<rparr>"

definition scheduler_preempt_enable :: "sched \<Rightarrow> sched" where
  "scheduler_preempt_enable s =
     (if preempt_disable_count s > 0 then s\<lparr>preempt_disable_count := preempt_disable_count s - 1\<rparr> else s)"

text \<open>The slots visited from \<open>p\<close> on; \<open>n\<close> bounds the number of steps.\<close>

fun walk_from :: "task carr \<Rightarrow> nat \<Rightarrow> nat option \<Rightarrow> nat list" where
  "walk_from tt 0 p = []"
| "walk_from tt (Suc n) None = []"
| "walk_from tt (Suc n) (Some i) = i # walk_from tt n (tk_next (tt i))"

definition queue_walk :: "sched \<Rightarrow> nat option \<Rightarrow> nat list" where
  "queue_walk s p = walk_from (task_table s) TASK_MAX_COUNT p"

definition scheduler_add :: "nat option \<Rightarrow> sched \<Rightarrow> sched" where
  "scheduler_add ot s =
     (case ot of None \<Rightarrow> s
      | Some t \<Rightarrow>
          let s1 = upd_task t (\<lambda>k. k\<lparr>tk_next := None, tk_prev := run_queue_tail s\<rparr>) s;
              s2 = (case run_queue_tail s1 of
                      Some l \<Rightarrow> upd_task l (\<lambda>k. k\<lparr>tk_next := Some t\<rparr>) s1
                    | None \<Rightarrow> s1\<lparr>run_queue_head := Some t\<rparr>)
          in s2\<lparr>run_queue_tail := Some t\<rparr>)"

definition scheduler_remove :: "nat option \<Rightarrow> sched \<Rightarrow> sched" where
  "scheduler_remove ot s =
     (case ot of None \<Rightarrow> s
      | Some t \<Rightarrow>
          (if t \<notin> set (queue_walk s (run_queue_head s))
           then upd_task t (\<lambda>k. k\<lparr>tk_next := None, tk_prev := None\<rparr>) s
           else
             let s1 = (case tk_prev (task_table s t) of
                         Some p \<Rightarrow> upd_task p (\<lambda>k. k\<lparr>tk_next := tk_next (task_table s t)\<rparr>) s
                       | None \<Rightarrow> s\<lparr>run_queue_head := tk_next (task_table s t)\<rparr>);
                 s2 = (case tk_next (task_table s1 t) of
                         Some n \<Rightarrow> upd_task n (\<lambda>k. k\<lparr>tk_prev := tk_prev (task_table s1 t)\<rparr>) s1
                       | None \<Rightarrow> s1\<lparr>run_queue_tail := tk_prev (task_table s1 t)\<rparr>)
             in upd_task t (\<lambda>k. k\<lparr>tk_next := None, tk_prev := None\<rparr>) s2))"

text \<open>First READY task in a list of slots; best READY task by priority, first among equals.\<close>

definition first_ready :: "sched \<Rightarrow> nat list \<Rightarrow> nat option" where
  "first_ready s xs = find (\<lambda>i. tstate s i = TASK_STATE_READY) xs"

fun best_ready :: "sched \<Rightarrow> nat list \<Rightarrow> nat option \<Rightarrow> nat option" where
  "best_ready s [] best = best"
| "best_ready s (i # is) best =
     best_ready s is
       (if tstate s i = TASK_STATE_READY \<and>
           (case best of None \<Rightarrow> True
            | Some b \<Rightarrow> tk_priority (task_table s i) > tk_priority (task_table s b))
        then Some i else best)"

definition scheduler_pick_next :: "sched \<Rightarrow> nat option" where
  "scheduler_pick_next s =
     (let best = (if current_policy s = SCHED_POLICY_PRIORITY
                  then best_ready s (queue_walk s (run_queue_head s)) None
                  else first_ready s (queue_walk s (run_queue_head s)))
      in case best of Some b \<Rightarrow> Some b | None \<Rightarrow> idle_task s)"

text \<open>The candidates after \<open>c\<close>, then those before it, in queue order.\<close>

definition after_then_before :: "sched \<Rightarrow> nat \<Rightarrow> nat list" where
  "after_then_before s c =
     queue_walk s (tk_next (task_table s c)) @ takeWhile (\<lambda>i. i \<noteq> c) (queue_walk s (run_queue_head s))"

definition scheduler_pick_next_after :: "nat option \<Rightarrow> sched \<Rightarrow> nat option" where
  "scheduler_pick_next_after current s =
     (case current of None \<Rightarrow> scheduler_pick_next s
      | Some c \<Rightarrow> (case first_ready s (after_then_before s c) of Some t \<Rightarrow> Some t | None \<Rightarrow> idle_task s))"

definition scheduler_pick_priority_after :: "nat option \<Rightarrow> sched \<Rightarrow> nat option" where
  "scheduler_pick_priority_after current s =
     (case current of None \<Rightarrow> scheduler_pick_next s
      | Some c \<Rightarrow> (case best_ready s (after_then_before s c) None of Some t \<Rightarrow> Some t | None \<Rightarrow> idle_task s))"

definition scheduler_pick_next_for_current :: "nat option \<Rightarrow> sched \<Rightarrow> nat option" where
  "scheduler_pick_next_for_current current s =
     (if current_policy s = SCHED_POLICY_PRIORITY then scheduler_pick_priority_after current s
      else scheduler_pick_next_after current s)"

definition schedule :: "sched \<Rightarrow> sched" where
  "schedule s =
     (let current = current_task s; nxt = scheduler_pick_next_for_current current s in
      case nxt of None \<Rightarrow> s
      | Some n \<Rightarrow>
          if nxt = current then s
          else
            let s1 = (case current of
                        Some c \<Rightarrow> (if tstate s c = TASK_STATE_RUNNING
                                   then upd_task c (\<lambda>k. k\<lparr>tk_state := TASK_STATE_READY\<rparr>) s else s)
                      | None \<Rightarrow> s);
                s2 = (upd_task n (\<lambda>k. k\<lparr>tk_state := TASK_STATE_RUNNING\<rparr>) s1)\<lparr>current_task := Some n\<rparr>;
                s3 = upd_stats (\<lambda>st. st\<lparr>total_switches := total_switches st + 1\<rparr>) s2
            in if nxt = idle_task s3
               then upd_stats (\<lambda>st. st\<lparr>idle_ticks := idle_ticks st + 1\<rparr>) s3 else s3)"

definition scheduler_yield :: "sched \<Rightarrow> sched" where
  "scheduler_yield s = (if \<not> sched_running s then s else schedule s)"

definition scheduler_block_current :: "nat option \<Rightarrow> sched \<Rightarrow> sched" where
  "scheduler_block_current channel s =
     (case current_task s of None \<Rightarrow> s
      | Some c \<Rightarrow>
          schedule (upd_stats (\<lambda>st. st\<lparr>blocked_count := blocked_count st + 1\<rparr>)
            (upd_task c (\<lambda>k. k\<lparr>tk_state := TASK_STATE_BLOCKED, tk_wait_channel := channel\<rparr>) s)))"

definition unblock_step :: "nat option \<Rightarrow> nat \<Rightarrow> sched \<Rightarrow> sched" where
  "unblock_step channel i s =
     (if tstate s i = TASK_STATE_BLOCKED \<and> tk_wait_channel (task_table s i) = channel
      then upd_stats (\<lambda>st. if blocked_count st > 0 then st\<lparr>blocked_count := blocked_count st - 1\<rparr> else st)
             (upd_task i (\<lambda>k. k\<lparr>tk_state := TASK_STATE_READY, tk_wait_channel := None\<rparr>) s)
      else s)"

definition scheduler_unblock :: "nat option \<Rightarrow> sched \<Rightarrow> sched" where
  "scheduler_unblock channel s = fold (unblock_step channel) (queue_walk s (run_queue_head s)) s"

definition scheduler_sleep_current :: "u64 \<Rightarrow> sched \<Rightarrow> sched" where
  "scheduler_sleep_current ticks s =
     (case current_task s of None \<Rightarrow> s
      | Some c \<Rightarrow>
          schedule (upd_stats (\<lambda>st. st\<lparr>sleeping_count := sleeping_count st + 1\<rparr>)
            (upd_task c (\<lambda>k. k\<lparr>tk_state := TASK_STATE_SLEEPING,
                                tk_wake_tick := total_ticks (sched_stats s) + ticks\<rparr>) s)))"

definition scheduler_can_sleep_current :: "sched \<Rightarrow> bool" where
  "scheduler_can_sleep_current s =
     (case current_task s of None \<Rightarrow> False
      | Some c \<Rightarrow>
          sched_running s \<and> total_ticks (sched_stats s) \<noteq> 0 \<and> tstate s c = TASK_STATE_RUNNING \<and>
          ((\<exists>t \<in> set (queue_walk s (run_queue_head s)). t \<noteq> c \<and> tstate s t = TASK_STATE_READY) \<or>
           idle_task s \<noteq> None \<and> current_policy s \<noteq> SCHED_POLICY_COOPERATIVE))"

subsection \<open>Tasks (\<^verbatim>\<open>task.c\<close>)\<close>

definition task_system_init :: "sched \<Rightarrow> sched" where
  "task_system_init s =
     s\<lparr>task_table := (\<lambda>i. if i < TASK_MAX_COUNT
          then (task_table s i)\<lparr>tk_state := TASK_STATE_UNUSED, tk_pid := 0\<rparr> else task_table s i),
       next_pid := 1, current_task := None, task_active_count := 0\<rparr>"

definition task_alloc :: "sched \<Rightarrow> nat option" where
  "task_alloc s = find (\<lambda>i. tstate s i = TASK_STATE_UNUSED) [0..<TASK_MAX_COUNT]"

definition task_name_copy :: "string \<Rightarrow> nat \<Rightarrow> string" where
  "task_name_copy src mx = take (mx - 1) src"

definition fx_reset :: "u8 carr" where
  "fx_reset = (\<lambda>_. 0)(0 := 0x7f, 1 := 0x03, 24 := 0x80, 25 := 0x1f)"

text \<open>
  The initial stack frame, written downwards from the 16-byte aligned top of the stack: a padding
  word, the entry point, the argument and a null return address. \<open>tk_stack_mem\<close> is the
  memory behind \<open>tk_kernel_stack\<close>.
\<close>

definition stack_frame :: "u64 \<Rightarrow> u64 \<Rightarrow> u64 \<Rightarrow> (u64 \<Rightarrow> u64) \<Rightarrow> u64 \<times> (u64 \<Rightarrow> u64)" where
  "stack_frame kstack entry arg m =
     (let top = (kstack + of_nat TASK_KERNEL_STACK_SIZE) AND NOT 0xF;
          t1 = top - 8; m1 = m(t1 := 0);
          t2 = t1 - 8; m2 = m1(t2 := entry);
          t3 = t2 - 8; m3 = m2(t3 := arg);
          t4 = t3 - 8; m4 = m3(t4 := 0)
      in (t4, m4))"

definition task_create ::
  "u64 option \<Rightarrow> u64 \<Rightarrow> u64 \<Rightarrow> string \<Rightarrow> u64 \<Rightarrow> u64 \<Rightarrow> task_priority \<Rightarrow> sched \<Rightarrow> nat option \<times> sched" where
  "task_create kstack kernel_cr3 trampoline name entry arg priority s =
     (case task_alloc s of None \<Rightarrow> (None, s)
      | Some i \<Rightarrow>
          let cur = current_task s;
              s1 = s\<lparr>next_pid := next_pid s + 1\<rparr>;
              s2 = upd_task i (\<lambda>k. k\<lparr>tk_pid := next_pid s,
                     tk_ppid := (case cur of None \<Rightarrow> 0 | Some c \<Rightarrow> tk_pid (task_table s c)),
                     tk_name := task_name_copy name TASK_NAME_MAX, tk_state := TASK_STATE_CREATED,
                     tk_priority := priority, tk_uid := 0, tk_gid := 0, tk_cpu_time_ns := 0,
                     tk_wake_tick := 0, tk_exit_code := 0, tk_quantum_remaining := SCHED_DEFAULT_QUANTUM,
                     tk_next := None, tk_prev := None, tk_wait_channel := None,
                     tk_active_session := (case cur of None \<Rightarrow> None | Some c \<Rightarrow> tk_active_session (task_table s c)),
                     tk_kernel_stack_size := TASK_KERNEL_STACK_SIZE, tk_kernel_stack := kstack\<rparr>) s1
          in case kstack of
               None \<Rightarrow> (None, upd_task i (\<lambda>k. k\<lparr>tk_state := TASK_STATE_UNUSED\<rparr>) s2)
             | Some base \<Rightarrow>
                 let (sp, mem) = stack_frame base entry arg (tk_stack_mem (task_table s2 i)) in
                 (Some i, (upd_task i (\<lambda>k. k\<lparr>tk_user_stack := None, tk_user_stack_size := 0, tk_cr3 := kernel_cr3,
                      tk_stack_mem := mem,
                      tk_context := \<lparr>cx_rsp = sp, cx_rbp = sp, cx_rbx = 0,
                        cx_r12 = 0, cx_r13 = 0, cx_r14 = 0, cx_r15 = 0, cx_rip = trampoline,
                        cx_rflags = 0x202, cx_cr3 = kernel_cr3, cx_fx_state = fx_reset\<rparr>,
                      tk_state := TASK_STATE_READY\<rparr>) s2)\<lparr>task_active_count := task_active_count s + 1\<rparr>))"

definition task_create_kernel ::
  "u64 option \<Rightarrow> u64 \<Rightarrow> u64 \<Rightarrow> string \<Rightarrow> u64 \<Rightarrow> u64 \<Rightarrow> sched \<Rightarrow> nat option \<times> sched" where
  "task_create_kernel kstack kernel_cr3 trampoline name entry arg s =
     task_create kstack kernel_cr3 trampoline name entry arg TASK_PRIORITY_NORMAL s"

definition task_set_current :: "nat option \<Rightarrow> sched \<Rightarrow> sched" where
  "task_set_current t s = s\<lparr>current_task := t\<rparr>"

definition task_by_pid :: "u32 \<Rightarrow> sched \<Rightarrow> nat option" where
  "task_by_pid pid s =
     find (\<lambda>i. tstate s i \<noteq> TASK_STATE_UNUSED \<and> tk_pid (task_table s i) = pid) [0..<TASK_MAX_COUNT]"

definition task_at_index :: "nat \<Rightarrow> nat option" where
  "task_at_index i = (if i \<ge> TASK_MAX_COUNT then None else Some i)"

definition task_kill :: "u32 \<Rightarrow> sched \<Rightarrow> int \<times> sched" where
  "task_kill pid s =
     (case task_by_pid pid s of None \<Rightarrow> (-1, s)
      | Some t \<Rightarrow>
          if tstate s t = TASK_STATE_UNUSED then (-1, s)
          else if current_task s = Some t then (-2, s)
          else
            let s1 = scheduler_remove (Some t) s;
                s2 = upd_task t (\<lambda>k. k\<lparr>tk_state := TASK_STATE_DEAD\<rparr>) s1;
                s3 = upd_task t (\<lambda>k. k\<lparr>tk_kernel_stack := None, tk_user_stack := None\<rparr>) s2;
                s4 = upd_task t (\<lambda>k. k\<lparr>tk_state := TASK_STATE_UNUSED, tk_active_session := None\<rparr>) s3
            in (0, if task_active_count s4 > 0 then s4\<lparr>task_active_count := task_active_count s4 - 1\<rparr> else s4))"

text \<open>\<^verbatim>\<open>task_exit\<close> up to the switch; the halt loop after it is never left.\<close>

definition task_exit :: "int \<Rightarrow> sched \<Rightarrow> sched" where
  "task_exit code s =
     scheduler_yield (case current_task s of None \<Rightarrow> s
       | Some c \<Rightarrow> upd_task c (\<lambda>k. k\<lparr>tk_exit_code := code, tk_state := TASK_STATE_ZOMBIE\<rparr>) s)"

definition task_sleep :: "u64 \<Rightarrow> sched \<Rightarrow> sched" where
  "task_sleep ticks s =
     (if current_task s = None then s
      else if \<not> scheduler_can_sleep_current s then scheduler_yield s
      else scheduler_sleep_current ticks s)"

definition task_wake :: "nat option \<Rightarrow> sched \<Rightarrow> sched" where
  "task_wake ot s =
     (case ot of None \<Rightarrow> s
      | Some t \<Rightarrow> (if tstate s t = TASK_STATE_SLEEPING \<or> tstate s t = TASK_STATE_BLOCKED
                  then upd_task t (\<lambda>k. k\<lparr>tk_state := TASK_STATE_READY\<rparr>) s else s))"

definition task_block :: "nat option \<Rightarrow> nat option \<Rightarrow> sched \<Rightarrow> sched" where
  "task_block ot channel s =
     (case ot of None \<Rightarrow> s
      | Some t \<Rightarrow> upd_task t (\<lambda>k. k\<lparr>tk_wait_channel := channel, tk_state := TASK_STATE_BLOCKED\<rparr>) s)"

definition task_unblock_channel :: "nat option \<Rightarrow> sched \<Rightarrow> sched" where
  "task_unblock_channel channel s =
     fold (\<lambda>i s. if tstate s i = TASK_STATE_BLOCKED \<and> tk_wait_channel (task_table s i) = channel
                 then upd_task i (\<lambda>k. k\<lparr>tk_state := TASK_STATE_READY, tk_wait_channel := None\<rparr>) s else s)
          [0..<TASK_MAX_COUNT] s"

subsection \<open>The tick (\<^verbatim>\<open>scheduler_tick\<close>)\<close>

definition wake_step :: "nat \<Rightarrow> sched \<Rightarrow> sched" where
  "wake_step i s =
     (if tstate s i = TASK_STATE_SLEEPING \<and> tk_wake_tick (task_table s i) \<le> total_ticks (sched_stats s)
      then upd_stats (\<lambda>st. if sleeping_count st > 0 then st\<lparr>sleeping_count := sleeping_count st - 1\<rparr> else st)
             (upd_task i (\<lambda>k. k\<lparr>tk_state := TASK_STATE_READY, tk_wake_tick := 0\<rparr>) s)
      else s)"

text \<open>The reaping loop; the successor is read before the task is killed.\<close>

fun reap_from :: "nat \<Rightarrow> nat option \<Rightarrow> sched \<Rightarrow> sched" where
  "reap_from 0 p s = s"
| "reap_from (Suc n) None s = s"
| "reap_from (Suc n) (Some t) s =
     (let nxt = tk_next (task_table s t);
          s1 = (if (tstate s t = TASK_STATE_ZOMBIE \<or> tstate s t = TASK_STATE_DEAD) \<and> current_task s \<noteq> Some t
                then snd (task_kill (tk_pid (task_table s t)) s) else s)
      in reap_from n nxt s1)"

definition count_runnable :: "sched \<Rightarrow> u32" where
  "count_runnable s =
     of_nat (length (filter (\<lambda>i. tstate s i = TASK_STATE_READY \<or> tstate s i = TASK_STATE_RUNNING)
                            (queue_walk s (run_queue_head s))))"

definition quantum_tick :: "sched \<Rightarrow> sched" where
  "quantum_tick s =
     (if current_policy s = SCHED_POLICY_COOPERATIVE then s
      else case current_task s of
        Some c \<Rightarrow>
          if tstate s c = TASK_STATE_RUNNING \<and> idle_task s \<noteq> Some c then
            (let s1 = (if tk_quantum_remaining (task_table s c) > 0
                       then upd_task c (\<lambda>k. k\<lparr>tk_quantum_remaining := tk_quantum_remaining k - 1\<rparr>) s else s)
             in if tk_quantum_remaining (task_table s1 c) = 0
                then schedule (upd_task c (\<lambda>k. k\<lparr>tk_quantum_remaining := SCHED_DEFAULT_QUANTUM\<rparr>) s1)
                else s1)
          else schedule s
      | None \<Rightarrow> schedule s)"

definition scheduler_tick :: "sched \<Rightarrow> sched" where
  "scheduler_tick s =
     (let s1 = upd_stats (\<lambda>st. st\<lparr>total_ticks := total_ticks st + 1\<rparr>) s;
          s2 = fold wake_step (queue_walk s1 (run_queue_head s1)) s1
      in if preempt_disable_count s2 \<noteq> 0 then s2
      else let s3 = reap_from TASK_MAX_COUNT (run_queue_head s2) s2;
               s4 = upd_stats (\<lambda>st. st\<lparr>runnable_count := count_runnable s3\<rparr>) s3
           in quantum_tick s4)"

definition scheduler_set_running :: "bool \<Rightarrow> sched \<Rightarrow> sched" where
  "scheduler_set_running b s = s\<lparr>sched_running := b\<rparr>"

definition scheduler_set_policy :: "scheduler_policy \<Rightarrow> sched \<Rightarrow> sched" where
  "scheduler_set_policy policy s = s\<lparr>current_policy := policy\<rparr>"

text \<open>\<^verbatim>\<open>scheduler_start\<close> up to its idle loop.\<close>

definition scheduler_start :: "u64 option \<Rightarrow> u64 \<Rightarrow> u64 \<Rightarrow> u64 \<Rightarrow> sched \<Rightarrow> sched" where
  "scheduler_start kstack kernel_cr3 trampoline idle_entry s =
     (let (it, s1) = task_create_kernel kstack kernel_cr3 trampoline ''idle'' idle_entry 0 s;
          s2 = s1\<lparr>idle_task := it\<rparr>;
          s3 = (case it of None \<Rightarrow> s2
                | Some i \<Rightarrow> scheduler_add it (upd_task i (\<lambda>k. k\<lparr>tk_priority := TASK_PRIORITY_IDLE\<rparr>) s2));
          s4 = s3\<lparr>sched_running := True\<rparr>
      in case scheduler_pick_next s4 of None \<Rightarrow> s4
         | Some f \<Rightarrow> (upd_task f (\<lambda>k. k\<lparr>tk_state := TASK_STATE_RUNNING\<rparr>) s4)\<lparr>current_task := Some f\<rparr>)"

subsection \<open>The run queue as a list\<close>

definition first_of :: "nat list \<Rightarrow> nat option \<Rightarrow> nat option" where
  "first_of xs n = (case xs of [] \<Rightarrow> n | x # _ \<Rightarrow> Some x)"

definition last_of :: "nat list \<Rightarrow> nat option \<Rightarrow> nat option" where
  "last_of xs p = (if xs = [] then p else Some (last xs))"

text \<open>A doubly linked segment: \<open>p\<close> precedes it, \<open>n\<close> follows it.\<close>

fun dseg :: "task carr \<Rightarrow> nat option \<Rightarrow> nat list \<Rightarrow> nat option \<Rightarrow> bool" where
  "dseg tt p [] n = True"
| "dseg tt p (x # xs) n =
     (tk_prev (tt x) = p \<and> tk_next (tt x) = first_of xs n \<and> dseg tt (Some x) xs n)"

definition run_queue :: "sched \<Rightarrow> nat list \<Rightarrow> bool" where
  "run_queue s xs =
     (distinct xs \<and> set xs \<subseteq> {..<TASK_MAX_COUNT} \<and> run_queue_head s = first_of xs None \<and>
      run_queue_tail s = last_of xs None \<and> dseg (task_table s) None xs None)"

lemma first_of_simps [simp]: "first_of [] n = n" "first_of (x # xs) n = Some x"
  by (simp_all add: first_of_def)

lemma last_of_simps [simp]: "last_of [] n = n" "last_of (xs @ [x]) n = Some x"
  "last_of (x # xs) n = last_of xs (Some x)"
  by (simp_all add: last_of_def)

lemma last_of_in: "last_of xs None = Some x \<Longrightarrow> x \<in> set xs"
  by (auto simp: last_of_def split: if_splits)

lemma first_of_in: "first_of xs None = Some x \<Longrightarrow> x \<in> set xs"
  by (cases xs) simp_all

lemma last_of_append [simp]: "last_of (xs @ ys) p = last_of ys (last_of xs p)"
  by (simp add: last_of_def)

lemma first_of_append [simp]: "first_of (xs @ ys) n = first_of xs (first_of ys n)"
  by (cases xs) simp_all

lemma dseg_append:
  "dseg tt p (xs @ ys) n \<longleftrightarrow> dseg tt p xs (first_of ys n) \<and> dseg tt (last_of xs p) ys n"
  by (induction xs arbitrary: p) (auto simp: first_of_append)

lemma dseg_cong:
  assumes "\<And>x. x \<in> set xs \<Longrightarrow> tk_next (tt' x) = tk_next (tt x) \<and> tk_prev (tt' x) = tk_prev (tt x)"
  shows "dseg tt' p xs n = dseg tt p xs n"
  using assms by (induction xs arbitrary: p) auto

lemma upd_task_sel [simp]:
  "task_table (upd_task i f s) = (task_table s)(i := f (task_table s i))"
  "run_queue_head (upd_task i f s) = run_queue_head s" "run_queue_tail (upd_task i f s) = run_queue_tail s"
  "current_task (upd_task i f s) = current_task s" "idle_task (upd_task i f s) = idle_task s"
  "current_policy (upd_task i f s) = current_policy s" "sched_stats (upd_task i f s) = sched_stats s"
  "sched_running (upd_task i f s) = sched_running s"
  "preempt_disable_count (upd_task i f s) = preempt_disable_count s"
  "task_active_count (upd_task i f s) = task_active_count s" "next_pid (upd_task i f s) = next_pid s"
  by (simp_all add: upd_task_def)

lemma upd_stats_sel [simp]:
  "task_table (upd_stats f s) = task_table s" "sched_stats (upd_stats f s) = f (sched_stats s)"
  "run_queue_head (upd_stats f s) = run_queue_head s" "run_queue_tail (upd_stats f s) = run_queue_tail s"
  "current_task (upd_stats f s) = current_task s" "idle_task (upd_stats f s) = idle_task s"
  "current_policy (upd_stats f s) = current_policy s" "sched_running (upd_stats f s) = sched_running s"
  "preempt_disable_count (upd_stats f s) = preempt_disable_count s"
  "task_active_count (upd_stats f s) = task_active_count s" "next_pid (upd_stats f s) = next_pid s"
  by (simp_all add: upd_stats_def)

text \<open>Operations that leave the links alone keep the queue.\<close>

definition same_links :: "sched \<Rightarrow> sched \<Rightarrow> bool" where
  "same_links s s' =
     (run_queue_head s' = run_queue_head s \<and> run_queue_tail s' = run_queue_tail s \<and>
      (\<forall>i. tk_next (task_table s' i) = tk_next (task_table s i) \<and>
           tk_prev (task_table s' i) = tk_prev (task_table s i)))"

lemma run_queue_same: "run_queue s xs \<Longrightarrow> same_links s s' \<Longrightarrow> run_queue s' xs"
  unfolding run_queue_def same_links_def using dseg_cong [of xs "task_table s'" "task_table s"] by auto

lemma run_queue_length: "run_queue s xs \<Longrightarrow> length xs \<le> TASK_MAX_COUNT"
proof -
  assume "run_queue s xs"
  then have "distinct xs" "set xs \<subseteq> {..<TASK_MAX_COUNT}" by (auto simp: run_queue_def)
  then show ?thesis
    using card_mono [of "{..<TASK_MAX_COUNT}" "set xs"] by (simp add: distinct_card)
qed

lemma walk_dseg:
  "dseg tt p xs None \<Longrightarrow> length xs \<le> n \<Longrightarrow> walk_from tt n (first_of xs None) = xs"
proof (induction xs arbitrary: p n)
  case Nil
  then show ?case by (cases n) simp_all
next
  case (Cons x xs)
  then show ?case by (cases n) auto
qed

lemma queue_walk_head:
  assumes "run_queue s xs"
  shows "queue_walk s (run_queue_head s) = xs"
  using assms walk_dseg [of "task_table s" None xs TASK_MAX_COUNT] run_queue_length [OF assms]
  by (simp add: queue_walk_def run_queue_def)

lemma queue_walk_next:
  assumes "run_queue s (ys @ t # zs)"
  shows "queue_walk s (tk_next (task_table s t)) = zs"
proof -
  have "dseg (task_table s) (last_of ys None) (t # zs) None"
    using assms by (auto simp: run_queue_def dseg_append)
  then show ?thesis
    using walk_dseg [of "task_table s" "Some t" zs TASK_MAX_COUNT] run_queue_length [OF assms]
    by (simp add: queue_walk_def)
qed

lemma run_queue_add:
  assumes "run_queue s xs" and "t \<notin> set xs" and "t < TASK_MAX_COUNT"
  shows "run_queue (scheduler_add (Some t) s) (xs @ [t])"
proof (cases xs rule: rev_cases)
  case Nil
  with assms show ?thesis by (auto simp: run_queue_def scheduler_add_def Let_def)
next
  case (snoc ys l)
  have d: "dseg (task_table s) None (ys @ [l]) None" "l \<notin> set ys" "t \<noteq> l" "t \<notin> set ys"
    using assms snoc by (auto simp: run_queue_def)
  let ?tt = "task_table (scheduler_add (Some t) s)"
  have tail: "run_queue_tail s = Some l" using assms snoc by (simp add: run_queue_def)
  have tt: "?tt = (task_table s)(t := (task_table s t)\<lparr>tk_next := None, tk_prev := Some l\<rparr>,
      l := (task_table s l)\<lparr>tk_next := Some t\<rparr>)"
    using d(3) by (simp add: scheduler_add_def Let_def tail)
  have "dseg ?tt None ys (Some l) = dseg (task_table s) None ys (Some l)"
    using d by (intro dseg_cong) (auto simp: tt)
  then have "dseg ?tt None (ys @ [l] @ [t]) None"
    using d unfolding dseg_append by (simp add: tt)
  then show ?thesis
    using assms snoc tail by (auto simp: run_queue_def) (auto simp: scheduler_add_def Let_def tail first_of_append)
qed

lemma run_queue_remove:
  assumes q: "run_queue s xs"
  shows "run_queue (scheduler_remove (Some t) s) (remove1 t xs)"
proof (cases "t \<in> set xs")
  case False
  then have "remove1 t xs = xs" by (simp add: remove1_idem)
  moreover have "dseg ((task_table s)(t := (task_table s t)\<lparr>tk_next := None, tk_prev := None\<rparr>)) None xs None =
      dseg (task_table s) None xs None"
    using False by (intro dseg_cong) auto
  ultimately show ?thesis
    using q False unfolding scheduler_remove_def queue_walk_head [OF q] by (simp add: run_queue_def)
next
  case True
  then obtain ys zs where xs: "xs = ys @ t # zs" by (auto simp: in_set_conv_decomp)
  have dist: "distinct (ys @ t # zs)" and sub: "set ys \<union> set zs \<subseteq> {..<TASK_MAX_COUNT}"
    and hd: "run_queue_head s = first_of (ys @ t # zs) None" and tl: "run_queue_tail s = last_of (ys @ t # zs) None"
    and seg: "dseg (task_table s) None ys (Some t)"
      "tk_prev (task_table s t) = last_of ys None" "tk_next (task_table s t) = first_of zs None"
      "dseg (task_table s) (Some t) zs None"
    using q by (auto simp: run_queue_def xs dseg_append)
  let ?s = "scheduler_remove (Some t) s"
  have tl_ne: "last_of ys None \<noteq> Some t" "first_of zs None \<noteq> Some t"
    using dist last_of_in first_of_in by fastforce+
  have s: "?s = (let s1 = (case last_of ys None of
                         Some p \<Rightarrow> upd_task p (\<lambda>k. k\<lparr>tk_next := first_of zs None\<rparr>) s
                       | None \<Rightarrow> s\<lparr>run_queue_head := first_of zs None\<rparr>);
                 s2 = (case first_of zs None of
                         Some n \<Rightarrow> upd_task n (\<lambda>k. k\<lparr>tk_prev := last_of ys None\<rparr>) s1
                       | None \<Rightarrow> s1\<lparr>run_queue_tail := last_of ys None\<rparr>)
             in upd_task t (\<lambda>k. k\<lparr>tk_next := None, tk_prev := None\<rparr>) s2)"
    using tl_ne seg True unfolding scheduler_remove_def queue_walk_head [OF q]
    by (auto simp: Let_def split: option.split)
  have nx: "tk_next (task_table ?s x) = (if x = t then None
      else if last_of ys None = Some x then first_of zs None else tk_next (task_table s x))" for x
    unfolding s Let_def by (cases "last_of ys None"; cases "first_of zs None") auto
  have pv: "tk_prev (task_table ?s x) = (if x = t then None
      else if first_of zs None = Some x then last_of ys None else tk_prev (task_table s x))" for x
    unfolding s Let_def by (cases "last_of ys None"; cases "first_of zs None") auto
  have ends: "run_queue_head ?s = (if ys = [] then first_of zs None else run_queue_head s)"
    "run_queue_tail ?s = (if zs = [] then last_of ys None else run_queue_tail s)"
    unfolding s Let_def
    by (cases ys rule: rev_cases; cases zs; simp)+
  have A: "dseg (task_table ?s) None ys (first_of zs None)"
  proof (cases ys rule: rev_cases)
    case (snoc ys' l)
    have "first_of zs None \<noteq> Some x" if "x \<in> set ys" for x
      using that dist first_of_in by fastforce
    then have "dseg (task_table ?s) None ys' (Some l) = dseg (task_table s) None ys' (Some l)"
      using dist by (intro dseg_cong) (auto simp: nx pv snoc)
    moreover have "tk_prev (task_table ?s l) = tk_prev (task_table s l)" "tk_next (task_table ?s l) = first_of zs None"
      using \<open>\<And>x. x \<in> set ys \<Longrightarrow> _ x\<close> dist by (auto simp: nx pv snoc)
    ultimately show ?thesis using seg(1) unfolding snoc dseg_append by simp
  qed simp
  have B: "dseg (task_table ?s) (last_of ys None) zs None"
  proof (cases zs)
    case (Cons z zs')
    have "last_of ys None \<noteq> Some x" if "x \<in> set zs" for x
      using that dist last_of_in by fastforce
    then have "dseg (task_table ?s) (Some z) zs' None = dseg (task_table s) (Some z) zs' None"
      "tk_next (task_table ?s z) = tk_next (task_table s z)" "tk_prev (task_table ?s z) = last_of ys None"
      using dist by (auto intro!: dseg_cong simp: nx pv Cons)
    then show ?thesis using seg(4) by (simp add: Cons)
  qed simp
  have "run_queue ?s (ys @ zs)"
    using A B dist sub hd tl unfolding run_queue_def dseg_append ends
    by (cases ys; cases zs) auto
  moreover have "remove1 t xs = ys @ zs" using dist by (simp add: xs remove1_append)
  ultimately show ?thesis by simp
qed

subsection \<open>The scheduler invariant\<close>

definition queued_live :: "sched \<Rightarrow> nat list \<Rightarrow> bool" where
  "queued_live s xs =
     ((\<forall>i\<in>set xs. tstate s i \<noteq> TASK_STATE_UNUSED) \<and>
      (\<forall>i<TASK_MAX_COUNT. i \<notin> set xs \<longrightarrow> tk_next (task_table s i) = None))"

definition one_running :: "sched \<Rightarrow> bool" where
  "one_running s = (\<forall>i<TASK_MAX_COUNT. tstate s i = TASK_STATE_RUNNING \<longrightarrow> current_task s = Some i)"

definition live_ends :: "sched \<Rightarrow> bool" where
  "live_ends s =
     ((\<forall>c. current_task s = Some c \<longrightarrow> c < TASK_MAX_COUNT \<and> tstate s c \<noteq> TASK_STATE_UNUSED) \<and>
      (\<forall>i. idle_task s = Some i \<longrightarrow> i < TASK_MAX_COUNT))"

definition sched_inv :: "sched \<Rightarrow> bool" where
  "sched_inv s = ((\<exists>xs. run_queue s xs \<and> queued_live s xs) \<and> one_running s \<and> live_ends s)"

text \<open>Updates of one task that keep its links and make it neither free nor running.\<close>

lemma sched_inv_upd:
  assumes "sched_inv s" and "\<And>k. tk_next (f k) = tk_next k \<and> tk_prev (f k) = tk_prev k"
    and "\<And>k. tk_state (f k) \<noteq> TASK_STATE_UNUSED \<or> tk_state (f k) = tk_state k"
    and "\<And>k. tk_state (f k) \<noteq> TASK_STATE_RUNNING \<or> tk_state (f k) = tk_state k"
  shows "sched_inv (upd_task i f s)"
proof -
  have l: "same_links s (upd_task i f s)" using assms(2) by (simp add: same_links_def)
  obtain xs where xs: "run_queue s xs" "queued_live s xs" using assms(1) by (auto simp: sched_inv_def)
  have "run_queue (upd_task i f s) xs" by (rule run_queue_same [OF xs(1) l])
  moreover have "queued_live (upd_task i f s) xs"
    using xs(2) assms(2,3) unfolding queued_live_def by (auto simp: fun_upd_def split: if_splits)
  moreover have "one_running (upd_task i f s)"
    unfolding one_running_def
  proof (intro allI impI)
    fix j assume j: "j < TASK_MAX_COUNT" "tstate (upd_task i f s) j = TASK_STATE_RUNNING"
    then have "tstate s j = TASK_STATE_RUNNING" using assms(4) [of "task_table s i"] by (cases "j = i") auto
    with assms(1) j(1) show "current_task (upd_task i f s) = Some j" by (simp add: sched_inv_def one_running_def)
  qed
  moreover have "live_ends (upd_task i f s)"
  proof -
    have "tstate (upd_task i f s) c \<noteq> TASK_STATE_UNUSED" if "tstate s c \<noteq> TASK_STATE_UNUSED" for c
      using that assms(3) [of "task_table s i"] by (cases "c = i") auto
    with assms(1) show ?thesis by (simp add: sched_inv_def live_ends_def)
  qed
  ultimately show ?thesis by (auto simp: sched_inv_def)
qed

lemma sched_inv_stats [simp]: "sched_inv (upd_stats f s) = sched_inv s"
  by (simp add: sched_inv_def run_queue_def queued_live_def one_running_def live_ends_def)

lemma sched_inv_misc [simp]:
  "sched_inv (s\<lparr>preempt_disable_count := c\<rparr>) = sched_inv s" "sched_inv (s\<lparr>sched_running := b\<rparr>) = sched_inv s"
  "sched_inv (s\<lparr>current_policy := p\<rparr>) = sched_inv s" "sched_inv (s\<lparr>task_active_count := n\<rparr>) = sched_inv s"
  "sched_inv (s\<lparr>next_pid := m\<rparr>) = sched_inv s"
  by (simp_all add: sched_inv_def run_queue_def queued_live_def one_running_def live_ends_def)

lemma best_ready_in: "best_ready s xs b = Some t \<Longrightarrow> b = Some t \<or> t \<in> set xs \<and> tstate s t = TASK_STATE_READY"
  by (induction xs arbitrary: b) (auto split: if_splits)

lemma first_ready_in: "first_ready s xs = Some t \<Longrightarrow> t \<in> set xs \<and> tstate s t = TASK_STATE_READY"
  by (auto simp: first_ready_def dest: find_SomeD)

lemma walk_from_None: "walk_from tt n None = []"
  by (cases n) simp_all

lemma walk_next_sub:
  assumes "run_queue s xs" and "c \<in> set xs"
  shows "set (queue_walk s (tk_next (task_table s c))) \<subseteq> set xs"
proof -
  from assms(2) obtain ys zs where "xs = ys @ c # zs" by (auto simp: in_set_conv_decomp)
  with assms(1) queue_walk_next [of s ys c zs] show ?thesis by auto
qed

lemma after_then_before_sub:
  assumes "run_queue s xs" and "queued_live s xs" and "c < TASK_MAX_COUNT"
  shows "set (after_then_before s c) \<subseteq> set xs"
proof -
  have "set (queue_walk s (tk_next (task_table s c))) \<subseteq> set xs"
  proof (cases "c \<in> set xs")
    case True
    with assms(1) show ?thesis by (rule walk_next_sub)
  next
    case False
    then have "tk_next (task_table s c) = None" using assms(2,3) by (simp add: queued_live_def)
    then show ?thesis by (simp add: queue_walk_def walk_from_None)
  qed
  moreover have "set (takeWhile (\<lambda>i. i \<noteq> c) (queue_walk s (run_queue_head s))) \<subseteq> set xs"
    unfolding queue_walk_head [OF assms(1)] by (auto dest: set_takeWhileD)
  ultimately show ?thesis by (simp add: after_then_before_def)
qed

lemma pick_for_current_in:
  assumes "sched_inv s" and "scheduler_pick_next_for_current (current_task s) s = Some t"
  shows "t < TASK_MAX_COUNT"
proof -
  obtain xs where xs: "run_queue s xs" "queued_live s xs" using assms(1) by (auto simp: sched_inv_def)
  have sub: "set xs \<subseteq> {..<TASK_MAX_COUNT}" using xs by (simp add: run_queue_def)
  have idle: "idle_task s = Some t \<Longrightarrow> t < TASK_MAX_COUNT"
    using assms(1) by (simp add: sched_inv_def live_ends_def)
  have pn: "t < TASK_MAX_COUNT" if "scheduler_pick_next s = Some t"
    using that idle sub unfolding scheduler_pick_next_def queue_walk_head [OF xs(1)]
    by (auto simp: Let_def split: if_splits option.splits dest!: best_ready_in first_ready_in)
  show ?thesis
  proof (cases "current_task s")
    case None
    with assms(2) pn show ?thesis
      by (auto simp: scheduler_pick_next_for_current_def scheduler_pick_priority_after_def
          scheduler_pick_next_after_def split: if_splits)
  next
    case (Some c)
    then have "c < TASK_MAX_COUNT" using assms(1) by (simp add: sched_inv_def live_ends_def)
    from after_then_before_sub [OF xs this] sub assms(2) Some idle show ?thesis
      by (auto simp: scheduler_pick_next_for_current_def scheduler_pick_priority_after_def
          scheduler_pick_next_after_def split: if_splits option.splits dest!: best_ready_in first_ready_in)
  qed
qed

lemma dispatch_inv:
  assumes inv: "sched_inv s" and n: "n < TASK_MAX_COUNT"
    and none: "\<And>i. i < TASK_MAX_COUNT \<Longrightarrow> tstate s i = TASK_STATE_RUNNING \<Longrightarrow> i = n"
  shows "sched_inv ((upd_task n (\<lambda>k. k\<lparr>tk_state := TASK_STATE_RUNNING\<rparr>) s)\<lparr>current_task := Some n\<rparr>)"
proof -
  let ?s = "(upd_task n (\<lambda>k. k\<lparr>tk_state := TASK_STATE_RUNNING\<rparr>) s)\<lparr>current_task := Some n\<rparr>"
  obtain xs where xs: "run_queue s xs" "queued_live s xs" using inv by (auto simp: sched_inv_def)
  have "same_links s ?s" by (simp add: same_links_def)
  with xs(1) have "run_queue ?s xs" by (rule run_queue_same)
  moreover have "queued_live ?s xs" using xs(2) by (auto simp: queued_live_def)
  moreover have "one_running ?s" using none by (auto simp: one_running_def)
  moreover have "live_ends ?s" using inv n by (auto simp: sched_inv_def live_ends_def)
  ultimately show ?thesis by (auto simp: sched_inv_def)
qed

lemma schedule_inv [capy_inv]:
  assumes "sched_inv s"
  shows "sched_inv (schedule s)"
proof (cases "scheduler_pick_next_for_current (current_task s) s")
  case None
  with assms show ?thesis by (simp add: schedule_def)
next
  case (Some n)
  show ?thesis
  proof (cases "current_task s = Some n")
    case True
    with assms Some show ?thesis by (simp add: schedule_def)
  next
    case False
    have n: "n < TASK_MAX_COUNT" by (rule pick_for_current_in [OF assms Some])
    define s1 where "s1 = (case current_task s of
        Some c \<Rightarrow> (if tstate s c = TASK_STATE_RUNNING then upd_task c (\<lambda>k. k\<lparr>tk_state := TASK_STATE_READY\<rparr>) s else s)
      | None \<Rightarrow> s)"
    have i1: "sched_inv s1"
      using assms by (auto simp: s1_def intro!: sched_inv_upd split: option.split)
    have "tstate s1 i \<noteq> TASK_STATE_RUNNING" if "i < TASK_MAX_COUNT" for i
      using that assms by (auto simp: s1_def sched_inv_def one_running_def split: option.split)
    then have "sched_inv ((upd_task n (\<lambda>k. k\<lparr>tk_state := TASK_STATE_RUNNING\<rparr>) s1)\<lparr>current_task := Some n\<rparr>)"
      by (intro dispatch_inv [OF i1 n]) auto
    moreover have "schedule s =
        (let s2 = (upd_task n (\<lambda>k. k\<lparr>tk_state := TASK_STATE_RUNNING\<rparr>) s1)\<lparr>current_task := Some n\<rparr>;
             s3 = upd_stats (\<lambda>st. st\<lparr>total_switches := total_switches st + 1\<rparr>) s2
         in if Some n = idle_task s3 then upd_stats (\<lambda>st. st\<lparr>idle_ticks := idle_ticks st + 1\<rparr>) s3 else s3)"
      using Some False by (simp add: schedule_def s1_def Let_def)
    ultimately show ?thesis unfolding Let_def by (metis (no_types, lifting) sched_inv_stats)
  qed
qed

subsection \<open>Every operation keeps the invariant\<close>

lemma scheduler_remove_frame:
  "tstate (scheduler_remove (Some t) s) i = tstate s i"
  "current_task (scheduler_remove (Some t) s) = current_task s"
  "idle_task (scheduler_remove (Some t) s) = idle_task s"
  "sched_stats (scheduler_remove (Some t) s) = sched_stats s"
  "tk_pid (task_table (scheduler_remove (Some t) s) i) = tk_pid (task_table s i)"
  "tk_next (task_table (scheduler_remove (Some t) s) t) = None"
  "i \<noteq> t \<Longrightarrow> tk_prev (task_table s t) \<noteq> Some i \<Longrightarrow>
     tk_next (task_table (scheduler_remove (Some t) s) i) = tk_next (task_table s i)"
  by (auto simp: scheduler_remove_def Let_def split: option.splits if_splits)

lemma scheduler_add_frame:
  "tstate (scheduler_add (Some t) s) i = tstate s i"
  "current_task (scheduler_add (Some t) s) = current_task s"
  "idle_task (scheduler_add (Some t) s) = idle_task s"
  "i \<noteq> t \<Longrightarrow> run_queue_tail s \<noteq> Some i \<Longrightarrow> task_table (scheduler_add (Some t) s) i = task_table s i"
  by (auto simp: scheduler_add_def Let_def split: option.splits)

lemma scheduler_add_inv [capy_inv]:
  assumes "sched_inv s" and "t < TASK_MAX_COUNT" and "tstate s t \<noteq> TASK_STATE_UNUSED"
    and "t \<notin> set (queue_walk s (run_queue_head s))"
  shows "sched_inv (scheduler_add (Some t) s)"
proof -
  obtain xs where xs: "run_queue s xs" "queued_live s xs" using assms(1) by (auto simp: sched_inv_def)
  have nt: "t \<notin> set xs" using assms(4) by (simp add: queue_walk_head [OF xs(1)])
  let ?s = "scheduler_add (Some t) s"
  have "run_queue ?s (xs @ [t])" by (rule run_queue_add [OF xs(1) nt assms(2)])
  moreover have "queued_live ?s (xs @ [t])"
  proof -
    have "tk_next (task_table ?s i) = None" if "i < TASK_MAX_COUNT" "i \<notin> set (xs @ [t])" for i
    proof -
      have "run_queue_tail s \<noteq> Some i" using xs(1) that last_of_in [of xs i] by (auto simp: run_queue_def)
      with that xs(2) show ?thesis by (simp add: scheduler_add_frame(4) queued_live_def)
    qed
    with xs(2) assms(3) show ?thesis by (simp add: queued_live_def scheduler_add_frame(1))
  qed
  moreover have "one_running ?s" "live_ends ?s"
    using assms(1) unfolding sched_inv_def one_running_def live_ends_def scheduler_add_frame(1-3) by blast+
  ultimately show ?thesis unfolding sched_inv_def by blast
qed

lemma free_slot_inv:
  assumes inv: "sched_inv s" and t: "t < TASK_MAX_COUNT" and cur: "current_task s \<noteq> Some t"
    and f: "\<And>k. tk_next (f k) = tk_next k \<and> tk_prev (f k) = tk_prev k \<and> tk_state (f k) = TASK_STATE_UNUSED"
  shows "sched_inv (upd_task t f (scheduler_remove (Some t) s))"
proof -
  obtain xs where xs: "run_queue s xs" "queued_live s xs" using inv by (auto simp: sched_inv_def)
  let ?r = "scheduler_remove (Some t) s" and ?ys = "remove1 t xs"
  let ?s = "upd_task t f ?r"
  have dist: "distinct xs" using xs(1) by (simp add: run_queue_def)
  have "run_queue ?r ?ys" by (rule run_queue_remove [OF xs(1)])
  moreover have "same_links ?r ?s" using f by (simp add: same_links_def)
  ultimately have "run_queue ?s ?ys" by (rule run_queue_same)
  moreover have "queued_live ?s ?ys"
  proof -
    have "tk_next (task_table ?s i) = None" if i: "i < TASK_MAX_COUNT" "i \<notin> set ?ys" for i
    proof (cases "i = t")
      case True
      then show ?thesis using f by (simp add: scheduler_remove_frame)
    next
      case False
      then have ni: "i \<notin> set xs" using i dist by (simp add: set_remove1_eq)
      have "tk_prev (task_table s t) \<noteq> Some i" if tx: "t \<in> set xs"
      proof -
        obtain ys zs where "xs = ys @ t # zs" using tx by (auto simp: in_set_conv_decomp)
        then show ?thesis using xs(1) ni last_of_in [of ys i] by (auto simp: run_queue_def dseg_append)
      qed
      then have "tk_next (task_table ?r i) = tk_next (task_table s i)"
      proof (cases "t \<in> set xs")
        case True
        with False \<open>t \<in> set xs \<Longrightarrow> tk_prev (task_table s t) \<noteq> Some i\<close> show ?thesis
          by (intro scheduler_remove_frame(7)) auto
      next
        case nt: False
        with False show ?thesis by (simp add: scheduler_remove_def queue_walk_head [OF xs(1)])
      qed
      with False xs(2) ni i show ?thesis by (simp add: queued_live_def)
    qed
    moreover have "\<forall>i\<in>set ?ys. tstate ?s i \<noteq> TASK_STATE_UNUSED"
      using xs(2) dist by (auto simp: queued_live_def scheduler_remove_frame set_remove1_eq)
    ultimately show ?thesis by (simp add: queued_live_def)
  qed
  moreover have "one_running ?s"
    using inv f by (auto simp: sched_inv_def one_running_def scheduler_remove_frame)
  moreover have "live_ends ?s"
    using inv cur by (auto simp: sched_inv_def live_ends_def scheduler_remove_frame)
  ultimately show ?thesis by (auto simp: sched_inv_def)
qed

lemma task_by_pid_in: "task_by_pid pid s = Some t \<Longrightarrow>
    t < TASK_MAX_COUNT \<and> tstate s t \<noteq> TASK_STATE_UNUSED \<and> tk_pid (task_table s t) = pid"
  by (auto simp: task_by_pid_def dest!: find_SomeD)

lemma task_kill_eq:
  "task_kill pid s =
     (case task_by_pid pid s of None \<Rightarrow> (-1, s)
      | Some t \<Rightarrow>
          if current_task s = Some t then (-2, s)
          else (0, let s4 = upd_task t (\<lambda>k. k\<lparr>tk_kernel_stack := None, tk_user_stack := None,
                     tk_state := TASK_STATE_UNUSED, tk_active_session := None\<rparr>) (scheduler_remove (Some t) s)
               in if task_active_count s4 > 0 then s4\<lparr>task_active_count := task_active_count s4 - 1\<rparr> else s4))"
proof (cases "task_by_pid pid s")
  case None
  then show ?thesis by (simp add: task_kill_def)
next
  case (Some t)
  then have "tstate s t \<noteq> TASK_STATE_UNUSED" using task_by_pid_in by blast
  then show ?thesis using Some by (simp add: task_kill_def Let_def upd_task_def)
qed

lemma task_kill_inv [capy_inv]: "sched_inv s \<Longrightarrow> sched_inv (snd (task_kill pid s))"
  by (auto simp: task_kill_eq Let_def split: option.split dest: task_by_pid_in intro!: free_slot_inv)

lemma wake_step_inv: "sched_inv s \<Longrightarrow> sched_inv (wake_step i s)"
  by (auto simp: wake_step_def intro!: sched_inv_upd)

lemma unblock_step_inv: "sched_inv s \<Longrightarrow> sched_inv (unblock_step ch i s)"
  by (auto simp: unblock_step_def intro!: sched_inv_upd)

lemma fold_inv: "(\<And>i s. sched_inv s \<Longrightarrow> sched_inv (f i s)) \<Longrightarrow> sched_inv s \<Longrightarrow> sched_inv (fold f xs s)"
  by (induction xs arbitrary: s) auto

lemma reap_from_inv: "sched_inv s \<Longrightarrow> sched_inv (reap_from n p s)"
proof (induction n arbitrary: p s)
  case 0
  then show ?case by simp
next
  case (Suc n)
  then show ?case by (cases p) (auto simp: Let_def intro: task_kill_inv)
qed

lemma quantum_tick_inv: "sched_inv s \<Longrightarrow> sched_inv (quantum_tick s)"
  by (auto simp: quantum_tick_def Let_def intro!: schedule_inv sched_inv_upd split: option.split)

lemma scheduler_tick_inv [capy_inv]:
  assumes "sched_inv s"
  shows "sched_inv (scheduler_tick s)"
proof -
  define s1 where "s1 = upd_stats (\<lambda>st. st\<lparr>total_ticks := total_ticks st + 1\<rparr>) s"
  define s2 where "s2 = fold wake_step (queue_walk s1 (run_queue_head s1)) s1"
  define s3 where "s3 = reap_from TASK_MAX_COUNT (run_queue_head s2) s2"
  have "sched_inv s2" unfolding s2_def using assms by (intro fold_inv wake_step_inv) (simp_all add: s1_def)
  moreover from this have "sched_inv s3" unfolding s3_def by (rule reap_from_inv)
  ultimately show ?thesis
    by (simp add: scheduler_tick_def s1_def [symmetric] s2_def [symmetric] s3_def [symmetric] Let_def quantum_tick_inv)
qed

lemma fill_slot_inv:
  assumes inv: "sched_inv s" and i: "i < TASK_MAX_COUNT" "tstate s i = TASK_STATE_UNUSED"
    and f: "tk_next (f (task_table s i)) = None" "tk_state (f (task_table s i)) \<noteq> TASK_STATE_RUNNING"
  shows "sched_inv (upd_task i f s)"
proof -
  obtain xs where xs: "run_queue s xs" "queued_live s xs" using inv by (auto simp: sched_inv_def)
  have ni: "i \<notin> set xs" using xs(2) i(2) by (auto simp: queued_live_def)
  have "dseg ((task_table s)(i := f (task_table s i))) None xs None = dseg (task_table s) None xs None"
    using ni by (intro dseg_cong) auto
  then have "run_queue (upd_task i f s) xs" using xs(1) by (simp add: run_queue_def)
  moreover have "queued_live (upd_task i f s) xs" using xs(2) ni f(1) by (auto simp: queued_live_def)
  moreover have "one_running (upd_task i f s)" using inv f(2) by (auto simp: sched_inv_def one_running_def)
  moreover have "live_ends (upd_task i f s)" using inv i(2) by (auto simp: sched_inv_def live_ends_def)
  ultimately show ?thesis unfolding sched_inv_def by blast
qed

lemma upd_task_twice: "upd_task i g (upd_task i f s) = upd_task i (\<lambda>k. g (f k)) s"
  by (simp add: upd_task_def)

lemma task_create_inv [capy_inv]:
  assumes "sched_inv s"
  shows "sched_inv (snd (task_create ks cr3 tr nm en ar pr s))"
proof (cases "task_alloc s")
  case None
  with assms show ?thesis by (simp add: task_create_def)
next
  case (Some i)
  then have i: "i < TASK_MAX_COUNT" "tstate s i = TASK_STATE_UNUSED"
    by (auto simp: task_alloc_def dest!: find_SomeD)
  have i': "tstate (s\<lparr>next_pid := next_pid s + 1\<rparr>) i = TASK_STATE_UNUSED" using i by simp
  have s1: "sched_inv (s\<lparr>next_pid := next_pid s + 1\<rparr>)" using assms by simp
  show ?thesis
    using Some by (cases ks)
      (auto simp: task_create_def Let_def split_beta upd_task_twice intro!: fill_slot_inv [OF s1 i(1) i'])
qed

lemma task_unblock_channel_inv [capy_inv]: "sched_inv s \<Longrightarrow> sched_inv (task_unblock_channel ch s)"
  unfolding task_unblock_channel_def by (intro fold_inv) (auto intro!: sched_inv_upd)

lemma scheduler_unblock_inv [capy_inv]: "sched_inv s \<Longrightarrow> sched_inv (scheduler_unblock ch s)"
  unfolding scheduler_unblock_def by (intro fold_inv unblock_step_inv)

lemma switch_ops_inv [capy_inv]:
  "sched_inv s \<Longrightarrow> sched_inv (scheduler_yield s)"
  "sched_inv s \<Longrightarrow> sched_inv (scheduler_block_current ch s)"
  "sched_inv s \<Longrightarrow> sched_inv (scheduler_sleep_current n s)"
  by (auto simp: scheduler_yield_def scheduler_block_current_def scheduler_sleep_current_def
      intro!: schedule_inv sched_inv_upd split: option.split)

lemma task_ops_inv [capy_inv]:
  "sched_inv s \<Longrightarrow> sched_inv (task_exit code s)"
  "sched_inv s \<Longrightarrow> sched_inv (task_sleep n s)"
  "sched_inv s \<Longrightarrow> sched_inv (task_wake ot s)"
  "sched_inv s \<Longrightarrow> sched_inv (task_block ot ch s)"
  by (auto simp: task_exit_def task_sleep_def task_wake_def task_block_def
      intro!: switch_ops_inv sched_inv_upd split: option.split)

text \<open>The states the kernel can reach; a task is queued only once (\<^verbatim>\<open>scheduler_add\<close> follows creation).\<close>

inductive sched_reachable :: "sched \<Rightarrow> bool" where
  boot: "(\<And>i. tk_next (task_table s i) = None) \<Longrightarrow> sched_reachable (scheduler_init pol (task_system_init s))"
| create: "sched_reachable s \<Longrightarrow> sched_reachable (snd (task_create ks cr3 tr nm en ar pr s))"
| enqueue: "sched_reachable s \<Longrightarrow> t < TASK_MAX_COUNT \<Longrightarrow> tstate s t \<noteq> TASK_STATE_UNUSED \<Longrightarrow>
    t \<notin> set (queue_walk s (run_queue_head s)) \<Longrightarrow> sched_reachable (scheduler_add (Some t) s)"
| kill: "sched_reachable s \<Longrightarrow> sched_reachable (snd (task_kill pid s))"
| yield: "sched_reachable s \<Longrightarrow> sched_reachable (scheduler_yield s)"
| block_current: "sched_reachable s \<Longrightarrow> sched_reachable (scheduler_block_current ch s)"
| unblock: "sched_reachable s \<Longrightarrow> sched_reachable (scheduler_unblock ch s)"
| tick: "sched_reachable s \<Longrightarrow> sched_reachable (scheduler_tick s)"
| exit: "sched_reachable s \<Longrightarrow> sched_reachable (task_exit code s)"
| sleep: "sched_reachable s \<Longrightarrow> sched_reachable (task_sleep n s)"
| wake: "sched_reachable s \<Longrightarrow> sched_reachable (task_wake ot s)"
| block: "sched_reachable s \<Longrightarrow> sched_reachable (task_block ot ch s)"
| unblock_channel: "sched_reachable s \<Longrightarrow> sched_reachable (task_unblock_channel ch s)"
| preempt_off: "sched_reachable s \<Longrightarrow> sched_reachable (scheduler_preempt_disable s)"
| preempt_on: "sched_reachable s \<Longrightarrow> sched_reachable (scheduler_preempt_enable s)"
| policy: "sched_reachable s \<Longrightarrow> sched_reachable (scheduler_set_policy pol s)"
| running: "sched_reachable s \<Longrightarrow> sched_reachable (scheduler_set_running b s)"

lemma boot_inv:
  assumes "\<And>i. tk_next (task_table s i) = None"
  shows "sched_inv (scheduler_init pol (task_system_init s))"
proof -
  let ?s = "scheduler_init pol (task_system_init s)"
  have "run_queue ?s []" by (simp add: run_queue_def scheduler_init_def)
  moreover have "queued_live ?s []" using assms by (simp add: queued_live_def scheduler_init_def task_system_init_def)
  moreover have "one_running ?s" "live_ends ?s"
    by (simp_all add: one_running_def live_ends_def scheduler_init_def task_system_init_def)
  ultimately show ?thesis unfolding sched_inv_def by blast
qed

lemma sched_reachable_inv: "sched_reachable s \<Longrightarrow> sched_inv s"
  by (induction rule: sched_reachable.induct)
    (auto intro: boot_inv capy_inv simp: scheduler_preempt_disable_def scheduler_preempt_enable_def
      scheduler_set_policy_def scheduler_set_running_def)

subsection \<open>Round robin\<close>

text \<open>Task \<open>xs ! k\<close> runs and every other queued task is ready.\<close>

definition busy_at :: "sched \<Rightarrow> nat list \<Rightarrow> nat \<Rightarrow> bool" where
  "busy_at s xs k =
     (run_queue s xs \<and> 2 \<le> length xs \<and> k < length xs \<and> current_task s = Some (xs ! k) \<and>
      current_policy s \<noteq> SCHED_POLICY_PRIORITY \<and>
      (\<forall>j<length xs. tstate s (xs ! j) = (if j = k then TASK_STATE_RUNNING else TASK_STATE_READY)))"

lemma takeWhile_before:
  assumes "distinct xs" and "k < length xs"
  shows "takeWhile (\<lambda>i. i \<noteq> xs ! k) xs = take k xs"
proof (rule takeWhile_eq_take_P_nth)
  fix i assume "i < k" "i < length xs"
  with assms show "xs ! i \<noteq> xs ! k" by (simp add: nth_eq_iff_index_eq)
qed (use assms in simp)

lemma rotation_head:
  assumes "2 \<le> length xs" and "k < length xs"
  shows "drop (Suc k) xs @ take k xs \<noteq> [] \<and> hd (drop (Suc k) xs @ take k xs) = xs ! (Suc k mod length xs)"
proof (cases "Suc k < length xs")
  case True
  then show ?thesis by (simp add: hd_drop_conv_nth)
next
  case False
  then have "Suc k = length xs" "0 < k" using assms by auto
  then show ?thesis by (cases xs) (simp_all add: hd_conv_nth)
qed

lemma busy_candidates:
  assumes "busy_at s xs k"
  shows "after_then_before s (xs ! k) = drop (Suc k) xs @ take k xs"
proof -
  have q: "run_queue s xs" and k: "k < length xs" using assms by (auto simp: busy_at_def)
  have "run_queue s (take k xs @ xs ! k # drop (Suc k) xs)" using q k by (simp add: id_take_nth_drop [symmetric])
  from queue_walk_next [OF this] have "queue_walk s (tk_next (task_table s (xs ! k))) = drop (Suc k) xs" .
  then show ?thesis
    using takeWhile_before [of xs k] k q
    unfolding after_then_before_def queue_walk_head [OF q] by (simp add: run_queue_def)
qed

lemma schedule_busy:
  assumes "busy_at s xs k"
  shows "busy_at (schedule s) xs (Suc k mod length xs)"
proof -
  let ?n = "Suc k mod length xs" and ?c = "xs ! k"
  have q: "run_queue s xs" and len: "2 \<le> length xs" and k: "k < length xs" and cur: "current_task s = Some ?c"
    and pol: "current_policy s \<noteq> SCHED_POLICY_PRIORITY"
    and st: "\<And>j. j < length xs \<Longrightarrow> tstate s (xs ! j) = (if j = k then TASK_STATE_RUNNING else TASK_STATE_READY)"
    using assms by (auto simp: busy_at_def)
  have dist: "distinct xs" using q by (simp add: run_queue_def)
  have nk: "?n < length xs" using k by (intro mod_less_divisor) auto
  have ne: "?n \<noteq> k"
  proof (cases "Suc k < length xs")
    case False
    then have "Suc k = length xs" using k by simp
    then show ?thesis using len by simp
  qed simp
  let ?r = "drop (Suc k) xs @ take k xs"
  have h: "?r = xs ! ?n # tl ?r" using rotation_head [OF len k] by (metis list.collapse)
  have "first_ready s ?r = Some (xs ! ?n)"
    using st [OF nk] ne unfolding first_ready_def by (subst h) simp
  then have pick: "scheduler_pick_next_for_current (current_task s) s = Some (xs ! ?n)"
    using pol by (simp add: scheduler_pick_next_for_current_def scheduler_pick_next_after_def cur
        busy_candidates [OF assms])
  have nc: "xs ! ?n \<noteq> ?c" using dist nk k ne by (simp add: nth_eq_iff_index_eq)
  have run: "tstate s ?c = TASK_STATE_RUNNING" using st [OF k] by simp
  let ?s = "schedule s"
  have tt: "task_table ?s = (task_table s)(?c := (task_table s ?c)\<lparr>tk_state := TASK_STATE_READY\<rparr>,
      xs ! ?n := (task_table s (xs ! ?n))\<lparr>tk_state := TASK_STATE_RUNNING\<rparr>)"
    and cur': "current_task ?s = Some (xs ! ?n)" and ends: "run_queue_head ?s = run_queue_head s"
      "run_queue_tail ?s = run_queue_tail s" "current_policy ?s = current_policy s"
    using pick cur run nc by (simp_all add: schedule_def Let_def)
  have "same_links s ?s" using tt ends nc by (simp add: same_links_def)
  with q have "run_queue ?s xs" by (rule run_queue_same)
  moreover have "tstate ?s (xs ! j) = (if j = ?n then TASK_STATE_RUNNING else TASK_STATE_READY)"
    if "j < length xs" for j
    using st [OF that] that nk k dist nc by (auto simp: tt nth_eq_iff_index_eq)
  ultimately show ?thesis using len nk cur' pol ends by (simp add: busy_at_def)
qed

lemma schedule_busy_iterate:
  "busy_at s xs k \<Longrightarrow> busy_at ((schedule ^^ n) s) xs ((k + n) mod length xs)"
proof (induction n)
  case 0
  then show ?case by (simp add: busy_at_def)
next
  case (Suc n)
  then have "busy_at (schedule ((schedule ^^ n) s)) xs (Suc ((k + n) mod length xs) mod length xs)"
    by (intro schedule_busy) simp
  then show ?case by (simp add: mod_Suc_eq)
qed

subsection \<open>Waking, reaping and preempting\<close>

lemma wake_step_sel:
  "tstate (wake_step i s) j =
     (if j = i \<and> tstate s i = TASK_STATE_SLEEPING \<and> tk_wake_tick (task_table s i) \<le> total_ticks (sched_stats s)
      then TASK_STATE_READY else tstate s j)"
  "j \<noteq> i \<Longrightarrow> task_table (wake_step i s) j = task_table s j"
  "total_ticks (sched_stats (wake_step i s)) = total_ticks (sched_stats s)"
  "current_task (wake_step i s) = current_task s" "idle_task (wake_step i s) = idle_task s"
  "current_policy (wake_step i s) = current_policy s"
  "preempt_disable_count (wake_step i s) = preempt_disable_count s"
  "tk_quantum_remaining (task_table (wake_step i s) j) = tk_quantum_remaining (task_table s j)"
  "tk_pid (task_table (wake_step i s) j) = tk_pid (task_table s j)"
  "same_links s (wake_step i s)"
  by (auto simp: wake_step_def same_links_def)

lemma same_links_trans: "same_links a b \<Longrightarrow> same_links b c \<Longrightarrow> same_links a c"
  by (simp add: same_links_def)

lemma wake_all:
  assumes "distinct xs"
  shows "(\<forall>j. tstate (fold wake_step xs s) j =
     (if j \<in> set xs \<and> tstate s j = TASK_STATE_SLEEPING \<and> tk_wake_tick (task_table s j) \<le> total_ticks (sched_stats s)
      then TASK_STATE_READY else tstate s j) \<and>
      tk_quantum_remaining (task_table (fold wake_step xs s) j) = tk_quantum_remaining (task_table s j) \<and>
      tk_pid (task_table (fold wake_step xs s) j) = tk_pid (task_table s j)) \<and>
    current_task (fold wake_step xs s) = current_task s \<and> idle_task (fold wake_step xs s) = idle_task s \<and>
    current_policy (fold wake_step xs s) = current_policy s \<and>
    preempt_disable_count (fold wake_step xs s) = preempt_disable_count s \<and>
    same_links s (fold wake_step xs s)"
  using assms
proof (induction xs arbitrary: s)
  case Nil
  then show ?case by (simp add: same_links_def)
next
  case (Cons x xs)
  have "same_links s (fold wake_step xs (wake_step x s))"
    using Cons.IH [of "wake_step x s"] Cons.prems wake_step_sel(10) [of s x]
    by (auto intro: same_links_trans)
  moreover have "tstate (fold wake_step (x # xs) s) j =
     (if j \<in> set (x # xs) \<and> tstate s j = TASK_STATE_SLEEPING \<and> tk_wake_tick (task_table s j) \<le> total_ticks (sched_stats s)
      then TASK_STATE_READY else tstate s j)" for j
  proof (cases "j = x")
    case True
    then show ?thesis using Cons.IH [of "wake_step x s"] Cons.prems wake_step_sel(1) [of x s x] by simp
  next
    case False
    then show ?thesis
      using Cons.IH [of "wake_step x s"] Cons.prems wake_step_sel(2) [OF False, of s] wake_step_sel(3) [of x s] by simp
  qed
  ultimately show ?case
    using Cons.IH [of "wake_step x s"] Cons.prems by (simp add: wake_step_sel(4-9))
qed

lemma task_kill_frame:
  assumes "current_task s = Some c"
  shows "current_task (snd (task_kill pid s)) = Some c" and "tstate (snd (task_kill pid s)) c = tstate s c"
    and "tk_quantum_remaining (task_table (snd (task_kill pid s)) c) = tk_quantum_remaining (task_table s c)"
    and "idle_task (snd (task_kill pid s)) = idle_task s"
    and "current_policy (snd (task_kill pid s)) = current_policy s"
    and "preempt_disable_count (snd (task_kill pid s)) = preempt_disable_count s"
    and "tk_pid (task_table (snd (task_kill pid s)) j) = tk_pid (task_table s j)"
  using assms
  by (auto simp: task_kill_eq Let_def scheduler_remove_def split: option.splits if_splits)

lemma reap_frame:
  "current_task s = Some c \<Longrightarrow> current_task (reap_from n p s) = Some c \<and> tstate (reap_from n p s) c = tstate s c \<and>
     tk_quantum_remaining (task_table (reap_from n p s) c) = tk_quantum_remaining (task_table s c) \<and>
     idle_task (reap_from n p s) = idle_task s \<and> current_policy (reap_from n p s) = current_policy s \<and>
     preempt_disable_count (reap_from n p s) = preempt_disable_count s"
proof (induction n arbitrary: p s)
  case 0
  then show ?case by simp
next
  case (Suc n)
  show ?case
  proof (cases p)
    case None
    with Suc show ?thesis by simp
  next
    case (Some t)
    with Suc task_kill_frame [OF Suc.prems] show ?thesis by (simp add: Let_def)
  qed
qed

text \<open>Process ids of live tasks are distinct (true until the 32-bit counter wraps).\<close>

definition pids_distinct :: "sched \<Rightarrow> bool" where
  "pids_distinct s =
     (\<forall>i j. i < TASK_MAX_COUNT \<longrightarrow> j < TASK_MAX_COUNT \<longrightarrow> tstate s i \<noteq> TASK_STATE_UNUSED \<longrightarrow>
        tstate s j \<noteq> TASK_STATE_UNUSED \<longrightarrow> tk_pid (task_table s i) = tk_pid (task_table s j) \<longrightarrow> i = j)"

lemma task_by_pid_self:
  assumes "pids_distinct s" and "t < TASK_MAX_COUNT" and "tstate s t \<noteq> TASK_STATE_UNUSED"
  shows "task_by_pid (tk_pid (task_table s t)) s = Some t"
proof -
  obtain u where u: "task_by_pid (tk_pid (task_table s t)) s = Some u"
    using assms(2,3) by (cases "task_by_pid (tk_pid (task_table s t)) s")
      (auto simp: task_by_pid_def find_None_iff)
  from task_by_pid_in [OF this] assms have "u = t" by (auto simp: pids_distinct_def)
  with u show ?thesis by simp
qed

lemma kill_self:
  assumes "pids_distinct s" and "t < TASK_MAX_COUNT" and "tstate s t \<noteq> TASK_STATE_UNUSED"
    and "current_task s \<noteq> Some t" and "run_queue s (ys @ t # zs)"
  shows "run_queue (snd (task_kill (tk_pid (task_table s t)) s)) (ys @ zs)"
    and "tstate (snd (task_kill (tk_pid (task_table s t)) s)) j = (if j = t then TASK_STATE_UNUSED else tstate s j)"
    and "tk_kernel_stack (task_table (snd (task_kill (tk_pid (task_table s t)) s)) t) = None"
    and "current_task (snd (task_kill (tk_pid (task_table s t)) s)) = current_task s"
    and "pids_distinct (snd (task_kill (tk_pid (task_table s t)) s))"
proof -
  let ?s = "snd (task_kill (tk_pid (task_table s t)) s)"
  let ?u = "upd_task t (\<lambda>k. k\<lparr>tk_kernel_stack := None, tk_user_stack := None,
                     tk_state := TASK_STATE_UNUSED, tk_active_session := None\<rparr>) (scheduler_remove (Some t) s)"
  have s: "?s = (if task_active_count ?u > 0 then ?u\<lparr>task_active_count := task_active_count ?u - 1\<rparr> else ?u)"
    using assms(4) by (simp add: task_kill_eq task_by_pid_self [OF assms(1-3)] Let_def)
  have dist: "distinct (ys @ t # zs)" using assms(5) by (simp add: run_queue_def)
  have "run_queue (scheduler_remove (Some t) s) (ys @ zs)"
    using run_queue_remove [OF assms(5), of t] dist by (simp add: remove1_append)
  moreover have "same_links (scheduler_remove (Some t) s) ?s" by (auto simp: s same_links_def)
  ultimately show "run_queue ?s (ys @ zs)" by (rule run_queue_same)
  show st: "tstate ?s j = (if j = t then TASK_STATE_UNUSED else tstate s j)" for j
    by (simp add: s scheduler_remove_frame)
  show "tk_kernel_stack (task_table ?s t) = None" "current_task ?s = current_task s"
    by (simp_all add: s scheduler_remove_frame)
  have "tk_pid (task_table ?s j) = tk_pid (task_table s j)" for j by (simp add: s scheduler_remove_frame)
  then show "pids_distinct ?s" using assms(1) by (auto simp: pids_distinct_def st)
qed

lemma reap_all:
  assumes "pids_distinct s" and "run_queue s (ys @ zs)" and "\<forall>i\<in>set (ys @ zs). tstate s i \<noteq> TASK_STATE_UNUSED" and "length zs \<le> n"
    and "\<forall>i\<in>set ys. current_task s = Some i \<or> tstate s i \<notin> {TASK_STATE_ZOMBIE, TASK_STATE_DEAD}"
  shows "\<exists>ws. run_queue (reap_from n (first_of zs None) s) ws \<and> set ws \<subseteq> set (ys @ zs) \<and>
    (\<forall>i\<in>set ws. current_task s = Some i \<or> tstate (reap_from n (first_of zs None) s) i \<notin> {TASK_STATE_ZOMBIE, TASK_STATE_DEAD}) \<and>
    (\<forall>i. tstate (reap_from n (first_of zs None) s) i =
       (if i \<in> set zs \<and> tstate s i \<in> {TASK_STATE_ZOMBIE, TASK_STATE_DEAD} \<and> current_task s \<noteq> Some i
        then TASK_STATE_UNUSED else tstate s i)) \<and>
    current_task (reap_from n (first_of zs None) s) = current_task s"
  using assms
proof (induction zs arbitrary: ys s n)
  case Nil
  then show ?case by (cases n) auto
next
  case (Cons t zs)
  obtain m where n: "n = Suc m" "length zs \<le> m" using Cons.prems(4) by (cases n) auto
  have dist: "distinct (ys @ t # zs)" and t: "t < TASK_MAX_COUNT" using Cons.prems(2) by (auto simp: run_queue_def)
  have live: "tstate s t \<noteq> TASK_STATE_UNUSED" using Cons.prems(3) by simp
  have nxt: "tk_next (task_table s t) = first_of zs None"
    using Cons.prems(2) by (auto simp: run_queue_def dseg_append)
  let ?z = "tstate s t \<in> {TASK_STATE_ZOMBIE, TASK_STATE_DEAD} \<and> current_task s \<noteq> Some t"
  show ?case
  proof (cases ?z)
    case True
    define s1 where "s1 = snd (task_kill (tk_pid (task_table s t)) s)"
    note k = kill_self [OF Cons.prems(1) t live conjunct2 [OF True] Cons.prems(2), folded s1_def]
    have r: "reap_from n (first_of (t # zs) None) s = reap_from m (first_of zs None) s1"
      using True by (auto simp: n nxt s1_def)
    have nt: "t \<notin> set ys" "t \<notin> set zs" using dist by auto
    have "\<forall>i\<in>set (ys @ zs). tstate s1 i \<noteq> TASK_STATE_UNUSED" using Cons.prems(3) nt by (auto simp: k(2))
    moreover have "\<forall>i\<in>set ys. current_task s1 = Some i \<or> tstate s1 i \<notin> {TASK_STATE_ZOMBIE, TASK_STATE_DEAD}"
      using Cons.prems(5) nt by (auto simp: k(2,4))
    ultimately obtain ws where ws: "run_queue (reap_from m (first_of zs None) s1) ws" "set ws \<subseteq> set (ys @ zs)"
      "\<forall>i\<in>set ws. current_task s1 = Some i \<or> tstate (reap_from m (first_of zs None) s1) i \<notin> {TASK_STATE_ZOMBIE, TASK_STATE_DEAD}"
      "\<forall>i. tstate (reap_from m (first_of zs None) s1) i =
         (if i \<in> set zs \<and> tstate s1 i \<in> {TASK_STATE_ZOMBIE, TASK_STATE_DEAD} \<and> current_task s1 \<noteq> Some i
          then TASK_STATE_UNUSED else tstate s1 i)"
      "current_task (reap_from m (first_of zs None) s1) = current_task s1"
      using Cons.IH [OF k(5,1) _ n(2)] by blast
    have "tstate (reap_from m (first_of zs None) s1) i =
         (if i \<in> set (t # zs) \<and> tstate s i \<in> {TASK_STATE_ZOMBIE, TASK_STATE_DEAD} \<and> current_task s \<noteq> Some i
          then TASK_STATE_UNUSED else tstate s i)" for i
      using ws(4) True nt by (cases "i = t") (auto simp: k(2,4))
    with ws show ?thesis unfolding r by (intro exI [of _ ws]) (auto simp: k(4))
  next
    case False
    have r: "reap_from n (first_of (t # zs) None) s = reap_from m (first_of zs None) s"
      using False by (auto simp: n nxt)
    have "\<forall>i\<in>set (ys @ [t]). current_task s = Some i \<or> tstate s i \<notin> {TASK_STATE_ZOMBIE, TASK_STATE_DEAD}"
      using Cons.prems(5) False by auto
    from Cons.IH [of s "ys @ [t]" m, OF Cons.prems(1) _ _ n(2) this] Cons.prems(2,3) False show ?thesis
      unfolding r by auto
  qed
qed

lemma schedule_keeps_free:
  assumes "tstate s i = TASK_STATE_UNUSED" and "idle_task s \<noteq> Some i" and "current_task s \<noteq> Some i"
  shows "tstate (schedule s) i = TASK_STATE_UNUSED"
proof -
  have np: "scheduler_pick_next_for_current (current_task s) s \<noteq> Some i"
    using assms
    by (auto simp: scheduler_pick_next_for_current_def scheduler_pick_priority_after_def scheduler_pick_next_def
        scheduler_pick_next_after_def Let_def split: option.splits if_splits dest!: best_ready_in first_ready_in)
  then show ?thesis
    using assms by (auto simp: schedule_def Let_def split: option.split)
qed

text \<open>The state a tick without the guard hands to the quantum accounting.\<close>

definition ticked :: "sched \<Rightarrow> sched" where
  "ticked s =
     (let s1 = upd_stats (\<lambda>st. st\<lparr>total_ticks := total_ticks st + 1\<rparr>) s;
          s2 = fold wake_step (queue_walk s1 (run_queue_head s1)) s1;
          s3 = reap_from TASK_MAX_COUNT (run_queue_head s2) s2
      in upd_stats (\<lambda>st. st\<lparr>runnable_count := count_runnable s3\<rparr>) s3)"

lemma ticked_wakes:
  assumes "sched_inv s"
  obtains xs s2 where "run_queue s xs" "queued_live s xs" "run_queue s2 xs"
    "\<And>j. tstate s2 j = (if j \<in> set xs \<and> tstate s j = TASK_STATE_SLEEPING \<and>
        tk_wake_tick (task_table s j) \<le> total_ticks (sched_stats s) + 1 then TASK_STATE_READY else tstate s j)"
    "\<And>j. tk_quantum_remaining (task_table s2 j) = tk_quantum_remaining (task_table s j)"
    "\<And>j. tk_pid (task_table s2 j) = tk_pid (task_table s j)"
    "current_task s2 = current_task s" "idle_task s2 = idle_task s" "current_policy s2 = current_policy s"
    "preempt_disable_count s2 = preempt_disable_count s"
    "preempt_disable_count s = 0 \<Longrightarrow> scheduler_tick s = quantum_tick (ticked s)"
    "ticked s = upd_stats (\<lambda>st. st\<lparr>runnable_count := count_runnable (reap_from TASK_MAX_COUNT (first_of xs None) s2)\<rparr>)
       (reap_from TASK_MAX_COUNT (first_of xs None) s2)"
proof -
  obtain xs where xs: "run_queue s xs" "queued_live s xs" using assms by (auto simp: sched_inv_def)
  define s1 where "s1 = upd_stats (\<lambda>st. st\<lparr>total_ticks := total_ticks st + 1\<rparr>) s"
  define s2 where "s2 = fold wake_step xs s1"
  have q1: "run_queue s1 xs" by (rule run_queue_same [OF xs(1)]) (simp add: s1_def same_links_def)
  have dist: "distinct xs" using xs(1) by (simp add: run_queue_def)
  note w = wake_all [OF dist, of s1, folded s2_def]
  have q2: "run_queue s2 xs" using run_queue_same [OF q1] w by blast
  have hd: "run_queue_head s2 = first_of xs None" using q2 by (simp add: run_queue_def)
  have tk: "ticked s = upd_stats (\<lambda>st. st\<lparr>runnable_count := count_runnable (reap_from TASK_MAX_COUNT (first_of xs None) s2)\<rparr>)
       (reap_from TASK_MAX_COUNT (first_of xs None) s2)"
    unfolding ticked_def s1_def [symmetric] queue_walk_head [OF q1] Let_def s2_def [symmetric] hd by (rule refl)
  have st: "scheduler_tick s = quantum_tick (ticked s)" if "preempt_disable_count s = 0"
    using w that unfolding tk scheduler_tick_def s1_def [symmetric] queue_walk_head [OF q1] Let_def s2_def [symmetric] hd
    by (simp add: s1_def)
  show ?thesis
    by (rule that [OF xs q2 _ _ _ _ _ _ _ st tk]) (use w in \<open>simp_all add: s1_def\<close>)
qed

lemma tick_keeps_current:
  assumes "sched_inv s" and "preempt_disable_count s = 0" and "current_policy s \<noteq> SCHED_POLICY_COOPERATIVE"
    and "current_task s = Some c" and "tstate s c = TASK_STATE_RUNNING" and "idle_task s \<noteq> Some c"
    and "1 < tk_quantum_remaining (task_table s c)"
  shows "current_task (scheduler_tick s) = Some c \<and> tstate (scheduler_tick s) c = TASK_STATE_RUNNING \<and>
    tk_quantum_remaining (task_table (scheduler_tick s) c) = tk_quantum_remaining (task_table s c) - 1 \<and>
    idle_task (scheduler_tick s) = idle_task s \<and> current_policy (scheduler_tick s) = current_policy s \<and>
    preempt_disable_count (scheduler_tick s) = 0"
proof -
  obtain xs s2 where w: "\<And>j. tstate s2 j = (if j \<in> set xs \<and> tstate s j = TASK_STATE_SLEEPING \<and>
        tk_wake_tick (task_table s j) \<le> total_ticks (sched_stats s) + 1 then TASK_STATE_READY else tstate s j)"
    "\<And>j. tk_quantum_remaining (task_table s2 j) = tk_quantum_remaining (task_table s j)"
    "current_task s2 = current_task s" "idle_task s2 = idle_task s" "current_policy s2 = current_policy s"
    "preempt_disable_count s2 = preempt_disable_count s"
    "scheduler_tick s = quantum_tick (ticked s)"
    "ticked s = upd_stats (\<lambda>st. st\<lparr>runnable_count := count_runnable (reap_from TASK_MAX_COUNT (first_of xs None) s2)\<rparr>)
       (reap_from TASK_MAX_COUNT (first_of xs None) s2)"
    using ticked_wakes [OF assms(1)] assms(2) by metis
  define s3 where "s3 = reap_from TASK_MAX_COUNT (first_of xs None) s2"
  have r: "current_task s3 = Some c" "tstate s3 c = TASK_STATE_RUNNING"
    "tk_quantum_remaining (task_table s3 c) = tk_quantum_remaining (task_table s c)"
    "idle_task s3 = idle_task s" "current_policy s3 = current_policy s" "preempt_disable_count s3 = 0"
    using reap_frame [of s2 c TASK_MAX_COUNT "first_of xs None", folded s3_def] w(1-6) assms by auto
  have q: "tk_quantum_remaining (task_table s c) - 1 \<noteq> 0" "tk_quantum_remaining (task_table s c) \<noteq> 0"
    using assms(7) by auto
  show ?thesis
    using assms(3,6) q by (simp add: w(7,8) s3_def [symmetric] quantum_tick_def r Let_def word_neq_0_conv [symmetric])
qed

lemma tick_run:
  assumes "sched_inv s" and "preempt_disable_count s = 0" and "current_policy s \<noteq> SCHED_POLICY_COOPERATIVE"
    and "current_task s = Some c" and "tstate s c = TASK_STATE_RUNNING" and "idle_task s \<noteq> Some c"
    and "n < unat (tk_quantum_remaining (task_table s c))"
  shows "sched_inv ((scheduler_tick ^^ n) s) \<and> current_task ((scheduler_tick ^^ n) s) = Some c \<and>
    tstate ((scheduler_tick ^^ n) s) c = TASK_STATE_RUNNING \<and>
    unat (tk_quantum_remaining (task_table ((scheduler_tick ^^ n) s) c)) = unat (tk_quantum_remaining (task_table s c)) - n \<and>
    idle_task ((scheduler_tick ^^ n) s) = idle_task s \<and> current_policy ((scheduler_tick ^^ n) s) = current_policy s \<and>
    preempt_disable_count ((scheduler_tick ^^ n) s) = 0"
  using assms(7)
proof (induction n)
  case 0
  with assms show ?case by simp
next
  case (Suc n)
  let ?s = "(scheduler_tick ^^ n) s"
  have IH: "sched_inv ?s" "preempt_disable_count ?s = 0" "current_policy ?s \<noteq> SCHED_POLICY_COOPERATIVE"
    "current_task ?s = Some c" "tstate ?s c = TASK_STATE_RUNNING" "idle_task ?s \<noteq> Some c"
    "unat (tk_quantum_remaining (task_table ?s c)) = unat (tk_quantum_remaining (task_table s c)) - n"
    "idle_task ?s = idle_task s" "current_policy ?s = current_policy s"
    using Suc assms by auto
  have one: "1 < tk_quantum_remaining (task_table ?s c)"
    using IH(7) Suc.prems by (simp add: word_less_nat_alt)
  then have "tk_quantum_remaining (task_table ?s c) \<noteq> 0" by auto
  then have "unat (tk_quantum_remaining (task_table ?s c) - 1) = unat (tk_quantum_remaining (task_table s c)) - Suc n"
    using IH(7) by (simp add: unat_minus_one)
  with tick_keeps_current [OF IH(1-6) one] scheduler_tick_inv [OF IH(1)] IH(8,9) show ?case by simp
qed

lemma run_queue_unique: "run_queue s xs \<Longrightarrow> run_queue s ys \<Longrightarrow> xs = ys"
  using queue_walk_head [of s xs] queue_walk_head [of s ys] by simp

lemma quantum_tick_keeps_free:
  assumes "tstate s i = TASK_STATE_UNUSED" and "idle_task s \<noteq> Some i" and "current_task s \<noteq> Some i"
  shows "tstate (quantum_tick s) i = TASK_STATE_UNUSED"
proof -
  have "tstate (schedule (upd_task c f s)) i = TASK_STATE_UNUSED" if "current_task s = Some c" for c f
    using that assms by (intro schedule_keeps_free) auto
  then show ?thesis
    using assms by (auto simp: quantum_tick_def Let_def schedule_keeps_free upd_task_twice split: option.split)
qed

lemma task_alloc_some:
  "task_alloc s = Some i \<Longrightarrow> i < TASK_MAX_COUNT \<and> tstate s i = TASK_STATE_UNUSED"
  by (auto simp: task_alloc_def find_Some_iff)

lemma mask_0xF: "(0xF :: u64) = mask 4"
  by (simp add: mask_eq_exp_minus_1)

lemma top_aligned: "(w :: u64) AND NOT 0xF = push_bit 4 (drop_bit 4 w)"
  unfolding mask_0xF by (rule bit_eqI) (auto simp: bit_simps)

lemma stack_pointer_aligned: "(((w :: u64) AND NOT 0xF) - 8 - 8 - 8 - 8) AND 0xF = 0"
proof -
  have "push_bit 4 (drop_bit 4 w) - 8 - 8 - 8 - 8 = push_bit 4 (drop_bit 4 w - 2)"
    by (simp add: push_bit_eq_mult algebra_simps)
  moreover have "push_bit 4 v AND mask 4 = 0" for v :: u64
    by (rule bit_eqI) (auto simp: bit_simps)
  ultimately show ?thesis unfolding top_aligned by (simp add: mask_0xF)
qed

subsection \<open>A concrete table\<close>

definition blank_task :: task where
  "blank_task = \<lparr>tk_pid = 0, tk_ppid = 0, tk_name = [], tk_state = TASK_STATE_UNUSED, tk_priority = 0,
     tk_context = \<lparr>cx_rsp = 0, cx_rbp = 0, cx_rbx = 0, cx_r12 = 0, cx_r13 = 0, cx_r14 = 0, cx_r15 = 0,
       cx_rip = 0, cx_rflags = 0, cx_cr3 = 0, cx_fx_state = (\<lambda>_. 0)\<rparr>,
     tk_kernel_stack = None, tk_stack_mem = (\<lambda>_. 0), tk_user_stack = None, tk_kernel_stack_size = 0,
     tk_user_stack_size = 0, tk_cr3 = 0, tk_uid = 0, tk_gid = 0, tk_cpu_time_ns = 0, tk_wake_tick = 0,
     tk_exit_code = 0, tk_quantum_remaining = 10, tk_next = None, tk_prev = None, tk_wait_channel = None,
     tk_active_session = None\<rparr>"

definition blank_sched :: sched where
  "blank_sched = \<lparr>task_table = (\<lambda>_. blank_task), next_pid = 1, current_task = None, task_active_count = 0,
     run_queue_head = None, run_queue_tail = None, idle_task = None,
     current_policy = SCHED_POLICY_ROUND_ROBIN,
     sched_stats = \<lparr>total_switches = 0, total_ticks = 0, idle_ticks = 0, runnable_count = 0,
                    blocked_count = 0, sleeping_count = 0\<rparr>,
     sched_running = False, preempt_disable_count = 0\<rparr>"

text \<open>Three queued tasks: slot 5 runs, slot 2 is ready, slot 7 is a zombie.\<close>

definition trio :: "task_state \<Rightarrow> sched" where
  "trio z = blank_sched\<lparr>run_queue_head := Some 5, run_queue_tail := Some 7, current_task := Some 5,
     task_table := (\<lambda>_. blank_task)
       (5 := blank_task\<lparr>tk_pid := 11, tk_state := TASK_STATE_RUNNING, tk_next := Some 2\<rparr>,
        2 := blank_task\<lparr>tk_pid := 12, tk_state := TASK_STATE_READY, tk_prev := Some 5, tk_next := Some 7\<rparr>,
        7 := blank_task\<lparr>tk_pid := 13, tk_state := z, tk_prev := Some 2, tk_kernel_stack := Some 64\<rparr>)\<rparr>"

lemma trio_queue: "run_queue (trio z) [5, 2, 7]"
  by (simp add: run_queue_def trio_def blank_sched_def blank_task_def TASK_MAX_COUNT_def)

lemma trio_busy: "busy_at (trio TASK_STATE_READY) [5, 2, 7] 0"
  using trio_queue [of TASK_STATE_READY]
  by (auto simp: busy_at_def nth_Cons' less_Suc_eq_0_disj) (simp_all add: trio_def blank_sched_def)

lemma trio_inv: "z \<noteq> TASK_STATE_UNUSED \<Longrightarrow> z \<noteq> TASK_STATE_RUNNING \<Longrightarrow> sched_inv (trio z)"
  unfolding sched_inv_def
  by (intro conjI exI [of _ "[5, 2, 7]"] trio_queue)
    (auto simp: queued_live_def one_running_def live_ends_def trio_def blank_sched_def blank_task_def TASK_MAX_COUNT_def)

lemma trio_pids: "pids_distinct (trio z)"
  by (auto simp: pids_distinct_def trio_def blank_task_def split: if_splits)

subsection \<open>Properties\<close>

text \<open>
  C19. The scheduler's structural invariant holds in every reachable state: whatever sequence of task
  creations, enqueues, kills, yields, blocks, sleeps, wake-ups, exits, ticks and policy changes
  the kernel performs from boot, the run queue is a well-formed doubly linked list without
  repetition, every queued slot holds a live task, the current task is live, and at most one task
  is marked running, namely the current one.
\<close>

theorem sched_reachable_safe:
  assumes "sched_reachable s"
  shows "(\<exists>xs. run_queue s xs \<and> (\<forall>i\<in>set xs. tstate s i \<noteq> TASK_STATE_UNUSED)) \<and>
    (\<forall>i<TASK_MAX_COUNT. tstate s i = TASK_STATE_RUNNING \<longrightarrow> current_task s = Some i) \<and>
    (\<forall>c. current_task s = Some c \<longrightarrow> c < TASK_MAX_COUNT \<and> tstate s c \<noteq> TASK_STATE_UNUSED)"
  using sched_reachable_inv [OF assms]
  unfolding sched_inv_def queued_live_def one_running_def live_ends_def by blast

theorem sched_reachable_safe_witness:
  "\<exists>xs. run_queue (scheduler_tick (scheduler_yield (snd (task_create (Some 4096) 0 0 ''w'' 1 2 2
      (scheduler_init SCHED_POLICY_PRIORITY (task_system_init blank_sched)))))) xs"
proof -
  have "sched_reachable (scheduler_tick (scheduler_yield (snd (task_create (Some 4096) 0 0 ''w'' 1 2 2
      (scheduler_init SCHED_POLICY_PRIORITY (task_system_init blank_sched))))))"
    by (intro sched_reachable.intros) (simp add: blank_sched_def blank_task_def)
  from sched_reachable_safe [OF this] show ?thesis by blast
qed

text \<open>
  C20. Round robin is fair. While every queued task stays runnable, \<open>n\<close> rescheduling decisions under
  the round-robin or cooperative policy move the processor exactly \<open>n\<close> places along the
  queue, cyclically: every queued task runs once in every \<open>length xs\<close> decisions, and none starves.
\<close>

theorem round_robin_fair:
  assumes "busy_at s xs k"
  shows "current_task ((schedule ^^ n) s) = Some (xs ! ((k + n) mod length xs)) \<and>
    busy_at ((schedule ^^ n) s) xs ((k + n) mod length xs)"
  using schedule_busy_iterate [OF assms, of n] by (auto simp: busy_at_def)

theorem round_robin_fair_witness:
  "current_task ((schedule ^^ 2) (trio TASK_STATE_READY)) = Some 7 \<and>
   current_task ((schedule ^^ 3) (trio TASK_STATE_READY)) = Some 5"
  using round_robin_fair [OF trio_busy, of 2] round_robin_fair [OF trio_busy, of 3] by simp

text \<open>
  A tick under the preemption guard only wakes sleepers. While \<^verbatim>\<open>preempt_disable_count\<close> is not zero,
  \<^verbatim>\<open>scheduler_tick\<close> makes ready exactly the queued sleepers whose wake time has come, and changes
  no other task's state, neither the current task nor any link of the run queue; in
  particular it neither reaps nor preempts.
\<close>

theorem guarded_tick_only_wakes:
  assumes "run_queue s xs" and "preempt_disable_count s \<noteq> 0"
  shows "current_task (scheduler_tick s) = current_task s \<and> run_queue (scheduler_tick s) xs \<and>
    (\<forall>i. tstate (scheduler_tick s) i =
       (if i \<in> set xs \<and> tstate s i = TASK_STATE_SLEEPING \<and>
           tk_wake_tick (task_table s i) \<le> total_ticks (sched_stats s) + 1
        then TASK_STATE_READY else tstate s i))"
proof -
  define s1 where "s1 = upd_stats (\<lambda>st. st\<lparr>total_ticks := total_ticks st + 1\<rparr>) s"
  have q1: "run_queue s1 xs" by (rule run_queue_same [OF assms(1)]) (simp add: s1_def same_links_def)
  have dist: "distinct xs" using assms(1) by (simp add: run_queue_def)
  note w = wake_all [OF dist, of s1]
  have t: "scheduler_tick s = fold wake_step xs s1"
    using w assms(2) unfolding scheduler_tick_def s1_def [symmetric] queue_walk_head [OF q1] Let_def
    by (simp add: s1_def)
  have "run_queue (scheduler_tick s) xs" unfolding t using run_queue_same [OF q1] w by blast
  moreover have "current_task (scheduler_tick s) = current_task s" unfolding t using w by (simp add: s1_def)
  moreover have "\<forall>i. tstate (scheduler_tick s) i =
       (if i \<in> set xs \<and> tstate s i = TASK_STATE_SLEEPING \<and>
           tk_wake_tick (task_table s i) \<le> total_ticks (sched_stats s) + 1
        then TASK_STATE_READY else tstate s i)"
    unfolding t using w by (simp add: s1_def)
  ultimately show ?thesis by blast
qed

theorem guarded_tick_only_wakes_witness:
  "tstate (scheduler_tick (scheduler_preempt_disable (trio TASK_STATE_SLEEPING))) 7 = TASK_STATE_READY \<and>
   tstate (scheduler_tick (scheduler_preempt_disable (trio TASK_STATE_ZOMBIE))) 7 = TASK_STATE_ZOMBIE"
proof -
  have q: "run_queue (scheduler_preempt_disable (trio z)) [5, 2, 7]"
    "preempt_disable_count (scheduler_preempt_disable (trio z)) \<noteq> 0" for z
    using trio_queue [of z] by (simp_all add: scheduler_preempt_disable_def run_queue_def trio_def blank_sched_def)
  show ?thesis
    using guarded_tick_only_wakes [OF q(1) q(2), of TASK_STATE_SLEEPING]
      guarded_tick_only_wakes [OF q(1) q(2), of TASK_STATE_ZOMBIE]
    by (simp add: scheduler_preempt_disable_def) (simp add: trio_def blank_sched_def blank_task_def)
qed

text \<open>
  A running task keeps the processor for its whole quantum. Under a preemptive policy, with the
  preemption guard open, a task with quantum \<open>q\<close> is still the current, running task after any
  number \<open>n < q\<close> of ticks, whatever wakes up or is reaped meanwhile, and its quantum has
  fallen by exactly \<open>n\<close>.
\<close>

theorem quantum_is_honoured:
  assumes "sched_inv s" and "preempt_disable_count s = 0" and "current_policy s \<noteq> SCHED_POLICY_COOPERATIVE"
    and "current_task s = Some c" and "tstate s c = TASK_STATE_RUNNING" and "idle_task s \<noteq> Some c"
    and "n < unat (tk_quantum_remaining (task_table s c))"
  shows "current_task ((scheduler_tick ^^ n) s) = Some c \<and>
    tstate ((scheduler_tick ^^ n) s) c = TASK_STATE_RUNNING \<and>
    unat (tk_quantum_remaining (task_table ((scheduler_tick ^^ n) s) c)) =
      unat (tk_quantum_remaining (task_table s c)) - n"
  using tick_run [OF assms] by blast

theorem quantum_is_honoured_witness:
  "current_task ((scheduler_tick ^^ 9) (trio TASK_STATE_READY)) = Some 5"
  using quantum_is_honoured [OF trio_inv [of TASK_STATE_READY], of 5 9]
  by (simp add: trio_def blank_sched_def blank_task_def)

text \<open>
  C23. Finished tasks are reclaimed. With the preemption guard open, one tick takes every queued
  zombie or dead task that is neither the current nor the idle task off the run queue and frees its
  slot, so the slot can be allocated again.
\<close>

theorem tick_reaps_finished:
  assumes "sched_inv s" and "pids_distinct s" and "preempt_disable_count s = 0" and "run_queue s xs"
    and "i \<in> set xs" and "tstate s i \<in> {TASK_STATE_ZOMBIE, TASK_STATE_DEAD}"
    and "current_task s \<noteq> Some i" and "idle_task s \<noteq> Some i" and "current_task s = Some c"
  shows "tstate (scheduler_tick s) i = TASK_STATE_UNUSED"
proof -
  obtain ys s2 where w: "run_queue s ys" "queued_live s ys" "run_queue s2 ys"
    "\<And>j. tstate s2 j = (if j \<in> set ys \<and> tstate s j = TASK_STATE_SLEEPING \<and>
        tk_wake_tick (task_table s j) \<le> total_ticks (sched_stats s) + 1 then TASK_STATE_READY else tstate s j)"
    "\<And>j. tk_pid (task_table s2 j) = tk_pid (task_table s j)"
    "current_task s2 = current_task s" "idle_task s2 = idle_task s"
    "scheduler_tick s = quantum_tick (ticked s)"
    "ticked s = upd_stats (\<lambda>st. st\<lparr>runnable_count := count_runnable (reap_from TASK_MAX_COUNT (first_of ys None) s2)\<rparr>)
       (reap_from TASK_MAX_COUNT (first_of ys None) s2)"
    using ticked_wakes [OF assms(1)] assms(3) by metis
  have ys: "ys = xs" by (rule run_queue_unique [OF w(1) assms(4)])
  define s3 where "s3 = reap_from TASK_MAX_COUNT (first_of ys None) s2"
  have pd: "pids_distinct s2" using assms(2) by (auto simp: pids_distinct_def w(4,5))
  have live: "\<forall>j\<in>set ([] @ ys). tstate s2 j \<noteq> TASK_STATE_UNUSED" using w(2) by (auto simp: queued_live_def w(4))
  obtain st: "tstate s3 i = TASK_STATE_UNUSED" and cur: "current_task s3 = current_task s"
    using reap_all [of s2 "[]" ys TASK_MAX_COUNT, OF pd _ live run_queue_length [OF w(1)]] w(3,4,6) assms(5,6,7)
    by (auto simp: ys s3_def)
  have "idle_task s3 = idle_task s"
    using reap_frame [of s2 c TASK_MAX_COUNT "first_of ys None"] w(6,7) assms(9) by (simp add: s3_def)
  then show ?thesis
    unfolding w(8) w(9) s3_def [symmetric] using st cur assms(7,8) by (intro quantum_tick_keeps_free) auto
qed

theorem tick_reaps_finished_witness: "tstate (scheduler_tick (trio TASK_STATE_ZOMBIE)) 7 = TASK_STATE_UNUSED"
  using tick_reaps_finished [OF trio_inv trio_pids _ trio_queue, of TASK_STATE_ZOMBIE 7 5]
  by (simp add: trio_def blank_sched_def)

text \<open>
  What \<^verbatim>\<open>task_create\<close> hands out. When a slot is free and the stack allocation succeeds, the new task is
  in a previously unused slot, is ready with a full quantum and a fresh process id, its saved
  stack pointer is 16-byte aligned, and the words above it are the
  null return address, the argument and the entry point that the assembly trampoline pops. When the
  allocation fails the slot stays unused and nothing is handed out.
\<close>

theorem task_create_frame:
  assumes "task_alloc s = Some i"
  shows "fst (task_create None cr3 tr name entry arg prio s) = None \<and>
    tstate (snd (task_create None cr3 tr name entry arg prio s)) i = TASK_STATE_UNUSED \<and>
    fst (task_create (Some base) cr3 tr name entry arg prio s) = Some i \<and> tstate s i = TASK_STATE_UNUSED \<and>
    (let t = task_table (snd (task_create (Some base) cr3 tr name entry arg prio s)) i;
         sp = cx_rsp (tk_context t) in
       tk_state t = TASK_STATE_READY \<and> tk_quantum_remaining t = SCHED_DEFAULT_QUANTUM \<and>
       tk_pid t = next_pid s \<and> next_pid (snd (task_create (Some base) cr3 tr name entry arg prio s)) = next_pid s + 1 \<and>
       sp AND 0xF = 0 \<and> cx_rip (tk_context t) = tr \<and>
       tk_stack_mem t sp = 0 \<and> tk_stack_mem t (sp + 8) = arg \<and> tk_stack_mem t (sp + 16) = entry)"
proof -
  note created = task_create_def assms stack_frame_def
  have "fst (task_create None cr3 tr name entry arg prio s) = None"
    "tstate (snd (task_create None cr3 tr name entry arg prio s)) i = TASK_STATE_UNUSED"
    "fst (task_create (Some base) cr3 tr name entry arg prio s) = Some i"
    by (simp_all add: created Let_def)
  moreover have "let t = task_table (snd (task_create (Some base) cr3 tr name entry arg prio s)) i in
       tk_state t = TASK_STATE_READY \<and> tk_quantum_remaining t = SCHED_DEFAULT_QUANTUM \<and>
       tk_pid t = next_pid s \<and> next_pid (snd (task_create (Some base) cr3 tr name entry arg prio s)) = next_pid s + 1 \<and>
       cx_rip (tk_context t) = tr"
    by (simp add: created Let_def)
  moreover obtain w where w: "cx_rsp (tk_context (task_table (snd (task_create (Some base) cr3 tr name entry arg prio s)) i)) =
      (w AND NOT 0xF) - 8 - 8 - 8 - 8"
    "tk_stack_mem (task_table (snd (task_create (Some base) cr3 tr name entry arg prio s)) i) =
       (tk_stack_mem (task_table s i))((w AND NOT 0xF) - 8 := 0, (w AND NOT 0xF) - 8 - 8 := entry,
          (w AND NOT 0xF) - 8 - 8 - 8 := arg, (w AND NOT 0xF) - 8 - 8 - 8 - 8 := 0)"
    by (rule that [of "base + of_nat TASK_KERNEL_STACK_SIZE"]) (simp_all add: created Let_def del: diff_diff_eq diff_diff_add)
  ultimately show ?thesis
    using task_alloc_some [OF assms] stack_pointer_aligned [of w]
    by (simp add: Let_def w del: diff_diff_eq diff_diff_add)
qed

theorem task_create_frame_witness:
  "fst (task_create (Some 0x10000) 0 0 ''w'' 1 2 2 (task_system_init blank_sched)) = Some 0"
proof -
  have "task_alloc (task_system_init blank_sched) = Some 0"
    by (simp add: task_alloc_def task_system_init_def blank_sched_def TASK_MAX_COUNT_def upt_rec)
  from task_create_frame [OF this, of _ _ _ _ _ _ "0x10000"] show ?thesis by blast
qed

end
