(* ===== verification/Interfaces.thy ===== *)
theory Interfaces
  imports CapyBase
begin

text \<open>
  The contracts between components, as locales: what the provider promises are the
  assumptions, what a client may conclude is proved once inside the locale. Each locale is
  interpreted, in the theory of the component that provides it, on the model of the code.

  \<^item> \<open>frame_allocator\<close>: the page-frame allocator as the virtual memory manager uses it
    (provided by \<open>Pmm\<close>);
  \<^item> \<open>bounded_stream\<close>: a bounded first-in first-out channel (provided by the pipe, the
    keyboard buffer and the job queue of a worker pool).
\<close>

text \<open>Repeated allocation, stopping at the first failure (address 0).\<close>

fun alloc_upto :: "('s \<Rightarrow> u64 \<times> 's) \<Rightarrow> nat \<Rightarrow> 's \<Rightarrow> u64 list \<times> 's" where
  "alloc_upto al 0 s = ([], s)"
| "alloc_upto al (Suc n) s =
     (let (a, s1) = al s in
      if a = 0 then ([], s1) else (let (as, s2) = alloc_upto al n s1 in (a # as, s2)))"

locale frame_allocator =
  fixes alloc :: "'s \<Rightarrow> u64 \<times> 's"
    and release :: "u64 \<Rightarrow> 's \<Rightarrow> 's"
    and frees :: "'s \<Rightarrow> nat set"
    and frames :: "'s \<Rightarrow> nat set"
    and phys :: "nat \<Rightarrow> u64"
    and inv :: "'s \<Rightarrow> bool"
  assumes frees_frames: "inv s \<Longrightarrow> frees s \<subseteq> frames s"
    and finite_frames: "inv s \<Longrightarrow> finite (frames s)"
    and phys_nonzero: "inv s \<Longrightarrow> p \<in> frames s \<Longrightarrow> phys p \<noteq> 0"
    and phys_inj: "inv s \<Longrightarrow> inj_on phys (frames s)"
    and alloc_empty: "inv s \<Longrightarrow> frees s = {} \<Longrightarrow> alloc s = (0, s)"
    and alloc_takes: "inv s \<Longrightarrow> frees s \<noteq> {} \<Longrightarrow>
      \<exists>p s'. alloc s = (phys p, s') \<and> p \<in> frees s \<and> frees s' = frees s - {p} \<and>
             frames s' = frames s \<and> inv s'"
    and release_gives: "inv s \<Longrightarrow> p \<in> frames s \<Longrightarrow>
      inv (release (phys p) s) \<and> frees (release (phys p) s) = insert p (frees s) \<and>
      frames (release (phys p) s) = frames s"
begin

lemma alloc_result:
  assumes "inv s" and "alloc s = (a, s')"
  shows "(frees s = {} \<and> a = 0 \<and> s' = s) \<or>
    (\<exists>p. a = phys p \<and> a \<noteq> 0 \<and> p \<in> frees s \<and> frees s' = frees s - {p} \<and>
         frames s' = frames s \<and> inv s')"
proof (cases "frees s = {}")
  case True
  with assms alloc_empty show ?thesis by simp
next
  case False
  with assms alloc_takes [of s] obtain p where
    p: "a = phys p" "p \<in> frees s" "frees s' = frees s - {p}" "frames s' = frames s" "inv s'"
    by auto
  with assms(1) have "p \<in> frames s" using frees_frames by auto
  with assms(1) p(1) have "a \<noteq> 0" using phys_nonzero by simp
  with p show ?thesis by blast
qed

lemma alloc_zero_iff:
  assumes "inv s"
  shows "fst (alloc s) = 0 \<longleftrightarrow> frees s = {}"
  using alloc_result [OF assms, of "fst (alloc s)" "snd (alloc s)"] by auto

lemma alloc_release:
  assumes "inv s" and "alloc s = (a, s')" and "a \<noteq> 0"
  shows "inv (release a s') \<and> frees (release a s') = frees s"
proof -
  from alloc_result [OF assms(1,2)] assms(3) obtain p where
    p: "a = phys p" "p \<in> frees s" "frees s' = frees s - {p}" "frames s' = frames s" "inv s'"
    by auto
  with assms(1) have "p \<in> frames s'" using frees_frames by auto
  with p release_gives [of s' p] show ?thesis by auto
qed

lemma alloc_upto_spec:
  assumes "inv s" and "alloc_upto alloc n s = (as, s')"
  shows "inv s' \<and> length as = min n (card (frees s)) \<and> distinct as \<and>
    set as \<subseteq> phys ` frees s \<and> phys ` frees s' = phys ` frees s - set as \<and>
    frames s' = frames s \<and> frees s' \<subseteq> frees s"
  using assms
proof (induction n arbitrary: s as s')
  case 0
  then show ?case by simp
next
  case (Suc n)
  obtain a s1 where al: "alloc s = (a, s1)" by (cases "alloc s")
  from alloc_result [OF Suc.prems(1) al]
  consider (failed) "frees s = {}" "a = 0" "s1 = s"
    | (taken) p where "a = phys p" "a \<noteq> 0" "p \<in> frees s" "frees s1 = frees s - {p}"
        "frames s1 = frames s" "inv s1"
    by blast
  then show ?case
  proof cases
    case failed
    with Suc.prems al show ?thesis by simp
  next
    case (taken p)
    obtain as2 s2 where rest: "alloc_upto alloc n s1 = (as2, s2)" by (cases "alloc_upto alloc n s1")
    with Suc.prems al taken have res: "as = a # as2" "s' = s2" by auto
    note IH = Suc.IH [OF \<open>inv s1\<close> rest]
    have fin: "finite (frees s)"
      by (rule finite_subset [OF frees_frames finite_frames]) (rule Suc.prems(1))+
    have inj: "inj_on phys (frees s)"
      by (rule inj_on_subset [OF phys_inj frees_frames]) (rule Suc.prems(1))+
    have img: "phys ` frees s1 = phys ` frees s - {a}"
      using taken inj by (auto simp: inj_on_def)
    have "card (frees s) = Suc (card (frees s1))"
      using taken fin by (metis card_Suc_Diff1)
    then have len: "length as = min (Suc n) (card (frees s))"
      using IH res by simp
    have "a \<notin> set as2" and "set as2 \<subseteq> phys ` frees s"
      and "phys ` frees s' = phys ` frees s - insert a (set as2)"
      using IH img res(2) by auto
    with len IH res taken show ?thesis by (simp add: subset_iff)
  qed
qed

end

subsection \<open>Bounded streams\<close>

text \<open>
  A run of a stream: a list of writes (of a chunk) and reads (of at most \<open>n\<close> elements); the
  result pairs everything that was accepted with everything that was delivered.
\<close>

datatype 'a stream_op = Write_op "'a list" | Read_op nat

fun stream_run ::
  "('a list \<Rightarrow> 's \<Rightarrow> nat \<times> 's) \<Rightarrow> (nat \<Rightarrow> 's \<Rightarrow> 'a list \<times> 's) \<Rightarrow>
   'a stream_op list \<Rightarrow> 's \<Rightarrow> 'a list \<times> 'a list \<times> 's" where
  "stream_run wr rd [] s = ([], [], s)"
| "stream_run wr rd (Write_op xs # ops) s =
     (let (k, s1) = wr xs s; (ins, outs, s2) = stream_run wr rd ops s1 in (take k xs @ ins, outs, s2))"
| "stream_run wr rd (Read_op n # ops) s =
     (let (ys, s1) = rd n s; (ins, outs, s2) = stream_run wr rd ops s1 in (ins, ys @ outs, s2))"

locale bounded_stream =
  fixes put :: "'a list \<Rightarrow> 's \<Rightarrow> nat \<times> 's"
    and get :: "nat \<Rightarrow> 's \<Rightarrow> 'a list \<times> 's"
    and contents :: "'s \<Rightarrow> 'a list"
    and cap :: nat
    and inv :: "'s \<Rightarrow> bool"
  assumes bounded: "inv s \<Longrightarrow> length (contents s) \<le> cap"
    and put_law: "inv s \<Longrightarrow> put xs s = (k, s') \<Longrightarrow>
      inv s' \<and> k = min (length xs) (cap - length (contents s)) \<and> contents s' = contents s @ take k xs"
    and get_law: "inv s \<Longrightarrow> get n s = (ys, s') \<Longrightarrow>
      inv s' \<and> ys = take n (contents s) \<and> contents s' = drop n (contents s)"
begin

lemma run_inv: "inv s \<Longrightarrow> stream_run put get ops s = (ins, outs, s') \<Longrightarrow> inv s'"
proof (induction ops arbitrary: s ins outs)
  case Nil
  then show ?case by simp
next
  case (Cons op ops)
  show ?case
  proof (cases op)
    case (Write_op xs)
    with Cons show ?thesis by (auto dest: put_law split: prod.splits)
  next
    case (Read_op n)
    with Cons show ?thesis by (auto dest: get_law split: prod.splits)
  qed
qed

lemma run_conserves:
  "inv s \<Longrightarrow> stream_run put get ops s = (ins, outs, s') \<Longrightarrow>
   outs @ contents s' = contents s @ ins"
proof (induction ops arbitrary: s ins outs)
  case Nil
  then show ?case by simp
next
  case (Cons op ops)
  show ?case
  proof (cases op)
    case (Write_op xs)
    obtain k s1 where w: "put xs s = (k, s1)" by fastforce
    obtain i2 o2 where r: "stream_run put get ops s1 = (i2, o2, s')" "ins = take k xs @ i2" "outs = o2"
      using Cons.prems Write_op w by (auto split: prod.splits)
    from put_law [OF Cons.prems(1) w] have "inv s1" "contents s1 = contents s @ take k xs" by auto
    with Cons.IH [OF _ r(1)] r show ?thesis by simp
  next
    case (Read_op n)
    obtain ys s1 where w: "get n s = (ys, s1)" by fastforce
    obtain i2 o2 where r: "stream_run put get ops s1 = (i2, o2, s')" "ins = i2" "outs = ys @ o2"
      using Cons.prems Read_op w by (auto split: prod.splits)
    from get_law [OF Cons.prems(1) w] have "inv s1" "ys @ contents s1 = contents s" by auto
    with Cons.IH [OF _ r(1)] r show ?thesis by (metis append.assoc)
  qed
qed

lemma put_then_get:
  assumes "inv s" and "contents s = []" and "length xs \<le> cap"
    and "put xs s = (k, s1)" and "get n s1 = (ys, s2)"
  shows "k = length xs \<and> ys = take n xs"
  using put_law [OF assms(1,4)] get_law [OF _ assms(5)] assms(2,3) by auto

end

subsection \<open>Ring buffers\<close>

text \<open>The \<open>n\<close> elements that follow index \<open>start\<close> in a ring of \<open>sz\<close> slots.\<close>

definition ring_list :: "'a carr \<Rightarrow> nat \<Rightarrow> nat \<Rightarrow> nat \<Rightarrow> 'a list" where
  "ring_list buf start n sz = map (\<lambda>i. buf ((start + i) mod sz)) [0..<n]"

lemma length_ring_list [simp]: "length (ring_list buf start n sz) = n"
  by (simp add: ring_list_def)

lemma ring_index_inj:
  fixes i j start sz :: nat
  assumes "i < sz" and "j < sz" and "(start + i) mod sz = (start + j) mod sz"
  shows "i = j"
proof -
  have *: False if "a < b" "b < sz" "(start + a) mod sz = (start + b) mod sz" for a b
  proof -
    have "sz dvd (start + b) - (start + a)" using that by (metis mod_eq_dvd_iff_nat add_le_cancel_left less_imp_le)
    with that show False by (simp add: nat_dvd_not_less)
  qed
  show ?thesis using assms * [of i j] * [of j i] by (metis linorder_neqE_nat)
qed

lemma ring_list_snoc:
  assumes "n < sz"
  shows "ring_list (buf((start + n) mod sz := x)) start (Suc n) sz = ring_list buf start n sz @ [x]"
proof -
  have "(start + i) mod sz \<noteq> (start + n) mod sz" if "i < n" for i
    using ring_index_inj [of i sz n start] that assms by auto
  then show ?thesis by (simp add: ring_list_def)
qed

lemma ring_list_take_drop:
  assumes "k \<le> n"
  shows "take k (ring_list buf start n sz) = ring_list buf start k sz"
    and "drop k (ring_list buf start n sz) = ring_list buf ((start + k) mod sz) (n - k) sz"
proof -
  show "take k (ring_list buf start n sz) = ring_list buf start k sz"
    using assms by (simp add: ring_list_def take_map)
  show "drop k (ring_list buf start n sz) = ring_list buf ((start + k) mod sz) (n - k) sz"
    by (rule nth_equalityI) (auto simp: ring_list_def mod_simps add.assoc)
qed

text \<open>The write loop of a ring: \<open>buf[(wp + i) % sz] = xs[i]\<close> for \<open>i < k\<close>.\<close>

definition ring_write :: "nat \<Rightarrow> nat \<Rightarrow> 'a list \<Rightarrow> nat \<Rightarrow> 'a carr \<Rightarrow> 'a carr" where
  "ring_write sz wp xs k buf = fold (\<lambda>i b. b((wp + i) mod sz := xs ! i)) [0..<k] buf"

lemma ring_write_list:
  assumes "n + k \<le> sz" and "k \<le> length xs"
  shows "ring_list (ring_write sz ((start + n) mod sz) xs k buf) start (n + k) sz =
    ring_list buf start n sz @ take k xs"
  using assms
proof (induction k)
  case 0
  then show ?case by (simp add: ring_write_def)
next
  case (Suc k)
  let ?b = "ring_write sz ((start + n) mod sz) xs k buf"
  have idx: "((start + n) mod sz + k) mod sz = (start + (n + k)) mod sz"
    by (simp add: mod_simps add.assoc)
  have "ring_write sz ((start + n) mod sz) xs (Suc k) buf = ?b((start + (n + k)) mod sz := xs ! k)"
    by (simp add: ring_write_def idx)
  then have "ring_list (ring_write sz ((start + n) mod sz) xs (Suc k) buf) start (n + Suc k) sz =
      ring_list ?b start (n + k) sz @ [xs ! k]"
    using Suc.prems by (simp add: ring_list_snoc)
  with Suc show ?case by (simp add: take_Suc_conv_app_nth)
qed

end
