(* ===== verification/Pipe.thy ===== *)
theory Pipe
  imports Interfaces
begin

text \<open>
  Kernel pipes, \<^verbatim>\<open>src/src/kernel/pipe.c\<close>: a table of 32 ring buffers with a read and a write
  end each. Positions and counts (\<^verbatim>\<open>uint32_t\<close>) are \<open>nat\<close>, bounded by the buffer size in
  every reachable state; the truncation of the caller's \<^verbatim>\<open>size_t\<close> length to 32 bits is
  written out. A null buffer is \<open>None\<close> (or \<open>False\<close> for a destination); a read returns the
  bytes it stored.

  Shown: the ring invariant is kept by every operation; a pipe with both ends open is a
  \<open>bounded_stream\<close>, so no byte is lost, duplicated or reordered; \<^verbatim>\<open>pipe_poll_events\<close> predicts
  what read and write will do.
\<close>

definition PIPE_BUF_SIZE :: nat where "PIPE_BUF_SIZE = 64 * 1024"
definition PIPE_MAX :: nat where "PIPE_MAX = 32"
definition PIPE_POLLIN :: u32 where "PIPE_POLLIN = 1"
definition PIPE_POLLOUT :: u32 where "PIPE_POLLOUT = 4"
definition PIPE_POLLERR :: u32 where "PIPE_POLLERR = 8"
definition PIPE_POLLHUP :: u32 where "PIPE_POLLHUP = 0x10"

record pipe =
  pp_buffer :: "u8 carr"
  pp_read_pos :: nat
  pp_write_pos :: nat
  pp_count :: nat
  pp_read_open :: bool
  pp_write_open :: bool
  pp_id :: int

record pipes =
  g_pipes :: "pipe carr"
  g_pipe_initialized :: bool

definition pipe_zero :: pipe where
  "pipe_zero = \<lparr>pp_buffer = (\<lambda>_. 0), pp_read_pos = 0, pp_write_pos = 0, pp_count = 0,
     pp_read_open = False, pp_write_open = False, pp_id = 0\<rparr>"

definition pipe_system_init :: "pipes \<Rightarrow> pipes" where
  "pipe_system_init s = s\<lparr>g_pipes := (\<lambda>i. if i < PIPE_MAX then pipe_zero else g_pipes s i),
                          g_pipe_initialized := True\<rparr>"

text \<open>The two descriptors are stored through \<^verbatim>\<open>fds\<close> only on success.\<close>

definition pipe_create :: "bool \<Rightarrow> pipes \<Rightarrow> int \<times> (int \<times> int) option \<times> pipes" where
  "pipe_create fds_ok s =
     (if \<not> g_pipe_initialized s \<or> \<not> fds_ok then (-1, None, s)
      else case find (\<lambda>i. \<not> pp_read_open (g_pipes s i) \<and> \<not> pp_write_open (g_pipes s i)) [0..<PIPE_MAX] of
        Some i \<Rightarrow>
          (0, Some (int i, int i + 256),
           s\<lparr>g_pipes := (g_pipes s)(i := pipe_zero\<lparr>pp_id := int i, pp_read_open := True,
                                                     pp_write_open := True\<rparr>)\<rparr>)
      | None \<Rightarrow> (-1, None, s))"

definition valid_pipe :: "int \<Rightarrow> bool" where
  "valid_pipe pipe_id = (\<not> (pipe_id < 0 \<or> pipe_id \<ge> int PIPE_MAX))"

text \<open>The copy loops with the index updates that follow them.\<close>

definition pipe_take :: "nat \<Rightarrow> pipe \<Rightarrow> u8 list \<times> pipe" where
  "pipe_take avail p =
     (map (\<lambda>k. pp_buffer p ((pp_read_pos p + k) mod PIPE_BUF_SIZE)) [0..<avail],
      p\<lparr>pp_read_pos := (pp_read_pos p + avail) mod PIPE_BUF_SIZE, pp_count := pp_count p - avail\<rparr>)"

definition pipe_fill :: "u8 list \<Rightarrow> nat \<Rightarrow> pipe \<Rightarrow> pipe" where
  "pipe_fill src to_write p =
     p\<lparr>pp_buffer := ring_write PIPE_BUF_SIZE (pp_write_pos p) src to_write (pp_buffer p),
       pp_write_pos := (pp_write_pos p + to_write) mod PIPE_BUF_SIZE,
       pp_count := pp_count p + to_write\<rparr>"

definition pipe_read :: "int \<Rightarrow> bool \<Rightarrow> nat \<Rightarrow> pipes \<Rightarrow> int \<times> u8 list \<times> pipes" where
  "pipe_read pipe_id buf_ok len s =
     (if \<not> valid_pipe pipe_id \<or> \<not> buf_ok then (-1, [], s)
      else let i = nat pipe_id; p = g_pipes s i in
      if \<not> pp_read_open p then (-1, [], s)
      else if pp_count p = 0 then (if \<not> pp_write_open p then (0, [], s) else (-1, [], s))
      else let avail = (if pp_count p > len then len else pp_count p);
               (bytes, p') = pipe_take avail p
           in (int avail, bytes, s\<lparr>g_pipes := (g_pipes s)(i := p')\<rparr>))"

definition pipe_write :: "int \<Rightarrow> u8 list option \<Rightarrow> pipes \<Rightarrow> int \<times> pipes" where
  "pipe_write pipe_id buf s =
     (case buf of None \<Rightarrow> (-1, s) | Some src \<Rightarrow>
      if \<not> valid_pipe pipe_id then (-1, s)
      else let i = nat pipe_id; p = g_pipes s i in
      if \<not> pp_write_open p then (-1, s)
      else if \<not> pp_read_open p then (-1, s)
      else let space = PIPE_BUF_SIZE - pp_count p in
      if space = 0 then (-1, s)
      else let to_write0 = length src mod 2 ^ 32;
               to_write = (if to_write0 > space then space else to_write0)
           in (int to_write, s\<lparr>g_pipes := (g_pipes s)(i := pipe_fill src to_write p)\<rparr>))"

definition pipe_close_read :: "int \<Rightarrow> pipes \<Rightarrow> int \<times> pipes" where
  "pipe_close_read pipe_id s =
     (if \<not> valid_pipe pipe_id then (-1, s)
      else (0, s\<lparr>g_pipes := (g_pipes s)(nat pipe_id := (g_pipes s (nat pipe_id))\<lparr>pp_read_open := False\<rparr>)\<rparr>))"

definition pipe_close_write :: "int \<Rightarrow> pipes \<Rightarrow> int \<times> pipes" where
  "pipe_close_write pipe_id s =
     (if \<not> valid_pipe pipe_id then (-1, s)
      else (0, s\<lparr>g_pipes := (g_pipes s)(nat pipe_id := (g_pipes s (nat pipe_id))\<lparr>pp_write_open := False\<rparr>)\<rparr>))"

definition pipe_read_end_open :: "int \<Rightarrow> pipes \<Rightarrow> int" where
  "pipe_read_end_open pipe_id s =
     (if \<not> valid_pipe pipe_id then -1
      else if pp_read_open (g_pipes s (nat pipe_id)) then 1 else 0)"

definition pipe_poll_events :: "int \<Rightarrow> pipes \<Rightarrow> u32" where
  "pipe_poll_events fd s =
     (if \<not> g_pipe_initialized s then 0
      else let write_end = (fd \<ge> 256 \<and> fd < 256 + int PIPE_MAX);
               pipe_id = (if write_end then fd - 256 else fd) in
      if \<not> write_end \<and> (fd < 0 \<or> fd \<ge> int PIPE_MAX) then 0
      else let p = g_pipes s (nat pipe_id) in
      if \<not> pp_read_open p \<and> \<not> pp_write_open p then 0
      else if write_end then
        (if \<not> pp_write_open p then 0
         else if \<not> pp_read_open p then PIPE_POLLERR
         else if pp_count p < PIPE_BUF_SIZE then PIPE_POLLOUT else 0)
      else if \<not> pp_read_open p then 0
      else (if pp_count p > 0 then PIPE_POLLIN else 0) OR (if \<not> pp_write_open p then PIPE_POLLHUP else 0))"

subsection \<open>The ring invariant\<close>

definition pipe_ok :: "pipe \<Rightarrow> bool" where
  "pipe_ok p = (pp_count p \<le> PIPE_BUF_SIZE \<and> pp_read_pos p < PIPE_BUF_SIZE \<and>
     pp_write_pos p = (pp_read_pos p + pp_count p) mod PIPE_BUF_SIZE)"

definition pipes_inv :: "pipes \<Rightarrow> bool" where
  "pipes_inv s = (\<forall>i<PIPE_MAX. pipe_ok (g_pipes s i))"

definition ring_contents :: "pipe \<Rightarrow> u8 list" where
  "ring_contents p = ring_list (pp_buffer p) (pp_read_pos p) (pp_count p) PIPE_BUF_SIZE"

definition pipe_contents :: "nat \<Rightarrow> pipes \<Rightarrow> u8 list" where
  "pipe_contents i s = ring_contents (g_pipes s i)"

lemma PIPE_BUF_SIZE_pos [simp]: "0 < PIPE_BUF_SIZE" "PIPE_BUF_SIZE \<noteq> 0" "PIPE_BUF_SIZE < 2 ^ 32"
  by (simp_all add: PIPE_BUF_SIZE_def)

lemma length_contents [simp]:
  "length (ring_contents p) = pp_count p" "length (pipe_contents i s) = pp_count (g_pipes s i)"
  by (simp_all add: pipe_contents_def ring_contents_def)

lemma pipe_ok_fields [simp]:
  "pipe_ok pipe_zero" "pipe_ok (p\<lparr>pp_id := a\<rparr>) = pipe_ok p"
  "pipe_ok (p\<lparr>pp_read_open := b\<rparr>) = pipe_ok p" "pipe_ok (p\<lparr>pp_write_open := b\<rparr>) = pipe_ok p"
  by (simp_all add: pipe_ok_def pipe_zero_def)

lemma pipe_take_spec:
  assumes "pipe_ok p" and "k \<le> pp_count p" and "pipe_take k p = (bytes, p')"
  shows "pipe_ok p'" and "bytes = take k (ring_contents p)" and "ring_contents p' = drop k (ring_contents p)"
    and "pp_count p' = pp_count p - k"
    and "pp_read_open p' = pp_read_open p" and "pp_write_open p' = pp_write_open p"
proof -
  have p': "bytes = ring_list (pp_buffer p) (pp_read_pos p) k PIPE_BUF_SIZE"
    "p' = p\<lparr>pp_read_pos := (pp_read_pos p + k) mod PIPE_BUF_SIZE, pp_count := pp_count p - k\<rparr>"
    using assms(3) by (simp_all add: pipe_take_def ring_list_def)
  have "((pp_read_pos p + k) mod PIPE_BUF_SIZE + (pp_count p - k)) mod PIPE_BUF_SIZE =
      ((pp_read_pos p + k) + (pp_count p - k)) mod PIPE_BUF_SIZE"
    by (rule mod_add_left_eq)
  then show "pipe_ok p'" using assms(1,2) unfolding p' pipe_ok_def by auto
  show "bytes = take k (ring_contents p)" "ring_contents p' = drop k (ring_contents p)"
    by (simp_all add: p' ring_contents_def ring_list_take_drop [OF assms(2)])
  show "pp_count p' = pp_count p - k"
    "pp_read_open p' = pp_read_open p" "pp_write_open p' = pp_write_open p" by (simp_all add: p')
qed

lemma pipe_fill_spec:
  assumes "pipe_ok p" and "pp_count p + k \<le> PIPE_BUF_SIZE" and "k \<le> length src"
  shows "pipe_ok (pipe_fill src k p)" and "ring_contents (pipe_fill src k p) = ring_contents p @ take k src"
proof -
  have "((pp_read_pos p + pp_count p) mod PIPE_BUF_SIZE + k) mod PIPE_BUF_SIZE =
      (pp_read_pos p + pp_count p + k) mod PIPE_BUF_SIZE"
    by (rule mod_add_left_eq)
  then show "pipe_ok (pipe_fill src k p)"
    using assms(1,2) unfolding pipe_ok_def pipe_fill_def by (simp add: add.assoc)
  show "ring_contents (pipe_fill src k p) = ring_contents p @ take k src"
    using assms ring_write_list [OF assms(2,3)] by (simp add: ring_contents_def pipe_fill_def pipe_ok_def)
qed

lemma pipe_fill_flags [simp]:
  "pp_read_open (pipe_fill src k p) = pp_read_open p" "pp_write_open (pipe_fill src k p) = pp_write_open p"
  "pp_count (pipe_fill src k p) = pp_count p + k"
  by (simp_all add: pipe_fill_def)

text \<open>Effect of a read and of a write on a valid pipe.\<close>

lemma pipe_read_eq:
  assumes "i < PIPE_MAX" and "pp_read_open (g_pipes s i)" and "0 < pp_count (g_pipes s i)"
  shows "pipe_read (int i) True n s =
    (let k = min n (pp_count (g_pipes s i)); (bytes, p') = pipe_take k (g_pipes s i)
     in (int k, bytes, s\<lparr>g_pipes := (g_pipes s)(i := p')\<rparr>))"
  using assms by (simp add: pipe_read_def valid_pipe_def Let_def min_def)

lemma pipe_write_eq:
  assumes "i < PIPE_MAX" and "pp_read_open (g_pipes s i)" and "pp_write_open (g_pipes s i)"
    and "pp_count (g_pipes s i) < PIPE_BUF_SIZE" and "length xs < 2 ^ 32"
  shows "pipe_write (int i) (Some xs) s =
    (let k = min (length xs) (PIPE_BUF_SIZE - pp_count (g_pipes s i))
     in (int k, s\<lparr>g_pipes := (g_pipes s)(i := pipe_fill xs k (g_pipes s i))\<rparr>))"
  using assms by (simp add: pipe_write_def valid_pipe_def Let_def min_def)

lemma pipes_inv_upd: "pipes_inv s \<Longrightarrow> (i < PIPE_MAX \<Longrightarrow> pipe_ok p) \<Longrightarrow> pipes_inv (s\<lparr>g_pipes := (g_pipes s)(i := p)\<rparr>)"
  by (simp add: pipes_inv_def)

lemma pipe_read_inv [capy_inv]: "pipes_inv s \<Longrightarrow> pipes_inv (snd (snd (pipe_read i ok n s)))"
  by (auto simp: pipe_read_def Let_def pipes_inv_def split_beta intro!: pipes_inv_upd
      pipe_take_spec(1) [OF _ _ prod.collapse [symmetric]])

lemma pipe_write_inv [capy_inv]: "pipes_inv s \<Longrightarrow> pipes_inv (snd (pipe_write i buf s))"
proof (cases buf)
  case (Some src)
  assume inv: "pipes_inv s"
  have "length src mod 2 ^ 32 \<le> length src" by (rule mod_less_eq_dividend)
  then show ?thesis using inv unfolding Some pipe_write_def
    by (auto simp: Let_def pipes_inv_def not_le intro!: pipe_fill_spec(1))
qed (simp add: pipe_write_def)

lemma pipe_close_inv [capy_inv]:
  "pipes_inv s \<Longrightarrow> pipes_inv (snd (pipe_close_read i s))"
  "pipes_inv s \<Longrightarrow> pipes_inv (snd (pipe_close_write i s))"
  by (auto simp: pipe_close_read_def pipe_close_write_def pipes_inv_def)

lemma pipe_create_inv [capy_inv]: "pipes_inv s \<Longrightarrow> pipes_inv (snd (snd (pipe_create ok s)))"
  by (auto simp: pipe_create_def pipes_inv_def split: option.split)

lemma pipe_init_inv [capy_inv]: "pipes_inv (pipe_system_init s)"
  by (simp add: pipe_system_init_def pipes_inv_def)

subsection \<open>An open pipe is a bounded stream\<close>

text \<open>
  One write call and one read call as stream operations. A would-block result (-1) accepts or
  delivers nothing; a caller passes at most \<open>2\<^sup>3\<^sup>2 - 1\<close> bytes per call.
\<close>

definition pipe_put :: "nat \<Rightarrow> u8 list \<Rightarrow> pipes \<Rightarrow> nat \<times> pipes" where
  "pipe_put i xs s = (let (r, s') = pipe_write (int i) (Some (take (2 ^ 32 - 1) xs)) s in (nat r, s'))"

definition pipe_get :: "nat \<Rightarrow> nat \<Rightarrow> pipes \<Rightarrow> u8 list \<times> pipes" where
  "pipe_get i n s = (let (r, ys, s') = pipe_read (int i) True n s in (ys, s'))"

definition pipe_open :: "nat \<Rightarrow> pipes \<Rightarrow> bool" where
  "pipe_open i s = (pipes_inv s \<and> i < PIPE_MAX \<and> pp_read_open (g_pipes s i) \<and> pp_write_open (g_pipes s i))"

lemma pipe_put_law:
  assumes "pipe_open i s" and "pipe_put i xs s = (k, s')"
  shows "pipe_open i s'" and "k = min (length xs) (PIPE_BUF_SIZE - pp_count (g_pipes s i))"
    and "pipe_contents i s' = pipe_contents i s @ take k xs"
    and "j \<noteq> i \<Longrightarrow> g_pipes s' j = g_pipes s j"
proof -
  let ?p = "g_pipes s i" and ?xs = "take (2 ^ 32 - 1) xs"
  have ok: "pipe_ok ?p" "pipes_inv s" "i < PIPE_MAX" "pp_read_open ?p" "pp_write_open ?p"
    using assms(1) by (auto simp: pipe_open_def pipes_inv_def)
  have cnt: "pp_count ?p \<le> PIPE_BUF_SIZE" using ok by (simp add: pipe_ok_def)
  have "pipe_open i s' \<and> k = min (length xs) (PIPE_BUF_SIZE - pp_count ?p) \<and>
    pipe_contents i s' = pipe_contents i s @ take k xs \<and> (j \<noteq> i \<longrightarrow> g_pipes s' j = g_pipes s j)"
  proof (cases "pp_count ?p < PIPE_BUF_SIZE")
    case False
    with ok have "pipe_write (int i) (Some ?xs) s = (-1, s)"
      by (simp add: pipe_write_def valid_pipe_def Let_def)
    with assms False cnt show ?thesis by (simp add: pipe_put_def)
  next
    case True
    define n where "n = min (length ?xs) (PIPE_BUF_SIZE - pp_count ?p)"
    have n: "n = min (length xs) (PIPE_BUF_SIZE - pp_count ?p)"
      by (simp add: n_def PIPE_BUF_SIZE_def)
    have "length ?xs < 2 ^ 32" by simp
    from pipe_write_eq [OF ok(3,4,5) True this] assms(2)
    have s': "k = n" "s' = s\<lparr>g_pipes := (g_pipes s)(i := pipe_fill ?xs n ?p)\<rparr>"
      by (auto simp: pipe_put_def Let_def n_def)
    have le: "pp_count ?p + n \<le> PIPE_BUF_SIZE" "n \<le> length ?xs"
      using cnt by (auto simp: n_def)
    note fill = pipe_fill_spec [OF ok(1) le]
    have "min n (2 ^ 32 - 1) = n" using le(2) by (simp del: take_take)
    then have "take n ?xs = take n xs" by (simp only: take_take)
    then have "pipe_contents i s' = pipe_contents i s @ take n xs"
      using fill(2) by (simp add: s' pipe_contents_def)
    moreover have "pipe_open i s'"
      using ok fill(1) by (simp add: pipe_open_def s' pipes_inv_def)
    ultimately show ?thesis using s' n by simp
  qed
  then show "pipe_open i s'" "k = min (length xs) (PIPE_BUF_SIZE - pp_count (g_pipes s i))"
    "pipe_contents i s' = pipe_contents i s @ take k xs" "j \<noteq> i \<Longrightarrow> g_pipes s' j = g_pipes s j"
    by simp_all
qed

lemma pipe_get_law:
  assumes "pipe_open i s" and "pipe_get i n s = (ys, s')"
  shows "pipe_open i s' \<and> ys = take n (pipe_contents i s) \<and> pipe_contents i s' = drop n (pipe_contents i s)"
proof -
  let ?p = "g_pipes s i"
  have ok: "pipe_ok ?p" "pipes_inv s" "i < PIPE_MAX" "pp_read_open ?p" "pp_write_open ?p"
    using assms(1) by (auto simp: pipe_open_def pipes_inv_def)
  show ?thesis
  proof (cases "pp_count ?p = 0")
    case True
    then have "pipe_contents i s = []" 
      using length_contents(2) [of i s] by (simp del: length_contents)
    moreover from True ok have "pipe_read (int i) True n s = (-1, [], s)"
      by (simp add: pipe_read_def valid_pipe_def Let_def)
    ultimately show ?thesis using assms by (simp add: pipe_get_def)
  next
    case False
    define k where "k = min n (pp_count ?p)"
    obtain bytes p' where t: "pipe_take k ?p = (bytes, p')" by fastforce
    have "k \<le> pp_count ?p" by (simp add: k_def)
    note take = pipe_take_spec [OF ok(1) this t]
    from pipe_read_eq [OF ok(3,4), of n] False t assms(2)
    have s': "ys = bytes" "s' = s\<lparr>g_pipes := (g_pipes s)(i := p')\<rparr>"
      by (auto simp: pipe_get_def Let_def k_def)
    have "take k (ring_contents ?p) = take n (ring_contents ?p)"
      "drop k (ring_contents ?p) = drop n (ring_contents ?p)"
      by (auto simp: k_def min_def)
    with take ok show ?thesis by (simp add: s' pipe_contents_def pipe_open_def pipes_inv_def)
  qed
qed

interpretation pipe_stream: bounded_stream
  "pipe_put i" "pipe_get i" "pipe_contents i" PIPE_BUF_SIZE "pipe_open i" for i
proof unfold_locales
  fix s assume "pipe_open i s"
  then show "length (pipe_contents i s) \<le> PIPE_BUF_SIZE"
    by (auto simp: pipe_open_def pipes_inv_def pipe_ok_def)
next
  fix s xs k s' assume "pipe_open i s" "pipe_put i xs s = (k, s')"
  from pipe_put_law [OF this]
  show "pipe_open i s' \<and> k = min (length xs) (PIPE_BUF_SIZE - length (pipe_contents i s)) \<and>
      pipe_contents i s' = pipe_contents i s @ take k xs" by simp
next
  fix s n ys s' assume "pipe_open i s" "pipe_get i n s = (ys, s')"
  from pipe_get_law [OF this]
  show "pipe_open i s' \<and> ys = take n (pipe_contents i s) \<and> pipe_contents i s' = drop n (pipe_contents i s)" .
qed

text \<open>A table with one open, empty pipe.\<close>

definition demo_pipes :: pipes where
  "demo_pipes = snd (snd (pipe_create True (pipe_system_init \<lparr>g_pipes = (\<lambda>_. pipe_zero), g_pipe_initialized = False\<rparr>)))"

lemma demo_pipes_eq:
  "pipe_create True (pipe_system_init \<lparr>g_pipes = (\<lambda>_. pipe_zero), g_pipe_initialized = False\<rparr>) =
     (0, Some (0, 256), \<lparr>g_pipes = (\<lambda>_. pipe_zero)(0 := pipe_zero\<lparr>pp_id := 0, pp_read_open := True,
        pp_write_open := True\<rparr>), g_pipe_initialized = True\<rparr>)"
proof -
  have f: "[0..<PIPE_MAX] = 0 # [1..<PIPE_MAX]" by (simp add: PIPE_MAX_def upt_rec)
  show ?thesis
    unfolding pipe_create_def f by (simp add: pipe_system_init_def PIPE_MAX_def pipe_zero_def fun_eq_iff)
qed

lemma demo_pipes_open: "pipe_open 0 demo_pipes" "pipe_contents 0 demo_pipes = []"
  "g_pipe_initialized demo_pipes" "pipes_inv demo_pipes"
  unfolding demo_pipes_def demo_pipes_eq
  by (auto simp: pipe_open_def pipes_inv_def PIPE_MAX_def pipe_contents_def
      ring_contents_def ring_list_def pipe_zero_def pipe_ok_def)

subsection \<open>Properties\<close>

text \<open>
  C12. A pipe delivers exactly the bytes it accepted, in order. For every interleaving of write and
  read calls on a pipe with both ends open, the bytes delivered so far followed by the bytes still
  buffered are the bytes buffered at the start followed by the bytes accepted: nothing is lost,
  duplicated or reordered; the pipe stays open and its ring invariant holds.
\<close>

theorem pipe_stream_conserves:
  assumes "pipe_open i s" and "stream_run (pipe_put i) (pipe_get i) ops s = (accepted, delivered, s')"
  shows "delivered @ pipe_contents i s' = pipe_contents i s @ accepted \<and> pipe_open i s'"
  using pipe_stream.run_conserves [OF assms] pipe_stream.run_inv [OF assms] by simp

theorem pipe_stream_conserves_witness:
  "fst (snd (stream_run (pipe_put 0) (pipe_get 0) [Write_op [1, 2, 3], Read_op 2, Write_op [4], Read_op 9] demo_pipes))
     = [1, 2, 3, 4]"
proof -
  let ?ops = "[Write_op [1, 2, 3], Read_op 2, Write_op [4], Read_op 9] :: u8 stream_op list"
  obtain a d s' where r: "stream_run (pipe_put 0) (pipe_get 0) ?ops demo_pipes = (a, d, s')"
    using prod_cases3 by blast
  obtain k1 s1 where s1: "pipe_put 0 [1, 2, 3] demo_pipes = (k1, s1)" by fastforce
  obtain y2 s2 where s2: "pipe_get 0 2 s1 = (y2, s2)" by fastforce
  obtain k3 s3 where s3: "pipe_put 0 [4] s2 = (k3, s3)" by fastforce
  obtain y4 s4 where s4: "pipe_get 0 9 s3 = (y4, s4)" by fastforce
  note l1 = pipe_stream.put_law [OF demo_pipes_open(1) s1]
  note l2 = pipe_stream.get_law [OF conjunct1 [OF l1] s2]
  note l3 = pipe_stream.put_law [OF conjunct1 [OF l2] s3]
  note l4 = pipe_stream.get_law [OF conjunct1 [OF l3] s4]
  have "a = [1, 2, 3, 4]" "pipe_contents 0 s' = []"
    using r s1 s2 s3 s4 l1 l2 l3 l4 by (auto simp: demo_pipes_open(2) PIPE_BUF_SIZE_def)
  with pipe_stream_conserves [OF demo_pipes_open(1) r] show ?thesis
    unfolding r by (simp add: demo_pipes_open(2))
qed

text \<open>
  C13. Polling predicts the calls. In an initialised pipe table, \<^verbatim>\<open>pipe_poll_events\<close> reports
  \<^verbatim>\<open>POLLIN\<close> on the read end exactly when a read of at least one byte will return data, hang-up without
  \<^verbatim>\<open>POLLIN\<close> exactly when it will return end of file (0), \<^verbatim>\<open>POLLOUT\<close> on the write end exactly when a
  write of at least one byte will accept data, and \<^verbatim>\<open>POLLERR\<close> exactly when the write end is open and the
  reader has gone, where every write fails.
\<close>

theorem pipe_poll_sound:
  assumes "pipes_inv s" and "g_pipe_initialized s" and "i < PIPE_MAX"
    and "0 < n" and "0 < length xs" and "length xs < 2 ^ 32"
  shows "(pipe_poll_events (int i) s AND PIPE_POLLIN \<noteq> 0 \<longleftrightarrow> 0 < fst (pipe_read (int i) True n s)) \<and>
    (pipe_poll_events (int i) s = PIPE_POLLHUP \<longleftrightarrow> fst (pipe_read (int i) True n s) = 0) \<and>
    (pipe_poll_events (int i + 256) s = PIPE_POLLOUT \<longleftrightarrow> 0 < fst (pipe_write (int i) (Some xs) s)) \<and>
    (pipe_poll_events (int i + 256) s = PIPE_POLLERR \<longleftrightarrow>
       pp_write_open (g_pipes s i) \<and> \<not> pp_read_open (g_pipes s i)) \<and>
    (pipe_poll_events (int i + 256) s = PIPE_POLLERR \<longrightarrow> fst (pipe_write (int i) (Some xs) s) = -1)"
proof -
  let ?p = "g_pipes s i"
  have v: "valid_pipe (int i)" using assms(3) by (simp add: valid_pipe_def)
  have cnt: "pp_count ?p \<le> PIPE_BUF_SIZE" using assms(1,3) by (simp add: pipes_inv_def pipe_ok_def)
  have rd: "pipe_poll_events (int i) s = (if \<not> pp_read_open ?p then 0
      else (if pp_count ?p > 0 then PIPE_POLLIN else 0) OR (if \<not> pp_write_open ?p then PIPE_POLLHUP else 0))"
    using assms(2,3) by (simp add: pipe_poll_events_def PIPE_MAX_def Let_def)
  have wr: "pipe_poll_events (int i + 256) s = (if \<not> pp_write_open ?p then 0 else if \<not> pp_read_open ?p
      then PIPE_POLLERR else if pp_count ?p < PIPE_BUF_SIZE then PIPE_POLLOUT else 0)"
    using assms(2,3) by (simp add: pipe_poll_events_def PIPE_MAX_def Let_def)
  have r: "fst (pipe_read (int i) True n s) = (if \<not> pp_read_open ?p then -1 else if pp_count ?p = 0
      then (if pp_write_open ?p then -1 else 0) else int (min n (pp_count ?p)))"
    using v by (simp add: pipe_read_def Let_def split_beta min_def)
  have w: "fst (pipe_write (int i) (Some xs) s) = (if \<not> pp_write_open ?p \<or> \<not> pp_read_open ?p \<or>
      \<not> pp_count ?p < PIPE_BUF_SIZE then -1 else int (min (length xs) (PIPE_BUF_SIZE - pp_count ?p)))"
    using v cnt assms(6) by (simp add: pipe_write_def Let_def min_def)
  note bits = PIPE_POLLIN_def PIPE_POLLOUT_def PIPE_POLLERR_def PIPE_POLLHUP_def
  show ?thesis
  proof (intro conjI)
    show "pipe_poll_events (int i) s AND PIPE_POLLIN \<noteq> 0 \<longleftrightarrow> 0 < fst (pipe_read (int i) True n s)"
      unfolding rd r using assms(4) by (simp add: bits)
    show "pipe_poll_events (int i) s = PIPE_POLLHUP \<longleftrightarrow> fst (pipe_read (int i) True n s) = 0"
      unfolding rd r using assms(4) by (simp add: bits)
    show "pipe_poll_events (int i + 256) s = PIPE_POLLOUT \<longleftrightarrow> 0 < fst (pipe_write (int i) (Some xs) s)"
      unfolding wr w using assms(5) by (simp add: bits)
    show "pipe_poll_events (int i + 256) s = PIPE_POLLERR \<longleftrightarrow> pp_write_open ?p \<and> \<not> pp_read_open ?p"
      unfolding wr by (simp add: bits)
    show "pipe_poll_events (int i + 256) s = PIPE_POLLERR \<longrightarrow> fst (pipe_write (int i) (Some xs) s) = -1"
      unfolding wr w by (simp add: bits)
  qed
qed

theorem pipe_poll_sound_witness:
  "pipe_poll_events 0 demo_pipes AND PIPE_POLLIN = 0 \<and> \<not> 0 < fst (pipe_read 0 True 5 demo_pipes) \<and>
   pipe_poll_events 256 demo_pipes = PIPE_POLLOUT \<and> 0 < fst (pipe_write 0 (Some [7]) demo_pipes)"
proof -
  have "pipe_poll_events 0 demo_pipes = 0" "pipe_poll_events 256 demo_pipes = PIPE_POLLOUT"
    unfolding demo_pipes_def demo_pipes_eq
    by (simp_all add: pipe_poll_events_def PIPE_MAX_def Let_def pipe_zero_def)
  then show ?thesis
    using pipe_poll_sound [OF demo_pipes_open(4,3), of 0 5 "[7]"] by (simp add: PIPE_MAX_def)
qed

end
