(* ===== verification/Vmm.thy ===== *)
theory Vmm
  imports Pmm
begin

text \<open>
  The virtual memory manager: \<^verbatim>\<open>src/src/memory/vmm.c\<close> (page-table walks, map, unmap, the
  copy-on-write clone, teardown), \<^verbatim>\<open>vmm_fault.c\<close> (demand paging and copy-on-write
  faults), \<^verbatim>\<open>vmm_cow.c\<close> (the copy-on-write policy), \<^verbatim>\<open>vmm_regions.c\<close> (the registry of
  anonymous regions) and \<^verbatim>\<open>pmm_refcount.c\<close> (the per-frame share counter).

  Physical memory is seen through the identity map as the source sees it: \<open>vm_mem f i\<close> is
  the \<open>i\<close>-th 64-bit word of the frame at physical address \<open>f\<close>, for page tables and data
  pages alike. Pointers to tables are therefore frame addresses. The TLB
  (\<^verbatim>\<open>invlpg\<close>, CR3 reloads) is not modelled; \<open>cr3\<close> is an argument where the code reads it.
  \<^verbatim>\<open>kmalloc\<close> of a list node either succeeds or fails: a Boolean argument.
\<close>

definition VMM_PAGE_PRESENT :: u64 where "VMM_PAGE_PRESENT = push_bit 0 1"
definition VMM_PAGE_WRITE :: u64 where "VMM_PAGE_WRITE = push_bit 1 1"
definition VMM_PAGE_USER :: u64 where "VMM_PAGE_USER = push_bit 2 1"
definition VMM_PAGE_HUGE :: u64 where "VMM_PAGE_HUGE = push_bit 7 1"
definition VMM_PAGE_COW :: u64 where "VMM_PAGE_COW = push_bit 9 1"
definition VMM_PAGE_NX :: u64 where "VMM_PAGE_NX = push_bit 63 1"
definition VMM_PTE_PHYS_MASK :: u64 where "VMM_PTE_PHYS_MASK = 0x000FFFFFFFFFF000"
definition VMM_PAGE_SIZE :: u64 where "VMM_PAGE_SIZE = 4096"

lemmas vmm_flag_defs =
  VMM_PAGE_PRESENT_def VMM_PAGE_WRITE_def VMM_PAGE_USER_def VMM_PAGE_HUGE_def VMM_PAGE_COW_def
  VMM_PAGE_NX_def

definition has :: "u64 \<Rightarrow> u64 \<Rightarrow> bool" where
  "has e flag = (e AND flag \<noteq> 0)"

definition pte_frame :: "u64 \<Rightarrow> u64" where
  "pte_frame e = e AND VMM_PTE_PHYS_MASK"

record vmm_anon_region =
  rg_start :: u64
  rg_end :: u64
  rg_flags :: u64

record vmm_address_space =
  as_pml4_phys :: u64
  as_refcount :: u32
  as_rss_pages :: u64
  as_anon_regions :: "vmm_anon_region list"

record vmm_stats =
  kernel_mapped_pages :: u64
  user_mapped_pages :: u64
  page_faults :: u64
  cow_faults :: u64

record vmm =
  vm_pmm :: pmm
  vm_refcounts :: "u16 carr"
  vm_mem :: "u64 \<Rightarrow> nat \<Rightarrow> u64"
  vm_stats :: vmm_stats

subsection \<open>The share counter of a frame (\<^verbatim>\<open>pmm_refcount.c\<close>)\<close>

definition PMM_REFCOUNT_MAX_PAGES :: nat where
  "PMM_REFCOUNT_MAX_PAGES = 64 * 1024"

definition pfn_from_phys :: "u64 \<Rightarrow> nat" where
  "pfn_from_phys a = unat a div 4096"

definition pmm_frame_refcount_init :: "u16 carr \<Rightarrow> u16 carr" where
  "pmm_frame_refcount_init r = (\<lambda>i. if i < PMM_REFCOUNT_MAX_PAGES then 0 else r i)"

definition pmm_frame_refcount_inc :: "u64 \<Rightarrow> u16 carr \<Rightarrow> u16 carr" where
  "pmm_frame_refcount_inc a r =
     (let pfn = pfn_from_phys a in
      if pfn \<ge> PMM_REFCOUNT_MAX_PAGES then r
      else if r pfn = 0xFFFF then r
      else r(pfn := r pfn + 1))"

definition pmm_frame_refcount_dec :: "u64 \<Rightarrow> u16 carr \<Rightarrow> u16 \<times> u16 carr" where
  "pmm_frame_refcount_dec a r =
     (let pfn = pfn_from_phys a in
      if pfn \<ge> PMM_REFCOUNT_MAX_PAGES then (0, r)
      else if r pfn = 0 then (0, r)
      else (r pfn - 1, r(pfn := r pfn - 1)))"

definition pmm_frame_refcount_get :: "u64 \<Rightarrow> u16 carr \<Rightarrow> u16" where
  "pmm_frame_refcount_get a r =
     (let pfn = pfn_from_phys a in if pfn \<ge> PMM_REFCOUNT_MAX_PAGES then 0 else r pfn)"

subsection \<open>Anonymous regions (\<^verbatim>\<open>vmm_regions.c\<close>)\<close>

definition ranges_overlap :: "u64 \<Rightarrow> u64 \<Rightarrow> u64 \<Rightarrow> u64 \<Rightarrow> bool" where
  "ranges_overlap a_start a_end b_start b_end = (a_start < b_end \<and> b_start < a_end)"

definition vmm_register_anon_region ::
  "bool \<Rightarrow> vmm_address_space \<Rightarrow> u64 \<Rightarrow> u64 \<Rightarrow> u64 \<Rightarrow> int \<times> vmm_address_space" where
  "vmm_register_anon_region node_ok asp start page_count flags =
     (if page_count = 0 then (-1, asp)
      else let stop = start + page_count * VMM_PAGE_SIZE in
      if stop \<le> start then (-1, asp)
      else if list_ex (\<lambda>r. ranges_overlap start stop (rg_start r) (rg_end r)) (as_anon_regions asp)
      then (-1, asp)
      else if \<not> node_ok then (-1, asp)
      else (0, asp\<lparr>as_anon_regions :=
                    \<lparr>rg_start = start, rg_end = stop, rg_flags = flags\<rparr> # as_anon_regions asp\<rparr>))"

definition vmm_clear_anon_regions :: "vmm_address_space \<Rightarrow> vmm_address_space" where
  "vmm_clear_anon_regions asp = asp\<lparr>as_anon_regions := []\<rparr>"

definition vmm_anon_region_find :: "vmm_address_space \<Rightarrow> u64 \<Rightarrow> vmm_anon_region option" where
  "vmm_anon_region_find asp virt =
     find (\<lambda>r. virt \<ge> rg_start r \<and> virt < rg_end r) (as_anon_regions asp)"

definition vmm_address_space_rss :: "vmm_address_space option \<Rightarrow> u64" where
  "vmm_address_space_rss asp = (case asp of None \<Rightarrow> 0 | Some a \<Rightarrow> as_rss_pages a)"

subsection \<open>Copy-on-write policy (\<^verbatim>\<open>vmm_cow.c\<close>)\<close>

datatype vmm_cow_action = VMM_COW_NOT_COW | VMM_COW_REUSE | VMM_COW_COPY

record vmm_cow_decision =
  cow_action :: vmm_cow_action
  cow_new_set :: u64
  cow_new_clr :: u64

definition vmm_cow_decide :: "u64 \<Rightarrow> u16 \<Rightarrow> vmm_cow_decision" where
  "vmm_cow_decide pte refcount_after_dec =
     (if \<not> has pte VMM_PAGE_COW
      then \<lparr>cow_action = VMM_COW_NOT_COW, cow_new_set = 0, cow_new_clr = 0\<rparr>
      else \<lparr>cow_action = (if refcount_after_dec = 0 then VMM_COW_REUSE else VMM_COW_COPY),
             cow_new_set = VMM_PAGE_WRITE, cow_new_clr = VMM_PAGE_COW\<rparr>)"

subsection \<open>Page-table walks and mapping (\<^verbatim>\<open>vmm.c\<close>)\<close>

definition tbl_idx :: "nat \<Rightarrow> u64 \<Rightarrow> nat" where
  "tbl_idx shift virt = unat (drop_bit shift virt AND 0x1FF)"

text \<open>Leaf slot of \<open>virt\<close>: the frame of the page table and the index inside it.\<close>

definition vmm_walk_to_leaf :: "(u64 \<Rightarrow> nat \<Rightarrow> u64) \<Rightarrow> u64 \<Rightarrow> u64 \<Rightarrow> (u64 \<times> nat) option" where
  "vmm_walk_to_leaf m pml4 virt =
     (let e4 = m pml4 (tbl_idx 39 virt) in
      if \<not> has e4 VMM_PAGE_PRESENT then None
      else let e3 = m (pte_frame e4) (tbl_idx 30 virt) in
      if \<not> has e3 VMM_PAGE_PRESENT then None
      else let e2 = m (pte_frame e3) (tbl_idx 21 virt) in
      if \<not> has e2 VMM_PAGE_PRESENT then None
      else if has e2 VMM_PAGE_HUGE then None
      else Some (pte_frame e2, tbl_idx 12 virt))"

definition mem_upd :: "u64 \<Rightarrow> nat \<Rightarrow> u64 \<Rightarrow> (u64 \<Rightarrow> nat \<Rightarrow> u64) \<Rightarrow> (u64 \<Rightarrow> nat \<Rightarrow> u64)" where
  "mem_upd f i e m = m(f := (m f)(i := e))"

definition get_or_create_table :: "u64 \<Rightarrow> nat \<Rightarrow> u64 \<Rightarrow> vmm \<Rightarrow> u64 option \<times> vmm" where
  "get_or_create_table tbl idx flags v =
     (if \<not> has (vm_mem v tbl idx) VMM_PAGE_PRESENT then
        (let (phys, p1) = pmm_alloc_page (vm_pmm v) in
         if phys = 0 then (None, v\<lparr>vm_pmm := p1\<rparr>)
         else let m1 = (vm_mem v)(phys := (\<lambda>_. 0));
                  m2 = mem_upd tbl idx (phys OR flags OR VMM_PAGE_PRESENT) m1
              in (Some (pte_frame (m2 tbl idx)), v\<lparr>vm_pmm := p1, vm_mem := m2\<rparr>))
      else (Some (pte_frame (vm_mem v tbl idx)), v))"

definition vmm_map_page ::
  "vmm_address_space \<Rightarrow> u64 \<Rightarrow> u64 \<Rightarrow> u64 \<Rightarrow> vmm \<Rightarrow> int \<times> vmm_address_space \<times> vmm" where
  "vmm_map_page asp virt phys flags v =
     (let table_flags = VMM_PAGE_PRESENT OR VMM_PAGE_WRITE OR
            (if has flags VMM_PAGE_USER then VMM_PAGE_USER else 0);
          (pdpt, v1) = get_or_create_table (as_pml4_phys asp) (tbl_idx 39 virt) table_flags v in
      case pdpt of None \<Rightarrow> (-1, asp, v1) | Some pdpt \<Rightarrow>
      (let (pd, v2) = get_or_create_table pdpt (tbl_idx 30 virt) table_flags v1 in
      case pd of None \<Rightarrow> (-1, asp, v2) | Some pd \<Rightarrow>
      (let (pt, v3) = get_or_create_table pd (tbl_idx 21 virt) table_flags v2 in
      case pt of None \<Rightarrow> (-1, asp, v3) | Some pt \<Rightarrow>
      (let i = tbl_idx 12 virt;
           was_present = has (vm_mem v3 pt i) VMM_PAGE_PRESENT;
           v4 = v3\<lparr>vm_mem := mem_upd pt i ((phys AND NOT 0xFFF) OR flags OR VMM_PAGE_PRESENT)
                               (vm_mem v3)\<rparr>;
           st = vm_stats v4 in
       if has flags VMM_PAGE_USER
       then (0, (if \<not> was_present then asp\<lparr>as_rss_pages := as_rss_pages asp + 1\<rparr> else asp),
             v4\<lparr>vm_stats := st\<lparr>user_mapped_pages := user_mapped_pages st + 1\<rparr>\<rparr>)
       else (0, asp, v4\<lparr>vm_stats := st\<lparr>kernel_mapped_pages := kernel_mapped_pages st + 1\<rparr>\<rparr>)))))"

text \<open>The slot walk shared by \<^verbatim>\<open>vmm_unmap_page\<close> and \<^verbatim>\<open>vmm_virt_to_phys\<close> (no huge-page check).\<close>

definition vmm_walk_pt :: "(u64 \<Rightarrow> nat \<Rightarrow> u64) \<Rightarrow> u64 \<Rightarrow> u64 \<Rightarrow> u64 option" where
  "vmm_walk_pt m pml4 virt =
     (let e4 = m pml4 (tbl_idx 39 virt) in
      if \<not> has e4 VMM_PAGE_PRESENT then None
      else let e3 = m (pte_frame e4) (tbl_idx 30 virt) in
      if \<not> has e3 VMM_PAGE_PRESENT then None
      else let e2 = m (pte_frame e3) (tbl_idx 21 virt) in
      if \<not> has e2 VMM_PAGE_PRESENT then None
      else Some (pte_frame e2))"

definition vmm_unmap_page ::
  "vmm_address_space \<Rightarrow> u64 \<Rightarrow> vmm \<Rightarrow> int \<times> vmm_address_space \<times> vmm" where
  "vmm_unmap_page asp virt v =
     (case vmm_walk_pt (vm_mem v) (as_pml4_phys asp) virt of
        None \<Rightarrow> (-1, asp, v)
      | Some pt \<Rightarrow>
          (let i = tbl_idx 12 virt; old_pte = vm_mem v pt i;
               v1 = v\<lparr>vm_mem := mem_upd pt i 0 (vm_mem v)\<rparr> in
           (0, (if has old_pte VMM_PAGE_PRESENT \<and> has old_pte VMM_PAGE_USER
                then (if 0 < as_rss_pages asp then asp\<lparr>as_rss_pages := as_rss_pages asp - 1\<rparr> else asp)
                else asp), v1)))"

definition vmm_virt_to_phys :: "vmm_address_space \<Rightarrow> u64 \<Rightarrow> vmm \<Rightarrow> u64" where
  "vmm_virt_to_phys asp virt v =
     (case vmm_walk_pt (vm_mem v) (as_pml4_phys asp) virt of
        None \<Rightarrow> 0
      | Some pt \<Rightarrow>
          (let e = vm_mem v pt (tbl_idx 12 virt) in
           if \<not> has e VMM_PAGE_PRESENT then 0 else pte_frame e OR (virt AND 0xFFF)))"

fun vmm_map_range_from ::
  "nat \<Rightarrow> u64 \<Rightarrow> u64 \<Rightarrow> u64 \<Rightarrow> vmm_address_space \<Rightarrow> vmm \<Rightarrow> int \<times> vmm_address_space \<times> vmm" where
  "vmm_map_range_from 0 virt phys flags asp v = (0, asp, v)"
| "vmm_map_range_from (Suc n) virt phys flags asp v =
     (let (r, asp1, v1) = vmm_map_page asp virt phys flags v in
      if r \<noteq> 0 then (r, asp1, v1)
      else vmm_map_range_from n (virt + VMM_PAGE_SIZE) (phys + VMM_PAGE_SIZE) flags asp1 v1)"

definition vmm_map_range ::
  "vmm_address_space \<Rightarrow> u64 \<Rightarrow> u64 \<Rightarrow> nat \<Rightarrow> u64 \<Rightarrow> vmm \<Rightarrow> int \<times> vmm_address_space \<times> vmm" where
  "vmm_map_range asp virt phys count flags v = vmm_map_range_from count virt phys flags asp v"

fun vmm_unmap_range_from ::
  "nat \<Rightarrow> u64 \<Rightarrow> vmm_address_space \<Rightarrow> vmm \<Rightarrow> int \<times> vmm_address_space \<times> vmm" where
  "vmm_unmap_range_from 0 virt asp v = (0, asp, v)"
| "vmm_unmap_range_from (Suc n) virt asp v =
     (let (_, asp1, v1) = vmm_unmap_page asp virt v in
      vmm_unmap_range_from n (virt + VMM_PAGE_SIZE) asp1 v1)"

definition vmm_unmap_range ::
  "vmm_address_space \<Rightarrow> u64 \<Rightarrow> nat \<Rightarrow> vmm \<Rightarrow> int \<times> vmm_address_space \<times> vmm" where
  "vmm_unmap_range asp virt count v = vmm_unmap_range_from count virt asp v"

text \<open>Writability of the identity mapping of a frame under the tables rooted at \<open>cr3\<close>.\<close>

definition vmm_identity_is_writable :: "u64 \<Rightarrow> (u64 \<Rightarrow> nat \<Rightarrow> u64) \<Rightarrow> u64 \<Rightarrow> bool" where
  "vmm_identity_is_writable cr3 m phys =
     (let e4 = m (pte_frame cr3) (tbl_idx 39 phys) in
      if \<not> has e4 VMM_PAGE_PRESENT then False
      else let e3 = m (pte_frame e4) (tbl_idx 30 phys) in
      if \<not> has e3 VMM_PAGE_PRESENT then False
      else if has e3 VMM_PAGE_HUGE then has e3 VMM_PAGE_WRITE
      else let e2 = m (pte_frame e3) (tbl_idx 21 phys) in
      if \<not> has e2 VMM_PAGE_PRESENT then False
      else if has e2 VMM_PAGE_HUGE then has e2 VMM_PAGE_WRITE
      else let e1 = m (pte_frame e2) (tbl_idx 12 phys) in
      if \<not> has e1 VMM_PAGE_PRESENT then False else has e1 VMM_PAGE_WRITE)"

subsection \<open>Fault servicing (\<^verbatim>\<open>vmm_fault.c\<close>)\<close>

definition vmm_handle_cow_fault :: "vmm_address_space \<Rightarrow> u64 \<Rightarrow> vmm \<Rightarrow> int \<times> vmm" where
  "vmm_handle_cow_fault asp fault_addr v =
     (case vmm_walk_to_leaf (vm_mem v) (as_pml4_phys asp) fault_addr of
        None \<Rightarrow> (-1, v)
      | Some (pt, i) \<Rightarrow>
        (let pte = vm_mem v pt i in
         if \<not> has pte VMM_PAGE_PRESENT then (-1, v)
         else
           (let old_phys = pte_frame pte;
                pre = pmm_frame_refcount_get old_phys (vm_refcounts v);
                (after_dec, r1) = (if pre > 0 then pmm_frame_refcount_dec old_phys (vm_refcounts v)
                                   else (0, vm_refcounts v));
                restored = (if pre > 0 then pmm_frame_refcount_inc old_phys r1 else r1);
                d = vmm_cow_decide pte after_dec;
                st = vm_stats v in
            case cow_action d of
              VMM_COW_NOT_COW \<Rightarrow> (-1, v\<lparr>vm_refcounts := restored\<rparr>)
            | VMM_COW_REUSE \<Rightarrow>
                (0, v\<lparr>vm_refcounts := r1,
                      vm_mem := mem_upd pt i ((pte OR cow_new_set d) AND NOT (cow_new_clr d)) (vm_mem v),
                      vm_stats := st\<lparr>cow_faults := cow_faults st + 1\<rparr>\<rparr>)
            | VMM_COW_COPY \<Rightarrow>
                (let (new_phys, p1) = pmm_alloc_page (vm_pmm v) in
                 if new_phys = 0 then (-1, v\<lparr>vm_pmm := p1, vm_refcounts := restored\<rparr>)
                 else
                   (let m1 = (vm_mem v)(new_phys := vm_mem v old_phys);
                        new_pte = ((pte AND 0xFFF) OR new_phys OR cow_new_set d) AND NOT (cow_new_clr d)
                    in (0, v\<lparr>vm_pmm := p1, vm_refcounts := r1, vm_mem := mem_upd pt i new_pte m1,
                             vm_stats := st\<lparr>cow_faults := cow_faults st + 1\<rparr>\<rparr>))))))"

definition vmm_handle_page_fault ::
  "vmm_address_space option \<Rightarrow> u64 \<Rightarrow> u64 \<Rightarrow> vmm \<Rightarrow> int \<times> vmm_address_space option \<times> vmm" where
  "vmm_handle_page_fault cur fault_addr error_code v0 =
     (let st = vm_stats v0; v = v0\<lparr>vm_stats := st\<lparr>page_faults := page_faults st + 1\<rparr>\<rparr> in
      case cur of
        None \<Rightarrow> (-1, None, v)
      | Some asp \<Rightarrow>
        (if has error_code 1 then
           (if has error_code 2
            then (let (r, v1) = vmm_handle_cow_fault asp fault_addr v in (r, Some asp, v1))
            else (-1, Some asp, v))
         else case vmm_anon_region_find asp fault_addr of
           None \<Rightarrow> (-1, Some asp, v)
         | Some region \<Rightarrow>
             (let (phys, p1) = pmm_alloc_page (vm_pmm v) in
              if phys = 0 then (-1, Some asp, v\<lparr>vm_pmm := p1\<rparr>)
              else
                (let v1 = v\<lparr>vm_pmm := p1, vm_mem := (vm_mem v)(phys := (\<lambda>_. 0))\<rparr>;
                     page_virt = fault_addr AND NOT (VMM_PAGE_SIZE - 1);
                     (r, asp1, v2) = vmm_map_page asp page_virt phys (rg_flags region) v1 in
                 if r \<noteq> 0 then (-1, Some asp1, v2\<lparr>vm_pmm := pmm_free_page phys (vm_pmm v2)\<rparr>)
                 else (0, Some asp1, v2)))))"

subsection \<open>The copy-on-write clone of a table (\<^verbatim>\<open>clone_pt_into\<close>)\<close>

text \<open>
  \<open>d\<close> is the number of table levels below the one being copied (\<^verbatim>\<open>3 - level\<close>);
  the list holds the indices still to visit, \<open>[0..<512]\<close> at the call.
\<close>

fun clone_pt_into :: "nat \<Rightarrow> nat list \<Rightarrow> u64 \<Rightarrow> u64 \<Rightarrow> vmm \<Rightarrow> int \<times> vmm" where
  "clone_pt_into d [] dst src v = (0, v)"
| "clone_pt_into d (i # is) dst src v =
     (let s = vm_mem v src i in
      if \<not> has s VMM_PAGE_PRESENT then clone_pt_into d is dst src v
      else if 0 < d \<and> \<not> has s VMM_PAGE_HUGE then
        (let (child, p1) = pmm_alloc_page (vm_pmm v) in
         if child = 0 then (-1, v\<lparr>vm_pmm := p1\<rparr>)
         else
           (let m1 = (vm_mem v)(child := (\<lambda>_. 0));
                v1 = v\<lparr>vm_pmm := p1, vm_mem := mem_upd dst i (child OR (s AND 0xFFF)) m1\<rparr>;
                (r, v2) = clone_pt_into (d - 1) [0..<512] child (pte_frame s) v1 in
            if r \<noteq> 0 then (-1, v2) else clone_pt_into d is dst src v2))
      else
        (let v1 = v\<lparr>vm_refcounts := pmm_frame_refcount_inc (pte_frame s) (vm_refcounts v)\<rparr> in
         if has s VMM_PAGE_USER \<and> has s VMM_PAGE_WRITE \<and> \<not> has s VMM_PAGE_HUGE then
           (let cow_pte = (s OR VMM_PAGE_COW) AND NOT VMM_PAGE_WRITE;
                m2 = mem_upd src i cow_pte (mem_upd dst i cow_pte (vm_mem v1))
            in clone_pt_into d is dst src (v1\<lparr>vm_mem := m2\<rparr>))
         else clone_pt_into d is dst src (v1\<lparr>vm_mem := mem_upd dst i s (vm_mem v1)\<rparr>)))"

end
