(* ===== verification/VmmTables.thy ===== *)
theory VmmTables
  imports Vmm
begin

text \<open>
  Page tables as an abstract translation. A table of the four-level tree is named by the
  indices that lead to it (\<open>tab\<close>); \<open>pte\<close> reads the page-table entry of a page. Under
  \<open>table_tree\<close> (no table is reached twice, none is a free frame) the code's
  updates of page tables are point updates of these two functions.
\<close>

fun tab :: "(u64 \<Rightarrow> nat \<Rightarrow> u64) \<Rightarrow> u64 \<Rightarrow> nat list \<Rightarrow> u64 option" where
  "tab m f [] = Some f"
| "tab m f (i # p) =
     (let e = m f i in
      if has e VMM_PAGE_PRESENT \<and> \<not> has e VMM_PAGE_HUGE then tab m (pte_frame e) p else None)"

definition vpath :: "nat list \<Rightarrow> bool" where
  "vpath p = (length p \<le> 3 \<and> (\<forall>i\<in>set p. i < 512))"

definition table_tree :: "(u64 \<Rightarrow> nat \<Rightarrow> u64) \<Rightarrow> u64 \<Rightarrow> u64 set \<Rightarrow> bool" where
  "table_tree m root fr =
     ((\<forall>p q f. vpath p \<longrightarrow> vpath q \<longrightarrow> tab m root p = Some f \<longrightarrow> tab m root q = Some f \<longrightarrow> p = q) \<and>
      (\<forall>p f. vpath p \<longrightarrow> tab m root p = Some f \<longrightarrow> f \<notin> fr))"

text \<open>No 2 MiB or 1 GiB entry on the way (the source's walkers only skip them in one place).\<close>

fun no_huge :: "(u64 \<Rightarrow> nat \<Rightarrow> u64) \<Rightarrow> u64 \<Rightarrow> nat list \<Rightarrow> bool" where
  "no_huge m f [] = True"
| "no_huge m f (i # p) =
     (let e = m f i in
      has e VMM_PAGE_PRESENT \<longrightarrow> \<not> has e VMM_PAGE_HUGE \<and> no_huge m (pte_frame e) p)"

definition free_addrs :: "vmm \<Rightarrow> u64 set" where
  "free_addrs v = phys_of_page ` free_frames (vm_pmm v)"

definition pte :: "(u64 \<Rightarrow> nat \<Rightarrow> u64) \<Rightarrow> u64 \<Rightarrow> nat list \<Rightarrow> nat \<Rightarrow> u64" where
  "pte m root p i = (case tab m root p of None \<Rightarrow> 0 | Some pt \<Rightarrow> m pt i)"

subsection \<open>Bits of an entry\<close>

lemma bit_phys_mask: "bit VMM_PTE_PHYS_MASK n = (12 \<le> n \<and> n < 52)"
proof -
  have eq: "VMM_PTE_PHYS_MASK = push_bit 12 (mask 40)"
    by (simp add: VMM_PTE_PHYS_MASK_def mask_eq_exp_minus_1 push_bit_eq_mult)
  show ?thesis
    by (simp only: eq bit_push_bit_iff bit_mask_iff possible_bit_def) auto
qed

lemma bit_phys_of_page: "bit (phys_of_page p) n = (n < 64 \<and> 12 \<le> n \<and> bit p (n - 12))"
proof -
  have "phys_of_page p = push_bit 12 (of_nat p)"
    by (simp add: phys_of_page_def PMM_PAGE_SIZE_def push_bit_eq_mult)
  then show ?thesis
    by (simp only: bit_push_bit_iff bit_of_nat_iff possible_bit_def) auto
qed

lemma bit_below_pow: "p < 2 ^ k \<Longrightarrow> bit p n \<Longrightarrow> n < k" for p :: nat
proof (rule ccontr)
  assume p: "p < 2 ^ k" "bit p n" and "\<not> n < k"
  then have "(2::nat) ^ k \<le> 2 ^ n" by (intro power_increasing) auto
  with p(1) have "p < 2 ^ n" by (rule less_le_trans)
  then have "p div 2 ^ n = 0" by simp
  with p show False by (simp add: bit_iff_odd)
qed

lemma small_nat_bit: "p < 65536 \<Longrightarrow> bit p n \<Longrightarrow> n < 16" for p :: nat
  using bit_below_pow [of p 16 n] by simp

lemma word_bit_below_pow:
  fixes w :: u64
  assumes "w < 2 ^ k" and "k < 64" and "bit w n"
  shows "n < k"
proof -
  have "unat w < 2 ^ k" 
  proof -
    have "(2::nat) ^ k < 2 ^ 64" using assms(2) by (rule power_strict_increasing) simp
    then have "unat (2 ^ k :: u64) = 2 ^ k"
      using unat_of_nat [of "2 ^ k", where ?'a = 64] by simp
    then show ?thesis using assms(1) by (simp add: word_less_nat_alt)
  qed
  moreover have "bit (unat w) n" using assms(3) by (simp add: bit_unsigned_iff)
  ultimately show ?thesis by (rule bit_below_pow)
qed

lemma has_push_bit: "has e (push_bit k 1) = bit e k"
  unfolding has_def by (rule bit_iff_and_push_bit_not_eq_0 [symmetric])

lemma has_bits:
  "has e VMM_PAGE_PRESENT = bit e 0" "has e VMM_PAGE_WRITE = bit e 1"
  "has e VMM_PAGE_USER = bit e 2" "has e VMM_PAGE_HUGE = bit e 7"
  "has e VMM_PAGE_COW = bit e 9" "has e VMM_PAGE_NX = bit e 63"
  unfolding vmm_flag_defs by (rule has_push_bit)+

lemma flag_bits:
  "bit VMM_PAGE_PRESENT n = (n = 0)" "bit VMM_PAGE_WRITE n = (n = 1)"
  "bit VMM_PAGE_USER n = (n = 2)" "bit VMM_PAGE_HUGE n = (n = 7)"
  "bit VMM_PAGE_COW n = (n = 9)" "bit VMM_PAGE_NX n = (n = 63)"
  unfolding vmm_flag_defs by (simp_all only: bit_push_bit_iff bit_1_iff possible_bit_def) auto

text \<open>Flag words that leave the address bits alone.\<close>

definition flags_only :: "u64 \<Rightarrow> bool" where
  "flags_only flags = (flags AND VMM_PTE_PHYS_MASK = 0)"

lemma flags_only_bit: "flags_only flags \<Longrightarrow> 12 \<le> n \<Longrightarrow> n < 52 \<Longrightarrow> \<not> bit flags n"
  by (metis bit_0_eq bit_and_iff bit_phys_mask bot_apply bot_bool_def flags_only_def)

lemma pte_frame_bit: "bit (pte_frame e) n = (bit e n \<and> 12 \<le> n \<and> n < 52)"
  by (simp add: pte_frame_def bit_and_iff bit_phys_mask)

lemma pte_frame_table_entry:
  assumes "p < 65536" and "flags_only flags"
  shows "pte_frame (phys_of_page p OR flags OR VMM_PAGE_PRESENT) = phys_of_page p"
proof (rule bit_eqI)
  fix n
  show "bit (pte_frame (phys_of_page p OR flags OR VMM_PAGE_PRESENT)) n = bit (phys_of_page p) n"
    using flags_only_bit [OF assms(2), of n] small_nat_bit [OF assms(1), of "n - 12"]
    by (auto simp: pte_frame_bit bit_or_iff flag_bits bit_phys_of_page)
qed

definition table_flags :: "u64 \<Rightarrow> bool" where
  "table_flags flags = (flags_only flags \<and> \<not> has flags VMM_PAGE_HUGE)"

lemma table_entry_bits:
  assumes "table_flags flags"
  shows "has (phys_of_page p OR flags OR VMM_PAGE_PRESENT) VMM_PAGE_PRESENT"
    and "\<not> has (phys_of_page p OR flags OR VMM_PAGE_PRESENT) VMM_PAGE_HUGE"
  using assms by (auto simp: has_bits bit_or_iff flag_bits bit_phys_of_page table_flags_def)

subsection \<open>Paths\<close>

lemma tab_append:
  "tab m f (p @ q) = (case tab m f p of None \<Rightarrow> None | Some g \<Rightarrow> tab m g q)"
  by (induction p arbitrary: f) (auto simp: Let_def)

lemma tab_snoc:
  "tab m f (p @ [i]) =
     (case tab m f p of None \<Rightarrow> None
      | Some g \<Rightarrow> if has (m g i) VMM_PAGE_PRESENT \<and> \<not> has (m g i) VMM_PAGE_HUGE
                  then Some (pte_frame (m g i)) else None)"
  by (simp add: tab_append Let_def split: option.split)

lemma vpath_snoc: "vpath (p @ [i]) = (length p < 3 \<and> vpath p \<and> i < 512)"
  by (auto simp: vpath_def)

lemma vpath_append: "vpath (p @ q) \<Longrightarrow> vpath p"
  by (auto simp: vpath_def)

lemma table_treeD:
  assumes "table_tree m root fr" and "vpath p" and "tab m root p = Some f"
  shows "vpath q \<Longrightarrow> tab m root q = Some f \<Longrightarrow> p = q" and "f \<notin> fr"
  using assms unfolding table_tree_def by blast+

lemma table_tree_mono: "table_tree m root fr \<Longrightarrow> fr' \<subseteq> fr \<Longrightarrow> table_tree m root fr'"
  unfolding table_tree_def by blast

lemma tab_cong:
  assumes "\<And>p i f. vpath (p @ [i]) \<Longrightarrow> (\<exists>r. q = p @ i # r) \<Longrightarrow> tab m root p = Some f \<Longrightarrow> m' f i = m f i"
    and "vpath q"
  shows "tab m' root q = tab m root q"
  using assms
proof (induction q rule: rev_induct)
  case Nil
  then show ?case by simp
next
  case (snoc j q)
  have "tab m' root q = tab m root q"
  proof (rule snoc.IH)
    show "vpath q" using snoc.prems(2) by (simp add: vpath_snoc)
    show "m' f i = m f i" if "vpath (p @ [i])" "\<exists>r. q = p @ i # r" "tab m root p = Some f" for p i f
      using snoc.prems(1) [OF that(1) _ that(3)] that(2) by auto
  qed
  moreover have "m' f j = m f j" if "tab m root q = Some f" for f
    using snoc.prems(1) [of q j f] snoc.prems(2) that by simp
  ultimately show ?case by (simp add: tab_snoc split: option.split)
qed

text \<open>Clearing a free frame leaves every table where it was.\<close>

lemma tab_fresh_frame:
  assumes "table_tree m root fr" and "f \<in> fr" and "vpath q"
  shows "tab (m(f := g)) root q = tab m root q"
  using assms by (intro tab_cong) (auto dest: table_treeD(2) simp: vpath_snoc)

lemma pte_fresh_frame:
  assumes "table_tree m root fr" and "f \<in> fr" and "vpath q"
  shows "pte (m(f := g)) root q i = pte m root q i"
  using assms by (auto simp: pte_def tab_fresh_frame split: option.split dest: table_treeD(2))

text \<open>An entry written into table \<open>p0\<close> changes only the paths through it.\<close>

lemma tab_entry_other:
  assumes "table_tree m root fr" and "vpath p0" and "tab m root p0 = Some t" and "vpath q"
    and "\<nexists>r. q = p0 @ i0 # r"
  shows "tab (mem_upd t i0 e m) root q = tab m root q"
proof (rule tab_cong [OF _ assms(4)])
  fix p i f
  assume a: "vpath (p @ [i])" "\<exists>r. q = p @ i # r" "tab m root p = Some f"
  have "\<not> (f = t \<and> i = i0)"
  proof
    assume "f = t \<and> i = i0"
    with a assms have "p0 = p" by (auto simp: vpath_snoc intro: table_treeD(1))
    with a assms(5) \<open>f = t \<and> i = i0\<close> show False by auto
  qed
  then show "mem_upd t i0 e m f i = m f i" by (auto simp: mem_upd_def)
qed

lemma tab_created:
  assumes tree: "table_tree m root fr" and p0: "vpath (p0 @ [i0])" "tab m root p0 = Some t"
    and absent: "\<not> has (m t i0) VMM_PAGE_PRESENT"
    and fresh: "f \<in> fr" and e: "has e VMM_PAGE_PRESENT" "\<not> has e VMM_PAGE_HUGE" "pte_frame e = f"
    and q: "vpath q"
  shows "tab (mem_upd t i0 e (m(f := \<lambda>_. 0))) root q =
    (if q = p0 @ [i0] then Some f else tab m root q)"
proof -
  let ?m1 = "m(f := \<lambda>_. 0)" and ?m2 = "mem_upd t i0 e (m(f := \<lambda>_. 0))"
  have vp0: "vpath p0" using p0 by (simp add: vpath_snoc)
  have tf: "t \<noteq> f" using table_treeD(2) [OF tree vp0 p0(2)] fresh by auto
  have old: "tab ?m1 root r = tab m root r" if "vpath r" for r
    by (rule tab_fresh_frame [OF tree fresh that])
  have tree1: "table_tree ?m1 root fr"
    using tree old unfolding table_tree_def by auto
  have other: "tab ?m2 root r = tab m root r" if "vpath r" "\<nexists>s. r = p0 @ i0 # s" for r
    using tab_entry_other [OF tree1 vp0 _ that] p0 old [OF that(1)] old [OF vp0] by simp
  have here: "tab ?m2 root p0 = Some t" using other [OF vp0] p0 by simp
  have new: "tab ?m2 root (p0 @ [i0]) = Some f"
    using here e by (simp add: tab_snoc mem_upd_def)
  show ?thesis
  proof (cases "\<exists>s. q = p0 @ i0 # s")
    case False
    then show ?thesis using other [OF q] by auto
  next
    case True
    then obtain s where s: "q = (p0 @ [i0]) @ s" by auto
    have "tab m root (p0 @ [i0]) = None" using p0 absent by (simp add: tab_snoc)
    then have "tab m root q = None" unfolding s tab_append [of _ _ "p0 @ [i0]"] by simp
    moreover have "tab ?m2 root q = (if s = [] then Some f else None)"
      unfolding s tab_append [of _ _ "p0 @ [i0]"] new
      using tf by (cases s) (auto simp: mem_upd_def has_def)
    ultimately show ?thesis using s by auto
  qed
qed

lemma pte_created:
  assumes tree: "table_tree m root fr" and p0: "vpath (p0 @ [i0])" "tab m root p0 = Some t"
    and absent: "\<not> has (m t i0) VMM_PAGE_PRESENT"
    and fresh: "f \<in> fr" and e: "has e VMM_PAGE_PRESENT" "\<not> has e VMM_PAGE_HUGE" "pte_frame e = f"
    and q: "vpath q" "length q = 3"
  shows "pte (mem_upd t i0 e (m(f := \<lambda>_. 0))) root q i = pte m root q i"
proof -
  let ?m2 = "mem_upd t i0 e (m(f := \<lambda>_. 0))"
  have vp0: "vpath p0" "length p0 < 3" using p0 by (simp_all add: vpath_snoc)
  have tf: "t \<noteq> f" using table_treeD(2) [OF tree vp0(1) p0(2)] fresh by auto
  note tabs = tab_created [OF tree p0 absent fresh e q(1)]
  show ?thesis
  proof (cases "q = p0 @ [i0]")
    case True
    have "tab m root q = None" using True p0 absent by (simp add: tab_snoc)
    with True tabs tf show ?thesis by (simp add: pte_def mem_upd_def)
  next
    case False
    then have same: "tab ?m2 root q = tab m root q" using tabs by simp
    have "?m2 g i = m g i" if g: "tab m root q = Some g" for g
    proof -
      have "g \<noteq> f" using table_treeD(2) [OF tree q(1) g] fresh by auto
      moreover have "g \<noteq> t"
        using table_treeD(1) [OF tree q(1) g vp0(1)] p0(2) vp0(2) q(2) by auto
      ultimately show ?thesis by (simp add: mem_upd_def)
    qed
    with same show ?thesis by (simp add: pte_def split: option.split)
  qed
qed

lemma no_huge_snoc:
  "no_huge m f (p @ [i]) =
     (no_huge m f p \<and> (\<forall>g. tab m f p = Some g \<longrightarrow> has (m g i) VMM_PAGE_PRESENT \<longrightarrow>
                                 \<not> has (m g i) VMM_PAGE_HUGE))"
  by (induction p arbitrary: f) (auto simp: Let_def)

lemma no_huge_created:
  assumes tree: "table_tree m root fr" and p0: "vpath (p0 @ [i0])" "tab m root p0 = Some t"
    and absent: "\<not> has (m t i0) VMM_PAGE_PRESENT"
    and fresh: "f \<in> fr" and e: "has e VMM_PAGE_PRESENT" "\<not> has e VMM_PAGE_HUGE" "pte_frame e = f"
    and q: "vpath q"
  shows "no_huge m root q \<Longrightarrow> no_huge (mem_upd t i0 e (m(f := \<lambda>_. 0))) root q"
  using q
proof (induction q rule: rev_induct)
  case Nil
  then show ?case by simp
next
  case (snoc j q)
  have vq: "vpath q" using snoc.prems by (simp add: vpath_snoc)
  have tf: "t \<noteq> f" using table_treeD(2) [OF tree vpath_append [OF p0(1)] p0(2)] fresh by auto
  note tabs = tab_created [OF tree p0 absent fresh e vq]
  have "\<not> has (mem_upd t i0 e (m(f := \<lambda>_. 0)) g j) VMM_PAGE_HUGE"
    if g: "tab (mem_upd t i0 e (m(f := \<lambda>_. 0))) root q = Some g"
      and pr: "has (mem_upd t i0 e (m(f := \<lambda>_. 0)) g j) VMM_PAGE_PRESENT" for g
  proof (cases "q = p0 @ [i0]")
    case True
    with tabs g tf pr show ?thesis by (simp add: mem_upd_def has_def)
  next
    case False
    with tabs g have "tab m root q = Some g" by simp
    moreover from this have "g \<noteq> f" using table_treeD(2) [OF tree vq] fresh by auto
    ultimately show ?thesis
      using pr e snoc.prems(1) by (auto simp: mem_upd_def no_huge_snoc split: if_splits)
  qed
  with snoc vq show ?case by (auto simp: no_huge_snoc simp del: fun_upd_apply)
qed

subsection \<open>Getting or creating a table\<close>

definition vm_ok :: "vmm \<Rightarrow> u64 \<Rightarrow> bool" where
  "vm_ok v root = (pmm_inv (vm_pmm v) \<and> table_tree (vm_mem v) root (free_addrs v))"

lemma pmm_alloc_cases:
  assumes "pmm_inv s"
  obtains (none) "free_frames s = {}" "pmm_alloc_page s = (0, s)"
  | (some) p s' where "pmm_alloc_page s = (phys_of_page p, s')" "p \<in> free_frames s"
      "free_frames s' = free_frames s - {p}" "pmm_inv s'" "phys_of_page p \<noteq> 0" "p < 65536"
proof (cases "free_frames s = {}")
  case True
  with assms none show ?thesis by (auto intro: pmm_alloc.alloc_empty)
next
  case False
  then obtain p s' where
    a: "pmm_alloc_page s = (phys_of_page p, s')" "p \<in> free_frames s"
       "free_frames s' = free_frames s - {p}" "pmm_inv s'"
    using pmm_alloc.alloc_takes [OF assms] by auto
  moreover have "p < 65536"
    using assms a(2) free_frames_below [of s p] by (simp add: pmm_inv_def pmm_counted_def PMM_BITMAP_SIZE_def)
  moreover have "phys_of_page p \<noteq> 0"
    using assms a(2) pmm_alloc.frees_frames pmm_alloc.phys_nonzero by blast
  ultimately show ?thesis using some by blast
qed

lemma free_addrs_take:
  assumes "pmm_inv s" and "p \<in> free_frames s"
  shows "phys_of_page ` (free_frames s - {p}) = phys_of_page ` free_frames s - {phys_of_page p}"
proof -
  have "inj_on phys_of_page (free_frames s)"
    by (rule inj_on_subset [OF pmm_alloc.phys_inj pmm_alloc.frees_frames]) (rule assms(1))+
  with assms(2) show ?thesis by (auto simp: inj_on_def)
qed

lemma get_or_create_table_spec:
  assumes ok: "vm_ok v root" and p0: "vpath (p0 @ [i0])" "tab (vm_mem v) root p0 = Some t"
    and small: "has (vm_mem v t i0) VMM_PAGE_PRESENT \<Longrightarrow> \<not> has (vm_mem v t i0) VMM_PAGE_HUGE"
    and fl: "table_flags flags"
    and res: "get_or_create_table t i0 flags v = (r, v')"
  shows "vm_ok v' root \<and> vm_refcounts v' = vm_refcounts v \<and> vm_stats v' = vm_stats v \<and>
    (\<forall>q i. vpath q \<longrightarrow> length q = 3 \<longrightarrow> pte (vm_mem v') root q i = pte (vm_mem v) root q i) \<and>
    (\<forall>q. vpath q \<longrightarrow> q \<noteq> p0 @ [i0] \<longrightarrow> tab (vm_mem v') root q = tab (vm_mem v) root q) \<and>
    (\<forall>q. vpath q \<longrightarrow> no_huge (vm_mem v) root q \<longrightarrow> no_huge (vm_mem v') root q) \<and>
    free_frames (vm_pmm v') \<subseteq> free_frames (vm_pmm v) \<and>
    card (free_frames (vm_pmm v)) \<le> Suc (card (free_frames (vm_pmm v'))) \<and>
    (case r of None \<Rightarrow> free_frames (vm_pmm v) = {} \<and> v' = v
     | Some f \<Rightarrow> tab (vm_mem v') root (p0 @ [i0]) = Some f)"
proof (cases "has (vm_mem v t i0) VMM_PAGE_PRESENT")
  case True
  with res ok p0 small show ?thesis by (auto simp: get_or_create_table_def tab_snoc)
next
  case False
  from ok have inv: "pmm_inv (vm_pmm v)" and tree: "table_tree (vm_mem v) root (free_addrs v)"
    by (auto simp: vm_ok_def)
  from inv show ?thesis
  proof (cases rule: pmm_alloc_cases)
    case none
    with res False have "r = None" "v' = v" by (auto simp: get_or_create_table_def)
    with none ok show ?thesis by simp
  next
    case (some p s')
    define e where "e = phys_of_page p OR flags OR VMM_PAGE_PRESENT"
    define m' where "m' = mem_upd t i0 e ((vm_mem v)(phys_of_page p := \<lambda>_. 0))"
    have ent: "has e VMM_PAGE_PRESENT" "\<not> has e VMM_PAGE_HUGE" "pte_frame e = phys_of_page p"
      using table_entry_bits [OF fl] pte_frame_table_entry [of p flags] some fl
      by (auto simp: e_def table_flags_def)
    have res': "r = Some (phys_of_page p)" "v' = v\<lparr>vm_pmm := s', vm_mem := m'\<rparr>"
      using res False some ent by (auto simp: get_or_create_table_def Let_def m'_def e_def mem_upd_def)
    have fresh: "phys_of_page p \<in> free_addrs v" using some by (simp add: free_addrs_def)
    have tabs: "tab m' root q = (if q = p0 @ [i0] then Some (phys_of_page p) else tab (vm_mem v) root q)"
      if "vpath q" for q
      unfolding m'_def by (rule tab_created [OF tree p0 False fresh ent that])
    have fr: "free_addrs v' = free_addrs v - {phys_of_page p}"
      using free_addrs_take [OF inv some(2)] some(3) by (simp add: free_addrs_def res')
    have "table_tree m' root (free_addrs v')"
      using tree fresh unfolding table_tree_def fr by (auto simp: tabs)
    moreover have "pte m' root q i = pte (vm_mem v) root q i" if q: "vpath q" "length q = 3" for q i
      unfolding m'_def by (rule pte_created [OF tree p0 False fresh ent q])
    moreover have "no_huge m' root q" if "vpath q" "no_huge (vm_mem v) root q" for q
      unfolding m'_def by (rule no_huge_created [OF tree p0 False fresh ent that])
    moreover have "card (free_frames (vm_pmm v)) \<le> Suc (card (free_frames s'))"
      using some(2,3) by (simp add: card_Diff_singleton)
    ultimately show ?thesis
      using some tabs p0 res' by (auto simp: vm_ok_def)
  qed
qed

subsection \<open>Mapping a page\<close>

definition vpath_of :: "u64 \<Rightarrow> nat list" where
  "vpath_of virt = [tbl_idx 39 virt, tbl_idx 30 virt, tbl_idx 21 virt]"

lemma tbl_idx_less [simp]: "tbl_idx k virt < 512"
proof -
  have "drop_bit k virt AND 0x1FF = take_bit 9 (drop_bit k virt)"
    by (simp add: take_bit_eq_mask mask_eq_exp_minus_1)
  then show ?thesis
    by (simp add: tbl_idx_def take_bit_eq_mod unat_mod_distrib)
qed

lemma vpath_vpath_of [simp]: "vpath (vpath_of virt)" "length (vpath_of virt) = 3"
  by (simp_all add: vpath_of_def vpath_def)

lemma map_table_flags:
  "table_flags (VMM_PAGE_PRESENT OR VMM_PAGE_WRITE OR (if u then VMM_PAGE_USER else 0))"
proof -
  have "flags_only (VMM_PAGE_PRESENT OR VMM_PAGE_WRITE OR (if u then VMM_PAGE_USER else 0))"
    unfolding flags_only_def
    by (rule bit_eqI) (auto simp: bit_or_iff bit_and_iff flag_bits bit_phys_mask)
  then show ?thesis by (auto simp: table_flags_def has_bits bit_or_iff flag_bits)
qed

lemma leaf_write:
  assumes ok: "vm_ok v root" and p: "vpath p" "length p = 3" "tab (vm_mem v) root p = Some pt"
  shows "vm_ok (v\<lparr>vm_mem := mem_upd pt i e (vm_mem v)\<rparr>) root"
    and "vpath q \<Longrightarrow> tab (mem_upd pt i e (vm_mem v)) root q = tab (vm_mem v) root q"
    and "vpath q \<Longrightarrow> no_huge (mem_upd pt i e (vm_mem v)) root q = no_huge (vm_mem v) root q"
    and "vpath q \<Longrightarrow> length q = 3 \<Longrightarrow>
      pte (mem_upd pt i e (vm_mem v)) root q j = (if q = p \<and> j = i then e else pte (vm_mem v) root q j)"
proof -
  from ok have tree: "table_tree (vm_mem v) root (free_addrs v)" by (simp add: vm_ok_def)
  have same: "tab (mem_upd pt i e (vm_mem v)) root q = tab (vm_mem v) root q" if "vpath q" for q
    using that p by (intro tab_entry_other [OF tree p(1,3)]) (auto simp: vpath_def)
  then show "vpath q \<Longrightarrow> tab (mem_upd pt i e (vm_mem v)) root q = tab (vm_mem v) root q" .
  show "vm_ok (v\<lparr>vm_mem := mem_upd pt i e (vm_mem v)\<rparr>) root"
    using ok same unfolding vm_ok_def table_tree_def by (simp add: free_addrs_def)
  show "vpath q \<Longrightarrow> length q = 3 \<Longrightarrow>
      pte (mem_upd pt i e (vm_mem v)) root q j = (if q = p \<and> j = i then e else pte (vm_mem v) root q j)"
    using same [of q] p table_treeD(1) [OF tree p(1,3), of q]
    by (cases "tab (vm_mem v) root q") (auto simp: pte_def mem_upd_def)
  show "vpath q \<Longrightarrow> no_huge (mem_upd pt i e (vm_mem v)) root q = no_huge (vm_mem v) root q"
  proof (induction q rule: rev_induct)
    case Nil
    then show ?case by simp
  next
    case (snoc j q)
    then have vq: "vpath q" "length q < 3" by (simp_all add: vpath_snoc)
    have "mem_upd pt i e (vm_mem v) g j = vm_mem v g j" if "tab (vm_mem v) root q = Some g" for g
      using that table_treeD(1) [OF tree p(1,3) vq(1)] vq(2) p(2) by (auto simp: mem_upd_def)
    with snoc.IH [OF vq(1)] same [OF vq(1)] show ?case by (auto simp: no_huge_snoc)
  qed
qed

text \<open>The three levels of tables for \<open>virt\<close>, created where missing.\<close>

definition walk_create :: "u64 \<Rightarrow> u64 \<Rightarrow> u64 \<Rightarrow> vmm \<Rightarrow> u64 option \<times> vmm" where
  "walk_create root virt tf v =
     (let (pdpt, v1) = get_or_create_table root (tbl_idx 39 virt) tf v in
      case pdpt of None \<Rightarrow> (None, v1) | Some pdpt \<Rightarrow>
      (let (pd, v2) = get_or_create_table pdpt (tbl_idx 30 virt) tf v1 in
      case pd of None \<Rightarrow> (None, v2) | Some pd \<Rightarrow>
      get_or_create_table pd (tbl_idx 21 virt) tf v2))"

definition same_ptes :: "u64 \<Rightarrow> vmm \<Rightarrow> vmm \<Rightarrow> bool" where
  "same_ptes root v v' =
     ((\<forall>q i. vpath q \<longrightarrow> length q = 3 \<longrightarrow> pte (vm_mem v') root q i = pte (vm_mem v) root q i) \<and>
      (\<forall>q. vpath q \<longrightarrow> no_huge (vm_mem v) root q \<longrightarrow> no_huge (vm_mem v') root q) \<and>
      free_frames (vm_pmm v') \<subseteq> free_frames (vm_pmm v) \<and>
      vm_refcounts v' = vm_refcounts v \<and> vm_stats v' = vm_stats v)"

lemma same_ptes_trans: "same_ptes root u v \<Longrightarrow> same_ptes root v w \<Longrightarrow> same_ptes root u w"
  unfolding same_ptes_def by auto

lemma get_or_create_step:
  assumes "vm_ok v root" and "vpath (p0 @ [i0])" "tab (vm_mem v) root p0 = Some t"
    and "no_huge (vm_mem v) root (p0 @ [i0])" and "table_flags flags"
    and "get_or_create_table t i0 flags v = (r, v')"
  shows "vm_ok v' root" and "same_ptes root v v'"
    and "r = Some f \<Longrightarrow> tab (vm_mem v') root (p0 @ [i0]) = Some f"
    and "r = None \<Longrightarrow> free_frames (vm_pmm v) = {} \<and> v' = v"
    and "card (free_frames (vm_pmm v)) \<le> Suc (card (free_frames (vm_pmm v')))"
proof -
  have small: "has (vm_mem v t i0) VMM_PAGE_PRESENT \<Longrightarrow> \<not> has (vm_mem v t i0) VMM_PAGE_HUGE"
    using assms(3,4) by (auto simp: no_huge_snoc)
  note spec = get_or_create_table_spec [OF assms(1-3) small assms(5,6)]
  show "vm_ok v' root" "same_ptes root v v'"
    "card (free_frames (vm_pmm v)) \<le> Suc (card (free_frames (vm_pmm v')))"
    using spec unfolding same_ptes_def by blast+
  show "r = Some f \<Longrightarrow> tab (vm_mem v') root (p0 @ [i0]) = Some f" "r = None \<Longrightarrow> free_frames (vm_pmm v) = {} \<and> v' = v"
    using spec by auto
qed

lemma walk_create_spec:
  assumes ok: "vm_ok v root" and nh: "no_huge (vm_mem v) root (vpath_of virt)" and fl: "table_flags tf"
    and res: "walk_create root virt tf v = (r, v')"
  shows "vm_ok v' root \<and> same_ptes root v v' \<and>
    (\<forall>pt. r = Some pt \<longrightarrow> tab (vm_mem v') root (vpath_of virt) = Some pt) \<and>
    (r = None \<longrightarrow> free_frames (vm_pmm v') = {} \<and> card (free_frames (vm_pmm v)) < 3)"
proof -
  let ?a = "tbl_idx 39 virt" and ?b = "tbl_idx 30 virt" and ?c = "tbl_idx 21 virt"
  have vp: "vpath ([] @ [?a])" "vpath ([?a] @ [?b])" "vpath ([?a, ?b] @ [?c])"
    by (simp_all add: vpath_def)
  have pre: "no_huge m root ([] @ [?a]) \<and> no_huge m root ([?a] @ [?b]) \<and> no_huge m root ([?a, ?b] @ [?c])"
    if "no_huge m root (vpath_of virt)" for m
    using that by (auto simp: vpath_of_def Let_def)
  obtain r1 v1 where s1: "get_or_create_table root ?a tf v = (r1, v1)" by fastforce
  note g1 = get_or_create_step [OF ok vp(1) _ conjunct1 [OF pre [OF nh]] fl s1, simplified]
  have nh1: "no_huge (vm_mem v1) root (vpath_of virt)"
    using g1(2) nh by (simp add: same_ptes_def)
  show ?thesis
  proof (cases r1)
    case None
    with res s1 have "r = None" "v' = v1" by (auto simp: walk_create_def)
    with g1 None show ?thesis by auto
  next
    case (Some pdpt)
    obtain r2 v2 where s2: "get_or_create_table pdpt ?b tf v1 = (r2, v2)" by fastforce
    have t1: "tab (vm_mem v1) root [?a] = Some pdpt" using g1(3) Some by simp
    note g2 = get_or_create_step [OF g1(1) vp(2) t1 _ fl s2]
    have nh2: "no_huge (vm_mem v2) root (vpath_of virt)"
      using g2(2) nh1 pre [OF nh1] by (simp add: same_ptes_def)
    show ?thesis
    proof (cases r2)
      case None
      with res s1 s2 Some have "r = None" "v' = v2" by (auto simp: walk_create_def)
      with g1 g2 None pre [OF nh1] show ?thesis
        using same_ptes_trans [OF g1(2) g2(2)] by auto
    next
      case (Some pd)
      have t2: "tab (vm_mem v2) root [?a, ?b] = Some pd" using g2(3) Some pre [OF nh1] by simp
      have s3: "get_or_create_table pd ?c tf v2 = (r, v')"
        using res s1 s2 Some \<open>r1 = Some pdpt\<close> by (simp add: walk_create_def)
      have g2': "vm_ok v2 root" using g2(1) pre [OF nh1] by blast
      note g3 = get_or_create_step [OF g2' vp(3) t2 _ fl s3]
      have "same_ptes root v v'"
        using g1(2) g2(2) g3(2) pre [OF nh1] pre [OF nh2] by (blast intro: same_ptes_trans)
      moreover have "r = None \<Longrightarrow> card (free_frames (vm_pmm v)) < 3"
        using g1(5) g2(5) [OF conjunct1 [OF conjunct2 [OF pre [OF nh1]]]]
          g3(4) [OF conjunct2 [OF conjunct2 [OF pre [OF nh2]]]] by simp
      ultimately show ?thesis using g3 pre [OF nh2] by (auto simp: vpath_of_def)
    qed
  qed
qed

lemma vmm_map_page_walk:
  "vmm_map_page asp virt phys flags v =
     (let (r, v3) = walk_create (as_pml4_phys asp) virt
            (VMM_PAGE_PRESENT OR VMM_PAGE_WRITE OR
             (if has flags VMM_PAGE_USER then VMM_PAGE_USER else 0)) v in
      case r of None \<Rightarrow> (-1, asp, v3)
      | Some pt \<Rightarrow>
      (let i = tbl_idx 12 virt;
           was_present = has (vm_mem v3 pt i) VMM_PAGE_PRESENT;
           v4 = v3\<lparr>vm_mem := mem_upd pt i ((phys AND NOT 0xFFF) OR flags OR VMM_PAGE_PRESENT)
                               (vm_mem v3)\<rparr>;
           st = vm_stats v4 in
       if has flags VMM_PAGE_USER
       then (0, (if \<not> was_present then asp\<lparr>as_rss_pages := as_rss_pages asp + 1\<rparr> else asp),
             v4\<lparr>vm_stats := st\<lparr>user_mapped_pages := user_mapped_pages st + 1\<rparr>\<rparr>)
       else (0, asp, v4\<lparr>vm_stats := st\<lparr>kernel_mapped_pages := kernel_mapped_pages st + 1\<rparr>\<rparr>)))"
  unfolding vmm_map_page_def walk_create_def Let_def
  by (auto split: prod.split option.split)

text \<open>The effect of \<^verbatim>\<open>vmm_map_page\<close> on the translation, for every outcome.\<close>

definition mapped_as :: "u64 \<Rightarrow> u64 \<Rightarrow> u64 \<Rightarrow> vmm \<Rightarrow> vmm \<Rightarrow> bool" where
  "mapped_as root virt e v v' =
     (\<forall>q i. vpath q \<longrightarrow> length q = 3 \<longrightarrow> pte (vm_mem v') root q i =
        (if q = vpath_of virt \<and> i = tbl_idx 12 virt then e else pte (vm_mem v) root q i))"

lemma vm_ok_stats [simp]: "vm_ok (v\<lparr>vm_stats := st\<rparr>) root = vm_ok v root"
  by (simp add: vm_ok_def free_addrs_def)

lemma vmm_map_page_spec:
  assumes ok: "vm_ok v (as_pml4_phys asp)"
    and nh: "no_huge (vm_mem v) (as_pml4_phys asp) (vpath_of virt)"
    and res: "vmm_map_page asp virt phys flags v = (r, asp', v')"
  shows "vm_ok v' (as_pml4_phys asp) \<and> as_pml4_phys asp' = as_pml4_phys asp \<and>
    as_anon_regions asp' = as_anon_regions asp \<and>
    vm_refcounts v' = vm_refcounts v \<and> free_frames (vm_pmm v') \<subseteq> free_frames (vm_pmm v) \<and>
    (\<forall>q. vpath q \<longrightarrow> no_huge (vm_mem v) (as_pml4_phys asp) q \<longrightarrow>
          no_huge (vm_mem v') (as_pml4_phys asp) q) \<and>
    (if r = 0
     then mapped_as (as_pml4_phys asp) virt ((phys AND NOT 0xFFF) OR flags OR VMM_PAGE_PRESENT) v v' \<and>
          as_rss_pages asp' = as_rss_pages asp +
            (if has flags VMM_PAGE_USER \<and>
                \<not> has (pte (vm_mem v) (as_pml4_phys asp) (vpath_of virt) (tbl_idx 12 virt)) VMM_PAGE_PRESENT
             then 1 else 0)
     else r = -1 \<and> asp' = asp \<and> same_ptes (as_pml4_phys asp) v v' \<and>
          free_frames (vm_pmm v') = {} \<and> card (free_frames (vm_pmm v)) < 3)"
proof -
  let ?root = "as_pml4_phys asp" and ?i = "tbl_idx 12 virt"
  let ?e = "(phys AND NOT 0xFFF) OR flags OR VMM_PAGE_PRESENT"
  let ?tf = "VMM_PAGE_PRESENT OR VMM_PAGE_WRITE OR (if has flags VMM_PAGE_USER then VMM_PAGE_USER else 0)"
  obtain w v3 where s3: "walk_create ?root virt ?tf v = (w, v3)" by fastforce
  note w = walk_create_spec [OF ok nh map_table_flags s3]
  show ?thesis
  proof (cases w)
    case None
    with res s3 have "r = -1" "asp' = asp" "v' = v3" by (auto simp: vmm_map_page_walk)
    with w None show ?thesis by (auto simp: same_ptes_def)
  next
    case (Some pt)
    define v4 where "v4 = v3\<lparr>vm_mem := mem_upd pt ?i ?e (vm_mem v3)\<rparr>"
    have ok3: "vm_ok v3 ?root" and pt: "tab (vm_mem v3) ?root (vpath_of virt) = Some pt"
      and sp: "same_ptes ?root v v3" using w Some by auto
    note lw = leaf_write [OF ok3 vpath_vpath_of pt, where i = ?i and e = ?e]
    have old: "vm_mem v3 pt ?i = pte (vm_mem v) ?root (vpath_of virt) ?i"
    proof -
      have "pte (vm_mem v3) ?root (vpath_of virt) ?i = vm_mem v3 pt ?i" using pt by (simp add: pte_def)
      then show ?thesis using sp by (simp add: same_ptes_def)
    qed
    have out: "r = 0" "as_pml4_phys asp' = ?root" "as_anon_regions asp' = as_anon_regions asp"
      "vm_mem v' = vm_mem v4" "vm_pmm v' = vm_pmm v4" "vm_refcounts v' = vm_refcounts v4"
      "as_rss_pages asp' = as_rss_pages asp +
         (if has flags VMM_PAGE_USER \<and> \<not> has (pte (vm_mem v) ?root (vpath_of virt) ?i) VMM_PAGE_PRESENT
          then 1 else 0)"
      using res unfolding vmm_map_page_walk s3 Some old [symmetric] v4_def
      by (auto simp: Let_def split: if_splits)
    have "vm_ok v' ?root = vm_ok v4 ?root" using out by (simp add: vm_ok_def free_addrs_def)
    with lw(1) have "vm_ok v' ?root" by (simp add: v4_def)
    moreover have "mapped_as ?root virt ?e v v'"
      using lw(4) sp out by (simp add: mapped_as_def same_ptes_def v4_def)
    ultimately show ?thesis using out sp lw(3) by (simp add: same_ptes_def v4_def)
  qed
qed

subsection \<open>Frames that mapping leaves alone\<close>

text \<open>A frame in use that is no table of the tree: a data page of some address space.\<close>

definition data_frame :: "vmm \<Rightarrow> u64 \<Rightarrow> u64 \<Rightarrow> bool" where
  "data_frame v root f = (f \<notin> free_addrs v \<and> (\<forall>q. vpath q \<longrightarrow> tab (vm_mem v) root q \<noteq> Some f))"

lemma get_or_create_data_frame:
  assumes ok: "vm_ok v root" and p0: "vpath (p0 @ [i0])" "tab (vm_mem v) root p0 = Some t"
    and nh: "no_huge (vm_mem v) root (p0 @ [i0])" and fl: "table_flags flags"
    and res: "get_or_create_table t i0 flags v = (r, v')"
    and d: "data_frame v root f"
  shows "vm_mem v' f = vm_mem v f \<and> data_frame v' root f"
proof -
  from ok have inv: "pmm_inv (vm_pmm v)" by (simp add: vm_ok_def)
  have small: "has (vm_mem v t i0) VMM_PAGE_PRESENT \<Longrightarrow> \<not> has (vm_mem v t i0) VMM_PAGE_HUGE"
    using p0 nh by (auto simp: no_huge_snoc)
  note spec = get_or_create_table_spec [OF ok p0 small fl res]
  have "f \<noteq> t" using d p0(2) vpath_append [OF p0(1)] by (auto simp: data_frame_def)
  show ?thesis
  proof (cases "has (vm_mem v t i0) VMM_PAGE_PRESENT")
    case True
    with res d show ?thesis by (auto simp: get_or_create_table_def)
  next
    case False
    from inv show ?thesis
    proof (cases rule: pmm_alloc_cases)
      case none
      with res False d show ?thesis by (auto simp: get_or_create_table_def)
    next
      case (some p s')
      have "f \<noteq> phys_of_page p" using d some by (auto simp: data_frame_def free_addrs_def)
      then have mem: "vm_mem v' f = vm_mem v f"
        using res [symmetric] False some(1,5) \<open>f \<noteq> t\<close>
        by (simp add: get_or_create_table_def mem_upd_def)
      have "r = Some (phys_of_page p)"
        using res [symmetric] False some(1,5,6) pte_frame_table_entry [of p flags] fl
        by (simp add: get_or_create_table_def mem_upd_def table_flags_def)
      with spec have new: "tab (vm_mem v') root (p0 @ [i0]) = Some (phys_of_page p)" by simp
      have "tab (vm_mem v') root q \<noteq> Some f" if "vpath q" for q
      proof (cases "q = p0 @ [i0]")
        case True
        with new \<open>f \<noteq> phys_of_page p\<close> show ?thesis by simp
      next
        case False
        with spec that d show ?thesis by (simp add: data_frame_def)
      qed
      moreover have "free_addrs v' \<subseteq> free_addrs v"
        unfolding free_addrs_def using spec by (intro image_mono) simp
      ultimately show ?thesis using mem d by (auto simp: data_frame_def)
    qed
  qed
qed

lemma walk_create_data_frame:
  assumes ok: "vm_ok v root" and nh: "no_huge (vm_mem v) root (vpath_of virt)" and fl: "table_flags tf"
    and res: "walk_create root virt tf v = (r, v')" and d: "data_frame v root f"
  shows "vm_mem v' f = vm_mem v f \<and> data_frame v' root f"
proof -
  let ?a = "tbl_idx 39 virt" and ?b = "tbl_idx 30 virt" and ?c = "tbl_idx 21 virt"
  have vp: "vpath ([] @ [?a])" "vpath ([?a] @ [?b])" "vpath ([?a, ?b] @ [?c])"
    by (simp_all add: vpath_def)
  have pre: "no_huge m root ([] @ [?a])" "no_huge m root ([?a] @ [?b])"
      "no_huge m root ([?a, ?b] @ [?c])" if "no_huge m root (vpath_of virt)" for m
    using that by (auto simp: vpath_of_def Let_def)
  obtain r1 v1 where s1: "get_or_create_table root ?a tf v = (r1, v1)" by fastforce
  have t0: "tab (vm_mem v) root [] = Some root" by simp
  note g1 = get_or_create_step [OF ok vp(1) t0 pre(1) [OF nh] fl s1]
  note d1 = get_or_create_data_frame [OF ok vp(1) t0 pre(1) [OF nh] fl s1 d]
  have nh1: "no_huge (vm_mem v1) root (vpath_of virt)"
    using g1(2) nh by (simp add: same_ptes_def)
  show ?thesis
  proof (cases r1)
    case None
    with res s1 d1 show ?thesis by (auto simp: walk_create_def)
  next
    case (Some pdpt)
    note r1 = Some
    obtain r2 v2 where s2: "get_or_create_table pdpt ?b tf v1 = (r2, v2)" by fastforce
    have t1: "tab (vm_mem v1) root [?a] = Some pdpt" using g1(3) Some by simp
    note g2 = get_or_create_step [OF g1(1) vp(2) t1 pre(2) [OF nh1] fl s2]
    note d2 = get_or_create_data_frame [OF g1(1) vp(2) t1 pre(2) [OF nh1] fl s2 conjunct2 [OF d1]]
    have nh2: "no_huge (vm_mem v2) root (vpath_of virt)"
      using g2(2) nh1 by (simp add: same_ptes_def)
    show ?thesis
    proof (cases r2)
      case None
      with res s1 s2 r1 d1 d2 show ?thesis by (auto simp: walk_create_def)
    next
      case (Some pd)
      have t2: "tab (vm_mem v2) root [?a, ?b] = Some pd" using g2(3) Some by simp
      have s3: "get_or_create_table pd ?c tf v2 = (r, v')"
        using res s1 s2 Some r1 by (simp add: walk_create_def)
      from get_or_create_data_frame [OF g2(1) vp(3) t2 pre(3) [OF nh2] fl s3 conjunct2 [OF d2]]
      show ?thesis using d1 d2 by simp
    qed
  qed
qed

lemma vmm_map_page_data_frame:
  assumes ok: "vm_ok v (as_pml4_phys asp)"
    and nh: "no_huge (vm_mem v) (as_pml4_phys asp) (vpath_of virt)"
    and res: "vmm_map_page asp virt phys flags v = (r, asp', v')"
    and d: "data_frame v (as_pml4_phys asp) f"
  shows "vm_mem v' f = vm_mem v f \<and> data_frame v' (as_pml4_phys asp) f"
proof -
  let ?root = "as_pml4_phys asp"
  let ?tf = "VMM_PAGE_PRESENT OR VMM_PAGE_WRITE OR (if has flags VMM_PAGE_USER then VMM_PAGE_USER else 0)"
  obtain w v3 where s3: "walk_create ?root virt ?tf v = (w, v3)" by fastforce
  note d3 = walk_create_data_frame [OF ok nh map_table_flags s3 d]
  note w = walk_create_spec [OF ok nh map_table_flags s3]
  show ?thesis
  proof (cases w)
    case None
    with res s3 d3 show ?thesis by (auto simp: vmm_map_page_walk)
  next
    case (Some pt)
    with w have ok3: "vm_ok v3 ?root" and pt: "tab (vm_mem v3) ?root (vpath_of virt) = Some pt" by simp_all
    let ?e = "(phys AND NOT 0xFFF) OR flags OR VMM_PAGE_PRESENT"
    have out: "vm_mem v' = mem_upd pt (tbl_idx 12 virt) ?e (vm_mem v3)" "vm_pmm v' = vm_pmm v3"
      using res unfolding vmm_map_page_walk s3 Some by (auto simp: Let_def split: if_splits)
    have "pt \<noteq> f" using pt d3 by (auto simp: data_frame_def)
    then show ?thesis
      using d3 leaf_write(2) [OF ok3 vpath_vpath_of pt, where i = "tbl_idx 12 virt" and e = ?e]
      by (simp add: data_frame_def free_addrs_def out) (simp add: mem_upd_def)
  qed
qed

subsection \<open>Translation and unmapping\<close>

text \<open>The 36-bit virtual page number that the four indices spell.\<close>

definition vpn :: "u64 \<Rightarrow> u64" where
  "vpn virt = take_bit 36 (drop_bit 12 virt)"

lemma take_drop_eq_iff:
  fixes a b :: u64
  assumes "j \<le> 64"
  shows "take_bit j (drop_bit k a) = take_bit j (drop_bit k b) \<longleftrightarrow>
    (\<forall>n<j. bit a (k + n) = bit b (k + n))"
proof -
  have "take_bit j (drop_bit k a) = take_bit j (drop_bit k b) \<longleftrightarrow>
    (\<forall>n<64. (n < j \<and> bit a (k + n)) = (n < j \<and> bit b (k + n)))"
    by (simp add: bit_eq_iff bit_take_bit_iff bit_drop_bit_eq possible_bit_def)
  also have "\<dots> \<longleftrightarrow> (\<forall>n<j. bit a (k + n) = bit b (k + n))"
    using assms by (meson less_le_trans)
  finally show ?thesis .
qed

lemma tbl_idx_eq_iff:
  "tbl_idx k a = tbl_idx k b \<longleftrightarrow> (\<forall>n<9. bit a (k + n) = bit b (k + n))"
proof -
  have t: "drop_bit k c AND 0x1FF = take_bit 9 (drop_bit k c)" for c :: u64
    by (simp add: take_bit_eq_mask mask_eq_exp_minus_1)
  have "tbl_idx k a = tbl_idx k b \<longleftrightarrow> take_bit 9 (drop_bit k a) = take_bit 9 (drop_bit k b)"
    unfolding tbl_idx_def t by (rule word_unat_eq_iff [symmetric])
  also have "\<dots> \<longleftrightarrow> (\<forall>n<9. bit a (k + n) = bit b (k + n))"
    by (rule take_drop_eq_iff) simp
  finally show ?thesis .
qed

lemma vpn_eq_iff: "vpn a = vpn b \<longleftrightarrow> (\<forall>n<36. bit a (12 + n) = bit b (12 + n))"
  unfolding vpn_def by (rule take_drop_eq_iff) simp

lemma vpn_indices:
  "vpn a = vpn b \<longleftrightarrow> vpath_of a = vpath_of b \<and> tbl_idx 12 a = tbl_idx 12 b"
proof -
  have "(\<forall>n<36. P (12 + n)) \<longleftrightarrow>
    (\<forall>n<9. P (39 + n)) \<and> (\<forall>n<9. P (30 + n)) \<and> (\<forall>n<9. P (21 + n)) \<and> (\<forall>n<9. P (12 + n))"
    (is "?L = ?R") for P :: "nat \<Rightarrow> bool"
  proof
    assume l: ?L
    show ?R
    proof (intro conjI allI impI)
      fix n :: nat assume "n < 9"
      then show "P (39 + n)" "P (30 + n)" "P (21 + n)" "P (12 + n)"
        using l [rule_format, of "27 + n"] l [rule_format, of "18 + n"] l [rule_format, of "9 + n"]
          l [rule_format, of n] by simp_all
    qed
  next
    assume r: ?R
    show ?L
    proof (intro allI impI)
      fix n :: nat assume n: "n < 36"
      consider "n < 9" | m where "n = 9 + m" "m < 9" | m where "n = 18 + m" "m < 9"
        | m where "n = 27 + m" "m < 9"
        using n that(2) [of "n - 9"] that(3) [of "n - 18"] that(4) [of "n - 27"] by linarith
      then show "P (12 + n)" using r by cases auto
    qed
  qed
  from this [of "\<lambda>n. bit a n = bit b n"] show ?thesis
    by (simp add: vpn_eq_iff vpath_of_def tbl_idx_eq_iff conj_assoc)
qed

lemma walk_pt_tab:
  "no_huge m root (vpath_of virt) \<Longrightarrow> vmm_walk_pt m root virt = tab m root (vpath_of virt)"
  by (auto simp: vmm_walk_pt_def vpath_of_def Let_def)

lemma virt_to_phys_pte:
  assumes "no_huge (vm_mem v) (as_pml4_phys asp) (vpath_of virt)"
  shows "vmm_virt_to_phys asp virt v =
    (let e = pte (vm_mem v) (as_pml4_phys asp) (vpath_of virt) (tbl_idx 12 virt) in
     if has e VMM_PAGE_PRESENT then pte_frame e OR (virt AND 0xFFF) else 0)"
  using walk_pt_tab [OF assms]
  by (auto simp: vmm_virt_to_phys_def pte_def Let_def has_def split: option.split)

lemma low_bits_0xFFF: "bit (0xFFF :: u64) n = (n < 12)"
proof -
  have "(0xFFF :: u64) = mask 12" by (simp add: mask_eq_exp_minus_1)
  then show ?thesis by (simp only: bit_mask_iff possible_bit_def) auto
qed

lemma bit_page_align: "bit (a AND NOT 0xFFF) n = (bit a n \<and> 12 \<le> n)" for a :: u64
  unfolding bit_and_iff bit_not_iff low_bits_0xFFF possible_bit_def
  by (auto dest: bit_imp_le_length)

lemma mapped_entry:
  assumes "flags_only flags" and "phys < 2 ^ 52"
  shows "pte_frame ((phys AND NOT 0xFFF) OR flags OR VMM_PAGE_PRESENT) = phys AND NOT 0xFFF"
    and "has ((phys AND NOT 0xFFF) OR flags OR VMM_PAGE_PRESENT) VMM_PAGE_PRESENT"
proof -
  define pg where "pg = phys AND NOT 0xFFF"
  have pg: "bit pg n = (bit phys n \<and> 12 \<le> n)" for n unfolding pg_def by (rule bit_page_align)
  have hi: "n < 52" if "bit phys n" for n
    using assms(2) that by (intro word_bit_below_pow [of phys 52]) auto
  have "pte_frame (pg OR flags OR VMM_PAGE_PRESENT) = pg"
    using flags_only_bit [OF assms(1)] hi
    by (intro bit_eqI) (auto simp: pte_frame_bit bit_or_iff pg flag_bits)
  then show "pte_frame ((phys AND NOT 0xFFF) OR flags OR VMM_PAGE_PRESENT) = phys AND NOT 0xFFF"
    by (simp only: pg_def)
  show "has ((phys AND NOT 0xFFF) OR flags OR VMM_PAGE_PRESENT) VMM_PAGE_PRESENT"
    by (simp add: has_bits bit_or_iff flag_bits)
qed

lemma vmm_unmap_page_spec:
  assumes ok: "vm_ok v (as_pml4_phys asp)"
    and nh: "no_huge (vm_mem v) (as_pml4_phys asp) (vpath_of virt)"
    and res: "vmm_unmap_page asp virt v = (r, asp', v')"
  shows "vm_ok v' (as_pml4_phys asp) \<and> as_pml4_phys asp' = as_pml4_phys asp \<and>
    vm_pmm v' = vm_pmm v \<and> mapped_as (as_pml4_phys asp) virt 0 v v' \<and>
    (\<forall>q. vpath q \<longrightarrow> no_huge (vm_mem v') (as_pml4_phys asp) q =
          no_huge (vm_mem v) (as_pml4_phys asp) q)"
proof (cases "tab (vm_mem v) (as_pml4_phys asp) (vpath_of virt)")
  case None
  then have "v' = v" "asp' = asp" using res walk_pt_tab [OF nh] by (auto simp: vmm_unmap_page_def)
  with None ok show ?thesis by (auto simp: mapped_as_def pte_def)
next
  case (Some pt)
  have out: "v' = v\<lparr>vm_mem := mem_upd pt (tbl_idx 12 virt) 0 (vm_mem v)\<rparr>"
    "as_pml4_phys asp' = as_pml4_phys asp"
    using res walk_pt_tab [OF nh] Some by (auto simp: vmm_unmap_page_def Let_def)
  note lw = leaf_write [OF ok vpath_vpath_of Some, where i = "tbl_idx 12 virt" and e = 0]
  show ?thesis using lw out by (auto simp: mapped_as_def)
qed

lemma mapped_as_virt_to_phys:
  assumes "mapped_as (as_pml4_phys asp) virt e v v'" and "as_pml4_phys asp' = as_pml4_phys asp"
    and "no_huge (vm_mem v) (as_pml4_phys asp) (vpath_of a)"
    and "no_huge (vm_mem v') (as_pml4_phys asp) (vpath_of a)"
  shows "vmm_virt_to_phys asp' a v' =
    (if vpn a = vpn virt
     then (if has e VMM_PAGE_PRESENT then pte_frame e OR (a AND 0xFFF) else 0)
     else vmm_virt_to_phys asp a v)"
  using assms vpn_indices [of a virt] virt_to_phys_pte [of v asp a] virt_to_phys_pte [of v' asp' a]
  by (auto simp: mapped_as_def Let_def)

subsection \<open>Concrete tables\<close>

text \<open>An empty root table in frame 4 (a frame the allocator does not manage), frames 1, 2, 3 free.\<close>

definition demo_vm :: vmm where
  "demo_vm = \<lparr>vm_pmm = demo_pmm, vm_refcounts = (\<lambda>_. 0), vm_mem = (\<lambda>_ _. 0),
     vm_stats = \<lparr>kernel_mapped_pages = 0, user_mapped_pages = 0, page_faults = 0, cow_faults = 0\<rparr>\<rparr>"

definition demo_as :: vmm_address_space where
  "demo_as = \<lparr>as_pml4_phys = 0x4000, as_refcount = 1, as_rss_pages = 0, as_anon_regions = []\<rparr>"

lemma demo_vm_ok: "vm_ok demo_vm (as_pml4_phys demo_as)"
proof -
  have t: "tab (\<lambda>_ _. 0) f p = (if p = [] then Some f else None)" for f p
    by (cases p) (simp_all add: has_def)
  have "free_addrs demo_vm = {0x1000, 0x2000, 0x3000}"
    by (simp add: free_addrs_def demo_vm_def demo_pmm_frames phys_of_page_def PMM_PAGE_SIZE_def)
  then show ?thesis
    by (auto simp: vm_ok_def demo_vm_def demo_as_def demo_pmm_inv table_tree_def t split: if_splits)
qed

lemma demo_vm_no_huge: "no_huge (vm_mem demo_vm) (as_pml4_phys demo_as) (vpath_of a)"
  by (simp add: demo_vm_def vpath_of_def has_def)

lemma demo_vm_virt: "vmm_virt_to_phys demo_as a demo_vm = 0"
  by (simp add: demo_vm_def vmm_virt_to_phys_def vmm_walk_pt_def has_def)

lemma demo_vm_card: "card (free_frames (vm_pmm demo_vm)) = 3"
  by (simp add: demo_vm_def demo_pmm_frames)

subsection \<open>Properties\<close>





end
