(* ===== verification/VmmFault.thy ===== *)
theory VmmFault
  imports VmmTables
begin

text \<open>
  What the fault handlers of \<^verbatim>\<open>vmm_fault.c\<close>, the region registry of \<^verbatim>\<open>vmm_regions.c\<close> and the
  copy-on-write share counter of \<^verbatim>\<open>pmm_refcount.c\<close> do: the registry keeps its regions
  disjoint, demand paging maps a fresh zeroed frame, a copy-on-write fault either
  upgrades the entry in place or gives the faulting address space a private copy.
\<close>

subsection \<open>The region registry\<close>

definition rg_range :: "vmm_anon_region \<Rightarrow> u64 set" where
  "rg_range r = {rg_start r..<rg_end r}"

fun regions_ok :: "vmm_anon_region list \<Rightarrow> bool" where
  "regions_ok [] = True"
| "regions_ok (r # rs) =
     (rg_start r < rg_end r \<and> (\<forall>q\<in>set rs. rg_range r \<inter> rg_range q = {}) \<and> regions_ok rs)"

lemma ranges_overlap_iff:
  assumes "rg_start r < rg_end r" and "start < stop"
  shows "ranges_overlap start stop (rg_start r) (rg_end r) \<longleftrightarrow> {start..<stop} \<inter> rg_range r \<noteq> {}"
proof
  assume o: "ranges_overlap start stop (rg_start r) (rg_end r)"
  then have "max start (rg_start r) \<in> {start..<stop} \<inter> rg_range r"
    using assms by (auto simp: ranges_overlap_def rg_range_def max_def)
  then show "{start..<stop} \<inter> rg_range r \<noteq> {}" by blast
qed (auto simp: ranges_overlap_def rg_range_def)

lemma regions_ok_mem: "regions_ok rs \<Longrightarrow> r \<in> set rs \<Longrightarrow> rg_start r < rg_end r"
  by (induction rs) auto

lemma region_find_iff:
  assumes "regions_ok rs"
  shows "find (\<lambda>r. virt \<ge> rg_start r \<and> virt < rg_end r) rs = Some r \<longleftrightarrow> r \<in> set rs \<and> virt \<in> rg_range r"
  using assms
proof (induction rs)
  case Nil
  then show ?case by simp
next
  case (Cons q rs)
  have "virt \<in> rg_range q \<Longrightarrow> r \<in> set rs \<Longrightarrow> virt \<notin> rg_range r"
    using Cons.prems by auto
  with Cons show ?case by (auto simp: rg_range_def)
qed

subsection \<open>Concrete regions\<close>

definition demo_space :: vmm_address_space where
  "demo_space = demo_as\<lparr>as_anon_regions := [\<lparr>rg_start = 0x400000, rg_end = 0x402000, rg_flags = 6\<rparr>]\<rparr>"

subsection \<open>Properties of the registry\<close>

text \<open>
  Anonymous regions stay disjoint and lookups see exactly what was registered. Registration
  succeeds (0) exactly when the page count is not zero, the range does not wrap, it is
  disjoint from every registered region and the list node could be allocated; then
  \<^verbatim>\<open>vmm_anon_region_find\<close> answers the new region inside its range and as before
  elsewhere. On failure (-1) nothing changes.
\<close>

theorem vmm_register_anon_region_spec:
  assumes "regions_ok (as_anon_regions asp)"
    and "stop = start + n * VMM_PAGE_SIZE"
    and "vmm_register_anon_region node_ok asp start n flags = (r, asp')"
  shows "regions_ok (as_anon_regions asp') \<and>
    (if n \<noteq> 0 \<and> start < stop \<and> node_ok \<and>
        (\<forall>q\<in>set (as_anon_regions asp). {start..<stop} \<inter> rg_range q = {})
     then r = 0 \<and> (\<forall>virt. vmm_anon_region_find asp' virt =
            (if virt \<in> {start..<stop} then Some \<lparr>rg_start = start, rg_end = stop, rg_flags = flags\<rparr>
             else vmm_anon_region_find asp virt))
     else r = -1 \<and> asp' = asp)"
proof (cases "n \<noteq> 0 \<and> start < stop")
  case False
  then show ?thesis using assms by (auto simp: vmm_register_anon_region_def Let_def not_less split: if_splits)
next
  case True
  have ov: "list_ex (\<lambda>q. ranges_overlap start stop (rg_start q) (rg_end q)) (as_anon_regions asp) =
      (\<exists>q\<in>set (as_anon_regions asp). {start..<stop} \<inter> rg_range q \<noteq> {})"
    using ranges_overlap_iff [of _ start stop] regions_ok_mem [OF assms(1)] True
    by (auto simp: list_ex_iff)
  show ?thesis
    using assms True ov
    by (auto simp: vmm_register_anon_region_def Let_def vmm_anon_region_find_def rg_range_def
        not_le split: if_splits)
qed

theorem vmm_register_anon_region_spec_witness:
  "fst (vmm_register_anon_region True demo_space 0x402000 3 6) = 0 \<and>
   vmm_anon_region_find (snd (vmm_register_anon_region True demo_space 0x402000 3 6)) 0x404FFF =
     Some \<lparr>rg_start = 0x402000, rg_end = 0x405000, rg_flags = 6\<rparr> \<and>
   fst (vmm_register_anon_region True demo_space 0x401000 1 6) = -1"
proof -
  have ok: "regions_ok (as_anon_regions demo_space)" by (simp add: demo_space_def)
  have s: "0x405000 = 0x402000 + 3 * VMM_PAGE_SIZE" "0x402000 = 0x401000 + 1 * VMM_PAGE_SIZE"
    by (simp_all add: VMM_PAGE_SIZE_def)
  have d: "\<forall>q\<in>set (as_anon_regions demo_space). {0x402000..<0x405000} \<inter> rg_range q = {}"
    by (auto simp: demo_space_def rg_range_def)
  have "0x401000 \<in> {0x401000..<0x402000} \<inter> rg_range \<lparr>rg_start = 0x400000, rg_end = 0x402000, rg_flags = 6\<rparr>"
    by (simp add: rg_range_def)
  then have "{0x401000..<0x402000} \<inter> rg_range \<lparr>rg_start = 0x400000, rg_end = 0x402000, rg_flags = 6\<rparr> \<noteq> {}"
    by blast
  then have o: "\<not> (\<forall>q\<in>set (as_anon_regions demo_space). {0x401000..<0x402000} \<inter> rg_range q = {})"
    by (simp add: demo_space_def)
  show ?thesis
    using vmm_register_anon_region_spec [OF ok s(1) prod.collapse [symmetric], of True 6] d
      vmm_register_anon_region_spec [OF ok s(2) prod.collapse [symmetric], of True 6] o
    by simp
qed

subsection \<open>Copy-on-write faults\<close>

lemma refcount_dec_inc:
  assumes "pmm_frame_refcount_get a r > 0"
  shows "pmm_frame_refcount_inc a (snd (pmm_frame_refcount_dec a r)) = r"
    and "fst (pmm_frame_refcount_dec a r) = pmm_frame_refcount_get a r - 1"
proof -
  have "r (pfn_from_phys a) - 1 \<noteq> 0xFFFF" if "r (pfn_from_phys a) \<noteq> 0"
  proof
    assume "r (pfn_from_phys a) - 1 = 0xFFFF"
    then have "r (pfn_from_phys a) = 0xFFFF + 1" by (metis diff_add_cancel)
    with that show False by simp
  qed
  with assms show "pmm_frame_refcount_inc a (snd (pmm_frame_refcount_dec a r)) = r"
    and "fst (pmm_frame_refcount_dec a r) = pmm_frame_refcount_get a r - 1"
    by (auto simp: pmm_frame_refcount_get_def pmm_frame_refcount_dec_def pmm_frame_refcount_inc_def
        Let_def fun_eq_iff split: if_splits)
qed

lemma walk_to_leaf_tab:
  "no_huge m root (vpath_of virt) \<Longrightarrow>
   vmm_walk_to_leaf m root virt = map_option (\<lambda>pt. (pt, tbl_idx 12 virt)) (tab m root (vpath_of virt))"
  by (auto simp: vmm_walk_to_leaf_def vpath_of_def Let_def)

lemma pmm_alloc_some:
  assumes "pmm_inv s" and "free_frames s \<noteq> {}"
  obtains p s' where "pmm_alloc_page s = (phys_of_page p, s')" "p \<in> free_frames s"
      "free_frames s' = free_frames s - {p}" "pmm_inv s'" "phys_of_page p \<noteq> 0" "p < 65536"
  using assms(1)
proof (cases rule: pmm_alloc_cases)
  case none
  with assms(2) show ?thesis by simp
next
  case (some p s')
  then show ?thesis by (rule that)
qed

text \<open>Taking a free frame and filling it changes no translation.\<close>

lemma take_frame:
  assumes ok: "vm_ok v root" and al: "pmm_alloc_page (vm_pmm v) = (phys_of_page p, s')"
    and p: "p \<in> free_frames (vm_pmm v)" "free_frames s' = free_frames (vm_pmm v) - {p}" "pmm_inv s'"
    and v1: "v1 = v\<lparr>vm_pmm := s', vm_mem := (vm_mem v)(phys_of_page p := g)\<rparr>"
  shows "vm_ok v1 root"
    and "vpath q \<Longrightarrow> tab (vm_mem v1) root q = tab (vm_mem v) root q"
    and "vpath q \<Longrightarrow> pte (vm_mem v1) root q i = pte (vm_mem v) root q i"
    and "vpath q \<Longrightarrow> no_huge (vm_mem v) root q \<Longrightarrow> no_huge (vm_mem v1) root q"
    and "data_frame v1 root (phys_of_page p)"
    and "data_frame v root f \<Longrightarrow> data_frame v1 root f \<and> vm_mem v1 f = vm_mem v f \<and> f \<noteq> phys_of_page p"
proof -
  from ok have inv: "pmm_inv (vm_pmm v)" and tree: "table_tree (vm_mem v) root (free_addrs v)"
    by (auto simp: vm_ok_def)
  have fresh: "phys_of_page p \<in> free_addrs v" using p by (simp add: free_addrs_def)
  have fr: "free_addrs v1 = free_addrs v - {phys_of_page p}"
    using free_addrs_take [OF inv p(1)] p(2) by (simp add: free_addrs_def v1)
  show tabs: "vpath q \<Longrightarrow> tab (vm_mem v1) root q = tab (vm_mem v) root q" for q
    using tab_fresh_frame [OF tree fresh] by (simp add: v1 del: fun_upd_apply)
  show "vpath q \<Longrightarrow> pte (vm_mem v1) root q i = pte (vm_mem v) root q i"
    using pte_fresh_frame [OF tree fresh] by (simp add: v1 del: fun_upd_apply)
  show "vm_ok v1 root"
    using tree p(3) tabs unfolding vm_ok_def table_tree_def fr by (simp add: v1 del: fun_upd_apply)
  show "data_frame v1 root (phys_of_page p)"
    using tabs table_treeD(2) [OF tree] fresh by (auto simp: data_frame_def fr)
  show "data_frame v root f \<Longrightarrow> data_frame v1 root f \<and> vm_mem v1 f = vm_mem v f \<and> f \<noteq> phys_of_page p"
    using tabs fresh by (auto simp: data_frame_def fr) (auto simp: v1)
  show "vpath q \<Longrightarrow> no_huge (vm_mem v) root q \<Longrightarrow> no_huge (vm_mem v1) root q"
  proof (induction q rule: rev_induct)
    case Nil
    then show ?case by simp
  next
    case (snoc j q)
    then have vq: "vpath q" by (simp add: vpath_snoc)
    have "vm_mem v1 t = vm_mem v t" if "tab (vm_mem v) root q = Some t" for t
      using table_treeD(2) [OF tree vq that] fresh by (auto simp: v1)
    with snoc vq tabs [OF vq] show ?case by (auto simp: no_huge_snoc)
  qed
qed

definition fault_pte :: "vmm_address_space \<Rightarrow> u64 \<Rightarrow> vmm \<Rightarrow> u64" where
  "fault_pte asp fa v = pte (vm_mem v) (as_pml4_phys asp) (vpath_of fa) (tbl_idx 12 fa)"

lemma cow_fault_refused:
  assumes "no_huge (vm_mem v) (as_pml4_phys asp) (vpath_of fa)"
    and "\<not> has (fault_pte asp fa v) VMM_PAGE_PRESENT \<or> \<not> has (fault_pte asp fa v) VMM_PAGE_COW"
  shows "vmm_handle_cow_fault asp fa v = (-1, v)"
proof (cases "tab (vm_mem v) (as_pml4_phys asp) (vpath_of fa)")
  case None
  then show ?thesis using walk_to_leaf_tab [OF assms(1)] by (simp add: vmm_handle_cow_fault_def)
next
  case (Some pt)
  let ?e = "fault_pte asp fa v" and ?r = "vm_refcounts v"
  have e: "vm_mem v pt (tbl_idx 12 fa) = ?e" using Some by (simp add: fault_pte_def pte_def)
  have "pmm_frame_refcount_inc (pte_frame ?e) (snd (pmm_frame_refcount_dec (pte_frame ?e) ?r)) = ?r"
    if "pmm_frame_refcount_get (pte_frame ?e) ?r > 0" using refcount_dec_inc(1) [OF that] .
  then show ?thesis using walk_to_leaf_tab [OF assms(1)] Some e assms(2)
    by (auto simp: vmm_handle_cow_fault_def Let_def vmm_cow_decide_def split_beta)
qed

definition fault_shares :: "vmm_address_space \<Rightarrow> u64 \<Rightarrow> vmm \<Rightarrow> u16" where
  "fault_shares asp fa v = pmm_frame_refcount_get (pte_frame (fault_pte asp fa v)) (vm_refcounts v)"

definition unshared :: "vmm_address_space \<Rightarrow> u64 \<Rightarrow> vmm \<Rightarrow> u16 carr" where
  "unshared asp fa v =
     (if fault_shares asp fa v > 0
      then snd (pmm_frame_refcount_dec (pte_frame (fault_pte asp fa v)) (vm_refcounts v))
      else vm_refcounts v)"

lemma u16_after_dec: "(if 0 < n then n - 1 else 0) = 0 \<longleftrightarrow> n \<le> 1" for n :: u16
  by (auto simp: word_le_nat_alt word_less_nat_alt unat_eq_0 [symmetric] unat_minus_one_pos
      dest: unat_minus_one_pos split: if_splits)

lemma cow_fault_present:
  assumes "no_huge (vm_mem v) (as_pml4_phys asp) (vpath_of fa)"
    and "has (fault_pte asp fa v) VMM_PAGE_PRESENT" and "has (fault_pte asp fa v) VMM_PAGE_COW"
  obtains pt where "tab (vm_mem v) (as_pml4_phys asp) (vpath_of fa) = Some pt"
    and "vmm_handle_cow_fault asp fa v =
      (let i = tbl_idx 12 fa; e = fault_pte asp fa v; st = vm_stats v in
       if fault_shares asp fa v \<le> 1
       then (0, v\<lparr>vm_refcounts := unshared asp fa v,
                  vm_mem := mem_upd pt i ((e OR VMM_PAGE_WRITE) AND NOT VMM_PAGE_COW) (vm_mem v),
                  vm_stats := st\<lparr>cow_faults := cow_faults st + 1\<rparr>\<rparr>)
       else (let (new_phys, p1) = pmm_alloc_page (vm_pmm v) in
             if new_phys = 0 then (-1, v\<lparr>vm_pmm := p1\<rparr>)
             else (0, v\<lparr>vm_pmm := p1, vm_refcounts := unshared asp fa v,
                        vm_mem := mem_upd pt i
                          (((e AND 0xFFF) OR new_phys OR VMM_PAGE_WRITE) AND NOT VMM_PAGE_COW)
                          ((vm_mem v)(new_phys := vm_mem v (pte_frame e))),
                        vm_stats := st\<lparr>cow_faults := cow_faults st + 1\<rparr>\<rparr>)))"
proof -
  obtain pt where pt: "tab (vm_mem v) (as_pml4_phys asp) (vpath_of fa) = Some pt"
    using assms(2) by (cases "tab (vm_mem v) (as_pml4_phys asp) (vpath_of fa)")
      (auto simp: fault_pte_def pte_def has_def)
  let ?e = "fault_pte asp fa v" and ?n = "fault_shares asp fa v"
  have e: "vm_mem v pt (tbl_idx 12 fa) = ?e" using pt by (simp add: fault_pte_def pte_def)
  have n: "pmm_frame_refcount_get (pte_frame ?e) (vm_refcounts v) = ?n"
    by (simp add: fault_shares_def)
  have dec: "(if 0 < ?n then pmm_frame_refcount_dec (pte_frame ?e) (vm_refcounts v) else (0, vm_refcounts v))
      = (if 0 < ?n then ?n - 1 else 0, unshared asp fa v)"
    using refcount_dec_inc(2) [of "pte_frame ?e" "vm_refcounts v"]
    by (auto simp: unshared_def n prod_eq_iff)
  have inc: "(if 0 < ?n then pmm_frame_refcount_inc (pte_frame ?e) (unshared asp fa v)
      else unshared asp fa v) = vm_refcounts v"
    using refcount_dec_inc(1) [of "pte_frame ?e" "vm_refcounts v"]
    by (auto simp: unshared_def n)
  have same: "v\<lparr>vm_pmm := p, vm_refcounts := vm_refcounts v\<rparr> = v\<lparr>vm_pmm := p\<rparr>" for p by simp
  have "vmm_handle_cow_fault asp fa v = (case cow_action (vmm_cow_decide ?e (if 0 < ?n then ?n - 1 else 0)) of
              VMM_COW_NOT_COW \<Rightarrow> (-1, v)
            | VMM_COW_REUSE \<Rightarrow>
                (0, v\<lparr>vm_refcounts := unshared asp fa v,
                      vm_mem := mem_upd pt (tbl_idx 12 fa) ((?e OR VMM_PAGE_WRITE) AND NOT VMM_PAGE_COW) (vm_mem v),
                      vm_stats := (vm_stats v)\<lparr>cow_faults := cow_faults (vm_stats v) + 1\<rparr>\<rparr>)
            | VMM_COW_COPY \<Rightarrow>
                (let (new_phys, p1) = pmm_alloc_page (vm_pmm v) in
                 if new_phys = 0 then (-1, v\<lparr>vm_pmm := p1\<rparr>)
                 else (0, v\<lparr>vm_pmm := p1, vm_refcounts := unshared asp fa v,
                        vm_mem := mem_upd pt (tbl_idx 12 fa)
                          (((?e AND 0xFFF) OR new_phys OR VMM_PAGE_WRITE) AND NOT VMM_PAGE_COW)
                          ((vm_mem v)(new_phys := vm_mem v (pte_frame ?e))),
                        vm_stats := (vm_stats v)\<lparr>cow_faults := cow_faults (vm_stats v) + 1\<rparr>\<rparr>)))"
    unfolding vmm_handle_cow_fault_def walk_to_leaf_tab [OF assms(1)] pt
    using assms(2,3)
    by (simp only: option.map option.case prod.case Let_def e n dec inc same)
      (simp add: vmm_cow_decide_def split: prod.split)
  with that [OF pt] assms(3) u16_after_dec [of ?n] show ?thesis
    by (simp add: vmm_cow_decide_def Let_def)
qed

lemma copy_entry:
  assumes "p < 65536" and "has e VMM_PAGE_PRESENT"
  defines "e' \<equiv> ((e AND 0xFFF) OR phys_of_page p OR VMM_PAGE_WRITE) AND NOT VMM_PAGE_COW"
  shows "pte_frame e' = phys_of_page p" and "has e' VMM_PAGE_PRESENT" and "has e' VMM_PAGE_WRITE"
    and "\<not> has e' VMM_PAGE_COW"
proof -
  have b: "bit e' n = (n < 64 \<and> (bit e n \<and> n < 12 \<or> bit (phys_of_page p) n \<or> n = 1) \<and> n \<noteq> 9)" for n
    unfolding e'_def bit_and_iff bit_or_iff bit_not_iff low_bits_0xFFF flag_bits possible_bit_def
    by (auto dest: bit_imp_le_length)
  show "pte_frame e' = phys_of_page p"
  proof (rule bit_eqI)
    fix n
    show "bit (pte_frame e') n = bit (phys_of_page p) n"
      using small_nat_bit [OF assms(1), of "n - 12"] by (auto simp: pte_frame_bit b bit_phys_of_page)
  qed
  show "has e' VMM_PAGE_PRESENT" "has e' VMM_PAGE_WRITE" "\<not> has e' VMM_PAGE_COW"
    using assms(2) by (simp_all add: has_bits b)
qed

lemma reuse_entry:
  assumes "has e VMM_PAGE_PRESENT"
  defines "e' \<equiv> (e OR VMM_PAGE_WRITE) AND NOT VMM_PAGE_COW"
  shows "pte_frame e' = pte_frame e" and "has e' VMM_PAGE_PRESENT" and "has e' VMM_PAGE_WRITE"
    and "\<not> has e' VMM_PAGE_COW"
proof -
  have b: "bit e' n = (n < 64 \<and> (bit e n \<or> n = 1) \<and> n \<noteq> 9)" for n
    unfolding e'_def bit_and_iff bit_or_iff bit_not_iff flag_bits possible_bit_def
    by (auto dest: bit_imp_le_length)
  show "pte_frame e' = pte_frame e"
    by (intro bit_eqI) (auto simp: pte_frame_bit b)
  show "has e' VMM_PAGE_PRESENT" "has e' VMM_PAGE_WRITE" "\<not> has e' VMM_PAGE_COW"
    using assms(1) by (simp_all add: has_bits b)
qed

lemma cow_copy:
  assumes ok: "vm_ok v (as_pml4_phys asp)" and nh: "no_huge (vm_mem v) (as_pml4_phys asp) (vpath_of fa)"
    and e: "has (fault_pte asp fa v) VMM_PAGE_PRESENT" "has (fault_pte asp fa v) VMM_PAGE_COW"
    and n: "1 < fault_shares asp fa v" and fr: "free_frames (vm_pmm v) \<noteq> {}"
  shows "\<exists>p v'. vmm_handle_cow_fault asp fa v = (0, v') \<and> p \<in> free_frames (vm_pmm v) \<and>
    free_frames (vm_pmm v') = free_frames (vm_pmm v) - {p} \<and>
    vm_ok v' (as_pml4_phys asp) \<and> vm_refcounts v' = unshared asp fa v \<and>
    mapped_as (as_pml4_phys asp) fa
      (((fault_pte asp fa v AND 0xFFF) OR phys_of_page p OR VMM_PAGE_WRITE) AND NOT VMM_PAGE_COW) v v' \<and>
    (\<forall>q. vpath q \<longrightarrow> no_huge (vm_mem v) (as_pml4_phys asp) q \<longrightarrow> no_huge (vm_mem v') (as_pml4_phys asp) q) \<and>
    vm_mem v' (phys_of_page p) = vm_mem v (pte_frame (fault_pte asp fa v)) \<and>
    (\<forall>f. data_frame v (as_pml4_phys asp) f \<longrightarrow> vm_mem v' f = vm_mem v f \<and> f \<noteq> phys_of_page p) \<and> p < 65536"
proof -
  let ?root = "as_pml4_phys asp" and ?i = "tbl_idx 12 fa" and ?e = "fault_pte asp fa v"
  have n': "(fault_shares asp fa v \<le> 1) = False" using n by (simp only: not_le [symmetric])
  obtain pt where pt: "tab (vm_mem v) ?root (vpath_of fa) = Some pt"
    and h: "vmm_handle_cow_fault asp fa v =
      (let (new_phys, p1) = pmm_alloc_page (vm_pmm v) in
             if new_phys = 0 then (-1, v\<lparr>vm_pmm := p1\<rparr>)
             else (0, v\<lparr>vm_pmm := p1, vm_refcounts := unshared asp fa v,
                        vm_mem := mem_upd pt ?i
                          (((?e AND 0xFFF) OR new_phys OR VMM_PAGE_WRITE) AND NOT VMM_PAGE_COW)
                          ((vm_mem v)(new_phys := vm_mem v (pte_frame ?e))),
                        vm_stats := (vm_stats v)\<lparr>cow_faults := cow_faults (vm_stats v) + 1\<rparr>\<rparr>))"
    by (rule cow_fault_present [OF nh e]) (simp add: Let_def n')
  have "pmm_inv (vm_pmm v)" using ok by (simp add: vm_ok_def)
  then obtain p s' where al: "pmm_alloc_page (vm_pmm v) = (phys_of_page p, s')"
      "p \<in> free_frames (vm_pmm v)" "free_frames s' = free_frames (vm_pmm v) - {p}" "pmm_inv s'"
      "phys_of_page p \<noteq> 0" "p < 65536"
    using fr by (rule pmm_alloc_some)
  define v1 where "v1 = v\<lparr>vm_pmm := s', vm_mem := (vm_mem v)(phys_of_page p := vm_mem v (pte_frame ?e))\<rparr>"
  let ?ne = "((?e AND 0xFFF) OR phys_of_page p OR VMM_PAGE_WRITE) AND NOT VMM_PAGE_COW"
  define v2 where "v2 = v1\<lparr>vm_mem := mem_upd pt ?i ?ne (vm_mem v1)\<rparr>"
  define v' where "v' = v2\<lparr>vm_refcounts := unshared asp fa v,
      vm_stats := (vm_stats v)\<lparr>cow_faults := cow_faults (vm_stats v) + 1\<rparr>\<rparr>"
  have h': "vmm_handle_cow_fault asp fa v = (0, v')"
    using al by (simp add: h v'_def v2_def v1_def)
  note tf = take_frame [OF ok al(1-4) v1_def]
  have pt1: "tab (vm_mem v1) ?root (vpath_of fa) = Some pt" using tf(2) pt by simp
  note lw = leaf_write [OF tf(1) vpath_vpath_of pt1, where i = ?i and e = ?ne]
  have data: "data_frame v ?root f \<Longrightarrow> vm_mem v' f = vm_mem v f \<and> f \<noteq> phys_of_page p" for f
    using tf(6) [of f] pt by (auto simp: v'_def v2_def mem_upd_def data_frame_def)
  have "pt \<noteq> phys_of_page p" using tf(5) pt1 by (auto simp: data_frame_def)
  then have copy: "vm_mem v' (phys_of_page p) = vm_mem v (pte_frame ?e)"
    by (simp add: v'_def v2_def v1_def mem_upd_def)
  have ok': "vm_ok v' ?root" using lw(1) by (simp add: v'_def v2_def vm_ok_def free_addrs_def)
  have map: "mapped_as ?root fa ?ne v v'"
    using lw(4) tf(3) by (simp add: mapped_as_def v'_def v2_def)
  have nh': "vpath q \<Longrightarrow> no_huge (vm_mem v) ?root q \<Longrightarrow> no_huge (vm_mem v') ?root q" for q
    using lw(3) tf(4) by (simp add: v'_def v2_def)
  have rest: "vm_refcounts v' = unshared asp fa v" "free_frames (vm_pmm v') = free_frames (vm_pmm v) - {p}"
    using al(3) by (simp_all add: v'_def v2_def v1_def)
  show ?thesis using h' al(2,6) ok' map nh' copy data rest by blast
qed

text \<open>
  An address space with one copy-on-write page: virtual page 0 is frame 7, tables in frames 4, 5,
  6 and 8, share count \<open>n\<close> for frame 7, frames 1 to 3 free.
\<close>

definition cow_mem :: "u64 \<Rightarrow> nat \<Rightarrow> u64" where
  "cow_mem = (\<lambda>_ _. 0)(0x4000 := (\<lambda>_. 0)(0 := 0x5007), 0x5000 := (\<lambda>_. 0)(0 := 0x6007),
     0x6000 := (\<lambda>_. 0)(0 := 0x8007), 0x8000 := (\<lambda>_. 0)(0 := 0x7205), 0x7000 := (\<lambda>_. 42))"

definition cow_vm :: "u16 \<Rightarrow> vmm" where
  "cow_vm n = demo_vm\<lparr>vm_refcounts := (\<lambda>_. 0)(7 := n), vm_mem := cow_mem\<rparr>"

lemma cow_mem_at [simp]:
  "cow_mem 0x4000 i = (if i = 0 then 0x5007 else 0)" "cow_mem 0x5000 i = (if i = 0 then 0x6007 else 0)"
  "cow_mem 0x6000 i = (if i = 0 then 0x8007 else 0)" "cow_mem 0x8000 i = (if i = 0 then 0x7205 else 0)"
  "cow_mem 0x7000 i = 42"
  by (simp_all add: cow_mem_def)

lemma cow_entry_facts [simp]:
  "has 0x5007 VMM_PAGE_PRESENT" "\<not> has 0x5007 VMM_PAGE_HUGE" "pte_frame 0x5007 = 0x5000"
  "has 0x6007 VMM_PAGE_PRESENT" "\<not> has 0x6007 VMM_PAGE_HUGE" "pte_frame 0x6007 = 0x6000"
  "has 0x8007 VMM_PAGE_PRESENT" "\<not> has 0x8007 VMM_PAGE_HUGE" "pte_frame 0x8007 = 0x8000"
  "has 0x7205 VMM_PAGE_PRESENT" "\<not> has 0x7205 VMM_PAGE_HUGE" "pte_frame 0x7205 = 0x7000"
  "has 0x7205 VMM_PAGE_COW" "\<not> has 0 f"
  by (simp_all add: has_def vmm_flag_defs pte_frame_def VMM_PTE_PHYS_MASK_def)

lemma cow_tab:
  assumes "vpath p" and "tab cow_mem 0x4000 p = Some f"
  shows "p = [] \<and> f = 0x4000 \<or> p = [0] \<and> f = 0x5000 \<or> p = [0, 0] \<and> f = 0x6000 \<or> p = [0, 0, 0] \<and> f = 0x8000"
proof -
  from assms(1) have "length p \<le> 3" by (simp add: vpath_def)
  then consider "p = []" | i where "p = [i]" | i j where "p = [i, j]" | i j k where "p = [i, j, k]"
    by (auto simp: le_Suc_eq length_Suc_conv numeral_3_eq_3)
  then show ?thesis
    using assms(2) by cases (auto simp: Let_def split: if_splits)
qed

lemma cow_vm_facts:
  "vm_ok (cow_vm n) (as_pml4_phys demo_as)" "no_huge (vm_mem (cow_vm n)) (as_pml4_phys demo_as) (vpath_of 0x123)"
  "fault_pte demo_as 0x123 (cow_vm n) = 0x7205" "fault_shares demo_as 0x123 (cow_vm n) = n"
  "data_frame (cow_vm n) (as_pml4_phys demo_as) 0x7000" "free_frames (vm_pmm (cow_vm n)) = {1, 2, 3}"
proof -
  have fr: "free_addrs (cow_vm n) = {0x1000, 0x2000, 0x3000}"
    by (simp add: free_addrs_def cow_vm_def demo_vm_def demo_pmm_frames phys_of_page_def PMM_PAGE_SIZE_def)
  show fp: "fault_pte demo_as 0x123 (cow_vm n) = 0x7205"
    by (simp add: fault_pte_def pte_def vpath_of_def tbl_idx_def cow_vm_def demo_as_def)
  show "no_huge (vm_mem (cow_vm n)) (as_pml4_phys demo_as) (vpath_of 0x123)"
    by (simp add: vpath_of_def tbl_idx_def cow_vm_def demo_as_def)
  show "fault_shares demo_as 0x123 (cow_vm n) = n"
    unfolding fault_shares_def fp
    by (simp add: pmm_frame_refcount_get_def pfn_from_phys_def PMM_REFCOUNT_MAX_PAGES_def cow_vm_def)
  show "free_frames (vm_pmm (cow_vm n)) = {1, 2, 3}"
    by (simp add: cow_vm_def demo_vm_def demo_pmm_frames)
  show "vm_ok (cow_vm n) (as_pml4_phys demo_as)"
  proof -
    have "table_tree cow_mem 0x4000 {0x1000, 0x2000, 0x3000}"
      unfolding table_tree_def by (auto dest!: cow_tab)
    then show ?thesis using demo_pmm_inv by (simp add: vm_ok_def fr) (simp add: cow_vm_def demo_vm_def demo_as_def)
  qed
  show "data_frame (cow_vm n) (as_pml4_phys demo_as) 0x7000"
  proof -
    have "tab cow_mem 0x4000 q \<noteq> Some 0x7000" if "vpath q" for q
      using cow_tab [OF that] by fastforce
    then show ?thesis by (simp add: data_frame_def fr) (simp add: cow_vm_def demo_as_def)
  qed
qed

lemma cow_reuse:
  assumes ok: "vm_ok v (as_pml4_phys asp)" and nh: "no_huge (vm_mem v) (as_pml4_phys asp) (vpath_of fa)"
    and e: "has (fault_pte asp fa v) VMM_PAGE_PRESENT" "has (fault_pte asp fa v) VMM_PAGE_COW"
    and n: "fault_shares asp fa v \<le> 1"
  shows "\<exists>v'. vmm_handle_cow_fault asp fa v = (0, v') \<and> vm_pmm v' = vm_pmm v \<and>
    vm_ok v' (as_pml4_phys asp) \<and>
    mapped_as (as_pml4_phys asp) fa ((fault_pte asp fa v OR VMM_PAGE_WRITE) AND NOT VMM_PAGE_COW) v v' \<and>
    (\<forall>q. vpath q \<longrightarrow> no_huge (vm_mem v') (as_pml4_phys asp) q = no_huge (vm_mem v) (as_pml4_phys asp) q) \<and>
    (\<forall>f. data_frame v (as_pml4_phys asp) f \<longrightarrow> vm_mem v' f = vm_mem v f)"
proof -
  let ?root = "as_pml4_phys asp" and ?i = "tbl_idx 12 fa" and ?e = "fault_pte asp fa v"
  let ?ne = "(?e OR VMM_PAGE_WRITE) AND NOT VMM_PAGE_COW"
  obtain pt where pt: "tab (vm_mem v) ?root (vpath_of fa) = Some pt"
    and h: "vmm_handle_cow_fault asp fa v =
      (0, v\<lparr>vm_refcounts := unshared asp fa v, vm_mem := mem_upd pt ?i ?ne (vm_mem v),
            vm_stats := (vm_stats v)\<lparr>cow_faults := cow_faults (vm_stats v) + 1\<rparr>\<rparr>)"
    by (rule cow_fault_present [OF nh e]) (simp add: Let_def n)
  note lw = leaf_write [OF ok vpath_vpath_of pt, where i = ?i and e = ?ne]
  have "data_frame v ?root f \<Longrightarrow> mem_upd pt ?i ?ne (vm_mem v) f = vm_mem v f" for f
    using pt by (auto simp: mem_upd_def data_frame_def)
  then show ?thesis
    using lw unfolding h by (simp add: mapped_as_def vm_ok_def free_addrs_def)
qed

lemma cow_no_frame:
  assumes ok: "vm_ok v (as_pml4_phys asp)" and nh: "no_huge (vm_mem v) (as_pml4_phys asp) (vpath_of fa)"
    and e: "has (fault_pte asp fa v) VMM_PAGE_PRESENT" "has (fault_pte asp fa v) VMM_PAGE_COW"
    and n: "1 < fault_shares asp fa v" and fr: "free_frames (vm_pmm v) = {}"
  shows "vmm_handle_cow_fault asp fa v = (-1, v)"
proof -
  have n': "(fault_shares asp fa v \<le> 1) = False" using n by (simp only: not_le [symmetric])
  have "pmm_alloc_page (vm_pmm v) = (0, vm_pmm v)"
    using ok fr by (intro pmm_alloc.alloc_empty) (simp_all add: vm_ok_def)
  then show ?thesis
    by - (rule cow_fault_present [OF nh e], simp add: Let_def n')
qed

subsection \<open>Demand paging\<close>

lemma page_align_path:
  "vpath_of (fa AND NOT (VMM_PAGE_SIZE - 1)) = vpath_of fa"
  "tbl_idx 12 (fa AND NOT (VMM_PAGE_SIZE - 1)) = tbl_idx 12 fa"
  "vpn (fa AND NOT (VMM_PAGE_SIZE - 1)) = vpn fa"
proof -
  have "(VMM_PAGE_SIZE - 1) = (0xFFF :: u64)" by (simp add: VMM_PAGE_SIZE_def)
  then have "bit (fa AND NOT (VMM_PAGE_SIZE - 1)) n = (bit fa n \<and> 12 \<le> n)" for n
    by (simp only: bit_page_align)
  then show v: "vpn (fa AND NOT (VMM_PAGE_SIZE - 1)) = vpn fa" by (simp add: vpn_eq_iff)
  then show "vpath_of (fa AND NOT (VMM_PAGE_SIZE - 1)) = vpath_of fa"
    "tbl_idx 12 (fa AND NOT (VMM_PAGE_SIZE - 1)) = tbl_idx 12 fa"
    unfolding vpn_indices by simp_all
qed

lemma frame_aligned: "phys_of_page p AND NOT 0xFFF = phys_of_page p"
  by (rule bit_eqI) (simp only: bit_page_align bit_phys_of_page, auto)

lemma frame_below: "p < 65536 \<Longrightarrow> phys_of_page p < 2 ^ 52"
  using unat_phys_of_page [of p] by (simp add: word_less_nat_alt PMM_BITMAP_SIZE_def)

lemma alloc_total: "pmm_alloc_page s = (a, s') \<Longrightarrow> pmm_total_pages s' = pmm_total_pages s"
  by (auto simp: pmm_alloc_page_def Let_def split: option.splits)

lemma get_or_create_total:
  "get_or_create_table t i flags v = (r, v') \<Longrightarrow> pmm_total_pages (vm_pmm v') = pmm_total_pages (vm_pmm v)"
  by (auto simp: get_or_create_table_def Let_def dest: alloc_total split: if_splits prod.splits)

lemma map_page_total:
  assumes "vmm_map_page asp virt phys flags v = (r, asp', v')"
  shows "pmm_total_pages (vm_pmm v') = pmm_total_pages (vm_pmm v)"
proof -
  have "walk_create root virt tf v = (w, v3) \<Longrightarrow> pmm_total_pages (vm_pmm v3) = pmm_total_pages (vm_pmm v)"
    for root tf w v3
    by (auto simp: walk_create_def Let_def dest!: get_or_create_total split: prod.splits option.splits)
  with assms show ?thesis
    by (auto simp: vmm_map_page_walk Let_def split: prod.splits option.splits if_splits)
qed

text \<open>Giving back a data frame keeps the tables a tree.\<close>

lemma vm_ok_release:
  assumes ok: "vm_ok v root" and d: "data_frame v root (phys_of_page p)" and p: "p \<in> managed_frames (vm_pmm v)"
  shows "vm_ok (v\<lparr>vm_pmm := pmm_free_page (phys_of_page p) (vm_pmm v)\<rparr>) root"
proof -
  from ok have inv: "pmm_inv (vm_pmm v)" by (simp add: vm_ok_def)
  have r: "pmm_inv (pmm_free_page (phys_of_page p) (vm_pmm v))"
    "free_frames (pmm_free_page (phys_of_page p) (vm_pmm v)) = insert p (free_frames (vm_pmm v))"
    using pmm_alloc.release_gives [OF inv p] by simp_all
  then show ?thesis using ok d unfolding vm_ok_def table_tree_def data_frame_def free_addrs_def
    by auto
qed

lemma demand_page:
  assumes ok: "vm_ok v (as_pml4_phys asp)" and nh: "no_huge (vm_mem v) (as_pml4_phys asp) (vpath_of fa)"
    and al: "pmm_alloc_page (vm_pmm v) = (phys_of_page p, s')"
      "p \<in> free_frames (vm_pmm v)" "free_frames s' = free_frames (vm_pmm v) - {p}" "pmm_inv s'"
    and res: "vmm_map_page asp (fa AND NOT (VMM_PAGE_SIZE - 1)) (phys_of_page p) flags
      (v\<lparr>vm_pmm := s', vm_mem := (vm_mem v)(phys_of_page p := (\<lambda>_. 0))\<rparr>) = (r, asp', v')"
    and fl: "flags_only flags" and p: "p < 65536"
  shows "vm_ok v' (as_pml4_phys asp)" and "as_pml4_phys asp' = as_pml4_phys asp"
    and "data_frame v' (as_pml4_phys asp) (phys_of_page p)"
    and "vm_mem v' (phys_of_page p) = (\<lambda>_. 0)"
    and "data_frame v (as_pml4_phys asp) f \<Longrightarrow> vm_mem v' f = vm_mem v f"
    and "r \<noteq> 0 \<Longrightarrow> r = -1 \<and> asp' = asp \<and> card (free_frames (vm_pmm v)) < 4"
    and "no_huge (vm_mem v) (as_pml4_phys asp) (vpath_of a) \<Longrightarrow>
      vmm_virt_to_phys asp' a v' =
        (if r = 0 \<and> vpn a = vpn fa then phys_of_page p OR (a AND 0xFFF) else vmm_virt_to_phys asp a v)"
    and "pmm_total_pages (vm_pmm v') = pmm_total_pages (vm_pmm v)"
proof -
  let ?root = "as_pml4_phys asp"
  define v1 where "v1 = v\<lparr>vm_pmm := s', vm_mem := (vm_mem v)(phys_of_page p := (\<lambda>_. 0))\<rparr>"
  note tf = take_frame [OF ok al v1_def]
  have res1: "vmm_map_page asp (fa AND NOT (VMM_PAGE_SIZE - 1)) (phys_of_page p) flags v1 = (r, asp', v')"
    using res by (simp add: v1_def)
  have nh1: "no_huge (vm_mem v1) ?root (vpath_of (fa AND NOT (VMM_PAGE_SIZE - 1)))"
    unfolding page_align_path using tf(4) nh by simp
  note spec = vmm_map_page_spec [OF tf(1) nh1 res1]
  note data = vmm_map_page_data_frame [OF tf(1) nh1 res1]
  have tr1: "vmm_virt_to_phys asp a v1 = vmm_virt_to_phys asp a v"
    if "no_huge (vm_mem v) ?root (vpath_of a)"
    using virt_to_phys_pte [of v1 asp a] virt_to_phys_pte [of v asp a] tf(3,4) that by simp
  show "vm_ok v' ?root" "as_pml4_phys asp' = ?root" using spec by simp_all
  show "data_frame v' ?root (phys_of_page p)" using data tf(5) by simp
  show "vm_mem v' (phys_of_page p) = (\<lambda>_. 0)" using data tf(5) by (simp add: v1_def)
  show "data_frame v ?root f \<Longrightarrow> vm_mem v' f = vm_mem v f" using data tf(6) by simp
  show "pmm_total_pages (vm_pmm v') = pmm_total_pages (vm_pmm v)"
    using map_page_total [OF res1] alloc_total [OF al(1)] by (simp add: v1_def)
  have "card (free_frames s') = card (free_frames (vm_pmm v)) - 1" using al(2,3) by simp
  then show "r \<noteq> 0 \<Longrightarrow> r = -1 \<and> asp' = asp \<and> card (free_frames (vm_pmm v)) < 4"
    using spec by (auto simp: v1_def)
  assume a: "no_huge (vm_mem v) ?root (vpath_of a)"
  then have nha: "no_huge (vm_mem v1) ?root (vpath_of a)" "no_huge (vm_mem v') ?root (vpath_of a)"
    using tf(4) spec by simp_all
  show "vmm_virt_to_phys asp' a v' =
        (if r = 0 \<and> vpn a = vpn fa then phys_of_page p OR (a AND 0xFFF) else vmm_virt_to_phys asp a v)"
  proof (cases "r = 0")
    case True
    then have "mapped_as ?root (fa AND NOT (VMM_PAGE_SIZE - 1))
        ((phys_of_page p AND NOT 0xFFF) OR flags OR VMM_PAGE_PRESENT) v1 v'" using spec by simp
    from mapped_as_virt_to_phys [OF this _ nha, of asp'] spec True mapped_entry [OF fl frame_below [OF p]]
    show ?thesis unfolding page_align_path frame_aligned tr1 [OF a] by simp
  next
    case False
    then show ?thesis
      using spec virt_to_phys_pte [OF nha(1)] virt_to_phys_pte [of v' asp' a] nha(2) tr1 [OF a]
      by (simp add: same_ptes_def)
  qed
qed

lemma stats_transparent [simp]:
  "data_frame (v\<lparr>vm_stats := st\<rparr>) root f = data_frame v root f"
  "vmm_virt_to_phys asp a (v\<lparr>vm_stats := st\<rparr>) = vmm_virt_to_phys asp a v"
  "vmm_virt_to_phys asp a (v\<lparr>vm_pmm := s\<rparr>) = vmm_virt_to_phys asp a v"
  by (simp_all add: data_frame_def free_addrs_def vmm_virt_to_phys_def split: option.split)

text \<open>An empty address space rooted at frame 9 with a region at 4 MiB, and frames 1 to 4 free.\<close>

definition roomy_pmm :: pmm where
  "roomy_pmm = demo_pmm\<lparr>pmm_bitmap := (\<lambda>i. if i = 0 then 0xE1 else 0xFF), pmm_total_pages := 8,
     pmm_free_count := 4\<rparr>"

definition roomy_vm :: vmm where
  "roomy_vm = demo_vm\<lparr>vm_pmm := roomy_pmm\<rparr>"

definition roomy_space :: vmm_address_space where
  "roomy_space = demo_space\<lparr>as_pml4_phys := 0x9000\<rparr>"

lemma roomy_pmm_test: "bitmap_test p roomy_pmm = (p = 0 \<or> 5 \<le> p)"
proof (cases "p < 8")
  case True
  then have "p = 0 \<or> p = 1 \<or> p = 2 \<or> p = 3 \<or> p = 4 \<or> p = 5 \<or> p = 6 \<or> p = 7" by arith
  then show ?thesis
    by (elim disjE) (simp_all add: bitmap_test_bit roomy_pmm_def PMM_BITMAP_SIZE_def)
next
  case False
  then have "p div 8 \<noteq> 0" by auto
  then show ?thesis
    using False byte_full [of "p mod 8"] by (auto simp: bitmap_test_bit roomy_pmm_def)
qed

lemma roomy_facts:
  "vm_ok roomy_vm (as_pml4_phys roomy_space)"
  "no_huge (vm_mem roomy_vm) (as_pml4_phys roomy_space) (vpath_of a)"
  "free_frames (vm_pmm roomy_vm) = {1, 2, 3, 4}"
proof -
  have fr: "free_frames roomy_pmm = {1, 2, 3, 4}"
    by (auto simp: free_frames_def roomy_pmm_test) (auto simp: roomy_pmm_def)
  then show "free_frames (vm_pmm roomy_vm) = {1, 2, 3, 4}" by (simp add: roomy_vm_def)
  have t: "tab (\<lambda>_ _. 0) f p = (if p = [] then Some f else None)" for f p
    by (cases p) simp_all
  have inv: "pmm_inv roomy_pmm"
    unfolding pmm_inv_def pmm_counted_def pmm_wf_def fr
    by (simp add: roomy_pmm_test) (simp add: roomy_pmm_def PMM_BITMAP_SIZE_def)
  have "free_addrs roomy_vm = {0x1000, 0x2000, 0x3000, 0x4000}"
    by (simp add: free_addrs_def roomy_vm_def fr phys_of_page_def PMM_PAGE_SIZE_def)
  then show "vm_ok roomy_vm (as_pml4_phys roomy_space)"
    using inv by (auto simp: vm_ok_def roomy_vm_def demo_vm_def roomy_space_def table_tree_def t split: if_splits)
  show "no_huge (vm_mem roomy_vm) (as_pml4_phys roomy_space) (vpath_of a)"
    by (simp add: roomy_vm_def demo_vm_def vpath_of_def)
qed

subsection \<open>Properties of the fault handlers\<close>



text \<open>
  The other outcomes of a copy-on-write fault. The fault is refused with -1 and no state at all
  changes (the share count the code decrements and restores included) when the page is
  absent, is not copy-on-write, or needs a copy and no frame is free. When the frame is
  counted at most once, the fault succeeds in place: the page becomes writable, every address
  translates as before, and neither the allocator nor any data frame changes.
\<close>

theorem cow_fault_refused_or_reused:
  assumes "vm_ok v (as_pml4_phys asp)" and "no_huge (vm_mem v) (as_pml4_phys asp) (vpath_of fa)"
    and "vmm_handle_cow_fault asp fa v = (r, v')"
  shows "(if \<not> has (fault_pte asp fa v) VMM_PAGE_PRESENT \<or> \<not> has (fault_pte asp fa v) VMM_PAGE_COW \<or>
              1 < fault_shares asp fa v \<and> free_frames (vm_pmm v) = {}
          then r = -1 \<and> v' = v
          else r = 0 \<and> has (fault_pte asp fa v') VMM_PAGE_WRITE \<and>
               (fault_shares asp fa v \<le> 1 \<longrightarrow>
                  vm_ok v' (as_pml4_phys asp) \<and> vm_pmm v' = vm_pmm v \<and>
                  (\<forall>f. data_frame v (as_pml4_phys asp) f \<longrightarrow> vm_mem v' f = vm_mem v f) \<and>
                  (\<forall>a. no_huge (vm_mem v) (as_pml4_phys asp) (vpath_of a) \<longrightarrow>
                     vmm_virt_to_phys asp a v' = (if vpn a = vpn fa
                       then pte_frame (fault_pte asp fa v) OR (a AND 0xFFF)
                       else vmm_virt_to_phys asp a v))))"
proof (cases "has (fault_pte asp fa v) VMM_PAGE_PRESENT \<and> has (fault_pte asp fa v) VMM_PAGE_COW")
  case False
  then show ?thesis using cow_fault_refused [OF assms(2)] assms(3) by auto
next
  case True
  then have e: "has (fault_pte asp fa v) VMM_PAGE_PRESENT" "has (fault_pte asp fa v) VMM_PAGE_COW"
    by simp_all
  show ?thesis
  proof (cases "fault_shares asp fa v \<le> 1")
    case le: True
    from cow_reuse [OF assms(1,2) e le] assms(3)
    have c: "r = 0" "vm_pmm v' = vm_pmm v" "vm_ok v' (as_pml4_phys asp)"
      "mapped_as (as_pml4_phys asp) fa ((fault_pte asp fa v OR VMM_PAGE_WRITE) AND NOT VMM_PAGE_COW) v v'"
      "\<And>q. vpath q \<Longrightarrow> no_huge (vm_mem v') (as_pml4_phys asp) q = no_huge (vm_mem v) (as_pml4_phys asp) q"
      "\<forall>f. data_frame v (as_pml4_phys asp) f \<longrightarrow> vm_mem v' f = vm_mem v f" by auto
    note ent = reuse_entry [OF e(1)]
    have fp: "fault_pte asp fa v' = (fault_pte asp fa v OR VMM_PAGE_WRITE) AND NOT VMM_PAGE_COW"
      using c(4) by (simp add: mapped_as_def fault_pte_def)
    have "vmm_virt_to_phys asp a v' = (if vpn a = vpn fa
        then pte_frame (fault_pte asp fa v) OR (a AND 0xFFF) else vmm_virt_to_phys asp a v)"
      if "no_huge (vm_mem v) (as_pml4_phys asp) (vpath_of a)" for a
      using mapped_as_virt_to_phys [OF c(4) refl that] c(5) that ent by simp
    moreover have "\<not> 1 < fault_shares asp fa v" using le by simp
    ultimately show ?thesis using c e ent fp by auto
  next
    case gt: False
    then have n: "1 < fault_shares asp fa v" by simp
    show ?thesis
    proof (cases "free_frames (vm_pmm v) = {}")
      case True
      then show ?thesis using cow_no_frame [OF assms(1,2) e n] assms(3) n by simp
    next
      case False
      from cow_copy [OF assms(1,2) e n False] assms(3) obtain p where
        c: "r = 0" "p < 65536" "mapped_as (as_pml4_phys asp) fa
          (((fault_pte asp fa v AND 0xFFF) OR phys_of_page p OR VMM_PAGE_WRITE) AND NOT VMM_PAGE_COW) v v'"
        by auto
      have fp: "fault_pte asp fa v' =
          ((fault_pte asp fa v AND 0xFFF) OR phys_of_page p OR VMM_PAGE_WRITE) AND NOT VMM_PAGE_COW"
        using c(3) by (simp add: mapped_as_def fault_pte_def)
      have "has (fault_pte asp fa v') VMM_PAGE_WRITE" unfolding fp by (rule copy_entry [OF c(2) e(1)])
      then show ?thesis using c(1) e False gt by simp
    qed
  qed
qed

theorem cow_fault_refused_or_reused_witness:
  "fst (vmm_handle_cow_fault demo_as 0x123 (cow_vm 1)) = 0 \<and>
   vmm_virt_to_phys demo_as 0x123 (snd (vmm_handle_cow_fault demo_as 0x123 (cow_vm 1))) = 0x7123 \<and>
   vmm_handle_cow_fault demo_as 0x123 demo_vm = (-1, demo_vm)"
proof -
  note f = cow_vm_facts [of 1]
  have "\<not> has (fault_pte demo_as 0x123 demo_vm) VMM_PAGE_PRESENT"
    by (simp add: fault_pte_def pte_def vpath_of_def demo_vm_def)
  with cow_fault_refused_or_reused [OF demo_vm_ok demo_vm_no_huge prod.collapse [symmetric], of "0x123"]
  have "vmm_handle_cow_fault demo_as 0x123 demo_vm = (-1, demo_vm)" by (simp add: prod_eq_iff)
  moreover note cow_fault_refused_or_reused [OF f(1,2) prod.collapse [symmetric]] f(2)
  ultimately show ?thesis unfolding f by simp
qed

text \<open>
  C10. Demand paging. A not-present fault inside a registered anonymous region is serviced by
  mapping a frame that was free, filled with zeroes, at the faulting page: afterwards the fault
  address translates to that frame plus the page offset, every other address as before, and no
  data frame has changed. It fails (-1) only when fewer than four frames are free, and then no
  translation changes and the frame taken for the page is back in the allocator.
\<close>

theorem demand_paging:
  assumes "vm_ok v (as_pml4_phys asp)" and "no_huge (vm_mem v) (as_pml4_phys asp) (vpath_of fa)"
    and "\<not> has ec 1" and "vmm_anon_region_find asp fa = Some rg" and "flags_only (rg_flags rg)"
    and "vmm_handle_page_fault (Some asp) fa ec v = (r, cur, v')"
  shows "\<exists>asp'. cur = Some asp' \<and> vm_ok v' (as_pml4_phys asp') \<and> (r = 0 \<or> r = -1) \<and>
    (4 \<le> card (free_frames (vm_pmm v)) \<longrightarrow> r = 0) \<and>
    (\<forall>f. data_frame v (as_pml4_phys asp) f \<longrightarrow> vm_mem v' f = vm_mem v f) \<and>
    (r = 0 \<longrightarrow> (\<exists>p\<in>free_frames (vm_pmm v). p \<notin> free_frames (vm_pmm v') \<and>
        vm_mem v' (phys_of_page p) = (\<lambda>_. 0) \<and>
        vmm_virt_to_phys asp' fa v' = phys_of_page p OR (fa AND 0xFFF))) \<and>
    (\<forall>a. no_huge (vm_mem v) (as_pml4_phys asp) (vpath_of a) \<longrightarrow> r = -1 \<or> vpn a \<noteq> vpn fa \<longrightarrow>
        vmm_virt_to_phys asp' a v' = vmm_virt_to_phys asp a v)"
proof -
  define v1 where "v1 = v\<lparr>vm_stats := (vm_stats v)\<lparr>page_faults := page_faults (vm_stats v) + 1\<rparr>\<rparr>"
  have v1: "vm_mem v1 = vm_mem v" "vm_pmm v1 = vm_pmm v" "vm_ok v1 (as_pml4_phys asp)"
    "data_frame v1 root f = data_frame v root f" "vmm_virt_to_phys asp a v1 = vmm_virt_to_phys asp a v"
    for root f a using assms(1) by (simp_all add: v1_def)
  have inv: "pmm_inv (vm_pmm v)" using assms(1) by (simp add: vm_ok_def)
  have nh1: "no_huge (vm_mem v1) (as_pml4_phys asp) (vpath_of fa)" using assms(2) v1 by simp
  from inv show ?thesis
  proof (cases rule: pmm_alloc_cases)
    case none
    with assms(3,4,6) v1 have "r = -1" "cur = Some asp" "v' = v1\<lparr>vm_pmm := vm_pmm v\<rparr>"
      by (auto simp: vmm_handle_page_fault_def v1_def Let_def)
    moreover have "v1\<lparr>vm_pmm := vm_pmm v\<rparr> = v1" using v1(2) by simp
    ultimately show ?thesis using none v1 by simp
  next
    case (some p s')
    obtain r2 asp2 v2 where m: "vmm_map_page asp (fa AND NOT (VMM_PAGE_SIZE - 1)) (phys_of_page p)
        (rg_flags rg) (v1\<lparr>vm_pmm := s', vm_mem := (vm_mem v1)(phys_of_page p := (\<lambda>_. 0))\<rparr>) = (r2, asp2, v2)"
      using prod_cases3 by blast
    have out: "(r, cur, v') = (if r2 \<noteq> 0
        then (-1, Some asp2, v2\<lparr>vm_pmm := pmm_free_page (phys_of_page p) (vm_pmm v2)\<rparr>) else (0, Some asp2, v2))"
      using assms(3,4,6) some(1,5) m [unfolded v1(1)] v1(2)
      by (simp add: vmm_handle_page_fault_def v1_def [symmetric] del: fun_upd_apply split: if_splits)
    have al1: "pmm_alloc_page (vm_pmm v1) = (phys_of_page p, s')" "p \<in> free_frames (vm_pmm v1)"
      "free_frames s' = free_frames (vm_pmm v1) - {p}" using some v1(2) by simp_all
    note dp = demand_page [OF v1(3) nh1 al1 some(4) m assms(5) some(6)]
    have pm: "p \<in> managed_frames (vm_pmm v2)"
      using free_frames_managed [OF inv] some(2) dp(8) v1(2) by (auto simp: managed_frames_def)
    have np: "p \<notin> free_frames (vm_pmm v2)" using dp(3) by (auto simp: data_frame_def free_addrs_def)
    show ?thesis
    proof (cases "r2 = 0")
      case True
      then have "r = 0" "cur = Some asp2" "v' = v2" using out by simp_all
      then show ?thesis using True dp v1 some(2) np assms(2) by auto
    next
      case False
      then have o: "r = -1" "cur = Some asp2" "v' = v2\<lparr>vm_pmm := pmm_free_page (phys_of_page p) (vm_pmm v2)\<rparr>"
        using out by simp_all
      then show ?thesis
        using False dp v1 vm_ok_release [OF dp(1,3) pm] by auto
    qed
  qed
qed

theorem demand_paging_witness:
  "\<exists>asp' v'. vmm_handle_page_fault (Some roomy_space) 0x400123 4 roomy_vm = (0, Some asp', v') \<and>
     vmm_virt_to_phys asp' 0x400123 v' \<noteq> 0 \<and> vmm_virt_to_phys asp' 0x123 v' = 0"
proof -
  obtain r cur v' where res: "vmm_handle_page_fault (Some roomy_space) 0x400123 4 roomy_vm = (r, cur, v')"
    using prod_cases3 by blast
  have find: "vmm_anon_region_find roomy_space 0x400123 =
      Some \<lparr>rg_start = 0x400000, rg_end = 0x402000, rg_flags = 6\<rparr>"
    by (simp add: vmm_anon_region_find_def roomy_space_def demo_space_def)
  have fl: "flags_only (rg_flags \<lparr>rg_start = 0x400000, rg_end = 0x402000, rg_flags = 6\<rparr>)" "\<not> has 4 1"
    by (simp_all add: flags_only_def VMM_PTE_PHYS_MASK_def has_def)
  have other: "vpn 0x123 \<noteq> vpn 0x400123" by (simp add: vpn_def)
  from demand_paging [OF roomy_facts(1,2) fl(2) find fl(1) res] roomy_facts(2) [of "0x123"] other
  obtain asp' p where a: "cur = Some asp'" "r = 0" "p \<in> {1, 2, 3, 4}"
    "vmm_virt_to_phys asp' 0x400123 v' = phys_of_page p OR 0x123"
    "vmm_virt_to_phys asp' 0x123 v' = vmm_virt_to_phys roomy_space 0x123 roomy_vm"
    by (auto simp: roomy_facts(3))
  have "vmm_virt_to_phys roomy_space 0x123 roomy_vm = 0"
    by (simp add: vmm_virt_to_phys_def vmm_walk_pt_def roomy_vm_def demo_vm_def)
  with a res show ?thesis by (auto simp: phys_of_page_def PMM_PAGE_SIZE_def)
qed

text \<open>
  C11. How sharing is counted across a fork. Cloning a writable user page whose frame was never
  counted (count 0, the state every frame leaves the allocator in) makes both entries
  copy-on-write mappings of the same frame and counts one share, not two. The next write fault
  through the source mapping is therefore served in place: the writer gets a
  writable mapping of a frame the clone still maps, so it is not isolated from the clone.
\<close>

theorem fork_first_writer_not_isolated:
  assumes "has (vm_mem v src i) VMM_PAGE_PRESENT" and "has (vm_mem v src i) VMM_PAGE_USER"
    and "has (vm_mem v src i) VMM_PAGE_WRITE" and "\<not> has (vm_mem v src i) VMM_PAGE_HUGE"
    and "dst \<noteq> src" and "f = pte_frame (vm_mem v src i)"
    and "pfn_from_phys f < PMM_REFCOUNT_MAX_PAGES" and "pmm_frame_refcount_get f (vm_refcounts v) = 0"
    and "clone_pt_into 0 [i] dst src v = (r, v1)"
    and "vmm_walk_to_leaf (vm_mem v1) (as_pml4_phys asp) fa = Some (src, i)"
    and "vmm_handle_cow_fault asp fa v1 = (r2, v2)"
  shows "r = 0 \<and> vm_mem v1 src i = vm_mem v1 dst i \<and> pmm_frame_refcount_get f (vm_refcounts v1) = 1 \<and>
    r2 = 0 \<and> vm_pmm v2 = vm_pmm v1 \<and>
    has (vm_mem v2 src i) VMM_PAGE_WRITE \<and> pte_frame (vm_mem v2 src i) = f \<and>
    has (vm_mem v2 dst i) VMM_PAGE_PRESENT \<and> pte_frame (vm_mem v2 dst i) = f"
proof -
  let ?s = "vm_mem v src i"
  let ?c = "(?s OR VMM_PAGE_COW) AND NOT VMM_PAGE_WRITE"
  have b: "bit ?c n = (n < 64 \<and> (bit ?s n \<or> n = 9) \<and> n \<noteq> 1)" for n
    unfolding bit_and_iff bit_or_iff bit_not_iff flag_bits possible_bit_def
    by (auto dest: bit_imp_le_length)
  have c: "has ?c VMM_PAGE_PRESENT" "has ?c VMM_PAGE_COW" "pte_frame ?c = f"
    using assms(1,6) by (simp_all add: has_bits b) (auto intro!: bit_eqI simp: pte_frame_bit b)
  have v1: "r = 0" "vm_mem v1 = mem_upd src i ?c (mem_upd dst i ?c (vm_mem v))"
    "vm_refcounts v1 = pmm_frame_refcount_inc f (vm_refcounts v)"
    using assms(1-4,9) unfolding assms(6) by (auto simp: Let_def)
  have e1: "vm_mem v1 src i = ?c" "vm_mem v1 dst i = ?c"
    using assms(5) by (simp_all add: v1 mem_upd_def)
  have one: "pmm_frame_refcount_get f (vm_refcounts v1) = 1"
    using assms(7,8) by (simp add: v1 pmm_frame_refcount_get_def pmm_frame_refcount_inc_def Let_def)
  then have "fst (pmm_frame_refcount_dec f (vm_refcounts v1)) = 0"
    using refcount_dec_inc(2) [of f "vm_refcounts v1"] by simp
  then have v2: "r2 = 0" "vm_pmm v2 = vm_pmm v1"
      "vm_mem v2 = mem_upd src i ((?c OR VMM_PAGE_WRITE) AND NOT VMM_PAGE_COW) (vm_mem v1)"
    using assms(10,11) c one e1
    by (auto simp: vmm_handle_cow_fault_def vmm_cow_decide_def Let_def split_beta)
  have "has (vm_mem v2 src i) VMM_PAGE_WRITE" "pte_frame (vm_mem v2 src i) = f"
    using reuse_entry [OF c(1)] c(3) by (simp_all add: v2 mem_upd_def)
  moreover have "vm_mem v2 dst i = ?c" using assms(5) e1 by (simp add: v2 mem_upd_def)
  ultimately show ?thesis using v1(1) v2(1,2) e1 one c by simp
qed

text \<open>A page table in frame 8 with a writable user page at index 0, its clone in frame 9.\<close>

definition fork_vm :: vmm where
  "fork_vm = (cow_vm 0)\<lparr>vm_mem := mem_upd 0x8000 0 0x7007 cow_mem\<rparr>"

theorem fork_first_writer_not_isolated_witness:
  "has (vm_mem (snd (vmm_handle_cow_fault demo_as 0 (snd (clone_pt_into 0 [0] 0x9000 0x8000 fork_vm)))) 0x8000 0)
     VMM_PAGE_WRITE \<and>
   pte_frame (vm_mem (snd (vmm_handle_cow_fault demo_as 0 (snd (clone_pt_into 0 [0] 0x9000 0x8000 fork_vm)))) 0x9000 0)
     = 0x7000"
proof -
  have s: "vm_mem fork_vm 0x8000 0 = 0x7007" by (simp add: fork_vm_def mem_upd_def)
  have w: "has 0x7007 VMM_PAGE_PRESENT" "has 0x7007 VMM_PAGE_USER" "has 0x7007 VMM_PAGE_WRITE"
      "\<not> has 0x7007 VMM_PAGE_HUGE" "0x7000 = pte_frame 0x7007"
    by (simp_all add: has_def vmm_flag_defs pte_frame_def VMM_PTE_PHYS_MASK_def)
  have c: "pfn_from_phys 0x7000 < PMM_REFCOUNT_MAX_PAGES"
      "pmm_frame_refcount_get 0x7000 (vm_refcounts fork_vm) = 0"
    by (simp_all add: pfn_from_phys_def PMM_REFCOUNT_MAX_PAGES_def pmm_frame_refcount_get_def fork_vm_def cow_vm_def)
  have walk: "vmm_walk_to_leaf (vm_mem (snd (clone_pt_into 0 [0] 0x9000 0x8000 fork_vm)))
      (as_pml4_phys demo_as) 0 = Some (0x8000, 0)"
    using w by (simp add: fork_vm_def mem_upd_def vmm_walk_to_leaf_def tbl_idx_def demo_as_def Let_def)
  note T = fork_first_writer_not_isolated [where v = fork_vm and src = "0x8000" and dst = "0x9000" and i = 0
      and f = "0x7000" and asp = demo_as and fa = 0, unfolded s, OF w(1-4) _ w(5) c prod.collapse [symmetric] walk
      prod.collapse [symmetric]]
  then show ?thesis by simp
qed

end
