(* ===== verification/VmSpace.thy ===== *)
theory VmSpace
  imports VmmFault
begin

text \<open>
  Address spaces: the rest of \<^verbatim>\<open>memory/vmm.c\<close> (the kernel's own tables, creation, copy-on-write clone and
  destruction of address spaces, the switch of CR3), \<^verbatim>\<open>vmm_active.c\<close> and \<^verbatim>\<open>vmm_mmio.c\<close>.

  The state adds to the \<open>vmm\<close> record the CR3 register, the structs \<^verbatim>\<open>vmm_address_space\<close> by their address
  (\<open>vs_spaces\<close>; \<open>vs_kernel_as\<close> is the address of the static \<^verbatim>\<open>kernel_as\<close>) and the device window. The
  address that \<^verbatim>\<open>kmalloc\<close> returns for a new struct is an argument. TLB maintenance is not modelled.
  The walk of \<^verbatim>\<open>vmm_destroy_address_space\<close> does not change any table, which is the key to its
  exact specification.
\<close>

subsection \<open>State\<close>

record vms =
  vs_vm :: vmm
  vs_kernel_as :: u64
  vs_kernel_tables_built :: bool
  vs_cr3 :: u64
  vs_spaces :: "u64 \<Rightarrow> vmm_address_space option"
  vs_device_base :: u64
  vs_device_used :: u64
  vs_device_gate :: bool

definition VMM_LOW_KERNEL_CLONE_BASE :: u64 where "VMM_LOW_KERNEL_CLONE_BASE = 0x4000000"
definition VMM_KERNEL_IDMAP_GIB :: nat where "VMM_KERNEL_IDMAP_GIB = 16"
definition VMM_PARENT_TABLE_FLAG_MASK :: u64 where
  "VMM_PARENT_TABLE_FLAG_MASK = NOT (VMM_PTE_PHYS_MASK OR VMM_PAGE_HUGE OR VMM_PAGE_NX)"
definition DEVICE_WINDOW_BYTES :: u64 where "DEVICE_WINDOW_BYTES = 64 * 1024 * 1024"
definition DEVICE_MAPPING_MAX :: u64 where "DEVICE_MAPPING_MAX = 16 * 1024 * 1024"

text \<open>The static struct \<^verbatim>\<open>kernel_as\<close>, and a frame filled with zeroes for a table.\<close>

definition kernel_as :: "vms \<Rightarrow> vmm_address_space" where
  "kernel_as s = the (vs_spaces s (vs_kernel_as s))"

definition fresh_table :: "vmm \<Rightarrow> u64 \<times> vmm" where
  "fresh_table v =
     (let (p, q) = pmm_alloc_page (vm_pmm v) in
      if p = 0 then (0, v\<lparr>vm_pmm := q\<rparr>) else (p, v\<lparr>vm_pmm := q, vm_mem := (vm_mem v)(p := (\<lambda>_. 0))\<rparr>))"

definition free_frame :: "u64 \<Rightarrow> vmm \<Rightarrow> vmm" where
  "free_frame f v = v\<lparr>vm_pmm := pmm_free_page f (vm_pmm v)\<rparr>"

subsection \<open>The low half of a new address space (\<^verbatim>\<open>clone_table_for_user_as\<close>)\<close>

definition vmm_level_span :: "nat \<Rightarrow> u64" where
  "vmm_level_span level = (if level = 3 then 2 ^ 30 else if level = 2 then 2 ^ 21 else VMM_PAGE_SIZE)"

text \<open>The table that a huge entry below the kernel image is split into.\<close>

definition split_huge :: "nat \<Rightarrow> u64 \<Rightarrow> nat \<Rightarrow> u64" where
  "split_huge level entry =
     (let leaf_flags = entry AND NOT (VMM_PTE_PHYS_MASK OR VMM_PAGE_HUGE);
          leaf_phys_base = entry AND VMM_PTE_PHYS_MASK;
          span = vmm_level_span (level - 1)
      in (\<lambda>k. (leaf_flags OR (leaf_phys_base + of_nat k * span)) OR
               (if level - 1 > 1 then VMM_PAGE_HUGE else 0)))"

definition undo_entries :: "u64 \<Rightarrow> nat \<Rightarrow> vmm \<Rightarrow> vmm" where
  "undo_entries dst i v =
     fold (\<lambda>j v. let old = vm_mem v dst j in
        if has old VMM_PAGE_PRESENT \<and> \<not> has old VMM_PAGE_HUGE \<and> has old VMM_PAGE_USER
        then free_frame (pte_frame old) v else v) [0..<i] v"

text \<open>The loop over the entries; the list holds the indices still to visit. The result is the table or 0.\<close>

fun clone_entries :: "nat \<Rightarrow> nat list \<Rightarrow> u64 \<Rightarrow> u64 \<Rightarrow> u64 \<Rightarrow> vmm \<Rightarrow> u64 \<times> vmm" where
  "clone_entries level [] src dst base_virt v = (dst, v)"
| "clone_entries level (i # is) src dst base_virt v =
     (let entry = vm_mem v src i;
          entry_base = base_virt + of_nat i * vmm_level_span level in
      if \<not> has entry VMM_PAGE_PRESENT then clone_entries level is src dst base_virt v
      else if level \<le> 1 \<or> has entry VMM_PAGE_HUGE then
        (if entry_base < VMM_LOW_KERNEL_CLONE_BASE \<and> level > 1 \<and> has entry VMM_PAGE_HUGE then
           (let (child, q) = pmm_alloc_page (vm_pmm v) in
            if child = 0 then (0, v\<lparr>vm_pmm := q\<rparr>)
            else
              (let v1 = v\<lparr>vm_pmm := q, vm_mem := (vm_mem v)(child := split_huge level entry)\<rparr>;
                   (dst2, v2) = fresh_table v1;
                   (new_child, v3) = (if dst2 = 0 then (0, v2)
                      else clone_entries (level - 1) [0..<512]
                             (pte_frame (child OR VMM_PAGE_PRESENT OR VMM_PAGE_WRITE)) dst2 entry_base v2)
               in if new_child = 0 then (0, free_frame child v3)
                  else
                    (let v4 = free_frame child v3;
                         e = (entry AND VMM_PARENT_TABLE_FLAG_MASK) OR new_child OR VMM_PAGE_USER
                     in clone_entries level is src dst base_virt (v4\<lparr>vm_mem := mem_upd dst i e (vm_mem v4)\<rparr>))))
         else clone_entries level is src dst base_virt (v\<lparr>vm_mem := mem_upd dst i entry (vm_mem v)\<rparr>))
      else
        (let (dst2, v2) = fresh_table v;
             (child, v3) = (if dst2 = 0 then (0, v2)
                else clone_entries (level - 1) [0..<512] (pte_frame entry) dst2 entry_base v2)
         in if child = 0 then (0, free_frame dst (undo_entries dst i v3))
            else
              (let e = (entry AND VMM_PARENT_TABLE_FLAG_MASK) OR child OR VMM_PAGE_USER
               in clone_entries level is src dst base_virt (v3\<lparr>vm_mem := mem_upd dst i e (vm_mem v3)\<rparr>))))"

definition clone_table_for_user_as :: "u64 \<Rightarrow> nat \<Rightarrow> u64 \<Rightarrow> vmm \<Rightarrow> u64 \<times> vmm" where
  "clone_table_for_user_as src_phys level base_virt v =
     (let (dst, v1) = fresh_table v in
      if dst = 0 then (0, v1)
      else clone_entries level [0..<512] (pte_frame src_phys) dst base_virt v1)"

subsection \<open>The kernel's tables (\<^verbatim>\<open>vmm_build_kernel_tables\<close>, \<^verbatim>\<open>vmm_init\<close>) and the device window\<close>

definition vmm_prepare_device_window :: "u64 \<Rightarrow> vms \<Rightarrow> int \<times> vms" where
  "vmm_prepare_device_window pml4 s =
     (if pml4 = 0 \<or> vs_device_base s \<noteq> 0 then (-1, s)
      else case find (\<lambda>i. vm_mem (vs_vm s) pml4 i = 0) [384..<448] of
        None \<Rightarrow> (-1, s)
      | Some slot \<Rightarrow>
          (let (physical, v1) = fresh_table (vs_vm s) in
           if physical = 0 then (-1, s\<lparr>vs_vm := v1\<rparr>)
           else (0, s\<lparr>vs_vm := v1\<lparr>vm_mem := mem_upd pml4 slot (physical OR VMM_PAGE_PRESENT OR VMM_PAGE_WRITE) (vm_mem v1)\<rparr>,
                      vs_device_base := 0xffff000000000000 OR push_bit 39 (of_nat slot)\<rparr>)))"

definition huge_entry :: "nat \<Rightarrow> nat \<Rightarrow> u64" where
  "huge_entry g i = (of_nat g * 2 ^ 30 + of_nat i * 2 ^ 21) OR VMM_PAGE_PRESENT OR VMM_PAGE_WRITE OR VMM_PAGE_HUGE"

fun build_pds :: "nat list \<Rightarrow> u64 \<Rightarrow> vmm \<Rightarrow> bool \<times> vmm" where
  "build_pds [] pdpt v = (True, v)"
| "build_pds (g # gs) pdpt v =
     (let (pd, q) = pmm_alloc_page (vm_pmm v) in
      if pd = 0 then (False, v\<lparr>vm_pmm := q\<rparr>)
      else build_pds gs pdpt
        (v\<lparr>vm_pmm := q,
           vm_mem := mem_upd pdpt g (pd OR VMM_PAGE_PRESENT OR VMM_PAGE_WRITE)
             ((vm_mem v)(pd := (\<lambda>i. if i < 512 then huge_entry g i else vm_mem v pd i)))\<rparr>))"

definition vmm_build_kernel_tables :: "vms \<Rightarrow> u64 \<times> vms" where
  "vmm_build_kernel_tables s =
     (let fw_pml4 = pte_frame (vs_cr3 s);
          (pml4, v1) = fresh_table (vs_vm s) in
      if pml4 = 0 then (0, s\<lparr>vs_vm := v1\<rparr>)
      else
        (let v2 = v1\<lparr>vm_mem := (vm_mem v1)(pml4 := (\<lambda>i. if 256 \<le> i \<and> i < 512 then vm_mem v1 fw_pml4 i
                                                         else vm_mem v1 pml4 i))\<rparr>;
             (pdpt, v3) = fresh_table v2 in
         if pdpt = 0 then (0, s\<lparr>vs_vm := v3\<rparr>)
         else
           (let v4 = v3\<lparr>vm_mem := mem_upd pml4 0 (pdpt OR VMM_PAGE_PRESENT OR VMM_PAGE_WRITE) (vm_mem v3)\<rparr>;
                (ok, v5) = build_pds [0..<VMM_KERNEL_IDMAP_GIB] pdpt v4 in
            if \<not> ok then (0, s\<lparr>vs_vm := v5\<rparr>)
            else (pml4, snd (vmm_prepare_device_window pml4 (s\<lparr>vs_vm := v5\<rparr>))))))"

definition vmm_init :: "vms \<Rightarrow> vms" where
  "vmm_init s =
     (let s1 = (if \<not> vs_kernel_tables_built s then
                  (let (new_pml4, s0) = vmm_build_kernel_tables s;
                       root = (if new_pml4 \<noteq> 0 then new_pml4 else vs_cr3 s0 AND NOT 0xFFF)
                   in s0\<lparr>vs_cr3 := (if new_pml4 \<noteq> 0 then new_pml4 else vs_cr3 s0),
                         vs_spaces := (vs_spaces s0)(vs_kernel_as s0 \<mapsto> (kernel_as s0)\<lparr>as_pml4_phys := root\<rparr>),
                         vs_kernel_tables_built := True\<rparr>)
                else s)
      in s1\<lparr>vs_spaces := (vs_spaces s1)(vs_kernel_as s1 \<mapsto> (kernel_as s1)\<lparr>as_refcount := 1\<rparr>),
            vs_vm := (vs_vm s1)\<lparr>vm_stats := \<lparr>kernel_mapped_pages = 0, user_mapped_pages = 0, page_faults = 0, cow_faults = 0\<rparr>\<rparr>\<rparr>)"

subsection \<open>Creation\<close>

definition vmm_create_address_space :: "u64 option \<Rightarrow> vms \<Rightarrow> u64 option \<times> vms" where
  "vmm_create_address_space node s =
     (case node of None \<Rightarrow> (None, s)
      | Some as_ptr \<Rightarrow>
          (let (pml4, v1) = fresh_table (vs_vm s) in
           if pml4 = 0 then (None, s\<lparr>vs_vm := v1\<rparr>)
           else
             (let kpml4 = as_pml4_phys (kernel_as s);
                  e0 = vm_mem v1 kpml4 0;
                  (failed, v2) =
                    (if has e0 VMM_PAGE_PRESENT then
                       (let (low_clone, v) = clone_table_for_user_as e0 3 0 v1 in
                        if low_clone = 0 then (True, free_frame pml4 v)
                        else (False, v\<lparr>vm_mem := mem_upd pml4 0
                               ((vm_mem v kpml4 0 AND VMM_PARENT_TABLE_FLAG_MASK) OR low_clone OR VMM_PAGE_USER) (vm_mem v)\<rparr>))
                     else (False, v1))
              in if failed then (None, s\<lparr>vs_vm := v2\<rparr>)
                 else
                   (let v3 = v2\<lparr>vm_mem := (vm_mem v2)(pml4 := (\<lambda>i. if 256 \<le> i \<and> i < 512 then vm_mem v2 kpml4 i
                                                                   else vm_mem v2 pml4 i))\<rparr>
                    in (Some as_ptr, s\<lparr>vs_vm := v3,
                          vs_spaces := (vs_spaces s)(as_ptr \<mapsto> \<lparr>as_pml4_phys = pml4, as_refcount = 1,
                             as_rss_pages = 0, as_anon_regions = []\<rparr>)\<rparr>)))))"

subsection \<open>Destruction\<close>

definition VMM_CR3_PHYS_MASK :: u64 where "VMM_CR3_PHYS_MASK = 0x000FFFFFFFFFF000"

definition vmm_address_space_is_active :: "u64 option \<Rightarrow> vms \<Rightarrow> bool" where
  "vmm_address_space_is_active ptr s =
     (case ptr of None \<Rightarrow> False
      | Some p \<Rightarrow> (case vs_spaces s p of None \<Rightarrow> False
         | Some asp \<Rightarrow> as_pml4_phys asp \<noteq> 0 \<and>
             vs_cr3 s AND VMM_CR3_PHYS_MASK = as_pml4_phys asp AND VMM_CR3_PHYS_MASK))"

definition release_leaf :: "u64 \<Rightarrow> vmm \<Rightarrow> vmm" where
  "release_leaf leaf_phys v =
     (let pre = pmm_frame_refcount_get leaf_phys (vm_refcounts v) in
      if pre = 0 then free_frame leaf_phys v
      else (let (after, rc) = pmm_frame_refcount_dec leaf_phys (vm_refcounts v);
                v1 = v\<lparr>vm_refcounts := rc\<rparr>
            in if after = 0 then free_frame leaf_phys v1 else v1))"

definition destroy_pt :: "u64 \<Rightarrow> vmm \<Rightarrow> vmm" where
  "destroy_pt pt v =
     fold (\<lambda>l v. let e = vm_mem v pt l in
        if has e VMM_PAGE_PRESENT \<and> has e VMM_PAGE_USER then release_leaf (pte_frame e) v else v) [0..<512] v"

text \<open>One entry of a page directory or a directory pointer table; \<open>sub\<close> tears the table below down.\<close>

definition destroy_entry :: "(u64 \<Rightarrow> vmm \<Rightarrow> vmm) \<Rightarrow> u64 \<Rightarrow> vmm \<Rightarrow> vmm" where
  "destroy_entry sub e v =
     (if \<not> has e VMM_PAGE_PRESENT then v
      else if has e VMM_PAGE_HUGE then (if has e VMM_PAGE_USER then free_frame (pte_frame e) v else v)
      else if \<not> has e VMM_PAGE_USER then v
      else free_frame (pte_frame e) (sub (pte_frame e) v))"

definition destroy_pd :: "u64 \<Rightarrow> vmm \<Rightarrow> vmm" where
  "destroy_pd pd v = fold (\<lambda>k v. destroy_entry destroy_pt (vm_mem v pd k) v) [0..<512] v"

definition destroy_pdpt :: "u64 \<Rightarrow> vmm \<Rightarrow> vmm" where
  "destroy_pdpt pdpt v = fold (\<lambda>j v. destroy_entry destroy_pd (vm_mem v pdpt j) v) [0..<512] v"

definition destroy_pml4 :: "u64 \<Rightarrow> vmm \<Rightarrow> vmm" where
  "destroy_pml4 pml4 v =
     fold (\<lambda>i v. let e = vm_mem v pml4 i in
        if \<not> has e VMM_PAGE_PRESENT then v
        else if \<not> has e VMM_PAGE_USER then v
        else free_frame (pte_frame e) (destroy_pdpt (pte_frame e) v)) [0..<256] v"

definition vmm_destroy_address_space :: "u64 option \<Rightarrow> vms \<Rightarrow> vms" where
  "vmm_destroy_address_space ptr s =
     (case ptr of None \<Rightarrow> s
      | Some p \<Rightarrow>
          if p = vs_kernel_as s then s
          else if vmm_address_space_is_active (Some p) s then s
          else case vs_spaces s p of None \<Rightarrow> s
          | Some asp \<Rightarrow>
              (let asp1 = asp\<lparr>as_refcount := as_refcount asp - 1\<rparr> in
               if as_refcount asp1 > 0 then s\<lparr>vs_spaces := (vs_spaces s)(p \<mapsto> asp1)\<rparr>
               else s\<lparr>vs_vm := free_frame (as_pml4_phys asp) (destroy_pml4 (as_pml4_phys asp) (vs_vm s)),
                      vs_spaces := (vs_spaces s)(p := None)\<rparr>))"

subsection \<open>The copy-on-write clone\<close>

fun clone_pml4 :: "nat list \<Rightarrow> u64 \<Rightarrow> u64 \<Rightarrow> vmm \<Rightarrow> bool \<times> vmm" where
  "clone_pml4 [] src dst v = (True, v)"
| "clone_pml4 (i # is) src dst v =
     (let e = vm_mem v src i in
      if \<not> has e VMM_PAGE_PRESENT then clone_pml4 is src dst v
      else
        (let (pdpt, v1) = fresh_table v in
         if pdpt = 0 then (False, v1)
         else
           (let v2 = v1\<lparr>vm_mem := mem_upd dst i (pdpt OR (e AND 0xFFF)) (vm_mem v1)\<rparr>;
                (r, v3) = clone_pt_into 2 [0..<512] pdpt (pte_frame e) v2
            in if r \<noteq> 0 then (False, v3) else clone_pml4 is src dst v3)))"

definition vmm_clone_address_space :: "u64 option \<Rightarrow> u64 option \<Rightarrow> vms \<Rightarrow> u64 option \<times> vms" where
  "vmm_clone_address_space node src s =
     (case Option.bind src (vs_spaces s) of None \<Rightarrow> (None, s)
      | Some sasp \<Rightarrow>
          (case vmm_create_address_space node s of
             (None, s1) \<Rightarrow> (None, s1)
           | (Some dst, s1) \<Rightarrow>
               (let dasp = the (vs_spaces s1 dst);
                    (ok, v2) = clone_pml4 [0..<256] (as_pml4_phys sasp) (as_pml4_phys dasp) (vs_vm s1);
                    s2 = s1\<lparr>vs_vm := v2\<rparr>
                in if \<not> ok then (None, vmm_destroy_address_space (Some dst) s2)
                   else (Some dst, s2\<lparr>vs_spaces := (vs_spaces s2)(dst \<mapsto> dasp\<lparr>as_rss_pages := as_rss_pages sasp\<rparr>)\<rparr>))))"

subsection \<open>Switching\<close>

definition vmm_switch_address_space :: "u64 option \<Rightarrow> vms \<Rightarrow> vms" where
  "vmm_switch_address_space ptr s =
     (case Option.bind ptr (vs_spaces s) of None \<Rightarrow> s
      | Some asp \<Rightarrow> if vs_cr3 s AND NOT 0xFFF \<noteq> as_pml4_phys asp then s\<lparr>vs_cr3 := as_pml4_phys asp\<rparr> else s)"

definition vmm_enter_kernel_tables :: "vms \<Rightarrow> u64 \<times> vms" where
  "vmm_enter_kernel_tables s =
     (let kroot = as_pml4_phys (kernel_as s) in
      (vs_cr3 s, if vs_cr3 s AND NOT 0xFFF \<noteq> kroot AND NOT 0xFFF then s\<lparr>vs_cr3 := kroot\<rparr> else s))"

definition vmm_leave_kernel_tables :: "u64 \<Rightarrow> vms \<Rightarrow> vms" where
  "vmm_leave_kernel_tables prev s =
     (if vs_cr3 s AND NOT 0xFFF \<noteq> prev AND NOT 0xFFF then s\<lparr>vs_cr3 := prev\<rparr> else s)"

definition vmm_kernel_pml4_phys :: "vms \<Rightarrow> u64" where
  "vmm_kernel_pml4_phys s = as_pml4_phys (kernel_as s)"

subsection \<open>Device mappings (\<^verbatim>\<open>vmm_map_device\<close>)\<close>

definition VMM_PAGE_PWT :: u64 where "VMM_PAGE_PWT = push_bit 3 1"
definition VMM_PAGE_PCD :: u64 where "VMM_PAGE_PCD = push_bit 4 1"

definition vmm_map_device :: "u64 \<Rightarrow> u64 \<Rightarrow> vms \<Rightarrow> u64 option \<times> vms" where
  "vmm_map_device physical bytes s =
     (let physical_limit = 2 ^ 52 in
      if vs_device_base s = 0 \<or> physical = 0 \<or> bytes = 0 \<or> bytes > DEVICE_MAPPING_MAX \<or>
         physical \<ge> physical_limit \<or> bytes > physical_limit - physical then (None, s)
      else
        (let offset = physical AND (VMM_PAGE_SIZE - 1);
             span = (offset + bytes + VMM_PAGE_SIZE - 1) AND NOT (VMM_PAGE_SIZE - 1) in
         if vs_device_gate s then (None, s)
         else if span \<le> DEVICE_WINDOW_BYTES - vs_device_used s then
           (let address = vs_device_base s + vs_device_used s;
                pages = unat (span div VMM_PAGE_SIZE);
                (r, asp1, v1) = vmm_map_range (kernel_as s) address (physical - offset) pages
                  (VMM_PAGE_WRITE OR VMM_PAGE_PCD OR VMM_PAGE_PWT OR VMM_PAGE_NX) (vs_vm s);
                s1 = s\<lparr>vs_device_used := vs_device_used s + span\<rparr>
            in if r = 0
               then (Some (address + offset), s1\<lparr>vs_vm := v1, vs_spaces := (vs_spaces s)(vs_kernel_as s \<mapsto> asp1)\<rparr>)
               else (let (_, asp2, v2) = vmm_unmap_range asp1 address pages v1
                     in (None, s1\<lparr>vs_vm := v2, vs_spaces := (vs_spaces s)(vs_kernel_as s \<mapsto> asp2)\<rparr>)))
         else (None, s)))"

subsection \<open>What destruction releases\<close>

text \<open>The frames an address space owns, read off its tables level by level.\<close>

definition user_tables :: "(u64 \<Rightarrow> nat \<Rightarrow> u64) \<Rightarrow> u64 \<Rightarrow> u64 list" where
  "user_tables m t = map (\<lambda>i. pte_frame (m t i))
     (filter (\<lambda>i. has (m t i) VMM_PAGE_PRESENT \<and> has (m t i) VMM_PAGE_USER \<and> \<not> has (m t i) VMM_PAGE_HUGE) [0..<512])"

definition user_huge :: "(u64 \<Rightarrow> nat \<Rightarrow> u64) \<Rightarrow> u64 \<Rightarrow> u64 list" where
  "user_huge m t = map (\<lambda>i. pte_frame (m t i))
     (filter (\<lambda>i. has (m t i) VMM_PAGE_PRESENT \<and> has (m t i) VMM_PAGE_USER \<and> has (m t i) VMM_PAGE_HUGE) [0..<512])"

definition user_pages :: "nat \<Rightarrow> (u64 \<Rightarrow> nat \<Rightarrow> u64) \<Rightarrow> u64 \<Rightarrow> u64 list" where
  "user_pages n m t = map (\<lambda>i. pte_frame (m t i))
     (filter (\<lambda>i. has (m t i) VMM_PAGE_PRESENT \<and> has (m t i) VMM_PAGE_USER) [0..<n])"

definition owned_pdpts :: "(u64 \<Rightarrow> nat \<Rightarrow> u64) \<Rightarrow> u64 \<Rightarrow> u64 list" where
  "owned_pdpts m root = user_pages 256 m root"

definition owned_pds :: "(u64 \<Rightarrow> nat \<Rightarrow> u64) \<Rightarrow> u64 \<Rightarrow> u64 list" where
  "owned_pds m root = concat (map (user_tables m) (owned_pdpts m root))"

definition owned_pts :: "(u64 \<Rightarrow> nat \<Rightarrow> u64) \<Rightarrow> u64 \<Rightarrow> u64 list" where
  "owned_pts m root = concat (map (user_tables m) (owned_pds m root))"

definition owned_tables :: "(u64 \<Rightarrow> nat \<Rightarrow> u64) \<Rightarrow> u64 \<Rightarrow> u64 set" where
  "owned_tables m root = {root} \<union> set (owned_pdpts m root) \<union> set (owned_pds m root) \<union> set (owned_pts m root) \<union>
     (\<Union>t\<in>set (owned_pdpts m root) \<union> set (owned_pds m root). set (user_huge m t))"

text \<open>Every mapping of a page by a user entry, with repetitions.\<close>

definition mapped_pages :: "(u64 \<Rightarrow> nat \<Rightarrow> u64) \<Rightarrow> u64 \<Rightarrow> nat list" where
  "mapped_pages m root = map page_of_phys (concat (map (user_pages 512 m) (owned_pts m root)))"

text \<open>The walk as a list of releases.\<close>

datatype release = Give u64 | Drop u64

fun act :: "release \<Rightarrow> vmm \<Rightarrow> vmm" where
  "act (Give f) v = free_frame f v"
| "act (Drop f) v = release_leaf f v"

fun gives :: "release list \<Rightarrow> u64 set" where
  "gives [] = {}"
| "gives (Give f # xs) = insert f (gives xs)"
| "gives (Drop f # xs) = gives xs"

fun drops :: "release list \<Rightarrow> nat list" where
  "drops [] = []"
| "drops (Give f # xs) = drops xs"
| "drops (Drop f # xs) = page_of_phys f # drops xs"

definition shares :: "vmm \<Rightarrow> nat \<Rightarrow> nat" where
  "shares v p = (if p < PMM_REFCOUNT_MAX_PAGES then unat (vm_refcounts v p) else 0)"

lemma gives_append [simp]: "gives (xs @ ys) = gives xs \<union> gives ys"
  by (induction xs rule: gives.induct) auto

lemma drops_append [simp]: "drops (xs @ ys) = drops xs @ drops ys"
  by (induction xs rule: drops.induct) auto

lemma act_mem [simp]: "vm_mem (act a v) = vm_mem v" "vm_mem (free_frame f v) = vm_mem v" "vm_mem (release_leaf f v) = vm_mem v"
  by (cases a) (auto simp: free_frame_def release_leaf_def Let_def split: prod.split)

lemma fold_act_mem [simp]: "vm_mem (fold act xs v) = vm_mem v"
  by (induction xs arbitrary: v) auto

lemma pmm_free_page_wf:
  assumes "pmm_wf s"
  shows "pmm_wf (pmm_free_page a s)" and "pmm_total_pages (pmm_free_page a s) = pmm_total_pages s"
    and "free_frames (pmm_free_page a s) =
      free_frames s \<union> {p. p = page_of_phys a \<and> p < unat (pmm_total_pages s)}"
proof -
  let ?p = "page_of_phys a"
  have rel: "pmm_wf (release_page ?p s) \<and> pmm_total_pages (release_page ?p s) = pmm_total_pages s \<and>
      free_frames (release_page ?p s) = insert ?p (free_frames s)" if "?p < unat (pmm_total_pages s)"
  proof (cases "bitmap_test ?p s")
    case True
    then show ?thesis
      using pmm_wf_clear [OF assms that] free_frames_clear [OF that assms] by (simp add: release_page_def Let_def)
  next
    case False
    then have "?p \<in> free_frames s" using that by (simp add: free_frames_def)
    then show ?thesis using False assms by (simp add: release_page_def insert_absorb)
  qed
  show "pmm_wf (pmm_free_page a s)" "pmm_total_pages (pmm_free_page a s) = pmm_total_pages s"
    using rel assms by (cases "?p < unat (pmm_total_pages s)"; simp add: pmm_free_page_def)+
  show "free_frames (pmm_free_page a s) = free_frames s \<union> {p. p = ?p \<and> p < unat (pmm_total_pages s)}"
    using rel by (cases "?p < unat (pmm_total_pages s)") (auto simp: pmm_free_page_def)
qed

lemma page_of_phys_pfn: "pfn_from_phys a = page_of_phys a"
  by (simp add: pfn_from_phys_def page_of_phys_def PMM_PAGE_SIZE_def)

lemma release_leaf_cases:
  "release_leaf f v = (if shares v (page_of_phys f) \<le> 1
     then free_frame f (v\<lparr>vm_refcounts := vm_refcounts (release_leaf f v)\<rparr>)
     else v\<lparr>vm_refcounts := vm_refcounts (release_leaf f v)\<rparr>)"
  "shares (release_leaf f v) p = (if p = page_of_phys f then shares v p - 1 else shares v p)"
proof -
  let ?q = "page_of_phys f"
  consider "\<not> ?q < PMM_REFCOUNT_MAX_PAGES" | "?q < PMM_REFCOUNT_MAX_PAGES" "vm_refcounts v ?q = 0"
    | "?q < PMM_REFCOUNT_MAX_PAGES" "vm_refcounts v ?q \<noteq> 0" by blast
  then have "release_leaf f v = (if shares v ?q \<le> 1
     then free_frame f (v\<lparr>vm_refcounts := vm_refcounts (release_leaf f v)\<rparr>)
     else v\<lparr>vm_refcounts := vm_refcounts (release_leaf f v)\<rparr>) \<and>
     shares (release_leaf f v) p = (if p = ?q then shares v p - 1 else shares v p)"
  proof cases
    case 3
    then have u: "unat (vm_refcounts v ?q - 1) = unat (vm_refcounts v ?q) - 1" by (simp add: unat_minus_one)
    have z: "(vm_refcounts v ?q - 1 = 0) = (unat (vm_refcounts v ?q) \<le> 1)"
      using u 3(2) by (metis One_nat_def diff_is_0_eq unat_0 unat_eq_0)
    show ?thesis
      using 3 u z by (simp add: release_leaf_def pmm_frame_refcount_get_def pmm_frame_refcount_dec_def page_of_phys_pfn
          Let_def shares_def free_frame_def)
  qed (simp_all add: release_leaf_def pmm_frame_refcount_get_def page_of_phys_pfn shares_def free_frame_def)
  then show "release_leaf f v = (if shares v ?q \<le> 1
     then free_frame f (v\<lparr>vm_refcounts := vm_refcounts (release_leaf f v)\<rparr>)
     else v\<lparr>vm_refcounts := vm_refcounts (release_leaf f v)\<rparr>)"
    "shares (release_leaf f v) p = (if p = ?q then shares v p - 1 else shares v p)" by blast+
qed

lemma release_leaf_frames:
  assumes "pmm_wf (vm_pmm v)"
  shows "pmm_wf (vm_pmm (release_leaf f v))"
    and "pmm_total_pages (vm_pmm (release_leaf f v)) = pmm_total_pages (vm_pmm v)"
    and "free_frames (vm_pmm (release_leaf f v)) = free_frames (vm_pmm v) \<union>
      {p. p = page_of_phys f \<and> p < unat (pmm_total_pages (vm_pmm v)) \<and> shares v p \<le> 1}"
proof -
  have pm: "vm_pmm (release_leaf f v) =
      (if shares v (page_of_phys f) \<le> 1 then pmm_free_page f (vm_pmm v) else vm_pmm v)"
    by (subst release_leaf_cases(1)) (simp add: free_frame_def)
  show "pmm_wf (vm_pmm (release_leaf f v))"
    "pmm_total_pages (vm_pmm (release_leaf f v)) = pmm_total_pages (vm_pmm v)"
    using pmm_free_page_wf(1,2) [OF assms] assms by (simp_all add: pm)
  show "free_frames (vm_pmm (release_leaf f v)) = free_frames (vm_pmm v) \<union>
      {p. p = page_of_phys f \<and> p < unat (pmm_total_pages (vm_pmm v)) \<and> shares v p \<le> 1}"
    using pmm_free_page_wf(3) [OF assms, of f] by (auto simp: pm)
qed

lemma fold_act_frames:
  assumes "pmm_wf (vm_pmm v)"
  shows "pmm_wf (vm_pmm (fold act xs v)) \<and> pmm_total_pages (vm_pmm (fold act xs v)) = pmm_total_pages (vm_pmm v) \<and>
    free_frames (vm_pmm (fold act xs v)) = free_frames (vm_pmm v) \<union>
      {p. p < unat (pmm_total_pages (vm_pmm v)) \<and>
          (p \<in> page_of_phys ` gives xs \<or> max 1 (shares v p) \<le> count_list (drops xs) p)}"
  using assms
proof (induction xs arbitrary: v)
  case Nil
  then show ?case by simp
next
  case (Cons x xs)
  show ?case
  proof (cases x)
    case (Give f)
    have sh: "shares (free_frame f v) p = shares v p" for p by (simp add: shares_def free_frame_def)
    note w = pmm_free_page_wf [OF Cons.prems, of f]
    from Cons.IH [of "free_frame f v"] w show ?thesis
      by (auto simp: Give free_frame_def [of f v] sh [unfolded free_frame_def [of f v]])
  next
    case (Drop f)
    note w = release_leaf_frames [OF Cons.prems, of f]
    have "max 1 (shares v p) \<le> count_list (drops (x # xs)) p \<longleftrightarrow>
        max 1 (shares (release_leaf f v) p) \<le> count_list (drops xs) p \<or> p = page_of_phys f \<and> shares v p \<le> 1" for p
      by (auto simp: Drop release_leaf_cases(2))
    with Cons.IH [OF w(1)] w(2,3) show ?thesis by (auto simp: Drop)
  qed
qed

subsection \<open>The walk of the destructor as a list of releases\<close>

lemma fold_flatten:
  assumes "\<And>i v. vm_mem v = m \<Longrightarrow> F i v = fold act (A i) v"
  shows "vm_mem v = m \<Longrightarrow> fold F is v = fold act (concat (map A is)) v"
  by (induction "is" arbitrary: v) (simp_all add: assms)

definition pt_acts :: "(u64 \<Rightarrow> nat \<Rightarrow> u64) \<Rightarrow> u64 \<Rightarrow> release list" where
  "pt_acts m pt = concat (map (\<lambda>l. let e = m pt l in
     if has e VMM_PAGE_PRESENT \<and> has e VMM_PAGE_USER then [Drop (pte_frame e)] else []) [0..<512])"

definition entry_acts :: "(u64 \<Rightarrow> release list) \<Rightarrow> u64 \<Rightarrow> release list" where
  "entry_acts sub e =
     (if \<not> has e VMM_PAGE_PRESENT then []
      else if has e VMM_PAGE_HUGE then (if has e VMM_PAGE_USER then [Give (pte_frame e)] else [])
      else if \<not> has e VMM_PAGE_USER then []
      else sub (pte_frame e) @ [Give (pte_frame e)])"

definition table_acts :: "(u64 \<Rightarrow> release list) \<Rightarrow> (u64 \<Rightarrow> nat \<Rightarrow> u64) \<Rightarrow> u64 \<Rightarrow> release list" where
  "table_acts sub m t = concat (map (\<lambda>k. entry_acts sub (m t k)) [0..<512])"

definition pml4_acts :: "(u64 \<Rightarrow> nat \<Rightarrow> u64) \<Rightarrow> u64 \<Rightarrow> release list" where
  "pml4_acts m root = concat (map (\<lambda>i. let e = m root i in
     if has e VMM_PAGE_PRESENT \<and> has e VMM_PAGE_USER
     then table_acts (table_acts (pt_acts m) m) m (pte_frame e) @ [Give (pte_frame e)] else []) [0..<256])"

lemma destroy_pt_acts: "vm_mem v = m \<Longrightarrow> destroy_pt pt v = fold act (pt_acts m pt) v"
  unfolding destroy_pt_def pt_acts_def by (rule fold_flatten) (auto simp: Let_def)

lemma destroy_entry_acts:
  "vm_mem v = m \<Longrightarrow> (\<And>t v. vm_mem v = m \<Longrightarrow> sub t v = fold act (A t) v) \<Longrightarrow>
   destroy_entry sub e v = fold act (entry_acts A e) v"
  by (simp add: destroy_entry_def entry_acts_def)

lemma destroy_pd_acts: "vm_mem v = m \<Longrightarrow> destroy_pd pd v = fold act (table_acts (pt_acts m) m pd) v"
  unfolding destroy_pd_def table_acts_def
  by (rule fold_flatten [where m = m]) (auto intro!: destroy_entry_acts destroy_pt_acts)

lemma destroy_pdpt_acts:
  "vm_mem v = m \<Longrightarrow> destroy_pdpt pdpt v = fold act (table_acts (table_acts (pt_acts m) m) m pdpt) v"
  unfolding destroy_pdpt_def table_acts_def [of "table_acts (pt_acts m) m"]
  by (rule fold_flatten [where m = m]) (auto intro!: destroy_entry_acts destroy_pd_acts)

lemma destroy_pml4_acts: "vm_mem v = m \<Longrightarrow> destroy_pml4 root v = fold act (pml4_acts m root) v"
  unfolding destroy_pml4_def pml4_acts_def
  by (rule fold_flatten [where m = m]) (auto simp: Let_def destroy_pdpt_acts)

lemma gives_concat: "gives (concat xss) = (\<Union>xs\<in>set xss. gives xs)"
  by (induction xss) auto

lemma drops_concat: "drops (concat xss) = concat (map drops xss)"
  by (induction xss) auto

lemma concat_map_if: "concat (map (\<lambda>k. if P k then g k else []) ks) = concat (map g (filter P ks))"
  by (induction ks) auto

lemma pt_acts_frames: "gives (pt_acts m pt) = {}" "drops (pt_acts m pt) = map page_of_phys (user_pages 512 m pt)"
proof -
  show "gives (pt_acts m pt) = {}" by (auto simp: pt_acts_def gives_concat Let_def split: if_splits)
  have "drops (pt_acts m pt) = concat (map (\<lambda>l. if has (m pt l) VMM_PAGE_PRESENT \<and> has (m pt l) VMM_PAGE_USER
      then [page_of_phys (pte_frame (m pt l))] else []) [0..<512])"
    unfolding pt_acts_def drops_concat map_map by (intro arg_cong [where f = concat] map_cong refl) (simp add: Let_def)
  then show "drops (pt_acts m pt) = map page_of_phys (user_pages 512 m pt)"
    unfolding concat_map_if user_pages_def map_map comp_def by (simp add: concat_map_singleton)
qed

lemma table_acts_frames:
  "gives (table_acts sub m t) = (\<Union>f\<in>set (user_tables m t). insert f (gives (sub f))) \<union> set (user_huge m t)"
  "drops (table_acts sub m t) = concat (map (\<lambda>f. drops (sub f)) (user_tables m t))"
proof -
  have "gives (entry_acts sub e) =
      (if has e VMM_PAGE_PRESENT \<and> has e VMM_PAGE_USER
       then (if has e VMM_PAGE_HUGE then {pte_frame e} else insert (pte_frame e) (gives (sub (pte_frame e)))) else {})" for e
    by (simp add: entry_acts_def)
  then show "gives (table_acts sub m t) = (\<Union>f\<in>set (user_tables m t). insert f (gives (sub f))) \<union> set (user_huge m t)"
    by (auto simp: table_acts_def gives_concat user_tables_def user_huge_def split: if_splits)
  have "drops (table_acts sub m t) = concat (map (\<lambda>k. if has (m t k) VMM_PAGE_PRESENT \<and> has (m t k) VMM_PAGE_USER \<and>
      \<not> has (m t k) VMM_PAGE_HUGE then drops (sub (pte_frame (m t k))) else []) [0..<512])"
    unfolding table_acts_def drops_concat map_map by (intro arg_cong [where f = concat] map_cong refl) (simp add: entry_acts_def)
  then show "drops (table_acts sub m t) = concat (map (\<lambda>f. drops (sub f)) (user_tables m t))"
    unfolding concat_map_if user_tables_def map_map comp_def by simp
qed

lemma concat_map_concat: "concat (map f (concat xss)) = concat (map (\<lambda>xs. concat (map f xs)) xss)"
  by (induction xss) auto

lemma pml4_acts_frames:
  "insert root (gives (pml4_acts m root)) = owned_tables m root"
  "drops (pml4_acts m root) = mapped_pages m root"
proof -
  let ?P = "\<lambda>i. has (m root i) VMM_PAGE_PRESENT \<and> has (m root i) VMM_PAGE_USER"
  let ?T = "table_acts (table_acts (pt_acts m) m) m"
  have "gives (pml4_acts m root) = (\<Union>f\<in>set (owned_pdpts m root). insert f (gives (?T f)))"
    by (auto simp: pml4_acts_def gives_concat owned_pdpts_def user_pages_def Let_def split: if_splits)
  then show "insert root (gives (pml4_acts m root)) = owned_tables m root"
    by (auto simp: table_acts_frames pt_acts_frames owned_tables_def owned_pds_def owned_pts_def)
  have "drops (pml4_acts m root) = concat (map (\<lambda>i. if ?P i then drops (?T (pte_frame (m root i))) else []) [0..<256])"
    unfolding pml4_acts_def drops_concat map_map by (intro arg_cong [where f = concat] map_cong refl) (simp add: Let_def)
  then have "drops (pml4_acts m root) = concat (map (\<lambda>f. drops (?T f)) (owned_pdpts m root))"
    unfolding concat_map_if owned_pdpts_def user_pages_def map_map comp_def by simp
  moreover have "mapped_pages m root = concat (map (\<lambda>t. map page_of_phys (user_pages 512 m t)) (owned_pts m root))"
    by (simp add: mapped_pages_def map_concat comp_def)
  ultimately show "drops (pml4_acts m root) = mapped_pages m root"
    by (simp add: table_acts_frames pt_acts_frames owned_pts_def owned_pds_def concat_map_concat comp_def)
qed

lemma destroy_frames:
  assumes "pmm_wf (vm_pmm v)"
  shows "vm_mem (free_frame root (destroy_pml4 root v)) = vm_mem v \<and>
    free_frames (vm_pmm (free_frame root (destroy_pml4 root v))) = free_frames (vm_pmm v) \<union>
      {p. p < unat (pmm_total_pages (vm_pmm v)) \<and>
          (p \<in> page_of_phys ` owned_tables (vm_mem v) root \<or>
           max 1 (shares v p) \<le> count_list (mapped_pages (vm_mem v) root) p)}"
proof -
  have "free_frame root (destroy_pml4 root v) = fold act (pml4_acts (vm_mem v) root @ [Give root]) v"
    by (simp add: destroy_pml4_acts)
  moreover have "gives (pml4_acts (vm_mem v) root @ [Give root]) = owned_tables (vm_mem v) root"
    "drops (pml4_acts (vm_mem v) root @ [Give root]) = mapped_pages (vm_mem v) root"
    using pml4_acts_frames by auto
  ultimately show ?thesis using fold_act_frames [OF assms, of "pml4_acts (vm_mem v) root @ [Give root]"] by simp
qed

subsection \<open>The kernel's own tables\<close>

text \<open>The translation the processor performs, huge pages included; the flag says whether writing is allowed.\<close>

definition hw_translate :: "(u64 \<Rightarrow> nat \<Rightarrow> u64) \<Rightarrow> u64 \<Rightarrow> u64 \<Rightarrow> (u64 \<times> bool) option" where
  "hw_translate m root virt =
     (let e4 = m root (tbl_idx 39 virt) in
      if \<not> has e4 VMM_PAGE_PRESENT then None
      else let e3 = m (pte_frame e4) (tbl_idx 30 virt); w3 = has e4 VMM_PAGE_WRITE \<and> has e3 VMM_PAGE_WRITE in
      if \<not> has e3 VMM_PAGE_PRESENT then None
      else if has e3 VMM_PAGE_HUGE then Some ((pte_frame e3 AND NOT (mask 30)) OR (virt AND mask 30), w3)
      else let e2 = m (pte_frame e3) (tbl_idx 21 virt); w2 = w3 \<and> has e2 VMM_PAGE_WRITE in
      if \<not> has e2 VMM_PAGE_PRESENT then None
      else if has e2 VMM_PAGE_HUGE then Some ((pte_frame e2 AND NOT (mask 21)) OR (virt AND mask 21), w2)
      else let e1 = m (pte_frame e2) (tbl_idx 12 virt) in
      if \<not> has e1 VMM_PAGE_PRESENT then None
      else Some (pte_frame e1 OR (virt AND mask 12), w2 \<and> has e1 VMM_PAGE_WRITE))"

lemma fresh_table_taken:
  assumes "pmm_inv (vm_pmm v)" and "fresh_table v = (p, v')" and "p \<noteq> 0"
  obtains q where "p = phys_of_page q" "q < 65536" "p \<in> free_addrs v" "free_addrs v' = free_addrs v - {p}"
    "pmm_inv (vm_pmm v')" "vm_mem v' = (vm_mem v)(p := (\<lambda>_. 0))"
  using assms(1)
proof (cases rule: pmm_alloc_cases)
  case none
  with assms(2,3) show ?thesis by (simp add: fresh_table_def)
next
  case (some q s')
  with assms(2) have v': "p = phys_of_page q" "v' = v\<lparr>vm_pmm := s', vm_mem := (vm_mem v)(p := (\<lambda>_. 0))\<rparr>"
    by (auto simp: fresh_table_def)
  show ?thesis
    using some free_addrs_take [OF assms(1) some(2)] by (intro that [of q]) (auto simp: v' free_addrs_def)
qed

lemma table_entry_rw:
  assumes "q < 65536"
  shows "pte_frame (phys_of_page q OR VMM_PAGE_PRESENT OR VMM_PAGE_WRITE) = phys_of_page q"
    and "has (phys_of_page q OR VMM_PAGE_PRESENT OR VMM_PAGE_WRITE) VMM_PAGE_PRESENT"
    and "has (phys_of_page q OR VMM_PAGE_PRESENT OR VMM_PAGE_WRITE) VMM_PAGE_WRITE"
    and "\<not> has (phys_of_page q OR VMM_PAGE_PRESENT OR VMM_PAGE_WRITE) VMM_PAGE_HUGE"
proof -
  show "pte_frame (phys_of_page q OR VMM_PAGE_PRESENT OR VMM_PAGE_WRITE) = phys_of_page q"
  proof (rule bit_eqI)
    fix n
    show "bit (pte_frame (phys_of_page q OR VMM_PAGE_PRESENT OR VMM_PAGE_WRITE)) n = bit (phys_of_page q) n"
      using small_nat_bit [OF assms, of "n - 12"]
      by (auto simp: pte_frame_bit bit_or_iff flag_bits bit_phys_of_page)
  qed
qed (simp_all add: has_bits bit_or_iff flag_bits bit_phys_of_page)

lemma build_pds_spec:
  assumes "pmm_inv (vm_pmm v)" and "distinct gs" and "pdpt \<notin> free_addrs v" and "build_pds gs pdpt v = (True, v')"
  shows "pmm_inv (vm_pmm v') \<and> free_addrs v' \<subseteq> free_addrs v \<and>
    (\<forall>f. f \<notin> free_addrs v \<longrightarrow> f \<noteq> pdpt \<longrightarrow> vm_mem v' f = vm_mem v f) \<and>
    (\<forall>i. i \<notin> set gs \<longrightarrow> vm_mem v' pdpt i = vm_mem v pdpt i) \<and>
    (\<forall>g\<in>set gs. \<exists>q<65536. phys_of_page q \<notin> free_addrs v' \<and>
       vm_mem v' pdpt g = phys_of_page q OR VMM_PAGE_PRESENT OR VMM_PAGE_WRITE \<and>
       (\<forall>i<512. vm_mem v' (phys_of_page q) i = huge_entry g i))"
  using assms
proof (induction gs arbitrary: v)
  case Nil
  then show ?case by simp
next
  case (Cons g gs)
  from Cons.prems(1) show ?case
  proof (cases rule: pmm_alloc_cases)
    case none
    with Cons.prems(4) show ?thesis by simp
  next
    case (some q s')
    let ?pd = "phys_of_page q"
    define v1 where "v1 = v\<lparr>vm_pmm := s',
           vm_mem := mem_upd pdpt g (?pd OR VMM_PAGE_PRESENT OR VMM_PAGE_WRITE)
             ((vm_mem v)(?pd := (\<lambda>i. if i < 512 then huge_entry g i else vm_mem v ?pd i)))\<rparr>"
    have fa: "free_addrs v1 = free_addrs v - {?pd}"
      using free_addrs_take [OF Cons.prems(1) some(2)] some(3) by (simp add: v1_def free_addrs_def)
    have pd: "?pd \<in> free_addrs v" using some(2) by (simp add: free_addrs_def)
    then have ne: "?pd \<noteq> pdpt" using Cons.prems(3) by auto
    have b: "build_pds gs pdpt v1 = (True, v')" using Cons.prems(4) some(1,5) by (simp add: v1_def)
    have "pmm_inv (vm_pmm v1)" "distinct gs" "pdpt \<notin> free_addrs v1"
      using some(4) Cons.prems(2,3) fa by (auto simp: v1_def)
    note IH = Cons.IH [OF this b]
    have m1: "vm_mem v1 f = vm_mem v f" if "f \<noteq> ?pd" "f \<noteq> pdpt" for f using that by (simp add: v1_def mem_upd_def)
    have mp: "vm_mem v1 pdpt i = (if i = g then ?pd OR VMM_PAGE_PRESENT OR VMM_PAGE_WRITE else vm_mem v pdpt i)" for i
      using ne by (simp add: v1_def mem_upd_def)
    have md: "vm_mem v1 ?pd i = huge_entry g i" if "i < 512" for i using that ne by (simp add: v1_def mem_upd_def)
    have g: "g \<notin> set gs" using Cons.prems(2) by simp
    have pdf: "?pd \<notin> free_addrs v'" "vm_mem v' ?pd = vm_mem v1 ?pd" using IH fa ne by auto
    have gg: "\<exists>q<65536. phys_of_page q \<notin> free_addrs v' \<and>
       vm_mem v' pdpt g = phys_of_page q OR VMM_PAGE_PRESENT OR VMM_PAGE_WRITE \<and>
       (\<forall>i<512. vm_mem v' (phys_of_page q) i = huge_entry g i)"
      using some(6) pdf md IH g mp by (intro exI [of _ q]) simp
    have other: "vm_mem v' f = vm_mem v f" if "f \<notin> free_addrs v" "f \<noteq> pdpt" for f
      using IH that fa m1 [of f] pd by auto
    have "vm_mem v' pdpt i = vm_mem v pdpt i" if "i \<notin> set (g # gs)" for i
      using IH that mp by simp
    then show ?thesis using IH fa gg other by auto
  qed
qed

lemma tbl_idx_div: "tbl_idx k virt = unat virt div 2 ^ k mod 512"
proof -
  have "drop_bit k virt AND 0x1FF = take_bit 9 (drop_bit k virt)"
    by (simp add: take_bit_eq_mask mask_eq_exp_minus_1)
  then have "tbl_idx k virt = take_bit 9 (drop_bit k (unat virt))"
    unfolding tbl_idx_def
    by (simp only: unsigned_take_bit_eq unsigned_drop_bit_eq take_bit_nat_eq_self [OF unsigned_less])
  then show ?thesis by (simp add: drop_bit_eq_div take_bit_eq_mod)
qed

lemma huge_entry_of:
  assumes "unat virt < 2 ^ 34"
  shows "huge_entry (tbl_idx 30 virt) (tbl_idx 21 virt) =
    (virt AND NOT (mask 21)) OR VMM_PAGE_PRESENT OR VMM_PAGE_WRITE OR VMM_PAGE_HUGE"
proof -
  let ?x = "unat virt"
  have g: "tbl_idx 30 virt = ?x div 2 ^ 30" using assms by (simp add: tbl_idx_div)
  have "?x div 2 ^ 21 = (?x div 2 ^ 30) * 512 + ?x div 2 ^ 21 mod 512"
    using div_mult2_eq [of ?x "2 ^ 21" 512] by simp
  then have sum: "tbl_idx 30 virt * 2 ^ 30 + tbl_idx 21 virt * 2 ^ 21 = ?x div 2 ^ 21 * 2 ^ 21"
    unfolding g tbl_idx_div [of 21] by (simp add: algebra_simps)
  have "(of_nat (tbl_idx 30 virt) * 2 ^ 30 + of_nat (tbl_idx 21 virt) * 2 ^ 21 :: u64) =
      of_nat (tbl_idx 30 virt * 2 ^ 30 + tbl_idx 21 virt * 2 ^ 21)" by simp
  also have "\<dots> = of_nat (unat (virt AND NOT (mask 21)))" unfolding sum unat_and_not_mask ..
  also have "\<dots> = virt AND NOT (mask 21)" by simp
  finally show ?thesis by (simp only: huge_entry_def)
qed

lemma huge_identity:
  assumes "unat virt < 2 ^ 34"
    and "e = (virt AND NOT (mask 21)) OR VMM_PAGE_PRESENT OR VMM_PAGE_WRITE OR VMM_PAGE_HUGE"
  shows "(pte_frame e AND NOT (mask 21)) OR (virt AND mask 21) = virt"
    and "has e VMM_PAGE_PRESENT" and "has e VMM_PAGE_WRITE" and "has e VMM_PAGE_HUGE"
proof -
  have small: "n < 34" if "bit virt n" for n
    using that assms(1) bit_below_pow [of "unat virt" 34 n] by (simp add: bit_unsigned_iff)
  show "(pte_frame e AND NOT (mask 21)) OR (virt AND mask 21) = virt"
    by (rule bit_eqI) (use small in \<open>force simp: assms(2) pte_frame_bit bit_or_iff bit_and_iff bit_not_iff bit_mask_iff flag_bits
        possible_bit_def\<close>)
qed (simp_all add: assms(2) has_bits bit_or_iff flag_bits)

lemma device_window_keeps:
  assumes "pmm_inv (vm_pmm (vs_vm s))" and "f \<notin> free_addrs (vs_vm s)" and "f \<noteq> pml4 \<or> i < 384"
  shows "vm_mem (vs_vm (snd (vmm_prepare_device_window pml4 s))) f i = vm_mem (vs_vm s) f i"
proof -
  obtain p v1 where f: "fresh_table (vs_vm s) = (p, v1)" by fastforce
  have "vm_mem v1 f = vm_mem (vs_vm s) f"
  proof (cases "p = 0")
    case True
    with f show ?thesis by (auto simp: fresh_table_def split: prod.splits if_splits)
  next
    case False
    from assms(1) f False show ?thesis by (rule fresh_table_taken) (use assms(2) in auto)
  qed
  then have m: "vm_mem v1 f i = vm_mem (vs_vm s) f i" by simp
  show ?thesis
  proof (cases "pml4 = 0 \<or> vs_device_base s \<noteq> 0")
    case False
    show ?thesis
    proof (cases "find (\<lambda>i. vm_mem (vs_vm s) pml4 i = 0) [384..<448]")
      case (Some slot)
      then have "384 \<le> slot" using find_upt_from_Some by blast
      with assms(3) have "\<not> (f = pml4 \<and> i = slot)" by auto
      then have "mem_upd pml4 slot e (vm_mem v1) f i = vm_mem v1 f i" for e by (auto simp: mem_upd_def)
      then show ?thesis using False Some m f by (simp add: vmm_prepare_device_window_def)
    qed (use False in \<open>simp add: vmm_prepare_device_window_def\<close>)
  qed (simp add: vmm_prepare_device_window_def)
qed

lemmas build_pds_inv = build_pds_spec [THEN conjunct1]
  and build_pds_free = build_pds_spec [THEN conjunct2, THEN conjunct1, THEN subsetD]
  and build_pds_other = build_pds_spec [THEN conjunct2, THEN conjunct2, THEN conjunct1, rule_format]
  and build_pds_entry = build_pds_spec [THEN conjunct2, THEN conjunct2, THEN conjunct2, THEN conjunct2, THEN bspec]

lemma build_tables_split:
  assumes "vmm_build_kernel_tables s = (root, s')" and "root \<noteq> 0"
  obtains v1 v2 p3 v3 v4 v5 where "fresh_table (vs_vm s) = (root, v1)" "vm_pmm v2 = vm_pmm v1" "fresh_table v2 = (p3, v3)" "p3 \<noteq> 0"
    "v4 = v3\<lparr>vm_mem := mem_upd root 0 (p3 OR VMM_PAGE_PRESENT OR VMM_PAGE_WRITE) (vm_mem v3)\<rparr>"
    "build_pds [0..<VMM_KERNEL_IDMAP_GIB] p3 v4 = (True, v5)"
    "s' = snd (vmm_prepare_device_window root (s\<lparr>vs_vm := v5\<rparr>))"
proof -
  obtain p4 v1 where f1: "fresh_table (vs_vm s) = (p4, v1)" by fastforce
  have p4: "p4 \<noteq> 0"
  proof
    assume "p4 = 0"
    with f1 assms show False by (simp add: vmm_build_kernel_tables_def)
  qed
  define v2 where "v2 = v1\<lparr>vm_mem := (vm_mem v1)(p4 := (\<lambda>i. if 256 \<le> i \<and> i < 512
      then vm_mem v1 (pte_frame (vs_cr3 s)) i else vm_mem v1 p4 i))\<rparr>"
  obtain p3 v3 where f3: "fresh_table v2 = (p3, v3)" by fastforce
  note step = assms(1) [unfolded vmm_build_kernel_tables_def Let_def f1 prod.case if_not_P [OF p4] v2_def [symmetric] f3]
  have p3: "p3 \<noteq> 0"
  proof
    assume "p3 = 0"
    with step assms(2) show False by simp
  qed
  define v4 where "v4 = v3\<lparr>vm_mem := mem_upd p4 0 (p3 OR VMM_PAGE_PRESENT OR VMM_PAGE_WRITE) (vm_mem v3)\<rparr>"
  obtain ok v5 where b: "build_pds [0..<VMM_KERNEL_IDMAP_GIB] p3 v4 = (ok, v5)" by fastforce
  note step' = step [unfolded if_not_P [OF p3] v4_def [symmetric] b prod.case]
  have ok: ok using step' assms(2) by (cases ok) simp_all
  have fin: "root = p4" "s' = snd (vmm_prepare_device_window p4 (s\<lparr>vs_vm := v5\<rparr>))" using step' ok by auto
  show ?thesis
    by (rule that [of v1 v2 p3 v3 v4 v5]) (use f1 f3 p3 b ok in \<open>simp_all add: fin v2_def v4_def\<close>)
qed

lemma kernel_tables_built:
  assumes "pmm_inv (vm_pmm (vs_vm s))" and "vmm_build_kernel_tables s = (root, s')" and "root \<noteq> 0"
  obtains p3 where "vm_mem (vs_vm s') root 0 = p3 OR VMM_PAGE_PRESENT OR VMM_PAGE_WRITE"
    "\<exists>q3<65536. p3 = phys_of_page q3"
    "\<And>g. g < VMM_KERNEL_IDMAP_GIB \<Longrightarrow> \<exists>q<65536. vm_mem (vs_vm s') p3 g = phys_of_page q OR VMM_PAGE_PRESENT OR VMM_PAGE_WRITE \<and>
       (\<forall>i<512. vm_mem (vs_vm s') (phys_of_page q) i = huge_entry g i)"
proof -
  from assms(2,3) obtain v1 v2 p3 v3 v4 v5 where f1: "fresh_table (vs_vm s) = (root, v1)" and v2: "vm_pmm v2 = vm_pmm v1"
    and f3: "fresh_table v2 = (p3, v3)" "p3 \<noteq> 0"
    and v4: "v4 = v3\<lparr>vm_mem := mem_upd root 0 (p3 OR VMM_PAGE_PRESENT OR VMM_PAGE_WRITE) (vm_mem v3)\<rparr>"
    and b: "build_pds [0..<VMM_KERNEL_IDMAP_GIB] p3 v4 = (True, v5)"
    and s': "s' = snd (vmm_prepare_device_window root (s\<lparr>vs_vm := v5\<rparr>))" by (rule build_tables_split)
  obtain q4 where q4: "free_addrs v1 = free_addrs (vs_vm s) - {root}" "pmm_inv (vm_pmm v1)"
    using fresh_table_taken [OF assms(1) f1 assms(3)] by metis
  have i2: "pmm_inv (vm_pmm v2)" "free_addrs v2 = free_addrs v1" using q4(2) v2 by (simp_all add: free_addrs_def)
  obtain q3 where q3: "p3 = phys_of_page q3" "q3 < 65536" "p3 \<in> free_addrs v2"
    "free_addrs v3 = free_addrs v2 - {p3}" "pmm_inv (vm_pmm v3)"
    using fresh_table_taken [OF i2(1) f3] by metis
  have ne: "p3 \<noteq> root" using q3(3) q4(1) i2(2) by auto
  have i4: "pmm_inv (vm_pmm v4)" "free_addrs v4 = free_addrs v3" using q3(5) by (simp_all add: v4 free_addrs_def)
  have nf: "p3 \<notin> free_addrs v4" "root \<notin> free_addrs v4" using i4(2) q3(4) i2(2) q4(1) by auto
  note pds = i4(1) distinct_upt nf(1) b
  have nf5: "p3 \<notin> free_addrs v5" "root \<notin> free_addrs v5" using build_pds_free [OF pds] nf by blast+
  have keep: "vm_mem (vs_vm s') f i = vm_mem v5 f i" if "f \<notin> free_addrs v5" "f \<noteq> root \<or> i < 384" for f i
    using device_window_keeps [of "s\<lparr>vs_vm := v5\<rparr>" f root i] that build_pds_inv [OF pds] by (simp add: s')
  have r5: "vm_mem v5 root = vm_mem v4 root" using build_pds_other [OF pds nf(2)] ne by simp
  have e4: "vm_mem (vs_vm s') root 0 = p3 OR VMM_PAGE_PRESENT OR VMM_PAGE_WRITE"
    using keep [of root 0] nf5(2) r5 by (simp add: v4 mem_upd_def)
  have "\<exists>q<65536. vm_mem (vs_vm s') p3 g = phys_of_page q OR VMM_PAGE_PRESENT OR VMM_PAGE_WRITE \<and>
       (\<forall>i<512. vm_mem (vs_vm s') (phys_of_page q) i = huge_entry g i)" if g: "g < VMM_KERNEL_IDMAP_GIB" for g
  proof -
    have "g \<in> set [0..<VMM_KERNEL_IDMAP_GIB]" using g by simp
    from build_pds_entry [OF pds this] obtain q where q: "q < 65536" "phys_of_page q \<notin> free_addrs v5"
      "vm_mem v5 p3 g = phys_of_page q OR VMM_PAGE_PRESENT OR VMM_PAGE_WRITE"
      "\<forall>i<512. vm_mem v5 (phys_of_page q) i = huge_entry g i" by blast
    have pq: "phys_of_page q \<noteq> root"
    proof
      assume "phys_of_page q = root"
      then have "vm_mem v4 root 0 = huge_entry g 0" using q(4) r5 by simp
      moreover have "has (huge_entry g 0) VMM_PAGE_HUGE" by (simp add: huge_entry_def has_bits bit_or_iff flag_bits)
      moreover have "\<not> has (vm_mem v4 root 0) VMM_PAGE_HUGE" using table_entry_rw(4) [OF q3(2)] by (simp add: v4 mem_upd_def q3(1))
      ultimately show False by simp
    qed
    show ?thesis using keep nf5(1) ne q pq by (intro exI [of _ q]) simp
  qed
  with e4 q3(1,2) show ?thesis by (intro that [of p3]) blast+
qed

lemma kernel_tables_translate:
  assumes "pmm_inv (vm_pmm (vs_vm s))" and "vmm_build_kernel_tables s = (root, s')" and "root \<noteq> 0"
    and "unat a < 16 * 2 ^ 30"
  shows "hw_translate (vm_mem (vs_vm s')) root a = Some (a, True)"
proof -
  from assms(1-3) obtain p3 where e4: "vm_mem (vs_vm s') root 0 = p3 OR VMM_PAGE_PRESENT OR VMM_PAGE_WRITE"
    and q3: "\<exists>q3<65536. p3 = phys_of_page q3"
    and pd: "\<And>g. g < VMM_KERNEL_IDMAP_GIB \<Longrightarrow> \<exists>q<65536. vm_mem (vs_vm s') p3 g = phys_of_page q OR VMM_PAGE_PRESENT OR VMM_PAGE_WRITE \<and>
       (\<forall>i<512. vm_mem (vs_vm s') (phys_of_page q) i = huge_entry g i)" by (rule kernel_tables_built) (rule that, assumption+)
  have a: "unat a < 2 ^ 34" using assms(4) by simp
  have i4: "tbl_idx 39 a = 0" and g: "tbl_idx 30 a < VMM_KERNEL_IDMAP_GIB"
    using a by (simp_all add: tbl_idx_div VMM_KERNEL_IDMAP_GIB_def)
  from pd [OF g] obtain q where q: "q < 65536"
    "vm_mem (vs_vm s') p3 (tbl_idx 30 a) = phys_of_page q OR VMM_PAGE_PRESENT OR VMM_PAGE_WRITE"
    "\<forall>i<512. vm_mem (vs_vm s') (phys_of_page q) i = huge_entry (tbl_idx 30 a) i" by blast
  have e2: "vm_mem (vs_vm s') (phys_of_page q) (tbl_idx 21 a) = huge_entry (tbl_idx 30 a) (tbl_idx 21 a)" using q(3) by simp
  from q3 obtain q3 where q3: "q3 < 65536" "p3 = phys_of_page q3" by blast
  note entries = i4 e4 q3(2) q(2) [unfolded q3(2)] e2 table_entry_rw [OF q3(1)] table_entry_rw [OF q(1)]
    huge_identity [OF a huge_entry_of [OF a]]
  show ?thesis unfolding hw_translate_def Let_def by (simp only: entries not_True_eq_False if_False if_True simp_thms)
qed


lemma fresh_table_succeeds:
  assumes "pmm_inv (vm_pmm v)" and "Suc n \<le> card (free_frames (vm_pmm v))" and "fresh_table v = (p, v')"
  shows "p \<noteq> 0 \<and> pmm_inv (vm_pmm v') \<and> n \<le> card (free_frames (vm_pmm v'))"
proof -
  from assms(2) have "free_frames (vm_pmm v) \<noteq> {}" by (metis card.empty not_less_eq_eq zero_le)
  with assms(1) obtain q s' where some: "pmm_alloc_page (vm_pmm v) = (phys_of_page q, s')" "q \<in> free_frames (vm_pmm v)"
      "free_frames s' = free_frames (vm_pmm v) - {q}" "pmm_inv s'" "phys_of_page q \<noteq> 0"
    by (metis pmm_alloc_cases)
  have "fresh_table v = (phys_of_page q, v\<lparr>vm_pmm := s', vm_mem := (vm_mem v)(phys_of_page q := (\<lambda>_. 0))\<rparr>)"
    unfolding fresh_table_def some(1) Let_def prod.case if_not_P [OF some(5)] ..
  then have v': "p = phys_of_page q" "vm_pmm v' = s'" unfolding assms(3) by auto
  have "card (free_frames s') = card (free_frames (vm_pmm v)) - 1"
    unfolding some(3) by (rule card_Diff_singleton [OF some(2)])
  then have "n \<le> card (free_frames s')" using assms(2) by linarith
  then show ?thesis using some(4,5) by (simp add: v')
qed

lemma build_pds_succeeds:
  "pmm_inv (vm_pmm v) \<Longrightarrow> length gs \<le> card (free_frames (vm_pmm v)) \<Longrightarrow> fst (build_pds gs pdpt v)"
proof (induction gs arbitrary: v)
  case (Cons g gs)
  from Cons.prems(1) show ?case
  proof (cases rule: pmm_alloc_cases)
    case (some q s')
    have "length gs \<le> card (free_frames s')" using Cons.prems(2) some(2,3) by (simp add: card_Diff_singleton)
    then show ?thesis using some Cons.IH by simp
  qed (use Cons.prems(2) in simp)
qed simp

lemma kernel_tables_succeed:
  assumes "pmm_inv (vm_pmm (vs_vm s))" and "vmm_build_kernel_tables s = (root, s')"
    and "18 \<le> card (free_frames (vm_pmm (vs_vm s)))"
  shows "root \<noteq> 0"
proof -
  obtain p4 v1 where f1: "fresh_table (vs_vm s) = (p4, v1)" by fastforce
  define v2 where "v2 = v1\<lparr>vm_mem := (vm_mem v1)(p4 := (\<lambda>i. if 256 \<le> i \<and> i < 512
      then vm_mem v1 (pte_frame (vs_cr3 s)) i else vm_mem v1 p4 i))\<rparr>"
  obtain p3 v3 where f3: "fresh_table v2 = (p3, v3)" by fastforce
  define v4 where "v4 = v3\<lparr>vm_mem := mem_upd p4 0 (p3 OR VMM_PAGE_PRESENT OR VMM_PAGE_WRITE) (vm_mem v3)\<rparr>"
  have a1: "p4 \<noteq> 0 \<and> pmm_inv (vm_pmm v1) \<and> 17 \<le> card (free_frames (vm_pmm v1))"
    using fresh_table_succeeds [OF assms(1) _ f1, of 17] assms(3) by simp
  have a3: "p3 \<noteq> 0 \<and> pmm_inv (vm_pmm v3) \<and> 16 \<le> card (free_frames (vm_pmm v3))"
    using fresh_table_succeeds [OF _ _ f3, of 16] a1 by (simp add: v2_def)
  have "fst (build_pds [0..<VMM_KERNEL_IDMAP_GIB] p3 v4)"
    using a3 by (intro build_pds_succeeds) (simp_all add: v4_def VMM_KERNEL_IDMAP_GIB_def)
  then obtain v5 where b: "build_pds [0..<VMM_KERNEL_IDMAP_GIB] p3 v4 = (True, v5)" by (metis prod.collapse)
  have "p4 \<noteq> 0" "p3 \<noteq> 0" using a1 a3 by auto
  note step = assms(2) [unfolded vmm_build_kernel_tables_def Let_def f1 prod.case if_not_P [OF this(1)] v2_def [symmetric] f3
      if_not_P [OF this(2)] v4_def [symmetric] b]
  then show ?thesis using \<open>p4 \<noteq> 0\<close> by auto
qed

subsection \<open>Concrete states\<close>

text \<open>Frames 1 to 23 free.\<close>

definition boot_pmm :: pmm where
  "boot_pmm = demo_pmm\<lparr>pmm_bitmap := (\<lambda>i. if i = 0 then 1 else if i < 3 then 0 else 0xFF), pmm_total_pages := 24,
     pmm_free_count := 23\<rparr>"

lemma boot_pmm_test: "bitmap_test p boot_pmm = (p = 0 \<or> 24 \<le> p)"
proof -
  consider "p < 8" | "8 \<le> p" "p < 24" | "24 \<le> p" by linarith
  then show ?thesis
  proof cases
    case 1
    then show ?thesis by (auto simp: bitmap_test_bit boot_pmm_def PMM_BITMAP_SIZE_def bit_1_iff)
  next
    case 2
    then have "p div 8 \<noteq> 0" "p div 8 < 3" by auto
    then show ?thesis using 2 by (simp add: bitmap_test_bit boot_pmm_def PMM_BITMAP_SIZE_def)
  next
    case 3
    then have "p div 8 \<noteq> 0" "\<not> p div 8 < 3" by auto
    then show ?thesis using 3 byte_full [of "p mod 8"] by (simp add: bitmap_test_bit boot_pmm_def)
  qed
qed

lemma boot_pmm_frames: "free_frames boot_pmm = {1..<24}"
  by (auto simp: free_frames_def boot_pmm_test) (auto simp: boot_pmm_def)

lemma boot_pmm_inv: "pmm_inv boot_pmm"
  unfolding pmm_inv_def pmm_counted_def pmm_wf_def boot_pmm_frames
  by (simp add: boot_pmm_test) (simp add: boot_pmm_def PMM_BITMAP_SIZE_def)

text \<open>The space at address 0x80 has an empty root table in frame 3, which is in use.\<close>

definition boot_vms :: "pmm \<Rightarrow> vms" where
  "boot_vms p = \<lparr>vs_vm = demo_vm\<lparr>vm_pmm := p\<rparr>, vs_kernel_as = 0x40, vs_kernel_tables_built = False, vs_cr3 = 0x100000,
     vs_spaces = [0x40 \<mapsto> demo_as, 0x80 \<mapsto> demo_as\<lparr>as_pml4_phys := 0x3000\<rparr>],
     vs_device_base = 0, vs_device_used = 0, vs_device_gate = False\<rparr>"

subsection \<open>Properties\<close>

text \<open>
  The kernel's own tables are an identity map. \<^verbatim>\<open>vmm_build_kernel_tables\<close> succeeds (returns a non-zero root)
  whenever 18 frames are free, and whenever it succeeds the processor, huge pages included,
  translates every address below 16 GiB to itself, with write access, under the new root.
\<close>

theorem kernel_tables_identity:
  assumes "pmm_inv (vm_pmm (vs_vm s))" and "vmm_build_kernel_tables s = (root, s')"
  shows "(18 \<le> card (free_frames (vm_pmm (vs_vm s))) \<longrightarrow> root \<noteq> 0) \<and>
    (root \<noteq> 0 \<longrightarrow> (\<forall>a. unat a < 16 * 2 ^ 30 \<longrightarrow> hw_translate (vm_mem (vs_vm s')) root a = Some (a, True)))"
  using kernel_tables_succeed [OF assms] kernel_tables_translate [OF assms] by blast

theorem kernel_tables_identity_witness:
  "\<exists>root s'. vmm_build_kernel_tables (boot_vms boot_pmm) = (root, s') \<and> root \<noteq> 0 \<and>
     hw_translate (vm_mem (vs_vm s')) root 0x12345678 = Some (0x12345678, True)"
proof -
  obtain root s' where b: "vmm_build_kernel_tables (boot_vms boot_pmm) = (root, s')" by fastforce
  have "pmm_inv (vm_pmm (vs_vm (boot_vms boot_pmm)))" "18 \<le> card (free_frames (vm_pmm (vs_vm (boot_vms boot_pmm))))"
    by (simp_all add: boot_vms_def boot_pmm_inv boot_pmm_frames)
  from kernel_tables_identity [OF this(1) b] this(2) b show ?thesis by (intro exI [of _ root] exI [of _ s']) simp
qed




end
