(* ===== verification/Process.thy ===== *)
theory Process
  imports Sched Pipe VmSpace
begin

text \<open>
  Processes: \<^verbatim>\<open>kernel/process.c\<close> and \<^verbatim>\<open>kernel/process_iter.c\<close>.

  The state composes the process table with the scheduler (\<open>Sched\<close>), the pipes (\<open>Pipe\<close>) and the address
  spaces (\<open>VmSpace\<close>), because creating, killing and destroying a process calls all three. Pointers to
  processes and tasks are slot numbers, pointers to address spaces are the addresses of their structs.
  What the registered hooks and the file system are called with is recorded in \<open>ps_events\<close>; the
  results of \<^verbatim>\<open>kmalloc\<close> are arguments. Loading an executable (\<^verbatim>\<open>process_exec\<close>, \<^verbatim>\<open>process_exec_replace\<close>)
  belongs to the ELF loader and is not modelled.
\<close>

subsection \<open>State\<close>

definition PROCESS_MAX :: nat where "PROCESS_MAX = 128"
definition PROCESS_FD_MAX :: nat where "PROCESS_FD_MAX = 32"
definition PROCESS_NAME_MAX :: nat where "PROCESS_NAME_MAX = 64"

datatype process_state =
  PROC_STATE_UNUSED | PROC_STATE_EMBRYO | PROC_STATE_RUNNING | PROC_STATE_SLEEPING | PROC_STATE_ZOMBIE

datatype fd_type = FD_TYPE_FREE | FD_TYPE_VFS | FD_TYPE_PIPE | FD_TYPE_SOCKET

definition FD_PIPE_FLAG_READ :: u32 where "FD_PIPE_FLAG_READ = 1"
definition FD_PIPE_FLAG_WRITE :: u32 where "FD_PIPE_FLAG_WRITE = 2"

record file_descriptor =
  fd_ty :: fd_type
  fd_flags :: u32
  fd_offset :: u64
  fd_private_data :: int

record process =
  pr_pid :: u32
  pr_ppid :: u32
  pr_name :: string
  pr_state :: process_state
  pr_address_space :: "u64 option"
  pr_main_thread :: "nat option"
  pr_fds :: "file_descriptor carr"
  pr_uid :: u32
  pr_gid :: u32
  pr_exit_code :: int
  pr_brk :: u64
  pr_heap_start :: u64
  pr_stack_top :: u64
  pr_parent :: "nat option"
  pr_children :: "nat option"
  pr_next_sibling :: "nat option"

datatype proc_event = Vfs_close int | Socket_close int | Teardown u32

record procs =
  proc_table :: "process carr"
  next_proc_pid :: u32
  current_proc :: "nat option"
  g_teardown_fn :: bool
  g_socket_close_fn :: bool
  ps_sched :: sched
  ps_pipes :: pipes
  ps_vms :: vms
  ps_events :: "proc_event list"

abbreviation pstate :: "procs \<Rightarrow> nat \<Rightarrow> process_state" where
  "pstate s i \<equiv> pr_state (proc_table s i)"

definition upd_proc :: "nat \<Rightarrow> (process \<Rightarrow> process) \<Rightarrow> procs \<Rightarrow> procs" where
  "upd_proc i f s = s\<lparr>proc_table := (proc_table s)(i := f (proc_table s i))\<rparr>"

definition fd_free_slot :: file_descriptor where
  "fd_free_slot = \<lparr>fd_ty = FD_TYPE_FREE, fd_flags = 0, fd_offset = 0, fd_private_data = 0\<rparr>"

definition process_zero :: process where
  "process_zero = \<lparr>pr_pid = 0, pr_ppid = 0, pr_name = [], pr_state = PROC_STATE_UNUSED, pr_address_space = None,
     pr_main_thread = None, pr_fds = (\<lambda>_. fd_free_slot), pr_uid = 0, pr_gid = 0, pr_exit_code = 0, pr_brk = 0,
     pr_heap_start = 0, pr_stack_top = 0, pr_parent = None, pr_children = None, pr_next_sibling = None\<rparr>"

subsection \<open>The process tree\<close>

text \<open>The chain of siblings from \<open>p\<close> on; \<open>n\<close> bounds the number of steps.\<close>

fun sib_walk :: "process carr \<Rightarrow> nat \<Rightarrow> nat option \<Rightarrow> nat list" where
  "sib_walk tt 0 p = []"
| "sib_walk tt (Suc n) None = []"
| "sib_walk tt (Suc n) (Some i) = i # sib_walk tt n (pr_next_sibling (tt i))"

definition children_of :: "procs \<Rightarrow> nat \<Rightarrow> nat list" where
  "children_of s p = sib_walk (proc_table s) PROCESS_MAX (pr_children (proc_table s p))"

definition process_link_child :: "nat \<Rightarrow> nat option \<Rightarrow> procs \<Rightarrow> procs" where
  "process_link_child child parent s =
     (let s1 = upd_proc child (\<lambda>p. p\<lparr>pr_parent := parent,
            pr_ppid := (case parent of None \<Rightarrow> 0 | Some q \<Rightarrow> pr_pid (proc_table s q))\<rparr>) s
      in case parent of
           Some q \<Rightarrow> upd_proc q (\<lambda>p. p\<lparr>pr_children := Some child\<rparr>)
                       (upd_proc child (\<lambda>p. p\<lparr>pr_next_sibling := pr_children (proc_table s1 q)\<rparr>) s1)
         | None \<Rightarrow> upd_proc child (\<lambda>p. p\<lparr>pr_next_sibling := None\<rparr>) s1)"

definition process_unlink_child :: "nat \<Rightarrow> procs \<Rightarrow> procs" where
  "process_unlink_child child s =
     (case pr_parent (proc_table s child) of
        None \<Rightarrow> upd_proc child (\<lambda>p. p\<lparr>pr_next_sibling := None\<rparr>) s
      | Some q \<Rightarrow>
          (let ks = children_of s q; nxt = pr_next_sibling (proc_table s child);
               s1 = (if child \<notin> set ks then s
                     else if hd ks = child then upd_proc q (\<lambda>p. p\<lparr>pr_children := nxt\<rparr>) s
                     else upd_proc (last (takeWhile (\<lambda>k. k \<noteq> child) ks)) (\<lambda>p. p\<lparr>pr_next_sibling := nxt\<rparr>) s)
           in upd_proc child (\<lambda>p. p\<lparr>pr_next_sibling := None, pr_parent := None\<rparr>) s1))"

subsection \<open>Lookup\<close>

definition process_system_init :: "procs \<Rightarrow> procs" where
  "process_system_init s =
     s\<lparr>proc_table := (\<lambda>i. if i < PROCESS_MAX then process_zero else proc_table s i),
       next_proc_pid := 1, current_proc := None\<rparr>"

definition process_current :: "procs \<Rightarrow> nat option" where
  "process_current s =
     (case current_proc s of Some p \<Rightarrow> Some p
      | None \<Rightarrow> (case current_task (ps_sched s) of None \<Rightarrow> None
         | Some t \<Rightarrow> find (\<lambda>i. pstate s i \<noteq> PROC_STATE_UNUSED \<and> pr_main_thread (proc_table s i) = Some t) [0..<PROCESS_MAX]))"

definition process_set_current :: "nat option \<Rightarrow> procs \<Rightarrow> procs" where
  "process_set_current p s = s\<lparr>current_proc := p\<rparr>"

definition process_by_pid :: "u32 \<Rightarrow> procs \<Rightarrow> nat option" where
  "process_by_pid pid s =
     find (\<lambda>i. pstate s i \<noteq> PROC_STATE_UNUSED \<and> pr_pid (proc_table s i) = pid) [0..<PROCESS_MAX]"

definition process_at_index :: "nat \<Rightarrow> nat option" where
  "process_at_index i = (if i \<ge> PROCESS_MAX then None else Some i)"

definition process_count :: "procs \<Rightarrow> nat" where
  "process_count s = length (filter (\<lambda>i. pstate s i \<noteq> PROC_STATE_UNUSED) [0..<PROCESS_MAX])"

subsection \<open>File descriptors\<close>

definition process_fd_alloc :: "nat option \<Rightarrow> procs \<Rightarrow> int" where
  "process_fd_alloc proc s =
     (case proc of None \<Rightarrow> -1
      | Some i \<Rightarrow> (case find (\<lambda>k. fd_ty (pr_fds (proc_table s i) k) = FD_TYPE_FREE) [3..<PROCESS_FD_MAX] of
           Some k \<Rightarrow> int k | None \<Rightarrow> -1))"

definition close_slot :: "file_descriptor \<Rightarrow> procs \<Rightarrow> procs" where
  "close_slot slot s =
     (case fd_ty slot of
        FD_TYPE_VFS \<Rightarrow>
          (if fd_private_data slot \<noteq> 0 then s\<lparr>ps_events := ps_events s @ [Vfs_close (fd_private_data slot)]\<rparr> else s)
      | FD_TYPE_PIPE \<Rightarrow>
          (if fd_flags slot AND FD_PIPE_FLAG_READ \<noteq> 0
           then s\<lparr>ps_pipes := snd (pipe_close_read (fd_private_data slot) (ps_pipes s))\<rparr>
           else if fd_flags slot AND FD_PIPE_FLAG_WRITE \<noteq> 0
           then s\<lparr>ps_pipes := snd (pipe_close_write (fd_private_data slot) (ps_pipes s))\<rparr>
           else s)
      | FD_TYPE_SOCKET \<Rightarrow>
          (if g_socket_close_fn s \<and> fd_private_data slot \<ge> 0
           then s\<lparr>ps_events := ps_events s @ [Socket_close (fd_private_data slot)]\<rparr> else s)
      | FD_TYPE_FREE \<Rightarrow> s)"

definition process_fd_free :: "nat option \<Rightarrow> int \<Rightarrow> procs \<Rightarrow> procs" where
  "process_fd_free proc fd s =
     (case proc of None \<Rightarrow> s
      | Some i \<Rightarrow>
          if fd < 0 \<or> fd \<ge> int PROCESS_FD_MAX then s
          else upd_proc i (\<lambda>p. p\<lparr>pr_fds := (pr_fds p)(nat fd := fd_free_slot)\<rparr>)
                 (close_slot (pr_fds (proc_table s i) (nat fd)) s))"

definition free_all_fds :: "nat \<Rightarrow> procs \<Rightarrow> procs" where
  "free_all_fds i s = fold (\<lambda>k. process_fd_free (Some i) (int k)) [0..<PROCESS_FD_MAX] s"

definition notify_teardown :: "nat \<Rightarrow> procs \<Rightarrow> procs" where
  "notify_teardown i s =
     (if g_teardown_fn s then s\<lparr>ps_events := ps_events s @ [Teardown (pr_pid (proc_table s i))]\<rparr> else s)"

definition kill_main_thread :: "nat \<Rightarrow> procs \<Rightarrow> procs" where
  "kill_main_thread i s =
     (case pr_main_thread (proc_table s i) of None \<Rightarrow> s
      | Some t \<Rightarrow> upd_proc i (\<lambda>p. p\<lparr>pr_main_thread := None\<rparr>)
                    (s\<lparr>ps_sched := snd (task_kill (tk_pid (task_table (ps_sched s) t)) (ps_sched s))\<rparr>))"

subsection \<open>Teardown\<close>

definition orphan_children :: "nat \<Rightarrow> procs \<Rightarrow> procs" where
  "orphan_children i s =
     upd_proc i (\<lambda>p. p\<lparr>pr_children := None\<rparr>)
       (fold (\<lambda>c. upd_proc c (\<lambda>p. p\<lparr>pr_parent := None, pr_ppid := 0, pr_next_sibling := None\<rparr>)) (children_of s i) s)"

definition drop_address_space :: "nat \<Rightarrow> procs \<Rightarrow> procs" where
  "drop_address_space i s =
     (case pr_address_space (proc_table s i) of None \<Rightarrow> s
      | Some a \<Rightarrow> upd_proc i (\<lambda>p. p\<lparr>pr_address_space := None\<rparr>)
                    (s\<lparr>ps_vms := vmm_destroy_address_space (Some a) (ps_vms s)\<rparr>))"

definition process_destroy :: "nat option \<Rightarrow> procs \<Rightarrow> procs" where
  "process_destroy proc s =
     (case proc of None \<Rightarrow> s
      | Some i \<Rightarrow>
          if pstate s i = PROC_STATE_UNUSED then s
          else if vmm_address_space_is_active (pr_address_space (proc_table s i)) (ps_vms s) then s
          else upd_proc i (\<lambda>p. p\<lparr>pr_state := PROC_STATE_UNUSED\<rparr>)
                 (notify_teardown i (free_all_fds i (drop_address_space i (kill_main_thread i
                    (process_unlink_child i (orphan_children i s)))))))"

definition process_kill :: "u32 \<Rightarrow> u32 \<Rightarrow> procs \<Rightarrow> int \<times> procs" where
  "process_kill pid signal s =
     (case process_by_pid pid s of None \<Rightarrow> (-1, s)
      | Some i \<Rightarrow>
          if process_current s = Some i \<or>
             pr_main_thread (proc_table s i) \<noteq> None \<and> pr_main_thread (proc_table s i) = current_task (ps_sched s)
          then (-2, s)
          else
            (let s1 = upd_proc i (\<lambda>p. p\<lparr>pr_exit_code := 128 + uint (signal AND 0x7F), pr_state := PROC_STATE_ZOMBIE\<rparr>) s;
                 s2 = free_all_fds i (kill_main_thread i s1)
             in (0, if pr_parent (proc_table s2 i) = None then process_destroy (Some i) s2 else s2)))"

text \<open>One step of the sweep of \<^verbatim>\<open>process_reap_orphans\<close>.\<close>

definition reap_step :: "nat \<Rightarrow> nat \<times> procs \<Rightarrow> nat \<times> procs" where
  "reap_step i ns =
     (let (n, s) = ns in
      if pstate s i = PROC_STATE_ZOMBIE \<and> pr_parent (proc_table s i) = None
      then (let s1 = process_destroy (Some i) s in (if pstate s1 i = PROC_STATE_UNUSED then n + 1 else n, s1))
      else (n, s))"

definition process_reap_orphans :: "procs \<Rightarrow> nat \<times> procs" where
  "process_reap_orphans s = fold reap_step [0..<PROCESS_MAX] (0, s)"

subsection \<open>Creation, fork and exit\<close>

definition process_create_with_parent ::
  "u64 option \<Rightarrow> u64 option \<Rightarrow> u64 \<Rightarrow> string option \<Rightarrow> u32 \<Rightarrow> u32 \<Rightarrow> nat option \<Rightarrow> procs \<Rightarrow> nat option \<times> procs" where
  "process_create_with_parent node kstack trampoline name uid gid parent s =
     (case find (\<lambda>i. pstate s i = PROC_STATE_UNUSED) [0..<PROCESS_MAX] of None \<Rightarrow> (None, s)
      | Some i \<Rightarrow>
          (let nm = take (PROCESS_NAME_MAX - 1) (case name of None \<Rightarrow> ''unnamed'' | Some n \<Rightarrow> n);
               p0 = process_zero\<lparr>pr_pid := next_proc_pid s,
                      pr_ppid := (case parent of None \<Rightarrow> 0 | Some q \<Rightarrow> pr_pid (((proc_table s)(i := process_zero)) q)),
                      pr_name := nm, pr_state := PROC_STATE_EMBRYO, pr_uid := uid, pr_gid := gid\<rparr>;
               s1 = (upd_proc i (\<lambda>_. p0) s)\<lparr>next_proc_pid := next_proc_pid s + 1\<rparr>;
               (asp, vms1) = vmm_create_address_space node (ps_vms s1);
               s2 = upd_proc i (\<lambda>p. p\<lparr>pr_address_space := asp\<rparr>) (s1\<lparr>ps_vms := vms1\<rparr>)
           in if asp = None then (None, upd_proc i (\<lambda>p. p\<lparr>pr_state := PROC_STATE_UNUSED\<rparr>) s2)
              else
                (let (t, sched1) = task_create kstack (vmm_kernel_pml4_phys (ps_vms s2)) trampoline nm 0 0
                       TASK_PRIORITY_NORMAL (ps_sched s2);
                     s3 = upd_proc i (\<lambda>p. p\<lparr>pr_main_thread := t\<rparr>) (s2\<lparr>ps_sched := sched1\<rparr>)
                 in if t = None
                    then (None, upd_proc i (\<lambda>p. p\<lparr>pr_address_space := None, pr_state := PROC_STATE_UNUSED\<rparr>)
                           (s3\<lparr>ps_vms := vmm_destroy_address_space asp (ps_vms s3)\<rparr>))
                    else (Some i, process_link_child i parent s3))))"

definition process_create ::
  "u64 option \<Rightarrow> u64 option \<Rightarrow> u64 \<Rightarrow> string option \<Rightarrow> u32 \<Rightarrow> u32 \<Rightarrow> procs \<Rightarrow> nat option \<times> procs" where
  "process_create node kstack trampoline name uid gid s =
     process_create_with_parent node kstack trampoline name uid gid (process_current s) s"

definition process_create_root ::
  "u64 option \<Rightarrow> u64 option \<Rightarrow> u64 \<Rightarrow> string option \<Rightarrow> u32 \<Rightarrow> u32 \<Rightarrow> procs \<Rightarrow> nat option \<times> procs" where
  "process_create_root node kstack trampoline name uid gid s =
     process_create_with_parent node kstack trampoline name uid gid None s"

text \<open>\<open>node2\<close> is the struct of the cloned address space.\<close>

definition process_fork ::
  "u64 option \<Rightarrow> u64 option \<Rightarrow> u64 option \<Rightarrow> u64 \<Rightarrow> nat option \<Rightarrow> procs \<Rightarrow> nat option \<times> procs" where
  "process_fork node node2 kstack trampoline proc s =
     (case proc of None \<Rightarrow> (None, s)
      | Some par \<Rightarrow>
          (let pp = proc_table s par in
           case process_create node kstack trampoline (Some (pr_name pp)) (pr_uid pp) (pr_gid pp) s of
             (None, s1) \<Rightarrow> (None, s1)
           | (Some c, s1) \<Rightarrow>
               (let s2 = process_link_child c (Some par) (process_unlink_child c s1);
                    (failed, s3) =
                      (case pr_address_space (proc_table s2 par) of None \<Rightarrow> (False, s2)
                       | Some a \<Rightarrow>
                           (case vmm_clone_address_space node2 (Some a) (ps_vms s2) of
                              (None, vms1) \<Rightarrow> (True, process_destroy (Some c) (s2\<lparr>ps_vms := vms1\<rparr>))
                            | (Some cl, vms1) \<Rightarrow>
                                (let vms2 = vmm_destroy_address_space (pr_address_space (proc_table s2 c)) vms1;
                                     root = as_pml4_phys (the (vs_spaces vms2 cl));
                                     sc = (case pr_main_thread (proc_table s2 c) of None \<Rightarrow> ps_sched s2
                                           | Some t \<Rightarrow> upd_task t (\<lambda>k. k\<lparr>tk_cr3 := root,
                                                tk_context := (tk_context k)\<lparr>cx_cr3 := root\<rparr>\<rparr>) (ps_sched s2))
                                 in (False, upd_proc c (\<lambda>p. p\<lparr>pr_address_space := Some cl\<rparr>)
                                              (s2\<lparr>ps_vms := vms2, ps_sched := sc\<rparr>)))))
                in if failed then (None, s3)
                   else (Some c, upd_proc c (\<lambda>p. p\<lparr>pr_brk := pr_brk (proc_table s3 par),
                          pr_heap_start := pr_heap_start (proc_table s3 par), pr_stack_top := pr_stack_top (proc_table s3 par),
                          pr_fds := (\<lambda>k. if k < PROCESS_FD_MAX then pr_fds (proc_table s3 par) k else pr_fds p k)\<rparr>) s3))))"

text \<open>\<^verbatim>\<open>process_exit\<close> up to the switch away; with no current process the code halts for ever (\<open>None\<close>).\<close>

definition process_exit :: "int \<Rightarrow> procs \<Rightarrow> procs option" where
  "process_exit code s =
     (case process_current s of None \<Rightarrow> None
      | Some me \<Rightarrow>
          (let s1 = upd_proc me (\<lambda>p. p\<lparr>pr_exit_code := code, pr_state := PROC_STATE_ZOMBIE\<rparr>) s;
               s2 = notify_teardown me (free_all_fds me s1)
           in Some (s2\<lparr>ps_sched := task_exit code (ps_sched s2)\<rparr>)))"

text \<open>
  \<^verbatim>\<open>process_wait\<close>; \<open>env\<close> is what the rest of the system does during one \<^verbatim>\<open>task_yield\<close>. The loops may run for
  ever, which is the result \<open>None\<close>.
\<close>

partial_function (option) wait_zombie :: "(procs \<Rightarrow> procs) \<Rightarrow> nat \<Rightarrow> procs \<Rightarrow> procs option" where
  "wait_zombie env i s = (if pstate s i = PROC_STATE_ZOMBIE then Some s else wait_zombie env i (env s))"

partial_function (option) wait_destroy :: "(procs \<Rightarrow> procs) \<Rightarrow> nat \<Rightarrow> procs \<Rightarrow> procs option" where
  "wait_destroy env i s =
     (if pstate s i = PROC_STATE_UNUSED then Some s
      else (let s1 = process_destroy (Some i) s
            in wait_destroy env i (if pstate s1 i \<noteq> PROC_STATE_UNUSED then env s1 else s1)))"

definition process_wait :: "(procs \<Rightarrow> procs) \<Rightarrow> u32 \<Rightarrow> procs \<Rightarrow> (int \<times> int option \<times> procs) option" where
  "process_wait env pid s =
     (case process_by_pid pid s of None \<Rightarrow> Some (-1, None, s)
      | Some i \<Rightarrow>
          (case wait_zombie env i s of None \<Rightarrow> None
           | Some s1 \<Rightarrow>
               (case wait_destroy env i s1 of None \<Rightarrow> None
                | Some s2 \<Rightarrow> Some (0, Some (pr_exit_code (proc_table s1 i)), s2))))"

subsection \<open>Snapshots (\<^verbatim>\<open>process_iter.c\<close>)\<close>

record process_stats =
  st_pid :: u32
  st_ppid :: u32
  st_state :: process_state
  st_uid :: u32
  st_gid :: u32
  st_brk :: u64
  st_heap_start :: u64
  st_stack_top :: u64
  st_rss_pages :: u64
  st_exit_code :: int
  st_main_thread_pid :: u32
  st_name :: string

definition process_iter_copy_name :: "string option \<Rightarrow> string" where
  "process_iter_copy_name src = (case src of None \<Rightarrow> [] | Some n \<Rightarrow> take (PROCESS_NAME_MAX - 1) n)"

definition process_iter_fill_stats :: "nat option \<Rightarrow> procs \<Rightarrow> process_stats" where
  "process_iter_fill_stats ip s =
     (case ip of
        None \<Rightarrow> \<lparr>st_pid = 0, st_ppid = 0, st_state = PROC_STATE_UNUSED, st_uid = 0, st_gid = 0, st_brk = 0,
                 st_heap_start = 0, st_stack_top = 0, st_rss_pages = 0, st_exit_code = 0, st_main_thread_pid = 0, st_name = []\<rparr>
      | Some i \<Rightarrow> (let p = proc_table s i in
          \<lparr>st_pid = pr_pid p, st_ppid = pr_ppid p, st_state = pr_state p, st_uid = pr_uid p, st_gid = pr_gid p,
           st_brk = pr_brk p, st_heap_start = pr_heap_start p, st_stack_top = pr_stack_top p,
           st_rss_pages = vmm_address_space_rss (Option.bind (pr_address_space p) (vs_spaces (ps_vms s))),
           st_exit_code = pr_exit_code p,
           st_main_thread_pid = (case pr_main_thread p of None \<Rightarrow> 0 | Some t \<Rightarrow> tk_pid (task_table (ps_sched s) t)),
           st_name = process_iter_copy_name (Some (pr_name p))\<rparr>))"

text \<open>The result, the new \<^verbatim>\<open>next_index\<close>, and the snapshot when there is one.\<close>

function process_iter_advance :: "nat \<Rightarrow> procs \<Rightarrow> int \<times> nat \<times> process_stats option" where
  "process_iter_advance next_index s =
     (case process_at_index next_index of None \<Rightarrow> (0, next_index, None)
      | Some i \<Rightarrow>
          if pstate s i = PROC_STATE_UNUSED then process_iter_advance (next_index + 1) s
          else (1, next_index + 1, Some (process_iter_fill_stats (Some i) s)))"
  by pat_completeness auto
termination
  by (relation "measure (\<lambda>(k, _). PROCESS_MAX - k)") (auto simp: process_at_index_def split: if_splits)

declare process_iter_advance.simps [simp del]

definition process_iter_first :: "procs \<Rightarrow> int \<times> nat \<times> process_stats option" where
  "process_iter_first s = process_iter_advance 0 s"

definition process_iter_next :: "nat \<Rightarrow> procs \<Rightarrow> int \<times> nat \<times> process_stats option" where
  "process_iter_next it s = process_iter_advance it s"

definition process_stats_get :: "u32 \<Rightarrow> procs \<Rightarrow> int \<times> process_stats option" where
  "process_stats_get pid s =
     (if pid = 0 then (-1, None)
      else case process_by_pid pid s of None \<Rightarrow> (-1, None)
        | Some i \<Rightarrow> if pstate s i = PROC_STATE_UNUSED then (-1, None) else (0, Some (process_iter_fill_stats (Some i) s)))"

definition process_state_label :: "process_state \<Rightarrow> string" where
  "process_state_label st =
     (case st of PROC_STATE_UNUSED \<Rightarrow> ''unused'' | PROC_STATE_EMBRYO \<Rightarrow> ''embryo'' | PROC_STATE_RUNNING \<Rightarrow> ''running''
      | PROC_STATE_SLEEPING \<Rightarrow> ''sleeping'' | PROC_STATE_ZOMBIE \<Rightarrow> ''zombie'')"

end
