(* ===== verification/ProcessTree.thy ===== *)
theory ProcessTree
  imports Process
begin

text \<open>
  The process tree of \<^verbatim>\<open>process.c\<close>: the links \<^verbatim>\<open>parent\<close>, \<^verbatim>\<open>children\<close> and \<^verbatim>\<open>next_sibling\<close> always spell a forest
  over the used slots (\<open>tree_ok\<close>, with the list of children of every process as a ghost), which every
  operation on processes preserves.
\<close>

subsection \<open>Sibling chains\<close>

fun sib_seg :: "process carr \<Rightarrow> nat option \<Rightarrow> nat list \<Rightarrow> nat option \<Rightarrow> bool" where
  "sib_seg tt h [] e = (h = e)"
| "sib_seg tt h (c # cs) e = (h = Some c \<and> sib_seg tt (pr_next_sibling (tt c)) cs e)"

lemma sib_seg_append: "sib_seg tt h (xs @ ys) e = (\<exists>m. sib_seg tt h xs m \<and> sib_seg tt m ys e)"
  by (induction xs arbitrary: h) auto

lemma sib_seg_cong:
  "(\<And>k. k \<in> set cs \<Longrightarrow> pr_next_sibling (tt' k) = pr_next_sibling (tt k)) \<Longrightarrow> sib_seg tt' h cs e = sib_seg tt h cs e"
  by (induction cs arbitrary: h) auto

lemma sib_seg_last:
  "sib_seg tt h (xs @ [x]) e \<Longrightarrow> x \<notin> set xs \<Longrightarrow>
   sib_seg (tt(x := (tt x)\<lparr>pr_next_sibling := n\<rparr>)) h (xs @ [x]) n"
  by (induction xs arbitrary: h) auto

lemma sib_walk_seg: "sib_seg tt h cs None \<Longrightarrow> length cs \<le> n \<Longrightarrow> sib_walk tt n h = cs"
proof (induction cs arbitrary: h n)
  case Nil
  then show ?case by (cases n) auto
next
  case (Cons c cs)
  then show ?case by (cases n) auto
qed

subsection \<open>The forest\<close>

definition tree_ok :: "process carr \<Rightarrow> (nat \<Rightarrow> nat list) \<Rightarrow> bool" where
  "tree_ok tt kids \<longleftrightarrow>
     (\<forall>p<PROCESS_MAX. sib_seg tt (pr_children (tt p)) (kids p) None \<and> distinct (kids p) \<and>
        (\<forall>c. c \<in> set (kids p) \<longleftrightarrow> c < PROCESS_MAX \<and> pr_parent (tt c) = Some p)) \<and>
     (\<forall>c<PROCESS_MAX. \<forall>p. pr_parent (tt c) = Some p \<longrightarrow> p < PROCESS_MAX)"

lemma tree_okD:
  assumes "tree_ok tt kids" and "p < PROCESS_MAX"
  shows "sib_seg tt (pr_children (tt p)) (kids p) None" and "distinct (kids p)"
    and "c \<in> set (kids p) \<longleftrightarrow> c < PROCESS_MAX \<and> pr_parent (tt c) = Some p"
    and "length (kids p) \<le> PROCESS_MAX"
proof -
  show "sib_seg tt (pr_children (tt p)) (kids p) None" and d: "distinct (kids p)"
    and s: "c \<in> set (kids p) \<longleftrightarrow> c < PROCESS_MAX \<and> pr_parent (tt c) = Some p" for c
    using assms unfolding tree_ok_def by blast+
  have "set (kids p) \<subseteq> {..<PROCESS_MAX}" using s by auto
  then have "card (set (kids p)) \<le> PROCESS_MAX" using card_mono [of "{..<PROCESS_MAX}"] by fastforce
  then show "length (kids p) \<le> PROCESS_MAX" using distinct_card [OF d] by simp
qed

lemma children_of_kids: "tree_ok (proc_table s) kids \<Longrightarrow> p < PROCESS_MAX \<Longrightarrow> children_of s p = kids p"
  unfolding children_of_def by (rule sib_walk_seg) (auto dest: tree_okD)

lemma tree_ok_same:
  assumes "tree_ok tt kids"
    and "\<And>i. pr_parent (tt' i) = pr_parent (tt i)" and "\<And>i. pr_children (tt' i) = pr_children (tt i)"
    and "\<And>i. pr_next_sibling (tt' i) = pr_next_sibling (tt i)"
  shows "tree_ok tt' kids"
  using assms(1) sib_seg_cong [of _ tt' tt] unfolding tree_ok_def assms(2,3) by (simp add: assms(4))

lemma tree_link:
  assumes "tree_ok tt kids" and "c < PROCESS_MAX" and "q < PROCESS_MAX" and "c \<noteq> q" and "pr_parent (tt c) = None"
    and "\<And>i. pr_parent (tt' i) = (if i = c then Some q else pr_parent (tt i))"
    and "\<And>i. pr_children (tt' i) = (if i = q then Some c else pr_children (tt i))"
    and "\<And>i. pr_next_sibling (tt' i) = (if i = c then pr_children (tt q) else pr_next_sibling (tt i))"
  shows "tree_ok tt' (kids(q := c # kids q))"
proof -
  have nc: "c \<notin> set (kids p)" if "p < PROCESS_MAX" for p using tree_okD(3) [OF assms(1) that, of c] assms(5) by simp
  have seg: "sib_seg tt' h (kids p) e = sib_seg tt h (kids p) e" if "p < PROCESS_MAX" for p h e
    by (rule sib_seg_cong) (use nc [OF that] in \<open>auto simp: assms(8)\<close>)
  show ?thesis
    unfolding tree_ok_def
  proof (intro conjI allI impI)
    fix p assume p: "p < PROCESS_MAX"
    note d = tree_okD [OF assms(1) p]
    show "sib_seg tt' (pr_children (tt' p)) ((kids(q := c # kids q)) p) None"
      using d(1) seg [OF p] by (auto simp: assms(7,8))
    show "distinct ((kids(q := c # kids q)) p)" using d(2) nc [OF p] by auto
    show "(k \<in> set ((kids(q := c # kids q)) p)) = (k < PROCESS_MAX \<and> pr_parent (tt' k) = Some p)" for k
      using d(3) [of k] assms(2,5) by (auto simp: assms(6))
  qed (use assms(1,3) in \<open>auto simp: tree_ok_def assms(6) split: if_splits\<close>)
qed

lemma tree_unlink:
  assumes "tree_ok tt kids" and "c < PROCESS_MAX" and "pr_parent (tt c) = Some q" and "kids q = ys @ c # zs"
    and "\<And>i. pr_parent (tt' i) = (if i = c then None else pr_parent (tt i))"
    and "\<And>i. i \<noteq> q \<or> ys \<noteq> [] \<Longrightarrow> pr_children (tt' i) = pr_children (tt i)"
    and "ys = [] \<Longrightarrow> pr_children (tt' q) = pr_next_sibling (tt c)"
    and "\<And>i. pr_next_sibling (tt' i) = (if i = c then None
            else if ys \<noteq> [] \<and> i = last ys then pr_next_sibling (tt c) else pr_next_sibling (tt i))"
  shows "tree_ok tt' (kids(q := ys @ zs))"
proof -
  have q: "q < PROCESS_MAX" using assms(1-3) unfolding tree_ok_def by blast
  note dq = tree_okD [OF assms(1) q, unfolded assms(4)]
  have notin: "i \<notin> set (kids p)" if "p < PROCESS_MAX" "p \<noteq> q" "i = c \<or> ys \<noteq> [] \<and> i = last ys" for p i
  proof -
    have "pr_parent (tt i) = Some q" using that(3) assms(3) dq(3) [of i] last_in_set [of ys] by auto
    then show ?thesis using tree_okD(3) [OF assms(1) that(1), of i] that(2) by auto
  qed
  have seg: "sib_seg tt' h (kids p) e = sib_seg tt h (kids p) e" if "p < PROCESS_MAX" "p \<noteq> q" for p h e
    by (rule sib_seg_cong) (use notin [OF that] in \<open>auto simp: assms(8)\<close>)
  have disj: "set ys \<inter> set zs = {}" and lz1: "c \<notin> set zs" using dq(2) by auto
  have lz: "c \<notin> set zs" "ys \<noteq> [] \<Longrightarrow> last ys \<notin> set zs" using lz1 disj last_in_set [of ys] by (simp, blast)
  have zseg: "sib_seg tt' h zs e = sib_seg tt h zs e" for h e
    by (rule sib_seg_cong) (use lz in \<open>auto simp: assms(8)\<close>)
  have qseg: "sib_seg tt' (pr_children (tt' q)) (ys @ zs) None"
  proof (cases ys rule: rev_cases)
    case Nil
    then show ?thesis using dq(1) assms(7) zseg by simp
  next
    case (snoc us u)
    have u: "u \<noteq> c" "u \<notin> set us" "c \<notin> set us" using dq(2) snoc by auto
    have "sib_seg tt (pr_children (tt q)) (us @ [u]) (Some c)" and nz: "sib_seg tt (pr_next_sibling (tt c)) zs None"
      using dq(1) unfolding snoc sib_seg_append by auto
    then have "sib_seg (tt(u := (tt u)\<lparr>pr_next_sibling := pr_next_sibling (tt c)\<rparr>)) (pr_children (tt q)) (us @ [u]) (pr_next_sibling (tt c))"
      using sib_seg_last u(2) by blast
    moreover have "sib_seg tt' h (us @ [u]) e = sib_seg (tt(u := (tt u)\<lparr>pr_next_sibling := pr_next_sibling (tt c)\<rparr>)) h (us @ [u]) e" for h e
      by (rule sib_seg_cong) (use u snoc in \<open>auto simp: assms(8)\<close>)
    ultimately have "sib_seg tt' (pr_children (tt' q)) ys (pr_next_sibling (tt c))" using assms(6) [of q] snoc by simp
    then show ?thesis unfolding sib_seg_append using nz zseg by blast
  qed
  show ?thesis
    unfolding tree_ok_def
  proof (intro conjI allI impI)
    fix p assume p: "p < PROCESS_MAX"
    note d = tree_okD [OF assms(1) p]
    show "sib_seg tt' (pr_children (tt' p)) ((kids(q := ys @ zs)) p) None"
      using d(1) seg [OF p] qseg assms(6) [of p] by (cases "p = q") auto
    show "distinct ((kids(q := ys @ zs)) p)" using d(2) assms(4) by (cases "p = q") auto
    show "(k \<in> set ((kids(q := ys @ zs)) p)) = (k < PROCESS_MAX \<and> pr_parent (tt' k) = Some p)" for k
      using d(3) [of k] dq(2) assms(3,4) by (cases "p = q") (auto simp: assms(5))
  qed (use assms(1) in \<open>auto simp: tree_ok_def assms(5) split: if_splits\<close>)
qed

lemma tree_orphan:
  assumes "tree_ok tt kids" and "i < PROCESS_MAX"
    and "\<And>k. pr_parent (tt' k) = (if k \<in> set (kids i) then None else pr_parent (tt k))"
    and "\<And>k. pr_children (tt' k) = (if k = i then None else pr_children (tt k))"
    and "\<And>k. pr_next_sibling (tt' k) = (if k \<in> set (kids i) then None else pr_next_sibling (tt k))"
  shows "tree_ok tt' (kids(i := []))"
proof -
  have apart: "k \<notin> set (kids i)" if "p < PROCESS_MAX" "p \<noteq> i" "k \<in> set (kids p)" for p k
    using tree_okD(3) [OF assms(1) that(1), of k] tree_okD(3) [OF assms(1,2), of k] that(2,3) by auto
  have seg: "sib_seg tt' h (kids p) e = sib_seg tt h (kids p) e" if "p < PROCESS_MAX" "p \<noteq> i" for p h e
    by (rule sib_seg_cong) (use apart [OF that] in \<open>auto simp: assms(5)\<close>)
  show ?thesis
    unfolding tree_ok_def
  proof (intro conjI allI impI)
    fix p assume p: "p < PROCESS_MAX"
    note d = tree_okD [OF assms(1) p]
    show "sib_seg tt' (pr_children (tt' p)) ((kids(i := [])) p) None"
      using d(1) seg [OF p] by (cases "p = i") (auto simp: assms(4))
    show "distinct ((kids(i := [])) p)" using d(2) by simp
    show "(k \<in> set ((kids(i := [])) p)) = (k < PROCESS_MAX \<and> pr_parent (tt' k) = Some p)" for k
      using d(3) [of k] tree_okD(3) [OF assms(1,2), of k] by (cases "p = i") (auto simp: assms(3))
  qed (use assms(1) in \<open>auto simp: tree_ok_def assms(3) split: if_splits\<close>)
qed

subsection \<open>The operations on the links\<close>

lemma upd_proc_sel [simp]:
  "proc_table (upd_proc i f s) = (proc_table s)(i := f (proc_table s i))" "next_proc_pid (upd_proc i f s) = next_proc_pid s"
  "current_proc (upd_proc i f s) = current_proc s" "ps_sched (upd_proc i f s) = ps_sched s" "ps_pipes (upd_proc i f s) = ps_pipes s"
  "ps_vms (upd_proc i f s) = ps_vms s" "ps_events (upd_proc i f s) = ps_events s" "g_teardown_fn (upd_proc i f s) = g_teardown_fn s"
  "g_socket_close_fn (upd_proc i f s) = g_socket_close_fn s"
  by (simp_all add: upd_proc_def)

text \<open>What the tree operations leave alone: everything but the links and \<^verbatim>\<open>ppid\<close>.\<close>

definition same_payload :: "procs \<Rightarrow> procs \<Rightarrow> bool" where
  "same_payload s s' \<longleftrightarrow>
     (\<forall>i. (proc_table s' i)\<lparr>pr_parent := None, pr_ppid := 0, pr_children := None, pr_next_sibling := None\<rparr> =
          (proc_table s i)\<lparr>pr_parent := None, pr_ppid := 0, pr_children := None, pr_next_sibling := None\<rparr>) \<and>
     next_proc_pid s' = next_proc_pid s \<and> current_proc s' = current_proc s \<and> ps_sched s' = ps_sched s \<and>
     ps_pipes s' = ps_pipes s \<and> ps_vms s' = ps_vms s \<and> ps_events s' = ps_events s \<and>
     g_teardown_fn s' = g_teardown_fn s \<and> g_socket_close_fn s' = g_socket_close_fn s"

lemma same_payload_fields:
  assumes "same_payload s s'"
  shows "pr_pid (proc_table s' i) = pr_pid (proc_table s i)" "pstate s' i = pstate s i"
    "pr_fds (proc_table s' i) = pr_fds (proc_table s i)" "pr_main_thread (proc_table s' i) = pr_main_thread (proc_table s i)"
    "pr_address_space (proc_table s' i) = pr_address_space (proc_table s i)"
    "pr_exit_code (proc_table s' i) = pr_exit_code (proc_table s i)"
  using assms unfolding same_payload_def
  by (metis (no_types, lifting) process.select_convs process.surjective process.update_convs)+

lemma same_payload_refl [simp]: "same_payload s s"
  by (simp add: same_payload_def)

lemma same_payload_trans: "same_payload a b \<Longrightarrow> same_payload b c \<Longrightarrow> same_payload a c"
  by (simp add: same_payload_def)

lemma same_payload_upd:
  assumes "\<And>p. (f p)\<lparr>pr_parent := None, pr_ppid := 0, pr_children := None, pr_next_sibling := None\<rparr> =
      p\<lparr>pr_parent := None, pr_ppid := 0, pr_children := None, pr_next_sibling := None\<rparr>"
  shows "same_payload s (upd_proc i f s)"
  using assms by (simp add: same_payload_def)

lemma tree_ok_next:
  assumes "tree_ok tt kids" and "pr_parent (tt c) = None"
    and "\<And>i. pr_parent (tt' i) = pr_parent (tt i)" and "\<And>i. pr_children (tt' i) = pr_children (tt i)"
    and "\<And>i. i \<noteq> c \<Longrightarrow> pr_next_sibling (tt' i) = pr_next_sibling (tt i)"
  shows "tree_ok tt' kids"
proof -
  have seg: "sib_seg tt' h (kids p) e = sib_seg tt h (kids p) e" if p: "p < PROCESS_MAX" for p h e
  proof (rule sib_seg_cong)
    fix k assume "k \<in> set (kids p)"
    with tree_okD(3) [OF assms(1) p, of k] assms(2) have "k \<noteq> c" by auto
    then show "pr_next_sibling (tt' k) = pr_next_sibling (tt k)" by (rule assms(5))
  qed
  show ?thesis
    unfolding tree_ok_def assms(3,4)
  proof (intro conjI allI impI)
    fix p assume p: "p < PROCESS_MAX"
    note d = tree_okD [OF assms(1) p]
    show "sib_seg tt' (pr_children (tt p)) (kids p) None" using d(1) seg [OF p] by simp
    show "distinct (kids p)" by (rule d(2))
    show "(k \<in> set (kids p)) = (k < PROCESS_MAX \<and> pr_parent (tt k) = Some p)" for k by (rule d(3))
  next
    fix k p assume "k < PROCESS_MAX" "pr_parent (tt k) = Some p"
    then show "p < PROCESS_MAX" using assms(1) unfolding tree_ok_def by blast
  qed
qed

lemma unlink_tree:
  assumes "tree_ok (proc_table s) kids" and "c < PROCESS_MAX"
  obtains kids' where "tree_ok (proc_table (process_unlink_child c s)) kids'"
    "\<And>i. pr_parent (proc_table (process_unlink_child c s) i) = (if i = c then None else pr_parent (proc_table s i))"
    "\<And>i. pr_children (proc_table s i) = None \<Longrightarrow> pr_children (proc_table (process_unlink_child c s) i) = None"
    "\<And>i. pr_ppid (proc_table (process_unlink_child c s) i) = pr_ppid (proc_table s i)"
    "same_payload s (process_unlink_child c s)"
proof (cases "pr_parent (proc_table s c)")
  case None
  let ?s = "upd_proc c (\<lambda>p. p\<lparr>pr_next_sibling := None\<rparr>) s"
  have "tree_ok (proc_table ?s) kids" by (rule tree_ok_next [OF assms(1) None]) auto
  then show ?thesis
    using None by (intro that [of kids]) (auto simp: process_unlink_child_def intro: same_payload_upd)
next
  case (Some q)
  have q: "q < PROCESS_MAX" using assms Some unfolding tree_ok_def by blast
  have "c \<in> set (kids q)" using tree_okD(3) [OF assms(1) q] assms(2) Some by simp
  then obtain ys zs where k: "kids q = ys @ c # zs" "c \<notin> set ys" by (meson split_list_first)
  have ks: "children_of s q = ys @ c # zs" using children_of_kids [OF assms(1) q] k by simp
  let ?n = "pr_next_sibling (proc_table s c)"
  let ?s1 = "if ys = [] then upd_proc q (\<lambda>p. p\<lparr>pr_children := ?n\<rparr>) s
    else upd_proc (last ys) (\<lambda>p. p\<lparr>pr_next_sibling := ?n\<rparr>) s"
  let ?s = "upd_proc c (\<lambda>p. p\<lparr>pr_next_sibling := None, pr_parent := None\<rparr>) ?s1"
  have hd: "(hd (ys @ c # zs) = c) = (ys = [])" using k(2) by (cases ys) auto
  have "takeWhile (\<lambda>k. k \<noteq> c) (ys @ c # zs) = ys" using k(2) by (induction ys) auto
  then have u: "process_unlink_child c s = ?s" by (auto simp: process_unlink_child_def Some ks hd Let_def)
  have nc: "ys \<noteq> [] \<Longrightarrow> last ys \<noteq> c" using k(2) last_in_set [of ys] by metis
  have "tree_ok (proc_table ?s) (kids(q := ys @ zs))"
    by (rule tree_unlink [OF assms(1,2) Some k(1)]) (use nc in auto)
  moreover have "pr_children (proc_table s q) \<noteq> None" using tree_okD(1) [OF assms(1) q] k(1) by (cases ys) auto
  moreover have "same_payload s ?s1" by (auto intro: same_payload_upd)
  then have "same_payload s ?s" by (rule same_payload_trans) (auto intro: same_payload_upd)
  ultimately show ?thesis by (intro that [of "kids(q := ys @ zs)"]; unfold u) (auto split: if_splits)
qed

lemma link_tree:
  assumes "tree_ok (proc_table s) kids" and "c < PROCESS_MAX" and "pr_parent (proc_table s c) = None"
    and "\<And>q. par = Some q \<Longrightarrow> q < PROCESS_MAX \<and> q \<noteq> c"
  defines "s' \<equiv> process_link_child c par s"
  shows "\<exists>kids'. tree_ok (proc_table s') kids'"
    and "pr_parent (proc_table s' i) = (if i = c then par else pr_parent (proc_table s i))"
    and "pr_children (proc_table s' i) = (if par = Some i then Some c else pr_children (proc_table s i))"
    and "pr_ppid (proc_table s' i) =
        (if i = c then (case par of None \<Rightarrow> 0 | Some q \<Rightarrow> pr_pid (proc_table s q)) else pr_ppid (proc_table s i))"
    and "same_payload s s'"
proof -
  show "pr_parent (proc_table s' i) = (if i = c then par else pr_parent (proc_table s i))"
    and "pr_children (proc_table s' i) = (if par = Some i then Some c else pr_children (proc_table s i))"
    and "pr_ppid (proc_table s' i) =
        (if i = c then (case par of None \<Rightarrow> 0 | Some q \<Rightarrow> pr_pid (proc_table s q)) else pr_ppid (proc_table s i))"
    and "same_payload s s'"
    using assms(3,4) by (auto simp: s'_def process_link_child_def same_payload_def split: option.split)
  show "\<exists>kids'. tree_ok (proc_table s') kids'"
  proof (cases par)
    case None
    have "tree_ok (proc_table s') kids"
      by (rule tree_ok_next [OF assms(1,3)]) (auto simp: s'_def None process_link_child_def assms(3))
    then show ?thesis by blast
  next
    case (Some q)
    have q: "q < PROCESS_MAX" "q \<noteq> c" using assms(4) Some by auto
    have "tree_ok (proc_table s') (kids(q := c # kids q))"
      by (rule tree_link [OF assms(1,2) q(1) q(2) [symmetric] assms(3)])
        (use q in \<open>auto simp: s'_def Some process_link_child_def\<close>)
    then show ?thesis by blast
  qed
qed

lemma fold_upd_proc:
  assumes "\<And>p. g (g p) = g p"
  shows "proc_table (fold (\<lambda>c. upd_proc c g) cs s) k = (if k \<in> set cs then g (proc_table s k) else proc_table s k)"
  by (induction cs arbitrary: s) (auto simp: assms)

lemma fold_upd_proc_payload:
  "(\<And>i s. same_payload s (f i s)) \<Longrightarrow> same_payload s (fold f cs s)"
  by (induction cs arbitrary: s) (auto intro: same_payload_trans)

lemma orphan_tree:
  assumes "tree_ok (proc_table s) kids" and "i < PROCESS_MAX"
  shows "tree_ok (proc_table (orphan_children i s)) (kids(i := []))"
    and "pr_parent (proc_table (orphan_children i s) k) = (if k \<in> set (kids i) then None else pr_parent (proc_table s k))"
    and "pr_children (proc_table (orphan_children i s) k) = (if k = i then None else pr_children (proc_table s k))"
    and "pr_ppid (proc_table (orphan_children i s) k) = (if k \<in> set (kids i) then 0 else pr_ppid (proc_table s k))"
    and "same_payload s (orphan_children i s)"
proof -
  let ?g = "\<lambda>p. p\<lparr>pr_parent := None, pr_ppid := 0, pr_next_sibling := None\<rparr>"
  let ?s = "orphan_children i s"
  have c: "children_of s i = kids i" by (rule children_of_kids [OF assms])
  have t: "proc_table ?s k = (let p = (if k \<in> set (kids i) then ?g (proc_table s k) else proc_table s k)
      in if k = i then p\<lparr>pr_children := None\<rparr> else p)" for k
    by (simp add: orphan_children_def c fold_upd_proc Let_def)
  show "pr_parent (proc_table ?s k) = (if k \<in> set (kids i) then None else pr_parent (proc_table s k))"
    and "pr_children (proc_table ?s k) = (if k = i then None else pr_children (proc_table s k))"
    and "pr_ppid (proc_table ?s k) = (if k \<in> set (kids i) then 0 else pr_ppid (proc_table s k))" for k
    by (simp_all add: t Let_def)
  show "tree_ok (proc_table ?s) (kids(i := []))" by (rule tree_orphan [OF assms]) (simp_all add: t Let_def)
  show "same_payload s ?s"
    unfolding orphan_children_def
    by (rule same_payload_trans [OF fold_upd_proc_payload same_payload_upd]) (auto intro: same_payload_upd)
qed

subsection \<open>The invariant\<close>

definition ppid_ok :: "procs \<Rightarrow> nat \<Rightarrow> bool" where
  "ppid_ok s i \<longleftrightarrow> pr_ppid (proc_table s i) =
     (case pr_parent (proc_table s i) of None \<Rightarrow> 0 | Some p \<Rightarrow> pr_pid (proc_table s p))"

definition proc_inv :: "procs \<Rightarrow> bool" where
  "proc_inv s \<longleftrightarrow> current_proc s = None \<and> (\<exists>kids. tree_ok (proc_table s) kids) \<and>
     (\<forall>i<PROCESS_MAX. pstate s i = PROC_STATE_UNUSED \<longrightarrow>
        pr_parent (proc_table s i) = None \<and> pr_children (proc_table s i) = None) \<and>
     (\<forall>i<PROCESS_MAX. pstate s i \<noteq> PROC_STATE_UNUSED \<longrightarrow> ppid_ok s i)"

text \<open>What the operations on descriptors, threads and address spaces leave alone.\<close>

definition same_tree :: "procs \<Rightarrow> procs \<Rightarrow> bool" where
  "same_tree s s' \<longleftrightarrow> current_proc s' = current_proc s \<and>
     (\<forall>i. pr_parent (proc_table s' i) = pr_parent (proc_table s i) \<and>
          pr_children (proc_table s' i) = pr_children (proc_table s i) \<and>
          pr_next_sibling (proc_table s' i) = pr_next_sibling (proc_table s i) \<and>
          pr_pid (proc_table s' i) = pr_pid (proc_table s i) \<and> pr_ppid (proc_table s' i) = pr_ppid (proc_table s i) \<and>
          (pstate s' i = PROC_STATE_UNUSED) = (pstate s i = PROC_STATE_UNUSED))"

lemma same_tree_refl [simp]: "same_tree s s"
  by (simp add: same_tree_def)

lemma same_tree_trans: "same_tree a b \<Longrightarrow> same_tree b c \<Longrightarrow> same_tree a c"
  by (simp add: same_tree_def)

lemma same_tree_fold: "(\<And>x s. same_tree s (f x s)) \<Longrightarrow> same_tree s (fold f xs s)"
  by (induction xs arbitrary: s) (auto intro: same_tree_trans)

lemma tree_ok_same_tree: "tree_ok (proc_table s) kids \<Longrightarrow> same_tree s s' \<Longrightarrow> tree_ok (proc_table s') kids"
  by (erule tree_ok_same) (auto simp: same_tree_def)

lemma proc_inv_same:
  assumes "proc_inv s" and "same_tree s s'"
  shows "proc_inv s'"
proof -
  have eq: "pr_parent (proc_table s' i) = pr_parent (proc_table s i)" "pr_children (proc_table s' i) = pr_children (proc_table s i)"
    "pr_pid (proc_table s' i) = pr_pid (proc_table s i)" "pr_ppid (proc_table s' i) = pr_ppid (proc_table s i)"
    "(pstate s' i = PROC_STATE_UNUSED) = (pstate s i = PROC_STATE_UNUSED)" "current_proc s' = current_proc s" for i
    using assms(2) by (simp_all add: same_tree_def)
  show ?thesis
    using assms(1) tree_ok_same_tree [OF _ assms(2)] unfolding proc_inv_def ppid_ok_def eq by blast
qed

lemma close_slot_table [simp]: "proc_table (close_slot d s) = proc_table s" "current_proc (close_slot d s) = current_proc s"
  "ps_sched (close_slot d s) = ps_sched s" "ps_vms (close_slot d s) = ps_vms s" "g_teardown_fn (close_slot d s) = g_teardown_fn s"
  by (simp_all add: close_slot_def split: fd_type.split)

lemma same_tree_ops:
  "same_tree s (process_fd_free pr fd s)" "same_tree s (free_all_fds i s)" "same_tree s (notify_teardown i s)"
  "same_tree s (kill_main_thread i s)" "same_tree s (drop_address_space i s)"
proof -
  show fd: "same_tree s (process_fd_free pr fd s)" for pr fd s
    by (cases pr) (simp_all add: process_fd_free_def same_tree_def)
  show "same_tree s (free_all_fds i s)" unfolding free_all_fds_def by (rule same_tree_fold) (rule fd)
qed (simp_all add: notify_teardown_def kill_main_thread_def drop_address_space_def same_tree_def split: option.split)

lemma no_kids:
  assumes "tree_ok tt kids" and "i < PROCESS_MAX" and "pr_children (tt i) = None" and "c < PROCESS_MAX"
  shows "pr_parent (tt c) \<noteq> Some i"
proof -
  have "kids i = []" using tree_okD(1) [OF assms(1,2)] assms(3) by (cases "kids i") auto
  then show ?thesis using tree_okD(3) [OF assms(1,2), of c] assms(4) by simp
qed

text \<open>The detached slot is the state before the payload is torn down.\<close>

lemma detach_tree:
  assumes "proc_inv s" and "i < PROCESS_MAX" and "pstate s i \<noteq> PROC_STATE_UNUSED"
  defines "s2 \<equiv> process_unlink_child i (orphan_children i s)"
  shows "\<exists>kids. tree_ok (proc_table s2) kids" and "pr_parent (proc_table s2 i) = None" and "pr_children (proc_table s2 i) = None"
    and "same_payload s s2"
    and "\<And>k. k < PROCESS_MAX \<Longrightarrow> k \<noteq> i \<Longrightarrow> pr_parent (proc_table s2 k) = (if pr_parent (proc_table s k) = Some i then None else pr_parent (proc_table s k))"
    and "\<And>k. k < PROCESS_MAX \<Longrightarrow> k \<noteq> i \<Longrightarrow> pr_ppid (proc_table s2 k) = (if pr_parent (proc_table s k) = Some i then 0 else pr_ppid (proc_table s k))"
    and "\<And>k. pr_children (proc_table s k) = None \<Longrightarrow> pr_children (proc_table s2 k) = None"
proof -
  obtain kids where kids: "tree_ok (proc_table s) kids" using assms(1) by (auto simp: proc_inv_def)
  let ?s1 = "orphan_children i s"
  note o = orphan_tree [OF kids assms(2)]
  have k: "k \<in> set (kids i) \<longleftrightarrow> pr_parent (proc_table s k) = Some i" if "k < PROCESS_MAX" for k
    using tree_okD(3) [OF kids assms(2), of k] that by simp
  obtain kids' where u: "tree_ok (proc_table s2) kids'"
    "\<And>k. pr_parent (proc_table s2 k) = (if k = i then None else pr_parent (proc_table ?s1 k))"
    "\<And>k. pr_children (proc_table ?s1 k) = None \<Longrightarrow> pr_children (proc_table s2 k) = None"
    "\<And>k. pr_ppid (proc_table s2 k) = pr_ppid (proc_table ?s1 k)" "same_payload ?s1 s2"
    unfolding s2_def by (rule unlink_tree [OF o(1) assms(2)]) blast
  show "\<exists>kids. tree_ok (proc_table s2) kids" using u(1) by blast
  show "pr_parent (proc_table s2 i) = None" "pr_children (proc_table s2 i) = None" by (simp_all add: u(2,3) o(3))
  show "same_payload s s2" by (rule same_payload_trans [OF o(5) u(5)])
  show "pr_parent (proc_table s2 n) = (if pr_parent (proc_table s n) = Some i then None else pr_parent (proc_table s n))"
    "pr_ppid (proc_table s2 n) = (if pr_parent (proc_table s n) = Some i then 0 else pr_ppid (proc_table s n))"
    if "n < PROCESS_MAX" "n \<noteq> i" for n
    using that by (simp_all add: u(2,4) o(2,4) k)
  show "pr_children (proc_table s2 n) = None" if "pr_children (proc_table s n) = None" for n
    using that by (intro u(3)) (simp add: o(3))
qed

lemma process_destroy_inv [capy_inv]:
  assumes "proc_inv s" and "i < PROCESS_MAX"
  shows "proc_inv (process_destroy (Some i) s)"
proof (cases "pstate s i = PROC_STATE_UNUSED \<or> vmm_address_space_is_active (pr_address_space (proc_table s i)) (ps_vms s)")
  case True
  then show ?thesis using assms(1) by (auto simp: process_destroy_def)
next
  case False
  then have live: "pstate s i \<noteq> PROC_STATE_UNUSED" by simp
  define s2 where "s2 = process_unlink_child i (orphan_children i s)"
  define s3 where "s3 = notify_teardown i (free_all_fds i (drop_address_space i (kill_main_thread i s2)))"
  note d = detach_tree [OF assms live, folded s2_def]
  note pay = same_payload_fields [OF d(4)]
  have t3: "same_tree s2 s3"
    unfolding s3_def
    by (rule same_tree_trans [OF same_tree_trans [OF same_tree_trans [OF same_tree_ops(4,5)] same_tree_ops(2)] same_tree_ops(3)])
  have eq: "pr_parent (proc_table s3 k) = pr_parent (proc_table s2 k)" "pr_children (proc_table s3 k) = pr_children (proc_table s2 k)"
    "pr_pid (proc_table s3 k) = pr_pid (proc_table s k)" "pr_ppid (proc_table s3 k) = pr_ppid (proc_table s2 k)"
    "(pstate s3 k = PROC_STATE_UNUSED) = (pstate s k = PROC_STATE_UNUSED)" for k
    using t3 pay by (simp_all add: same_tree_def)
  let ?s = "upd_proc i (\<lambda>p. p\<lparr>pr_state := PROC_STATE_UNUSED\<rparr>) s3"
  have ps: "process_destroy (Some i) s = ?s" using False by (simp add: process_destroy_def s3_def s2_def)
  obtain kids where kids: "tree_ok (proc_table s3) kids" using d(1) tree_ok_same_tree [OF _ t3] by blast
  have "tree_ok (proc_table ?s) kids" by (rule tree_ok_same [OF kids]) simp_all
  moreover have "ppid_ok ?s k" if k: "k < PROCESS_MAX" "pstate ?s k \<noteq> PROC_STATE_UNUSED" for k
  proof -
    have k': "k \<noteq> i" "pstate s k \<noteq> PROC_STATE_UNUSED" using k(2) eq(5) by (auto split: if_splits)
    then have "ppid_ok s k" using assms(1) k(1) by (simp add: proc_inv_def)
    then show ?thesis using d(5,6) [OF k(1) k'(1)] k'(1) by (auto simp: ppid_ok_def eq split: option.split)
  qed
  moreover have "pr_parent (proc_table ?s k) = None \<and> pr_children (proc_table ?s k) = None"
    if k: "k < PROCESS_MAX" "pstate ?s k = PROC_STATE_UNUSED" for k
  proof (cases "k = i")
    case True
    then show ?thesis using d(2,3) by (simp add: eq)
  next
    case False
    with k(2) eq(5) have "pr_parent (proc_table s k) = None" "pr_children (proc_table s k) = None"
      using assms(1) k(1) by (auto simp: proc_inv_def)
    then show ?thesis using d(5) [OF k(1) False] d(7) False by (simp add: eq)
  qed
  moreover have "current_proc ?s = None"
    using assms(1) d(4) t3 by (simp add: proc_inv_def same_payload_def same_tree_def)
  ultimately show ?thesis unfolding ps proc_inv_def by blast
qed

lemma fresh_slot:
  assumes "proc_inv s" and "i < PROCESS_MAX" and "pstate s i = PROC_STATE_UNUSED"
    and "proc_table s' = (proc_table s)(i := p)" and "pr_parent p = None" and "pr_children p = None"
    and "current_proc s' = current_proc s"
  shows "\<exists>kids. tree_ok (proc_table s') kids"
    and "\<And>k. k < PROCESS_MAX \<Longrightarrow> k \<noteq> i \<Longrightarrow> pstate s k \<noteq> PROC_STATE_UNUSED \<Longrightarrow> ppid_ok s' k"
    and "\<And>k. k < PROCESS_MAX \<Longrightarrow> pstate s' k = PROC_STATE_UNUSED \<Longrightarrow> pr_parent (proc_table s' k) = None \<and> pr_children (proc_table s' k) = None"
    and "pr_state p = PROC_STATE_UNUSED \<Longrightarrow> proc_inv s'"
proof -
  obtain kids where kids: "tree_ok (proc_table s) kids" using assms(1) by (auto simp: proc_inv_def)
  have old: "pr_parent (proc_table s i) = None" "pr_children (proc_table s i) = None"
    using assms(1-3) by (auto simp: proc_inv_def)
  have t: "tree_ok (proc_table s') kids"
    by (rule tree_ok_next [OF kids old(1)]) (simp_all add: assms(4-6) old)
  then show e: "\<exists>kids. tree_ok (proc_table s') kids" by blast
  show pp: "ppid_ok s' k" if "k < PROCESS_MAX" "k \<noteq> i" "pstate s k \<noteq> PROC_STATE_UNUSED" for k
  proof -
    have "ppid_ok s k" using assms(1) that by (simp add: proc_inv_def)
    then show ?thesis
      using no_kids [OF kids assms(2) old(2) that(1)] that(2) by (auto simp: ppid_ok_def assms(4) split: option.split)
  qed
  show un: "pr_parent (proc_table s' k) = None \<and> pr_children (proc_table s' k) = None"
    if "k < PROCESS_MAX" "pstate s' k = PROC_STATE_UNUSED" for k
    using that assms(1,5,6) by (cases "k = i") (auto simp: assms(4) proc_inv_def)
  show "proc_inv s'" if "pr_state p = PROC_STATE_UNUSED"
  proof -
    have "pstate s' k \<noteq> PROC_STATE_UNUSED \<Longrightarrow> k \<noteq> i \<and> pstate s k \<noteq> PROC_STATE_UNUSED" for k
      using that by (auto simp: assms(4) split: if_splits)
    then show ?thesis using e pp un assms(1,7) by (simp add: proc_inv_def)
  qed
qed

lemma create_split:
  assumes "process_create_with_parent node kstack tr name uid gid parent s = (r, s')"
  obtains "r = None" "s' = s"
    | i p where "i < PROCESS_MAX" "pstate s i = PROC_STATE_UNUSED" "r = None" "proc_table s' = (proc_table s)(i := p)"
        "pr_parent p = None" "pr_children p = None" "pr_state p = PROC_STATE_UNUSED" "current_proc s' = current_proc s"
    | i p s3 where "i < PROCESS_MAX" "pstate s i = PROC_STATE_UNUSED" "r = Some i" "proc_table s3 = (proc_table s)(i := p)"
        "pr_parent p = None" "pr_children p = None" "pr_state p = PROC_STATE_EMBRYO" "pr_fds p = (\<lambda>_. fd_free_slot)"
        "current_proc s3 = current_proc s" "s' = process_link_child i parent s3" "ps_pipes s3 = ps_pipes s"
proof (cases "find (\<lambda>i. pstate s i = PROC_STATE_UNUSED) [0..<PROCESS_MAX]")
  case None
  with assms show ?thesis by (intro that(1)) (auto simp: process_create_with_parent_def)
next
  case (Some i)
  then have i: "i < PROCESS_MAX" "pstate s i = PROC_STATE_UNUSED" by (auto simp: find_upt_Some)
  define nm where "nm = take (PROCESS_NAME_MAX - 1) (case name of None \<Rightarrow> ''unnamed'' | Some n \<Rightarrow> n)"
  define p0 where "p0 = process_zero\<lparr>pr_pid := next_proc_pid s,
                      pr_ppid := (case parent of None \<Rightarrow> 0 | Some q \<Rightarrow> pr_pid (((proc_table s)(i := process_zero)) q)),
                      pr_name := nm, pr_state := PROC_STATE_EMBRYO, pr_uid := uid, pr_gid := gid\<rparr>"
  define s1 where "s1 = (upd_proc i (\<lambda>_. p0) s)\<lparr>next_proc_pid := next_proc_pid s + 1\<rparr>"
  obtain asp vms1 where c: "vmm_create_address_space node (ps_vms s1) = (asp, vms1)" by fastforce
  define s2 where "s2 = upd_proc i (\<lambda>p. p\<lparr>pr_address_space := asp\<rparr>) (s1\<lparr>ps_vms := vms1\<rparr>)"
  obtain t sc where tc: "task_create kstack (vmm_kernel_pml4_phys (ps_vms s2)) tr nm 0 0 TASK_PRIORITY_NORMAL (ps_sched s2) = (t, sc)"
    by fastforce
  define s3 where "s3 = upd_proc i (\<lambda>p. p\<lparr>pr_main_thread := t\<rparr>) (s2\<lparr>ps_sched := sc\<rparr>)"
  note step = assms [unfolded process_create_with_parent_def Some option.case Let_def nm_def [symmetric] p0_def [symmetric]
      s1_def [symmetric] c prod.case s2_def [symmetric] tc s3_def [symmetric]]
  have l0: "pr_parent p0 = None" "pr_children p0 = None" "pr_state p0 = PROC_STATE_EMBRYO" "pr_fds p0 = (\<lambda>_. fd_free_slot)"
    by (simp_all add: p0_def process_zero_def)
  have t2: "proc_table s2 = (proc_table s)(i := p0\<lparr>pr_address_space := asp\<rparr>)" "current_proc s2 = current_proc s" "ps_pipes s2 = ps_pipes s"
    by (simp_all add: s2_def s1_def)
  have t3: "proc_table s3 = (proc_table s)(i := p0\<lparr>pr_address_space := asp, pr_main_thread := t\<rparr>)" "current_proc s3 = current_proc s"
    "ps_pipes s3 = ps_pipes s"
    by (simp_all add: s3_def t2)
  consider "asp = None" | "asp \<noteq> None" "t = None" | "asp \<noteq> None" "t \<noteq> None" by blast
  then show ?thesis
  proof cases
    case 1
    then have "r = None" "s' = upd_proc i (\<lambda>p. p\<lparr>pr_state := PROC_STATE_UNUSED\<rparr>) s2" using step by auto
    then show ?thesis using i l0 t2 by (intro that(2) [of i "p0\<lparr>pr_address_space := asp, pr_state := PROC_STATE_UNUSED\<rparr>"]) auto
  next
    case 2
    then have "r = None" "s' = upd_proc i (\<lambda>p. p\<lparr>pr_address_space := None, pr_state := PROC_STATE_UNUSED\<rparr>)
        (s3\<lparr>ps_vms := vmm_destroy_address_space asp (ps_vms s3)\<rparr>)" using step by auto
    then show ?thesis
      using i l0 t3 by (intro that(2) [of i "p0\<lparr>pr_address_space := None, pr_main_thread := t, pr_state := PROC_STATE_UNUSED\<rparr>"]) auto
  next
    case 3
    then have "r = Some i" "s' = process_link_child i parent s3" using step by auto
    then show ?thesis
      using i l0 t3 by (intro that(3) [of i s3 "p0\<lparr>pr_address_space := asp, pr_main_thread := t\<rparr>"]) auto
  qed
qed

lemma create_inv:
  assumes "proc_inv s" and "\<And>q. parent = Some q \<Longrightarrow> q < PROCESS_MAX \<and> pstate s q \<noteq> PROC_STATE_UNUSED"
    and "process_create_with_parent node kstack tr name uid gid parent s = (r, s')"
  shows "proc_inv s' \<and> (\<forall>c. r = Some c \<longrightarrow> c < PROCESS_MAX \<and> pstate s c = PROC_STATE_UNUSED \<and> pstate s' c = PROC_STATE_EMBRYO \<and>
      pr_parent (proc_table s' c) = parent \<and> pr_fds (proc_table s' c) = (\<lambda>_. fd_free_slot) \<and>
      (\<forall>k. pstate s k \<noteq> PROC_STATE_UNUSED \<longrightarrow> pstate s' k = pstate s k))"
  using assms(3)
proof (cases rule: create_split)
  case 1
  then show ?thesis using assms(1) by simp
next
  case (2 i p)
  then show ?thesis using fresh_slot(4) [OF assms(1) 2(1,2,4,5,6,8,7)] by simp
next
  case (3 i p s3)
  note f = fresh_slot(1-3) [OF assms(1) 3(1,2,4,5,6,9)]
  obtain kids where kids: "tree_ok (proc_table s3) kids" using f(1) by blast
  have q: "\<And>q. parent = Some q \<Longrightarrow> q < PROCESS_MAX \<and> q \<noteq> i" using assms(2) 3(2) by blast
  have par0: "pr_parent (proc_table s3 i) = None" using 3(4,5) by simp
  note l = link_tree [where par = parent, OF kids 3(1) par0 q, folded 3(10)]
  note pay = same_payload_fields [OF l(5)]
  have st: "pstate s' k = (if k = i then PROC_STATE_EMBRYO else pstate s k)" for k using pay(2) 3(4,7) by simp
  have "ppid_ok s' k" if "k < PROCESS_MAX" "pstate s' k \<noteq> PROC_STATE_UNUSED" for k
  proof (cases "k = i")
    case True
    then show ?thesis using pay(1) by (auto simp: ppid_ok_def l(2,4) split: option.split)
  next
    case False
    with f(2) [OF that(1) False] that(2) st have "ppid_ok s3 k" by simp
    with False show ?thesis using pay(1) by (auto simp: ppid_ok_def l(2,4) split: option.split)
  qed
  moreover have "pr_parent (proc_table s' k) = None \<and> pr_children (proc_table s' k) = None"
    if "k < PROCESS_MAX" "pstate s' k = PROC_STATE_UNUSED" for k
  proof -
    have k: "k \<noteq> i" "pstate s k = PROC_STATE_UNUSED" using that(2) st by (auto split: if_splits)
    then have "parent \<noteq> Some k" "pstate s3 k = PROC_STATE_UNUSED" using assms(2) 3(4) by auto
    then show ?thesis using f(3) [OF that(1)] k(1) by (simp add: l(2,3))
  qed
  moreover have "current_proc s' = None" using l(5) 3(9) assms(1) by (simp add: same_payload_def proc_inv_def)
  ultimately have "proc_inv s'" using l(1) unfolding proc_inv_def by blast
  moreover have "pr_fds (proc_table s' i) = (\<lambda>_. fd_free_slot)" using pay(3) 3(4,8) by simp
  moreover have "pr_parent (proc_table s' i) = parent" by (simp add: l(2))
  ultimately show ?thesis using 3(1,2,3) st by simp
qed

lemma process_current_live:
  "proc_inv s \<Longrightarrow> process_current s = Some q \<Longrightarrow> q < PROCESS_MAX \<and> pstate s q \<noteq> PROC_STATE_UNUSED"
  by (auto simp: process_current_def proc_inv_def find_upt_Some split: option.splits)

lemma process_by_pid_live:
  "process_by_pid pid s = Some i \<Longrightarrow> i < PROCESS_MAX \<and> pstate s i \<noteq> PROC_STATE_UNUSED \<and> pr_pid (proc_table s i) = pid"
  by (auto simp: process_by_pid_def find_upt_Some)

lemma same_tree_zombie:
  "pstate s i \<noteq> PROC_STATE_UNUSED \<Longrightarrow> st \<noteq> PROC_STATE_UNUSED \<Longrightarrow>
   same_tree s (upd_proc i (\<lambda>p. p\<lparr>pr_exit_code := c, pr_state := st\<rparr>) s)"
  by (simp add: same_tree_def)

lemma process_kill_inv [capy_inv]:
  assumes "proc_inv s"
  shows "proc_inv (snd (process_kill pid signal s))"
proof (cases "process_by_pid pid s")
  case None
  then show ?thesis using assms by (simp add: process_kill_def)
next
  case (Some i)
  note live = process_by_pid_live [OF Some]
  let ?s1 = "upd_proc i (\<lambda>p. p\<lparr>pr_exit_code := 128 + uint (signal AND 0x7F), pr_state := PROC_STATE_ZOMBIE\<rparr>) s"
  let ?s2 = "free_all_fds i (kill_main_thread i ?s1)"
  have "same_tree s ?s1" using live by (intro same_tree_zombie) auto
  then have "same_tree s ?s2"
    by (rule same_tree_trans [OF same_tree_trans [OF _ same_tree_ops(4)] same_tree_ops(2)])
  then have i2: "proc_inv ?s2" by (rule proc_inv_same [OF assms])
  show ?thesis
    using assms i2 process_destroy_inv [OF i2, of i] live by (simp add: process_kill_def Some Let_def)
qed

lemma reap_step_inv: "proc_inv (snd ns) \<Longrightarrow> i < PROCESS_MAX \<Longrightarrow> proc_inv (snd (reap_step i ns))"
  using process_destroy_inv [of "snd ns" i] by (cases ns) (simp add: reap_step_def Let_def)

lemma process_reap_orphans_inv [capy_inv]:
  assumes "proc_inv s"
  shows "proc_inv (snd (process_reap_orphans s))"
proof -
  have "proc_inv (snd (fold reap_step xs ns))" if "proc_inv (snd ns)" "\<forall>i\<in>set xs. i < PROCESS_MAX" for xs ns
    using that by (induction xs arbitrary: ns) (simp_all add: reap_step_inv)
  then show ?thesis unfolding process_reap_orphans_def using assms by simp
qed

lemma process_exit_inv [capy_inv]:
  assumes "proc_inv s" and "process_exit code s = Some s'"
  shows "proc_inv s'"
proof -
  obtain me where me: "process_current s = Some me" using assms(2) by (cases "process_current s") (auto simp: process_exit_def)
  let ?s1 = "upd_proc me (\<lambda>p. p\<lparr>pr_exit_code := code, pr_state := PROC_STATE_ZOMBIE\<rparr>) s"
  let ?s2 = "notify_teardown me (free_all_fds me ?s1)"
  have "same_tree s ?s1" using process_current_live [OF assms(1) me] by (intro same_tree_zombie) auto
  then have t: "same_tree s ?s2"
    by (rule same_tree_trans [OF same_tree_trans [OF _ same_tree_ops(2)] same_tree_ops(3)])
  have "s' = ?s2\<lparr>ps_sched := task_exit code (ps_sched ?s2)\<rparr>" using assms(2) me by (simp add: process_exit_def Let_def)
  then have "same_tree s s'" using t by (simp add: same_tree_def)
  then show ?thesis by (rule proc_inv_same [OF assms(1)])
qed

lemma relink_inv:
  assumes "proc_inv s" and "c < PROCESS_MAX" and "pstate s c \<noteq> PROC_STATE_UNUSED" and "q < PROCESS_MAX" and "q \<noteq> c"
    and "pstate s q \<noteq> PROC_STATE_UNUSED"
  defines "s' \<equiv> process_link_child c (Some q) (process_unlink_child c s)"
  shows "proc_inv s'" and "same_payload s s'"
proof -
  let ?s1 = "process_unlink_child c s"
  obtain kids where kids: "tree_ok (proc_table s) kids" using assms(1) by (auto simp: proc_inv_def)
  obtain kids1 where u: "tree_ok (proc_table ?s1) kids1"
    "\<And>k. pr_parent (proc_table ?s1 k) = (if k = c then None else pr_parent (proc_table s k))"
    "\<And>k. pr_children (proc_table s k) = None \<Longrightarrow> pr_children (proc_table ?s1 k) = None"
    "\<And>k. pr_ppid (proc_table ?s1 k) = pr_ppid (proc_table s k)" "same_payload s ?s1"
    by (rule unlink_tree [OF kids assms(2)]) blast
  have p1: "pr_parent (proc_table ?s1 c) = None" by (simp add: u(2))
  have q: "\<And>p. Some q = Some p \<Longrightarrow> p < PROCESS_MAX \<and> p \<noteq> c" using assms(4,5) by simp
  note l = link_tree [where par = "Some q", OF u(1) assms(2) p1 q, folded s'_def]
  show pay: "same_payload s s'" by (rule same_payload_trans [OF u(5) l(5)])
  note f = same_payload_fields [OF pay] same_payload_fields(1) [OF u(5)]
  have "ppid_ok s' k" if "k < PROCESS_MAX" "pstate s' k \<noteq> PROC_STATE_UNUSED" for k
    using assms(1) that f by (auto simp: proc_inv_def ppid_ok_def l(2,4) u(2,4) split: option.split)
  moreover have "pr_parent (proc_table s' k) = None \<and> pr_children (proc_table s' k) = None"
    if "k < PROCESS_MAX" "pstate s' k = PROC_STATE_UNUSED" for k
  proof -
    have k: "pstate s k = PROC_STATE_UNUSED" using that(2) f(2) by simp
    then have "k \<noteq> c" "k \<noteq> q" "pr_parent (proc_table s k) = None" "pr_children (proc_table s k) = None"
      using assms(1,3,6) that(1) by (auto simp: proc_inv_def)
    then show ?thesis using u(3) by (simp add: l(2,3) u(2))
  qed
  moreover have "current_proc s' = None" using pay assms(1) by (simp add: same_payload_def proc_inv_def)
  ultimately show "proc_inv s'" using l(1) unfolding proc_inv_def by blast
qed

lemma process_fork_inv [capy_inv]:
  assumes "proc_inv s" and "par < PROCESS_MAX" and "pstate s par \<noteq> PROC_STATE_UNUSED"
  shows "proc_inv (snd (process_fork node node2 kstack tr (Some par) s))"
proof -
  let ?pp = "proc_table s par"
  obtain r s1 where c: "process_create node kstack tr (Some (pr_name ?pp)) (pr_uid ?pp) (pr_gid ?pp) s = (r, s1)" by fastforce
  have i1: "proc_inv s1 \<and> (\<forall>c. r = Some c \<longrightarrow> c < PROCESS_MAX \<and> pstate s c = PROC_STATE_UNUSED \<and> pstate s1 c = PROC_STATE_EMBRYO \<and>
      pr_parent (proc_table s1 c) = process_current s \<and> pr_fds (proc_table s1 c) = (\<lambda>_. fd_free_slot) \<and>
      (\<forall>k. pstate s k \<noteq> PROC_STATE_UNUSED \<longrightarrow> pstate s1 k = pstate s k))"
    by (rule create_inv [OF assms(1) process_current_live [OF assms(1)] c [unfolded process_create_def]])
  show ?thesis
  proof (cases r)
    case None
    then show ?thesis using i1 c by (simp add: process_fork_def)
  next
    case (Some ch)
    have ch: "ch < PROCESS_MAX" "pstate s1 ch = PROC_STATE_EMBRYO" "par \<noteq> ch" "pstate s1 par \<noteq> PROC_STATE_UNUSED"
      using i1 Some assms(3) by auto
    define s2 where "s2 = process_link_child ch (Some par) (process_unlink_child ch s1)"
    have live: "pstate s1 ch \<noteq> PROC_STATE_UNUSED" using ch(2) by simp
    note i2 = relink_inv [OF conjunct1 [OF i1] ch(1) live assms(2) ch(3,4), folded s2_def]
    have fin: "proc_inv (upd_proc ch (\<lambda>p. p\<lparr>pr_brk := a, pr_heap_start := b, pr_stack_top := d, pr_fds := e p\<rparr>)
        (upd_proc ch (\<lambda>p. p\<lparr>pr_address_space := x\<rparr>) (s2\<lparr>ps_vms := v, ps_sched := sc\<rparr>)))"
      "proc_inv (upd_proc ch (\<lambda>p. p\<lparr>pr_brk := a, pr_heap_start := b, pr_stack_top := d, pr_fds := e p\<rparr>) s2)"
      "proc_inv (s2\<lparr>ps_vms := v\<rparr>)" for a b d e x v sc
      by (rule proc_inv_same [OF i2(1)], simp add: same_tree_def)+
    show ?thesis
      using fin process_destroy_inv [OF fin(3) ch(1)]
      by (simp add: process_fork_def c Some s2_def [symmetric] Let_def split: option.split prod.split)
  qed
qed

subsection \<open>Properties\<close>

text \<open>
  The life of the process table: every operation of \<^verbatim>\<open>process.c\<close>, and anything the rest of the kernel does that
  leaves the links, the process ids and the set of used slots alone (scheduling, paging, I/O).
\<close>

inductive proc_reachable :: "procs \<Rightarrow> bool" where
  boot: "proc_reachable (process_system_init s)"
| create: "proc_reachable s \<Longrightarrow> proc_reachable (snd (process_create node kstack tr name uid gid s))"
| create_root: "proc_reachable s \<Longrightarrow> proc_reachable (snd (process_create_root node kstack tr name uid gid s))"
| fork: "proc_reachable s \<Longrightarrow> process_current s = Some par \<Longrightarrow>
    proc_reachable (snd (process_fork node node2 kstack tr (Some par) s))"
| kill: "proc_reachable s \<Longrightarrow> proc_reachable (snd (process_kill pid signal s))"
| exit: "proc_reachable s \<Longrightarrow> process_exit code s = Some s' \<Longrightarrow> proc_reachable s'"
| destroy: "proc_reachable s \<Longrightarrow> i < PROCESS_MAX \<Longrightarrow> proc_reachable (process_destroy (Some i) s)"
| reap: "proc_reachable s \<Longrightarrow> proc_reachable (snd (process_reap_orphans s))"
| other: "proc_reachable s \<Longrightarrow> same_tree s s' \<Longrightarrow> proc_reachable s'"

lemma proc_init_inv: "proc_inv (process_system_init s)"
proof -
  have "tree_ok (proc_table (process_system_init s)) (\<lambda>_. [])"
    by (auto simp: tree_ok_def process_system_init_def process_zero_def)
  then show ?thesis by (auto simp: proc_inv_def process_system_init_def process_zero_def)
qed

lemma proc_reachable_inv: "proc_reachable s \<Longrightarrow> proc_inv s"
proof (induction rule: proc_reachable.induct)
  case (create s node kstack tr name uid gid)
  then show ?case
    using create_inv [OF create.IH process_current_live [OF create.IH] prod.collapse [symmetric]]
    by (simp add: process_create_def)
next
  case (create_root s node kstack tr name uid gid)
  then show ?case
    using create_inv [OF create_root.IH _ prod.collapse [symmetric], of None] by (simp add: process_create_root_def)
next
  case (fork s par node node2 kstack tr)
  then show ?case using process_current_live [OF fork.IH] by (auto intro: process_fork_inv)
qed (auto intro: proc_init_inv process_kill_inv process_exit_inv process_destroy_inv process_reap_orphans_inv proc_inv_same)

subsection \<open>A concrete table\<close>

lemma create_space_blank:
  assumes "pmm_inv (vm_pmm (vs_vm s))" and "Suc n \<le> card (free_frames (vm_pmm (vs_vm s)))" and "vm_mem (vs_vm s) = (\<lambda>_ _. 0)"
  shows "\<exists>s'. vmm_create_address_space (Some a) s = (Some a, s') \<and> pmm_inv (vm_pmm (vs_vm s')) \<and>
    n \<le> card (free_frames (vm_pmm (vs_vm s'))) \<and> vm_mem (vs_vm s') = (\<lambda>_ _. 0)"
proof -
  obtain p v where f: "fresh_table (vs_vm s) = (p, v)" by fastforce
  note ok = fresh_table_succeeds [OF assms(1,2) f]
  have "vm_mem v = (\<lambda>_ _. 0)" using f assms(3) by (auto simp: fresh_table_def Let_def split: prod.splits if_splits)
  moreover have "\<not> has 0 VMM_PAGE_PRESENT" by (simp add: has_def)
  ultimately show ?thesis using ok by (auto simp: vmm_create_address_space_def f fun_eq_iff)
qed

lemma create_succeeds:
  fixes k tr name uid gid parent
  assumes "find (\<lambda>i. pstate s i = PROC_STATE_UNUSED) [0..<PROCESS_MAX] = Some i"
    and "vmm_create_address_space node (ps_vms s) = (Some a, v)" and "task_alloc (ps_sched s) = Some t"
  defines "c \<equiv> process_create_with_parent node (Some k) tr name uid gid parent s"
  shows "fst c = Some i" and "ps_vms (snd c) = v" and "pr_main_thread (proc_table (snd c) i) = Some t"
    and "i \<noteq> j \<Longrightarrow> pstate (snd c) j = pstate s j"
    and "t \<noteq> j \<Longrightarrow> tstate (ps_sched (snd c)) j = tstate (ps_sched s) j"
    and "current_proc (snd c) = current_proc s"
  using assms(2,3)
  by (simp_all add: c_def process_create_with_parent_def assms(1) Let_def task_create_def upd_proc_def process_link_child_def
      upd_task_def split: prod.splits option.split)

lemma find_upt_first: "P 0 \<Longrightarrow> 0 < n \<Longrightarrow> find P [0..<n] = Some 0" "\<not> P 0 \<Longrightarrow> P (Suc 0) \<Longrightarrow> 1 < n \<Longrightarrow> find P [0..<n] = Some (Suc 0)"
  by (simp_all add: upt_rec)
   
definition demo_procs :: procs where
  "demo_procs = process_system_init \<lparr>proc_table = (\<lambda>_. process_zero), next_proc_pid = 0, current_proc = None, g_teardown_fn = False,
     g_socket_close_fn = False, ps_sched = blank_sched, ps_pipes = demo_pipes, ps_vms = boot_vms boot_pmm, ps_events = []\<rparr>"

text \<open>The first process, running, and a second one it has created.\<close>

definition demo_init :: procs where
  "demo_init = (let s = snd (process_create_root (Some 0x100) (Some 0x8000) 0 (Some ''init'') 0 0 demo_procs)
     in s\<lparr>ps_sched := (ps_sched s)\<lparr>current_task := pr_main_thread (proc_table s 0)\<rparr>\<rparr>)"

definition demo_child :: procs where
  "demo_child = snd (process_create (Some 0x200) (Some 0x9000) 0 (Some ''sh'') 1000 1000 demo_init)"

lemma demo_child_reachable: "proc_reachable demo_child"
proof -
  have "proc_reachable demo_procs" unfolding demo_procs_def by (rule proc_reachable.boot)
  then have r: "proc_reachable (snd (process_create_root (Some 0x100) (Some 0x8000) 0 (Some ''init'') 0 0 demo_procs))"
    by (rule proc_reachable.create_root)
  have "proc_reachable demo_init"
    unfolding demo_init_def Let_def by (rule proc_reachable.other [OF r]) (simp add: same_tree_def)
  then show ?thesis unfolding demo_child_def by (rule proc_reachable.create)
qed

lemma demo_child_parent: "pr_parent (proc_table demo_child 1) = Some 0"
proof -
  have s0: "pstate demo_procs i = PROC_STATE_UNUSED" "tstate (ps_sched demo_procs) i = TASK_STATE_UNUSED"
    "current_proc demo_procs = None" "ps_vms demo_procs = boot_vms boot_pmm" for i
    by (simp_all add: demo_procs_def process_system_init_def process_zero_def blank_sched_def blank_task_def)
  have f0: "find (\<lambda>i. pstate demo_procs i = PROC_STATE_UNUSED) [0..<PROCESS_MAX] = Some 0" "task_alloc (ps_sched demo_procs) = Some 0"
    unfolding task_alloc_def by (rule find_upt_first; simp add: s0 PROCESS_MAX_def TASK_MAX_COUNT_def)+
  obtain v where v: "vmm_create_address_space (Some 0x100) (ps_vms demo_procs) = (Some 0x100, v)" "pmm_inv (vm_pmm (vs_vm v))"
    "Suc 0 \<le> card (free_frames (vm_pmm (vs_vm v)))" "vm_mem (vs_vm v) = (\<lambda>_ _. 0)"
    using create_space_blank [of "ps_vms demo_procs" "Suc 0" "0x100"] boot_pmm_inv boot_pmm_frames
    by (auto simp: s0 boot_vms_def demo_vm_def)
  define c where "c = process_create_root (Some 0x100) (Some 0x8000) 0 (Some ''init'') 0 0 demo_procs"
  note c1 = create_succeeds [where parent = None and k = "0x8000" and tr = 0 and name = "Some ''init''" and uid = 0 and gid = 0, OF f0(1) v(1) f0(2),
      folded process_create_root_def, folded c_def]
  have "proc_reachable (snd c)"
    unfolding c_def demo_procs_def by (intro proc_reachable.create_root proc_reachable.boot)
  then have i0: "proc_inv (snd c)" by (rule proc_reachable_inv)
  obtain s' where c: "c = (Some 0, s')" using c1(1) by (cases c) auto
  have inv0: "proc_inv demo_procs" unfolding demo_procs_def by (rule proc_init_inv)
  have "pstate s' 0 = PROC_STATE_EMBRYO"
    using create_inv [OF inv0 _ c [unfolded c_def process_create_root_def]] by simp
  then have s1: "pstate demo_init 0 = PROC_STATE_EMBRYO" "pr_main_thread (proc_table demo_init 0) = Some 0" "current_task (ps_sched demo_init) = Some 0"
    "ps_vms demo_init = v" "current_proc demo_init = None" "pstate demo_init 1 = PROC_STATE_UNUSED" "tstate (ps_sched demo_init) 1 = TASK_STATE_UNUSED"
    using c1(2,3,6) c1(4) [of 1] c1(5) [of 1] s0 by (simp_all add: demo_init_def Let_def c c_def [symmetric])
  have cur0: "process_current demo_init = Some 0"
    unfolding process_current_def s1 option.case by (rule find_upt_first) (simp_all add: s1 PROCESS_MAX_def)
  have f1: "find (\<lambda>i. pstate demo_init i = PROC_STATE_UNUSED) [0..<PROCESS_MAX] = Some (Suc 0)"
    by (rule find_upt_first) (use s1 in \<open>simp_all add: PROCESS_MAX_def\<close>)
  obtain t where t: "task_alloc (ps_sched demo_init) = Some t"
    using s1(7) by (cases "task_alloc (ps_sched demo_init)") (auto simp: task_alloc_def find_None_iff TASK_MAX_COUNT_def)
  obtain v' where "vmm_create_address_space (Some 0x200) (ps_vms demo_init) = (Some 0x200, v')"
    using create_space_blank [of v 0 "0x200"] v(2-4) by (auto simp: s1)
  from create_succeeds(1) [OF f1 this t] obtain s'' where
    c2: "process_create (Some 0x200) (Some 0x9000) 0 (Some ''sh'') 1000 1000 demo_init = (Some (Suc 0), s'')"
    unfolding process_create_def by (metis prod.collapse)
  have i1: "proc_inv demo_init" by (rule proc_inv_same [OF i0]) (simp add: demo_init_def Let_def same_tree_def c_def)
  note cur = process_current_live [OF i1]
  have "pr_parent (proc_table s'' (Suc 0)) = process_current demo_init"
    using create_inv [OF i1 cur c2 [unfolded process_create_def]] by simp
  then show ?thesis by (simp add: demo_child_def c2 cur0)
qed

subsection \<open>The tree\<close>

text \<open>
  C30. The process tree is always consistent. In every reachable state, and for every used slot \<open>p\<close>, following
  \<^verbatim>\<open>children\<close> and \<^verbatim>\<open>next_sibling\<close> terminates and visits, once each, exactly the slots whose \<^verbatim>\<open>parent\<close> is \<open>p\<close>;
  a parent is itself a used slot, so no process ever points to a freed parent; the visible
  parent id agrees with the link; and freed slots are completely detached.
\<close>

theorem process_tree_consistent:
  assumes "proc_reachable s" and "p < PROCESS_MAX"
  shows "distinct (children_of s p) \<and>
    (\<forall>c. c \<in> set (children_of s p) \<longleftrightarrow> c < PROCESS_MAX \<and> pr_parent (proc_table s c) = Some p) \<and>
    (\<forall>q. pr_parent (proc_table s p) = Some q \<longrightarrow>
       q < PROCESS_MAX \<and> pstate s q \<noteq> PROC_STATE_UNUSED \<and> pr_ppid (proc_table s p) = pr_pid (proc_table s q)) \<and>
    (pstate s p = PROC_STATE_UNUSED \<longrightarrow> pr_parent (proc_table s p) = None \<and> children_of s p = [])"
proof -
  have inv: "proc_inv s" by (rule proc_reachable_inv [OF assms(1)])
  then obtain kids where kids: "tree_ok (proc_table s) kids" by (auto simp: proc_inv_def)
  have ch: "children_of s p = kids p" by (rule children_of_kids [OF kids assms(2)])
  have "q < PROCESS_MAX \<and> pstate s q \<noteq> PROC_STATE_UNUSED \<and> pr_ppid (proc_table s p) = pr_pid (proc_table s q)"
    if q: "pr_parent (proc_table s p) = Some q" for q
  proof -
    have qm: "q < PROCESS_MAX" using kids assms(2) q unfolding tree_ok_def by blast
    then have "pr_children (proc_table s q) \<noteq> None" using no_kids [OF kids qm _ assms(2)] q by blast
    then have "pstate s q \<noteq> PROC_STATE_UNUSED" using inv qm by (auto simp: proc_inv_def)
    moreover have "pstate s p \<noteq> PROC_STATE_UNUSED" using inv assms(2) q by (auto simp: proc_inv_def)
    ultimately show ?thesis using inv assms(2) q qm by (simp add: proc_inv_def ppid_ok_def)
  qed
  moreover have "kids p = []" if "pstate s p = PROC_STATE_UNUSED"
    using tree_okD(1) [OF kids assms(2)] inv assms(2) that by (cases "kids p") (auto simp: proc_inv_def)
  ultimately show ?thesis
    using tree_okD(2,3) [OF kids assms(2)] inv assms(2) unfolding ch by (simp add: proc_inv_def)
qed

theorem process_tree_consistent_witness:
  "1 \<in> set (children_of demo_child 0) \<and> distinct (children_of demo_child 0) \<and> pstate demo_child 0 \<noteq> PROC_STATE_UNUSED"
proof -
  have m: "0 < PROCESS_MAX" "1 < PROCESS_MAX" by (simp_all add: PROCESS_MAX_def)
  note t0 = process_tree_consistent [OF demo_child_reachable m(1)]
  note t1 = process_tree_consistent [OF demo_child_reachable m(2), THEN conjunct2, THEN conjunct2, THEN conjunct1, rule_format,
      OF demo_child_parent]
  have "1 \<in> set (children_of demo_child 0)"
    using t0 [THEN conjunct2, THEN conjunct1, THEN spec [of _ 1]] m(2) demo_child_parent by blast
  with conjunct1 [OF t0] t1 show ?thesis by blast
qed

end
