(* ===== verification/ProcessLife.thy ===== *)
theory ProcessLife
  imports ProcessTree
begin

text \<open>
  The end of a process: what its exit or death does to the pipes it held, and that a parent that waits for it gets its
  exit code and frees its slot.
\<close>

subsection \<open>Closing the descriptors\<close>

definition closes_read :: "file_descriptor \<Rightarrow> nat \<Rightarrow> bool" where
  "closes_read d q \<longleftrightarrow> fd_ty d = FD_TYPE_PIPE \<and> fd_flags d AND FD_PIPE_FLAG_READ \<noteq> 0 \<and> fd_private_data d = int q"

definition closes_write :: "file_descriptor \<Rightarrow> nat \<Rightarrow> bool" where
  "closes_write d q \<longleftrightarrow> fd_ty d = FD_TYPE_PIPE \<and> fd_flags d AND FD_PIPE_FLAG_READ = 0 \<and> fd_flags d AND FD_PIPE_FLAG_WRITE \<noteq> 0 \<and>
     fd_private_data d = int q"

text \<open>The pipe \<open>p\<close> with number \<open>q\<close> after the first \<open>n\<close> descriptors of \<open>fds\<close> have been closed.\<close>

definition hung_up :: "file_descriptor carr \<Rightarrow> nat \<Rightarrow> nat \<Rightarrow> pipe \<Rightarrow> pipe" where
  "hung_up fds n q p =
     p\<lparr>pp_read_open := pp_read_open p \<and> \<not> (\<exists>k<n. closes_read (fds k) q),
       pp_write_open := pp_write_open p \<and> \<not> (\<exists>k<n. closes_write (fds k) q)\<rparr>"

lemma close_slot_frame [simp]:
  "proc_table (close_slot d s) = proc_table s" "ps_sched (close_slot d s) = ps_sched s" "ps_vms (close_slot d s) = ps_vms s"
  by (auto simp: close_slot_def split: fd_type.splits)

lemma close_slot_pipe:
  assumes "q < PIPE_MAX"
  shows "g_pipes (ps_pipes (close_slot d s)) q =
    (g_pipes (ps_pipes s) q)\<lparr>pp_read_open := pp_read_open (g_pipes (ps_pipes s) q) \<and> \<not> closes_read d q,
      pp_write_open := pp_write_open (g_pipes (ps_pipes s) q) \<and> \<not> closes_write d q\<rparr>"
proof (cases "fd_private_data d = int q")
  case True
  then show ?thesis using assms
    by (cases "fd_ty d") (auto simp: close_slot_def closes_read_def closes_write_def pipe_close_read_def pipe_close_write_def valid_pipe_def)
next
  case False
  then have "q \<noteq> nat (fd_private_data d) \<or> \<not> valid_pipe (fd_private_data d)"
    by (cases "0 \<le> fd_private_data d") (auto simp: valid_pipe_def)
  with False show ?thesis
    by (cases "fd_ty d") (auto simp: close_slot_def closes_read_def closes_write_def pipe_close_read_def pipe_close_write_def)
qed

lemma free_fds_upto:
  assumes "n \<le> PROCESS_FD_MAX" and "s' = fold (\<lambda>k. process_fd_free (Some i) (int k)) [0..<n] s"
  shows "proc_table s' = (proc_table s)(i := (proc_table s i)\<lparr>pr_fds := \<lambda>k. if k < n then fd_free_slot else pr_fds (proc_table s i) k\<rparr>) \<and>
    ps_sched s' = ps_sched s \<and> ps_vms s' = ps_vms s \<and>
    (\<forall>q<PIPE_MAX. g_pipes (ps_pipes s') q = hung_up (pr_fds (proc_table s i)) n q (g_pipes (ps_pipes s) q))"
  using assms
proof (induction n arbitrary: s')
  case 0
  then show ?case by (simp add: hung_up_def)
next
  case (Suc n)
  define s1 where "s1 = fold (\<lambda>k. process_fd_free (Some i) (int k)) [0..<n] s"
  have ih: "proc_table s1 = (proc_table s)(i := (proc_table s i)\<lparr>pr_fds := \<lambda>k. if k < n then fd_free_slot else pr_fds (proc_table s i) k\<rparr>)"
    "ps_sched s1 = ps_sched s" "ps_vms s1 = ps_vms s"
    "\<And>q. q < PIPE_MAX \<Longrightarrow> g_pipes (ps_pipes s1) q = hung_up (pr_fds (proc_table s i)) n q (g_pipes (ps_pipes s) q)"
    using Suc.IH [OF _ s1_def] Suc.prems(1) by auto
  have fd: "pr_fds (proc_table s1 i) n = pr_fds (proc_table s i) n" by (simp add: ih(1))
  have s': "s' = upd_proc i (\<lambda>p. p\<lparr>pr_fds := (pr_fds p)(n := fd_free_slot)\<rparr>) (close_slot (pr_fds (proc_table s i) n) s1)"
  proof -
    have "s' = process_fd_free (Some i) (int n) s1" using Suc.prems(2) by (simp add: s1_def)
    then show ?thesis using Suc.prems(1) fd by (simp add: process_fd_free_def)
  qed
  have "(\<lambda>k. if k < n then fd_free_slot else pr_fds (proc_table s i) k)(n := fd_free_slot) =
      (\<lambda>k. if k < Suc n then fd_free_slot else pr_fds (proc_table s i) k)"
    by (auto simp: fun_eq_iff less_Suc_eq)
  then have "proc_table s' = (proc_table s)(i := (proc_table s i)\<lparr>pr_fds := \<lambda>k. if k < Suc n then fd_free_slot else pr_fds (proc_table s i) k\<rparr>)"
    by (simp add: s' upd_proc_def ih(1))
  moreover have "g_pipes (ps_pipes s') q = hung_up (pr_fds (proc_table s i)) (Suc n) q (g_pipes (ps_pipes s) q)" if "q < PIPE_MAX" for q
  proof -
    have ex: "(\<exists>k<Suc n. P k) \<longleftrightarrow> (\<exists>k<n. P k) \<or> P n" for P using less_Suc_eq by auto
    have "g_pipes (ps_pipes s') q = g_pipes (ps_pipes (close_slot (pr_fds (proc_table s i) n) s1)) q" by (simp add: s' upd_proc_def)
    then show ?thesis using close_slot_pipe [OF that] ih(4) [OF that] by (simp add: hung_up_def ex conj_assoc)
  qed
  ultimately show ?case using ih(2,3) by (simp add: s' upd_proc_def)
qed

lemma free_all_fds_ok:
  assumes "s' = free_all_fds i s"
  shows "proc_table s' = (proc_table s)(i := (proc_table s i)\<lparr>pr_fds := \<lambda>k. if k < PROCESS_FD_MAX then fd_free_slot else pr_fds (proc_table s i) k\<rparr>)"
    "ps_sched s' = ps_sched s" "ps_vms s' = ps_vms s"
    "q < PIPE_MAX \<Longrightarrow> g_pipes (ps_pipes s') q = hung_up (pr_fds (proc_table s i)) PROCESS_FD_MAX q (g_pipes (ps_pipes s) q)"
  using free_fds_upto [OF order.refl assms [unfolded free_all_fds_def]] by auto

lemma hung_up_free: "\<forall>k<n. fds k = fd_free_slot \<Longrightarrow> hung_up fds n q p = p"
  by (auto simp: hung_up_def closes_read_def closes_write_def fd_free_slot_def)

subsection \<open>Destruction\<close>

text \<open>What the steps before the closing of descriptors leave alone.\<close>

definition keeps_ends :: "nat \<Rightarrow> procs \<Rightarrow> procs \<Rightarrow> bool" where
  "keeps_ends i s s' \<longleftrightarrow> ps_pipes s' = ps_pipes s \<and> pr_fds (proc_table s' i) = pr_fds (proc_table s i) \<and>
     pr_exit_code (proc_table s' i) = pr_exit_code (proc_table s i)"

lemma keeps_ends_trans: "keeps_ends i a b \<Longrightarrow> keeps_ends i b c \<Longrightarrow> keeps_ends i a c"
  by (simp add: keeps_ends_def)

lemma fold_keeps: "(\<And>x s. keeps_ends i s (f x s)) \<Longrightarrow> keeps_ends i s (fold f xs s)"
proof (induction xs arbitrary: s)
  case (Cons x xs)
  then show ?case using keeps_ends_trans [OF Cons.prems [of s x]] by simp
qed (simp add: keeps_ends_def)

lemma keeps_ops:
  "keeps_ends i s (process_unlink_child i s)" "keeps_ends i s (orphan_children i s)"
  "keeps_ends i s (drop_address_space i s)" "keeps_ends i s (kill_main_thread i s)" "keeps_ends i s (notify_teardown i s)"
proof -
  show "keeps_ends i s (process_unlink_child i s)"
    by (auto simp: keeps_ends_def process_unlink_child_def Let_def upd_proc_def split: option.splits)
  have "keeps_ends i s (fold (\<lambda>c. upd_proc c (\<lambda>p. p\<lparr>pr_parent := None, pr_ppid := 0, pr_next_sibling := None\<rparr>)) (children_of s i) s)"
    by (rule fold_keeps) (simp add: keeps_ends_def upd_proc_def)
  then show "keeps_ends i s (orphan_children i s)"
    unfolding orphan_children_def by (rule keeps_ends_trans) (simp add: keeps_ends_def upd_proc_def)
  show "keeps_ends i s (drop_address_space i s)" "keeps_ends i s (kill_main_thread i s)" "keeps_ends i s (notify_teardown i s)"
    by (auto simp: keeps_ends_def drop_address_space_def kill_main_thread_def notify_teardown_def upd_proc_def split: option.splits)
qed

lemma process_destroy_ends:
  assumes "\<forall>k<PROCESS_FD_MAX. pr_fds (proc_table s i) k = fd_free_slot" and "s' = process_destroy (Some i) s"
  shows "(\<forall>q<PIPE_MAX. g_pipes (ps_pipes s') q = g_pipes (ps_pipes s) q) \<and>
    (\<forall>k<PROCESS_FD_MAX. pr_fds (proc_table s' i) k = fd_free_slot) \<and> pr_exit_code (proc_table s' i) = pr_exit_code (proc_table s i) \<and>
    (pstate s' i = pstate s i \<or> pstate s' i = PROC_STATE_UNUSED)"
proof (cases "pstate s i = PROC_STATE_UNUSED \<or> vmm_address_space_is_active (pr_address_space (proc_table s i)) (ps_vms s)")
  case True
  then have "s' = s" by (auto simp: assms(2) process_destroy_def)
  then show ?thesis using assms(1) by simp
next
  case False
  define s1 where "s1 = drop_address_space i (kill_main_thread i (process_unlink_child i (orphan_children i s)))"
  define s2 where "s2 = free_all_fds i s1"
  have k1: "keeps_ends i s s1" unfolding s1_def by (intro keeps_ends_trans [OF _ keeps_ops(3)] keeps_ends_trans [OF _ keeps_ops(4)]
        keeps_ends_trans [OF _ keeps_ops(1)] keeps_ops(2))
  note f = free_all_fds_ok [OF s2_def]
  have s': "s' = upd_proc i (\<lambda>p. p\<lparr>pr_state := PROC_STATE_UNUSED\<rparr>) (notify_teardown i s2)"
    using False by (simp add: assms(2) process_destroy_def s1_def s2_def)
  have "g_pipes (ps_pipes s2) q = g_pipes (ps_pipes s) q" if "q < PIPE_MAX" for q
    using f(4) [OF that] hung_up_free [of PROCESS_FD_MAX "pr_fds (proc_table s1 i)"] k1 assms(1) by (simp add: keeps_ends_def)
  moreover have "pr_exit_code (proc_table s2 i) = pr_exit_code (proc_table s i)" using f(1) k1 by (simp add: keeps_ends_def)
  moreover have "pr_fds (proc_table s2 i) k = fd_free_slot" if "k < PROCESS_FD_MAX" for k using f(1) that by simp
  moreover note keeps_ops(5) [of i s2]
  ultimately show ?thesis by (simp add: s' upd_proc_def keeps_ends_def)
qed


subsection \<open>Exit and death by signal\<close>

text \<open>What \<open>i\<close> leaves behind when it ends with exit code \<open>code\<close>.\<close>

definition ended :: "nat \<Rightarrow> int \<Rightarrow> procs \<Rightarrow> procs \<Rightarrow> bool" where
  "ended i code s s' \<longleftrightarrow>
     (\<forall>q<PIPE_MAX. g_pipes (ps_pipes s') q = hung_up (pr_fds (proc_table s i)) PROCESS_FD_MAX q (g_pipes (ps_pipes s) q)) \<and>
     (\<forall>k<PROCESS_FD_MAX. pr_fds (proc_table s' i) k = fd_free_slot) \<and> pr_exit_code (proc_table s' i) = code \<and>
     (pstate s' i = PROC_STATE_ZOMBIE \<or> pstate s' i = PROC_STATE_UNUSED)"

lemma kill_main_thread_slot:
  "proc_table (kill_main_thread i s) = (proc_table s)(i := (proc_table s i)\<lparr>pr_main_thread := None\<rparr>)"
  by (auto simp: kill_main_thread_def upd_proc_def fun_eq_iff split: option.splits)

text \<open>The slot of a process just marked as a zombie, its descriptors closed.\<close>

lemma mark_and_close:
  fixes s :: procs and i :: nat and code :: int
  defines "m \<equiv> upd_proc i (\<lambda>p. p\<lparr>pr_exit_code := code, pr_state := PROC_STATE_ZOMBIE\<rparr>) s"
  assumes "keeps_ends i m m'" and "pstate m' i = PROC_STATE_ZOMBIE" and "t = free_all_fds i m'"
  shows "ended i code s t" and "pstate t i = PROC_STATE_ZOMBIE"
    and "pr_parent (proc_table t i) = pr_parent (proc_table m' i)" and "pr_address_space (proc_table t i) = pr_address_space (proc_table m' i)"
proof -
  note f = free_all_fds_ok [OF assms(4)]
  have k: "ps_pipes m' = ps_pipes s" "pr_fds (proc_table m' i) = pr_fds (proc_table s i)" "pr_exit_code (proc_table m' i) = code"
    using assms(2) by (simp_all add: keeps_ends_def m_def upd_proc_def)
  show "pstate t i = PROC_STATE_ZOMBIE" using assms(3) by (simp add: f(1))
  then show "ended i code s t" using f(4) by (simp add: ended_def f(1) k)
  show "pr_parent (proc_table t i) = pr_parent (proc_table m' i)" "pr_address_space (proc_table t i) = pr_address_space (proc_table m' i)"
    by (simp_all add: f(1))
qed

lemma process_kill_ended:
  assumes "process_by_pid pid s = Some i" and "process_kill pid signal s = (0, s')"
  shows "ended i (128 + uint (signal AND 0x7F)) s s' \<and>
    (pr_parent (proc_table s i) \<noteq> None \<longrightarrow>
       pstate s' i = PROC_STATE_ZOMBIE \<and> pr_address_space (proc_table s' i) = pr_address_space (proc_table s i))"
proof -
  let ?code = "128 + uint (signal AND 0x7F)"
  let ?m = "upd_proc i (\<lambda>p. p\<lparr>pr_exit_code := ?code, pr_state := PROC_STATE_ZOMBIE\<rparr>) s"
  define t where "t = free_all_fds i (kill_main_thread i ?m)"
  have s': "s' = (if pr_parent (proc_table t i) = None then process_destroy (Some i) t else t)"
    using assms by (auto simp: process_kill_def t_def Let_def split: if_splits)
  have "pstate (kill_main_thread i ?m) i = PROC_STATE_ZOMBIE" by (simp add: kill_main_thread_slot upd_proc_def)
  note t = mark_and_close [OF keeps_ops(4) this t_def]
  have slot: "pr_parent (proc_table t i) = pr_parent (proc_table s i)" "pr_address_space (proc_table t i) = pr_address_space (proc_table s i)"
    using t(3,4) by (simp_all add: kill_main_thread_slot upd_proc_def)
  show ?thesis
  proof (cases "pr_parent (proc_table t i)")
    case None
    have "\<forall>k<PROCESS_FD_MAX. pr_fds (proc_table t i) k = fd_free_slot" using t(1) by (simp add: ended_def)
    moreover have "s' = process_destroy (Some i) t" using None s' by simp
    ultimately have "ended i ?code s s'" using process_destroy_ends [of t i s'] t(1,2) by (simp add: ended_def)
    then show ?thesis using None slot by simp
  next
    case (Some q)
    then show ?thesis using s' t(1,2) slot by simp
  qed
qed

lemma process_exit_ended:
  assumes "process_current s = Some i" and "process_exit code s = Some s'"
  shows "ended i code s s'"
proof -
  let ?m = "upd_proc i (\<lambda>p. p\<lparr>pr_exit_code := code, pr_state := PROC_STATE_ZOMBIE\<rparr>) s"
  define t where "t = free_all_fds i ?m"
  have "pstate ?m i = PROC_STATE_ZOMBIE" by (simp add: upd_proc_def)
  note t = mark_and_close [OF _ this t_def]
  have e: "ended i code s t" by (rule t(1)) (simp add: keeps_ends_def)
  have "s' = (notify_teardown i t)\<lparr>ps_sched := task_exit code (ps_sched (notify_teardown i t))\<rparr>"
    using assms by (simp add: process_exit_def t_def Let_def)
  then have "proc_table s' = proc_table t" "ps_pipes s' = ps_pipes t" by (simp_all add: notify_teardown_def)
  then show ?thesis using e by (simp add: ended_def)
qed

lemma ended_reader:
  assumes "ended i code s s'" and "q < PIPE_MAX" and "k < PROCESS_FD_MAX" and "closes_write (pr_fds (proc_table s i) k) q"
    and "\<forall>j<PROCESS_FD_MAX. \<not> closes_read (pr_fds (proc_table s i) j) q"
    and "pp_read_open (g_pipes (ps_pipes s) q)" and "pp_count (g_pipes (ps_pipes s) q) = 0"
  shows "pipe_read (int q) True len (ps_pipes s') = (0, [], ps_pipes s')"
proof -
  have "g_pipes (ps_pipes s') q = hung_up (pr_fds (proc_table s i)) PROCESS_FD_MAX q (g_pipes (ps_pipes s) q)"
    using assms(1,2) by (simp add: ended_def)
  then have "pp_read_open (g_pipes (ps_pipes s') q)" "\<not> pp_write_open (g_pipes (ps_pipes s') q)" "pp_count (g_pipes (ps_pipes s') q) = 0"
    using assms(3-7) by (auto simp: hung_up_def)
  then show ?thesis using assms(2) by (simp add: pipe_read_def valid_pipe_def Let_def)
qed

lemma ended_writer:
  assumes "ended i code s s'" and "q < PIPE_MAX" and "k < PROCESS_FD_MAX" and "closes_read (pr_fds (proc_table s i) k) q"
  shows "pipe_write (int q) (Some xs) (ps_pipes s') = (-1, ps_pipes s')"
proof -
  have "g_pipes (ps_pipes s') q = hung_up (pr_fds (proc_table s i)) PROCESS_FD_MAX q (g_pipes (ps_pipes s) q)"
    using assms(1,2) by (simp add: ended_def)
  then have "\<not> pp_read_open (g_pipes (ps_pipes s') q)" using assms(3,4) by (auto simp: hung_up_def)
  then show ?thesis using assms(2) by (simp add: pipe_write_def valid_pipe_def Let_def)
qed

subsection \<open>Waiting\<close>

lemma wait_zombie_returns:
  "(\<forall>m<n. pstate ((env ^^ m) s) i \<noteq> PROC_STATE_ZOMBIE) \<Longrightarrow> pstate ((env ^^ n) s) i = PROC_STATE_ZOMBIE \<Longrightarrow>
   wait_zombie env i s = Some ((env ^^ n) s)"
proof (induction n arbitrary: s)
  case 0
  then show ?case by (subst wait_zombie.simps) simp
next
  case (Suc n)
  have "wait_zombie env i (env s) = Some ((env ^^ n) (env s))"
    by (rule Suc.IH) (use Suc.prems in \<open>auto simp: funpow_swap1 simp flip: funpow.simps(2) [unfolded o_def]\<close>)
  moreover have "pstate s i \<noteq> PROC_STATE_ZOMBIE" using Suc.prems(1) by fastforce
  ultimately show ?case by (subst wait_zombie.simps) (simp add: funpow_swap1)
qed

lemma wait_zombie_some:
  assumes "wait_zombie env i s = Some t"
  shows "\<exists>n. pstate ((env ^^ n) s) i = PROC_STATE_ZOMBIE"
proof (rule wait_zombie.raw_induct [of "\<lambda>env i s t. \<exists>n. pstate ((env ^^ n) s) i = PROC_STATE_ZOMBIE", OF _ assms], goal_cases)
  case (1 f e j u v)
  show ?case
  proof (cases "pstate u j = PROC_STATE_ZOMBIE")
    case True
    then show ?thesis by (intro exI [of _ 0]) simp
  next
    case False
    then obtain n where "pstate ((e ^^ n) (e u)) j = PROC_STATE_ZOMBIE" using 1(1) [of e j "e u" v] 1(2) by auto
    then show ?thesis by (intro exI [of _ "Suc n"]) (simp add: funpow_swap1)
  qed
qed

text \<open>While the address space is active, destruction changes nothing; at the first yield after which it is not, the slot is freed.\<close>

lemma wait_destroy_returns:
  "(\<forall>m<k. vmm_address_space_is_active (pr_address_space (proc_table ((env ^^ m) s) i)) (ps_vms ((env ^^ m) s))) \<Longrightarrow>
   (\<forall>m\<le>k. pstate ((env ^^ m) s) i \<noteq> PROC_STATE_UNUSED) \<Longrightarrow>
   \<not> vmm_address_space_is_active (pr_address_space (proc_table ((env ^^ k) s) i)) (ps_vms ((env ^^ k) s)) \<Longrightarrow>
   wait_destroy env i s = Some (process_destroy (Some i) ((env ^^ k) s)) \<and>
   pstate (process_destroy (Some i) ((env ^^ k) s)) i = PROC_STATE_UNUSED"
proof (induction k arbitrary: s)
  case 0
  let ?d = "process_destroy (Some i) s"
  have "pstate ?d i = PROC_STATE_UNUSED" using 0 by (simp add: process_destroy_def upd_proc_def)
  moreover from this have "wait_destroy env i ?d = Some ?d" by (subst wait_destroy.simps) simp
  ultimately show ?case using 0 by (subst wait_destroy.simps) (simp add: Let_def)
next
  case (Suc k)
  have sh: "(env ^^ m) (env s) = (env ^^ Suc m) s" for m by (simp add: funpow_swap1)
  have u: "pstate s i \<noteq> PROC_STATE_UNUSED" and act: "vmm_address_space_is_active (pr_address_space (proc_table s i)) (ps_vms s)"
    using Suc.prems(1,2) by fastforce+
  have d: "process_destroy (Some i) s = s" using act by (simp add: process_destroy_def)
  have "wait_destroy env i (env s) = Some (process_destroy (Some i) ((env ^^ k) (env s))) \<and>
      pstate (process_destroy (Some i) ((env ^^ k) (env s))) i = PROC_STATE_UNUSED"
    by (rule Suc.IH; unfold sh) (use Suc.prems in auto)
  moreover have "wait_destroy env i s = wait_destroy env i (env s)" using u d by (subst wait_destroy.simps) (simp add: Let_def)
  ultimately show ?case unfolding sh by simp
qed

subsection \<open>Properties\<close>

text \<open>
  C39. A process that ends hangs up on its peers at once. Whether it is killed (exit code 128 plus the low seven bits of
  the signal) or exits with \<open>code\<close>, before the call is over its exit code is stored, it is a zombie or already freed, all its
  descriptors are free, and every pipe has lost exactly the ends the process held, with its data untouched, although the
  slot stays a zombie until the parent waits. So a peer that reads an empty pipe whose write end the process held gets end of file and not
  \<open>would block\<close>, and a peer that writes to a pipe whose read end it held gets an error.
\<close>

theorem dead_process_hangs_up:
  assumes "process_by_pid pid s = Some i \<and> process_kill pid signal s = (0, s') \<and> code = 128 + uint (signal AND 0x7F) \<or>
      process_current s = Some i \<and> process_exit code s = Some s'"
  shows "pr_exit_code (proc_table s' i) = code \<and> (pstate s' i = PROC_STATE_ZOMBIE \<or> pstate s' i = PROC_STATE_UNUSED) \<and>
    (\<forall>k<PROCESS_FD_MAX. pr_fds (proc_table s' i) k = fd_free_slot) \<and>
    (\<forall>q<PIPE_MAX. g_pipes (ps_pipes s') q = hung_up (pr_fds (proc_table s i)) PROCESS_FD_MAX q (g_pipes (ps_pipes s) q)) \<and>
    (\<forall>q<PIPE_MAX. \<forall>k<PROCESS_FD_MAX. closes_write (pr_fds (proc_table s i) k) q \<and>
       (\<forall>j<PROCESS_FD_MAX. \<not> closes_read (pr_fds (proc_table s i) j) q) \<and>
       pp_read_open (g_pipes (ps_pipes s) q) \<and> pp_count (g_pipes (ps_pipes s) q) = 0 \<longrightarrow>
       (\<forall>len. pipe_read (int q) True len (ps_pipes s') = (0, [], ps_pipes s'))) \<and>
    (\<forall>q<PIPE_MAX. \<forall>k<PROCESS_FD_MAX. closes_read (pr_fds (proc_table s i) k) q \<longrightarrow>
       (\<forall>xs. pipe_write (int q) (Some xs) (ps_pipes s') = (-1, ps_pipes s')))"
proof -
  have e: "ended i code s s'" using assms process_kill_ended process_exit_ended by blast
  have r: "pipe_read (int q) True len (ps_pipes s') = (0, [], ps_pipes s')"
    if "q < PIPE_MAX" "k < PROCESS_FD_MAX" "closes_write (pr_fds (proc_table s i) k) q \<and>
       (\<forall>j<PROCESS_FD_MAX. \<not> closes_read (pr_fds (proc_table s i) j) q) \<and>
       pp_read_open (g_pipes (ps_pipes s) q) \<and> pp_count (g_pipes (ps_pipes s) q) = 0" for q k len
    using ended_reader [OF e that(1,2)] that(3) by blast
  have w: "pipe_write (int q) (Some xs) (ps_pipes s') = (-1, ps_pipes s')"
    if "q < PIPE_MAX" "k < PROCESS_FD_MAX" "closes_read (pr_fds (proc_table s i) k) q" for q k xs
    by (rule ended_writer [OF e that])
  show ?thesis using e r w unfolding ended_def by blast
qed

text \<open>A running child of process 1 in slot 0 that holds the write end of pipe 0; another process kills it.\<close>

definition demo_writer :: procs where
  "demo_writer = upd_proc 0 (\<lambda>p. p\<lparr>pr_pid := 7, pr_state := PROC_STATE_RUNNING, pr_parent := Some 1,
     pr_fds := (\<lambda>_. fd_free_slot)(3 := \<lparr>fd_ty = FD_TYPE_PIPE, fd_flags = FD_PIPE_FLAG_WRITE, fd_offset = 0, fd_private_data = 0\<rparr>)\<rparr>) demo_procs"

lemma demo_writer_found: "process_by_pid 7 demo_writer = Some 0"
  unfolding process_by_pid_def by (rule find_upt_first) (simp_all add: demo_writer_def upd_proc_def PROCESS_MAX_def)

lemma demo_writer_current: "process_current demo_writer = None"
  by (simp add: process_current_def demo_writer_def upd_proc_def demo_procs_def process_system_init_def blank_sched_def)

lemma demo_writer_slot:
  "pr_address_space (proc_table demo_writer 0) = None" "pr_parent (proc_table demo_writer 0) = Some 1"
  "pr_main_thread (proc_table demo_writer 0) = None" "pstate demo_writer 0 = PROC_STATE_RUNNING" "ps_pipes demo_writer = demo_pipes"
  by (simp_all add: demo_writer_def upd_proc_def demo_procs_def process_system_init_def process_zero_def PROCESS_MAX_def)

lemma demo_writer_killed: "process_kill 7 9 demo_writer = (0, snd (process_kill 7 9 demo_writer))"
  using demo_writer_found demo_writer_current demo_writer_slot by (simp add: process_kill_def Let_def)

theorem dead_process_hangs_up_witness:
  "pr_exit_code (proc_table (snd (process_kill 7 9 demo_writer)) 0) = 137 \<and>
   pipe_read 0 True 16 (ps_pipes (snd (process_kill 7 9 demo_writer))) = (0, [], ps_pipes (snd (process_kill 7 9 demo_writer)))"
proof -
  let ?s' = "snd (process_kill 7 9 demo_writer)"
  have fds: "pr_fds (proc_table demo_writer 0) k =
      (if k = 3 then \<lparr>fd_ty = FD_TYPE_PIPE, fd_flags = FD_PIPE_FLAG_WRITE, fd_offset = 0, fd_private_data = 0\<rparr> else fd_free_slot)" for k
    by (simp add: demo_writer_def upd_proc_def)
  have w: "closes_write (pr_fds (proc_table demo_writer 0) 3) 0" and nr: "\<forall>j. \<not> closes_read (pr_fds (proc_table demo_writer 0) j) 0"
    by (simp_all add: fds closes_write_def closes_read_def FD_PIPE_FLAG_WRITE_def FD_PIPE_FLAG_READ_def fd_free_slot_def)
  have p: "pp_read_open (g_pipes (ps_pipes demo_writer) 0)" "pp_count (g_pipes (ps_pipes demo_writer) 0) = 0"
    unfolding demo_writer_slot demo_pipes_def demo_pipes_eq by (simp_all add: pipe_zero_def)
  have b: "0 < PIPE_MAX" "3 < PROCESS_FD_MAX" by (simp_all add: PIPE_MAX_def PROCESS_FD_MAX_def)
  have c: "(137 :: int) = 128 + uint ((9 :: u32) AND 0x7F)" by simp
  note t = dead_process_hangs_up [OF disjI1 [OF conjI [OF demo_writer_found conjI [OF demo_writer_killed c]]]]
  have "pipe_read (int 0) True 16 (ps_pipes ?s') = (0, [], ps_pipes ?s')" using t b w nr p by blast
  then show ?thesis using t by simp
qed

text \<open>
  C40. Waiting for a child returns exactly when it should. \<open>env\<close> is what the rest of the system does during one yield. If the
  child becomes a zombie (first after \<open>n\<close> yields) and its address space stays active for \<open>k\<close> more yields and is then released,
  with the slot kept meanwhile, \<^verbatim>\<open>process_wait\<close> returns 0 and the exit code the child had as a zombie, and has
  destroyed it: the slot is free. An unknown pid is refused at once and leaves the state unchanged. If the child never becomes a zombie,
  which includes the case that its slot is freed by another path first, the call never returns.
\<close>

theorem process_wait_returns:
  "(\<forall>i n k. process_by_pid pid s = Some i \<and>
     (\<forall>m<n. pstate ((env ^^ m) s) i \<noteq> PROC_STATE_ZOMBIE) \<and> pstate ((env ^^ n) s) i = PROC_STATE_ZOMBIE \<and>
     (\<forall>m<k. vmm_address_space_is_active (pr_address_space (proc_table ((env ^^ (m + n)) s) i)) (ps_vms ((env ^^ (m + n)) s))) \<and>
     (\<forall>m\<le>k. pstate ((env ^^ (m + n)) s) i \<noteq> PROC_STATE_UNUSED) \<and>
     \<not> vmm_address_space_is_active (pr_address_space (proc_table ((env ^^ (k + n)) s) i)) (ps_vms ((env ^^ (k + n)) s)) \<longrightarrow>
     process_wait env pid s = Some (0, Some (pr_exit_code (proc_table ((env ^^ n) s) i)), process_destroy (Some i) ((env ^^ (k + n)) s)) \<and>
     pstate (process_destroy (Some i) ((env ^^ (k + n)) s)) i = PROC_STATE_UNUSED) \<and>
   (process_by_pid pid s = None \<longrightarrow> process_wait env pid s = Some (-1, None, s)) \<and>
   (\<forall>i. process_by_pid pid s = Some i \<and> (\<forall>n. pstate ((env ^^ n) s) i \<noteq> PROC_STATE_ZOMBIE) \<longrightarrow> process_wait env pid s = None)"
proof (intro conjI allI impI; (elim conjE)?)
  fix i n k
  assume i: "process_by_pid pid s = Some i"
    and z: "\<forall>m<n. pstate ((env ^^ m) s) i \<noteq> PROC_STATE_ZOMBIE" "pstate ((env ^^ n) s) i = PROC_STATE_ZOMBIE"
    and a: "\<forall>m<k. vmm_address_space_is_active (pr_address_space (proc_table ((env ^^ (m + n)) s) i)) (ps_vms ((env ^^ (m + n)) s))"
      "\<forall>m\<le>k. pstate ((env ^^ (m + n)) s) i \<noteq> PROC_STATE_UNUSED"
      "\<not> vmm_address_space_is_active (pr_address_space (proc_table ((env ^^ (k + n)) s) i)) (ps_vms ((env ^^ (k + n)) s))"
  have sh: "(env ^^ m) ((env ^^ n) s) = (env ^^ (m + n)) s" for m by (simp add: funpow_add)
  note w = wait_destroy_returns [of k env "(env ^^ n) s" i, unfolded sh, OF a]
  show "process_wait env pid s = Some (0, Some (pr_exit_code (proc_table ((env ^^ n) s) i)), process_destroy (Some i) ((env ^^ (k + n)) s))"
    using w by (simp add: process_wait_def i wait_zombie_returns [OF z])
  show "pstate (process_destroy (Some i) ((env ^^ (k + n)) s)) i = PROC_STATE_UNUSED" using w by simp
next
  fix i
  assume i: "process_by_pid pid s = Some i" and n: "\<forall>n. pstate ((env ^^ n) s) i \<noteq> PROC_STATE_ZOMBIE"
  then have "wait_zombie env i s = None" using wait_zombie_some [of env i s] by (cases "wait_zombie env i s") auto
  then show "process_wait env pid s = None" by (simp add: process_wait_def i)
qed (simp add: process_wait_def)

theorem process_wait_returns_witness:
  "\<exists>t. process_wait (\<lambda>s. snd (process_kill 7 9 s)) 7 demo_writer = Some (0, Some 137, t) \<and> pstate t 0 = PROC_STATE_UNUSED"
proof -
  let ?env = "\<lambda>s. snd (process_kill 7 9 s)"
  note k = process_kill_ended [OF demo_writer_found demo_writer_killed]
  have k1: "pr_exit_code (proc_table (?env demo_writer) 0) = 137" "pstate (?env demo_writer) 0 = PROC_STATE_ZOMBIE"
    "pr_address_space (proc_table (?env demo_writer) 0) = None"
    using k by (simp_all add: ended_def demo_writer_slot)
  have f: "(?env ^^ Suc 0) demo_writer = ?env demo_writer" by simp
  note t = process_wait_returns [of 7 demo_writer ?env, THEN conjunct1, rule_format, of 0 "Suc 0" 0]
  show ?thesis
    using t k1 by (auto simp: demo_writer_found demo_writer_slot vmm_address_space_is_active_def)
qed

end
