(* ===== verification/Kmem.thy ===== *)
theory Kmem
  imports CapyBase
begin

text \<open>
  The kernel heap: \<^verbatim>\<open>arch/x86_64/kmem64.c\<close>, a first-fit free-list allocator over a static array.

  The list of block headers that starts at \<^verbatim>\<open>free_list\<close> is a list of records, each with the address of
  its header; the link \<^verbatim>\<open>next\<close> is the order of the list. Addresses and block sizes are naturals,
  because the heap is a fixed array of 96 MiB; the rounding of a requested size is done in 64 bits,
  as in the code. \<open>km_mem\<close> are the bytes of the payloads, \<open>km_words\<close> the pointers that
  \<^verbatim>\<open>kmalloc_aligned\<close> stores in front of the addresses it hands out. A call \<open>kfree p\<close> whose pointer
  has no header in the list is outside of the allocator's contract: the result is \<open>None\<close>.
  The consistency of the heap is \<open>heap_ok\<close>: the blocks tile the array without gap or overlap, and no
  two neighbours are both free.
\<close>

subsection \<open>State\<close>

definition KHEAP_SIZE :: nat where "KHEAP_SIZE = 96 * 1024 * 1024"
definition HEADER_MAGIC :: u8 where "HEADER_MAGIC = 0xCC"
definition ALIGN :: u64 where "ALIGN = 16"
definition HEADER_SIZE :: nat where "HEADER_SIZE = 24"

record header =
  hd_addr :: nat
  hd_size :: nat
  hd_is_free :: bool
  hd_magic :: u8

record kmem =
  kheap :: nat
  free_list :: "header list"
  kmem_oom_warning :: bool
  g_kmem_initialized :: bool
  km_mem :: "nat \<Rightarrow> u8"
  km_words :: "nat \<Rightarrow> nat"

subsection \<open>Operations\<close>

definition memzero_internal :: "nat \<Rightarrow> nat \<Rightarrow> (nat \<Rightarrow> u8) \<Rightarrow> nat \<Rightarrow> u8" where
  "memzero_internal p len m = (\<lambda>a. if p \<le> a \<and> a < p + len then 0 else m a)"

definition kinit :: "kmem \<Rightarrow> kmem" where
  "kinit s = s\<lparr>free_list := [\<lparr>hd_addr = kheap s, hd_size = KHEAP_SIZE - HEADER_SIZE, hd_is_free = True,
                               hd_magic = HEADER_MAGIC\<rparr>],
               kmem_oom_warning := False, g_kmem_initialized := True\<rparr>"

text \<open>The search loop of \<^verbatim>\<open>kalloc\<close>: the outcome and the list with the block split and taken.\<close>

datatype alloc_outcome = Corrupted | Out_of_memory | Block nat nat

definition align_up :: "u64 \<Rightarrow> nat" where
  "align_up sz = unat ((sz + (ALIGN - 1)) AND NOT (ALIGN - 1))"

fun kalloc_from :: "nat \<Rightarrow> header list \<Rightarrow> alloc_outcome \<times> header list" where
  "kalloc_from aligned_size [] = (Out_of_memory, [])"
| "kalloc_from aligned_size (cur # rest) =
     (if hd_magic cur \<noteq> HEADER_MAGIC then (Corrupted, cur # rest)
      else if hd_is_free cur \<and> hd_size cur \<ge> aligned_size then
        (if hd_size cur \<ge> aligned_size + HEADER_SIZE + unat ALIGN then
           (Block (hd_addr cur + HEADER_SIZE) aligned_size,
            cur\<lparr>hd_size := aligned_size, hd_is_free := False\<rparr> #
            \<lparr>hd_addr = hd_addr cur + HEADER_SIZE + aligned_size,
             hd_size = hd_size cur - aligned_size - HEADER_SIZE, hd_is_free = True,
             hd_magic = HEADER_MAGIC\<rparr> # rest)
         else (Block (hd_addr cur + HEADER_SIZE) (hd_size cur), cur\<lparr>hd_is_free := False\<rparr> # rest))
      else (let (r, rest') = kalloc_from aligned_size rest in (r, cur # rest')))"

definition kalloc :: "u64 \<Rightarrow> kmem \<Rightarrow> nat option \<times> kmem" where
  "kalloc sz s =
     (if sz = 0 then (None, s)
      else if \<not> g_kmem_initialized s then (None, s)
      else case kalloc_from (align_up sz) (free_list s) of
        (Block p n, l) \<Rightarrow> (Some p, s\<lparr>free_list := l, km_mem := memzero_internal p n (km_mem s)\<rparr>)
      | (Corrupted, l) \<Rightarrow> (None, s)
      | (Out_of_memory, l) \<Rightarrow> (None, s\<lparr>kmem_oom_warning := True\<rparr>))"

function coalesce :: "header list \<Rightarrow> header list" where
  "coalesce [] = []"
| "coalesce [cur] = [cur]"
| "coalesce (cur # n # rest) =
     (if hd_is_free cur \<and> hd_is_free n \<and> hd_addr cur + HEADER_SIZE + hd_size cur = hd_addr n
      then coalesce (cur\<lparr>hd_size := hd_size cur + (HEADER_SIZE + hd_size n)\<rparr> # rest)
      else cur # coalesce (n # rest))"
  by pat_completeness auto
termination
  by (relation "measure length") auto

definition set_free :: "nat \<Rightarrow> header list \<Rightarrow> header list" where
  "set_free p l = map (\<lambda>h. if hd_addr h + HEADER_SIZE = p then h\<lparr>hd_is_free := True\<rparr> else h) l"

definition kfree :: "nat option \<Rightarrow> kmem \<Rightarrow> kmem option" where
  "kfree ptr s =
     (case ptr of None \<Rightarrow> Some s
      | Some p \<Rightarrow>
          if \<not> g_kmem_initialized s then Some s
          else case find (\<lambda>h. hd_addr h + HEADER_SIZE = p) (free_list s) of
            None \<Rightarrow> None
          | Some blk \<Rightarrow>
              if hd_magic blk \<noteq> HEADER_MAGIC then Some s
              else Some (s\<lparr>free_list := coalesce (set_free p (free_list s))\<rparr>))"

definition kheap_used :: "kmem \<Rightarrow> nat" where
  "kheap_used s = fold (\<lambda>h used. if \<not> hd_is_free h then used + hd_size h else used) (free_list s) 0"

definition kmalloc_aligned :: "u64 \<Rightarrow> u64 \<Rightarrow> kmem \<Rightarrow> nat option \<times> kmem" where
  "kmalloc_aligned sz alignment s =
     (if sz = 0 \<or> alignment = 0 then (None, s)
      else if alignment AND (alignment - 1) \<noteq> 0 then (None, s)
      else let extra = alignment + 8; (raw, s1) = kalloc (sz + extra) s in
        case raw of None \<Rightarrow> (None, s1)
        | Some r \<Rightarrow>
            let addr = of_nat r + 8;
                aligned = unat ((addr + alignment - 1) AND NOT (alignment - 1))
            in (Some aligned, s1\<lparr>km_words := (km_words s1)(aligned - 8 := r)\<rparr>))"

definition kfree_aligned :: "nat option \<Rightarrow> kmem \<Rightarrow> kmem option" where
  "kfree_aligned ptr s =
     (case ptr of None \<Rightarrow> Some s | Some p \<Rightarrow> kfree (Some (km_words s (p - 8))) s)"

subsection \<open>The heap invariant\<close>

text \<open>The blocks cover the addresses from \<open>a\<close> to \<open>e\<close> one after the other.\<close>

fun tiles :: "nat \<Rightarrow> header list \<Rightarrow> nat \<Rightarrow> bool" where
  "tiles a [] e = (a = e)"
| "tiles a (h # hs) e = (hd_addr h = a \<and> hd_magic h = HEADER_MAGIC \<and> tiles (a + HEADER_SIZE + hd_size h) hs e)"

fun no_free_neighbours :: "header list \<Rightarrow> bool" where
  "no_free_neighbours (h # h' # hs) = (\<not> (hd_is_free h \<and> hd_is_free h') \<and> no_free_neighbours (h' # hs))"
| "no_free_neighbours _ = True"

definition heap_ok :: "kmem \<Rightarrow> bool" where
  "heap_ok s = (g_kmem_initialized s \<and> tiles (kheap s) (free_list s) (kheap s + KHEAP_SIZE) \<and>
     no_free_neighbours (free_list s) \<and> free_list s \<noteq> [])"

text \<open>The payload ranges in use, as pairs of address and length.\<close>

definition used_blocks :: "header list \<Rightarrow> (nat \<times> nat) set" where
  "used_blocks l = {(hd_addr h + HEADER_SIZE, hd_size h) |h. h \<in> set l \<and> \<not> hd_is_free h}"

abbreviation live :: "kmem \<Rightarrow> (nat \<times> nat) set" where
  "live s \<equiv> used_blocks (free_list s)"

lemma used_blocks_Nil [simp]: "used_blocks [] = {}"
  by (simp add: used_blocks_def)

lemma used_blocks_Cons [simp]:
  "used_blocks (h # l) = (if hd_is_free h then used_blocks l
     else insert (hd_addr h + HEADER_SIZE, hd_size h) (used_blocks l))"
  by (auto simp: used_blocks_def)

lemma tiles_le: "tiles a l e \<Longrightarrow> a \<le> e"
  by (induction l arbitrary: a) (auto, metis add_leD1)

lemma tiles_range:
  "tiles a l e \<Longrightarrow> h \<in> set l \<Longrightarrow> a \<le> hd_addr h \<and> hd_addr h + HEADER_SIZE + hd_size h \<le> e \<and> hd_magic h = HEADER_MAGIC"
proof (induction l arbitrary: a)
  case (Cons x l)
  then show ?case using tiles_le [of "a + HEADER_SIZE + hd_size x" l e] by fastforce
qed simp

lemma tiles_apart:
  assumes "tiles a l e" and "h \<in> set l" and "h' \<in> set l" and "h \<noteq> h'"
  shows "hd_addr h + HEADER_SIZE + hd_size h \<le> hd_addr h' \<or> hd_addr h' + HEADER_SIZE + hd_size h' \<le> hd_addr h"
  using assms
proof (induction l arbitrary: a)
  case (Cons x l)
  have later: "hd_addr x + HEADER_SIZE + hd_size x \<le> hd_addr k" if "k \<in> set l" for k
    using Cons.prems(1) tiles_range [OF _ that] by auto
  from Cons.prems(2-4) consider "h = x" "h' \<in> set l" | "h' = x" "h \<in> set l" | "h \<in> set l" "h' \<in> set l"
    by auto
  then show ?case
  proof cases
    case 3
    with Cons show ?thesis by auto
  qed (auto dest: later)
qed simp

lemma same_header_addr:
  assumes "tiles a l e" and "h \<in> set l" and "h' \<in> set l" and "hd_addr h = hd_addr h'"
  shows "h = h'"
  using tiles_apart [OF assms(1-3)] assms(4) by (auto simp: HEADER_SIZE_def)

lemma live_apart:
  assumes "tiles a l e" and "(p, n) \<in> used_blocks l" and "(q, m) \<in> used_blocks l" and "(p, n) \<noteq> (q, m)"
  shows "{p..<p + n} \<inter> {q..<q + m} = {}" and "p \<noteq> q"
proof -
  obtain h h' where h: "h \<in> set l" "p = hd_addr h + HEADER_SIZE" "n = hd_size h"
    and h': "h' \<in> set l" "q = hd_addr h' + HEADER_SIZE" "m = hd_size h'"
    using assms(2,3) by (auto simp: used_blocks_def)
  with assms(4) have "h \<noteq> h'" by auto
  from tiles_apart [OF assms(1) h(1) h'(1) this] h h'
  show "{p..<p + n} \<inter> {q..<q + m} = {}" "p \<noteq> q" by (auto simp: HEADER_SIZE_def)
qed

lemma live_inside:
  "tiles a l e \<Longrightarrow> (p, n) \<in> used_blocks l \<Longrightarrow> a + HEADER_SIZE \<le> p \<and> p + n \<le> e"
  by (auto simp: used_blocks_def dest: tiles_range)

subsection \<open>Allocation\<close>

lemma align_up_ge:
  assumes "unat sz \<le> 2 ^ 64 - 16"
  shows "unat sz \<le> align_up sz" and "align_up sz mod 16 = 0" and "align_up sz < unat sz + 16"
proof -
  have n: "unat (sz + 15) = unat sz + 15"
    using assms by (simp add: unat_word_ariths)
  have "align_up sz = (unat sz + 15) div 16 * 16"
    unfolding align_up_def ALIGN_def using unat_and_not_mask [of "sz + 15" 4] n by (simp add: mask_15 [symmetric])
  then show "unat sz \<le> align_up sz" "align_up sz mod 16 = 0" "align_up sz < unat sz + 16" by presburger+
qed

lemma kalloc_from_spec:
  assumes "tiles a l e" and "no_free_neighbours l" and "kalloc_from k l = (r, l')"
  shows "tiles a l' e \<and> no_free_neighbours l' \<and> r \<noteq> Corrupted \<and>
    (l \<noteq> [] \<longrightarrow> l' \<noteq> [] \<and> (hd_is_free (hd l') \<longrightarrow> hd_is_free (hd l))) \<and>
    (r = Out_of_memory \<longrightarrow> l' = l \<and> (\<forall>h\<in>set l. hd_is_free h \<longrightarrow> hd_size h < k)) \<and>
    (\<forall>p n. r = Block p n \<longrightarrow> k \<le> n \<and> used_blocks l' = insert (p, n) (used_blocks l) \<and>
       (\<exists>h\<in>set l. hd_is_free h \<and> p = hd_addr h + HEADER_SIZE \<and> n \<le> hd_size h))"
  using assms
proof (induction l arbitrary: a r l')
  case (Cons h l)
  have m: "hd_magic h = HEADER_MAGIC" and t: "tiles (a + HEADER_SIZE + hd_size h) l e" using Cons.prems(1) by auto
  have n: "no_free_neighbours l" using Cons.prems(2) by (cases l) auto
  consider (split) "hd_is_free h" "k + HEADER_SIZE + unat ALIGN \<le> hd_size h"
    | (whole) "hd_is_free h" "k \<le> hd_size h" "\<not> k + HEADER_SIZE + unat ALIGN \<le> hd_size h"
    | (pass) "\<not> (hd_is_free h \<and> k \<le> hd_size h)" by linarith
  then show ?case
  proof cases
    case split
    then have l': "l' = h\<lparr>hd_size := k, hd_is_free := False\<rparr> #
        \<lparr>hd_addr = hd_addr h + HEADER_SIZE + k, hd_size = hd_size h - k - HEADER_SIZE, hd_is_free = True,
         hd_magic = HEADER_MAGIC\<rparr> # l" and r: "r = Block (hd_addr h + HEADER_SIZE) k"
      using Cons.prems(3) m by auto
    have "no_free_neighbours (\<lparr>hd_addr = hd_addr h + HEADER_SIZE + k, hd_size = hd_size h - k - HEADER_SIZE, hd_is_free = True,
         hd_magic = HEADER_MAGIC\<rparr> # l)" using Cons.prems(2) split by (cases l) auto
    then show ?thesis using split Cons.prems(1) by (auto simp: l' r algebra_simps)
  next
    case whole
    then have "l' = h\<lparr>hd_is_free := False\<rparr> # l" "r = Block (hd_addr h + HEADER_SIZE) (hd_size h)"
      using Cons.prems(3) m by auto
    then show ?thesis using whole Cons.prems(1) n by (cases l) auto
  next
    case pass
    then obtain l2 where l2: "kalloc_from k l = (r, l2)" "l' = h # l2"
      using Cons.prems(3) m by (auto split: prod.splits)
    note IH = Cons.IH [OF t n l2(1)]
    have "no_free_neighbours (h # l2)"
    proof (cases l)
      case Nil
      with l2 show ?thesis by auto
    next
      case (Cons x y)
      then show ?thesis using IH \<open>no_free_neighbours (h # l)\<close> by (cases l2) auto
    qed
    then show ?thesis using IH Cons.prems(1) pass by (auto simp: l2)
  qed
qed auto

lemma free_apart_from_live:
  assumes "tiles a l e" and "h \<in> set l" and "hd_is_free h" and "n \<le> hd_size h" and "(q, m) \<in> used_blocks l"
  shows "{hd_addr h + HEADER_SIZE..<hd_addr h + HEADER_SIZE + n} \<inter> {q..<q + m} = {} \<and> q \<noteq> hd_addr h + HEADER_SIZE"
proof -
  obtain h' where h': "h' \<in> set l" "q = hd_addr h' + HEADER_SIZE" "m = hd_size h'" "\<not> hd_is_free h'"
    using assms(5) by (auto simp: used_blocks_def)
  with assms(3) have "h \<noteq> h'" by auto
  from tiles_apart [OF assms(1,2) h'(1) this] assms(4) h' show ?thesis by (auto simp: HEADER_SIZE_def)
qed

subsection \<open>Release\<close>

lemma set_free_tiles: "tiles a (set_free p l) e = tiles a l e"
  by (induction l arbitrary: a) (auto simp: set_free_def)

lemma set_free_used:
  assumes "tiles a l e"
  shows "used_blocks (set_free p l) = {b \<in> used_blocks l. fst b \<noteq> p}"
  by (auto simp: used_blocks_def set_free_def split: if_splits)

lemma coalesce_tiles: "tiles a l e \<Longrightarrow> tiles a (coalesce l) e"
  by (induction l arbitrary: a rule: coalesce.induct) (auto simp: algebra_simps)

lemma coalesce_used: "used_blocks (coalesce l) = used_blocks l"
  by (induction l rule: coalesce.induct) auto

lemma coalesce_Cons: "\<exists>n xs. coalesce (h # l) = h\<lparr>hd_size := n\<rparr> # xs"
  by (induction "h # l" arbitrary: h l rule: coalesce.induct) (auto, (metis header.surjective header.update_convs)+)

lemma coalesce_no_free: "tiles a l e \<Longrightarrow> no_free_neighbours (coalesce l)"
proof (induction l arbitrary: a rule: coalesce.induct)
  case (3 h n l)
  show ?case
  proof (cases "hd_is_free h \<and> hd_is_free n")
    case True
    then show ?thesis using 3 by (auto simp: algebra_simps)
  next
    case False
    obtain k xs where c: "coalesce (n # l) = n\<lparr>hd_size := k\<rparr> # xs" using coalesce_Cons by blast
    have "no_free_neighbours (coalesce (n # l))" using 3(2) False 3(3) by auto
    then show ?thesis using False by (auto simp: c)
  qed
qed auto

lemma coalesce_nonempty: "l \<noteq> [] \<Longrightarrow> coalesce l \<noteq> []"
  by (cases l) (simp, metis coalesce_Cons list.distinct(1))

subsection \<open>The operations keep the heap consistent\<close>

lemma kalloc_result:
  assumes "heap_ok s" and "sz \<noteq> 0" and "kalloc sz s = (r, s')"
  obtains p n where "r = Some p" "heap_ok s'" "align_up sz \<le> n" "live s' = insert (p, n) (live s)"
      "\<And>q m. (q, m) \<in> live s \<Longrightarrow> {p..<p + n} \<inter> {q..<q + m} = {} \<and> q \<noteq> p"
      "km_mem s' = memzero_internal p n (km_mem s)" "km_words s' = km_words s" "kheap s' = kheap s"
    | "r = None" "heap_ok s'" "free_list s' = free_list s" "km_mem s' = km_mem s" "kheap s' = kheap s"
      "\<forall>h\<in>set (free_list s). hd_is_free h \<longrightarrow> hd_size h < align_up sz"
proof -
  have h: "tiles (kheap s) (free_list s) (kheap s + KHEAP_SIZE)" "no_free_neighbours (free_list s)" "free_list s \<noteq> []"
    "g_kmem_initialized s" using assms(1) by (auto simp: heap_ok_def)
  obtain o' l where k: "kalloc_from (align_up sz) (free_list s) = (o', l)" by fastforce
  note sp = kalloc_from_spec [OF h(1,2) k]
  show ?thesis
  proof (cases o')
    case (Block p n)
    with assms(2,3) h(4) k have s': "r = Some p" "s' = s\<lparr>free_list := l, km_mem := memzero_internal p n (km_mem s)\<rparr>"
      by (auto simp: kalloc_def)
    from sp Block obtain b where b: "b \<in> set (free_list s)" "hd_is_free b" "p = hd_addr b + HEADER_SIZE" "n \<le> hd_size b"
      by blast
    from free_apart_from_live [OF h(1) b(1,2,4)]
    have "{p..<p + n} \<inter> {q..<q + m} = {} \<and> q \<noteq> p" if "(q, m) \<in> live s" for q m
      using that unfolding b(3) by blast
    then show ?thesis using sp Block h(3,4) by (intro that(1) [of p n]) (auto simp: s' heap_ok_def)
  next
    case Out_of_memory
    with assms(2,3) h(4) k have "r = None" "s' = s\<lparr>kmem_oom_warning := True\<rparr>" by (auto simp: kalloc_def)
    with sp Out_of_memory h show ?thesis by (intro that(2)) (auto simp: heap_ok_def)
  next
    case Corrupted
    with sp show ?thesis by blast
  qed
qed

lemma kfree_result:
  assumes "heap_ok s" and "(p, n) \<in> live s"
  obtains s' where "kfree (Some p) s = Some s'" "heap_ok s'" "live s' = live s - {(p, n)}" "km_mem s' = km_mem s"
    "km_words s' = km_words s" "kheap s' = kheap s"
proof -
  have h: "tiles (kheap s) (free_list s) (kheap s + KHEAP_SIZE)" "free_list s \<noteq> []" "g_kmem_initialized s"
    using assms(1) by (auto simp: heap_ok_def)
  obtain b where b: "find (\<lambda>h. hd_addr h + HEADER_SIZE = p) (free_list s) = Some b"
    using assms(2) by (cases "find (\<lambda>h. hd_addr h + HEADER_SIZE = p) (free_list s)")
      (auto simp: used_blocks_def find_None_iff)
  have m: "hd_magic b = HEADER_MAGIC" using find_SomeD [OF b] tiles_range [OF h(1)] by blast
  let ?l = "coalesce (set_free p (free_list s))"
  have t: "tiles (kheap s) (set_free p (free_list s)) (kheap s + KHEAP_SIZE)" using h(1) by (simp add: set_free_tiles)
  have "used_blocks ?l = live s - {(p, n)}"
    using live_apart(2) [OF h(1) _ assms(2)] assms(2) unfolding coalesce_used set_free_used [OF h(1)] by fastforce
  moreover have "?l \<noteq> []" using h(2) by (intro coalesce_nonempty) (simp add: set_free_def)
  ultimately show ?thesis
    using b m h(3) coalesce_tiles [OF t] coalesce_no_free [OF t]
    by (intro that [of "s\<lparr>free_list := ?l\<rparr>"]) (simp_all add: kfree_def heap_ok_def)
qed

lemma kinit_ok: "heap_ok (kinit s)" "live (kinit s) = {}"
  by (simp_all add: kinit_def heap_ok_def KHEAP_SIZE_def HEADER_SIZE_def)

lemma all_free_single:
  assumes "heap_ok s" and "live s = {}"
  shows "free_list s = [\<lparr>hd_addr = kheap s, hd_size = KHEAP_SIZE - HEADER_SIZE, hd_is_free = True, hd_magic = HEADER_MAGIC\<rparr>]"
proof -
  have free: "\<forall>h\<in>set (free_list s). hd_is_free h" using assms(2) by (auto simp: used_blocks_def)
  obtain h l where fl: "free_list s = h # l" using assms(1) by (cases "free_list s") (auto simp: heap_ok_def)
  have "l = []" using assms(1) free by (cases l) (auto simp: heap_ok_def fl)
  then show ?thesis using assms(1) free by (auto simp: heap_ok_def fl)
qed

lemma kmalloc_aligned_result:
  assumes "heap_ok s" and "sz \<noteq> 0" and "k < 64" and "unat sz + 2 ^ k + 24 \<le> 2 ^ 64"
    and "kheap s + KHEAP_SIZE + 2 ^ k < 2 ^ 64" and "kmalloc_aligned sz (2 ^ k) s = (Some p, s')"
  obtains r n where "2 ^ k dvd p" "heap_ok s'" "live s' = insert (r, n) (live s)" "r + 8 \<le> p" "p + unat sz \<le> r + n"
    "\<And>q m. (q, m) \<in> live s \<Longrightarrow> {r..<r + n} \<inter> {q..<q + m} = {} \<and> q \<noteq> r" "km_words s' (p - 8) = r"
proof -
  have al: "unat (2 ^ k :: u64) = 2 ^ k" using assms(3) by (simp add: unat_two_power)
  have mk: "(2 ^ k :: u64) - 1 = mask k" by (simp add: mask_eq_exp_minus_1)
  have pow: "(2 ^ k :: u64) AND (2 ^ k - 1) = 0"
    unfolding mk by (rule bit_eqI) (auto simp: bit_simps)
  have nz: "(2 ^ k :: u64) \<noteq> 0" using assms(3) by (simp add: al flip: unat_eq_0)
  let ?req = "sz + (2 ^ k + 8)"
  have req: "unat ?req = unat sz + 2 ^ k + 8"
    using assms(4) al by (simp add: unat_word_ariths)
  then have rnz: "?req \<noteq> 0" by (metis add_is_0 unat_0 zero_neq_numeral)
  obtain x s1 where kr: "kalloc ?req s = (x, s1)" by fastforce
  have x: "x \<noteq> None" using assms(2,6) nz pow kr by (cases x) (auto simp: kmalloc_aligned_def)
  from assms(1) rnz kr show ?thesis
  proof (rule kalloc_result)
    fix r n
    assume r: "x = Some r" "heap_ok s1" "align_up ?req \<le> n" "live s1 = insert (r, n) (live s)"
      "\<And>q m. (q, m) \<in> live s \<Longrightarrow> {r..<r + n} \<inter> {q..<q + m} = {} \<and> q \<noteq> r" "kheap s1 = kheap s"
    have n: "unat sz + 2 ^ k + 8 \<le> n" using align_up_ge(1) [of ?req] req assms(4) r(3) by simp
    have inr: "r + n \<le> kheap s + KHEAP_SIZE"
      using live_inside [of _ "free_list s1" _ r n] r(2,4,6) by (fastforce simp: heap_ok_def)
    have p: "p = unat ((of_nat r + 8 + 2 ^ k - 1) AND NOT (2 ^ k - 1 :: u64))"
      and s': "s' = s1\<lparr>km_words := (km_words s1)(p - 8 := r)\<rparr>"
      using assms(2,6) nz pow kr r(1) by (auto simp: kmalloc_aligned_def Let_def)
    have u: "unat (of_nat r + 8 + 2 ^ k - 1 :: u64) = r + 8 + 2 ^ k - 1"
    proof -
      have "(of_nat r + 8 + 2 ^ k - 1 :: u64) = of_nat (r + 7 + 2 ^ k)" by (simp add: algebra_simps)
      moreover have "r + 7 + 2 ^ k < 2 ^ 64" using inr n assms(5) by linarith
      ultimately show ?thesis by (simp only: unat_of_nat) simp
    qed
    have pv: "p = (r + 8 + 2 ^ k - 1) div 2 ^ k * 2 ^ k"
      unfolding p mk using unat_and_not_mask [of "of_nat r + 8 + 2 ^ k - 1 :: u64" k] u by simp
    have lo: "r + 8 \<le> p"
    proof -
      let ?x = "r + 8 + 2 ^ k - 1"
      have "?x mod 2 ^ k < 2 ^ k" by simp
      then show ?thesis unfolding pv using div_mult_mod_eq [of ?x "2 ^ k"] by linarith
    qed
    have hi: "p \<le> r + 8 + 2 ^ k - 1" unfolding pv by (rule div_times_less_eq_dividend)
    have "p + unat sz \<le> r + n" using hi n by linarith
    moreover have "2 ^ k dvd p" by (simp add: pv)
    ultimately show ?thesis
      using that [of r n] r lo s' by (simp add: heap_ok_def)
  qed (use x in simp)
qed

subsection \<open>Properties\<close>

text \<open>
  Every use of the heap by its clients: blocks are requested with any size and alignment the
  address space can express, and only pointers that are in use are released.
\<close>

inductive heap_run :: "kmem \<Rightarrow> kmem \<Rightarrow> bool" where
  boot: "heap_run s (kinit s)"
| alloc: "heap_run s0 s \<Longrightarrow> kalloc sz s = (r, s') \<Longrightarrow> heap_run s0 s'"
| aligned: "heap_run s0 s \<Longrightarrow> kmalloc_aligned sz al s = (r, s') \<Longrightarrow> heap_run s0 s'"
| release: "heap_run s0 s \<Longrightarrow> (p, n) \<in> live s \<Longrightarrow> kfree (Some p) s = Some s' \<Longrightarrow> heap_run s0 s'"
| release_aligned: "heap_run s0 s \<Longrightarrow> (km_words s (p - 8), n) \<in> live s \<Longrightarrow> kfree_aligned (Some p) s = Some s' \<Longrightarrow> heap_run s0 s'"

lemma kalloc_keeps: "heap_ok s \<Longrightarrow> kalloc sz s = (r, s') \<Longrightarrow> heap_ok s' \<and> kheap s' = kheap s"
  by (cases "sz = 0") (auto simp: kalloc_def [of 0] elim: kalloc_result)

lemma kfree_keeps:
  assumes "heap_ok s" and "(p, n) \<in> live s" and "kfree (Some p) s = Some s'"
  shows "heap_ok s' \<and> kheap s' = kheap s"
  by (rule kfree_result [OF assms(1,2)]) (use assms(3) in auto)

lemma kmalloc_aligned_keeps:
  assumes "heap_ok s" and "kmalloc_aligned sz al s = (r, s')"
  shows "heap_ok s' \<and> kheap s' = kheap s"
proof -
  obtain x s1 where k: "kalloc (sz + (al + 8)) s = (x, s1)" by fastforce
  from kalloc_keeps [OF assms(1) k] assms k show ?thesis
    by (auto simp: kmalloc_aligned_def Let_def heap_ok_def split: if_splits option.splits)
qed

lemma heap_run_ok: "heap_run s0 s \<Longrightarrow> heap_ok s \<and> kheap s = kheap s0"
  by (induction rule: heap_run.induct)
    (auto simp: kinit_ok kfree_aligned_def dest: kalloc_keeps kmalloc_aligned_keeps kfree_keeps, simp add: kinit_def)


definition demo_heap :: kmem where
  "demo_heap = \<lparr>kheap = 4096, free_list = [], kmem_oom_warning = False, g_kmem_initialized = False,
     km_mem = (\<lambda>_. 7), km_words = (\<lambda>_. 0)\<rparr>"

lemma demo_alloc: "fst (kalloc 100 (kinit demo_heap)) = Some 4120"
  "live (snd (kalloc 100 (kinit demo_heap))) = {(4120, 112)}"
proof -
  have "align_up 100 = 112" by (simp add: align_up_def ALIGN_def)
  then show "fst (kalloc 100 (kinit demo_heap)) = Some 4120"
    "live (snd (kalloc 100 (kinit demo_heap))) = {(4120, 112)}"
    by (simp_all add: kalloc_def kinit_def demo_heap_def KHEAP_SIZE_def HEADER_SIZE_def ALIGN_def)
qed




text \<open>
  C27. Aligned blocks. On a consistent heap, when neither the request nor the heap reaches the end of the
  address space, \<^verbatim>\<open>kmalloc_aligned\<close> returns a multiple of the requested power of two that leaves room for the
  whole request inside one fresh block, with the hidden pointer word in front of it inside the
  same block; \<^verbatim>\<open>kfree_aligned\<close> finds that block again and restores exactly the previous blocks in use.
\<close>

theorem kmalloc_aligned_roundtrip:
  assumes "heap_ok s" and "sz \<noteq> 0" and "k < 64" and "unat sz + 2 ^ k + 24 \<le> 2 ^ 64"
    and "kheap s + KHEAP_SIZE + 2 ^ k < 2 ^ 64" and "kmalloc_aligned sz (2 ^ k) s = (Some p, s')"
  shows "2 ^ k dvd p \<and> (\<exists>r n. live s' = insert (r, n) (live s) \<and> r \<le> p - 8 \<and> 8 \<le> p \<and> p + unat sz \<le> r + n \<and>
      (\<forall>b\<in>live s. {r..<r + n} \<inter> {fst b..<fst b + snd b} = {})) \<and>
    (\<exists>s''. kfree_aligned (Some p) s' = Some s'' \<and> heap_ok s'' \<and> live s'' = live s)"
  using assms
proof (rule kmalloc_aligned_result)
  fix r n
  assume r: "2 ^ k dvd p" "heap_ok s'" "live s' = insert (r, n) (live s)" "r + 8 \<le> p" "p + unat sz \<le> r + n"
    "\<And>q m. (q, m) \<in> live s \<Longrightarrow> {r..<r + n} \<inter> {q..<q + m} = {} \<and> q \<noteq> r" "km_words s' (p - 8) = r"
  have "(r, n) \<in> live s'" by (simp add: r(3))
  then obtain s'' where s'': "kfree (Some r) s' = Some s''" "heap_ok s''" "live s'' = live s' - {(r, n)}"
    using kfree_result [OF r(2)] by metis
  have "(r, n) \<notin> live s" using r(6) by blast
  then have "live s'' = live s" by (simp add: s''(3) r(3))
  moreover have "\<forall>b\<in>live s. {r..<r + n} \<inter> {fst b..<fst b + snd b} = {}" using r(6) by (metis prod.collapse)
  ultimately show ?thesis
    using r(1,3-5,7) s''(1,2) by (intro conjI exI [of _ r] exI [of _ n] exI [of _ s'']) (auto simp: kfree_aligned_def)
qed

theorem kmalloc_aligned_roundtrip_witness:
  "\<exists>p s''. fst (kmalloc_aligned 100 64 (kinit demo_heap)) = Some p \<and> 64 dvd p \<and>
    kfree_aligned (Some p) (snd (kmalloc_aligned 100 64 (kinit demo_heap))) = Some s'' \<and> live s'' = {}"
proof -
  have a: "align_up (100 + (64 + 8)) = 176" by (simp add: align_up_def ALIGN_def)
  have f: "fst (kmalloc_aligned 100 64 (kinit demo_heap)) = Some 4160"
    using a by (simp add: kmalloc_aligned_def kalloc_def kinit_def demo_heap_def KHEAP_SIZE_def HEADER_SIZE_def ALIGN_def Let_def)
  then have k: "kmalloc_aligned 100 (2 ^ 6) (kinit demo_heap) = (Some 4160, snd (kmalloc_aligned 100 64 (kinit demo_heap)))"
    by (cases "kmalloc_aligned 100 64 (kinit demo_heap)") simp
  have "kheap (kinit demo_heap) + KHEAP_SIZE + 2 ^ 6 < 2 ^ 64" by (simp add: kinit_def demo_heap_def KHEAP_SIZE_def)
  from kmalloc_aligned_roundtrip [OF kinit_ok(1) _ _ _ this k] kinit_ok(2) f show ?thesis by auto
qed

end
