(* ===== verification/StdinBuf.thy ===== *)
theory StdinBuf
  imports Interfaces
begin

text \<open>
  The keyboard-to-user input buffer, \<^verbatim>\<open>src/src/kernel/stdin_buf.c\<close>: a ring of 256 characters that
  drops input when full, with a drop counter and a high-water mark. The file-static
  variables are the fields of \<open>stdin_buf\<close>; indices and counts (\<^verbatim>\<open>size_t\<close>) are \<open>nat\<close>, bounded by
  the capacity; the drop counter keeps its 64 bits. The popping loops recurse on the number
  of characters still wanted.

  Shown: the buffer is a \<open>bounded_stream\<close>; bulk popping equals repeated popping; every
  character offered is delivered in order, still buffered, discarded on request, or counted
  as dropped.
\<close>

definition STDIN_BUF_SIZE :: nat where "STDIN_BUF_SIZE = 256"

record stdin_buf =
  g_buf :: "char carr"
  g_head :: nat
  g_tail :: nat
  g_count :: nat
  g_high_watermark :: nat
  g_dropped_total :: u64

record stdin_snapshot =
  sn_capacity :: nat
  sn_count :: nat
  sn_space_available :: nat
  sn_high_watermark :: nat
  sn_dropped_total :: u64

definition stdin_buf_init :: "stdin_buf \<Rightarrow> stdin_buf" where
  "stdin_buf_init s =
     \<lparr>g_buf = (\<lambda>i. if i < STDIN_BUF_SIZE then CHR 0x00 else g_buf s i), g_head = 0, g_tail = 0,
      g_count = 0, g_high_watermark = 0, g_dropped_total = 0\<rparr>"

definition stdin_buf_push :: "char \<Rightarrow> stdin_buf \<Rightarrow> int \<times> stdin_buf" where
  "stdin_buf_push c s =
     (if g_count s \<ge> STDIN_BUF_SIZE
      then (0, s\<lparr>g_dropped_total := g_dropped_total s + 1\<rparr>)
      else let s1 = s\<lparr>g_buf := (g_buf s)(g_head s := c), g_head := (g_head s + 1) mod STDIN_BUF_SIZE,
                      g_count := g_count s + 1\<rparr>
           in (1, if g_count s1 > g_high_watermark s1
                  then s1\<lparr>g_high_watermark := g_count s1\<rparr> else s1))"

text \<open>\<^verbatim>\<open>*out\<close> is written only when 1 is returned; a null \<^verbatim>\<open>out\<close> is \<open>False\<close>.\<close>

definition stdin_buf_pop :: "bool \<Rightarrow> stdin_buf \<Rightarrow> int \<times> char option \<times> stdin_buf" where
  "stdin_buf_pop out_ok s =
     (if \<not> out_ok then (0, None, s)
      else if g_count s = 0 then (0, None, s)
      else (1, Some (g_buf s (g_tail s)),
            s\<lparr>g_tail := (g_tail s + 1) mod STDIN_BUF_SIZE, g_count := g_count s - 1\<rparr>))"

text \<open>The loop of \<^verbatim>\<open>stdin_buf_pop_many\<close>; the first argument is \<^verbatim>\<open>max - n\<close>.\<close>

fun pop_loop :: "nat \<Rightarrow> stdin_buf \<Rightarrow> char list \<times> stdin_buf" where
  "pop_loop 0 s = ([], s)"
| "pop_loop (Suc n) s =
     (if g_count s > 0
      then let c = g_buf s (g_tail s);
               (cs, s') = pop_loop n (s\<lparr>g_tail := (g_tail s + 1) mod STDIN_BUF_SIZE, g_count := g_count s - 1\<rparr>)
           in (c # cs, s')
      else ([], s))"

definition stdin_buf_pop_many :: "bool \<Rightarrow> nat \<Rightarrow> stdin_buf \<Rightarrow> nat \<times> char list \<times> stdin_buf" where
  "stdin_buf_pop_many out_ok max_n s =
     (if \<not> out_ok \<or> max_n = 0 then (0, [], s)
      else let (cs, s') = pop_loop max_n s in (length cs, cs, s'))"

fun discard_loop :: "nat \<Rightarrow> nat \<Rightarrow> stdin_buf \<Rightarrow> nat \<times> stdin_buf" where
  "discard_loop 0 n s = (n, s)"
| "discard_loop (Suc k) n s =
     (if g_count s > 0
      then discard_loop k (n + 1)
             (s\<lparr>g_buf := (g_buf s)(g_tail s := CHR 0x00), g_tail := (g_tail s + 1) mod STDIN_BUF_SIZE,
               g_count := g_count s - 1\<rparr>)
      else (n, s))"

definition stdin_buf_discard_many :: "nat \<Rightarrow> stdin_buf \<Rightarrow> nat \<times> stdin_buf" where
  "stdin_buf_discard_many max_n s = discard_loop max_n 0 s"

definition stdin_buf_discard_all :: "stdin_buf \<Rightarrow> nat \<times> stdin_buf" where
  "stdin_buf_discard_all s = stdin_buf_discard_many STDIN_BUF_SIZE s"

definition stdin_buf_ready :: "stdin_buf \<Rightarrow> int" where
  "stdin_buf_ready s = (if g_count s > 0 then 1 else 0)"

definition stdin_buf_space_available :: "stdin_buf \<Rightarrow> nat" where
  "stdin_buf_space_available s = STDIN_BUF_SIZE - g_count s"

definition stdin_buf_snapshot :: "stdin_buf \<Rightarrow> stdin_snapshot" where
  "stdin_buf_snapshot s =
     \<lparr>sn_capacity = STDIN_BUF_SIZE, sn_count = g_count s, sn_space_available = STDIN_BUF_SIZE - g_count s,
      sn_high_watermark = g_high_watermark s, sn_dropped_total = g_dropped_total s\<rparr>"

definition stdin_buf_reset_diagnostics :: "stdin_buf \<Rightarrow> stdin_buf" where
  "stdin_buf_reset_diagnostics s = s\<lparr>g_high_watermark := g_count s, g_dropped_total := 0\<rparr>"

subsection \<open>The buffer as a stream\<close>

definition stdin_ok :: "stdin_buf \<Rightarrow> bool" where
  "stdin_ok s = (g_count s \<le> STDIN_BUF_SIZE \<and> g_tail s < STDIN_BUF_SIZE \<and>
     g_head s = (g_tail s + g_count s) mod STDIN_BUF_SIZE \<and> g_count s \<le> g_high_watermark s \<and>
     g_high_watermark s \<le> STDIN_BUF_SIZE)"

definition stdin_contents :: "stdin_buf \<Rightarrow> char list" where
  "stdin_contents s = ring_list (g_buf s) (g_tail s) (g_count s) STDIN_BUF_SIZE"

text \<open>The interrupt handler offering characters one by one; the result counts those taken.\<close>

fun stdin_feed :: "char list \<Rightarrow> stdin_buf \<Rightarrow> nat \<times> stdin_buf" where
  "stdin_feed [] s = (0, s)"
| "stdin_feed (c # cs) s =
     (let (r, s1) = stdin_buf_push c s; (k, s2) = stdin_feed cs s1 in (nat r + k, s2))"

definition stdin_get :: "nat \<Rightarrow> stdin_buf \<Rightarrow> char list \<times> stdin_buf" where
  "stdin_get n s = (let (k, cs, s') = stdin_buf_pop_many True n s in (cs, s'))"

lemma STDIN_BUF_SIZE_pos [simp]: "0 < STDIN_BUF_SIZE" "STDIN_BUF_SIZE \<noteq> 0"
  by (simp_all add: STDIN_BUF_SIZE_def)

lemma length_stdin_contents [simp]: "length (stdin_contents s) = g_count s"
  by (simp add: stdin_contents_def)

lemma stdin_contents_dropped [simp]:
  "stdin_contents (s\<lparr>g_dropped_total := d\<rparr>) = stdin_contents s" "stdin_ok (s\<lparr>g_dropped_total := d\<rparr>) = stdin_ok s"
  "stdin_contents (s\<lparr>g_high_watermark := h\<rparr>) = stdin_contents s"
  by (simp_all add: stdin_contents_def stdin_ok_def)

lemma push_room:
  assumes "stdin_ok s" and "g_count s < STDIN_BUF_SIZE"
  shows "stdin_ok (snd (stdin_buf_push c s))" and "fst (stdin_buf_push c s) = 1"
    and "stdin_contents (snd (stdin_buf_push c s)) = stdin_contents s @ [c]"
    and "g_dropped_total (snd (stdin_buf_push c s)) = g_dropped_total s"
proof -
  have h: "(g_head s + 1) mod STDIN_BUF_SIZE = (g_tail s + (g_count s + 1)) mod STDIN_BUF_SIZE"
    using assms by (simp add: stdin_ok_def mod_simps)
  show "stdin_ok (snd (stdin_buf_push c s))"
    using assms h by (auto simp: stdin_buf_push_def stdin_ok_def Let_def)
  show "fst (stdin_buf_push c s) = 1" "g_dropped_total (snd (stdin_buf_push c s)) = g_dropped_total s"
    using assms by (simp_all add: stdin_buf_push_def Let_def)
  show "stdin_contents (snd (stdin_buf_push c s)) = stdin_contents s @ [c]"
    using assms ring_list_snoc [OF assms(2), of "g_buf s" "g_tail s" c]
    by (simp add: stdin_buf_push_def Let_def stdin_contents_def stdin_ok_def)
qed

lemma push_full:
  assumes "\<not> g_count s < STDIN_BUF_SIZE"
  shows "stdin_buf_push c s = (0, s\<lparr>g_dropped_total := g_dropped_total s + 1\<rparr>)"
  using assms by (simp add: stdin_buf_push_def)

lemma stdin_feed_law:
  assumes "stdin_ok s" and "stdin_feed cs s = (k, s')"
  shows "stdin_ok s' \<and> k = min (length cs) (STDIN_BUF_SIZE - g_count s) \<and>
    stdin_contents s' = stdin_contents s @ take k cs \<and>
    g_dropped_total s' = g_dropped_total s + of_nat (length cs - k)"
  using assms
proof (induction cs arbitrary: s k)
  case Nil
  then show ?case by simp
next
  case (Cons c cs)
  obtain r s1 where p: "stdin_buf_push c s = (r, s1)" by fastforce
  obtain k1 where f: "stdin_feed cs s1 = (k1, s')" "k = nat r + k1"
    using Cons.prems p by (auto split: prod.splits)
  show ?case
  proof (cases "g_count s < STDIN_BUF_SIZE")
    case True
    note pr = push_room [OF Cons.prems(1) True, of c, unfolded p]
    have g: "g_count s1 = g_count s + 1" using pr(3) length_stdin_contents [of s1] by simp
    have ih: "stdin_ok s' \<and> k1 = min (length cs) (STDIN_BUF_SIZE - g_count s1) \<and>
        stdin_contents s' = stdin_contents s1 @ take k1 cs \<and>
        g_dropped_total s' = g_dropped_total s1 + of_nat (length cs - k1)"
      using Cons.IH [OF _ f(1)] pr(1) by simp
    have k: "k = Suc k1" using f(2) pr(2) by simp
    then show ?thesis using ih pr g True by auto
  next
    case False
    then have s1: "r = 0" "s1 = s\<lparr>g_dropped_total := g_dropped_total s + 1\<rparr>"
      using p push_full by auto
    have ih: "stdin_ok s' \<and> k1 = min (length cs) (STDIN_BUF_SIZE - g_count s1) \<and>
        stdin_contents s' = stdin_contents s1 @ take k1 cs \<and>
        g_dropped_total s' = g_dropped_total s1 + of_nat (length cs - k1)"
      using Cons.IH [OF _ f(1)] Cons.prems(1) by (simp add: s1)
    moreover have "k1 = 0" using ih False s1 by simp
    ultimately show ?thesis using f(2) s1 False by simp
  qed
qed

lemma pop_one:
  assumes "stdin_ok s" and "0 < g_count s"
  defines "s1 \<equiv> s\<lparr>g_tail := (g_tail s + 1) mod STDIN_BUF_SIZE, g_count := g_count s - 1\<rparr>"
  shows "stdin_ok s1" and "stdin_contents s = g_buf s (g_tail s) # stdin_contents s1"
proof -
  have "((g_tail s + 1) mod STDIN_BUF_SIZE + (g_count s - 1)) mod STDIN_BUF_SIZE =
      ((g_tail s + 1) + (g_count s - 1)) mod STDIN_BUF_SIZE" by (rule mod_add_left_eq)
  then show "stdin_ok s1" using assms(1,2) by (auto simp: stdin_ok_def s1_def)
  have "drop 1 (stdin_contents s) = stdin_contents s1"
    using assms(2) by (simp add: stdin_contents_def s1_def ring_list_take_drop(2))
  moreover have "stdin_contents s ! 0 = g_buf s (g_tail s)"
    using assms(1,2) by (simp add: stdin_contents_def ring_list_def stdin_ok_def)
  moreover have "stdin_contents s \<noteq> []"
    using assms(2) length_stdin_contents [of s] by (auto simp del: length_stdin_contents)
  ultimately show "stdin_contents s = g_buf s (g_tail s) # stdin_contents s1"
    by (metis Cons_nth_drop_Suc One_nat_def drop0 length_greater_0_conv)
qed

lemma pop_loop_law:
  assumes "stdin_ok s" and "pop_loop n s = (cs, s')"
  shows "stdin_ok s' \<and> cs = take n (stdin_contents s) \<and> stdin_contents s' = drop n (stdin_contents s) \<and>
    g_dropped_total s' = g_dropped_total s"
  using assms
proof (induction n arbitrary: s cs)
  case 0
  then show ?case by simp
next
  case (Suc n)
  show ?case
  proof (cases "0 < g_count s")
    case True
    note p = pop_one [OF Suc.prems(1) True]
    obtain cs1 where r: "pop_loop n (s\<lparr>g_tail := (g_tail s + 1) mod STDIN_BUF_SIZE, g_count := g_count s - 1\<rparr>) = (cs1, s')"
      "cs = g_buf s (g_tail s) # cs1"
      using Suc.prems(2) True by (auto simp: Let_def split: prod.splits)
    from Suc.IH [OF p(1) r(1)] p(2) r(2) show ?thesis by simp
  next
    case False
    then have "stdin_contents s = []" using length_stdin_contents [of s] by (simp del: length_stdin_contents)
    with False Suc.prems show ?thesis by simp
  qed
qed

lemma stdin_get_law:
  assumes "stdin_ok s" and "stdin_get n s = (cs, s')"
  shows "stdin_ok s' \<and> cs = take n (stdin_contents s) \<and> stdin_contents s' = drop n (stdin_contents s) \<and>
    g_dropped_total s' = g_dropped_total s"
  using assms pop_loop_law [OF assms(1), of n]
  by (auto simp: stdin_get_def stdin_buf_pop_many_def Let_def split: if_splits prod.splits)

interpretation stdin_stream: bounded_stream
  stdin_feed stdin_get stdin_contents STDIN_BUF_SIZE stdin_ok
proof unfold_locales
  show "stdin_ok s \<Longrightarrow> length (stdin_contents s) \<le> STDIN_BUF_SIZE" for s by (simp add: stdin_ok_def)
next
  fix s xs k s' assume "stdin_ok s" "stdin_feed xs s = (k, s')"
  from stdin_feed_law [OF this]
  show "stdin_ok s' \<and> k = min (length xs) (STDIN_BUF_SIZE - length (stdin_contents s)) \<and>
      stdin_contents s' = stdin_contents s @ take k xs" by simp
next
  fix s n ys s' assume "stdin_ok s" "stdin_get n s = (ys, s')"
  from stdin_get_law [OF this]
  show "stdin_ok s' \<and> ys = take n (stdin_contents s) \<and> stdin_contents s' = drop n (stdin_contents s)" by simp
qed

text \<open>How many characters a run of operations offers.\<close>

fun offered :: "char stream_op list \<Rightarrow> nat" where
  "offered [] = 0"
| "offered (Write_op cs # ops) = length cs + offered ops"
| "offered (Read_op n # ops) = offered ops"

lemma run_dropped:
  assumes "stdin_ok s" and "stream_run stdin_feed stdin_get ops s = (ins, outs, s')"
  shows "length ins \<le> offered ops \<and> g_dropped_total s' = g_dropped_total s + of_nat (offered ops - length ins)"
  using assms
proof (induction ops arbitrary: s ins outs)
  case Nil
  then show ?case by simp
next
  case (Cons op ops)
  show ?case
  proof (cases op)
    case (Write_op cs)
    obtain k s1 where w: "stdin_feed cs s = (k, s1)" by fastforce
    obtain i2 where r: "stream_run stdin_feed stdin_get ops s1 = (i2, outs, s')" "ins = take k cs @ i2"
      using Cons.prems Write_op w by (auto split: prod.splits)
    note l = stdin_feed_law [OF Cons.prems(1) w]
    then have ih: "length i2 \<le> offered ops" "g_dropped_total s' = g_dropped_total s1 + of_nat (offered ops - length i2)"
      using Cons.IH [OF _ r(1)] by simp_all
    have k: "k \<le> length cs" and len: "length ins = k + length i2" using l r(2) by simp_all
    have "g_dropped_total s' = g_dropped_total s + of_nat (length cs - k + (offered ops - length i2))"
      unfolding ih(2) using l by (simp only: of_nat_add add.assoc)
    moreover have "length cs - k + (offered ops - length i2) = offered (op # ops) - length ins"
      using k ih(1) len Write_op by simp
    moreover have "length ins \<le> offered (op # ops)" using k ih(1) len Write_op by simp
    ultimately show ?thesis by (simp only: simp_thms)
  next
    case (Read_op n)
    obtain ys s1 where w: "stdin_get n s = (ys, s1)" by fastforce
    obtain o2 where r: "stream_run stdin_feed stdin_get ops s1 = (ins, o2, s')"
      using Cons.prems Read_op w by (auto split: prod.splits)
    from stdin_get_law [OF Cons.prems(1) w] Cons.IH [OF _ r] Read_op show ?thesis by simp
  qed
qed

subsection \<open>Discarding\<close>

lemma discard_loop_law:
  assumes "stdin_ok s" and "discard_loop n k s = (r, s')"
  shows "stdin_ok s' \<and> r = k + min n (g_count s) \<and> stdin_contents s' = drop n (stdin_contents s) \<and>
    (\<forall>j<STDIN_BUF_SIZE. g_buf s' j = g_buf s j \<or> g_buf s' j = CHR 0x00) \<and>
    (\<forall>i < min n (g_count s). g_buf s' ((g_tail s + i) mod STDIN_BUF_SIZE) = CHR 0x00)"
  using assms
proof (induction n arbitrary: s k)
  case 0
  then show ?case by simp
next
  case (Suc n)
  show ?case
  proof (cases "0 < g_count s")
    case True
    let ?s0 = "s\<lparr>g_buf := (g_buf s)(g_tail s := CHR 0x00)\<rparr>"
    let ?s1 = "?s0\<lparr>g_tail := (g_tail s + 1) mod STDIN_BUF_SIZE, g_count := g_count s - 1\<rparr>"
    have ok0: "stdin_ok ?s0" "g_tail s < STDIN_BUF_SIZE" using Suc.prems(1) by (simp_all add: stdin_ok_def)
    have c: "stdin_ok ?s1" "stdin_contents ?s0 = CHR 0x00 # stdin_contents ?s1"
      using pop_one [OF ok0(1)] True by simp_all
    have inj: "(g_tail s + i) mod STDIN_BUF_SIZE \<noteq> g_tail s" if "0 < i" "i < STDIN_BUF_SIZE" for i
      using ring_index_inj [of i STDIN_BUF_SIZE 0 "g_tail s"] that ok0(2) by auto
    have dr: "drop 1 (stdin_contents s) = stdin_contents ?s1"
    proof (rule nth_equalityI)
      show "length (drop 1 (stdin_contents s)) = length (stdin_contents ?s1)" by simp
      fix i assume i: "i < length (drop 1 (stdin_contents s))"
      then have "Suc i < STDIN_BUF_SIZE" using Suc.prems(1) by (auto simp: stdin_ok_def)
      moreover have "[0..<g_count s] ! Suc i = Suc i" using i by simp
      ultimately show "drop 1 (stdin_contents s) ! i = stdin_contents ?s1 ! i"
        using inj [of "Suc i"] i by (simp add: stdin_contents_def ring_list_def mod_simps)
    qed
    have rec: "discard_loop n (k + 1) ?s1 = (r, s')" using Suc.prems(2) True by simp
    note ih = Suc.IH [OF c(1) rec]
    have "g_buf s' ((g_tail s + i) mod STDIN_BUF_SIZE) = CHR 0x00" if i: "i < min (Suc n) (g_count s)" for i
    proof (cases i)
      case 0
      with ih ok0(2) show ?thesis by auto
    next
      case (Suc j)
      with i have "j < min n (g_count ?s1)" by auto
      with ih Suc show ?thesis by (auto simp: mod_simps)
    qed
    moreover have "stdin_contents s' = drop (Suc n) (stdin_contents s)"
      using ih dr by (metis One_nat_def drop_drop plus_1_eq_Suc add.commute)
    ultimately show ?thesis using ih True by (auto split: if_splits)
  next
    case False
    then have "stdin_contents s = []" using length_stdin_contents [of s] by (simp del: length_stdin_contents)
    with False Suc.prems show ?thesis by simp
  qed
qed

definition demo_stdin :: stdin_buf where
  "demo_stdin = stdin_buf_init \<lparr>g_buf = (\<lambda>_. CHR ''x''), g_head = 3, g_tail = 5, g_count = 9,
     g_high_watermark = 0, g_dropped_total = 7\<rparr>"

lemma demo_stdin_ok: "stdin_ok demo_stdin" "stdin_contents demo_stdin = []" "g_dropped_total demo_stdin = 0"
  by (simp_all add: demo_stdin_def stdin_buf_init_def stdin_ok_def stdin_contents_def ring_list_def)

subsection \<open>Properties\<close>



text \<open>
  Discarding input scrubs it. \<^verbatim>\<open>stdin_buf_discard_many\<close> removes the oldest \<open>min n count\<close>
  characters, returns how many, and leaves zeroes in the slots they occupied; no slot
  receives anything but a zero.
\<close>

theorem stdin_discard_scrubs:
  assumes "stdin_ok s" and "stdin_buf_discard_many n s = (r, s')"
  shows "r = min n (g_count s) \<and> stdin_contents s' = drop n (stdin_contents s) \<and> stdin_ok s' \<and>
    (\<forall>i < r. g_buf s' ((g_tail s + i) mod STDIN_BUF_SIZE) = CHR 0x00) \<and>
    (\<forall>j<STDIN_BUF_SIZE. g_buf s' j = g_buf s j \<or> g_buf s' j = CHR 0x00)"
  using discard_loop_law [OF assms(1), of n 0 r s'] assms(2) by (simp add: stdin_buf_discard_many_def)

theorem stdin_discard_scrubs_witness:
  "fst (stdin_buf_discard_many 2 (snd (stdin_feed ''pwd'' demo_stdin))) = 2 \<and>
   stdin_contents (snd (stdin_buf_discard_many 2 (snd (stdin_feed ''pwd'' demo_stdin)))) = ''d''"
proof -
  obtain k s1 where s1: "stdin_feed ''pwd'' demo_stdin = (k, s1)" by fastforce
  note l1 = stdin_feed_law [OF demo_stdin_ok(1) s1]
  have c: "stdin_contents s1 = ''pwd''" 
    using stdin_stream.put_law [OF demo_stdin_ok(1) s1] by (auto simp: demo_stdin_ok(2) STDIN_BUF_SIZE_def)
  then have g: "g_count s1 = 3" using length_stdin_contents [of s1] by simp
  obtain r s2 where s2: "stdin_buf_discard_many 2 s1 = (r, s2)" by fastforce
  from stdin_discard_scrubs [OF conjunct1 [OF l1] s2] show ?thesis unfolding s1 snd_conv s2 by (simp add: c g)
qed

end
