(* ===== verification/WorkQueue.thy ===== *)
theory WorkQueue
  imports CapyBase
begin

text \<open>
  The system work queue, \<^verbatim>\<open>src/src/core/work_queue.c\<close>: seven deferred work items that a poll runs
  when they are due. Callbacks run without the queue lock and may call back into the queue, so
  each item carries a generation number; the completion of a run is recorded only when the
  generation is the one the run started with.

  C strings are \<open>string\<close>s without their terminator. A callback is a number, and what it does is the
  argument \<open>run\<close>: given the function, its context and the queue at the call, the result code and
  the queue at the return. The lock itself is not modelled; interleaving is: every change a
  callback or a concurrent caller makes during a run happens inside \<open>run\<close>.
\<close>

datatype system_work_state =
  SYSTEM_WORK_STATE_DISABLED | SYSTEM_WORK_STATE_IDLE | SYSTEM_WORK_STATE_SCHEDULED
| SYSTEM_WORK_STATE_RUNNING | SYSTEM_WORK_STATE_READY | SYSTEM_WORK_STATE_FAILED

definition SYSTEM_WORK_COUNT :: nat where "SYSTEM_WORK_COUNT = 7"
definition SYSTEM_WORK_NAME_MAX :: nat where "SYSTEM_WORK_NAME_MAX = 32"
definition SYSTEM_WORK_SUMMARY_MAX :: nat where "SYSTEM_WORK_SUMMARY_MAX = 80"

record system_work_status =
  wi_id :: nat
  wi_name :: string
  wi_summary :: string
  wi_state :: system_work_state
  wi_runs :: u32
  wi_failures :: u32
  wi_interval_ticks :: u32
  wi_next_due_tick :: u64
  wi_last_result :: int

record work_binding =
  wb_fn :: "nat option"
  wb_ctx :: nat

record work_queue =
  g_work_items :: "system_work_status carr"
  g_work_bindings :: "work_binding carr"
  g_work_versions :: "u64 carr"
  g_work_ready :: bool

definition local_copy :: "nat \<Rightarrow> string \<Rightarrow> string" where
  "local_copy dst_size src = (if dst_size = 0 then [] else take (dst_size - 1) src)"

fun local_equal :: "string \<Rightarrow> string \<Rightarrow> bool" where
  "local_equal (a # as) (b # bs) = (if a \<noteq> b then False else local_equal as bs)"
| "local_equal as bs = (as = [] \<and> bs = [])"

definition set_summary :: "string \<Rightarrow> system_work_status \<Rightarrow> system_work_status" where
  "set_summary t i = i\<lparr>wi_summary := local_copy SYSTEM_WORK_SUMMARY_MAX t\<rparr>"

definition work_item_zero :: system_work_status where
  "work_item_zero = \<lparr>wi_id = 0, wi_name = [], wi_summary = [], wi_state = SYSTEM_WORK_STATE_DISABLED,
     wi_runs = 0, wi_failures = 0, wi_interval_ticks = 0, wi_next_due_tick = 0, wi_last_result = 0\<rparr>"

definition work_seed :: "nat \<Rightarrow> string \<Rightarrow> work_queue \<Rightarrow> work_queue" where
  "work_seed i name s =
     (if i \<ge> SYSTEM_WORK_COUNT then s
      else s\<lparr>g_work_items := (g_work_items s)(i := set_summary ''work item not registered''
               (work_item_zero\<lparr>wi_id := i, wi_name := local_copy SYSTEM_WORK_NAME_MAX name\<rparr>))\<rparr>)"

definition work_queue_reset :: "work_queue \<Rightarrow> work_queue" where
  "work_queue_reset s =
     \<lparr>g_work_items = (\<lambda>i. if i < SYSTEM_WORK_COUNT then work_item_zero else g_work_items s i),
      g_work_bindings = (\<lambda>i. if i < SYSTEM_WORK_COUNT then \<lparr>wb_fn = None, wb_ctx = 0\<rparr> else g_work_bindings s i),
      g_work_versions = (\<lambda>i. if i < SYSTEM_WORK_COUNT then 0 else g_work_versions s i),
      g_work_ready = False\<rparr>"

definition work_queue_init :: "work_queue \<Rightarrow> work_queue" where
  "work_queue_init s =
     (if g_work_ready s then s
      else (fold (\<lambda>(i, name). work_seed i name)
              (map (\<lambda>i. (i, ''unnamed'')) [0..<SYSTEM_WORK_COUNT] @
               [(0, ''recovery-snapshot''), (1, ''gpu-discovery''), (2, ''usb-bringup''),
                (3, ''update-agent-warmup''), (4, ''usb-poll''), (5, ''storage-hyperv-retry''),
                (6, ''power-transition'')]) s)\<lparr>g_work_ready := True\<rparr>)"

text \<open>The locked update of one item and the bump of its generation, the shape of every setter.\<close>

definition bump :: "nat \<Rightarrow> (system_work_status \<Rightarrow> system_work_status) \<Rightarrow> work_queue \<Rightarrow> work_queue" where
  "bump i f s = s\<lparr>g_work_items := (g_work_items s)(i := f (g_work_items s i)),
                  g_work_versions := (g_work_versions s)(i := g_work_versions s i + 1)\<rparr>"

definition work_queue_register ::
  "nat \<Rightarrow> string option \<Rightarrow> nat option \<Rightarrow> nat \<Rightarrow> work_queue \<Rightarrow> int \<times> work_queue" where
  "work_queue_register i name fn ctx s0 =
     (let s = work_queue_init s0 in
      if i \<ge> SYSTEM_WORK_COUNT \<or> fn = None then (-1, s)
      else (0, bump i (\<lambda>it. set_summary ''registered''
             ((case name of Some (c # cs) \<Rightarrow> it\<lparr>wi_name := local_copy SYSTEM_WORK_NAME_MAX (c # cs)\<rparr> | _ \<Rightarrow> it)
              \<lparr>wi_state := SYSTEM_WORK_STATE_IDLE, wi_last_result := 0\<rparr>))
             (s\<lparr>g_work_bindings := (g_work_bindings s)(i := \<lparr>wb_fn = fn, wb_ctx = ctx\<rparr>)\<rparr>)))"

definition work_queue_set_interval :: "nat \<Rightarrow> u32 \<Rightarrow> work_queue \<Rightarrow> int \<times> work_queue" where
  "work_queue_set_interval i ticks s0 =
     (let s = work_queue_init s0 in
      if i \<ge> SYSTEM_WORK_COUNT then (-1, s)
      else (0, bump i (\<lambda>it. it\<lparr>wi_interval_ticks := ticks\<rparr>) s))"

definition work_queue_schedule_after :: "nat \<Rightarrow> u64 \<Rightarrow> u32 \<Rightarrow> work_queue \<Rightarrow> int \<times> work_queue" where
  "work_queue_schedule_after i now_ticks delay_ticks s0 =
     (let s = work_queue_init s0 in
      if i \<ge> SYSTEM_WORK_COUNT then (-1, s)
      else if wb_fn (g_work_bindings s i) = None then (-1, s)
      else (0, bump i (\<lambda>it. set_summary (if delay_ticks = 0 then ''scheduled now'' else ''scheduled'')
             (it\<lparr>wi_state := SYSTEM_WORK_STATE_SCHEDULED, wi_next_due_tick := now_ticks + ucast delay_ticks,
                 wi_last_result := 0\<rparr>)) s))"

definition work_queue_schedule_now :: "nat \<Rightarrow> u64 \<Rightarrow> work_queue \<Rightarrow> int \<times> work_queue" where
  "work_queue_schedule_now i now_ticks s = work_queue_schedule_after i now_ticks 0 s"

definition work_queue_disable :: "nat \<Rightarrow> work_queue \<Rightarrow> int \<times> work_queue" where
  "work_queue_disable i s0 =
     (let s = work_queue_init s0 in
      if i \<ge> SYSTEM_WORK_COUNT then (-1, s)
      else (0, bump i (\<lambda>it. set_summary ''disabled''
             (it\<lparr>wi_state := SYSTEM_WORK_STATE_DISABLED, wi_next_due_tick := 0\<rparr>)) s))"

definition work_item_due :: "system_work_status \<Rightarrow> work_binding \<Rightarrow> u64 \<Rightarrow> bool" where
  "work_item_due item binding now_ticks =
     (wb_fn binding \<noteq> None \<and> wi_state item \<noteq> SYSTEM_WORK_STATE_DISABLED \<and>
      now_ticks \<ge> wi_next_due_tick item \<and>
      (wi_state item = SYSTEM_WORK_STATE_SCHEDULED \<or>
       wi_state item = SYSTEM_WORK_STATE_READY \<and> wi_interval_ticks item \<noteq> 0 \<or>
       wi_state item = SYSTEM_WORK_STATE_FAILED \<and> wi_interval_ticks item \<noteq> 0 \<or>
       wi_state item = SYSTEM_WORK_STATE_IDLE))"

text \<open>The two locked sections around the callback.\<close>

definition start_run :: "nat \<Rightarrow> work_queue \<Rightarrow> work_queue" where
  "start_run i = bump i (\<lambda>it. set_summary ''running'' (it\<lparr>wi_state := SYSTEM_WORK_STATE_RUNNING\<rparr>))"

definition record_run :: "u64 \<Rightarrow> int \<Rightarrow> system_work_status \<Rightarrow> system_work_status" where
  "record_run now_ticks rc item0 =
     (let item1 = item0\<lparr>wi_runs := wi_runs item0 + 1, wi_last_result := rc\<rparr>;
          item2 = (if rc < 0
                   then set_summary ''last run failed''
                          (item1\<lparr>wi_failures := wi_failures item1 + 1, wi_state := SYSTEM_WORK_STATE_FAILED\<rparr>)
                   else set_summary ''last run completed'' (item1\<lparr>wi_state := SYSTEM_WORK_STATE_READY\<rparr>))
      in item2\<lparr>wi_next_due_tick :=
                 (if wi_interval_ticks item2 \<noteq> 0 then now_ticks + ucast (wi_interval_ticks item2) else 0)\<rparr>)"

definition finish_run :: "nat \<Rightarrow> u64 \<Rightarrow> u64 \<Rightarrow> int \<Rightarrow> work_queue \<Rightarrow> work_queue" where
  "finish_run i run_version now_ticks rc s =
     (let item = g_work_items s i in
      if g_work_versions s i = run_version \<and> wi_state item = SYSTEM_WORK_STATE_RUNNING
      then s\<lparr>g_work_items := (g_work_items s)(i := record_run now_ticks rc item)\<rparr> else s)"

definition poll_item ::
  "(nat \<Rightarrow> nat \<Rightarrow> work_queue \<Rightarrow> int \<times> work_queue) \<Rightarrow> u64 \<Rightarrow> nat \<Rightarrow> int \<times> work_queue \<Rightarrow> int \<times> work_queue" where
  "poll_item run now_ticks i rs =
     (let (nran, s) = rs; binding = g_work_bindings s i in
      if \<not> work_item_due (g_work_items s i) binding now_ticks then (nran, s)
      else let s1 = start_run i s; run_version = g_work_versions s1 i;
               (rc, s2) = run (the (wb_fn binding)) (wb_ctx binding) s1
           in (nran + 1, finish_run i run_version now_ticks rc s2))"

definition work_queue_poll_due ::
  "(nat \<Rightarrow> nat \<Rightarrow> work_queue \<Rightarrow> int \<times> work_queue) \<Rightarrow> u64 \<Rightarrow> work_queue \<Rightarrow> int \<times> work_queue" where
  "work_queue_poll_due run now_ticks s =
     fold (poll_item run now_ticks) [0..<SYSTEM_WORK_COUNT] (0, work_queue_init s)"

definition work_queue_get :: "nat \<Rightarrow> work_queue \<Rightarrow> int \<times> system_work_status option \<times> work_queue" where
  "work_queue_get i s0 =
     (let s = work_queue_init s0 in
      if i \<ge> SYSTEM_WORK_COUNT then (-1, None, s) else (0, Some (g_work_items s i), s))"

definition work_queue_find :: "string \<Rightarrow> work_queue \<Rightarrow> int \<times> work_queue" where
  "work_queue_find name s0 =
     (let s = work_queue_init s0 in
      if name = [] then (-1, s)
      else case find (\<lambda>i. local_equal name (wi_name (g_work_items s i))) [0..<SYSTEM_WORK_COUNT] of
        Some i \<Rightarrow> (int i, s) | None \<Rightarrow> (-1, s))"

fun work_queue_state_label :: "system_work_state \<Rightarrow> string" where
  "work_queue_state_label SYSTEM_WORK_STATE_IDLE = ''idle''"
| "work_queue_state_label SYSTEM_WORK_STATE_SCHEDULED = ''scheduled''"
| "work_queue_state_label SYSTEM_WORK_STATE_RUNNING = ''running''"
| "work_queue_state_label SYSTEM_WORK_STATE_READY = ''ready''"
| "work_queue_state_label SYSTEM_WORK_STATE_FAILED = ''failed''"
| "work_queue_state_label SYSTEM_WORK_STATE_DISABLED = ''disabled''"

subsection \<open>What a callback can do to the queue\<close>

datatype wq_op =
  Op_register nat "string option" "nat option" nat
| Op_interval nat u32
| Op_schedule nat u64 u32
| Op_disable nat

fun wq_apply :: "wq_op \<Rightarrow> work_queue \<Rightarrow> int \<times> work_queue" where
  "wq_apply (Op_register i n f c) s = work_queue_register i n f c s"
| "wq_apply (Op_interval i t) s = work_queue_set_interval i t s"
| "wq_apply (Op_schedule i now d) s = work_queue_schedule_after i now d s"
| "wq_apply (Op_disable i) s = work_queue_disable i s"

fun op_target :: "wq_op \<Rightarrow> nat" where
  "op_target (Op_register i n f c) = i"
| "op_target (Op_interval i t) = i"
| "op_target (Op_schedule i now d) = i"
| "op_target (Op_disable i) = i"

text \<open>Applies the operations and counts those that succeeded on item \<open>i\<close>.\<close>

fun wq_hits :: "nat \<Rightarrow> wq_op list \<Rightarrow> work_queue \<Rightarrow> nat \<times> work_queue" where
  "wq_hits i [] s = (0, s)"
| "wq_hits i (p # ops) s =
     (let (r, s1) = wq_apply p s; (n, s2) = wq_hits i ops s1
      in ((if r = 0 \<and> op_target p = i then Suc n else n), s2))"

lemma init_ready: "g_work_ready s \<Longrightarrow> work_queue_init s = s"
  by (simp add: work_queue_init_def)

lemma bump_sel [simp]:
  "g_work_ready (bump i f s) = g_work_ready s" "g_work_bindings (bump i f s) = g_work_bindings s"
  "g_work_items (bump i f s) = (g_work_items s)(i := f (g_work_items s i))"
  "g_work_versions (bump i f s) = (g_work_versions s)(i := g_work_versions s i + 1)"
  by (simp_all add: bump_def)

lemmas wq_op_defs = work_queue_register_def work_queue_set_interval_def work_queue_schedule_after_def
  work_queue_disable_def

lemma wq_apply_effect:
  assumes "g_work_ready s" and "wq_apply p s = (r, s')"
  shows "g_work_ready s' \<and>
    g_work_versions s' i = g_work_versions s i + (if r = 0 \<and> op_target p = i then 1 else 0) \<and>
    (\<not> (r = 0 \<and> op_target p = i) \<longrightarrow>
       g_work_items s' i = g_work_items s i \<and> g_work_bindings s' i = g_work_bindings s i)"
  using assms by (cases p) (auto simp: wq_op_defs init_ready Let_def split: if_splits)

lemma wq_hits_effect:
  assumes "g_work_ready s" and "wq_hits i ops s = (n, s')"
  shows "g_work_ready s' \<and> n \<le> length ops \<and> g_work_versions s' i = g_work_versions s i + of_nat n \<and>
    (n = 0 \<longrightarrow> g_work_items s' i = g_work_items s i \<and> g_work_bindings s' i = g_work_bindings s i)"
  using assms
proof (induction ops arbitrary: s n)
  case Nil
  then show ?case by simp
next
  case (Cons p ops)
  obtain r s1 where a: "wq_apply p s = (r, s1)" by fastforce
  obtain m where h: "wq_hits i ops s1 = (m, s')" "n = (if r = 0 \<and> op_target p = i then Suc m else m)"
    using Cons.prems(2) a by (auto split: prod.splits)
  note e = wq_apply_effect [OF Cons.prems(1) a, of i]
  from e Cons.IH [OF _ h(1)] h(2) show ?case by (auto split: if_splits)
qed

lemma start_run_sel [simp]:
  "g_work_ready (start_run i s) = g_work_ready s" "g_work_bindings (start_run i s) = g_work_bindings s"
  "wi_state (g_work_items (start_run i s) i) = SYSTEM_WORK_STATE_RUNNING"
  "j \<noteq> i \<Longrightarrow> g_work_items (start_run i s) j = g_work_items s j"
  "wi_interval_ticks (g_work_items (start_run i s) i) = wi_interval_ticks (g_work_items s i)"
  "wi_runs (g_work_items (start_run i s) i) = wi_runs (g_work_items s i)"
  "wi_failures (g_work_items (start_run i s) i) = wi_failures (g_work_items s i)"
  by (simp_all add: start_run_def set_summary_def)

lemma record_run_sel [simp]:
  "wi_interval_ticks (record_run now rc it) = wi_interval_ticks it"
  "wi_runs (record_run now rc it) = wi_runs it + 1"
  "wi_failures (record_run now rc it) = wi_failures it + (if rc < 0 then 1 else 0)"
  "wi_state (record_run now rc it) = (if rc < 0 then SYSTEM_WORK_STATE_FAILED else SYSTEM_WORK_STATE_READY)"
  "wi_next_due_tick (record_run now rc it) =
     (if wi_interval_ticks it \<noteq> 0 then now + ucast (wi_interval_ticks it) else 0)"
  "wi_last_result (record_run now rc it) = rc"
  by (simp_all add: record_run_def Let_def set_summary_def)

lemma poll_item_quiet:
  assumes "\<And>f c. run f c = (\<lambda>s. (rc f c, s))"
  shows "poll_item run now i (nran, s) =
    (if work_item_due (g_work_items s i) (g_work_bindings s i) now
     then (nran + 1, (start_run i s)\<lparr>g_work_items := (g_work_items (start_run i s))
            (i := record_run now (rc (the (wb_fn (g_work_bindings s i))) (wb_ctx (g_work_bindings s i)))
                    (g_work_items (start_run i s) i))\<rparr>)
     else (nran, s))"
  by (simp add: poll_item_def assms finish_run_def Let_def)

text \<open>The state of item \<open>i\<close> after a poll in which the callbacks leave the queue alone.\<close>

definition polled :: "(nat \<Rightarrow> nat \<Rightarrow> int) \<Rightarrow> u64 \<Rightarrow> work_queue \<Rightarrow> nat \<Rightarrow> system_work_status" where
  "polled rc now s i =
     (if work_item_due (g_work_items s i) (g_work_bindings s i) now
      then record_run now (rc (the (wb_fn (g_work_bindings s i))) (wb_ctx (g_work_bindings s i)))
             (g_work_items (start_run i s) i)
      else g_work_items s i)"

lemma poll_fold_quiet:
  assumes "\<And>f c. run f c = (\<lambda>s. (rc f c, s))"
    and "fold (poll_item run now) [0..<n] (0, s) = (nran, s')"
  shows "nran = int (card {i. i < n \<and> work_item_due (g_work_items s i) (g_work_bindings s i) now}) \<and>
    g_work_bindings s' = g_work_bindings s \<and>
    (\<forall>i. g_work_items s' i = (if i < n then polled rc now s i else g_work_items s i))"
  using assms(2)
proof (induction n arbitrary: nran s')
  case 0
  then show ?case by simp
next
  case (Suc n)
  obtain nran1 s1 where f: "fold (poll_item run now) [0..<n] (0, s) = (nran1, s1)" by fastforce
  note ih = Suc.IH [OF f]
  let ?due = "\<lambda>i. work_item_due (g_work_items s i) (g_work_bindings s i) now"
  have it: "g_work_items s1 n = g_work_items s n" "g_work_bindings s1 = g_work_bindings s" using ih by simp_all
  have sr: "g_work_items (start_run n s1) n = g_work_items (start_run n s) n"
    using it by (simp add: start_run_def)
  have step: "poll_item run now n (nran1, s1) = (nran, s')" using Suc.prems f by simp
  have set: "{i. i < Suc n \<and> ?due i} = {i. i < n \<and> ?due i} \<union> (if ?due n then {n} else {})"
    by (auto simp: less_Suc_eq)
  show ?case
  proof (cases "?due n")
    case True
    have s': "nran = nran1 + 1" "g_work_bindings s' = g_work_bindings s"
      "g_work_items s' = (g_work_items (start_run n s1))(n := polled rc now s n)"
      using step True it sr by (auto simp: poll_item_quiet [OF assms(1)] polled_def)
    have "card {i. i < Suc n \<and> ?due i} = card {i. i < n \<and> ?due i} + 1"
      unfolding set using True by simp
    then show ?thesis using s' ih by (auto simp: less_Suc_eq)
  next
    case False
    then have "nran = nran1" "s' = s1" using step it by (auto simp: poll_item_quiet [OF assms(1)])
    with False ih set show ?thesis by (auto simp: less_Suc_eq polled_def)
  qed
qed

subsection \<open>A concrete queue\<close>

definition demo_queue :: work_queue where
  "demo_queue = snd (work_queue_schedule_after 4 100 50 (snd (work_queue_set_interval 4 10
     (snd (work_queue_register 4 None (Some 9) 1 (work_queue_reset
       \<lparr>g_work_items = (\<lambda>_. work_item_zero), g_work_bindings = (\<lambda>_. \<lparr>wb_fn = None, wb_ctx = 0\<rparr>),
        g_work_versions = (\<lambda>_. 0), g_work_ready = True\<rparr>))))))"

lemma demo_queue_facts:
  "g_work_ready demo_queue" "g_work_bindings demo_queue 4 = \<lparr>wb_fn = Some 9, wb_ctx = 1\<rparr>"
  "wi_state (g_work_items demo_queue 4) = SYSTEM_WORK_STATE_SCHEDULED"
  "wi_interval_ticks (g_work_items demo_queue 4) = 10" "wi_next_due_tick (g_work_items demo_queue 4) = 150"
  "i \<noteq> 4 \<Longrightarrow> i < SYSTEM_WORK_COUNT \<Longrightarrow> wb_fn (g_work_bindings demo_queue i) = None"
proof -
  define z where "z = work_queue_init (work_queue_reset
       \<lparr>g_work_items = (\<lambda>_. work_item_zero), g_work_bindings = (\<lambda>_. \<lparr>wb_fn = None, wb_ctx = 0\<rparr>),
        g_work_versions = (\<lambda>_. 0), g_work_ready = True\<rparr>)"
  have s1: "g_work_bindings (work_seed j nm s) = g_work_bindings s" for j nm s by (simp add: work_seed_def)
  have seed: "g_work_bindings (fold (\<lambda>(i, name). work_seed i name) xs s) = g_work_bindings s" for xs s
    by (induction xs arbitrary: s) (auto simp: s1)
  have z: "g_work_ready z" "i < SYSTEM_WORK_COUNT \<Longrightarrow> wb_fn (g_work_bindings z i) = None" for i
    by (simp_all add: z_def work_queue_init_def work_queue_reset_def seed s1)
  have dq: "demo_queue = snd (work_queue_schedule_after 4 100 50 (snd (work_queue_set_interval 4 10
     (snd (work_queue_register 4 None (Some 9) 1 z)))))"
    by (simp add: demo_queue_def wq_op_defs z_def [symmetric] z init_ready)
  show "g_work_ready demo_queue" "g_work_bindings demo_queue 4 = \<lparr>wb_fn = Some 9, wb_ctx = 1\<rparr>"
    "wi_state (g_work_items demo_queue 4) = SYSTEM_WORK_STATE_SCHEDULED"
    "wi_interval_ticks (g_work_items demo_queue 4) = 10" "wi_next_due_tick (g_work_items demo_queue 4) = 150"
    "i \<noteq> 4 \<Longrightarrow> i < SYSTEM_WORK_COUNT \<Longrightarrow> wb_fn (g_work_bindings demo_queue i) = None"
    unfolding dq using z
    by (simp_all add: wq_op_defs init_ready SYSTEM_WORK_COUNT_def Let_def set_summary_def)
qed

lemma demo_due: "work_item_due (g_work_items demo_queue i) (g_work_bindings demo_queue i) t =
    (i = 4 \<and> 150 \<le> t)" if "i < SYSTEM_WORK_COUNT"
  using demo_queue_facts that by (cases "i = 4") (auto simp: work_item_due_def)

subsection \<open>Properties\<close>

text \<open>
  C16. A run never overwrites a concurrent change. Whatever sequence of fewer than \<open>2\<^sup>6\<^sup>4\<close> register,
  interval, schedule and disable calls happens while the callback of item \<open>i\<close> runs, the
  completion records its outcome in the item exactly when none of them succeeded on \<open>i\<close>; otherwise
  the item is left as the last of them left it. Other items keep what the callback did to them.
\<close>

theorem poll_generation_guard:
  assumes "g_work_ready s" and "work_item_due (g_work_items s i) (g_work_bindings s i) now"
    and "length ops < 2 ^ 64" and "wq_hits i ops (start_run i s) = (hits, s2)"
    and "run (the (wb_fn (g_work_bindings s i))) (wb_ctx (g_work_bindings s i)) (start_run i s) = (rc, s2)"
    and "poll_item run now i (n, s) = (n', s')"
  shows "n' = n + 1 \<and>
    g_work_items s' i = (if hits = 0 then record_run now rc (g_work_items (start_run i s) i)
                         else g_work_items s2 i) \<and>
    (\<forall>j. j \<noteq> i \<longrightarrow> g_work_items s' j = g_work_items s2 j) \<and> g_work_bindings s' = g_work_bindings s2"
proof -
  have "g_work_ready (start_run i s)" using assms(1) by simp
  note h = wq_hits_effect [OF this assms(4)]
  have "hits < 2 ^ 64" using h assms(3) by simp
  then have u: "unat (of_nat hits :: u64) = hits" by (simp add: unat_of_nat)
  have "(of_nat hits = (0 :: u64)) = (hits = 0)"
  proof
    assume "of_nat hits = (0 :: u64)"
    then have "unat (of_nat hits :: u64) = 0" by (simp only: unat_0)
    with u show "hits = 0" by (simp only:)
  qed simp
  then have ver: "(g_work_versions s2 i = g_work_versions (start_run i s) i) = (hits = 0)"
    using h by simp
  have st: "hits = 0 \<Longrightarrow> g_work_items s2 i = g_work_items (start_run i s) i" using h by simp
  show ?thesis
    using assms(2,5,6) ver st by (auto simp: poll_item_def Let_def finish_run_def)
qed

theorem poll_generation_guard_witness:
  "wi_state (g_work_items (snd (poll_item (\<lambda>f c s. (-1, snd (wq_hits 4 [Op_disable 4] s))) 200 4 (0, demo_queue))) 4)
     = SYSTEM_WORK_STATE_DISABLED"
proof -
  let ?run = "\<lambda>f c s. (-1 :: int, snd (wq_hits 4 [Op_disable 4] s))"
  have due: "work_item_due (g_work_items demo_queue 4) (g_work_bindings demo_queue 4) 200"
    by (simp add: demo_due SYSTEM_WORK_COUNT_def)
  have r: "g_work_ready (start_run 4 demo_queue)" using demo_queue_facts(1) by simp
  have h: "wq_hits 4 [Op_disable 4] (start_run 4 demo_queue) = (1, snd (work_queue_disable 4 (start_run 4 demo_queue)))"
    using r by (simp add: work_queue_disable_def init_ready SYSTEM_WORK_COUNT_def)
  have st: "wi_state (g_work_items (snd (work_queue_disable 4 (start_run 4 demo_queue))) 4) = SYSTEM_WORK_STATE_DISABLED"
    using r by (simp add: work_queue_disable_def init_ready SYSTEM_WORK_COUNT_def set_summary_def)
  have "?run f c (start_run 4 demo_queue) = (-1, snd (work_queue_disable 4 (start_run 4 demo_queue)))" for f c :: nat
    unfolding h by simp
  note g = poll_generation_guard [where run = ?run, OF demo_queue_facts(1) due _ h this prod.collapse [symmetric], of 0]
  have "g_work_items (snd (poll_item ?run 200 4 (0, demo_queue))) 4 =
      g_work_items (snd (work_queue_disable 4 (start_run 4 demo_queue))) 4"
    using g by (simp del: wq_hits.simps)
  with st show ?thesis by (simp only:)
qed

text \<open>
  C17. One poll runs every due item exactly once. When the callbacks leave the queue alone, \<^verbatim>\<open>work_queue_poll_due\<close>
  returns the number of items that were due, each of them has one more run (and one more failure
  when its callback failed), becomes due again exactly when it is periodic and its interval has
  passed (one-shot items never again by themselves), and items that were not due are untouched.
\<close>

theorem poll_runs_due_items_once:
  assumes "g_work_ready s" and "\<And>f c. run f c = (\<lambda>s. (rc f c, s))"
    and "work_queue_poll_due run now s = (n, s')" and "i < SYSTEM_WORK_COUNT"
  shows "n = int (card {j. j < SYSTEM_WORK_COUNT \<and> work_item_due (g_work_items s j) (g_work_bindings s j) now}) \<and>
    (if work_item_due (g_work_items s i) (g_work_bindings s i) now
     then wi_runs (g_work_items s' i) = wi_runs (g_work_items s i) + 1 \<and>
          wi_failures (g_work_items s' i) = wi_failures (g_work_items s i) +
            (if rc (the (wb_fn (g_work_bindings s i))) (wb_ctx (g_work_bindings s i)) < 0 then 1 else 0) \<and>
          (\<forall>t. work_item_due (g_work_items s' i) (g_work_bindings s' i) t =
             (wi_interval_ticks (g_work_items s i) \<noteq> 0 \<and>
              now + ucast (wi_interval_ticks (g_work_items s i)) \<le> t))
     else g_work_items s' i = g_work_items s i)"
proof -
  have f: "fold (poll_item run now) [0..<SYSTEM_WORK_COUNT] (0, s) = (n, s')"
    using assms(1,3) by (simp add: work_queue_poll_due_def init_ready)
  note q = poll_fold_quiet [OF assms(2) f]
  have fn: "wb_fn (g_work_bindings s i) \<noteq> None" if "work_item_due (g_work_items s i) (g_work_bindings s i) now"
    using that by (simp add: work_item_due_def)
  show ?thesis using q assms(4) fn by (auto simp: polled_def work_item_due_def)
qed

theorem poll_runs_due_items_once_witness:
  "fst (work_queue_poll_due (\<lambda>f c s. (7, s)) 160 demo_queue) = 1 \<and>
   \<not> work_item_due (g_work_items (snd (work_queue_poll_due (\<lambda>f c s. (7, s)) 160 demo_queue)) 4)
       (g_work_bindings (snd (work_queue_poll_due (\<lambda>f c s. (7, s)) 160 demo_queue)) 4) 165"
proof -
  have four: "4 < SYSTEM_WORK_COUNT" by (simp add: SYSTEM_WORK_COUNT_def)
  have "{j. j < SYSTEM_WORK_COUNT \<and> work_item_due (g_work_items demo_queue j) (g_work_bindings demo_queue j) 160} = {4}"
    using four by (auto simp: demo_due)
  with poll_runs_due_items_once [OF demo_queue_facts(1) _ prod.collapse [symmetric] four,
      of "\<lambda>f c s. (7, s)" "\<lambda>f c. 7" 160] demo_due [OF four]
  show ?thesis by (simp add: demo_queue_facts)
qed

end
