(* ===== verification/OpBudget.thy ===== *)
theory OpBudget
  imports CapyBase
begin

text \<open>
  Cooperative budgets, \<^verbatim>\<open>src/src/util/op_budget.c\<close>: a long operation charges each unit of work to a
  32-bit budget that can run out or be cancelled. A null budget is not modelled (every
  function returns at once); the label and the reason are strings, the reason truncated to
  63 characters as the code does.

  Shown: the work admitted over any sequence of charges never exceeds the total even where
  the 32-bit sum wraps, and a refusal is final until the budget is reset.
\<close>

datatype op_budget_state = OP_BUDGET_OK | OP_BUDGET_EXHAUSTED | OP_BUDGET_CANCELLED

definition OP_BUDGET_REASON_MAX :: nat where "OP_BUDGET_REASON_MAX = 64"

record op_budget =
  ob_label :: string
  ob_total :: u32
  ob_consumed :: u32
  ob_state :: op_budget_state
  ob_cancel_requested :: bool
  ob_reason :: string

definition op_budget_copy_reason :: "string option \<Rightarrow> op_budget \<Rightarrow> op_budget" where
  "op_budget_copy_reason reason b =
     b\<lparr>ob_reason := (case reason of None \<Rightarrow> [] | Some r \<Rightarrow> take (OP_BUDGET_REASON_MAX - 1) r)\<rparr>"

definition op_budget_init :: "string \<Rightarrow> u32 \<Rightarrow> op_budget" where
  "op_budget_init label budget =
     \<lparr>ob_label = label, ob_total = budget, ob_consumed = 0, ob_state = OP_BUDGET_OK,
      ob_cancel_requested = False, ob_reason = []\<rparr>"

definition op_budget_reset :: "op_budget \<Rightarrow> op_budget" where
  "op_budget_reset b =
     b\<lparr>ob_consumed := 0, ob_state := OP_BUDGET_OK, ob_cancel_requested := False, ob_reason := []\<rparr>"

definition op_budget_take :: "op_budget \<Rightarrow> u32 \<Rightarrow> bool \<times> op_budget" where
  "op_budget_take b cost0 =
     (if ob_cancel_requested b then
        (let b1 = b\<lparr>ob_state := OP_BUDGET_CANCELLED\<rparr> in
         (False, if ob_reason b1 = [] then op_budget_copy_reason (Some ''operation cancelled'') b1 else b1))
      else if ob_state b \<noteq> OP_BUDGET_OK then (False, b)
      else let cost = (if cost0 = 0 then 1 else cost0) in
      if ob_consumed b + cost < ob_consumed b then
        (False, op_budget_copy_reason (Some ''budget overflow'')
                  (b\<lparr>ob_consumed := ob_total b, ob_state := OP_BUDGET_EXHAUSTED\<rparr>))
      else if ob_total b > 0 \<and> ob_consumed b + cost > ob_total b then
        (let b1 = b\<lparr>ob_consumed := ob_total b, ob_state := OP_BUDGET_EXHAUSTED\<rparr> in
         (False, if ob_reason b1 = [] then op_budget_copy_reason (Some ''budget exhausted'') b1 else b1))
      else (True, b\<lparr>ob_consumed := ob_consumed b + cost\<rparr>))"

definition op_budget_cancel :: "string option \<Rightarrow> op_budget \<Rightarrow> op_budget" where
  "op_budget_cancel reason b =
     op_budget_copy_reason (Some (case reason of None \<Rightarrow> ''cancelled'' | Some r \<Rightarrow> r))
       (b\<lparr>ob_cancel_requested := True, ob_state := OP_BUDGET_CANCELLED\<rparr>)"

definition op_budget_exhaust :: "string option \<Rightarrow> op_budget \<Rightarrow> op_budget" where
  "op_budget_exhaust reason b =
     (op_budget_copy_reason (Some (case reason of None \<Rightarrow> ''exhausted'' | Some r \<Rightarrow> r))
        (b\<lparr>ob_state := OP_BUDGET_EXHAUSTED\<rparr>))\<lparr>ob_consumed := ob_total b\<rparr>"

definition op_budget_remaining :: "op_budget \<Rightarrow> u32" where
  "op_budget_remaining b =
     (if ob_total b = 0 then 0 else if ob_consumed b \<ge> ob_total b then 0 else ob_total b - ob_consumed b)"

definition op_budget_is_blocked :: "op_budget \<Rightarrow> bool" where
  "op_budget_is_blocked b = (ob_state b \<noteq> OP_BUDGET_OK)"

text \<open>A sequence of charges: which were admitted, and the work admitted in total.\<close>

fun charge_all :: "u32 list \<Rightarrow> op_budget \<Rightarrow> bool list \<times> nat \<times> op_budget" where
  "charge_all [] b = ([], 0, b)"
| "charge_all (c # cs) b =
     (let (ok, b1) = op_budget_take b c; (oks, w, b2) = charge_all cs b1
      in (ok # oks, (if ok then unat (if c = 0 then 1 else c) else 0) + w, b2))"

lemma take_cases:
  assumes "op_budget_take b c = (ok, b')"
  shows "ob_total b' = ob_total b \<and> ob_cancel_requested b' = ob_cancel_requested b \<and>
    (ok \<longrightarrow> ob_state b = OP_BUDGET_OK \<and> ob_state b' = OP_BUDGET_OK \<and> \<not> ob_cancel_requested b \<and>
       unat (ob_consumed b') = unat (ob_consumed b) + unat (if c = 0 then 1 else c) \<and>
       (0 < ob_total b \<longrightarrow> unat (ob_consumed b') \<le> unat (ob_total b))) \<and>
    (\<not> ok \<longrightarrow> ob_state b' \<noteq> OP_BUDGET_OK)"
proof -
  let ?c = "if c = 0 then 1 else c"
  have no_wrap: "unat (ob_consumed b + ?c) = unat (ob_consumed b) + unat ?c"
    if "\<not> ob_consumed b + ?c < ob_consumed b"
    using that by (simp only: not_less no_olen_add_nat unat_add_lem)
  show ?thesis
    using assms no_wrap
    by (auto simp: op_budget_take_def op_budget_copy_reason_def Let_def word_less_nat_alt word_le_nat_alt
        not_less split: if_splits)
qed

lemma charge_blocked:
  assumes "ob_state b \<noteq> OP_BUDGET_OK" and "charge_all cs b = (oks, w, b')"
  shows "oks = replicate (length cs) False \<and> w = 0 \<and> ob_state b' \<noteq> OP_BUDGET_OK"
  using assms
proof (induction cs arbitrary: b oks w)
  case Nil
  then show ?case by simp
next
  case (Cons c cs)
  obtain ok b1 where t: "op_budget_take b c = (ok, b1)" by fastforce
  obtain oks1 w1 where r: "charge_all cs b1 = (oks1, w1, b')" "oks = ok # oks1"
      "w = (if ok then unat (if c = 0 then 1 else c) else 0) + w1"
    using Cons.prems(2) t by (auto simp: Let_def split: prod.splits)
  note tc = take_cases [OF t]
  then have "\<not> ok" using Cons.prems(1) by auto
  with tc Cons.IH [OF _ r(1)] r show ?case by auto
qed

lemma charge_all_spent:
  assumes "ob_state b = OP_BUDGET_OK" and "charge_all cs b = (oks, w, b')"
  shows "(0 < ob_total b \<and> unat (ob_consumed b) \<le> unat (ob_total b) \<longrightarrow>
            unat (ob_consumed b) + w \<le> unat (ob_total b)) \<and>
    (\<exists>k \<le> length cs. oks = replicate k True @ replicate (length cs - k) False \<and>
       (ob_state b' = OP_BUDGET_OK \<longleftrightarrow> k = length cs))"
  using assms
proof (induction cs arbitrary: b oks w)
  case Nil
  then show ?case by simp
next
  case (Cons c cs)
  obtain ok b1 where t: "op_budget_take b c = (ok, b1)" by fastforce
  obtain oks1 w1 where r: "charge_all cs b1 = (oks1, w1, b')" "oks = ok # oks1"
      "w = (if ok then unat (if c = 0 then 1 else c) else 0) + w1"
    using Cons.prems(2) t by (auto simp: Let_def split: prod.splits)
  note tc = take_cases [OF t]
  show ?case
  proof (cases ok)
    case True
    then have st: "ob_state b1 = OP_BUDGET_OK" using tc by simp
    note ih = Cons.IH [OF st r(1)]
    then obtain k where k: "k \<le> length cs" "oks1 = replicate k True @ replicate (length cs - k) False"
      "ob_state b' = OP_BUDGET_OK \<longleftrightarrow> k = length cs" by auto
    have "oks = replicate (Suc k) True @ replicate (length (c # cs) - Suc k) False" using k(2) r(2) True by simp
    moreover have "0 < ob_total b \<and> unat (ob_consumed b) \<le> unat (ob_total b) \<longrightarrow>
        unat (ob_consumed b) + w \<le> unat (ob_total b)"
      using ih tc True r(3) by auto
    ultimately show ?thesis using k(1,3) by (intro conjI exI [of _ "Suc k"]) auto
  next
    case False
    then have "ob_state b1 \<noteq> OP_BUDGET_OK" using tc by simp
    from charge_blocked [OF this r(1)] False r show ?thesis
      by (intro conjI exI [of _ 0]) auto
  qed
qed

subsection \<open>Properties\<close>

text \<open>
  A budget is never overspent and a refusal is final. Charging any sequence of costs to a
  fresh budget with a non-zero total admits a prefix of them and refuses all the rest; the
  sum of the admitted costs, as unbounded integers, is at most the total although the code adds in 32 bits;
  after a cancellation nothing is admitted at all.
\<close>

theorem budget_never_overspent:
  assumes "0 < budget" and "charge_all cs (op_budget_init label budget) = (oks, w, b')"
  shows "w \<le> unat budget \<and>
    (\<exists>k \<le> length cs. oks = replicate k True @ replicate (length cs - k) False) \<and>
    fst (charge_all cs (op_budget_cancel reason (op_budget_init label budget))) = replicate (length cs) False"
proof -
  have "ob_state (op_budget_init label budget) = OP_BUDGET_OK" by (simp add: op_budget_init_def)
  note s = charge_all_spent [OF this assms(2)]
  obtain oks2 w2 b2 where c: "charge_all cs (op_budget_cancel reason (op_budget_init label budget)) = (oks2, w2, b2)"
    using prod_cases3 by blast
  have "ob_state (op_budget_cancel reason (op_budget_init label budget)) \<noteq> OP_BUDGET_OK"
    by (simp add: op_budget_cancel_def op_budget_copy_reason_def)
  from charge_blocked [OF this c] s assms(1) c show ?thesis by (auto simp: op_budget_init_def)
qed

theorem budget_never_overspent_witness:
  "charge_all [5, 0, 0xFFFFFFFF, 1] (op_budget_init ''scan'' 10) =
     ([True, True, False, False], 6, \<lparr>ob_label = ''scan'', ob_total = 10, ob_consumed = 10,
      ob_state = OP_BUDGET_EXHAUSTED, ob_cancel_requested = False, ob_reason = ''budget overflow''\<rparr>) \<and>
   6 \<le> unat (10 :: u32)"
proof -
  have e: "charge_all [5, 0, 0xFFFFFFFF, 1] (op_budget_init ''scan'' 10) =
     ([True, True, False, False], 6, \<lparr>ob_label = ''scan'', ob_total = 10, ob_consumed = 10,
      ob_state = OP_BUDGET_EXHAUSTED, ob_cancel_requested = False, ob_reason = ''budget overflow''\<rparr>)"
    by (simp add: op_budget_init_def op_budget_take_def op_budget_copy_reason_def Let_def OP_BUDGET_REASON_MAX_def)
  from budget_never_overspent [OF _ e] e show ?thesis by simp
qed

end
