(* ===== verification/Bytes.thy ===== *)
theory Bytes
  imports CapyBase
begin

text \<open>
  Byte codecs: how integers are laid out in sectors and blocks (little endian), the buffer that a C function fills at fixed
  offsets, and the bit step of the checksum. Shared by the partition table, the journal and the boot records.
\<close>

definition le32_at :: "u8 list \<Rightarrow> nat \<Rightarrow> u32" where
  "le32_at b off = ucast (b ! off) OR push_bit 8 (ucast (b ! (off + 1))) OR push_bit 16 (ucast (b ! (off + 2))) OR
     push_bit 24 (ucast (b ! (off + 3)))"

definition le32 :: "u32 \<Rightarrow> u8 list" where
  "le32 x = [ucast x, ucast (drop_bit 8 x), ucast (drop_bit 16 x), ucast (drop_bit 24 x)]"

definition le64 :: "u64 \<Rightarrow> u8 list" where
  "le64 x = map (\<lambda>i. ucast (drop_bit (i * 8) x)) [0..<8]"

definition le64_at :: "u8 list \<Rightarrow> nat \<Rightarrow> u64" where
  "le64_at b off = ucast (le32_at b off) OR push_bit 32 (ucast (le32_at b (off + 4)))"

definition crc_bit :: "u32 \<Rightarrow> u32" where
  "crc_bit crc = drop_bit 1 crc XOR (0xEDB88320 AND (- (crc AND 1)))"

subsection \<open>Reading back\<close>

lemma le32_value:
  "(ucast (ucast x :: u8) :: u32) OR push_bit 8 (ucast (ucast (drop_bit 8 x) :: u8)) OR
     push_bit 16 (ucast (ucast (drop_bit 16 x) :: u8)) OR push_bit 24 (ucast (ucast (drop_bit 24 x) :: u8)) = x"
proof (rule bit_word_eqI)
  fix n
  assume "n < LENGTH(32)"
  then consider "n < 8" | "8 \<le> n" "n < 16" | "16 \<le> n" "n < 24" | "24 \<le> n" "n < 32" by fastforce
  then show "bit ((ucast (ucast x :: u8) :: u32) OR push_bit 8 (ucast (ucast (drop_bit 8 x) :: u8)) OR
     push_bit 16 (ucast (ucast (drop_bit 16 x) :: u8)) OR push_bit 24 (ucast (ucast (drop_bit 24 x) :: u8))) n = bit x n"
    by cases (auto simp: bit_simps)
qed

lemma le32_length [simp]: "length (le32 x) = 4"
  by (simp add: le32_def)

lemma le64_length [simp]: "length (le64 x) = 8"
  by (simp add: le64_def)

lemma le32_read: "take 4 (drop k b) = le32 x \<Longrightarrow> k + 4 \<le> length b \<Longrightarrow> le32_at b k = x"
proof -
  assume a: "take 4 (drop k b) = le32 x" and l: "k + 4 \<le> length b"
  have "b ! (k + i) = le32 x ! i" if "i < 4" for i
    using that l by (metis a add_leD1 nth_drop nth_take)
  from this [of 0] this [of 1] this [of 2] this [of 3] show ?thesis
    using le32_value [of x] by (simp add: le32_at_def le32_def)
qed

lemma le64_split: "le64 x = le32 (ucast x) @ le32 (ucast (drop_bit 32 x))"
proof -
  have e: "[0..<8] = [0, 1, 2, 3, 4, 5, 6, 7::nat]" by (simp add: upt_rec)
  have lo: "(ucast (drop_bit k x) :: u8) = ucast (drop_bit k (ucast x :: u32))" if "k \<le> 24" for k
    using that by (intro bit_word_eqI) (auto simp: bit_simps)
  have hi: "(ucast (drop_bit (32 + k) x) :: u8) = ucast (drop_bit k (ucast (drop_bit 32 x) :: u32))" if "k \<le> 24" for k
    using that by (intro bit_word_eqI) (auto simp: bit_simps ac_simps)
  show ?thesis unfolding le64_def e le32_def
    using lo [of 0] lo [of 8] lo [of 16] lo [of 24] hi [of 0] hi [of 8] hi [of 16] hi [of 24] by simp
qed

lemma le64_value: "(ucast (ucast x :: u32) :: u64) OR push_bit 32 (ucast (ucast (drop_bit 32 x) :: u32)) = x"
proof (rule bit_word_eqI)
  fix n
  assume "n < LENGTH(64)"
  then consider "n < 32" | "32 \<le> n" "n < 64" by fastforce
  then show "bit ((ucast (ucast x :: u32) :: u64) OR push_bit 32 (ucast (ucast (drop_bit 32 x) :: u32))) n = bit x n"
    by cases (auto simp: bit_simps)
qed

lemma le64_read: "take 8 (drop k b) = le64 x \<Longrightarrow> k + 8 \<le> length b \<Longrightarrow> le64_at b k = x"
proof -
  assume a: "take 8 (drop k b) = le64 x" and l: "k + 8 \<le> length b"
  have "take 4 (take 8 (drop k b)) = le32 (ucast x)" "drop 4 (take 8 (drop k b)) = le32 (ucast (drop_bit 32 x))"
    unfolding a le64_split by simp_all
  then have "le32_at b k = ucast x" "le32_at b (k + 4) = ucast (drop_bit 32 x)"
    using l by (auto intro!: le32_read simp: drop_take add.commute)
  then show ?thesis using le64_value [of x] by (simp add: le64_at_def)
qed

lemma slice_within: "n \<le> length b \<Longrightarrow> k + m \<le> n \<Longrightarrow> take m (drop k b) = take m (drop k (take n b))"
  by (simp add: drop_take min_absorb1)

subsection \<open>Buffers filled at offsets\<close>

text \<open>The buffer \<open>r\<close> after the bytes \<open>b\<close> have been stored at offset \<open>off\<close>.\<close>

definition put_at :: "nat \<Rightarrow> u8 list \<Rightarrow> u8 list \<Rightarrow> u8 list" where
  "put_at off b r = take off r @ b @ drop (off + length b) r"

lemma put_at_length [simp]: "off + length b \<le> length r \<Longrightarrow> length (put_at off b r) = length r"
  by (simp add: put_at_def)

lemma put_at_nth:
  "off + length b \<le> length r \<Longrightarrow> i < length r \<Longrightarrow>
   put_at off b r ! i = (if off \<le> i \<and> i < off + length b then b ! (i - off) else r ! i)"
  by (auto simp: put_at_def nth_append min_def)

lemma put_at_same: "off + length b \<le> length r \<Longrightarrow> n = length b \<Longrightarrow> take n (drop off (put_at off b r)) = b"
  by (simp add: put_at_def)

lemma put_at_other:
  assumes "off + length b \<le> length r" and "k + n \<le> off \<or> off + length b \<le> k" and "k + n \<le> length r"
  shows "take n (drop k (put_at off b r)) = take n (drop k r)"
  by (rule nth_equalityI) (use assms in \<open>auto simp: put_at_nth\<close>)

lemma le32_at_slice: "k + 4 \<le> length a \<Longrightarrow> j + 4 \<le> length b \<Longrightarrow> take 4 (drop k a) = take 4 (drop j b) \<Longrightarrow> le32_at a k = le32_at b j"
proof -
  assume l: "k + 4 \<le> length a" "j + 4 \<le> length b" and e: "take 4 (drop k a) = take 4 (drop j b)"
  have "a ! (k + i) = b ! (j + i)" if "i < 4" for i
    using arg_cong [OF e, of "\<lambda>z. z ! i"] that l by simp
  from this [of 0] this [of 1] this [of 2] this [of 3] show ?thesis by (simp add: le32_at_def)
qed

lemma le32_at_put [simp]: "off + 4 \<le> length r \<Longrightarrow> le32_at (put_at off (le32 x) r) off = x"
  by (rule le32_read) (simp_all add: put_at_same)

lemma le32_at_put_other [simp]:
  "off + length b \<le> length r \<Longrightarrow> k + 4 \<le> length r \<Longrightarrow> k + 4 \<le> off \<or> off + length b \<le> k \<Longrightarrow>
   le32_at (put_at off b r) k = le32_at r k"
  by (rule le32_at_slice) (simp_all add: put_at_other)

lemma le64_at_put [simp]: "off + 8 \<le> length r \<Longrightarrow> le64_at (put_at off (le64 x) r) off = x"
  by (rule le64_read) (simp_all add: put_at_same)

lemma le64_at_put_other [simp]:
  "off + length b \<le> length r \<Longrightarrow> k + 8 \<le> length r \<Longrightarrow> k + 8 \<le> off \<or> off + length b \<le> k \<Longrightarrow>
   le64_at (put_at off b r) k = le64_at r k"
  unfolding le64_at_def by (subst (1 2) le32_at_put_other) auto

lemma put_at_append:
  "length a = n \<Longrightarrow> off + n + length b \<le> length r \<Longrightarrow> put_at (off + n) b (put_at off a r) = put_at off (a @ b) r"
  by (simp add: put_at_def ac_simps)

lemma nth_put_in: "off + length b \<le> length r \<Longrightarrow> j < length b \<Longrightarrow> put_at off b r ! (off + j) = b ! j"
  by (simp add: put_at_nth)

lemma nth_put_out: "off + length b \<le> length r \<Longrightarrow> i < length r \<Longrightarrow> i < off \<or> off + length b \<le> i \<Longrightarrow> put_at off b r ! i = r ! i"
  by (auto simp: put_at_nth)

lemma le32_at_put_in: "off + length b \<le> length r \<Longrightarrow> j + 4 \<le> length b \<Longrightarrow> le32_at (put_at off b r) (off + j) = le32_at b j"
  using nth_put_in [of off b r j] nth_put_in [of off b r "j + 1"] nth_put_in [of off b r "j + 2"] nth_put_in [of off b r "j + 3"]
  by (simp add: le32_at_def add.assoc)

lemma le64_at_put_in: "off + length b \<le> length r \<Longrightarrow> j + 8 \<le> length b \<Longrightarrow> le64_at (put_at off b r) (off + j) = le64_at b j"
  using le32_at_put_in [of off b r j] le32_at_put_in [of off b r "j + 4"] by (simp add: le64_at_def add.assoc)

lemma le32_at_first [simp]: "le32_at (le32 a @ xs) 0 = a"
  by (rule le32_read) simp_all

lemma le32_at_skip: "length a \<le> k \<Longrightarrow> le32_at (a @ xs) k = le32_at xs (k - length a)"
  by (simp add: le32_at_def nth_append Suc_diff_le)

lemma le64_at_skip: "length a \<le> k \<Longrightarrow> le64_at (a @ xs) k = le64_at xs (k - length a)"
  by (simp add: le64_at_def le32_at_skip)

lemma le64_at_first [simp]: "le64_at (le64 a @ xs) 0 = a"
  by (rule le64_read) simp_all

lemma le32_at_skip32 [simp]: "4 \<le> k \<Longrightarrow> le32_at (le32 a @ xs) k = le32_at xs (k - 4)"
  by (simp add: le32_at_skip)

lemma le32_at_skip64 [simp]: "8 \<le> k \<Longrightarrow> le32_at (le64 a @ xs) k = le32_at xs (k - 8)"
  by (simp add: le32_at_skip)

lemma le64_at_skip32 [simp]: "4 \<le> k \<Longrightarrow> le64_at (le32 a @ xs) k = le64_at xs (k - 4)"
  by (simp add: le64_at_skip)

lemma put_at_outside:
  "off + length b \<le> length r \<Longrightarrow> k + n \<le> length r \<Longrightarrow> k + n \<le> off \<or> off + length b \<le> k \<Longrightarrow> i < k + n \<Longrightarrow> k \<le> i \<Longrightarrow>
   put_at off b r ! i = r ! i"
  by (rule nth_put_out) auto

subsection \<open>Comparing and testing\<close>

lemma or_fold_zero: "(fold (\<lambda>i diff. diff OR f i) xs d = (0::'a::len word)) = (d = 0 \<and> (\<forall>i\<in>set xs. f i = 0))"
proof (induction xs arbitrary: d)
  case (Cons x xs)
  have "(d OR f x = 0) = (d = 0 \<and> f x = 0)" by (auto simp: bit_eq_iff bit_simps)
  then show ?case by (auto simp: Cons.IH)
qed simp

lemma xor_zero_iff: "(a XOR b = 0) = (a = b)" for a b :: "'a::len word"
  by (auto simp: bit_eq_iff bit_simps)

lemma diff_fold_zero: "(fold (\<lambda>i diff. diff OR (a ! i XOR b ! i)) [0..<n] (0::u8) = 0) = (\<forall>i<n. a ! i = b ! i)"
  by (auto simp: or_fold_zero xor_zero_iff)

lemma or_list_zero: "(fold (OR) xs (0::u8) = 0) = (\<forall>x\<in>set xs. x = 0)"
proof -
  have "fold (OR) xs d = fold (\<lambda>i diff. diff OR i) xs d" for d :: u8
    by (induction xs arbitrary: d) (simp_all add: or.commute)
  then show ?thesis using or_fold_zero [of "\<lambda>i. i" xs 0] by simp
qed

lemma list_all_upt: "list_all P [a..<b] = (\<forall>i. a \<le> i \<and> i < b \<longrightarrow> P i)"
  by (auto simp: list_all_iff)

end
