(* ===== verification/BlockDev.thy ===== *)
theory BlockDev
  imports Bytes
begin

text \<open>
  Block devices: \<^verbatim>\<open>fs/storage/block_device.c\<close> (dispatch and retry policy), \<^verbatim>\<open>offset_wrapper.c\<close>,
  \<^verbatim>\<open>chunk_wrapper.c\<close>, \<^verbatim>\<open>partition.c\<close>, the error classes of \<^verbatim>\<open>drivers/storage/block_error.c\<close> and the RAM disk
  \<^verbatim>\<open>drivers/storage/ramdisk.c\<close>.

  A device is a record of optional driver routines over a driver state of type \<open>'c\<close>, which every call
  threads; a wrapper is a device over the state of the device it wraps. A read takes the old content of
  the buffer and returns the new one. Pointers are not null; log output and the busy flag of the chunk wrapper
  (each operation is atomic here) are left out. The results of \<^verbatim>\<open>kalloc\<close> are arguments.

  The locale \<open>disk\<close> is what file-system code expects of a device: blocks of a fixed size that keep what was
  written to them. The RAM disk is one, and the wrappers turn disks into disks.
\<close>

subsection \<open>Error classes (\<^verbatim>\<open>block_error.c\<close>)\<close>

datatype block_io_error_class =
  BLOCK_IO_OK | BLOCK_IO_ERR_TRANSIENT | BLOCK_IO_ERR_PERMANENT | BLOCK_IO_ERR_TIMEOUT | BLOCK_IO_ERR_DEVICE_GONE

definition block_io_classify_ahci :: "u32 \<Rightarrow> u32 \<Rightarrow> bool \<Rightarrow> bool \<Rightarrow> block_io_error_class" where
  "block_io_classify_ahci pxis pxtfd timed_out port_present =
     (if \<not> port_present then BLOCK_IO_ERR_DEVICE_GONE
      else if timed_out then BLOCK_IO_ERR_TIMEOUT
      else if pxis AND push_bit 30 1 = 0 \<and> pxtfd AND (push_bit 0 1 OR push_bit 5 1) = 0 then BLOCK_IO_OK
      else if pxtfd AND push_bit 5 1 \<noteq> 0 then BLOCK_IO_ERR_PERMANENT
      else
        (let err = drop_bit 8 pxtfd AND 0xFF in
         if err AND (push_bit 6 1 OR push_bit 4 1 OR push_bit 0 1) \<noteq> 0 then BLOCK_IO_ERR_PERMANENT
         else if err AND push_bit 2 1 \<noteq> 0 then BLOCK_IO_ERR_PERMANENT
         else BLOCK_IO_ERR_TRANSIENT))"

definition block_io_classify_nvme :: "u16 \<Rightarrow> bool \<Rightarrow> block_io_error_class" where
  "block_io_classify_nvme status timed_out =
     (if timed_out then BLOCK_IO_ERR_TIMEOUT
      else
        (let sc = drop_bit 1 status AND 0xFF; sct = drop_bit 9 status AND 0x7 in
         if sc = 0 \<and> sct = 0 then BLOCK_IO_OK
         else if sct = 3 then BLOCK_IO_ERR_DEVICE_GONE
         else if sct = 2 then BLOCK_IO_ERR_PERMANENT
         else if status AND push_bit 15 1 \<noteq> 0 then BLOCK_IO_ERR_PERMANENT
         else BLOCK_IO_ERR_TRANSIENT))"

definition block_io_classify_scsi :: "u8 \<Rightarrow> u8 \<Rightarrow> bool \<Rightarrow> bool \<Rightarrow> block_io_error_class" where
  "block_io_classify_scsi scsi_status srb_status timed_out device_present =
     (if \<not> device_present then BLOCK_IO_ERR_DEVICE_GONE
      else if timed_out then BLOCK_IO_ERR_TIMEOUT
      else
        (let srb_base = srb_status AND 0x3F in
         if srb_base = 0 \<or> srb_base = 0x01 then
           (if scsi_status = 0x00 then BLOCK_IO_OK
            else if scsi_status \<in> {0x08, 0x28, 0x30, 0x40} then BLOCK_IO_ERR_TRANSIENT
            else BLOCK_IO_ERR_PERMANENT)
         else if srb_base \<in> {0x09, 0x0B} then BLOCK_IO_ERR_TIMEOUT
         else if srb_base \<in> {0x0A, 0x07, 0x08, 0x11, 0x20, 0x21} then BLOCK_IO_ERR_DEVICE_GONE
         else if srb_base \<in> {0x02, 0x05, 0x0E, 0x0F, 0x13, 0x14, 0x16, 0x23} then BLOCK_IO_ERR_TRANSIENT
         else BLOCK_IO_ERR_PERMANENT))"

definition block_io_error_class_name :: "block_io_error_class \<Rightarrow> string" where
  "block_io_error_class_name cls =
     (case cls of BLOCK_IO_OK \<Rightarrow> ''ok'' | BLOCK_IO_ERR_TRANSIENT \<Rightarrow> ''transient'' | BLOCK_IO_ERR_PERMANENT \<Rightarrow> ''permanent''
      | BLOCK_IO_ERR_TIMEOUT \<Rightarrow> ''timeout'' | BLOCK_IO_ERR_DEVICE_GONE \<Rightarrow> ''device-gone'')"

definition block_io_should_retry :: "block_io_error_class \<Rightarrow> bool" where
  "block_io_should_retry cls \<longleftrightarrow> cls = BLOCK_IO_ERR_TRANSIENT \<or> cls = BLOCK_IO_ERR_TIMEOUT"

subsection \<open>Devices (\<^verbatim>\<open>block_device.c\<close>)\<close>

record 'c block_device_ops =
  op_read_block :: "(u32 \<Rightarrow> u8 list \<Rightarrow> 'c \<Rightarrow> int \<times> u8 list \<times> 'c) option"
  op_write_block :: "(u32 \<Rightarrow> u8 list \<Rightarrow> 'c \<Rightarrow> int \<times> 'c) option"
  op_read_block_ex :: "(u32 \<Rightarrow> u8 list \<Rightarrow> 'c \<Rightarrow> block_io_error_class \<times> u8 list \<times> 'c) option"
  op_write_block_ex :: "(u32 \<Rightarrow> u8 list \<Rightarrow> 'c \<Rightarrow> block_io_error_class \<times> 'c) option"
  op_reset :: "('c \<Rightarrow> int \<times> 'c) option"
  op_flush :: "('c \<Rightarrow> int \<times> 'c) option"
  op_flush_ex :: "('c \<Rightarrow> block_io_error_class \<times> 'c) option"

record 'c block_device =
  bd_name :: string
  bd_block_size :: u32
  bd_block_count :: u32
  bd_ops :: "'c block_device_ops"

definition BLOCK_RETRY_BUDGET_TRANSIENT :: nat where "BLOCK_RETRY_BUDGET_TRANSIENT = 3"
definition BLOCK_RETRY_BUDGET_TIMEOUT :: nat where "BLOCK_RETRY_BUDGET_TIMEOUT = 1"

definition block_call_read ::
  "'c block_device \<Rightarrow> u32 \<Rightarrow> u8 list \<Rightarrow> 'c \<Rightarrow> block_io_error_class \<times> u8 list \<times> 'c" where
  "block_call_read dev block_no buf c =
     (case op_read_block_ex (bd_ops dev) of
        Some f \<Rightarrow> f block_no buf c
      | None \<Rightarrow>
          (case op_read_block (bd_ops dev) of
             None \<Rightarrow> (BLOCK_IO_ERR_PERMANENT, buf, c)
           | Some f \<Rightarrow> (let (r, buf1, c1) = f block_no buf c
                       in (if r = 0 then BLOCK_IO_OK else BLOCK_IO_ERR_PERMANENT, buf1, c1))))"

definition block_call_write :: "'c block_device \<Rightarrow> u32 \<Rightarrow> u8 list \<Rightarrow> 'c \<Rightarrow> block_io_error_class \<times> 'c" where
  "block_call_write dev block_no buf c =
     (case op_write_block_ex (bd_ops dev) of
        Some f \<Rightarrow> f block_no buf c
      | None \<Rightarrow>
          (case op_write_block (bd_ops dev) of
             None \<Rightarrow> (BLOCK_IO_ERR_PERMANENT, c)
           | Some f \<Rightarrow> (let (r, c1) = f block_no buf c
                       in (if r = 0 then BLOCK_IO_OK else BLOCK_IO_ERR_PERMANENT, c1))))"

definition block_device_flush_once_ex :: "'c block_device \<Rightarrow> 'c \<Rightarrow> block_io_error_class \<times> 'c" where
  "block_device_flush_once_ex dev c =
     (case op_flush_ex (bd_ops dev) of
        Some f \<Rightarrow> f c
      | None \<Rightarrow>
          (case op_flush (bd_ops dev) of
             None \<Rightarrow> (BLOCK_IO_ERR_PERMANENT, c)
           | Some f \<Rightarrow> (let (r, c1) = f c in (if r = 0 then BLOCK_IO_OK else BLOCK_IO_ERR_PERMANENT, c1))))"

text \<open>One attempt, as the retry loop makes it.\<close>

definition block_attempt ::
  "'c block_device \<Rightarrow> bool \<Rightarrow> u32 \<Rightarrow> u8 list \<Rightarrow> 'c \<Rightarrow> block_io_error_class \<times> u8 list \<times> 'c" where
  "block_attempt dev is_write block_no buf c =
     (if is_write then (let (cls, c1) = block_call_write dev block_no buf c in (cls, buf, c1))
      else block_call_read dev block_no buf c)"

text \<open>The loop with its three local variables.\<close>

function block_retry_from ::
  "'c block_device \<Rightarrow> bool \<Rightarrow> u32 \<Rightarrow> nat \<Rightarrow> nat \<Rightarrow> bool \<Rightarrow> block_io_error_class \<Rightarrow> u8 list \<Rightarrow> 'c \<Rightarrow>
   block_io_error_class \<times> u8 list \<times> 'c" where
  "block_retry_from dev is_write block_no budget_transient budget_timeout reset_attempted cls buf c =
     (if \<not> block_io_should_retry cls then (cls, buf, c)
      else if cls = BLOCK_IO_ERR_TIMEOUT then
        (if budget_timeout = 0 then (cls, buf, c)
         else
           (case op_reset (bd_ops dev) of
              None \<Rightarrow> (BLOCK_IO_ERR_PERMANENT, buf, c)
            | Some reset \<Rightarrow>
                if reset_attempted then (BLOCK_IO_ERR_PERMANENT, buf, c)
                else
                  (let (r, c1) = reset c in
                   if r \<noteq> 0 then (BLOCK_IO_ERR_PERMANENT, buf, c1)
                   else
                     (let (cls1, buf1, c2) = block_attempt dev is_write block_no buf c1
                      in block_retry_from dev is_write block_no budget_transient (budget_timeout - 1) True cls1 buf1 c2))))
      else if budget_transient = 0 then (cls, buf, c)
      else
        (let (cls1, buf1, c1) = block_attempt dev is_write block_no buf c
         in block_retry_from dev is_write block_no (budget_transient - 1) budget_timeout reset_attempted cls1 buf1 c1))"
  by pat_completeness auto
termination
  by (relation "measure (\<lambda>(_, _, _, a, b, _). a + b)") auto

declare block_retry_from.simps [simp del]

definition block_retry_loop ::
  "'c block_device \<Rightarrow> block_io_error_class \<Rightarrow> bool \<Rightarrow> u32 \<Rightarrow> u8 list \<Rightarrow> 'c \<Rightarrow> block_io_error_class \<times> u8 list \<times> 'c" where
  "block_retry_loop dev cls is_write block_no buf c =
     block_retry_from dev is_write block_no BLOCK_RETRY_BUDGET_TRANSIENT BLOCK_RETRY_BUDGET_TIMEOUT False cls buf c"

definition block_device_read_ex ::
  "'c block_device \<Rightarrow> u32 \<Rightarrow> u8 list \<Rightarrow> 'c \<Rightarrow> block_io_error_class \<times> u8 list \<times> 'c" where
  "block_device_read_ex dev block_no buf c =
     (if block_no \<ge> bd_block_count dev then (BLOCK_IO_ERR_PERMANENT, buf, c)
      else (let (cls, buf1, c1) = block_call_read dev block_no buf c
            in block_retry_loop dev cls False block_no buf1 c1))"

definition block_device_write_ex :: "'c block_device \<Rightarrow> u32 \<Rightarrow> u8 list \<Rightarrow> 'c \<Rightarrow> block_io_error_class \<times> 'c" where
  "block_device_write_ex dev block_no buf c =
     (if block_no \<ge> bd_block_count dev then (BLOCK_IO_ERR_PERMANENT, c)
      else (let (cls, c1) = block_call_write dev block_no buf c;
                (cls2, _, c2) = block_retry_loop dev cls True block_no buf c1
            in (cls2, c2)))"

definition block_device_supports_flush :: "'c block_device \<Rightarrow> bool" where
  "block_device_supports_flush dev \<longleftrightarrow> op_flush_ex (bd_ops dev) \<noteq> None \<or> op_flush (bd_ops dev) \<noteq> None"

fun flush_retry :: "'c block_device \<Rightarrow> nat \<Rightarrow> block_io_error_class \<Rightarrow> 'c \<Rightarrow> block_io_error_class \<times> 'c" where
  "flush_retry dev 0 cls c = (cls, c)"
| "flush_retry dev (Suc budget) cls c =
     (if cls = BLOCK_IO_ERR_TRANSIENT
      then (let (cls1, c1) = block_device_flush_once_ex dev c in flush_retry dev budget cls1 c1)
      else (cls, c))"

definition block_device_flush_ex :: "'c block_device \<Rightarrow> 'c \<Rightarrow> block_io_error_class \<times> 'c" where
  "block_device_flush_ex dev c =
     (if \<not> block_device_supports_flush dev then (BLOCK_IO_ERR_PERMANENT, c)
      else (let (cls, c1) = block_device_flush_once_ex dev c in flush_retry dev BLOCK_RETRY_BUDGET_TRANSIENT cls c1))"

definition block_device_flush :: "'c block_device \<Rightarrow> 'c \<Rightarrow> int \<times> 'c" where
  "block_device_flush dev c =
     (let (cls, c1) = block_device_flush_ex dev c in (if cls = BLOCK_IO_OK then 0 else -1, c1))"

definition block_device_read :: "'c block_device \<Rightarrow> u32 \<Rightarrow> u8 list \<Rightarrow> 'c \<Rightarrow> int \<times> u8 list \<times> 'c" where
  "block_device_read dev block_no buf c =
     (if op_read_block_ex (bd_ops dev) = None then
        (case op_read_block (bd_ops dev) of
           None \<Rightarrow> (-1, buf, c)
         | Some f \<Rightarrow> if block_no \<ge> bd_block_count dev then (-1, buf, c) else f block_no buf c)
      else (let (cls, buf1, c1) = block_device_read_ex dev block_no buf c
            in (if cls = BLOCK_IO_OK then 0 else -1, buf1, c1)))"

definition block_device_write :: "'c block_device \<Rightarrow> u32 \<Rightarrow> u8 list \<Rightarrow> 'c \<Rightarrow> int \<times> 'c" where
  "block_device_write dev block_no buf c =
     (if op_write_block_ex (bd_ops dev) = None then
        (case op_write_block (bd_ops dev) of
           None \<Rightarrow> (-1, c)
         | Some f \<Rightarrow> if block_no \<ge> bd_block_count dev then (-1, c) else f block_no buf c)
      else (let (cls, c1) = block_device_write_ex dev block_no buf c in (if cls = BLOCK_IO_OK then 0 else -1, c1)))"

subsection \<open>A sub-range of a device (\<^verbatim>\<open>offset_wrapper.c\<close>)\<close>

definition off_read :: "'c block_device \<Rightarrow> u32 \<Rightarrow> u32 \<Rightarrow> u32 \<Rightarrow> u8 list \<Rightarrow> 'c \<Rightarrow> int \<times> u8 list \<times> 'c" where
  "off_read lower start count block_no buf c =
     (if block_no \<ge> count then (-1, buf, c)
      else (let (r, buf1, c1) = block_device_read lower (start + block_no) buf c
            in (if r \<noteq> 0 then -1 else 0, buf1, c1)))"

definition off_write :: "'c block_device \<Rightarrow> u32 \<Rightarrow> u32 \<Rightarrow> u32 \<Rightarrow> u8 list \<Rightarrow> 'c \<Rightarrow> int \<times> 'c" where
  "off_write lower start count block_no buf c =
     (if block_no \<ge> count then (-1, c)
      else (let (r, c1) = block_device_write lower (start + block_no) buf c in (if r \<noteq> 0 then -1 else 0, c1)))"

definition off_ops :: "'c block_device \<Rightarrow> u32 \<Rightarrow> u32 \<Rightarrow> 'c block_device_ops" where
  "off_ops lower start count =
     \<lparr>op_read_block = Some (off_read lower start count), op_write_block = Some (off_write lower start count),
      op_read_block_ex = None, op_write_block_ex = None, op_reset = None, op_flush = None, op_flush_ex = None\<rparr>"

definition off_flush_ex :: "'c block_device \<Rightarrow> 'c \<Rightarrow> block_io_error_class \<times> 'c" where
  "off_flush_ex lower c = block_device_flush_once_ex lower c"

definition block_offset_wrap :: "bool \<Rightarrow> 'c block_device \<Rightarrow> u32 \<Rightarrow> u32 \<Rightarrow> 'c block_device option" where
  "block_offset_wrap alloc_ok lower start_lba lba_count =
     (if lba_count = 0 then None
      else if start_lba \<ge> bd_block_count lower then None
      else if lba_count > bd_block_count lower - start_lba then None
      else if \<not> alloc_ok then None
      else Some \<lparr>bd_name = ''offset'', bd_block_size = bd_block_size lower, bd_block_count = lba_count,
             bd_ops = (if block_device_supports_flush lower
                       then (off_ops lower start_lba lba_count)\<lparr>op_flush_ex := Some (off_flush_ex lower)\<rparr>
                       else off_ops lower start_lba lba_count)\<rparr>)"

subsection \<open>Larger blocks (\<^verbatim>\<open>chunk_wrapper.c\<close>)\<close>

text \<open>The loops over the sub-blocks; the list holds the indices still to do.\<close>

fun chunk_read_from :: "'c block_device \<Rightarrow> u32 \<Rightarrow> nat list \<Rightarrow> u8 list \<Rightarrow> 'c \<Rightarrow> int \<times> u8 list \<times> 'c" where
  "chunk_read_from lower start [] buf c = (0, buf, c)"
| "chunk_read_from lower start (i # is) buf c =
     (let bs = unat (bd_block_size lower);
          (r, b, c1) = block_device_read lower (start + of_nat i) (take bs (drop (i * bs) buf)) c;
          buf1 = take (i * bs) buf @ b @ drop (i * bs + bs) buf
      in if r \<noteq> 0 then (-1, buf1, c1) else chunk_read_from lower start is buf1 c1)"

fun chunk_write_from :: "'c block_device \<Rightarrow> u32 \<Rightarrow> nat list \<Rightarrow> u8 list \<Rightarrow> 'c \<Rightarrow> int \<times> 'c" where
  "chunk_write_from lower start [] src c = (0, c)"
| "chunk_write_from lower start (i # is) src c =
     (let bs = unat (bd_block_size lower);
          (r, c1) = block_device_write lower (start + of_nat i) (take bs (drop (i * bs) src)) c
      in if r \<noteq> 0 then (-1, c1) else chunk_write_from lower start is src c1)"

definition chunk_read :: "'c block_device \<Rightarrow> u32 \<Rightarrow> u32 \<Rightarrow> u8 list \<Rightarrow> 'c \<Rightarrow> int \<times> u8 list \<times> 'c" where
  "chunk_read lower ratio block_no buf c = chunk_read_from lower (block_no * ratio) [0..<unat ratio] buf c"

definition chunk_write :: "'c block_device \<Rightarrow> u32 \<Rightarrow> u32 \<Rightarrow> u8 list \<Rightarrow> 'c \<Rightarrow> int \<times> 'c" where
  "chunk_write lower ratio block_no src c = chunk_write_from lower (block_no * ratio) [0..<unat ratio] src c"

definition chunk_flush_ex :: "'c block_device \<Rightarrow> 'c \<Rightarrow> block_io_error_class \<times> 'c" where
  "chunk_flush_ex lower c = block_device_flush_once_ex lower c"

definition chunk_ops :: "'c block_device \<Rightarrow> u32 \<Rightarrow> 'c block_device_ops" where
  "chunk_ops lower ratio =
     \<lparr>op_read_block = Some (chunk_read lower ratio), op_write_block = Some (chunk_write lower ratio),
      op_read_block_ex = None, op_write_block_ex = None, op_reset = None, op_flush = None, op_flush_ex = None\<rparr>"

definition block_chunked_wrap :: "bool \<Rightarrow> 'c block_device \<Rightarrow> u32 \<Rightarrow> 'c block_device option" where
  "block_chunked_wrap alloc_ok lower chunk_size =
     (if chunk_size = 0 \<or> chunk_size mod bd_block_size lower \<noteq> 0 then None
      else
        (let ratio = chunk_size div bd_block_size lower in
         if ratio = 0 \<or> bd_block_count lower < ratio then None
         else if \<not> alloc_ok then None
         else if bd_block_count lower div ratio = 0 then None
         else Some \<lparr>bd_name = ''chunked'', bd_block_size = chunk_size, bd_block_count = bd_block_count lower div ratio,
                bd_ops = (if block_device_supports_flush lower
                          then (chunk_ops lower ratio)\<lparr>op_flush_ex := Some (chunk_flush_ex lower)\<rparr>
                          else chunk_ops lower ratio)\<rparr>))"

subsection \<open>Partitions (\<^verbatim>\<open>partition.c\<close>)\<close>

record mbr_partition =
  mp_lba_start :: u32
  mp_sector_count :: u32
  mp_type :: u8
  mp_bootable :: u8

definition parse_entry :: "u8 list \<Rightarrow> int \<times> mbr_partition" where
  "parse_entry entry =
     (let out = \<lparr>mp_lba_start = le32_at entry 8, mp_sector_count = le32_at entry 12, mp_type = entry ! 4, mp_bootable = entry ! 0\<rparr>
      in (if mp_type out = 0 \<or> mp_sector_count out = 0 then -1 else 0, out))"

definition mbr_read_partition :: "'c block_device \<Rightarrow> int \<Rightarrow> 'c \<Rightarrow> mbr_partition option \<times> 'c" where
  "mbr_read_partition raw index c =
     (if index < 0 \<or> index > 3 then (None, c)
      else if bd_block_size raw \<noteq> 512 \<or> bd_block_count raw = 0 then (None, c)
      else
        (let (r, mbr, c1) = block_device_read raw 0 (replicate 512 0) c in
         if r \<noteq> 0 then (None, c1)
         else if mbr ! 510 \<noteq> 0x55 \<or> mbr ! 511 \<noteq> 0xAA then (None, c1)
         else
           (let (rc, out) = parse_entry (take 16 (drop (446 + nat index * 16) mbr)) in
            if rc \<noteq> 0 then (None, c1)
            else if mp_lba_start out \<ge> bd_block_count raw then (None, c1)
            else if mp_sector_count out > bd_block_count raw - mp_lba_start out then (None, c1)
            else (Some out, c1))))"

subsection \<open>The RAM disk (\<^verbatim>\<open>ramdisk.c\<close>)\<close>

definition RAMDISK_BLOCK_SIZE :: nat where "RAMDISK_BLOCK_SIZE = 4096"
definition RAMDISK_MAX_BLOCKS :: nat where "RAMDISK_MAX_BLOCKS = 1024"

record ramdisk =
  rd_storage :: "u8 list option"
  rd_capacity_blocks :: nat
  rd_initialized :: bool
  rd_block_count :: nat

definition ramdisk_read :: "u32 \<Rightarrow> u8 list \<Rightarrow> ramdisk \<Rightarrow> int \<times> u8 list \<times> ramdisk" where
  "ramdisk_read block_no buf s =
     (case rd_storage s of None \<Rightarrow> (-1, buf, s)
      | Some st \<Rightarrow>
          if unat block_no \<ge> rd_block_count s then (-1, buf, s)
          else (0, take RAMDISK_BLOCK_SIZE (drop (unat block_no * RAMDISK_BLOCK_SIZE) st) @ drop RAMDISK_BLOCK_SIZE buf, s))"

definition ramdisk_write :: "u32 \<Rightarrow> u8 list \<Rightarrow> ramdisk \<Rightarrow> int \<times> ramdisk" where
  "ramdisk_write block_no buf s =
     (case rd_storage s of None \<Rightarrow> (-1, s)
      | Some st \<Rightarrow>
          if unat block_no \<ge> rd_block_count s then (-1, s)
          else (let off = unat block_no * RAMDISK_BLOCK_SIZE
                in (0, s\<lparr>rd_storage := Some (take off st @ take RAMDISK_BLOCK_SIZE buf @ drop (off + RAMDISK_BLOCK_SIZE) st)\<rparr>)))"

text \<open>\<open>zero_range st from n\<close> overwrites \<open>n\<close> bytes from offset \<open>from\<close> with zero.\<close>

definition zero_range :: "u8 list \<Rightarrow> nat \<Rightarrow> nat \<Rightarrow> u8 list" where
  "zero_range st from n = take from st @ replicate n 0 @ drop (from + n) st"

definition ramdisk_init :: "bool \<Rightarrow> nat \<Rightarrow> ramdisk \<Rightarrow> ramdisk" where
  "ramdisk_init alloc_ok block_count s =
     (let first_init = \<not> rd_initialized s;
          previous_blocks = (if first_init then 0 else rd_block_count s);
          n = (if block_count > RAMDISK_MAX_BLOCKS then RAMDISK_MAX_BLOCKS else block_count);
          bs = RAMDISK_BLOCK_SIZE
      in if n > rd_capacity_blocks s \<and> \<not> alloc_ok \<and> first_init then s\<lparr>rd_block_count := 0\<rparr>
         else
           (let (n2, s1) =
              (if n > rd_capacity_blocks s then
                 (if \<not> alloc_ok then (previous_blocks, s)
                  else (n, s\<lparr>rd_storage := Some
                              ((case rd_storage s of None \<Rightarrow> replicate (rd_capacity_blocks s * bs) 0
                                | Some st \<Rightarrow> take (rd_capacity_blocks s * bs) st) @ replicate (n * bs - rd_capacity_blocks s * bs) 0),
                            rd_capacity_blocks := n\<rparr>))
               else (case rd_storage s of None \<Rightarrow> (n, s)
                 | Some st \<Rightarrow>
                     if n > previous_blocks
                     then (n, s\<lparr>rd_storage := Some (zero_range st (previous_blocks * bs) ((n - previous_blocks) * bs))\<rparr>)
                     else (n, s)))
            in s1\<lparr>rd_block_count := (if rd_storage s1 = None then 0 else n2), rd_initialized := rd_storage s1 \<noteq> None\<rparr>))"

definition ramdisk_ops :: "ramdisk block_device_ops" where
  "ramdisk_ops =
     \<lparr>op_read_block = Some ramdisk_read, op_write_block = Some ramdisk_write, op_read_block_ex = None,
      op_write_block_ex = None, op_reset = None, op_flush = None, op_flush_ex = None\<rparr>"

definition ramdisk_device :: "ramdisk \<Rightarrow> ramdisk block_device option" where
  "ramdisk_device s =
     (if rd_block_count s = 0 then None
      else Some \<lparr>bd_name = ''ramdisk'', bd_block_size = of_nat RAMDISK_BLOCK_SIZE, bd_block_count = of_nat (rd_block_count s),
             bd_ops = ramdisk_ops\<rparr>)"

definition ramdisk_fill :: "u8 list \<Rightarrow> ramdisk \<Rightarrow> ramdisk" where
  "ramdisk_fill data s =
     (let bytes = rd_block_count s * RAMDISK_BLOCK_SIZE in
      case rd_storage s of None \<Rightarrow> s
      | Some st \<Rightarrow>
          if data = [] \<or> bytes = 0 then s
          else (let n = min (length data) bytes
                in s\<lparr>rd_initialized := True, rd_storage := Some (take n data @ replicate (bytes - n) 0 @ drop bytes st)\<rparr>))"

end
