(* ===== verification/BufferCache.thy ===== *)
theory BufferCache
  imports BlockDev
begin

text \<open>
  The block cache: \<^verbatim>\<open>fs/cache/buffer_cache.c\<close>. 64 buffers are linked into hash chains by device and block number, and the
  unpinned ones into a list in order of use. The links are indices into the table of buffers.

  A device is named by its address (0 is the null pointer); \<open>devs\<close> gives the operations behind an address, and all devices
  share one driver state. The loops over a chain are bounded by the number of buffers; a
  chain of a consistent cache is never longer. Log messages are not modelled.
\<close>

subsection \<open>State\<close>

definition BUFFER_HASH_SIZE :: nat where "BUFFER_HASH_SIZE = 256"
definition BUFFER_CACHE_MAX :: nat where "BUFFER_CACHE_MAX = 64"
definition BUFFER_BLOCK_SIZE :: u32 where "BUFFER_BLOCK_SIZE = 4096"

record buffer_head =
  bh_dev :: u64
  bh_block_no :: u32
  bh_data :: "u8 list"
  bh_dirty :: bool
  bh_valid :: bool
  bh_refcount :: u16
  bh_hash_next :: "nat option"
  bh_lru_prev :: "nat option"
  bh_lru_next :: "nat option"

record buffer_cache_stats =
  bs_capacity :: u32
  bs_valid :: u32
  bs_dirty :: u32
  bs_pinned :: u32
  bs_hits :: u64
  bs_misses :: u64
  bs_evictions :: u64
  bs_writebacks :: u64
  bs_read_errors :: u64
  bs_write_errors :: u64
  bs_readaheads :: u64
  bs_writeback_passes :: u64

record bcache =
  buffer_cache :: "buffer_head carr"
  hash_table :: "nat option carr"
  lru_head :: "nat option"
  lru_tail :: "nat option"
  cache_initialized :: bool
  last_error_block_no :: u32
  last_error_valid :: bool
  last_error_code :: int
  bc_stats :: buffer_cache_stats

type_synonym 'c devices = "u64 \<Rightarrow> 'c block_device"

definition upd_bh :: "nat \<Rightarrow> (buffer_head \<Rightarrow> buffer_head) \<Rightarrow> bcache \<Rightarrow> bcache" where
  "upd_bh i f s = s\<lparr>buffer_cache := (buffer_cache s)(i := f (buffer_cache s i))\<rparr>"

definition upd_bstats :: "(buffer_cache_stats \<Rightarrow> buffer_cache_stats) \<Rightarrow> bcache \<Rightarrow> bcache" where
  "upd_bstats f s = s\<lparr>bc_stats := f (bc_stats s)\<rparr>"

subsection \<open>Links\<close>

definition buffer_hash :: "u64 \<Rightarrow> u32 \<Rightarrow> nat" where
  "buffer_hash dev block_no = unat ((dev XOR ucast (block_no * 2654435761)) mod 256)"

text \<open>The buffers a loop visits that follows \<open>nx\<close> from \<open>p\<close>.\<close>

fun follow :: "(nat \<Rightarrow> nat option) \<Rightarrow> nat \<Rightarrow> nat option \<Rightarrow> nat list" where
  "follow nx 0 p = []"
| "follow nx (Suc n) None = []"
| "follow nx (Suc n) (Some i) = i # follow nx n (nx i)"

definition lru_remove :: "nat \<Rightarrow> bcache \<Rightarrow> bcache" where
  "lru_remove i s =
     (let prev = bh_lru_prev (buffer_cache s i); nxt = bh_lru_next (buffer_cache s i);
          s1 = (case prev of Some p \<Rightarrow> upd_bh p (\<lambda>b. b\<lparr>bh_lru_next := nxt\<rparr>) s | None \<Rightarrow> s\<lparr>lru_head := nxt\<rparr>);
          s2 = (case nxt of Some n \<Rightarrow> upd_bh n (\<lambda>b. b\<lparr>bh_lru_prev := prev\<rparr>) s1 | None \<Rightarrow> s1\<lparr>lru_tail := prev\<rparr>)
      in upd_bh i (\<lambda>b. b\<lparr>bh_lru_prev := None, bh_lru_next := None\<rparr>) s2)"

definition lru_insert_front :: "nat \<Rightarrow> bcache \<Rightarrow> bcache" where
  "lru_insert_front i s =
     (let s1 = upd_bh i (\<lambda>b. b\<lparr>bh_lru_prev := None, bh_lru_next := lru_head s\<rparr>) s;
          s2 = (case lru_head s of Some h \<Rightarrow> upd_bh h (\<lambda>b. b\<lparr>bh_lru_prev := Some i\<rparr>) s1 | None \<Rightarrow> s1\<lparr>lru_tail := Some i\<rparr>)
      in s2\<lparr>lru_head := Some i\<rparr>)"

definition hash_chain :: "nat \<Rightarrow> bcache \<Rightarrow> nat list" where
  "hash_chain index s = follow (\<lambda>i. bh_hash_next (buffer_cache s i)) BUFFER_CACHE_MAX (hash_table s index)"

definition hash_lookup :: "u64 \<Rightarrow> u32 \<Rightarrow> bcache \<Rightarrow> nat option" where
  "hash_lookup dev block_no s =
     find (\<lambda>i. bh_dev (buffer_cache s i) = dev \<and> bh_block_no (buffer_cache s i) = block_no)
       (hash_chain (buffer_hash dev block_no) s)"

definition hash_remove :: "nat \<Rightarrow> bcache \<Rightarrow> bcache" where
  "hash_remove i s =
     (let b = buffer_cache s i; index = buffer_hash (bh_dev b) (bh_block_no b); ks = hash_chain index s
      in if i \<notin> set ks then s
         else
           (let s1 = (if hd ks = i then s\<lparr>hash_table := (hash_table s)(index := bh_hash_next b)\<rparr>
                      else upd_bh (last (takeWhile (\<lambda>k. k \<noteq> i) ks)) (\<lambda>p. p\<lparr>bh_hash_next := bh_hash_next b\<rparr>) s)
            in upd_bh i (\<lambda>b. b\<lparr>bh_hash_next := None\<rparr>) s1))"

definition hash_insert :: "nat \<Rightarrow> bcache \<Rightarrow> bcache" where
  "hash_insert i s =
     (let b = buffer_cache s i; index = buffer_hash (bh_dev b) (bh_block_no b);
          s1 = upd_bh i (\<lambda>b. b\<lparr>bh_hash_next := hash_table s index\<rparr>) s
      in s1\<lparr>hash_table := (hash_table s1)(index := Some i)\<rparr>)"

subsection \<open>Operations\<close>

definition buffer_write_back :: "'c devices \<Rightarrow> nat \<Rightarrow> bcache \<Rightarrow> 'c \<Rightarrow> int \<times> bcache \<times> 'c" where
  "buffer_write_back devs i s c =
     (let b = buffer_cache s i in
      if bh_dev b = 0 \<or> \<not> bh_dirty b \<or> \<not> bh_valid b then (0, s, c)
      else
        (let (rc, c1) = block_device_write (devs (bh_dev b)) (bh_block_no b) (bh_data b) c in
         if rc \<noteq> 0 then (rc, upd_bstats (\<lambda>t. t\<lparr>bs_write_errors := bs_write_errors t + 1\<rparr>) s, c1)
         else (0, upd_bstats (\<lambda>t. t\<lparr>bs_writebacks := bs_writebacks t + 1\<rparr>) (upd_bh i (\<lambda>b. b\<lparr>bh_dirty := False\<rparr>) s), c1)))"

definition buffer_evict :: "'c devices \<Rightarrow> bcache \<Rightarrow> 'c \<Rightarrow> nat option \<times> bcache \<times> 'c" where
  "buffer_evict devs s c =
     (case find (\<lambda>i. bh_refcount (buffer_cache s i) = 0) (follow (\<lambda>i. bh_lru_prev (buffer_cache s i)) BUFFER_CACHE_MAX (lru_tail s)) of
        None \<Rightarrow> (None, s, c)
      | Some i \<Rightarrow>
          (let s1 = lru_remove i s;
               (s2, c1) = (if bh_dirty (buffer_cache s1 i) \<and> bh_valid (buffer_cache s1 i)
                           then snd (buffer_write_back devs i s1 c) else (s1, c));
               s3 = (if bh_valid (buffer_cache s2 i) \<or> bh_dev (buffer_cache s2 i) \<noteq> 0
                     then upd_bstats (\<lambda>t. t\<lparr>bs_evictions := bs_evictions t + 1\<rparr>) s2 else s2);
               s4 = hash_remove i s3
           in (Some i, upd_bh i (\<lambda>b. b\<lparr>bh_dev := 0, bh_block_no := 0, bh_dirty := False, bh_valid := False\<rparr>) s4, c1)))"

definition buffer_cache_init :: "bcache \<Rightarrow> bcache" where
  "buffer_cache_init s =
     (if cache_initialized s then s
      else
        (let s1 = fold (\<lambda>i s. lru_insert_front i (upd_bh i (\<lambda>b. b\<lparr>bh_dev := 0, bh_block_no := 0, bh_dirty := False, bh_valid := False,
                    bh_refcount := 0, bh_hash_next := None, bh_lru_prev := None, bh_lru_next := None\<rparr>) s)) [0..<BUFFER_CACHE_MAX] s;
             s2 = fold (\<lambda>i s. s\<lparr>hash_table := (hash_table s)(i := None)\<rparr>) [0..<BUFFER_HASH_SIZE] s1
         in s2\<lparr>bc_stats := \<lparr>bs_capacity = of_nat BUFFER_CACHE_MAX, bs_valid = 0, bs_dirty = 0, bs_pinned = 0, bs_hits = 0, bs_misses = 0,
                bs_evictions = 0, bs_writebacks = 0, bs_read_errors = 0, bs_write_errors = 0, bs_readaheads = 0, bs_writeback_passes = 0\<rparr>,
               cache_initialized := True\<rparr>))"

definition buffer_get :: "'c devices \<Rightarrow> u64 \<Rightarrow> u32 \<Rightarrow> bcache \<Rightarrow> 'c \<Rightarrow> nat option \<times> bcache \<times> 'c" where
  "buffer_get devs dev block_no s c =
     (let s = buffer_cache_init s in
      if dev = 0 \<or> bd_block_size (devs dev) \<noteq> BUFFER_BLOCK_SIZE then (None, s, c)
      else
        (case hash_lookup dev block_no s of
           Some i \<Rightarrow>
             (let s1 = upd_bstats (\<lambda>t. t\<lparr>bs_hits := bs_hits t + 1\<rparr>) s;
                  s2 = (if bh_refcount (buffer_cache s1 i) = 0 then lru_remove i s1 else s1)
              in (Some i, upd_bh i (\<lambda>b. b\<lparr>bh_refcount := bh_refcount b + 1\<rparr>) s2, c))
         | None \<Rightarrow>
             (case buffer_evict devs (upd_bstats (\<lambda>t. t\<lparr>bs_misses := bs_misses t + 1\<rparr>) s) c of
                (None, s1, c1) \<Rightarrow> (None, s1, c1)
              | (Some i, s1, c1) \<Rightarrow>
                  (let s2 = upd_bh i (\<lambda>b. b\<lparr>bh_dev := dev, bh_block_no := block_no, bh_refcount := 1\<rparr>) s1;
                       (rc, d, c2) = block_device_read (devs dev) block_no (bh_data (buffer_cache s2 i)) c1;
                       s3 = upd_bh i (\<lambda>b. b\<lparr>bh_data := d\<rparr>) s2
                   in if rc \<noteq> 0
                      then (None, lru_insert_front i (upd_bh i (\<lambda>b. b\<lparr>bh_dev := 0, bh_refcount := 0\<rparr>)
                              (upd_bstats (\<lambda>t. t\<lparr>bs_read_errors := bs_read_errors t + 1\<rparr>) s3)), c2)
                      else (Some i, hash_insert i (upd_bh i (\<lambda>b. b\<lparr>bh_valid := True, bh_dirty := False\<rparr>) s3), c2)))))"

definition buffer_mark_dirty :: "nat \<Rightarrow> bcache \<Rightarrow> bcache" where
  "buffer_mark_dirty i s = upd_bh i (\<lambda>b. b\<lparr>bh_dirty := True\<rparr>) s"

definition buffer_release :: "nat \<Rightarrow> bcache \<Rightarrow> bcache" where
  "buffer_release i s =
     (if bh_refcount (buffer_cache s i) = 0 then s
      else
        (let s1 = upd_bh i (\<lambda>b. b\<lparr>bh_refcount := bh_refcount b - 1\<rparr>) s
         in if bh_refcount (buffer_cache s1 i) = 0 then lru_insert_front i s1 else s1))"

fun sync_from :: "'c devices \<Rightarrow> u64 \<Rightarrow> nat list \<Rightarrow> int \<Rightarrow> bcache \<Rightarrow> 'c \<Rightarrow> int \<times> bcache \<times> 'c" where
  "sync_from devs dev [] rc s c = (rc, s, c)"
| "sync_from devs dev (i # is) rc s c =
     (let b = buffer_cache s i in
      if bh_dev b = dev \<and> bh_dirty b \<and> bh_valid b
      then
        (let (wrc, s1, c1) = buffer_write_back devs i s c in
         if wrc \<noteq> 0
         then sync_from devs dev is (-1)
                (if \<not> last_error_valid s1
                 then s1\<lparr>last_error_valid := True, last_error_block_no := bh_block_no (buffer_cache s1 i), last_error_code := wrc\<rparr>
                 else s1) c1
         else sync_from devs dev is rc s1 c1)
      else sync_from devs dev is rc s c)"

definition buffer_cache_sync :: "'c devices \<Rightarrow> u64 \<Rightarrow> bcache \<Rightarrow> 'c \<Rightarrow> int \<times> bcache \<times> 'c" where
  "buffer_cache_sync devs dev s c =
     sync_from devs dev [0..<BUFFER_CACHE_MAX] 0 (s\<lparr>last_error_valid := False, last_error_block_no := 0, last_error_code := 0\<rparr>) c"

definition invalidate_one :: "u64 \<Rightarrow> nat \<Rightarrow> bcache \<Rightarrow> bcache" where
  "invalidate_one dev i s =
     (if bh_dev (buffer_cache s i) \<noteq> dev then s
      else
        (let s1 = hash_remove i s;
             s2 = (if bh_refcount (buffer_cache s1 i) = 0 then lru_remove i s1 else s1);
             s3 = upd_bh i (\<lambda>b. b\<lparr>bh_dev := 0, bh_block_no := 0, bh_dirty := False, bh_valid := False, bh_hash_next := None\<rparr>) s2
         in if bh_refcount (buffer_cache s3 i) = 0 then lru_insert_front i s3 else s3))"

definition buffer_cache_invalidate :: "u64 \<Rightarrow> bcache \<Rightarrow> bcache" where
  "buffer_cache_invalidate dev s =
     (if dev = 0 then s else fold (invalidate_one dev) [0..<BUFFER_CACHE_MAX] s)"

definition buffer_count :: "(buffer_head \<Rightarrow> bool) \<Rightarrow> bcache \<Rightarrow> u32" where
  "buffer_count P s = of_nat (length (filter (\<lambda>i. P (buffer_cache s i)) [0..<BUFFER_CACHE_MAX]))"

definition buffer_cache_stats_get :: "bcache \<Rightarrow> buffer_cache_stats \<times> bcache" where
  "buffer_cache_stats_get s =
     (let s1 = buffer_cache_init s
      in ((bc_stats s1)\<lparr>bs_capacity := of_nat BUFFER_CACHE_MAX, bs_valid := buffer_count bh_valid s1, bs_dirty := buffer_count bh_dirty s1,
            bs_pinned := buffer_count (\<lambda>b. bh_refcount b \<noteq> 0) s1\<rparr>, s1))"

definition buffer_cache_last_error_block :: "bcache \<Rightarrow> u32 option" where
  "buffer_cache_last_error_block s = (if \<not> last_error_valid s then None else Some (last_error_block_no s))"

definition buffer_cache_last_error_code :: "bcache \<Rightarrow> int" where
  "buffer_cache_last_error_code s = last_error_code s"

text \<open>The loop of the read-ahead; \<open>n\<close> turns are left.\<close>

fun readahead_from :: "'c devices \<Rightarrow> u64 \<Rightarrow> u32 \<Rightarrow> nat \<Rightarrow> u32 \<Rightarrow> u32 \<Rightarrow> bcache \<Rightarrow> 'c \<Rightarrow> u32 \<times> bcache \<times> 'c" where
  "readahead_from devs dev start 0 i loaded s c = (loaded, s, c)"
| "readahead_from devs dev start (Suc n) i loaded s c =
     (if start + i < start then (loaded, s, c)
      else if bd_block_count (devs dev) \<noteq> 0 \<and> start + i \<ge> bd_block_count (devs dev) then (loaded, s, c)
      else
        (case buffer_get devs dev (start + i) s c of
           (None, s1, c1) \<Rightarrow> (loaded, s1, c1)
         | (Some k, s1, c1) \<Rightarrow> readahead_from devs dev start n (i + 1) (loaded + 1) (buffer_release k s1) c1))"

definition buffer_cache_readahead :: "'c devices \<Rightarrow> u64 \<Rightarrow> u32 \<Rightarrow> u32 \<Rightarrow> bcache \<Rightarrow> 'c \<Rightarrow> u32 \<times> bcache \<times> 'c" where
  "buffer_cache_readahead devs dev start count s c =
     (let s = buffer_cache_init s in
      if dev = 0 \<or> bd_block_size (devs dev) \<noteq> BUFFER_BLOCK_SIZE \<or> count = 0 then (0, s, c)
      else
        (let (loaded, s1, c1) = readahead_from devs dev start (unat count) 0 0 s c
         in (loaded, upd_bstats (\<lambda>t. t\<lparr>bs_readaheads := bs_readaheads t + ucast loaded\<rparr>) s1, c1)))"

text \<open>One pass over the list in order of use, oldest first. A write-back changes no links, so the list is fixed at the start.\<close>

fun writeback_from :: "'c devices \<Rightarrow> u64 \<Rightarrow> u32 \<Rightarrow> nat list \<Rightarrow> u32 \<Rightarrow> bcache \<Rightarrow> 'c \<Rightarrow> u32 \<times> bcache \<times> 'c" where
  "writeback_from devs dev max_blocks [] written s c = (written, s, c)"
| "writeback_from devs dev max_blocks (i # is) written s c =
     (if \<not> written < max_blocks then (written, s, c)
      else
        (let b = buffer_cache s i in
         if bh_valid b \<and> bh_dirty b \<and> (dev = 0 \<or> bh_dev b = dev)
         then
           (let (rc, s1, c1) = buffer_write_back devs i s c in
            if rc \<noteq> 0 then (written, s1, c1)
            else writeback_from devs dev max_blocks is (written + 1) s1 c1)
         else writeback_from devs dev max_blocks is written s c))"

definition buffer_cache_writeback_pass :: "'c devices \<Rightarrow> u64 \<Rightarrow> u32 \<Rightarrow> bcache \<Rightarrow> 'c \<Rightarrow> u32 \<times> bcache \<times> 'c" where
  "buffer_cache_writeback_pass devs dev max_blocks s c =
     (let s = buffer_cache_init s in
      if max_blocks = 0 then (0, s, c)
      else
        (let (written, s1, c1) = writeback_from devs dev max_blocks
               (follow (\<lambda>i. bh_lru_prev (buffer_cache s i)) BUFFER_CACHE_MAX (lru_tail s)) 0 s c
         in (written, if written > 0 then upd_bstats (\<lambda>t. t\<lparr>bs_writeback_passes := bs_writeback_passes t + 1\<rparr>) s1 else s1, c1)))"

definition buffer_cache_dirty_count :: "u64 \<Rightarrow> bcache \<Rightarrow> u32 \<times> bcache" where
  "buffer_cache_dirty_count dev s =
     (let s1 = buffer_cache_init s
      in (buffer_count (\<lambda>b. bh_valid b \<and> bh_dirty b \<and> (dev = 0 \<or> bh_dev b = dev)) s1, s1))"

end
