(* ===== verification/BufferLinks.thy ===== *)
theory BufferLinks
  imports BufferCache
begin

text \<open>
  The linked structures of the block cache: segments of chains, removal and insertion, and what the list operations of
  theory \<open>BufferCache\<close> do to the chains. A doubly linked list is two chains, one of them read backwards.
\<close>

subsection \<open>Chains\<close>

text \<open>Following \<open>nx\<close> from \<open>p\<close> visits \<open>xs\<close> and arrives at \<open>q\<close>.\<close>

fun chain_seg :: "(nat \<Rightarrow> nat option) \<Rightarrow> nat option \<Rightarrow> nat list \<Rightarrow> nat option \<Rightarrow> bool" where
  "chain_seg nx p [] q \<longleftrightarrow> p = q"
| "chain_seg nx p (x # xs) q \<longleftrightarrow> p = Some x \<and> chain_seg nx (nx x) xs q"

lemma chain_append: "chain_seg nx p (xs @ ys) q \<longleftrightarrow> (\<exists>r. chain_seg nx p xs r \<and> chain_seg nx r ys q)"
  by (induction xs arbitrary: p) auto

lemma chain_cong: "(\<And>x. x \<in> set xs \<Longrightarrow> nx x = nx' x) \<Longrightarrow> chain_seg nx p xs q = chain_seg nx' p xs q"
  by (induction xs arbitrary: p) auto

lemma chain_upd_other: "i \<notin> set xs \<Longrightarrow> chain_seg (nx(i := v)) p xs q = chain_seg nx p xs q"
  by (rule chain_cong) auto

lemma chain_first: "chain_seg nx p xs None \<Longrightarrow> p = (if xs = [] then None else Some (hd xs))"
  by (cases xs) auto

lemma chain_redirect:
  "chain_seg nx p xs q \<Longrightarrow> distinct xs \<Longrightarrow> xs \<noteq> [] \<Longrightarrow> chain_seg (nx(last xs := r)) p xs r"
proof (induction xs arbitrary: p)
  case (Cons x xs)
  show ?case
  proof (cases "xs = []")
    case False
    then have "x \<noteq> last xs" using Cons.prems(2) by auto
    then show ?thesis using Cons.IH [of "nx x"] Cons.prems False by simp
  qed (use Cons.prems in simp)
qed simp

lemma chain_remove:
  assumes "chain_seg nx p (as @ x # bs) None" and "distinct (as @ x # bs)"
  shows "chain_seg (if as = [] then nx else nx(last as := nx x)) (if as = [] then nx x else p) (as @ bs) None"
proof (cases "as = []")
  case False
  have s: "chain_seg nx p as (Some x)" "chain_seg nx (nx x) bs None" using assms(1) by (auto simp: chain_append)
  have "last as \<notin> set bs" using False assms(2) by (metis disjoint_iff distinct_append last_in_set list.set_intros(2))
  then have "chain_seg (nx(last as := nx x)) (nx x) bs None"
    using s(2) by (simp add: chain_upd_other)
  then show ?thesis using chain_redirect [OF s(1) _ False, of "nx x"] assms(2) False by (auto simp: chain_append)
qed (use assms in simp)

lemma follow_chain: "chain_seg nx p xs None \<Longrightarrow> length xs \<le> n \<Longrightarrow> follow nx n p = xs"
proof (induction xs arbitrary: p n)
  case Nil
  then show ?case by (cases n) simp_all
next
  case (Cons x xs)
  then show ?case by (cases n) simp_all
qed

lemma distinct_below: "distinct xs \<Longrightarrow> set xs \<subseteq> {..<n} \<Longrightarrow> length xs \<le> (n :: nat)"
  by (metis card_lessThan card_mono distinct_card finite_lessThan)

subsection \<open>Views of the state\<close>

text \<open>A buffer without its links.\<close>

definition core :: "bcache \<Rightarrow> nat \<Rightarrow> u64 \<times> u32 \<times> u8 list \<times> bool \<times> bool \<times> u16" where
  "core s i = (let b = buffer_cache s i in (bh_dev b, bh_block_no b, bh_data b, bh_dirty b, bh_valid b, bh_refcount b))"

abbreviation lru_nx :: "bcache \<Rightarrow> nat \<Rightarrow> nat option" where
  "lru_nx s \<equiv> \<lambda>i. bh_lru_next (buffer_cache s i)"

abbreviation lru_pv :: "bcache \<Rightarrow> nat \<Rightarrow> nat option" where
  "lru_pv s \<equiv> \<lambda>i. bh_lru_prev (buffer_cache s i)"

abbreviation hash_nx :: "bcache \<Rightarrow> nat \<Rightarrow> nat option" where
  "hash_nx s \<equiv> \<lambda>i. bh_hash_next (buffer_cache s i)"

definition same_core :: "bcache \<Rightarrow> bcache \<Rightarrow> bool" where
  "same_core s s' \<longleftrightarrow> core s' = core s \<and> cache_initialized s' = cache_initialized s"

definition same_lru :: "bcache \<Rightarrow> bcache \<Rightarrow> bool" where
  "same_lru s s' \<longleftrightarrow> lru_nx s' = lru_nx s \<and> lru_pv s' = lru_pv s \<and> lru_head s' = lru_head s \<and> lru_tail s' = lru_tail s"

definition same_hash :: "bcache \<Rightarrow> bcache \<Rightarrow> bool" where
  "same_hash s s' \<longleftrightarrow> hash_nx s' = hash_nx s \<and> hash_table s' = hash_table s"

lemmas same_defs = same_core_def same_lru_def same_hash_def

lemma same_coreD:
  assumes "same_core s s'"
  shows "bh_dev (buffer_cache s' i) = bh_dev (buffer_cache s i)" "bh_block_no (buffer_cache s' i) = bh_block_no (buffer_cache s i)"
    "bh_data (buffer_cache s' i) = bh_data (buffer_cache s i)" "bh_dirty (buffer_cache s' i) = bh_dirty (buffer_cache s i)"
    "bh_valid (buffer_cache s' i) = bh_valid (buffer_cache s i)" "bh_refcount (buffer_cache s' i) = bh_refcount (buffer_cache s i)"
    "cache_initialized s' = cache_initialized s"
  using assms by (auto simp: same_core_def core_def Let_def fun_eq_iff)

lemma same_trans:
  "same_core a b \<Longrightarrow> same_core b c \<Longrightarrow> same_core a c" "same_lru a b \<Longrightarrow> same_lru b c \<Longrightarrow> same_lru a c"
  "same_hash a b \<Longrightarrow> same_hash b c \<Longrightarrow> same_hash a c"
  by (auto simp: same_defs)

lemma upd_bh_sel [simp]:
  "buffer_cache (upd_bh i f s) = (buffer_cache s)(i := f (buffer_cache s i))"
  "hash_table (upd_bh i f s) = hash_table s" "lru_head (upd_bh i f s) = lru_head s" "lru_tail (upd_bh i f s) = lru_tail s"
  "cache_initialized (upd_bh i f s) = cache_initialized s" "bc_stats (upd_bh i f s) = bc_stats s"
  "last_error_valid (upd_bh i f s) = last_error_valid s"
  by (simp_all add: upd_bh_def)

lemma upd_bstats_sel [simp]:
  "buffer_cache (upd_bstats f s) = buffer_cache s" "hash_table (upd_bstats f s) = hash_table s"
  "lru_head (upd_bstats f s) = lru_head s" "lru_tail (upd_bstats f s) = lru_tail s"
  "cache_initialized (upd_bstats f s) = cache_initialized s"
  by (simp_all add: upd_bstats_def)

lemma upd_bstats_same: "same_core s (upd_bstats f s)" "same_lru s (upd_bstats f s)" "same_hash s (upd_bstats f s)"
  by (simp_all add: same_defs core_def fun_eq_iff)

subsection \<open>The list in order of use\<close>

definition lru_list :: "bcache \<Rightarrow> nat list \<Rightarrow> bool" where
  "lru_list s xs \<longleftrightarrow> distinct xs \<and> set xs \<subseteq> {..<BUFFER_CACHE_MAX} \<and>
     chain_seg (lru_nx s) (lru_head s) xs None \<and> chain_seg (lru_pv s) (lru_tail s) (rev xs) None"

lemma lru_list_same: "lru_list s xs \<Longrightarrow> same_lru s s' \<Longrightarrow> lru_list s' xs"
  by (simp add: lru_list_def same_lru_def)

lemma lru_remove_frame: "same_core s (lru_remove i s)" "same_hash s (lru_remove i s)"
  by (auto simp: same_defs core_def lru_remove_def Let_def fun_eq_iff split: option.splits)

lemma lru_insert_frame: "same_core s (lru_insert_front i s)" "same_hash s (lru_insert_front i s)"
  by (auto simp: same_defs core_def lru_insert_front_def Let_def fun_eq_iff split: option.splits)

lemma lru_remove_list:
  assumes "lru_list s xs" and "i \<in> set xs"
  shows "\<exists>ys. lru_list (lru_remove i s) ys \<and> set ys = set xs - {i}"
proof -
  obtain as bs where xs: "xs = as @ i # bs" using assms(2) by (meson split_list)
  let ?s = "lru_remove i s"
  have d: "distinct (as @ i # bs)" and sub: "set xs \<subseteq> {..<BUFFER_CACHE_MAX}"
    and f: "chain_seg (lru_nx s) (lru_head s) (as @ i # bs) None"
    and b: "chain_seg (lru_pv s) (lru_tail s) (rev bs @ i # rev as) None"
    using assms(1) by (auto simp: lru_list_def xs)
  have n: "lru_nx s i = (if bs = [] then None else Some (hd bs))"
    using f by (auto simp: chain_append dest: chain_first)
  have p: "lru_pv s i = (if as = [] then None else Some (last as))"
    using b chain_first [of "lru_pv s" "lru_pv s i" "rev as"] by (auto simp: chain_append hd_rev)
  have nx: "lru_nx ?s = (if as = [] then lru_nx s else (lru_nx s)(last as := lru_nx s i))(i := None)"
    using d n p by (auto simp: lru_remove_def Let_def fun_eq_iff)
  have pv: "lru_pv ?s = (if bs = [] then lru_pv s else (lru_pv s)(hd bs := lru_pv s i))(i := None)"
    using d n p by (auto simp: lru_remove_def Let_def fun_eq_iff)
  have h: "lru_head ?s = (if as = [] then lru_nx s i else lru_head s)" "lru_tail ?s = (if bs = [] then lru_pv s i else lru_tail s)"
    using n p by (auto simp: lru_remove_def Let_def)
  have i: "i \<notin> set (as @ bs)" using d by auto
  have "chain_seg (lru_nx ?s) (lru_head ?s) (as @ bs) None"
    unfolding nx h chain_upd_other [OF i] by (rule chain_remove [OF f d])
  moreover have d': "distinct (rev bs @ i # rev as)" using d by auto
  have "chain_seg (lru_pv ?s) (lru_tail ?s) (rev bs @ rev as) None"
  proof -
    have "i \<notin> set (rev bs @ rev as)" using i by auto
    from chain_remove [OF b d', unfolded last_rev rev_is_Nil_conv] show ?thesis unfolding pv h chain_upd_other [OF \<open>i \<notin> set (rev bs @ rev as)\<close>] .
  qed
  ultimately have "lru_list ?s (as @ bs)" using d sub by (auto simp: lru_list_def xs)
  then show ?thesis using i by (intro exI [of _ "as @ bs"]) (auto simp: xs)
qed

lemma lru_insert_list:
  assumes "lru_list s xs" and "i \<notin> set xs" and "i < BUFFER_CACHE_MAX"
  shows "lru_list (lru_insert_front i s) (i # xs)"
proof -
  let ?s = "lru_insert_front i s"
  have f: "chain_seg (lru_nx s) (lru_head s) xs None" and b: "chain_seg (lru_pv s) (lru_tail s) (rev xs) None"
    and d: "distinct xs" and sub: "set xs \<subseteq> {..<BUFFER_CACHE_MAX}"
    using assms(1) by (auto simp: lru_list_def)
  note h = chain_first [OF f]
  have nx: "lru_nx ?s = (lru_nx s)(i := lru_head s)"
    using h assms(2) by (cases xs) (auto simp: lru_insert_front_def Let_def fun_eq_iff)
  have pv: "lru_pv ?s = (if xs = [] then (lru_pv s)(i := None) else ((lru_pv s)(hd xs := Some i))(i := None))"
    using h assms(2) by (cases xs) (auto simp: lru_insert_front_def Let_def fun_eq_iff)
  have ht: "lru_head ?s = Some i" "lru_tail ?s = (if xs = [] then Some i else lru_tail s)"
    using h by (auto simp: lru_insert_front_def Let_def)
  have "chain_seg ((lru_nx s)(i := lru_head s)) (lru_head s) xs None"
    using f unfolding chain_upd_other [OF assms(2)] .
  then have "chain_seg (lru_nx ?s) (lru_head ?s) (i # xs) None" unfolding nx ht by simp
  moreover have "chain_seg (lru_pv ?s) (lru_tail ?s) (rev xs @ [i]) None"
  proof (cases "xs = []")
    case True
    then show ?thesis unfolding pv ht by simp
  next
    case False
    have r: "chain_seg ((lru_pv s)(hd xs := Some i)) (lru_tail s) (rev xs) (Some i)"
      using chain_redirect [OF b] d False by (simp add: last_rev)
    have "chain_seg (((lru_pv s)(hd xs := Some i))(i := None)) (lru_tail s) (rev xs) (Some i)"
      using r assms(2) by (subst chain_upd_other) simp_all
    then show ?thesis unfolding pv ht using False by (auto simp: chain_append)
  qed
  ultimately show ?thesis using d sub assms(2,3) by (auto simp: lru_list_def)
qed

lemma lru_oldest:
  assumes "lru_list s xs"
  shows "follow (lru_pv s) BUFFER_CACHE_MAX (lru_tail s) = rev xs"
  using assms by (intro follow_chain) (auto simp: lru_list_def intro: distinct_below)

subsection \<open>The hash chains\<close>

definition hash_of :: "bcache \<Rightarrow> nat \<Rightarrow> nat" where
  "hash_of s i = buffer_hash (bh_dev (buffer_cache s i)) (bh_block_no (buffer_cache s i))"

lemma buffer_hash_less: "buffer_hash d b < BUFFER_HASH_SIZE"
  by (simp add: buffer_hash_def BUFFER_HASH_SIZE_def unat_mod)

text \<open>The chains \<open>C\<close> hold exactly the buffers of the set \<open>H\<close>, each in the chain of its hash value.\<close>

definition hash_chains :: "bcache \<Rightarrow> nat set \<Rightarrow> (nat \<Rightarrow> nat list) \<Rightarrow> bool" where
  "hash_chains s H C \<longleftrightarrow> H \<subseteq> {..<BUFFER_CACHE_MAX} \<and>
     (\<forall>h<BUFFER_HASH_SIZE. distinct (C h) \<and> set (C h) = {i \<in> H. hash_of s i = h} \<and> chain_seg (hash_nx s) (hash_table s h) (C h) None)"

lemma hash_chains_same:
  "hash_chains s H C \<Longrightarrow> same_hash s s' \<Longrightarrow> (\<And>i. i \<in> H \<Longrightarrow> hash_of s' i = hash_of s i) \<Longrightarrow> hash_chains s' H C"
  by (auto simp: hash_chains_def same_hash_def)

lemma hash_of_same: "same_core s s' \<Longrightarrow> hash_of s' i = hash_of s i"
  by (simp add: hash_of_def same_coreD)

lemma hash_chain_eq: "hash_chains s H C \<Longrightarrow> h < BUFFER_HASH_SIZE \<Longrightarrow> hash_chain h s = C h"
  unfolding hash_chain_def by (rule follow_chain) (auto simp: hash_chains_def intro!: distinct_below)

lemma hash_remove_frame: "same_core s (hash_remove i s)" "same_lru s (hash_remove i s)"
  by (auto simp: same_defs core_def hash_remove_def Let_def fun_eq_iff)

lemma hash_insert_frame: "same_core s (hash_insert i s)" "same_lru s (hash_insert i s)"
  by (auto simp: same_defs core_def hash_insert_def Let_def fun_eq_iff)

lemma hash_remove_absent:
  assumes "hash_chains s H C" and "i \<notin> H"
  shows "hash_remove i s = s"
proof -
  let ?h = "buffer_hash (bh_dev (buffer_cache s i)) (bh_block_no (buffer_cache s i))"
  have "i \<notin> set (hash_chain ?h s)"
    unfolding hash_chain_eq [OF assms(1) buffer_hash_less] using assms buffer_hash_less by (auto simp: hash_chains_def)
  then show ?thesis by (simp add: hash_remove_def Let_def)
qed

lemma hash_remove_chains:
  assumes "hash_chains s H C" and "i \<in> H"
  shows "\<exists>C'. hash_chains (hash_remove i s) (H - {i}) C'"
proof -
  define h0 where "h0 = hash_of s i"
  let ?s = "hash_remove i s"
  have h0: "h0 < BUFFER_HASH_SIZE" by (simp add: h0_def hash_of_def buffer_hash_less)
  have C: "distinct (C h)" "set (C h) = {i \<in> H. hash_of s i = h}" "chain_seg (hash_nx s) (hash_table s h) (C h) None"
    if "h < BUFFER_HASH_SIZE" for h
    using assms(1) that by (auto simp: hash_chains_def)
  have "i \<in> set (C h0)" using C(2) [OF h0] assms(2) by (simp add: h0_def)
  then obtain as bs where ab: "C h0 = as @ i # bs" by (meson split_list)
  have d: "distinct (as @ i # bs)" and f: "chain_seg (hash_nx s) (hash_table s h0) (as @ i # bs) None"
    using C(1,3) [OF h0] by (simp_all add: ab)
  have ia: "i \<notin> set as" "i \<notin> set (as @ bs)" using d by auto
  have tw: "takeWhile (\<lambda>k. k \<noteq> i) (as @ i # bs) = as" using ia(1) by (induction as) auto
  have hd: "hd (as @ i # bs) = i \<longleftrightarrow> as = []" using ia(1) by (cases as) auto
  have ks: "hash_chain (buffer_hash (bh_dev (buffer_cache s i)) (bh_block_no (buffer_cache s i))) s = as @ i # bs"
    using hash_chain_eq [OF assms(1) h0] ab by (simp add: h0_def hash_of_def)
  have nx: "hash_nx ?s = (if as = [] then hash_nx s else (hash_nx s)(last as := hash_nx s i))(i := None)"
    unfolding hash_remove_def Let_def ks tw hd using ia(1) by (auto simp: fun_eq_iff)
  have ht: "hash_table ?s = (hash_table s)(h0 := if as = [] then hash_nx s i else hash_table s h0)"
    unfolding hash_remove_def Let_def ks tw hd using ia(1) by (auto simp: h0_def hash_of_def)
  have same: "hash_of ?s k = hash_of s k" for k by (rule hash_of_same [OF hash_remove_frame(1)])
  have "chain_seg (hash_nx ?s) (hash_table ?s h) ((C(h0 := as @ bs)) h) None" if h: "h < BUFFER_HASH_SIZE" for h
  proof (cases "h = h0")
    case True
    from chain_remove [OF f d] show ?thesis unfolding True nx ht fun_upd_same chain_upd_other [OF ia(2)] .
  next
    case False
    have out: "k \<notin> set (C h)" if "k \<in> set (as @ i # bs)" for k
      using that C(2) [OF h] C(2) [OF h0] False unfolding ab by auto
    then have "last as \<notin> set (C h)" if "as \<noteq> []" using that by simp
    then have "chain_seg (if as = [] then hash_nx s else (hash_nx s)(last as := hash_nx s i)) (hash_table s h) (C h) None"
      using C(3) [OF h] by (simp add: chain_upd_other)
    moreover have "i \<notin> set (C h)" using out by simp
    ultimately show ?thesis unfolding nx ht using False by (simp add: chain_upd_other)
  qed
  moreover have "set ((C(h0 := as @ bs)) h) = {k \<in> H - {i}. hash_of ?s k = h}" if "h < BUFFER_HASH_SIZE" for h
    using C(2) [OF that] ab ia(2) C(1) [OF h0] unfolding same by (auto simp: h0_def)
  moreover have "distinct ((C(h0 := as @ bs)) h)" if "h < BUFFER_HASH_SIZE" for h using C(1) [OF that] d by auto
  ultimately show ?thesis using assms(1) by (intro exI [of _ "C(h0 := as @ bs)"]) (auto simp: hash_chains_def)
qed

lemma hash_insert_chains:
  assumes "hash_chains s H C" and "i \<notin> H" and "i < BUFFER_CACHE_MAX"
  shows "\<exists>C'. hash_chains (hash_insert i s) (insert i H) C'"
proof -
  define h0 where "h0 = hash_of s i"
  let ?s = "hash_insert i s" and ?C = "C(h0 := i # C h0)"
  have C: "distinct (C h)" "set (C h) = {i \<in> H. hash_of s i = h}" "chain_seg (hash_nx s) (hash_table s h) (C h) None"
    if "h < BUFFER_HASH_SIZE" for h
    using assms(1) that by (auto simp: hash_chains_def)
  have nx: "hash_nx ?s = (hash_nx s)(i := hash_table s h0)" and ht: "hash_table ?s = (hash_table s)(h0 := Some i)"
    by (auto simp: hash_insert_def Let_def h0_def hash_of_def fun_eq_iff)
  have same: "hash_of ?s k = hash_of s k" for k by (rule hash_of_same [OF hash_insert_frame(1)])
  have "i \<notin> set (C h)" if "h < BUFFER_HASH_SIZE" for h using C(2) [OF that] assms(2) by simp
  then have "chain_seg (hash_nx ?s) (hash_table ?s h) (?C h) None \<and> distinct (?C h) \<and> set (?C h) = {k \<in> insert i H. hash_of ?s k = h}"
    if "h < BUFFER_HASH_SIZE" for h
    using C [OF that] assms(2) that unfolding nx ht same by (cases "h = h0") (auto simp: chain_upd_other h0_def)
  then show ?thesis using assms(1,3) by (intro exI [of _ ?C]) (auto simp: hash_chains_def)
qed

text \<open>The look-up finds the buffer of a block when keys are unique.\<close>

lemma hash_lookup_iff:
  assumes "hash_chains s H C" and "\<And>i j. i \<in> H \<Longrightarrow> j \<in> H \<Longrightarrow> bh_dev (buffer_cache s i) = bh_dev (buffer_cache s j) \<Longrightarrow>
      bh_block_no (buffer_cache s i) = bh_block_no (buffer_cache s j) \<Longrightarrow> i = j"
  shows "hash_lookup d b s = Some i \<longleftrightarrow> i \<in> H \<and> bh_dev (buffer_cache s i) = d \<and> bh_block_no (buffer_cache s i) = b"
proof -
  let ?P = "\<lambda>i. bh_dev (buffer_cache s i) = d \<and> bh_block_no (buffer_cache s i) = b" and ?c = "C (buffer_hash d b)"
  have e: "hash_lookup d b s = find ?P ?c" unfolding hash_lookup_def hash_chain_eq [OF assms(1) buffer_hash_less] ..
  have m: "set ?c = {i \<in> H. hash_of s i = buffer_hash d b}" using assms(1) buffer_hash_less by (auto simp: hash_chains_def)
  show ?thesis
  proof
    assume "hash_lookup d b s = Some i"
    then show "i \<in> H \<and> ?P i" unfolding e using find_SomeD [of ?P ?c i] m by auto
  next
    assume i: "i \<in> H \<and> ?P i"
    then have "i \<in> set ?c" unfolding m by (simp add: hash_of_def)
    then obtain k where k: "find ?P ?c = Some k" using i by (cases "find ?P ?c") (auto simp: find_None_iff)
    then have "k = i" using find_SomeD [OF k] m i assms(2) [of k i] by auto
    then show "hash_lookup d b s = Some i" using k e by simp
  qed
qed

end
