(* ===== verification/Disk.thy ===== *)
theory Disk
  imports BlockDev
begin

text \<open>
  What file-system code expects of a block device, as a locale, and who provides it: the RAM disk, and both
  wrappers over any provider.
\<close>

lemma concat_slices:
  "length buf = r * bs \<Longrightarrow> concat (map (\<lambda>j. take bs (drop (j * bs) buf)) [0..<r]) = buf"
proof (induction r arbitrary: buf)
  case (Suc r)
  have u: "[0..<Suc r] = 0 # map Suc [0..<r]" by (simp add: upt_conv_Cons map_Suc_upt)
  have "concat (map (\<lambda>j. take bs (drop (j * bs) (drop bs buf))) [0..<r]) = drop bs buf"
    by (rule Suc.IH) (use Suc.prems in simp)
  then show ?case unfolding u by (simp add: comp_def add.commute)
qed simp

lemma other_slot:
  fixes b k r j :: nat
  assumes "k \<noteq> b" and "j < r"
  shows "\<not> (b * r \<le> k * r + j \<and> k * r + j < b * r + r)"
proof (cases "k < b")
  case True
  then have "Suc k * r \<le> b * r" by (intro mult_le_mono1) simp
  then show ?thesis using assms(2) by simp
next
  case False
  then have "Suc b * r \<le> k * r" using assms(1) by (intro mult_le_mono1) simp
  then show ?thesis by simp
qed

subsection \<open>The contract\<close>

locale disk =
  fixes dev :: "'c block_device"
    and inv :: "'c \<Rightarrow> bool"
    and data :: "'c \<Rightarrow> nat \<Rightarrow> u8 list"
  assumes disk_size: "0 < unat (bd_block_size dev)"
    and disk_length: "inv c \<Longrightarrow> i < unat (bd_block_count dev) \<Longrightarrow> length (data c i) = unat (bd_block_size dev)"
    and disk_read: "inv c \<Longrightarrow> unat b < unat (bd_block_count dev) \<Longrightarrow> length buf = unat (bd_block_size dev) \<Longrightarrow>
      \<exists>c'. block_device_read dev b buf c = (0, data c (unat b), c') \<and> inv c' \<and> data c' = data c"
    and disk_write: "inv c \<Longrightarrow> unat b < unat (bd_block_count dev) \<Longrightarrow> length buf = unat (bd_block_size dev) \<Longrightarrow>
      \<exists>c'. block_device_write dev b buf c = (0, c') \<and> inv c' \<and> data c' = (data c)(unat b := buf)"
    and disk_range: "unat (bd_block_count dev) \<le> unat b \<Longrightarrow>
      block_device_read dev b buf c = (-1, buf, c) \<and> block_device_write dev b buf c = (-1, c)"
begin

lemma read_back:
  assumes "inv c" and "unat b < unat (bd_block_count dev)" and "length buf = unat (bd_block_size dev)"
    and "length dst = unat (bd_block_size dev)" and "block_device_write dev b buf c = (r, c')"
  shows "fst (block_device_read dev b dst c') = 0 \<and> fst (snd (block_device_read dev b dst c')) = buf"
proof -
  obtain c2 where "block_device_write dev b buf c = (0, c2)" "inv c2" "data c2 = (data c)(unat b := buf)"
    using disk_write [OF assms(1-3)] by blast
  then have c': "inv c'" "data c' = (data c)(unat b := buf)" using assms(5) by simp_all
  show ?thesis using disk_read [OF c'(1) assms(2,4)] c'(2) by auto
qed

text \<open>The device seen through \<^verbatim>\<open>block_offset_wrap\<close>.\<close>

lemma offset_disk:
  assumes "block_offset_wrap ok dev start n = Some d"
  shows "disk d inv (\<lambda>c i. data c (unat start + i))"
proof -
  have w: "n \<noteq> 0" "start < bd_block_count dev" "n \<le> bd_block_count dev - start"
    and d: "bd_block_size d = bd_block_size dev" "bd_block_count d = n"
      "op_read_block_ex (bd_ops d) = None" "op_write_block_ex (bd_ops d) = None"
      "op_read_block (bd_ops d) = Some (off_read dev start n)" "op_write_block (bd_ops d) = Some (off_write dev start n)"
    using assms by (auto simp: block_offset_wrap_def off_ops_def not_le not_less split: if_splits)
  have n: "unat start + unat n \<le> unat (bd_block_count dev)"
    using w(2,3) unat_sub [of start "bd_block_count dev"] by (simp add: word_le_nat_alt word_less_nat_alt)
  have plus: "unat (start + b) = unat start + unat b" "unat (start + b) < unat (bd_block_count dev)" if "unat b < unat n" for b
  proof -
    have "unat (bd_block_count dev) < 2 ^ LENGTH(32)" by (rule unsigned_less)
    with that n have "unat start + unat b < 2 ^ LENGTH(32)" by linarith
    then show "unat (start + b) = unat start + unat b" by (simp add: unat_plus_if')
    then show "unat (start + b) < unat (bd_block_count dev)" using that n by linarith
  qed
  have rd: "block_device_read d b buf c = (if unat b < unat n then (let (r, buf1, c1) = block_device_read dev (start + b) buf c
      in (if r \<noteq> 0 then -1 else 0, buf1, c1)) else (-1, buf, c))" for b buf c
    by (simp add: block_device_read_def d off_read_def word_le_nat_alt)
  have wr: "block_device_write d b buf c = (if unat b < unat n then (let (r, c1) = block_device_write dev (start + b) buf c
      in (if r \<noteq> 0 then -1 else 0, c1)) else (-1, c))" for b buf c
    by (simp add: block_device_write_def d off_write_def word_le_nat_alt)
  show ?thesis
  proof
    show "0 < unat (bd_block_size d)" using disk_size d by simp
    fix c b and buf :: "u8 list"
    show "unat (bd_block_count d) \<le> unat b \<Longrightarrow> block_device_read d b buf c = (-1, buf, c) \<and> block_device_write d b buf c = (-1, c)"
      by (simp add: rd wr d)
    assume i: "inv c"
    show "length (data c (unat start + k)) = unat (bd_block_size d)" if "k < unat (bd_block_count d)" for k
      using disk_length [OF i, of "unat start + k"] that n d by simp
    assume b: "unat b < unat (bd_block_count d)" "length buf = unat (bd_block_size d)"
    note p = plus [OF b(1) [unfolded d]]
    show "\<exists>c'. block_device_read d b buf c = (0, data c (unat start + unat b), c') \<and> inv c' \<and>
        (\<lambda>i. data c' (unat start + i)) = (\<lambda>i. data c (unat start + i))"
      using disk_read [OF i p(2), of buf] b d p(1) by (auto simp: rd)
    show "\<exists>c'. block_device_write d b buf c = (0, c') \<and> inv c' \<and>
        (\<lambda>i. data c' (unat start + i)) = (\<lambda>i. data c (unat start + i))(unat b := buf)"
      using disk_write [OF i p(2), of buf] b d p(1) by (auto simp: wr fun_eq_iff)
  qed
qed

text \<open>The loops of the chunk wrapper, from sub-block \<open>k\<close> on.\<close>

lemma chunk_read_loop:
  assumes "inv c" and "k \<le> r" and "length buf = r * unat (bd_block_size dev)"
    and "\<And>i. i < r \<Longrightarrow> unat (start + of_nat i) = base + i" and "base + r \<le> unat (bd_block_count dev)"
  shows "\<exists>c'. chunk_read_from dev start [k..<r] buf c =
      (0, take (k * unat (bd_block_size dev)) buf @ concat (map (\<lambda>i. data c (base + i)) [k..<r]), c') \<and> inv c' \<and> data c' = data c"
  using assms(1-3)
proof (induction "r - k" arbitrary: k buf c)
  case 0
  then show ?case by simp
next
  case (Suc n)
  let ?bs = "unat (bd_block_size dev)"
  have k: "k < r" "[k..<r] = k # [Suc k..<r]" and nk: "n = r - Suc k" using Suc.hyps(2) by (simp_all add: upt_conv_Cons)
  have kb: "k * ?bs + ?bs \<le> length buf" using k(1) Suc.prems(3) mult_le_mono1 [of "Suc k" r ?bs] by simp
  have "unat (start + of_nat k) = base + k" using assms(4) k(1) by simp
  moreover have "base + k < unat (bd_block_count dev)" using k(1) assms(5) by simp
  ultimately obtain c1 where c1: "block_device_read dev (start + of_nat k) (take ?bs (drop (k * ?bs) buf)) c = (0, data c (base + k), c1)"
      "inv c1" "data c1 = data c"
    using disk_read [OF Suc.prems(1), of "start + of_nat k" "take ?bs (drop (k * ?bs) buf)"] kb by auto
  let ?b = "data c (base + k)"
  let ?buf1 = "take (k * ?bs) buf @ ?b @ drop (k * ?bs + ?bs) buf"
  have lb: "length ?b = ?bs" using disk_length [OF Suc.prems(1)] \<open>base + k < unat (bd_block_count dev)\<close> by simp
  have l1: "length ?buf1 = r * ?bs" using kb lb Suc.prems(3) by simp
  have t: "take (Suc k * ?bs) ?buf1 = take (k * ?bs) buf @ ?b" using kb lb by (simp add: min_absorb2)
  obtain c' where "chunk_read_from dev start [Suc k..<r] ?buf1 c1 =
      (0, take (Suc k * ?bs) ?buf1 @ concat (map (\<lambda>i. data c1 (base + i)) [Suc k..<r]), c')" "inv c'" "data c' = data c1"
    using Suc.hyps(1) [OF nk c1(2) Suc_leI [OF k(1)] l1] by blast
  then show ?case unfolding t by (auto simp: k(2) c1)
qed

lemma chunk_write_loop:
  assumes "inv c" and "k \<le> r" and "length src = r * unat (bd_block_size dev)"
    and "\<And>i. i < r \<Longrightarrow> unat (start + of_nat i) = base + i" and "base + r \<le> unat (bd_block_count dev)"
  shows "\<exists>c'. chunk_write_from dev start [k..<r] src c = (0, c') \<and> inv c' \<and>
      data c' = (\<lambda>j. if base + k \<le> j \<and> j < base + r
        then take (unat (bd_block_size dev)) (drop ((j - base) * unat (bd_block_size dev)) src) else data c j)"
  using assms(1,2)
proof (induction "r - k" arbitrary: k c)
  case 0
  then show ?case by (auto simp: fun_eq_iff)
next
  case (Suc n)
  let ?bs = "unat (bd_block_size dev)"
  have k: "k < r" "[k..<r] = k # [Suc k..<r]" and nk: "n = r - Suc k" using Suc.hyps(2) by (simp_all add: upt_conv_Cons)
  have kb: "k * ?bs + ?bs \<le> length src" using k(1) assms(3) mult_le_mono1 [of "Suc k" r ?bs] by simp
  have u: "unat (start + of_nat k) = base + k" using assms(4) k(1) by simp
  moreover have "base + k < unat (bd_block_count dev)" using k(1) assms(5) by simp
  ultimately obtain c1 where c1: "block_device_write dev (start + of_nat k) (take ?bs (drop (k * ?bs) src)) c = (0, c1)"
      "inv c1" "data c1 = (data c)(base + k := take ?bs (drop (k * ?bs) src))"
    using disk_write [OF Suc.prems(1), of "start + of_nat k" "take ?bs (drop (k * ?bs) src)"] kb by auto
  obtain c' where "chunk_write_from dev start [Suc k..<r] src c1 = (0, c')" "inv c'"
      "data c' = (\<lambda>j. if base + Suc k \<le> j \<and> j < base + r then take ?bs (drop ((j - base) * ?bs) src) else data c1 j)"
    using Suc.hyps(1) [OF nk c1(2) Suc_leI [OF k(1)]] by blast
  then show ?case using k(1) by (auto simp: k(2) c1 fun_eq_iff)
qed

text \<open>The device seen through \<^verbatim>\<open>block_chunked_wrap\<close>.\<close>

lemma chunk_disk:
  assumes "block_chunked_wrap ok dev sz = Some d"
  defines "r \<equiv> unat (sz div bd_block_size dev)"
  shows "disk d inv (\<lambda>c i. concat (map (\<lambda>j. data c (i * r + j)) [0..<r]))"
proof -
  let ?bs = "unat (bd_block_size dev)" and ?q = "sz div bd_block_size dev"
  have w: "sz \<noteq> 0" "sz mod bd_block_size dev = 0" "?q \<noteq> 0"
    and d: "bd_block_size d = sz" "bd_block_count d = bd_block_count dev div ?q"
      "op_read_block_ex (bd_ops d) = None" "op_write_block_ex (bd_ops d) = None"
      "op_read_block (bd_ops d) = Some (chunk_read dev ?q)" "op_write_block (bd_ops d) = Some (chunk_write dev ?q)"
    using assms(1) by (auto simp: block_chunked_wrap_def chunk_ops_def Let_def not_le not_less split: if_splits)
  have rpos: "0 < r" using w(3) by (simp add: r_def unat_gt_0)
  have sz: "unat sz = r * ?bs"
    using w(2) by (metis r_def div_mult_mod_eq add.right_neutral unat_0 unat_div unat_mod)
  have cnt: "unat (bd_block_count d) = unat (bd_block_count dev) div r" by (simp add: d r_def unat_div)
  have inside: "k * r + r \<le> unat (bd_block_count dev)" if "k < unat (bd_block_count d)" for k
    using that cnt rpos by (metis Suc_leI add.commute div_times_less_eq_dividend le_trans mult_Suc mult_le_mono1)
  have addr: "unat (b * ?q + of_nat i) = unat b * r + i" if "unat b < unat (bd_block_count d)" "i < r" for b :: u32 and i
  proof -
    have "unat (bd_block_count dev) < 2 ^ LENGTH(32)" by (rule unsigned_less)
    then have "unat b * r + i < 2 ^ LENGTH(32)" using inside [OF that(1)] that(2) by linarith
    moreover have "b * ?q + of_nat i = of_nat (unat b * r + i)" by (simp add: r_def)
    ultimately show ?thesis by (simp only: unsigned_of_nat take_bit_nat_eq_self_iff [THEN iffD2] of_nat_id)
  qed
  have rd: "block_device_read d b buf c = (if unat b < unat (bd_block_count d)
      then chunk_read_from dev (b * ?q) [0..<r] buf c else (-1, buf, c))" for b buf c
    by (simp add: block_device_read_def d chunk_read_def word_le_nat_alt r_def)
  have wr: "block_device_write d b buf c = (if unat b < unat (bd_block_count d)
      then chunk_write_from dev (b * ?q) [0..<r] buf c else (-1, c))" for b buf c
    by (simp add: block_device_write_def d chunk_write_def word_le_nat_alt r_def)
  show ?thesis
  proof
    show "0 < unat (bd_block_size d)" using w(1) d by (simp add: unat_gt_0)
    fix c b and buf :: "u8 list"
    show "unat (bd_block_count d) \<le> unat b \<Longrightarrow> block_device_read d b buf c = (-1, buf, c) \<and> block_device_write d b buf c = (-1, c)"
      by (simp add: rd wr)
    assume i: "inv c"
    show "length (concat (map (\<lambda>j. data c (k * r + j)) [0..<r])) = unat (bd_block_size d)" if "k < unat (bd_block_count d)" for k
    proof -
      have "k * r + j < unat (bd_block_count dev)" if "j < r" for j
        using inside [OF \<open>k < unat (bd_block_count d)\<close>] that by linarith
      then have "map (\<lambda>j. length (data c (k * r + j))) [0..<r] = map (\<lambda>_. ?bs) [0..<r]" using disk_length [OF i] by simp
      then show ?thesis by (simp add: length_concat comp_def d sz map_replicate_const sum_list_replicate)
    qed
    assume b: "unat b < unat (bd_block_count d)" "length buf = unat (bd_block_size d)"
    have lb: "length buf = r * ?bs" using b(2) d sz by simp
    note loop = addr [OF b(1)] inside [OF b(1)]
    show "\<exists>c'. block_device_read d b buf c = (0, concat (map (\<lambda>j. data c (unat b * r + j)) [0..<r]), c') \<and> inv c' \<and>
        (\<lambda>i. concat (map (\<lambda>j. data c' (i * r + j)) [0..<r])) = (\<lambda>i. concat (map (\<lambda>j. data c (i * r + j)) [0..<r]))"
      using chunk_read_loop [OF i le0 lb loop] b(1) by (auto simp: rd)
    obtain c' where c': "chunk_write_from dev (b * ?q) [0..<r] buf c = (0, c')" "inv c'"
        "data c' = (\<lambda>j. if unat b * r + 0 \<le> j \<and> j < unat b * r + r
          then take ?bs (drop ((j - unat b * r) * ?bs) buf) else data c j)"
      using chunk_write_loop [OF i le0 lb loop] by blast
    have "concat (map (\<lambda>j. data c' (k * r + j)) [0..<r]) =
        ((\<lambda>i. concat (map (\<lambda>j. data c (i * r + j)) [0..<r]))(unat b := buf)) k" for k
    proof (cases "k = unat b")
      case True
      have "map (\<lambda>j. data c' (k * r + j)) [0..<r] = map (\<lambda>j. take ?bs (drop (j * ?bs) buf)) [0..<r]" using True by (simp add: c'(3))
      then show ?thesis using concat_slices [OF lb] unfolding True by (simp only: fun_upd_same)
    next
      case False
      then have "data c' (k * r + j) = data c (k * r + j)" if "j < r" for j using other_slot [OF False that] unfolding c'(3) by auto
      then have "map (\<lambda>j. data c' (k * r + j)) [0..<r] = map (\<lambda>j. data c (k * r + j)) [0..<r]" by simp
      then show ?thesis by (simp only: fun_upd_other [OF False])
    qed
    then show "\<exists>c'. block_device_write d b buf c = (0, c') \<and> inv c' \<and>
        (\<lambda>i. concat (map (\<lambda>j. data c' (i * r + j)) [0..<r])) =
          (\<lambda>i. concat (map (\<lambda>j. data c (i * r + j)) [0..<r]))(unat b := buf)"
      using c' b(1) by (auto simp: wr)
  qed
qed

end

subsection \<open>The RAM disk provides it\<close>

definition ramdisk_ok :: "nat \<Rightarrow> ramdisk \<Rightarrow> bool" where
  "ramdisk_ok n s \<longleftrightarrow> rd_block_count s = n \<and> 0 < n \<and> n \<le> RAMDISK_MAX_BLOCKS \<and>
     (\<exists>st. rd_storage s = Some st \<and> n * RAMDISK_BLOCK_SIZE \<le> length st)"

definition ramdisk_data :: "ramdisk \<Rightarrow> nat \<Rightarrow> u8 list" where
  "ramdisk_data s i = take RAMDISK_BLOCK_SIZE (drop (i * RAMDISK_BLOCK_SIZE) (the (rd_storage s)))"

definition ramdisk_dev :: "nat \<Rightarrow> ramdisk block_device" where
  "ramdisk_dev n = \<lparr>bd_name = ''ramdisk'', bd_block_size = of_nat RAMDISK_BLOCK_SIZE, bd_block_count = of_nat n, bd_ops = ramdisk_ops\<rparr>"

lemma ramdisk_device_eq: "ramdisk_ok n s \<Longrightarrow> ramdisk_device s = Some (ramdisk_dev n)"
  by (simp add: ramdisk_device_def ramdisk_ok_def ramdisk_dev_def)

lemma slice_same:
  "b * k + k \<le> length st \<Longrightarrow> length buf = k \<Longrightarrow> take k (drop (b * k) (take (b * k) st @ buf @ drop (b * k + k) st)) = buf"
  by (simp add: min_absorb2)

lemma slice_cong:
  "length u = length v \<Longrightarrow> (\<And>j. j < k \<Longrightarrow> m + j < length v \<Longrightarrow> u ! (m + j) = v ! (m + j)) \<Longrightarrow>
   take k (drop m u) = take k (drop m v)"
  by (rule nth_equalityI) auto

lemma slice_other:
  assumes "b * k + k \<le> length st" and "length buf = k" and "i \<noteq> b"
  shows "take k (drop (i * k) (take (b * k) st @ buf @ drop (b * k + k) st)) = take k (drop (i * k) (st :: 'a list))"
proof -
  let ?u = "take (b * k) st @ buf @ drop (b * k + k) st"
  have lu: "length ?u = length st" using assms(1,2) by simp
  have "?u ! (i * k + j) = st ! (i * k + j)" if "j < k" "i * k + j < length st" for j
    using assms(1,2) other_slot [OF assms(3) that(1)] that(2) by (auto simp: nth_append)
  then show ?thesis by (rule slice_cong [OF lu])
qed

lemma ramdisk_disk:
  assumes "0 < n" and "n \<le> RAMDISK_MAX_BLOCKS"
  shows "disk (ramdisk_dev n) (ramdisk_ok n) ramdisk_data"
proof
  have n: "unat (bd_block_count (ramdisk_dev n)) = n"
    using assms(2) by (simp add: ramdisk_dev_def RAMDISK_MAX_BLOCKS_def unsigned_of_nat take_bit_nat_eq_self_iff)
  have bs: "unat (bd_block_size (ramdisk_dev n)) = RAMDISK_BLOCK_SIZE" by (simp add: ramdisk_dev_def RAMDISK_BLOCK_SIZE_def)
  have rd: "block_device_read (ramdisk_dev n) b buf c = (if unat b < n then ramdisk_read b buf c else (-1, buf, c))"
    and wr: "block_device_write (ramdisk_dev n) b buf c = (if unat b < n then ramdisk_write b buf c else (-1, c))" for b buf c
    using n by (auto simp: block_device_read_def block_device_write_def ramdisk_dev_def ramdisk_ops_def word_le_nat_alt)
  show "0 < unat (bd_block_size (ramdisk_dev n))" by (simp add: bs RAMDISK_BLOCK_SIZE_def)
  fix c b i and buf :: "u8 list"
  show "unat (bd_block_count (ramdisk_dev n)) \<le> unat b \<Longrightarrow>
    block_device_read (ramdisk_dev n) b buf c = (-1, buf, c) \<and> block_device_write (ramdisk_dev n) b buf c = (-1, c)"
    using n by (simp add: rd wr)
  assume ok: "ramdisk_ok n c"
  then obtain st where st: "rd_storage c = Some st" "n * RAMDISK_BLOCK_SIZE \<le> length st" "rd_block_count c = n" by (auto simp: ramdisk_ok_def)
  have inside: "k * RAMDISK_BLOCK_SIZE + RAMDISK_BLOCK_SIZE \<le> length st" if "k < n" for k
    using that st(2) mult_le_mono1 [of "Suc k" n RAMDISK_BLOCK_SIZE] by simp
  show "i < unat (bd_block_count (ramdisk_dev n)) \<Longrightarrow> length (ramdisk_data c i) = unat (bd_block_size (ramdisk_dev n))"
    using inside [of i] by (simp add: n bs ramdisk_data_def st(1))
  assume b: "unat b < unat (bd_block_count (ramdisk_dev n))" "length buf = unat (bd_block_size (ramdisk_dev n))"
  show "\<exists>c'. block_device_read (ramdisk_dev n) b buf c = (0, ramdisk_data c (unat b), c') \<and> ramdisk_ok n c' \<and> ramdisk_data c' = ramdisk_data c"
    using b n bs st(1,3) ok by (simp add: rd ramdisk_read_def ramdisk_data_def)
  let ?st = "take (unat b * RAMDISK_BLOCK_SIZE) st @ buf @ drop (unat b * RAMDISK_BLOCK_SIZE + RAMDISK_BLOCK_SIZE) st"
  have lb: "length buf = RAMDISK_BLOCK_SIZE" using b(2) bs by simp
  have bn: "unat b < n" using b(1) n by simp
  have w: "block_device_write (ramdisk_dev n) b buf c = (0, c\<lparr>rd_storage := Some ?st\<rparr>)"
    using bn st lb by (simp add: wr ramdisk_write_def Let_def)
  have "ramdisk_ok n (c\<lparr>rd_storage := Some ?st\<rparr>)" using ok st lb inside [OF bn] by (simp add: ramdisk_ok_def)
  moreover have "ramdisk_data (c\<lparr>rd_storage := Some ?st\<rparr>) k = ((ramdisk_data c)(unat b := buf)) k" for k
    using slice_same [OF inside [OF bn] lb] slice_other [OF inside [OF bn] lb, of k] by (simp add: ramdisk_data_def st(1))
  ultimately show "\<exists>c'. block_device_write (ramdisk_dev n) b buf c = (0, c') \<and> ramdisk_ok n c' \<and> ramdisk_data c' = (ramdisk_data c)(unat b := buf)"
    using w by blast
qed

interpretation ram: disk "ramdisk_dev RAMDISK_MAX_BLOCKS" "ramdisk_ok RAMDISK_MAX_BLOCKS" ramdisk_data
  by (rule ramdisk_disk) (simp_all add: RAMDISK_MAX_BLOCKS_def)

text \<open>After \<^verbatim>\<open>ramdisk_init\<close> the device exists, and growing it keeps the old blocks.\<close>

lemma ramdisk_init_ok:
  assumes "rd_storage s = None" and "rd_capacity_blocks s = 0" and "\<not> rd_initialized s" and "0 < n"
  shows "ramdisk_ok (min n RAMDISK_MAX_BLOCKS) (ramdisk_init True n s)"
  using assms by (auto simp: ramdisk_init_def ramdisk_ok_def Let_def min_def RAMDISK_MAX_BLOCKS_def)

text \<open>A partition that \<^verbatim>\<open>mbr_read_partition\<close> accepts lies inside the device, so the offset wrapper accepts it.\<close>

lemma mbr_partition_usable:
  assumes "mbr_read_partition raw index c = (Some p, c')"
  shows "mp_sector_count p \<noteq> 0" and "unat (mp_lba_start p) + unat (mp_sector_count p) \<le> unat (bd_block_count raw)"
    and "block_offset_wrap True raw (mp_lba_start p) (mp_sector_count p) \<noteq> None"
proof -
  have p: "mp_sector_count p \<noteq> 0" "mp_lba_start p < bd_block_count raw" "mp_sector_count p \<le> bd_block_count raw - mp_lba_start p"
    using assms by (auto simp: mbr_read_partition_def parse_entry_def Let_def not_le not_less split: if_splits prod.splits)
  then show "mp_sector_count p \<noteq> 0" and "block_offset_wrap True raw (mp_lba_start p) (mp_sector_count p) \<noteq> None"
    by (auto simp: block_offset_wrap_def)
  show "unat (mp_lba_start p) + unat (mp_sector_count p) \<le> unat (bd_block_count raw)"
    using p unat_sub [of "mp_lba_start p" "bd_block_count raw"] by (simp add: word_le_nat_alt word_less_nat_alt)
qed

subsection \<open>How often the driver is called\<close>

text \<open>A device that counts the calls of its driver's routines and of its reset.\<close>

definition count_calls :: "'c block_device \<Rightarrow> ('c \<times> nat \<times> nat) block_device" where
  "count_calls dev =
     \<lparr>bd_name = bd_name dev, bd_block_size = bd_block_size dev, bd_block_count = bd_block_count dev,
      bd_ops = \<lparr>
        op_read_block = map_option (\<lambda>f b buf (c, k, m). let (r, buf1, c1) = f b buf c in (r, buf1, c1, Suc k, m)) (op_read_block (bd_ops dev)),
        op_write_block = map_option (\<lambda>f b buf (c, k, m). let (r, c1) = f b buf c in (r, c1, Suc k, m)) (op_write_block (bd_ops dev)),
        op_read_block_ex = map_option (\<lambda>f b buf (c, k, m). let (r, buf1, c1) = f b buf c in (r, buf1, c1, Suc k, m)) (op_read_block_ex (bd_ops dev)),
        op_write_block_ex = map_option (\<lambda>f b buf (c, k, m). let (r, c1) = f b buf c in (r, c1, Suc k, m)) (op_write_block_ex (bd_ops dev)),
        op_reset = map_option (\<lambda>f (c, k, m). let (r, c1) = f c in (r, c1, k, Suc m)) (op_reset (bd_ops dev)),
        op_flush = map_option (\<lambda>f (c, k, m). let (r, c1) = f c in (r, c1, Suc k, m)) (op_flush (bd_ops dev)),
        op_flush_ex = map_option (\<lambda>f (c, k, m). let (r, c1) = f c in (r, c1, Suc k, m)) (op_flush_ex (bd_ops dev))\<rparr>\<rparr>"

lemma count_calls_count [simp]: "bd_block_count (count_calls dev) = bd_block_count dev"
  by (simp add: count_calls_def)

lemma counted_attempt:
  assumes "block_attempt (count_calls dev) is_write b buf (c, k, m) = (cls, buf1, c1, k1, m1)"
  shows "block_attempt dev is_write b buf c = (cls, buf1, c1) \<and> m1 = m \<and> k \<le> k1 \<and> k1 \<le> Suc k \<and>
    (block_io_should_retry cls \<longrightarrow> k1 = Suc k)"
  using assms
  by (cases is_write)
    (auto simp: block_attempt_def block_call_read_def block_call_write_def count_calls_def block_io_should_retry_def
      split: option.splits prod.splits if_splits)

lemma counted_retry:
  assumes "block_retry_from (count_calls dev) is_write b bt bo ra cls buf (c, k, m) = (cls', buf', c', k', m')"
  shows "block_retry_from dev is_write b bt bo ra cls buf c = (cls', buf', c') \<and> k \<le> k' \<and> k' \<le> k + bt + bo \<and> m \<le> m' \<and> m' \<le> m + bo \<and>
    (cls' = BLOCK_IO_ERR_TRANSIENT \<longrightarrow> k + bt \<le> k') \<and> (cls' = BLOCK_IO_ERR_TIMEOUT \<longrightarrow> m' = m + bo)"
  using assms
proof (induction "bt + bo" arbitrary: bt bo ra cls buf c k m rule: less_induct)
  case less
  note eq = trans [OF sym [OF block_retry_from.simps] less.prems]
  note eq0 = block_retry_from.simps [of dev is_write b bt bo ra cls buf c]
  have reset: "op_reset (bd_ops (count_calls dev)) =
      map_option (\<lambda>f (c, k, m). let (r, c1) = f c in (r, c1, k, Suc m)) (op_reset (bd_ops dev))"
    by (simp add: count_calls_def)
  consider "\<not> block_io_should_retry cls" | "cls = BLOCK_IO_ERR_TIMEOUT" | "cls = BLOCK_IO_ERR_TRANSIENT"
    by (auto simp: block_io_should_retry_def)
  then show ?case
  proof cases
    case 1
    then show ?thesis using eq eq0 by (auto simp: block_io_should_retry_def)
  next
    case 2
    show ?thesis
    proof (cases "bo = 0 \<or> op_reset (bd_ops dev) = None \<or> ra")
      case True
      then show ?thesis using 2 eq eq0 by (auto simp: block_io_should_retry_def reset split: option.splits)
    next
      case False
      then obtain f where f: "0 < bo" "op_reset (bd_ops dev) = Some f" "\<not> ra" by auto
      obtain r c1 where r: "f c = (r, c1)" by fastforce
      obtain cls1 buf1 c2 k1 m1 where a: "block_attempt (count_calls dev) is_write b buf (c1, k, Suc m) = (cls1, buf1, c2, k1, m1)"
        by (metis prod_cases5)
      note ca = counted_attempt [OF a]
      show ?thesis
      proof (cases "r = 0")
        case True
        have "bt + (bo - 1) < bt + bo" using f(1) by simp
        moreover have "block_retry_from (count_calls dev) is_write b bt (bo - 1) True cls1 buf1 (c2, k1, m1) = (cls', buf', c', k', m')"
          using eq 2 f r a True by (simp add: block_io_should_retry_def reset)
        ultimately have ih: "block_retry_from dev is_write b bt (bo - 1) True cls1 buf1 c2 = (cls', buf', c') \<and> k1 \<le> k' \<and>
            k' \<le> k1 + bt + (bo - 1) \<and> m1 \<le> m' \<and> m' \<le> m1 + (bo - 1) \<and>
            (cls' = BLOCK_IO_ERR_TRANSIENT \<longrightarrow> k1 + bt \<le> k') \<and> (cls' = BLOCK_IO_ERR_TIMEOUT \<longrightarrow> m' = m1 + (bo - 1))"
          by (rule less.hyps)
        have "block_retry_from dev is_write b bt bo ra cls buf c = (cls', buf', c')"
          using eq0 2 f r True ca ih by (simp add: block_io_should_retry_def)
        then show ?thesis using ih ca f(1) by auto
      qed (use eq eq0 2 f r in \<open>auto simp: block_io_should_retry_def reset\<close>)
    qed
  next
    case 3
    obtain cls1 buf1 c2 k1 m1 where a: "block_attempt (count_calls dev) is_write b buf (c, k, m) = (cls1, buf1, c2, k1, m1)"
      by (metis prod_cases5)
    note ca = counted_attempt [OF a]
    show ?thesis
    proof (cases "bt = 0")
      case False
      then have "bt - 1 + bo < bt + bo" by simp
      moreover have rec: "block_retry_from (count_calls dev) is_write b (bt - 1) bo ra cls1 buf1 (c2, k1, m1) = (cls', buf', c', k', m')"
        using eq 3 False a by (simp add: block_io_should_retry_def)
      ultimately have ih: "block_retry_from dev is_write b (bt - 1) bo ra cls1 buf1 c2 = (cls', buf', c') \<and> k1 \<le> k' \<and>
          k' \<le> k1 + (bt - 1) + bo \<and> m1 \<le> m' \<and> m' \<le> m1 + bo \<and>
          (cls' = BLOCK_IO_ERR_TRANSIENT \<longrightarrow> k1 + (bt - 1) \<le> k') \<and> (cls' = BLOCK_IO_ERR_TIMEOUT \<longrightarrow> m' = m1 + bo)"
        by (rule less.hyps)
      have "block_retry_from dev is_write b bt bo ra cls buf c = (cls', buf', c')"
        using eq0 3 False ca ih by (simp add: block_io_should_retry_def)
      moreover have "cls' = cls1" if "\<not> block_io_should_retry cls1"
        using trans [OF sym [OF block_retry_from.simps] rec] that by simp
      ultimately show ?thesis
        using ih ca False by (cases "block_io_should_retry cls1") (auto simp: block_io_should_retry_def)
    qed (use eq eq0 3 in \<open>auto simp: block_io_should_retry_def\<close>)
  qed
qed

lemma counted_first_read:
  assumes "block_call_read (count_calls dev) b buf (c, 0, 0) = (cls, buf1, c1, k1, m1)"
  shows "block_call_read dev b buf c = (cls, buf1, c1) \<and> m1 = 0 \<and> k1 \<le> 1 \<and> (block_io_should_retry cls \<longrightarrow> k1 = 1)"
  using counted_attempt [of dev False b buf c 0 0] assms by (simp add: block_attempt_def)

lemma counted_first_write:
  assumes "block_call_write (count_calls dev) b buf (c, 0, 0) = (cls, c1, k1, m1)"
  shows "block_call_write dev b buf c = (cls, c1) \<and> m1 = 0 \<and> k1 \<le> 1 \<and> (block_io_should_retry cls \<longrightarrow> k1 = 1)"
  using counted_attempt [of dev True b buf c 0 0 cls buf c1 k1 m1] assms by (auto simp: block_attempt_def split: prod.splits)

lemma counted_loop:
  assumes "block_retry_loop (count_calls dev) cls is_write b buf (c, k, 0) = (cls', buf', c', k', m')"
    and "k \<le> 1" and "block_io_should_retry cls \<longrightarrow> k = 1"
  shows "block_retry_loop dev cls is_write b buf c = (cls', buf', c') \<and> k' \<le> 5 \<and> m' \<le> 1 \<and>
    (cls' = BLOCK_IO_ERR_TRANSIENT \<longrightarrow> 4 \<le> k') \<and> (cls' = BLOCK_IO_ERR_TIMEOUT \<longrightarrow> m' = 1)"
proof -
  note r = counted_retry [OF assms(1) [unfolded block_retry_loop_def BLOCK_RETRY_BUDGET_TRANSIENT_def BLOCK_RETRY_BUDGET_TIMEOUT_def]]
  have "cls' = cls \<and> m' = 0" if "\<not> block_io_should_retry cls"
    using assms(1) that by (simp add: block_retry_loop_def block_retry_from.simps)
  with r assms(2,3) show ?thesis
    by (auto simp: block_retry_loop_def BLOCK_RETRY_BUDGET_TRANSIENT_def BLOCK_RETRY_BUDGET_TIMEOUT_def block_io_should_retry_def)
qed

lemma counted_write_ex:
  assumes "block_device_write_ex (count_calls dev) b buf (c, 0, 0) = (cls, c', calls, resets)"
  shows "block_device_write_ex dev b buf c = (cls, c') \<and> calls \<le> 5 \<and> resets \<le> 1 \<and>
    (bd_block_count dev \<le> b \<longrightarrow> cls = BLOCK_IO_ERR_PERMANENT \<and> calls = 0) \<and>
    (cls = BLOCK_IO_ERR_TRANSIENT \<longrightarrow> 4 \<le> calls) \<and> (cls = BLOCK_IO_ERR_TIMEOUT \<longrightarrow> resets = 1)"
proof (cases "bd_block_count dev \<le> b")
  case True
  then show ?thesis using assms by (auto simp: block_device_write_ex_def)
next
  case False
  obtain cls1 c1 k1 m1 where f: "block_call_write (count_calls dev) b buf (c, 0, 0) = (cls1, c1, k1, m1)" by (metis prod_cases4)
  obtain cls2 buf2 c2 k2 m2 where l: "block_retry_loop (count_calls dev) cls1 True b buf (c1, k1, 0) = (cls2, buf2, c2, k2, m2)"
    by (metis prod_cases5)
  note cf = counted_first_write [OF f]
  have "(cls, c', calls, resets) = (cls2, c2, k2, m2)"
    using assms False cf l by (simp add: block_device_write_ex_def f)
  with counted_loop [OF l] cf False show ?thesis by (simp add: block_device_write_ex_def)
qed

lemma counted_read_ex:
  assumes "block_device_read_ex (count_calls dev) b buf (c, 0, 0) = (cls, buf', c', calls, resets)"
  shows "block_device_read_ex dev b buf c = (cls, buf', c') \<and> calls \<le> 5 \<and> resets \<le> 1 \<and>
    (bd_block_count dev \<le> b \<longrightarrow> cls = BLOCK_IO_ERR_PERMANENT \<and> calls = 0) \<and>
    (cls = BLOCK_IO_ERR_TRANSIENT \<longrightarrow> 4 \<le> calls) \<and> (cls = BLOCK_IO_ERR_TIMEOUT \<longrightarrow> resets = 1)"
proof (cases "bd_block_count dev \<le> b")
  case True
  then show ?thesis using assms by (auto simp: block_device_read_ex_def)
next
  case False
  obtain cls1 buf1 c1 k1 m1 where f: "block_call_read (count_calls dev) b buf (c, 0, 0) = (cls1, buf1, c1, k1, m1)" by (metis prod_cases5)
  note cf = counted_first_read [OF f]
  have l: "block_retry_loop (count_calls dev) cls1 False b buf1 (c1, k1, 0) = (cls, buf', c', calls, resets)"
    using assms False cf by (simp add: block_device_read_ex_def f)
  from counted_loop [OF l] cf False show ?thesis by (simp add: block_device_read_ex_def)
qed

subsection \<open>Properties\<close>

text \<open>
  C32. The wrappers turn disks into disks. If a device keeps the contract of a disk (blocks of the stated size,
  reads return what was written, blocks are independent, out-of-range requests fail without an effect), then
  so does its sub-range through \<^verbatim>\<open>block_offset_wrap\<close>, whose block \<open>i\<close> is block \<open>start + i\<close> below, and its view with
  larger blocks through \<^verbatim>\<open>block_chunked_wrap\<close>, whose block \<open>i\<close> is the concatenation of its sub-blocks, with
  all address arithmetic in 32 bits. The RAM disk is such a device.
\<close>

theorem wrappers_refine_disk:
  assumes "disk dev valid data"
  shows "(\<forall>d. block_offset_wrap ok dev start n = Some d \<longrightarrow> disk d valid (\<lambda>c i. data c (unat start + i))) \<and>
    (\<forall>d. block_chunked_wrap ok dev sz = Some d \<longrightarrow>
       disk d valid (\<lambda>c i. concat (map (\<lambda>j. data c (i * unat (sz div bd_block_size dev) + j)) [0..<unat (sz div bd_block_size dev)]))) \<and>
    (0 < m \<and> m \<le> RAMDISK_MAX_BLOCKS \<longrightarrow> disk (ramdisk_dev m) (ramdisk_ok m) ramdisk_data)"
  using disk.offset_disk [OF assms] disk.chunk_disk [OF assms] ramdisk_disk by blast

theorem wrappers_refine_disk_witness:
  "\<exists>d e. block_offset_wrap True (ramdisk_dev 8) 2 4 = Some d \<and> block_chunked_wrap True d 8192 = Some e \<and>
     bd_block_count e = 2 \<and>
     disk e (ramdisk_ok 8) (\<lambda>c i. concat (map (\<lambda>j. ramdisk_data c (2 + (i * 2 + j))) [0..<2]))"
proof -
  have r: "disk (ramdisk_dev 8) (ramdisk_ok 8) ramdisk_data" by (rule ramdisk_disk) (simp_all add: RAMDISK_MAX_BLOCKS_def)
  obtain d where d: "block_offset_wrap True (ramdisk_dev 8) 2 4 = Some d" "bd_block_size d = 4096" "bd_block_count d = 4"
    by (simp add: block_offset_wrap_def ramdisk_dev_def RAMDISK_BLOCK_SIZE_def)
  note dd = wrappers_refine_disk [OF r, THEN conjunct1, rule_format, OF d(1)]
  have q: "8192 div bd_block_size d = 2" "8192 mod bd_block_size d = 0" "4 div (2::u32) = 2" by (simp_all add: d(2))
  obtain e where e: "block_chunked_wrap True d 8192 = Some e" "bd_block_count e = 2"
    by (simp add: block_chunked_wrap_def q d(3) Let_def)
  from wrappers_refine_disk [OF dd, THEN conjunct2, THEN conjunct1, rule_format, OF e(1)] d e show ?thesis by (auto simp: q)
qed

text \<open>
  C33. Retrying is bounded and never hides an error class. For any driver, one request calls the driver at
  most five times and resets it at most once; an out-of-range request never reaches the driver; a
  request that ends as transient has been tried at least four times, one that ends as timed out was
  tried again after a reset; and counting the calls does not change the result.
\<close>

theorem retry_is_bounded:
  assumes "block_device_read_ex (count_calls dev) b buf (c, 0, 0) = (cls, buf', c', calls, resets)"
    and "block_device_write_ex (count_calls dev) b buf (c, 0, 0) = (wcls, wc', wcalls, wresets)"
  shows "block_device_read_ex dev b buf c = (cls, buf', c') \<and> block_device_write_ex dev b buf c = (wcls, wc') \<and>
    calls \<le> 5 \<and> resets \<le> 1 \<and> wcalls \<le> 5 \<and> wresets \<le> 1 \<and>
    (bd_block_count dev \<le> b \<longrightarrow> cls = BLOCK_IO_ERR_PERMANENT \<and> calls = 0 \<and> wcls = BLOCK_IO_ERR_PERMANENT \<and> wcalls = 0) \<and>
    (cls = BLOCK_IO_ERR_TRANSIENT \<longrightarrow> 4 \<le> calls) \<and> (cls = BLOCK_IO_ERR_TIMEOUT \<longrightarrow> resets = 1) \<and>
    (wcls = BLOCK_IO_ERR_TRANSIENT \<longrightarrow> 4 \<le> wcalls) \<and> (wcls = BLOCK_IO_ERR_TIMEOUT \<longrightarrow> wresets = 1)"
  using counted_read_ex [OF assms(1)] counted_write_ex [OF assms(2)] by blast

text \<open>A driver whose answers are scripted.\<close>

definition scripted :: "block_io_error_class list block_device" where
  "scripted =
     \<lparr>bd_name = ''scripted'', bd_block_size = 1, bd_block_count = 4,
      bd_ops = \<lparr>op_read_block = None, op_write_block = None,
        op_read_block_ex = Some (\<lambda>b buf c. (hd c, buf, tl c)), op_write_block_ex = Some (\<lambda>b buf c. (hd c, tl c)),
        op_reset = Some (\<lambda>c. (0, c)), op_flush = None, op_flush_ex = None\<rparr>\<rparr>"

theorem retry_is_bounded_witness:
  "\<exists>calls resets. block_device_read_ex (count_calls scripted) 1 [7]
       ([BLOCK_IO_ERR_TRANSIENT, BLOCK_IO_ERR_TIMEOUT, BLOCK_IO_OK], 0, 0) = (BLOCK_IO_OK, [7], [], calls, resets) \<and>
     calls = 3 \<and> calls \<le> 5 \<and> resets = 1"
proof -
  let ?c = "[BLOCK_IO_ERR_TRANSIENT, BLOCK_IO_ERR_TIMEOUT, BLOCK_IO_OK]"
  have r: "block_device_read_ex (count_calls scripted) 1 [7] (?c, 0, 0) = (BLOCK_IO_OK, [7], [], 3, 1)"
    by (simp add: block_device_read_ex_def count_calls_def scripted_def block_call_read_def block_retry_loop_def
        block_retry_from.simps block_io_should_retry_def block_attempt_def BLOCK_RETRY_BUDGET_TRANSIENT_def
        BLOCK_RETRY_BUDGET_TIMEOUT_def word_le_nat_alt)
  have w: "block_device_write_ex (count_calls scripted) 1 [7] (?c, 0, 0) = (BLOCK_IO_OK, [], 3, 1)"
    by (simp add: block_device_write_ex_def count_calls_def scripted_def block_call_write_def block_retry_loop_def
        block_retry_from.simps block_io_should_retry_def block_attempt_def BLOCK_RETRY_BUDGET_TRANSIENT_def
        BLOCK_RETRY_BUDGET_TIMEOUT_def word_le_nat_alt)
  from retry_is_bounded [OF r w] r show ?thesis by simp
qed

end
