(* ===== verification/BufferCoherent.thy ===== *)
theory BufferCoherent
  imports BufferLinks Disk
begin

text \<open>
  The block cache is transparent: over devices that behave as disks, the cached view of a block is what its clients last
  wrote, whatever is evicted, written back or read ahead in between, and a sync makes the disk agree with that view.
\<close>

type_synonym contents = "u64 \<Rightarrow> nat \<Rightarrow> u8 list"

text \<open>The devices of a system, over one driver state. The addresses in \<open>live\<close> are mounted devices with the block size of the cache.\<close>

locale disks =
  fixes devs :: "'c devices"
    and live :: "u64 set"
    and inv :: "'c \<Rightarrow> bool"
    and data :: "'c \<Rightarrow> contents"
  assumes live_dev: "d \<in> live \<Longrightarrow> d \<noteq> 0 \<and> bd_block_size (devs d) = BUFFER_BLOCK_SIZE"
    and dev_length: "inv c \<Longrightarrow> d \<in> live \<Longrightarrow> i < unat (bd_block_count (devs d)) \<Longrightarrow> length (data c d i) = unat BUFFER_BLOCK_SIZE"
    and dev_read: "inv c \<Longrightarrow> d \<in> live \<Longrightarrow> unat b < unat (bd_block_count (devs d)) \<Longrightarrow> length buf = unat BUFFER_BLOCK_SIZE \<Longrightarrow>
      \<exists>c'. block_device_read (devs d) b buf c = (0, data c d (unat b), c') \<and> inv c' \<and> data c' = data c"
    and dev_write: "inv c \<Longrightarrow> d \<in> live \<Longrightarrow> unat b < unat (bd_block_count (devs d)) \<Longrightarrow> length buf = unat BUFFER_BLOCK_SIZE \<Longrightarrow>
      \<exists>c'. block_device_write (devs d) b buf c = (0, c') \<and> inv c' \<and> data c' = (data c)(d := (data c d)(unat b := buf))"
    and dev_range: "d \<in> live \<Longrightarrow> unat (bd_block_count (devs d)) \<le> unat b \<Longrightarrow> block_device_read (devs d) b buf c = (-1, buf, c)"

text \<open>One disk at one address.\<close>

context disk
begin

lemma single_disks:
  assumes "p \<noteq> 0" and "bd_block_size dev = BUFFER_BLOCK_SIZE"
  shows "disks (\<lambda>_. dev) {p} inv (\<lambda>c d. if d = p then data c else (\<lambda>_. []))"
proof
  fix c d b buf
  show "d \<in> {p} \<Longrightarrow> d \<noteq> 0 \<and> bd_block_size dev = BUFFER_BLOCK_SIZE" using assms by simp
  show "inv c \<Longrightarrow> d \<in> {p} \<Longrightarrow> i < unat (bd_block_count dev) \<Longrightarrow>
      length ((if d = p then data c else (\<lambda>_. [])) i) = unat BUFFER_BLOCK_SIZE" for i
    using disk_length [of c i] assms(2) by simp
  show "d \<in> {p} \<Longrightarrow> unat (bd_block_count dev) \<le> unat b \<Longrightarrow> block_device_read dev b buf c = (-1, buf, c)"
    using disk_range by blast
  assume a: "inv c" "d \<in> {p}" "unat b < unat (bd_block_count dev)" "length buf = unat BUFFER_BLOCK_SIZE"
  have len: "length buf = unat (bd_block_size dev)" using a(4) assms(2) by simp
  show "\<exists>c'. block_device_read dev b buf c = (0, (if d = p then data c else (\<lambda>_. [])) (unat b), c') \<and> inv c' \<and>
      (\<lambda>d. if d = p then data c' else (\<lambda>_. [])) = (\<lambda>d. if d = p then data c else (\<lambda>_. []))"
    using disk_read [OF a(1,3) len] a(2) by (auto simp: fun_eq_iff)
  obtain c' where "block_device_write dev b buf c = (0, c')" "inv c'" "data c' = (data c)(unat b := buf)"
    using disk_write [OF a(1,3) len] by blast
  then show "\<exists>c'. block_device_write dev b buf c = (0, c') \<and> inv c' \<and>
      (\<lambda>d. if d = p then data c' else (\<lambda>_. [])) =
      (\<lambda>d. if d = p then data c else (\<lambda>_. []))(d := ((if d = p then data c else (\<lambda>_. [])))(unat b := buf))"
    using a(2) by (auto simp: fun_eq_iff)
qed

end

interpretation ramc: disks "\<lambda>_. ramdisk_dev RAMDISK_MAX_BLOCKS" "{1}" "ramdisk_ok RAMDISK_MAX_BLOCKS"
  "\<lambda>c d. if d = 1 then ramdisk_data c else (\<lambda>_. [])"
  by (rule ram.single_disks) (simp_all add: ramdisk_dev_def RAMDISK_BLOCK_SIZE_def BUFFER_BLOCK_SIZE_def)

subsection \<open>Coherence\<close>

abbreviation bh :: "bcache \<Rightarrow> nat \<Rightarrow> buffer_head" where
  "bh s i \<equiv> buffer_cache s i"

definition holds_key :: "bcache \<Rightarrow> nat \<Rightarrow> u64 \<Rightarrow> nat \<Rightarrow> bool" where
  "holds_key s i d b \<longleftrightarrow> i < BUFFER_CACHE_MAX \<and> bh_valid (bh s i) \<and> bh_dev (bh s i) = d \<and> unat (bh_block_no (bh s i)) = b"

text \<open>The links are well formed: \<open>U\<close> is the list in order of use, \<open>H\<close> the hashed buffers.\<close>

definition linked :: "bcache \<Rightarrow> nat set \<Rightarrow> nat set \<Rightarrow> bool" where
  "linked s U H \<longleftrightarrow> (\<exists>xs. lru_list s xs \<and> set xs = U) \<and> (\<exists>C. hash_chains s H C)"

definition unpinned :: "bcache \<Rightarrow> nat set" where
  "unpinned s = {i. i < BUFFER_CACHE_MAX \<and> bh_refcount (bh s i) = 0}"

definition valid_bufs :: "bcache \<Rightarrow> nat set" where
  "valid_bufs s = {i. i < BUFFER_CACHE_MAX \<and> bh_valid (bh s i)}"

definition unique_keys :: "bcache \<Rightarrow> bool" where
  "unique_keys s \<longleftrightarrow> (\<forall>i j d b. holds_key s i d b \<longrightarrow> holds_key s j d b \<longrightarrow> i = j)"

context disks
begin

abbreviation on_device :: "u64 \<Rightarrow> nat \<Rightarrow> bool" where
  "on_device d b \<equiv> d \<in> live \<and> b < unat (bd_block_count (devs d))"

text \<open>The buffers, the devices and the contents \<open>L\<close> that clients see agree.\<close>

definition agree :: "bcache \<Rightarrow> 'c \<Rightarrow> contents \<Rightarrow> bool" where
  "agree s c L \<longleftrightarrow> cache_initialized s \<and> inv c \<and> unique_keys s \<and>
     (\<forall>i<BUFFER_CACHE_MAX. (bh_valid (bh s i) \<longleftrightarrow> bh_dev (bh s i) \<noteq> 0) \<and> length (bh_data (bh s i)) = unat BUFFER_BLOCK_SIZE) \<and>
     (\<forall>i d b. holds_key s i d b \<longrightarrow> on_device d b \<and> bh_data (bh s i) = L d b) \<and>
     (\<forall>d b. on_device d b \<longrightarrow> (\<nexists>i. holds_key s i d b \<and> bh_dirty (bh s i)) \<longrightarrow> data c d b = L d b)"

definition coherent :: "bcache \<Rightarrow> 'c \<Rightarrow> contents \<Rightarrow> bool" where
  "coherent s c L \<longleftrightarrow> agree s c L \<and> linked s (unpinned s) (valid_bufs s)"

end

lemma core_views:
  assumes "same_core s s'"
  shows "holds_key s' = holds_key s" "unpinned s' = unpinned s" "valid_bufs s' = valid_bufs s" "unique_keys s' = unique_keys s"
  using same_coreD [OF assms] by (auto simp: fun_eq_iff holds_key_def unpinned_def valid_bufs_def unique_keys_def)

lemma linked_same:
  assumes "linked s U H" and "same_core s s'" and "same_lru s s'" and "same_hash s s'"
  shows "linked s' U H"
  using assms lru_list_same hash_chains_same hash_of_same unfolding linked_def by metis

text \<open>A change to the buffers that keeps the links and the keys of the hashed buffers.\<close>

lemma linked_upd:
  assumes "linked s U H" and "\<And>b. bh_lru_next (f b) = bh_lru_next b" and "\<And>b. bh_lru_prev (f b) = bh_lru_prev b"
    and "\<And>b. bh_hash_next (f b) = bh_hash_next b"
    and "i \<in> H \<Longrightarrow> bh_dev (f (bh s i)) = bh_dev (bh s i) \<and> bh_block_no (f (bh s i)) = bh_block_no (bh s i)"
  shows "linked (upd_bh i f s) U H"
proof -
  have "same_lru s (upd_bh i f s)" "same_hash s (upd_bh i f s)" using assms(2-4) by (auto simp: same_defs fun_eq_iff)
  moreover have "hash_of (upd_bh i f s) k = hash_of s k" if "k \<in> H" for k using assms(5) that by (auto simp: hash_of_def)
  ultimately show ?thesis using assms(1) lru_list_same hash_chains_same unfolding linked_def by metis
qed

lemma linked_lru_remove: "linked s U H \<Longrightarrow> i \<in> U \<Longrightarrow> linked (lru_remove i s) (U - {i}) H"
  using lru_remove_list hash_chains_same [OF _ lru_remove_frame(2)] hash_of_same [OF lru_remove_frame(1)] unfolding linked_def by metis

lemma linked_lru_insert:
  assumes "linked s U H" and "i \<notin> U" and "i < BUFFER_CACHE_MAX"
  shows "linked (lru_insert_front i s) (insert i U) H"
proof -
  obtain xs C where x: "lru_list s xs" "set xs = U" "hash_chains s H C" using assms(1) by (auto simp: linked_def)
  have "lru_list (lru_insert_front i s) (i # xs)" using lru_insert_list [OF x(1)] assms(2,3) x(2) by simp
  moreover have "hash_chains (lru_insert_front i s) H C"
    using hash_chains_same [OF x(3) lru_insert_frame(2)] hash_of_same [OF lru_insert_frame(1)] by blast
  ultimately show ?thesis using x(2) unfolding linked_def by (metis list.simps(15))
qed

lemma linked_hash_remove: "linked s U H \<Longrightarrow> linked (hash_remove i s) U (H - {i})"
proof -
  assume l: "linked s U H"
  then obtain xs C where x: "lru_list s xs" "set xs = U" "hash_chains s H C" by (auto simp: linked_def)
  have "lru_list (hash_remove i s) xs" by (rule lru_list_same [OF x(1) hash_remove_frame(2)])
  moreover have "\<exists>C'. hash_chains (hash_remove i s) (H - {i}) C'"
    using hash_remove_chains [OF x(3), of i] hash_remove_absent [OF x(3), of i] x(3) by (cases "i \<in> H") auto
  ultimately show ?thesis using x(2) unfolding linked_def by blast
qed

lemma linked_hash_insert:
  assumes "linked s U H" and "i \<notin> H" and "i < BUFFER_CACHE_MAX"
  shows "linked (hash_insert i s) U (insert i H)"
  using assms hash_insert_chains [OF _ assms(2,3)] lru_list_same [OF _ hash_insert_frame(2)] unfolding linked_def by metis

text \<open>Pinned buffers keep their block and contents.\<close>

definition keeps_pinned :: "bcache \<Rightarrow> bcache \<Rightarrow> bool" where
  "keeps_pinned s s' \<longleftrightarrow> (\<forall>k<BUFFER_CACHE_MAX. bh_refcount (bh s k) \<noteq> 0 \<longrightarrow>
     bh_dev (bh s' k) = bh_dev (bh s k) \<and> bh_block_no (bh s' k) = bh_block_no (bh s k) \<and> bh_data (bh s' k) = bh_data (bh s k) \<and>
     bh_valid (bh s' k) = bh_valid (bh s k))"

text \<open>No buffer is pinned as often as its counter can count.\<close>

definition pins_left :: "bcache \<Rightarrow> bool" where
  "pins_left s \<longleftrightarrow> (\<forall>i<BUFFER_CACHE_MAX. bh_refcount (bh s i) \<noteq> -1)"

text \<open>A step that at most clears dirty marks.\<close>

definition cleaned :: "bcache \<Rightarrow> bcache \<Rightarrow> bool" where
  "cleaned s s' \<longleftrightarrow> same_lru s s' \<and> same_hash s s' \<and> cache_initialized s' = cache_initialized s \<and>
     (\<forall>k. \<exists>x. bh s' k = (bh s k)\<lparr>bh_dirty := x\<rparr> \<and> (x \<longrightarrow> bh_dirty (bh s k)))"

lemma dirty_self [simp]: "\<exists>x. b = b\<lparr>bh_dirty := x\<rparr> \<and> (x \<longrightarrow> bh_dirty b)"
  by (rule exI [of _ "bh_dirty b"]) simp

lemma cleaned_refl [simp]: "cleaned s s"
  by (simp add: cleaned_def same_defs)

lemma cleanedD:
  assumes "cleaned s s'"
  shows "bh_dev (bh s' i) = bh_dev (bh s i)" "bh_block_no (bh s' i) = bh_block_no (bh s i)"
    "bh_data (bh s' i) = bh_data (bh s i)" "bh_dirty (bh s' i) \<Longrightarrow> bh_dirty (bh s i)"
    "bh_valid (bh s' i) = bh_valid (bh s i)" "bh_refcount (bh s' i) = bh_refcount (bh s i)"
    "cache_initialized s' = cache_initialized s"
proof -
  obtain x where "bh s' i = (bh s i)\<lparr>bh_dirty := x\<rparr>" "x \<longrightarrow> bh_dirty (bh s i)" using assms by (auto simp: cleaned_def)
  then show "bh_dev (bh s' i) = bh_dev (bh s i)" "bh_block_no (bh s' i) = bh_block_no (bh s i)"
    "bh_data (bh s' i) = bh_data (bh s i)" "bh_dirty (bh s' i) \<Longrightarrow> bh_dirty (bh s i)"
    "bh_valid (bh s' i) = bh_valid (bh s i)" "bh_refcount (bh s' i) = bh_refcount (bh s i)" by simp_all
  show "cache_initialized s' = cache_initialized s" using assms by (simp add: cleaned_def)
qed

lemma cleaned_trans: "cleaned a b \<Longrightarrow> cleaned b d \<Longrightarrow> cleaned a d"
proof -
  assume a: "cleaned a b" and b: "cleaned b d"
  have "\<exists>x. bh d k = (bh a k)\<lparr>bh_dirty := x\<rparr> \<and> (x \<longrightarrow> bh_dirty (bh a k))" for k
  proof -
    obtain x y where "bh b k = (bh a k)\<lparr>bh_dirty := x\<rparr>" "x \<longrightarrow> bh_dirty (bh a k)" "bh d k = (bh b k)\<lparr>bh_dirty := y\<rparr>" "y \<longrightarrow> bh_dirty (bh b k)"
      using a b unfolding cleaned_def by blast
    then show ?thesis by (intro exI [of _ y]) simp
  qed
  then show "cleaned a d" using a b same_trans(2,3) unfolding cleaned_def by metis
qed

lemma cleaned_views:
  assumes "cleaned s s'"
  shows "holds_key s' = holds_key s" "unpinned s' = unpinned s" "valid_bufs s' = valid_bufs s" "unique_keys s' = unique_keys s"
  using cleanedD(1,2,5,6) [OF assms] by (auto simp: fun_eq_iff holds_key_def unpinned_def valid_bufs_def unique_keys_def)

lemma cleaned_linked: "linked s U H \<Longrightarrow> cleaned s s' \<Longrightarrow> linked s' U H"
proof -
  assume l: "linked s U H" and c: "cleaned s s'"
  have "hash_of s' i = hash_of s i" for i using cleanedD(1,2) [OF c] by (simp add: hash_of_def)
  then show ?thesis using l c lru_list_same hash_chains_same unfolding linked_def cleaned_def by metis
qed

lemma cleaned_one: "cleaned s (upd_bstats g (upd_bh i (\<lambda>b. b\<lparr>bh_dirty := False\<rparr>) s))" "cleaned s (upd_bstats g s)"
  by (auto simp: cleaned_def same_defs fun_eq_iff intro: exI [of _ False])

context disks
begin

lemma agree_same: "same_core s s' \<Longrightarrow> agree s' c L = agree s c L"
  using same_coreD [of s s'] core_views [of s s'] by (simp add: agree_def)

lemma agreeD:
  assumes "agree s c L"
  shows "inv c" "cache_initialized s" "unique_keys s"
    "i < BUFFER_CACHE_MAX \<Longrightarrow> (bh_valid (bh s i) \<longleftrightarrow> bh_dev (bh s i) \<noteq> 0) \<and> length (bh_data (bh s i)) = unat BUFFER_BLOCK_SIZE"
    "holds_key s i d b \<Longrightarrow> on_device d b \<and> bh_data (bh s i) = L d b"
    "on_device d b \<Longrightarrow> \<nexists>i. holds_key s i d b \<and> bh_dirty (bh s i) \<Longrightarrow> data c d b = L d b"
  using assms unfolding agree_def by blast+

lemma write_back_ok:
  assumes "agree s c L" and "i < BUFFER_CACHE_MAX"
  shows "\<exists>s' c'. buffer_write_back devs i s c = (0, s', c') \<and> agree s' c' L \<and> cleaned s s' \<and> \<not> (bh_valid (bh s' i) \<and> bh_dirty (bh s' i))"
proof (cases "bh_dev (bh s i) = 0 \<or> \<not> bh_dirty (bh s i) \<or> \<not> bh_valid (bh s i)")
  case True
  then have "\<not> (bh_valid (bh s i) \<and> bh_dirty (bh s i))" using agreeD(4) [OF assms] by auto
  then show ?thesis using assms True by (simp add: buffer_write_back_def Let_def)
next
  case False
  let ?d = "bh_dev (bh s i)" and ?b = "unat (bh_block_no (bh s i))"
  have key: "holds_key s i ?d ?b" using False assms(2) by (simp add: holds_key_def)
  note on = agreeD(5) [OF assms(1) key]
  obtain c' where c': "block_device_write (devs ?d) (bh_block_no (bh s i)) (bh_data (bh s i)) c = (0, c')" "inv c'"
      "data c' = (data c)(?d := (data c ?d)(?b := bh_data (bh s i)))"
    using dev_write [OF agreeD(1) [OF assms(1)]] on agreeD(4) [OF assms] by blast
  define s' where "s' = upd_bstats (\<lambda>t. t\<lparr>bs_writebacks := bs_writebacks t + 1\<rparr>) (upd_bh i (\<lambda>b. b\<lparr>bh_dirty := False\<rparr>) s)"
  have cl: "cleaned s s'" unfolding s'_def by (rule cleaned_one)
  note v = cleaned_views [OF cl] and fd = cleanedD [OF cl]
  have "data c' d b = L d b" if o: "on_device d b" and n: "\<nexists>k. holds_key s k d b \<and> bh_dirty (bh s' k)" for d b
  proof (cases "d = ?d \<and> b = ?b")
    case True
    then show ?thesis using c'(3) on by simp
  next
    case False
    have "bh_dirty (bh s' k)" if "holds_key s k d b" "bh_dirty (bh s k)" for k
      using that False by (auto simp: s'_def holds_key_def)
    then have "data c d b = L d b" using agreeD(6) [OF assms(1) o] n by blast
    then show ?thesis using False c'(3) by auto
  qed
  then have "agree s' c' L" using assms(1) c'(2) unfolding agree_def v fd by blast
  moreover have "buffer_write_back devs i s c = (0, s', c')" using False c'(1) by (simp add: buffer_write_back_def Let_def s'_def)
  ultimately show ?thesis using cl by (auto simp: s'_def)
qed

text \<open>A buffer that is not dirty can be forgotten.\<close>

lemma forget_ok:
  assumes "agree s c L" and "\<not> (bh_valid (bh s i) \<and> bh_dirty (bh s i))" and "i < BUFFER_CACHE_MAX"
    and "s' = upd_bh i (\<lambda>b. b\<lparr>bh_dev := 0, bh_block_no := n, bh_dirty := False, bh_valid := False\<rparr>) s"
  shows "agree s' c L"
proof -
  have k: "holds_key s' k d b \<longleftrightarrow> holds_key s k d b \<and> k \<noteq> i" for k d b unfolding assms(4) by (auto simp: holds_key_def)
  have o: "bh s' k = bh s k" if "k \<noteq> i" for k using that by (simp add: assms(4))
  have "data c d b = L d b" if "on_device d b" "\<nexists>k. holds_key s' k d b \<and> bh_dirty (bh s' k)" for d b
    using agreeD(6) [OF assms(1) that(1)] that(2) assms(2) k o unfolding holds_key_def by metis
  moreover have "unique_keys s'" using agreeD(3) [OF assms(1)] k unfolding unique_keys_def by blast
  moreover have "(bh_valid (bh s' k) \<longleftrightarrow> bh_dev (bh s' k) \<noteq> 0) \<and> length (bh_data (bh s' k)) = unat BUFFER_BLOCK_SIZE"
    if "k < BUFFER_CACHE_MAX" for k
    using agreeD(4) [OF assms(1) that] by (cases "k = i") (simp_all add: assms(4))
  moreover have "cache_initialized s'" using agreeD(2) [OF assms(1)] by (simp add: assms(4))
  moreover have "bh_data (bh s' k) = bh_data (bh s k)" for k by (simp add: assms(4))
  ultimately show ?thesis using agreeD(1,5) [OF assms(1)] k unfolding agree_def by metis
qed

lemma oldest_unpinned:
  assumes "linked s (unpinned s) H"
  shows "find (\<lambda>i. bh_refcount (bh s i) = 0) (follow (lru_pv s) BUFFER_CACHE_MAX (lru_tail s)) = None \<and> unpinned s = {} \<or>
    (\<exists>i. find (\<lambda>i. bh_refcount (bh s i) = 0) (follow (lru_pv s) BUFFER_CACHE_MAX (lru_tail s)) = Some i \<and> i \<in> unpinned s)"
proof -
  obtain xs where xs: "lru_list s xs" "set xs = unpinned s" using assms by (auto simp: linked_def)
  show ?thesis
  proof (cases "rev xs")
    case (Cons y ys)
    then have "y \<in> unpinned s" using xs(2) by (metis list.set_intros(1) set_rev)
    then show ?thesis unfolding lru_oldest [OF xs(1)] Cons by (simp add: unpinned_def)
  qed (use xs(2) lru_oldest [OF xs(1)] in simp)
qed

lemma evict_ok:
  assumes "coherent s c L"
  shows "buffer_evict devs s c = (None, s, c) \<and> unpinned s = {} \<or>
    (\<exists>i s' c'. buffer_evict devs s c = (Some i, s', c') \<and> i \<in> unpinned s \<and> agree s' c' L \<and>
       linked s' (unpinned s - {i}) (valid_bufs s - {i}) \<and> bh_dev (bh s' i) = 0 \<and> \<not> bh_valid (bh s' i) \<and> \<not> bh_dirty (bh s' i) \<and> bh_refcount (bh s' i) = 0 \<and>
       (\<forall>k. k \<noteq> i \<longrightarrow> core s' k = core s k))"
proof -
  have a: "agree s c L" and l: "linked s (unpinned s) (valid_bufs s)" using assms by (simp_all add: coherent_def)
  from oldest_unpinned [OF l] show ?thesis
  proof (elim disjE exE conjE, goal_cases none some)
    case none
    then show ?case by (simp add: buffer_evict_def)
  next
    case (some i)
    note 2 = some
    define s1 where "s1 = lru_remove i s"
    have i: "i < BUFFER_CACHE_MAX" using 2(2) by (simp add: unpinned_def)
    have sc1: "same_core s s1" unfolding s1_def by (rule lru_remove_frame)
    have a1: "agree s1 c L" using a agree_same [OF sc1] by simp
    have l1: "linked s1 (unpinned s - {i}) (valid_bufs s)" unfolding s1_def by (rule linked_lru_remove [OF l 2(2)])
    obtain s2 c1 where w: "(if bh_dirty (bh s1 i) \<and> bh_valid (bh s1 i) then snd (buffer_write_back devs i s1 c) else (s1, c)) = (s2, c1)"
        "agree s2 c1 L" "cleaned s1 s2" "\<not> (bh_valid (bh s2 i) \<and> bh_dirty (bh s2 i))"
      using write_back_ok [OF a1 i] a1 by (cases "bh_dirty (bh s1 i) \<and> bh_valid (bh s1 i)") auto
    define s3 where "s3 = (if bh_valid (bh s2 i) \<or> bh_dev (bh s2 i) \<noteq> 0
      then upd_bstats (\<lambda>t. t\<lparr>bs_evictions := bs_evictions t + 1\<rparr>) s2 else s2)"
    have c3: "cleaned s1 s3" using w(3) cleaned_trans [OF w(3) cleaned_one(2)] by (simp add: s3_def)
    have b3: "bh s3 = bh s2" by (simp add: s3_def)
    have sc3: "same_core s2 s3" using upd_bstats_same(1) by (simp add: s3_def same_core_def)
    define s4 where "s4 = hash_remove i s3"
    have sc4: "same_core s3 s4" unfolding s4_def by (rule hash_remove_frame)
    have a4: "agree s4 c1 L" using w(2) agree_same [OF sc3] agree_same [OF sc4] by simp
    have l4: "linked s4 (unpinned s - {i}) (valid_bufs s - {i})"
      unfolding s4_def by (rule linked_hash_remove [OF cleaned_linked [OF l1 c3]])
    have nd: "\<not> (bh_valid (bh s4 i) \<and> bh_dirty (bh s4 i))" using w(4) same_coreD(4,5) [OF sc4] by (simp add: b3)
    define s5 where "s5 = upd_bh i (\<lambda>b. b\<lparr>bh_dev := 0, bh_block_no := 0, bh_dirty := False, bh_valid := False\<rparr>) s4"
    have ev: "buffer_evict devs s c = (Some i, s5, c1)"
      unfolding buffer_evict_def 2(1) option.case Let_def s1_def [symmetric] w(1) prod.case s3_def [symmetric] s4_def [symmetric] s5_def ..
    have a5: "agree s5 c1 L" by (rule forget_ok [OF a4 nd i s5_def])
    have l5: "linked s5 (unpinned s - {i}) (valid_bufs s - {i})" unfolding s5_def by (rule linked_upd [OF l4]) simp_all
    have rc: "bh_refcount (bh s5 i) = 0"
      using 2(2) same_coreD(6) [OF sc1] cleanedD(6) [OF c3] same_coreD(6) [OF sc4] by (simp add: s5_def unpinned_def)
    have "core s5 k = core s k" if "k \<noteq> i" for k
    proof -
      have "bh s3 k = bh s1 k"
        using that w(1) by (auto simp: b3 buffer_write_back_def Let_def split: if_splits prod.splits)
      then have "core s3 k = core s1 k" by (simp add: core_def)
      moreover have "core s5 k = core s4 k" using that by (simp add: s5_def core_def)
      ultimately show ?thesis using sc1 sc4 by (simp add: same_core_def)
    qed
    then show ?case using ev 2(2) a5 l5 rc by (auto simp: s5_def)
  qed
qed

lemma coherent_lookup:
  assumes "coherent s c L"
  shows "hash_lookup d b s = Some i \<longleftrightarrow> holds_key s i d (unat b)"
proof -
  obtain C where "hash_chains s (valid_bufs s) C" using assms by (auto simp: coherent_def linked_def)
  moreover have "i = j" if "i \<in> valid_bufs s" "j \<in> valid_bufs s" "bh_dev (bh s i) = bh_dev (bh s j)" "bh_block_no (bh s i) = bh_block_no (bh s j)" for i j
    using agreeD(3) [of s c L] assms that by (auto simp: coherent_def unique_keys_def holds_key_def valid_bufs_def)
  ultimately show ?thesis
    by (subst hash_lookup_iff) (auto simp: holds_key_def valid_bufs_def unsigned_word_eqI)
qed

lemma agree_refcount: "agree (upd_bh i (\<lambda>b. b\<lparr>bh_refcount := f b\<rparr>) s) c L = agree s c L"
proof -
  let ?s = "upd_bh i (\<lambda>b. b\<lparr>bh_refcount := f b\<rparr>) s"
  have "holds_key ?s = holds_key s" by (auto simp: fun_eq_iff holds_key_def)
  moreover have "bh_data (bh ?s k) = bh_data (bh s k)" "bh_valid (bh ?s k) = bh_valid (bh s k)" "bh_dev (bh ?s k) = bh_dev (bh s k)"
    "bh_dirty (bh ?s k) = bh_dirty (bh s k)" for k by simp_all
  ultimately show ?thesis unfolding agree_def unique_keys_def upd_bh_sel(5) by simp
qed

lemma pinned_more:
  assumes "linked s (unpinned s) H" and "bh_refcount (bh s i) \<noteq> -1" and "i < BUFFER_CACHE_MAX"
    and "s2 = (if bh_refcount (bh s i) = 0 then lru_remove i s else s)"
    and "s3 = upd_bh i (\<lambda>b. b\<lparr>bh_refcount := bh_refcount b + 1\<rparr>) s2"
  shows "linked s3 (unpinned s3) H" and "same_core s s2"
proof -
  show sc: "same_core s s2" using lru_remove_frame(1) by (simp add: assms(4) same_core_def)
  have "linked s2 (unpinned s - {i}) H"
    using linked_lru_remove [OF assms(1), of i] assms(1,3) by (auto simp: assms(4) unpinned_def)
  then have "linked s3 (unpinned s - {i}) H" unfolding assms(5) by (rule linked_upd) simp_all
  moreover have "bh_refcount (bh s i) + 1 \<noteq> 0" using assms(2) by (simp add: eq_neg_iff_add_eq_0)
  then have "unpinned s3 = unpinned s - {i}" using same_coreD(6) [OF sc] by (auto simp: unpinned_def assms(5))
  ultimately show "linked s3 (unpinned s3) H" by simp
qed

lemma get_hit:
  assumes "coherent s c L" and "d \<in> live" and "hash_lookup d b s = Some i" and "bh_refcount (bh s i) \<noteq> -1"
  shows "\<exists>s'. buffer_get devs d b s c = (Some i, s', c) \<and> coherent s' c L \<and> keeps_pinned s s' \<and> holds_key s' i d (unat b) \<and>
    (\<forall>k. bh_refcount (bh s' k) = bh_refcount (bh s k) + (if k = i then 1 else 0))"
proof -
  have a: "agree s c L" and l: "linked s (unpinned s) (valid_bufs s)" using assms(1) by (simp_all add: coherent_def)
  have key: "holds_key s i d (unat b)" using coherent_lookup [OF assms(1)] assms(3) by simp
  then have i: "i < BUFFER_CACHE_MAX" by (simp add: holds_key_def)
  define s1 where "s1 = upd_bstats (\<lambda>t. t\<lparr>bs_hits := bs_hits t + 1\<rparr>) s"
  have b1: "bh s1 = bh s" and u1: "unpinned s1 = unpinned s" "valid_bufs s1 = valid_bufs s" by (simp_all add: s1_def unpinned_def valid_bufs_def)
  have sc1: "same_core s s1" and l1: "linked s1 (unpinned s1) (valid_bufs s)"
    using linked_same [OF l upd_bstats_same] upd_bstats_same(1) u1 by (simp_all add: s1_def)
  define s2 where "s2 = (if bh_refcount (bh s1 i) = 0 then lru_remove i s1 else s1)"
  define s3 where "s3 = upd_bh i (\<lambda>b. b\<lparr>bh_refcount := bh_refcount b + 1\<rparr>) s2"
  have l3: "linked s3 (unpinned s3) (valid_bufs s)" and sc2: "same_core s1 s2"
    using pinned_more [OF l1 _ i s2_def s3_def] assms(4) by (simp_all add: b1)
  note sc = same_trans(1) [OF sc1 sc2]
  have "agree s3 c L" unfolding s3_def agree_refcount agree_same [OF sc] by (rule a)
  moreover have f: "bh_dev (bh s3 k) = bh_dev (bh s k)" "bh_block_no (bh s3 k) = bh_block_no (bh s k)"
    "bh_data (bh s3 k) = bh_data (bh s k)" "bh_valid (bh s3 k) = bh_valid (bh s k)" for k
    using same_coreD [OF sc] by (simp_all add: s3_def)
  moreover have "valid_bufs s3 = valid_bufs s" by (simp add: valid_bufs_def f)
  moreover have "bh_refcount (bh s3 k) = bh_refcount (bh s k) + (if k = i then 1 else 0)" for k
    using same_coreD(6) [OF sc] by (simp add: s3_def)
  moreover have "buffer_get devs d b s c = (Some i, s3, c)"
    using agreeD(2) [OF a] live_dev [OF assms(2)] assms(3)
    by (simp add: buffer_get_def buffer_cache_init_def Let_def s1_def [symmetric] s2_def [symmetric] s3_def [symmetric])
  ultimately show ?thesis using l3 key by (auto simp: coherent_def keeps_pinned_def holds_key_def)
qed

lemma agree_add:
  assumes "agree s c L" and "\<not> bh_valid (bh s i)" and "\<And>k. \<not> holds_key s k d (unat b)" and "on_device d (unat b)"
    and "s' = upd_bh i (\<lambda>h. h\<lparr>bh_dev := d, bh_block_no := b, bh_refcount := r, bh_data := data c d (unat b), bh_valid := True, bh_dirty := False\<rparr>) s"
    and "i < BUFFER_CACHE_MAX"
  shows "agree s' c L" and "holds_key s' i d (unat b)"
proof -
  have lv: "data c d (unat b) = L d (unat b)" using agreeD(6) [OF assms(1,4)] assms(3) by blast
  have k: "holds_key s' k x y \<longleftrightarrow> holds_key s k x y \<or> k = i \<and> x = d \<and> y = unat b" for k x y
    using assms(2,6) by (auto simp: assms(5) holds_key_def)
  then show "holds_key s' i d (unat b)" by simp
  have o: "bh s' k = bh s k" if "k \<noteq> i" for k using that by (simp add: assms(5))
  have "unique_keys s'" using agreeD(3) [OF assms(1)] k assms(3) unfolding unique_keys_def by metis
  moreover have "(bh_valid (bh s' k) \<longleftrightarrow> bh_dev (bh s' k) \<noteq> 0) \<and> length (bh_data (bh s' k)) = unat BUFFER_BLOCK_SIZE"
    if "k < BUFFER_CACHE_MAX" for k
    using agreeD(4) [OF assms(1) that] o live_dev dev_length [OF agreeD(1) [OF assms(1)]] assms(4) by (cases "k = i") (simp_all add: assms(5))
  moreover have "on_device x y \<and> bh_data (bh s' k) = L x y" if "holds_key s' k x y" for k x y
    using that agreeD(5) [OF assms(1), of k x y] assms(2,4) lv o unfolding k by (cases "k = i") (auto simp: assms(5) holds_key_def)
  moreover have "data c x y = L x y" if "on_device x y" "\<nexists>k. holds_key s' k x y \<and> bh_dirty (bh s' k)" for x y
  proof (rule agreeD(6) [OF assms(1) that(1)])
    show "\<nexists>k. holds_key s k x y \<and> bh_dirty (bh s k)"
      using that(2) assms(2) unfolding k using o by (metis holds_key_def)
  qed
  moreover have "cache_initialized s'" using agreeD(2) [OF assms(1)] by (simp add: assms(5))
  ultimately show "agree s' c L" using agreeD(1) [OF assms(1)] unfolding agree_def by blast
qed

lemma get_miss:
  assumes "coherent s c L" and "d \<in> live" and "hash_lookup d b s = None"
  shows "\<exists>r s' c'. buffer_get devs d b s c = (r, s', c') \<and> coherent s' c' L \<and> keeps_pinned s s' \<and>
    (\<forall>k. bh_refcount (bh s' k) = bh_refcount (bh s k) + (if r = Some k then 1 else 0)) \<and>
    (case r of None \<Rightarrow> unat (bd_block_count (devs d)) \<le> unat b \<or> unpinned s = {} | Some i \<Rightarrow> holds_key s' i d (unat b) \<and> bh_refcount (bh s i) = 0)"
proof -
  have a: "agree s c L" and l: "linked s (unpinned s) (valid_bufs s)" using assms(1) by (simp_all add: coherent_def)
  have nokey: "\<not> holds_key s k d (unat b)" for k using coherent_lookup [OF assms(1), of d b k] assms(3) by simp
  define s0 where "s0 = upd_bstats (\<lambda>t. t\<lparr>bs_misses := bs_misses t + 1\<rparr>) s"
  have sc0: "same_core s s0" unfolding s0_def by (rule upd_bstats_same)
  note v0 = core_views [OF sc0]
  have co0: "coherent s0 c L"
    unfolding coherent_def v0 agree_same [OF sc0] using a linked_same [OF l upd_bstats_same] by (simp add: s0_def)
  have get: "buffer_get devs d b s c = (case buffer_evict devs s0 c of (None, s1, c1) \<Rightarrow> (None, s1, c1)
      | (Some i, s1, c1) \<Rightarrow>
          (let s2 = upd_bh i (\<lambda>h. h\<lparr>bh_dev := d, bh_block_no := b, bh_refcount := 1\<rparr>) s1;
               (rc, x, c2) = block_device_read (devs d) b (bh_data (bh s2 i)) c1;
               s3 = upd_bh i (\<lambda>h. h\<lparr>bh_data := x\<rparr>) s2
           in if rc \<noteq> 0
              then (None, lru_insert_front i (upd_bh i (\<lambda>h. h\<lparr>bh_dev := 0, bh_refcount := 0\<rparr>)
                      (upd_bstats (\<lambda>t. t\<lparr>bs_read_errors := bs_read_errors t + 1\<rparr>) s3)), c2)
              else (Some i, hash_insert i (upd_bh i (\<lambda>h. h\<lparr>bh_valid := True, bh_dirty := False\<rparr>) s3), c2)))"
    using agreeD(2) [OF a] live_dev [OF assms(2)] assms(3)
    by (simp add: buffer_get_def buffer_cache_init_def s0_def Let_def)
  from evict_ok [OF co0] show ?thesis
  proof (elim disjE exE conjE, goal_cases none some)
    case none
    then show ?case unfolding get using co0 v0(2) by (auto simp: keeps_pinned_def s0_def)
  next
    case (some i s1 c1)
    have i: "i < BUFFER_CACHE_MAX" "bh_refcount (bh s i) = 0" using some(2) unfolding v0 by (simp_all add: unpinned_def)
    have other: "bh_dev (bh s1 k) = bh_dev (bh s k)" "bh_block_no (bh s1 k) = bh_block_no (bh s k)" "bh_data (bh s1 k) = bh_data (bh s k)"
      "bh_valid (bh s1 k) = bh_valid (bh s k)" "bh_refcount (bh s1 k) = bh_refcount (bh s k)" if "k \<noteq> i" for k
    proof -
      have "core s1 k = core s k" using some(9) that sc0 by (simp add: same_core_def)
      then show "bh_dev (bh s1 k) = bh_dev (bh s k)" "bh_block_no (bh s1 k) = bh_block_no (bh s k)" "bh_data (bh s1 k) = bh_data (bh s k)"
        "bh_valid (bh s1 k) = bh_valid (bh s k)" "bh_refcount (bh s1 k) = bh_refcount (bh s k)" by (simp_all add: core_def Let_def)
    qed
    have l1: "linked s1 (unpinned s - {i}) (valid_bufs s - {i})" using some(4) unfolding v0 .
    have nokey1: "\<not> holds_key s1 k d (unat b)" for k
      using nokey [of k] other [of k] some(6) by (cases "k = i") (auto simp: holds_key_def)
    have kp: "keeps_pinned s s'" if "\<And>k. k \<noteq> i \<Longrightarrow> core s' k = core s1 k" for s'
      using that other i(2) unfolding keeps_pinned_def core_def Let_def by (metis prod.inject)
    show ?case
    proof (cases "unat b < unat (bd_block_count (devs d))")
      case True
      obtain c2 where c2: "block_device_read (devs d) b (bh_data (bh s1 i)) c1 = (0, data c1 d (unat b), c2)" "inv c2" "data c2 = data c1"
        using dev_read [OF agreeD(1) [OF some(3)] assms(2) True] agreeD(4) [OF some(3) i(1)] by blast
      define s4 where "s4 = upd_bh i (\<lambda>h. h\<lparr>bh_dev := d, bh_block_no := b, bh_refcount := 1, bh_data := data c1 d (unat b),
        bh_valid := True, bh_dirty := False\<rparr>) s1"
      have g: "buffer_get devs d b s c = (Some i, hash_insert i s4, c2)"
        unfolding get some(1) by (simp add: c2(1) s4_def upd_bh_def)
      have a1: "agree s1 c2 L" using some(3) c2(2,3) by (simp add: agree_def)
      have s4: "agree s4 c2 L" "holds_key s4 i d (unat b)"
        using agree_add [OF a1 some(6) nokey1 _ _ i(1), of s4 1] assms(2) True c2(3) by (simp_all add: s4_def)
      have fr: "same_core s4 (hash_insert i s4)" by (rule hash_insert_frame)
      note v = core_views [OF fr]
      have "linked s4 (unpinned s - {i}) (valid_bufs s - {i})" unfolding s4_def by (rule linked_upd [OF l1]) simp_all
      then have "linked (hash_insert i s4) (unpinned s - {i}) (insert i (valid_bufs s - {i}))"
        by (rule linked_hash_insert) (use i in simp_all)
      moreover have "unpinned s4 = unpinned s - {i}" "valid_bufs s4 = insert i (valid_bufs s - {i})"
        using other i(1) by (auto simp: unpinned_def valid_bufs_def s4_def)
      ultimately have "coherent (hash_insert i s4) c2 L" using s4(1) agree_same [OF fr] unfolding coherent_def v by simp
      moreover have "bh_refcount (bh (hash_insert i s4) k) = bh_refcount (bh s k) + (if k = i then 1 else 0)" for k
        unfolding same_coreD(6) [OF fr] using other(5) i(2) by (simp add: s4_def)
      moreover have "keeps_pinned s (hash_insert i s4)"
        by (rule kp) (use fr in \<open>simp add: same_core_def s4_def core_def\<close>)
      ultimately show ?thesis using g s4(2) v(1) i(2) by auto
    next
      case False
      then have rd: "block_device_read (devs d) b x c1 = (-1, x, c1)" for x using dev_range [OF assms(2)] by simp
      define s4 where "s4 = upd_bh i (\<lambda>h. h\<lparr>bh_dev := 0, bh_block_no := b, bh_dirty := False, bh_valid := False\<rparr>) s1"
      define s5 where "s5 = upd_bh i (\<lambda>h. h\<lparr>bh_dev := 0, bh_refcount := 0\<rparr>)
        (upd_bstats (\<lambda>t. t\<lparr>bs_read_errors := bs_read_errors t + 1\<rparr>)
          (upd_bh i (\<lambda>h. h\<lparr>bh_data := bh_data (bh s1 i)\<rparr>) (upd_bh i (\<lambda>h. h\<lparr>bh_dev := d, bh_block_no := b, bh_refcount := 1\<rparr>) s1)))"
      have sm: "same_core s4 s5" "same_lru s4 s5" "same_hash s4 s5"
        using some(6,7,8) by (auto simp: same_defs core_def fun_eq_iff s4_def s5_def)
      have g: "buffer_get devs d b s c = (None, lru_insert_front i s5, c1)"
        unfolding get some(1) by (simp add: rd s5_def)
      have a4: "agree s4 c1 L" by (rule forget_ok [OF some(3) _ i(1) s4_def]) (simp add: some(6))
      have sc5: "same_core s4 (lru_insert_front i s5)"
        by (rule same_trans(1) [OF sm(1) lru_insert_frame(1)])
      note v = core_views [OF sc5]
      have "linked s4 (unpinned s - {i}) (valid_bufs s - {i})" unfolding s4_def by (rule linked_upd [OF l1]) simp_all
      then have "linked (lru_insert_front i s5) (insert i (unpinned s - {i})) (valid_bufs s - {i})"
        by (intro linked_lru_insert [OF linked_same [OF _ sm]]) (use i(1) in simp_all)
      moreover have "unpinned s4 = insert i (unpinned s - {i})" "valid_bufs s4 = valid_bufs s - {i}"
        using other i(1) some(8) by (auto simp: unpinned_def valid_bufs_def s4_def)
      ultimately have "coherent (lru_insert_front i s5) c1 L" using a4 agree_same [OF sc5] unfolding coherent_def v by simp
      moreover have "bh_refcount (bh (lru_insert_front i s5) k) = bh_refcount (bh s k)" for k
        unfolding same_coreD(6) [OF sc5] using other(5) i(2) some(8) by (simp add: s4_def)
      moreover have "keeps_pinned s (lru_insert_front i s5)"
        by (rule kp) (use sc5 in \<open>simp add: same_core_def s4_def core_def\<close>)
      ultimately show ?thesis using g False by auto
    qed
  qed
qed

lemma get_ok:
  assumes "coherent s c L" and "d \<in> live" and "\<And>i. holds_key s i d (unat b) \<Longrightarrow> bh_refcount (bh s i) \<noteq> -1"
  shows "\<exists>r s' c'. buffer_get devs d b s c = (r, s', c') \<and> coherent s' c' L \<and> keeps_pinned s s' \<and>
    (\<forall>k. bh_refcount (bh s' k) = bh_refcount (bh s k) + (if r = Some k then 1 else 0)) \<and>
    (case r of None \<Rightarrow> unat (bd_block_count (devs d)) \<le> unat b \<or> unpinned s = {}
     | Some i \<Rightarrow> holds_key s' i d (unat b) \<and> bh_data (bh s' i) = L d (unat b) \<and> bh_refcount (bh s' i) \<noteq> 0)"
proof (cases "hash_lookup d b s")
  case None
  obtain r s' c' where g: "buffer_get devs d b s c = (r, s', c')" "coherent s' c' L" "keeps_pinned s s'"
    "\<forall>k. bh_refcount (bh s' k) = bh_refcount (bh s k) + (if r = Some k then 1 else 0)"
    "case r of None \<Rightarrow> unat (bd_block_count (devs d)) \<le> unat b \<or> unpinned s = {} | Some i \<Rightarrow> holds_key s' i d (unat b) \<and> bh_refcount (bh s i) = 0"
    using get_miss [OF assms(1,2) None] by blast
  have "bh_data (bh s' i) = L d (unat b) \<and> bh_refcount (bh s' i) \<noteq> 0" if "r = Some i" for i
    using that g(2,4,5) agreeD(5) [of s' c' L i d "unat b"] by (auto simp: coherent_def)
  then show ?thesis using g by (intro exI [of _ r] exI [of _ s'] exI [of _ c']) (cases r, auto)
next
  case (Some i)
  then have k: "holds_key s i d (unat b)" using coherent_lookup [OF assms(1)] by simp
  obtain s' where g: "buffer_get devs d b s c = (Some i, s', c)" "coherent s' c L" "keeps_pinned s s'" "holds_key s' i d (unat b)"
    "\<forall>k. bh_refcount (bh s' k) = bh_refcount (bh s k) + (if k = i then 1 else 0)"
    using get_hit [OF assms(1,2) Some assms(3) [OF k]] by blast
  have "bh_data (bh s' i) = L d (unat b)" using g(2,4) agreeD(5) [of s' c L i d "unat b"] by (simp add: coherent_def)
  moreover have "bh_refcount (bh s' i) \<noteq> 0" using g(5) assms(3) [OF k] by (simp add: eq_neg_iff_add_eq_0)
  ultimately show ?thesis using g by (intro exI [of _ "Some i"] exI [of _ s'] exI [of _ c]) auto
qed

lemma release_ok:
  assumes "coherent s c L" and "i < BUFFER_CACHE_MAX"
  shows "coherent (buffer_release i s) c L" and "bh_refcount (bh s i) \<noteq> 0 \<Longrightarrow>
    bh_refcount (bh (buffer_release i s) k) = bh_refcount (bh s k) - (if k = i then 1 else 0)"
proof -
  have a: "agree s c L" and l: "linked s (unpinned s) (valid_bufs s)" using assms(1) by (simp_all add: coherent_def)
  define s1 where "s1 = upd_bh i (\<lambda>b. b\<lparr>bh_refcount := bh_refcount b - 1\<rparr>) s"
  define s2 where "s2 = (if bh_refcount (bh s1 i) = 0 then lru_insert_front i s1 else s1)"
  have sc: "same_core s1 s2" using lru_insert_frame(1) by (simp add: s2_def same_core_def)
  note v = core_views [OF sc]
  have r: "buffer_release i s = s2" if "bh_refcount (bh s i) \<noteq> 0"
    using that by (simp add: buffer_release_def Let_def s2_def s1_def)
  then show "bh_refcount (bh s i) \<noteq> 0 \<Longrightarrow> bh_refcount (bh (buffer_release i s) k) = bh_refcount (bh s k) - (if k = i then 1 else 0)"
    using same_coreD(6) [OF sc] by (simp add: s1_def)
  show "coherent (buffer_release i s) c L"
  proof (cases "bh_refcount (bh s i) = 0")
    case False
    have ni: "i \<notin> unpinned s" using False by (simp add: unpinned_def)
    have l1: "linked s1 (unpinned s) (valid_bufs s)" unfolding s1_def by (rule linked_upd [OF l]) simp_all
    have u: "unpinned s1 = (if bh_refcount (bh s1 i) = 0 then insert i (unpinned s) else unpinned s)" "valid_bufs s1 = valid_bufs s"
      using assms(2) False by (auto simp: unpinned_def valid_bufs_def s1_def)
    have "linked s2 (unpinned s1) (valid_bufs s1)"
      using l1 linked_lru_insert [OF l1 ni assms(2)] unfolding u by (simp add: s2_def)
    moreover have "agree s2 c L" using agree_same [OF sc] a by (simp add: s1_def agree_refcount)
    ultimately show ?thesis unfolding r [OF False] coherent_def v by simp
  qed (simp add: buffer_release_def assms(1))
qed

text \<open>A client overwrites a buffer and marks it dirty.\<close>

lemma client_write_ok:
  assumes "coherent s c L" and "holds_key s i d b" and "length x = unat BUFFER_BLOCK_SIZE"
  shows "coherent (buffer_mark_dirty i (upd_bh i (\<lambda>h. h\<lparr>bh_data := x\<rparr>) s)) c (L(d := (L d)(b := x)))"
proof -
  let ?s = "buffer_mark_dirty i (upd_bh i (\<lambda>h. h\<lparr>bh_data := x\<rparr>) s)" and ?L = "L(d := (L d)(b := x))"
  have a: "agree s c L" and l: "linked s (unpinned s) (valid_bufs s)" using assms(1) by (simp_all add: coherent_def)
  have f: "bh_dev (bh ?s k) = bh_dev (bh s k)" "bh_block_no (bh ?s k) = bh_block_no (bh s k)" "bh_valid (bh ?s k) = bh_valid (bh s k)"
    "bh_refcount (bh ?s k) = bh_refcount (bh s k)" "bh_data (bh ?s k) = (if k = i then x else bh_data (bh s k))"
    "bh_dirty (bh ?s k) = (k = i \<or> bh_dirty (bh s k))" for k by (auto simp: buffer_mark_dirty_def)
  have k: "holds_key ?s = holds_key s" "unpinned ?s = unpinned s" "valid_bufs ?s = valid_bufs s"
    by (auto simp: fun_eq_iff holds_key_def unpinned_def valid_bufs_def f)
  have "bh_data (bh ?s k) = ?L u v" if "holds_key s k u v" for k u v
    using that agreeD(3,5) [OF a] assms(2) unfolding f(5) unique_keys_def by (cases "k = i") (auto simp: holds_key_def)
  moreover have "data c u v = ?L u v" if "on_device u v" "\<nexists>k. holds_key s k u v \<and> bh_dirty (bh ?s k)" for u v
  proof -
    have "\<not> (u = d \<and> v = b)" using that(2) assms(2) f(6) by blast
    moreover have "data c u v = L u v" using agreeD(6) [OF a that(1)] that(2) f(6) by blast
    ultimately show ?thesis by auto
  qed
  moreover have "length (bh_data (bh ?s k)) = unat BUFFER_BLOCK_SIZE" if "k < BUFFER_CACHE_MAX" for k
    using agreeD(4) [OF a that] assms(3) f(5) by simp
  moreover have "cache_initialized ?s" "unique_keys ?s" using agreeD(2,3) [OF a] k(1) by (simp_all add: buffer_mark_dirty_def unique_keys_def)
  ultimately have "agree ?s c ?L" using agreeD(1,4,5) [OF a] unfolding agree_def k f(1,3) by blast
  moreover have "linked ?s (unpinned s) (valid_bufs s)"
    unfolding buffer_mark_dirty_def by (intro linked_upd l) simp_all
  ultimately show ?thesis unfolding coherent_def k by simp
qed

lemma cleaned_coherent: "coherent s c L \<Longrightarrow> agree s' c' L \<Longrightarrow> cleaned s s' \<Longrightarrow> coherent s' c' L"
  using cleaned_linked cleaned_views unfolding coherent_def by metis

lemma sync_from_ok:
  assumes "agree s c L" and "set is \<subseteq> {..<BUFFER_CACHE_MAX}"
  shows "\<exists>s' c'. sync_from devs d is 0 s c = (0, s', c') \<and> agree s' c' L \<and> cleaned s s' \<and>
    (\<forall>i\<in>set is. bh_dev (bh s' i) = d \<longrightarrow> \<not> (bh_valid (bh s' i) \<and> bh_dirty (bh s' i)))"
  using assms
proof (induction "is" arbitrary: s c)
  case (Cons i "is")
  show ?case
  proof (cases "bh_dev (bh s i) = d \<and> bh_dirty (bh s i) \<and> bh_valid (bh s i)")
    case True
    obtain s1 c1 where w: "buffer_write_back devs i s c = (0, s1, c1)" "agree s1 c1 L" "cleaned s s1" "\<not> (bh_valid (bh s1 i) \<and> bh_dirty (bh s1 i))"
      using write_back_ok [OF Cons.prems(1), of i] Cons.prems(2) by auto
    obtain s2 c2 where r: "sync_from devs d is 0 s1 c1 = (0, s2, c2)" "agree s2 c2 L" "cleaned s1 s2"
        "\<forall>i\<in>set is. bh_dev (bh s2 i) = d \<longrightarrow> \<not> (bh_valid (bh s2 i) \<and> bh_dirty (bh s2 i))"
      using Cons.IH [OF w(2)] Cons.prems(2) by auto
    have "\<not> (bh_valid (bh s2 i) \<and> bh_dirty (bh s2 i))" using w(4) cleanedD(4,5) [OF r(3)] by blast
    then show ?thesis using r True w(1) cleaned_trans [OF w(3) r(3)] by simp
  next
    case False
    obtain s2 c2 where r: "sync_from devs d is 0 s c = (0, s2, c2)" "agree s2 c2 L" "cleaned s s2"
        "\<forall>i\<in>set is. bh_dev (bh s2 i) = d \<longrightarrow> \<not> (bh_valid (bh s2 i) \<and> bh_dirty (bh s2 i))"
      using Cons.IH [OF Cons.prems(1)] Cons.prems(2) by auto
    have "bh_dev (bh s2 i) = d \<longrightarrow> \<not> (bh_valid (bh s2 i) \<and> bh_dirty (bh s2 i))" using False cleanedD(1,4,5) [OF r(3), of i] by auto
    moreover have "sync_from devs d (i # is) 0 s c = sync_from devs d is 0 s c"
      unfolding sync_from.simps Let_def if_not_P [OF False] ..
    ultimately show ?thesis using r by simp
  qed
qed simp

lemma sync_ok:
  assumes "coherent s c L"
  shows "\<exists>s' c'. buffer_cache_sync devs d s c = (0, s', c') \<and> coherent s' c' L \<and> cleaned s s' \<and> (\<forall>b. on_device d b \<longrightarrow> data c' d b = L d b)"
proof -
  define s0 where "s0 = s\<lparr>last_error_valid := False, last_error_block_no := 0, last_error_code := 0\<rparr>"
  have c0: "cleaned s s0" by (simp add: cleaned_def same_defs s0_def)
  have "same_core s s0" by (simp add: same_core_def core_def fun_eq_iff s0_def)
  then have a0: "agree s0 c L" using agree_same assms by (simp add: coherent_def)
  obtain s' c' where r: "sync_from devs d [0..<BUFFER_CACHE_MAX] 0 s0 c = (0, s', c')" "agree s' c' L" "cleaned s0 s'"
      "\<forall>i\<in>set [0..<BUFFER_CACHE_MAX]. bh_dev (bh s' i) = d \<longrightarrow> \<not> (bh_valid (bh s' i) \<and> bh_dirty (bh s' i))"
    using sync_from_ok [OF a0, of "[0..<BUFFER_CACHE_MAX]" d] unfolding set_upt atLeast0LessThan by blast
  note cl = cleaned_trans [OF c0 r(3)]
  have "\<nexists>i. holds_key s' i d b \<and> bh_dirty (bh s' i)" for b using r(4) by (auto simp: holds_key_def)
  then have "data c' d b = L d b" if "on_device d b" for b using agreeD(6) [OF r(2) that] by blast
  then show ?thesis
    using r(1) cl cleaned_coherent [OF assms r(2) cl] by (auto simp: buffer_cache_sync_def s0_def)
qed

lemma writeback_from_ok:
  assumes "agree s c L" and "set is \<subseteq> {..<BUFFER_CACHE_MAX}"
  shows "\<exists>n s' c'. writeback_from devs d m is w s c = (n, s', c') \<and> agree s' c' L \<and> cleaned s s'"
  using assms
proof (induction "is" arbitrary: s c w)
  case (Cons i "is")
  have sub: "set is \<subseteq> {..<BUFFER_CACHE_MAX}" and i: "i < BUFFER_CACHE_MAX" using Cons.prems(2) by auto
  show ?case
  proof (cases "w < m \<and> bh_valid (bh s i) \<and> bh_dirty (bh s i) \<and> (d = 0 \<or> bh_dev (bh s i) = d)")
    case True
    obtain s1 c1 where r: "buffer_write_back devs i s c = (0, s1, c1)" "agree s1 c1 L" "cleaned s s1"
      using write_back_ok [OF Cons.prems(1) i] by blast
    then show ?thesis using True Cons.IH [OF r(2) sub, of "w + 1"] cleaned_trans [OF r(3)] by (auto simp: Let_def)
  next
    case False
    then show ?thesis using Cons.IH [OF Cons.prems(1) sub, of w] Cons.prems(1) by (auto simp: Let_def)
  qed
qed simp

lemma writeback_pass_ok:
  assumes "coherent s c L"
  shows "\<exists>n s' c'. buffer_cache_writeback_pass devs d m s c = (n, s', c') \<and> coherent s' c' L \<and> cleaned s s'"
proof -
  have a: "agree s c L" and l: "linked s (unpinned s) (valid_bufs s)" using assms by (simp_all add: coherent_def)
  obtain xs where xs: "lru_list s xs" "set xs = unpinned s" using l by (auto simp: linked_def)
  have "set (rev xs) \<subseteq> {..<BUFFER_CACHE_MAX}" using xs(1) by (simp add: lru_list_def)
  from writeback_from_ok [OF a this] obtain n s' c' where
    r: "writeback_from devs d m (rev xs) 0 s c = (n, s', c')" "agree s' c' L" "cleaned s s'" by blast
  define s2 where "s2 = (if n > 0 then upd_bstats (\<lambda>t. t\<lparr>bs_writeback_passes := bs_writeback_passes t + 1\<rparr>) s' else s')"
  have "cleaned s' s2" using cleaned_one(2) by (simp add: s2_def)
  then have cl: "cleaned s s2" using cleaned_trans [OF r(3)] by blast
  have "same_core s' s2" using upd_bstats_same(1) by (simp add: s2_def same_core_def)
  then have "coherent s2 c' L" using cleaned_coherent [OF assms _ cl] agree_same r(2) by blast
  moreover have "buffer_cache_writeback_pass devs d m s c = (if m = 0 then (0, s, c) else (n, s2, c'))"
    using agreeD(2) [OF a] r(1) by (simp add: buffer_cache_writeback_pass_def buffer_cache_init_def Let_def lru_oldest [OF xs(1)] s2_def)
  ultimately show ?thesis using cl assms by auto
qed

lemma readahead_from_ok:
  assumes "coherent s c L" and "d \<in> live" and "pins_left s"
  shows "\<exists>n s' c'. readahead_from devs d start k i w s c = (n, s', c') \<and> coherent s' c' L \<and> pins_left s'"
  using assms(1,3)
proof (induction k arbitrary: i w s c)
  case (Suc k)
  have guard: "bh_refcount (bh s j) \<noteq> -1" if "holds_key s j d b" for j b
    using that Suc.prems(2) by (simp add: holds_key_def pins_left_def)
  obtain r s1 c1 where g: "buffer_get devs d (start + i) s c = (r, s1, c1)" "coherent s1 c1 L"
      "\<forall>k. bh_refcount (bh s1 k) = bh_refcount (bh s k) + (if r = Some k then 1 else 0)"
      "case r of None \<Rightarrow> unat (bd_block_count (devs d)) \<le> unat (start + i) \<or> unpinned s = {}
       | Some j \<Rightarrow> holds_key s1 j d (unat (start + i)) \<and> bh_data (bh s1 j) = L d (unat (start + i)) \<and> bh_refcount (bh s1 j) \<noteq> 0"
    using get_ok [OF Suc.prems(1) assms(2), of "start + i"] guard by blast
  show ?case
  proof (cases r)
    case None
    then have "pins_left s1" using g(3) Suc.prems(2) by (simp add: pins_left_def)
    then show ?thesis using None g Suc.prems by simp
  next
    case (Some j)
    have j: "j < BUFFER_CACHE_MAX" "bh_refcount (bh s1 j) \<noteq> 0" using g(4) Some by (simp_all add: holds_key_def)
    note rel = release_ok [OF g(2) j(1)]
    have "pins_left (buffer_release j s1)" using rel(2) [OF j(2)] g(3) Suc.prems(2) Some by (simp add: pins_left_def)
    then show ?thesis using Suc.IH [OF rel(1), of "i + 1" "w + 1"] g(1) Some Suc.prems by simp
  qed
qed (use assms in simp)

lemma readahead_ok:
  assumes "coherent s c L" and "d \<in> live" and "pins_left s"
  shows "\<exists>n s' c'. buffer_cache_readahead devs d start count s c = (n, s', c') \<and> coherent s' c' L"
proof -
  obtain n s' c' where r: "readahead_from devs d start (unat count) 0 0 s c = (n, s', c')" "coherent s' c' L"
    using readahead_from_ok [OF assms] by blast
  define s2 where "s2 = upd_bstats (\<lambda>t. t\<lparr>bs_readaheads := bs_readaheads t + ucast n\<rparr>) s'"
  have cl: "cleaned s' s2" and "same_core s' s2" unfolding s2_def by (rule cleaned_one, rule upd_bstats_same)
  then have "coherent s2 c' L" using cleaned_coherent [OF r(2) _ cl] agree_same r(2) unfolding coherent_def by blast
  moreover have "buffer_cache_readahead devs d start count s c = (if count = 0 then (0, s, c) else (n, s2, c'))"
    using assms(1) live_dev [OF assms(2)] r(1) agreeD(2) [of s c L]
    by (simp add: buffer_cache_readahead_def buffer_cache_init_def Let_def coherent_def s2_def)
  ultimately show ?thesis using assms(1) by auto
qed

end

subsection \<open>Invalidation and initialisation\<close>

lemma linked_unhash:
  assumes "linked s U H" and "i \<notin> H"
  shows "linked (upd_bh i (\<lambda>b. b\<lparr>bh_dev := 0, bh_block_no := 0, bh_dirty := False, bh_valid := False, bh_hash_next := None\<rparr>) s) U H"
    (is "linked ?s U H")
proof -
  obtain xs C where x: "lru_list s xs" "set xs = U" "hash_chains s H C" using assms(1) by (auto simp: linked_def)
  have "same_lru s ?s" by (auto simp: same_lru_def fun_eq_iff)
  then have "lru_list ?s xs" by (rule lru_list_same [OF x(1)])
  moreover have "hash_nx ?s = (hash_nx s)(i := None)" by (auto simp: fun_eq_iff)
  moreover have "hash_of ?s k = hash_of s k" if "k \<in> H" for k using that assms(2) by (auto simp: hash_of_def)
  ultimately have "lru_list ?s xs \<and> hash_chains ?s H C"
    using x(3) assms(2) by (fastforce simp: hash_chains_def chain_upd_other)
  then show ?thesis using x(2) unfolding linked_def by blast
qed

definition emptied :: "u64 \<Rightarrow> nat set \<Rightarrow> bcache \<Rightarrow> bcache \<Rightarrow> bool" where
  "emptied d I s s' \<longleftrightarrow> cache_initialized s' = cache_initialized s \<and>
     (\<forall>k. core s' k = (if k \<in> I \<and> bh_dev (bh s k) = d then (0, 0, bh_data (bh s k), False, False, bh_refcount (bh s k)) else core s k))"

lemma invalidate_one_ok:
  assumes "linked s (unpinned s) (valid_bufs s)" and "i < BUFFER_CACHE_MAX"
  shows "linked (invalidate_one d i s) (unpinned (invalidate_one d i s)) (valid_bufs (invalidate_one d i s)) \<and>
    emptied d {i} s (invalidate_one d i s)"
proof (cases "bh_dev (bh s i) = d")
  case True
  define s1 where "s1 = hash_remove i s"
  define s2 where "s2 = (if bh_refcount (bh s1 i) = 0 then lru_remove i s1 else s1)"
  define s3 where "s3 = upd_bh i (\<lambda>b. b\<lparr>bh_dev := 0, bh_block_no := 0, bh_dirty := False, bh_valid := False, bh_hash_next := None\<rparr>) s2"
  define s4 where "s4 = (if bh_refcount (bh s3 i) = 0 then lru_insert_front i s3 else s3)"
  have sc1: "same_core s s1" unfolding s1_def by (rule hash_remove_frame)
  have sc2: "same_core s s2" using sc1 same_trans(1) [OF sc1 lru_remove_frame(1)] by (simp add: s2_def)
  have r3: "bh_refcount (bh s3 k) = bh_refcount (bh s k)" for k using same_coreD(6) [OF sc2] by (simp add: s3_def)
  have sc4: "same_core s3 s4" using lru_insert_frame(1) by (simp add: s4_def same_core_def)
  have l1: "linked s1 (unpinned s) (valid_bufs s - {i})" unfolding s1_def by (rule linked_hash_remove [OF assms(1)])
  have l2: "linked s2 (unpinned s - {i}) (valid_bufs s - {i})"
    using linked_lru_remove [OF l1, of i] l1 assms(2) same_coreD(6) [OF sc1] by (auto simp: s2_def unpinned_def)
  have l3: "linked s3 (unpinned s - {i}) (valid_bufs s - {i})" unfolding s3_def by (rule linked_unhash [OF l2]) simp
  have "linked s4 (unpinned s) (valid_bufs s - {i})"
  proof (cases "bh_refcount (bh s i) = 0")
    case True
    then have "insert i (unpinned s - {i}) = unpinned s" using assms(2) by (auto simp: unpinned_def)
    then show ?thesis using linked_lru_insert [OF l3 _ assms(2)] True r3 by (simp add: s4_def)
  next
    case False
    then have "unpinned s - {i} = unpinned s" by (auto simp: unpinned_def)
    then show ?thesis using l3 False r3 by (simp add: s4_def)
  qed
  moreover have u: "unpinned s3 = unpinned s" "valid_bufs s3 = valid_bufs s - {i}"
    using r3 same_coreD(5) [OF sc2] by (auto simp: unpinned_def valid_bufs_def s3_def)
  ultimately have "linked s4 (unpinned s4) (valid_bufs s4)" unfolding core_views(2,3) [OF sc4] u by simp
  moreover have "emptied d {i} s s4"
  proof -
    have "core s3 k = (if k = i then (0, 0, bh_data (bh s k), False, False, bh_refcount (bh s k)) else core s2 k)" for k
      using same_coreD(3,6) [OF sc2, of k] by (auto simp: s3_def core_def Let_def)
    moreover have "cache_initialized s3 = cache_initialized s2" by (simp add: s3_def)
    ultimately show ?thesis using sc4 sc2 True unfolding emptied_def same_core_def by simp
  qed
  moreover have "invalidate_one d i s = s4"
    using True unfolding invalidate_one_def Let_def s1_def [symmetric] s2_def [symmetric] s3_def [symmetric] s4_def [symmetric] by simp
  ultimately show ?thesis by simp
qed (use assms in \<open>simp add: invalidate_one_def emptied_def\<close>)

lemma invalidate_fold:
  assumes "linked s (unpinned s) (valid_bufs s)" and "set is \<subseteq> {..<BUFFER_CACHE_MAX}" and "d \<noteq> 0"
  shows "linked (fold (invalidate_one d) is s) (unpinned (fold (invalidate_one d) is s)) (valid_bufs (fold (invalidate_one d) is s)) \<and>
    emptied d (set is) s (fold (invalidate_one d) is s)"
  using assms(1,2)
proof (induction "is" arbitrary: s)
  case (Cons i "is")
  define s1 where "s1 = invalidate_one d i s"
  define s' where "s' = fold (invalidate_one d) is s1"
  have one: "linked s1 (unpinned s1) (valid_bufs s1)" "emptied d {i} s s1"
    using invalidate_one_ok [OF Cons.prems(1), of i d] Cons.prems(2) by (simp_all add: s1_def)
  have all: "linked s' (unpinned s') (valid_bufs s')" "emptied d (set is) s1 s'"
    using Cons.IH [OF one(1)] Cons.prems(2) by (simp_all add: s'_def)
  have f: "bh_dev (bh s1 k) = (if k = i \<and> bh_dev (bh s k) = d then 0 else bh_dev (bh s k))" "bh_data (bh s1 k) = bh_data (bh s k)"
    "bh_refcount (bh s1 k) = bh_refcount (bh s k)" for k
  proof -
    have "core s1 k = (if k \<in> {i} \<and> bh_dev (bh s k) = d then (0, 0, bh_data (bh s k), False, False, bh_refcount (bh s k)) else core s k)"
      using one(2) unfolding emptied_def by blast
    then show "bh_dev (bh s1 k) = (if k = i \<and> bh_dev (bh s k) = d then 0 else bh_dev (bh s k))" "bh_data (bh s1 k) = bh_data (bh s k)"
      "bh_refcount (bh s1 k) = bh_refcount (bh s k)"
      by (auto simp: core_def Let_def split: if_splits)
  qed
  have "core s' k = (if k \<in> set (i # is) \<and> bh_dev (bh s k) = d then (0, 0, bh_data (bh s k), False, False, bh_refcount (bh s k)) else core s k)" for k
  proof -
    have "core s' k = (if k \<in> set is \<and> bh_dev (bh s1 k) = d then (0, 0, bh_data (bh s1 k), False, False, bh_refcount (bh s1 k)) else core s1 k)"
      "core s1 k = (if k \<in> {i} \<and> bh_dev (bh s k) = d then (0, 0, bh_data (bh s k), False, False, bh_refcount (bh s k)) else core s k)"
      using one(2) all(2) unfolding emptied_def by blast+
    then show ?thesis using assms(3) f [of k] by (cases "k = i") simp_all
  qed
  moreover have "cache_initialized s' = cache_initialized s" using one(2) all(2) by (simp add: emptied_def)
  ultimately have "emptied d (set (i # is)) s s'" unfolding emptied_def by blast
  then show ?case using all(1) by (simp add: s'_def s1_def)
qed (simp add: emptied_def)

definition blank_cache :: "bcache \<Rightarrow> bool" where
  "blank_cache s \<longleftrightarrow> \<not> cache_initialized s \<and> lru_head s = None \<and> lru_tail s = None \<and>
     (\<forall>i<BUFFER_CACHE_MAX. length (bh_data (bh s i)) = unat BUFFER_BLOCK_SIZE)"

lemma init_fold:
  assumes "lru_head s = None" and "lru_tail s = None" and "n \<le> BUFFER_CACHE_MAX"
    and "s' = fold (\<lambda>i s. lru_insert_front i (upd_bh i (\<lambda>b. b\<lparr>bh_dev := 0, bh_block_no := 0, bh_dirty := False, bh_valid := False,
      bh_refcount := 0, bh_hash_next := None, bh_lru_prev := None, bh_lru_next := None\<rparr>) s)) [0..<n] s"
  shows "lru_list s' (rev [0..<n]) \<and> (\<forall>i. core s' i = (if i < n then (0, 0, bh_data (bh s i), False, False, 0) else core s i)) \<and>
    hash_table s' = hash_table s"
  using assms(3,4)
proof (induction n arbitrary: s')
  case 0
  then show ?case using assms(1,2) by (simp add: lru_list_def)
next
  case (Suc n)
  let ?f = "\<lambda>b. b\<lparr>bh_dev := 0, bh_block_no := 0, bh_dirty := False, bh_valid := False, bh_refcount := 0, bh_hash_next := None,
      bh_lru_prev := None, bh_lru_next := None\<rparr>"
  define s1 where "s1 = fold (\<lambda>i s. lru_insert_front i (upd_bh i ?f s)) [0..<n] s"
  have ih: "lru_list s1 (rev [0..<n])" "\<And>i. core s1 i = (if i < n then (0, 0, bh_data (bh s i), False, False, 0) else core s i)"
    "hash_table s1 = hash_table s"
    using Suc.IH [OF _ s1_def] Suc.prems(1) by auto
  define s2 where "s2 = upd_bh n ?f s1"
  have s': "s' = lru_insert_front n s2" using Suc.prems(2) by (simp add: s1_def s2_def)
  have "lru_list s2 (rev [0..<n])"
    using ih(1) chain_upd_other [of n "rev [0..<n]" "lru_nx s1" None] chain_upd_other [of n "[0..<n]" "lru_pv s1" None]
    by (simp add: lru_list_def s2_def fun_upd_def if_distrib [of bh_lru_next] if_distrib [of bh_lru_prev] cong: if_cong)
  then have "lru_list s' (n # rev [0..<n])" unfolding s' by (rule lru_insert_list) (use Suc.prems(1) in simp_all)
  moreover have "core s' i = core s2 i" for i using lru_insert_frame(1) unfolding s' same_core_def by simp
  moreover have "core s2 i = (if i < Suc n then (0, 0, bh_data (bh s i), False, False, 0) else core s i)" for i
  proof -
    have "bh_data (bh s1 i) = bh_data (bh s i)" using ih(2) [of i] by (auto simp: core_def Let_def split: if_splits)
    then show ?thesis using ih(2) [of i] by (auto simp: s2_def core_def Let_def less_Suc_eq)
  qed
  moreover have "hash_table s' = hash_table s" using lru_insert_frame(2) [of s2 n] ih(3) unfolding s' same_hash_def by (simp add: s2_def)
  ultimately show ?case by simp
qed

lemma init_clean:
  assumes "blank_cache s"
  shows "cache_initialized (buffer_cache_init s)"
    and "i < BUFFER_CACHE_MAX \<Longrightarrow> bh_dev (bh (buffer_cache_init s) i) = 0 \<and> \<not> bh_valid (bh (buffer_cache_init s) i) \<and>
      bh_refcount (bh (buffer_cache_init s) i) = 0 \<and> length (bh_data (bh (buffer_cache_init s) i)) = unat BUFFER_BLOCK_SIZE"
    and "lru_list (buffer_cache_init s) (rev [0..<BUFFER_CACHE_MAX])"
    and "h < BUFFER_HASH_SIZE \<Longrightarrow> hash_table (buffer_cache_init s) h = None"
proof -
  define s1 where "s1 = fold (\<lambda>i s. lru_insert_front i (upd_bh i (\<lambda>b. b\<lparr>bh_dev := 0, bh_block_no := 0, bh_dirty := False, bh_valid := False,
      bh_refcount := 0, bh_hash_next := None, bh_lru_prev := None, bh_lru_next := None\<rparr>) s)) [0..<BUFFER_CACHE_MAX] s"
  have i1: "lru_list s1 (rev [0..<BUFFER_CACHE_MAX])"
    "\<And>i. core s1 i = (if i < BUFFER_CACHE_MAX then (0, 0, bh_data (bh s i), False, False, 0) else core s i)"
    using init_fold [OF _ _ order.refl s1_def] assms(1) by (auto simp: blank_cache_def)
  have fold_ht: "bh (fold (\<lambda>i s. s\<lparr>hash_table := (hash_table s)(i := None)\<rparr>) xs t) = bh t \<and>
      lru_head (fold (\<lambda>i s. s\<lparr>hash_table := (hash_table s)(i := None)\<rparr>) xs t) = lru_head t \<and>
      lru_tail (fold (\<lambda>i s. s\<lparr>hash_table := (hash_table s)(i := None)\<rparr>) xs t) = lru_tail t \<and>
      hash_table (fold (\<lambda>i s. s\<lparr>hash_table := (hash_table s)(i := None)\<rparr>) xs t) = (\<lambda>i. if i \<in> set xs then None else hash_table t i)" for xs t
    by (induction xs arbitrary: t) (auto simp: fun_eq_iff)
  define s' where "s' = buffer_cache_init s"
  have s': "bh s' = bh s1" "lru_head s' = lru_head s1" "lru_tail s' = lru_tail s1" "cache_initialized s'"
    "\<And>h. h < BUFFER_HASH_SIZE \<Longrightarrow> hash_table s' h = None"
    using assms(1) fold_ht [of "[0..<BUFFER_HASH_SIZE]" s1]
    by (simp_all add: s'_def buffer_cache_init_def blank_cache_def Let_def s1_def [symmetric])
  have "bh_dev (bh s' i) = 0 \<and> \<not> bh_valid (bh s' i) \<and> bh_refcount (bh s' i) = 0 \<and> length (bh_data (bh s' i)) = unat BUFFER_BLOCK_SIZE"
    if "i < BUFFER_CACHE_MAX" for i
    using i1(2) [of i] that assms(1) unfolding s' by (auto simp: core_def Let_def blank_cache_def)
  moreover have "lru_list s' (rev [0..<BUFFER_CACHE_MAX])" using i1(1) by (simp add: lru_list_def s')
  ultimately show "cache_initialized (buffer_cache_init s)"
    "i < BUFFER_CACHE_MAX \<Longrightarrow> bh_dev (bh (buffer_cache_init s) i) = 0 \<and> \<not> bh_valid (bh (buffer_cache_init s) i) \<and>
      bh_refcount (bh (buffer_cache_init s) i) = 0 \<and> length (bh_data (bh (buffer_cache_init s) i)) = unat BUFFER_BLOCK_SIZE"
    "lru_list (buffer_cache_init s) (rev [0..<BUFFER_CACHE_MAX])"
    "h < BUFFER_HASH_SIZE \<Longrightarrow> hash_table (buffer_cache_init s) h = None"
    using s'(4,5) unfolding s'_def by blast+
qed

context disks
begin

lemma invalidate_ok:
  assumes "coherent s c L" and "d \<noteq> 0"
  shows "coherent (buffer_cache_invalidate d s) c (L(d := data c d))"
proof -
  define s' where "s' = buffer_cache_invalidate d s"
  have a: "agree s c L" and l: "linked s (unpinned s) (valid_bufs s)" using assms(1) by (simp_all add: coherent_def)
  have "linked s' (unpinned s') (valid_bufs s') \<and> emptied d (set [0..<BUFFER_CACHE_MAX]) s s'"
    using invalidate_fold [OF l _ assms(2), of "[0..<BUFFER_CACHE_MAX]"] assms(2) unfolding set_upt atLeast0LessThan
    by (simp add: s'_def buffer_cache_invalidate_def)
  then have l': "linked s' (unpinned s') (valid_bufs s')" and e: "cache_initialized s' = cache_initialized s"
    "\<And>k. k < BUFFER_CACHE_MAX \<Longrightarrow> core s' k = (if bh_dev (bh s k) = d then (0, 0, bh_data (bh s k), False, False, bh_refcount (bh s k)) else core s k)"
    by (auto simp: emptied_def)
  have f: "bh_dev (bh s' k) = (if bh_dev (bh s k) = d then 0 else bh_dev (bh s k))" "bh_data (bh s' k) = bh_data (bh s k)"
    "bh_dev (bh s k) \<noteq> d \<Longrightarrow> bh_block_no (bh s' k) = bh_block_no (bh s k)"
    "bh_valid (bh s' k) = (bh_dev (bh s k) \<noteq> d \<and> bh_valid (bh s k))" "bh_dirty (bh s' k) = (bh_dev (bh s k) \<noteq> d \<and> bh_dirty (bh s k))"
    if "k < BUFFER_CACHE_MAX" for k
    using e(2) [OF that] by (auto simp: core_def Let_def split: if_splits)
  have k: "holds_key s' i u v \<longleftrightarrow> holds_key s i u v \<and> u \<noteq> d" for i u v
    using f [of i] by (cases "i < BUFFER_CACHE_MAX") (auto simp: holds_key_def)
  have "unique_keys s'" using agreeD(3) [OF a] k unfolding unique_keys_def by blast
  moreover have "on_device u v \<and> bh_data (bh s' i) = (L(d := data c d)) u v" if "holds_key s' i u v" for i u v
    using that agreeD(5) [OF a, of i u v] f(2) [of i] unfolding k by (auto simp: holds_key_def)
  moreover have "data c u v = (L(d := data c d)) u v" if "on_device u v" "\<nexists>i. holds_key s' i u v \<and> bh_dirty (bh s' i)" for u v
  proof (cases "u = d")
    case False
    have "\<nexists>i. holds_key s i u v \<and> bh_dirty (bh s i)" using that(2) False k f(5) unfolding holds_key_def by metis
    then show ?thesis using agreeD(6) [OF a that(1)] False by simp
  qed simp
  moreover have "(bh_valid (bh s' i) \<longleftrightarrow> bh_dev (bh s' i) \<noteq> 0) \<and> length (bh_data (bh s' i)) = unat BUFFER_BLOCK_SIZE" if "i < BUFFER_CACHE_MAX" for i
    using agreeD(4) [OF a that] f [OF that] by auto
  ultimately have "agree s' c (L(d := data c d))" using agreeD(1,2) [OF a] e(1) unfolding agree_def by blast
  then show ?thesis using l' by (simp add: coherent_def s'_def)
qed

lemma init_ok:
  assumes "blank_cache s" and "inv c"
  shows "coherent (buffer_cache_init s) c (data c)"
proof -
  define s' where "s' = buffer_cache_init s"
  note f = init_clean [OF assms(1), folded s'_def]
  have nk: "\<not> holds_key s' i d b" for i d b using f(2) by (auto simp: holds_key_def)
  have "agree s' c (data c)" using f assms(2) nk by (simp add: agree_def unique_keys_def)
  moreover have u: "unpinned s' = set (rev [0..<BUFFER_CACHE_MAX])" "valid_bufs s' = {}" using f(2) by (auto simp: unpinned_def valid_bufs_def)
  moreover have "hash_chains s' {} (\<lambda>_. [])" using f(4) by (simp add: hash_chains_def)
  ultimately show ?thesis using f(3) unfolding coherent_def linked_def u s'_def [symmetric] by blast
qed

end

subsection \<open>Runs of the cache\<close>

text \<open>
  What clients and the kernel do to the cache. The third component is the contents that the clients expect to see: only
  overwriting a buffer changes them, and an invalidation, which gives up cached changes.
\<close>

inductive cache_step :: "'c devices \<Rightarrow> u64 set \<Rightarrow> ('c \<Rightarrow> contents) \<Rightarrow> bcache \<times> 'c \<times> contents \<Rightarrow> bcache \<times> 'c \<times> contents \<Rightarrow> bool"
  for devs live data where
  st_get: "d \<in> live \<Longrightarrow> pins_left s \<Longrightarrow> buffer_get devs d b s c = (r, s', c') \<Longrightarrow> cache_step devs live data (s, c, L) (s', c', L)"
| st_release: "i < BUFFER_CACHE_MAX \<Longrightarrow> cache_step devs live data (s, c, L) (buffer_release i s, c, L)"
| st_overwrite: "holds_key s i d b \<Longrightarrow> length x = unat BUFFER_BLOCK_SIZE \<Longrightarrow>
    cache_step devs live data (s, c, L) (buffer_mark_dirty i (upd_bh i (\<lambda>h. h\<lparr>bh_data := x\<rparr>) s), c, L(d := (L d)(b := x)))"
| st_write_back: "i < BUFFER_CACHE_MAX \<Longrightarrow> buffer_write_back devs i s c = (r, s', c') \<Longrightarrow> cache_step devs live data (s, c, L) (s', c', L)"
| st_sync: "buffer_cache_sync devs d s c = (r, s', c') \<Longrightarrow> cache_step devs live data (s, c, L) (s', c', L)"
| st_pass: "buffer_cache_writeback_pass devs d m s c = (r, s', c') \<Longrightarrow> cache_step devs live data (s, c, L) (s', c', L)"
| st_readahead: "d \<in> live \<Longrightarrow> pins_left s \<Longrightarrow> buffer_cache_readahead devs d b n s c = (r, s', c') \<Longrightarrow>
    cache_step devs live data (s, c, L) (s', c', L)"
| st_invalidate: "d \<noteq> 0 \<Longrightarrow> cache_step devs live data (s, c, L) (buffer_cache_invalidate d s, c, L(d := data c d))"

context disks
begin

lemma pins_guard: "pins_left s \<Longrightarrow> holds_key s i d b \<Longrightarrow> bh_refcount (bh s i) \<noteq> -1"
  by (simp add: pins_left_def holds_key_def)

lemma cache_step_ok: "cache_step devs live data (s, c, L) (s', c', L') \<Longrightarrow> coherent s c L \<Longrightarrow> coherent s' c' L'"
proof (induction "(s, c, L)" "(s', c', L')" rule: cache_step.induct)
  case (st_get d b r)
  then show ?case using get_ok [OF st_get.prems st_get.hyps(1), of b] pins_guard by fastforce
next
  case (st_release i)
  then show ?case using release_ok(1) by blast
next
  case (st_overwrite i d b x)
  then show ?case using client_write_ok by blast
next
  case (st_write_back i r)
  then show ?case using write_back_ok [of s c L i] cleaned_coherent by (auto simp: coherent_def)
next
  case (st_sync d r)
  then show ?case using sync_ok [OF st_sync.prems, of d] by auto
next
  case (st_pass d m r)
  then show ?case using writeback_pass_ok [OF st_pass.prems, of d m] by auto
next
  case (st_readahead d b n r)
  then show ?case using readahead_ok [OF st_readahead.prems st_readahead.hyps(1,2), of b n] by auto
next
  case (st_invalidate d)
  then show ?case using invalidate_ok by blast
qed

lemma cache_run_coherent:
  assumes "(cache_step devs live data)\<^sup>*\<^sup>* (s0, c0, L0) (s, c, L)" and "coherent s0 c0 L0"
  shows "coherent s c L"
  using assms
proof (induction "(s, c, L)" arbitrary: s c L rule: rtranclp_induct)
  case (step y)
  obtain s1 c1 L1 where "y = (s1, c1, L1)" by (metis prod_cases3)
  then show ?case using step.hyps(2,3) step.prems cache_step_ok by blast
qed simp

end


definition empty_cache :: bcache where
  "empty_cache =
     \<lparr>buffer_cache = \<lambda>_. \<lparr>bh_dev = 0, bh_block_no = 0, bh_data = replicate 4096 0, bh_dirty = False, bh_valid = False, bh_refcount = 0,
        bh_hash_next = None, bh_lru_prev = None, bh_lru_next = None\<rparr>,
      hash_table = \<lambda>_. None, lru_head = None, lru_tail = None, cache_initialized = False, last_error_block_no = 0, last_error_valid = False,
      last_error_code = 0,
      bc_stats = \<lparr>bs_capacity = 0, bs_valid = 0, bs_dirty = 0, bs_pinned = 0, bs_hits = 0, bs_misses = 0, bs_evictions = 0, bs_writebacks = 0,
        bs_read_errors = 0, bs_write_errors = 0, bs_readaheads = 0, bs_writeback_passes = 0\<rparr>\<rparr>"


end
