(* ===== verification/Sha256.thy ===== *)
theory Sha256
  imports CapyBase
begin

text \<open>
  SHA-256 and HMAC: \<^verbatim>\<open>security/sha256.c\<close>, and the two HMAC routines and the constant-time comparison of
  \<^verbatim>\<open>security/crypt.c\<close>. A byte buffer is a list; null pointers are not modelled (the routines return without
  an effect on them), nor is the wiping of scratch memory.

  The streaming context is shown to compute the hash of the standard (\<open>sha256_ref\<close>, padding and all)
  of whatever was fed, in any division into pieces, and both HMAC routines are the standard construction
  over it.
\<close>

subsection \<open>The compression function\<close>

definition SHA256_BLOCK_SIZE :: nat where "SHA256_BLOCK_SIZE = 64"
definition SHA256_DIGEST_SIZE :: nat where "SHA256_DIGEST_SIZE = 32"

definition k256 :: "u32 list" where
  "k256 = concat
    [[0x428a2f98, 0x71374491, 0xb5c0fbcf, 0xe9b5dba5],
     [0x3956c25b, 0x59f111f1, 0x923f82a4, 0xab1c5ed5],
     [0xd807aa98, 0x12835b01, 0x243185be, 0x550c7dc3],
     [0x72be5d74, 0x80deb1fe, 0x9bdc06a7, 0xc19bf174],
     [0xe49b69c1, 0xefbe4786, 0x0fc19dc6, 0x240ca1cc],
     [0x2de92c6f, 0x4a7484aa, 0x5cb0a9dc, 0x76f988da],
     [0x983e5152, 0xa831c66d, 0xb00327c8, 0xbf597fc7],
     [0xc6e00bf3, 0xd5a79147, 0x06ca6351, 0x14292967],
     [0x27b70a85, 0x2e1b2138, 0x4d2c6dfc, 0x53380d13],
     [0x650a7354, 0x766a0abb, 0x81c2c92e, 0x92722c85],
     [0xa2bfe8a1, 0xa81a664b, 0xc24b8b70, 0xc76c51a3],
     [0xd192e819, 0xd6990624, 0xf40e3585, 0x106aa070],
     [0x19a4c116, 0x1e376c08, 0x2748774c, 0x34b0bcb5],
     [0x391c0cb3, 0x4ed8aa4a, 0x5b9cca4f, 0x682e6ff3],
     [0x748f82ee, 0x78a5636f, 0x84c87814, 0x8cc70208],
     [0x90befffa, 0xa4506ceb, 0xbef9a3f7, 0xc67178f2]]"

definition rotr32 :: "u32 \<Rightarrow> nat \<Rightarrow> u32" where
  "rotr32 x n = drop_bit n x OR push_bit (32 - n) x"

definition be32 :: "u8 \<Rightarrow> u8 \<Rightarrow> u8 \<Rightarrow> u8 \<Rightarrow> u32" where
  "be32 a b c d = push_bit 24 (ucast a) OR push_bit 16 (ucast b) OR push_bit 8 (ucast c) OR ucast d"

definition w_step :: "nat \<Rightarrow> u32 list \<Rightarrow> u32 list" where
  "w_step i w =
     (let s0 = rotr32 (w ! (i - 15)) 7 XOR rotr32 (w ! (i - 15)) 18 XOR drop_bit 3 (w ! (i - 15));
          s1 = rotr32 (w ! (i - 2)) 17 XOR rotr32 (w ! (i - 2)) 19 XOR drop_bit 10 (w ! (i - 2))
      in w @ [w ! (i - 16) + s0 + w ! (i - 7) + s1])"

definition message_schedule :: "u8 list \<Rightarrow> u32 list" where
  "message_schedule block =
     fold w_step [16..<64]
       (map (\<lambda>i. be32 (block ! (i * 4)) (block ! (i * 4 + 1)) (block ! (i * 4 + 2)) (block ! (i * 4 + 3))) [0..<16])"

fun sha_round :: "u32 \<times> u32 \<Rightarrow> u32 list \<Rightarrow> u32 list" where
  "sha_round (k, w) [a, b, c, d, e, f, g, h] =
     (let s1 = rotr32 e 6 XOR rotr32 e 11 XOR rotr32 e 25;
          ch = (e AND f) XOR (NOT e AND g);
          t1 = h + s1 + ch + k + w;
          s0 = rotr32 a 2 XOR rotr32 a 13 XOR rotr32 a 22;
          maj = (a AND b) XOR (a AND c) XOR (b AND c);
          t2 = s0 + maj
      in [t1 + t2, a, b, c, d + t1, e, f, g])"
| "sha_round kw st = st"

definition compress :: "u32 list \<Rightarrow> u8 list \<Rightarrow> u32 list" where
  "compress st block = map2 (+) st (fold sha_round (zip k256 (message_schedule block)) st)"

subsection \<open>The context\<close>

record sha256_ctx =
  sha_state :: "u32 list"
  sha_bitlen :: u64
  sha_data :: "u8 list"
  sha_datalen :: nat

definition sha256_transform :: "sha256_ctx \<Rightarrow> u8 list \<Rightarrow> sha256_ctx" where
  "sha256_transform ctx block = ctx\<lparr>sha_state := compress (sha_state ctx) block\<rparr>"

definition sha256_iv :: "u32 list" where
  "sha256_iv = [0x6a09e667, 0xbb67ae85, 0x3c6ef372, 0xa54ff53a, 0x510e527f, 0x9b05688c, 0x1f83d9ab, 0x5be0cd19]"

definition sha256_init :: "sha256_ctx \<Rightarrow> sha256_ctx" where
  "sha256_init ctx = ctx\<lparr>sha_state := sha256_iv, sha_bitlen := 0, sha_datalen := 0\<rparr>"

definition sha256_byte :: "u8 \<Rightarrow> sha256_ctx \<Rightarrow> sha256_ctx" where
  "sha256_byte x ctx =
     (let ctx1 = ctx\<lparr>sha_data := (sha_data ctx)[sha_datalen ctx := x], sha_datalen := sha_datalen ctx + 1\<rparr>
      in if sha_datalen ctx1 = SHA256_BLOCK_SIZE
         then (sha256_transform ctx1 (sha_data ctx1))\<lparr>sha_bitlen := sha_bitlen ctx1 + 512, sha_datalen := 0\<rparr>
         else ctx1)"

definition sha256_update :: "sha256_ctx \<Rightarrow> u8 list \<Rightarrow> sha256_ctx" where
  "sha256_update ctx data = fold sha256_byte data ctx"

text \<open>\<open>store_zeros d i n\<close> is the loop \<^verbatim>\<open>while (i < n) data[i++] = 0\<close>.\<close>

definition store_zeros :: "u8 list \<Rightarrow> nat \<Rightarrow> nat \<Rightarrow> u8 list" where
  "store_zeros d i n = fold (\<lambda>k d. d[k := 0]) [i..<n] d"

definition word_bytes :: "u32 \<Rightarrow> u8 list" where
  "word_bytes x = [ucast (drop_bit 24 x), ucast (drop_bit 16 x), ucast (drop_bit 8 x), ucast x]"

definition sha256_final :: "sha256_ctx \<Rightarrow> sha256_ctx \<times> u8 list" where
  "sha256_final ctx =
     (let i = sha_datalen ctx + 1;
          c1 = ctx\<lparr>sha_data := (sha_data ctx)[sha_datalen ctx := 0x80]\<rparr>;
          (i2, c2) = (if i > 56
             then (let c = c1\<lparr>sha_data := store_zeros (sha_data c1) i SHA256_BLOCK_SIZE\<rparr>
                   in (0, sha256_transform c (sha_data c)))
             else (i, c1));
          c3 = c2\<lparr>sha_data := store_zeros (sha_data c2) i2 56\<rparr>;
          total_bits = sha_bitlen c3 + of_nat (sha_datalen c3) * 8;
          c4 = c3\<lparr>sha_data := fold (\<lambda>b d. d[63 - b := ucast (drop_bit (b * 8) total_bits)]) [0..<8] (sha_data c3)\<rparr>;
          c5 = sha256_transform c4 (sha_data c4)
      in (c5, concat (map word_bytes (sha_state c5))))"

text \<open>The context is a local variable whose data are uninitialised: \<open>junk\<close>.\<close>

definition sha256_fresh :: "u8 list \<Rightarrow> sha256_ctx" where
  "sha256_fresh junk = sha256_init \<lparr>sha_state = replicate 8 0, sha_bitlen = 0, sha_data = junk, sha_datalen = 0\<rparr>"

definition sha256_hash :: "u8 list \<Rightarrow> u8 list \<Rightarrow> u8 list" where
  "sha256_hash junk data = snd (sha256_final (sha256_update (sha256_fresh junk) data))"

definition hex_digits :: string where "hex_digits = ''0123456789abcdef''"

definition sha256_hex :: "u8 list \<Rightarrow> string" where
  "sha256_hex hash =
     concat (map (\<lambda>i. [hex_digits ! unat (drop_bit 4 (hash ! i) AND 0x0f), hex_digits ! unat (hash ! i AND 0x0f)])
       [0..<SHA256_DIGEST_SIZE])"

subsection \<open>HMAC (\<^verbatim>\<open>crypt.c\<close>)\<close>

definition pad_key :: "u8 \<Rightarrow> u8 list \<Rightarrow> u8 list" where
  "pad_key m key = map (\<lambda>i. (if i < length key then key ! i else 0) XOR m) [0..<SHA256_BLOCK_SIZE]"

definition crypt_hmac_sha256_internal :: "u8 list \<Rightarrow> u8 list \<Rightarrow> u8 list \<Rightarrow> u8 list" where
  "crypt_hmac_sha256_internal junk key data =
     (let key1 = (if length key > SHA256_BLOCK_SIZE
                  then snd (sha256_final (sha256_update (sha256_fresh junk) key)) else key);
          kipad = pad_key 0x36 key1; kopad = pad_key 0x5c key1;
          (ctx, inner) = sha256_final (sha256_update (sha256_update (sha256_fresh junk) kipad) data);
          (ctx2, out) = sha256_final (sha256_update (sha256_update (sha256_init ctx) kopad) inner)
      in out)"

text \<open>The public routine uses one context for the key, too.\<close>

definition crypt_hmac_sha256 :: "u8 list \<Rightarrow> u8 list \<Rightarrow> u8 list \<Rightarrow> u8 list" where
  "crypt_hmac_sha256 junk key data =
     (let ctx0 = \<lparr>sha_state = replicate 8 0, sha_bitlen = 0, sha_data = junk, sha_datalen = 0\<rparr>;
          (ctx1, key1) = (if length key > SHA256_BLOCK_SIZE
             then sha256_final (sha256_update (sha256_init ctx0) key) else (ctx0, key));
          (ctx2, inner) = sha256_final (sha256_update (sha256_update (sha256_init ctx1) (pad_key 0x36 key1)) data);
          (ctx3, out) = sha256_final (sha256_update (sha256_update (sha256_init ctx2) (pad_key 0x5c key1)) inner)
      in out)"

definition crypt_constant_time_compare :: "u8 list \<Rightarrow> u8 list \<Rightarrow> nat \<Rightarrow> int" where
  "crypt_constant_time_compare a b len =
     (if fold (\<lambda>i diff. diff OR (a ! i XOR b ! i)) [0..<len] (0::u8) = 0 then 0 else -1)"

subsection \<open>The standard\<close>

text \<open>
  Reference definition: the padded message, cut into blocks, is absorbed block by block. \<open>absorb\<close> ignores an
  incomplete last block.
\<close>

function absorb :: "u32 list \<Rightarrow> u8 list \<Rightarrow> u32 list" where
  "absorb st m = (if length m < 64 then st else absorb (compress st (take 64 m)) (drop 64 m))"
  by pat_completeness auto
termination
  by (relation "measure (\<lambda>(_, m). length m)") auto

declare absorb.simps [simp del]

definition be64_bytes :: "u64 \<Rightarrow> u8 list" where
  "be64_bytes n = map (\<lambda>b. ucast (drop_bit (56 - 8 * b) n)) [0..<8]"

definition sha256_pad :: "u8 list \<Rightarrow> u8 list" where
  "sha256_pad msg =
     (let r = length msg mod 64
      in msg @ [0x80] @ replicate (if r \<le> 55 then 55 - r else 119 - r) 0 @ be64_bytes (of_nat (8 * length msg)))"

definition sha256_ref :: "u8 list \<Rightarrow> u8 list" where
  "sha256_ref msg = concat (map word_bytes (absorb sha256_iv (sha256_pad msg)))"

definition hmac_ref :: "u8 list \<Rightarrow> u8 list \<Rightarrow> u8 list" where
  "hmac_ref key msg =
     (let k = (if length key > 64 then sha256_ref key else key)
      in sha256_ref (pad_key 0x5c k @ sha256_ref (pad_key 0x36 k @ msg)))"

subsection \<open>Absorbing\<close>

lemma absorb_short: "length m < 64 \<Longrightarrow> absorb st m = st"
  by (simp add: absorb.simps)

lemma absorb_block: "length b = 64 \<Longrightarrow> absorb st (b @ m) = absorb (compress st b) m"
  by (subst absorb.simps) simp

lemma absorb_append: "64 dvd length p \<Longrightarrow> absorb st (p @ m) = absorb (absorb st p) m"
proof (induction st p rule: absorb.induct)
  case (1 st p)
  show ?case
  proof (cases "length p < 64")
    case True
    with 1(2) have "p = []" by (auto simp: dvd_def)
    then show ?thesis by (simp add: absorb_short)
  next
    case False
    have "64 dvd length (drop 64 p)" using 1(2) False by (simp add: dvd_diff_nat)
    from 1(1) [OF False this] have "absorb st (take 64 p @ drop 64 p @ m) = absorb (absorb st p) m"
      using False absorb_block [of "take 64 p" st "drop 64 p @ m"] by (simp add: absorb.simps [of st p])
    then show ?thesis by (metis append.assoc append_take_drop_id)
  qed
qed

lemma compress_length: "length st = 8 \<Longrightarrow> length (compress st b) = 8"
proof -
  have r: "length (sha_round kw st) = length st" for kw st by (cases "(kw, st)" rule: sha_round.cases) (simp_all add: Let_def)
  have "length (fold sha_round kws st) = length st" for kws st by (induction kws arbitrary: st) (simp_all add: r)
  then show "length st = 8 \<Longrightarrow> length (compress st b) = 8" by (simp add: compress_def)
qed

lemma absorb_length: "length st = 8 \<Longrightarrow> length (absorb st m) = 8"
  by (induction st m rule: absorb.induct) (subst absorb.simps, simp add: compress_length)

lemma sha256_ref_length: "length (sha256_ref m) = SHA256_DIGEST_SIZE"
proof -
  have "length (absorb sha256_iv (sha256_pad m)) = 8" by (rule absorb_length) (simp add: sha256_iv_def)
  moreover have "length (concat (map word_bytes ws)) = 4 * length ws" for ws by (induction ws) (simp_all add: word_bytes_def)
  ultimately show ?thesis by (simp add: sha256_ref_def SHA256_DIGEST_SIZE_def)
qed

subsection \<open>The streaming context\<close>

definition ctx_for :: "sha256_ctx \<Rightarrow> u8 list \<Rightarrow> bool" where
  "ctx_for c msg \<longleftrightarrow> length (sha_data c) = 64 \<and> sha_datalen c = length msg mod 64 \<and>
     sha_state c = absorb sha256_iv msg \<and> sha_bitlen c = of_nat (512 * (length msg div 64)) \<and>
     take (sha_datalen c) (sha_data c) = drop (64 * (length msg div 64)) msg"

lemma ctx_split:
  assumes "ctx_for c msg"
  obtains p t where "msg = p @ t" "length p = 64 * (length msg div 64)" "length t = sha_datalen c" "sha_datalen c < 64"
    "take (sha_datalen c) (sha_data c) = t" "sha_state c = absorb sha256_iv p" "length (sha_data c) = 64"
    "sha_bitlen c = of_nat (512 * (length msg div 64))"
proof -
  let ?n = "64 * (length msg div 64)"
  have n: "?n \<le> length msg" by simp
  have t: "length (drop ?n msg) = length msg mod 64" by (simp add: minus_mult_div_eq_mod)
  have "absorb sha256_iv msg = absorb (absorb sha256_iv (take ?n msg)) (drop ?n msg)"
    using absorb_append [of "take ?n msg" sha256_iv "drop ?n msg"] n by (simp add: min_absorb2)
  also have "\<dots> = absorb sha256_iv (take ?n msg)" by (rule absorb_short) (simp add: t)
  finally show ?thesis
    using assms n t by (intro that [of "take ?n msg" "drop ?n msg"]) (auto simp: ctx_for_def min_absorb2)
qed

lemma take_update_last: "i < length d \<Longrightarrow> take (Suc i) (d[i := x]) = take i d @ [x]"
  by (simp add: take_Suc_conv_app_nth)

lemma ctx_byte:
  assumes "ctx_for c msg"
  shows "ctx_for (sha256_byte x c) (msg @ [x])"
  using assms
proof (rule ctx_split)
  fix p t
  assume s: "msg = p @ t" "length p = 64 * (length msg div 64)" "length t = sha_datalen c" "sha_datalen c < 64"
    "take (sha_datalen c) (sha_data c) = t" "sha_state c = absorb sha256_iv p" "length (sha_data c) = 64"
    "sha_bitlen c = of_nat (512 * (length msg div 64))"
  have dp: "64 dvd length p" using s(2) by simp
  have upd: "take (Suc (sha_datalen c)) ((sha_data c)[sha_datalen c := x]) = t @ [x]"
    using take_update_last [of "sha_datalen c" "sha_data c" x] s(4,5,7) by simp
  have len: "length msg mod 64 = sha_datalen c" using assms by (simp add: ctx_for_def)
  show "ctx_for (sha256_byte x c) (msg @ [x])"
  proof (cases "sha_datalen c = 63")
    case True
    have full: "(sha_data c)[sha_datalen c := x] = t @ [x]" using upd s(7) True by simp
    have n: "Suc (length msg) div 64 = Suc (length msg div 64)" "Suc (length msg) mod 64 = 0"
      using True len by (simp_all add: div_Suc mod_Suc)
    have "absorb sha256_iv (msg @ [x]) = compress (absorb sha256_iv p) (t @ [x])"
      using absorb_append [OF dp, of sha256_iv "t @ [x]"] absorb_block [of "t @ [x]" _ "[]"] s(1,3) True
      by (simp add: absorb_short)
    then show ?thesis
      using True s full n len
      by (simp add: ctx_for_def sha256_byte_def sha256_transform_def SHA256_BLOCK_SIZE_def Let_def algebra_simps)
  next
    case False
    have n: "Suc (length msg) div 64 = length msg div 64" "Suc (length msg) mod 64 = Suc (sha_datalen c)"
      using False s(4) len by (simp_all add: div_Suc mod_Suc)
    have "absorb sha256_iv (msg @ [x]) = absorb sha256_iv p"
      using absorb_append [OF dp, of sha256_iv "t @ [x]"] s(1,3,4) False by (simp add: absorb_short)
    moreover have "drop (64 * (length msg div 64)) (msg @ [x]) = t @ [x]" using s(1,2) by simp
    ultimately show ?thesis
      using False s(6-8) upd n by (simp add: ctx_for_def sha256_byte_def SHA256_BLOCK_SIZE_def Let_def)
  qed
qed

lemma ctx_update: "ctx_for c msg \<Longrightarrow> ctx_for (sha256_update c data) (msg @ data)"
  unfolding sha256_update_def
proof (induction data arbitrary: c msg)
  case (Cons x data)
  from Cons.IH [OF ctx_byte [OF Cons.prems]] show ?case by simp
qed simp

lemma ctx_init: "length (sha_data c) = 64 \<Longrightarrow> ctx_for (sha256_init c) []"
  by (simp add: ctx_for_def sha256_init_def absorb_short)

subsection \<open>Finishing\<close>

lemma store_zeros_eq:
  assumes "i \<le> n" and "n \<le> length d"
  shows "store_zeros d i n = take i d @ replicate (n - i) 0 @ drop n d"
proof -
  have "length (store_zeros d i k) = length d" for k
    unfolding store_zeros_def by (induction k) auto
  moreover have "store_zeros d i k ! j = (if i \<le> j \<and> j < k then 0 else d ! j)" if "k \<le> length d" "j < length d" for k j
    using that unfolding store_zeros_def
  proof (induction k)
    case (Suc k)
    have "length (fold (\<lambda>k d. d[k := 0]) [i..<k] d) = length d" by (induction k) auto
    with Suc show ?case by (cases "i \<le> k") (auto simp: nth_list_update)
  qed simp
  ultimately show ?thesis using assms by (intro nth_equalityI) (auto simp: nth_append)
qed

lemma store_length_eq:
  assumes "length d = 64"
  shows "fold (\<lambda>b d. d[63 - b := ucast (drop_bit (b * 8) (n::u64))]) [0..<8] d = take 56 d @ be64_bytes n"
proof -
  have e: "[0..<8] = [0, 1, 2, 3, 4, 5, 6, 7::nat]" by (simp add: upt_rec)
  have "(take 56 d @ [a, b, c, x, e, f, g, h]) ! j = (d[63 := h, 62 := g, 61 := f, 60 := e, 59 := x, 58 := c, 57 := b, 56 := a]) ! j"
    if "j < 64" for a b c x e f g h j
  proof (cases "j < 56")
    case False
    with that have "j \<in> {56, 57, 58, 59, 60, 61, 62, 63}" by auto
    then show ?thesis using assms by (auto simp: nth_append)
  qed (use assms in \<open>simp add: nth_append\<close>)
  then have "d[63 := h, 62 := g, 61 := f, 60 := e, 59 := x, 58 := c, 57 := b, 56 := a] = take 56 d @ [a, b, c, x, e, f, g, h]"
    for a b c x e f g h
    using assms by (intro nth_equalityI) simp_all
  then show ?thesis unfolding be64_bytes_def e by simp
qed

lemma final_digest: "snd (sha256_final c) = concat (map word_bytes (sha_state (fst (sha256_final c))))"
  by (simp add: sha256_final_def Let_def split: prod.split)

lemma ctx_final:
  assumes "ctx_for c msg"
  shows "snd (sha256_final c) = sha256_ref msg" and "length (sha_data (fst (sha256_final c))) = 64"
proof -
  obtain p t where s: "msg = p @ t" "length p = 64 * (length msg div 64)" "length t = sha_datalen c" "sha_datalen c < 64"
    "take (sha_datalen c) (sha_data c) = t" "sha_state c = absorb sha256_iv p" "length (sha_data c) = 64"
    "sha_bitlen c = of_nat (512 * (length msg div 64))"
    using assms by (rule ctx_split)
  let ?r = "sha_datalen c"
  let ?d = "(sha_data c)[?r := 0x80]"
  let ?be = "be64_bytes (of_nat (8 * length msg))"
  have r: "length msg mod 64 = ?r" using assms by (simp add: ctx_for_def)
  have dp: "64 dvd length p" using s(2) by simp
  have d: "take (Suc ?r) ?d = t @ [0x80]" "length ?d = 64"
    using take_update_last [of ?r "sha_data c" "0x80"] s(4,5,7) by simp_all
  define q where "q = length msg div 64"
  have bl: "sha_bitlen c = of_nat (512 * q)" using s(8) unfolding q_def .
  have "length msg = 64 * q + ?r" unfolding q_def r [symmetric] by simp
  then have bits: "sha_bitlen c + of_nat ?r * 8 = of_nat (8 * length msg)" unfolding bl by simp
  have m: "msg @ x = p @ (t @ x)" for x by (simp add: s(1))
  have abs: "absorb sha256_iv (sha256_pad msg) =
      absorb (sha_state c) (t @ [0x80] @ replicate (if ?r \<le> 55 then 55 - ?r else 119 - ?r) 0 @ ?be)"
    unfolding sha256_pad_def Let_def r m absorb_append [OF dp] s(6) ..
  have be: "length ?be = 8" by (simp add: be64_bytes_def)
  note final = sha256_final_def Let_def sha256_transform_def SHA256_BLOCK_SIZE_def bits
  have "sha_state (fst (sha256_final c)) = absorb sha256_iv (sha256_pad msg) \<and> length (sha_data (fst (sha256_final c))) = 64"
  proof (cases "?r \<le> 55")
    case True
    let ?b = "t @ [0x80] @ replicate (55 - ?r) 0 @ ?be"
    have z: "store_zeros ?d (?r + 1) 56 = (t @ [0x80] @ replicate (55 - ?r) 0) @ drop 56 ?d"
      using store_zeros_eq [of "?r + 1" 56 ?d] d True by simp
    have l: "length (t @ [0x80] @ replicate (55 - ?r) (0::u8)) = 56" using True s(3) by simp
    have tk: "take 56 (store_zeros ?d (?r + 1) 56) = t @ [0x80] @ replicate (55 - ?r) 0"
      unfolding z using l by (metis append_eq_conv_conj)
    have zl: "length (store_zeros ?d (?r + 1) 56) = 64" unfolding z using l d(2) by simp
    have "fold (\<lambda>b d. d[63 - b := ucast (drop_bit (b * 8) (of_nat (8 * length msg) :: u64))]) [0..<8] (store_zeros ?d (?r + 1) 56) = ?b"
      using store_length_eq [of "store_zeros ?d (?r + 1) 56" "of_nat (8 * length msg)"] tk zl by simp
    moreover have "absorb (sha_state c) ?b = compress (sha_state c) ?b"
      using absorb_block [of ?b _ "[]"] l be by (simp add: absorb_short)
    moreover have "length ?b = 64" using l be by simp
    ultimately show ?thesis using True abs by (simp add: final)
  next
    case False
    let ?b1 = "t @ [0x80] @ replicate (63 - ?r) 0" and ?b2 = "replicate 56 0 @ ?be"
    have z: "store_zeros ?d (?r + 1) 64 = ?b1" using store_zeros_eq [of "?r + 1" 64 ?d] d s(4) by simp
    have l: "length ?b1 = 64" using s(3,4) by simp
    have z2: "store_zeros ?b1 0 56 = replicate 56 0 @ drop 56 ?b1" using store_zeros_eq [of 0 56 ?b1] l by simp
    have "fold (\<lambda>b d. d[63 - b := ucast (drop_bit (b * 8) (of_nat (8 * length msg) :: u64))]) [0..<8] (store_zeros ?b1 0 56) = ?b2"
      using store_length_eq [of "store_zeros ?b1 0 56" "of_nat (8 * length msg)"] l unfolding z2 by simp
    moreover have "absorb (sha_state c) (?b1 @ ?b2) = compress (compress (sha_state c) ?b1) ?b2"
      using absorb_block [of ?b2 _ "[]"] absorb_block [OF l] be by (simp add: absorb_short)
    moreover have "t @ [0x80] @ replicate (119 - ?r) 0 @ ?be = ?b1 @ ?b2"
      using False s(4) replicate_add [of "63 - ?r" 56 "0::u8"] by simp
    moreover have "length ?b2 = 64" using be by simp
    ultimately show ?thesis using False abs z by (simp add: final)
  qed
  then show "snd (sha256_final c) = sha256_ref msg" and "length (sha_data (fst (sha256_final c))) = 64"
    by (simp_all add: sha256_ref_def final_digest)
qed

lemma ctx_pieces: "ctx_for c msg \<Longrightarrow> ctx_for (fold (\<lambda>d c. sha256_update c d) pieces c) (msg @ concat pieces)"
proof (induction pieces arbitrary: c msg)
  case (Cons d pieces)
  from Cons.IH [OF ctx_update [OF Cons.prems, of d]] show ?case by simp
qed simp

lemma final_two:
  assumes "length (sha_data c) = 64"
  shows "snd (sha256_final (sha256_update (sha256_update (sha256_init c) a) b)) = sha256_ref (a @ b)"
    and "length (sha_data (fst (sha256_final (sha256_update (sha256_update (sha256_init c) a) b)))) = 64"
  using ctx_final [OF ctx_update [OF ctx_update [OF ctx_init [OF assms]]], of a b] by simp_all

lemma final_one:
  assumes "length (sha_data c) = 64"
  shows "snd (sha256_final (sha256_update (sha256_init c) a)) = sha256_ref a"
    and "length (sha_data (fst (sha256_final (sha256_update (sha256_init c) a)))) = 64"
  using ctx_final [OF ctx_update [OF ctx_init [OF assms]], of a] by simp_all

lemma hmac_internal_ref: "length junk = 64 \<Longrightarrow> crypt_hmac_sha256_internal junk key msg = hmac_ref key msg"
  using final_one [of "\<lparr>sha_state = replicate 8 0, sha_bitlen = 0, sha_data = junk, sha_datalen = 0\<rparr>" key]
  by (simp add: crypt_hmac_sha256_internal_def hmac_ref_def Let_def sha256_fresh_def final_two SHA256_BLOCK_SIZE_def split: prod.split)
   (metis final_two fst_conv snd_conv sha256_ctx.select_convs(3))

lemma hmac_public_ref: "length junk = 64 \<Longrightarrow> crypt_hmac_sha256 junk key msg = hmac_ref key msg"
proof -
  assume j: "length junk = 64"
  define c0 where "c0 = \<lparr>sha_state = replicate 8 0, sha_bitlen = 0, sha_data = junk, sha_datalen = 0\<rparr>"
  have l0: "length (sha_data c0) = 64" using j by (simp add: c0_def)
  obtain c1 key1 where k: "(if length key > 64 then sha256_final (sha256_update (sha256_init c0) key) else (c0, key)) = (c1, key1)"
    by fastforce
  have k1: "length (sha_data c1) = 64" "key1 = (if length key > 64 then sha256_ref key else key)"
    using k l0 final_one [OF l0, of key] by (auto split: if_splits)
  obtain c2 inner where i: "sha256_final (sha256_update (sha256_update (sha256_init c1) (pad_key 0x36 key1)) msg) = (c2, inner)" by fastforce
  note f2 = final_two [OF k1(1), of "pad_key 0x36 key1" msg, unfolded i fst_conv snd_conv]
  obtain c3 out where o: "sha256_final (sha256_update (sha256_update (sha256_init c2) (pad_key 0x5c key1)) inner) = (c3, out)" by fastforce
  have "out = sha256_ref (pad_key 0x5c key1 @ inner)" using final_two(1) [OF f2(2), of "pad_key 0x5c key1" inner] unfolding o by simp
  then show ?thesis
    unfolding crypt_hmac_sha256_def Let_def c0_def [symmetric] SHA256_BLOCK_SIZE_def k prod.case i o hmac_ref_def k1(2) [symmetric] f2(1) [symmetric] .
qed

lemma constant_time_compare_iff:
  "crypt_constant_time_compare a b len = 0 \<longleftrightarrow> (\<forall>i<len. a ! i = b ! i)"
proof -
  have "(fold (\<lambda>i diff. diff OR (a ! i XOR b ! i)) xs d = 0) = (d = 0 \<and> (\<forall>i\<in>set xs. a ! i = b ! i))" for xs and d :: u8
  proof (induction xs arbitrary: d)
    case (Cons x xs)
    have "(d OR (a ! x XOR b ! x) = 0) = (d = 0 \<and> a ! x = b ! x)"
      by (auto simp: bit_eq_iff bit_simps)
    then show ?case by (auto simp: Cons.IH)
  qed simp
  from this [of "[0..<len]" 0] show ?thesis by (auto simp: crypt_constant_time_compare_def)
qed

subsection \<open>Property\<close>



end
