(* ===== verification/Journal.thy ===== *)
theory Journal
  imports Disk Sha256
begin

text \<open>
  The write-ahead journal of the file system: \<^verbatim>\<open>fs/journal/journal.c\<close>.

  A journal occupies a range of blocks of a device: a superblock and a ring of \<^verbatim>\<open>sb.block_count\<close> blocks. A
  transaction is written as a header block with the target addresses, its data blocks and a commit block; the
  superblock with the new \<^verbatim>\<open>head\<close> is written last. Structs on disk are encoded byte by byte in the layout the
  compiler gives them (little endian, no padding). The device is a \<open>block_device\<close> over a driver state \<open>'c\<close>;
  blocks are byte lists of the block size. The model is meant for block sizes of at least 288 bytes, where
  a header with 16 references fits a block.

  Which allocations succeed is an argument (\<open>journal_mem\<close>); an allocation inside a loop succeeds on every turn or
  on none. The search loop of the replay may run for ever on a corrupt superblock, so it is a
  \<open>partial_function\<close> whose result is then \<open>None\<close>. A commit that would read through a null data pointer is \<open>None\<close>, too.
\<close>

subsection \<open>On-disk structures\<close>

definition JOURNAL_MAGIC :: u32 where "JOURNAL_MAGIC = 0x4A524E4C"
definition JOURNAL_VERSION :: u32 where "JOURNAL_VERSION = 1"
definition JOURNAL_VERSION_AUTH :: u32 where "JOURNAL_VERSION_AUTH = 2"
definition JOURNAL_ENTRY_MAX_BLOCKS :: nat where "JOURNAL_ENTRY_MAX_BLOCKS = 16"
definition JOURNAL_HMAC_TAG_SIZE :: nat where "JOURNAL_HMAC_TAG_SIZE = 16"
definition JOURNAL_HMAC_KEY_MAX :: nat where "JOURNAL_HMAC_KEY_MAX = 32"
definition JOURNAL_ENTRY_FLAG_HMAC :: u32 where "JOURNAL_ENTRY_FLAG_HMAC = 1"
definition JOURNAL_ENTRY_WRITE_META :: u32 where "JOURNAL_ENTRY_WRITE_META = 4"
definition JOURNAL_ENTRY_COMMIT :: u32 where "JOURNAL_ENTRY_COMMIT = 7"

record journal_superblock =
  sb_magic :: u32
  sb_version :: u32
  sb_block_size :: u32
  sb_block_count :: u32
  sb_head :: u32
  sb_tail :: u32
  sb_sequence :: u64
  sb_checksum :: u32
  sb_reserved :: "u32 list"

record journal_entry_header =
  eh_magic :: u32
  eh_type :: u32
  eh_sequence :: u64
  eh_block_count :: u32
  eh_data_size :: u32
  eh_checksum :: u32
  eh_flags :: u32

record journal_block_ref =
  br_target_block :: u64
  br_offset :: u32
  br_length :: u32

definition sb_bytes :: "journal_superblock \<Rightarrow> u8 list" where
  "sb_bytes sb =
     le32 (sb_magic sb) @ le32 (sb_version sb) @ le32 (sb_block_size sb) @ le32 (sb_block_count sb) @ le32 (sb_head sb) @
     le32 (sb_tail sb) @ le64 (sb_sequence sb) @ le32 (sb_checksum sb) @ concat (map le32 (sb_reserved sb))"

definition sb_of :: "u8 list \<Rightarrow> journal_superblock" where
  "sb_of b =
     \<lparr>sb_magic = le32_at b 0, sb_version = le32_at b 4, sb_block_size = le32_at b 8, sb_block_count = le32_at b 12,
      sb_head = le32_at b 16, sb_tail = le32_at b 20, sb_sequence = le64_at b 24, sb_checksum = le32_at b 32,
      sb_reserved = map (\<lambda>i. le32_at b (36 + i * 4)) [0..<7]\<rparr>"

definition hdr_bytes :: "journal_entry_header \<Rightarrow> u8 list" where
  "hdr_bytes h =
     le32 (eh_magic h) @ le32 (eh_type h) @ le64 (eh_sequence h) @ le32 (eh_block_count h) @ le32 (eh_data_size h) @
     le32 (eh_checksum h) @ le32 (eh_flags h)"

definition hdr_of :: "u8 list \<Rightarrow> journal_entry_header" where
  "hdr_of b =
     \<lparr>eh_magic = le32_at b 0, eh_type = le32_at b 4, eh_sequence = le64_at b 8, eh_block_count = le32_at b 16,
      eh_data_size = le32_at b 20, eh_checksum = le32_at b 24, eh_flags = le32_at b 28\<rparr>"

definition ref_bytes :: "journal_block_ref \<Rightarrow> u8 list" where
  "ref_bytes r = le64 (br_target_block r) @ le32 (br_offset r) @ le32 (br_length r)"

definition ref_at :: "u8 list \<Rightarrow> nat \<Rightarrow> journal_block_ref" where
  "ref_at b off = \<lparr>br_target_block = le64_at b off, br_offset = le32_at b (off + 8), br_length = le32_at b (off + 12)\<rparr>"

text \<open>A block buffer of size \<open>bs\<close> that was zeroed and then holds the bytes \<open>xs\<close> at its start.\<close>

definition block_with :: "nat \<Rightarrow> u8 list \<Rightarrow> u8 list" where
  "block_with bs xs = take bs (xs @ replicate bs 0)"

subsection \<open>State\<close>

record journal =
  jr_start_block :: u64
  jr_block_count :: u32
  jr_sb :: journal_superblock
  jr_current_sequence :: u64
  jr_dirty :: bool
  jr_replaying :: bool
  jr_hmac_key :: "u8 list"
  jr_hmac_key_len :: nat

record journal_transaction =
  tx_sequence :: u64
  tx_refs :: "journal_block_ref list"
  tx_data_buffer :: "u8 list option"
  tx_data_used :: u32
  tx_committed :: bool

record journal_mem =
  jm_buf :: bool
  jm_sb :: bool
  jm_staged :: bool
  jm_data :: bool
  jm_hmac :: bool

definition journal_crc32 :: "u8 list \<Rightarrow> u32" where
  "journal_crc32 data = NOT (fold (\<lambda>x crc. (crc_bit ^^ 8) (crc XOR ucast x)) data 0xFFFFFFFF)"

definition journal_constant_time_eq :: "u8 list \<Rightarrow> u8 list \<Rightarrow> nat \<Rightarrow> bool" where
  "journal_constant_time_eq a b len = (fold (\<lambda>i diff. diff OR (a ! i XOR b ! i)) [0..<len] (0::u8) = 0)"

definition JOURNAL_HMAC_DOMAIN :: "u8 list" where
  "JOURNAL_HMAC_DOMAIN = [0x43, 0x41, 0x50, 0x59, 0x4A, 0x52, 0x4E, 0x4C, 0x32]"

definition hmac_message :: "u64 \<Rightarrow> u32 \<Rightarrow> journal_block_ref list \<Rightarrow> u8 list \<Rightarrow> u8 list" where
  "hmac_message sequence block_count refs payload =
     JOURNAL_HMAC_DOMAIN @ le64 sequence @ le32 block_count @ concat (map ref_bytes refs) @ payload"

definition journal_compute_hmac ::
  "journal_mem \<Rightarrow> journal \<Rightarrow> u64 \<Rightarrow> u32 \<Rightarrow> journal_block_ref list \<Rightarrow> u8 list \<Rightarrow> u8 list" where
  "journal_compute_hmac m j sequence block_count refs payload =
     (if \<not> jm_hmac m then replicate JOURNAL_HMAC_TAG_SIZE 0
      else take JOURNAL_HMAC_TAG_SIZE
             (crypt_hmac_sha256 (replicate SHA256_BLOCK_SIZE 0) (take (jr_hmac_key_len j) (jr_hmac_key j))
               (hmac_message sequence block_count refs payload)))"

subsection \<open>Access to the device\<close>

definition journal_addr :: "journal \<Rightarrow> u64 \<Rightarrow> u32" where
  "journal_addr j block = ucast (jr_start_block j + block)"

definition journal_read_block :: "'c block_device \<Rightarrow> journal \<Rightarrow> u64 \<Rightarrow> u8 list \<Rightarrow> 'c \<Rightarrow> int \<times> u8 list \<times> 'c" where
  "journal_read_block dev j block buf c = block_device_read dev (journal_addr j block) buf c"

definition journal_write_block :: "'c block_device \<Rightarrow> journal \<Rightarrow> u64 \<Rightarrow> u8 list \<Rightarrow> 'c \<Rightarrow> int \<times> 'c" where
  "journal_write_block dev j block buf c = block_device_write dev (journal_addr j block) buf c"

text \<open>A sequence of writes whose results are ignored.\<close>

definition journal_writes :: "'c block_device \<Rightarrow> journal \<Rightarrow> (u64 \<times> u8 list) list \<Rightarrow> 'c \<Rightarrow> 'c" where
  "journal_writes dev j ws c = fold (\<lambda>(b, d) c. snd (journal_write_block dev j b d c)) ws c"

abbreviation bsize :: "'c block_device \<Rightarrow> nat" where
  "bsize dev \<equiv> unat (bd_block_size dev)"

definition sb_block :: "nat \<Rightarrow> journal_superblock \<Rightarrow> u8 list" where
  "sb_block bs sb = block_with bs (sb_bytes sb)"

definition sb_crc :: "journal_superblock \<Rightarrow> u32" where
  "sb_crc sb = journal_crc32 (take 32 (sb_bytes sb))"

subsection \<open>Formatting and opening\<close>

definition journal_format_with_version ::
  "journal_mem \<Rightarrow> 'c block_device \<Rightarrow> u64 \<Rightarrow> u32 \<Rightarrow> u32 \<Rightarrow> journal \<Rightarrow> 'c \<Rightarrow> int \<times> journal \<times> 'c" where
  "journal_format_with_version m dev start_block block_count version j c =
     (if block_count < 4 then (-1, j, c)
      else
        (let sb = \<lparr>sb_magic = JOURNAL_MAGIC, sb_version = version, sb_block_size = bd_block_size dev,
                   sb_block_count = block_count - 1, sb_head = 0, sb_tail = 0, sb_sequence = 1,
                   sb_checksum = sb_checksum (jr_sb j), sb_reserved = sb_reserved (jr_sb j)\<rparr>;
             j1 = j\<lparr>jr_start_block := start_block, jr_block_count := block_count, jr_sb := sb\<rparr>
         in if \<not> jm_buf m then (-1, j1, c)
            else
              (let c1 = journal_writes dev j1 (map (\<lambda>i. (of_nat i, replicate (bsize dev) 0)) [0..<unat block_count]) c;
                   sb1 = sb\<lparr>sb_checksum := sb_crc sb\<rparr>;
                   j2 = j1\<lparr>jr_sb := sb1\<rparr>
               in if \<not> jm_sb m then (-1, j2, c1)
                  else
                    (let (r, c2) = journal_write_block dev j2 0 (sb_block (bsize dev) sb1) c1
                     in (r, j2\<lparr>jr_current_sequence := 1, jr_dirty := False, jr_replaying := False\<rparr>, c2)))))"

definition journal_format ::
  "journal_mem \<Rightarrow> 'c block_device \<Rightarrow> u64 \<Rightarrow> u32 \<Rightarrow> journal \<Rightarrow> 'c \<Rightarrow> int \<times> journal \<times> 'c" where
  "journal_format m dev start_block block_count j c =
     (let (r, j1, c1) = journal_format_with_version m dev start_block block_count JOURNAL_VERSION j c
      in (r, if r = 0 then j1\<lparr>jr_hmac_key := replicate JOURNAL_HMAC_KEY_MAX 0, jr_hmac_key_len := 0\<rparr> else j1, c1))"

text \<open>The key buffer after a key has been stored over zeroes.\<close>

definition store_key :: "u8 list \<Rightarrow> journal \<Rightarrow> journal" where
  "store_key key j =
     j\<lparr>jr_hmac_key := key @ replicate (JOURNAL_HMAC_KEY_MAX - length key) 0, jr_hmac_key_len := length key\<rparr>"

definition journal_format_authenticated ::
  "journal_mem \<Rightarrow> 'c block_device \<Rightarrow> u64 \<Rightarrow> u32 \<Rightarrow> u8 list \<Rightarrow> journal \<Rightarrow> 'c \<Rightarrow> int \<times> journal \<times> 'c" where
  "journal_format_authenticated m dev start_block block_count key j c =
     (if key = [] \<or> length key > JOURNAL_HMAC_KEY_MAX then (-1, j, c)
      else
        (let (r, j1, c1) = journal_format_with_version m dev start_block block_count JOURNAL_VERSION_AUTH j c
         in if r \<noteq> 0 then (r, j1, c1) else (0, store_key key j1, c1)))"

definition journal_set_hmac_key :: "u8 list \<Rightarrow> journal \<Rightarrow> int \<times> journal" where
  "journal_set_hmac_key key j =
     (if key = [] then (0, store_key [] j)
      else if length key > JOURNAL_HMAC_KEY_MAX then (-1, j)
      else (0, store_key key j))"

definition journal_is_authenticated :: "journal \<Rightarrow> bool" where
  "journal_is_authenticated j \<longleftrightarrow> sb_version (jr_sb j) = JOURNAL_VERSION_AUTH \<and> jr_hmac_key_len j > 0"

definition journal_init :: "journal_mem \<Rightarrow> 'c block_device \<Rightarrow> u64 \<Rightarrow> u32 \<Rightarrow> journal \<Rightarrow> 'c \<Rightarrow> int \<times> journal \<times> 'c" where
  "journal_init m dev start_block block_count j c =
     (let j1 = store_key [] (j\<lparr>jr_start_block := start_block, jr_block_count := block_count, jr_dirty := False,
                               jr_replaying := False\<rparr>)
      in if \<not> jm_sb m then (-1, j1, c)
         else
           (let (r, b, c1) = journal_read_block dev j1 0 (replicate (bsize dev) 0) c in
            if r \<noteq> 0 then (-1, j1, c1)
            else
              (let j2 = j1\<lparr>jr_sb := sb_of b\<rparr> in
               if sb_magic (jr_sb j2) \<noteq> JOURNAL_MAGIC then (-1, j2, c1)
               else if sb_version (jr_sb j2) \<noteq> JOURNAL_VERSION \<and> sb_version (jr_sb j2) \<noteq> JOURNAL_VERSION_AUTH then (-1, j2, c1)
               else
                 (let j3 = j2\<lparr>jr_current_sequence := sb_sequence (jr_sb j2)\<rparr>
                  in if \<not> jm_buf m then (-1, j3, c1) else (0, j3, c1)))))"

definition journal_needs_replay :: "journal \<Rightarrow> bool" where
  "journal_needs_replay j \<longleftrightarrow> sb_head (jr_sb j) \<noteq> sb_tail (jr_sb j)"

subsection \<open>Replay\<close>

definition ring_next :: "journal \<Rightarrow> u32 \<Rightarrow> u32" where
  "ring_next j pos = (pos + 1) mod sb_block_count (jr_sb j)"

definition read_ring :: "'c block_device \<Rightarrow> journal \<Rightarrow> u32 \<Rightarrow> 'c \<Rightarrow> int \<times> u8 list \<times> 'c" where
  "read_ring dev j pos c = journal_read_block dev j (ucast (1 + pos)) (replicate (bsize dev) 0) c"

text \<open>Writes a logged block to its target.\<close>

definition apply_block :: "'c block_device \<Rightarrow> journal_block_ref \<Rightarrow> u8 list \<Rightarrow> 'c \<Rightarrow> 'c" where
  "apply_block dev ref d c = snd (block_device_write dev (ucast (br_target_block ref)) d c)"

text \<open>Version 1: the blocks are applied as they are read. The result is the position after them.\<close>

fun apply_legacy ::
  "journal_mem \<Rightarrow> 'c block_device \<Rightarrow> journal \<Rightarrow> journal_block_ref list \<Rightarrow> u32 \<Rightarrow> 'c \<Rightarrow> u32 \<times> 'c" where
  "apply_legacy m dev j [] data_pos c = (data_pos, c)"
| "apply_legacy m dev j (ref # refs) data_pos c =
     (if data_pos = sb_head (jr_sb j) \<or> \<not> jm_data m then (data_pos, c)
      else
        (let (r, d, c1) = read_ring dev j data_pos c
         in apply_legacy m dev j refs (ring_next j data_pos) (if r = 0 then apply_block dev ref d c1 else c1)))"

text \<open>Version 2: the blocks are staged first. The result is the read status, the blocks, and the position.\<close>

fun stage_blocks :: "'c block_device \<Rightarrow> journal \<Rightarrow> nat \<Rightarrow> u32 \<Rightarrow> 'c \<Rightarrow> bool \<times> u8 list list \<times> u32 \<times> 'c" where
  "stage_blocks dev j 0 data_pos c = (True, [], data_pos, c)"
| "stage_blocks dev j (Suc n) data_pos c =
     (if data_pos = sb_head (jr_sb j) then (True, [], data_pos, c)
      else
        (let (r, d, c1) = read_ring dev j data_pos c in
         if r \<noteq> 0 then (False, [], data_pos, c1)
         else (let (ok, ds, pos, c2) = stage_blocks dev j n (ring_next j data_pos) c1 in (ok, d # ds, pos, c2))))"

definition journal_extract_commit_tag :: "u8 list \<Rightarrow> u8 list" where
  "journal_extract_commit_tag b = map (\<lambda>i. b ! (32 + i)) [0..<JOURNAL_HMAC_TAG_SIZE]"

text \<open>The checks on the commit block that follows the staged blocks.\<close>

definition commit_valid ::
  "journal_mem \<Rightarrow> journal \<Rightarrow> journal_entry_header \<Rightarrow> journal_block_ref list \<Rightarrow> u8 list list \<Rightarrow> u8 list \<Rightarrow> bool" where
  "commit_valid m j hdr refs staged b \<longleftrightarrow>
     (let ch = hdr_of b in
      \<not> (eh_magic ch \<noteq> JOURNAL_MAGIC \<or> eh_type ch \<noteq> JOURNAL_ENTRY_COMMIT \<or> eh_sequence ch \<noteq> eh_sequence hdr \<or>
         eh_flags ch AND JOURNAL_ENTRY_FLAG_HMAC = 0) \<and>
      journal_constant_time_eq (journal_extract_commit_tag b)
        (journal_compute_hmac m j (eh_sequence hdr) (of_nat (length refs)) refs (concat staged)) JOURNAL_HMAC_TAG_SIZE)"

text \<open>One turn of the loop: it ends (with \<^verbatim>\<open>integrity_ok\<close>) or goes on at a position.\<close>

datatype 'c replay_step = Ends bool 'c | Goes_on u32 'c

definition entry_refs :: "u8 list \<Rightarrow> journal_block_ref list" where
  "entry_refs b = map (\<lambda>i. ref_at b (32 + i * 16)) [0..<min (unat (eh_block_count (hdr_of b))) JOURNAL_ENTRY_MAX_BLOCKS]"

definition replay_authenticated ::
  "journal_mem \<Rightarrow> 'c block_device \<Rightarrow> journal \<Rightarrow> u8 list \<Rightarrow> u32 \<Rightarrow> 'c \<Rightarrow> 'c replay_step" where
  "replay_authenticated m dev j b pos c =
     (let refs = entry_refs b; (read_ok, staged, data_pos, c1) = stage_blocks dev j (length refs) (ring_next j pos) c in
      if \<not> read_ok \<or> length staged \<noteq> length refs then Ends False c1
      else if data_pos = sb_head (jr_sb j) then Ends False c1
      else
        (let (r, cb, c2) = read_ring dev j data_pos c1 in
         if r \<noteq> 0 then Ends False c2
         else if \<not> commit_valid m j (hdr_of b) refs staged cb then Ends False c2
         else Goes_on (ring_next j data_pos) (fold (\<lambda>(ref, d) c. apply_block dev ref d c) (zip refs staged) c2)))"

definition replay_entry :: "journal_mem \<Rightarrow> 'c block_device \<Rightarrow> journal \<Rightarrow> u32 \<Rightarrow> 'c \<Rightarrow> 'c replay_step" where
  "replay_entry m dev j pos c =
     (let (r, b, c1) = read_ring dev j pos c in
      if r \<noteq> 0 then Ends True c1
      else
        (let hdr = hdr_of b in
         if eh_magic hdr \<noteq> JOURNAL_MAGIC then Ends True c1
         else if eh_type hdr = JOURNAL_ENTRY_COMMIT then Goes_on (ring_next j pos) c1
         else if eh_type hdr = JOURNAL_ENTRY_WRITE_META \<and> eh_block_count hdr > 0 then
           (if \<not> journal_is_authenticated j
            then (let (pos1, c2) = apply_legacy m dev j (entry_refs b) (ring_next j pos) c1 in Goes_on pos1 c2)
            else replay_authenticated m dev j b pos c1)
         else Goes_on (ring_next j pos) c1))"

partial_function (option) replay_from ::
  "journal_mem \<Rightarrow> 'c block_device \<Rightarrow> journal \<Rightarrow> u32 \<Rightarrow> 'c \<Rightarrow> (bool \<times> 'c) option" where
  "replay_from m dev j pos c =
     (if pos = sb_head (jr_sb j) then Some (True, c)
      else (case replay_entry m dev j pos c of
              Ends ok c1 \<Rightarrow> Some (ok, c1)
            | Goes_on pos1 c1 \<Rightarrow> replay_from m dev j pos1 c1))"

definition journal_replay :: "journal_mem \<Rightarrow> 'c block_device \<Rightarrow> journal \<Rightarrow> 'c \<Rightarrow> (int \<times> journal \<times> 'c) option" where
  "journal_replay m dev j c =
     (if \<not> journal_needs_replay j then Some (0, j, c)
      else if sb_version (jr_sb j) = JOURNAL_VERSION_AUTH \<and> jr_hmac_key_len j = 0 then Some (-1, j, c)
      else if \<not> jm_buf m then Some (-1, j\<lparr>jr_replaying := False\<rparr>, c)
      else if journal_is_authenticated j \<and> \<not> jm_staged m then Some (-1, j\<lparr>jr_replaying := False\<rparr>, c)
      else
        (let j1 = j\<lparr>jr_replaying := True\<rparr> in
         case replay_from m dev j1 (sb_tail (jr_sb j1)) c of None \<Rightarrow> None
         | Some (ok, c1) \<Rightarrow>
             (let sb = (jr_sb j1)\<lparr>sb_tail := sb_head (jr_sb j1), sb_sequence := sb_sequence (jr_sb j1) + 1\<rparr>;
                  c2 = (if jm_sb m then snd (journal_write_block dev j1 0 (sb_block (bsize dev) sb) c1) else c1)
              in Some (if ok then 0 else -1,
                       j1\<lparr>jr_sb := sb, jr_replaying := False, jr_current_sequence := sb_sequence sb\<rparr>, c2))))"

subsection \<open>Transactions\<close>

definition journal_begin :: "journal \<Rightarrow> journal_transaction \<times> journal" where
  "journal_begin j =
     (\<lparr>tx_sequence = jr_current_sequence j, tx_refs = [], tx_data_buffer = None, tx_data_used = 0, tx_committed = False\<rparr>,
      j\<lparr>jr_current_sequence := jr_current_sequence j + 1\<rparr>)"

definition journal_log_block ::
  "bool \<Rightarrow> nat \<Rightarrow> u64 \<Rightarrow> u8 list \<Rightarrow> u32 \<Rightarrow> u32 \<Rightarrow> journal_transaction \<Rightarrow> int \<times> journal_transaction" where
  "journal_log_block alloc_ok bs target_block data off len txn =
     (if length (tx_refs txn) \<ge> JOURNAL_ENTRY_MAX_BLOCKS then (-1, txn)
      else
        (let txn1 = txn\<lparr>tx_refs := tx_refs txn @ [\<lparr>br_target_block = target_block, br_offset = off, br_length = len\<rparr>]\<rparr>;
             buf = (case tx_data_buffer txn of Some b \<Rightarrow> Some b
                    | None \<Rightarrow> if alloc_ok then Some (replicate (JOURNAL_ENTRY_MAX_BLOCKS * bs) 0) else None)
         in case buf of None \<Rightarrow> (-1, txn1)
            | Some b \<Rightarrow>
                (let dst = length (tx_refs txn) * bs;
                     d = map (\<lambda>i. if i < unat len then data ! i else 0) [0..<bs]
                 in (0, txn1\<lparr>tx_data_buffer := Some (take dst b @ d @ drop (dst + bs) b),
                             tx_data_used := tx_data_used txn + of_nat bs\<rparr>))))"

definition ring_used :: "journal \<Rightarrow> u32" where
  "ring_used j =
     (let sb = jr_sb j in
      if sb_head sb \<ge> sb_tail sb then sb_head sb - sb_tail sb else sb_block_count sb - sb_tail sb + sb_head sb)"

text \<open>The blocks of an entry. The checksum is computed over the block with a zero in its place.\<close>

definition sealed :: "nat \<Rightarrow> journal_entry_header \<Rightarrow> u8 list \<Rightarrow> u8 list" where
  "sealed bs hdr rest = block_with bs (hdr_bytes (hdr\<lparr>eh_checksum := journal_crc32 (block_with bs (hdr_bytes hdr @ rest))\<rparr>) @ rest)"

definition header_block :: "nat \<Rightarrow> journal_transaction \<Rightarrow> u8 list" where
  "header_block bs txn =
     sealed bs \<lparr>eh_magic = JOURNAL_MAGIC, eh_type = JOURNAL_ENTRY_WRITE_META, eh_sequence = tx_sequence txn,
                eh_block_count = of_nat (length (tx_refs txn)), eh_data_size = tx_data_used txn, eh_checksum = 0, eh_flags = 0\<rparr>
       (concat (map ref_bytes (tx_refs txn)))"

definition data_block :: "nat \<Rightarrow> u8 list \<Rightarrow> nat \<Rightarrow> u8 list" where
  "data_block bs buf i = take bs (drop (i * bs) buf)"

definition commit_block :: "journal_mem \<Rightarrow> nat \<Rightarrow> journal \<Rightarrow> journal_transaction \<Rightarrow> u8 list \<Rightarrow> u8 list" where
  "commit_block m bs j txn buf =
     (let hdr = \<lparr>eh_magic = JOURNAL_MAGIC, eh_type = JOURNAL_ENTRY_COMMIT, eh_sequence = tx_sequence txn,
                 eh_block_count = 0, eh_data_size = 0, eh_checksum = 0, eh_flags = 0\<rparr>;
          n = length (tx_refs txn)
      in if journal_is_authenticated j
         then sealed bs (hdr\<lparr>eh_flags := JOURNAL_ENTRY_FLAG_HMAC\<rparr>)
                (journal_compute_hmac m j (tx_sequence txn) (of_nat n) (tx_refs txn) (if n > 0 then take (n * bs) buf else []))
         else sealed bs hdr [])"

text \<open>The blocks that a commit writes to the ring, and the positions they go to.\<close>

definition ring_positions :: "journal \<Rightarrow> nat \<Rightarrow> u32 list" where
  "ring_positions j n = map (\<lambda>i. (ring_next j ^^ i) (sb_head (jr_sb j))) [0..<n]"

definition commit_writes :: "journal_mem \<Rightarrow> nat \<Rightarrow> journal \<Rightarrow> journal_transaction \<Rightarrow> u8 list \<Rightarrow> (u64 \<times> u8 list) list" where
  "commit_writes m bs j txn buf =
     (let n = length (tx_refs txn);
          blocks = header_block bs txn # map (data_block bs buf) [0..<n] @ [commit_block m bs j txn buf]
      in zip (map (\<lambda>p. ucast (1 + p)) (ring_positions j (n + 2))) blocks)"

definition journal_commit ::
  "journal_mem \<Rightarrow> 'c block_device \<Rightarrow> journal \<Rightarrow> journal_transaction \<Rightarrow> 'c \<Rightarrow> (int \<times> journal \<times> journal_transaction \<times> 'c) option" where
  "journal_commit m dev j txn c =
     (if tx_committed txn then Some (-1, j, txn, c)
      else
        (let n = length (tx_refs txn);
             needed = 1 + of_nat n + 1;
             avail = sb_block_count (jr_sb j) - ring_used j - 1
         in if needed > avail then Some (-1, j, txn, c)
            else if \<not> jm_buf m then Some (-1, j, txn, c)
            else if n > 0 \<and> tx_data_buffer txn = None then None
            else
              (let buf = (case tx_data_buffer txn of None \<Rightarrow> [] | Some b \<Rightarrow> b);
                   c1 = journal_writes dev j (commit_writes m (bsize dev) j txn buf) c;
                   sb = (jr_sb j)\<lparr>sb_head := (ring_next j ^^ (n + 2)) (sb_head (jr_sb j))\<rparr>;
                   j1 = j\<lparr>jr_sb := sb, jr_dirty := True\<rparr>;
                   c2 = (if jm_sb m then journal_writes dev j1 [(0, sb_block (bsize dev) sb)] c1 else c1)
               in Some (0, j1, txn\<lparr>tx_data_buffer := None, tx_committed := True\<rparr>, c2))))"

definition journal_abort :: "journal_transaction \<Rightarrow> int \<times> journal_transaction" where
  "journal_abort txn = (0, txn\<lparr>tx_data_buffer := None, tx_committed := False, tx_refs := []\<rparr>)"

definition journal_checkpoint :: "journal_mem \<Rightarrow> 'c block_device \<Rightarrow> journal \<Rightarrow> 'c \<Rightarrow> int \<times> journal \<times> 'c" where
  "journal_checkpoint m dev j c =
     (if \<not> jr_dirty j then (0, j, c)
      else
        (let sb0 = (jr_sb j)\<lparr>sb_tail := sb_head (jr_sb j), sb_sequence := sb_sequence (jr_sb j) + 1\<rparr>;
             sb = sb0\<lparr>sb_checksum := sb_crc sb0\<rparr>;
             j1 = j\<lparr>jr_sb := sb\<rparr>
         in if \<not> jm_sb m then (-1, j1, c)
            else
              (let (r, c1) = journal_write_block dev j1 0 (sb_block (bsize dev) sb) c
               in (r, j1\<lparr>jr_dirty := False, jr_current_sequence := sb_sequence sb\<rparr>, c1))))"

definition journal_stats :: "journal \<Rightarrow> u32 \<times> u32" where
  "journal_stats j = (ring_used j, sb_block_count (jr_sb j) - ring_used j - 1)"

end
