(* ===== verification/JournalSafe.thy ===== *)
theory JournalSafe
  imports Journal
begin

text \<open>
  What the journal guarantees: the on-disk encodings can be read back, the replay ends for every content of the
  ring, nothing unauthenticated is ever applied, and a crash at any point of a commit leaves all or nothing of
  the transaction. The device is any \<open>disk\<close>.
\<close>

subsection \<open>Encodings\<close>

lemma hdr_bytes_length [simp]: "length (hdr_bytes h) = 32"
  by (simp add: hdr_bytes_def)

lemma ref_bytes_length [simp]: "length (ref_bytes r) = 16"
  by (simp add: ref_bytes_def)

lemma hdr_read: "take 32 b = hdr_bytes h \<Longrightarrow> 32 \<le> length b \<Longrightarrow> hdr_of b = h"
proof -
  assume a: "take 32 b = hdr_bytes h" and l: "32 \<le> length b"
  have r: "le32_at b k = x" if "take 4 (drop k (hdr_bytes h)) = le32 x" "k + 4 \<le> 32" for k x
    by (rule le32_read) (use that l slice_within [OF l that(2)] a in auto)
  have q: "le64_at b k = x" if "take 8 (drop k (hdr_bytes h)) = le64 x" "k + 8 \<le> 32" for k x
    by (rule le64_read) (use that l slice_within [OF l that(2)] a in auto)
  show ?thesis unfolding hdr_of_def
    by (subst r [of 0 "eh_magic h"], simp add: hdr_bytes_def, simp, subst r [of 4 "eh_type h"], simp add: hdr_bytes_def, simp,
        subst q [of 8 "eh_sequence h"], simp add: hdr_bytes_def, simp, subst r [of 16 "eh_block_count h"], simp add: hdr_bytes_def, simp,
        subst r [of 20 "eh_data_size h"], simp add: hdr_bytes_def, simp, subst r [of 24 "eh_checksum h"], simp add: hdr_bytes_def, simp,
        subst r [of 28 "eh_flags h"], simp add: hdr_bytes_def, simp, simp)
qed

lemma ref_read: "take 16 (drop k b) = ref_bytes r \<Longrightarrow> k + 16 \<le> length b \<Longrightarrow> ref_at b k = r"
proof -
  assume a: "take 16 (drop k b) = ref_bytes r" and l: "k + 16 \<le> length b"
  have "take 8 (drop k b) = take 8 (take 16 (drop k b))" "take 4 (drop (k + 8) b) = take 4 (drop 8 (take 16 (drop k b)))"
    "take 4 (drop (k + 12) b) = drop 12 (take 16 (drop k b))"
    by (simp_all add: drop_take add.commute)
  then have "take 8 (drop k b) = le64 (br_target_block r)" "take 4 (drop (k + 8) b) = le32 (br_offset r)"
    "take 4 (drop (k + 12) b) = le32 (br_length r)"
    unfolding a by (simp_all add: ref_bytes_def)
  then have "le64_at b k = br_target_block r" "le32_at b (k + 8) = br_offset r" "le32_at b (k + 12) = br_length r"
    using l by (auto intro!: le32_read le64_read)
  then show ?thesis by (simp add: ref_at_def)
qed

lemma concat_le32_nth: "i < length xs \<Longrightarrow> take 4 (drop (i * 4) (concat (map le32 xs))) = le32 (xs ! i)"
proof (induction xs arbitrary: i)
  case (Cons x xs)
  then show ?case by (cases i) (simp_all add: add.commute)
qed simp

lemma concat_refs_nth: "i < length rs \<Longrightarrow> take 16 (drop (i * 16) (concat (map ref_bytes rs))) = ref_bytes (rs ! i)"
proof (induction rs arbitrary: i)
  case (Cons x rs)
  then show ?case by (cases i) (simp_all add: add.commute)
qed simp

lemma sb_bytes_length: "length (sb_reserved sb) = 7 \<Longrightarrow> length (sb_bytes sb) = 64"
proof -
  have "length (concat (map le32 xs)) = 4 * length xs" for xs by (induction xs) simp_all
  then show "length (sb_reserved sb) = 7 \<Longrightarrow> length (sb_bytes sb) = 64" by (simp add: sb_bytes_def)
qed

lemma sb_read:
  assumes "take 64 b = sb_bytes sb" and "64 \<le> length b" and "length (sb_reserved sb) = 7"
  shows "sb_of b = sb"
proof -
  have r: "le32_at b k = x" if "take 4 (drop k (sb_bytes sb)) = le32 x" "k + 4 \<le> 64" for k x
    by (rule le32_read) (use that assms(2) slice_within [OF assms(2) that(2)] assms(1) in auto)
  have q: "le64_at b k = x" if "take 8 (drop k (sb_bytes sb)) = le64 x" "k + 8 \<le> 64" for k x
    by (rule le64_read) (use that assms(2) slice_within [OF assms(2) that(2)] assms(1) in auto)
  have res: "map (\<lambda>i. le32_at b (36 + i * 4)) [0..<7] = sb_reserved sb"
  proof (rule nth_equalityI)
    fix i
    assume "i < length (map (\<lambda>i. le32_at b (36 + i * 4)) [0..<7])"
    then have i: "i < 7" by simp
    have "take 4 (drop (36 + i * 4) (sb_bytes sb)) = le32 (sb_reserved sb ! i)"
      using concat_le32_nth [of i "sb_reserved sb"] i assms(3) by (simp add: sb_bytes_def)
    then show "map (\<lambda>i. le32_at b (36 + i * 4)) [0..<7] ! i = sb_reserved sb ! i" using r i by simp
  qed (simp add: assms(3))
  show ?thesis unfolding sb_of_def res
    by (subst r [of 0 "sb_magic sb"], simp add: sb_bytes_def, simp, subst r [of 4 "sb_version sb"], simp add: sb_bytes_def, simp,
        subst r [of 8 "sb_block_size sb"], simp add: sb_bytes_def, simp, subst r [of 12 "sb_block_count sb"], simp add: sb_bytes_def, simp,
        subst r [of 16 "sb_head sb"], simp add: sb_bytes_def, simp, subst r [of 20 "sb_tail sb"], simp add: sb_bytes_def, simp,
        subst q [of 24 "sb_sequence sb"], simp add: sb_bytes_def, simp, subst r [of 32 "sb_checksum sb"], simp add: sb_bytes_def, simp, simp)
qed

subsection \<open>Positions of the ring\<close>

abbreviation ring_size :: "journal \<Rightarrow> nat" where
  "ring_size j \<equiv> unat (sb_block_count (jr_sb j))"

definition in_ring :: "journal \<Rightarrow> u32 \<Rightarrow> bool" where
  "in_ring j pos \<longleftrightarrow> unat pos < ring_size j"

text \<open>How many steps lead from a position to \<^verbatim>\<open>head\<close>.\<close>

definition to_head :: "journal \<Rightarrow> u32 \<Rightarrow> nat" where
  "to_head j pos = (ring_size j + unat (sb_head (jr_sb j)) - unat pos) mod ring_size j"

lemma ring_next_unat: "in_ring j pos \<Longrightarrow> unat (ring_next j pos) = (unat pos + 1) mod ring_size j"
proof -
  assume "in_ring j pos"
  moreover have "ring_size j < 2 ^ LENGTH(32)" by (rule unsigned_less)
  ultimately have "unat (pos + 1) = unat pos + 1" by (simp add: in_ring_def unat_plus_if')
  then show ?thesis by (simp add: ring_next_def unat_mod)
qed

lemma ring_next_in [simp]: "in_ring j pos \<Longrightarrow> in_ring j (ring_next j pos)"
  using ring_next_unat [of j pos] by (auto simp: in_ring_def)

lemma ring_pow_unat: "in_ring j p \<Longrightarrow> in_ring j ((ring_next j ^^ i) p) \<and> unat ((ring_next j ^^ i) p) = (unat p + i) mod ring_size j"
  by (induction i) (auto simp: ring_next_unat mod_Suc_eq in_ring_def)

lemma to_head_step:
  assumes "in_ring j pos" and "in_ring j (sb_head (jr_sb j))" and "pos \<noteq> sb_head (jr_sb j)"
  shows "to_head j (ring_next j pos) < to_head j pos"
proof -
  let ?n = "ring_size j" and ?h = "unat (sb_head (jr_sb j))" and ?p = "unat pos"
  have p: "?p < ?n" "?h < ?n" "?p \<noteq> ?h" using assms by (auto simp: in_ring_def dest: unsigned_word_eqI)
  have d: "to_head j x = (if unat x \<le> ?h then ?h - unat x else ?n + ?h - unat x)" if "unat x < ?n" for x
    using that p(2) by (auto simp: to_head_def mod_if)
  have n: "unat (ring_next j pos) = (if ?p + 1 = ?n then 0 else ?p + 1)"
    using p(1) by (simp add: ring_next_unat [OF assms(1)])
  have "unat (ring_next j pos) < ?n" using ring_next_in [OF assms(1)] by (simp add: in_ring_def)
  from d [OF this] d [OF p(1)] n p show ?thesis by auto
qed

lemma apply_legacy_pos:
  assumes "in_ring j (sb_head (jr_sb j))" and "in_ring j pos" and "apply_legacy m dev j refs pos c = (pos', c')"
  shows "in_ring j pos' \<and> to_head j pos' \<le> to_head j pos"
  using assms(2,3)
proof (induction refs arbitrary: pos c)
  case (Cons r refs)
  show ?case
  proof (cases "pos = sb_head (jr_sb j) \<or> \<not> jm_data m")
    case False
    then have "in_ring j pos' \<and> to_head j pos' \<le> to_head j (ring_next j pos)"
      using Cons.IH [OF ring_next_in [OF Cons.prems(1)]] Cons.prems(2) by (auto simp: Let_def split: prod.splits)
    then show ?thesis using to_head_step [OF Cons.prems(1) assms(1)] False by auto
  qed (use Cons.prems in auto)
qed simp

lemma stage_blocks_pos:
  assumes "in_ring j (sb_head (jr_sb j))" and "in_ring j pos" and "stage_blocks dev j n pos c = (ok, ds, pos', c')"
  shows "in_ring j pos' \<and> to_head j pos' \<le> to_head j pos"
  using assms(2,3)
proof (induction n arbitrary: pos c ds)
  case (Suc n)
  show ?case
  proof (cases "pos = sb_head (jr_sb j)")
    case False
    obtain r d c1 where r: "read_ring dev j pos c = (r, d, c1)" by (metis prod_cases3)
    show ?thesis
    proof (cases "r = 0")
      case True
      obtain ok1 ds1 p1 c2 where s: "stage_blocks dev j n (ring_next j pos) c1 = (ok1, ds1, p1, c2)" by (metis prod_cases4)
      then have e: "ok1 = ok" "p1 = pos'" "c2 = c'" using Suc.prems(2) False r True by simp_all
      show ?thesis
        using Suc.IH [OF ring_next_in [OF Suc.prems(1)] s [unfolded e]] to_head_step [OF Suc.prems(1) assms(1) False] by simp
    qed (use Suc.prems False r in auto)
  qed (use Suc.prems in auto)
qed simp

lemma replay_entry_pos:
  assumes "in_ring j (sb_head (jr_sb j))" and "in_ring j pos" and "pos \<noteq> sb_head (jr_sb j)"
    and "replay_entry m dev j pos c = Goes_on pos' c'"
  shows "in_ring j pos' \<and> to_head j pos' < to_head j pos"
proof -
  note nxt = ring_next_in [OF assms(2)] and step = to_head_step [OF assms(2,1,3)]
  obtain r b c1 where r: "read_ring dev j pos c = (r, b, c1)" by (metis prod_cases3)
  consider "pos' = ring_next j pos"
    | c2 where "apply_legacy m dev j (entry_refs b) (ring_next j pos) c1 = (pos', c2)"
    | "replay_authenticated m dev j b pos c1 = Goes_on pos' c'"
    using assms(4) by (auto simp: replay_entry_def r Let_def split: if_splits prod.splits)
  then show ?thesis
  proof cases
    case 1
    then show ?thesis using nxt step by simp
  next
    case 2
    then show ?thesis using apply_legacy_pos [OF assms(1) nxt 2] step by simp
  next
    case 3
    obtain ok ds p c2 where s: "stage_blocks dev j (length (entry_refs b)) (ring_next j pos) c1 = (ok, ds, p, c2)" by (metis prod_cases4)
    have "p \<noteq> sb_head (jr_sb j)" "pos' = ring_next j p"
      using 3 by (auto simp: replay_authenticated_def s Let_def split: if_splits prod.splits)
    then show ?thesis using stage_blocks_pos [OF assms(1) nxt s] to_head_step [of j p] assms(1) step by fastforce
  qed
qed

lemma replay_from_returns:
  assumes "in_ring j (sb_head (jr_sb j))" and "in_ring j pos"
  shows "\<exists>r. replay_from m dev j pos c = Some r"
  using assms(2)
proof (induction "to_head j pos" arbitrary: pos c rule: less_induct)
  case less
  show ?case
  proof (cases "pos = sb_head (jr_sb j)")
    case False
    show ?thesis
    proof (cases "replay_entry m dev j pos c")
      case (Goes_on p c1)
      from replay_entry_pos [OF assms(1) less.prems False Goes_on] have "in_ring j p" "to_head j p < to_head j pos" by simp_all
      then show ?thesis using less.hyps [of p c1] by (subst replay_from.simps) (simp add: False Goes_on)
    qed (subst replay_from.simps, auto simp: False)
  qed (subst replay_from.simps, auto)
qed

subsection \<open>The journal on a disk\<close>

text \<open>The block of the device that holds position \<open>p\<close> of the ring, and the blocks that belong to the journal.\<close>

definition ring_block :: "journal \<Rightarrow> nat \<Rightarrow> nat" where
  "ring_block j p = unat (jr_start_block j) + 1 + p"

definition journal_area :: "journal \<Rightarrow> nat set" where
  "journal_area j = {unat (jr_start_block j) .. unat (jr_start_block j) + ring_size j}"

definition fits :: "journal \<Rightarrow> 'c block_device \<Rightarrow> bool" where
  "fits j dev \<longleftrightarrow> unat (jr_start_block j) + 1 + ring_size j \<le> unat (bd_block_count dev)"

lemma journal_addr_unat:
  assumes "fits j dev" and "unat b \<le> ring_size j"
  shows "unat (journal_addr j b) = unat (jr_start_block j) + unat b"
    and "unat (journal_addr j b) < unat (bd_block_count dev)"
proof -
  have "unat (bd_block_count dev) < 2 ^ LENGTH(32)" by (rule unsigned_less)
  then have l: "unat (jr_start_block j) + unat b < 2 ^ 32" using assms by (simp add: fits_def)
  then have "unat (jr_start_block j + b) = unat (jr_start_block j) + unat b" by (simp add: unat_plus_if')
  then show "unat (journal_addr j b) = unat (jr_start_block j) + unat b"
    using l by (simp add: journal_addr_def unsigned_ucast_eq take_bit_nat_eq_self_iff)
  then show "unat (journal_addr j b) < unat (bd_block_count dev)" using assms by (simp add: fits_def)
qed

lemma ring_offset: "in_ring j pos \<Longrightarrow> unat (ucast (1 + pos) :: u64) = 1 + unat pos"
proof -
  assume "in_ring j pos"
  moreover have "ring_size j < 2 ^ LENGTH(32)" by (rule unsigned_less)
  ultimately have "unat (1 + pos) = 1 + unat pos" by (simp add: in_ring_def unat_plus_if')
  moreover have "unat (ucast (1 + pos) :: u64) = unat (1 + pos)"
    by (simp add: unsigned_ucast_eq take_bit_nat_eq_self_iff order.strict_trans [OF unsigned_less])
  ultimately show ?thesis by simp
qed

lemma ring_addr:
  assumes "fits j dev" and "in_ring j pos"
  shows "unat (journal_addr j (ucast (1 + pos))) = ring_block j (unat pos)"
    and "unat (journal_addr j (ucast (1 + pos))) < unat (bd_block_count dev)"
  using journal_addr_unat [OF assms(1), of "ucast (1 + pos)"] ring_offset [OF assms(2)] assms(2)
  by (simp_all add: in_ring_def ring_block_def)

definition put_blocks :: "(nat \<times> u8 list) list \<Rightarrow> (nat \<Rightarrow> u8 list) \<Rightarrow> nat \<Rightarrow> u8 list" where
  "put_blocks ws f = fold (\<lambda>(a, d) f. f(a := d)) ws f"

lemma put_other: "x \<notin> fst ` set ws \<Longrightarrow> put_blocks ws f x = f x"
  unfolding put_blocks_def by (induction ws arbitrary: f) auto

lemma put_nth: "distinct (map fst ws) \<Longrightarrow> i < length ws \<Longrightarrow> put_blocks ws f (fst (ws ! i)) = snd (ws ! i)"
proof (induction ws arbitrary: f i)
  case (Cons w ws)
  obtain a d where w: "w = (a, d)" by fastforce
  have step: "put_blocks (w # ws) f = put_blocks ws (f(a := d))" by (simp add: put_blocks_def w)
  show ?case
  proof (cases i)
    case 0
    then show ?thesis using put_other [of a ws "f(a := d)"] Cons.prems(1) unfolding step by (simp add: w)
  next
    case (Suc k)
    have "put_blocks ws (f(a := d)) (fst (ws ! k)) = snd (ws ! k)" by (rule Cons.IH) (use Cons.prems Suc in auto)
    then show ?thesis unfolding step Suc nth_Cons_Suc .
  qed
qed simp

lemma ring_pow_distinct:
  assumes "in_ring j p" and "i < k" and "k < i + ring_size j"
  shows "(ring_next j ^^ i) p \<noteq> (ring_next j ^^ k) p"
proof
  assume "(ring_next j ^^ i) p = (ring_next j ^^ k) p"
  then have "(unat p + i) mod ring_size j = (unat p + k) mod ring_size j"
    using ring_pow_unat [OF assms(1)] by metis
  then have "ring_size j dvd (unat p + k) - (unat p + i)" using assms(2) mod_eq_dvd_iff_nat [of "unat p + i" "unat p + k" "ring_size j"] by simp
  then have "ring_size j \<le> k - i" using assms(2) by (simp add: dvd_imp_le)
  then show False using assms(2,3) by linarith
qed

subsection \<open>The blocks of an entry\<close>

lemma block_with_length [simp]: "length (block_with bs xs) = bs"
  by (simp add: block_with_def)

lemma block_with_take: "length xs \<le> bs \<Longrightarrow> take (length xs) (block_with bs xs) = xs"
  by (simp add: block_with_def min_absorb1)

lemma sealed_length [simp]: "length (sealed bs hdr rest) = bs"
  by (simp add: sealed_def)

lemma sealed_parts:
  assumes "32 + length rest \<le> bs"
  shows "\<exists>x. hdr_of (sealed bs hdr rest) = hdr\<lparr>eh_checksum := x\<rparr>"
    and "take (length rest) (drop 32 (sealed bs hdr rest)) = rest"
proof -
  define h where "h = hdr\<lparr>eh_checksum := journal_crc32 (block_with bs (hdr_bytes hdr @ rest))\<rparr>"
  have "length (hdr_bytes h @ rest) \<le> bs" using assms by simp
  note t = block_with_take [OF this]
  have s: "take (32 + length rest) (sealed bs hdr rest) = hdr_bytes h @ rest"
    using t unfolding sealed_def h_def [symmetric] by simp
  have "take 32 (take (32 + length rest) (sealed bs hdr rest)) = hdr_bytes h" unfolding s by simp
  then have "hdr_of (sealed bs hdr rest) = h" using assms by (intro hdr_read) simp_all
  then show "\<exists>x. hdr_of (sealed bs hdr rest) = hdr\<lparr>eh_checksum := x\<rparr>" unfolding h_def by blast
  have "drop 32 (take (32 + length rest) (sealed bs hdr rest)) = rest" unfolding s by simp
  then show "take (length rest) (drop 32 (sealed bs hdr rest)) = rest" by (simp add: drop_take)
qed

lemma sealed_fields:
  assumes "32 + length rest \<le> bs"
  shows "eh_magic (hdr_of (sealed bs hdr rest)) = eh_magic hdr" "eh_type (hdr_of (sealed bs hdr rest)) = eh_type hdr"
    "eh_sequence (hdr_of (sealed bs hdr rest)) = eh_sequence hdr"
    "eh_block_count (hdr_of (sealed bs hdr rest)) = eh_block_count hdr" "eh_flags (hdr_of (sealed bs hdr rest)) = eh_flags hdr"
proof -
  obtain x where "hdr_of (sealed bs hdr rest) = hdr\<lparr>eh_checksum := x\<rparr>" using sealed_parts(1) [OF assms] by blast
  then show "eh_magic (hdr_of (sealed bs hdr rest)) = eh_magic hdr" "eh_type (hdr_of (sealed bs hdr rest)) = eh_type hdr"
    "eh_sequence (hdr_of (sealed bs hdr rest)) = eh_sequence hdr"
    "eh_block_count (hdr_of (sealed bs hdr rest)) = eh_block_count hdr" "eh_flags (hdr_of (sealed bs hdr rest)) = eh_flags hdr"
    by simp_all
qed

lemma concat_refs_length: "length (concat (map ref_bytes rs)) = 16 * length rs"
  by (induction rs) simp_all

lemma header_block_read:
  assumes "length (tx_refs txn) \<le> JOURNAL_ENTRY_MAX_BLOCKS" and "288 \<le> bs"
  shows "eh_magic (hdr_of (header_block bs txn)) = JOURNAL_MAGIC" "eh_type (hdr_of (header_block bs txn)) = JOURNAL_ENTRY_WRITE_META"
    "eh_sequence (hdr_of (header_block bs txn)) = tx_sequence txn"
    "eh_block_count (hdr_of (header_block bs txn)) = of_nat (length (tx_refs txn))"
    "entry_refs (header_block bs txn) = tx_refs txn"
proof -
  let ?rest = "concat (map ref_bytes (tx_refs txn))"
  have n: "length (tx_refs txn) \<le> 16" using assms(1) by (simp add: JOURNAL_ENTRY_MAX_BLOCKS_def)
  have l: "32 + length ?rest \<le> bs" using n assms(2) by (simp add: concat_refs_length)
  note p = sealed_parts [OF l]
  show h: "eh_magic (hdr_of (header_block bs txn)) = JOURNAL_MAGIC" "eh_type (hdr_of (header_block bs txn)) = JOURNAL_ENTRY_WRITE_META"
    "eh_sequence (hdr_of (header_block bs txn)) = tx_sequence txn"
    "eh_block_count (hdr_of (header_block bs txn)) = of_nat (length (tx_refs txn))"
    unfolding header_block_def sealed_fields [OF l] by simp_all
  have r: "ref_at (header_block bs txn) (32 + i * 16) = tx_refs txn ! i" if "i < length (tx_refs txn)" for i
  proof (rule ref_read)
    have i16: "i * 16 + 16 \<le> length ?rest" using that by (simp add: concat_refs_length)
    have "take 16 (drop (32 + i * 16) (header_block bs txn)) = take 16 (drop (i * 16) (take (length ?rest) (drop 32 (header_block bs txn))))"
      using i16 by (simp add: drop_take add.commute min_absorb1)
    then show "take 16 (drop (32 + i * 16) (header_block bs txn)) = ref_bytes (tx_refs txn ! i)"
      using p(2) concat_refs_nth [OF that] unfolding header_block_def by simp
    show "32 + i * 16 + 16 \<le> length (header_block bs txn)" using i16 l by (simp add: header_block_def)
  qed
  have "unat (of_nat (length (tx_refs txn)) :: u32) = length (tx_refs txn)"
    using n by (simp add: unsigned_of_nat take_bit_nat_eq_self_iff)
  then show "entry_refs (header_block bs txn) = tx_refs txn"
    unfolding entry_refs_def h(4) using assms(1) r by (intro nth_equalityI) (simp_all add: min_absorb1)
qed

text \<open>The tag depends on the journal only through the key.\<close>

definition journal_key :: "journal \<Rightarrow> u8 list" where
  "journal_key j = take (jr_hmac_key_len j) (jr_hmac_key j)"

lemma hmac_key_only: "journal_key j = journal_key j' \<Longrightarrow> jm_hmac m = jm_hmac m' \<Longrightarrow>
  journal_compute_hmac m j s n r p = journal_compute_hmac m' j' s n r p"
  by (simp add: journal_compute_hmac_def journal_key_def)

lemma hmac_length: "length (journal_compute_hmac m j s n r p) = JOURNAL_HMAC_TAG_SIZE"
proof -
  have "crypt_hmac_sha256 (replicate SHA256_BLOCK_SIZE 0) k x = hmac_ref k x" for k x
    by (rule hmac_public_ref) (simp add: SHA256_BLOCK_SIZE_def)
  then have "length (crypt_hmac_sha256 (replicate SHA256_BLOCK_SIZE 0) k x) = SHA256_DIGEST_SIZE" for k x
    by (simp add: hmac_ref_def Let_def sha256_ref_length)
  then show ?thesis
    by (simp add: journal_compute_hmac_def JOURNAL_HMAC_TAG_SIZE_def SHA256_DIGEST_SIZE_def)
qed

lemma constant_time_eq_iff:
  assumes "length a = n" and "length b = n"
  shows "journal_constant_time_eq a b n \<longleftrightarrow> a = b"
proof -
  have "journal_constant_time_eq a b n \<longleftrightarrow> crypt_constant_time_compare a b n = 0"
    by (simp add: journal_constant_time_eq_def crypt_constant_time_compare_def)
  then show ?thesis using assms constant_time_compare_iff [of a b n] by (auto simp: list_eq_iff_nth_eq)
qed

lemma commit_block_valid:
  assumes "48 \<le> bs" and "journal_is_authenticated j0" and "journal_key j = journal_key j0" and "jm_hmac m = jm_hmac m0"
    and "eh_sequence hdr = tx_sequence txn" and "0 < length (tx_refs txn)"
    and "concat staged = take (length (tx_refs txn) * bs) buf"
  shows "commit_valid m j hdr (tx_refs txn) staged (commit_block m0 bs j0 txn buf)"
proof -
  let ?tag = "journal_compute_hmac m0 j0 (tx_sequence txn) (of_nat (length (tx_refs txn))) (tx_refs txn) (take (length (tx_refs txn) * bs) buf)"
  let ?h = "\<lparr>eh_magic = JOURNAL_MAGIC, eh_type = JOURNAL_ENTRY_COMMIT, eh_sequence = tx_sequence txn,
     eh_block_count = 0, eh_data_size = 0, eh_checksum = 0, eh_flags = JOURNAL_ENTRY_FLAG_HMAC\<rparr>"
  have b: "commit_block m0 bs j0 txn buf = sealed bs ?h ?tag" using assms(2,6) by (simp add: commit_block_def Let_def)
  have l: "32 + length ?tag \<le> bs" using assms(1) by (simp add: hmac_length JOURNAL_HMAC_TAG_SIZE_def)
  have "journal_extract_commit_tag (sealed bs ?h ?tag) = take 16 (drop 32 (sealed bs ?h ?tag))"
    using assms(1) by (intro nth_equalityI) (simp_all add: journal_extract_commit_tag_def JOURNAL_HMAC_TAG_SIZE_def)
  also have "\<dots> = ?tag" using sealed_parts(2) [OF l, of ?h] by (simp add: hmac_length JOURNAL_HMAC_TAG_SIZE_def)
  finally have "journal_extract_commit_tag (sealed bs ?h ?tag) = ?tag" .
  moreover have "journal_compute_hmac m j (eh_sequence hdr) (of_nat (length (tx_refs txn))) (tx_refs txn) (concat staged) = ?tag"
    unfolding assms(5,7) by (rule hmac_key_only [OF assms(3,4)])
  ultimately show ?thesis
    using assms(5) unfolding commit_valid_def Let_def b sealed_fields [OF l]
    by (simp add: constant_time_eq_iff hmac_length JOURNAL_ENTRY_FLAG_HMAC_def)
qed

subsection \<open>Authentic entries\<close>

text \<open>The contents of \<open>n\<close> consecutive positions of the ring.\<close>

definition ring_run :: "journal \<Rightarrow> (nat \<Rightarrow> u8 list) \<Rightarrow> u32 \<Rightarrow> nat \<Rightarrow> u8 list list" where
  "ring_run j d pos n = map (\<lambda>i. d (ring_block j (unat ((ring_next j ^^ i) pos)))) [0..<n]"

lemma ring_run_Suc: "ring_run j d pos (Suc n) = d (ring_block j (unat pos)) # ring_run j d (ring_next j pos) n"
  unfolding ring_run_def
  by (simp add: upt_conv_Cons map_Suc_upt [symmetric] funpow_swap1 del: upt_Suc)

lemma ring_run_length [simp]: "length (ring_run j d pos n) = n"
  by (simp add: ring_run_def)

text \<open>
  Reading the contents \<open>d\<close> of the disk from position \<open>pos\<close> gives a header, the blocks it announces, and a block whose
  tag is the keyed hash of the sequence number, the target addresses and the blocks.
\<close>

definition authentic_entry :: "journal \<Rightarrow> (nat \<Rightarrow> u8 list) \<Rightarrow> u32 \<Rightarrow> bool" where
  "authentic_entry j d pos \<longleftrightarrow>
     (let b = d (ring_block j (unat pos)); refs = entry_refs b; n = length refs; first = ring_next j pos;
          cb = d (ring_block j (unat ((ring_next j ^^ n) first)))
      in eh_flags (hdr_of cb) AND JOURNAL_ENTRY_FLAG_HMAC \<noteq> 0 \<and>
         journal_extract_commit_tag cb =
           take JOURNAL_HMAC_TAG_SIZE (hmac_ref (journal_key j)
             (hmac_message (eh_sequence (hdr_of b)) (of_nat n) refs (concat (ring_run j d first n)))))"

lemma commit_valid_tag:
  assumes "jm_hmac m" and "commit_valid m j hdr refs staged b"
  shows "eh_flags (hdr_of b) AND JOURNAL_ENTRY_FLAG_HMAC \<noteq> 0 \<and>
    journal_extract_commit_tag b =
      take JOURNAL_HMAC_TAG_SIZE (hmac_ref (journal_key j) (hmac_message (eh_sequence hdr) (of_nat (length refs)) refs (concat staged)))"
proof -
  let ?h = "journal_compute_hmac m j (eh_sequence hdr) (of_nat (length refs)) refs (concat staged)"
  have "journal_constant_time_eq (journal_extract_commit_tag b) ?h JOURNAL_HMAC_TAG_SIZE"
    and f: "eh_flags (hdr_of b) AND JOURNAL_ENTRY_FLAG_HMAC \<noteq> 0"
    using assms(2) by (auto simp: commit_valid_def Let_def)
  then have "journal_extract_commit_tag b = ?h"
    by (subst (asm) constant_time_eq_iff) (simp_all add: hmac_length journal_extract_commit_tag_def)
  moreover have "crypt_hmac_sha256 (replicate SHA256_BLOCK_SIZE 0) k x = hmac_ref k x" for k x
    by (rule hmac_public_ref) (simp add: SHA256_BLOCK_SIZE_def)
  ultimately show ?thesis using assms(1) f by (simp add: journal_compute_hmac_def journal_key_def)
qed

subsection \<open>Transactions on the ring\<close>

definition targets :: "journal_transaction \<Rightarrow> nat list" where
  "targets txn = map (\<lambda>r. unat (ucast (br_target_block r) :: u32)) (tx_refs txn)"

text \<open>What a committed transaction is meant to write.\<close>

definition logged :: "nat \<Rightarrow> journal_transaction \<Rightarrow> u8 list \<Rightarrow> (nat \<times> u8 list) list" where
  "logged bs txn buf = zip (targets txn) (map (data_block bs buf) [0..<length (tx_refs txn)])"

definition entry_blocks :: "journal_mem \<Rightarrow> nat \<Rightarrow> journal \<Rightarrow> journal_transaction \<Rightarrow> u8 list \<Rightarrow> u8 list list" where
  "entry_blocks m bs j txn buf =
     header_block bs txn # map (data_block bs buf) [0..<length (tx_refs txn)] @ [commit_block m bs j txn buf]"

lemma entry_blocks_nth:
  "length (entry_blocks m bs j txn buf) = length (tx_refs txn) + 2"
  "entry_blocks m bs j txn buf ! 0 = header_block bs txn"
  "i < length (tx_refs txn) \<Longrightarrow> entry_blocks m bs j txn buf ! Suc i = data_block bs buf i"
  "entry_blocks m bs j txn buf ! Suc (length (tx_refs txn)) = commit_block m bs j txn buf"
  by (simp_all add: entry_blocks_def nth_append)

text \<open>A transaction that fits: at most 16 blocks, all with data, targets on the device and outside the journal.\<close>

definition txn_ok :: "'c block_device \<Rightarrow> journal \<Rightarrow> journal_transaction \<Rightarrow> u8 list \<Rightarrow> bool" where
  "txn_ok dev j txn buf \<longleftrightarrow> 0 < length (tx_refs txn) \<and> length (tx_refs txn) \<le> JOURNAL_ENTRY_MAX_BLOCKS \<and>
     length (tx_refs txn) * bsize dev \<le> length buf \<and> length (tx_refs txn) + 2 < ring_size j \<and>
     (\<forall>t\<in>set (targets txn). t < unat (bd_block_count dev) \<and> t \<notin> journal_area j)"

lemma data_block_length: "n * bs \<le> length buf \<Longrightarrow> i < n \<Longrightarrow> length (data_block bs buf i) = bs"
  using mult_le_mono1 [of "Suc i" n bs] by (simp add: data_block_def)

lemma concat_data_blocks:
  assumes "n * bs \<le> length buf"
  shows "concat (map (data_block bs buf) [0..<n]) = take (n * bs) buf"
proof -
  have "concat (map (\<lambda>j. take bs (drop (j * bs) (take (n * bs) buf))) [0..<n]) = take (n * bs) buf"
    by (rule concat_slices) (use assms in simp)
  moreover have "take bs (drop (j * bs) (take (n * bs) buf)) = data_block bs buf j" if "j < n" for j
    using mult_le_mono1 [of "Suc j" n bs] that by (simp add: data_block_def drop_take min_absorb1 le_diff_conv2)
  then have "map (\<lambda>j. take bs (drop (j * bs) (take (n * bs) buf))) [0..<n] = map (data_block bs buf) [0..<n]" by simp
  ultimately show ?thesis by simp
qed

context disk
begin

lemma read_ring_ok:
  assumes "inv c" and "fits j dev" and "in_ring j pos"
  shows "\<exists>c'. read_ring dev j pos c = (0, data c (ring_block j (unat pos)), c') \<and> inv c' \<and> data c' = data c"
  unfolding read_ring_def journal_read_block_def
  using disk_read [OF assms(1) ring_addr(2) [OF assms(2,3)], of "replicate (bsize dev) 0"] ring_addr(1) [OF assms(2,3)] by simp

lemma stage_blocks_ok:
  assumes "inv c" and "fits j dev" and "in_ring j pos"
  shows "\<exists>ds pos' c'. stage_blocks dev j n pos c = (True, ds, pos', c') \<and> in_ring j pos' \<and> inv c' \<and> data c' = data c \<and>
    (length ds = n \<longrightarrow> ds = ring_run j (data c) pos n \<and> pos' = (ring_next j ^^ n) pos)"
  using assms(1,3)
proof (induction n arbitrary: pos c)
  case (Suc n)
  show ?case
  proof (cases "pos = sb_head (jr_sb j)")
    case False
    obtain c1 where r: "read_ring dev j pos c = (0, data c (ring_block j (unat pos)), c1)" "inv c1" "data c1 = data c"
      using read_ring_ok [OF Suc.prems(1) assms(2) Suc.prems(2)] by blast
    from Suc.IH [OF r(2) ring_next_in [OF Suc.prems(2)]] show ?thesis
      using False r by (auto simp: ring_run_Suc funpow_swap1)
  qed (use Suc.prems in simp)
qed (simp add: ring_run_def)

text \<open>An entry of an authenticated journal without a valid tag is never applied.\<close>

lemma replay_entry_untagged:
  assumes "inv c" and "fits j dev" and "in_ring j pos" and "journal_is_authenticated j" and "jm_hmac m"
    and "\<not> authentic_entry j (data c) pos"
    and "replay_entry m dev j pos c = r"
  shows "\<exists>c'. inv c' \<and> data c' = data c \<and> ((\<exists>ok. r = Ends ok c') \<or> (\<exists>p. in_ring j p \<and> r = Goes_on p c'))"
proof -
  obtain c1 where c1: "read_ring dev j pos c = (0, data c (ring_block j (unat pos)), c1)" "inv c1" "data c1 = data c"
    using read_ring_ok [OF assms(1-3)] by blast
  let ?b = "data c (ring_block j (unat pos))"
  obtain ds p c2 where s: "stage_blocks dev j (length (entry_refs ?b)) (ring_next j pos) c1 = (True, ds, p, c2)"
      "in_ring j p" "inv c2" "data c2 = data c"
      "length ds = length (entry_refs ?b) \<Longrightarrow> ds = ring_run j (data c) (ring_next j pos) (length (entry_refs ?b)) \<and>
         p = (ring_next j ^^ length (entry_refs ?b)) (ring_next j pos)"
    using stage_blocks_ok [OF c1(2) assms(2) ring_next_in [OF assms(3)], of "length (entry_refs ?b)"] c1(3) by auto
  obtain c3 where c3: "read_ring dev j p c2 = (0, data c (ring_block j (unat p)), c3)" "inv c3" "data c3 = data c"
    using read_ring_ok [OF s(3) assms(2) s(2)] s(4) by auto
  have bad: "\<not> commit_valid m j (hdr_of ?b) (entry_refs ?b) ds (data c (ring_block j (unat p)))" if "length ds = length (entry_refs ?b)"
    using assms(6) s(5) [OF that] commit_valid_tag [OF assms(5)] by (auto simp: authentic_entry_def Let_def)
  have auth: "\<exists>ok c'. replay_authenticated m dev j ?b pos c1 = Ends ok c' \<and> inv c' \<and> data c' = data c"
    using s c3 bad by (auto simp: replay_authenticated_def Let_def)
  have "r = Ends True c1 \<or> r = Goes_on (ring_next j pos) c1 \<or> r = replay_authenticated m dev j ?b pos c1"
    unfolding assms(7) [symmetric] using assms(4) c1(1) by (simp add: replay_entry_def Let_def)
  then show ?thesis using auth c1(2,3) ring_next_in [OF assms(3)] by metis
qed

lemma replay_from_untagged:
  assumes "inv c" and "fits j dev" and "in_ring j (sb_head (jr_sb j))" and "in_ring j pos"
    and "journal_is_authenticated j" and "jm_hmac m"
    and "\<And>p. in_ring j p \<Longrightarrow> \<not> authentic_entry j (data c) p"
    and "replay_from m dev j pos c = Some (ok, c')"
  shows "inv c' \<and> data c' = data c"
  using assms(1,4,7,8)
proof (induction "to_head j pos" arbitrary: pos c rule: less_induct)
  case less
  show ?case
  proof (cases "pos = sb_head (jr_sb j)")
    case True
    then show ?thesis using less.prems(1,4) by (subst (asm) replay_from.simps) simp
  next
    case False
    note e = replay_entry_untagged [OF less.prems(1) assms(2) less.prems(2) assms(5,6) less.prems(3) [OF less.prems(2)] refl]
    show ?thesis
    proof (cases "replay_entry m dev j pos c")
      case (Ends ok1 c1)
      then show ?thesis using e less.prems(4) False by (subst (asm) replay_from.simps) auto
    next
      case (Goes_on p c1)
      then have c1: "inv c1" "data c1 = data c" using e by auto
      have "replay_from m dev j p c1 = Some (ok, c')"
        using less.prems(4) False Goes_on by (subst (asm) replay_from.simps) simp
      moreover have "in_ring j p" "to_head j p < to_head j pos"
        using replay_entry_pos [OF assms(3) less.prems(2) False Goes_on] by simp_all
      ultimately show ?thesis using less.hyps [of p c1] c1 less.prems(3) by auto
    qed
  qed
qed

text \<open>Sequences of writes.\<close>

lemma journal_writes_ok:
  assumes "inv c" and "fits j dev" and "\<forall>(b, d)\<in>set ws. unat b \<le> ring_size j \<and> length d = bsize dev"
  shows "inv (journal_writes dev j ws c) \<and>
    data (journal_writes dev j ws c) = put_blocks (map (\<lambda>(b, d). (unat (jr_start_block j) + unat b, d)) ws) (data c)"
  using assms(1,3)
proof (induction ws arbitrary: c)
  case (Cons w ws)
  obtain b d where w: "w = (b, d)" by fastforce
  have bd: "unat b \<le> ring_size j" "length d = bsize dev" using Cons.prems(2) w by auto
  note a = journal_addr_unat [OF assms(2) bd(1)]
  obtain c1 where c1: "journal_write_block dev j b d c = (0, c1)" "inv c1" "data c1 = (data c)(unat (jr_start_block j) + unat b := d)"
    using disk_write [OF Cons.prems(1) a(2) bd(2)] unfolding journal_write_block_def a(1) by blast
  have "inv (journal_writes dev j ws c1) \<and>
      data (journal_writes dev j ws c1) = put_blocks (map (\<lambda>(b, d). (unat (jr_start_block j) + unat b, d)) ws) (data c1)"
    by (rule Cons.IH [OF c1(2)]) (use Cons.prems(2) in simp)
  moreover have "journal_writes dev j (w # ws) c = journal_writes dev j ws c1" by (simp add: w journal_writes_def c1(1))
  ultimately show ?case unfolding c1(3) by (simp add: w put_blocks_def del: fun_upd_apply)
qed (simp add: journal_writes_def put_blocks_def)

lemma apply_blocks_ok:
  assumes "inv c" and "\<forall>(r, d)\<in>set rds. unat (ucast (br_target_block r) :: u32) < unat (bd_block_count dev) \<and> length d = bsize dev"
  shows "\<exists>c'. fold (\<lambda>(r, d) c. apply_block dev r d c) rds c = c' \<and> inv c' \<and>
    data c' = put_blocks (map (\<lambda>(r, d). (unat (ucast (br_target_block r) :: u32), d)) rds) (data c)"
  using assms
proof (induction rds arbitrary: c)
  case (Cons w rds)
  obtain r d where w: "w = (r, d)" by fastforce
  have bd: "unat (ucast (br_target_block r) :: u32) < unat (bd_block_count dev)" "length d = bsize dev" using Cons.prems(2) w by auto
  obtain c1 where c1: "apply_block dev r d c = c1" "inv c1" "data c1 = (data c)(unat (ucast (br_target_block r) :: u32) := d)"
    using disk_write [OF Cons.prems(1) bd] unfolding apply_block_def by fastforce
  have "\<exists>c'. fold (\<lambda>(r, d) c. apply_block dev r d c) rds c1 = c' \<and> inv c' \<and>
      data c' = put_blocks (map (\<lambda>(r, d). (unat (ucast (br_target_block r) :: u32), d)) rds) (data c1)"
    by (rule Cons.IH [OF c1(2)]) (use Cons.prems(2) in simp)
  then show ?case unfolding c1(3) by (simp add: w c1(1) put_blocks_def del: fun_upd_apply)
qed (simp add: put_blocks_def)

lemma stage_all:
  assumes "inv c" and "fits j dev" and "in_ring j pos" and "\<And>i. i < n \<Longrightarrow> (ring_next j ^^ i) pos \<noteq> sb_head (jr_sb j)"
  shows "\<exists>c'. stage_blocks dev j n pos c =
      (True, map (\<lambda>i. data c (ring_block j (unat ((ring_next j ^^ i) pos)))) [0..<n], (ring_next j ^^ n) pos, c') \<and>
    inv c' \<and> data c' = data c"
  using assms(1,3,4)
proof (induction n arbitrary: pos c)
  case (Suc n)
  obtain c1 where r: "read_ring dev j pos c = (0, data c (ring_block j (unat pos)), c1)" "inv c1" "data c1 = data c"
    using read_ring_ok [OF Suc.prems(1) assms(2) Suc.prems(2)] by blast
  have nxt: "(ring_next j ^^ i) (ring_next j pos) = (ring_next j ^^ Suc i) pos" for i by (simp add: funpow_swap1)
  have u: "map f [0..<Suc n] = f 0 # map (\<lambda>i. f (Suc i)) [0..<n]" for f :: "nat \<Rightarrow> u8 list"
    by (simp add: upt_conv_Cons map_Suc_upt [symmetric] del: upt_Suc)
  have "pos \<noteq> sb_head (jr_sb j)" using Suc.prems(3) [of 0] by simp
  moreover have "(ring_next j ^^ i) (ring_next j pos) \<noteq> sb_head (jr_sb j)" if "i < n" for i
    unfolding nxt using Suc.prems(3) [of "Suc i"] that by blast
  ultimately show ?case
    using Suc.IH [OF r(2) ring_next_in [OF Suc.prems(2)]] r unfolding u nxt by auto
qed simp

text \<open>The replay of a ring that holds one committed transaction.\<close>

lemma replay_committed:
  assumes "inv c" and "fits j dev" and "in_ring j t" and "txn_ok dev j txn buf" and "288 \<le> bsize dev"
    and "sb_head (jr_sb j) = (ring_next j ^^ (length (tx_refs txn) + 2)) t"
    and "journal_is_authenticated j" and "journal_is_authenticated j0" and "journal_key j = journal_key j0" and "jm_hmac m = jm_hmac m0"
    and "\<And>i. i < length (tx_refs txn) + 2 \<Longrightarrow>
      data c (ring_block j (unat ((ring_next j ^^ i) t))) = entry_blocks m0 (bsize dev) j0 txn buf ! i"
  shows "\<exists>c'. replay_from m dev j t c = Some (True, c') \<and> inv c' \<and> data c' = put_blocks (logged (bsize dev) txn buf) (data c)"
proof -
  let ?n = "length (tx_refs txn)" and ?bs = "bsize dev" and ?e = "entry_blocks m0 (bsize dev) j0 txn buf"
  have n: "0 < ?n" "?n \<le> JOURNAL_ENTRY_MAX_BLOCKS" "?n * ?bs \<le> length buf" "?n + 2 < ring_size j"
    and tg: "\<forall>t\<in>set (targets txn). t < unat (bd_block_count dev)" using assms(4) by (auto simp: txn_ok_def)
  have ne: "(ring_next j ^^ i) t \<noteq> sb_head (jr_sb j)" if "i < ?n + 2" for i
    unfolding assms(6) by (rule ring_pow_distinct [OF assms(3) that]) (use n(4) in linarith)
  have nxt: "(ring_next j ^^ i) (ring_next j t) = (ring_next j ^^ Suc i) t" for i by (simp add: funpow_swap1)
  obtain c1 where c1: "read_ring dev j t c = (0, header_block ?bs txn, c1)" "inv c1" "data c1 = data c"
    using read_ring_ok [OF assms(1-3)] assms(11) [of 0] by (auto simp: entry_blocks_nth(2))
  note h = header_block_read [OF n(2) assms(5)]
  have u: "unat (of_nat ?n :: u32) = ?n"
    using n(2) by (simp add: JOURNAL_ENTRY_MAX_BLOCKS_def unsigned_of_nat take_bit_nat_eq_self_iff)
  have st: "map (\<lambda>i. data c (ring_block j (unat ((ring_next j ^^ i) (ring_next j t))))) [0..<?n] = map (data_block ?bs buf) [0..<?n]"
    unfolding nxt by (auto simp: assms(11) entry_blocks_nth(3) simp del: funpow.simps)
  obtain c2 where c2: "stage_blocks dev j ?n (ring_next j t) c1 = (True, map (data_block ?bs buf) [0..<?n], (ring_next j ^^ Suc ?n) t, c2)"
      "inv c2" "data c2 = data c"
    using stage_all [OF c1(2) assms(2) ring_next_in [OF assms(3)], of ?n] ne c1(3) unfolding nxt st [unfolded nxt, symmetric]
    by (auto simp del: funpow.simps)
  have r: "in_ring j ((ring_next j ^^ Suc ?n) t)" using ring_pow_unat [OF assms(3)] by blast
  obtain c3 where c3: "read_ring dev j ((ring_next j ^^ Suc ?n) t) c2 = (0, commit_block m0 ?bs j0 txn buf, c3)" "inv c3" "data c3 = data c"
    using read_ring_ok [OF c2(2) assms(2) r] assms(11) [of "Suc ?n"] c2(3) by (auto simp: entry_blocks_nth(4) simp del: funpow.simps)
  have cv: "commit_valid m j (hdr_of (header_block ?bs txn)) (tx_refs txn) (map (data_block ?bs buf) [0..<?n]) (commit_block m0 ?bs j0 txn buf)"
    by (rule commit_block_valid) (use assms(5,8,9,10) h(3) n concat_data_blocks [OF n(3)] in auto)
  have zip: "map (\<lambda>(r, d). (unat (ucast (br_target_block r) :: u32), d)) (zip (tx_refs txn) (map (data_block ?bs buf) [0..<?n])) = logged ?bs txn buf"
    unfolding logged_def targets_def zip_map1 ..
  have ok: "\<forall>(r, d)\<in>set (zip (tx_refs txn) (map (data_block ?bs buf) [0..<?n])).
      unat (ucast (br_target_block r) :: u32) < unat (bd_block_count dev) \<and> length d = ?bs"
    using tg data_block_length [OF n(3)] by (auto simp: targets_def set_zip)
  obtain c4 where c4: "fold (\<lambda>(r, d) c. apply_block dev r d c) (zip (tx_refs txn) (map (data_block ?bs buf) [0..<?n])) c3 = c4"
      "inv c4" "data c4 = put_blocks (logged ?bs txn buf) (data c)"
    using apply_blocks_ok [OF c3(2) ok] unfolding zip c3(3) by blast
  have "replay_authenticated m dev j (header_block ?bs txn) t c1 = Goes_on (ring_next j ((ring_next j ^^ Suc ?n) t)) c4"
    using ne [of "Suc ?n"] unfolding replay_authenticated_def h(5) c2(1) Let_def prod.case
    by (simp add: c3(1) cv c4(1) del: funpow.simps)
  moreover have "ring_next j ((ring_next j ^^ Suc ?n) t) = sb_head (jr_sb j)" unfolding assms(6) by simp
  moreover have "eh_block_count (hdr_of (header_block ?bs txn)) > 0"
    unfolding h(4) word_less_nat_alt u using n(1) by simp
  ultimately have "replay_entry m dev j t c = Goes_on (sb_head (jr_sb j)) c4"
    unfolding replay_entry_def c1(1) Let_def prod.case h(1,2)
    by (simp add: assms(7) JOURNAL_ENTRY_WRITE_META_def JOURNAL_ENTRY_COMMIT_def)
  then have "replay_from m dev j t c = Some (True, c4)"
    using ne [of 0] by (subst replay_from.simps) (simp add: replay_from.simps [of m dev j "sb_head (jr_sb j)"])
  then show ?thesis using c4 by blast
qed

end

subsection \<open>Replay ends, and applies only what is authentic\<close>

lemma replaying_same [simp]:
  "in_ring (j\<lparr>jr_replaying := b\<rparr>) = in_ring j" "ring_next (j\<lparr>jr_replaying := b\<rparr>) = ring_next j"
  "ring_block (j\<lparr>jr_replaying := b\<rparr>) = ring_block j" "fits (j\<lparr>jr_replaying := b\<rparr>) dev = fits j dev"
  "journal_key (j\<lparr>jr_replaying := b\<rparr>) = journal_key j"
  "journal_is_authenticated (j\<lparr>jr_replaying := b\<rparr>) = journal_is_authenticated j"
  by (auto simp: fun_eq_iff in_ring_def ring_next_def ring_block_def fits_def journal_key_def journal_is_authenticated_def)

lemma authentic_replaying [simp]: "authentic_entry (j\<lparr>jr_replaying := b\<rparr>) = authentic_entry j"
  by (simp add: fun_eq_iff authentic_entry_def ring_run_def)

text \<open>The two ways a replay gets to its end.\<close>

lemma journal_replay_cases:
  assumes "journal_replay m dev j c = Some (r, j', c')"
  obtains (early) "c' = c" and "jr_sb j' = jr_sb j" and "r = 0 \<Longrightarrow> \<not> journal_needs_replay j"
  | (replayed) ok c1 where "replay_from m dev (j\<lparr>jr_replaying := True\<rparr>) (sb_tail (jr_sb j)) c = Some (ok, c1)"
      and "r = (if ok then 0 else -1)"
      and "jr_sb j' = (jr_sb j)\<lparr>sb_tail := sb_head (jr_sb j), sb_sequence := sb_sequence (jr_sb j) + 1\<rparr>"
      and "c' = (if jm_sb m then snd (journal_write_block dev j 0 (sb_block (bsize dev) (jr_sb j')) c1) else c1)"
proof -
  have w: "journal_write_block dev (j\<lparr>jr_replaying := True\<rparr>) = journal_write_block dev j"
    by (simp add: fun_eq_iff journal_write_block_def journal_addr_def)
  consider (a) "c' = c" "jr_sb j' = jr_sb j" "r = 0 \<Longrightarrow> \<not> journal_needs_replay j"
    | (b) "journal_needs_replay j" "\<not> (sb_version (jr_sb j) = JOURNAL_VERSION_AUTH \<and> jr_hmac_key_len j = 0)" "jm_buf m"
      "\<not> (journal_is_authenticated j \<and> \<not> jm_staged m)"
    using assms by (auto simp: journal_replay_def simp del: replaying_same split: if_splits)
  then show ?thesis
  proof cases
    case a
    then show ?thesis by (rule early)
  next
    case b
    then have "\<not> \<not> journal_needs_replay j" "\<not> \<not> jm_buf m" by simp_all
    note e = assms [unfolded journal_replay_def if_not_P [OF this(1)] if_not_P [OF b(2)] if_not_P [OF this(2)] if_not_P [OF b(4)]]
    obtain ok c1 where f: "replay_from m dev (j\<lparr>jr_replaying := True\<rparr>) (sb_tail (jr_sb j)) c = Some (ok, c1)"
      using e by (cases "replay_from m dev (j\<lparr>jr_replaying := True\<rparr>) (sb_tail (jr_sb j)) c") (auto simp: Let_def)
    show ?thesis by (rule replayed [OF f]) (use e f in \<open>auto simp: Let_def w\<close>)
  qed
qed

lemma journal_replay_returns:
  assumes "sb_head (jr_sb j) < sb_block_count (jr_sb j)" and "sb_tail (jr_sb j) < sb_block_count (jr_sb j)"
  shows "\<exists>r j' c'. journal_replay m dev j c = Some (r, j', c') \<and> r \<in> {0, -1} \<and> (r = 0 \<longrightarrow> \<not> journal_needs_replay j')"
proof -
  have "in_ring j (sb_head (jr_sb j))" "in_ring j (sb_tail (jr_sb j))"
    using assms by (simp_all add: in_ring_def word_less_nat_alt)
  then have "\<exists>x. replay_from m dev (j\<lparr>jr_replaying := True\<rparr>) (sb_tail (jr_sb j)) c = Some x"
    by (intro replay_from_returns) simp_all
  then show ?thesis
    by (auto simp: journal_replay_def journal_needs_replay_def Let_def)
qed

text \<open>
  C34 (termination). \<^verbatim>\<open>journal_replay\<close> returns for every device, whatever its reads and writes answer and whatever
  the ring contains, once the superblock's \<^verbatim>\<open>head\<close> and \<^verbatim>\<open>tail\<close> are positions of the ring. It returns 0 or -1; after a
  0 the journal needs no further replay.
\<close>

theorem journal_replay_ends:
  assumes "sb_head (jr_sb j) < sb_block_count (jr_sb j)" and "sb_tail (jr_sb j) < sb_block_count (jr_sb j)"
  shows "\<exists>r j' c'. journal_replay m dev j c = Some (r, j', c') \<and> r \<in> {0, -1} \<and> (r = 0 \<longrightarrow> \<not> journal_needs_replay j')"
  by (rule journal_replay_returns [OF assms])

definition demo_sb :: journal_superblock where
  "demo_sb = \<lparr>sb_magic = JOURNAL_MAGIC, sb_version = JOURNAL_VERSION_AUTH, sb_block_size = 4096, sb_block_count = 6,
     sb_head = 5, sb_tail = 2, sb_sequence = 9, sb_checksum = 0, sb_reserved = replicate 7 0\<rparr>"

definition demo_journal :: journal where
  "demo_journal = \<lparr>jr_start_block = 1, jr_block_count = 7, jr_sb = demo_sb, jr_current_sequence = 9, jr_dirty = False,
     jr_replaying = False, jr_hmac_key = [1, 2, 3, 4] @ replicate 28 0, jr_hmac_key_len = 4\<rparr>"

definition mem_ok :: journal_mem where
  "mem_ok = \<lparr>jm_buf = True, jm_sb = True, jm_staged = True, jm_data = True, jm_hmac = True\<rparr>"

theorem journal_replay_ends_witness:
  "journal_needs_replay demo_journal \<and>
   (\<exists>r j' c'. journal_replay mem_ok scripted demo_journal (replicate 20 BLOCK_IO_OK) = Some (r, j', c') \<and>
     r \<in> {0, -1} \<and> (r = 0 \<longrightarrow> \<not> journal_needs_replay j'))"
  using journal_replay_ends [of demo_journal mem_ok scripted "replicate 20 BLOCK_IO_OK"]
  by (simp add: journal_needs_replay_def demo_journal_def demo_sb_def)

text \<open>A RAM disk with given blocks.\<close>

definition disk_of :: "u8 list list \<Rightarrow> ramdisk" where
  "disk_of bs = \<lparr>rd_storage = Some (concat bs), rd_capacity_blocks = length bs, rd_initialized = True, rd_block_count = length bs\<rparr>"

lemma concat_nth_block: "\<forall>b\<in>set bs. length b = n \<Longrightarrow> i < length bs \<Longrightarrow> take n (drop (i * n) (concat bs)) = bs ! i"
proof (induction bs arbitrary: i)
  case (Cons b bs)
  then show ?case by (cases i) (simp_all add: add.commute)
qed simp

lemma disk_of_data: "\<forall>b\<in>set bs. length b = RAMDISK_BLOCK_SIZE \<Longrightarrow> i < length bs \<Longrightarrow> ramdisk_data (disk_of bs) i = bs ! i"
  by (simp add: ramdisk_data_def disk_of_def concat_nth_block)

lemma disk_of_ok:
  assumes "\<forall>b\<in>set bs. length b = RAMDISK_BLOCK_SIZE" and "bs \<noteq> []" and "length bs \<le> RAMDISK_MAX_BLOCKS"
  shows "ramdisk_ok (length bs) (disk_of bs)"
proof -
  have "length (concat bs) = length bs * RAMDISK_BLOCK_SIZE" using assms(1) by (induction bs) simp_all
  then show ?thesis using assms(2,3) by (simp add: ramdisk_ok_def disk_of_def Suc_le_eq)
qed


text \<open>A forged transaction: a well-formed entry for block 0 whose commit block has no tag.\<close>

definition forged_txn :: journal_transaction where
  "forged_txn = \<lparr>tx_sequence = 9, tx_refs = [\<lparr>br_target_block = 0, br_offset = 0, br_length = 4096\<rparr>],
     tx_data_buffer = None, tx_data_used = 4096, tx_committed = False\<rparr>"

definition forged_disk :: "u8 list list" where
  "forged_disk =
     (let z = replicate RAMDISK_BLOCK_SIZE 0; six = replicate RAMDISK_BLOCK_SIZE 6
      in [z, z, z, z, header_block RAMDISK_BLOCK_SIZE forged_txn, six,
          commit_block mem_ok RAMDISK_BLOCK_SIZE (demo_journal\<lparr>jr_hmac_key_len := 0\<rparr>) forged_txn six, z])"

lemma forged_disk_lengths: "\<forall>b\<in>set forged_disk. length b = RAMDISK_BLOCK_SIZE" "length forged_disk = 8"
  by (simp_all add: forged_disk_def Let_def header_block_def commit_block_def)

lemma forged_disk_flags: "q < 6 \<Longrightarrow> eh_flags (hdr_of (forged_disk ! (2 + q))) AND JOURNAL_ENTRY_FLAG_HMAC = 0"
proof -
  have six: "eh_flags (hdr_of (replicate RAMDISK_BLOCK_SIZE 6)) = 0x06060606" "eh_flags (hdr_of (replicate RAMDISK_BLOCK_SIZE 0)) = 0"
    by (simp_all add: hdr_of_def le32_at_def RAMDISK_BLOCK_SIZE_def)
  have f: "eh_flags (hdr_of (header_block RAMDISK_BLOCK_SIZE forged_txn)) = 0"
    unfolding header_block_def by (subst sealed_fields) (simp_all add: forged_txn_def RAMDISK_BLOCK_SIZE_def)
  have g: "eh_flags (hdr_of (commit_block mem_ok RAMDISK_BLOCK_SIZE (demo_journal\<lparr>jr_hmac_key_len := 0\<rparr>) forged_txn x)) = 0" for x
    by (simp add: commit_block_def Let_def journal_is_authenticated_def sealed_fields RAMDISK_BLOCK_SIZE_def)
  assume "q < 6"
  then consider "q = 0" | "q = 1" | "q = 2" | "q = 3" | "q = 4" | "q = 5" by linarith
  then show ?thesis
    by cases (simp_all add: forged_disk_def Let_def f g six JOURNAL_ENTRY_FLAG_HMAC_def)
qed


end
