(* ===== verification/JournalMount.thy ===== *)
theory JournalMount
  imports JournalSafe
begin

text \<open>
  How the file system uses the journal: \<^verbatim>\<open>fs/capyfs/capyfs_journal_integration.c\<close>. A side table holds one journal per
  mounted device. The mount hook opens the journal, or formats it, installs the key derived from the superblock of the
  volume and replays; metadata writes are logged as transactions of one block.

  A device is named by a number (\<open>None\<close> is the null pointer); the hooks take its operations and driver state beside
  it. As in theory \<open>Journal\<close>, the result \<open>None\<close> stands for a replay that does not return or a commit that reads
  through a null pointer. Log messages are not modelled.
\<close>

subsection \<open>State\<close>

definition CAPYFS_JOURNAL_BLOCKS :: u32 where "CAPYFS_JOURNAL_BLOCKS = 32"
definition CAPYFS_JOURNAL_ROOT_SECRET_MAX :: nat where "CAPYFS_JOURNAL_ROOT_SECRET_MAX = 64"
definition CAPYFS_JOURNAL_MAX_MOUNTS :: nat where "CAPYFS_JOURNAL_MAX_MOUNTS = 4"

datatype capyfs_journal_recovery_cause =
    CAPYFS_JOURNAL_RECOVERY_NONE
  | CAPYFS_JOURNAL_RECOVERY_WAL_REPLAY
  | CAPYFS_JOURNAL_RECOVERY_WAL_REPLAY_FAILED
  | CAPYFS_JOURNAL_RECOVERY_FORMAT

record capyfs_journal_slot =
  js_dev :: "nat option"
  js_jrnl :: journal
  js_active :: bool

record capyfs_journal =
  cj_recovery_cause :: capyfs_journal_recovery_cause
  cj_root_secret :: "u8 list"
  cj_root_secret_len :: nat
  cj_slots :: "capyfs_journal_slot list"

definition capyfs_journal_last_recovery_cause :: "capyfs_journal \<Rightarrow> capyfs_journal_recovery_cause" where
  "capyfs_journal_last_recovery_cause s = cj_recovery_cause s"

fun capyfs_journal_recovery_cause_label :: "capyfs_journal_recovery_cause \<Rightarrow> string" where
  "capyfs_journal_recovery_cause_label CAPYFS_JOURNAL_RECOVERY_WAL_REPLAY = ''wal-replay''"
| "capyfs_journal_recovery_cause_label CAPYFS_JOURNAL_RECOVERY_WAL_REPLAY_FAILED = ''wal-replay-failed''"
| "capyfs_journal_recovery_cause_label CAPYFS_JOURNAL_RECOVERY_FORMAT = ''first-mount-format''"
| "capyfs_journal_recovery_cause_label CAPYFS_JOURNAL_RECOVERY_NONE = ''none''"

subsection \<open>The root secret\<close>

definition capyfs_journal_clear_root_secret :: "capyfs_journal \<Rightarrow> capyfs_journal" where
  "capyfs_journal_clear_root_secret s =
     s\<lparr>cj_root_secret := replicate CAPYFS_JOURNAL_ROOT_SECRET_MAX 0, cj_root_secret_len := 0\<rparr>"

text \<open>The secret is a byte list; \<open>None\<close> is the null pointer.\<close>

definition capyfs_journal_install_root_secret :: "u8 list option \<Rightarrow> capyfs_journal \<Rightarrow> capyfs_journal" where
  "capyfs_journal_install_root_secret secret s =
     (case secret of None \<Rightarrow> capyfs_journal_clear_root_secret s
      | Some k \<Rightarrow>
          if length k = 0 \<or> length k > CAPYFS_JOURNAL_ROOT_SECRET_MAX then capyfs_journal_clear_root_secret s
          else s\<lparr>cj_root_secret := k @ replicate (CAPYFS_JOURNAL_ROOT_SECRET_MAX - length k) 0, cj_root_secret_len := length k\<rparr>)"

definition capyfs_journal_root_secret_installed :: "capyfs_journal \<Rightarrow> bool" where
  "capyfs_journal_root_secret_installed s \<longleftrightarrow> cj_root_secret_len s > 0"

text \<open>The derived key; the empty list is the result 0. No superblock is the empty list, too.\<close>

definition derive_volume_hmac_key :: "u8 list \<Rightarrow> nat \<Rightarrow> capyfs_journal \<Rightarrow> u8 list" where
  "derive_volume_hmac_key super out_max s =
     (if out_max = 0 then []
      else if cj_root_secret_len s = 0 then []
      else if super = [] then []
      else take (if out_max < SHA256_DIGEST_SIZE then out_max else SHA256_DIGEST_SIZE)
             (crypt_hmac_sha256 (replicate SHA256_BLOCK_SIZE 0) (take (cj_root_secret_len s) (cj_root_secret s)) super))"

subsection \<open>The table of journals\<close>

definition journal_slot_for :: "nat option \<Rightarrow> capyfs_journal \<Rightarrow> nat option" where
  "journal_slot_for dv s =
     (if dv = None then None
      else find (\<lambda>i. js_active (cj_slots s ! i) \<and> js_dev (cj_slots s ! i) = dv) [0..<CAPYFS_JOURNAL_MAX_MOUNTS])"

definition slot_put :: "nat \<Rightarrow> capyfs_journal_slot \<Rightarrow> capyfs_journal \<Rightarrow> capyfs_journal" where
  "slot_put i sl s = s\<lparr>cj_slots := (cj_slots s)[i := sl]\<rparr>"

definition journal_slot_alloc :: "nat option \<Rightarrow> capyfs_journal \<Rightarrow> (nat \<times> capyfs_journal) option" where
  "journal_slot_alloc dv s =
     (case find (\<lambda>i. \<not> js_active (cj_slots s ! i)) [0..<CAPYFS_JOURNAL_MAX_MOUNTS] of None \<Rightarrow> None
      | Some i \<Rightarrow> Some (i, slot_put i ((cj_slots s ! i)\<lparr>js_dev := dv, js_active := True\<rparr>) s))"

definition slot_journal :: "nat \<Rightarrow> journal \<Rightarrow> capyfs_journal \<Rightarrow> capyfs_journal" where
  "slot_journal i j s = slot_put i ((cj_slots s ! i)\<lparr>js_jrnl := j\<rparr>) s"

subsection \<open>Mounting\<close>

text \<open>No journal could be opened: it is formatted.\<close>

definition mount_format ::
  "journal_mem \<Rightarrow> 'c block_device \<Rightarrow> u64 \<Rightarrow> u8 list \<Rightarrow> nat \<Rightarrow> journal \<Rightarrow> capyfs_journal \<Rightarrow> 'c \<Rightarrow> int \<times> capyfs_journal \<times> 'c" where
  "mount_format m dev journal_start key i j s c =
     (let (rc, j1, c1) =
            (if key \<noteq> [] then journal_format_authenticated m dev journal_start CAPYFS_JOURNAL_BLOCKS key j c
             else journal_format m dev journal_start CAPYFS_JOURNAL_BLOCKS j c);
          s1 = slot_journal i j1 s
      in if rc \<noteq> 0 then (0, slot_put i ((cj_slots s1 ! i)\<lparr>js_active := False\<rparr>) s1, c1)
         else (0, s1\<lparr>cj_recovery_cause := CAPYFS_JOURNAL_RECOVERY_FORMAT\<rparr>, c1))"

text \<open>An existing journal was opened: the key is installed and the journal replayed.\<close>

definition mount_replay ::
  "journal_mem \<Rightarrow> 'c block_device \<Rightarrow> u8 list \<Rightarrow> nat \<Rightarrow> journal \<Rightarrow> capyfs_journal \<Rightarrow> 'c \<Rightarrow> (int \<times> capyfs_journal \<times> 'c) option" where
  "mount_replay m dev key i j s c =
     (let journal_is_auth = (journal_is_authenticated j \<or> sb_version (jr_sb j) \<ge> 2);
          j1 = (if journal_is_auth \<and> key \<noteq> [] then snd (journal_set_hmac_key key j) else j)
      in if journal_needs_replay j1
         then (case journal_replay m dev j1 c of None \<Rightarrow> None
               | Some (rc, j2, c1) \<Rightarrow>
                   Some (0, (slot_journal i j2 s)\<lparr>cj_recovery_cause :=
                     if rc \<noteq> 0 then CAPYFS_JOURNAL_RECOVERY_WAL_REPLAY_FAILED else CAPYFS_JOURNAL_RECOVERY_WAL_REPLAY\<rparr>, c1))
         else Some (0, slot_journal i j1 s, c))"

definition capyfs_journal_mount_hook ::
  "journal_mem \<Rightarrow> nat option \<Rightarrow> 'c block_device \<Rightarrow> u32 \<Rightarrow> u8 list \<Rightarrow> capyfs_journal \<Rightarrow> 'c \<Rightarrow> (int \<times> capyfs_journal \<times> 'c) option" where
  "capyfs_journal_mount_hook m dv dev data_start super s c =
     (let s0 = s\<lparr>cj_recovery_cause := CAPYFS_JOURNAL_RECOVERY_NONE\<rparr> in
      if dv = None \<or> data_start < CAPYFS_JOURNAL_BLOCKS + 2 then Some (0, s0, c)
      else
        (case journal_slot_alloc dv s0 of None \<Rightarrow> Some (0, s0, c)
         | Some (i, s1) \<Rightarrow>
             (let key = derive_volume_hmac_key super JOURNAL_HMAC_KEY_MAX s1;
                  journal_start = ucast (data_start - CAPYFS_JOURNAL_BLOCKS);
                  (rc, j1, c1) = journal_init m dev journal_start CAPYFS_JOURNAL_BLOCKS (js_jrnl (cj_slots s1 ! i)) c
              in if rc \<noteq> 0 then Some (mount_format m dev journal_start key i j1 s1 c1)
                 else mount_replay m dev key i j1 s1 c1)))"

subsection \<open>Writing\<close>

text \<open>
  The first argument says whether the allocation of the data buffer succeeds, \<open>data\<close> holds at least \<open>data_len\<close> bytes.
\<close>

definition capyfs_journal_write_metadata ::
  "bool \<Rightarrow> journal_mem \<Rightarrow> nat option \<Rightarrow> 'c block_device \<Rightarrow> u32 \<Rightarrow> u8 list \<Rightarrow> u32 \<Rightarrow> capyfs_journal \<Rightarrow> 'c \<Rightarrow>
     (int \<times> capyfs_journal \<times> 'c) option" where
  "capyfs_journal_write_metadata alloc_ok m dv dev target_block data data_len s c =
     (case journal_slot_for dv s of None \<Rightarrow> Some (0, s, c)
      | Some i \<Rightarrow>
          (let (txn, j1) = journal_begin (js_jrnl (cj_slots s ! i));
               (r, txn1) = journal_log_block alloc_ok (bsize dev) (ucast target_block) data 0 data_len txn
           in if r \<noteq> 0 then Some (-1, slot_journal i j1 s, c)
              else
                (case journal_commit m dev j1 txn1 c of None \<Rightarrow> None
                 | Some (rc, j2, txn2, c1) \<Rightarrow> Some (if rc \<noteq> 0 then -1 else 0, slot_journal i j2 s, c1))))"

definition capyfs_journal_checkpoint_hook ::
  "journal_mem \<Rightarrow> nat option \<Rightarrow> 'c block_device \<Rightarrow> capyfs_journal \<Rightarrow> 'c \<Rightarrow> int \<times> capyfs_journal \<times> 'c" where
  "capyfs_journal_checkpoint_hook m dv dev s c =
     (case journal_slot_for dv s of None \<Rightarrow> (0, s, c)
      | Some i \<Rightarrow> (let (r, j1, c1) = journal_checkpoint m dev (js_jrnl (cj_slots s ! i)) c in (r, slot_journal i j1 s, c1)))"

definition capyfs_journal_active :: "nat option \<Rightarrow> capyfs_journal \<Rightarrow> bool" where
  "capyfs_journal_active dv s \<longleftrightarrow> journal_slot_for dv s \<noteq> None"

definition capyfs_journal_stats :: "nat option \<Rightarrow> capyfs_journal \<Rightarrow> u32 \<times> u32" where
  "capyfs_journal_stats dv s =
     (case journal_slot_for dv s of None \<Rightarrow> (0, 0) | Some i \<Rightarrow> journal_stats (js_jrnl (cj_slots s ! i)))"

definition capyfs_journal_release_slot :: "nat option \<Rightarrow> capyfs_journal \<Rightarrow> capyfs_journal" where
  "capyfs_journal_release_slot dv s =
     (case journal_slot_for dv s of None \<Rightarrow> s
      | Some i \<Rightarrow> slot_put i ((cj_slots s ! i)\<lparr>js_active := False, js_dev := None\<rparr>) s)"

end
