(* ===== verification/JournalCrash.thy ===== *)
theory JournalCrash
  imports JournalMount
begin

text \<open>
  Crashes. A commit is a sequence of block writes; a crash keeps a prefix of them. Whatever the prefix, mounting the
  volume again gives either the old contents or all the writes of the transaction, nothing in between.
\<close>

subsection \<open>The writes of a commit\<close>

definition commit_trace :: "journal_mem \<Rightarrow> nat \<Rightarrow> journal \<Rightarrow> journal_transaction \<Rightarrow> u8 list \<Rightarrow> (u64 \<times> u8 list) list" where
  "commit_trace m bs j txn buf =
     commit_writes m bs j txn buf @
     [(0, sb_block bs ((jr_sb j)\<lparr>sb_head := (ring_next j ^^ (length (tx_refs txn) + 2)) (sb_head (jr_sb j))\<rparr>))]"

lemma put_append: "put_blocks (xs @ ys) f = put_blocks ys (put_blocks xs f)"
  by (simp add: put_blocks_def)

lemma ring_pow_in: "in_ring j p \<Longrightarrow> in_ring j ((ring_next j ^^ i) p)"
  using ring_pow_unat by blast

lemma ring_positions_in: "in_ring j (sb_head (jr_sb j)) \<Longrightarrow> p \<in> set (ring_positions j n) \<Longrightarrow> in_ring j p"
  using ring_pow_in by (auto simp: ring_positions_def)

definition entry_positions :: "journal \<Rightarrow> nat \<Rightarrow> nat list" where
  "entry_positions j n = map (\<lambda>p. ring_block j (unat p)) (ring_positions j n)"

lemma entry_positions_nth: "i < n \<Longrightarrow> entry_positions j n ! i = ring_block j (unat ((ring_next j ^^ i) (sb_head (jr_sb j))))"
  by (simp add: entry_positions_def ring_positions_def)

lemma entry_positions_length [simp]: "length (entry_positions j n) = n"
  by (simp add: entry_positions_def ring_positions_def)

lemma entry_positions_distinct:
  assumes "in_ring j (sb_head (jr_sb j))" and "n \<le> ring_size j"
  shows "distinct (entry_positions j n)"
proof -
  have "(ring_next j ^^ i) (sb_head (jr_sb j)) \<noteq> (ring_next j ^^ k) (sb_head (jr_sb j))" if "i < k" "k < n" for i k
    by (rule ring_pow_distinct [OF assms(1) that(1)]) (use that assms(2) in linarith)
  then have "inj_on (\<lambda>i. unat ((ring_next j ^^ i) (sb_head (jr_sb j)))) {0..<n}"
    by (intro linorder_inj_onI') (auto dest!: unsigned_word_eqI)
  then show ?thesis by (simp add: entry_positions_def ring_positions_def distinct_map inj_on_def ring_block_def)
qed

lemma entry_positions_inside:
  assumes "in_ring j (sb_head (jr_sb j))"
  shows "set (entry_positions j n) \<subseteq> journal_area j - {unat (jr_start_block j)}"
  using ring_positions_in [OF assms] by (fastforce simp: entry_positions_def ring_block_def journal_area_def in_ring_def)

lemma commit_writes_at:
  assumes "in_ring j (sb_head (jr_sb j))"
  shows "map (\<lambda>(b, d). (unat (jr_start_block j) + unat b, d)) (commit_writes m bs j txn buf) =
    zip (entry_positions j (length (tx_refs txn) + 2)) (entry_blocks m bs j txn buf)"
proof -
  let ?n = "length (tx_refs txn) + 2"
  have "map (\<lambda>p. unat (jr_start_block j) + unat (ucast (1 + p) :: u64)) (ring_positions j ?n) = entry_positions j ?n"
    unfolding entry_positions_def by (rule map_cong [OF refl]) (simp add: ring_offset [OF ring_positions_in [OF assms]] ring_block_def)
  moreover have "map (\<lambda>(b, d). (f b, d)) (zip (map g xs) ys) = zip (map (\<lambda>p. f (g p)) xs) ys"
    for f :: "u64 \<Rightarrow> nat" and g :: "u32 \<Rightarrow> u64" and xs and ys :: "u8 list list"
    by (induction xs ys rule: list_induct2') simp_all
  ultimately show ?thesis by (simp add: commit_writes_def entry_blocks_def Let_def)
qed

lemma entry_blocks_sizes:
  "length (tx_refs txn) * bs \<le> length buf \<Longrightarrow> \<forall>d\<in>set (entry_blocks m bs j txn buf). length d = bs"
  using data_block_length by (auto simp: entry_blocks_def header_block_def commit_block_def Let_def)

lemma commit_trace_ok:
  assumes "in_ring j (sb_head (jr_sb j))" and "length (tx_refs txn) * bs \<le> length buf"
  shows "\<forall>(b, d)\<in>set (commit_trace m bs j txn buf). unat b \<le> ring_size j \<and> length d = bs"
proof -
  have "unat b \<le> ring_size j \<and> length d = bs" if "(b, d) \<in> set (commit_writes m bs j txn buf)" for b d
  proof -
    have "b \<in> set (map (\<lambda>p. ucast (1 + p)) (ring_positions j (length (tx_refs txn) + 2)))" "d \<in> set (entry_blocks m bs j txn buf)"
      using that by (auto simp: commit_writes_def entry_blocks_def Let_def dest: set_zip_leftD set_zip_rightD simp del: set_map)
    then obtain p where "p \<in> set (ring_positions j (length (tx_refs txn) + 2))" "b = ucast (1 + p)" "length d = bs"
      using entry_blocks_sizes [OF assms(2)] by (metis (no_types, lifting) in_set_conv_nth length_map nth_map)
    then show ?thesis using ring_offset [of j p] ring_positions_in [OF assms(1)] unfolding in_ring_def by fastforce
  qed
  then show ?thesis by (auto simp: commit_trace_def sb_block_def)
qed

text \<open>Two journals on the same blocks.\<close>

definition same_ring :: "journal \<Rightarrow> journal \<Rightarrow> bool" where
  "same_ring j j1 \<longleftrightarrow> jr_start_block j1 = jr_start_block j \<and> sb_block_count (jr_sb j1) = sb_block_count (jr_sb j)"

lemma same_ring_eqs:
  assumes "same_ring j j1"
  shows "in_ring j1 = in_ring j" "ring_next j1 = ring_next j" "ring_block j1 = ring_block j" "fits j1 dev = fits j dev"
    "journal_area j1 = journal_area j" "txn_ok dev j1 = txn_ok dev j"
  using assms
  by (simp_all add: fun_eq_iff same_ring_def in_ring_def ring_next_def ring_block_def fits_def journal_area_def txn_ok_def)

lemma put_cong: "f x = g x \<Longrightarrow> put_blocks ws f x = put_blocks ws g x"
proof (induction ws arbitrary: f g)
  case (Cons w ws)
  have step: "put_blocks (w # ws) h = put_blocks ws (h(fst w := snd w))" for h by (cases w) (simp add: put_blocks_def)
  show ?case unfolding step by (rule Cons.IH) (simp add: Cons.prems)
qed (simp add: put_blocks_def)

lemma sb_of_block: "length (sb_reserved sb) = 7 \<Longrightarrow> 64 \<le> bs \<Longrightarrow> sb_of (sb_block bs sb) = sb"
proof (rule sb_read)
  assume a: "length (sb_reserved sb) = 7" "64 \<le> bs"
  show "take 64 (sb_block bs sb) = sb_bytes sb"
    using block_with_take [of "sb_bytes sb" bs] a(2) unfolding sb_bytes_length [OF a(1)] sb_block_def by simp
qed (simp_all add: sb_block_def)

lemma sb_of_reserved: "length (sb_reserved (sb_of b)) = 7"
  by (simp add: sb_of_def)

text \<open>An open journal with an empty ring whose superblock is on the disk.\<close>

definition journal_ready :: "'c block_device \<Rightarrow> (nat \<Rightarrow> u8 list) \<Rightarrow> journal \<Rightarrow> bool" where
  "journal_ready dev d j \<longleftrightarrow>
     sb_of (d (unat (jr_start_block j))) = jr_sb j \<and> sb_magic (jr_sb j) = JOURNAL_MAGIC \<and> journal_is_authenticated j \<and>
     sb_head (jr_sb j) = sb_tail (jr_sb j) \<and> in_ring j (sb_head (jr_sb j)) \<and> fits j dev \<and> 288 \<le> bsize dev \<and>
     length (jr_hmac_key j) = JOURNAL_HMAC_KEY_MAX \<and> jr_hmac_key_len j \<le> JOURNAL_HMAC_KEY_MAX"

lemma ready_key: "journal_ready dev d j \<Longrightarrow> journal_key j \<noteq> [] \<and> length (journal_key j) \<le> JOURNAL_HMAC_KEY_MAX"
  by (auto simp: journal_ready_def journal_key_def journal_is_authenticated_def JOURNAL_HMAC_KEY_MAX_def)

lemma store_key_same [simp]: "same_ring j (store_key key j)" "jr_sb (store_key key j) = jr_sb j"
  "jr_start_block (store_key key j) = jr_start_block j" "journal_key (store_key key j) = key"
  "jr_hmac_key_len (store_key key j) = length key"
  by (simp_all add: same_ring_def store_key_def journal_key_def)

lemma derive_same [simp]:
  "derive_volume_hmac_key super n (s\<lparr>cj_recovery_cause := x, cj_slots := y\<rparr>) = derive_volume_hmac_key super n s"
  by (simp add: derive_volume_hmac_key_def cong: if_cong)

lemma commit_runs:
  assumes "journal_ready dev d j" and "txn_ok dev j txn buf" and "tx_data_buffer txn = Some buf" and "\<not> tx_committed txn"
    and "jm_buf m" and "jm_sb m"
  shows "\<exists>j1 txn1. journal_commit m dev j txn c = Some (0, j1, txn1, journal_writes dev j (commit_trace m (bsize dev) j txn buf) c)"
proof -
  let ?n = "length (tx_refs txn)"
  have n: "?n \<le> 16" "?n + 2 < ring_size j" using assms(2) by (auto simp: txn_ok_def JOURNAL_ENTRY_MAX_BLOCKS_def)
  have "ring_used j = 0" using assms(1) by (simp add: ring_used_def Let_def journal_ready_def)
  moreover have "unat (of_nat ?n :: u32) = ?n" using n(1) by (simp add: unsigned_of_nat take_bit_nat_eq_self_iff)
  then have "unat (1 + of_nat ?n + 1 :: u32) = ?n + 2" using n(1) by (simp add: unat_plus_if' del: unat_of_nat)
  moreover have "unat (sb_block_count (jr_sb j) - 1) = ring_size j - 1"
    using n(2) by (subst unat_sub) (simp_all add: word_le_nat_alt)
  ultimately have fit: "\<not> 1 + of_nat ?n + 1 > sb_block_count (jr_sb j) - ring_used j - 1"
    using n(2) by (simp add: word_less_nat_alt)
  have w: "journal_writes dev (j\<lparr>jr_sb := x, jr_dirty := True\<rparr>) = journal_writes dev j" for x
    by (simp add: fun_eq_iff journal_writes_def journal_write_block_def journal_addr_def)
  show ?thesis
    unfolding journal_commit_def Let_def if_not_P [OF fit] w
    using assms(3-6) by (simp add: commit_trace_def journal_writes_def)
qed

context disk
begin

text \<open>The disk after the first \<open>k\<close> writes.\<close>

lemma crash_state:
  assumes "inv c" and "fits j dev" and "in_ring j (sb_head (jr_sb j))" and "txn_ok dev j txn buf"
    and "c' = journal_writes dev j (take k (commit_trace m (bsize dev) j txn buf)) c"
  shows "inv c'" and "x \<notin> journal_area j \<Longrightarrow> data c' x = data c x"
    and "k \<le> length (tx_refs txn) + 2 \<Longrightarrow> data c' (unat (jr_start_block j)) = data c (unat (jr_start_block j))"
    and "length (tx_refs txn) + 2 < k \<Longrightarrow> data c' (unat (jr_start_block j)) =
      sb_block (bsize dev) ((jr_sb j)\<lparr>sb_head := (ring_next j ^^ (length (tx_refs txn) + 2)) (sb_head (jr_sb j))\<rparr>)"
    and "length (tx_refs txn) + 2 < k \<Longrightarrow> i < length (tx_refs txn) + 2 \<Longrightarrow>
      data c' (ring_block j (unat ((ring_next j ^^ i) (sb_head (jr_sb j))))) = entry_blocks m (bsize dev) j txn buf ! i"
proof -
  let ?n = "length (tx_refs txn) + 2" and ?s = "unat (jr_start_block j)"
  let ?sb = "sb_block (bsize dev) ((jr_sb j)\<lparr>sb_head := (ring_next j ^^ ?n) (sb_head (jr_sb j))\<rparr>)"
  define ws where "ws = zip (entry_positions j ?n) (entry_blocks m (bsize dev) j txn buf)"
  have b: "length (tx_refs txn) * bsize dev \<le> length buf" and r: "?n < ring_size j" using assms(4) by (auto simp: txn_ok_def)
  note ok = commit_trace_ok [OF assms(3) b, of m]
  have t: "map (\<lambda>(b, d). (?s + unat b, d)) (commit_trace m (bsize dev) j txn buf) = ws @ [(?s, ?sb)]"
    unfolding commit_trace_def map_append commit_writes_at [OF assms(3)] ws_def by simp
  have "\<forall>(b, d)\<in>set (take k (commit_trace m (bsize dev) j txn buf)). unat b \<le> ring_size j \<and> length d = bsize dev"
    using ok by (meson in_set_takeD)
  then have c': "inv c' \<and> data c' = put_blocks (take k (ws @ [(?s, ?sb)])) (data c)"
    unfolding assms(5) t [symmetric] take_map by (rule journal_writes_ok [OF assms(1,2)])
  then show "inv c'" by simp
  have lw: "length ws = ?n" by (simp add: ws_def entry_blocks_nth(1))
  have fw: "map fst ws = entry_positions j ?n" by (simp add: ws_def entry_blocks_nth(1))
  then have fs: "fst ` set ws \<subseteq> journal_area j - {?s}" using entry_positions_inside [OF assms(3), of ?n] by (metis list.set_map)
  have sub: "fst ` set (take k (ws @ [(?s, ?sb)])) \<subseteq> fst ` set ws \<union> {?s}" by (auto dest: in_set_takeD)
  show "data c' x = data c x" if "x \<notin> journal_area j"
  proof -
    have "unat (jr_start_block j) \<in> journal_area j" by (simp add: journal_area_def)
    then have "x \<notin> fst ` set ws \<union> {?s}" using fs that by auto
    then have "x \<notin> fst ` set (take k (ws @ [(?s, ?sb)]))" using sub by (rule contra_subsetD [rotated])
    then show ?thesis unfolding conjunct2 [OF c'] by (rule put_other)
  qed
  show "data c' ?s = data c ?s" if "k \<le> ?n"
  proof -
    have "take k (ws @ [(?s, ?sb)]) = take k ws" using that lw by simp
    then show ?thesis using c' fs by (auto intro!: put_other dest: in_set_takeD)
  qed
  show "data c' ?s = ?sb" if "?n < k"
    using c' that lw by (simp add: put_append) (simp add: put_blocks_def)
  show "data c' (ring_block j (unat ((ring_next j ^^ i) (sb_head (jr_sb j))))) = entry_blocks m (bsize dev) j txn buf ! i"
    if "?n < k" "i < ?n"
  proof -
    let ?a = "ring_block j (unat ((ring_next j ^^ i) (sb_head (jr_sb j))))"
    have wi: "ws ! i = (?a, entry_blocks m (bsize dev) j txn buf ! i)"
      using that(2) by (simp add: ws_def entry_positions_nth entry_blocks_nth(1))
    have "?a \<noteq> ?s" by (simp add: ring_block_def)
    moreover have "data c' = (put_blocks ws (data c))(?s := ?sb)"
      using c' that(1) lw by (simp add: put_append) (simp add: put_blocks_def)
    moreover have "put_blocks ws (data c) (fst (ws ! i)) = snd (ws ! i)"
      by (rule put_nth) (use fw entry_positions_distinct [OF assms(3), of ?n] r lw that(2) in auto)
    ultimately show ?thesis unfolding wi by simp
  qed
qed

lemma journal_init_ok:
  assumes "inv c" and "unat start < unat (bd_block_count dev)" and "jm_sb m" and "jm_buf m"
    and "sb_magic (sb_of (data c (unat start))) = JOURNAL_MAGIC" and "sb_version (sb_of (data c (unat start))) = JOURNAL_VERSION_AUTH"
  shows "\<exists>j1 c'. journal_init m dev start bc j0 c = (0, j1, c') \<and> jr_start_block j1 = start \<and>
    jr_sb j1 = sb_of (data c (unat start)) \<and> inv c' \<and> data c' = data c"
proof -
  have "unat (bd_block_count dev) < 2 ^ LENGTH(32)" by (rule unsigned_less)
  then have a: "unat (ucast start :: u32) = unat start"
    using assms(2) by (simp add: unsigned_ucast_eq take_bit_nat_eq_self_iff)
  obtain c' where c': "block_device_read dev (ucast start) (replicate (bsize dev) 0) c = (0, data c (unat start), c')"
      "inv c'" "data c' = data c"
    using disk_read [OF assms(1), of "ucast start" "replicate (bsize dev) 0"] assms(2) a by auto
  then show ?thesis
    using assms(3-6) by (simp add: journal_init_def Let_def journal_read_block_def journal_addr_def store_key_def)
qed

text \<open>Opening the journal after the crash, then replaying.\<close>

lemma replay_after_crash:
  assumes "inv c" and "journal_ready dev (data c) j" and "txn_ok dev j txn buf"
    and "c' = journal_writes dev j (take k (commit_trace m0 (bsize dev) j txn buf)) c" and "length (tx_refs txn) + 2 < k"
    and "inv c1" and "data c1 = data c'"
    and "jr_start_block j2 = jr_start_block j" and "jr_sb j2 = sb_of (data c' (unat (jr_start_block j)))" and "journal_key j2 = journal_key j"
    and "jr_hmac_key_len j2 > 0" and "jm_buf m" and "jm_sb m" and "jm_staged m" and "jm_hmac m = jm_hmac m0"
  shows "\<exists>j3 c2. journal_replay m dev j2 c1 = Some (0, j3, c2) \<and> inv c2 \<and>
    (\<forall>x. x \<notin> journal_area j \<longrightarrow> data c2 x = put_blocks (logged (bsize dev) txn buf) (data c) x)"
    and "journal_needs_replay j2"
proof -
  let ?n = "length (tx_refs txn)" and ?h = "sb_head (jr_sb j)"
  have rdy: "in_ring j ?h" "fits j dev" "288 \<le> bsize dev" "?h = sb_tail (jr_sb j)" "journal_is_authenticated j"
    "sb_of (data c (unat (jr_start_block j))) = jr_sb j"
    using assms(2) by (auto simp: journal_ready_def)
  note cs = crash_state [OF assms(1) rdy(2,1) assms(3,4)]
  have sb: "jr_sb j2 = (jr_sb j)\<lparr>sb_head := (ring_next j ^^ (?n + 2)) ?h\<rparr>"
    unfolding assms(9) cs(4) [OF assms(5)] by (rule sb_of_block) (use rdy(3) sb_of_reserved rdy(6) [symmetric] in auto)
  have sr: "same_ring j j2" using assms(8) sb by (simp add: same_ring_def)
  note e = same_ring_eqs [OF sr]
  have r: "?n + 2 < ring_size j" using assms(3) by (simp add: txn_ok_def)
  have "(ring_next j ^^ 0) ?h \<noteq> (ring_next j ^^ (?n + 2)) ?h" by (rule ring_pow_distinct [OF rdy(1)]) (use r in simp_all)
  then show need: "journal_needs_replay j2" using rdy(4) by (simp add: journal_needs_replay_def sb)
  have auth: "journal_is_authenticated j2" using rdy(5) assms(11) by (simp add: journal_is_authenticated_def sb)
  let ?j = "j2\<lparr>jr_replaying := True\<rparr>"
  have sr': "same_ring j ?j" using sr by (simp add: same_ring_def)
  note e' = same_ring_eqs [OF sr']
  have tail: "sb_tail (jr_sb j2) = ?h" using rdy(4) by (simp add: sb)
  obtain c3 where c3: "replay_from m dev ?j ?h c1 = Some (True, c3)" "inv c3"
      "data c3 = put_blocks (logged (bsize dev) txn buf) (data c1)"
    using replay_committed [of c1 ?j ?h txn buf j m m0] assms(3,6,7,10,15) rdy auth cs(5) [OF assms(5)] unfolding e' by (auto simp: sb)
  have sz: "length (sb_block (bsize dev) x) = bsize dev" for x by (simp add: sb_block_def)
  define sb' where "sb' = (jr_sb j2)\<lparr>sb_tail := sb_head (jr_sb j2), sb_sequence := sb_sequence (jr_sb j2) + 1\<rparr>"
  obtain c4 where c4: "journal_write_block dev ?j 0 (sb_block (bsize dev) sb') c3 = (0, c4)" "inv c4"
      "data c4 = (data c3)(unat (jr_start_block j) := sb_block (bsize dev) sb')"
    using disk_write [OF c3(2) journal_addr_unat(2) [of ?j dev 0] sz] journal_addr_unat(1) [of ?j dev 0] rdy(2) assms(8)
    unfolding journal_write_block_def e' by auto
  have "\<exists>j3. journal_replay m dev j2 c1 = Some (0, j3, c4)"
    unfolding journal_replay_def Let_def using need auth assms(11-14) c3(1) tail c4(1)
    by (simp add: sb'_def [symmetric])
  moreover have "data c4 x = put_blocks (logged (bsize dev) txn buf) (data c) x" if "x \<notin> journal_area j" for x
  proof -
    have "x \<noteq> unat (jr_start_block j)" using that by (auto simp: journal_area_def)
    then have "data c4 x = put_blocks (logged (bsize dev) txn buf) (data c1) x" by (simp add: c4(3) c3(3))
    also have "\<dots> = put_blocks (logged (bsize dev) txn buf) (data c) x"
      by (rule put_cong) (use cs(2) [OF that] assms(7) in simp)
    finally show ?thesis .
  qed
  ultimately show "\<exists>j3 c2. journal_replay m dev j2 c1 = Some (0, j3, c2) \<and> inv c2 \<and>
    (\<forall>x. x \<notin> journal_area j \<longrightarrow> data c2 x = put_blocks (logged (bsize dev) txn buf) (data c) x)"
    using c4(2) by blast
qed

text \<open>Mounting after the crash.\<close>

lemma mount_after_crash:
  assumes "inv c" and "journal_ready dev (data c) j" and "txn_ok dev j txn buf"
    and "c' = journal_writes dev j (take k (commit_trace m0 (bsize dev) j txn buf)) c"
    and "dv \<noteq> None" and "CAPYFS_JOURNAL_BLOCKS + 2 \<le> data_start" and "jr_start_block j = ucast (data_start - CAPYFS_JOURNAL_BLOCKS)"
    and "derive_volume_hmac_key super JOURNAL_HMAC_KEY_MAX s = journal_key j" and "journal_slot_alloc dv s \<noteq> None"
    and "jm_buf m" and "jm_sb m" and "jm_staged m" and "jm_hmac m = jm_hmac m0"
  shows "\<exists>s' c2. capyfs_journal_mount_hook m dv dev data_start super s c' = Some (0, s', c2) \<and> inv c2 \<and>
    cj_recovery_cause s' = (if k \<le> length (tx_refs txn) + 2 then CAPYFS_JOURNAL_RECOVERY_NONE else CAPYFS_JOURNAL_RECOVERY_WAL_REPLAY) \<and>
    (\<forall>x. x \<notin> journal_area j \<longrightarrow>
       data c2 x = (if k \<le> length (tx_refs txn) + 2 then data c x else put_blocks (logged (bsize dev) txn buf) (data c) x))"
proof -
  let ?n = "length (tx_refs txn)" and ?b = "data c' (unat (jr_start_block j))"
  have rdy: "in_ring j (sb_head (jr_sb j))" "fits j dev" "288 \<le> bsize dev" "sb_head (jr_sb j) = sb_tail (jr_sb j)"
    "sb_of (data c (unat (jr_start_block j))) = jr_sb j" "sb_magic (jr_sb j) = JOURNAL_MAGIC" "sb_version (jr_sb j) = JOURNAL_VERSION_AUTH"
    using assms(2) by (auto simp: journal_ready_def journal_is_authenticated_def)
  note cs = crash_state [OF assms(1) rdy(2,1) assms(3,4)]
  note key = ready_key [OF assms(2)]
  let ?s0 = "s\<lparr>cj_recovery_cause := CAPYFS_JOURNAL_RECOVERY_NONE\<rparr>"
  obtain i s1 where sl: "journal_slot_alloc dv ?s0 = Some (i, s1)" "cj_recovery_cause s1 = CAPYFS_JOURNAL_RECOVERY_NONE"
      "derive_volume_hmac_key super JOURNAL_HMAC_KEY_MAX s1 = journal_key j"
    using assms(8,9) by (auto simp: journal_slot_alloc_def slot_put_def split: option.splits)
  have hd: "sb_of ?b = (if k \<le> ?n + 2 then jr_sb j else (jr_sb j)\<lparr>sb_head := (ring_next j ^^ (?n + 2)) (sb_head (jr_sb j))\<rparr>)"
    using cs(3,4) rdy(3,5) sb_of_reserved [of "data c (unat (jr_start_block j))"] by (simp add: sb_of_block del: funpow.simps)
  have mv: "sb_magic (sb_of ?b) = JOURNAL_MAGIC" "sb_version (sb_of ?b) = JOURNAL_VERSION_AUTH" using rdy(6,7) by (simp_all add: hd)
  have st: "unat (jr_start_block j) < unat (bd_block_count dev)" using rdy(2) by (simp add: fits_def)
  obtain j1 c1 where ji: "journal_init m dev (jr_start_block j) CAPYFS_JOURNAL_BLOCKS (js_jrnl (cj_slots s1 ! i)) c' = (0, j1, c1)"
      "jr_start_block j1 = jr_start_block j" "jr_sb j1 = sb_of ?b" "inv c1" "data c1 = data c'"
    using journal_init_ok [OF cs(1) st assms(11,10) mv] by blast
  have set_key: "snd (journal_set_hmac_key (journal_key j) j1) = store_key (journal_key j) j1"
    using key by (simp add: journal_set_hmac_key_def)
  have v2: "sb_version (jr_sb j1) \<ge> 2" using mv(2) ji(3) by (simp add: JOURNAL_VERSION_AUTH_def)
  have hook: "capyfs_journal_mount_hook m dv dev data_start super s c' = mount_replay m dev (journal_key j) i j1 s1 c1"
    using assms(5,6) sl(1,3) ji(1) assms(7) by (auto simp: capyfs_journal_mount_hook_def Let_def not_less [symmetric])
  show ?thesis
  proof (cases "k \<le> ?n + 2")
    case True
    then have "\<not> journal_needs_replay (store_key (journal_key j) j1)"
      using hd rdy(4) ji(3) by (simp add: journal_needs_replay_def)
    then have "mount_replay m dev (journal_key j) i j1 s1 c1 = Some (0, slot_journal i (store_key (journal_key j) j1) s1, c1)"
      using v2 key by (simp add: mount_replay_def Let_def set_key)
    then show ?thesis using hook True ji(4,5) cs(2) sl(2) by (simp add: slot_journal_def slot_put_def)
  next
    case False
    then have k: "?n + 2 < k" by simp
    have *: "jr_start_block (store_key (journal_key j) j1) = jr_start_block j" "jr_sb (store_key (journal_key j) j1) = sb_of ?b"
      "journal_key (store_key (journal_key j) j1) = journal_key j" "jr_hmac_key_len (store_key (journal_key j) j1) > 0"
      using ji(2,3) key by simp_all
    note ra = replay_after_crash [OF assms(1-4) k ji(4,5) * assms(10-13)]
    obtain j3 c2 where rp: "journal_replay m dev (store_key (journal_key j) j1) c1 = Some (0, j3, c2)" "inv c2"
        "\<forall>x. x \<notin> journal_area j \<longrightarrow> data c2 x = put_blocks (logged (bsize dev) txn buf) (data c) x"
      using ra(1) by blast
    have "mount_replay m dev (journal_key j) i j1 s1 c1 =
        Some (0, (slot_journal i j3 s1)\<lparr>cj_recovery_cause := CAPYFS_JOURNAL_RECOVERY_WAL_REPLAY\<rparr>, c2)"
      using v2 key rp(1) ra(2) by (simp add: mount_replay_def Let_def set_key)
    then show ?thesis using hook False rp(2,3) by simp
  qed
qed

end


text \<open>A volume with a fresh journal, for the examples.\<close>

definition vol_state :: capyfs_journal where
  "vol_state = \<lparr>cj_recovery_cause = CAPYFS_JOURNAL_RECOVERY_NONE, cj_root_secret = [9, 8, 7, 6] @ replicate 60 0, cj_root_secret_len = 4,
     cj_slots = replicate 4 \<lparr>js_dev = None, js_jrnl = demo_journal, js_active = False\<rparr>\<rparr>"

definition vol_sb :: journal_superblock where
  "vol_sb = demo_sb\<lparr>sb_block_count := 31, sb_head := 30, sb_tail := 30\<rparr>"

definition vol_journal :: journal where
  "vol_journal = demo_journal\<lparr>jr_start_block := 2, jr_block_count := 32, jr_sb := vol_sb,
     jr_hmac_key := derive_volume_hmac_key [1, 2, 3] JOURNAL_HMAC_KEY_MAX vol_state, jr_hmac_key_len := 32\<rparr>"

definition vol_blocks :: "u8 list list" where
  "vol_blocks = (replicate 40 (replicate RAMDISK_BLOCK_SIZE 0))[2 := sb_block RAMDISK_BLOCK_SIZE vol_sb]"

definition vol_txn :: journal_transaction where
  "vol_txn = \<lparr>tx_sequence = 9, tx_refs = [\<lparr>br_target_block = 35, br_offset = 0, br_length = 4096\<rparr>],
     tx_data_buffer = Some (replicate (16 * RAMDISK_BLOCK_SIZE) 5), tx_data_used = 4096, tx_committed = False\<rparr>"

lemma vol_key: "length (derive_volume_hmac_key [1, 2, 3] JOURNAL_HMAC_KEY_MAX vol_state) = 32"
proof -
  have "crypt_hmac_sha256 (replicate SHA256_BLOCK_SIZE 0) k x = hmac_ref k x" for k x
    by (rule hmac_public_ref) (simp add: SHA256_BLOCK_SIZE_def)
  then have "length (crypt_hmac_sha256 (replicate SHA256_BLOCK_SIZE 0) k x) = SHA256_DIGEST_SIZE" for k x
    by (simp add: hmac_ref_def Let_def sha256_ref_length)
  then show ?thesis
    by (simp add: derive_volume_hmac_key_def JOURNAL_HMAC_KEY_MAX_def SHA256_DIGEST_SIZE_def vol_state_def)
qed

lemma vol_journal_key: "journal_key vol_journal = derive_volume_hmac_key [1, 2, 3] JOURNAL_HMAC_KEY_MAX vol_state"
  using vol_key by (simp add: journal_key_def vol_journal_def)

lemma vol_disk:
  "disk (ramdisk_dev 40) (ramdisk_ok 40) ramdisk_data" "ramdisk_ok 40 (disk_of vol_blocks)"
  "i < 40 \<Longrightarrow> ramdisk_data (disk_of vol_blocks) i = (if i = 2 then sb_block RAMDISK_BLOCK_SIZE vol_sb else replicate RAMDISK_BLOCK_SIZE 0)"
proof -
  show "disk (ramdisk_dev 40) (ramdisk_ok 40) ramdisk_data" by (rule ramdisk_disk) (simp_all add: RAMDISK_MAX_BLOCKS_def)
  have l: "\<forall>b\<in>set vol_blocks. length b = RAMDISK_BLOCK_SIZE" "length vol_blocks = 40"
    using set_update_subset_insert [of "replicate 40 (replicate RAMDISK_BLOCK_SIZE 0)" 2 "sb_block RAMDISK_BLOCK_SIZE vol_sb"]
    by (auto simp: vol_blocks_def sb_block_def)
  show "ramdisk_ok 40 (disk_of vol_blocks)" using disk_of_ok [OF l(1)] l(2) by (force simp: RAMDISK_MAX_BLOCKS_def)
  show "i < 40 \<Longrightarrow> ramdisk_data (disk_of vol_blocks) i = (if i = 2 then sb_block RAMDISK_BLOCK_SIZE vol_sb else replicate RAMDISK_BLOCK_SIZE 0)"
    using disk_of_data [OF l(1), of i] l(2) by (simp add: vol_blocks_def)
qed

lemma vol_bsize: "bsize (ramdisk_dev 40) = RAMDISK_BLOCK_SIZE"
  by (simp add: ramdisk_dev_def RAMDISK_BLOCK_SIZE_def)

lemma vol_ready: "journal_ready (ramdisk_dev 40) (ramdisk_data (disk_of vol_blocks)) vol_journal"
proof -
  have "sb_of (sb_block RAMDISK_BLOCK_SIZE vol_sb) = vol_sb"
    by (rule sb_of_block) (simp_all add: vol_sb_def demo_sb_def RAMDISK_BLOCK_SIZE_def)
  then show ?thesis
    using vol_key vol_disk(3) [of 2]
    by (simp add: journal_ready_def vol_journal_def vol_sb_def demo_sb_def demo_journal_def in_ring_def fits_def ramdisk_dev_def
        journal_is_authenticated_def RAMDISK_BLOCK_SIZE_def JOURNAL_HMAC_KEY_MAX_def)
qed

lemma vol_area: "journal_area vol_journal = {2..33}" "ring_size vol_journal = 31" "jr_start_block vol_journal = 2"
  by (simp_all add: journal_area_def vol_journal_def vol_sb_def)


subsection \<open>Metadata writes\<close>

definition padded :: "nat \<Rightarrow> u8 list \<Rightarrow> nat \<Rightarrow> u8 list" where
  "padded bs d len = map (\<lambda>i. if i < len then d ! i else 0) [0..<bs]"

lemma target_back [simp]: "(ucast (ucast (t :: u32) :: u64) :: u32) = t"
  by (rule bit_word_eqI) (auto simp: bit_simps)

text \<open>The transaction of a metadata write.\<close>

lemma metadata_txn:
  fixes t :: u32
  assumes "(txn, j1) = journal_begin j" and "(r, txn1) = journal_log_block True bs (ucast t) d 0 len txn"
  obtains buf where "r = 0" "tx_refs txn1 = [\<lparr>br_target_block = ucast t, br_offset = 0, br_length = len\<rparr>]"
    "tx_data_buffer txn1 = Some buf" "\<not> tx_committed txn1" "length buf = JOURNAL_ENTRY_MAX_BLOCKS * bs"
    "logged bs txn1 buf = [(unat t, padded bs d (unat len))]"
proof -
  have t: "tx_refs txn = []" "tx_data_buffer txn = None" "\<not> tx_committed txn" using assms(1) by (simp_all add: journal_begin_def)
  define buf where "buf = padded bs d (unat len) @ drop bs (replicate (JOURNAL_ENTRY_MAX_BLOCKS * bs) (0 :: u8))"
  have u: "r = 0" "txn1 = txn\<lparr>tx_refs := [\<lparr>br_target_block = ucast t, br_offset = 0, br_length = len\<rparr>], tx_data_buffer := Some buf,
      tx_data_used := tx_data_used txn + of_nat bs\<rparr>"
    using assms(2) t by (simp_all add: journal_log_block_def Let_def buf_def padded_def JOURNAL_ENTRY_MAX_BLOCKS_def)
  have l: "length (padded bs d (unat len)) = bs" by (simp add: padded_def)
  have b: "length buf = JOURNAL_ENTRY_MAX_BLOCKS * bs" using l by (simp add: buf_def JOURNAL_ENTRY_MAX_BLOCKS_def)
  have "data_block bs buf 0 = padded bs d (unat len)" using l by (simp add: data_block_def buf_def)
  then have "logged bs txn1 buf = [(unat t, padded bs d (unat len))]" by (simp add: logged_def targets_def u(2))
  then show ?thesis using that u t(3) b by simp
qed

lemma begin_ready: "(txn, j1) = journal_begin j \<Longrightarrow> same_ring j j1 \<and> journal_key j1 = journal_key j \<and>
  journal_ready dev d j1 = journal_ready dev d j \<and> journal_writes dev j1 = journal_writes dev j"
  by (auto simp: journal_begin_def same_ring_def journal_key_def journal_ready_def in_ring_def fits_def journal_is_authenticated_def
      fun_eq_iff journal_writes_def journal_write_block_def journal_addr_def)



end
