(* ===== verification/GptIdentity.thy ===== *)
theory GptIdentity
  imports Bytes
begin

text \<open>
  The partition table: \<^verbatim>\<open>boot/gpt_identity.c\<close>, whole. A disk is accepted only with a primary and a backup GUID
  partition table that agree, and exactly one partition of each of the three types, inside the usable range and without overlap.

  The reader is an argument over a device state of type \<open>'c\<close>; pointers are not null. A result of \<open>None\<close> is
  \<^verbatim>\<open>CAPYOS_GPT_IDENTITY_ERR\<close>. Reads at an offset of a buffer are reads of the dropped list.
\<close>

subsection \<open>Data\<close>

definition GPT_IDENTITY_SIGNATURE :: u64 where "GPT_IDENTITY_SIGNATURE = 0x5452415020494645"
definition GPT_IDENTITY_REVISION :: u32 where "GPT_IDENTITY_REVISION = 0x00010000"
definition GPT_IDENTITY_HEADER_SIZE :: u32 where "GPT_IDENTITY_HEADER_SIZE = 92"
definition GPT_IDENTITY_ENTRY_SIZE :: u32 where "GPT_IDENTITY_ENTRY_SIZE = 128"
definition GPT_IDENTITY_ENTRY_COUNT :: u32 where "GPT_IDENTITY_ENTRY_COUNT = 128"

definition CAPYOS_GPT_TYPE_ESP_BYTES :: "u8 list" where
  "CAPYOS_GPT_TYPE_ESP_BYTES = [0x28, 0x73, 0x2A, 0xC1, 0x1F, 0xF8, 0xD2, 0x11, 0xBA, 0x4B, 0x00, 0xA0, 0xC9, 0x3E, 0xC9, 0x3B]"

definition CAPYOS_GPT_TYPE_BOOT_BYTES :: "u8 list" where
  "CAPYOS_GPT_TYPE_BOOT_BYTES = [0x76, 0x0b, 0x98, 0x04, 0x42, 0x10, 0x4c, 0x9b, 0x86, 0x1f, 0x11, 0xe0, 0x29, 0xea, 0xc1, 0x01]"

definition CAPYOS_GPT_TYPE_DATA_BYTES :: "u8 list" where
  "CAPYOS_GPT_TYPE_DATA_BYTES = [0xAF, 0x3D, 0xC6, 0x0F, 0x83, 0x84, 0x72, 0x47, 0x8E, 0x79, 0x3D, 0x69, 0xD8, 0x47, 0x7D, 0xE4]"

record capyos_gpt_partition_identity =
  pi_lba :: u32
  pi_sectors :: u32
  pi_guid :: "u8 list"

record identity_partition_state =
  ps_value :: capyos_gpt_partition_identity
  ps_found :: bool

record capyos_gpt_identity =
  gi_disk_sectors :: u32
  gi_disk_guid :: "u8 list"
  gi_esp :: capyos_gpt_partition_identity
  gi_boot :: capyos_gpt_partition_identity
  gi_data :: capyos_gpt_partition_identity

type_synonym 'c gpt_reader = "u32 \<Rightarrow> 'c \<Rightarrow> int \<times> u8 list \<times> 'c"

definition partition_zero :: identity_partition_state where
  "partition_zero = \<lparr>ps_value = \<lparr>pi_lba = 0, pi_sectors = 0, pi_guid = replicate 16 0\<rparr>, ps_found = False\<rparr>"

subsection \<open>Helpers\<close>

definition identity_crc_update :: "u32 \<Rightarrow> u8 list \<Rightarrow> u32" where
  "identity_crc_update crc data = fold (\<lambda>x crc. (crc_bit ^^ 8) (crc XOR ucast x)) data crc"

definition identity_crc :: "u8 list \<Rightarrow> u32" where
  "identity_crc data = NOT (identity_crc_update 0xFFFFFFFF data)"

definition identity_equal :: "u8 list \<Rightarrow> u8 list \<Rightarrow> nat \<Rightarrow> bool" where
  "identity_equal a b len = (fold (\<lambda>i diff. diff OR (a ! i XOR b ! i)) [0..<len] (0::u8) = 0)"

definition identity_present :: "u8 list \<Rightarrow> nat \<Rightarrow> bool" where
  "identity_present bytes len = (fold (OR) (take len bytes) 0 \<noteq> 0)"

text \<open>The name field holds 36 UTF-16 characters; \<open>ascii\<close> has fewer and no zero.\<close>

definition identity_name :: "u8 list \<Rightarrow> u8 list \<Rightarrow> bool" where
  "identity_name name ascii \<longleftrightarrow>
     length ascii < 36 \<and> list_all (\<lambda>i. name ! (i * 2) = ascii ! i \<and> name ! (i * 2 + 1) = 0) [0..<length ascii] \<and>
     list_all (\<lambda>i. name ! (i * 2) = 0 \<and> name ! (i * 2 + 1) = 0) [length ascii..<36]"

definition identity_set ::
  "identity_partition_state \<Rightarrow> u8 list \<Rightarrow> u64 \<Rightarrow> u64 \<Rightarrow> u64 \<Rightarrow> u64 \<Rightarrow> identity_partition_state option" where
  "identity_set state entry first last' first_usable last_usable =
     (if ps_found state \<or> first < first_usable \<or> last' > last_usable \<or> last' < first \<or> first > 0xFFFFFFFF \<or>
         le64_at entry 48 \<noteq> 0 \<or> \<not> identity_present (drop 16 entry) 16
      then None
      else
        (let count = last' - first + 1
         in if count = 0 \<or> count > 0xFFFFFFFF then None
            else Some \<lparr>ps_value = \<lparr>pi_lba = ucast first, pi_sectors = ucast count, pi_guid = take 16 (drop 16 entry)\<rparr>, ps_found = True\<rparr>))"

type_synonym partitions = "identity_partition_state \<times> identity_partition_state \<times> identity_partition_state"

definition identity_entry :: "u8 list \<Rightarrow> u64 \<Rightarrow> u64 \<Rightarrow> partitions \<Rightarrow> partitions option" where
  "identity_entry entry first_usable last_usable ps =
     (let (esp, boot, data) = ps;
          put = \<lambda>target name. if identity_name (drop 56 entry) name
            then identity_set target entry (le64_at entry 32) (le64_at entry 40) first_usable last_usable else None
      in if \<not> identity_present entry 16 then Some ps
         else if identity_equal entry CAPYOS_GPT_TYPE_ESP_BYTES 16 then map_option (\<lambda>e. (e, boot, data)) (put esp [0x45, 0x53, 0x50])
         else if identity_equal entry CAPYOS_GPT_TYPE_BOOT_BYTES 16 then map_option (\<lambda>b. (esp, b, data)) (put boot [0x42, 0x4F, 0x4F, 0x54])
         else if identity_equal entry CAPYOS_GPT_TYPE_DATA_BYTES 16 then map_option (\<lambda>d. (esp, boot, d)) (put data [0x44, 0x41, 0x54, 0x41])
         else None)"

definition identity_overlap :: "capyos_gpt_partition_identity \<Rightarrow> capyos_gpt_partition_identity \<Rightarrow> bool" where
  "identity_overlap a b \<longleftrightarrow>
     (if pi_sectors a = 0 \<or> pi_sectors b = 0 then True
      else
        (let a_end = (ucast (pi_lba a) :: u64) + ucast (pi_sectors a) - 1; b_end = (ucast (pi_lba b) :: u64) + ucast (pi_sectors b) - 1
         in \<not> (a_end < ucast (pi_lba b) \<or> b_end < ucast (pi_lba a))))"

subsection \<open>Reading the table\<close>

text \<open>The checksum field of a header, zeroed.\<close>

definition without_crc :: "u8 list \<Rightarrow> u8 list" where
  "without_crc header = header[16 := 0, 17 := 0, 18 := 0, 19 := 0]"

text \<open>The loop of \<^verbatim>\<open>identity_backup\<close> over the 32 sectors of entries; \<open>None\<close> if a read fails or the copies differ.\<close>

fun backup_entries :: "'c gpt_reader \<Rightarrow> u32 \<Rightarrow> u32 list \<Rightarrow> u32 \<Rightarrow> 'c \<Rightarrow> u32 option \<times> 'c" where
  "backup_entries reader backup_entries_lba [] crc c = (Some crc, c)"
| "backup_entries reader backup_entries_lba (i # is) crc c =
     (let (rc1, sector, c1) = reader (backup_entries_lba + i) c
      in if rc1 \<noteq> 0 then (None, c1)
         else
           (let (rc2, primary_sector, c2) = reader (2 + i) c1
            in if rc2 \<noteq> 0 \<or> \<not> identity_equal sector primary_sector 512 then (None, c2)
               else backup_entries reader backup_entries_lba is (identity_crc_update crc (take 512 sector)) c2))"

definition identity_backup ::
  "'c gpt_reader \<Rightarrow> u32 \<Rightarrow> u64 \<Rightarrow> u64 \<Rightarrow> u64 \<Rightarrow> u32 \<Rightarrow> u8 list \<Rightarrow> 'c \<Rightarrow> bool \<times> 'c" where
  "identity_backup reader block_count backup_lba first_usable last_usable entries_crc disk_guid c =
     (let backup_entries_lba = (ucast backup_lba :: u32) - 32
      in if backup_lba \<noteq> ucast block_count - 1 \<or> backup_lba > 0xFFFFFFFF then (False, c)
         else
           (let (rc, header, c1) = reader (ucast backup_lba) c
            in if rc \<noteq> 0 \<or> le64_at header 0 \<noteq> GPT_IDENTITY_SIGNATURE \<or> le32_at header 8 \<noteq> GPT_IDENTITY_REVISION \<or>
                  le32_at header 12 \<noteq> GPT_IDENTITY_HEADER_SIZE \<or> le32_at header 20 \<noteq> 0 \<or> le64_at header 24 \<noteq> backup_lba \<or>
                  le64_at header 32 \<noteq> 1 \<or> le64_at header 40 \<noteq> first_usable \<or> le64_at header 48 \<noteq> last_usable \<or>
                  \<not> identity_equal (drop 56 header) disk_guid 16 \<or> le64_at header 72 \<noteq> ucast backup_entries_lba \<or>
                  le32_at header 80 \<noteq> GPT_IDENTITY_ENTRY_COUNT \<or> le32_at header 84 \<noteq> GPT_IDENTITY_ENTRY_SIZE \<or>
                  le32_at header 88 \<noteq> entries_crc
               then (False, c1)
               else if identity_crc (take (unat GPT_IDENTITY_HEADER_SIZE) (without_crc header)) \<noteq> le32_at header 16 then (False, c1)
               else
                 case backup_entries reader backup_entries_lba (map of_nat [0..<32]) 0xFFFFFFFF c1 of
                   (None, c2) \<Rightarrow> (False, c2)
                 | (Some crc, c2) \<Rightarrow> (NOT crc = entries_crc, c2)))"

text \<open>The four entries of a sector.\<close>

definition sector_entries :: "u8 list \<Rightarrow> u64 \<Rightarrow> u64 \<Rightarrow> partitions \<Rightarrow> partitions option" where
  "sector_entries sector first_usable last_usable ps =
     fold (\<lambda>i st. case st of None \<Rightarrow> None | Some p \<Rightarrow> identity_entry (drop (i * unat GPT_IDENTITY_ENTRY_SIZE) sector) first_usable last_usable p) [0..<4] (Some ps)"

fun read_entries :: "'c gpt_reader \<Rightarrow> u64 \<Rightarrow> u64 \<Rightarrow> u32 list \<Rightarrow> u32 \<Rightarrow> partitions \<Rightarrow> 'c \<Rightarrow> (u32 \<times> partitions) option \<times> 'c" where
  "read_entries reader first_usable last_usable [] crc ps c = (Some (crc, ps), c)"
| "read_entries reader first_usable last_usable (i # is) crc ps c =
     (let (rc, sector, c1) = reader (2 + i) c
      in if rc \<noteq> 0 then (None, c1)
         else
           case sector_entries sector first_usable last_usable ps of
             None \<Rightarrow> (None, c1)
           | Some ps1 \<Rightarrow> read_entries reader first_usable last_usable is (identity_crc_update crc (take 512 sector)) ps1 c1)"

text \<open>Two of the five identifiers are the same.\<close>

definition guid_collision :: "u8 list \<Rightarrow> capyos_gpt_partition_identity \<Rightarrow> capyos_gpt_partition_identity \<Rightarrow> capyos_gpt_partition_identity \<Rightarrow> bool" where
  "guid_collision disk esp boot data \<longleftrightarrow>
     identity_equal (pi_guid esp) (pi_guid boot) 16 \<or> identity_equal (pi_guid esp) (pi_guid data) 16 \<or>
     identity_equal (pi_guid boot) (pi_guid data) 16 \<or> identity_equal disk (pi_guid esp) 16 \<or> identity_equal disk (pi_guid boot) 16 \<or>
     identity_equal disk (pi_guid data) 16"

definition identity_read_mode ::
  "'c gpt_reader \<Rightarrow> u32 \<Rightarrow> u32 \<Rightarrow> bool \<Rightarrow> 'c \<Rightarrow> capyos_gpt_identity option \<times> 'c" where
  "identity_read_mode reader block_size block_count allow_duplicate_guids c =
     (if block_size \<noteq> 512 \<or> block_count < 68 then (None, c)
      else
        (let (rc, header, c1) = reader 1 c
         in if rc \<noteq> 0 \<or> le64_at header 0 \<noteq> GPT_IDENTITY_SIGNATURE \<or> le32_at header 8 \<noteq> GPT_IDENTITY_REVISION \<or>
               le32_at header 12 \<noteq> GPT_IDENTITY_HEADER_SIZE \<or> le32_at header 20 \<noteq> 0 \<or> le64_at header 24 \<noteq> 1 \<or>
               le64_at header 72 \<noteq> 2 \<or> le32_at header 80 \<noteq> GPT_IDENTITY_ENTRY_COUNT \<or>
               le32_at header 84 \<noteq> GPT_IDENTITY_ENTRY_SIZE \<or> \<not> identity_present (drop 56 header) 16
            then (None, c1)
            else
              (let backup_lba = le64_at header 32; first_usable = le64_at header 40; last_usable = le64_at header 48;
                   stored_header_crc = le32_at header 16; stored_entries_crc = le32_at header 88
               in if backup_lba \<noteq> ucast block_count - 1 \<or> first_usable \<noteq> 34 \<or> last_usable \<noteq> backup_lba - 33 \<or>
                     identity_crc (take (unat GPT_IDENTITY_HEADER_SIZE) (without_crc header)) \<noteq> stored_header_crc
                  then (None, c1)
                  else
                    case read_entries reader first_usable last_usable (map of_nat [0..<32]) 0xFFFFFFFF
                           (partition_zero, partition_zero, partition_zero) c1 of
                      (None, c2) \<Rightarrow> (None, c2)
                    | (Some (crc, esp, boot, data), c2) \<Rightarrow>
                        (let disk = take 16 (drop 56 header); collision = guid_collision disk (ps_value esp) (ps_value boot) (ps_value data)
                         in if NOT crc \<noteq> stored_entries_crc \<or> \<not> ps_found esp \<or> \<not> ps_found boot \<or> \<not> ps_found data \<or>
                               allow_duplicate_guids \<and> \<not> collision \<or> \<not> allow_duplicate_guids \<and> collision \<or>
                               identity_overlap (ps_value esp) (ps_value boot) \<or> identity_overlap (ps_value esp) (ps_value data) \<or>
                               identity_overlap (ps_value boot) (ps_value data)
                            then (None, c2)
                            else
                              (let (ok, c3) = identity_backup reader block_count backup_lba first_usable last_usable stored_entries_crc disk c2
                               in if \<not> ok then (None, c3)
                                  else (Some \<lparr>gi_disk_sectors = block_count, gi_disk_guid = disk, gi_esp = ps_value esp, gi_boot = ps_value boot,
                                          gi_data = ps_value data\<rparr>, c3))))))"

definition capyos_gpt_identity_read :: "'c gpt_reader \<Rightarrow> u32 \<Rightarrow> u32 \<Rightarrow> 'c \<Rightarrow> capyos_gpt_identity option \<times> 'c" where
  "capyos_gpt_identity_read reader block_size block_count c = identity_read_mode reader block_size block_count False c"

definition capyos_gpt_identity_read_legacy :: "'c gpt_reader \<Rightarrow> u32 \<Rightarrow> u32 \<Rightarrow> 'c \<Rightarrow> capyos_gpt_identity option \<times> 'c" where
  "capyos_gpt_identity_read_legacy reader block_size block_count c = identity_read_mode reader block_size block_count True c"

subsection \<open>What an accepted table says\<close>

text \<open>A partition that has been found lies in the usable range.\<close>

definition placed :: "u64 \<Rightarrow> u64 \<Rightarrow> capyos_gpt_partition_identity \<Rightarrow> bool" where
  "placed first_usable last_usable p \<longleftrightarrow>
     unat first_usable \<le> unat (pi_lba p) \<and> 0 < unat (pi_sectors p) \<and> unat (pi_lba p) + unat (pi_sectors p) \<le> unat last_usable + 1"

definition all_placed :: "u64 \<Rightarrow> u64 \<Rightarrow> partitions \<Rightarrow> bool" where
  "all_placed first_usable last_usable ps \<longleftrightarrow>
     (\<forall>p\<in>{fst ps, fst (snd ps), snd (snd ps)}. ps_found p \<longrightarrow> placed first_usable last_usable (ps_value p))"

lemma unat_down: "(w :: u64) \<le> 0xFFFFFFFF \<Longrightarrow> unat (ucast w :: u32) = unat w"
proof -
  assume "w \<le> 0xFFFFFFFF"
  then have "unat w < 2 ^ 32" by (simp add: word_le_nat_alt)
  then show ?thesis by (simp add: unsigned_ucast_eq take_bit_nat_eq_self)
qed

lemma unat_plus_nonzero:
  fixes w :: u64
  assumes "w + 1 \<noteq> 0"
  shows "unat (w + 1) = unat w + 1"
proof (cases "unat w + 1 < 2 ^ LENGTH(64)")
  case True
  then show ?thesis by (simp add: unat_word_ariths)
next
  case False
  moreover have "unat w < 2 ^ LENGTH(64)" by (rule unsigned_less)
  ultimately have "unat w + 1 = 2 ^ LENGTH(64)" by simp
  then have "unat (w + 1) = 0" by (simp add: unat_word_ariths)
  then show ?thesis using assms by (simp add: unat_eq_zero)
qed

lemma set_placed:
  assumes "identity_set st entry f l fu lu = Some p"
  shows "placed fu lu (ps_value p)"
proof -
  have c: "fu \<le> f" "l \<le> lu" "f \<le> l" "f \<le> 0xFFFFFFFF" "l - f + 1 \<noteq> 0" "l - f + 1 \<le> 0xFFFFFFFF"
    and p: "ps_value p = \<lparr>pi_lba = ucast f, pi_sectors = ucast (l - f + 1), pi_guid = take 16 (drop 16 entry)\<rparr>"
    using assms by (auto simp: identity_set_def Let_def not_less split: if_splits)
  have d: "unat (l - f) = unat l - unat f" using c(3) by (simp add: unat_sub word_le_nat_alt)
  have "unat (l - f + 1) = unat (l - f) + 1" using c(5) by (rule unat_plus_nonzero)
  moreover have "unat fu \<le> unat f" "unat f \<le> unat l" "unat l \<le> unat lu" using c by (simp_all add: word_le_nat_alt)
  ultimately show ?thesis using p unat_down [OF c(4)] unat_down [OF c(6)] d by (simp add: placed_def)
qed

lemma entry_placed:
  assumes "identity_entry entry fu lu ps = Some ps'" and "all_placed fu lu ps"
  shows "all_placed fu lu ps'"
proof -
  obtain e b d where ps: "ps = (e, b, d)" by (metis prod_cases3)
  show ?thesis using assms unfolding ps identity_entry_def Let_def prod.case
    by (auto simp: all_placed_def split: if_splits dest: set_placed)
qed

lemma sector_placed:
  assumes "sector_entries sector fu lu ps = Some ps'" and "all_placed fu lu ps"
  shows "all_placed fu lu ps'"
proof -
  let ?f = "\<lambda>i st. case st of None \<Rightarrow> None | Some p \<Rightarrow> identity_entry (drop (i * unat GPT_IDENTITY_ENTRY_SIZE) sector) fu lu p"
  have "\<forall>p. fold ?f is st = Some p \<longrightarrow> all_placed fu lu p" if "\<forall>p. st = Some p \<longrightarrow> all_placed fu lu p" for "is" st
    using that
  proof (induction "is" arbitrary: st)
    case (Cons i "is")
    have "\<forall>p. ?f i st = Some p \<longrightarrow> all_placed fu lu p"
    proof (cases st)
      case (Some p)
      then show ?thesis using Cons.prems entry_placed [of _ fu lu p] by simp
    qed simp
    from Cons.IH [OF this] show ?case by simp
  qed simp
  from this [of "Some ps" "[0..<4]"] show ?thesis using assms unfolding sector_entries_def by blast
qed

lemma entries_placed:
  assumes "read_entries reader fu lu is crc ps c = (Some (crc', ps'), c')" and "all_placed fu lu ps"
  shows "all_placed fu lu ps'"
  using assms
proof (induction "is" arbitrary: crc ps c)
  case (Cons i "is")
  then show ?case by (auto simp: Let_def split: prod.splits if_splits option.splits dest: sector_placed)
qed simp

text \<open>The sectors of a partition.\<close>

definition part_sectors :: "capyos_gpt_partition_identity \<Rightarrow> nat set" where
  "part_sectors p = {unat (pi_lba p) ..< unat (pi_lba p) + unat (pi_sectors p)}"

lemma overlap_disjoint:
  assumes "\<not> identity_overlap a b"
  shows "part_sectors a \<inter> part_sectors b = {}"
proof -
  have nz: "unat (pi_sectors a) \<noteq> 0" "unat (pi_sectors b) \<noteq> 0" using assms by (auto simp: identity_overlap_def unat_eq_zero)
  have up: "unat (ucast (w :: u32) :: u64) = unat w" for w
  proof -
    have "unat w < 2 ^ LENGTH(32)" by (rule unsigned_less)
    then show ?thesis by (simp add: unsigned_ucast_eq take_bit_nat_eq_self)
  qed
  have e: "unat ((ucast l :: u64) + ucast s - 1) = unat l + unat s - 1" if "unat s \<noteq> 0" for l s :: u32
  proof -
    have "unat l < 2 ^ LENGTH(32)" "unat s < 2 ^ LENGTH(32)" by (rule unsigned_less)+
    then have p: "unat ((ucast l :: u64) + ucast s) = unat l + unat s" by (simp add: unat_word_ariths up)
    then have "(1 :: u64) \<le> ucast l + ucast s" using that by (simp add: word_le_nat_alt)
    then show ?thesis using p by (simp add: unat_sub word_le_nat_alt)
  qed
  have "unat (pi_lba a) + unat (pi_sectors a) - 1 < unat (pi_lba b) \<or> unat (pi_lba b) + unat (pi_sectors b) - 1 < unat (pi_lba a)"
    using assms nz by (auto simp: identity_overlap_def Let_def word_less_nat_alt e up split: if_splits)
  then show ?thesis by (auto simp: part_sectors_def)
qed

lemma identity_accepted:
  assumes "identity_read_mode reader bs bc dup c = (Some gi, c')"
  shows "bs = 512" and "68 \<le> unat bc"
    and "\<forall>p\<in>{gi_esp gi, gi_boot gi, gi_data gi}. 34 \<le> unat (pi_lba p) \<and> 0 < unat (pi_sectors p) \<and> unat (pi_lba p) + unat (pi_sectors p) + 33 \<le> unat bc"
    and "part_sectors (gi_esp gi) \<inter> part_sectors (gi_boot gi) = {}" and "part_sectors (gi_esp gi) \<inter> part_sectors (gi_data gi) = {}"
    and "part_sectors (gi_boot gi) \<inter> part_sectors (gi_data gi) = {}"
    and "dup \<longleftrightarrow> guid_collision (gi_disk_guid gi) (gi_esp gi) (gi_boot gi) (gi_data gi)" and "gi_disk_sectors gi = bc"
proof -
  obtain rc header c1 where rd: "reader 1 c = (rc, header, c1)" by (metis prod_cases3)
  let ?lu = "ucast bc - 1 - 33 :: u64"
  obtain r c2 where re: "read_entries reader 34 ?lu (map of_nat [0..<32]) 0xFFFFFFFF (partition_zero, partition_zero, partition_zero) c1 = (r, c2)" by fastforce
  have size: "bs = 512" "\<not> bc < 68" using assms by (auto simp: identity_read_mode_def split: if_splits)
  then show "bs = 512" by simp
  show bc: "68 \<le> unat bc" using size(2) by (simp add: word_less_nat_alt)
  have hd: "le64_at header 40 = 34" "le64_at header 48 = ?lu"
    using assms size unfolding identity_read_mode_def rd by (auto simp: Let_def split: if_splits)
  obtain crc esp boot data where r: "r = Some (crc, esp, boot, data)"
    using assms size unfolding identity_read_mode_def rd Let_def prod.case hd re by (cases r) (auto split: if_splits)
  have fin: "ps_found esp" "ps_found boot" "ps_found data" "\<not> identity_overlap (ps_value esp) (ps_value boot)"
    "\<not> identity_overlap (ps_value esp) (ps_value data)" "\<not> identity_overlap (ps_value boot) (ps_value data)"
    "dup \<longleftrightarrow> guid_collision (gi_disk_guid gi) (ps_value esp) (ps_value boot) (ps_value data)"
    "gi_esp gi = ps_value esp" "gi_boot gi = ps_value boot" "gi_data gi = ps_value data" "gi_disk_sectors gi = bc"
    using assms size unfolding identity_read_mode_def rd Let_def prod.case hd re r by (auto split: if_splits prod.splits)
  have "all_placed 34 ?lu (esp, boot, data)"
    by (rule entries_placed [OF re [unfolded r]]) (simp add: all_placed_def partition_zero_def)
  then have pl: "placed 34 ?lu (ps_value esp)" "placed 34 ?lu (ps_value boot)" "placed 34 ?lu (ps_value data)" using fin by (simp_all add: all_placed_def)
  have lu: "unat ?lu = unat bc - 34"
  proof -
    have "unat bc < 2 ^ LENGTH(32)" by (rule unsigned_less)
    then have u: "unat (ucast bc :: u64) = unat bc" by (simp add: unsigned_ucast_eq take_bit_nat_eq_self)
    have "(34 :: u64) \<le> ucast bc" using bc u by (simp add: word_le_nat_alt)
    moreover have "?lu = ucast bc - 34" by simp
    ultimately show ?thesis using u by (simp add: unat_sub)
  qed
  show "\<forall>p\<in>{gi_esp gi, gi_boot gi, gi_data gi}. 34 \<le> unat (pi_lba p) \<and> 0 < unat (pi_sectors p) \<and> unat (pi_lba p) + unat (pi_sectors p) + 33 \<le> unat bc"
    using pl lu bc fin(8-10) by (auto simp: placed_def)
  show "part_sectors (gi_esp gi) \<inter> part_sectors (gi_boot gi) = {}" "part_sectors (gi_esp gi) \<inter> part_sectors (gi_data gi) = {}"
    "part_sectors (gi_boot gi) \<inter> part_sectors (gi_data gi) = {}" "gi_disk_sectors gi = bc"
    "dup \<longleftrightarrow> guid_collision (gi_disk_guid gi) (gi_esp gi) (gi_boot gi) (gi_data gi)"
    using fin overlap_disjoint by simp_all
qed

text \<open>Reading the table does nothing but read.\<close>

lemma identity_read_keeps:
  assumes "\<And>lba c rc r c'. P c \<Longrightarrow> reader lba c = (rc, r, c') \<Longrightarrow> P c'" and "P c" and "identity_read_mode reader bs bc dup c = (r, c')"
  shows "P c'"
proof -
  note step = assms(1)
  have be: "P c'" if "backup_entries reader base is crc c = (x, c')" "P c" for base "is" crc c x c'
    using that
  proof (induction "is" arbitrary: crc c)
    case (Cons i "is")
    then show ?case by (auto simp: Let_def split: prod.splits if_splits) (meson step)+
  qed simp
  have re: "P c'" if "read_entries reader fu lu is crc ps c = (x, c')" "P c" for fu lu "is" crc ps c x c'
    using that
  proof (induction "is" arbitrary: crc ps c)
    case (Cons i "is")
    then show ?case by (auto simp: Let_def split: prod.splits if_splits option.splits) (meson step)+
  qed simp
  have bk: "P c'" if "identity_backup reader bc bl fu lu ec g c = (x, c')" "P c" for bl fu lu ec g c x c'
    using that by (auto simp: identity_backup_def Let_def split: prod.splits if_splits option.splits dest!: be) (meson step)+
  obtain rc header c1 where rd: "reader 1 c = (rc, header, c1)" by (metis prod_cases3)
  have p1: "P c1" by (rule step [OF assms(2) rd])
  show ?thesis
    using assms(2,3) p1 unfolding identity_read_mode_def rd Let_def prod.case
    by (auto split: if_splits prod.splits option.splits dest!: re bk)
qed

end
