(* ===== verification/BootSlot.thy ===== *)
theory BootSlot
  imports Bytes
begin

text \<open>
  The A/B boot slots: \<^verbatim>\<open>boot/boot_slot.c\<close>, \<^verbatim>\<open>boot_slot_lifecycle.c\<close>, \<^verbatim>\<open>boot_slot_operations.c\<close> and the snapshot of
  \<^verbatim>\<open>boot_slot_authorization.c\<close>. The machine keeps two system images. The manager says which slot is confirmed to
  work, which one is on trial and how many attempts the trial has left. It is stored twice, as a 512-byte record with a
  generation number and a checksum; a change is written to the older copy, read back, and only then becomes the
  state in memory.

  The arrays of two slots, two copies and two regions are pairs, indexed like in C (\<open>at2\<close>, \<open>set2\<close>); an index is
  checked by the code before it is used. Character arrays are byte lists of their declared size. The flags
  \<^verbatim>\<open>rollback_pending\<close> and \<^verbatim>\<open>health_confirmed\<close>, which the code keeps at 0 or 1, are truth values. Pointers
  are not null. The callbacks that read, write and flush a copy are an argument (\<open>persist_io\<close>); \<open>BootStore\<close> supplies
  them. The functions that exist only in unit-test builds are left out; \<open>loader_build\<close> tells the build of
  the UEFI loader from the build of the kernel.
\<close>

subsection \<open>Data\<close>

definition BOOT_SLOT_COUNT :: u32 where "BOOT_SLOT_COUNT = 2"
definition BOOT_SLOT_NAME_MAX :: nat where "BOOT_SLOT_NAME_MAX = 8"
definition BOOT_SLOT_VERSION_MAX :: nat where "BOOT_SLOT_VERSION_MAX = 40"
definition BOOT_SLOT_SHA256_SIZE :: nat where "BOOT_SLOT_SHA256_SIZE = 32"
definition BOOT_SLOT_PERSIST_RECORD_SIZE :: nat where "BOOT_SLOT_PERSIST_RECORD_SIZE = 512"
definition BOOT_SLOT_PERSIST_COPY_COUNT :: u32 where "BOOT_SLOT_PERSIST_COPY_COUNT = 2"
definition BOOT_SLOT_NONE :: u32 where "BOOT_SLOT_NONE = 0xFFFFFFFF"
definition BOOT_SLOT_DEFAULT_TRIES :: u32 where "BOOT_SLOT_DEFAULT_TRIES = 1"
definition BOOT_SLOT_MAX_TRIES :: u32 where "BOOT_SLOT_MAX_TRIES = 1"
definition BOOT_SLOT_PERSIST_EMPTY :: int where "BOOT_SLOT_PERSIST_EMPTY = 1"
definition BOOT_SLOT_ERR_IO :: int where "BOOT_SLOT_ERR_IO = -1"
definition BOOT_SLOT_ERR_COMMIT_UNKNOWN :: int where "BOOT_SLOT_ERR_COMMIT_UNKNOWN = -2"
definition BOOT_SLOT_ERR_BUSY :: int where "BOOT_SLOT_ERR_BUSY = -4"
definition UINT64_MAX :: u64 where "UINT64_MAX = 0xFFFFFFFFFFFFFFFF"

type_synonym 'a two = "'a \<times> 'a"

definition at2 :: "'a two \<Rightarrow> u32 \<Rightarrow> 'a" where "at2 p i = (if i = 0 then fst p else snd p)"

definition set2 :: "u32 \<Rightarrow> 'a \<Rightarrow> 'a two \<Rightarrow> 'a two" where
  "set2 i x p = (if i = 0 then (x, snd p) else (fst p, x))"

datatype boot_slot_state = BOOT_SLOT_EMPTY | BOOT_SLOT_VALID | BOOT_SLOT_ACTIVE | BOOT_SLOT_ROLLBACK | BOOT_SLOT_FAILED

fun state_code :: "boot_slot_state \<Rightarrow> u32" where
  "state_code BOOT_SLOT_EMPTY = 0"
| "state_code BOOT_SLOT_VALID = 1"
| "state_code BOOT_SLOT_ACTIVE = 2"
| "state_code BOOT_SLOT_ROLLBACK = 3"
| "state_code BOOT_SLOT_FAILED = 4"

definition state_of_code :: "u32 \<Rightarrow> boot_slot_state" where
  "state_of_code w =
     (if w = 0 then BOOT_SLOT_EMPTY else if w = 1 then BOOT_SLOT_VALID else if w = 2 then BOOT_SLOT_ACTIVE
      else if w = 3 then BOOT_SLOT_ROLLBACK else BOOT_SLOT_FAILED)"

record boot_slot_region =
  rg_header_lba :: u32
  rg_payload_lba :: u32
  rg_payload_capacity_sectors :: u32

record boot_slot_layout =
  ly_boot_sectors :: u32
  ly_slots :: "boot_slot_region two"
  ly_control_lba :: "u32 two"

record boot_slot_image =
  im_version :: "u8 list"
  im_payload_size :: u32
  im_payload_sha256 :: "u8 list"

record boot_slot =
  sl_name :: "u8 list"
  sl_version :: "u8 list"
  sl_state :: boot_slot_state
  sl_boot_count :: u32
  sl_success_count :: u32
  sl_fail_count :: u32
  sl_header_lba :: u32
  sl_payload_lba :: u32
  sl_payload_capacity_sectors :: u32
  sl_payload_size :: u32
  sl_checksum :: u32
  sl_payload_sha256 :: "u8 list"
  sl_health_confirmed :: bool

record boot_slot_manager =
  mg_slots :: "boot_slot two"
  mg_active_slot :: u32
  mg_next_slot :: u32
  mg_rollback_pending :: bool
  mg_confirmed_slot :: u32
  mg_pending_slot :: u32
  mg_tries_remaining :: u32
  mg_boot_sectors :: u32
  mg_control_lba :: "u32 two"

abbreviation slot_at :: "boot_slot_manager \<Rightarrow> u32 \<Rightarrow> boot_slot" where
  "slot_at m i \<equiv> at2 (mg_slots m) i"

definition upd_slot :: "u32 \<Rightarrow> (boot_slot \<Rightarrow> boot_slot) \<Rightarrow> boot_slot_manager \<Rightarrow> boot_slot_manager" where
  "upd_slot i f m = m\<lparr>mg_slots := set2 i (f (slot_at m i)) (mg_slots m)\<rparr>"

subsection \<open>Small helpers\<close>

text \<open>The result of \<^verbatim>\<open>bs_strcpy\<close> into a zeroed buffer of \<open>n\<close> bytes.\<close>

definition bs_strcpy :: "u8 list \<Rightarrow> nat \<Rightarrow> u8 list" where
  "bs_strcpy src n = (let t = take (n - 1) (takeWhile (\<lambda>b. b \<noteq> 0) src) in t @ replicate (n - length t) 0)"

definition bs_crc32 :: "u8 list \<Rightarrow> u32" where
  "bs_crc32 data = NOT (fold (\<lambda>x crc. (crc_bit ^^ 8) (crc XOR ucast x)) data 0xFFFFFFFF)"

definition bs_bytes_equal :: "u8 list \<Rightarrow> u8 list \<Rightarrow> nat \<Rightarrow> bool" where
  "bs_bytes_equal a b len = (fold (\<lambda>i diff. diff OR (a ! i XOR b ! i)) [0..<len] (0::u8) = 0)"

definition bs_bytes_zero :: "u8 list \<Rightarrow> nat \<Rightarrow> nat \<Rightarrow> bool" where
  "bs_bytes_zero data start end' \<longleftrightarrow> start \<le> end' \<and> end' \<le> BOOT_SLOT_PERSIST_RECORD_SIZE \<and> list_all (\<lambda>i. data ! i = 0) [start..<end']"

definition bs_record_erased :: "u8 list \<Rightarrow> bool" where
  "bs_record_erased r \<longleftrightarrow>
     list_all (\<lambda>i. r ! i = 0) [0..<BOOT_SLOT_PERSIST_RECORD_SIZE] \<or> list_all (\<lambda>i. r ! i = 0xFF) [0..<BOOT_SLOT_PERSIST_RECORD_SIZE]"

definition printable :: "u8 \<Rightarrow> bool" where "printable ch \<longleftrightarrow> \<not> (ch < 0x20 \<or> ch > 0x7E)"

definition bs_string_fits :: "u8 list \<Rightarrow> nat \<Rightarrow> bool" where
  "bs_string_fits text limit \<longleftrightarrow>
     (let t = takeWhile (\<lambda>b. b \<noteq> 0) (take limit text) in limit \<noteq> 0 \<and> list_all printable t \<and> length t > 0 \<and> length t < limit)"

text \<open>\<open>None\<close> is \<^verbatim>\<open>BOOT_SLOT_ERR_IO\<close>.\<close>

definition boot_slot_layout_plan :: "u32 \<Rightarrow> boot_slot_layout option" where
  "boot_slot_layout_plan boot_sectors =
     (if boot_sectors < 6 then None
      else
        (let usable = boot_sectors - BOOT_SLOT_PERSIST_COPY_COUNT;
             first_region = usable div BOOT_SLOT_COUNT;
             second_region = usable - first_region
         in if first_region < 2 \<or> second_region < 2 then None
            else Some \<lparr>ly_boot_sectors = boot_sectors,
              ly_slots = (\<lparr>rg_header_lba = 0, rg_payload_lba = 1, rg_payload_capacity_sectors = first_region - 1\<rparr>,
                \<lparr>rg_header_lba = first_region, rg_payload_lba = first_region + 1, rg_payload_capacity_sectors = second_region - 1\<rparr>),
              ly_control_lba = (boot_sectors - 2, boot_sectors - 1)\<rparr>))"

definition region_equal :: "boot_slot_region \<Rightarrow> boot_slot_region \<Rightarrow> bool" where
  "region_equal a b \<longleftrightarrow> rg_header_lba a = rg_header_lba b \<and> rg_payload_lba a = rg_payload_lba b \<and>
     rg_payload_capacity_sectors a = rg_payload_capacity_sectors b"

definition bs_layout_equal :: "boot_slot_layout \<Rightarrow> boot_slot_layout \<Rightarrow> bool" where
  "bs_layout_equal a b \<longleftrightarrow> ly_boot_sectors a = ly_boot_sectors b \<and>
     region_equal (at2 (ly_slots a) 0) (at2 (ly_slots b) 0) \<and> region_equal (at2 (ly_slots a) 1) (at2 (ly_slots b) 1) \<and>
     at2 (ly_control_lba a) 0 = at2 (ly_control_lba b) 0 \<and> at2 (ly_control_lba a) 1 = at2 (ly_control_lba b) 1"

definition bs_digest_present :: "u8 list \<Rightarrow> bool" where
  "bs_digest_present digest \<longleftrightarrow> fold (OR) (take BOOT_SLOT_SHA256_SIZE digest) 0 \<noteq> 0"

definition bs_image_valid :: "boot_slot_image \<Rightarrow> u32 \<Rightarrow> bool" where
  "bs_image_valid img capacity_sectors \<longleftrightarrow>
     bs_string_fits (im_version img) BOOT_SLOT_VERSION_MAX \<and> im_payload_size img > 0 \<and>
     (ucast (im_payload_size img) :: u64) \<le> ucast capacity_sectors * 512 \<and> bs_digest_present (im_payload_sha256 img)"

definition slot_zero :: boot_slot where
  "slot_zero = \<lparr>sl_name = replicate BOOT_SLOT_NAME_MAX 0, sl_version = replicate BOOT_SLOT_VERSION_MAX 0, sl_state = BOOT_SLOT_EMPTY,
     sl_boot_count = 0, sl_success_count = 0, sl_fail_count = 0, sl_header_lba = 0, sl_payload_lba = 0,
     sl_payload_capacity_sectors = 0, sl_payload_size = 0, sl_checksum = 0,
     sl_payload_sha256 = replicate BOOT_SLOT_SHA256_SIZE 0, sl_health_confirmed = False\<rparr>"

definition slot_letter :: "u32 \<Rightarrow> u8 list" where
  "slot_letter i = bs_strcpy (if i = 0 then [0x41, 0] else [0x42, 0]) BOOT_SLOT_NAME_MAX"

definition bs_manager_defaults :: boot_slot_manager where
  "bs_manager_defaults = \<lparr>mg_slots = (slot_zero\<lparr>sl_name := slot_letter 0\<rparr>, slot_zero\<lparr>sl_name := slot_letter 1\<rparr>),
     mg_active_slot = 0, mg_next_slot = 0, mg_rollback_pending = False, mg_confirmed_slot = 0, mg_pending_slot = BOOT_SLOT_NONE,
     mg_tries_remaining = 0, mg_boot_sectors = 0, mg_control_lba = (0, 0)\<rparr>"

subsection \<open>The record\<close>

definition bs_record_magic :: "u8 list" where "bs_record_magic = [0x43, 0x41, 0x50, 0x59, 0x41, 0x42, 0x30, 0x30]"
definition BS_RECORD_FORMAT_VERSION :: u32 where "BS_RECORD_FORMAT_VERSION = 0"
definition BS_RECORD_SLOT0_OFFSET :: nat where "BS_RECORD_SLOT0_OFFSET = 64"
definition BS_RECORD_SLOT_SIZE :: nat where "BS_RECORD_SLOT_SIZE = 128"
definition BS_RECORD_RESERVED_OFFSET :: nat where "BS_RECORD_RESERVED_OFFSET = 320"
definition BS_RECORD_CRC_OFFSET :: nat where "BS_RECORD_CRC_OFFSET = 508"

definition bs_encode_slot :: "nat \<Rightarrow> boot_slot \<Rightarrow> u8 list \<Rightarrow> u8 list" where
  "bs_encode_slot offset slot r =
     (let r0 = put_at offset (le32 (state_code (sl_state slot))) r;
          r1 = put_at (offset + 4) (le32 (sl_boot_count slot)) r0;
          r2 = put_at (offset + 8) (le32 (sl_success_count slot)) r1;
          r3 = put_at (offset + 12) (le32 (sl_fail_count slot)) r2;
          r4 = put_at (offset + 16) (le32 (sl_header_lba slot)) r3;
          r5 = put_at (offset + 20) (le32 (sl_payload_lba slot)) r4;
          r6 = put_at (offset + 24) (le32 (sl_payload_capacity_sectors slot)) r5;
          r7 = put_at (offset + 28) (le32 (sl_payload_size slot)) r6;
          r8 = put_at (offset + 32) (le32 (sl_checksum slot)) r7;
          r9 = put_at (offset + 36) (le32 (if sl_health_confirmed slot then 1 else 0)) r8;
          r10 = put_at (offset + 40) (take (BOOT_SLOT_VERSION_MAX - 1) (takeWhile (\<lambda>b. b \<noteq> 0) (sl_version slot))) r9
      in put_at (offset + 80) (take BOOT_SLOT_SHA256_SIZE (sl_payload_sha256 slot)) r10)"

definition bs_decode_version :: "u8 list \<Rightarrow> u8 list option" where
  "bs_decode_version src =
     (let field = take BOOT_SLOT_VERSION_MAX src; t = takeWhile (\<lambda>b. b \<noteq> 0) field
      in if \<not> list_all printable t \<or> length t = BOOT_SLOT_VERSION_MAX \<or> \<not> list_all (\<lambda>b. b = 0) (drop (length t + 1) field) then None
         else Some (t @ replicate (BOOT_SLOT_VERSION_MAX - length t) 0))"

definition bs_decode_slot :: "u8 list \<Rightarrow> nat \<Rightarrow> boot_slot \<Rightarrow> boot_slot option" where
  "bs_decode_slot r offset slot =
     (let state = le32_at r offset; health = le32_at r (offset + 36)
      in if state > state_code BOOT_SLOT_FAILED \<or> health > 1 \<or> \<not> bs_bytes_zero r (offset + 112) (offset + BS_RECORD_SLOT_SIZE) then None
         else
           case bs_decode_version (drop (offset + 40) r) of None \<Rightarrow> None
           | Some v \<Rightarrow>
               (let sl = slot\<lparr>sl_state := state_of_code state, sl_boot_count := le32_at r (offset + 4),
                      sl_success_count := le32_at r (offset + 8), sl_fail_count := le32_at r (offset + 12),
                      sl_header_lba := le32_at r (offset + 16), sl_payload_lba := le32_at r (offset + 20),
                      sl_payload_capacity_sectors := le32_at r (offset + 24), sl_payload_size := le32_at r (offset + 28),
                      sl_checksum := le32_at r (offset + 32), sl_health_confirmed := (health \<noteq> 0), sl_version := v,
                      sl_payload_sha256 := take BOOT_SLOT_SHA256_SIZE (drop (offset + 80) r)\<rparr>
                in if sl_state sl = BOOT_SLOT_EMPTY then
                     (if v ! 0 \<noteq> 0 \<or> sl_boot_count sl \<noteq> 0 \<or> sl_success_count sl \<noteq> 0 \<or> sl_fail_count sl \<noteq> 0 \<or>
                         sl_payload_size sl \<noteq> 0 \<or> sl_checksum sl \<noteq> 0 \<or> sl_health_confirmed sl \<or>
                         \<not> bs_bytes_zero (sl_payload_sha256 sl) 0 BOOT_SLOT_SHA256_SIZE
                      then None else Some sl)
                   else if v ! 0 = 0 \<or> sl_payload_size sl = 0 then None else Some sl))"

definition bs_slot_identity_valid :: "boot_slot \<Rightarrow> bool" where
  "bs_slot_identity_valid slot \<longleftrightarrow>
     sl_payload_capacity_sectors slot \<noteq> 0 \<and> sl_payload_lba slot = sl_header_lba slot + 1 \<and>
     (if sl_state slot = BOOT_SLOT_EMPTY
      then sl_version slot ! 0 = 0 \<and> sl_payload_size slot = 0 \<and> sl_boot_count slot = 0 \<and> sl_success_count slot = 0 \<and>
           sl_fail_count slot = 0 \<and> sl_checksum slot = 0 \<and> \<not> sl_health_confirmed slot \<and> \<not> bs_digest_present (sl_payload_sha256 slot)
      else bs_string_fits (sl_version slot) BOOT_SLOT_VERSION_MAX \<and> sl_payload_size slot > 0 \<and>
           (ucast (sl_payload_size slot) :: u64) \<le> ucast (sl_payload_capacity_sectors slot) * 512 \<and>
           bs_digest_present (sl_payload_sha256 slot))"

definition slot_region :: "boot_slot \<Rightarrow> boot_slot_region" where
  "slot_region sl = \<lparr>rg_header_lba = sl_header_lba sl, rg_payload_lba = sl_payload_lba sl,
     rg_payload_capacity_sectors = sl_payload_capacity_sectors sl\<rparr>"

definition manager_layout :: "boot_slot_manager \<Rightarrow> boot_slot_layout" where
  "manager_layout m = \<lparr>ly_boot_sectors = mg_boot_sectors m, ly_slots = (slot_region (slot_at m 0), slot_region (slot_at m 1)),
     ly_control_lba = (at2 (mg_control_lba m) 0, at2 (mg_control_lba m) 1)\<rparr>"

definition bs_manager_matches_layout :: "boot_slot_manager \<Rightarrow> boot_slot_layout \<Rightarrow> bool" where
  "bs_manager_matches_layout m layout \<longleftrightarrow>
     mg_boot_sectors m = ly_boot_sectors layout \<and> at2 (mg_control_lba m) 0 = at2 (ly_control_lba layout) 0 \<and>
     at2 (mg_control_lba m) 1 = at2 (ly_control_lba layout) 1 \<and>
     region_equal (slot_region (slot_at m 0)) (at2 (ly_slots layout) 0) \<and> region_equal (slot_region (slot_at m 1)) (at2 (ly_slots layout) 1)"

definition boot_slot_manager_validate :: "boot_slot_manager \<Rightarrow> bool" where
  "boot_slot_manager_validate m \<longleftrightarrow>
     mg_active_slot m < BOOT_SLOT_COUNT \<and> mg_next_slot m < BOOT_SLOT_COUNT \<and> mg_confirmed_slot m < BOOT_SLOT_COUNT \<and>
     (mg_pending_slot m = BOOT_SLOT_NONE \<or> mg_pending_slot m < BOOT_SLOT_COUNT) \<and> mg_tries_remaining m \<le> BOOT_SLOT_MAX_TRIES \<and>
     (case boot_slot_layout_plan (mg_boot_sectors m) of None \<Rightarrow> False
      | Some expected \<Rightarrow>
          (\<forall>i\<in>{0, 1}. bs_slot_identity_valid (slot_at m i) \<and>
             \<not> (sl_state (slot_at m i) = BOOT_SLOT_FAILED \<and> sl_health_confirmed (slot_at m i))) \<and>
          bs_layout_equal (manager_layout m) expected \<and>
          (let confirmed = mg_confirmed_slot m; pending = mg_pending_slot m
           in if pending = BOOT_SLOT_NONE then
                (let other = confirmed XOR 1; other_state = sl_state (slot_at m other)
                 in \<not> (mg_rollback_pending m \<or> mg_tries_remaining m \<noteq> 0 \<or> mg_active_slot m \<noteq> confirmed \<or>
                       sl_state (slot_at m confirmed) \<noteq> BOOT_SLOT_ACTIVE \<or> \<not> sl_health_confirmed (slot_at m confirmed) \<or>
                       other_state = BOOT_SLOT_ACTIVE \<or> other_state = BOOT_SLOT_ROLLBACK) \<and>
                    (mg_next_slot m = confirmed \<or> mg_next_slot m = other \<and> other_state = BOOT_SLOT_VALID))
              else pending \<noteq> confirmed \<and> mg_rollback_pending m \<and> mg_active_slot m = pending \<and> mg_next_slot m = pending \<and>
                   sl_state (slot_at m pending) = BOOT_SLOT_ACTIVE \<and> \<not> sl_health_confirmed (slot_at m pending) \<and>
                   sl_state (slot_at m confirmed) = BOOT_SLOT_ROLLBACK \<and> sl_health_confirmed (slot_at m confirmed)))"

text \<open>The record without its checksum.\<close>

definition record_body :: "boot_slot_manager \<Rightarrow> u64 \<Rightarrow> u8 list" where
  "record_body m generation =
     (let r0 = put_at 0 bs_record_magic (replicate BOOT_SLOT_PERSIST_RECORD_SIZE 0);
          r1 = put_at 8 (le32 BS_RECORD_FORMAT_VERSION) r0;
          r2 = put_at 12 (le32 (of_nat BOOT_SLOT_PERSIST_RECORD_SIZE)) r1;
          r3 = put_at 16 (le64 generation) r2;
          r4 = put_at 24 (le32 (mg_active_slot m)) r3;
          r5 = put_at 28 (le32 (mg_next_slot m)) r4;
          r6 = put_at 32 (le32 (if mg_rollback_pending m then 1 else 0)) r5;
          r7 = put_at 36 (le32 (mg_confirmed_slot m)) r6;
          r8 = put_at 40 (le32 (mg_pending_slot m)) r7;
          r9 = put_at 44 (le32 (mg_tries_remaining m)) r8;
          r10 = put_at 48 (le32 (mg_boot_sectors m)) r9;
          r11 = put_at 52 (le32 (at2 (mg_control_lba m) 0)) r10;
          r12 = put_at 56 (le32 (at2 (mg_control_lba m) 1)) r11;
          r13 = bs_encode_slot BS_RECORD_SLOT0_OFFSET (slot_at m 0) r12
      in bs_encode_slot (BS_RECORD_SLOT0_OFFSET + BS_RECORD_SLOT_SIZE) (slot_at m 1) r13)"

definition bs_record_encode :: "boot_slot_manager \<Rightarrow> u64 \<Rightarrow> u8 list" where
  "bs_record_encode m generation =
     (let r = record_body m generation in put_at BS_RECORD_CRC_OFFSET (le32 (bs_crc32 (take BS_RECORD_CRC_OFFSET r))) r)"

definition bs_record_decode :: "u8 list \<Rightarrow> (boot_slot_manager \<times> u64) option" where
  "bs_record_decode r =
     (if \<not> bs_bytes_equal r bs_record_magic 8 \<or> le32_at r 8 \<noteq> BS_RECORD_FORMAT_VERSION \<or>
         le32_at r 12 \<noteq> of_nat BOOT_SLOT_PERSIST_RECORD_SIZE \<or> le64_at r 16 = 0 \<or>
         bs_crc32 (take BS_RECORD_CRC_OFFSET r) \<noteq> le32_at r BS_RECORD_CRC_OFFSET \<or>
         \<not> bs_bytes_zero r 60 BS_RECORD_SLOT0_OFFSET \<or> \<not> bs_bytes_zero r BS_RECORD_RESERVED_OFFSET BS_RECORD_CRC_OFFSET
      then None
      else
        (let d = bs_manager_defaults\<lparr>mg_active_slot := le32_at r 24, mg_next_slot := le32_at r 28, mg_confirmed_slot := le32_at r 36,
               mg_pending_slot := le32_at r 40, mg_tries_remaining := le32_at r 44, mg_boot_sectors := le32_at r 48,
               mg_control_lba := (le32_at r 52, le32_at r 56)\<rparr>;
             rollback = le32_at r 32
         in if mg_active_slot d \<ge> BOOT_SLOT_COUNT \<or> mg_next_slot d \<ge> BOOT_SLOT_COUNT \<or> rollback > 1 then None
            else
              case bs_decode_slot r BS_RECORD_SLOT0_OFFSET (slot_at d 0) of None \<Rightarrow> None
              | Some s0 \<Rightarrow>
                  (case bs_decode_slot r (BS_RECORD_SLOT0_OFFSET + BS_RECORD_SLOT_SIZE) (slot_at d 1) of None \<Rightarrow> None
                   | Some s1 \<Rightarrow>
                       (let d1 = d\<lparr>mg_slots := (s0, s1), mg_rollback_pending := (rollback \<noteq> 0)\<rparr>
                        in if mg_active_slot d1 XOR 1 \<ge> BOOT_SLOT_COUNT \<or> \<not> boot_slot_manager_validate d1 then None
                           else Some (d1, le64_at r 16)))))"

subsection \<open>State\<close>

datatype boot_slot_lifecycle_phase =
  BOOT_SLOT_PHASE_UNINITIALIZED | BOOT_SLOT_PHASE_RAM_TEST | BOOT_SLOT_PHASE_LEASED_UNBOUND | BOOT_SLOT_PHASE_BOUND_EMPTY |
  BOOT_SLOT_PHASE_BOUND_READY | BOOT_SLOT_PHASE_BOUND_UNKNOWN | BOOT_SLOT_PHASE_CLOSED

text \<open>The owner of a lease is the address of a store.\<close>

record boot_slot_persistence_state =
  bp_generation :: u64
  bp_authority_epoch :: u64
  bp_lease_epoch :: u64
  bp_lease_owner :: "nat option"
  bp_active_copy :: u32
  bp_configured :: bool
  bp_ready :: bool
  bp_blank :: bool
  bp_degraded :: bool
  bp_stage_claimed :: bool
  bp_layout :: boot_slot_layout

record boot_state =
  bsm :: boot_slot_manager
  bsm_initialized :: bool
  boot_slot_operation_busy :: bool
  bsp :: boot_slot_persistence_state
  boot_slot_phase :: boot_slot_lifecycle_phase
  loader_build :: bool

record 'c persist_io =
  pr_read :: "u32 \<Rightarrow> 'c \<Rightarrow> int \<times> u8 list \<times> 'c"
  pr_write :: "u32 \<Rightarrow> u8 list \<Rightarrow> 'c \<Rightarrow> int \<times> 'c"
  pr_flush :: "'c \<Rightarrow> int \<times> 'c"

definition upd_bsp :: "(boot_slot_persistence_state \<Rightarrow> boot_slot_persistence_state) \<Rightarrow> boot_state \<Rightarrow> boot_state" where
  "upd_bsp f s = s\<lparr>bsp := f (bsp s)\<rparr>"

definition layout_zero :: boot_slot_layout where
  "layout_zero = (let z = \<lparr>rg_header_lba = 0, rg_payload_lba = 0, rg_payload_capacity_sectors = 0\<rparr>
     in \<lparr>ly_boot_sectors = 0, ly_slots = (z, z), ly_control_lba = (0, 0)\<rparr>)"

definition bsp_zero :: boot_slot_persistence_state where
  "bsp_zero = \<lparr>bp_generation = 0, bp_authority_epoch = 0, bp_lease_epoch = 0, bp_lease_owner = None, bp_active_copy = 0,
     bp_configured = False, bp_ready = False, bp_blank = False, bp_degraded = False, bp_stage_claimed = False, bp_layout = layout_zero\<rparr>"

definition boot_slot_internal_operation_begin :: "boot_state \<Rightarrow> int \<times> boot_state" where
  "boot_slot_internal_operation_begin s =
     (if boot_slot_operation_busy s then BOOT_SLOT_ERR_BUSY else 0, s\<lparr>boot_slot_operation_busy := True\<rparr>)"

definition boot_slot_internal_operation_end :: "boot_state \<Rightarrow> boot_state" where
  "boot_slot_internal_operation_end s = s\<lparr>boot_slot_operation_busy := False\<rparr>"

definition boot_slot_internal_persistence_ready_locked :: "boot_state \<Rightarrow> bool" where
  "boot_slot_internal_persistence_ready_locked s \<longleftrightarrow>
     boot_slot_phase s = BOOT_SLOT_PHASE_BOUND_READY \<and> bsm_initialized s \<and> bp_configured (bsp s) \<and> bp_ready (bsp s)"

definition boot_slot_internal_observable_locked :: "boot_state \<Rightarrow> bool" where
  "boot_slot_internal_observable_locked s \<longleftrightarrow>
     boot_slot_phase s = BOOT_SLOT_PHASE_BOUND_READY \<and> bsm_initialized s \<and> bp_configured (bsp s) \<and> bp_ready (bsp s)"

definition boot_slot_internal_transition_ready_locked :: "boot_state \<Rightarrow> bool" where
  "boot_slot_internal_transition_ready_locked s \<longleftrightarrow>
     boot_slot_phase s = BOOT_SLOT_PHASE_BOUND_READY \<and> bsm_initialized s \<and> bp_configured (bsp s) \<and> bp_ready (bsp s)"

definition boot_slot_internal_bind_allowed_locked :: "boot_state \<Rightarrow> bool" where
  "boot_slot_internal_bind_allowed_locked s \<longleftrightarrow>
     (if loader_build s
      then boot_slot_phase s \<in> {BOOT_SLOT_PHASE_RAM_TEST, BOOT_SLOT_PHASE_LEASED_UNBOUND, BOOT_SLOT_PHASE_BOUND_EMPTY,
             BOOT_SLOT_PHASE_BOUND_READY, BOOT_SLOT_PHASE_BOUND_UNKNOWN}
      else bp_lease_owner (bsp s) \<noteq> None \<and>
           boot_slot_phase s \<notin> {BOOT_SLOT_PHASE_UNINITIALIZED, BOOT_SLOT_PHASE_RAM_TEST, BOOT_SLOT_PHASE_CLOSED})"

subsection \<open>Durable commits\<close>

definition bs_write_verified :: "'c persist_io \<Rightarrow> boot_slot_manager \<Rightarrow> u32 \<Rightarrow> u64 \<Rightarrow> boot_state \<Rightarrow> 'c \<Rightarrow> int \<times> 'c" where
  "bs_write_verified io m copy_index generation s c =
     (if \<not> bp_configured (bsp s) \<or> copy_index \<ge> BOOT_SLOT_PERSIST_COPY_COUNT then (BOOT_SLOT_ERR_IO, c)
      else if \<not> boot_slot_manager_validate m then (BOOT_SLOT_ERR_IO, c)
      else
        (let r = bs_record_encode m generation; (rc1, c1) = pr_write io copy_index r c
         in if rc1 \<noteq> 0 then (BOOT_SLOT_ERR_COMMIT_UNKNOWN, c1)
            else
              (let (rc2, c2) = pr_flush io c1
               in if rc2 \<noteq> 0 then (BOOT_SLOT_ERR_COMMIT_UNKNOWN, c2)
                  else
                    (let (rc3, readback, c3) = pr_read io copy_index c2
                     in if rc3 \<noteq> 0 \<or> \<not> bs_bytes_equal r readback BOOT_SLOT_PERSIST_RECORD_SIZE \<or>
                           (case bs_record_decode readback of None \<Rightarrow> True | Some (d, g) \<Rightarrow> g \<noteq> generation)
                        then (BOOT_SLOT_ERR_COMMIT_UNKNOWN, c3) else (0, c3)))))"

definition bs_commit_locked :: "'c persist_io \<Rightarrow> boot_slot_manager \<Rightarrow> boot_state \<Rightarrow> 'c \<Rightarrow> int \<times> boot_state \<times> 'c" where
  "bs_commit_locked io candidate s c =
     (if \<not> bsm_initialized s \<or> bp_configured (bsp s) \<and> bp_stage_claimed (bsp s) then (BOOT_SLOT_ERR_BUSY, s, c)
      else if \<not> bp_configured (bsp s) then (0, s\<lparr>bsm := candidate\<rparr>, c)
      else if \<not> bp_ready (bsp s) \<or> bp_generation (bsp s) = UINT64_MAX then (BOOT_SLOT_ERR_IO, s, c)
      else
        (let target_copy = bp_active_copy (bsp s) XOR 1; generation = bp_generation (bsp s) + 1;
             (rc, c1) = bs_write_verified io candidate target_copy generation s c
         in if rc = 0
            then (rc, upd_bsp (\<lambda>p. p\<lparr>bp_active_copy := target_copy, bp_generation := generation, bp_degraded := False\<rparr>) (s\<lparr>bsm := candidate\<rparr>), c1)
            else if rc = BOOT_SLOT_ERR_COMMIT_UNKNOWN
            then (rc, (upd_bsp (\<lambda>p. p\<lparr>bp_ready := False\<rparr>) s)\<lparr>boot_slot_phase := BOOT_SLOT_PHASE_BOUND_UNKNOWN\<rparr>, c1)
            else (rc, s, c1)))"

definition boot_slot_internal_init_locked :: "boot_state \<Rightarrow> boot_state" where
  "boot_slot_internal_init_locked s =
     (if bp_stage_claimed (bsp s) then s
      else
        (let s1 = s\<lparr>bsm := bs_manager_defaults, bsp := bsp_zero, bsm_initialized := True\<rparr>
         in if boot_slot_phase s1 = BOOT_SLOT_PHASE_UNINITIALIZED then s1\<lparr>boot_slot_phase := BOOT_SLOT_PHASE_RAM_TEST\<rparr> else s1))"

text \<open>One turn of the loop that reads the two copies: the status, the record, and the decoded record if it is usable.\<close>

definition read_copy :: "'c persist_io \<Rightarrow> boot_slot_layout \<Rightarrow> u32 \<Rightarrow> 'c \<Rightarrow> (int \<times> u8 list \<times> (boot_slot_manager \<times> u64) option) \<times> 'c" where
  "read_copy io layout i c =
     (let (rc0, r, c1) = pr_read io i c;
          rc = (if rc0 = 0 \<and> bs_record_erased r then BOOT_SLOT_PERSIST_EMPTY else rc0);
          d = (if rc = 0 then bs_record_decode r else None)
      in ((rc, r, case d of None \<Rightarrow> None | Some (m, g) \<Rightarrow> if bs_manager_matches_layout m layout then Some (m, g) else None), c1))"

text \<open>The choice between the two copies: the status the binding returns, and the manager, generation, copy and degradation flag it takes.\<close>

definition choose_copy ::
  "int \<times> u8 list \<times> (boot_slot_manager \<times> u64) option \<Rightarrow> int \<times> u8 list \<times> (boot_slot_manager \<times> u64) option \<Rightarrow>
   int \<times> (boot_slot_manager \<times> u64 \<times> u32 \<times> bool) option" where
  "choose_copy c0 c1 =
     (let (rc0, r0, u0) = c0; (rc1, r1, u1) = c1
      in case (u0, u1) of
           (Some (m0, g0), Some (m1, g1)) \<Rightarrow>
             (if g0 = g1 then
                (if \<not> bs_bytes_equal r0 r1 BOOT_SLOT_PERSIST_RECORD_SIZE then (BOOT_SLOT_ERR_IO, None)
                 else if rc1 < 0 \<or> rc0 < 0 then (BOOT_SLOT_ERR_IO, None) else (0, Some (m0, g0, 0, False)))
              else if rc1 < 0 \<or> rc0 < 0 then (BOOT_SLOT_ERR_IO, None)
              else if g1 > g0 then (0, Some (m1, g1, 1, False)) else (0, Some (m0, g0, 0, False)))
         | (Some (m0, g0), None) \<Rightarrow>
             (if rc1 < 0 \<or> mg_pending_slot m0 \<noteq> BOOT_SLOT_NONE then (BOOT_SLOT_ERR_IO, None) else (0, Some (m0, g0, 0, True)))
         | (None, Some (m1, g1)) \<Rightarrow>
             (if rc0 < 0 \<or> mg_pending_slot m1 \<noteq> BOOT_SLOT_NONE then (BOOT_SLOT_ERR_IO, None) else (0, Some (m1, g1, 1, True)))
         | (None, None) \<Rightarrow>
             (if rc0 = BOOT_SLOT_PERSIST_EMPTY \<and> rc1 = BOOT_SLOT_PERSIST_EMPTY then (BOOT_SLOT_PERSIST_EMPTY, None) else (BOOT_SLOT_ERR_IO, None)))"

definition boot_slot_internal_set_persistence_locked ::
  "'c persist_io \<Rightarrow> boot_slot_layout \<Rightarrow> boot_state \<Rightarrow> 'c \<Rightarrow> int \<times> boot_state \<times> 'c" where
  "boot_slot_internal_set_persistence_locked io layout s c =
     (if bp_stage_claimed (bsp s) then (BOOT_SLOT_ERR_BUSY, s, c)
      else if \<not> boot_slot_internal_bind_allowed_locked s \<or>
              (case boot_slot_layout_plan (ly_boot_sectors layout) of None \<Rightarrow> True | Some expected \<Rightarrow> \<not> bs_layout_equal layout expected)
      then (BOOT_SLOT_ERR_IO, s, c)
      else
        (let s1 = (upd_bsp (\<lambda>p. p\<lparr>bp_generation := 0, bp_active_copy := 0, bp_configured := True, bp_ready := False, bp_blank := False,
                     bp_degraded := False, bp_stage_claimed := False, bp_authority_epoch := 0, bp_layout := layout\<rparr>)
                   (s\<lparr>bsm := bs_manager_defaults\<rparr>))\<lparr>boot_slot_phase := BOOT_SLOT_PHASE_BOUND_UNKNOWN\<rparr>;
             (k0, c1) = read_copy io layout 0 c
         in if fst k0 \<noteq> 0 \<and> fst k0 \<noteq> BOOT_SLOT_PERSIST_EMPTY then (BOOT_SLOT_ERR_IO, s1, c1)
            else
              (let (k1, c2) = read_copy io layout 1 c1
               in if fst k1 \<noteq> 0 \<and> fst k1 \<noteq> BOOT_SLOT_PERSIST_EMPTY then (BOOT_SLOT_ERR_IO, s1, c2)
                  else
                    case choose_copy k0 k1 of
                      (rc, Some (m, g, copy, degraded)) \<Rightarrow>
                        (0, (upd_bsp (\<lambda>p. p\<lparr>bp_generation := g, bp_active_copy := copy, bp_degraded := degraded, bp_ready := True\<rparr>)
                              (s1\<lparr>bsm := m\<rparr>))\<lparr>boot_slot_phase := BOOT_SLOT_PHASE_BOUND_READY\<rparr>, c2)
                    | (rc, None) \<Rightarrow>
                        (if rc = BOOT_SLOT_PERSIST_EMPTY
                         then (rc, (upd_bsp (\<lambda>p. p\<lparr>bp_blank := True\<rparr>) s1)\<lparr>boot_slot_phase := BOOT_SLOT_PHASE_BOUND_EMPTY\<rparr>, c2)
                         else (rc, s1, c2)))))"

definition bs_slot_apply_image :: "boot_slot \<Rightarrow> u32 \<Rightarrow> boot_slot_image \<Rightarrow> boot_slot_state \<Rightarrow> boot_slot" where
  "bs_slot_apply_image slot slot_index img state =
     slot_zero\<lparr>sl_name := slot_letter slot_index, sl_header_lba := sl_header_lba slot, sl_payload_lba := sl_payload_lba slot,
       sl_payload_capacity_sectors := sl_payload_capacity_sectors slot, sl_version := bs_strcpy (im_version img) BOOT_SLOT_VERSION_MAX,
       sl_payload_size := im_payload_size img, sl_payload_sha256 := take BOOT_SLOT_SHA256_SIZE (im_payload_sha256 img), sl_state := state\<rparr>"

text \<open>The first manager of a new installation: image in slot A, confirmed.\<close>

definition initial_manager :: "boot_slot_layout \<Rightarrow> boot_slot_image \<Rightarrow> boot_slot_manager" where
  "initial_manager layout img =
     (let place = \<lambda>i sl. sl\<lparr>sl_header_lba := rg_header_lba (at2 (ly_slots layout) i), sl_payload_lba := rg_payload_lba (at2 (ly_slots layout) i),
            sl_payload_capacity_sectors := rg_payload_capacity_sectors (at2 (ly_slots layout) i)\<rparr>;
          m = bs_manager_defaults\<lparr>mg_boot_sectors := ly_boot_sectors layout,
            mg_control_lba := (at2 (ly_control_lba layout) 0, at2 (ly_control_lba layout) 1)\<rparr>;
          m1 = upd_slot 1 (place 1) (upd_slot 0 (place 0) m)
      in (upd_slot 0 (\<lambda>sl. (bs_slot_apply_image sl 0 img BOOT_SLOT_ACTIVE)
            \<lparr>sl_boot_count := 1, sl_success_count := 1, sl_health_confirmed := True\<rparr>) m1)
         \<lparr>mg_active_slot := 0, mg_next_slot := 0, mg_rollback_pending := False, mg_confirmed_slot := 0,
          mg_pending_slot := BOOT_SLOT_NONE, mg_tries_remaining := 0\<rparr>)"

definition boot_slot_internal_initialize_persistent_locked ::
  "'c persist_io \<Rightarrow> boot_slot_layout \<Rightarrow> boot_slot_image \<Rightarrow> boot_state \<Rightarrow> 'c \<Rightarrow> int \<times> boot_state \<times> 'c" where
  "boot_slot_internal_initialize_persistent_locked io layout img s c =
     (if \<not> boot_slot_internal_bind_allowed_locked s \<or> \<not> bsm_initialized s \<or> \<not> bp_configured (bsp s) \<or> bp_ready (bsp s) \<or>
         \<not> bp_blank (bsp s) \<or>
         (case boot_slot_layout_plan (ly_boot_sectors layout) of None \<Rightarrow> True | Some expected \<Rightarrow> \<not> bs_layout_equal layout expected) \<or>
         \<not> bs_layout_equal layout (bp_layout (bsp s)) \<or> \<not> bs_image_valid img (rg_payload_capacity_sectors (at2 (ly_slots layout) 0))
      then (BOOT_SLOT_ERR_IO, s, c)
      else
        (let candidate = initial_manager layout img; (rc, c1) = bs_write_verified io candidate 0 1 s c
         in if rc \<noteq> 0
            then (rc, (if rc = BOOT_SLOT_ERR_COMMIT_UNKNOWN then upd_bsp (\<lambda>p. p\<lparr>bp_blank := False\<rparr>) s else s)
                        \<lparr>boot_slot_phase := BOOT_SLOT_PHASE_BOUND_UNKNOWN\<rparr>, c1)
            else
              (let s1 = upd_bsp (\<lambda>p. p\<lparr>bp_blank := False\<rparr>) s; (rc2, c2) = bs_write_verified io candidate 1 2 s1 c1
               in if rc2 \<noteq> 0 then (rc2, s1\<lparr>boot_slot_phase := BOOT_SLOT_PHASE_BOUND_UNKNOWN\<rparr>, c2)
                  else (0, (upd_bsp (\<lambda>p. p\<lparr>bp_generation := 2, bp_active_copy := 1, bp_degraded := False, bp_ready := True\<rparr>)
                             (s1\<lparr>bsm := candidate\<rparr>))\<lparr>boot_slot_phase := BOOT_SLOT_PHASE_BOUND_READY\<rparr>, c2))))"

subsection \<open>The life of a slot\<close>

text \<open>A slot goes on trial: the confirmed slot becomes the fallback, the slot gets one attempt.\<close>

definition on_trial :: "u32 \<Rightarrow> boot_slot_manager \<Rightarrow> boot_slot_manager" where
  "on_trial slot m =
     (upd_slot slot (\<lambda>sl. sl\<lparr>sl_state := BOOT_SLOT_ACTIVE, sl_health_confirmed := False\<rparr>)
       (upd_slot (mg_confirmed_slot m) (\<lambda>sl. sl\<lparr>sl_state := BOOT_SLOT_ROLLBACK\<rparr>) m))
     \<lparr>mg_active_slot := slot, mg_next_slot := slot, mg_rollback_pending := True, mg_pending_slot := slot,
      mg_tries_remaining := BOOT_SLOT_DEFAULT_TRIES\<rparr>"

definition boot_slot_internal_arm_provider_locked ::
  "'c persist_io \<Rightarrow> u32 \<Rightarrow> u64 \<Rightarrow> boot_state \<Rightarrow> 'c \<Rightarrow> int \<times> u64 \<times> boot_state \<times> 'c" where
  "boot_slot_internal_arm_provider_locked io slot expected_generation s c =
     (if \<not> boot_slot_internal_persistence_ready_locked s \<or> slot \<ge> BOOT_SLOT_COUNT \<or> expected_generation \<noteq> bp_generation (bsp s) \<or>
         mg_pending_slot (bsm s) \<noteq> BOOT_SLOT_NONE \<or> slot = mg_confirmed_slot (bsm s) \<or> sl_state (slot_at (bsm s) slot) \<noteq> BOOT_SLOT_VALID \<or>
         sl_state (slot_at (bsm s) (mg_confirmed_slot (bsm s))) \<noteq> BOOT_SLOT_ACTIVE \<or>
         \<not> sl_health_confirmed (slot_at (bsm s) (mg_confirmed_slot (bsm s)))
      then (BOOT_SLOT_ERR_IO, 0, s, c)
      else
        (let (rc, s1, c1) = bs_commit_locked io (on_trial slot (bsm s)) s c
         in if rc \<noteq> 0 then (if bp_ready (bsp s1) then BOOT_SLOT_ERR_IO else BOOT_SLOT_ERR_COMMIT_UNKNOWN, 0, s1, c1)
            else (0, bp_generation (bsp s1), s1, c1)))"

text \<open>The manager that activation without persistence stores, if it does.\<close>

definition activate_in_ram :: "u32 \<Rightarrow> boot_slot_manager \<Rightarrow> boot_slot_manager option" where
  "activate_in_ram slot m =
     (let previous = mg_active_slot m; fallback = slot XOR 1;
          trial = \<lambda>prev m1. (upd_slot slot (\<lambda>sl. sl\<lparr>sl_state := BOOT_SLOT_ACTIVE, sl_health_confirmed := False, sl_boot_count := sl_boot_count sl + 1\<rparr>)
                 (upd_slot prev (\<lambda>sl. sl\<lparr>sl_state := BOOT_SLOT_ROLLBACK, sl_health_confirmed := True\<rparr>) m1))
               \<lparr>mg_active_slot := slot, mg_next_slot := slot, mg_pending_slot := slot, mg_tries_remaining := 0, mg_rollback_pending := True\<rparr>
      in if mg_rollback_pending m then None
         else if previous \<noteq> slot then
           (if sl_state (slot_at m previous) \<noteq> BOOT_SLOT_ACTIVE \<or> sl_version (slot_at m previous) ! 0 = 0 \<or>
               \<not> sl_health_confirmed (slot_at m previous) then None
            else Some (trial previous (m\<lparr>mg_confirmed_slot := previous\<rparr>)))
         else if sl_state (slot_at m fallback) = BOOT_SLOT_VALID \<and> sl_version (slot_at m fallback) ! 0 \<noteq> 0
         then Some (trial fallback (m\<lparr>mg_confirmed_slot := fallback\<rparr>))
         else Some ((upd_slot slot (\<lambda>sl. sl\<lparr>sl_state := BOOT_SLOT_ACTIVE, sl_health_confirmed := True, sl_boot_count := sl_boot_count sl + 1\<rparr>) m)
                \<lparr>mg_confirmed_slot := slot, mg_pending_slot := BOOT_SLOT_NONE, mg_tries_remaining := 0, mg_active_slot := slot,
                 mg_next_slot := slot, mg_rollback_pending := False\<rparr>))"

definition boot_slot_internal_activate_locked :: "'c persist_io \<Rightarrow> u32 \<Rightarrow> boot_state \<Rightarrow> 'c \<Rightarrow> int \<times> boot_state \<times> 'c" where
  "boot_slot_internal_activate_locked io slot s c =
     (if \<not> boot_slot_internal_transition_ready_locked s \<or> slot \<ge> BOOT_SLOT_COUNT then (BOOT_SLOT_ERR_IO, s, c)
      else if sl_state (slot_at (bsm s) slot) \<noteq> BOOT_SLOT_VALID \<and> sl_state (slot_at (bsm s) slot) \<noteq> BOOT_SLOT_ACTIVE then (BOOT_SLOT_ERR_IO, s, c)
      else if bp_configured (bsp s) then
        (if \<not> boot_slot_internal_persistence_ready_locked s \<or> mg_pending_slot (bsm s) \<noteq> BOOT_SLOT_NONE \<or> slot = mg_confirmed_slot (bsm s) \<or>
            sl_state (slot_at (bsm s) (mg_confirmed_slot (bsm s))) \<noteq> BOOT_SLOT_ACTIVE \<or>
            \<not> sl_health_confirmed (slot_at (bsm s) (mg_confirmed_slot (bsm s)))
         then (BOOT_SLOT_ERR_IO, s, c) else bs_commit_locked io (on_trial slot (bsm s)) s c)
      else case activate_in_ram slot (bsm s) of None \<Rightarrow> (BOOT_SLOT_ERR_IO, s, c) | Some m \<Rightarrow> bs_commit_locked io m s c)"

text \<open>\<open>None\<close> is \<^verbatim>\<open>BOOT_SLOT_ERR_IO\<close>.\<close>

definition bs_apply_rollback :: "boot_slot_manager \<Rightarrow> boot_slot_manager option" where
  "bs_apply_rollback m =
     (if mg_pending_slot m = BOOT_SLOT_NONE \<or> mg_pending_slot m \<ge> BOOT_SLOT_COUNT \<or> mg_confirmed_slot m \<ge> BOOT_SLOT_COUNT then None
      else
        (let pending = mg_pending_slot m; confirmed = mg_confirmed_slot m
         in Some ((upd_slot confirmed (\<lambda>sl. sl\<lparr>sl_state := BOOT_SLOT_ACTIVE, sl_health_confirmed := True\<rparr>)
              (upd_slot pending (\<lambda>sl. sl\<lparr>sl_state := BOOT_SLOT_FAILED, sl_health_confirmed := False, sl_fail_count := sl_fail_count sl + 1\<rparr>) m))
              \<lparr>mg_active_slot := confirmed, mg_next_slot := confirmed, mg_rollback_pending := False, mg_pending_slot := BOOT_SLOT_NONE,
               mg_tries_remaining := 0\<rparr>)))"

text \<open>The manager with the attempt of the pending slot spent.\<close>

definition spend_attempt :: "boot_slot_manager \<Rightarrow> boot_slot_manager" where
  "spend_attempt m =
     upd_slot (mg_pending_slot m) (\<lambda>sl. sl\<lparr>sl_boot_count := sl_boot_count sl + 1\<rparr>)
       (m\<lparr>mg_tries_remaining := mg_tries_remaining m - 1\<rparr>)"

text \<open>The result is the status, the slot and the generation.\<close>

definition boot_slot_internal_select_locked :: "'c persist_io \<Rightarrow> boot_state \<Rightarrow> 'c \<Rightarrow> int \<times> u32 \<times> u64 \<times> boot_state \<times> 'c" where
  "boot_slot_internal_select_locked io s c =
     (if \<not> boot_slot_internal_persistence_ready_locked s then (BOOT_SLOT_ERR_IO, BOOT_SLOT_NONE, 0, s, c)
      else if mg_pending_slot (bsm s) = BOOT_SLOT_NONE then (0, mg_confirmed_slot (bsm s), bp_generation (bsp s), s, c)
      else if mg_tries_remaining (bsm s) > 0 then
        (let (rc, s1, c1) = bs_commit_locked io (spend_attempt (bsm s)) s c
         in if rc \<noteq> 0 then (rc, BOOT_SLOT_NONE, 0, s1, c1) else (1, mg_pending_slot (bsm s), bp_generation (bsp s1), s1, c1))
      else
        case bs_apply_rollback (bsm s) of None \<Rightarrow> (BOOT_SLOT_ERR_IO, BOOT_SLOT_NONE, 0, s, c)
        | Some m \<Rightarrow>
            (let (rc, s1, c1) = bs_commit_locked io m s c
             in if rc \<noteq> 0 then (rc, BOOT_SLOT_NONE, 0, s1, c1) else (2, mg_confirmed_slot (bsm s), bp_generation (bsp s1), s1, c1)))"

definition confirmed_manager :: "u32 \<Rightarrow> boot_slot_manager \<Rightarrow> boot_slot_manager" where
  "confirmed_manager slot m =
     (let previous = mg_confirmed_slot m;
          m1 = upd_slot slot (\<lambda>sl. sl\<lparr>sl_health_confirmed := True, sl_success_count := sl_success_count sl + 1\<rparr>) m;
          m2 = (if sl_state (slot_at m1 previous) = BOOT_SLOT_ROLLBACK then upd_slot previous (\<lambda>sl. sl\<lparr>sl_state := BOOT_SLOT_VALID\<rparr>) m1 else m1)
      in m2\<lparr>mg_confirmed_slot := slot, mg_pending_slot := BOOT_SLOT_NONE, mg_tries_remaining := 0, mg_active_slot := slot,
            mg_next_slot := slot, mg_rollback_pending := False\<rparr>)"

definition boot_slot_internal_confirm_verified_locked ::
  "'c persist_io \<Rightarrow> u32 \<Rightarrow> u64 \<Rightarrow> u64 \<Rightarrow> u64 \<Rightarrow> boot_state \<Rightarrow> 'c \<Rightarrow> int \<times> boot_state \<times> 'c" where
  "boot_slot_internal_confirm_verified_locked io slot generation authority_epoch lease_epoch s c =
     (if \<not> boot_slot_internal_persistence_ready_locked s \<or> slot \<ge> BOOT_SLOT_COUNT \<or> mg_pending_slot (bsm s) \<noteq> slot \<or>
         mg_active_slot (bsm s) \<noteq> slot \<or> generation \<noteq> bp_generation (bsp s) \<or> authority_epoch \<noteq> bp_authority_epoch (bsp s) \<or>
         lease_epoch \<noteq> bp_lease_epoch (bsp s) \<or> mg_tries_remaining (bsm s) \<noteq> 0
      then (BOOT_SLOT_ERR_IO, s, c)
      else bs_commit_locked io (confirmed_manager slot (bsm s)) s c)"

text \<open>The manager that a rollback without persistence stores.\<close>

definition rollback_in_ram :: "boot_slot_manager \<Rightarrow> boot_slot_manager option" where
  "rollback_in_ram m =
     (let other = mg_active_slot m XOR 1
      in if sl_state (slot_at m other) \<noteq> BOOT_SLOT_ROLLBACK \<and> sl_state (slot_at m other) \<noteq> BOOT_SLOT_VALID then None
         else Some ((upd_slot other (\<lambda>sl. sl\<lparr>sl_state := BOOT_SLOT_ACTIVE, sl_health_confirmed := True\<rparr>)
                (upd_slot (mg_active_slot m) (\<lambda>sl. sl\<lparr>sl_state := BOOT_SLOT_FAILED, sl_health_confirmed := False,
                   sl_fail_count := sl_fail_count sl + 1\<rparr>) m))
              \<lparr>mg_active_slot := other, mg_next_slot := other, mg_confirmed_slot := other, mg_pending_slot := BOOT_SLOT_NONE,
               mg_tries_remaining := 0, mg_rollback_pending := False\<rparr>))"

definition boot_slot_internal_rollback_locked :: "'c persist_io \<Rightarrow> boot_state \<Rightarrow> 'c \<Rightarrow> int \<times> boot_state \<times> 'c" where
  "boot_slot_internal_rollback_locked io s c =
     (if \<not> boot_slot_internal_transition_ready_locked s \<or> \<not> mg_rollback_pending (bsm s) then (BOOT_SLOT_ERR_IO, s, c)
      else if bp_configured (bsp s) then
        (if \<not> boot_slot_internal_persistence_ready_locked s then (BOOT_SLOT_ERR_IO, s, c)
         else case bs_apply_rollback (bsm s) of None \<Rightarrow> (BOOT_SLOT_ERR_IO, s, c) | Some m \<Rightarrow> bs_commit_locked io m s c)
      else case rollback_in_ram (bsm s) of None \<Rightarrow> (BOOT_SLOT_ERR_IO, s, c) | Some m \<Rightarrow> bs_commit_locked io m s c)"

subsection \<open>Public operations\<close>

text \<open>An operation runs while the busy flag is held; if it is already held, the operation is refused with \<open>refused\<close>.\<close>

definition guarded :: "(int \<Rightarrow> 'r) \<Rightarrow> (boot_state \<Rightarrow> 'c \<Rightarrow> 'r \<times> boot_state \<times> 'c) \<Rightarrow> boot_state \<Rightarrow> 'c \<Rightarrow> 'r \<times> boot_state \<times> 'c" where
  "guarded refused f s c =
     (let (rc, s1) = boot_slot_internal_operation_begin s
      in if rc \<noteq> 0 then (refused rc, s1, c)
         else (let (r, s2, c2) = f s1 c in (r, boot_slot_internal_operation_end s2, c2)))"

definition boot_slot_init :: "boot_state \<Rightarrow> int \<times> boot_state" where
  "boot_slot_init s =
     (let (rc, s1) = boot_slot_internal_operation_begin s
      in if rc \<noteq> 0 then (rc, s1)
         else if bp_lease_owner (bsp s1) \<noteq> None then (BOOT_SLOT_ERR_BUSY, boot_slot_internal_operation_end s1)
         else (0, boot_slot_internal_operation_end ((boot_slot_internal_init_locked s1)\<lparr>boot_slot_phase := BOOT_SLOT_PHASE_RAM_TEST\<rparr>)))"

definition boot_slot_internal_persistence_generation_locked :: "boot_state \<Rightarrow> u64" where
  "boot_slot_internal_persistence_generation_locked s = (if boot_slot_internal_persistence_ready_locked s then bp_generation (bsp s) else 0)"

definition boot_slot_internal_manager_get_locked :: "boot_state \<Rightarrow> int \<times> boot_slot_manager option" where
  "boot_slot_internal_manager_get_locked s =
     (if \<not> boot_slot_internal_observable_locked s then (BOOT_SLOT_ERR_IO, None) else (0, Some (bsm s)))"

definition boot_slot_internal_get_active_locked :: "boot_state \<Rightarrow> int \<times> boot_slot option" where
  "boot_slot_internal_get_active_locked s =
     (if \<not> boot_slot_internal_observable_locked s then (BOOT_SLOT_ERR_IO, None) else (0, Some (slot_at (bsm s) (mg_active_slot (bsm s)))))"

definition boot_slot_internal_get_locked :: "u32 \<Rightarrow> boot_state \<Rightarrow> int \<times> boot_slot option" where
  "boot_slot_internal_get_locked index s =
     (if \<not> boot_slot_internal_observable_locked s \<or> index \<ge> BOOT_SLOT_COUNT then (BOOT_SLOT_ERR_IO, None) else (0, Some (slot_at (bsm s) index)))"

definition boot_slot_internal_needs_rollback_locked :: "boot_state \<Rightarrow> int" where
  "boot_slot_internal_needs_rollback_locked s =
     (if boot_slot_internal_observable_locked s then (if mg_rollback_pending (bsm s) then 1 else 0) else BOOT_SLOT_ERR_IO)"

text \<open>A query under the busy flag.\<close>

definition query :: "(int \<Rightarrow> 'r) \<Rightarrow> (boot_state \<Rightarrow> 'r) \<Rightarrow> boot_state \<Rightarrow> 'r \<times> boot_state" where
  "query refused f s =
     (let (rc, s1) = boot_slot_internal_operation_begin s
      in if rc \<noteq> 0 then (refused rc, s1) else (f s1, boot_slot_internal_operation_end s1))"

definition boot_slot_persistence_ready :: "boot_state \<Rightarrow> bool \<times> boot_state" where
  "boot_slot_persistence_ready = query (\<lambda>_. False) boot_slot_internal_persistence_ready_locked"

definition boot_slot_persistence_generation :: "boot_state \<Rightarrow> u64 \<times> boot_state" where
  "boot_slot_persistence_generation = query (\<lambda>_. 0) boot_slot_internal_persistence_generation_locked"

definition boot_slot_manager_get :: "boot_state \<Rightarrow> (int \<times> boot_slot_manager option) \<times> boot_state" where
  "boot_slot_manager_get = query (\<lambda>rc. (rc, None)) boot_slot_internal_manager_get_locked"

definition boot_slot_get_active :: "boot_state \<Rightarrow> (int \<times> boot_slot option) \<times> boot_state" where
  "boot_slot_get_active = query (\<lambda>rc. (rc, None)) boot_slot_internal_get_active_locked"

definition boot_slot_get :: "u32 \<Rightarrow> boot_state \<Rightarrow> (int \<times> boot_slot option) \<times> boot_state" where
  "boot_slot_get index = query (\<lambda>rc. (rc, None)) (boot_slot_internal_get_locked index)"

definition boot_slot_needs_rollback :: "boot_state \<Rightarrow> int \<times> boot_state" where
  "boot_slot_needs_rollback = query (\<lambda>rc. rc) boot_slot_internal_needs_rollback_locked"

definition boot_slot_activate :: "'c persist_io \<Rightarrow> u32 \<Rightarrow> boot_state \<Rightarrow> 'c \<Rightarrow> int \<times> boot_state \<times> 'c" where
  "boot_slot_activate io slot = guarded (\<lambda>rc. rc) (boot_slot_internal_activate_locked io slot)"

definition boot_slot_select_for_boot :: "'c persist_io \<Rightarrow> boot_state \<Rightarrow> 'c \<Rightarrow> (int \<times> u32 \<times> u64) \<times> boot_state \<times> 'c" where
  "boot_slot_select_for_boot io =
     guarded (\<lambda>rc. (rc, BOOT_SLOT_NONE, 0))
       (\<lambda>s c. let (rc, slot, generation, s1, c1) = boot_slot_internal_select_locked io s c in ((rc, slot, generation), s1, c1))"

definition boot_slot_confirm_health_verified ::
  "'c persist_io \<Rightarrow> u32 \<Rightarrow> u64 \<Rightarrow> u64 \<Rightarrow> u64 \<Rightarrow> boot_state \<Rightarrow> 'c \<Rightarrow> int \<times> boot_state \<times> 'c" where
  "boot_slot_confirm_health_verified io slot generation authority_epoch lease_epoch =
     guarded (\<lambda>rc. rc) (boot_slot_internal_confirm_verified_locked io slot generation authority_epoch lease_epoch)"

definition boot_slot_rollback :: "'c persist_io \<Rightarrow> boot_state \<Rightarrow> 'c \<Rightarrow> int \<times> boot_state \<times> 'c" where
  "boot_slot_rollback io = guarded (\<lambda>rc. rc) (boot_slot_internal_rollback_locked io)"

record boot_slot_snapshot =
  sn_version :: u32
  sn_size :: u32
  sn_generation :: u64
  sn_authority_epoch :: u64
  sn_lease_epoch :: u64
  sn_manager :: boot_slot_manager

definition BOOT_SLOT_SNAPSHOT_VERSION :: u32 where "BOOT_SLOT_SNAPSHOT_VERSION = 2"

text \<open>\<^verbatim>\<open>sizeof (struct boot_slot_snapshot)\<close>: 32 bytes and a manager of 276, aligned to 8.\<close>

definition SNAPSHOT_SIZE :: u32 where "SNAPSHOT_SIZE = 312"

definition boot_slot_snapshot_get :: "boot_state \<Rightarrow> (int \<times> boot_slot_snapshot option) \<times> boot_state" where
  "boot_slot_snapshot_get =
     query (\<lambda>rc. (rc, None))
       (\<lambda>s. if \<not> boot_slot_internal_persistence_ready_locked s \<or> bp_degraded (bsp s) \<or> bp_authority_epoch (bsp s) = 0
            then (BOOT_SLOT_ERR_IO, None)
            else if bp_stage_claimed (bsp s) then (BOOT_SLOT_ERR_BUSY, None)
            else (0, Some \<lparr>sn_version = BOOT_SLOT_SNAPSHOT_VERSION, sn_size = SNAPSHOT_SIZE, sn_generation = bp_generation (bsp s),
                sn_authority_epoch = bp_authority_epoch (bsp s), sn_lease_epoch = bp_lease_epoch (bsp s), sn_manager = bsm s\<rparr>))"

end
