(* ===== verification/BootStore.thy ===== *)
theory BootStore
  imports BootSlot Sha256
begin

text \<open>
  The store behind the boot slots: \<^verbatim>\<open>boot/boot_slot_store.c\<close>. It binds the control records to a device of 512-byte sectors and
  stages new images: the inactive slot is first marked unusable in both records, then payload and header are written
  and read back, and only then the slot is published as valid.

  A handle (a natural number) stands for a reader, a writer, a flusher and their context; \<open>ios\<close> gives the routines behind a
  handle, and \<open>None\<close> is a missing one. Store objects live at addresses (natural numbers). The SHA-256 routines are those of
  \<open>Sha256\<close>; wiping their context is not modelled.
\<close>

subsection \<open>State\<close>

definition BOOT_SLOT_STORE_SECTOR_SIZE :: nat where "BOOT_SLOT_STORE_SECTOR_SIZE = 512"
definition BOOT_SLOT_STORE_ERR_IO :: int where "BOOT_SLOT_STORE_ERR_IO = -1"
definition BOOT_SLOT_STORE_ERR_COMMIT_UNKNOWN :: int where "BOOT_SLOT_STORE_ERR_COMMIT_UNKNOWN = -2"
definition BOOT_SLOT_STORE_ERR_VERIFY :: int where "BOOT_SLOT_STORE_ERR_VERIFY = -3"
definition BOOT_SLOT_STORE_ERR_STALE :: int where "BOOT_SLOT_STORE_ERR_STALE = -4"
definition BOOT_SLOT_STORE_ERR_BUSY :: int where "BOOT_SLOT_STORE_ERR_BUSY = -5"

record 'c sector_io =
  sec_read :: "u32 \<Rightarrow> 'c \<Rightarrow> int \<times> u8 list \<times> 'c"
  sec_write :: "u32 \<Rightarrow> u8 list \<Rightarrow> 'c \<Rightarrow> int \<times> 'c"
  sec_flush :: "'c \<Rightarrow> int \<times> 'c"

record boot_slot_store =
  so_opaque_epoch :: u64
  so_test_layout :: boot_slot_layout
  so_test_io :: "nat option"
  so_test_ready :: bool

record boot_slot_store_binding =
  bn_owner :: "nat option"
  bn_layout :: boot_slot_layout
  bn_io :: "nat option"
  bn_epoch :: u64
  bn_lease_epoch :: u64
  bn_provider_backed :: bool
  bn_active :: bool

record boot_slot_store_registration =
  rn_owner :: "nat option"
  rn_layout :: boot_slot_layout
  rn_io :: "nat option"
  rn_lease_epoch :: u64
  rn_active :: bool

record boot_slot_store_io =
  si_layout :: boot_slot_layout
  si_io :: "nat option"
  si_lease_epoch :: u64
  si_provider_backed :: bool
  si_ready :: bool

record boot_slot_stage_authorization =
  au_generation :: u64
  au_authority_epoch :: u64
  au_lease_epoch :: u64
  au_slot :: u32

record store_state =
  st_boot :: boot_state
  store_binding :: boot_slot_store_binding
  store_registration :: boot_slot_store_registration
  store_lease_owner :: "nat option"
  store_next_epoch :: u64
  st_stores :: "nat \<Rightarrow> boot_slot_store"

definition store_zeroed :: boot_slot_store where
  "store_zeroed = \<lparr>so_opaque_epoch = 0, so_test_layout = layout_zero, so_test_io = None, so_test_ready = False\<rparr>"

definition binding_zero :: boot_slot_store_binding where
  "binding_zero = \<lparr>bn_owner = None, bn_layout = layout_zero, bn_io = None, bn_epoch = 0, bn_lease_epoch = 0,
     bn_provider_backed = False, bn_active = False\<rparr>"

definition registration_zero :: boot_slot_store_registration where
  "registration_zero = \<lparr>rn_owner = None, rn_layout = layout_zero, rn_io = None, rn_lease_epoch = 0, rn_active = False\<rparr>"

definition upd_store :: "nat \<Rightarrow> (boot_slot_store \<Rightarrow> boot_slot_store) \<Rightarrow> store_state \<Rightarrow> store_state" where
  "upd_store a f s = s\<lparr>st_stores := (st_stores s)(a := f (st_stores s a))\<rparr>"

definition no_io :: "'c sector_io" where
  "no_io = \<lparr>sec_read = (\<lambda>lba c. (BOOT_SLOT_STORE_ERR_IO, [], c)), sec_write = (\<lambda>lba b c. (BOOT_SLOT_STORE_ERR_IO, c)),
     sec_flush = (\<lambda>c. (BOOT_SLOT_STORE_ERR_IO, c))\<rparr>"

definition io_of :: "(nat \<Rightarrow> 'c sector_io) \<Rightarrow> nat option \<Rightarrow> 'c sector_io" where
  "io_of ios h = (case h of None \<Rightarrow> no_io | Some i \<Rightarrow> ios i)"

text \<open>The operation begins; a busy manager refuses it.\<close>

definition held :: "'r \<Rightarrow> (store_state \<Rightarrow> 'c \<Rightarrow> 'r \<times> store_state \<times> 'c) \<Rightarrow> store_state \<Rightarrow> 'c \<Rightarrow> 'r \<times> store_state \<times> 'c" where
  "held refused f s c =
     (let (rc, b) = boot_slot_internal_operation_begin (st_boot s); s1 = s\<lparr>st_boot := b\<rparr>
      in if rc \<noteq> 0 then (refused, s1, c)
         else (let (r, s2, c2) = f s1 c in (r, s2\<lparr>st_boot := boot_slot_internal_operation_end (st_boot s2)\<rparr>, c2)))"

subsection \<open>Comparisons\<close>

definition store_equal :: "u8 list \<Rightarrow> u8 list \<Rightarrow> nat \<Rightarrow> bool" where
  "store_equal a b len = (fold (\<lambda>i diff. diff OR (a ! i XOR b ! i)) [0..<len] (0::u8) = 0)"

definition store_string_equal :: "u8 list \<Rightarrow> u8 list \<Rightarrow> bool" where
  "store_string_equal a b \<longleftrightarrow>
     takeWhile (\<lambda>x. x \<noteq> 0) (take BOOT_SLOT_VERSION_MAX a) = takeWhile (\<lambda>x. x \<noteq> 0) (take BOOT_SLOT_VERSION_MAX b) \<and>
     length (takeWhile (\<lambda>x. x \<noteq> 0) (take BOOT_SLOT_VERSION_MAX a)) < BOOT_SLOT_VERSION_MAX"

definition store_zero_range :: "u8 list \<Rightarrow> nat \<Rightarrow> nat \<Rightarrow> bool" where
  "store_zero_range data start end' \<longleftrightarrow> start \<le> end' \<and> end' \<le> BOOT_SLOT_STORE_SECTOR_SIZE \<and> list_all (\<lambda>i. data ! i = 0) [start..<end']"

definition store_crc32 :: "u8 list \<Rightarrow> u32" where
  "store_crc32 data = NOT (fold (\<lambda>x crc. (crc_bit ^^ 8) (crc XOR ucast x)) data 0xFFFFFFFF)"

definition store_layout_equal :: "boot_slot_layout \<Rightarrow> boot_slot_layout \<Rightarrow> bool" where
  "store_layout_equal a b \<longleftrightarrow> ly_boot_sectors a = ly_boot_sectors b \<and>
     at2 (ly_control_lba a) 0 = at2 (ly_control_lba b) 0 \<and> at2 (ly_control_lba a) 1 = at2 (ly_control_lba b) 1 \<and>
     region_equal (at2 (ly_slots a) 0) (at2 (ly_slots b) 0) \<and> region_equal (at2 (ly_slots a) 1) (at2 (ly_slots b) 1)"

definition store_manager_matches :: "boot_slot_manager \<Rightarrow> boot_slot_layout \<Rightarrow> bool" where
  "store_manager_matches m layout \<longleftrightarrow>
     boot_slot_manager_validate m \<and> mg_pending_slot m = BOOT_SLOT_NONE \<and> mg_active_slot m = mg_confirmed_slot m \<and>
     mg_boot_sectors m = ly_boot_sectors layout \<and> at2 (mg_control_lba m) 0 = at2 (ly_control_lba layout) 0 \<and>
     at2 (mg_control_lba m) 1 = at2 (ly_control_lba layout) 1 \<and>
     region_equal (slot_region (slot_at m 0)) (at2 (ly_slots layout) 0) \<and> region_equal (slot_region (slot_at m 1)) (at2 (ly_slots layout) 1)"

definition store_version_valid :: "u8 list \<Rightarrow> bool" where
  "store_version_valid version \<longleftrightarrow>
     (let t = takeWhile (\<lambda>b. b \<noteq> 0) (take BOOT_SLOT_VERSION_MAX version)
      in list_all printable t \<and> length t \<noteq> 0 \<and> length t < BOOT_SLOT_VERSION_MAX \<and>
         list_all (\<lambda>i. version ! i = 0) [length t + 1..<BOOT_SLOT_VERSION_MAX])"

definition store_digest_present :: "u8 list \<Rightarrow> bool" where
  "store_digest_present digest \<longleftrightarrow> fold (OR) (take BOOT_SLOT_SHA256_SIZE digest) 0 \<noteq> 0"

definition store_image_valid :: "boot_slot_image \<Rightarrow> u32 \<Rightarrow> bool" where
  "store_image_valid img capacity_sectors \<longleftrightarrow>
     store_version_valid (im_version img) \<and> im_payload_size img > 0 \<and>
     (ucast (im_payload_size img) :: u64) \<le> ucast capacity_sectors * of_nat BOOT_SLOT_STORE_SECTOR_SIZE \<and>
     store_digest_present (im_payload_sha256 img)"

subsection \<open>Slot headers\<close>

definition store_magic :: "u8 list" where "store_magic = [0x43, 0x41, 0x50, 0x59, 0x53, 0x4C, 0x54, 0x30]"
definition STORE_HEADER_VERSION :: u32 where "STORE_HEADER_VERSION = 0"
definition STORE_HEADER_CRC_OFFSET :: nat where "STORE_HEADER_CRC_OFFSET = 508"

definition store_encode_header :: "boot_slot_layout \<Rightarrow> u32 \<Rightarrow> boot_slot_image \<Rightarrow> u8 list" where
  "store_encode_header layout slot img =
     (let h0 = put_at 0 store_magic (replicate BOOT_SLOT_STORE_SECTOR_SIZE 0);
          h1 = put_at 8 (le32 STORE_HEADER_VERSION) h0;
          h2 = put_at 12 (le32 (of_nat BOOT_SLOT_STORE_SECTOR_SIZE)) h1;
          h3 = put_at 16 (le32 slot) h2;
          h4 = put_at 20 (le32 (ly_boot_sectors layout)) h3;
          h5 = put_at 24 (le32 (rg_header_lba (at2 (ly_slots layout) slot))) h4;
          h6 = put_at 28 (le32 (rg_payload_lba (at2 (ly_slots layout) slot))) h5;
          h7 = put_at 32 (le32 (rg_payload_capacity_sectors (at2 (ly_slots layout) slot))) h6;
          h8 = put_at 36 (le32 (im_payload_size img)) h7;
          h9 = put_at 40 (take (BOOT_SLOT_VERSION_MAX - 1) (takeWhile (\<lambda>b. b \<noteq> 0) (im_version img))) h8;
          h10 = put_at 80 (take BOOT_SLOT_SHA256_SIZE (im_payload_sha256 img)) h9
      in put_at STORE_HEADER_CRC_OFFSET (le32 (store_crc32 (take STORE_HEADER_CRC_OFFSET h10))) h10)"

text \<open>\<open>None\<close> is \<^verbatim>\<open>BOOT_SLOT_STORE_ERR_VERIFY\<close>.\<close>

definition store_decode_header :: "boot_slot_layout \<Rightarrow> u32 \<Rightarrow> u8 list \<Rightarrow> boot_slot_image option" where
  "store_decode_header layout slot header =
     (if slot \<ge> BOOT_SLOT_COUNT \<or> \<not> store_equal header store_magic 8 \<or> le32_at header 8 \<noteq> STORE_HEADER_VERSION \<or>
         le32_at header 12 \<noteq> of_nat BOOT_SLOT_STORE_SECTOR_SIZE \<or> le32_at header 16 \<noteq> slot \<or>
         le32_at header 20 \<noteq> ly_boot_sectors layout \<or> le32_at header 24 \<noteq> rg_header_lba (at2 (ly_slots layout) slot) \<or>
         le32_at header 28 \<noteq> rg_payload_lba (at2 (ly_slots layout) slot) \<or>
         le32_at header 32 \<noteq> rg_payload_capacity_sectors (at2 (ly_slots layout) slot) \<or>
         store_crc32 (take STORE_HEADER_CRC_OFFSET header) \<noteq> le32_at header STORE_HEADER_CRC_OFFSET \<or>
         \<not> store_zero_range header 112 STORE_HEADER_CRC_OFFSET
      then None
      else
        (let t = takeWhile (\<lambda>b. b \<noteq> 0) (take BOOT_SLOT_VERSION_MAX (drop 40 header))
         in if \<not> list_all printable t \<or> length t = 0 \<or> length t \<ge> BOOT_SLOT_VERSION_MAX \<or> \<not> store_zero_range header (40 + length t + 1) 80
            then None
            else
              (let img = \<lparr>im_version = t @ replicate (BOOT_SLOT_VERSION_MAX - length t) 0, im_payload_size = le32_at header 36,
                     im_payload_sha256 = take BOOT_SLOT_SHA256_SIZE (drop 80 header)\<rparr>
               in if \<not> store_image_valid img (rg_payload_capacity_sectors (at2 (ly_slots layout) slot)) then None else Some img)))"

subsection \<open>Opening and binding\<close>

definition plan_is :: "boot_slot_layout \<Rightarrow> bool" where
  "plan_is layout \<longleftrightarrow>
     (case boot_slot_layout_plan (ly_boot_sectors layout) of None \<Rightarrow> False | Some expected \<Rightarrow> store_layout_equal layout expected)"

definition boot_slot_store_internal_open_locked ::
  "nat \<Rightarrow> boot_slot_layout \<Rightarrow> nat option \<Rightarrow> u64 \<Rightarrow> store_state \<Rightarrow> int \<times> store_state" where
  "boot_slot_store_internal_open_locked store layout io lease_epoch s =
     (if bn_active (store_binding s) \<and> bn_owner (store_binding s) = Some store \<and> bp_configured (bsp (st_boot s))
      then (BOOT_SLOT_STORE_ERR_BUSY, s)
      else
        (let s1 = (if bn_active (store_binding s) \<and> bn_owner (store_binding s) = Some store then s\<lparr>store_binding := binding_zero\<rparr> else s)
         in if rn_active (store_registration s1) \<or> store_lease_owner s1 \<noteq> None then (BOOT_SLOT_STORE_ERR_BUSY, s1)
            else
              (let s2 = upd_store store (\<lambda>_. store_zeroed) s1
               in if io = None \<or> lease_epoch = 0 \<or> \<not> plan_is layout then (BOOT_SLOT_STORE_ERR_IO, s2)
                  else (0, upd_store store (\<lambda>o'. o'\<lparr>so_opaque_epoch := lease_epoch\<rparr>)
                          (s2\<lparr>store_registration := \<lparr>rn_owner = Some store, rn_layout = layout, rn_io = io, rn_lease_epoch = lease_epoch,
                                rn_active = True\<rparr>, store_lease_owner := Some store\<rparr>)))))"

text \<open>In the UEFI loader only: a store with callbacks of its own and no lease.\<close>

definition boot_slot_store_init :: "nat \<Rightarrow> boot_slot_layout \<Rightarrow> nat option \<Rightarrow> store_state \<Rightarrow> int \<times> store_state" where
  "boot_slot_store_init store layout io s =
     (let (rc, b) = boot_slot_internal_operation_begin (st_boot s); s1 = s\<lparr>st_boot := b\<rparr>
      in if rc \<noteq> 0 then (BOOT_SLOT_STORE_ERR_BUSY, s1)
         else
           (let (rc, s2) =
              (if bn_active (store_binding s1) \<and> bn_owner (store_binding s1) = Some store \<and> bp_configured (bsp (st_boot s1))
               then (BOOT_SLOT_STORE_ERR_BUSY, s1)
               else if store_lease_owner s1 = Some store \<or> io = None \<or> \<not> plan_is layout then (BOOT_SLOT_STORE_ERR_IO, s1)
               else (0, upd_store store (\<lambda>_. store_zeroed\<lparr>so_test_layout := layout, so_test_io := io, so_test_ready := True\<rparr>)
                      (if bn_active (store_binding s1) \<and> bn_owner (store_binding s1) = Some store
                       then s1\<lparr>store_binding := binding_zero\<rparr> else s1)))
            in (rc, s2\<lparr>st_boot := boot_slot_internal_operation_end (st_boot s2)\<rparr>)))"

definition boot_slot_store_internal_revoke_locked :: "nat \<Rightarrow> u64 \<Rightarrow> store_state \<Rightarrow> int \<times> store_state" where
  "boot_slot_store_internal_revoke_locked store lease_epoch s =
     (if lease_epoch = 0 \<or> store_lease_owner s \<noteq> Some store \<or> \<not> rn_active (store_registration s) \<or>
         rn_owner (store_registration s) \<noteq> Some store \<or> rn_lease_epoch (store_registration s) \<noteq> lease_epoch \<or>
         so_opaque_epoch (st_stores s store) \<noteq> lease_epoch \<or> bp_configured (bsp (st_boot s)) \<or> bp_stage_claimed (bsp (st_boot s))
      then (BOOT_SLOT_STORE_ERR_BUSY, s)
      else
        (let s1 = (if bn_active (store_binding s) \<and> bn_owner (store_binding s) = Some store then s\<lparr>store_binding := binding_zero\<rparr> else s)
         in (0, (upd_store store (\<lambda>_. store_zeroed) (s1\<lparr>store_registration := registration_zero\<rparr>))\<lparr>store_lease_owner := None\<rparr>)))"

definition io_zero :: boot_slot_store_io where
  "io_zero = \<lparr>si_layout = layout_zero, si_io = None, si_lease_epoch = 0, si_provider_backed = False, si_ready = False\<rparr>"

definition store_io_get_locked :: "nat \<Rightarrow> u64 \<Rightarrow> store_state \<Rightarrow> int \<times> boot_slot_store_io" where
  "store_io_get_locked store expected_lease_epoch s =
     (let rg = store_registration s; o' = st_stores s store
      in if rn_active rg \<and> rn_owner rg = Some store then
           (if expected_lease_epoch = 0 \<or> store_lease_owner s \<noteq> Some store \<or> so_opaque_epoch o' \<noteq> expected_lease_epoch \<or>
               expected_lease_epoch \<noteq> rn_lease_epoch rg \<or> bp_lease_owner (bsp (st_boot s)) \<noteq> Some store \<or>
               bp_lease_epoch (bsp (st_boot s)) \<noteq> so_opaque_epoch o'
            then (BOOT_SLOT_STORE_ERR_IO, io_zero)
            else (0, \<lparr>si_layout = rn_layout rg, si_io = rn_io rg, si_lease_epoch = rn_lease_epoch rg, si_provider_backed = True, si_ready = True\<rparr>))
         else if loader_build (st_boot s) \<and> expected_lease_epoch = 0 \<and> so_opaque_epoch o' = 0 \<and> so_test_ready o'
         then (0, io_zero\<lparr>si_layout := so_test_layout o', si_io := so_test_io o', si_ready := True\<rparr>)
         else (BOOT_SLOT_STORE_ERR_IO, io_zero))"

text \<open>\<^verbatim>\<open>store_control_read\<close>, \<^verbatim>\<open>store_control_write\<close> and \<^verbatim>\<open>store_control_flush\<close> with the binding as their context.\<close>

definition store_control_read :: "(nat \<Rightarrow> 'c sector_io) \<Rightarrow> boot_slot_store_binding \<Rightarrow> u32 \<Rightarrow> 'c \<Rightarrow> int \<times> u8 list \<times> 'c" where
  "store_control_read ios b copy_index c =
     (if \<not> bn_active b \<or> copy_index \<ge> BOOT_SLOT_PERSIST_COPY_COUNT then (BOOT_SLOT_STORE_ERR_IO, [], c)
      else sec_read (io_of ios (bn_io b)) (at2 (ly_control_lba (bn_layout b)) copy_index) c)"

definition store_control_write :: "(nat \<Rightarrow> 'c sector_io) \<Rightarrow> boot_slot_store_binding \<Rightarrow> u32 \<Rightarrow> u8 list \<Rightarrow> 'c \<Rightarrow> int \<times> 'c" where
  "store_control_write ios b copy_index r c =
     (if \<not> bn_active b \<or> length r \<noteq> BOOT_SLOT_PERSIST_RECORD_SIZE \<or> copy_index \<ge> BOOT_SLOT_PERSIST_COPY_COUNT then (BOOT_SLOT_STORE_ERR_IO, c)
      else sec_write (io_of ios (bn_io b)) (at2 (ly_control_lba (bn_layout b)) copy_index) r c)"

definition store_control_flush :: "(nat \<Rightarrow> 'c sector_io) \<Rightarrow> boot_slot_store_binding \<Rightarrow> 'c \<Rightarrow> int \<times> 'c" where
  "store_control_flush ios b c = (if bn_active b then sec_flush (io_of ios (bn_io b)) c else (BOOT_SLOT_STORE_ERR_IO, c))"

definition control_io :: "(nat \<Rightarrow> 'c sector_io) \<Rightarrow> boot_slot_store_binding \<Rightarrow> 'c persist_io" where
  "control_io ios b = \<lparr>pr_read = store_control_read ios b, pr_write = store_control_write ios b, pr_flush = store_control_flush ios b\<rparr>"

text \<open>The callbacks that the manager of \<open>s\<close> has stored.\<close>

abbreviation bound_io :: "(nat \<Rightarrow> 'c sector_io) \<Rightarrow> store_state \<Rightarrow> 'c persist_io" where
  "bound_io ios s \<equiv> control_io ios (store_binding s)"

definition boot_slot_store_bind_control ::
  "(nat \<Rightarrow> 'c sector_io) \<Rightarrow> nat \<Rightarrow> u64 \<Rightarrow> store_state \<Rightarrow> 'c \<Rightarrow> int \<times> store_state \<times> 'c" where
  "boot_slot_store_bind_control ios store expected_lease_epoch =
     held BOOT_SLOT_STORE_ERR_BUSY
       (\<lambda>s c. let (rc, io) = store_io_get_locked store expected_lease_epoch s
          in if rc \<noteq> 0 \<or> \<not> si_ready io \<or> bp_configured (bsp (st_boot s)) \<or> store_next_epoch s = 0 \<or>
                store_lease_owner s \<noteq> None \<and> store_lease_owner s \<noteq> Some store
             then (BOOT_SLOT_STORE_ERR_BUSY, s, c)
             else
               (let b = \<lparr>bn_owner = Some store, bn_layout = si_layout io, bn_io = si_io io, bn_epoch = store_next_epoch s,
                      bn_lease_epoch = si_lease_epoch io, bn_provider_backed = si_provider_backed io, bn_active = True\<rparr>;
                    s1 = s\<lparr>store_binding := b, store_next_epoch := store_next_epoch s + 1\<rparr>;
                    t = (if \<not> bsm_initialized (st_boot s1) then boot_slot_internal_init_locked (st_boot s1) else st_boot s1);
                    (rc, t1, c1) = boot_slot_internal_set_persistence_locked (control_io ios b) (bn_layout b) t c
                in if rc = 0 \<or> rc = BOOT_SLOT_PERSIST_EMPTY
                   then (rc, s1\<lparr>st_boot := (upd_bsp (\<lambda>p. p\<lparr>bp_authority_epoch := bn_epoch b\<rparr>) t1)
                          \<lparr>boot_slot_phase := if rc = 0 then BOOT_SLOT_PHASE_BOUND_READY else BOOT_SLOT_PHASE_BOUND_EMPTY\<rparr>\<rparr>, c1)
                   else (rc, s1\<lparr>store_binding := b\<lparr>bn_active := False\<rparr>,
                          st_boot := t1\<lparr>boot_slot_phase := BOOT_SLOT_PHASE_BOUND_UNKNOWN\<rparr>\<rparr>, c1)))"

definition store_binding_matches_io :: "boot_slot_store_binding \<Rightarrow> boot_slot_store_io \<Rightarrow> nat \<Rightarrow> bool" where
  "store_binding_matches_io b io owner \<longleftrightarrow>
     bn_active b \<and> si_ready io \<and> bn_owner b = Some owner \<and> store_layout_equal (bn_layout b) (si_layout io) \<and> bn_io b = si_io io \<and>
     bn_lease_epoch b = si_lease_epoch io \<and> bn_provider_backed b = si_provider_backed io"

definition boot_slot_store_initialize_persistent ::
  "(nat \<Rightarrow> 'c sector_io) \<Rightarrow> nat \<Rightarrow> u64 \<Rightarrow> boot_slot_image \<Rightarrow> store_state \<Rightarrow> 'c \<Rightarrow> int \<times> store_state \<times> 'c" where
  "boot_slot_store_initialize_persistent ios store expected_lease_epoch img =
     held BOOT_SLOT_STORE_ERR_BUSY
       (\<lambda>s c. let (rc, io) = store_io_get_locked store expected_lease_epoch s
          in if rc \<noteq> 0 then (rc, s, c)
             else if \<not> store_binding_matches_io (store_binding s) io store then (BOOT_SLOT_STORE_ERR_STALE, s, c)
             else
               (let (rc, t, c1) = boot_slot_internal_initialize_persistent_locked (bound_io ios s) (si_layout io) img (st_boot s) c
                in (rc, s\<lparr>st_boot := if rc = 0 then t\<lparr>boot_slot_phase := BOOT_SLOT_PHASE_BOUND_READY\<rparr> else t\<rparr>, c1)))"

subsection \<open>Staging\<close>

definition store_slot_equal :: "boot_slot \<Rightarrow> boot_slot \<Rightarrow> bool" where
  "store_slot_equal a b \<longleftrightarrow>
     store_equal (sl_name a) (sl_name b) BOOT_SLOT_NAME_MAX \<and> store_equal (sl_version a) (sl_version b) BOOT_SLOT_VERSION_MAX \<and>
     sl_state a = sl_state b \<and> sl_boot_count a = sl_boot_count b \<and> sl_success_count a = sl_success_count b \<and>
     sl_fail_count a = sl_fail_count b \<and> sl_header_lba a = sl_header_lba b \<and> sl_payload_lba a = sl_payload_lba b \<and>
     sl_payload_capacity_sectors a = sl_payload_capacity_sectors b \<and> sl_payload_size a = sl_payload_size b \<and>
     sl_checksum a = sl_checksum b \<and> store_equal (sl_payload_sha256 a) (sl_payload_sha256 b) BOOT_SLOT_SHA256_SIZE \<and>
     sl_health_confirmed a = sl_health_confirmed b"

definition store_manager_equal :: "boot_slot_manager \<Rightarrow> boot_slot_manager \<Rightarrow> bool" where
  "store_manager_equal a b \<longleftrightarrow>
     mg_active_slot a = mg_active_slot b \<and> mg_next_slot a = mg_next_slot b \<and> mg_rollback_pending a = mg_rollback_pending b \<and>
     mg_confirmed_slot a = mg_confirmed_slot b \<and> mg_pending_slot a = mg_pending_slot b \<and>
     mg_tries_remaining a = mg_tries_remaining b \<and> mg_boot_sectors a = mg_boot_sectors b \<and>
     at2 (mg_control_lba a) 0 = at2 (mg_control_lba b) 0 \<and> at2 (mg_control_lba a) 1 = at2 (mg_control_lba b) 1 \<and>
     store_slot_equal (slot_at a 0) (slot_at b 0) \<and> store_slot_equal (slot_at a 1) (slot_at b 1)"

text \<open>The block buffer of a hash context starts uninitialised; digests do not depend on it (\<open>Sha256\<close>), so it is taken to be zero.\<close>

abbreviation sha_junk :: "u8 list" where "sha_junk \<equiv> replicate SHA256_BLOCK_SIZE 0"

definition store_stage_preflight :: "boot_slot_store_binding \<Rightarrow> u32 \<Rightarrow> boot_slot_image \<Rightarrow> u8 list \<Rightarrow> int" where
  "store_stage_preflight b slot img payload =
     (if \<not> bn_active b \<or> slot \<ge> BOOT_SLOT_COUNT \<or> length payload \<noteq> unat (im_payload_size img) \<or>
         \<not> store_image_valid img (rg_payload_capacity_sectors (at2 (ly_slots (bn_layout b)) slot))
      then BOOT_SLOT_STORE_ERR_IO
      else if store_equal (sha256_hash sha_junk payload) (im_payload_sha256 img) SHA256_DIGEST_SIZE then 0 else BOOT_SLOT_STORE_ERR_VERIFY)"

text \<open>The manager while \<open>slot\<close> is being filled: it cannot be booted.\<close>

definition staged_manager :: "u32 \<Rightarrow> boot_slot_image \<Rightarrow> boot_slot_manager \<Rightarrow> boot_slot_manager" where
  "staged_manager slot img m =
     (upd_slot slot (\<lambda>sl. bs_slot_apply_image sl slot img BOOT_SLOT_FAILED) m)\<lparr>mg_next_slot := mg_confirmed_slot m\<rparr>"

definition published_manager :: "u32 \<Rightarrow> boot_slot_image \<Rightarrow> boot_slot_manager \<Rightarrow> boot_slot_manager" where
  "published_manager slot img m =
     (upd_slot slot (\<lambda>sl. bs_slot_apply_image sl slot img BOOT_SLOT_VALID) m)\<lparr>mg_next_slot := slot\<rparr>"

text \<open>What the manager becomes when a record may or may not have been written.\<close>

definition lost_track :: "int \<Rightarrow> boot_state \<Rightarrow> boot_state" where
  "lost_track rc b =
     upd_bsp (\<lambda>p. p\<lparr>bp_stage_claimed := False\<rparr>)
       (if rc = BOOT_SLOT_ERR_COMMIT_UNKNOWN then (upd_bsp (\<lambda>p. p\<lparr>bp_ready := False\<rparr>) b)\<lparr>boot_slot_phase := BOOT_SLOT_PHASE_BOUND_UNKNOWN\<rparr> else b)"

definition store_stage_authorize ::
  "(nat \<Rightarrow> 'c sector_io) \<Rightarrow> boot_slot_snapshot \<Rightarrow> u32 \<Rightarrow> boot_slot_image \<Rightarrow> store_state \<Rightarrow> 'c \<Rightarrow>
   int \<times> boot_slot_stage_authorization option \<times> store_state \<times> 'c" where
  "store_stage_authorize ios expected slot img s c =
     (let b = st_boot s; p = bsp b; m = bsm b; bind' = store_binding s
      in if \<not> boot_slot_internal_persistence_ready_locked b \<or> sn_version expected \<noteq> BOOT_SLOT_SNAPSHOT_VERSION \<or>
            sn_size expected \<noteq> SNAPSHOT_SIZE \<or> bp_degraded p \<or> sn_generation expected \<noteq> bp_generation p \<or>
            sn_authority_epoch expected \<noteq> bp_authority_epoch p \<or> sn_authority_epoch expected \<noteq> bn_epoch bind' \<or>
            sn_lease_epoch expected \<noteq> bp_lease_epoch p \<or> sn_lease_epoch expected \<noteq> bn_lease_epoch bind' \<or>
            \<not> store_manager_equal (sn_manager expected) m \<or> \<not> bn_active bind' \<or> slot \<ge> BOOT_SLOT_COUNT \<or>
            slot = mg_active_slot m \<or> slot = mg_confirmed_slot m \<or> mg_pending_slot m \<noteq> BOOT_SLOT_NONE \<or> mg_rollback_pending m \<or>
            sl_state (slot_at m slot) = BOOT_SLOT_ACTIVE \<or> sl_state (slot_at m slot) = BOOT_SLOT_ROLLBACK \<or>
            \<not> bs_image_valid img (sl_payload_capacity_sectors (slot_at m slot)) \<or> bp_generation p > UINT64_MAX - 3
         then (BOOT_SLOT_STORE_ERR_STALE, None, s, c)
         else if bp_stage_claimed p then (BOOT_SLOT_STORE_ERR_BUSY, None, s, c)
         else
           (let b1 = upd_bsp (\<lambda>p. p\<lparr>bp_stage_claimed := True\<rparr>) b; candidate = staged_manager slot img m;
                (rc1, c1) = bs_write_verified (bound_io ios s) candidate (bp_active_copy p XOR 1) (bp_generation p + 1) b1 c;
                (rc, c2) = (if rc1 = 0 then bs_write_verified (bound_io ios s) candidate (bp_active_copy p) (bp_generation p + 2) b1 c1 else (rc1, c1))
            in if rc \<noteq> 0
               then (if rc = BOOT_SLOT_ERR_COMMIT_UNKNOWN then BOOT_SLOT_STORE_ERR_COMMIT_UNKNOWN else BOOT_SLOT_STORE_ERR_IO, None,
                     s\<lparr>st_boot := lost_track rc b1\<rparr>, c2)
               else (0, Some \<lparr>au_generation = bp_generation p + 2, au_authority_epoch = bp_authority_epoch p, au_lease_epoch = bp_lease_epoch p, au_slot = slot\<rparr>,
                     s\<lparr>st_boot := upd_bsp (\<lambda>p. p\<lparr>bp_generation := bp_generation p + 2\<rparr>) (b1\<lparr>bsm := candidate\<rparr>)\<rparr>, c2)))"

definition store_stage_publish ::
  "(nat \<Rightarrow> 'c sector_io) \<Rightarrow> boot_slot_stage_authorization \<Rightarrow> boot_slot_image \<Rightarrow> store_state \<Rightarrow> 'c \<Rightarrow> int \<times> u64 \<times> store_state \<times> 'c" where
  "store_stage_publish ios auth img s c =
     (let b = st_boot s; p = bsp b; m = bsm b; bind' = store_binding s
      in if \<not> bp_stage_claimed p \<or> \<not> boot_slot_internal_persistence_ready_locked b \<or> au_slot auth \<ge> BOOT_SLOT_COUNT \<or>
            au_generation auth \<noteq> bp_generation p \<or> au_authority_epoch auth \<noteq> bp_authority_epoch p \<or>
            au_authority_epoch auth \<noteq> bn_epoch bind' \<or> au_lease_epoch auth \<noteq> bp_lease_epoch p \<or> au_lease_epoch auth \<noteq> bn_lease_epoch bind' \<or>
            \<not> bn_active bind' \<or> \<not> store_equal (sl_version (slot_at m (au_slot auth))) (im_version img) BOOT_SLOT_VERSION_MAX \<or>
            sl_state (slot_at m (au_slot auth)) \<noteq> BOOT_SLOT_FAILED \<or> sl_payload_size (slot_at m (au_slot auth)) \<noteq> im_payload_size img \<or>
            \<not> store_equal (sl_payload_sha256 (slot_at m (au_slot auth))) (im_payload_sha256 img) BOOT_SLOT_SHA256_SIZE \<or>
            bp_generation p = UINT64_MAX
         then (BOOT_SLOT_STORE_ERR_STALE, 0, s\<lparr>st_boot := upd_bsp (\<lambda>p. p\<lparr>bp_stage_claimed := False\<rparr>) b\<rparr>, c)
         else
           (let candidate = published_manager (au_slot auth) img m; target_copy = bp_active_copy p XOR 1; generation = bp_generation p + 1;
                (rc, c1) = bs_write_verified (bound_io ios s) candidate target_copy generation b c
            in if rc \<noteq> 0
               then (if rc = BOOT_SLOT_ERR_COMMIT_UNKNOWN then BOOT_SLOT_STORE_ERR_COMMIT_UNKNOWN else BOOT_SLOT_STORE_ERR_IO, 0,
                     s\<lparr>st_boot := lost_track rc b\<rparr>, c1)
               else (0, generation, s\<lparr>st_boot := upd_bsp (\<lambda>p. p\<lparr>bp_active_copy := target_copy, bp_generation := generation,
                       bp_stage_claimed := False\<rparr>) (b\<lparr>bsm := candidate\<rparr>)\<rparr>, c1)))"

definition chunk_at :: "u8 list \<Rightarrow> nat \<Rightarrow> u8 list" where
  "chunk_at payload i = take BOOT_SLOT_STORE_SECTOR_SIZE (drop (i * BOOT_SLOT_STORE_SECTOR_SIZE) payload)"

text \<open>The loop that writes sectors \<open>i\<close> to \<open>n\<close>: \<open>True\<close> if all were written.\<close>

fun write_payload :: "'c sector_io \<Rightarrow> u32 \<Rightarrow> u8 list \<Rightarrow> nat list \<Rightarrow> 'c \<Rightarrow> bool \<times> 'c" where
  "write_payload io lba payload [] c = (True, c)"
| "write_payload io lba payload (i # is) c =
     (let chunk = chunk_at payload i;
          (rc, c1) = sec_write io (lba + of_nat i) (chunk @ replicate (BOOT_SLOT_STORE_SECTOR_SIZE - length chunk) 0) c
      in if rc \<noteq> 0 then (False, c1) else write_payload io lba payload is c1)"

text \<open>The loop that reads the sectors back into the hash; \<open>None\<close> if a read fails or the padding is not zero.\<close>

fun hash_payload :: "'c sector_io \<Rightarrow> u32 \<Rightarrow> nat \<Rightarrow> nat list \<Rightarrow> sha256_ctx \<Rightarrow> 'c \<Rightarrow> sha256_ctx option \<times> 'c" where
  "hash_payload io lba payload_len [] ctx c = (Some ctx, c)"
| "hash_payload io lba payload_len (i # is) ctx c =
     (let chunk = (if payload_len - i * BOOT_SLOT_STORE_SECTOR_SIZE > BOOT_SLOT_STORE_SECTOR_SIZE then BOOT_SLOT_STORE_SECTOR_SIZE
            else payload_len - i * BOOT_SLOT_STORE_SECTOR_SIZE);
          (rc, sector, c1) = sec_read io (lba + of_nat i) c
      in if rc \<noteq> 0 then (None, c1)
         else if chunk < BOOT_SLOT_STORE_SECTOR_SIZE \<and> \<not> store_zero_range sector chunk BOOT_SLOT_STORE_SECTOR_SIZE then (None, c1)
         else hash_payload io lba payload_len is (sha256_update ctx (take chunk sector)) c1)"

definition store_stage_payload ::
  "(nat \<Rightarrow> 'c sector_io) \<Rightarrow> boot_slot_store_binding \<Rightarrow> boot_slot_manager \<Rightarrow> u32 \<Rightarrow> boot_slot_image \<Rightarrow> u8 list \<Rightarrow> 'c \<Rightarrow> int \<times> 'c" where
  "store_stage_payload ios b m slot img payload c =
     (let io = io_of ios (bn_io b); layout = bn_layout b; rg = at2 (ly_slots layout) slot;
          sectors = im_payload_size img div of_nat BOOT_SLOT_STORE_SECTOR_SIZE +
            (if im_payload_size img mod of_nat BOOT_SLOT_STORE_SECTOR_SIZE \<noteq> 0 then 1 else 0);
          is = [0..<unat sectors]
      in if \<not> bn_active b \<or> slot \<ge> BOOT_SLOT_COUNT \<or> slot = mg_active_slot m \<or> slot = mg_confirmed_slot m \<or>
            sl_state (slot_at m slot) \<noteq> BOOT_SLOT_EMPTY \<and> sl_state (slot_at m slot) \<noteq> BOOT_SLOT_FAILED \<or>
            mg_pending_slot m \<noteq> BOOT_SLOT_NONE \<or> \<not> store_manager_matches m layout \<or> length payload \<noteq> unat (im_payload_size img) \<or>
            \<not> store_image_valid img (rg_payload_capacity_sectors rg)
         then (BOOT_SLOT_STORE_ERR_IO, c)
         else if \<not> store_equal (sha256_hash sha_junk payload) (im_payload_sha256 img) BOOT_SLOT_SHA256_SIZE then (BOOT_SLOT_STORE_ERR_VERIFY, c)
         else if sectors = 0 \<or> sectors > rg_payload_capacity_sectors rg then (BOOT_SLOT_STORE_ERR_IO, c)
         else
           case write_payload io (rg_payload_lba rg) payload is c of
             (False, c1) \<Rightarrow> (BOOT_SLOT_STORE_ERR_COMMIT_UNKNOWN, c1)
           | (True, c1) \<Rightarrow>
               (let (rc, c2) = sec_flush io c1
                in if rc \<noteq> 0 then (BOOT_SLOT_STORE_ERR_COMMIT_UNKNOWN, c2)
                   else
                     case hash_payload io (rg_payload_lba rg) (length payload) is (sha256_fresh sha_junk) c2 of
                       (None, c3) \<Rightarrow> (BOOT_SLOT_STORE_ERR_VERIFY, c3)
                     | (Some ctx, c3) \<Rightarrow>
                         if \<not> store_equal (snd (sha256_final ctx)) (im_payload_sha256 img) BOOT_SLOT_SHA256_SIZE then (BOOT_SLOT_STORE_ERR_VERIFY, c3)
                         else
                           (let (rc4, c4) = sec_write io (rg_header_lba rg) (store_encode_header layout slot img) c3
                            in if rc4 \<noteq> 0 then (BOOT_SLOT_STORE_ERR_COMMIT_UNKNOWN, c4)
                               else
                                 (let (rc5, c5) = sec_flush io c4
                                  in if rc5 \<noteq> 0 then (BOOT_SLOT_STORE_ERR_COMMIT_UNKNOWN, c5)
                                     else
                                       (let (rc6, sector, c6) = sec_read io (rg_header_lba rg) c5
                                        in if rc6 \<noteq> 0 then (BOOT_SLOT_STORE_ERR_COMMIT_UNKNOWN, c6)
                                           else
                                             case store_decode_header layout slot sector of
                                               None \<Rightarrow> (BOOT_SLOT_STORE_ERR_COMMIT_UNKNOWN, c6)
                                             | Some decoded \<Rightarrow>
                                                 (if im_payload_size decoded \<noteq> im_payload_size img \<or>
                                                     \<not> store_string_equal (im_version decoded) (im_version img) \<or>
                                                     \<not> store_equal (im_payload_sha256 decoded) (im_payload_sha256 img) BOOT_SLOT_SHA256_SIZE
                                                  then BOOT_SLOT_STORE_ERR_COMMIT_UNKNOWN else 0, c6))))))"

subsection \<open>Operations on a bound store\<close>

definition boot_slot_store_confirm_health ::
  "(nat \<Rightarrow> 'c sector_io) \<Rightarrow> nat \<Rightarrow> u64 \<Rightarrow> u32 \<Rightarrow> u64 \<Rightarrow> store_state \<Rightarrow> 'c \<Rightarrow> int \<times> store_state \<times> 'c" where
  "boot_slot_store_confirm_health ios store expected_lease_epoch slot generation =
     held BOOT_SLOT_STORE_ERR_BUSY
       (\<lambda>s c. let (rc, io) = store_io_get_locked store expected_lease_epoch s
          in if rc \<noteq> 0 \<or> \<not> store_binding_matches_io (store_binding s) io store \<or> \<not> si_provider_backed io \<or> generation = 0
             then (BOOT_SLOT_STORE_ERR_STALE, s, c)
             else
               (let (rc, b, c1) = boot_slot_internal_confirm_verified_locked (bound_io ios s) slot generation
                      (bn_epoch (store_binding s)) expected_lease_epoch (st_boot s) c
                in (rc, s\<lparr>st_boot := b\<rparr>, c1)))"

definition boot_slot_store_arm ::
  "(nat \<Rightarrow> 'c sector_io) \<Rightarrow> nat \<Rightarrow> u64 \<Rightarrow> u32 \<Rightarrow> u64 \<Rightarrow> store_state \<Rightarrow> 'c \<Rightarrow> (int \<times> u64) \<times> store_state \<times> 'c" where
  "boot_slot_store_arm ios store expected_lease_epoch slot expected_generation =
     held (BOOT_SLOT_STORE_ERR_BUSY, 0)
       (\<lambda>s c. let (rc, io) = store_io_get_locked store expected_lease_epoch s
          in if rc \<noteq> 0 \<or> expected_generation = 0 \<or> bp_stage_claimed (bsp (st_boot s)) \<or> bp_degraded (bsp (st_boot s)) \<or>
                \<not> si_provider_backed io \<or> \<not> store_binding_matches_io (store_binding s) io store
             then ((BOOT_SLOT_STORE_ERR_STALE, 0), s, c)
             else
               (let (rc, g, b, c1) = boot_slot_internal_arm_provider_locked (bound_io ios s) slot expected_generation (st_boot s) c
                in ((if rc = BOOT_SLOT_ERR_COMMIT_UNKNOWN then BOOT_SLOT_STORE_ERR_COMMIT_UNKNOWN
                     else if rc \<noteq> 0 then BOOT_SLOT_STORE_ERR_STALE else rc, g), s\<lparr>st_boot := b\<rparr>, c1)))"

definition release_claim :: "store_state \<Rightarrow> store_state" where
  "release_claim s = s\<lparr>st_boot := upd_bsp (\<lambda>p. p\<lparr>bp_stage_claimed := False\<rparr>) (st_boot s)\<rparr>"

definition boot_slot_store_stage_inactive_authorized ::
  "(nat \<Rightarrow> 'c sector_io) \<Rightarrow> nat \<Rightarrow> u64 \<Rightarrow> boot_slot_snapshot \<Rightarrow> u32 \<Rightarrow> boot_slot_image \<Rightarrow> u8 list \<Rightarrow> store_state \<Rightarrow> 'c \<Rightarrow>
   (int \<times> u64) \<times> store_state \<times> 'c" where
  "boot_slot_store_stage_inactive_authorized ios store expected_lease_epoch expected slot img payload =
     held (BOOT_SLOT_STORE_ERR_BUSY, 0)
       (\<lambda>s c. let (rc, io) = store_io_get_locked store expected_lease_epoch s;
                  rc0 = (if rc \<noteq> 0 \<or> \<not> store_binding_matches_io (store_binding s) io store \<or>
                            sn_authority_epoch expected \<noteq> bn_epoch (store_binding s) \<or> sn_lease_epoch expected \<noteq> expected_lease_epoch
                         then BOOT_SLOT_STORE_ERR_STALE else store_stage_preflight (store_binding s) slot img payload)
          in if rc0 \<noteq> 0 then ((rc0, 0), release_claim s, c)
             else
               case store_stage_authorize ios expected slot img s c of
                 (rc1, None, s1, c1) \<Rightarrow> ((rc1, 0), release_claim s1, c1)
               | (rc1, Some auth, s1, c1) \<Rightarrow>
                   (let (rc2, c2) = store_stage_payload ios (store_binding s1) (bsm (st_boot s1)) slot img payload c1
                    in if rc2 \<noteq> 0 then ((rc2, 0), release_claim s1, c2)
                       else
                         (let (rc3, g, s3, c3) = store_stage_publish ios auth img s1 c2
                          in ((rc3, g), if rc3 \<noteq> 0 then release_claim s3 else s3, c3))))"

text \<open>In the UEFI loader only.\<close>

definition boot_slot_store_encode_header :: "boot_slot_layout \<Rightarrow> u32 \<Rightarrow> boot_slot_image \<Rightarrow> int \<times> u8 list option" where
  "boot_slot_store_encode_header layout slot img =
     (if slot \<ge> BOOT_SLOT_COUNT \<or> \<not> store_image_valid img (rg_payload_capacity_sectors (at2 (ly_slots layout) slot))
      then (BOOT_SLOT_STORE_ERR_IO, None) else (0, Some (store_encode_header layout slot img)))"

definition boot_slot_store_read_header ::
  "(nat \<Rightarrow> 'c sector_io) \<Rightarrow> nat \<Rightarrow> u64 \<Rightarrow> u32 \<Rightarrow> store_state \<Rightarrow> 'c \<Rightarrow> (int \<times> boot_slot_image option) \<times> store_state \<times> 'c" where
  "boot_slot_store_read_header ios store expected_lease_epoch slot =
     held (BOOT_SLOT_STORE_ERR_BUSY, None)
       (\<lambda>s c. let (rc, io) = store_io_get_locked store expected_lease_epoch s
          in if rc \<noteq> 0 \<or> slot \<ge> BOOT_SLOT_COUNT then ((BOOT_SLOT_STORE_ERR_IO, None), s, c)
             else
               (let (rc, sector, c1) = sec_read (io_of ios (si_io io)) (rg_header_lba (at2 (ly_slots (si_layout io)) slot)) c
                in if rc \<noteq> 0 then ((BOOT_SLOT_STORE_ERR_IO, None), s, c1)
                   else
                     case store_decode_header (si_layout io) slot sector of
                       None \<Rightarrow> ((BOOT_SLOT_STORE_ERR_VERIFY, None), s, c1)
                     | Some img \<Rightarrow> ((0, Some img), s, c1)))"

end
