(* ===== verification/BootRecord.thy ===== *)
theory BootRecord
  imports BootStore
begin

text \<open>
  The on-disk formats of the boot slots: the plan of the boot partition never lets two regions overlap, and control records and slot
  headers can be read back.
\<close>

subsection \<open>Comparisons\<close>

lemma bs_bytes_equal_iff: "bs_bytes_equal a b n \<longleftrightarrow> (\<forall>i<n. a ! i = b ! i)"
  by (simp add: bs_bytes_equal_def diff_fold_zero)

lemma store_equal_iff: "store_equal a b n \<longleftrightarrow> (\<forall>i<n. a ! i = b ! i)"
  by (simp add: store_equal_def diff_fold_zero)

lemma bs_bytes_equal_lists: "length a = n \<Longrightarrow> length b = n \<Longrightarrow> bs_bytes_equal a b n \<longleftrightarrow> a = b"
  by (auto simp: bs_bytes_equal_iff list_eq_iff_nth_eq)

lemma store_equal_lists: "length a = n \<Longrightarrow> length b = n \<Longrightarrow> store_equal a b n \<longleftrightarrow> a = b"
  by (auto simp: store_equal_iff list_eq_iff_nth_eq)

lemma digest_present_iff: "bs_digest_present d \<longleftrightarrow> (\<exists>x\<in>set (take BOOT_SLOT_SHA256_SIZE d). x \<noteq> 0)"
  by (auto simp: bs_digest_present_def or_list_zero)

lemma store_digest_present_eq [simp]: "store_digest_present = bs_digest_present"
  by (rule ext) (simp add: store_digest_present_def bs_digest_present_def)

lemma region_equal_iff [simp]: "region_equal a b \<longleftrightarrow> a = b"
  by (cases a; cases b) (auto simp: region_equal_def)

lemma at2_simps [simp]: "at2 (a, b) 0 = a" "at2 (a, b) 1 = b" "i \<noteq> 0 \<Longrightarrow> at2 (a, b) i = b"
  by (simp_all add: at2_def)

lemma two_eq_iff: "p = q \<longleftrightarrow> at2 p 0 = at2 q 0 \<and> at2 p 1 = at2 q 1" for p q :: "'a two"
  by (cases p; cases q) simp

lemma bs_layout_equal_iff [simp]: "bs_layout_equal a b \<longleftrightarrow> a = b"
  unfolding bs_layout_equal_def region_equal_iff
  by (cases a; cases b) (auto simp: two_eq_iff)

lemma store_layout_equal_iff [simp]: "store_layout_equal a b \<longleftrightarrow> a = b"
  unfolding store_layout_equal_def region_equal_iff
  by (cases a; cases b) (auto simp: two_eq_iff)

lemma matches_layout_iff: "bs_manager_matches_layout m layout \<longleftrightarrow> manager_layout m = layout"
  unfolding bs_manager_matches_layout_def manager_layout_def region_equal_iff
  by (cases layout) (auto simp: two_eq_iff)

subsection \<open>The plan of the boot partition\<close>

text \<open>The sectors of a slot: its header and its payload.\<close>

definition slot_sectors :: "boot_slot_layout \<Rightarrow> u32 \<Rightarrow> nat set" where
  "slot_sectors layout i =
     insert (unat (rg_header_lba (at2 (ly_slots layout) i)))
       {unat (rg_payload_lba (at2 (ly_slots layout) i)) ..< unat (rg_payload_lba (at2 (ly_slots layout) i)) +
          unat (rg_payload_capacity_sectors (at2 (ly_slots layout) i))}"

definition control_sectors :: "boot_slot_layout \<Rightarrow> nat set" where
  "control_sectors layout = {unat (at2 (ly_control_lba layout) 0), unat (at2 (ly_control_lba layout) 1)}"

lemma plan_values:
  assumes "boot_slot_layout_plan n = Some layout"
  shows "6 \<le> unat n" and "ly_boot_sectors layout = n"
    and "unat (rg_header_lba (at2 (ly_slots layout) 0)) = 0" and "unat (rg_payload_lba (at2 (ly_slots layout) 0)) = 1"
    and "unat (rg_payload_capacity_sectors (at2 (ly_slots layout) 0)) = (unat n - 2) div 2 - 1"
    and "unat (rg_header_lba (at2 (ly_slots layout) 1)) = (unat n - 2) div 2"
    and "unat (rg_payload_lba (at2 (ly_slots layout) 1)) = (unat n - 2) div 2 + 1"
    and "unat (rg_payload_capacity_sectors (at2 (ly_slots layout) 1)) = unat n - 2 - (unat n - 2) div 2 - 1"
    and "unat (at2 (ly_control_lba layout) 0) = unat n - 2" and "unat (at2 (ly_control_lba layout) 1) = unat n - 1"
proof -
  have n: "6 \<le> unat n" using assms by (auto simp: boot_slot_layout_plan_def word_less_nat_alt split: if_splits)
  then show "6 \<le> unat n" .
  have lt: "unat n < 2 ^ 32" using unsigned_less [of n] by simp
  have u: "unat (n - 2) = unat n - 2" "unat (n - 1) = unat n - 1" using n by (simp_all add: unat_sub word_le_nat_alt)
  have d: "unat ((n - 2) div 2) = (unat n - 2) div 2" by (simp add: unat_div u)
  have s: "unat (n - 2 - (n - 2) div 2) = unat n - 2 - (unat n - 2) div 2"
    using d u by (simp add: unat_sub word_le_nat_alt)
  have p: "unat ((n - 2) div 2 - 1) = (unat n - 2) div 2 - 1" "unat ((n - 2) div 2 + 1) = (unat n - 2) div 2 + 1"
    "unat (n - 2 - (n - 2) div 2 - 1) = unat n - 2 - (unat n - 2) div 2 - 1"
    using n lt d s by (simp_all add: unat_sub word_le_nat_alt unat_word_ariths)
  have layout: "layout = \<lparr>ly_boot_sectors = n,
      ly_slots = (\<lparr>rg_header_lba = 0, rg_payload_lba = 1, rg_payload_capacity_sectors = (n - 2) div 2 - 1\<rparr>,
        \<lparr>rg_header_lba = (n - 2) div 2, rg_payload_lba = (n - 2) div 2 + 1, rg_payload_capacity_sectors = n - 2 - (n - 2) div 2 - 1\<rparr>),
      ly_control_lba = (n - 2, n - 1)\<rparr>"
    using assms by (simp add: boot_slot_layout_plan_def Let_def BOOT_SLOT_PERSIST_COPY_COUNT_def BOOT_SLOT_COUNT_def split: if_splits)
  show "ly_boot_sectors layout = n"
    "unat (rg_header_lba (at2 (ly_slots layout) 0)) = 0" "unat (rg_payload_lba (at2 (ly_slots layout) 0)) = 1"
    "unat (rg_payload_capacity_sectors (at2 (ly_slots layout) 0)) = (unat n - 2) div 2 - 1"
    "unat (rg_header_lba (at2 (ly_slots layout) 1)) = (unat n - 2) div 2"
    "unat (rg_payload_lba (at2 (ly_slots layout) 1)) = (unat n - 2) div 2 + 1"
    "unat (rg_payload_capacity_sectors (at2 (ly_slots layout) 1)) = unat n - 2 - (unat n - 2) div 2 - 1"
    "unat (at2 (ly_control_lba layout) 0) = unat n - 2" "unat (at2 (ly_control_lba layout) 1) = unat n - 1"
    using p d u by (simp_all add: layout)
qed

lemma plan_disjoint:
  assumes "boot_slot_layout_plan n = Some layout"
  shows "slot_sectors layout 0 \<inter> slot_sectors layout 1 = {}" "slot_sectors layout 0 \<inter> control_sectors layout = {}"
    "slot_sectors layout 1 \<inter> control_sectors layout = {}" "at2 (ly_control_lba layout) 0 \<noteq> at2 (ly_control_lba layout) 1"
    "slot_sectors layout 0 \<union> slot_sectors layout 1 \<union> control_sectors layout = {..<unat n}"
proof -
  note v = plan_values [OF assms]
  have half: "2 \<le> (unat n - 2) div 2" "(unat n - 2) div 2 + 2 \<le> unat n - 2" using v(1) by linarith+
  have s0: "slot_sectors layout 0 = {..<(unat n - 2) div 2}"
    using half by (auto simp: slot_sectors_def v)
  have s1: "slot_sectors layout 1 = {(unat n - 2) div 2..<unat n - 2}"
    using half by (auto simp: slot_sectors_def v)
  have c: "control_sectors layout = {unat n - 2..<unat n}" using v(1) by (auto simp: control_sectors_def v(9,10))
  show "slot_sectors layout 0 \<inter> slot_sectors layout 1 = {}" "slot_sectors layout 0 \<inter> control_sectors layout = {}"
    "slot_sectors layout 1 \<inter> control_sectors layout = {}"
    "slot_sectors layout 0 \<union> slot_sectors layout 1 \<union> control_sectors layout = {..<unat n}"
    unfolding s0 s1 c using v(1) half by auto
  show "at2 (ly_control_lba layout) 0 \<noteq> at2 (ly_control_lba layout) 1"
  proof
    assume "at2 (ly_control_lba layout) 0 = at2 (ly_control_lba layout) 1"
    then have "unat n - 2 = unat n - 1" using v(9,10) by simp
    then show False using v(1) by simp
  qed
qed

subsection \<open>One slot of a record\<close>

text \<open>Character arrays that hold a string of at most 39 characters, padded with zeros, and a digest of 32 bytes.\<close>

definition version_padded :: "u8 list \<Rightarrow> bool" where
  "version_padded v \<longleftrightarrow> v = bs_strcpy v BOOT_SLOT_VERSION_MAX"

definition slot_wf :: "u32 \<Rightarrow> boot_slot \<Rightarrow> bool" where
  "slot_wf i sl \<longleftrightarrow> sl_name sl = slot_letter i \<and> version_padded (sl_version sl) \<and> length (sl_payload_sha256 sl) = BOOT_SLOT_SHA256_SIZE"

definition manager_wf :: "boot_slot_manager \<Rightarrow> bool" where
  "manager_wf m \<longleftrightarrow> slot_wf 0 (slot_at m 0) \<and> slot_wf 1 (slot_at m 1)"

definition c_text :: "u8 list \<Rightarrow> u8 list" where
  "c_text v = take (BOOT_SLOT_VERSION_MAX - 1) (takeWhile (\<lambda>b. b \<noteq> 0) v)"

lemma c_text_length: "length (c_text v) \<le> 39"
  by (simp add: c_text_def BOOT_SLOT_VERSION_MAX_def)

lemma c_text_nonzero: "x \<in> set (c_text v) \<Longrightarrow> x \<noteq> 0"
  unfolding c_text_def using set_takeWhileD [of x "\<lambda>b. b \<noteq> 0" v] in_set_takeD by metis

lemma paddedE:
  assumes "version_padded v"
  shows "v = c_text v @ replicate (40 - length (c_text v)) 0"
  using assms by (simp add: version_padded_def bs_strcpy_def c_text_def Let_def BOOT_SLOT_VERSION_MAX_def)

lemma padded_length: "version_padded v \<Longrightarrow> length v = 40"
proof -
  assume p: "version_padded v"
  have "length v = length (c_text v @ replicate (40 - length (c_text v)) 0)" by (rule arg_cong [OF paddedE [OF p]])
  then show ?thesis using c_text_length [of v] by simp
qed

lemma takeWhile_padded: "\<forall>x\<in>set t. x \<noteq> 0 \<Longrightarrow> takeWhile (\<lambda>b. b \<noteq> 0) (t @ replicate k (0::u8)) = t"
  by (cases k) (simp_all add: takeWhile_append2 takeWhile_tail)

lemma bs_strcpy_padded [simp]: "version_padded (bs_strcpy v BOOT_SLOT_VERSION_MAX)"
proof -
  have e: "bs_strcpy v 40 = c_text v @ replicate (40 - length (c_text v)) 0"
    by (simp add: bs_strcpy_def c_text_def Let_def BOOT_SLOT_VERSION_MAX_def)
  have tw: "takeWhile (\<lambda>b. b \<noteq> 0) (bs_strcpy v 40) = c_text v"
    unfolding e by (rule takeWhile_padded) (use c_text_nonzero in blast)
  have "bs_strcpy (bs_strcpy v 40) 40 = bs_strcpy v 40"
    unfolding bs_strcpy_def [of "bs_strcpy v 40" 40] Let_def tw using c_text_length [of v] by (simp add: e)
  then show ?thesis by (simp add: version_padded_def BOOT_SLOT_VERSION_MAX_def)
qed

lemma decode_version_padded:
  assumes "version_padded v" and "list_all printable (c_text v)"
  shows "bs_decode_version (v @ rest) = Some v"
proof -
  let ?t = "c_text v"
  have v: "v = ?t @ replicate (40 - length ?t) 0" by (rule paddedE [OF assms(1)])
  have l: "length ?t < 40" "length v = 40" using c_text_length [of v] padded_length [OF assms(1)] by simp_all
  have tw: "takeWhile (\<lambda>b. b \<noteq> 0) v = ?t" using takeWhile_padded [of ?t] c_text_nonzero v by metis
  have d: "drop (Suc (length ?t)) v = replicate (40 - Suc (length ?t)) 0" by (subst v) simp
  show ?thesis
    unfolding bs_decode_version_def BOOT_SLOT_VERSION_MAX_def
    using l tw d v assms(2) by (simp add: Let_def list_all_iff)
qed

definition slot_numbers :: "boot_slot \<Rightarrow> u8 list" where
  "slot_numbers sl =
     le32 (state_code (sl_state sl)) @ le32 (sl_boot_count sl) @ le32 (sl_success_count sl) @ le32 (sl_fail_count sl) @
     le32 (sl_header_lba sl) @ le32 (sl_payload_lba sl) @ le32 (sl_payload_capacity_sectors sl) @ le32 (sl_payload_size sl) @
     le32 (sl_checksum sl) @ le32 (if sl_health_confirmed sl then 1 else 0) @ c_text (sl_version sl)"

lemma slot_numbers_length: "length (slot_numbers sl) = 40 + length (c_text (sl_version sl))"
  by (simp add: slot_numbers_def)

lemma encode_slot_puts:
  assumes "off + 112 \<le> length r"
  shows "bs_encode_slot off sl r =
    put_at (off + 80) (take BOOT_SLOT_SHA256_SIZE (sl_payload_sha256 sl)) (put_at off (slot_numbers sl) r)"
  unfolding bs_encode_slot_def Let_def c_text_def [symmetric] slot_numbers_def
  using assms c_text_length [of "sl_version sl"] by (simp add: put_at_append)

text \<open>The decoder reads nothing outside the 128 bytes of the slot.\<close>

lemma decode_slot_local:
  assumes "\<forall>i. off \<le> i \<and> i < off + 128 \<longrightarrow> a ! i = b ! i" and "off + 128 \<le> length a" and "off + 128 \<le> length b"
    and "off + 128 \<le> 512"
  shows "bs_decode_slot a off sl = bs_decode_slot b off sl"
proof -
  have w: "le32_at a (off + k) = le32_at b (off + k)" if "k + 4 \<le> 128" for k
    using assms(1) that by (simp add: le32_at_def)
  have sl: "take n (drop (off + k) a) = take n (drop (off + k) b)" if "k + n \<le> 128" for k n
    by (rule nth_equalityI) (use assms that in auto)
  have v: "bs_decode_version (drop (off + 40) a) = bs_decode_version (drop (off + 40) b)"
    unfolding bs_decode_version_def using sl [of 40 40] by (simp add: BOOT_SLOT_VERSION_MAX_def)
  have z: "bs_bytes_zero a (off + 112) (off + BS_RECORD_SLOT_SIZE) = bs_bytes_zero b (off + 112) (off + BS_RECORD_SLOT_SIZE)"
    using assms(1) by (auto simp: bs_bytes_zero_def list_all_upt BS_RECORD_SLOT_SIZE_def)
  show ?thesis
    unfolding bs_decode_slot_def v z BOOT_SLOT_SHA256_SIZE_def w [of 0, simplified] w [of 4, simplified] w [of 8, simplified]
      w [of 12, simplified] w [of 16, simplified] w [of 20, simplified] w [of 24, simplified] w [of 28, simplified] w [of 32, simplified]
      w [of 36, simplified] sl [of 80 32, simplified] ..
qed

lemma state_code_inverse [simp]: "state_of_code (state_code st) = st" "state_code st \<le> 4"
  by (cases st; simp add: state_of_code_def)+

lemma string_fits_text:
  assumes "bs_string_fits v BOOT_SLOT_VERSION_MAX" and "version_padded v"
  shows "list_all printable (c_text v)" and "v ! 0 \<noteq> 0" and "c_text v \<noteq> []"
proof -
  have v: "v = c_text v @ replicate (40 - length (c_text v)) 0" by (rule paddedE [OF assms(2)])
  have l: "length v = 40" by (rule padded_length [OF assms(2)])
  have tw: "takeWhile (\<lambda>b. b \<noteq> 0) v = c_text v" using takeWhile_padded [of "c_text v"] c_text_nonzero v by metis
  then show "list_all printable (c_text v)" and ne: "c_text v \<noteq> []"
    using assms(1) l by (simp_all add: bs_string_fits_def Let_def BOOT_SLOT_VERSION_MAX_def)
  have "v ! 0 = c_text v ! 0" by (subst v) (use ne in \<open>simp add: nth_append\<close>)
  then show "v ! 0 \<noteq> 0" using c_text_nonzero [of "c_text v ! 0" v] ne by simp
qed

lemma empty_text: "version_padded v \<Longrightarrow> v ! 0 = 0 \<Longrightarrow> c_text v = []"
  by (cases v) (simp_all add: c_text_def)

lemma decode_encode_slot:
  assumes wf: "slot_wf i sl" and ok: "bs_slot_identity_valid sl" and len: "off + 128 \<le> length r" "length r = 512"
    and z: "\<forall>k. off \<le> k \<and> k < off + 128 \<longrightarrow> r ! k = 0"
  shows "bs_decode_slot (bs_encode_slot off sl r) off (slot_zero\<lparr>sl_name := slot_letter i\<rparr>) = Some sl"
proof -
  let ?t = "c_text (sl_version sl)" and ?sha = "sl_payload_sha256 sl"
  have tl: "length ?t \<le> 39" by (rule c_text_length)
  have sha: "length ?sha = 32" using wf by (simp add: slot_wf_def BOOT_SLOT_SHA256_SIZE_def)
  have pad: "version_padded (sl_version sl)" and name: "sl_name sl = slot_letter i" using wf by (simp_all add: slot_wf_def)
  have nl: "length (slot_numbers sl) \<le> 79" using tl by (simp add: slot_numbers_length)
  define e where "e = bs_encode_slot off sl r"
  have e: "e = put_at (off + 80) ?sha (put_at off (slot_numbers sl) r)"
    using encode_slot_puts [of off r sl] len sha by (simp add: e_def BOOT_SLOT_SHA256_SIZE_def)
  have el: "length e = 512" using len nl sha by (simp add: e)
  have w: "le32_at e (off + k) = le32_at (slot_numbers sl) k" if "k + 4 \<le> 40" for k
    unfolding e using that len nl sha by (subst le32_at_put_other) (auto simp: le32_at_put_in slot_numbers_length)
  have ver: "take 40 (drop (off + 40) e) = sl_version sl"
  proof (rule nth_equalityI)
    have v: "sl_version sl = ?t @ replicate (40 - length ?t) 0" by (rule paddedE [OF pad])
    have vl: "length (sl_version sl) = 40" by (rule padded_length [OF pad])
    show "length (take 40 (drop (off + 40) e)) = length (sl_version sl)" using el len vl by simp
    fix j
    assume "j < length (take 40 (drop (off + 40) e))"
    then have j: "j < 40" by simp
    have "e ! (off + 40 + j) = put_at off (slot_numbers sl) r ! (off + (40 + j))"
      unfolding e using j len nl sha by (subst nth_put_out) (auto simp: ac_simps)
    also have "\<dots> = (if j < length ?t then ?t ! j else 0)"
    proof (cases "j < length ?t")
      case True
      then have "put_at off (slot_numbers sl) r ! (off + (40 + j)) = slot_numbers sl ! (40 + j)"
        using len nl by (intro nth_put_in) (simp_all add: slot_numbers_length)
      also have "slot_numbers sl ! (40 + j) = ?t ! j" by (simp add: slot_numbers_def nth_append)
      finally show ?thesis using True by simp
    next
      case False
      then show ?thesis using j len nl z by (subst nth_put_out) (auto simp: slot_numbers_length)
    qed
    also have "\<dots> = sl_version sl ! j" by (subst (3) v) (use j in \<open>simp add: nth_append\<close>)
    finally show "take 40 (drop (off + 40) e) ! j = sl_version sl ! j" using j el len by simp
  qed
  have digest: "take 32 (drop (off + 80) e) = ?sha" unfolding e using len nl sha by (intro put_at_same) simp_all
  have gap: "e ! k = 0" if "off + 112 \<le> k" "k < off + 128" for k
    unfolding e using that len nl sha z by (simp add: nth_put_out)
  have v: "bs_decode_version (drop (off + 40) e) = Some (sl_version sl)"
  proof -
    have "drop (off + 40) e = sl_version sl @ drop 40 (drop (off + 40) e)" using ver by (metis append_take_drop_id)
    moreover have "list_all printable ?t"
      using ok string_fits_text(1) [OF _ pad] empty_text [OF pad] by (cases "sl_state sl = BOOT_SLOT_EMPTY") (auto simp: bs_slot_identity_valid_def)
    ultimately show ?thesis using decode_version_padded [OF pad] by metis
  qed
  have n: "le32_at (slot_numbers sl) 0 = state_code (sl_state sl)" "le32_at (slot_numbers sl) 4 = sl_boot_count sl"
    "le32_at (slot_numbers sl) 8 = sl_success_count sl" "le32_at (slot_numbers sl) 12 = sl_fail_count sl"
    "le32_at (slot_numbers sl) 16 = sl_header_lba sl" "le32_at (slot_numbers sl) 20 = sl_payload_lba sl"
    "le32_at (slot_numbers sl) 24 = sl_payload_capacity_sectors sl" "le32_at (slot_numbers sl) 28 = sl_payload_size sl"
    "le32_at (slot_numbers sl) 32 = sl_checksum sl" "le32_at (slot_numbers sl) 36 = (if sl_health_confirmed sl then 1 else 0)"
    by (simp_all add: slot_numbers_def)
  have zr: "bs_bytes_zero e (off + 112) (off + BS_RECORD_SLOT_SIZE)"
    using gap len by (simp add: bs_bytes_zero_def BS_RECORD_SLOT_SIZE_def BOOT_SLOT_PERSIST_RECORD_SIZE_def list_all_upt)
  have dz: "bs_bytes_zero ?sha 0 BOOT_SLOT_SHA256_SIZE" if "\<not> bs_digest_present ?sha"
    using that sha by (simp add: digest_present_iff bs_bytes_zero_def list_all_upt BOOT_SLOT_SHA256_SIZE_def BOOT_SLOT_PERSIST_RECORD_SIZE_def)
  have sl: "slot_zero\<lparr>sl_name := slot_letter i, sl_state := sl_state sl, sl_boot_count := sl_boot_count sl, sl_success_count := sl_success_count sl,
      sl_fail_count := sl_fail_count sl, sl_header_lba := sl_header_lba sl, sl_payload_lba := sl_payload_lba sl,
      sl_payload_capacity_sectors := sl_payload_capacity_sectors sl, sl_payload_size := sl_payload_size sl, sl_checksum := sl_checksum sl,
      sl_health_confirmed := sl_health_confirmed sl, sl_version := sl_version sl, sl_payload_sha256 := ?sha\<rparr> = sl"
    by (cases sl) (use name in \<open>simp add: slot_zero_def\<close>)
  have ws: "le32_at e off = state_code (sl_state sl)" "le32_at e (off + 4) = sl_boot_count sl" "le32_at e (off + 8) = sl_success_count sl"
    "le32_at e (off + 12) = sl_fail_count sl" "le32_at e (off + 16) = sl_header_lba sl" "le32_at e (off + 20) = sl_payload_lba sl"
    "le32_at e (off + 24) = sl_payload_capacity_sectors sl" "le32_at e (off + 28) = sl_payload_size sl" "le32_at e (off + 32) = sl_checksum sl"
    "le32_at e (off + 36) = (if sl_health_confirmed sl then 1 else 0)"
    using w [of 0] w [of 4] w [of 8] w [of 12] w [of 16] w [of 20] w [of 24] w [of 28] w [of 32] w [of 36] by (simp_all add: n)
  have h: "((if sl_health_confirmed sl then 1 else 0 :: u32) \<noteq> 0) = sl_health_confirmed sl"
    "\<not> (1 :: u32) < (if sl_health_confirmed sl then 1 else 0)" by simp_all
  have st: "\<not> state_code BOOT_SLOT_FAILED < state_code (sl_state sl)" by (simp add: not_less)
  have r: "bs_decode_slot e off (slot_zero\<lparr>sl_name := slot_letter i\<rparr>) =
      (if sl_state sl = BOOT_SLOT_EMPTY then
         (if sl_version sl ! 0 \<noteq> 0 \<or> sl_boot_count sl \<noteq> 0 \<or> sl_success_count sl \<noteq> 0 \<or> sl_fail_count sl \<noteq> 0 \<or>
             sl_payload_size sl \<noteq> 0 \<or> sl_checksum sl \<noteq> 0 \<or> sl_health_confirmed sl \<or> \<not> bs_bytes_zero ?sha 0 BOOT_SLOT_SHA256_SIZE
          then None else Some sl)
       else if sl_version sl ! 0 = 0 \<or> sl_payload_size sl = 0 then None else Some sl)"
    unfolding bs_decode_slot_def Let_def v option.case BOOT_SLOT_SHA256_SIZE_def digest ws state_code_inverse h sl
    using zr st h(2) by simp
  show ?thesis
  proof (cases "sl_state sl = BOOT_SLOT_EMPTY")
    case True
    then show ?thesis using ok dz r by (simp add: e_def bs_slot_identity_valid_def)
  next
    case False
    then show ?thesis using ok string_fits_text(2) [OF _ pad] r by (auto simp: e_def bs_slot_identity_valid_def)
  qed
qed

subsection \<open>The whole record\<close>

definition record_numbers :: "boot_slot_manager \<Rightarrow> u64 \<Rightarrow> u8 list" where
  "record_numbers m g =
     bs_record_magic @ le32 BS_RECORD_FORMAT_VERSION @ le32 (of_nat BOOT_SLOT_PERSIST_RECORD_SIZE) @ le64 g @ le32 (mg_active_slot m) @
     le32 (mg_next_slot m) @ le32 (if mg_rollback_pending m then 1 else 0) @ le32 (mg_confirmed_slot m) @ le32 (mg_pending_slot m) @
     le32 (mg_tries_remaining m) @ le32 (mg_boot_sectors m) @ le32 (at2 (mg_control_lba m) 0) @ le32 (at2 (mg_control_lba m) 1)"

lemma magic_length [simp]: "length bs_record_magic = 8"
  by (simp add: bs_record_magic_def)

lemma record_numbers_length [simp]: "length (record_numbers m g) = 60"
  by (simp add: record_numbers_def)

lemma le32_at_last [simp]: "le32_at (le32 a) 0 = a"
  using le32_at_first [of a "[]"] by simp

lemma put_at_append0: "length a = n \<Longrightarrow> n + length b \<le> length r \<Longrightarrow> put_at n b (put_at 0 a r) = put_at 0 (a @ b) r"
  using put_at_append [of a n 0 b r] by simp

lemma record_body_puts:
  "record_body m g = bs_encode_slot 192 (slot_at m 1) (bs_encode_slot 64 (slot_at m 0) (put_at 0 (record_numbers m g) (replicate 512 0)))"
  unfolding record_body_def Let_def record_numbers_def BOOT_SLOT_PERSIST_RECORD_SIZE_def BS_RECORD_SLOT0_OFFSET_def BS_RECORD_SLOT_SIZE_def
  by (simp add: put_at_append0)

lemma encode_slot_length [simp]:
  assumes "off + 112 \<le> length r"
  shows "length (bs_encode_slot off sl r) = length r"
  using assms c_text_length [of "sl_version sl"] by (simp add: encode_slot_puts slot_numbers_length BOOT_SLOT_SHA256_SIZE_def)

lemma encode_slot_outside:
  assumes "off + 112 \<le> length r" and "i < length r" and "i < off \<or> off + 112 \<le> i"
  shows "bs_encode_slot off sl r ! i = r ! i"
  using assms c_text_length [of "sl_version sl"]
  by (simp add: encode_slot_puts slot_numbers_length BOOT_SLOT_SHA256_SIZE_def) (subst nth_put_out; auto simp: slot_numbers_length nth_put_out)

lemma record_body_length [simp]: "length (record_body m g) = 512"
  by (simp add: record_body_puts)

lemma record_encode_length [simp]: "length (bs_record_encode m g) = 512"
  by (simp add: bs_record_encode_def Let_def BS_RECORD_CRC_OFFSET_def)

lemma record_encode_nth: "i < 508 \<Longrightarrow> bs_record_encode m g ! i = record_body m g ! i"
  unfolding bs_record_encode_def Let_def BS_RECORD_CRC_OFFSET_def by (subst nth_put_out) simp_all

lemma record_body_header: "i < 64 \<Longrightarrow> record_body m g ! i = put_at 0 (record_numbers m g) (replicate 512 0) ! i"
  by (simp add: record_body_puts encode_slot_outside)

lemma record_body_tail: "320 \<le> i \<Longrightarrow> i < 512 \<Longrightarrow> record_body m g ! i = 0"
  by (simp add: record_body_puts encode_slot_outside nth_put_out)

lemma record_reads:
  "le32_at (bs_record_encode m g) 8 = BS_RECORD_FORMAT_VERSION" "le32_at (bs_record_encode m g) 12 = of_nat BOOT_SLOT_PERSIST_RECORD_SIZE"
  "le64_at (bs_record_encode m g) 16 = g" "le32_at (bs_record_encode m g) 24 = mg_active_slot m" "le32_at (bs_record_encode m g) 28 = mg_next_slot m"
  "le32_at (bs_record_encode m g) 32 = (if mg_rollback_pending m then 1 else 0)" "le32_at (bs_record_encode m g) 36 = mg_confirmed_slot m"
  "le32_at (bs_record_encode m g) 40 = mg_pending_slot m" "le32_at (bs_record_encode m g) 44 = mg_tries_remaining m"
  "le32_at (bs_record_encode m g) 48 = mg_boot_sectors m" "le32_at (bs_record_encode m g) 52 = at2 (mg_control_lba m) 0"
  "le32_at (bs_record_encode m g) 56 = at2 (mg_control_lba m) 1"
proof -
  have nth: "bs_record_encode m g ! i = record_numbers m g ! i" if "i < 60" for i
    using that nth_put_in [of 0 "record_numbers m g" "replicate 512 0" i] by (simp add: record_encode_nth record_body_header)
  have w: "le32_at (bs_record_encode m g) k = le32_at (record_numbers m g) k" if "k + 4 \<le> 60" for k
    unfolding le32_at_def using nth [of k] nth [of "k + 1"] nth [of "k + 2"] nth [of "k + 3"] that by simp
  have q: "le64_at (bs_record_encode m g) 16 = le64_at (record_numbers m g) 16" by (simp add: le64_at_def w)
  show "le32_at (bs_record_encode m g) 8 = BS_RECORD_FORMAT_VERSION" "le32_at (bs_record_encode m g) 12 = of_nat BOOT_SLOT_PERSIST_RECORD_SIZE"
    "le64_at (bs_record_encode m g) 16 = g" "le32_at (bs_record_encode m g) 24 = mg_active_slot m" "le32_at (bs_record_encode m g) 28 = mg_next_slot m"
    "le32_at (bs_record_encode m g) 32 = (if mg_rollback_pending m then 1 else 0)" "le32_at (bs_record_encode m g) 36 = mg_confirmed_slot m"
    "le32_at (bs_record_encode m g) 40 = mg_pending_slot m" "le32_at (bs_record_encode m g) 44 = mg_tries_remaining m"
    "le32_at (bs_record_encode m g) 48 = mg_boot_sectors m" "le32_at (bs_record_encode m g) 52 = at2 (mg_control_lba m) 0"
    "le32_at (bs_record_encode m g) 56 = at2 (mg_control_lba m) 1"
    by (simp_all add: w q record_numbers_def le32_at_skip le64_at_skip)
qed

lemma record_crc: "le32_at (bs_record_encode m g) BS_RECORD_CRC_OFFSET = bs_crc32 (take BS_RECORD_CRC_OFFSET (bs_record_encode m g))"
proof -
  have "take 508 (bs_record_encode m g) = take 508 (record_body m g)"
    by (rule nth_equalityI) (simp_all add: record_encode_nth)
  then show ?thesis by (simp add: bs_record_encode_def Let_def BS_RECORD_CRC_OFFSET_def)
qed

lemma record_slots:
  assumes "manager_wf m" and "bs_slot_identity_valid (slot_at m 0)" and "bs_slot_identity_valid (slot_at m 1)"
  shows "bs_decode_slot (bs_record_encode m g) 64 (slot_zero\<lparr>sl_name := slot_letter 0\<rparr>) = Some (slot_at m 0)"
    and "bs_decode_slot (bs_record_encode m g) 192 (slot_zero\<lparr>sl_name := slot_letter 1\<rparr>) = Some (slot_at m 1)"
proof -
  let ?h = "put_at 0 (record_numbers m g) (replicate 512 0)"
  let ?a = "bs_encode_slot 64 (slot_at m 0) ?h"
  have body: "bs_record_encode m g ! i = bs_encode_slot 192 (slot_at m 1) ?a ! i" if "i < 320" for i
    using that by (simp add: record_encode_nth record_body_puts)
  have "bs_decode_slot (bs_record_encode m g) 64 sl = bs_decode_slot ?a 64 sl" for sl
    by (rule decode_slot_local) (auto simp: body encode_slot_outside)
  moreover have "bs_decode_slot ?a 64 (slot_zero\<lparr>sl_name := slot_letter 0\<rparr>) = Some (slot_at m 0)"
    by (rule decode_encode_slot) (use assms in \<open>auto simp: manager_wf_def nth_put_out\<close>)
  ultimately show "bs_decode_slot (bs_record_encode m g) 64 (slot_zero\<lparr>sl_name := slot_letter 0\<rparr>) = Some (slot_at m 0)" by simp
  have "bs_decode_slot (bs_record_encode m g) 192 sl = bs_decode_slot (bs_encode_slot 192 (slot_at m 1) ?a) 192 sl" for sl
    by (rule decode_slot_local) (auto simp: body)
  moreover have "bs_decode_slot (bs_encode_slot 192 (slot_at m 1) ?a) 192 (slot_zero\<lparr>sl_name := slot_letter 1\<rparr>) = Some (slot_at m 1)"
    by (rule decode_encode_slot) (use assms in \<open>auto simp: manager_wf_def encode_slot_outside nth_put_out\<close>)
  ultimately show "bs_decode_slot (bs_record_encode m g) 192 (slot_zero\<lparr>sl_name := slot_letter 1\<rparr>) = Some (slot_at m 1)" by simp
qed

lemma validate_slots:
  assumes "boot_slot_manager_validate m"
  shows "bs_slot_identity_valid (slot_at m 0)" "bs_slot_identity_valid (slot_at m 1)"
    "mg_active_slot m < BOOT_SLOT_COUNT" "mg_next_slot m < BOOT_SLOT_COUNT" "mg_confirmed_slot m < BOOT_SLOT_COUNT"
  using assms by (auto simp: boot_slot_manager_validate_def split: option.splits)

lemma lt_two: "(i :: u32) < 2 \<longleftrightarrow> i = 0 \<or> i = 1"
proof
  assume "i < 2"
  then have "unat i = 0 \<or> unat i = 1" by (auto simp: word_less_nat_alt)
  then show "i = 0 \<or> i = 1" by (metis unat_0 unat_1 unsigned_word_eqI)
qed auto

lemma xor_one_lt2: "(i :: u32) < 2 \<Longrightarrow> i XOR 1 < 2"
  by (auto simp: lt_two)

lemma record_roundtrip_core:
  assumes "boot_slot_manager_validate m" and "manager_wf m" and "g \<noteq> 0"
  shows "bs_record_decode (bs_record_encode m g) = Some (m, g)"
proof -
  let ?r = "bs_record_encode m g"
  note v = validate_slots [OF assms(1)]
  have mag: "bs_bytes_equal ?r bs_record_magic 8"
  proof -
    have "?r ! i = bs_record_magic ! i" if "i < 8" for i
      using that nth_put_in [of 0 "record_numbers m g" "replicate 512 0" i]
      by (simp add: record_encode_nth record_body_header record_numbers_def nth_append)
    then show ?thesis by (simp add: bs_bytes_equal_iff)
  qed
  have z: "bs_bytes_zero ?r 60 64" "bs_bytes_zero ?r 320 508"
    by (auto simp: bs_bytes_zero_def list_all_upt BOOT_SLOT_PERSIST_RECORD_SIZE_def record_encode_nth record_body_header record_body_tail nth_put_out)
  have dec: "bs_decode_slot ?r 64 (slot_zero\<lparr>sl_name := slot_letter 0\<rparr>) = Some (slot_at m 0)"
    "bs_decode_slot ?r 192 (slot_zero\<lparr>sl_name := slot_letter 1\<rparr>) = Some (slot_at m 1)"
    by (rule record_slots [OF assms(2) v(1,2)])+
  have m: "bs_manager_defaults\<lparr>mg_active_slot := mg_active_slot m, mg_next_slot := mg_next_slot m, mg_confirmed_slot := mg_confirmed_slot m,
      mg_pending_slot := mg_pending_slot m, mg_tries_remaining := mg_tries_remaining m, mg_boot_sectors := mg_boot_sectors m,
      mg_control_lba := (at2 (mg_control_lba m) 0, at2 (mg_control_lba m) 1), mg_slots := (slot_at m 0, slot_at m 1),
      mg_rollback_pending := mg_rollback_pending m\<rparr> = m"
    by (cases m) (simp add: bs_manager_defaults_def two_eq_iff)
  have h: "\<not> 2 \<le> mg_active_slot m" "\<not> 2 \<le> mg_next_slot m" "\<not> 2 \<le> mg_active_slot m XOR 1"
    using v(3,4) xor_one_lt2 [of "mg_active_slot m"] by (simp_all add: BOOT_SLOT_COUNT_def not_le)
  have rb: "((if mg_rollback_pending m then 1 else 0 :: u32) \<noteq> 0) = mg_rollback_pending m"
    "\<not> (1 :: u32) < (if mg_rollback_pending m then 1 else 0)" by simp_all
  have d: "at2 (mg_slots (bs_manager_defaults\<lparr>mg_active_slot := a, mg_next_slot := b, mg_confirmed_slot := c, mg_pending_slot := e,
      mg_tries_remaining := f, mg_boot_sectors := g', mg_control_lba := k\<rparr>)) i =
      slot_zero\<lparr>sl_name := slot_letter (if i = 0 then 0 else 1)\<rparr>" for a b c e f g' k i
    by (simp add: bs_manager_defaults_def)
  show ?thesis
    unfolding bs_record_decode_def BS_RECORD_SLOT0_OFFSET_def BS_RECORD_SLOT_SIZE_def BS_RECORD_RESERVED_OFFSET_def Let_def record_reads d rb
    using mag z assms(1,3) h rb record_crc [of m g, unfolded BS_RECORD_CRC_OFFSET_def] dec m
    by (simp add: BS_RECORD_CRC_OFFSET_def BOOT_SLOT_COUNT_def)
qed

subsection \<open>Slot headers\<close>

definition header_numbers :: "boot_slot_layout \<Rightarrow> u32 \<Rightarrow> boot_slot_image \<Rightarrow> u8 list" where
  "header_numbers layout slot img =
     store_magic @ le32 STORE_HEADER_VERSION @ le32 (of_nat BOOT_SLOT_STORE_SECTOR_SIZE) @ le32 slot @ le32 (ly_boot_sectors layout) @
     le32 (rg_header_lba (at2 (ly_slots layout) slot)) @ le32 (rg_payload_lba (at2 (ly_slots layout) slot)) @
     le32 (rg_payload_capacity_sectors (at2 (ly_slots layout) slot)) @ le32 (im_payload_size img) @ c_text (im_version img)"

lemma store_magic_length [simp]: "length store_magic = 8"
  by (simp add: store_magic_def)

lemma header_numbers_length: "length (header_numbers layout slot img) = 40 + length (c_text (im_version img))"
  by (simp add: header_numbers_def)

definition header_body :: "boot_slot_layout \<Rightarrow> u32 \<Rightarrow> boot_slot_image \<Rightarrow> u8 list" where
  "header_body layout slot img =
     put_at 80 (take BOOT_SLOT_SHA256_SIZE (im_payload_sha256 img)) (put_at 0 (header_numbers layout slot img) (replicate 512 0))"

lemma encode_header_body:
  "store_encode_header layout slot img =
     put_at 508 (le32 (store_crc32 (take 508 (header_body layout slot img)))) (header_body layout slot img)"
proof -
  have "put_at 80 sha (put_at 40 (c_text (im_version img)) (put_at 36 (le32 (im_payload_size img)) (put_at 32 (le32 (rg_payload_capacity_sectors (at2 (ly_slots layout) slot)))
      (put_at 28 (le32 (rg_payload_lba (at2 (ly_slots layout) slot))) (put_at 24 (le32 (rg_header_lba (at2 (ly_slots layout) slot)))
      (put_at 20 (le32 (ly_boot_sectors layout)) (put_at 16 (le32 slot) (put_at 12 (le32 (of_nat BOOT_SLOT_STORE_SECTOR_SIZE))
      (put_at 8 (le32 STORE_HEADER_VERSION) (put_at 0 store_magic (replicate 512 0))))))))))) =
      put_at 80 sha (put_at 0 (header_numbers layout slot img) (replicate 512 0))" for sha
    using c_text_length [of "im_version img"] by (simp add: put_at_append0 header_numbers_def)
  then show ?thesis
    unfolding store_encode_header_def Let_def header_body_def c_text_def [symmetric] BOOT_SLOT_STORE_SECTOR_SIZE_def STORE_HEADER_CRC_OFFSET_def by simp
qed

lemma header_body_length [simp]: "length (header_body layout slot img) = 512"
  using c_text_length [of "im_version img"] by (simp add: header_body_def header_numbers_length BOOT_SLOT_SHA256_SIZE_def)

lemma encode_header_length [simp]: "length (store_encode_header layout slot img) = 512"
  by (simp add: encode_header_body)

lemma version_valid_padded:
  assumes "store_version_valid v" and "length v = 40"
  shows "version_padded v" and "list_all printable (c_text v)" and "c_text v \<noteq> []" and "takeWhile (\<lambda>b. b \<noteq> 0) v = c_text v"
proof -
  let ?t = "takeWhile (\<lambda>b. b \<noteq> 0) v"
  have t: "list_all printable ?t" "length ?t \<noteq> 0" "length ?t < 40" "\<forall>i. length ?t < i \<and> i < 40 \<longrightarrow> v ! i = 0"
    using assms by (auto simp: store_version_valid_def Let_def BOOT_SLOT_VERSION_MAX_def list_all_upt Suc_le_eq)
  have ct: "c_text v = ?t" using t(3) by (simp add: c_text_def BOOT_SLOT_VERSION_MAX_def)
  then show "list_all printable (c_text v)" "c_text v \<noteq> []" "?t = c_text v" using t by auto
  have z: "v ! length ?t = 0" using t(3) assms(2) nth_length_takeWhile [of "\<lambda>b. b \<noteq> 0" v] by simp
  have "v = ?t @ replicate (40 - length ?t) 0"
  proof (rule nth_equalityI)
    fix i
    assume "i < length v"
    then show "v ! i = (?t @ replicate (40 - length ?t) 0) ! i"
      using t(4) z assms(2) takeWhile_nth [of i "\<lambda>b. b \<noteq> 0" v] by (cases "i < length ?t"; cases "i = length ?t") (auto simp: nth_append)
  qed (use assms(2) t(3) in simp)
  then show "version_padded v" using ct by (simp add: version_padded_def bs_strcpy_def Let_def c_text_def BOOT_SLOT_VERSION_MAX_def)
qed

lemma header_roundtrip_core:
  assumes ok: "store_image_valid img (rg_payload_capacity_sectors (at2 (ly_slots layout) slot))" and slot: "slot < BOOT_SLOT_COUNT"
    and len: "length (im_version img) = BOOT_SLOT_VERSION_MAX" "length (im_payload_sha256 img) = BOOT_SLOT_SHA256_SIZE"
  shows "store_decode_header layout slot (store_encode_header layout slot img) = Some img"
proof -
  let ?h = "store_encode_header layout slot img" and ?t = "c_text (im_version img)" and ?sha = "im_payload_sha256 img"
  have vv: "store_version_valid (im_version img)" using ok by (simp add: store_image_valid_def)
  note v = version_valid_padded [OF vv len(1) [unfolded BOOT_SLOT_VERSION_MAX_def]]
  have tl: "length ?t \<le> 39" by (rule c_text_length)
  have sha: "length ?sha = 32" using len by (simp add: BOOT_SLOT_SHA256_SIZE_def)
  have hl: "length (header_numbers layout slot img) \<le> 79" using tl by (simp add: header_numbers_length)
  have b: "?h ! i = header_body layout slot img ! i" if "i < 508" for i unfolding encode_header_body using that by (subst nth_put_out) simp_all
  have nums: "?h ! i = header_numbers layout slot img ! i" if "i < length (header_numbers layout slot img)" for i
    using that hl sha b [of i] nth_put_in [of 0 "header_numbers layout slot img" "replicate 512 0" i]
    by (simp add: header_body_def BOOT_SLOT_SHA256_SIZE_def nth_put_out)
  have zero: "?h ! i = 0" if "length (header_numbers layout slot img) \<le> i" "i < 80 \<or> 112 \<le> i" "i < 508" for i
    using that hl sha b [of i] by (auto simp: header_body_def BOOT_SLOT_SHA256_SIZE_def nth_put_out)
  have digest: "take 32 (drop 80 ?h) = ?sha"
  proof -
    have "take 32 (drop 80 ?h) = take 32 (drop 80 (header_body layout slot img))"
      by (rule nth_equalityI) (simp_all add: b)
    also have "\<dots> = ?sha" unfolding header_body_def BOOT_SLOT_SHA256_SIZE_def using hl sha by (simp add: put_at_same)
    finally show ?thesis .
  qed
  have w: "le32_at ?h k = le32_at (header_numbers layout slot img) k" if "k + 4 \<le> 40" for k
    unfolding le32_at_def using nums [of k] nums [of "k + 1"] nums [of "k + 2"] nums [of "k + 3"] that by (simp add: header_numbers_length)
  have n: "le32_at ?h 8 = STORE_HEADER_VERSION" "le32_at ?h 12 = of_nat BOOT_SLOT_STORE_SECTOR_SIZE" "le32_at ?h 16 = slot"
    "le32_at ?h 20 = ly_boot_sectors layout" "le32_at ?h 24 = rg_header_lba (at2 (ly_slots layout) slot)"
    "le32_at ?h 28 = rg_payload_lba (at2 (ly_slots layout) slot)" "le32_at ?h 32 = rg_payload_capacity_sectors (at2 (ly_slots layout) slot)"
    "le32_at ?h 36 = im_payload_size img"
    by (simp_all add: w header_numbers_def le32_at_skip)
  have mag: "store_equal ?h store_magic 8"
    using nums by (simp add: store_equal_iff header_numbers_length) (simp add: header_numbers_def nth_append)
  have crc: "store_crc32 (take 508 ?h) = le32_at ?h 508"
  proof -
    have "take 508 ?h = take 508 (header_body layout slot img)" by (rule nth_equalityI) (simp_all add: b)
    then show ?thesis by (simp add: encode_header_body)
  qed
  have ver: "take 40 (drop 40 ?h) = im_version img"
  proof (rule nth_equalityI)
    show "length (take 40 (drop 40 ?h)) = length (im_version img)" using len by (simp add: BOOT_SLOT_VERSION_MAX_def)
    fix j
    assume "j < length (take 40 (drop 40 ?h))"
    then have j: "j < 40" by simp
    have "?h ! (40 + j) = (if j < length ?t then ?t ! j else 0)"
      using nums [of "40 + j"] zero [of "40 + j"] j by (auto simp: header_numbers_length) (simp add: header_numbers_def nth_append)
    also have "\<dots> = im_version img ! j" by (subst (3) paddedE [OF v(1)]) (use j in \<open>simp add: nth_append\<close>)
    finally show "take 40 (drop 40 ?h) ! j = im_version img ! j" using j by simp
  qed
  have z: "store_zero_range ?h 112 508" "store_zero_range ?h (40 + length ?t + 1) 80"
    using tl by (auto simp: store_zero_range_def list_all_upt BOOT_SLOT_STORE_SECTOR_SIZE_def zero header_numbers_length)
  have img: "\<lparr>im_version = im_version img, im_payload_size = im_payload_size img, im_payload_sha256 = ?sha\<rparr> = img" by simp
  have ok2: "store_image_valid \<lparr>im_version = im_version img, im_payload_size = im_payload_size img, im_payload_sha256 = ?sha\<rparr>
      (rg_payload_capacity_sectors (at2 (ly_slots layout) slot))" unfolding img by (rule ok)
  have pad: "?t @ replicate (40 - length ?t) 0 = im_version img" using paddedE [OF v(1)] by simp
  show ?thesis
    unfolding store_decode_header_def STORE_HEADER_CRC_OFFSET_def BOOT_SLOT_VERSION_MAX_def BOOT_SLOT_SHA256_SIZE_def ver v(4) Let_def digest n
    using slot mag crc z v(2,3) tl pad ok2 by (simp add: not_le)
qed

end
