(* ===== verification/BootLife.thy ===== *)
theory BootLife
  imports BootRecord
begin

text \<open>
  The A/B life cycle as an abstract machine on managers, and that every transition keeps a manager valid: one slot is always confirmed and
  can be booted.
\<close>

subsection \<open>Valid managers\<close>

lemma at2_set2: "i < 2 \<Longrightarrow> j < 2 \<Longrightarrow> at2 (set2 i x p) j = (if i = j then x else at2 p j)"
  by (auto simp: at2_def set2_def lt_two)

lemma none_not_slot [simp]: "\<not> BOOT_SLOT_NONE < 2" "i < 2 \<Longrightarrow> i \<noteq> BOOT_SLOT_NONE"
  by (auto simp: BOOT_SLOT_NONE_def lt_two)

lemma two_not_le_one [simp]: "\<not> (2 :: u32) \<le> 1"
  by (simp add: word_le_nat_alt)

lemma le_one: "(w :: u32) \<le> 1 \<longleftrightarrow> w = 0 \<or> w = 1"
  using lt_two [of w] by (auto simp: word_le_nat_alt word_less_nat_alt)

definition slot_ok :: "boot_slot \<Rightarrow> bool" where
  "slot_ok sl \<longleftrightarrow> bs_slot_identity_valid sl \<and> \<not> (sl_state sl = BOOT_SLOT_FAILED \<and> sl_health_confirmed sl)"

text \<open>No slot on trial; the other slot is empty, failed or ready to be tried.\<close>

definition settled :: "boot_slot_manager \<Rightarrow> bool" where
  "settled m \<longleftrightarrow> mg_pending_slot m = BOOT_SLOT_NONE \<and> \<not> mg_rollback_pending m \<and> mg_tries_remaining m = 0 \<and>
     mg_active_slot m = mg_confirmed_slot m \<and> sl_state (slot_at m (mg_confirmed_slot m)) = BOOT_SLOT_ACTIVE \<and>
     sl_health_confirmed (slot_at m (mg_confirmed_slot m)) \<and>
     sl_state (slot_at m (mg_confirmed_slot m XOR 1)) \<notin> {BOOT_SLOT_ACTIVE, BOOT_SLOT_ROLLBACK} \<and>
     (mg_next_slot m = mg_confirmed_slot m \<or>
      mg_next_slot m = mg_confirmed_slot m XOR 1 \<and> sl_state (slot_at m (mg_confirmed_slot m XOR 1)) = BOOT_SLOT_VALID)"

text \<open>The other slot is on trial, the confirmed one is the fallback.\<close>

definition trying :: "boot_slot_manager \<Rightarrow> bool" where
  "trying m \<longleftrightarrow> mg_pending_slot m = mg_confirmed_slot m XOR 1 \<and> mg_rollback_pending m \<and> mg_tries_remaining m \<le> 1 \<and>
     mg_active_slot m = mg_pending_slot m \<and> mg_next_slot m = mg_pending_slot m \<and>
     sl_state (slot_at m (mg_pending_slot m)) = BOOT_SLOT_ACTIVE \<and> \<not> sl_health_confirmed (slot_at m (mg_pending_slot m)) \<and>
     sl_state (slot_at m (mg_confirmed_slot m)) = BOOT_SLOT_ROLLBACK \<and> sl_health_confirmed (slot_at m (mg_confirmed_slot m))"

lemma validate_iff:
  "boot_slot_manager_validate m \<longleftrightarrow>
     mg_confirmed_slot m < 2 \<and> boot_slot_layout_plan (mg_boot_sectors m) = Some (manager_layout m) \<and>
     slot_ok (slot_at m 0) \<and> slot_ok (slot_at m 1) \<and> (settled m \<or> trying m)"
proof (cases "mg_confirmed_slot m < 2")
  case True
  then have c: "mg_confirmed_slot m = 0 \<or> mg_confirmed_slot m = 1" by (simp add: lt_two)
  show ?thesis
  proof (cases "mg_pending_slot m = BOOT_SLOT_NONE")
    case True
    then have "\<not> trying m" using c by (auto simp: trying_def BOOT_SLOT_NONE_def)
    then show ?thesis using True c
      unfolding boot_slot_manager_validate_def settled_def slot_ok_def BOOT_SLOT_COUNT_def BOOT_SLOT_MAX_TRIES_def Let_def
      by (auto split: option.splits simp: lt_two)
  next
    case False
    then have "\<not> settled m" by (simp add: settled_def)
    have p: "mg_pending_slot m < 2 \<and> mg_pending_slot m \<noteq> mg_confirmed_slot m \<longleftrightarrow> mg_pending_slot m = mg_confirmed_slot m XOR 1"
      using c by (auto simp: lt_two)
    show ?thesis using False c p \<open>\<not> settled m\<close>
      unfolding boot_slot_manager_validate_def trying_def slot_ok_def BOOT_SLOT_COUNT_def BOOT_SLOT_MAX_TRIES_def Let_def
      by (auto split: option.splits simp: lt_two)
  qed
next
  case False
  then show ?thesis by (auto simp: boot_slot_manager_validate_def BOOT_SLOT_COUNT_def split: option.splits)
qed

text \<open>What a slot holds, apart from its state and its counters.\<close>

definition slot_image :: "boot_slot \<Rightarrow> u8 list \<times> u32 \<times> u8 list \<times> boot_slot_region" where
  "slot_image sl = (sl_version sl, sl_payload_size sl, sl_payload_sha256 sl, slot_region sl)"

lemma identity_by_image:
  assumes "slot_image sl' = slot_image sl" and "sl_state sl \<noteq> BOOT_SLOT_EMPTY" and "sl_state sl' \<noteq> BOOT_SLOT_EMPTY"
  shows "bs_slot_identity_valid sl' = bs_slot_identity_valid sl"
  using assms by (auto simp: slot_image_def slot_region_def bs_slot_identity_valid_def)

lemma slot_ok_keep:
  assumes "slot_ok sl" and "slot_image sl' = slot_image sl" and "sl_state sl \<noteq> BOOT_SLOT_EMPTY" and "sl_state sl' \<noteq> BOOT_SLOT_EMPTY"
    and "sl_state sl' = BOOT_SLOT_FAILED \<Longrightarrow> \<not> sl_health_confirmed sl'"
  shows "slot_ok sl'"
  using assms identity_by_image [OF assms(2-4)] by (auto simp: slot_ok_def)

text \<open>Two managers with the same images, layout and names.\<close>

definition same_images :: "boot_slot_manager \<Rightarrow> boot_slot_manager \<Rightarrow> bool" where
  "same_images m m' \<longleftrightarrow> mg_boot_sectors m' = mg_boot_sectors m \<and> mg_control_lba m' = mg_control_lba m \<and>
     (\<forall>i\<in>{0, 1}. slot_image (slot_at m' i) = slot_image (slot_at m i) \<and> sl_name (slot_at m' i) = sl_name (slot_at m i))"

lemma same_images_layout: "same_images m m' \<Longrightarrow> manager_layout m' = manager_layout m"
  by (simp add: same_images_def manager_layout_def slot_image_def)

lemma same_images_wf: "same_images m m' \<Longrightarrow> manager_wf m \<Longrightarrow> manager_wf m'"
  by (simp add: same_images_def manager_wf_def slot_wf_def slot_image_def)

lemma validate_by_images:
  assumes "boot_slot_manager_validate m" and "same_images m m'" and "mg_confirmed_slot m' < 2"
    and "\<forall>i\<in>{0, 1}. slot_ok (slot_at m' i)" and "settled m' \<or> trying m'"
  shows "boot_slot_manager_validate m'"
  using assms same_images_layout [OF assms(2)] by (simp add: validate_iff same_images_def)

subsection \<open>Transitions\<close>

lemma two_slots: "i < 2 \<Longrightarrow> j < 2 \<Longrightarrow> i \<noteq> j \<Longrightarrow> j = i XOR 1" for i j :: u32
  by (auto simp: lt_two)

lemma trial_valid:
  assumes "boot_slot_manager_validate m" and "mg_pending_slot m = BOOT_SLOT_NONE" and "slot < 2" and "slot \<noteq> mg_confirmed_slot m"
    and "sl_state (slot_at m slot) = BOOT_SLOT_VALID"
  shows "boot_slot_manager_validate (on_trial slot m)" and "same_images m (on_trial slot m)" and "mg_confirmed_slot (on_trial slot m) = mg_confirmed_slot m"
proof -
  have v: "mg_confirmed_slot m < 2" "slot_ok (slot_at m 0)" "slot_ok (slot_at m 1)" "settled m"
    using assms(1,2) by (auto simp: validate_iff trying_def lt_two BOOT_SLOT_NONE_def)
  have c: "mg_confirmed_slot m = 0 \<and> slot = 1 \<or> mg_confirmed_slot m = 1 \<and> slot = 0" using v(1) assms(3,4) by (auto simp: lt_two)
  show i: "same_images m (on_trial slot m)"
    using c by (auto simp: same_images_def on_trial_def upd_slot_def at2_set2 slot_image_def slot_region_def)
  show "mg_confirmed_slot (on_trial slot m) = mg_confirmed_slot m" by (simp add: on_trial_def upd_slot_def)
  have "slot_ok (slot_at (on_trial slot m) i)" if "i \<in> {0, 1}" for i
    by (rule slot_ok_keep [of "slot_at m i"])
      (use c v that assms i in \<open>auto simp: on_trial_def upd_slot_def at2_set2 slot_image_def slot_region_def settled_def\<close>)
  moreover have "trying (on_trial slot m)"
    using c v assms by (auto simp: trying_def on_trial_def upd_slot_def at2_set2 settled_def BOOT_SLOT_DEFAULT_TRIES_def)
  ultimately show "boot_slot_manager_validate (on_trial slot m)"
    using i v(1) by (intro validate_by_images [OF assms(1) i]) (simp_all add: on_trial_def upd_slot_def)
qed

lemma trying_pending:
  assumes "boot_slot_manager_validate m" and "mg_pending_slot m \<noteq> BOOT_SLOT_NONE"
  shows "trying m" and "mg_confirmed_slot m = 0 \<and> mg_pending_slot m = 1 \<or> mg_confirmed_slot m = 1 \<and> mg_pending_slot m = 0"
    and "slot_ok (slot_at m 0)" and "slot_ok (slot_at m 1)"
proof -
  have v: "mg_confirmed_slot m < 2" "slot_ok (slot_at m 0)" "slot_ok (slot_at m 1)" "trying m"
    using assms by (auto simp: validate_iff settled_def)
  then show "trying m" "slot_ok (slot_at m 0)" "slot_ok (slot_at m 1)" by simp_all
  show "mg_confirmed_slot m = 0 \<and> mg_pending_slot m = 1 \<or> mg_confirmed_slot m = 1 \<and> mg_pending_slot m = 0"
    using v(1,4) by (auto simp: trying_def lt_two)
qed

lemma spend_valid:
  assumes "boot_slot_manager_validate m" and "mg_pending_slot m \<noteq> BOOT_SLOT_NONE" and "mg_tries_remaining m > 0"
  shows "boot_slot_manager_validate (spend_attempt m)" and "same_images m (spend_attempt m)" and "mg_tries_remaining (spend_attempt m) = 0"
    and "mg_confirmed_slot (spend_attempt m) = mg_confirmed_slot m" and "mg_pending_slot (spend_attempt m) = mg_pending_slot m"
proof -
  note t = trying_pending [OF assms(1,2)]
  have one: "mg_tries_remaining m = 1"
    using t(1) assms(3) by (auto simp: trying_def le_one)
  show i: "same_images m (spend_attempt m)"
    using t(2) by (auto simp: same_images_def spend_attempt_def upd_slot_def at2_set2 slot_image_def slot_region_def)
  show "mg_tries_remaining (spend_attempt m) = 0" "mg_confirmed_slot (spend_attempt m) = mg_confirmed_slot m"
    "mg_pending_slot (spend_attempt m) = mg_pending_slot m" using one by (simp_all add: spend_attempt_def upd_slot_def)
  have "slot_ok (slot_at (spend_attempt m) i)" if "i \<in> {0, 1}" for i
    by (rule slot_ok_keep [of "slot_at m i"])
      (use t that i in \<open>auto simp: spend_attempt_def upd_slot_def at2_set2 slot_image_def slot_region_def trying_def\<close>)
  moreover have "trying (spend_attempt m)" using t(1,2) one by (auto simp: trying_def spend_attempt_def upd_slot_def at2_set2)
  ultimately show "boot_slot_manager_validate (spend_attempt m)"
    using t(2) by (intro validate_by_images [OF assms(1) i]) (auto simp: spend_attempt_def upd_slot_def)
qed

lemma rollback_valid:
  assumes "boot_slot_manager_validate m" and "mg_pending_slot m \<noteq> BOOT_SLOT_NONE"
  shows "\<exists>m'. bs_apply_rollback m = Some m' \<and> boot_slot_manager_validate m' \<and> same_images m m' \<and>
    mg_confirmed_slot m' = mg_confirmed_slot m \<and> mg_pending_slot m' = BOOT_SLOT_NONE \<and>
    sl_state (slot_at m' (mg_pending_slot m)) = BOOT_SLOT_FAILED"
proof -
  note t = trying_pending [OF assms]
  obtain m' where m': "bs_apply_rollback m = Some m'" using t(2) by (auto simp: bs_apply_rollback_def BOOT_SLOT_COUNT_def BOOT_SLOT_NONE_def)
  have e: "m' = (upd_slot (mg_confirmed_slot m) (\<lambda>sl. sl\<lparr>sl_state := BOOT_SLOT_ACTIVE, sl_health_confirmed := True\<rparr>)
      (upd_slot (mg_pending_slot m) (\<lambda>sl. sl\<lparr>sl_state := BOOT_SLOT_FAILED, sl_health_confirmed := False, sl_fail_count := sl_fail_count sl + 1\<rparr>) m))
      \<lparr>mg_active_slot := mg_confirmed_slot m, mg_next_slot := mg_confirmed_slot m, mg_rollback_pending := False,
       mg_pending_slot := BOOT_SLOT_NONE, mg_tries_remaining := 0\<rparr>"
    using m' by (simp add: bs_apply_rollback_def Let_def split: if_splits)
  have i: "same_images m m'"
    using t(2) by (auto simp: e same_images_def upd_slot_def at2_set2 slot_image_def slot_region_def)
  have "slot_ok (slot_at m' i)" if "i \<in> {0, 1}" for i
    by (rule slot_ok_keep [of "slot_at m i"])
      (use t that in \<open>auto simp: e upd_slot_def at2_set2 slot_image_def slot_region_def trying_def\<close>)
  moreover have "settled m'" using t(1,2) by (auto simp: settled_def e upd_slot_def at2_set2)
  ultimately have "boot_slot_manager_validate m'"
    using t(2) by (intro validate_by_images [OF assms(1) i]) (auto simp: e upd_slot_def)
  then show ?thesis using m' i t(2) by (auto simp: e upd_slot_def at2_set2)
qed

lemma confirm_valid:
  assumes "boot_slot_manager_validate m" and "mg_pending_slot m = slot" and "slot < 2" and "mg_tries_remaining m = 0"
  shows "boot_slot_manager_validate (confirmed_manager slot m)" and "same_images m (confirmed_manager slot m)"
    and "mg_confirmed_slot (confirmed_manager slot m) = slot"
proof -
  have "mg_pending_slot m \<noteq> BOOT_SLOT_NONE" using assms(2,3) by auto
  note t = trying_pending [OF assms(1) this]
  show i: "same_images m (confirmed_manager slot m)"
    using t(2) assms(2) by (auto simp: same_images_def confirmed_manager_def Let_def upd_slot_def at2_set2 slot_image_def slot_region_def)
  show "mg_confirmed_slot (confirmed_manager slot m) = slot" by (simp add: confirmed_manager_def Let_def)
  have "slot_ok (slot_at (confirmed_manager slot m) i)" if "i \<in> {0, 1}" for i
    by (rule slot_ok_keep [of "slot_at m i"])
      (use t that assms in \<open>auto simp: confirmed_manager_def Let_def upd_slot_def at2_set2 slot_image_def slot_region_def trying_def\<close>)
  moreover have "settled (confirmed_manager slot m)"
    using t(1,2) assms by (auto simp: settled_def trying_def confirmed_manager_def Let_def upd_slot_def at2_set2)
  ultimately show "boot_slot_manager_validate (confirmed_manager slot m)"
    using assms(3) by (intro validate_by_images [OF assms(1) i]) (auto simp: confirmed_manager_def Let_def)
qed

subsection \<open>New images\<close>

lemma takeWhile_take_comm: "takeWhile P (take n xs) = take n (takeWhile P xs)"
  by (induction xs arbitrary: n) (auto simp: take_Cons split: nat.splits)

lemma string_fits_copy:
  assumes "bs_string_fits v BOOT_SLOT_VERSION_MAX"
  shows "bs_string_fits (bs_strcpy v BOOT_SLOT_VERSION_MAX) BOOT_SLOT_VERSION_MAX"
proof -
  let ?tw = "takeWhile (\<lambda>b. b \<noteq> 0) v"
  have t: "list_all printable ?tw" "0 < length ?tw" "length ?tw < 40"
    using assms by (auto simp: bs_string_fits_def Let_def BOOT_SLOT_VERSION_MAX_def takeWhile_take_comm min_def split: if_splits)
  then have "take 39 ?tw = ?tw" by simp
  then have e: "bs_strcpy v 40 = ?tw @ replicate (40 - length ?tw) 0" by (simp add: bs_strcpy_def Let_def)
  have "takeWhile (\<lambda>b. b \<noteq> 0) (bs_strcpy v 40) = ?tw" unfolding e by (rule takeWhile_padded) (auto dest: set_takeWhileD)
  moreover have "length (bs_strcpy v 40) = 40" using t e by simp
  ultimately show ?thesis using t by (simp add: bs_string_fits_def Let_def BOOT_SLOT_VERSION_MAX_def)
qed

definition image_wf :: "boot_slot_image \<Rightarrow> bool" where
  "image_wf img \<longleftrightarrow> length (im_version img) = BOOT_SLOT_VERSION_MAX \<and> length (im_payload_sha256 img) = BOOT_SLOT_SHA256_SIZE"

lemma apply_image_ok:
  assumes "slot_ok sl" and "bs_image_valid img (sl_payload_capacity_sectors sl)" and "image_wf img" and "st \<noteq> BOOT_SLOT_EMPTY"
  shows "slot_ok (bs_slot_apply_image sl i img st)" and "slot_wf i (bs_slot_apply_image sl i img st)"
    and "slot_region (bs_slot_apply_image sl i img st) = slot_region sl" and "sl_state (bs_slot_apply_image sl i img st) = st"
proof -
  have "bs_digest_present (take BOOT_SLOT_SHA256_SIZE (im_payload_sha256 img))"
    using assms(2) by (simp add: bs_image_valid_def digest_present_iff)
  then show "slot_ok (bs_slot_apply_image sl i img st)"
    using assms string_fits_copy by (auto simp: slot_ok_def bs_slot_identity_valid_def bs_image_valid_def bs_slot_apply_image_def slot_zero_def)
  show "slot_wf i (bs_slot_apply_image sl i img st)" using assms(3) by (simp add: slot_wf_def bs_slot_apply_image_def slot_zero_def image_wf_def)
  show "slot_region (bs_slot_apply_image sl i img st) = slot_region sl" "sl_state (bs_slot_apply_image sl i img st) = st"
    by (simp_all add: slot_region_def bs_slot_apply_image_def slot_zero_def)
qed

text \<open>Replacing the image of the slot that is not confirmed.\<close>

lemma replace_image_valid:
  assumes "boot_slot_manager_validate m" and "manager_wf m" and "mg_pending_slot m = BOOT_SLOT_NONE" and "slot < 2" and "slot \<noteq> mg_confirmed_slot m"
    and "bs_image_valid img (sl_payload_capacity_sectors (slot_at m slot))" and "image_wf img"
    and "m' = (upd_slot slot (\<lambda>sl. bs_slot_apply_image sl slot img st) m)\<lparr>mg_next_slot := n\<rparr>"
    and "st = BOOT_SLOT_FAILED \<and> n = mg_confirmed_slot m \<or> st = BOOT_SLOT_VALID \<and> n = slot"
  shows "boot_slot_manager_validate m'" and "manager_wf m'" and "manager_layout m' = manager_layout m"
    and "mg_confirmed_slot m' = mg_confirmed_slot m" and "slot_at m' (mg_confirmed_slot m) = slot_at m (mg_confirmed_slot m)"
    and "mg_pending_slot m' = BOOT_SLOT_NONE"
proof -
  have v: "mg_confirmed_slot m < 2" "boot_slot_layout_plan (mg_boot_sectors m) = Some (manager_layout m)" "slot_ok (slot_at m 0)" "slot_ok (slot_at m 1)" "settled m"
    using assms(1,3) by (auto simp: validate_iff trying_def lt_two BOOT_SLOT_NONE_def)
  have c: "mg_confirmed_slot m = 0 \<and> slot = 1 \<or> mg_confirmed_slot m = 1 \<and> slot = 0" using v(1) assms(4,5) by (auto simp: lt_two)
  have ne: "st \<noteq> BOOT_SLOT_EMPTY" using assms(9) by auto
  have sl: "slot_ok (slot_at m slot)" using c v by auto
  note a = apply_image_ok [OF sl assms(6,7) ne, of slot]
  have at: "slot_at m' i = (if i = slot then bs_slot_apply_image (slot_at m slot) slot img st else slot_at m i)" if "i < 2" for i
    using that assms(4) by (auto simp: assms(8) upd_slot_def at2_set2)
  show l: "manager_layout m' = manager_layout m"
    using c a(3) by (auto simp: manager_layout_def at) (simp_all add: assms(8) upd_slot_def)
  show conf: "mg_confirmed_slot m' = mg_confirmed_slot m" "mg_pending_slot m' = BOOT_SLOT_NONE" using assms(3) by (simp_all add: assms(8) upd_slot_def)
  show "slot_at m' (mg_confirmed_slot m) = slot_at m (mg_confirmed_slot m)" using v(1) assms(5) by (simp add: at)
  show "manager_wf m'" using assms(2) a(2) c by (auto simp: manager_wf_def at)
  have ok: "slot_ok (slot_at m' 0)" "slot_ok (slot_at m' 1)" using v a(1) by (auto simp: at)
  have "settled m'" using v(5) c a(4) assms(9) by (auto simp: settled_def assms(8) upd_slot_def at2_set2)
  then show "boot_slot_manager_validate m'" using ok v l conf by (simp add: validate_iff) (simp add: assms(8) upd_slot_def)
qed

lemma plan_payload_lba: "boot_slot_layout_plan n = Some layout \<Longrightarrow> rg_payload_lba (at2 (ly_slots layout) i) = rg_header_lba (at2 (ly_slots layout) i) + 1"
  by (auto simp: boot_slot_layout_plan_def Let_def at2_def split: if_splits)

lemma initial_valid:
  assumes "boot_slot_layout_plan (ly_boot_sectors layout) = Some layout" and "bs_image_valid img (rg_payload_capacity_sectors (at2 (ly_slots layout) 0))"
    and "image_wf img"
  shows "boot_slot_manager_validate (initial_manager layout img)" and "manager_wf (initial_manager layout img)"
    and "manager_layout (initial_manager layout img) = layout" and "mg_pending_slot (initial_manager layout img) = BOOT_SLOT_NONE"
proof -
  let ?m = "initial_manager layout img"
  note p = plan_values [OF assms(1)]
  have reg: "slot_region (slot_at ?m 0) = at2 (ly_slots layout) 0" "slot_region (slot_at ?m 1) = at2 (ly_slots layout) 1"
    by (simp_all add: initial_manager_def Let_def upd_slot_def at2_set2 slot_region_def bs_slot_apply_image_def bs_manager_defaults_def slot_zero_def)
  have s0: "slot_at ?m 0 = (bs_slot_apply_image (slot_zero\<lparr>sl_header_lba := rg_header_lba (at2 (ly_slots layout) 0),
      sl_payload_lba := rg_payload_lba (at2 (ly_slots layout) 0), sl_payload_capacity_sectors := rg_payload_capacity_sectors (at2 (ly_slots layout) 0)\<rparr>)
      0 img BOOT_SLOT_ACTIVE)\<lparr>sl_boot_count := 1, sl_success_count := 1, sl_health_confirmed := True\<rparr>"
    by (simp add: initial_manager_def Let_def upd_slot_def at2_set2 bs_slot_apply_image_def bs_manager_defaults_def)
  have s1: "slot_at ?m 1 = slot_zero\<lparr>sl_name := slot_letter 1, sl_header_lba := rg_header_lba (at2 (ly_slots layout) 1),
      sl_payload_lba := rg_payload_lba (at2 (ly_slots layout) 1), sl_payload_capacity_sectors := rg_payload_capacity_sectors (at2 (ly_slots layout) 1)\<rparr>"
    by (simp add: initial_manager_def Let_def upd_slot_def at2_set2 bs_manager_defaults_def)
  have g: "rg_payload_lba (at2 (ly_slots layout) i) = rg_header_lba (at2 (ly_slots layout) i) + 1 \<and> rg_payload_capacity_sectors (at2 (ly_slots layout) i) \<noteq> 0"
    if "i = 0 \<or> i = 1" for i
  proof -
    have "0 < unat (rg_payload_capacity_sectors (at2 (ly_slots layout) i))" using that p(1,5,8) by auto
    moreover have "rg_payload_lba (at2 (ly_slots layout) i) = rg_header_lba (at2 (ly_slots layout) i) + 1"
      by (rule plan_payload_lba [OF assms(1)])
    ultimately show ?thesis by auto
  qed
  have z: "\<not> bs_digest_present (replicate BOOT_SLOT_SHA256_SIZE 0)" by (simp add: digest_present_iff)
  have "slot_ok (slot_at ?m 1)" unfolding s1 using g [of 1] z
    by (simp add: slot_ok_def bs_slot_identity_valid_def slot_zero_def BOOT_SLOT_VERSION_MAX_def)
  moreover have "slot_ok (slot_at ?m 0)"
  proof -
    have "bs_digest_present (take BOOT_SLOT_SHA256_SIZE (im_payload_sha256 img))" using assms(2) by (simp add: bs_image_valid_def digest_present_iff)
    then show ?thesis unfolding s0 using g [of 0] assms(2) string_fits_copy
      by (auto simp: slot_ok_def bs_slot_identity_valid_def bs_image_valid_def bs_slot_apply_image_def slot_zero_def)
  qed
  moreover have l: "manager_layout ?m = layout"
  proof -
    have "mg_boot_sectors ?m = ly_boot_sectors layout" "mg_control_lba ?m = ly_control_lba layout"
      by (simp_all add: initial_manager_def Let_def upd_slot_def two_eq_iff)
    then show ?thesis using reg by (cases layout) (simp add: manager_layout_def two_eq_iff)
  qed
  moreover have f: "mg_confirmed_slot ?m = 0" "mg_pending_slot ?m = BOOT_SLOT_NONE" "mg_boot_sectors ?m = ly_boot_sectors layout"
    by (simp_all add: initial_manager_def Let_def upd_slot_def)
  moreover have "settled ?m"
  proof -
    have "sl_state (slot_at ?m 0) = BOOT_SLOT_ACTIVE" "sl_health_confirmed (slot_at ?m 0)" "sl_state (slot_at ?m 1) = BOOT_SLOT_EMPTY"
      unfolding s0 s1 by (simp_all add: bs_slot_apply_image_def slot_zero_def)
    then show ?thesis using f unfolding settled_def by (simp add: initial_manager_def Let_def upd_slot_def)
  qed
  ultimately show "boot_slot_manager_validate ?m" "manager_layout ?m = layout" "mg_pending_slot ?m = BOOT_SLOT_NONE"
    using assms(1) by (simp_all add: validate_iff)
  have zp: "version_padded (replicate BOOT_SLOT_VERSION_MAX 0)" by (simp add: version_padded_def bs_strcpy_def Let_def BOOT_SLOT_VERSION_MAX_def)
  show "manager_wf ?m"
    unfolding manager_wf_def s0 s1 slot_wf_def using assms(3) zp by (simp add: bs_slot_apply_image_def slot_zero_def image_wf_def)
qed

subsection \<open>The abstract machine\<close>

inductive ab_step :: "boot_slot_manager \<Rightarrow> boot_slot_manager \<Rightarrow> bool" where
  trial: "mg_pending_slot m = BOOT_SLOT_NONE \<Longrightarrow> slot < 2 \<Longrightarrow> slot \<noteq> mg_confirmed_slot m \<Longrightarrow> sl_state (slot_at m slot) = BOOT_SLOT_VALID \<Longrightarrow>
    ab_step m (on_trial slot m)"
| spend: "mg_pending_slot m \<noteq> BOOT_SLOT_NONE \<Longrightarrow> mg_tries_remaining m > 0 \<Longrightarrow> ab_step m (spend_attempt m)"
| rollback: "mg_pending_slot m \<noteq> BOOT_SLOT_NONE \<Longrightarrow> bs_apply_rollback m = Some m' \<Longrightarrow> ab_step m m'"
| confirm: "mg_pending_slot m = slot \<Longrightarrow> slot < 2 \<Longrightarrow> mg_tries_remaining m = 0 \<Longrightarrow> ab_step m (confirmed_manager slot m)"
| stage: "mg_pending_slot m = BOOT_SLOT_NONE \<Longrightarrow> slot < 2 \<Longrightarrow> slot \<noteq> mg_confirmed_slot m \<Longrightarrow>
    bs_image_valid img (sl_payload_capacity_sectors (slot_at m slot)) \<Longrightarrow> image_wf img \<Longrightarrow> ab_step m (staged_manager slot img m)"
| publish: "mg_pending_slot m = BOOT_SLOT_NONE \<Longrightarrow> slot < 2 \<Longrightarrow> slot \<noteq> mg_confirmed_slot m \<Longrightarrow>
    bs_image_valid img (sl_payload_capacity_sectors (slot_at m slot)) \<Longrightarrow> image_wf img \<Longrightarrow> ab_step m (published_manager slot img m)"

definition manager_ok :: "boot_slot_layout \<Rightarrow> boot_slot_manager \<Rightarrow> bool" where
  "manager_ok layout m \<longleftrightarrow> boot_slot_manager_validate m \<and> manager_wf m \<and> manager_layout m = layout"

lemma manager_ok_by_images: "manager_ok layout m \<Longrightarrow> same_images m m' \<Longrightarrow> boot_slot_manager_validate m' \<Longrightarrow> manager_ok layout m'"
  by (simp add: manager_ok_def same_images_wf same_images_layout)

lemma ab_step_ok:
  assumes "ab_step m m'" and "manager_ok layout m"
  shows "manager_ok layout m'"
  using assms
proof cases
  case (trial slot)
  then show ?thesis using assms(2) trial_valid [of m slot] manager_ok_by_images [OF assms(2)] by (simp add: manager_ok_def)
next
  case spend
  then show ?thesis using assms(2) spend_valid [of m] manager_ok_by_images [OF assms(2)] by (simp add: manager_ok_def)
next
  case rollback
  then show ?thesis using assms(2) rollback_valid [of m] manager_ok_by_images [OF assms(2)] by (auto simp: manager_ok_def)
next
  case (confirm slot)
  then show ?thesis using assms(2) confirm_valid [of m slot] manager_ok_by_images [OF assms(2)] by (simp add: manager_ok_def)
next
  case (stage slot img)
  then show ?thesis
    using assms(2) replace_image_valid [of m slot img m' "mg_confirmed_slot m" BOOT_SLOT_FAILED] by (simp add: manager_ok_def staged_manager_def)
next
  case (publish slot img)
  then show ?thesis
    using assms(2) replace_image_valid [of m slot img m' slot BOOT_SLOT_VALID] by (simp add: manager_ok_def published_manager_def)
qed

text \<open>Only a confirmation changes which slot is confirmed, and no step changes the image of the confirmed slot.\<close>

lemma ab_step_fallback:
  assumes "ab_step m m'" and "manager_ok layout m"
  shows "mg_confirmed_slot m' = mg_confirmed_slot m \<or> m' = confirmed_manager (mg_pending_slot m) m"
    and "slot_image (slot_at m' (mg_confirmed_slot m)) = slot_image (slot_at m (mg_confirmed_slot m))"
proof -
  have v: "boot_slot_manager_validate m" "manager_wf m" using assms(2) by (simp_all add: manager_ok_def)
  have c: "mg_confirmed_slot m \<in> {0, 1}" using v(1) by (auto simp: validate_iff lt_two)
  have "(mg_confirmed_slot m' = mg_confirmed_slot m \<or> m' = confirmed_manager (mg_pending_slot m) m) \<and>
    slot_image (slot_at m' (mg_confirmed_slot m)) = slot_image (slot_at m (mg_confirmed_slot m))"
    using assms(1)
  proof cases
    case (trial slot)
    then show ?thesis using trial_valid [OF v(1), of slot] c by (auto simp: same_images_def)
  next
    case spend
    then show ?thesis using spend_valid [OF v(1)] c by (auto simp: same_images_def)
  next
    case rollback
    then show ?thesis using rollback_valid [OF v(1)] c by (auto simp: same_images_def)
  next
    case (confirm slot)
    then show ?thesis using confirm_valid [OF v(1), of slot] c by (auto simp: same_images_def)
  next
    case (stage slot img)
    then show ?thesis
      using replace_image_valid [OF v, of slot img m' "mg_confirmed_slot m" BOOT_SLOT_FAILED] by (simp add: staged_manager_def)
  next
    case (publish slot img)
    then show ?thesis
      using replace_image_valid [OF v, of slot img m' slot BOOT_SLOT_VALID] by (simp add: published_manager_def)
  qed
  then show "mg_confirmed_slot m' = mg_confirmed_slot m \<or> m' = confirmed_manager (mg_pending_slot m) m"
    and "slot_image (slot_at m' (mg_confirmed_slot m)) = slot_image (slot_at m (mg_confirmed_slot m))" by auto
qed

end
