(* ===== verification/BootCommit.thy ===== *)
theory BootCommit
  imports BootLife
begin

text \<open>
  Reading control records: whatever a record decodes to is a well-formed, valid manager. \<open>usable\<close> is what the binding code accepts of a sector, and
  the choice between the two copies is stated on it: the newer of two usable copies, or the only one when no slot is on trial.
\<close>

subsection \<open>Reading records\<close>

lemma decode_slot_wf:
  assumes "bs_decode_slot r off (slot_zero\<lparr>sl_name := slot_letter i\<rparr>) = Some sl" and "off + 128 \<le> length r"
  shows "slot_wf i sl"
proof -
  obtain v where v: "bs_decode_version (drop (off + 40) r) = Some v"
    using assms(1) by (cases "bs_decode_version (drop (off + 40) r)") (auto simp: bs_decode_slot_def Let_def split: if_splits)
  have "sl_name sl = slot_letter i \<and> sl_version sl = v \<and> sl_payload_sha256 sl = take 32 (drop (off + 80) r)"
    using assms(1) unfolding bs_decode_slot_def Let_def v BOOT_SLOT_SHA256_SIZE_def by (auto split: if_splits)
  moreover have "version_padded v"
  proof -
    let ?t = "takeWhile (\<lambda>b. b \<noteq> 0) (take 40 (drop (off + 40) r))"
    have e: "v = ?t @ replicate (40 - length ?t) 0" and l: "length ?t \<noteq> 40"
      using v by (auto simp: bs_decode_version_def Let_def BOOT_SLOT_VERSION_MAX_def split: if_splits)
    have "length ?t \<le> 40" using length_takeWhile_le [of "\<lambda>b. b \<noteq> 0" "take 40 (drop (off + 40) r)"] by (simp add: min_def split: if_splits)
    then have l39: "length ?t \<le> 39" using l by simp
    have tw: "takeWhile (\<lambda>b. b \<noteq> 0) v = ?t" unfolding e by (rule takeWhile_padded) (auto dest: set_takeWhileD)
    show ?thesis unfolding version_padded_def bs_strcpy_def Let_def tw BOOT_SLOT_VERSION_MAX_def using l39 by (subst e) simp
  qed
  ultimately show ?thesis using assms(2) by (simp add: slot_wf_def BOOT_SLOT_SHA256_SIZE_def)
qed

lemma decode_ok:
  assumes "bs_record_decode r = Some (m, g)" and "length r = 512"
  shows "boot_slot_manager_validate m" and "manager_wf m" and "g \<noteq> 0"
proof -
  let ?d = "bs_manager_defaults\<lparr>mg_active_slot := le32_at r 24, mg_next_slot := le32_at r 28, mg_confirmed_slot := le32_at r 36,
      mg_pending_slot := le32_at r 40, mg_tries_remaining := le32_at r 44, mg_boot_sectors := le32_at r 48, mg_control_lba := (le32_at r 52, le32_at r 56)\<rparr>"
  obtain s0 s1 where s: "bs_decode_slot r 64 (slot_at ?d 0) = Some s0" "bs_decode_slot r 192 (slot_at ?d 1) = Some s1"
    and m: "m = ?d\<lparr>mg_slots := (s0, s1), mg_rollback_pending := (le32_at r 32 \<noteq> 0)\<rparr>" "boot_slot_manager_validate m" and g: "g = le64_at r 16" "le64_at r 16 \<noteq> 0"
    using assms(1) unfolding bs_record_decode_def BS_RECORD_SLOT0_OFFSET_def BS_RECORD_SLOT_SIZE_def
    by (auto simp: Let_def split: if_splits option.splits)
  show "boot_slot_manager_validate m" "g \<noteq> 0" using m g by simp_all
  have "slot_wf 0 s0" by (rule decode_slot_wf [of r 64]) (use s assms(2) in \<open>simp_all add: bs_manager_defaults_def\<close>)
  moreover have "slot_wf 1 s1" by (rule decode_slot_wf [of r 192]) (use s assms(2) in \<open>simp_all add: bs_manager_defaults_def\<close>)
  ultimately show "manager_wf m" using m by (simp add: manager_wf_def)
qed

lemma encode_not_erased [simp]: "\<not> bs_record_erased (bs_record_encode m g)"
proof -
  have "bs_record_encode m g ! 0 = 0x43"
    using nth_put_in [of 0 "record_numbers m g" "replicate 512 0" 0]
    by (simp add: record_encode_nth record_body_header record_numbers_def bs_record_magic_def nth_append)
  then have "bs_record_encode m g ! 0 \<noteq> 0" "bs_record_encode m g ! 0 \<noteq> 0xFF" by simp_all
  then show ?thesis unfolding bs_record_erased_def list_all_upt BOOT_SLOT_PERSIST_RECORD_SIZE_def by (meson le0 zero_less_numeral)
qed

subsection \<open>What is stored\<close>

definition copy_lba :: "boot_slot_layout \<Rightarrow> u32 \<Rightarrow> nat" where
  "copy_lba layout i = unat (at2 (ly_control_lba layout) i)"

text \<open>The manager and generation in a record that the binding code accepts.\<close>

definition usable :: "boot_slot_layout \<Rightarrow> u8 list \<Rightarrow> (boot_slot_manager \<times> u64) option" where
  "usable layout r =
     (if bs_record_erased r then None
      else case bs_record_decode r of None \<Rightarrow> None | Some (m, g) \<Rightarrow> if bs_manager_matches_layout m layout then Some (m, g) else None)"

text \<open>What the binding code sees of a copy it could read.\<close>

definition copy_state :: "boot_slot_layout \<Rightarrow> u8 list \<Rightarrow> int \<times> u8 list \<times> (boot_slot_manager \<times> u64) option" where
  "copy_state layout r = (if bs_record_erased r then BOOT_SLOT_PERSIST_EMPTY else 0, r, usable layout r)"

lemma usable_ok:
  assumes "usable layout r = Some (m, g)" and "length r = 512"
  shows "manager_ok layout m" and "g \<noteq> 0"
proof -
  have "bs_record_decode r = Some (m, g)" "bs_manager_matches_layout m layout"
    using assms(1) by (auto simp: usable_def split: if_splits option.splits)
  then show "manager_ok layout m" "g \<noteq> 0" using decode_ok [OF _ assms(2)] by (auto simp: manager_ok_def matches_layout_iff)
qed

lemma usable_encoded:
  assumes "manager_ok layout m" and "g \<noteq> 0"
  shows "usable layout (bs_record_encode m g) = Some (m, g)"
  using assms record_roundtrip_core [of m g] by (simp add: usable_def manager_ok_def matches_layout_iff)

text \<open>Two usable copies with different generations: the newer one is taken.\<close>

lemma choose_newer:
  assumes "usable layout r0 = Some (m0, g0)" and "usable layout r1 = Some (m1, g1)" and "g0 \<noteq> g1"
  shows "choose_copy (copy_state layout r0) (copy_state layout r1) =
    (0, Some (if g0 < g1 then (m1, g1, 1, False) else (m0, g0, 0, False)))"
proof -
  have "\<not> bs_record_erased r0" "\<not> bs_record_erased r1" using assms by (auto simp: usable_def)
  then show ?thesis using assms by (simp add: choose_copy_def copy_state_def)
qed

text \<open>One copy that is damaged or missing: it is ignored, unless a slot is on trial.\<close>

lemma choose_damaged:
  assumes "usable layout r0 = Some (m, g)" and "usable layout r1 = None"
  shows "choose_copy (copy_state layout r0) (copy_state layout r1) =
      (if mg_pending_slot m = BOOT_SLOT_NONE then (0, Some (m, g, 0, True)) else (BOOT_SLOT_ERR_IO, None))"
    and "choose_copy (copy_state layout r1) (copy_state layout r0) =
      (if mg_pending_slot m = BOOT_SLOT_NONE then (0, Some (m, g, 1, True)) else (BOOT_SLOT_ERR_IO, None))"
  using assms by (simp_all add: choose_copy_def copy_state_def BOOT_SLOT_PERSIST_EMPTY_def)

end
