(* ===== verification/BootMedium.thy ===== *)
theory BootMedium
  imports BootCommit
begin

text \<open>
  The medium under the boot slots, and what it keeps through any sequence of failures. A device has a visible content and,
  because it may cache writes, a set of contents a power failure may leave of each sector; a flush makes the visible content last.
  The medium is sound when every record that may be left is usable and every slot it calls bootable has its header and
  payload, unchanged, under every outcome. The locale \<open>boot_medium\<close> is the contract with the device; in it
  every operation of the manager and of the store is shown to keep the medium sound, however its device calls fail.
\<close>

subsection \<open>Sound media\<close>

type_synonym leftovers = "nat \<Rightarrow> u8 list set"

definition image_of :: "boot_slot \<Rightarrow> boot_slot_image" where
  "image_of sl = \<lparr>im_version = sl_version sl, im_payload_size = sl_payload_size sl, im_payload_sha256 = sl_payload_sha256 sl\<rparr>"

definition sector_of :: "u8 list \<Rightarrow> nat \<Rightarrow> u8 list" where
  "sector_of payload i = chunk_at payload i @ replicate (BOOT_SLOT_STORE_SECTOR_SIZE - length (chunk_at payload i)) 0"

definition sector_count :: "nat \<Rightarrow> nat" where "sector_count n = (n + 511) div 512"

text \<open>The image is in its slot whatever a power failure leaves: header and payload are there, and the payload has the digest.\<close>

definition installed_as :: "boot_slot_layout \<Rightarrow> leftovers \<Rightarrow> u32 \<Rightarrow> boot_slot_image \<Rightarrow> u8 list \<Rightarrow> bool" where
  "installed_as layout L x img payload \<longleftrightarrow>
     length payload = unat (im_payload_size img) \<and> sha256_ref payload = im_payload_sha256 img \<and>
     sector_count (length payload) \<le> unat (rg_payload_capacity_sectors (at2 (ly_slots layout) x)) \<and>
     L (unat (rg_header_lba (at2 (ly_slots layout) x))) \<subseteq> {store_encode_header layout x img} \<and>
     (\<forall>i < sector_count (length payload). L (unat (rg_payload_lba (at2 (ly_slots layout) x)) + i) \<subseteq> {sector_of payload i})"

definition installed :: "boot_slot_layout \<Rightarrow> leftovers \<Rightarrow> u32 \<Rightarrow> boot_slot_image \<Rightarrow> bool" where
  "installed layout L x img \<longleftrightarrow> (\<exists>payload. installed_as layout L x img payload)"

definition bootable :: "boot_slot_state \<Rightarrow> bool" where
  "bootable st \<longleftrightarrow> st \<in> {BOOT_SLOT_VALID, BOOT_SLOT_ACTIVE, BOOT_SLOT_ROLLBACK}"

definition images_on :: "boot_slot_layout \<Rightarrow> leftovers \<Rightarrow> boot_slot_manager \<Rightarrow> bool" where
  "images_on layout L m \<longleftrightarrow> (\<forall>x\<in>{0, 1}. bootable (sl_state (slot_at m x)) \<longrightarrow> installed layout L x (image_of (slot_at m x)))"

text \<open>The slot to fall back to and its image. \<open>fallbacks\<close> are what it may be, with the bytes of the payload.\<close>

definition fallback :: "boot_slot_manager \<Rightarrow> u32 \<times> u8 list \<times> u32 \<times> u8 list \<times> boot_slot_region" where
  "fallback m = (mg_confirmed_slot m, slot_image (slot_at m (mg_confirmed_slot m)))"

type_synonym fallbacks = "((u32 \<times> u8 list \<times> u32 \<times> u8 list \<times> boot_slot_region) \<times> u8 list) set"

definition backed :: "boot_slot_layout \<Rightarrow> fallbacks \<Rightarrow> leftovers \<Rightarrow> boot_slot_manager \<Rightarrow> bool" where
  "backed layout K L m \<longleftrightarrow>
     (\<exists>payload. (fallback m, payload) \<in> K \<and> installed_as layout L (mg_confirmed_slot m) (image_of (slot_at m (mg_confirmed_slot m))) payload)"

definition good :: "boot_slot_layout \<Rightarrow> fallbacks \<Rightarrow> leftovers \<Rightarrow> boot_slot_manager \<Rightarrow> bool" where
  "good layout K L m \<longleftrightarrow> manager_ok layout m \<and> backed layout K L m \<and> images_on layout L m"

text \<open>Copy 0 has the odd generations and copy 1 the even ones, so two copies never have the same.\<close>

definition owns :: "u32 \<Rightarrow> u64 \<Rightarrow> bool" where "owns i g \<longleftrightarrow> g \<noteq> 0 \<and> (odd (unat g) \<longleftrightarrow> i = 0)"

definition sound :: "boot_slot_layout \<Rightarrow> fallbacks \<Rightarrow> leftovers \<Rightarrow> bool" where
  "sound layout K L \<longleftrightarrow>
     (\<forall>i\<in>{0, 1}. \<forall>r\<in>L (copy_lba layout i). \<exists>m g. usable layout r = Some (m, g) \<and> owns i g \<and> good layout K L m)"

subsection \<open>What keeps a medium sound\<close>

lemma installed_as_mono:
  assumes "installed_as layout L x img payload" and "\<forall>k\<in>slot_sectors layout x. L' k \<subseteq> L k"
  shows "installed_as layout L' x img payload"
proof -
  let ?rg = "at2 (ly_slots layout) x"
  have p: "sector_count (length payload) \<le> unat (rg_payload_capacity_sectors ?rg)" "L (unat (rg_header_lba ?rg)) \<subseteq> {store_encode_header layout x img}"
    "\<forall>i < sector_count (length payload). L (unat (rg_payload_lba ?rg) + i) \<subseteq> {sector_of payload i}"
    using assms(1) by (auto simp: installed_as_def)
  have "unat (rg_header_lba ?rg) \<in> slot_sectors layout x" by (simp add: slot_sectors_def)
  then have "L' (unat (rg_header_lba ?rg)) \<subseteq> {store_encode_header layout x img}" using assms(2) p(2) by blast
  moreover have "L' (unat (rg_payload_lba ?rg) + i) \<subseteq> {sector_of payload i}" if "i < sector_count (length payload)" for i
  proof -
    have "i < unat (rg_payload_capacity_sectors ?rg)" using that p(1) by linarith
    then have "unat (rg_payload_lba ?rg) + i \<in> slot_sectors layout x" by (simp add: slot_sectors_def)
    then have "L' (unat (rg_payload_lba ?rg) + i) \<subseteq> L (unat (rg_payload_lba ?rg) + i)" using assms(2) by blast
    then show ?thesis using p(3) that by blast
  qed
  ultimately show ?thesis using assms(1) unfolding installed_as_def by blast
qed

lemma installed_mono: "installed layout L x img \<Longrightarrow> \<forall>k\<in>slot_sectors layout x. L' k \<subseteq> L k \<Longrightarrow> installed layout L' x img"
  unfolding installed_def by (meson installed_as_mono)

lemma images_on_mono:
  assumes "images_on layout L m" and "\<forall>x\<in>{0, 1}. bootable (sl_state (slot_at m x)) \<longrightarrow> (\<forall>k\<in>slot_sectors layout x. L' k \<subseteq> L k)"
  shows "images_on layout L' m"
  unfolding images_on_def
proof (intro ballI impI)
  fix x :: u32
  assume x: "x \<in> {0, 1}" "bootable (sl_state (slot_at m x))"
  have "installed layout L x (image_of (slot_at m x))" using assms(1) x by (auto simp: images_on_def)
  moreover have "\<forall>k\<in>slot_sectors layout x. L' k \<subseteq> L k" using assms(2) x by blast
  ultimately show "installed layout L' x (image_of (slot_at m x))" by (rule installed_mono)
qed

lemma backed_mono:
  assumes "backed layout K L m" and "\<forall>k\<in>slot_sectors layout (mg_confirmed_slot m). L' k \<subseteq> L k"
  shows "backed layout K L' m"
  using assms(1) installed_as_mono [OF _ assms(2)] unfolding backed_def by blast

lemma good_mono:
  assumes "good layout K L m" and "\<forall>k. k \<notin> control_sectors layout \<longrightarrow> L' k \<subseteq> L k" and "boot_slot_layout_plan n = Some layout"
  shows "good layout K L' m"
proof -
  have s: "\<forall>x\<in>{0, 1}. \<forall>k\<in>slot_sectors layout x. L' k \<subseteq> L k" using plan_disjoint(2,3) [OF assms(3)] assms(2) by auto
  have "mg_confirmed_slot m < 2" using assms(1) by (simp add: good_def manager_ok_def validate_iff)
  then have "backed layout K L' m" using backed_mono [of layout K L m L'] assms(1) s by (auto simp: good_def lt_two)
  then show ?thesis using assms(1) images_on_mono [of layout L m L'] s by (simp add: good_def)
qed

lemma copy_lba_control: "i < 2 \<Longrightarrow> copy_lba layout i \<in> control_sectors layout"
  by (auto simp: copy_lba_def control_sectors_def lt_two)

lemma copy_lba_neq: "boot_slot_layout_plan n = Some layout \<Longrightarrow> copy_lba layout 0 \<noteq> copy_lba layout 1"
  using plan_values(1,9,10) [of n layout] by (simp add: copy_lba_def)

text \<open>A record may be replaced by a good one of the right generation.\<close>

lemma sound_write:
  assumes "sound layout K L" and "boot_slot_layout_plan n = Some layout" and "i < 2"
    and "good layout K L m" and "owns i g"
    and "\<forall>k. k \<noteq> copy_lba layout i \<longrightarrow> L' k \<subseteq> L k" and "L' (copy_lba layout i) \<subseteq> insert (bs_record_encode m g) (L (copy_lba layout i))"
  shows "sound layout K L'"
  unfolding sound_def
proof (intro ballI)
  fix j :: u32 and r
  assume j: "j \<in> {0, 1}" and r: "r \<in> L' (copy_lba layout j)"
  have mono: "\<forall>k. k \<notin> control_sectors layout \<longrightarrow> L' k \<subseteq> L k" using assms(6) copy_lba_control [OF assms(3)] by metis
  note lift = good_mono [OF _ mono assms(2)]
  show "\<exists>m g. usable layout r = Some (m, g) \<and> owns j g \<and> good layout K L' m"
  proof (cases "r \<in> L (copy_lba layout j)")
    case True
    then obtain m' g' where "usable layout r = Some (m', g')" "owns j g'" "good layout K L m'" using assms(1) j by (auto simp: sound_def)
    then show ?thesis using lift by blast
  next
    case False
    then have "copy_lba layout j = copy_lba layout i" using assms(6) r by blast
    then have ji: "j = i" using j assms(3) copy_lba_neq [OF assms(2)] by (auto simp: lt_two)
    then have "r = bs_record_encode m g" using False assms(7) r by blast
    then have "usable layout r = Some (m, g)" using usable_encoded [of layout m g] assms(4,5) by (simp add: good_def owns_def)
    then show ?thesis using lift [OF assms(4)] assms(5) ji by blast
  qed
qed

lemma sound_shrink: "sound layout K L \<Longrightarrow> boot_slot_layout_plan n = Some layout \<Longrightarrow> \<forall>k. L' k \<subseteq> L k \<Longrightarrow> sound layout K L'"
  unfolding sound_def by (meson good_mono subsetD)

lemma unat_next:
  fixes g :: u64
  assumes "g \<noteq> UINT64_MAX"
  shows "unat (g + 1) = unat g + 1"
proof -
  have "unat g \<noteq> unat (UINT64_MAX)" using assms by (simp add: word_unat_eq_iff)
  moreover have "unat g < 2 ^ LENGTH(64)" by (rule unsigned_less)
  ultimately have "unat g + 1 < 2 ^ LENGTH(64)" by (simp add: UINT64_MAX_def)
  then show ?thesis by (simp add: unat_word_ariths)
qed

lemma owns_next:
  assumes "owns i g" and "i < 2" and "g \<noteq> UINT64_MAX"
  shows "owns (i XOR 1) (g + 1)"
proof -
  have u: "unat (g + 1) = unat g + 1" by (rule unat_next [OF assms(3)])
  then have "g + 1 \<noteq> 0" by (metis add_is_0 one_neq_zero unat_0)
  then show ?thesis using assms(1,2) u by (auto simp: owns_def lt_two)
qed

lemma owns_neq: "owns 0 g \<Longrightarrow> owns 1 h \<Longrightarrow> g \<noteq> h"
  by (auto simp: owns_def)

subsection \<open>Transitions\<close>

lemma image_of_eq: "slot_image a = slot_image b \<Longrightarrow> image_of a = image_of b"
  by (simp add: slot_image_def image_of_def)

lemma backed_cong:
  assumes "fallback m' = fallback m"
  shows "backed layout K L m' = backed layout K L m"
proof -
  have c: "mg_confirmed_slot m' = mg_confirmed_slot m" and "slot_image (slot_at m' (mg_confirmed_slot m)) = slot_image (slot_at m (mg_confirmed_slot m))"
    using assms by (auto simp: fallback_def)
  then have "image_of (slot_at m' (mg_confirmed_slot m)) = image_of (slot_at m (mg_confirmed_slot m))" by (intro image_of_eq)
  then show ?thesis unfolding backed_def assms c by simp
qed

text \<open>A slot that is bootable after a step was bootable before it, with the same image, unless it has been published.\<close>

lemma ab_step_bootable:
  assumes "ab_step m m'" and "manager_ok layout m" and "x \<in> {0, 1}" and "bootable (sl_state (slot_at m' x))"
  shows "bootable (sl_state (slot_at m x)) \<and> image_of (slot_at m' x) = image_of (slot_at m x) \<or>
    (\<exists>img. m' = published_manager x img m)"
proof -
  have v: "boot_slot_manager_validate m" "manager_wf m" using assms(2) by (simp_all add: manager_ok_def)
  have c: "mg_confirmed_slot m < 2" using v(1) by (simp add: validate_iff)
  have x: "x < 2" using assms(3) by (auto simp: lt_two)
  note im = image_of_eq
  from assms(1) show ?thesis
  proof cases
    case (trial slot)
    have st: "settled m" using v(1) trial(2) by (auto simp: validate_iff trying_def lt_two BOOT_SLOT_NONE_def)
    have "image_of (slot_at m' x) = image_of (slot_at m x)" using trial_valid(2) [OF v(1) trial(2-5)] trial(1) assms(3) by (auto simp: same_images_def intro: im)
    moreover have "bootable (sl_state (slot_at m x))"
      using assms(4) trial st x c by (auto simp: on_trial_def upd_slot_def at2_set2 bootable_def settled_def split: if_splits)
    ultimately show ?thesis by simp
  next
    case spend
    have "mg_pending_slot m < 2" using trying_pending(2) [OF v(1) spend(2)] by auto
    then have "sl_state (slot_at m' x) = sl_state (slot_at m x)" using spend x by (simp add: spend_attempt_def upd_slot_def at2_set2)
    then show ?thesis using spend_valid(2) [OF v(1) spend(2,3)] spend(1) assms(3,4) by (auto simp: same_images_def intro: im)
  next
    case rollback
    note t = trying_pending [OF v(1) rollback(1)]
    have "image_of (slot_at m' x) = image_of (slot_at m x)"
      using rollback_valid [OF v(1) rollback(1)] rollback(2) assms(3) by (auto simp: same_images_def intro: im)
    moreover have "bootable (sl_state (slot_at m x))" using t(1,2) x by (auto simp: trying_def bootable_def lt_two)
    ultimately show ?thesis by simp
  next
    case (confirm slot)
    have "mg_pending_slot m \<noteq> BOOT_SLOT_NONE" using confirm by auto
    note t = trying_pending [OF v(1) this]
    have "image_of (slot_at m' x) = image_of (slot_at m x)"
      using confirm_valid(2) [OF v(1) confirm(2-4)] confirm(1) assms(3) by (auto simp: same_images_def intro: im)
    moreover have "bootable (sl_state (slot_at m x))" using t(1,2) x by (auto simp: trying_def bootable_def lt_two)
    ultimately show ?thesis by simp
  next
    case (stage slot img)
    then have "x \<noteq> slot" using assms(4) x by (auto simp: staged_manager_def upd_slot_def at2_set2 bs_slot_apply_image_def bootable_def)
    then show ?thesis using stage assms(4) x by (auto simp: staged_manager_def upd_slot_def at2_set2)
  next
    case (publish slot img)
    show ?thesis
    proof (cases "x = slot")
      case True
      then show ?thesis using publish(1) by blast
    next
      case False
      then show ?thesis using publish assms(4) x by (auto simp: published_manager_def upd_slot_def at2_set2)
    qed
  qed
qed

lemma good_step:
  assumes "ab_step m m'" and "good layout K L m" and "\<forall>x img. m' \<noteq> published_manager x img m" and "backed layout K L m'"
  shows "good layout K L m'"
proof -
  have ok: "manager_ok layout m" using assms(2) by (simp add: good_def)
  have "images_on layout L m'"
    unfolding images_on_def using ab_step_bootable [OF assms(1) ok] assms(2,3) by (metis good_def images_on_def)
  then show ?thesis using ab_step_ok [OF assms(1) ok] assms(4) by (simp add: good_def)
qed

lemma step_fallback:
  assumes "ab_step m m'" and "manager_ok layout m" and "m' \<noteq> confirmed_manager (mg_pending_slot m) m"
  shows "fallback m' = fallback m"
  using ab_step_fallback [OF assms(1,2)] assms(3) by (auto simp: fallback_def)

subsection \<open>The contract with the device\<close>

text \<open>
  \<open>content\<close> is what reads return, \<open>lasting\<close> what a power failure may leave. Every call may fail; a failed write may have happened or not.
\<close>

locale boot_medium =
  fixes ios :: "nat \<Rightarrow> 'c sector_io"
    and layout :: boot_slot_layout
    and valid :: "'c \<Rightarrow> bool"
    and content :: "'c \<Rightarrow> nat \<Rightarrow> u8 list"
    and lasting :: "'c \<Rightarrow> leftovers"
  assumes plan: "boot_slot_layout_plan (ly_boot_sectors layout) = Some layout"
    and content_lasting: "valid c \<Longrightarrow> k < unat (ly_boot_sectors layout) \<Longrightarrow> content c k \<in> lasting c k"
    and sector_length: "valid c \<Longrightarrow> k < unat (ly_boot_sectors layout) \<Longrightarrow> r \<in> lasting c k \<Longrightarrow> length r = BOOT_SLOT_STORE_SECTOR_SIZE"
    and read_law: "valid c \<Longrightarrow> unat lba < unat (ly_boot_sectors layout) \<Longrightarrow> sec_read (ios h) lba c = (rc, r, c') \<Longrightarrow>
      valid c' \<and> rc \<le> 0 \<and> content c' = content c \<and> (\<forall>k. lasting c' k \<subseteq> lasting c k) \<and> (rc = 0 \<longrightarrow> r = content c (unat lba))"
    and write_law: "valid c \<Longrightarrow> unat lba < unat (ly_boot_sectors layout) \<Longrightarrow> length b = BOOT_SLOT_STORE_SECTOR_SIZE \<Longrightarrow>
      sec_write (ios h) lba b c = (rc, c') \<Longrightarrow>
      valid c' \<and> (\<forall>k. k \<noteq> unat lba \<longrightarrow> content c' k = content c k \<and> lasting c' k \<subseteq> lasting c k) \<and>
      lasting c' (unat lba) \<subseteq> insert b (lasting c (unat lba)) \<and> (rc = 0 \<longrightarrow> content c' (unat lba) = b)"
    and flush_law: "valid c \<Longrightarrow> sec_flush (ios h) c = (rc, c') \<Longrightarrow>
      valid c' \<and> content c' = content c \<and> (\<forall>k. lasting c' k \<subseteq> lasting c k) \<and>
      (rc = 0 \<longrightarrow> (\<forall>k<unat (ly_boot_sectors layout). lasting c' k \<subseteq> {content c k}))"
begin

lemma io_read:
  assumes "valid c" and "unat lba < unat (ly_boot_sectors layout)" and "sec_read (io_of ios h) lba c = (rc, r, c')"
  shows "valid c' \<and> rc \<le> 0 \<and> content c' = content c \<and> (\<forall>k. lasting c' k \<subseteq> lasting c k) \<and> (rc = 0 \<longrightarrow> r = content c (unat lba))"
proof (cases h)
  case None
  then show ?thesis using assms by (auto simp: io_of_def no_io_def BOOT_SLOT_STORE_ERR_IO_def)
next
  case (Some i)
  then show ?thesis using read_law [OF assms(1,2)] assms(3) by (simp add: io_of_def)
qed

lemma io_write:
  assumes "valid c" and "unat lba < unat (ly_boot_sectors layout)" and "length b = BOOT_SLOT_STORE_SECTOR_SIZE"
    and "sec_write (io_of ios h) lba b c = (rc, c')"
  shows "valid c' \<and> (\<forall>k. k \<noteq> unat lba \<longrightarrow> content c' k = content c k \<and> lasting c' k \<subseteq> lasting c k) \<and>
      lasting c' (unat lba) \<subseteq> insert b (lasting c (unat lba)) \<and> (rc = 0 \<longrightarrow> content c' (unat lba) = b)"
proof (cases h)
  case None
  then show ?thesis using assms by (auto simp: io_of_def no_io_def BOOT_SLOT_STORE_ERR_IO_def)
next
  case (Some i)
  then show ?thesis using write_law [OF assms(1-3)] assms(4) by (simp add: io_of_def)
qed

lemma io_flush:
  assumes "valid c" and "sec_flush (io_of ios h) c = (rc, c')"
  shows "valid c' \<and> content c' = content c \<and> (\<forall>k. lasting c' k \<subseteq> lasting c k) \<and>
      (rc = 0 \<longrightarrow> (\<forall>k<unat (ly_boot_sectors layout). lasting c' k \<subseteq> {content c k}))"
proof (cases h)
  case None
  then show ?thesis using assms by (auto simp: io_of_def no_io_def BOOT_SLOT_STORE_ERR_IO_def)
next
  case (Some i)
  then show ?thesis using flush_law [OF assms(1)] assms(2) by (simp add: io_of_def)
qed

lemma copy_bound: "i < 2 \<Longrightarrow> unat (at2 (ly_control_lba layout) i) < unat (ly_boot_sectors layout)"
  using plan_values(1,9,10) [OF plan] by (auto simp: lt_two)

text \<open>The callbacks of the manager, when the active binding has this layout.\<close>

lemma control_read:
  assumes "valid c" and "bn_active b \<longrightarrow> bn_layout b = layout" and "i < 2" and "pr_read (control_io ios b) i c = (rc, r, c')"
  shows "valid c' \<and> rc \<le> 0 \<and> content c' = content c \<and> (\<forall>k. lasting c' k \<subseteq> lasting c k) \<and> (rc = 0 \<longrightarrow> r = content c (copy_lba layout i))"
proof (cases "bn_active b")
  case True
  then have "sec_read (io_of ios (bn_io b)) (at2 (ly_control_lba layout) i) c = (rc, r, c')"
    using assms(2-4) by (simp add: control_io_def store_control_read_def BOOT_SLOT_PERSIST_COPY_COUNT_def split: if_splits)
  then show ?thesis using io_read [OF assms(1) copy_bound [OF assms(3)]] by (simp add: copy_lba_def)
next
  case False
  then show ?thesis using assms by (auto simp: control_io_def store_control_read_def BOOT_SLOT_STORE_ERR_IO_def)
qed

lemma control_write:
  assumes "valid c" and "bn_active b \<longrightarrow> bn_layout b = layout" and "i < 2" and "length r = 512" and "pr_write (control_io ios b) i r c = (rc, c')"
  shows "valid c' \<and> (\<forall>k. k \<noteq> copy_lba layout i \<longrightarrow> content c' k = content c k \<and> lasting c' k \<subseteq> lasting c k) \<and>
    lasting c' (copy_lba layout i) \<subseteq> insert r (lasting c (copy_lba layout i)) \<and> (rc = 0 \<longrightarrow> content c' (copy_lba layout i) = r)"
proof (cases "bn_active b")
  case True
  then have "sec_write (io_of ios (bn_io b)) (at2 (ly_control_lba layout) i) r c = (rc, c')"
    using assms(2-5) by (simp add: control_io_def store_control_write_def BOOT_SLOT_PERSIST_COPY_COUNT_def BOOT_SLOT_PERSIST_RECORD_SIZE_def split: if_splits)
  then show ?thesis using io_write [OF assms(1) copy_bound [OF assms(3)]] assms(4) by (simp add: copy_lba_def BOOT_SLOT_STORE_SECTOR_SIZE_def)
next
  case False
  then show ?thesis using assms by (auto simp: control_io_def store_control_write_def BOOT_SLOT_STORE_ERR_IO_def)
qed

lemma control_flush:
  assumes "valid c" and "pr_flush (control_io ios b) c = (rc, c')"
  shows "valid c' \<and> content c' = content c \<and> (\<forall>k. lasting c' k \<subseteq> lasting c k) \<and>
      (rc = 0 \<longrightarrow> (\<forall>k<unat (ly_boot_sectors layout). lasting c' k \<subseteq> {content c k}))"
  using assms io_flush [OF assms(1), of "bn_io b"]
  by (auto simp: control_io_def store_control_flush_def BOOT_SLOT_STORE_ERR_IO_def split: if_splits)

text \<open>Writing a record: it may end up on the medium or not; when the call succeeds, nothing else can.\<close>

lemma write_verified:
  assumes "valid c" and "bn_active b \<longrightarrow> bn_layout b = layout" and "bs_write_verified (control_io ios b) m i g s c = (rc, c')"
  shows "valid c' \<and> (\<forall>k. k \<noteq> copy_lba layout i \<longrightarrow> content c' k = content c k \<and> lasting c' k \<subseteq> lasting c k) \<and>
    lasting c' (copy_lba layout i) \<subseteq> insert (bs_record_encode m g) (lasting c (copy_lba layout i)) \<and>
    (rc = 0 \<longrightarrow> content c' (copy_lba layout i) = bs_record_encode m g \<and> lasting c' (copy_lba layout i) \<subseteq> {bs_record_encode m g} \<and>
      (\<forall>k<unat (ly_boot_sectors layout). lasting c' k \<subseteq> {content c' k})) \<and>
    (rc = BOOT_SLOT_ERR_IO \<longrightarrow> c' = c \<and> (\<not> bp_configured (bsp s) \<or> i \<ge> 2 \<or> \<not> boot_slot_manager_validate m)) \<and> (rc = 0 \<or> rc = BOOT_SLOT_ERR_IO \<or> rc = BOOT_SLOT_ERR_COMMIT_UNKNOWN)"
proof (cases "\<not> bp_configured (bsp s) \<or> i \<ge> 2 \<or> \<not> boot_slot_manager_validate m")
  case True
  then have "rc = BOOT_SLOT_ERR_IO" "c' = c" using assms(3) by (auto simp: bs_write_verified_def BOOT_SLOT_PERSIST_COPY_COUNT_def split: if_splits)
  then show ?thesis using assms(1) True by (auto simp: BOOT_SLOT_ERR_IO_def)
next
  case False
  then have i: "i < 2" by (simp add: not_le)
  let ?r = "bs_record_encode m g"
  obtain rc1 c1 where w: "pr_write (control_io ios b) i ?r c = (rc1, c1)" by fastforce
  obtain rc2 c2 where f: "pr_flush (control_io ios b) c1 = (rc2, c2)" by fastforce
  obtain rc3 r c3 where rd: "pr_read (control_io ios b) i c2 = (rc3, r, c3)" by (metis prod_cases3)
  note W = control_write [OF assms(1,2) i record_encode_length w]
  have v1: "valid c1" using W by blast
  note F = control_flush [OF v1 f]
  have v2: "valid c2" using F by blast
  note R = control_read [OF v2 assms(2) i rd]
  have res: "rc1 \<noteq> 0 \<and> rc = BOOT_SLOT_ERR_COMMIT_UNKNOWN \<and> c' = c1 \<or>
    rc1 = 0 \<and> rc2 \<noteq> 0 \<and> rc = BOOT_SLOT_ERR_COMMIT_UNKNOWN \<and> c' = c2 \<or>
    rc1 = 0 \<and> rc2 = 0 \<and> (rc = BOOT_SLOT_ERR_COMMIT_UNKNOWN \<or> rc = 0) \<and> c' = c3"
    using assms(3) False unfolding bs_write_verified_def BOOT_SLOT_PERSIST_COPY_COUNT_def by (auto simp: w f rd Let_def split: if_splits)
  have ne: "BOOT_SLOT_ERR_COMMIT_UNKNOWN \<noteq> 0" "BOOT_SLOT_ERR_COMMIT_UNKNOWN \<noteq> BOOT_SLOT_ERR_IO" "BOOT_SLOT_ERR_IO \<noteq> 0"
    by (simp_all add: BOOT_SLOT_ERR_COMMIT_UNKNOWN_def BOOT_SLOT_ERR_IO_def)
  have bound: "copy_lba layout i < unat (ly_boot_sectors layout)" using copy_bound [OF i] by (simp add: copy_lba_def)
  from res show ?thesis
  proof (elim disjE conjE)
    assume "rc = BOOT_SLOT_ERR_COMMIT_UNKNOWN" "c' = c1"
    then show ?thesis using W ne by simp
  next
    assume "rc = BOOT_SLOT_ERR_COMMIT_UNKNOWN" "c' = c2"
    then show ?thesis using W F ne by (auto simp: subset_iff)
  next
    assume "rc1 = 0" "rc2 = 0" "c' = c3" and rc: "rc = BOOT_SLOT_ERR_COMMIT_UNKNOWN"
    then show ?thesis using W F R ne by (auto simp: subset_iff)
  next
    assume z: "rc1 = 0" "rc2 = 0" and c': "c' = c3" and rc: "rc = 0"
    have 1: "valid c'" "\<forall>k. k \<noteq> copy_lba layout i \<longrightarrow> content c' k = content c k \<and> lasting c' k \<subseteq> lasting c k"
      using W F R c' by (simp, simp add: subset_iff)
    have 2: "content c' (copy_lba layout i) = ?r" using W F R c' z by simp
    have 3: "\<forall>k<unat (ly_boot_sectors layout). lasting c' k \<subseteq> {content c' k}"
    proof (intro allI impI)
      fix k assume k: "k < unat (ly_boot_sectors layout)"
      have "lasting c' k \<subseteq> lasting c2 k" using R c' by blast
      also have "\<dots> \<subseteq> {content c1 k}" using F z k by blast
      finally show "lasting c' k \<subseteq> {content c' k}" using F R c' by simp
    qed
    have 4: "lasting c' (copy_lba layout i) \<subseteq> {?r}" using 3 bound 2 by force
    then show ?thesis using 1 2 3 rc ne by (simp add: subset_iff)
  qed
qed

end

end
