(* ===== verification/BootSafe.thy ===== *)
theory BootSafe
  imports BootMedium
begin

text \<open>
  The operations of the manager and of the store keep a sound medium sound, whatever device calls fail and in whatever order the
  operations come; a successful commit is durable. The lemmas are proved in the contract \<open>boot_medium\<close>.
\<close>

subsection \<open>Memory and medium together\<close>

text \<open>The copy in memory is the newer one on the medium.\<close>

definition current :: "boot_slot_layout \<Rightarrow> (nat \<Rightarrow> u8 list) \<Rightarrow> boot_state \<Rightarrow> bool" where
  "current layout C b \<longleftrightarrow>
     usable layout (C (copy_lba layout (bp_active_copy (bsp b)))) = Some (bsm b, bp_generation (bsp b)) \<and>
     (\<exists>m g. usable layout (C (copy_lba layout (bp_active_copy (bsp b) XOR 1))) = Some (m, g) \<and> g < bp_generation (bsp b))"

definition ram_ok :: "boot_slot_layout \<Rightarrow> fallbacks \<Rightarrow> leftovers \<Rightarrow> (nat \<Rightarrow> u8 list) \<Rightarrow> boot_state \<Rightarrow> bool" where
  "ram_ok layout K L C b \<longleftrightarrow>
     (boot_slot_internal_persistence_ready_locked b \<longrightarrow>
        good layout K L (bsm b) \<and> bp_active_copy (bsp b) < 2 \<and> owns (bp_active_copy (bsp b)) (bp_generation (bsp b)) \<and>
        \<not> bp_degraded (bsp b) \<and> current layout C b) \<and>
     (bp_configured (bsp b) \<longrightarrow> \<not> bp_blank (bsp b))"

definition kept :: "boot_slot_layout \<Rightarrow> fallbacks \<Rightarrow> leftovers \<Rightarrow> (nat \<Rightarrow> u8 list) \<Rightarrow> boot_state \<Rightarrow> bool" where
  "kept layout K L C b \<longleftrightarrow> sound layout K L \<and> ram_ok layout K L C b"

lemma keptD:
  assumes "kept layout K L C b"
  shows "sound layout K L" and "ram_ok layout K L C b"
    and "boot_slot_internal_persistence_ready_locked b \<Longrightarrow> good layout K L (bsm b)"
    and "boot_slot_internal_persistence_ready_locked b \<Longrightarrow> bp_active_copy (bsp b) < 2"
    and "boot_slot_internal_persistence_ready_locked b \<Longrightarrow> owns (bp_active_copy (bsp b)) (bp_generation (bsp b))"
    and "boot_slot_internal_persistence_ready_locked b \<Longrightarrow> \<not> bp_degraded (bsp b)"
    and "boot_slot_internal_persistence_ready_locked b \<Longrightarrow> current layout C b"
    and "bp_configured (bsp b) \<Longrightarrow> \<not> bp_blank (bsp b)"
  using assms by (simp_all add: kept_def ram_ok_def)

lemma ready_iff:
  "boot_slot_internal_persistence_ready_locked b \<longleftrightarrow>
     boot_slot_phase b = BOOT_SLOT_PHASE_BOUND_READY \<and> bsm_initialized b \<and> bp_configured (bsp b) \<and> bp_ready (bsp b)"
  "boot_slot_internal_transition_ready_locked b = boot_slot_internal_persistence_ready_locked b"
  by (simp_all add: boot_slot_internal_persistence_ready_locked_def boot_slot_internal_transition_ready_locked_def)

text \<open>The flag that serialises operations does not matter to the state.\<close>

lemma kept_busy [simp]:
  "kept layout K L C (b\<lparr>boot_slot_operation_busy := x\<rparr>) = kept layout K L C b"
  by (simp add: kept_def ram_ok_def ready_iff current_def)

lemma kept_claim [simp]:
  "kept layout K L C (upd_bsp (\<lambda>p. p\<lparr>bp_stage_claimed := x\<rparr>) b) = kept layout K L C b"
  by (simp add: kept_def ram_ok_def ready_iff current_def upd_bsp_def)

lemma kept_shrink:
  assumes "kept layout K L C b" and "boot_slot_layout_plan n = Some layout" and "\<forall>k. L' k \<subseteq> L k"
  shows "kept layout K L' C b"
  using assms sound_shrink [OF _ assms(2,3)] good_mono [of layout K L "bsm b" L' n] by (auto simp: kept_def ram_ok_def)

context boot_medium
begin

lemma read_copy_state:
  assumes "valid c" and "bn_active b \<longrightarrow> bn_layout b = layout" and "i < 2" and "read_copy (control_io ios b) layout i c = (k, c')"
  shows "valid c' \<and> content c' = content c \<and> (\<forall>j. lasting c' j \<subseteq> lasting c j) \<and>
    (fst k < 0 \<or> k = copy_state layout (content c (copy_lba layout i)))"
proof -
  obtain rc r c1 where rd: "pr_read (control_io ios b) i c = (rc, r, c1)" by (metis prod_cases3)
  note R = control_read [OF assms(1-3) rd]
  have "c' = c1" using assms(4) rd by (auto simp: read_copy_def Let_def)
  moreover have "fst k < 0 \<or> k = copy_state layout (content c (copy_lba layout i))"
  proof (cases "rc = 0")
    case True
    then show ?thesis using assms(4) R rd by (auto simp: read_copy_def copy_state_def usable_def Let_def BOOT_SLOT_PERSIST_EMPTY_def)
  next
    case False
    then have "fst k = rc" using assms(4) rd by (auto simp: read_copy_def Let_def)
    then show ?thesis using R False by simp
  qed
  ultimately show ?thesis using R by simp
qed

lemma sound_content:
  assumes "sound layout K (lasting c)" and "valid c" and "i < 2"
  obtains m g where "usable layout (content c (copy_lba layout i)) = Some (m, g)" and "owns i g" and "good layout K (lasting c) m"
proof -
  have "content c (copy_lba layout i) \<in> lasting c (copy_lba layout i)"
    using content_lasting [OF assms(2)] copy_bound [OF assms(3)] by (simp add: copy_lba_def)
  moreover have "i \<in> {0, 1}" using assms(3) by (auto simp: lt_two)
  ultimately show ?thesis using assms(1) that unfolding sound_def by blast
qed

subsection \<open>Binding\<close>

text \<open>Binding a sound medium takes its newer record, or fails because a read failed; it never finds the medium blank or unusable.\<close>

lemma set_persistence:
  assumes "valid c" and "bn_active b \<longrightarrow> bn_layout b = layout" and "sound layout K (lasting c)"
    and "boot_slot_internal_set_persistence_locked (control_io ios b) layout s c = (rc, s', c')" and "kept layout K (lasting c) (content c) s"
  shows "valid c' \<and> content c' = content c \<and> (\<forall>j. lasting c' j \<subseteq> lasting c j) \<and> kept layout K (lasting c') (content c') s' \<and>
    rc \<noteq> BOOT_SLOT_PERSIST_EMPTY \<and>
    (rc = 0 \<longrightarrow> bp_configured (bsp s') \<and> bp_ready (bsp s') \<and> bsm_initialized s' = bsm_initialized s \<and> good layout K (lasting c') (bsm s') \<and>
       bp_active_copy (bsp s') < 2 \<and> owns (bp_active_copy (bsp s')) (bp_generation (bsp s')) \<and> \<not> bp_degraded (bsp s') \<and> current layout (content c') s') \<and>
    (bp_configured (bsp s') \<longrightarrow> \<not> bp_blank (bsp s')) \<and> (rc \<noteq> 0 \<longrightarrow> s' = s \<or> \<not> bp_ready (bsp s'))"
proof (cases "bp_stage_claimed (bsp s) \<or> \<not> boot_slot_internal_bind_allowed_locked s")
  case True
  then have "c' = c" "s' = s" "rc = BOOT_SLOT_ERR_BUSY \<or> rc = BOOT_SLOT_ERR_IO"
    using assms(4) by (auto simp: boot_slot_internal_set_persistence_locked_def split: if_splits)
  then show ?thesis using assms(1,5) keptD(8) [OF assms(5)]
    by (auto simp: BOOT_SLOT_ERR_BUSY_def BOOT_SLOT_ERR_IO_def BOOT_SLOT_PERSIST_EMPTY_def)
next
  case False
  let ?s1 = "(upd_bsp (\<lambda>p. p\<lparr>bp_generation := 0, bp_active_copy := 0, bp_configured := True, bp_ready := False, bp_blank := False,
     bp_degraded := False, bp_stage_claimed := False, bp_authority_epoch := 0, bp_layout := layout\<rparr>) (s\<lparr>bsm := bs_manager_defaults\<rparr>))
     \<lparr>boot_slot_phase := BOOT_SLOT_PHASE_BOUND_UNKNOWN\<rparr>"
  obtain k0 c1 where k0: "read_copy (control_io ios b) layout 0 c = (k0, c1)" by fastforce
  obtain k1 c2 where k1: "read_copy (control_io ios b) layout 1 c1 = (k1, c2)" by fastforce
  note R0 = read_copy_state [OF assms(1,2) _ k0, simplified]
  have v1: "valid c1" "content c1 = content c" "\<forall>j. lasting c1 j \<subseteq> lasting c j" using R0 by auto
  note R1 = read_copy_state [OF v1(1) assms(2) _ k1, simplified]
  have c2: "valid c2" "content c2 = content c" "\<forall>j. lasting c2 j \<subseteq> lasting c j" 
    using R1 v1 by (simp, simp, meson order_trans)
  obtain m0 g0 where u0: "usable layout (content c (copy_lba layout 0)) = Some (m0, g0)" "owns 0 g0" "good layout K (lasting c) m0"
    using sound_content [OF assms(3,1), of 0] by auto
  obtain m1 g1 where u1: "usable layout (content c (copy_lba layout 1)) = Some (m1, g1)" "owns 1 g1" "good layout K (lasting c) m1"
    using sound_content [OF assms(3,1), of 1] by auto
  have bad: "kept layout K (lasting c'') (content c) ?s1" if "\<forall>j. lasting c'' j \<subseteq> lasting c j" for c''
    using sound_shrink [OF assms(3) plan that] by (simp add: kept_def ram_ok_def ready_iff upd_bsp_def)
  have key: "rc = BOOT_SLOT_ERR_IO \<and> s' = ?s1 \<and> (c' = c1 \<or> c' = c2) \<or>
    rc = 0 \<and> c' = c2 \<and> s' = (let (m, g, i) = (if g0 < g1 then (m1, g1, 1) else (m0, g0, 0))
      in (upd_bsp (\<lambda>p. p\<lparr>bp_generation := g, bp_active_copy := i, bp_degraded := False, bp_ready := True\<rparr>) (?s1\<lparr>bsm := m\<rparr>))
         \<lparr>boot_slot_phase := BOOT_SLOT_PHASE_BOUND_READY\<rparr>)"
  proof (cases "fst k0 < 0 \<or> fst k1 < 0")
    case True
    then show ?thesis using assms(4) False plan k0 k1
      by (auto simp: boot_slot_internal_set_persistence_locked_def Let_def BOOT_SLOT_PERSIST_EMPTY_def split: if_splits prod.splits option.splits)
  next
    case ok: False
    then have k: "k0 = copy_state layout (content c (copy_lba layout 0))" "k1 = copy_state layout (content c (copy_lba layout 1))"
      using R0 R1 v1(2) by auto
    have "\<not> (fst k0 \<noteq> 0 \<and> fst k0 \<noteq> BOOT_SLOT_PERSIST_EMPTY)" "\<not> (fst k1 \<noteq> 0 \<and> fst k1 \<noteq> BOOT_SLOT_PERSIST_EMPTY)"
      using k by (auto simp: copy_state_def)
    then show ?thesis using assms(4) False plan choose_newer [OF u0(1) u1(1) owns_neq [OF u0(2) u1(2)]]
      by (auto simp: boot_slot_internal_set_persistence_locked_def Let_def k0 k1 k split: if_splits)
  qed
  then show ?thesis
  proof (elim disjE conjE)
    assume "rc = BOOT_SLOT_ERR_IO" "s' = ?s1" "c' = c1"
    then show ?thesis using v1 bad [of c1] by (auto simp: upd_bsp_def BOOT_SLOT_ERR_IO_def BOOT_SLOT_PERSIST_EMPTY_def)
  next
    assume "rc = BOOT_SLOT_ERR_IO" "s' = ?s1" "c' = c2"
    then show ?thesis using c2 bad [of c2] by (auto simp: upd_bsp_def BOOT_SLOT_ERR_IO_def BOOT_SLOT_PERSIST_EMPTY_def)
  next
    assume rc: "rc = 0" and c': "c' = c2" and s': "s' = (let (m, g, i) = (if g0 < g1 then (m1, g1, 1) else (m0, g0, 0))
      in (upd_bsp (\<lambda>p. p\<lparr>bp_generation := g, bp_active_copy := i, bp_degraded := False, bp_ready := True\<rparr>) (?s1\<lparr>bsm := m\<rparr>))
         \<lparr>boot_slot_phase := BOOT_SLOT_PHASE_BOUND_READY\<rparr>)"
    have g: "good layout K (lasting c2) m0" "good layout K (lasting c2) m1"
      using good_mono [OF u0(3) _ plan] good_mono [OF u1(3) _ plan] c2(3) by blast+
    have lt: "g0 < g1 \<or> g1 < g0" using owns_neq [OF u0(2) u1(2)] by auto
    have cur: "current layout (content c') s'" using s' c' c2(2) u0(1) u1(1) lt by (auto simp: current_def upd_bsp_def Let_def)
    have rest: "good layout K (lasting c') (bsm s')" "bp_active_copy (bsp s') < 2" "owns (bp_active_copy (bsp s')) (bp_generation (bsp s'))"
      "\<not> bp_degraded (bsp s')" "\<not> bp_blank (bsp s')" "bp_configured (bsp s')" "bp_ready (bsp s')" "bsm_initialized s' = bsm_initialized s"
      using s' c' g u0(2) u1(2) by (auto simp: upd_bsp_def Let_def)
    have "sound layout K (lasting c')" using sound_shrink [OF assms(3) plan] c2(3) c' by blast
    then have "kept layout K (lasting c') (content c') s'" using cur rest by (simp add: kept_def ram_ok_def)
    then show ?thesis using cur rest rc c' c2 by (simp add: BOOT_SLOT_PERSIST_EMPTY_def)
  qed
qed

end

subsection \<open>Commits\<close>

text \<open>What a medium loses in a power failure once it has been flushed: nothing.\<close>

definition flushed :: "boot_slot_layout \<Rightarrow> leftovers \<Rightarrow> (nat \<Rightarrow> u8 list) \<Rightarrow> bool" where
  "flushed layout L C \<longleftrightarrow> (\<forall>k<unat (ly_boot_sectors layout). L k \<subseteq> {C k})"

text \<open>A record that is written over copy \<open>i\<close> of a sound medium.\<close>

lemma kept_write:
  assumes "kept layout K L C b" and "boot_slot_layout_plan n = Some layout" and "i < 2" and "good layout K L m" and "owns i g"
    and "\<forall>k. k \<noteq> copy_lba layout i \<longrightarrow> L' k \<subseteq> L k" and "L' (copy_lba layout i) \<subseteq> insert (bs_record_encode m g) (L (copy_lba layout i))"
    and "\<not> boot_slot_internal_persistence_ready_locked b' \<or> bsm b' = m \<and> bp_active_copy (bsp b') = i \<and> bp_generation (bsp b') = g \<and>
      \<not> bp_degraded (bsp b') \<and> current layout C' b'"
    and "bp_configured (bsp b') \<Longrightarrow> \<not> bp_blank (bsp b')"
  shows "kept layout K L' C' b'"
proof -
  have "\<forall>k. k \<notin> control_sectors layout \<longrightarrow> L' k \<subseteq> L k" using assms(6) copy_lba_control [OF assms(3)] by metis
  then have "good layout K L' m" using good_mono [OF assms(4) _ assms(2)] by blast
  moreover have "sound layout K L'" by (rule sound_write [OF keptD(1) [OF assms(1)] assms(2-7)])
  ultimately show ?thesis using assms(3,5,8,9) by (auto simp: kept_def ram_ok_def)
qed

lemma xor_twice: "(i XOR 1) XOR 1 = i" for i :: u32
  by (simp add: xor.assoc)

lemma word_less_next: "g \<noteq> UINT64_MAX \<Longrightarrow> g < g + 1" for g :: u64
  using unat_next [of g] by (simp add: word_less_nat_alt)

context boot_medium
begin

lemma commit:
  assumes "valid c" and "bn_active b \<longrightarrow> bn_layout b = layout" and "kept layout K (lasting c) (content c) s"
    and "boot_slot_internal_persistence_ready_locked s" and "good layout K (lasting c) m"
    and "bs_commit_locked (control_io ios b) m s c = (rc, s', c')"
  shows "valid c' \<and> kept layout K (lasting c') (content c') s' \<and>
    (rc = 0 \<longrightarrow> boot_slot_internal_persistence_ready_locked s' \<and> bsm s' = m \<and> bp_generation (bsp s') = bp_generation (bsp s) + 1 \<and>
      flushed layout (lasting c') (content c')) \<and>
    (rc \<noteq> 0 \<longrightarrow> \<not> boot_slot_internal_persistence_ready_locked s' \<or> s' = s \<and> c' = c)"
proof -
  let ?p = "bsp s" and ?i = "bp_active_copy (bsp s) XOR 1" and ?g = "bp_generation (bsp s) + 1"
  note k = keptD [OF assms(3)]
  have r: "bsm_initialized s" "bp_configured ?p" "bp_ready ?p" "boot_slot_phase s = BOOT_SLOT_PHASE_BOUND_READY" using assms(4) by (simp_all add: ready_iff)
  show ?thesis
  proof (cases "bp_stage_claimed ?p \<or> bp_generation ?p = UINT64_MAX")
    case True
    then have "s' = s" "c' = c" "rc \<noteq> 0" using assms(6) r
      by (auto simp: bs_commit_locked_def BOOT_SLOT_ERR_BUSY_def BOOT_SLOT_ERR_IO_def split: if_splits)
    then show ?thesis using assms(1,3) by simp
  next
    case False
    obtain rc1 c1 where w: "bs_write_verified (control_io ios b) m ?i ?g s c = (rc1, c1)" by fastforce
    note W = write_verified [OF assms(1,2) w]
    have i: "bp_active_copy ?p < 2" "?i < 2" using k(4) [OF assms(4)] xor_one_lt2 by auto
    have ow: "owns ?i ?g" using owns_next [OF k(5) [OF assms(4)] i(1)] False by simp
    have res: "rc = 0 \<and> rc1 = 0 \<and> c' = c1 \<and> s' = upd_bsp (\<lambda>p. p\<lparr>bp_active_copy := ?i, bp_generation := ?g, bp_degraded := False\<rparr>) (s\<lparr>bsm := m\<rparr>) \<or>
      rc \<noteq> 0 \<and> rc1 = BOOT_SLOT_ERR_COMMIT_UNKNOWN \<and> c' = c1 \<and> s' = (upd_bsp (\<lambda>p. p\<lparr>bp_ready := False\<rparr>) s)\<lparr>boot_slot_phase := BOOT_SLOT_PHASE_BOUND_UNKNOWN\<rparr> \<or>
      rc \<noteq> 0 \<and> c' = c \<and> s' = s"
    proof -
      have "bs_commit_locked (control_io ios b) m s c =
        (if rc1 = 0 then (rc1, upd_bsp (\<lambda>p. p\<lparr>bp_active_copy := ?i, bp_generation := ?g, bp_degraded := False\<rparr>) (s\<lparr>bsm := m\<rparr>), c1)
         else if rc1 = BOOT_SLOT_ERR_COMMIT_UNKNOWN then (rc1, (upd_bsp (\<lambda>p. p\<lparr>bp_ready := False\<rparr>) s)\<lparr>boot_slot_phase := BOOT_SLOT_PHASE_BOUND_UNKNOWN\<rparr>, c1)
         else (rc1, s, c1))"
        using r False by (simp add: bs_commit_locked_def w Let_def)
      moreover have "rc1 = 0 \<or> rc1 = BOOT_SLOT_ERR_IO \<and> c1 = c \<or> rc1 = BOOT_SLOT_ERR_COMMIT_UNKNOWN" using W by blast
      ultimately show ?thesis using assms(6) by (auto simp: BOOT_SLOT_ERR_COMMIT_UNKNOWN_def BOOT_SLOT_ERR_IO_def)
    qed
    have wr: "\<forall>k. k \<noteq> copy_lba layout ?i \<longrightarrow> lasting c1 k \<subseteq> lasting c k"
      "lasting c1 (copy_lba layout ?i) \<subseteq> insert (bs_record_encode m ?g) (lasting c (copy_lba layout ?i))" using W by blast+
    from res show ?thesis
    proof (elim disjE conjE)
      assume z: "rc = 0" "rc1 = 0" and c': "c' = c1"
        and s': "s' = upd_bsp (\<lambda>p. p\<lparr>bp_active_copy := ?i, bp_generation := ?g, bp_degraded := False\<rparr>) (s\<lparr>bsm := m\<rparr>)"
      have f: "bsm s' = m" "bp_active_copy (bsp s') = ?i" "bp_generation (bsp s') = ?g" "\<not> bp_degraded (bsp s')" "bp_blank (bsp s') = bp_blank ?p"
        "bp_configured (bsp s') = bp_configured ?p" "boot_slot_internal_persistence_ready_locked s'"
        using s' assms(4) by (simp_all add: upd_bsp_def ready_iff)
      have "usable layout (content c1 (copy_lba layout ?i)) = Some (m, ?g)"
        using W z usable_encoded [of layout m ?g] ow assms(5) by (simp add: good_def owns_def)
      moreover have "content c1 (copy_lba layout (bp_active_copy ?p)) = content c (copy_lba layout (bp_active_copy ?p))"
      proof -
        have "copy_lba layout (bp_active_copy ?p) \<noteq> copy_lba layout ?i" using i(1) copy_lba_neq [OF plan] by (auto simp: lt_two)
        then show ?thesis using W by blast
      qed
      ultimately have cur: "current layout (content c1) s'"
        using k(7) [OF assms(4)] word_less_next [of "bp_generation ?p"] False by (simp add: current_def f xor_twice)
      have "kept layout K (lasting c1) (content c1) s'"
        by (rule kept_write [OF assms(3) plan i(2) assms(5) ow wr]) (use f cur k(8) r in simp_all)
      then show ?thesis using z c' f W by (simp add: flushed_def)
    next
      assume z: "rc \<noteq> 0" and c': "c' = c1" and s': "s' = (upd_bsp (\<lambda>p. p\<lparr>bp_ready := False\<rparr>) s)\<lparr>boot_slot_phase := BOOT_SLOT_PHASE_BOUND_UNKNOWN\<rparr>"
      have n: "\<not> boot_slot_internal_persistence_ready_locked s'" using s' by (simp add: ready_iff upd_bsp_def)
      have "kept layout K (lasting c1) (content c1) s'"
        by (rule kept_write [OF assms(3) plan i(2) assms(5) ow wr]) (use n s' k(8) r in \<open>simp_all add: upd_bsp_def\<close>)
      then show ?thesis using z c' n W by simp
    next
      assume "rc \<noteq> 0" "c' = c" "s' = s"
      then show ?thesis using assms(1,3) by simp
    qed
  qed
qed

text \<open>A commit of the next manager of the abstract machine.\<close>

lemma commit_step:
  assumes "valid c" and "bn_active b \<longrightarrow> bn_layout b = layout" and "kept layout K (lasting c) (content c) s"
    and "boot_slot_internal_persistence_ready_locked s" and "ab_step (bsm s) m" and "\<forall>x img. m \<noteq> published_manager x img (bsm s)"
    and "backed layout K (lasting c) m"
    and "bs_commit_locked (control_io ios b) m s c = (rc, s', c')"
  shows "valid c' \<and> kept layout K (lasting c') (content c') s' \<and>
    (rc = 0 \<longrightarrow> boot_slot_internal_persistence_ready_locked s' \<and> bsm s' = m \<and> bp_generation (bsp s') = bp_generation (bsp s) + 1 \<and>
      flushed layout (lasting c') (content c')) \<and>
    (rc \<noteq> 0 \<longrightarrow> \<not> boot_slot_internal_persistence_ready_locked s' \<or> s' = s \<and> c' = c)"
proof -
  have "good layout K (lasting c) m" by (rule good_step [OF assms(5) keptD(3) [OF assms(3,4)] assms(6,7)])
  then show ?thesis using commit [OF assms(1-4) _ assms(8)] by blast
qed

end

subsection \<open>Operations of the manager\<close>

lemma slots_bootable:
  assumes "boot_slot_manager_validate m"
  shows "mg_confirmed_slot m < 2" and "bootable (sl_state (slot_at m (mg_confirmed_slot m)))"
    and "mg_pending_slot m \<noteq> BOOT_SLOT_NONE \<Longrightarrow> mg_pending_slot m < 2 \<and> bootable (sl_state (slot_at m (mg_pending_slot m)))"
  using assms trying_pending [OF assms] by (auto simp: validate_iff settled_def trying_def bootable_def)


lemma published_pending: "mg_pending_slot (published_manager x img m) = mg_pending_slot m"
  by (simp add: published_manager_def upd_slot_def)

lemma published_tries: "mg_tries_remaining (published_manager x img m) = mg_tries_remaining m"
  by (simp add: published_manager_def upd_slot_def)

lemma tries_at_most_one: "boot_slot_manager_validate m \<Longrightarrow> mg_tries_remaining m = 0 \<or> mg_tries_remaining m = 1"
  by (auto simp: validate_iff settled_def trying_def le_one)

lemma write_verified_codes: "bs_write_verified io m i g s c = (rc, c') \<Longrightarrow> rc \<le> 0"
  by (auto simp: bs_write_verified_def Let_def BOOT_SLOT_ERR_IO_def BOOT_SLOT_ERR_COMMIT_UNKNOWN_def split: if_splits prod.splits)

lemma commit_codes: "bs_commit_locked io m s c = (rc, s', c') \<Longrightarrow> rc \<le> 0"
  by (auto simp: bs_commit_locked_def Let_def BOOT_SLOT_ERR_IO_def BOOT_SLOT_ERR_BUSY_def dest!: write_verified_codes split: if_splits prod.splits)

context boot_medium
begin

lemma trial_commit:
  assumes "valid c" and "bn_active b \<longrightarrow> bn_layout b = layout" and "kept layout K (lasting c) (content c) s"
    and "boot_slot_internal_persistence_ready_locked s" and "slot < 2" and "mg_pending_slot (bsm s) = BOOT_SLOT_NONE"
    and "slot \<noteq> mg_confirmed_slot (bsm s)" and "sl_state (slot_at (bsm s) slot) = BOOT_SLOT_VALID"
    and "bs_commit_locked (control_io ios b) (on_trial slot (bsm s)) s c = (rc, s', c')"
  shows "valid c' \<and> kept layout K (lasting c') (content c') s' \<and>
    (rc = 0 \<longrightarrow> boot_slot_internal_persistence_ready_locked s' \<and> bsm s' = on_trial slot (bsm s) \<and>
      bp_generation (bsp s') = bp_generation (bsp s) + 1 \<and> flushed layout (lasting c') (content c')) \<and>
    (rc \<noteq> 0 \<longrightarrow> \<not> boot_slot_internal_persistence_ready_locked s' \<or> s' = s \<and> c' = c)"
proof (rule commit_step [OF assms(1-4) _ _ _ assms(9)])
  have g: "good layout K (lasting c) (bsm s)" by (rule keptD(3) [OF assms(3,4)])
  show st: "ab_step (bsm s) (on_trial slot (bsm s))" by (rule ab_step.trial [OF assms(6,5,7,8)])
  have p: "mg_pending_slot (on_trial slot (bsm s)) = slot" by (simp add: on_trial_def upd_slot_def)
  then show "\<forall>x img. on_trial slot (bsm s) \<noteq> published_manager x img (bsm s)"
    using assms(5,6) published_pending by (metis none_not_slot(2))
  have "fallback (on_trial slot (bsm s)) = fallback (bsm s)"
  proof (rule step_fallback [OF st])
    show "manager_ok layout (bsm s)" using g by (simp add: good_def)
    show "on_trial slot (bsm s) \<noteq> confirmed_manager (mg_pending_slot (bsm s)) (bsm s)"
    proof
      assume "on_trial slot (bsm s) = confirmed_manager (mg_pending_slot (bsm s)) (bsm s)"
      then have "mg_pending_slot (on_trial slot (bsm s)) = BOOT_SLOT_NONE" by (simp add: confirmed_manager_def Let_def upd_slot_def)
      then show False using p assms(5) by simp
    qed
  qed
  from backed_cong [OF this] g show "backed layout K (lasting c) (on_trial slot (bsm s))" by (simp add: good_def)
qed

lemma spend_commit:
  assumes "valid c" and "bn_active b \<longrightarrow> bn_layout b = layout" and "kept layout K (lasting c) (content c) s"
    and "boot_slot_internal_persistence_ready_locked s" and "mg_pending_slot (bsm s) \<noteq> BOOT_SLOT_NONE" and "mg_tries_remaining (bsm s) > 0"
    and "bs_commit_locked (control_io ios b) (spend_attempt (bsm s)) s c = (rc, s', c')"
  shows "valid c' \<and> kept layout K (lasting c') (content c') s' \<and>
    (rc = 0 \<longrightarrow> boot_slot_internal_persistence_ready_locked s' \<and> bsm s' = spend_attempt (bsm s) \<and>
      bp_generation (bsp s') = bp_generation (bsp s) + 1 \<and> flushed layout (lasting c') (content c')) \<and>
    (rc \<noteq> 0 \<longrightarrow> \<not> boot_slot_internal_persistence_ready_locked s' \<or> s' = s \<and> c' = c)"
proof (rule commit_step [OF assms(1-4) _ _ _ assms(7)])
  have g: "good layout K (lasting c) (bsm s)" by (rule keptD(3) [OF assms(3,4)])
  then have v: "boot_slot_manager_validate (bsm s)" by (simp add: good_def manager_ok_def)
  note sv = spend_valid [OF v assms(5,6)]
  show st: "ab_step (bsm s) (spend_attempt (bsm s))" by (rule ab_step.spend [OF assms(5,6)])
  show "\<forall>x img. spend_attempt (bsm s) \<noteq> published_manager x img (bsm s)"
    using sv(3) published_tries assms(6) by (metis word_not_simps(1))
  have "fallback (spend_attempt (bsm s)) = fallback (bsm s)"
  proof (rule step_fallback [OF st])
    show "manager_ok layout (bsm s)" using g by (simp add: good_def)
    show "spend_attempt (bsm s) \<noteq> confirmed_manager (mg_pending_slot (bsm s)) (bsm s)"
    proof
      assume "spend_attempt (bsm s) = confirmed_manager (mg_pending_slot (bsm s)) (bsm s)"
      then have "mg_pending_slot (spend_attempt (bsm s)) = BOOT_SLOT_NONE" by (simp add: confirmed_manager_def Let_def upd_slot_def)
      then show False using sv(5) assms(5) by simp
    qed
  qed
  from backed_cong [OF this] g show "backed layout K (lasting c) (spend_attempt (bsm s))" by (simp add: good_def)
qed

lemma rollback_commit:
  assumes "valid c" and "bn_active b \<longrightarrow> bn_layout b = layout" and "kept layout K (lasting c) (content c) s"
    and "boot_slot_internal_persistence_ready_locked s" and "mg_pending_slot (bsm s) \<noteq> BOOT_SLOT_NONE" and "bs_apply_rollback (bsm s) = Some m"
    and "bs_commit_locked (control_io ios b) m s c = (rc, s', c')"
  shows "valid c' \<and> kept layout K (lasting c') (content c') s' \<and>
    (rc = 0 \<longrightarrow> boot_slot_internal_persistence_ready_locked s' \<and> bsm s' = m \<and>
      bp_generation (bsp s') = bp_generation (bsp s) + 1 \<and> flushed layout (lasting c') (content c')) \<and>
    (rc \<noteq> 0 \<longrightarrow> \<not> boot_slot_internal_persistence_ready_locked s' \<or> s' = s \<and> c' = c)"
proof (rule commit_step [OF assms(1-4) _ _ _ assms(7)])
  have g: "good layout K (lasting c) (bsm s)" by (rule keptD(3) [OF assms(3,4)])
  then have v: "boot_slot_manager_validate (bsm s)" by (simp add: good_def manager_ok_def)
  have m: "mg_confirmed_slot m = mg_confirmed_slot (bsm s)" "mg_pending_slot m = BOOT_SLOT_NONE"
    using rollback_valid [OF v assms(5)] assms(6) by auto
  show st: "ab_step (bsm s) m" by (rule ab_step.rollback [OF assms(5,6)])
  show "\<forall>x img. m \<noteq> published_manager x img (bsm s)" using m(2) assms(5) published_pending by metis
  have "fallback m = fallback (bsm s)"
  proof (rule step_fallback [OF st])
    show "manager_ok layout (bsm s)" using g by (simp add: good_def)
    show "m \<noteq> confirmed_manager (mg_pending_slot (bsm s)) (bsm s)"
    proof
      assume "m = confirmed_manager (mg_pending_slot (bsm s)) (bsm s)"
      then have "mg_confirmed_slot m = mg_pending_slot (bsm s)" by (simp add: confirmed_manager_def Let_def upd_slot_def)
      then show False using m(1) trying_pending(2) [OF v assms(5)] by auto
    qed
  qed
  from backed_cong [OF this] g show "backed layout K (lasting c) m" by (simp add: good_def)
qed

text \<open>A confirmation is the only operation that changes the slot to fall back to.\<close>

lemma confirm_commit:
  assumes "valid c" and "bn_active b \<longrightarrow> bn_layout b = layout" and "kept layout K (lasting c) (content c) s"
    and "boot_slot_internal_persistence_ready_locked s" and "mg_pending_slot (bsm s) = slot" and "slot < 2" and "mg_tries_remaining (bsm s) = 0"
    and "\<forall>p. ((slot, slot_image (slot_at (bsm s) slot)), p) \<in> K"
    and "bs_commit_locked (control_io ios b) (confirmed_manager slot (bsm s)) s c = (rc, s', c')"
  shows "valid c' \<and> kept layout K (lasting c') (content c') s' \<and>
    (rc = 0 \<longrightarrow> boot_slot_internal_persistence_ready_locked s' \<and> bsm s' = confirmed_manager slot (bsm s) \<and>
      bp_generation (bsp s') = bp_generation (bsp s) + 1 \<and> flushed layout (lasting c') (content c')) \<and>
    (rc \<noteq> 0 \<longrightarrow> \<not> boot_slot_internal_persistence_ready_locked s' \<or> s' = s \<and> c' = c)"
proof (rule commit_step [OF assms(1-4) _ _ _ assms(9)])
  have g: "good layout K (lasting c) (bsm s)" by (rule keptD(3) [OF assms(3,4)])
  then have v: "boot_slot_manager_validate (bsm s)" by (simp add: good_def manager_ok_def)
  note cv = confirm_valid [OF v assms(5-7)]
  show "ab_step (bsm s) (confirmed_manager slot (bsm s))" by (rule ab_step.confirm [OF assms(5-7)])
  have "mg_pending_slot (confirmed_manager slot (bsm s)) = BOOT_SLOT_NONE" by (simp add: confirmed_manager_def Let_def upd_slot_def)
  then show "\<forall>x img. confirmed_manager slot (bsm s) \<noteq> published_manager x img (bsm s)" using published_pending assms(5,6) by (metis none_not_slot(2))
  have "slot_image (slot_at (confirmed_manager slot (bsm s)) slot) = slot_image (slot_at (bsm s) slot)"
    using cv(2) assms(6) by (auto simp: same_images_def lt_two)
  moreover have "bootable (sl_state (slot_at (bsm s) slot))"
    using trying_pending(1) [OF v] assms(5,6) by (auto simp: trying_def bootable_def)
  then have "installed layout (lasting c) slot (image_of (slot_at (bsm s) slot))" using g assms(6) by (auto simp: good_def images_on_def lt_two)
  ultimately show "backed layout K (lasting c) (confirmed_manager slot (bsm s))"
    using assms(8) cv(3) image_of_eq unfolding backed_def fallback_def installed_def by metis
qed

end

context boot_medium
begin

lemma arm_locked:
  assumes "valid c" and "bn_active b \<longrightarrow> bn_layout b = layout" and "kept layout K (lasting c) (content c) s"
    and "boot_slot_internal_arm_provider_locked (control_io ios b) slot e s c = (rc, g, s', c')"
  shows "valid c' \<and> kept layout K (lasting c') (content c') s' \<and>
    (rc = 0 \<longrightarrow> boot_slot_internal_persistence_ready_locked s \<and> boot_slot_internal_persistence_ready_locked s' \<and> bsm s' = on_trial slot (bsm s) \<and>
      slot < 2 \<and> sl_state (slot_at (bsm s) slot) = BOOT_SLOT_VALID \<and> g = bp_generation (bsp s') \<and> flushed layout (lasting c') (content c')) \<and>
    (rc \<noteq> 0 \<longrightarrow> \<not> boot_slot_internal_persistence_ready_locked s' \<or> s' = s \<and> c' = c)"
proof (cases "rc = BOOT_SLOT_ERR_IO \<and> s' = s \<and> c' = c")
  case True
  then show ?thesis using assms(1,3) by (simp add: BOOT_SLOT_ERR_IO_def)
next
  case False
  let ?m = "bsm s"
  obtain rc1 s1 c1 where k: "bs_commit_locked (control_io ios b) (on_trial slot ?m) s c = (rc1, s1, c1)" by (metis prod_cases3)
  have r: "boot_slot_internal_persistence_ready_locked s" and slot: "slot < 2" "mg_pending_slot ?m = BOOT_SLOT_NONE" "slot \<noteq> mg_confirmed_slot ?m"
    "sl_state (slot_at ?m slot) = BOOT_SLOT_VALID"
    and res: "c' = c1" "s' = s1" "rc1 = 0 \<longleftrightarrow> rc = 0" "rc = 0 \<longrightarrow> g = bp_generation (bsp s1)"
    using assms(4) False unfolding boot_slot_internal_arm_provider_locked_def k BOOT_SLOT_COUNT_def
    by (auto simp: not_le BOOT_SLOT_ERR_IO_def BOOT_SLOT_ERR_COMMIT_UNKNOWN_def split: if_splits)
  show ?thesis using trial_commit [OF assms(1-3) r slot k] res r slot by blast
qed

lemma activate_locked:
  assumes "valid c" and "bn_active b \<longrightarrow> bn_layout b = layout" and "kept layout K (lasting c) (content c) s"
    and "boot_slot_internal_activate_locked (control_io ios b) slot s c = (rc, s', c')"
  shows "valid c' \<and> kept layout K (lasting c') (content c') s' \<and>
    (rc = 0 \<longrightarrow> boot_slot_internal_persistence_ready_locked s \<and> boot_slot_internal_persistence_ready_locked s' \<and> bsm s' = on_trial slot (bsm s) \<and>
      flushed layout (lasting c') (content c')) \<and>
    (rc \<noteq> 0 \<longrightarrow> \<not> boot_slot_internal_persistence_ready_locked s' \<or> s' = s \<and> c' = c)"
proof (cases "rc = BOOT_SLOT_ERR_IO \<and> s' = s \<and> c' = c")
  case True
  then show ?thesis using assms(1,3) by (simp add: BOOT_SLOT_ERR_IO_def)
next
  case False
  let ?m = "bsm s"
  have r: "boot_slot_internal_persistence_ready_locked s"
    using assms(4) False by (auto simp: boot_slot_internal_activate_locked_def ready_iff split: if_splits)
  then have v: "boot_slot_manager_validate ?m" using keptD(3) [OF assms(3)] by (simp add: good_def manager_ok_def)
  have slot: "slot < 2" "mg_pending_slot ?m = BOOT_SLOT_NONE" "slot \<noteq> mg_confirmed_slot ?m"
    and st: "sl_state (slot_at ?m slot) = BOOT_SLOT_VALID \<or> sl_state (slot_at ?m slot) = BOOT_SLOT_ACTIVE"
    and k: "bs_commit_locked (control_io ios b) (on_trial slot ?m) s c = (rc, s', c')"
    using assms(4) False r unfolding boot_slot_internal_activate_locked_def BOOT_SLOT_COUNT_def
    by (auto simp: not_le ready_iff split: if_splits)
  have "settled ?m" using v slot(2) by (auto simp: validate_iff trying_def lt_two BOOT_SLOT_NONE_def)
  moreover have "slot = mg_confirmed_slot ?m XOR 1" using two_slots [OF slots_bootable(1) [OF v] slot(1)] slot(3) by simp
  ultimately have "sl_state (slot_at ?m slot) = BOOT_SLOT_VALID" using st by (auto simp: settled_def)
  then show ?thesis using trial_commit [OF assms(1-3) r slot _ k] r by blast
qed

text \<open>
  Selecting a slot to boot: the confirmed one (0), the one on trial, whose attempt is then spent (1), or again the confirmed one after
  the trial failed (2). The slot is always one with an image.
\<close>

lemma select_locked:
  assumes "valid c" and "bn_active b \<longrightarrow> bn_layout b = layout" and "kept layout K (lasting c) (content c) s"
    and "boot_slot_internal_select_locked (control_io ios b) s c = (rc, slot, g, s', c')"
  shows "valid c' \<and> kept layout K (lasting c') (content c') s' \<and>
    (rc \<noteq> 0 \<and> rc \<noteq> 1 \<and> rc \<noteq> 2 \<longrightarrow> \<not> boot_slot_internal_persistence_ready_locked s' \<or> s' = s \<and> c' = c) \<and>
    (rc = 0 \<or> rc = 1 \<or> rc = 2 \<longrightarrow> boot_slot_internal_persistence_ready_locked s' \<and> g = bp_generation (bsp s') \<and> slot < 2 \<and>
      bootable (sl_state (slot_at (bsm s') slot))) \<and>
    (rc = 0 \<longrightarrow> s' = s \<and> c' = c \<and> slot = mg_confirmed_slot (bsm s) \<and> mg_pending_slot (bsm s) = BOOT_SLOT_NONE) \<and>
    (rc = 1 \<longrightarrow> slot = mg_pending_slot (bsm s) \<and> mg_tries_remaining (bsm s) = 1 \<and> bsm s' = spend_attempt (bsm s) \<and>
      flushed layout (lasting c') (content c')) \<and>
    (rc = 2 \<longrightarrow> slot = mg_confirmed_slot (bsm s) \<and> mg_pending_slot (bsm s) \<noteq> BOOT_SLOT_NONE \<and> mg_tries_remaining (bsm s) = 0 \<and>
      bs_apply_rollback (bsm s) = Some (bsm s') \<and> flushed layout (lasting c') (content c'))"
proof (cases "boot_slot_internal_persistence_ready_locked s")
  case False
  then have "rc = BOOT_SLOT_ERR_IO" "s' = s" "c' = c" using assms(4) by (simp_all add: boot_slot_internal_select_locked_def)
  then show ?thesis using assms(1,3) by (simp add: BOOT_SLOT_ERR_IO_def)
next
  case r: True
  let ?m = "bsm s"
  have v: "boot_slot_manager_validate ?m" using keptD(3) [OF assms(3) r] by (simp add: good_def manager_ok_def)
  have after: "boot_slot_manager_validate (bsm s'')" if "kept layout K L C s''" "boot_slot_internal_persistence_ready_locked s''" for s'' L C
    using keptD(3) [OF that] by (simp add: good_def manager_ok_def)
  consider (none) "mg_pending_slot ?m = BOOT_SLOT_NONE" | (trial) "mg_pending_slot ?m \<noteq> BOOT_SLOT_NONE" "mg_tries_remaining ?m > 0"
    | (over) "mg_pending_slot ?m \<noteq> BOOT_SLOT_NONE" "mg_tries_remaining ?m = 0" by (metis word_gt_0)
  then show ?thesis
  proof cases
    case none
    then have "rc = 0" "s' = s" "c' = c" "slot = mg_confirmed_slot ?m" "g = bp_generation (bsp s)"
      using assms(4) r by (auto simp: boot_slot_internal_select_locked_def)
    then show ?thesis using assms(1,3) r none slots_bootable(1,2) [OF v] by simp
  next
    case trial
    obtain rc1 s1 c1 where k: "bs_commit_locked (control_io ios b) (spend_attempt ?m) s c = (rc1, s1, c1)" by (metis prod_cases3)
    note S = spend_commit [OF assms(1-3) r trial k]
    have e: "(rc, slot, g, s', c') = (if rc1 \<noteq> 0 then (rc1, BOOT_SLOT_NONE, 0, s1, c1) else (1, mg_pending_slot ?m, bp_generation (bsp s1), s1, c1))"
      using assms(4) r trial by (simp add: boot_slot_internal_select_locked_def k)
    show ?thesis
    proof (cases "rc1 = 0")
      case True
      have one: "mg_tries_remaining ?m = 1" using trial(2) tries_at_most_one [OF v] by auto
      have m': "mg_pending_slot (bsm s1) = mg_pending_slot ?m" "boot_slot_manager_validate (bsm s1)" using S True spend_valid(1,5) [OF v trial] by auto
      have "slot = mg_pending_slot ?m" "s' = s1" "c' = c1" "rc = 1" "g = bp_generation (bsp s1)" using e True by simp_all
      then show ?thesis using S True one slots_bootable(3) [OF m'(2)] m'(1) trial(1) by simp
    next
      case False
      have "rc1 \<noteq> 1" "rc1 \<noteq> 2" using k by (auto dest!: commit_codes)
      then show ?thesis using e False S by simp
    qed
  next
    case over
    obtain m where m: "bs_apply_rollback ?m = Some m" "boot_slot_manager_validate m" "mg_confirmed_slot m = mg_confirmed_slot ?m"
      using rollback_valid [OF v over(1)] by blast
    obtain rc1 s1 c1 where k: "bs_commit_locked (control_io ios b) m s c = (rc1, s1, c1)" by (metis prod_cases3)
    note S = rollback_commit [OF assms(1-3) r over(1) m(1) k]
    have e: "(rc, slot, g, s', c') = (if rc1 \<noteq> 0 then (rc1, BOOT_SLOT_NONE, 0, s1, c1) else (2, mg_confirmed_slot ?m, bp_generation (bsp s1), s1, c1))"
      using assms(4) r over by (simp add: boot_slot_internal_select_locked_def k m(1))
    show ?thesis
    proof (cases "rc1 = 0")
      case True
      then have "slot = mg_confirmed_slot ?m" "s' = s1" "c' = c1" "rc = 2" "g = bp_generation (bsp s1)" using e by simp_all
      then show ?thesis using S True over slots_bootable(1,2) [OF m(2)] m by simp
    next
      case False
      have "rc1 \<noteq> 1" "rc1 \<noteq> 2" using k by (auto dest!: commit_codes)
      then show ?thesis using e False S by simp
    qed
  qed
qed

lemma confirm_locked:
  assumes "valid c" and "bn_active b \<longrightarrow> bn_layout b = layout" and "kept layout K (lasting c) (content c) s"
    and "boot_slot_internal_confirm_verified_locked (control_io ios b) slot g ae le s c = (rc, s', c')"
    and "\<forall>p. ((slot, slot_image (slot_at (bsm s) slot)), p) \<in> K"
  shows "valid c' \<and> kept layout K (lasting c') (content c') s' \<and>
    (rc = 0 \<longrightarrow> boot_slot_internal_persistence_ready_locked s \<and> boot_slot_internal_persistence_ready_locked s' \<and>
      mg_pending_slot (bsm s) = slot \<and> slot < 2 \<and> mg_tries_remaining (bsm s) = 0 \<and>
      bsm s' = confirmed_manager slot (bsm s) \<and> flushed layout (lasting c') (content c')) \<and>
    (rc \<noteq> 0 \<longrightarrow> \<not> boot_slot_internal_persistence_ready_locked s' \<or> s' = s \<and> c' = c)"
proof (cases "rc = BOOT_SLOT_ERR_IO \<and> s' = s \<and> c' = c")
  case True
  then show ?thesis using assms(1,3) by (simp add: BOOT_SLOT_ERR_IO_def)
next
  case False
  have r: "boot_slot_internal_persistence_ready_locked s" and slot: "mg_pending_slot (bsm s) = slot" "slot < 2" "mg_tries_remaining (bsm s) = 0"
    and k: "bs_commit_locked (control_io ios b) (confirmed_manager slot (bsm s)) s c = (rc, s', c')"
    using assms(4) False unfolding boot_slot_internal_confirm_verified_locked_def BOOT_SLOT_COUNT_def by (auto simp: not_le split: if_splits)
  show ?thesis using confirm_commit [OF assms(1-3) r slot assms(5) k] r slot by blast
qed

lemma rollback_locked:
  assumes "valid c" and "bn_active b \<longrightarrow> bn_layout b = layout" and "kept layout K (lasting c) (content c) s"
    and "boot_slot_internal_rollback_locked (control_io ios b) s c = (rc, s', c')"
  shows "valid c' \<and> kept layout K (lasting c') (content c') s' \<and>
    (rc = 0 \<longrightarrow> bs_apply_rollback (bsm s) = Some (bsm s') \<and> flushed layout (lasting c') (content c')) \<and>
    (rc \<noteq> 0 \<longrightarrow> \<not> boot_slot_internal_persistence_ready_locked s' \<or> s' = s \<and> c' = c)"
proof (cases "rc = BOOT_SLOT_ERR_IO \<and> s' = s \<and> c' = c")
  case True
  then show ?thesis using assms(1,3) by (simp add: BOOT_SLOT_ERR_IO_def)
next
  case False
  have r: "boot_slot_internal_persistence_ready_locked s" and rp: "mg_rollback_pending (bsm s)"
    using assms(4) False by (auto simp: boot_slot_internal_rollback_locked_def ready_iff split: if_splits)
  have v: "boot_slot_manager_validate (bsm s)" using keptD(3) [OF assms(3) r] by (simp add: good_def manager_ok_def)
  have p: "mg_pending_slot (bsm s) \<noteq> BOOT_SLOT_NONE" using v rp by (auto simp: validate_iff settled_def trying_def lt_two BOOT_SLOT_NONE_def)
  obtain m where m: "bs_apply_rollback (bsm s) = Some m" using rollback_valid [OF v p] by blast
  have "bs_commit_locked (control_io ios b) m s c = (rc, s', c')"
    using assms(4) False r rp m by (auto simp: boot_slot_internal_rollback_locked_def ready_iff split: if_splits)
  then show ?thesis using rollback_commit [OF assms(1-3) r p m] m by auto
qed

end

end
