(* ===== verification/BootStage.thy ===== *)
theory BootStage
  imports BootSafe
begin

text \<open>
  Staging an image: the slot is marked unusable in both records before the first sector of it is written, and valid
  only when header and payload are on the medium and flushed. However it is interrupted, no record calls the slot bootable while
  its content is in doubt, and the other slot is not touched.
\<close>

subsection \<open>Payload sectors\<close>

lemma chunk_length: "length (chunk_at payload i) \<le> 512"
  by (simp add: chunk_at_def BOOT_SLOT_STORE_SECTOR_SIZE_def)

lemma sector_of_length [simp]: "length (sector_of payload i) = BOOT_SLOT_STORE_SECTOR_SIZE"
  using chunk_length [of payload i] by (simp add: sector_of_def BOOT_SLOT_STORE_SECTOR_SIZE_def)

lemma hash_is_ref: "sha256_hash sha_junk payload = sha256_ref payload"
  by (simp add: sha256_hash_def sha256_fresh_def final_one SHA256_BLOCK_SIZE_def)

lemma sector_count_cases: "sector_count n = n div 512 + (if n mod 512 = 0 then 0 else 1)"
proof -
  define q r where "q = n div 512" and "r = n mod 512"
  have n: "n + 511 = q * 512 + (r + 511)" and r: "r < 512" by (simp_all add: q_def r_def)
  have "(r + 511) div 512 = (if r = 0 then 0 else 1)"
  proof (cases "r = 0")
    case False
    then have "r + 511 = 512 + (r - 1)" by simp
    then show ?thesis using r False by simp
  qed simp
  then show ?thesis unfolding sector_count_def n q_def [symmetric] r_def [symmetric] by simp
qed

lemma unat_up: "unat (ucast (w :: u32) :: u64) = unat w"
proof -
  have "unat w < 2 ^ LENGTH(32)" by (rule unsigned_less)
  then show ?thesis by (simp add: unsigned_ucast_eq take_bit_nat_eq_self)
qed

lemma sectors_word:
  assumes "length payload = unat w"
  shows "unat (w div of_nat BOOT_SLOT_STORE_SECTOR_SIZE + (if w mod of_nat BOOT_SLOT_STORE_SECTOR_SIZE \<noteq> 0 then 1 else 0) :: u32) = sector_count (length payload)"
proof -
  have d: "unat (w div 512) = unat w div 512" and m: "unat (w mod 512) = unat w mod 512" by (simp_all add: unat_div unat_mod)
  have "unat w < 2 ^ LENGTH(32)" by (rule unsigned_less)
  then have lt: "unat w div 512 + 1 < 2 ^ LENGTH(32)" by simp
  have z: "w mod 512 = 0 \<longleftrightarrow> unat w mod 512 = 0" using m by (metis unat_0 unat_eq_zero)
  show ?thesis
  proof (cases "unat w mod 512 = 0")
    case True
    then have "sector_count (length payload) = unat w div 512" using assms by (simp add: sector_count_cases)
    then show ?thesis using True z d by (simp add: BOOT_SLOT_STORE_SECTOR_SIZE_def)
  next
    case False
    then have "sector_count (length payload) = unat w div 512 + 1" using assms by (simp add: sector_count_cases)
    then show ?thesis using False z d lt by (simp add: BOOT_SLOT_STORE_SECTOR_SIZE_def unat_word_ariths)
  qed
qed

lemma sector_count_fits:
  assumes "(ucast w :: u64) \<le> ucast (cap :: u32) * 512" and "length payload = unat (w :: u32)"
  shows "sector_count (length payload) \<le> unat cap"
proof -
  have "unat cap < 2 ^ LENGTH(32)" by (rule unsigned_less)
  then have "unat (ucast cap * 512 :: u64) = unat cap * 512" by (simp add: unat_word_ariths unat_up)
  then have "unat w \<le> unat cap * 512" using assms(1) by (simp add: word_le_nat_alt unat_up)
  then show ?thesis using assms(2) unfolding sector_count_def by linarith
qed

lemma lba_offset:
  fixes lba :: u32
  assumes "unat lba + i < 2 ^ 32"
  shows "unat (lba + of_nat i) = unat lba + i"
proof -
  have "unat (of_nat i :: u32) = i" using assms by (simp add: unat_of_nat)
  then show ?thesis using assms by (simp add: unat_word_ariths)
qed

context boot_medium
begin

lemma slot_bounds:
  assumes "x < 2"
  shows "slot_sectors layout x \<subseteq> {..<unat (ly_boot_sectors layout)}"
  using plan_disjoint(5) [OF plan] assms by (auto simp: lt_two)

lemma write_payload_ok:
  assumes "write_payload (io_of ios h) lba payload is c = (done, c')" and "valid c" and "distinct is"
    and "\<forall>i\<in>set is. unat lba + i < unat (ly_boot_sectors layout)"
  shows "valid c' \<and> (\<forall>k. k \<notin> (\<lambda>i. unat lba + i) ` set is \<longrightarrow> content c' k = content c k \<and> lasting c' k \<subseteq> lasting c k) \<and>
    (done \<longrightarrow> (\<forall>i\<in>set is. content c' (unat lba + i) = sector_of payload i))"
  using assms
proof (induction "is" arbitrary: c)
  case Nil
  then show ?case by simp
next
  case (Cons i "is")
  have n: "unat (ly_boot_sectors layout) < 2 ^ 32" using unsigned_less [of "ly_boot_sectors layout"] by simp
  have u: "unat (lba + of_nat i) = unat lba + i" using Cons.prems(4) n by (intro lba_offset) simp
  obtain rc c1 where w: "sec_write (io_of ios h) (lba + of_nat i) (sector_of payload i) c = (rc, c1)" by fastforce
  have W: "valid c1 \<and> (\<forall>k. k \<noteq> unat lba + i \<longrightarrow> content c1 k = content c k \<and> lasting c1 k \<subseteq> lasting c k) \<and> (rc = 0 \<longrightarrow> content c1 (unat lba + i) = sector_of payload i)"
    using io_write [OF Cons.prems(2) _ sector_of_length w] u Cons.prems(4) by simp
  have e: "(if rc \<noteq> 0 then (False, c1) else write_payload (io_of ios h) lba payload is c1) = (done, c')"
    using Cons.prems(1) w by (simp add: sector_of_def)
  show ?case
  proof (cases "rc = 0")
    case True
    have "write_payload (io_of ios h) lba payload is c1 = (done, c')" using e True by simp
    note I = Cons.IH [OF this, of]
    have I: "valid c' \<and> (\<forall>k. k \<notin> (\<lambda>i. unat lba + i) ` set is \<longrightarrow> content c' k = content c1 k \<and> lasting c' k \<subseteq> lasting c1 k) \<and>
      (done \<longrightarrow> (\<forall>i\<in>set is. content c' (unat lba + i) = sector_of payload i))"
      using I Cons.prems(3,4) W by simp
    have "unat lba + i \<notin> (\<lambda>i. unat lba + i) ` set is" using Cons.prems(3) by auto
    then show ?thesis using I W True by (auto simp: subset_iff)
  next
    case False
    then show ?thesis using e W by auto
  qed
qed

lemma hash_payload_ok:
  assumes "hash_payload (io_of ios h) lba len is ctx c = (r, c')" and "valid c"
    and "\<forall>i\<in>set is. unat lba + i < unat (ly_boot_sectors layout)"
  shows "valid c' \<and> content c' = content c \<and> (\<forall>k. lasting c' k \<subseteq> lasting c k)"
  using assms
proof (induction "is" arbitrary: c ctx)
  case Nil
  then show ?case by simp
next
  case (Cons i "is")
  have n: "unat (ly_boot_sectors layout) < 2 ^ 32" using unsigned_less [of "ly_boot_sectors layout"] by simp
  have u: "unat (lba + of_nat i) = unat lba + i" using Cons.prems(3) n by (intro lba_offset) simp
  obtain rc sec c1 where rd: "sec_read (io_of ios h) (lba + of_nat i) c = (rc, sec, c1)" by (metis prod_cases3)
  have R: "valid c1 \<and> content c1 = content c \<and> (\<forall>k. lasting c1 k \<subseteq> lasting c k)"
    using io_read [OF Cons.prems(2) _ rd] u Cons.prems(3) by simp
  show ?case
  proof (cases "c' = c1")
    case True
    then show ?thesis using R by simp
  next
    case False
    then obtain ctx' where "hash_payload (io_of ios h) lba len is ctx' c1 = (r, c')"
      using Cons.prems(1) by (auto simp: rd Let_def split: if_splits)
    then have "valid c' \<and> content c' = content c1 \<and> (\<forall>k. lasting c' k \<subseteq> lasting c1 k)" using Cons.IH Cons.prems(3) R by simp
    then show ?thesis using R by (metis order_trans)
  qed
qed

end

subsection \<open>Writing the image\<close>

lemma flushed_shrink: "flushed layout L C \<Longrightarrow> \<forall>k. L' k \<subseteq> L k \<Longrightarrow> flushed layout L' C"
  unfolding flushed_def by (meson order_trans)

context boot_medium
begin

text \<open>Nothing outside the slot changes; on success header and payload are there to stay.\<close>

lemma stage_payload:
  assumes "store_stage_payload ios b m slot img payload c = (rc, c')" and "valid c" and "bn_active b \<longrightarrow> bn_layout b = layout" and "image_wf img"
  shows "valid c' \<and> (\<forall>k. k \<notin> slot_sectors layout slot \<longrightarrow> content c' k = content c k \<and> lasting c' k \<subseteq> lasting c k) \<and>
    (rc = 0 \<longrightarrow> flushed layout (lasting c') (content c') \<and> installed_as layout (\<lambda>k. {content c' k}) slot img payload)"
proof (cases "c' = c \<and> rc \<noteq> 0")
  case True
  then show ?thesis using assms(2) by simp
next
  case False
  let ?io = "io_of ios (bn_io b)" and ?rg = "at2 (ly_slots layout) slot"
  let ?n = "im_payload_size img div of_nat BOOT_SLOT_STORE_SECTOR_SIZE + (if im_payload_size img mod of_nat BOOT_SLOT_STORE_SECTOR_SIZE \<noteq> 0 then 1 else 0)"
  let ?is = "[0..<unat ?n]"
  have act: "bn_active b"
    using False assms(1) by (auto simp: store_stage_payload_def Let_def BOOT_SLOT_STORE_ERR_IO_def split: if_splits)
  then have lay: "bn_layout b = layout" using assms(3) by simp
  have guards: "slot < 2" "length payload = unat (im_payload_size img)" "store_image_valid img (rg_payload_capacity_sectors ?rg)"
    "store_equal (sha256_hash sha_junk payload) (im_payload_sha256 img) BOOT_SLOT_SHA256_SIZE"
    using False assms(1) act unfolding store_stage_payload_def Let_def lay BOOT_SLOT_COUNT_def
    by (auto simp: not_le BOOT_SLOT_STORE_ERR_IO_def BOOT_SLOT_STORE_ERR_VERIFY_def split: if_splits)
  have cnt: "unat ?n = sector_count (length payload)" by (rule sectors_word [OF guards(2)])
  have fits: "sector_count (length payload) \<le> unat (rg_payload_capacity_sectors ?rg)"
    using guards(2,3) by (intro sector_count_fits) (simp_all add: store_image_valid_def BOOT_SLOT_STORE_SECTOR_SIZE_def)
  have sec: "unat (rg_payload_lba ?rg) + i \<in> slot_sectors layout slot" if "i < sector_count (length payload)" for i
    using that fits by (simp add: slot_sectors_def)
  have hdr: "unat (rg_header_lba ?rg) \<in> slot_sectors layout slot" by (simp add: slot_sectors_def)
  have lim: "\<forall>i\<in>set ?is. unat (rg_payload_lba ?rg) + i < unat (ly_boot_sectors layout)" 
    unfolding cnt using sec slot_bounds [OF guards(1)] by (auto simp: subset_iff)
  have hlim: "unat (rg_header_lba ?rg) < unat (ly_boot_sectors layout)" using hdr slot_bounds [OF guards(1)] by auto
  obtain d1 c1 where w: "write_payload ?io (rg_payload_lba ?rg) payload ?is c = (d1, c1)" by fastforce
  obtain rc2 c2 where f: "sec_flush ?io c1 = (rc2, c2)" by fastforce
  obtain d3 c3 where h: "hash_payload ?io (rg_payload_lba ?rg) (length payload) ?is (sha256_fresh sha_junk) c2 = (d3, c3)" by fastforce
  obtain rc4 c4 where w4: "sec_write ?io (rg_header_lba ?rg) (store_encode_header layout slot img) c3 = (rc4, c4)" by fastforce
  obtain rc5 c5 where f5: "sec_flush ?io c4 = (rc5, c5)" by fastforce
  obtain rc6 r6 c6 where r6: "sec_read ?io (rg_header_lba ?rg) c5 = (rc6, r6, c6)" by (metis prod_cases3)
  have W: "valid c1 \<and> (\<forall>k. k \<notin> slot_sectors layout slot \<longrightarrow> content c1 k = content c k \<and> lasting c1 k \<subseteq> lasting c k) \<and>
    (d1 \<longrightarrow> (\<forall>i < sector_count (length payload). content c1 (unat (rg_payload_lba ?rg) + i) = sector_of payload i))"
  proof -
    have sub: "(\<lambda>i. unat (rg_payload_lba ?rg) + i) ` set ?is \<subseteq> slot_sectors layout slot" unfolding cnt set_upt using sec by fastforce
    have idx: "i \<in> set ?is" if "i < sector_count (length payload)" for i using that unfolding cnt by simp
    show ?thesis using write_payload_ok [OF w assms(2) distinct_upt lim] sub idx by blast
  qed
  note F = io_flush [OF conjunct1 [OF W] f]
  have H: "valid c3 \<and> content c3 = content c2 \<and> (\<forall>k. lasting c3 k \<subseteq> lasting c2 k)" using hash_payload_ok [OF h _ lim] F by blast
  have W4: "valid c4 \<and> (\<forall>k. k \<noteq> unat (rg_header_lba ?rg) \<longrightarrow> content c4 k = content c3 k \<and> lasting c4 k \<subseteq> lasting c3 k) \<and>
    (rc4 = 0 \<longrightarrow> content c4 (unat (rg_header_lba ?rg)) = store_encode_header layout slot img)"
    using io_write [OF conjunct1 [OF H] hlim _ w4] by (simp add: BOOT_SLOT_STORE_SECTOR_SIZE_def)
  note F5 = io_flush [OF conjunct1 [OF W4] f5]
  note R6 = io_read [OF conjunct1 [OF F5] hlim r6]
  have o2: "\<forall>k. k \<notin> slot_sectors layout slot \<longrightarrow> content c2 k = content c k \<and> lasting c2 k \<subseteq> lasting c k" using W F by (metis order_trans)
  have o3: "\<forall>k. k \<notin> slot_sectors layout slot \<longrightarrow> content c3 k = content c k \<and> lasting c3 k \<subseteq> lasting c k" using o2 H by (metis order_trans)
  have o4: "\<forall>k. k \<notin> slot_sectors layout slot \<longrightarrow> content c4 k = content c k \<and> lasting c4 k \<subseteq> lasting c k" using o3 W4 hdr by (metis order_trans)
  have o5: "\<forall>k. k \<notin> slot_sectors layout slot \<longrightarrow> content c5 k = content c k \<and> lasting c5 k \<subseteq> lasting c k" using o4 F5 by (metis order_trans)
  have o6: "\<forall>k. k \<notin> slot_sectors layout slot \<longrightarrow> content c6 k = content c k \<and> lasting c6 k \<subseteq> lasting c k" using o5 R6 by (metis order_trans)
  have res: "c' = c1 \<and> rc \<noteq> 0 \<or> c' = c2 \<and> rc \<noteq> 0 \<or> c' = c3 \<and> rc \<noteq> 0 \<or> c' = c4 \<and> rc \<noteq> 0 \<or> c' = c5 \<and> rc \<noteq> 0 \<or>
    c' = c6 \<and> (rc = 0 \<longrightarrow> d1 \<and> rc4 = 0 \<and> rc5 = 0)"
    using False assms(1) unfolding store_stage_payload_def Let_def lay w f h w4 f5 r6 prod.case
    by (auto simp: BOOT_SLOT_STORE_ERR_IO_def BOOT_SLOT_STORE_ERR_VERIFY_def BOOT_SLOT_STORE_ERR_COMMIT_UNKNOWN_def split: if_splits option.splits bool.splits)
  have last: "flushed layout (lasting c6) (content c6) \<and> installed_as layout (\<lambda>k. {content c6 k}) slot img payload" if "d1" "rc4 = 0" "rc5 = 0"
  proof
    show "flushed layout (lasting c6) (content c6)" 
      by (rule flushed_shrink [of layout "lasting c5"]) (use F5 R6 that(3) in \<open>simp_all add: flushed_def\<close>)
    have ne: "unat (rg_payload_lba ?rg) + i \<noteq> unat (rg_header_lba ?rg)" for i
      using plan_values(3,4,6,7) [OF plan] guards(1) by (auto simp: lt_two)
    have "\<forall>i < sector_count (length payload). content c6 (unat (rg_payload_lba ?rg) + i) = sector_of payload i"
      using W that(1) F H W4 F5 R6 ne by simp
    moreover have "content c6 (unat (rg_header_lba ?rg)) = store_encode_header layout slot img" using W4 F5 R6 that(2) by simp
    moreover have "sha256_ref payload = im_payload_sha256 img"
      using guards(4) assms(4) store_equal_lists [of "sha256_ref payload" 32 "im_payload_sha256 img"] sha256_ref_length [of payload]
      by (simp add: hash_is_ref image_wf_def BOOT_SLOT_SHA256_SIZE_def SHA256_DIGEST_SIZE_def)
    ultimately show "installed_as layout (\<lambda>k. {content c6 k}) slot img payload" unfolding installed_as_def using guards(2) fits by simp
  qed
  from res show ?thesis
  proof (elim disjE)
    assume "c' = c6 \<and> (rc = 0 \<longrightarrow> d1 \<and> rc4 = 0 \<and> rc5 = 0)"
    then show ?thesis using last o6 R6 by blast
  qed (use W F H W4 F5 o2 o3 o4 o5 in \<open>simp_all\<close>)
qed

end

subsection \<open>Marking the slot and publishing it\<close>

text \<open>Sectors of a slot that no record calls bootable may change.\<close>

lemma kept_slot_write:
  assumes "kept layout K L C b" and "boot_slot_layout_plan n = Some layout" and "x < 2"
    and "\<forall>k. k \<notin> slot_sectors layout x \<longrightarrow> L' k \<subseteq> L k \<and> C' k = C k"
    and "\<forall>i\<in>{0, 1}. \<forall>r\<in>L (copy_lba layout i). \<exists>g. usable layout r = Some (bsm b, g)" and "\<not> bootable (sl_state (slot_at (bsm b) x))"
  shows "kept layout K L' C' b"
proof -
  note dis = plan_disjoint(1-3) [OF assms(2)]
  have keep: "good layout K L' (bsm b)" if "good layout K L (bsm b)"
  proof -
    have s: "\<forall>y\<in>{0, 1}. bootable (sl_state (slot_at (bsm b) y)) \<longrightarrow> (\<forall>k\<in>slot_sectors layout y. L' k \<subseteq> L k)"
      using assms(3,4,6) dis by (auto simp: lt_two)
    have "mg_confirmed_slot (bsm b) < 2" "bootable (sl_state (slot_at (bsm b) (mg_confirmed_slot (bsm b))))"
      using that by (auto simp: good_def manager_ok_def validate_iff settled_def trying_def bootable_def)
    then have "backed layout K L' (bsm b)" using s backed_mono [of layout K L "bsm b" L'] that by (auto simp: good_def lt_two)
    then show ?thesis using that images_on_mono [of layout L "bsm b" L'] s by (simp add: good_def)
  qed
  have ctl: "copy_lba layout i \<notin> slot_sectors layout x" if "i < 2" for i
    using copy_lba_control [OF that] dis assms(3) by (auto simp: lt_two)
  have "sound layout K L'"
    unfolding sound_def
  proof (intro ballI)
    fix i :: u32 and r
    assume i: "i \<in> {0, 1}" and r: "r \<in> L' (copy_lba layout i)"
    have "i < 2" using i by (auto simp: lt_two)
    then have rL: "r \<in> L (copy_lba layout i)" using r assms(4) ctl by blast
    then obtain m g where mg: "usable layout r = Some (m, g)" "owns i g" "good layout K L m" using keptD(1) [OF assms(1)] i unfolding sound_def by blast
    have "m = bsm b" using assms(5) i rL mg(1) by fastforce
    then show "\<exists>m g. usable layout r = Some (m, g) \<and> owns i g \<and> good layout K L' m" using mg keep by blast
  qed
  moreover have "ram_ok layout K L' C' b"
  proof -
    have "current layout C' b" if "current layout C b" "bp_active_copy (bsp b) < 2"
      using that ctl [OF that(2)] ctl [OF xor_one_lt2 [OF that(2)]] assms(4) by (simp add: current_def)
    then show ?thesis using keptD(2) [OF assms(1)] keep by (auto simp: ram_ok_def)
  qed
  ultimately show ?thesis by (simp add: kept_def)
qed

text \<open>The two managers that staging writes.\<close>

lemma staged_good:
  assumes "good layout K L m" and "slot < 2" and "slot \<noteq> mg_confirmed_slot m" and "mg_pending_slot m = BOOT_SLOT_NONE"
    and "bs_image_valid img (sl_payload_capacity_sectors (slot_at m slot))" and "image_wf img"
  shows "good layout K L (staged_manager slot img m)" and "\<not> bootable (sl_state (slot_at (staged_manager slot img m) slot))"
    and "mg_confirmed_slot (staged_manager slot img m) = mg_confirmed_slot m" and "mg_pending_slot (staged_manager slot img m) = BOOT_SLOT_NONE"
    and "sl_payload_capacity_sectors (slot_at (staged_manager slot img m) slot) = sl_payload_capacity_sectors (slot_at m slot)"
proof -
  let ?cand = "staged_manager slot img m"
  have ok: "manager_ok layout m" using assms(1) by (simp add: good_def)
  then have v: "boot_slot_manager_validate m" by (simp add: manager_ok_def)
  note cf = slots_bootable(1) [OF v]
  have st: "ab_step m ?cand" by (rule ab_step.stage [OF assms(4,2,3,5,6)])
  show eqs: "mg_confirmed_slot ?cand = mg_confirmed_slot m" "mg_pending_slot ?cand = BOOT_SLOT_NONE"
    using assms(4) by (simp_all add: staged_manager_def upd_slot_def)
  show "sl_payload_capacity_sectors (slot_at ?cand slot) = sl_payload_capacity_sectors (slot_at m slot)"
    using assms(2) by (simp add: staged_manager_def upd_slot_def at2_set2 bs_slot_apply_image_def)
  have same: "slot_at ?cand x = slot_at m x" if "x < 2" "x \<noteq> slot" for x
    using that assms(2) by (simp add: staged_manager_def upd_slot_def at2_set2)
  show nb: "\<not> bootable (sl_state (slot_at ?cand slot))"
    using assms(2) by (simp add: staged_manager_def upd_slot_def at2_set2 bs_slot_apply_image_def bootable_def)
  have "images_on layout L ?cand"
    unfolding images_on_def
  proof (intro ballI impI)
    fix x :: u32 assume x: "x \<in> {0, 1}" "bootable (sl_state (slot_at ?cand x))"
    then have "x < 2" "x \<noteq> slot" using nb by (auto simp: lt_two)
    then show "installed layout L x (image_of (slot_at ?cand x))" using same x assms(1) by (auto simp: good_def images_on_def)
  qed
  moreover have fb: "fallback ?cand = fallback m" using same [OF cf] assms(3) eqs(1) by (simp add: fallback_def)
  ultimately show "good layout K L ?cand" using ab_step_ok [OF st ok] assms(1) backed_cong [OF fb] by (simp add: good_def)
qed

lemma published_good:
  assumes "good layout K L m" and "slot < 2" and "slot \<noteq> mg_confirmed_slot m" and "mg_pending_slot m = BOOT_SLOT_NONE"
    and "bs_image_valid img (sl_payload_capacity_sectors (slot_at m slot))" and "image_wf img" and "store_version_valid (im_version img)"
    and "installed layout L slot img"
  shows "good layout K L (published_manager slot img m)" and "image_of (slot_at (published_manager slot img m) slot) = img"
proof -
  let ?cand = "published_manager slot img m"
  have ok: "manager_ok layout m" using assms(1) by (simp add: good_def)
  then have v: "boot_slot_manager_validate m" by (simp add: manager_ok_def)
  note cf = slots_bootable(1) [OF v]
  have st: "ab_step m ?cand" by (rule ab_step.publish [OF assms(4,2,3,5,6)])
  have same: "slot_at ?cand x = slot_at m x" if "x < 2" "x \<noteq> slot" for x
    using that assms(2) by (simp add: published_manager_def upd_slot_def at2_set2)
  have "bs_strcpy (im_version img) BOOT_SLOT_VERSION_MAX = im_version img"
    using version_valid_padded(1) [OF assms(7)] assms(6) by (simp add: image_wf_def version_padded_def BOOT_SLOT_VERSION_MAX_def)
  then show im: "image_of (slot_at ?cand slot) = img"
    using assms(2,6) by (simp add: published_manager_def upd_slot_def at2_set2 bs_slot_apply_image_def image_of_def image_wf_def)
  have "images_on layout L ?cand"
    unfolding images_on_def
  proof (intro ballI impI)
    fix x :: u32 assume x: "x \<in> {0, 1}" "bootable (sl_state (slot_at ?cand x))"
    then have "x < 2" by (auto simp: lt_two)
    then show "installed layout L x (image_of (slot_at ?cand x))"
      using same x assms(1,8) im by (cases "x = slot") (auto simp: good_def images_on_def)
  qed
  moreover have "mg_confirmed_slot ?cand = mg_confirmed_slot m" by (simp add: published_manager_def upd_slot_def)
  then have fb: "fallback ?cand = fallback m" using same [OF cf] assms(3) by (simp add: fallback_def)
  ultimately show "good layout K L ?cand" using ab_step_ok [OF st ok] assms(1) backed_cong [OF fb] by (simp add: good_def)
qed

context boot_medium
begin

lemma write_verified_good:
  assumes "good layout K L m" and "bp_configured (bsp s)" and "i < 2" and "valid c" and "bn_active b \<longrightarrow> bn_layout b = layout"
    and "bs_write_verified (control_io ios b) m i g s c = (rc, c')"
  shows "rc = 0 \<or> rc = BOOT_SLOT_ERR_COMMIT_UNKNOWN"
  using write_verified [OF assms(4-6)] assms(1-3) by (auto simp: good_def manager_ok_def not_le)

lemma stage_authorize:
  assumes "store_stage_authorize ios expected slot img s c = (rc, au, s', c')" and "valid c"
    and "bn_active (store_binding s) \<longrightarrow> bn_layout (store_binding s) = layout"
    and "kept layout K (lasting c) (content c) (st_boot s)" and "image_wf img"
  shows "valid c' \<and> kept layout K (lasting c') (content c') (st_boot s') \<and> s' = s\<lparr>st_boot := st_boot s'\<rparr> \<and>
    (au = None \<longrightarrow> rc \<noteq> 0 \<and> (\<not> boot_slot_internal_persistence_ready_locked (st_boot s') \<or> st_boot s' = st_boot s \<and> c' = c)) \<and>
    (au \<noteq> None \<longrightarrow> au_slot (the au) = slot \<and> boot_slot_internal_persistence_ready_locked (st_boot s) \<and> boot_slot_internal_persistence_ready_locked (st_boot s') \<and>
      slot < 2 \<and> slot \<noteq> mg_confirmed_slot (bsm (st_boot s)) \<and> mg_pending_slot (bsm (st_boot s)) = BOOT_SLOT_NONE \<and>
      bs_image_valid img (sl_payload_capacity_sectors (slot_at (bsm (st_boot s)) slot)) \<and>
      bsm (st_boot s') = staged_manager slot img (bsm (st_boot s)) \<and>
      (\<forall>i\<in>{0, 1}. \<forall>r\<in>lasting c' (copy_lba layout i). \<exists>g. usable layout r = Some (bsm (st_boot s'), g)))"
proof (cases "au = None \<and> s' = s \<and> c' = c \<and> rc \<noteq> 0")
  case True
  then show ?thesis using assms(2,4) by simp
next
  case False
  let ?b = "st_boot s" and ?p = "bsp (st_boot s)" and ?m = "bsm (st_boot s)" and ?io = "control_io ios (store_binding s)"
  let ?b1 = "upd_bsp (\<lambda>p. p\<lparr>bp_stage_claimed := True\<rparr>) ?b" and ?cand = "staged_manager slot img ?m"
  let ?i = "bp_active_copy ?p" and ?g = "bp_generation ?p"
  have r: "boot_slot_internal_persistence_ready_locked ?b" and slot: "slot < 2" "slot \<noteq> mg_confirmed_slot ?m" "mg_pending_slot ?m = BOOT_SLOT_NONE"
    and iv: "bs_image_valid img (sl_payload_capacity_sectors (slot_at ?m slot))" and lim: "\<not> ?g > UINT64_MAX - 3"
    and nc: "\<not> bp_stage_claimed ?p"
    using assms(1) False by (auto simp: store_stage_authorize_def Let_def not_le BOOT_SLOT_COUNT_def BOOT_SLOT_STORE_ERR_STALE_def
        BOOT_SLOT_STORE_ERR_BUSY_def split: if_splits)
  note k = keptD [OF assms(4)]
  have gd: "good layout K (lasting c) ?m" by (rule k(3) [OF r])
  have gc: "good layout K (lasting c) ?cand" by (rule staged_good(1) [OF gd slot iv assms(5)])
  have i: "?i < 2" "?i XOR 1 < 2" using k(4) [OF r] xor_one_lt2 by auto
  have g1: "?g \<noteq> UINT64_MAX" "?g + 1 \<noteq> UINT64_MAX" using lim by (auto simp: UINT64_MAX_def)
  have ow: "owns (?i XOR 1) (?g + 1)" "owns ?i (?g + 2)"
    using owns_next [OF k(5) [OF r] i(1) g1(1)] owns_next [OF owns_next [OF k(5) [OF r] i(1) g1(1)] i(2) g1(2)] by (simp_all add: xor_twice add.assoc)
  have cfg: "bp_configured (bsp ?b1)" "\<not> bp_blank (bsp ?b1)" using r k(8) by (simp_all add: ready_iff upd_bsp_def)
  obtain rc1 c1 where w1: "bs_write_verified ?io ?cand (?i XOR 1) (?g + 1) ?b1 c = (rc1, c1)" by fastforce
  obtain rc2 c2 where w2: "bs_write_verified ?io ?cand ?i (?g + 2) ?b1 c1 = (rc2, c2)" by fastforce
  note W1 = write_verified [OF assms(2,3) w1]
  have v1: "valid c1" using W1 by blast
  note W2 = write_verified [OF v1 assms(3) w2]
  have rcs: "rc1 = 0 \<or> rc1 = BOOT_SLOT_ERR_COMMIT_UNKNOWN" "rc2 = 0 \<or> rc2 = BOOT_SLOT_ERR_COMMIT_UNKNOWN"
    using write_verified_good [OF gc cfg(1) i(2) assms(2,3) w1] write_verified_good [OF gc cfg(1) i(1) v1 assms(3) w2] by auto
  let ?lost = "lost_track BOOT_SLOT_ERR_COMMIT_UNKNOWN ?b1"
  let ?b2 = "upd_bsp (\<lambda>p. p\<lparr>bp_generation := bp_generation p + 2\<rparr>) (?b1\<lparr>bsm := ?cand\<rparr>)"
  have ne: "BOOT_SLOT_ERR_COMMIT_UNKNOWN \<noteq> 0" by (simp add: BOOT_SLOT_ERR_COMMIT_UNKNOWN_def)
  have eq: "store_stage_authorize ios expected slot img s c =
    (if rc1 = 0 \<and> rc2 = 0 then (0, Some \<lparr>au_generation = ?g + 2, au_authority_epoch = bp_authority_epoch ?p, au_lease_epoch = bp_lease_epoch ?p, au_slot = slot\<rparr>,
        s\<lparr>st_boot := ?b2\<rparr>, c2)
     else (BOOT_SLOT_STORE_ERR_COMMIT_UNKNOWN, None, s\<lparr>st_boot := ?lost\<rparr>, if rc1 = 0 then c2 else c1))"
  proof -
    have "\<not> (store_stage_authorize ios expected slot img s c = (BOOT_SLOT_STORE_ERR_STALE, None, s, c))"
      using False assms(1) by (auto simp: BOOT_SLOT_STORE_ERR_STALE_def)
    then show ?thesis using nc rcs ne unfolding store_stage_authorize_def Let_def by (auto simp: w1 w2 split: if_splits)
  qed
  have lostf: "\<not> boot_slot_internal_persistence_ready_locked ?lost" "bp_blank (bsp ?lost) = bp_blank ?p" "bp_configured (bsp ?lost) = bp_configured ?p"
    by (simp_all add: lost_track_def ready_iff upd_bsp_def)
  have wr1: "\<forall>k. k \<noteq> copy_lba layout (?i XOR 1) \<longrightarrow> lasting c1 k \<subseteq> lasting c k"
    "lasting c1 (copy_lba layout (?i XOR 1)) \<subseteq> insert (bs_record_encode ?cand (?g + 1)) (lasting c (copy_lba layout (?i XOR 1)))" using W1 by blast+
  have wr2: "\<forall>k. k \<noteq> copy_lba layout ?i \<longrightarrow> lasting c2 k \<subseteq> lasting c1 k"
    "lasting c2 (copy_lba layout ?i) \<subseteq> insert (bs_record_encode ?cand (?g + 2)) (lasting c1 (copy_lba layout ?i))" using W2 by blast+
  have k1: "kept layout K (lasting c1) (content c1) ?lost"
    by (rule kept_write [OF assms(4) plan i(2) gc ow(1) wr1]) (use lostf cfg in \<open>simp_all add: upd_bsp_def\<close>)
  have gc1: "good layout K (lasting c1) ?cand" using good_mono [OF gc _ plan, of "lasting c1"] wr1(1) copy_lba_control [OF i(2)] by metis
  have k2: "kept layout K (lasting c2) (content c2) b'" if "\<not> boot_slot_internal_persistence_ready_locked b' \<or> bsm b' = ?cand \<and> bp_active_copy (bsp b') = ?i \<and>
      bp_generation (bsp b') = ?g + 2 \<and> \<not> bp_degraded (bsp b') \<and> current layout (content c2) b'" "bp_configured (bsp b') \<Longrightarrow> \<not> bp_blank (bsp b')" for b'
    by (rule kept_write [OF k1 plan i(1) gc1 ow(2) wr2 that])
  show ?thesis
  proof (cases "rc1 = 0 \<and> rc2 = 0")
    case False
    then have e: "au = None" "rc \<noteq> 0" "s' = s\<lparr>st_boot := ?lost\<rparr>" "c' = (if rc1 = 0 then c2 else c1)"
      using eq assms(1) by (auto simp: BOOT_SLOT_STORE_ERR_COMMIT_UNKNOWN_def)
    have "kept layout K (lasting c') (content c') ?lost" using k1 k2 [of ?lost] lostf e(4) cfg by (simp add: upd_bsp_def)
    then show ?thesis using e lostf v1 W2 by simp
  next
    case True
    have e: "rc = 0" "au_slot (the au) = slot" "au \<noteq> None" "s' = s\<lparr>st_boot := ?b2\<rparr>" "c' = c2" using eq assms(1) True by auto
    have us: "usable layout (bs_record_encode ?cand (?g + 1)) = Some (?cand, ?g + 1)" "usable layout (bs_record_encode ?cand (?g + 2)) = Some (?cand, ?g + 2)"
      using usable_encoded [of layout ?cand] gc ow by (simp_all add: good_def owns_def)
    have neq: "copy_lba layout ?i \<noteq> copy_lba layout (?i XOR 1)" using i(1) copy_lba_neq [OF plan] by (auto simp: lt_two)
    have ct: "content c2 (copy_lba layout ?i) = bs_record_encode ?cand (?g + 2)" "content c2 (copy_lba layout (?i XOR 1)) = bs_record_encode ?cand (?g + 1)"
      using W1 W2 True neq by auto
    have la: "lasting c2 (copy_lba layout ?i) \<subseteq> {bs_record_encode ?cand (?g + 2)}" "lasting c2 (copy_lba layout (?i XOR 1)) \<subseteq> {bs_record_encode ?cand (?g + 1)}"
    proof -
      show "lasting c2 (copy_lba layout ?i) \<subseteq> {bs_record_encode ?cand (?g + 2)}" using W2 True by simp
      have "lasting c2 (copy_lba layout (?i XOR 1)) \<subseteq> lasting c1 (copy_lba layout (?i XOR 1))" using wr2(1) neq by metis
      then show "lasting c2 (copy_lba layout (?i XOR 1)) \<subseteq> {bs_record_encode ?cand (?g + 1)}" using W1 True by auto
    qed
    have bf: "bsm ?b2 = ?cand" "bp_active_copy (bsp ?b2) = ?i" "bp_generation (bsp ?b2) = ?g + 2" "bp_degraded (bsp ?b2) = bp_degraded ?p" "bp_blank (bsp ?b2) = bp_blank ?p"
      "boot_slot_internal_persistence_ready_locked ?b2" using r by (simp_all add: upd_bsp_def ready_iff)
    have lt: "?g + 1 < ?g + 2" using word_less_next [OF g1(2)] by (simp add: add.assoc)
    have cur: "current layout (content c2) ?b2" using ct us lt by (simp add: current_def bf)
    have kk: "kept layout K (lasting c2) (content c2) ?b2" by (rule k2) (use bf cur k(6) [OF r] k(8) r in \<open>simp_all add: ready_iff\<close>)
    have all: "\<forall>j\<in>{0, 1}. \<forall>r\<in>lasting c2 (copy_lba layout j). \<exists>g. usable layout r = Some (?cand, g)"
    proof (intro ballI)
      fix j :: u32 and r assume j: "j \<in> {0, 1}" "r \<in> lasting c2 (copy_lba layout j)"
      then have "j = ?i \<or> j = ?i XOR 1" using i(1) by (auto simp: lt_two)
      then show "\<exists>g. usable layout r = Some (?cand, g)" using la us j(2) by blast
    qed
    show ?thesis using e kk all bf r slot iv W2 by simp
  qed
qed

end

context boot_medium
begin

lemma stage_publish:
  assumes "store_stage_publish ios auth img s c = (rc, g, s', c')" and "valid c"
    and "bn_active (store_binding s) \<longrightarrow> bn_layout (store_binding s) = layout"
    and "kept layout K (lasting c) (content c) (st_boot s)" and "image_wf img" and "store_version_valid (im_version img)"
    and "installed layout (lasting c) (au_slot auth) img" and "au_slot auth < 2" and "au_slot auth \<noteq> mg_confirmed_slot (bsm (st_boot s))"
    and "mg_pending_slot (bsm (st_boot s)) = BOOT_SLOT_NONE"
    and "bs_image_valid img (sl_payload_capacity_sectors (slot_at (bsm (st_boot s)) (au_slot auth)))"
  shows "valid c' \<and> kept layout K (lasting c') (content c') (st_boot s') \<and> s' = s\<lparr>st_boot := st_boot s'\<rparr> \<and>
    (rc = 0 \<longrightarrow> boot_slot_internal_persistence_ready_locked (st_boot s') \<and>
      bsm (st_boot s') = published_manager (au_slot auth) img (bsm (st_boot s)) \<and> g = bp_generation (bsp (st_boot s')) \<and>
      (\<forall>k. k \<notin> control_sectors layout \<longrightarrow> lasting c' k \<subseteq> lasting c k) \<and> flushed layout (lasting c') (content c'))"
proof (cases "s' = s\<lparr>st_boot := upd_bsp (\<lambda>p. p\<lparr>bp_stage_claimed := False\<rparr>) (st_boot s)\<rparr> \<and> c' = c \<and> rc \<noteq> 0")
  case True
  then show ?thesis using assms(2,4) by simp
next
  case False
  let ?b = "st_boot s" and ?p = "bsp (st_boot s)" and ?m = "bsm (st_boot s)" and ?io = "control_io ios (store_binding s)"
  let ?cand = "published_manager (au_slot auth) img ?m" and ?i = "bp_active_copy ?p" and ?g = "bp_generation ?p"
  have ne: "BOOT_SLOT_ERR_COMMIT_UNKNOWN \<noteq> 0" "BOOT_SLOT_STORE_ERR_COMMIT_UNKNOWN \<noteq> 0" "BOOT_SLOT_STORE_ERR_STALE \<noteq> 0"
    by (simp_all add: BOOT_SLOT_ERR_COMMIT_UNKNOWN_def BOOT_SLOT_STORE_ERR_COMMIT_UNKNOWN_def BOOT_SLOT_STORE_ERR_STALE_def)
  have r: "boot_slot_internal_persistence_ready_locked ?b" and g1: "?g \<noteq> UINT64_MAX"
    using assms(1) False ne(3) by (auto simp: store_stage_publish_def Let_def split: if_splits)
  note k = keptD [OF assms(4)]
  have i: "?i < 2" "?i XOR 1 < 2" using k(4) [OF r] xor_one_lt2 by auto
  have ow: "owns (?i XOR 1) (?g + 1)" by (rule owns_next [OF k(5) [OF r] i(1) g1])
  have gc: "good layout K (lasting c) ?cand" by (rule published_good(1) [OF k(3) [OF r] assms(8-11,5-7)])
  have cfg: "bp_configured ?p" "\<not> bp_blank ?p" using r k(8) by (simp_all add: ready_iff)
  obtain rc1 c1 where w: "bs_write_verified ?io ?cand (?i XOR 1) (?g + 1) ?b c = (rc1, c1)" by fastforce
  note W = write_verified [OF assms(2,3) w]
  have rcs: "rc1 = 0 \<or> rc1 = BOOT_SLOT_ERR_COMMIT_UNKNOWN" by (rule write_verified_good [OF gc cfg(1) i(2) assms(2,3) w])
  let ?lost = "lost_track BOOT_SLOT_ERR_COMMIT_UNKNOWN ?b"
  let ?b2 = "upd_bsp (\<lambda>p. p\<lparr>bp_active_copy := ?i XOR 1, bp_generation := ?g + 1, bp_stage_claimed := False\<rparr>) (?b\<lparr>bsm := ?cand\<rparr>)"
  have eq: "store_stage_publish ios auth img s c =
    (if rc1 = 0 then (0, ?g + 1, s\<lparr>st_boot := ?b2\<rparr>, c1) else (BOOT_SLOT_STORE_ERR_COMMIT_UNKNOWN, 0, s\<lparr>st_boot := ?lost\<rparr>, c1))"
  proof -
    have "store_stage_publish ios auth img s c \<noteq> (BOOT_SLOT_STORE_ERR_STALE, 0, s\<lparr>st_boot := upd_bsp (\<lambda>p. p\<lparr>bp_stage_claimed := False\<rparr>) ?b\<rparr>, c)"
      using False assms(1) ne(3) by auto
    then show ?thesis using rcs ne unfolding store_stage_publish_def Let_def by (auto simp: w split: if_splits)
  qed
  have lostf: "\<not> boot_slot_internal_persistence_ready_locked ?lost" "bp_blank (bsp ?lost) = bp_blank ?p"
    by (simp_all add: lost_track_def ready_iff upd_bsp_def)
  have wr: "\<forall>k. k \<noteq> copy_lba layout (?i XOR 1) \<longrightarrow> lasting c1 k \<subseteq> lasting c k"
    "lasting c1 (copy_lba layout (?i XOR 1)) \<subseteq> insert (bs_record_encode ?cand (?g + 1)) (lasting c (copy_lba layout (?i XOR 1)))" using W by blast+
  note kw = kept_write [OF assms(4) plan i(2) gc ow wr]
  show ?thesis
  proof (cases "rc1 = 0")
    case False
    then have "rc \<noteq> 0" "s' = s\<lparr>st_boot := ?lost\<rparr>" "c' = c1" using eq assms(1) ne by auto
    moreover have "kept layout K (lasting c1) (content c1) ?lost" by (rule kw) (use lostf cfg in simp_all)
    ultimately show ?thesis using W by simp
  next
    case True
    have e: "rc = 0" "g = ?g + 1" "s' = s\<lparr>st_boot := ?b2\<rparr>" "c' = c1" using eq assms(1) True by auto
    have bf: "bsm ?b2 = ?cand" "bp_active_copy (bsp ?b2) = ?i XOR 1" "bp_generation (bsp ?b2) = ?g + 1" "bp_degraded (bsp ?b2) = bp_degraded ?p"
      "bp_blank (bsp ?b2) = bp_blank ?p" "boot_slot_internal_persistence_ready_locked ?b2" using r by (simp_all add: upd_bsp_def ready_iff)
    have neq: "copy_lba layout ?i \<noteq> copy_lba layout (?i XOR 1)" using i(1) copy_lba_neq [OF plan] by (auto simp: lt_two)
    have us: "usable layout (content c1 (copy_lba layout (?i XOR 1))) = Some (?cand, ?g + 1)"
      using usable_encoded [of layout ?cand "?g + 1"] gc ow W True by (simp add: good_def owns_def)
    have ct: "content c1 (copy_lba layout ?i) = content c (copy_lba layout ?i)" using W neq by blast
    have cur: "current layout (content c1) ?b2" using us ct k(7) [OF r] word_less_next [OF g1] by (simp add: current_def bf xor_twice)
    have kk: "kept layout K (lasting c1) (content c1) ?b2" by (rule kw) (use bf cur k(6) [OF r] cfg in simp_all)
    have "\<forall>k. k \<notin> control_sectors layout \<longrightarrow> lasting c1 k \<subseteq> lasting c k" using wr(1) copy_lba_control [OF i(2)] by metis
    then show ?thesis using e kk bf W True by (simp add: flushed_def)
  qed
qed

end

subsection \<open>The whole operation\<close>

text \<open>Every store the machine has open describes this boot partition.\<close>

definition attached :: "boot_slot_layout \<Rightarrow> store_state \<Rightarrow> bool" where
  "attached layout s \<longleftrightarrow>
     (bn_active (store_binding s) \<longrightarrow> bn_layout (store_binding s) = layout) \<and>
     (rn_active (store_registration s) \<longrightarrow> rn_layout (store_registration s) = layout) \<and>
     (\<forall>a. so_test_ready (st_stores s a) \<longrightarrow> so_test_layout (st_stores s a) = layout)"

lemma attached_boot [simp]: "attached layout (s\<lparr>st_boot := b\<rparr>) = attached layout s"
  by (simp add: attached_def)

lemma attachedD: "attached layout s \<Longrightarrow> bn_active (store_binding s) \<longrightarrow> bn_layout (store_binding s) = layout"
  by (simp add: attached_def)

lemma release_claim_boot [simp]: "st_boot (release_claim s) = upd_bsp (\<lambda>p. p\<lparr>bp_stage_claimed := False\<rparr>) (st_boot s)"
  "attached layout (release_claim s) = attached layout s"
  by (simp_all add: release_claim_def)

text \<open>An operation that holds the busy flag: what holds of its body holds of it.\<close>

lemma held_cases:
  assumes "held refused f s c = (r, s', c')"
  obtains "r = refused" "s' = s\<lparr>st_boot := (st_boot s)\<lparr>boot_slot_operation_busy := True\<rparr>\<rparr>" "c' = c"
  | s1 where "f (s\<lparr>st_boot := (st_boot s)\<lparr>boot_slot_operation_busy := True\<rparr>\<rparr>) c = (r, s1, c')"
      "s' = s1\<lparr>st_boot := (st_boot s1)\<lparr>boot_slot_operation_busy := False\<rparr>\<rparr>" "\<not> boot_slot_operation_busy (st_boot s)"
  using assms
  by (cases "boot_slot_operation_busy (st_boot s)")
    (auto simp: held_def Let_def boot_slot_internal_operation_begin_def boot_slot_internal_operation_end_def BOOT_SLOT_ERR_BUSY_def split: prod.splits)

context boot_medium
begin

lemma stage_op:
  assumes "boot_slot_store_stage_inactive_authorized ios store e expected slot img payload s c = ((rc, g), s', c')" and "valid c"
    and "attached layout s" and "kept layout K (lasting c) (content c) (st_boot s)" and "image_wf img"
  shows "valid c' \<and> kept layout K (lasting c') (content c') (st_boot s') \<and> attached layout s' \<and>
    (rc = 0 \<longrightarrow> boot_slot_internal_persistence_ready_locked (st_boot s') \<and> g = bp_generation (bsp (st_boot s')) \<and> slot < 2 \<and>
      slot \<noteq> mg_confirmed_slot (bsm (st_boot s)) \<and>
      bsm (st_boot s') = published_manager slot img (staged_manager slot img (bsm (st_boot s))) \<and>
      installed_as layout (lasting c') slot img payload \<and> flushed layout (lasting c') (content c'))"
  using assms(1) unfolding boot_slot_store_stage_inactive_authorized_def
proof (cases rule: held_cases)
  case 1
  then show ?thesis using assms(2-4) by (simp add: BOOT_SLOT_STORE_ERR_BUSY_def)
next
  case (2 s2)
  let ?s0 = "s\<lparr>st_boot := (st_boot s)\<lparr>boot_slot_operation_busy := True\<rparr>\<rparr>"
  obtain rcg io where gi: "store_io_get_locked store e ?s0 = (rcg, io)" by fastforce
  define rc0 where "rc0 = (if rcg \<noteq> 0 \<or> \<not> store_binding_matches_io (store_binding ?s0) io store \<or>
      sn_authority_epoch expected \<noteq> bn_epoch (store_binding ?s0) \<or> sn_lease_epoch expected \<noteq> e
    then BOOT_SLOT_STORE_ERR_STALE else store_stage_preflight (store_binding ?s0) slot img payload)"
  obtain rc1 au s1 c1 where au: "store_stage_authorize ios expected slot img ?s0 c = (rc1, au, s1, c1)" by (metis prod_cases4)
  have k0: "kept layout K (lasting c) (content c) (st_boot ?s0)" "attached layout ?s0" using assms(3,4) by simp_all
  have at0: "bn_active (store_binding ?s0) \<longrightarrow> bn_layout (store_binding ?s0) = layout" by (rule attachedD [OF k0(2)])
  note A = stage_authorize [OF au assms(2) at0 k0(1) assms(5)]
  have at1: "attached layout s1" using A assms(3) by (metis attached_boot)
  note body = 2(1) [unfolded gi rc0_def [symmetric] Let_def prod.case]
  consider (pre) "rc0 \<noteq> 0" | (noauth) "rc0 = 0" "au = None" | (go) auth where "rc0 = 0" "au = Some auth" by blast
  then have "valid c' \<and> kept layout K (lasting c') (content c') (st_boot s2) \<and> attached layout s2 \<and>
    (rc = 0 \<longrightarrow> boot_slot_internal_persistence_ready_locked (st_boot s2) \<and> g = bp_generation (bsp (st_boot s2)) \<and> slot < 2 \<and>
      slot \<noteq> mg_confirmed_slot (bsm (st_boot s)) \<and>
      bsm (st_boot s2) = published_manager slot img (staged_manager slot img (bsm (st_boot s))) \<and>
      installed_as layout (lasting c') slot img payload \<and> flushed layout (lasting c') (content c'))"
  proof cases
    case pre
    then have "rc = rc0" "s2 = release_claim ?s0" "c' = c" using body by auto
    then show ?thesis using pre assms(2) k0 by simp
  next
    case noauth
    then have "rc = rc1" "s2 = release_claim s1" "c' = c1" using body by (auto simp: au)
    then show ?thesis using A noauth(2) at1 by simp
  next
    case (go auth)
    obtain rc2 c2 where pl: "store_stage_payload ios (store_binding s1) (bsm (st_boot s1)) slot img payload c1 = (rc2, c2)" by fastforce
    obtain rc3 g3 s3 c3 where pb: "store_stage_publish ios auth img s1 c2 = (rc3, g3, s3, c3)" by (metis prod_cases4)
    have A1: "valid c1" "kept layout K (lasting c1) (content c1) (st_boot s1)" "au_slot auth = slot" "slot < 2" "slot \<noteq> mg_confirmed_slot (bsm (st_boot ?s0))"
      "mg_pending_slot (bsm (st_boot ?s0)) = BOOT_SLOT_NONE" "bs_image_valid img (sl_payload_capacity_sectors (slot_at (bsm (st_boot ?s0)) slot))"
      "bsm (st_boot s1) = staged_manager slot img (bsm (st_boot ?s0))" "boot_slot_internal_persistence_ready_locked (st_boot ?s0)"
      using A go(2) by simp_all
    have all: "\<forall>i\<in>{0, 1}. \<forall>r\<in>lasting c1 (copy_lba layout i). \<exists>g. usable layout r = Some (bsm (st_boot s1), g)"
      using A go(2) by blast
    note P = stage_payload [OF pl A1(1) attachedD [OF at1] assms(5)]
    note SG = staged_good [OF keptD(3) [OF k0(1) A1(9)] A1(4-7) assms(5)]
    have k2: "kept layout K (lasting c2) (content c2) (st_boot s1)"
      by (rule kept_slot_write [OF A1(2) plan A1(4) _ all]) (use P SG(2) A1(8) in simp_all)
    show ?thesis
    proof (cases "rc2 = 0")
      case False
      then have "rc = rc2" "s2 = release_claim s1" "c' = c2" using body go by (simp_all add: au pl)
      then show ?thesis using False P k2 at1 by simp
    next
      case True
      have e: "rc = rc3" "g = g3" "s2 = (if rc3 \<noteq> 0 then release_claim s3 else s3)" "c' = c3" using body go True by (auto simp: au pl pb)
      have vv: "store_version_valid (im_version img)"
        using go(1) by (auto simp: rc0_def store_stage_preflight_def store_image_valid_def BOOT_SLOT_STORE_ERR_IO_def BOOT_SLOT_STORE_ERR_STALE_def
            BOOT_SLOT_STORE_ERR_VERIFY_def split: if_splits)
      have fl: "\<forall>k\<in>slot_sectors layout slot. lasting c2 k \<subseteq> {content c2 k}" using P True slot_bounds [OF A1(4)] by (auto simp: flushed_def)
      have ins: "installed_as layout (lasting c2) slot img payload" using P True installed_as_mono [OF _ fl, of img payload] by blast
      then have inst: "installed layout (lasting c2) slot img" unfolding installed_def by blast
      have Q: "valid c3 \<and> kept layout K (lasting c3) (content c3) (st_boot s3) \<and> s3 = s1\<lparr>st_boot := st_boot s3\<rparr> \<and>
        (rc3 = 0 \<longrightarrow> boot_slot_internal_persistence_ready_locked (st_boot s3) \<and> bsm (st_boot s3) = published_manager slot img (bsm (st_boot s1)) \<and>
          g3 = bp_generation (bsp (st_boot s3)) \<and> (\<forall>k. k \<notin> control_sectors layout \<longrightarrow> lasting c3 k \<subseteq> lasting c2 k) \<and> flushed layout (lasting c3) (content c3))"
        using stage_publish [OF pb conjunct1 [OF P] attachedD [OF at1] k2 assms(5) vv] inst SG(3-5) A1(3-8) by simp
      have "installed_as layout (lasting c3) slot img payload" if "rc3 = 0"
        by (rule installed_as_mono [OF ins]) (use Q that plan_disjoint(2,3) [OF plan] A1(4) in \<open>auto simp: lt_two\<close>)
      moreover have "attached layout s3" using Q at1 by (metis attached_boot)
      ultimately show ?thesis using Q e A1(4,5,8) by simp
    qed
  qed
  moreover have "boot_slot_internal_persistence_ready_locked (b\<lparr>boot_slot_operation_busy := x\<rparr>) = boot_slot_internal_persistence_ready_locked b" for b x
    by (simp add: ready_iff)
  ultimately show ?thesis using 2(2) by simp
qed

end

end
