(* ===== verification/BootOps.thy ===== *)
theory BootOps
  imports BootStage
begin

text \<open>
  The public operations of the store and the manager on a sound medium: each keeps it sound, and each success is durable.
\<close>

lemma ready_busy [simp]:
  "boot_slot_internal_persistence_ready_locked (b\<lparr>boot_slot_operation_busy := x\<rparr>) = boot_slot_internal_persistence_ready_locked b"
  by (simp add: ready_iff)

text \<open>The public operations of the manager, on the state of the store.\<close>

definition on_boot :: "(boot_state \<Rightarrow> 'c \<Rightarrow> 'r \<times> boot_state \<times> 'c) \<Rightarrow> store_state \<Rightarrow> 'c \<Rightarrow> 'r \<times> store_state \<times> 'c" where
  "on_boot f s c = (let (r, b, c1) = f (st_boot s) c in (r, s\<lparr>st_boot := b\<rparr>, c1))"

lemma guarded_cases:
  assumes "guarded refused f s c = (r, s', c')"
  obtains "r = refused BOOT_SLOT_ERR_BUSY" "s' = s\<lparr>boot_slot_operation_busy := True\<rparr>" "c' = c"
  | s1 where "f (s\<lparr>boot_slot_operation_busy := True\<rparr>) c = (r, s1, c')" "s' = s1\<lparr>boot_slot_operation_busy := False\<rparr>" "\<not> boot_slot_operation_busy s"
  using assms
  by (cases "boot_slot_operation_busy s")
    (auto simp: guarded_def Let_def boot_slot_internal_operation_begin_def boot_slot_internal_operation_end_def BOOT_SLOT_ERR_BUSY_def split: prod.splits)

lemma io_get_layout:
  assumes "store_io_get_locked store e s = (rc, io)" and "attached layout s" and "rc = 0"
  shows "si_layout io = layout" and "si_ready io"
  using assms by (auto simp: store_io_get_locked_def attached_def Let_def BOOT_SLOT_STORE_ERR_IO_def split: if_splits)

lemma init_locked_kept:
  assumes "kept layout K L C b"
  shows "kept layout K L C (boot_slot_internal_init_locked b)"
  using assms by (auto simp: boot_slot_internal_init_locked_def kept_def ram_ok_def ready_iff bsp_zero_def Let_def)

lemma kept_phase:
  assumes "kept layout K L C b" and "b' = b\<lparr>boot_slot_phase := ph\<rparr>"
    and "ph = BOOT_SLOT_PHASE_BOUND_READY \<Longrightarrow> boot_slot_phase b = ph"
  shows "kept layout K L C b'"
  using assms by (cases "ph = BOOT_SLOT_PHASE_BOUND_READY") (auto simp: kept_def ram_ok_def ready_iff current_def)

lemma kept_epochs [simp]:
  "kept layout K L C (upd_bsp (\<lambda>p. p\<lparr>bp_authority_epoch := x\<rparr>) b) = kept layout K L C b"
  by (simp add: kept_def ram_ok_def ready_iff current_def upd_bsp_def)

context boot_medium
begin

lemma bind_op:
  assumes "boot_slot_store_bind_control ios store e s c = (rc, s', c')" and "valid c" and "attached layout s"
    and "kept layout K (lasting c) (content c) (st_boot s)"
  shows "valid c' \<and> kept layout K (lasting c') (content c') (st_boot s') \<and> attached layout s' \<and>
    content c' = content c \<and> (\<forall>k. lasting c' k \<subseteq> lasting c k) \<and>
    (rc = 0 \<longrightarrow> boot_slot_internal_persistence_ready_locked (st_boot s')) \<and> rc \<noteq> BOOT_SLOT_PERSIST_EMPTY"
  using assms(1) unfolding boot_slot_store_bind_control_def
proof (cases rule: held_cases)
  case 1
  then show ?thesis using assms(2-4) by (simp add: BOOT_SLOT_STORE_ERR_BUSY_def BOOT_SLOT_PERSIST_EMPTY_def)
next
  case (2 s2)
  let ?s0 = "s\<lparr>st_boot := (st_boot s)\<lparr>boot_slot_operation_busy := True\<rparr>\<rparr>"
  obtain rcg io where gi: "store_io_get_locked store e ?s0 = (rcg, io)" by fastforce
  note body = 2(1) [unfolded gi Let_def prod.case]
  have at0: "attached layout ?s0" using assms(3) by simp
  show ?thesis
  proof (cases "rcg \<noteq> 0 \<or> \<not> si_ready io \<or> bp_configured (bsp (st_boot ?s0)) \<or> store_next_epoch ?s0 = 0 \<or>
      store_lease_owner ?s0 \<noteq> None \<and> store_lease_owner ?s0 \<noteq> Some store")
    case True
    then have "rc = BOOT_SLOT_STORE_ERR_BUSY" "s2 = ?s0" "c' = c" using body by (simp_all split: if_splits)
    then show ?thesis using 2(2) assms(2-4) by (simp add: BOOT_SLOT_STORE_ERR_BUSY_def BOOT_SLOT_PERSIST_EMPTY_def)
  next
    case False
    let ?b = "\<lparr>bn_owner = Some store, bn_layout = si_layout io, bn_io = si_io io, bn_epoch = store_next_epoch ?s0,
       bn_lease_epoch = si_lease_epoch io, bn_provider_backed = si_provider_backed io, bn_active = True\<rparr>"
    let ?s1 = "?s0\<lparr>store_binding := ?b, store_next_epoch := store_next_epoch ?s0 + 1\<rparr>"
    let ?t = "if \<not> bsm_initialized (st_boot ?s1) then boot_slot_internal_init_locked (st_boot ?s1) else st_boot ?s1"
    obtain rc1 t1 c1 where sp: "boot_slot_internal_set_persistence_locked (control_io ios ?b) (bn_layout ?b) ?t c = (rc1, t1, c1)" by (metis prod_cases3)
    have lay: "si_layout io = layout" using io_get_layout(1) [OF gi at0] False by simp
    have at1: "attached layout ?s1" using at0 lay by (simp add: attached_def)
    have kt: "kept layout K (lasting c) (content c) ?t" using assms(4) init_locked_kept by simp
    have bl: "bn_active ?b \<longrightarrow> bn_layout ?b = layout" using lay by simp
    have bb: "bn_layout ?b = layout" using lay by simp
    note S = set_persistence [OF assms(2) bl keptD(1) [OF assms(4)] sp [unfolded bb] kt]
    have ne: "rc1 \<noteq> BOOT_SLOT_PERSIST_EMPTY" using S by blast
    let ?f = "t1\<lparr>boot_slot_phase := BOOT_SLOT_PHASE_BOUND_UNKNOWN\<rparr>"
    let ?g = "(upd_bsp (\<lambda>p. p\<lparr>bp_authority_epoch := bn_epoch ?b\<rparr>) t1)\<lparr>boot_slot_phase := BOOT_SLOT_PHASE_BOUND_READY\<rparr>"
    have e: "(rc, s2, c') = (if rc1 = 0 then (rc1, ?s1\<lparr>st_boot := ?g\<rparr>, c1) else (rc1, ?s1\<lparr>store_binding := ?b\<lparr>bn_active := False\<rparr>, st_boot := ?f\<rparr>, c1))"
      using body [unfolded if_not_P [OF False] sp prod.case] ne by (auto split: if_splits)
    show ?thesis
    proof (cases "rc1 = 0")
      case True
      have "\<not> bp_stage_claimed (bsp ?t)"
        using sp True by (auto simp: boot_slot_internal_set_persistence_locked_def BOOT_SLOT_ERR_BUSY_def split: if_splits)
      then have "bsm_initialized ?t" by (auto simp: boot_slot_internal_init_locked_def Let_def split: if_splits)
      then have rdy: "boot_slot_internal_persistence_ready_locked ?g" using S True by (simp add: ready_iff upd_bsp_def)
      have "sound layout K (lasting c1)" "good layout K (lasting c1) (bsm t1)" "bp_active_copy (bsp t1) < 2" "\<not> bp_degraded (bsp t1)"
        "owns (bp_active_copy (bsp t1)) (bp_generation (bsp t1))" "current layout (content c1) t1" "\<not> bp_blank (bsp t1)"
        using S True keptD(1) by blast+
      then have "kept layout K (lasting c1) (content c1) ?g" by (simp add: kept_def ram_ok_def upd_bsp_def current_def)
      then show ?thesis using e True S ne at1 2(2) rdy by (simp add: attached_def BOOT_SLOT_PERSIST_EMPTY_def)
    next
      case False
      have "kept layout K (lasting c1) (content c1) ?f" using S by (auto intro: kept_phase)
      then show ?thesis using e False S ne at1 2(2) by (simp add: attached_def)
    qed
  qed
qed

end

context boot_medium
begin

lemma arm_op:
  assumes "boot_slot_store_arm ios store e slot g0 s c = ((rc, g), s', c')" and "valid c" and "attached layout s"
    and "kept layout K (lasting c) (content c) (st_boot s)"
  shows "valid c' \<and> kept layout K (lasting c') (content c') (st_boot s') \<and> attached layout s' \<and>
    (rc = 0 \<longrightarrow> boot_slot_internal_persistence_ready_locked (st_boot s') \<and> slot < 2 \<and> sl_state (slot_at (bsm (st_boot s)) slot) = BOOT_SLOT_VALID \<and>
      bsm (st_boot s') = on_trial slot (bsm (st_boot s)) \<and> g = bp_generation (bsp (st_boot s')) \<and> flushed layout (lasting c') (content c'))"
  using assms(1) unfolding boot_slot_store_arm_def
proof (cases rule: held_cases)
  case 1
  then show ?thesis using assms(2-4) by (simp add: BOOT_SLOT_STORE_ERR_BUSY_def)
next
  case (2 s2)
  let ?s0 = "s\<lparr>st_boot := (st_boot s)\<lparr>boot_slot_operation_busy := True\<rparr>\<rparr>"
  obtain rcg io where gi: "store_io_get_locked store e ?s0 = (rcg, io)" by fastforce
  obtain rc1 g1 b1 c1 where ar: "boot_slot_internal_arm_provider_locked (bound_io ios ?s0) slot g0 (st_boot ?s0) c = (rc1, g1, b1, c1)" by (metis prod_cases4)
  note body = 2(1) [unfolded gi Let_def prod.case ar]
  have k0: "kept layout K (lasting c) (content c) (st_boot ?s0)" "attached layout ?s0" using assms(3,4) by simp_all
  note A = arm_locked [OF assms(2) attachedD [OF k0(2)] k0(1) ar]
  have "rc = BOOT_SLOT_STORE_ERR_STALE \<and> s2 = ?s0 \<and> c' = c \<or> (rc = 0 \<longleftrightarrow> rc1 = 0) \<and> g = g1 \<and> s2 = ?s0\<lparr>st_boot := b1\<rparr> \<and> c' = c1"
    using body by (auto simp: BOOT_SLOT_STORE_ERR_STALE_def BOOT_SLOT_STORE_ERR_COMMIT_UNKNOWN_def BOOT_SLOT_ERR_COMMIT_UNKNOWN_def split: if_splits)
  then show ?thesis
  proof (elim disjE conjE)
    assume "rc = BOOT_SLOT_STORE_ERR_STALE" "s2 = ?s0" "c' = c"
    then show ?thesis using 2(2) assms(2) k0 by (simp add: BOOT_SLOT_STORE_ERR_STALE_def)
  next
    assume "rc = 0 \<longleftrightarrow> rc1 = 0" "g = g1" "s2 = ?s0\<lparr>st_boot := b1\<rparr>" "c' = c1"
    then show ?thesis using 2(2) A k0 by simp
  qed
qed

lemma confirm_op:
  assumes "boot_slot_store_confirm_health ios store e slot g s c = (rc, s', c')" and "valid c" and "attached layout s"
    and "kept layout K (lasting c) (content c) (st_boot s)" and "\<forall>p. ((slot, slot_image (slot_at (bsm (st_boot s)) slot)), p) \<in> K"
  shows "valid c' \<and> kept layout K (lasting c') (content c') (st_boot s') \<and> attached layout s' \<and>
    (rc = 0 \<longrightarrow> boot_slot_internal_persistence_ready_locked (st_boot s') \<and> slot < 2 \<and> mg_pending_slot (bsm (st_boot s)) = slot \<and>
      mg_tries_remaining (bsm (st_boot s)) = 0 \<and> bsm (st_boot s') = confirmed_manager slot (bsm (st_boot s)) \<and> flushed layout (lasting c') (content c'))"
  using assms(1) unfolding boot_slot_store_confirm_health_def
proof (cases rule: held_cases)
  case 1
  then show ?thesis using assms(2-4) by (simp add: BOOT_SLOT_STORE_ERR_BUSY_def)
next
  case (2 s2)
  let ?s0 = "s\<lparr>st_boot := (st_boot s)\<lparr>boot_slot_operation_busy := True\<rparr>\<rparr>"
  obtain rcg io where gi: "store_io_get_locked store e ?s0 = (rcg, io)" by fastforce
  obtain rc1 b1 c1 where ar: "boot_slot_internal_confirm_verified_locked (bound_io ios ?s0) slot g (bn_epoch (store_binding ?s0)) e (st_boot ?s0) c = (rc1, b1, c1)"
    by (metis prod_cases3)
  note body = 2(1) [unfolded gi Let_def prod.case ar]
  have k0: "kept layout K (lasting c) (content c) (st_boot ?s0)" "attached layout ?s0" using assms(3,4) by simp_all
  have inK: "\<forall>p. ((slot, slot_image (slot_at (bsm (st_boot ?s0)) slot)), p) \<in> K" using assms(5) by simp
  note A = confirm_locked [OF assms(2) attachedD [OF k0(2)] k0(1) ar inK]
  have "rc = BOOT_SLOT_STORE_ERR_STALE \<and> s2 = ?s0 \<and> c' = c \<or> rc = rc1 \<and> s2 = ?s0\<lparr>st_boot := b1\<rparr> \<and> c' = c1"
    using body by (auto split: if_splits)
  then show ?thesis
  proof (elim disjE conjE)
    assume "rc = BOOT_SLOT_STORE_ERR_STALE" "s2 = ?s0" "c' = c"
    then show ?thesis using 2(2) assms(2) k0 by (simp add: BOOT_SLOT_STORE_ERR_STALE_def)
  next
    assume "rc = rc1" "s2 = ?s0\<lparr>st_boot := b1\<rparr>" "c' = c1"
    then show ?thesis using 2(2) A k0 by simp
  qed
qed

text \<open>On a sound medium there is nothing to initialise.\<close>

lemma initialize_op:
  assumes "boot_slot_store_initialize_persistent ios store e img s c = (rc, s', c')" and "kept layout K (lasting c) (content c) (st_boot s)"
  shows "rc \<noteq> 0 \<and> c' = c \<and> (\<exists>x. s' = s\<lparr>st_boot := (st_boot s)\<lparr>boot_slot_operation_busy := x\<rparr>\<rparr>)"
  using assms(1) unfolding boot_slot_store_initialize_persistent_def
proof (cases rule: held_cases)
  case 1
  then show ?thesis by (auto simp: BOOT_SLOT_STORE_ERR_BUSY_def)
next
  case (2 s2)
  let ?s0 = "s\<lparr>st_boot := (st_boot s)\<lparr>boot_slot_operation_busy := True\<rparr>\<rparr>"
  obtain rcg io where gi: "store_io_get_locked store e ?s0 = (rcg, io)" by fastforce
  have "boot_slot_internal_initialize_persistent_locked (bound_io ios ?s0) (si_layout io) img (st_boot ?s0) c = (BOOT_SLOT_ERR_IO, st_boot ?s0, c)"
    using keptD(8) [OF assms(2)] by (auto simp: boot_slot_internal_initialize_persistent_locked_def)
  then have "rc \<noteq> 0 \<and> s2 = ?s0 \<and> c' = c"
    using 2(1) unfolding gi Let_def prod.case by (auto simp: BOOT_SLOT_ERR_IO_def BOOT_SLOT_STORE_ERR_STALE_def split: if_splits)
  then show ?thesis using 2(2) by auto
qed

lemma read_header_op:
  assumes "boot_slot_store_read_header ios store e slot s c = (r, s', c')" and "valid c" and "attached layout s"
    and "kept layout K (lasting c) (content c) (st_boot s)"
  shows "valid c' \<and> kept layout K (lasting c') (content c') (st_boot s') \<and> attached layout s' \<and>
    content c' = content c \<and> (\<forall>k. lasting c' k \<subseteq> lasting c k) \<and> (\<exists>x. s' = s\<lparr>st_boot := (st_boot s)\<lparr>boot_slot_operation_busy := x\<rparr>\<rparr>)"
  using assms(1) unfolding boot_slot_store_read_header_def
proof (cases rule: held_cases)
  case 1
  then show ?thesis using assms(2-4) by auto
next
  case (2 s2)
  let ?s0 = "s\<lparr>st_boot := (st_boot s)\<lparr>boot_slot_operation_busy := True\<rparr>\<rparr>"
  obtain rcg io where gi: "store_io_get_locked store e ?s0 = (rcg, io)" by fastforce
  let ?lba = "rg_header_lba (at2 (ly_slots (si_layout io)) slot)"
  obtain rc1 sec c1 where rd: "sec_read (io_of ios (si_io io)) ?lba c = (rc1, sec, c1)" by (metis prod_cases3)
  have k0: "kept layout K (lasting c) (content c) (st_boot ?s0)" "attached layout ?s0" using assms(3,4) by simp_all
  note body = 2(1) [unfolded gi Let_def prod.case rd]
  show ?thesis
  proof (cases "rcg \<noteq> 0 \<or> slot \<ge> BOOT_SLOT_COUNT")
    case True
    then have "s2 = ?s0" "c' = c" using body by simp_all
    then show ?thesis using 2(2) assms(2) k0 by auto
  next
    case False
    then have lay: "si_layout io = layout" "slot < 2" using io_get_layout(1) [OF gi k0(2)] by (simp_all add: BOOT_SLOT_COUNT_def not_le)
    have "unat ?lba < unat (ly_boot_sectors layout)" using slot_bounds [OF lay(2)] lay(1) by (auto simp: slot_sectors_def)
    note R = io_read [OF assms(2) this rd]
    have "s2 = ?s0" "c' = c1" using body False by (auto split: if_splits option.splits)
    moreover have "kept layout K (lasting c1) (content c1) (st_boot ?s0)" using kept_shrink [OF k0(1) plan, of "lasting c1"] R by simp
    ultimately show ?thesis using 2(2) R k0 by auto
  qed
qed

lemma select_op:
  assumes "on_boot (boot_slot_select_for_boot (bound_io ios s)) s c = ((rc, slot, g), s', c')" and "valid c" and "attached layout s"
    and "kept layout K (lasting c) (content c) (st_boot s)"
  shows "valid c' \<and> kept layout K (lasting c') (content c') (st_boot s') \<and> attached layout s' \<and>
    (rc = 0 \<or> rc = 1 \<or> rc = 2 \<longrightarrow> boot_slot_internal_persistence_ready_locked (st_boot s') \<and> g = bp_generation (bsp (st_boot s')) \<and> slot < 2 \<and>
      bootable (sl_state (slot_at (bsm (st_boot s')) slot))) \<and>
    (rc = 0 \<longrightarrow> bsm (st_boot s') = bsm (st_boot s) \<and> slot = mg_confirmed_slot (bsm (st_boot s)) \<and> mg_pending_slot (bsm (st_boot s)) = BOOT_SLOT_NONE) \<and>
    (rc = 1 \<longrightarrow> slot = mg_pending_slot (bsm (st_boot s)) \<and> mg_tries_remaining (bsm (st_boot s)) = 1 \<and>
      bsm (st_boot s') = spend_attempt (bsm (st_boot s)) \<and> flushed layout (lasting c') (content c')) \<and>
    (rc = 2 \<longrightarrow> slot = mg_confirmed_slot (bsm (st_boot s)) \<and> mg_pending_slot (bsm (st_boot s)) \<noteq> BOOT_SLOT_NONE \<and>
      mg_tries_remaining (bsm (st_boot s)) = 0 \<and> bs_apply_rollback (bsm (st_boot s)) = Some (bsm (st_boot s')) \<and> flushed layout (lasting c') (content c'))"
proof -
  obtain b where gd: "boot_slot_select_for_boot (bound_io ios s) (st_boot s) c = ((rc, slot, g), b, c')" and s': "s' = s\<lparr>st_boot := b\<rparr>"
    using assms(1) by (auto simp: on_boot_def split: prod.splits)
  from gd show ?thesis
    unfolding boot_slot_select_for_boot_def
  proof (cases rule: guarded_cases)
    case 1
    then show ?thesis using s' assms(2-4) by (simp add: BOOT_SLOT_ERR_BUSY_def)
  next
    case (2 b1)
    have se: "boot_slot_internal_select_locked (bound_io ios s) ((st_boot s)\<lparr>boot_slot_operation_busy := True\<rparr>) c = (rc, slot, g, b1, c')"
      using 2(1) by (auto split: prod.splits)
    have k0: "kept layout K (lasting c) (content c) ((st_boot s)\<lparr>boot_slot_operation_busy := True\<rparr>)" using assms(4) by simp
    show ?thesis using select_locked [OF assms(2) attachedD [OF assms(3)] k0 se] s' 2(2) assms(3) by auto
  qed
qed

lemma activate_op:
  assumes "on_boot (boot_slot_activate (bound_io ios s) slot) s c = (rc, s', c')" and "valid c" and "attached layout s"
    and "kept layout K (lasting c) (content c) (st_boot s)"
  shows "valid c' \<and> kept layout K (lasting c') (content c') (st_boot s') \<and> attached layout s'"
proof -
  obtain b where gd: "boot_slot_activate (bound_io ios s) slot (st_boot s) c = (rc, b, c')" and s': "s' = s\<lparr>st_boot := b\<rparr>"
    using assms(1) by (auto simp: on_boot_def split: prod.splits)
  from gd show ?thesis
    unfolding boot_slot_activate_def
  proof (cases rule: guarded_cases)
    case 1
    then show ?thesis using s' assms(2-4) by simp
  next
    case (2 b1)
    have k0: "kept layout K (lasting c) (content c) ((st_boot s)\<lparr>boot_slot_operation_busy := True\<rparr>)" using assms(4) by simp
    show ?thesis using activate_locked [OF assms(2) attachedD [OF assms(3)] k0 2(1)] s' 2(2) assms(3) by simp
  qed
qed

lemma rollback_op:
  assumes "on_boot (boot_slot_rollback (bound_io ios s)) s c = (rc, s', c')" and "valid c" and "attached layout s"
    and "kept layout K (lasting c) (content c) (st_boot s)"
  shows "valid c' \<and> kept layout K (lasting c') (content c') (st_boot s') \<and> attached layout s'"
proof -
  obtain b where gd: "boot_slot_rollback (bound_io ios s) (st_boot s) c = (rc, b, c')" and s': "s' = s\<lparr>st_boot := b\<rparr>"
    using assms(1) by (auto simp: on_boot_def split: prod.splits)
  from gd show ?thesis
    unfolding boot_slot_rollback_def
  proof (cases rule: guarded_cases)
    case 1
    then show ?thesis using s' assms(2-4) by simp
  next
    case (2 b1)
    have k0: "kept layout K (lasting c) (content c) ((st_boot s)\<lparr>boot_slot_operation_busy := True\<rparr>)" using assms(4) by simp
    show ?thesis using rollback_locked [OF assms(2) attachedD [OF assms(3)] k0 2(1)] s' 2(2) assms(3) by simp
  qed
qed

end

end
