(* ===== verification/BootProvider.thy ===== *)
theory BootProvider
  imports GptIdentity BlockDev BootOps
begin

text \<open>
  The provider of the boot partition: \<^verbatim>\<open>boot/boot_slot_block_provider.c\<close> (production functions). It checks the partition table of
  a block device against the expected identity, and leases the boot partition to one store at a time. The callbacks
  it hands out carry the number of the lease; they refuse to work for any other lease than the current one and for sectors outside the
  partition.

  Providers and stores are addresses (natural numbers); the state of a provider object is its epoch. The raw device is the one
  of \<open>BlockDev\<close>, over a state of type \<open>'d\<close>; the flush routine of a registration is \<^verbatim>\<open>provider_block_device_flush\<close> on the registered device,
  as in production. Addresses are 64 bits wide, so that a lease number always fits into the context pointer of the callbacks.
\<close>

subsection \<open>State\<close>

definition BOOT_SLOT_BLOCK_PROVIDER_ERR :: int where "BOOT_SLOT_BLOCK_PROVIDER_ERR = -1"

record boot_slot_disk_binding =
  db_esp_lba :: u32
  db_esp_sectors :: u32
  db_boot_lba :: u32
  db_boot_sectors :: u32
  db_data_lba :: u32
  db_data_sectors :: u32
  db_disk_guid :: "u8 list"
  db_esp_guid :: "u8 list"
  db_boot_guid :: "u8 list"
  db_data_guid :: "u8 list"

record 'd provider_registration =
  pg_owner :: nat
  pg_raw :: "'d block_device"
  pg_identity :: capyos_gpt_identity
  pg_layout :: boot_slot_layout
  pg_epoch :: u64

record 'd provider_lease_context =
  lc_raw :: "'d block_device"
  lc_layout :: boot_slot_layout
  lc_boot_lba :: u32
  lc_boot_sectors :: u32
  lc_registration_epoch :: u64
  lc_lease_epoch :: u64
  lc_active :: bool

text \<open>The statics of the file. A cleared registration or lease context is \<open>None\<close>; \<open>pv_epochs\<close> holds the epochs of the provider objects.\<close>

record 'd provider_state =
  pv_registration :: "'d provider_registration option"
  pv_lease_context :: "'d provider_lease_context option"
  pv_leased :: "nat option"
  pv_leased_store :: "nat option"
  pv_lease_epoch :: u64
  pv_next_registration_epoch :: u64
  pv_next_lease_epoch :: u64
  pv_epochs :: "nat \<Rightarrow> u64"

type_synonym 'd provided = "'d provider_state \<times> 'd"

definition provider_start :: "'d provider_state" where
  "provider_start = \<lparr>pv_registration = None, pv_lease_context = None, pv_leased = None, pv_leased_store = None, pv_lease_epoch = 0,
     pv_next_registration_epoch = 1, pv_next_lease_epoch = 1, pv_epochs = (\<lambda>_. 0)\<rparr>"

definition provider_equal :: "u8 list \<Rightarrow> u8 list \<Rightarrow> nat \<Rightarrow> bool" where
  "provider_equal a b len = (fold (\<lambda>i diff. diff OR (a ! i XOR b ! i)) [0..<len] (0::u8) = 0)"

subsection \<open>The callbacks\<close>

text \<open>A buffer before it is filled.\<close>

abbreviation sector_junk :: "u8 list" where "sector_junk \<equiv> replicate BOOT_SLOT_STORE_SECTOR_SIZE 0"

definition provider_raw_read :: "'d block_device \<Rightarrow> 'd gpt_reader" where
  "provider_raw_read raw lba d = block_device_read raw lba sector_junk d"

definition provider_active_lease :: "u64 \<Rightarrow> 'd provider_state \<Rightarrow> 'd provider_lease_context option" where
  "provider_active_lease epoch p =
     (case (pv_lease_context p, pv_registration p) of
        (Some lc, Some rg) \<Rightarrow>
          (if epoch = 0 \<or> epoch \<noteq> pv_lease_epoch p \<or> \<not> lc_active lc \<or> lc_lease_epoch lc \<noteq> epoch \<or> lc_registration_epoch lc \<noteq> pg_epoch rg
           then None else Some lc)
      | _ \<Rightarrow> None)"

definition provider_store_read :: "u64 \<Rightarrow> u32 \<Rightarrow> 'd provided \<Rightarrow> int \<times> u8 list \<times> 'd provided" where
  "provider_store_read epoch lba c =
     (case provider_active_lease epoch (fst c) of
        None \<Rightarrow> (BOOT_SLOT_BLOCK_PROVIDER_ERR, sector_junk, c)
      | Some lc \<Rightarrow>
          (if lba \<ge> lc_boot_sectors lc \<or> lc_boot_lba lc > 0xFFFFFFFF - lba then (BOOT_SLOT_BLOCK_PROVIDER_ERR, sector_junk, c)
           else (let (rc, r, d) = block_device_read (lc_raw lc) (lc_boot_lba lc + lba) sector_junk (snd c) in (rc, r, fst c, d))))"

definition provider_store_write :: "u64 \<Rightarrow> u32 \<Rightarrow> u8 list \<Rightarrow> 'd provided \<Rightarrow> int \<times> 'd provided" where
  "provider_store_write epoch lba sector c =
     (case provider_active_lease epoch (fst c) of
        None \<Rightarrow> (BOOT_SLOT_BLOCK_PROVIDER_ERR, c)
      | Some lc \<Rightarrow>
          (if lba \<ge> lc_boot_sectors lc \<or> lc_boot_lba lc > 0xFFFFFFFF - lba then (BOOT_SLOT_BLOCK_PROVIDER_ERR, c)
           else (let (rc, d) = block_device_write (lc_raw lc) (lc_boot_lba lc + lba) sector (snd c) in (rc, fst c, d))))"

text \<open>\<^verbatim>\<open>provider_store_flush\<close> with \<^verbatim>\<open>provider_block_device_flush\<close> on the registered device.\<close>

definition provider_store_flush :: "u64 \<Rightarrow> 'd provided \<Rightarrow> int \<times> 'd provided" where
  "provider_store_flush epoch c =
     (case (provider_active_lease epoch (fst c), pv_registration (fst c)) of
        (Some lc, Some rg) \<Rightarrow> (let (rc, d) = block_device_flush (pg_raw rg) (snd c) in (rc, fst c, d))
      | _ \<Rightarrow> (BOOT_SLOT_BLOCK_PROVIDER_ERR, c))"

text \<open>The callbacks of the lease whose number is the handle.\<close>

definition provider_io :: "nat \<Rightarrow> 'd provided sector_io" where
  "provider_io h = \<lparr>sec_read = provider_store_read (of_nat h), sec_write = provider_store_write (of_nat h), sec_flush = provider_store_flush (of_nat h)\<rparr>"

subsection \<open>Registration\<close>

text \<open>The identity found on the device is the one of the binding.\<close>

definition identity_matches :: "capyos_gpt_identity \<Rightarrow> boot_slot_disk_binding \<Rightarrow> bool" where
  "identity_matches gi b \<longleftrightarrow>
     pi_lba (gi_esp gi) = db_esp_lba b \<and> pi_sectors (gi_esp gi) = db_esp_sectors b \<and> pi_lba (gi_boot gi) = db_boot_lba b \<and>
     pi_sectors (gi_boot gi) = db_boot_sectors b \<and> pi_lba (gi_data gi) = db_data_lba b \<and> pi_sectors (gi_data gi) = db_data_sectors b \<and>
     provider_equal (gi_disk_guid gi) (db_disk_guid b) 16 \<and> provider_equal (pi_guid (gi_esp gi)) (db_esp_guid b) 16 \<and>
     provider_equal (pi_guid (gi_boot gi)) (db_boot_guid b) 16 \<and> provider_equal (pi_guid (gi_data gi)) (db_data_guid b) 16"

definition provider_init_locked ::
  "nat \<Rightarrow> 'd block_device \<Rightarrow> boot_slot_disk_binding \<Rightarrow> 'd provided \<Rightarrow> int \<times> u64 \<times> 'd provided" where
  "provider_init_locked provider raw binding c =
     (let (p, d) = c
      in if pv_leased p \<noteq> None \<or> pv_registration p \<noteq> None \<or> pv_next_registration_epoch p = 0 then (BOOT_SLOT_BLOCK_PROVIDER_ERR, 0, c)
         else
           (let p1 = p\<lparr>pv_epochs := (pv_epochs p)(provider := 0)\<rparr>
            in if op_read_block (bd_ops raw) = None \<and> op_read_block_ex (bd_ops raw) = None \<or>
                  op_write_block (bd_ops raw) = None \<and> op_write_block_ex (bd_ops raw) = None \<or>
                  db_esp_sectors binding = 0 \<or> db_boot_sectors binding = 0 \<or> db_data_sectors binding = 0
               then (BOOT_SLOT_BLOCK_PROVIDER_ERR, 0, p1, d)
               else
                 case capyos_gpt_identity_read (provider_raw_read raw) (bd_block_size raw) (bd_block_count raw) d of
                   (None, d1) \<Rightarrow> (BOOT_SLOT_BLOCK_PROVIDER_ERR, 0, p1, d1)
                 | (Some gi, d1) \<Rightarrow>
                     (case boot_slot_layout_plan (pi_sectors (gi_boot gi)) of None \<Rightarrow> (BOOT_SLOT_BLOCK_PROVIDER_ERR, 0, p1, d1)
                      | Some layout \<Rightarrow>
                          (if \<not> identity_matches gi binding then (BOOT_SLOT_BLOCK_PROVIDER_ERR, 0, p1, d1)
                           else
                             (let epoch = pv_next_registration_epoch p1
                              in (0, epoch, p1\<lparr>pv_registration := Some \<lparr>pg_owner = provider, pg_raw = raw, pg_identity = gi, pg_layout = layout,
                                       pg_epoch = epoch\<rparr>, pv_next_registration_epoch := epoch + 1, pv_epochs := (pv_epochs p1)(provider := epoch)\<rparr>, d1))))))"

definition boot_slot_block_provider_init_from_block_device ::
  "nat \<Rightarrow> 'd block_device \<Rightarrow> boot_slot_disk_binding \<Rightarrow> store_state \<Rightarrow> 'd provided \<Rightarrow> (int \<times> u64) \<times> store_state \<times> 'd provided" where
  "boot_slot_block_provider_init_from_block_device provider raw binding =
     held (BOOT_SLOT_BLOCK_PROVIDER_ERR, 0)
       (\<lambda>s c. if \<not> block_device_supports_flush raw then ((BOOT_SLOT_BLOCK_PROVIDER_ERR, 0), s, c)
          else (let (rc, epoch, c1) = provider_init_locked provider raw binding c in ((rc, epoch), s, c1)))"

definition boot_slot_block_provider_unregister :: "nat \<Rightarrow> u64 \<Rightarrow> store_state \<Rightarrow> 'd provided \<Rightarrow> int \<times> store_state \<times> 'd provided" where
  "boot_slot_block_provider_unregister provider registration_epoch =
     held BOOT_SLOT_BLOCK_PROVIDER_ERR
       (\<lambda>s c. case pv_registration (fst c) of None \<Rightarrow> (BOOT_SLOT_BLOCK_PROVIDER_ERR, s, c)
          | Some rg \<Rightarrow>
              (if registration_epoch = 0 \<or> pv_leased (fst c) \<noteq> None \<or> pg_owner rg \<noteq> provider \<or> pg_epoch rg \<noteq> registration_epoch \<or>
                  pv_epochs (fst c) provider \<noteq> registration_epoch
               then (BOOT_SLOT_BLOCK_PROVIDER_ERR, s, c)
               else (0, s, (fst c)\<lparr>pv_registration := None, pv_epochs := (pv_epochs (fst c))(provider := 0)\<rparr>, snd c)))"

subsection \<open>Leases\<close>

definition provider_identity_equal :: "capyos_gpt_identity \<Rightarrow> capyos_gpt_identity \<Rightarrow> bool" where
  "provider_identity_equal a b \<longleftrightarrow>
     gi_disk_sectors a = gi_disk_sectors b \<and> pi_lba (gi_esp a) = pi_lba (gi_esp b) \<and> pi_sectors (gi_esp a) = pi_sectors (gi_esp b) \<and>
     pi_lba (gi_boot a) = pi_lba (gi_boot b) \<and> pi_sectors (gi_boot a) = pi_sectors (gi_boot b) \<and> pi_lba (gi_data a) = pi_lba (gi_data b) \<and>
     pi_sectors (gi_data a) = pi_sectors (gi_data b) \<and> provider_equal (gi_disk_guid a) (gi_disk_guid b) 16 \<and>
     provider_equal (pi_guid (gi_esp a)) (pi_guid (gi_esp b)) 16 \<and> provider_equal (pi_guid (gi_boot a)) (pi_guid (gi_boot b)) 16 \<and>
     provider_equal (pi_guid (gi_data a)) (pi_guid (gi_data b)) 16"

text \<open>The registration if it is still the one on the disk.\<close>

definition provider_revalidate_locked :: "nat \<Rightarrow> u64 \<Rightarrow> 'd provided \<Rightarrow> 'd provider_registration option \<times> 'd provided" where
  "provider_revalidate_locked provider registration_epoch c =
     (let (p, d) = c
      in case pv_registration p of None \<Rightarrow> (None, c)
         | Some rg \<Rightarrow>
             (if registration_epoch = 0 \<or> pv_epochs p provider \<noteq> registration_epoch \<or> pg_owner rg \<noteq> provider \<or> pg_epoch rg \<noteq> registration_epoch
              then (None, c)
              else
                case capyos_gpt_identity_read (provider_raw_read (pg_raw rg)) (bd_block_size (pg_raw rg)) (bd_block_count (pg_raw rg)) d of
                  (None, d1) \<Rightarrow> (None, p, d1)
                | (Some gi, d1) \<Rightarrow> (if provider_identity_equal gi (pg_identity rg) then Some rg else None, p, d1)))"

definition boot_slot_block_provider_open_store ::
  "nat \<Rightarrow> u64 \<Rightarrow> nat \<Rightarrow> store_state \<Rightarrow> 'd provided \<Rightarrow> (int \<times> u64) \<times> store_state \<times> 'd provided" where
  "boot_slot_block_provider_open_store provider registration_epoch store =
     held (BOOT_SLOT_BLOCK_PROVIDER_ERR, 0)
       (\<lambda>s c. let (p, d) = c; lease_epoch = pv_next_lease_epoch p
          in if pv_leased p \<noteq> None \<or> bp_configured (bsp (st_boot s)) \<or> bp_lease_owner (bsp (st_boot s)) \<noteq> None \<or> lease_epoch = 0
             then ((BOOT_SLOT_BLOCK_PROVIDER_ERR, 0), s, c)
             else
               case provider_revalidate_locked provider registration_epoch c of
                 (None, c1) \<Rightarrow> ((BOOT_SLOT_BLOCK_PROVIDER_ERR, 0), s, c1)
               | (Some rg, p1, d1) \<Rightarrow>
                   (let p2 = p1\<lparr>pv_next_lease_epoch := lease_epoch + 1\<rparr>;
                        s1 = s\<lparr>st_boot := boot_slot_internal_init_locked (st_boot s)\<rparr>;
                        lc = \<lparr>lc_raw = pg_raw rg, lc_layout = pg_layout rg, lc_boot_lba = pi_lba (gi_boot (pg_identity rg)),
                          lc_boot_sectors = pi_sectors (gi_boot (pg_identity rg)), lc_registration_epoch = registration_epoch,
                          lc_lease_epoch = lease_epoch, lc_active = False\<rparr>;
                        (rc, s2) = boot_slot_store_internal_open_locked store (lc_layout lc) (Some (unat lease_epoch)) lease_epoch s1
                    in if rc = 0
                       then ((0, lease_epoch),
                             s2\<lparr>st_boot := (upd_bsp (\<lambda>q. q\<lparr>bp_lease_owner := Some store, bp_lease_epoch := lease_epoch\<rparr>) (st_boot s2))
                                 \<lparr>boot_slot_phase := BOOT_SLOT_PHASE_LEASED_UNBOUND\<rparr>\<rparr>,
                             p2\<lparr>pv_lease_context := Some (lc\<lparr>lc_active := True\<rparr>), pv_leased := Some provider, pv_leased_store := Some store,
                                pv_lease_epoch := lease_epoch\<rparr>, d1)
                       else ((BOOT_SLOT_BLOCK_PROVIDER_ERR, 0),
                             upd_store store (\<lambda>_. store_zeroed) (s2\<lparr>st_boot := (st_boot s2)\<lparr>boot_slot_phase := BOOT_SLOT_PHASE_CLOSED\<rparr>\<rparr>),
                             p2\<lparr>pv_lease_context := None\<rparr>, d1)))"

definition boot_slot_block_provider_close_store ::
  "nat \<Rightarrow> u64 \<Rightarrow> nat \<Rightarrow> u64 \<Rightarrow> store_state \<Rightarrow> 'd provided \<Rightarrow> int \<times> store_state \<times> 'd provided" where
  "boot_slot_block_provider_close_store provider registration_epoch store lease_epoch =
     held BOOT_SLOT_BLOCK_PROVIDER_ERR
       (\<lambda>s c. let (p, d) = c
          in case (pv_registration p, pv_lease_context p) of
               (Some rg, Some lc) \<Rightarrow>
                 (if registration_epoch = 0 \<or> lease_epoch = 0 \<or> pv_leased p \<noteq> Some provider \<or> pv_leased_store p \<noteq> Some store \<or>
                     pv_lease_epoch p \<noteq> lease_epoch \<or> pg_owner rg \<noteq> provider \<or> pg_epoch rg \<noteq> registration_epoch \<or>
                     pv_epochs p provider \<noteq> registration_epoch \<or> \<not> lc_active lc \<or> lc_registration_epoch lc \<noteq> registration_epoch \<or>
                     lc_lease_epoch lc \<noteq> lease_epoch \<or> so_opaque_epoch (st_stores s store) \<noteq> lease_epoch \<or>
                     bp_stage_claimed (bsp (st_boot s)) \<or> bp_lease_owner (bsp (st_boot s)) \<noteq> Some store \<or>
                     bp_lease_epoch (bsp (st_boot s)) \<noteq> lease_epoch
                  then (BOOT_SLOT_BLOCK_PROVIDER_ERR, s, c)
                  else
                    (let p1 = p\<lparr>pv_lease_context := Some (lc\<lparr>lc_active := False\<rparr>), pv_lease_epoch := 0\<rparr>;
                         s1 = s\<lparr>st_boot := boot_slot_internal_init_locked (st_boot s)\<rparr>;
                         (rc, s2) = boot_slot_store_internal_revoke_locked store lease_epoch s1
                     in if rc = 0
                        then (0, s2\<lparr>st_boot := (upd_bsp (\<lambda>q. q\<lparr>bp_lease_owner := None, bp_lease_epoch := 0\<rparr>) (st_boot s2))
                                 \<lparr>boot_slot_phase := BOOT_SLOT_PHASE_CLOSED\<rparr>\<rparr>,
                              p1\<lparr>pv_leased := None, pv_leased_store := None, pv_lease_epoch := 0, pv_lease_context := None\<rparr>, d)
                        else (BOOT_SLOT_BLOCK_PROVIDER_ERR, s2, p1, d)))
             | _ \<Rightarrow> (BOOT_SLOT_BLOCK_PROVIDER_ERR, s, c))"

end
