(* ===== verification/BootDisk.thy ===== *)
theory BootDisk
  imports BootProvider
begin

text \<open>
  The contract \<open>raw_disk\<close> with the driver of the disk: single calls, each of which may fail. From it the
  block layer, with its retries, the lease checks of the provider and the offset of the partition give the contract \<open>boot_medium\<close> that the
  store relies on (\<open>boot_partition\<close>). The machine of \<open>BootFlaky\<close> meets the contract.
\<close>

subsection \<open>Retries\<close>

text \<open>What holds after the first attempt, and is kept by further attempts and by resets, holds at the end.\<close>

lemma retry_invariant:
  assumes "block_retry_from dev w b bt bo rs cls buf d = (cls', buf', d')" and "P cls buf d"
    and attempt: "\<And>cls buf d cls1 buf1 d1. P cls buf d \<Longrightarrow> block_attempt dev w b buf d = (cls1, buf1, d1) \<Longrightarrow> P cls1 buf1 d1"
    and reset: "\<And>cls buf d f rc d1. P cls buf d \<Longrightarrow> op_reset (bd_ops dev) = Some f \<Longrightarrow> f d = (rc, d1) \<Longrightarrow> P BLOCK_IO_ERR_PERMANENT buf d1"
    and perm: "\<And>cls buf d. P cls buf d \<Longrightarrow> P BLOCK_IO_ERR_PERMANENT buf d"
  shows "P cls' buf' d'"
  using assms(1,2)
proof (induction "bt + bo" arbitrary: bt bo rs cls buf d rule: less_induct)
  case less
  show ?case
  proof (cases "\<not> block_io_should_retry cls")
    case True
    then show ?thesis using less.prems by (subst (asm) block_retry_from.simps) simp
  next
    case retry: False
    obtain cls1 buf1 d1 where at: "block_attempt dev w b buf d = (cls1, buf1, d1)" by (metis prod_cases3)
    show ?thesis
    proof (cases "cls = BLOCK_IO_ERR_TIMEOUT")
      case False
      show ?thesis
      proof (cases "bt = 0")
        case True
        then show ?thesis using less.prems retry False by (subst (asm) block_retry_from.simps) simp
      next
        case bt: False
        have "block_retry_from dev w b (bt - 1) bo rs cls1 buf1 d1 = (cls', buf', d')"
          using less.prems(1) retry False bt by (subst (asm) block_retry_from.simps) (simp add: at)
        then show ?thesis using less.hyps [of "bt - 1" bo] bt attempt [OF less.prems(2) at] by simp
      qed
    next
      case time: True
      show ?thesis
      proof (cases "bo = 0 \<or> op_reset (bd_ops dev) = None \<or> rs")
        case True
        then have "buf' = buf \<and> d' = d \<and> (cls' = cls \<or> cls' = BLOCK_IO_ERR_PERMANENT)"
          using less.prems(1) retry time by (subst (asm) block_retry_from.simps) (auto split: if_splits option.splits)
        then show ?thesis using less.prems(2) perm by blast
      next
        case go: False
        then obtain f where f: "op_reset (bd_ops dev) = Some f" by auto
        obtain rc d2 where r: "f d = (rc, d2)" by fastforce
        note p2 = reset [OF less.prems(2) f r]
        show ?thesis
        proof (cases "rc = 0")
          case False
          then have "cls' = BLOCK_IO_ERR_PERMANENT \<and> buf' = buf \<and> d' = d2"
            using less.prems(1) retry time go f by (subst (asm) block_retry_from.simps) (simp add: r)
          then show ?thesis using p2 by simp
        next
          case True
          obtain cls3 buf3 d3 where a3: "block_attempt dev w b buf d2 = (cls3, buf3, d3)" by (metis prod_cases3)
          have "block_retry_from dev w b bt (bo - 1) True cls3 buf3 d3 = (cls', buf', d')"
            using less.prems(1) retry time go f True by (subst (asm) block_retry_from.simps) (simp add: r a3)
          then show ?thesis using less.hyps [of bt "bo - 1"] go attempt [OF p2 a3] by simp
        qed
      qed
    qed
  qed
qed

subsection \<open>The driver\<close>

locale raw_disk =
  fixes raw :: "'d block_device"
    and ok :: "'d \<Rightarrow> bool"
    and data :: "'d \<Rightarrow> nat \<Rightarrow> u8 list"
    and left :: "'d \<Rightarrow> leftovers"
  assumes raw_left: "ok d \<Longrightarrow> k < unat (bd_block_count raw) \<Longrightarrow> data d k \<in> left d k"
    and raw_length: "ok d \<Longrightarrow> k < unat (bd_block_count raw) \<Longrightarrow> r \<in> left d k \<Longrightarrow> length r = BOOT_SLOT_STORE_SECTOR_SIZE"
    and raw_read: "ok d \<Longrightarrow> unat b < unat (bd_block_count raw) \<Longrightarrow> length buf = BOOT_SLOT_STORE_SECTOR_SIZE \<Longrightarrow> block_call_read raw b buf d = (cls, r, d') \<Longrightarrow>
      ok d' \<and> data d' = data d \<and> (\<forall>k. left d' k \<subseteq> left d k) \<and> length r = BOOT_SLOT_STORE_SECTOR_SIZE \<and> (cls = BLOCK_IO_OK \<longrightarrow> r = data d (unat b))"
    and raw_write: "ok d \<Longrightarrow> unat b < unat (bd_block_count raw) \<Longrightarrow> length buf = BOOT_SLOT_STORE_SECTOR_SIZE \<Longrightarrow> block_call_write raw b buf d = (cls, d') \<Longrightarrow>
      ok d' \<and> (\<forall>k. k \<noteq> unat b \<longrightarrow> data d' k = data d k \<and> left d' k \<subseteq> left d k) \<and> left d' (unat b) \<subseteq> insert buf (left d (unat b)) \<and>
      (cls = BLOCK_IO_OK \<longrightarrow> data d' (unat b) = buf)"
    and raw_flush: "ok d \<Longrightarrow> block_device_flush_once_ex raw d = (cls, d') \<Longrightarrow>
      ok d' \<and> data d' = data d \<and> (\<forall>k. left d' k \<subseteq> left d k) \<and> (cls = BLOCK_IO_OK \<longrightarrow> (\<forall>k<unat (bd_block_count raw). left d' k \<subseteq> {data d k}))"
    and raw_reset: "ok d \<Longrightarrow> op_reset (bd_ops raw) = Some f \<Longrightarrow> f d = (rc, d') \<Longrightarrow> ok d' \<and> data d' = data d \<and> (\<forall>k. left d' k \<subseteq> left d k)"
    and raw_status: "op_read_block_ex (bd_ops raw) = None \<Longrightarrow> op_read_block (bd_ops raw) = Some rd \<Longrightarrow> rd b buf d = (rc, r, d') \<Longrightarrow> rc \<le> 0"
begin

lemma device_read:
  assumes "block_device_read raw b buf d = (rc, r, d')" and "ok d" and "unat b < unat (bd_block_count raw)"
    and "length buf = BOOT_SLOT_STORE_SECTOR_SIZE"
  shows "ok d' \<and> rc \<le> 0 \<and> data d' = data d \<and> (\<forall>k. left d' k \<subseteq> left d k) \<and> (rc = 0 \<longrightarrow> r = data d (unat b))"
proof (cases "op_read_block_ex (bd_ops raw) = None")
  case True
  show ?thesis
  proof (cases "op_read_block (bd_ops raw)")
    case None
    then show ?thesis using assms True by (simp add: block_device_read_def)
  next
    case (Some f)
    have f: "f b buf d = (rc, r, d')" using assms(1,3) True Some by (simp add: block_device_read_def word_le_nat_alt split: if_splits)
    have "block_call_read raw b buf d = (if rc = 0 then BLOCK_IO_OK else BLOCK_IO_ERR_PERMANENT, r, d')"
      using True Some f by (simp add: block_call_read_def)
    from raw_read [OF assms(2-4) this] raw_status [OF True Some f] show ?thesis by simp
  qed
next
  case False
  obtain cls1 buf1 d1 where c: "block_call_read raw b buf d = (cls1, buf1, d1)" by (metis prod_cases3)
  obtain cls2 where r2: "block_retry_loop raw cls1 False b buf1 d1 = (cls2, r, d')" and rc: "rc = (if cls2 = BLOCK_IO_OK then 0 else -1)"
    using assms(1,3) False c by (auto simp: block_device_read_def block_device_read_ex_def word_le_nat_alt not_le split: prod.splits)
  let ?P = "\<lambda>cls buf e. ok e \<and> data e = data d \<and> (\<forall>k. left e k \<subseteq> left d k) \<and> length buf = BOOT_SLOT_STORE_SECTOR_SIZE \<and>
    (cls = BLOCK_IO_OK \<longrightarrow> buf = data d (unat b))"
  have "?P cls2 r d'"
  proof (rule retry_invariant [where P = ?P, OF r2 [unfolded block_retry_loop_def]])
    show "?P cls1 buf1 d1" using raw_read [OF assms(2-4) c] by simp
    fix cls buf e cls1 buf1 e1
    assume p: "?P cls buf e" and at: "block_attempt raw False b buf e = (cls1, buf1, e1)"
    have "block_call_read raw b buf e = (cls1, buf1, e1)" using at by (simp add: block_attempt_def)
    then show "?P cls1 buf1 e1" using raw_read [of e b buf cls1 buf1 e1] p assms(3) by (metis order_trans)
  next
    fix cls buf e f rc e1
    assume "?P cls buf e" "op_reset (bd_ops raw) = Some f" "f e = (rc, e1)"
    then show "?P BLOCK_IO_ERR_PERMANENT buf e1" using raw_reset [of e f rc e1] by (metis order_trans block_io_error_class.distinct(3))
  qed simp
  then show ?thesis using rc by simp
qed

lemma device_write:
  assumes "block_device_write raw b buf d = (rc, d')" and "ok d" and "unat b < unat (bd_block_count raw)"
    and "length buf = BOOT_SLOT_STORE_SECTOR_SIZE"
  shows "ok d' \<and> (\<forall>k. k \<noteq> unat b \<longrightarrow> data d' k = data d k \<and> left d' k \<subseteq> left d k) \<and> left d' (unat b) \<subseteq> insert buf (left d (unat b)) \<and>
    (rc = 0 \<longrightarrow> data d' (unat b) = buf)"
proof (cases "op_write_block_ex (bd_ops raw) = None")
  case True
  show ?thesis
  proof (cases "op_write_block (bd_ops raw)")
    case None
    then show ?thesis using assms True by (auto simp: block_device_write_def)
  next
    case (Some f)
    have f: "f b buf d = (rc, d')" using assms(1,3) True Some by (simp add: block_device_write_def word_le_nat_alt split: if_splits)
    have "block_call_write raw b buf d = (if rc = 0 then BLOCK_IO_OK else BLOCK_IO_ERR_PERMANENT, d')"
      using True Some f by (simp add: block_call_write_def)
    from raw_write [OF assms(2-4) this] show ?thesis by simp
  qed
next
  case False
  obtain cls1 d1 where c: "block_call_write raw b buf d = (cls1, d1)" by fastforce
  obtain cls2 r where r2: "block_retry_loop raw cls1 True b buf d1 = (cls2, r, d')" and rc: "rc = (if cls2 = BLOCK_IO_OK then 0 else -1)"
    using assms(1,3) False c by (auto simp: block_device_write_def block_device_write_ex_def word_le_nat_alt not_le split: prod.splits)
  let ?P = "\<lambda>cls x e. x = buf \<and> ok e \<and> (\<forall>k. k \<noteq> unat b \<longrightarrow> data e k = data d k \<and> left e k \<subseteq> left d k) \<and>
    left e (unat b) \<subseteq> insert buf (left d (unat b)) \<and> (cls = BLOCK_IO_OK \<longrightarrow> data e (unat b) = buf)"
  have "?P cls2 r d'"
  proof (rule retry_invariant [where P = ?P, OF r2 [unfolded block_retry_loop_def]])
    show "?P cls1 buf d1" using raw_write [OF assms(2-4) c] by simp
    fix cls x e cls1 buf1 e1
    assume p: "?P cls x e" and at: "block_attempt raw True b x e = (cls1, buf1, e1)"
    have w: "block_call_write raw b buf e = (cls1, e1)" "buf1 = buf" using at p by (auto simp: block_attempt_def split: prod.splits)
    have "ok e1 \<and> (\<forall>k. k \<noteq> unat b \<longrightarrow> data e1 k = data e k \<and> left e1 k \<subseteq> left e k) \<and> left e1 (unat b) \<subseteq> insert buf (left e (unat b)) \<and>
      (cls1 = BLOCK_IO_OK \<longrightarrow> data e1 (unat b) = buf)" using raw_write [OF _ assms(3,4) w(1)] p by simp
    then show "?P cls1 buf1 e1" using p w(2) by (auto simp: subset_iff)
  next
    fix cls x e f rc e1
    assume p: "?P cls x e" and f: "op_reset (bd_ops raw) = Some f" "f e = (rc, e1)"
    have "ok e1 \<and> data e1 = data e \<and> (\<forall>k. left e1 k \<subseteq> left e k)" using raw_reset [OF _ f] p by simp
    then show "?P BLOCK_IO_ERR_PERMANENT x e1" using p by (auto simp: subset_iff)
  qed simp
  then show ?thesis using rc by simp
qed

lemma device_flush:
  assumes "block_device_flush raw d = (rc, d')" and "ok d"
  shows "ok d' \<and> data d' = data d \<and> (\<forall>k. left d' k \<subseteq> left d k) \<and> (rc = 0 \<longrightarrow> (\<forall>k<unat (bd_block_count raw). left d' k \<subseteq> {data d k}))"
proof -
  let ?P = "\<lambda>cls e. ok e \<and> data e = data d \<and> (\<forall>k. left e k \<subseteq> left d k) \<and> (cls = BLOCK_IO_OK \<longrightarrow> (\<forall>k<unat (bd_block_count raw). left e k \<subseteq> {data d k}))"
  have step: "?P cls e'" if "ok e" "data e = data d" "\<forall>k. left e k \<subseteq> left d k" "block_device_flush_once_ex raw e = (cls, e')" for cls e e'
    using raw_flush [OF that(1,4)] that(2,3) by (metis order_trans)
  have loop: "?P cls' e'" if "flush_retry raw n cls e = (cls', e')" "?P cls e" for n cls cls' e e'
    using that
  proof (induction n arbitrary: cls e)
    case (Suc n)
    show ?case
    proof (cases "cls = BLOCK_IO_ERR_TRANSIENT")
      case True
      obtain cls1 e1 where f: "block_device_flush_once_ex raw e = (cls1, e1)" by fastforce
      have "flush_retry raw n cls1 e1 = (cls', e')" using Suc.prems(1) True f by simp
      moreover have "?P cls1 e1" using step [OF _ _ _ f] Suc.prems(2) by blast
      ultimately show ?thesis by (rule Suc.IH)
    next
      case False
      then show ?thesis using Suc.prems by simp
    qed
  qed simp
  show ?thesis
  proof (cases "block_device_supports_flush raw")
    case False
    then show ?thesis using assms by (simp add: block_device_flush_def block_device_flush_ex_def split: prod.splits)
  next
    case True
    obtain cls1 e1 where f: "block_device_flush_once_ex raw d = (cls1, e1)" by fastforce
    obtain cls2 where r: "flush_retry raw BLOCK_RETRY_BUDGET_TRANSIENT cls1 e1 = (cls2, d')" and rc: "rc = (if cls2 = BLOCK_IO_OK then 0 else -1)"
      using assms(1) True f by (auto simp: block_device_flush_def block_device_flush_ex_def split: prod.splits)
    have "?P cls1 e1" using step [OF assms(2) _ _ f] by simp
    from loop [OF r this] show ?thesis using rc by simp
  qed
qed

end

subsection \<open>The partition\<close>

text \<open>What the provider has registered and leased is this partition of this disk.\<close>

definition lease_ok :: "'d block_device \<Rightarrow> u32 \<Rightarrow> boot_slot_layout \<Rightarrow> 'd provider_state \<Rightarrow> bool" where
  "lease_ok raw base layout p \<longleftrightarrow>
     (\<forall>lc. pv_lease_context p = Some lc \<longrightarrow> lc_raw lc = raw \<and> lc_boot_lba lc = base \<and> lc_boot_sectors lc = ly_boot_sectors layout) \<and>
     (\<forall>rg. pv_registration p = Some rg \<longrightarrow> pg_raw rg = raw \<and> pg_layout rg = layout \<and> pi_lba (gi_boot (pg_identity rg)) = base \<and>
        pi_sectors (gi_boot (pg_identity rg)) = ly_boot_sectors layout)"

definition part_valid :: "('d \<Rightarrow> bool) \<Rightarrow> 'd block_device \<Rightarrow> u32 \<Rightarrow> boot_slot_layout \<Rightarrow> 'd provided \<Rightarrow> bool" where
  "part_valid ok raw base layout c \<longleftrightarrow> ok (snd c) \<and> lease_ok raw base layout (fst c)"

definition part_content :: "('d \<Rightarrow> nat \<Rightarrow> 'b) \<Rightarrow> u32 \<Rightarrow> 'd provided \<Rightarrow> nat \<Rightarrow> 'b" where
  "part_content data base c k = data (snd c) (unat base + k)"

text \<open>The firmware's block access of the boot loader, handle 0, beside the leases of the kernel's provider.\<close>

definition machine_io :: "'d sector_io \<Rightarrow> nat \<Rightarrow> 'd provided sector_io" where
  "machine_io efi h =
     (if h = 0
      then \<lparr>sec_read = (\<lambda>lba c. let (rc, r, d) = sec_read efi lba (snd c) in (rc, r, fst c, d)),
            sec_write = (\<lambda>lba b c. let (rc, d) = sec_write efi lba b (snd c) in (rc, fst c, d)),
            sec_flush = (\<lambda>c. let (rc, d) = sec_flush efi (snd c) in (rc, fst c, d))\<rparr>
      else provider_io h)"

locale boot_partition = raw_disk raw ok data left
  for raw :: "'d block_device" and ok data left +
  fixes base :: u32 and layout :: boot_slot_layout and efi :: "'d sector_io"
  assumes part_plan: "boot_slot_layout_plan (ly_boot_sectors layout) = Some layout"
    and part_fits: "unat base + unat (ly_boot_sectors layout) \<le> unat (bd_block_count raw)"
    and efi_read: "ok d \<Longrightarrow> unat lba < unat (ly_boot_sectors layout) \<Longrightarrow> sec_read efi lba d = (rc, r, d') \<Longrightarrow>
      ok d' \<and> rc \<le> 0 \<and> data d' = data d \<and> (\<forall>k. left d' k \<subseteq> left d k) \<and> (rc = 0 \<longrightarrow> r = data d (unat base + unat lba))"
    and efi_write: "ok d \<Longrightarrow> unat lba < unat (ly_boot_sectors layout) \<Longrightarrow> length b = BOOT_SLOT_STORE_SECTOR_SIZE \<Longrightarrow> sec_write efi lba b d = (rc, d') \<Longrightarrow>
      ok d' \<and> (\<forall>k. k \<noteq> unat base + unat lba \<longrightarrow> data d' k = data d k \<and> left d' k \<subseteq> left d k) \<and>
      left d' (unat base + unat lba) \<subseteq> insert b (left d (unat base + unat lba)) \<and> (rc = 0 \<longrightarrow> data d' (unat base + unat lba) = b)"
    and efi_flush: "ok d \<Longrightarrow> sec_flush efi d = (rc, d') \<Longrightarrow>
      ok d' \<and> data d' = data d \<and> (\<forall>k. left d' k \<subseteq> left d k) \<and> (rc = 0 \<longrightarrow> (\<forall>k<unat (bd_block_count raw). left d' k \<subseteq> {data d k}))"
begin

text \<open>The callbacks of the provider, whatever the lease number.\<close>

lemma lease_sector:
  assumes "lease_ok raw base layout p" and "provider_active_lease e p = Some lc" and "unat lba < unat (ly_boot_sectors layout)"
  shows "lc_raw lc = raw" and "lc_boot_lba lc = base" and "lc_boot_sectors lc = ly_boot_sectors layout"
    and "unat (base + lba) = unat base + unat lba" and "unat (base + lba) < unat (bd_block_count raw)"
proof -
  have "pv_lease_context p = Some lc" using assms(2) by (auto simp: provider_active_lease_def split: option.splits if_splits)
  then show "lc_raw lc = raw" "lc_boot_lba lc = base" "lc_boot_sectors lc = ly_boot_sectors layout" using assms(1) by (auto simp: lease_ok_def)
  have "unat (bd_block_count raw) < 2 ^ LENGTH(32)" by (rule unsigned_less)
  then have "unat base + unat lba < 2 ^ LENGTH(32)" using assms(3) part_fits by linarith
  then show "unat (base + lba) = unat base + unat lba" by (simp add: unat_word_ariths)
  then show "unat (base + lba) < unat (bd_block_count raw)" using assms(3) part_fits by linarith
qed

lemma provider_read:
  assumes "part_valid ok raw base layout c" and "unat lba < unat (ly_boot_sectors layout)" and "provider_store_read e lba c = (rc, r, c')"
  shows "part_valid ok raw base layout c' \<and> rc \<le> 0 \<and> part_content data base c' = part_content data base c \<and>
    (\<forall>k. part_content left base c' k \<subseteq> part_content left base c k) \<and> (rc = 0 \<longrightarrow> r = part_content data base c (unat lba))"
proof (cases "rc \<noteq> 0 \<and> c' = c \<and> rc \<le> 0")
  case True
  then show ?thesis using assms(1) by simp
next
  case False
  obtain p d where c: "c = (p, d)" by fastforce
  obtain lc where lc: "provider_active_lease e p = Some lc"
    using False assms(3) c by (auto simp: provider_store_read_def BOOT_SLOT_BLOCK_PROVIDER_ERR_def split: option.splits)
  have v: "ok d" "lease_ok raw base layout p" using assms(1) c by (simp_all add: part_valid_def)
  note L = lease_sector [OF v(2) lc assms(2)]
  obtain d' where rd: "block_device_read raw (base + lba) sector_junk d = (rc, r, d')" and c': "c' = (p, d')"
    using False assms(3) c lc L by (auto simp: provider_store_read_def BOOT_SLOT_BLOCK_PROVIDER_ERR_def split: if_splits prod.splits)
  have "length sector_junk = BOOT_SLOT_STORE_SECTOR_SIZE" by simp
  note R = device_read [OF rd v(1) L(5) this]
  then show ?thesis using c c' v L(4) by (auto simp: part_valid_def part_content_def fun_eq_iff)
qed

lemma provider_write:
  assumes "part_valid ok raw base layout c" and "unat lba < unat (ly_boot_sectors layout)" and "length b = BOOT_SLOT_STORE_SECTOR_SIZE"
    and "provider_store_write e lba b c = (rc, c')"
  shows "part_valid ok raw base layout c' \<and>
    (\<forall>k. k \<noteq> unat lba \<longrightarrow> part_content data base c' k = part_content data base c k \<and> part_content left base c' k \<subseteq> part_content left base c k) \<and>
    part_content left base c' (unat lba) \<subseteq> insert b (part_content left base c (unat lba)) \<and> (rc = 0 \<longrightarrow> part_content data base c' (unat lba) = b)"
proof (cases "rc \<noteq> 0 \<and> c' = c")
  case True
  then show ?thesis using assms(1) by auto
next
  case False
  obtain p d where c: "c = (p, d)" by fastforce
  obtain lc where lc: "provider_active_lease e p = Some lc"
    using False assms(4) c by (auto simp: provider_store_write_def BOOT_SLOT_BLOCK_PROVIDER_ERR_def split: option.splits)
  have v: "ok d" "lease_ok raw base layout p" using assms(1) c by (simp_all add: part_valid_def)
  note L = lease_sector [OF v(2) lc assms(2)]
  obtain d' where w: "block_device_write raw (base + lba) b d = (rc, d')" and c': "c' = (p, d')"
    using False assms(4) c lc L by (auto simp: provider_store_write_def BOOT_SLOT_BLOCK_PROVIDER_ERR_def split: if_splits prod.splits)
  note W = device_write [OF w v(1) L(5) assms(3)]
  then show ?thesis using c c' v L(4) by (simp add: part_valid_def part_content_def)
qed

lemma provider_flush:
  assumes "part_valid ok raw base layout c" and "provider_store_flush e c = (rc, c')"
  shows "part_valid ok raw base layout c' \<and> part_content data base c' = part_content data base c \<and>
    (\<forall>k. part_content left base c' k \<subseteq> part_content left base c k) \<and>
    (rc = 0 \<longrightarrow> (\<forall>k<unat (ly_boot_sectors layout). part_content left base c' k \<subseteq> {part_content data base c k}))"
proof (cases "rc \<noteq> 0 \<and> c' = c")
  case True
  then show ?thesis using assms(1) by simp
next
  case False
  obtain p d where c: "c = (p, d)" by fastforce
  have v: "ok d" "lease_ok raw base layout p" using assms(1) c by (simp_all add: part_valid_def)
  obtain rg d' where "pv_registration p = Some rg" and f: "block_device_flush (pg_raw rg) d = (rc, d')" and c': "c' = (p, d')"
    using False assms(2) c by (auto simp: provider_store_flush_def BOOT_SLOT_BLOCK_PROVIDER_ERR_def split: option.splits prod.splits)
  then have "block_device_flush raw d = (rc, d')" using v(2) by (simp add: lease_ok_def)
  note F = device_flush [OF this v(1)]
  have "rc = 0 \<longrightarrow> (\<forall>k<unat (ly_boot_sectors layout). left d' (unat base + k) \<subseteq> {data d (unat base + k)})" using F part_fits by auto
  then show ?thesis using F c c' v by (simp add: part_valid_def part_content_def fun_eq_iff)
qed

end

sublocale boot_partition \<subseteq> medium: boot_medium "machine_io efi" layout "part_valid ok raw base layout" "part_content data base" "part_content left base"
proof
  show "boot_slot_layout_plan (ly_boot_sectors layout) = Some layout" by (rule part_plan)
  fix c :: "'d provided" and k
  assume v: "part_valid ok raw base layout c" and k: "k < unat (ly_boot_sectors layout)"
  then show "part_content data base c k \<in> part_content left base c k"
    using raw_left [of "snd c" "unat base + k"] part_fits by (simp add: part_valid_def part_content_def)
  show "length r = BOOT_SLOT_STORE_SECTOR_SIZE" if "r \<in> part_content left base c k" for r
    using raw_length [of "snd c" "unat base + k" r] that v k part_fits by (simp add: part_valid_def part_content_def)
next
  fix c lba h rc r c'
  assume a: "part_valid ok raw base layout c" "unat lba < unat (ly_boot_sectors layout)" "sec_read (machine_io efi h) lba c = (rc, r, c')"
  show "part_valid ok raw base layout c' \<and> rc \<le> 0 \<and> part_content data base c' = part_content data base c \<and>
      (\<forall>k. part_content left base c' k \<subseteq> part_content left base c k) \<and> (rc = 0 \<longrightarrow> r = part_content data base c (unat lba))"
  proof (cases "h = 0")
    case True
    then obtain d' where "sec_read efi lba (snd c) = (rc, r, d')" "c' = (fst c, d')" using a(3) by (auto simp: machine_io_def split: prod.splits)
    then show ?thesis using efi_read [of "snd c" lba rc r d'] a(1,2) by (auto simp: part_valid_def part_content_def fun_eq_iff)
  next
    case False
    then show ?thesis using provider_read [OF a(1,2)] a(3) by (simp add: machine_io_def provider_io_def)
  qed
next
  fix c lba h rc b c'
  assume a: "part_valid ok raw base layout c" "unat lba < unat (ly_boot_sectors layout)" "length b = BOOT_SLOT_STORE_SECTOR_SIZE"
    "sec_write (machine_io efi h) lba b c = (rc, c')"
  show "part_valid ok raw base layout c' \<and>
      (\<forall>k. k \<noteq> unat lba \<longrightarrow> part_content data base c' k = part_content data base c k \<and> part_content left base c' k \<subseteq> part_content left base c k) \<and>
      part_content left base c' (unat lba) \<subseteq> insert b (part_content left base c (unat lba)) \<and> (rc = 0 \<longrightarrow> part_content data base c' (unat lba) = b)"
  proof (cases "h = 0")
    case True
    then obtain d' where "sec_write efi lba b (snd c) = (rc, d')" "c' = (fst c, d')" using a(4) by (auto simp: machine_io_def split: prod.splits)
    then show ?thesis using efi_write [of "snd c" lba b rc d'] a(1-3) by (simp add: part_valid_def part_content_def)
  next
    case False
    then show ?thesis using provider_write [OF a(1-3)] a(4) by (simp add: machine_io_def provider_io_def)
  qed
next
  fix c h rc c'
  assume a: "part_valid ok raw base layout c" "sec_flush (machine_io efi h) c = (rc, c')"
  show "part_valid ok raw base layout c' \<and> part_content data base c' = part_content data base c \<and>
      (\<forall>k. part_content left base c' k \<subseteq> part_content left base c k) \<and>
      (rc = 0 \<longrightarrow> (\<forall>k<unat (ly_boot_sectors layout). part_content left base c' k \<subseteq> {part_content data base c k}))"
  proof (cases "h = 0")
    case True
    then obtain d' where f: "sec_flush efi (snd c) = (rc, d')" "c' = (fst c, d')" using a(2) by (auto simp: machine_io_def split: prod.splits)
    note F = efi_flush [OF _ f(1)]
    have "rc = 0 \<longrightarrow> (\<forall>k<unat (ly_boot_sectors layout). left d' (unat base + k) \<subseteq> {data (snd c) (unat base + k)})"
      using F a(1) part_fits by (auto simp: part_valid_def)
    then show ?thesis using F a(1) f(2) by (simp add: part_valid_def part_content_def fun_eq_iff)
  next
    case False
    then show ?thesis using provider_flush [OF a(1)] a(2) by (simp add: machine_io_def provider_io_def)
  qed
qed

end
