(* ===== verification/BootRun.thy ===== *)
theory BootRun
  imports BootDisk
begin

text \<open>
  The machine around the boot slots: loader and kernel call the operations in any order, every device call may fail, and the power
  may fail between any two of them (a failure within an operation is one whose remaining device calls all fail). The steps are a relation;
  the invariant of its reachable states is what makes updates safe.
\<close>

subsection \<open>Steps\<close>

text \<open>Memory after a reset, in the loader or in the kernel: the statics of the program.\<close>

definition memory_start :: "bool \<Rightarrow> store_state" where
  "memory_start loader =
     \<lparr>st_boot = \<lparr>bsm = \<lparr>mg_slots = (slot_zero, slot_zero), mg_active_slot = 0, mg_next_slot = 0, mg_rollback_pending = False, mg_confirmed_slot = 0,
          mg_pending_slot = 0, mg_tries_remaining = 0, mg_boot_sectors = 0, mg_control_lba = (0, 0)\<rparr>,
        bsm_initialized = False, boot_slot_operation_busy = False, bsp = bsp_zero, boot_slot_phase = BOOT_SLOT_PHASE_UNINITIALIZED,
        loader_build = loader\<rparr>,
      store_binding = binding_zero, store_registration = registration_zero, store_lease_owner = None, store_next_epoch = 1,
      st_stores = (\<lambda>_. store_zeroed)\<rparr>"

text \<open>The content a power failure may leave, with the caches gone.\<close>

definition power_cycle :: "('d \<Rightarrow> bool) \<Rightarrow> ('d \<Rightarrow> nat \<Rightarrow> u8 list) \<Rightarrow> ('d \<Rightarrow> leftovers) \<Rightarrow> 'd \<Rightarrow> 'd \<Rightarrow> bool" where
  "power_cycle ok data left d d' \<longleftrightarrow> ok d' \<and> (\<forall>k. left d' k = {data d' k} \<and> data d' k \<in> left d k)"

text \<open>\<open>confirms\<close> says whether confirmations of a new image are among the steps.\<close>

inductive machine_step ::
  "bool \<Rightarrow> 'd sector_io \<Rightarrow> 'd block_device \<Rightarrow> u32 \<Rightarrow> boot_slot_layout \<Rightarrow> ('d \<Rightarrow> 'd \<Rightarrow> bool) \<Rightarrow> store_state \<times> 'd provided \<Rightarrow> store_state \<times> 'd provided \<Rightarrow> bool"
  for confirms efi raw base layout power where
  start: "boot_slot_init (st_boot s) = (rc, b) \<Longrightarrow> machine_step confirms efi raw base layout power (s, c) (s\<lparr>st_boot := b\<rparr>, c)"
| open_loader: "loader_build (st_boot s) \<Longrightarrow> boot_slot_store_init store layout (Some 0) s = (rc, s') \<Longrightarrow>
    machine_step confirms efi raw base layout power (s, c) (s', c)"
| register: "db_boot_lba binding = base \<Longrightarrow> db_boot_sectors binding = ly_boot_sectors layout \<Longrightarrow>
    boot_slot_block_provider_init_from_block_device provider raw binding s c = (r, s', c') \<Longrightarrow>
    machine_step confirms efi raw base layout power (s, c) (s', c')"
| unregister: "boot_slot_block_provider_unregister provider epoch s c = (r, s', c') \<Longrightarrow>
    machine_step confirms efi raw base layout power (s, c) (s', c')"
| open_lease: "boot_slot_block_provider_open_store provider epoch store s c = (r, s', c') \<Longrightarrow>
    machine_step confirms efi raw base layout power (s, c) (s', c')"
| close_lease: "boot_slot_block_provider_close_store provider epoch store lease s c = (r, s', c') \<Longrightarrow>
    machine_step confirms efi raw base layout power (s, c) (s', c')"
| bind: "boot_slot_store_bind_control (machine_io efi) store lease s c = (rc, s', c') \<Longrightarrow>
    machine_step confirms efi raw base layout power (s, c) (s', c')"
| initialize: "boot_slot_store_initialize_persistent (machine_io efi) store lease img s c = (rc, s', c') \<Longrightarrow>
    machine_step confirms efi raw base layout power (s, c) (s', c')"
| stage: "image_wf img \<Longrightarrow> boot_slot_store_stage_inactive_authorized (machine_io efi) store lease expected slot img payload s c = (r, s', c') \<Longrightarrow>
    machine_step confirms efi raw base layout power (s, c) (s', c')"
| arm: "boot_slot_store_arm (machine_io efi) store lease slot g s c = (r, s', c') \<Longrightarrow>
    machine_step confirms efi raw base layout power (s, c) (s', c')"
| header: "boot_slot_store_read_header (machine_io efi) store lease slot s c = (r, s', c') \<Longrightarrow>
    machine_step confirms efi raw base layout power (s, c) (s', c')"
| select: "on_boot (boot_slot_select_for_boot (bound_io (machine_io efi) s)) s c = (r, s', c') \<Longrightarrow>
    machine_step confirms efi raw base layout power (s, c) (s', c')"
| activate: "on_boot (boot_slot_activate (bound_io (machine_io efi) s) slot) s c = (rc, s', c') \<Longrightarrow>
    machine_step confirms efi raw base layout power (s, c) (s', c')"
| rollback: "on_boot (boot_slot_rollback (bound_io (machine_io efi) s)) s c = (rc, s', c') \<Longrightarrow>
    machine_step confirms efi raw base layout power (s, c) (s', c')"
| confirm: "confirms \<Longrightarrow> boot_slot_store_confirm_health (machine_io efi) store lease slot g s c = (rc, s', c') \<Longrightarrow>
    machine_step confirms efi raw base layout power (s, c) (s', c')"
| power_failure: "power d d' \<Longrightarrow> machine_step confirms efi raw base layout power (s, p, d) (memory_start loader, provider_start, d')"

subsection \<open>The invariant\<close>

text \<open>Memory and medium agree (\<open>kept\<close>), every open store is this partition, and the provider leases it.\<close>

definition machine_ok ::
  "('d \<Rightarrow> bool) \<Rightarrow> ('d \<Rightarrow> nat \<Rightarrow> u8 list) \<Rightarrow> ('d \<Rightarrow> leftovers) \<Rightarrow> 'd block_device \<Rightarrow> u32 \<Rightarrow> boot_slot_layout \<Rightarrow> fallbacks \<Rightarrow> store_state \<times> 'd provided \<Rightarrow> bool" where
  "machine_ok ok data left raw base layout K sc \<longleftrightarrow>
     part_valid ok raw base layout (snd sc) \<and> attached layout (fst sc) \<and>
     kept layout K (part_content left base (snd sc)) (part_content data base (snd sc)) (st_boot (fst sc))"

lemma machine_okD:
  assumes "machine_ok ok data left raw base layout K (s, c)"
  shows "part_valid ok raw base layout c" and "attached layout s"
    and "kept layout K (part_content left base c) (part_content data base c) (st_boot s)"
  using assms by (simp_all add: machine_ok_def)

lemma machine_okI:
  "part_valid ok raw base layout c \<Longrightarrow> attached layout s \<Longrightarrow> kept layout K (part_content left base c) (part_content data base c) (st_boot s) \<Longrightarrow>
    machine_ok ok data left raw base layout K (s, c)"
  by (simp add: machine_ok_def)

lemma start_not_ready: "kept layout K L C (st_boot (memory_start loader)) = sound layout K L" "attached layout (memory_start loader)"
  by (simp_all add: kept_def ram_ok_def ready_iff memory_start_def bsp_zero_def attached_def binding_zero_def registration_zero_def store_zeroed_def)

lemma slot_init_kept:
  assumes "boot_slot_init b = (rc, b')" and "kept layout K L C b"
  shows "kept layout K L C b'"
proof -
  let ?i = "(boot_slot_internal_init_locked (b\<lparr>boot_slot_operation_busy := True\<rparr>))\<lparr>boot_slot_phase := BOOT_SLOT_PHASE_RAM_TEST\<rparr>"
  have "kept layout K L C ?i" using init_locked_kept [of layout K L C "b\<lparr>boot_slot_operation_busy := True\<rparr>"] assms(2) by (auto intro: kept_phase)
  then show ?thesis
    using assms by (auto simp: boot_slot_init_def Let_def boot_slot_internal_operation_begin_def boot_slot_internal_operation_end_def BOOT_SLOT_ERR_BUSY_def split: if_splits)
qed

lemma store_init_kept:
  assumes "boot_slot_store_init store layout io s = (rc, s')" and "attached layout s"
  shows "attached layout s' \<and> (\<exists>x. st_boot s' = (st_boot s)\<lparr>boot_slot_operation_busy := x\<rparr>)"
  using assms
  by (auto simp: boot_slot_store_init_def Let_def boot_slot_internal_operation_begin_def boot_slot_internal_operation_end_def attached_def upd_store_def
      binding_zero_def store_zeroed_def split: if_splits)

lemma open_locked_attached:
  assumes "boot_slot_store_internal_open_locked store layout io e s = (rc, s')" and "attached layout s"
  shows "attached layout s' \<and> st_boot s' = st_boot s"
  using assms by (auto simp: boot_slot_store_internal_open_locked_def Let_def attached_def upd_store_def binding_zero_def store_zeroed_def split: if_splits)

lemma revoke_locked_attached:
  assumes "boot_slot_store_internal_revoke_locked store e s = (rc, s')" and "attached layout s"
  shows "attached layout s' \<and> st_boot s' = st_boot s"
  using assms by (auto simp: boot_slot_store_internal_revoke_locked_def Let_def attached_def upd_store_def binding_zero_def registration_zero_def store_zeroed_def split: if_splits)

lemma kept_lease [simp]:
  "kept layout K L C (upd_bsp (\<lambda>q. q\<lparr>bp_lease_owner := x, bp_lease_epoch := y\<rparr>) b) = kept layout K L C b"
  by (simp add: kept_def ram_ok_def ready_iff current_def upd_bsp_def)

context boot_partition
begin

text \<open>Checking the partition table leaves the disk as it is.\<close>

lemma table_read:
  assumes "capyos_gpt_identity_read (provider_raw_read raw) bs bc d = (gi, d')" and "ok d"
  shows "ok d' \<and> data d' = data d \<and> (\<forall>k. left d' k \<subseteq> left d k)"
proof (rule identity_read_keeps [where reader = "provider_raw_read raw" and P = "\<lambda>e. ok e \<and> data e = data d \<and> (\<forall>k. left e k \<subseteq> left d k)"])
  show "identity_read_mode (provider_raw_read raw) bs bc False d = (gi, d')" using assms(1) by (simp add: capyos_gpt_identity_read_def)
  show "ok d \<and> data d = data d \<and> (\<forall>k. left d k \<subseteq> left d k)" using assms(2) by simp
  fix lba e rc r e'
  assume e: "ok e \<and> data e = data d \<and> (\<forall>k. left e k \<subseteq> left d k)" and rd: "provider_raw_read raw lba e = (rc, r, e')"
  show "ok e' \<and> data e' = data d \<and> (\<forall>k. left e' k \<subseteq> left d k)"
  proof (cases "unat lba < unat (bd_block_count raw)")
    case True
    have "length sector_junk = BOOT_SLOT_STORE_SECTOR_SIZE" by simp
    from device_read [OF rd [unfolded provider_raw_read_def] _ True this] show ?thesis using e by (metis order_trans)
  next
    case False
    then have "bd_block_count raw \<le> lba" by (simp add: word_le_nat_alt)
    then have "e' = e" using rd by (auto simp: provider_raw_read_def block_device_read_def block_device_read_ex_def split: option.splits if_splits)
    then show ?thesis using e by simp
  qed
qed

lemma part_content_pair: "part_content f base (p, d) = (\<lambda>k. f d (unat base + k))"
  by (simp add: part_content_def fun_eq_iff)

lemma kept_disk:
  assumes "kept layout K (part_content left base (p, d)) (part_content data base (p, d)) b" and "data d' = data d" and "\<forall>k. left d' k \<subseteq> left d k"
  shows "kept layout K (part_content left base (p', d')) (part_content data base (p', d')) b"
proof -
  have c: "part_content data base (p', d') = part_content data base (p, d)" using assms(2) by (simp add: part_content_def fun_eq_iff)
  show ?thesis unfolding c by (rule kept_shrink [OF assms(1) part_plan]) (use assms(3) in \<open>simp add: part_content_def\<close>)
qed

lemma register_step:
  assumes "boot_slot_block_provider_init_from_block_device provider raw binding s c = (r, s', c')" and "machine_ok ok data left raw base layout K (s, c)"
    and "db_boot_lba binding = base" and "db_boot_sectors binding = ly_boot_sectors layout"
  shows "machine_ok ok data left raw base layout K (s', c')"
  using assms(1) unfolding boot_slot_block_provider_init_from_block_device_def
proof (cases rule: held_cases)
  case 1
  then show ?thesis using assms(2) by (simp add: machine_ok_def)
next
  case (2 s1)
  obtain p d where c: "c = (p, d)" by fastforce
  have m: "ok d" "lease_ok raw base layout p" "attached layout s" "kept layout K (part_content left base (p, d)) (part_content data base (p, d)) (st_boot s)"
    using assms(2) c by (simp_all add: machine_ok_def part_valid_def)
  have "\<exists>p' d'. c' = (p', d') \<and> lease_ok raw base layout p' \<and> ok d' \<and> data d' = data d \<and> (\<forall>k. left d' k \<subseteq> left d k) \<and>
    s1 = s\<lparr>st_boot := (st_boot s)\<lparr>boot_slot_operation_busy := True\<rparr>\<rparr>"
  proof (cases "c' = c")
    case True
    then show ?thesis using 2(1) c m by (auto split: if_splits prod.splits)
  next
    case False
    obtain rc ep where pi: "provider_init_locked provider raw binding c = (rc, ep, c')"
      and s1: "s1 = s\<lparr>st_boot := (st_boot s)\<lparr>boot_slot_operation_busy := True\<rparr>\<rparr>"
      using 2(1) False by (auto split: if_splits prod.splits)
    let ?p1 = "p\<lparr>pv_epochs := (pv_epochs p)(provider := 0)\<rparr>"
    have l1: "lease_ok raw base layout ?p1" using m(2) by (simp add: lease_ok_def)
    obtain gi d1 where id: "capyos_gpt_identity_read (provider_raw_read raw) (bd_block_size raw) (bd_block_count raw) d = (gi, d1)" by fastforce
    note T = table_read [OF id m(1)]
    show ?thesis
    proof (cases "rc = 0")
      case False
      then have "c' = (?p1, d) \<or> c' = (?p1, d1)"
        using pi \<open>c' \<noteq> c\<close> c unfolding provider_init_locked_def by (auto simp: id Let_def split: if_splits option.splits)
      then show ?thesis using T l1 m(1) s1 by auto
    next
      case True
      then obtain g lay where g: "gi = Some g" "boot_slot_layout_plan (pi_sectors (gi_boot g)) = Some lay" "identity_matches g binding"
        and c': "c' = (?p1\<lparr>pv_registration := Some \<lparr>pg_owner = provider, pg_raw = raw, pg_identity = g, pg_layout = lay,
           pg_epoch = pv_next_registration_epoch ?p1\<rparr>, pv_next_registration_epoch := pv_next_registration_epoch ?p1 + 1,
           pv_epochs := (pv_epochs ?p1)(provider := pv_next_registration_epoch ?p1)\<rparr>, d1)"
        using pi c unfolding provider_init_locked_def by (auto simp: id Let_def BOOT_SLOT_BLOCK_PROVIDER_ERR_def split: if_splits option.splits)
      have "pi_lba (gi_boot g) = base" "pi_sectors (gi_boot g) = ly_boot_sectors layout" using g(3) assms(3,4) by (simp_all add: identity_matches_def)
      moreover from this have "lay = layout" using g(2) part_plan by simp
      ultimately show ?thesis using c' T l1 s1 by (simp add: lease_ok_def)
    qed
  qed
  then obtain p' d' where x: "c' = (p', d')" "lease_ok raw base layout p'" "ok d'" "data d' = data d" "\<forall>k. left d' k \<subseteq> left d k"
    "s1 = s\<lparr>st_boot := (st_boot s)\<lparr>boot_slot_operation_busy := True\<rparr>\<rparr>" by blast
  then show ?thesis using 2(2) m(3) kept_disk [OF m(4) x(4,5), of p'] by (simp add: machine_ok_def part_valid_def)
qed

lemma unregister_step:
  assumes "boot_slot_block_provider_unregister provider epoch s c = (r, s', c')" and "machine_ok ok data left raw base layout K (s, c)"
  shows "machine_ok ok data left raw base layout K (s', c')"
  using assms(1) unfolding boot_slot_block_provider_unregister_def
proof (cases rule: held_cases)
  case 1
  then show ?thesis using assms(2) by (simp add: machine_ok_def)
next
  case (2 s1)
  obtain p d where c: "c = (p, d)" by fastforce
  have "s1 = s\<lparr>st_boot := (st_boot s)\<lparr>boot_slot_operation_busy := True\<rparr>\<rparr> \<and>
    (c' = c \<or> c' = (p\<lparr>pv_registration := None, pv_epochs := (pv_epochs p)(provider := 0)\<rparr>, d))"
    using 2(1) c by (auto split: if_splits option.splits)
  then show ?thesis using 2(2) assms(2) c by (auto simp: machine_ok_def part_valid_def lease_ok_def part_content_pair)
qed

lemma open_step:
  assumes "boot_slot_block_provider_open_store provider epoch store s c = (r, s', c')" and "machine_ok ok data left raw base layout K (s, c)"
  shows "machine_ok ok data left raw base layout K (s', c')"
  using assms(1) unfolding boot_slot_block_provider_open_store_def
proof (cases rule: held_cases)
  case 1
  then show ?thesis using assms(2) by (simp add: machine_ok_def)
next
  case (2 s1)
  let ?s0 = "s\<lparr>st_boot := (st_boot s)\<lparr>boot_slot_operation_busy := True\<rparr>\<rparr>"
  obtain p d where c: "c = (p, d)" by fastforce
  have m: "ok d" "lease_ok raw base layout p" "attached layout s" "kept layout K (part_content left base (p, d)) (part_content data base (p, d)) (st_boot s)"
    using assms(2) c by (simp_all add: machine_ok_def part_valid_def)
  show ?thesis
  proof (cases "s1 = ?s0 \<and> c' = c")
    case True
    then show ?thesis using 2(2) assms(2) by (simp add: machine_ok_def)
  next
    case False
    obtain v p1 d1 where rv: "provider_revalidate_locked provider epoch c = (v, p1, d1)" by (metis prod_cases3)
    have v: "p1 = p" "ok d1 \<and> data d1 = data d \<and> (\<forall>k. left d1 k \<subseteq> left d k)" "v = None \<or> v = pv_registration p"
    proof -
      have "p1 = p \<and> (d1 = d \<or> (\<exists>rg gi. pv_registration p = Some rg \<and>
          capyos_gpt_identity_read (provider_raw_read (pg_raw rg)) (bd_block_size (pg_raw rg)) (bd_block_count (pg_raw rg)) d = (gi, d1))) \<and> (v = None \<or> v = pv_registration p)"
        using rv c by (auto simp: provider_revalidate_locked_def split: option.splits if_splits prod.splits)
      then show "p1 = p" "ok d1 \<and> data d1 = data d \<and> (\<forall>k. left d1 k \<subseteq> left d k)" "v = None \<or> v = pv_registration p"
        using m(1,2) table_read unfolding lease_ok_def by (blast, metis order_refl, blast)
    qed
    have kd: "kept layout K (part_content left base (p', d1)) (part_content data base (p', d1)) (st_boot s)" for p' using kept_disk [OF m(4)] v(2) by blast
    show ?thesis
    proof (cases v)
      case None
      then have "s1 = ?s0" "c' = (p1, d1)" using 2(1) False rv c by (auto simp: Let_def split: if_splits)
      then show ?thesis using 2(2) v m kd by (simp add: machine_ok_def part_valid_def)
    next
      case (Some rg)
      have rg: "pg_raw rg = raw" "pg_layout rg = layout" "pi_lba (gi_boot (pg_identity rg)) = base" "pi_sectors (gi_boot (pg_identity rg)) = ly_boot_sectors layout"
        using v(3) Some m(2) by (auto simp: lease_ok_def)
      let ?e = "pv_next_lease_epoch p"
      let ?s2 = "?s0\<lparr>st_boot := boot_slot_internal_init_locked (st_boot ?s0)\<rparr>"
      let ?lc = "\<lparr>lc_raw = pg_raw rg, lc_layout = pg_layout rg, lc_boot_lba = pi_lba (gi_boot (pg_identity rg)),
        lc_boot_sectors = pi_sectors (gi_boot (pg_identity rg)), lc_registration_epoch = epoch, lc_lease_epoch = ?e, lc_active = False\<rparr>"
      obtain rc s3 where op: "boot_slot_store_internal_open_locked store (pg_layout rg) (Some (unat ?e)) ?e ?s2 = (rc, s3)" by fastforce
      have a3: "attached layout s3" "st_boot s3 = boot_slot_internal_init_locked (st_boot ?s0)"
        using open_locked_attached [OF op [unfolded rg(2)]] m(3) by simp_all
      have k3: "kept layout K (part_content left base (p', d1)) (part_content data base (p', d1)) (st_boot s3)" for p'
        using init_locked_kept [of layout K _ _ "st_boot ?s0"] kd [of p'] a3(2) by simp
      have "s1 = s3\<lparr>st_boot := (upd_bsp (\<lambda>q. q\<lparr>bp_lease_owner := Some store, bp_lease_epoch := ?e\<rparr>) (st_boot s3))\<lparr>boot_slot_phase := BOOT_SLOT_PHASE_LEASED_UNBOUND\<rparr>\<rparr> \<and>
          c' = (p\<lparr>pv_next_lease_epoch := ?e + 1, pv_lease_context := Some (?lc\<lparr>lc_active := True\<rparr>), pv_leased := Some provider, pv_leased_store := Some store, pv_lease_epoch := ?e\<rparr>, d1) \<or>
        s1 = upd_store store (\<lambda>_. store_zeroed) (s3\<lparr>st_boot := (st_boot s3)\<lparr>boot_slot_phase := BOOT_SLOT_PHASE_CLOSED\<rparr>\<rparr>) \<and>
          c' = (p\<lparr>pv_next_lease_epoch := ?e + 1, pv_lease_context := None\<rparr>, d1)"
        using 2(1) False rv c Some v(1) op by (auto simp: Let_def split: if_splits)
      then show ?thesis
      proof (elim disjE conjE)
        assume s1: "s1 = s3\<lparr>st_boot := (upd_bsp (\<lambda>q. q\<lparr>bp_lease_owner := Some store, bp_lease_epoch := ?e\<rparr>) (st_boot s3))\<lparr>boot_slot_phase := BOOT_SLOT_PHASE_LEASED_UNBOUND\<rparr>\<rparr>"
          and c': "c' = (p\<lparr>pv_next_lease_epoch := ?e + 1, pv_lease_context := Some (?lc\<lparr>lc_active := True\<rparr>), pv_leased := Some provider, pv_leased_store := Some store, pv_lease_epoch := ?e\<rparr>, d1)"
        have "kept layout K (part_content left base c') (part_content data base c')
            ((upd_bsp (\<lambda>q. q\<lparr>bp_lease_owner := Some store, bp_lease_epoch := ?e\<rparr>) (st_boot s3))\<lparr>boot_slot_phase := BOOT_SLOT_PHASE_LEASED_UNBOUND\<rparr>)"
          by (rule kept_phase [OF _ refl]) (use k3 c' in simp_all)
        then have "kept layout K (part_content left base c') (part_content data base c') (st_boot s1)" using s1 by simp
        moreover have "lease_ok raw base layout (fst c')" using c' rg m(2) by (simp add: lease_ok_def)
        ultimately show ?thesis using 2(2) s1 c' a3 v(2) by (simp add: machine_ok_def part_valid_def)
      next
        assume s1: "s1 = upd_store store (\<lambda>_. store_zeroed) (s3\<lparr>st_boot := (st_boot s3)\<lparr>boot_slot_phase := BOOT_SLOT_PHASE_CLOSED\<rparr>\<rparr>)"
          and c': "c' = (p\<lparr>pv_next_lease_epoch := ?e + 1, pv_lease_context := None\<rparr>, d1)"
        have "kept layout K (part_content left base c') (part_content data base c') ((st_boot s3)\<lparr>boot_slot_phase := BOOT_SLOT_PHASE_CLOSED\<rparr>)"
          by (rule kept_phase [OF _ refl]) (use k3 c' in simp_all)
        then have "kept layout K (part_content left base c') (part_content data base c') (st_boot s1)" using s1 by (simp add: upd_store_def)
        moreover have "attached layout s1" using a3(1) s1 by (simp add: attached_def upd_store_def store_zeroed_def)
        moreover have "lease_ok raw base layout (fst c')" using c' m(2) by (simp add: lease_ok_def)
        ultimately show ?thesis using 2(2) c' v(2) by (simp add: machine_ok_def part_valid_def)
      qed
    qed
  qed
qed

lemma close_step:
  assumes "boot_slot_block_provider_close_store provider epoch store lease s c = (r, s', c')" and "machine_ok ok data left raw base layout K (s, c)"
  shows "machine_ok ok data left raw base layout K (s', c')"
  using assms(1) unfolding boot_slot_block_provider_close_store_def
proof (cases rule: held_cases)
  case 1
  then show ?thesis using assms(2) by (simp add: machine_ok_def)
next
  case (2 s1)
  let ?s0 = "s\<lparr>st_boot := (st_boot s)\<lparr>boot_slot_operation_busy := True\<rparr>\<rparr>"
  obtain p d where c: "c = (p, d)" by fastforce
  have m: "ok d" "lease_ok raw base layout p" "attached layout s" "kept layout K (part_content left base (p, d)) (part_content data base (p, d)) (st_boot s)"
    using assms(2) c by (simp_all add: machine_ok_def part_valid_def)
  show ?thesis
  proof (cases "s1 = ?s0 \<and> c' = c")
    case True
    then show ?thesis using 2(2) assms(2) by (simp add: machine_ok_def)
  next
    case False
    then obtain rg lc where o: "pv_registration p = Some rg" "pv_lease_context p = Some lc" using 2(1) c by (auto simp: Let_def split: option.splits)
    let ?s2 = "?s0\<lparr>st_boot := boot_slot_internal_init_locked (st_boot ?s0)\<rparr>"
    obtain rc s3 where rv: "boot_slot_store_internal_revoke_locked store lease ?s2 = (rc, s3)" by fastforce
    have a3: "attached layout s3" "st_boot s3 = boot_slot_internal_init_locked (st_boot ?s0)" using revoke_locked_attached [OF rv] m(3) by simp_all
    have k3: "kept layout K (part_content left base (p', d)) (part_content data base (p', d)) (st_boot s3)" for p'
    proof -
      have e: "part_content left base (p', d) = part_content left base (p, d)" "part_content data base (p', d) = part_content data base (p, d)"
        by (simp_all add: part_content_def fun_eq_iff)
      show ?thesis unfolding e a3(2) by (rule init_locked_kept) (use m(4) in simp)
    qed
    let ?p1 = "p\<lparr>pv_lease_context := Some (lc\<lparr>lc_active := False\<rparr>), pv_lease_epoch := 0\<rparr>"
    let ?p2 = "?p1\<lparr>pv_leased := None, pv_leased_store := None, pv_lease_epoch := 0, pv_lease_context := None\<rparr>"
    let ?b2 = "(upd_bsp (\<lambda>q. q\<lparr>bp_lease_owner := None, bp_lease_epoch := 0\<rparr>) (st_boot s3))\<lparr>boot_slot_phase := BOOT_SLOT_PHASE_CLOSED\<rparr>"
    have l: "lease_ok raw base layout ?p1" "lease_ok raw base layout ?p2" using m(2) o(2) by (simp_all add: lease_ok_def)
    have res: "s1 = s3\<lparr>st_boot := ?b2\<rparr> \<and> c' = (?p2, d) \<or> s1 = s3 \<and> c' = (?p1, d)"
      using 2(1) False c o rv by (auto simp: Let_def split: if_splits)
    have "kept layout K (part_content left base (?p2, d)) (part_content data base (?p2, d)) ?b2"
      by (rule kept_phase [OF _ refl]) (use k3 in simp_all)
    then show ?thesis using res 2(2) a3(1) k3 l m(1) by (auto simp: machine_ok_def part_valid_def)
  qed
qed

end

context boot_partition
begin

lemma step_ok:
  assumes "machine_step confirms efi raw base layout (power_cycle ok data left) sc sc'" and "machine_ok ok data left raw base layout K sc"
    and "confirms \<Longrightarrow> K = UNIV"
  shows "machine_ok ok data left raw base layout K sc'"
  using assms
proof (induction rule: machine_step.induct)
  case (start s rc b c)
  then show ?case using slot_init_kept by (auto simp: machine_ok_def)
next
  case (open_loader s store rc s' c)
  obtain x where "attached layout s'" "st_boot s' = (st_boot s)\<lparr>boot_slot_operation_busy := x\<rparr>"
    using store_init_kept [OF open_loader.hyps(2)] open_loader.prems(1) by (auto simp: machine_ok_def)
  then show ?case using open_loader.prems(1) by (simp add: machine_ok_def)
next
  case (register binding provider s c r s' c')
  show ?case by (rule register_step [OF register.hyps(3) register.prems(1) register.hyps(1,2)])
next
  case (unregister provider epoch s c r s' c')
  show ?case by (rule unregister_step [OF unregister.hyps unregister.prems(1)])
next
  case (open_lease provider epoch store s c r s' c')
  show ?case by (rule open_step [OF open_lease.hyps open_lease.prems(1)])
next
  case (close_lease provider epoch store lease s c r s' c')
  show ?case by (rule close_step [OF close_lease.hyps close_lease.prems(1)])
next
  case (bind store lease s c rc s' c')
  show ?case using medium.bind_op [OF bind.hyps machine_okD [OF bind.prems(1)]] machine_okI by blast
next
  case (initialize store lease img s c rc s' c')
  then show ?case using medium.initialize_op [OF initialize.hyps machine_okD(3) [OF initialize.prems(1)]] by (auto simp: machine_ok_def)
next
  case (stage img store lease expected slot payload s c r s' c')
  obtain rc g where "r = (rc, g)" by fastforce
  from medium.stage_op [OF stage.hyps(2) [unfolded this] machine_okD [OF stage.prems(1)] stage.hyps(1)] show ?case using machine_okI by blast
next
  case (arm store lease slot g s c r s' c')
  obtain rc g' where "r = (rc, g')" by fastforce
  from medium.arm_op [OF arm.hyps [unfolded this] machine_okD [OF arm.prems(1)]] show ?case using machine_okI by blast
next
  case (header store lease slot s c r s' c')
  show ?case using medium.read_header_op [OF header.hyps machine_okD [OF header.prems(1)]] machine_okI by blast
next
  case (select s c r s' c')
  obtain rc slot g where "r = (rc, slot, g)" by (metis prod_cases3)
  from medium.select_op [OF select.hyps [unfolded this] machine_okD [OF select.prems(1)]] show ?case using machine_okI by blast
next
  case (activate s slot c rc s' c')
  show ?case using medium.activate_op [OF activate.hyps machine_okD [OF activate.prems(1)]] machine_okI by blast
next
  case (rollback s c rc s' c')
  show ?case using medium.rollback_op [OF rollback.hyps machine_okD [OF rollback.prems(1)]] machine_okI by blast
next
  case (confirm store lease slot g s c rc s' c')
  have "\<forall>p. ((slot, slot_image (slot_at (bsm (st_boot s)) slot)), p) \<in> K" using confirm.prems(2) confirm.hyps(1) by simp
  from medium.confirm_op [OF confirm.hyps(2) machine_okD [OF confirm.prems(1)] this] show ?case using machine_okI by blast
next
  case (power_failure d d' s p loader)
  have "ok d'" "\<forall>k. left d' k \<subseteq> left d k" using power_failure.hyps by (auto simp: power_cycle_def)
  moreover have "sound layout K (part_content left base (p, d))" using power_failure.prems(1) keptD(1) by (auto simp: machine_ok_def)
  ultimately have "sound layout K (part_content left base (provider_start, d'))"
    using sound_shrink [OF _ part_plan, of K _ "part_content left base (provider_start, d')"] by (simp add: part_content_def)
  then show ?case using \<open>ok d'\<close> start_not_ready by (simp add: machine_ok_def part_valid_def lease_ok_def provider_start_def)
qed

lemma run_ok:
  assumes "(machine_step confirms efi raw base layout (power_cycle ok data left))\<^sup>*\<^sup>* sc sc'" and "machine_ok ok data left raw base layout K sc"
    and "confirms \<Longrightarrow> K = UNIV"
  shows "machine_ok ok data left raw base layout K sc'"
  using assms(1)
proof (induction rule: rtranclp_induct)
  case base
  show ?case by (rule assms(2))
next
  case (step y z)
  show ?case by (rule step_ok [OF step.hyps(2) step.IH assms(3)])
qed

end

subsection \<open>Durability\<close>

text \<open>There is only one newer copy.\<close>

lemma current_unique:
  assumes "current layout C b" and "current layout C b'" and "bp_active_copy (bsp b) < 2" and "bp_active_copy (bsp b') < 2"
  shows "bsm b' = bsm b \<and> bp_generation (bsp b') = bp_generation (bsp b)"
proof (cases "bp_active_copy (bsp b') = bp_active_copy (bsp b)")
  case True
  then show ?thesis using assms(1,2) by (simp add: current_def)
next
  case False
  then have x: "bp_active_copy (bsp b') = bp_active_copy (bsp b) XOR 1" using two_slots [OF assms(3,4)] by simp
  obtain m g where 1: "usable layout (C (copy_lba layout (bp_active_copy (bsp b) XOR 1))) = Some (m, g)" "g < bp_generation (bsp b)"
    using assms(1) by (auto simp: current_def)
  obtain m' g' where 2: "usable layout (C (copy_lba layout (bp_active_copy (bsp b)))) = Some (m', g')" "g' < bp_generation (bsp b')"
    using assms(2) x xor_twice by (auto simp: current_def)
  have "g = bp_generation (bsp b')" "g' = bp_generation (bsp b)" using 1(1) 2(1) assms(1,2) x by (simp_all add: current_def)
  then show ?thesis using 1(2) 2(2) by (meson less_asym)
qed

lemma current_cong: "\<forall>i\<in>{0, 1}. C' (copy_lba layout i) = C (copy_lba layout i) \<Longrightarrow> bp_active_copy (bsp b) < 2 \<Longrightarrow> current layout C' b = current layout C b"
  unfolding current_def lt_two by auto

context boot_partition
begin

text \<open>After a flush, a power failure changes nothing: whoever binds the medium next finds the manager and generation that were in memory.\<close>

lemma bind_after_power_failure:
  assumes "machine_ok ok data left raw base layout K (s, p, d)" and "boot_slot_internal_persistence_ready_locked (st_boot s)"
    and "flushed layout (part_content left base (p, d)) (part_content data base (p, d))" and "power_cycle ok data left d d1"
    and "machine_ok ok data left raw base layout K' (s1, p1, d2)" and "data d2 = data d1"
    and "boot_slot_store_bind_control (machine_io efi) store lease s1 (p1, d2) = (0, s2, c2)"
  shows "bsm (st_boot s2) = bsm (st_boot s) \<and> bp_generation (bsp (st_boot s2)) = bp_generation (bsp (st_boot s)) \<and>
    boot_slot_internal_persistence_ready_locked (st_boot s2)"
proof -
  have m1: "part_valid ok raw base layout (p1, d2)" "attached layout s1"
    "kept layout K' (part_content left base (p1, d2)) (part_content data base (p1, d2)) (st_boot s1)" using assms(5) by (simp_all add: machine_ok_def)
  note B = medium.bind_op [OF assms(7) m1]
  have r2: "boot_slot_internal_persistence_ready_locked (st_boot s2)" using B by simp
  have k2: "kept layout K' (part_content left base c2) (part_content data base c2) (st_boot s2)" using B by blast
  have k: "kept layout K (part_content left base (p, d)) (part_content data base (p, d)) (st_boot s)" using assms(1) by (simp add: machine_ok_def)
  have same: "part_content data base c2 (copy_lba layout i) = part_content data base (p, d) (copy_lba layout i)" if "i \<in> {0, 1}" for i
  proof -
    have "i < 2" using that by (auto simp: lt_two)
    then have "copy_lba layout i < unat (ly_boot_sectors layout)" using medium.copy_bound by (simp add: copy_lba_def)
    then have l: "left d (unat base + copy_lba layout i) \<subseteq> {data d (unat base + copy_lba layout i)}"
      using assms(3) by (simp add: flushed_def part_content_def)
    have "part_content data base c2 (copy_lba layout i) = data d2 (unat base + copy_lba layout i)" using B by (simp add: part_content_def)
    also have "\<dots> = data d1 (unat base + copy_lba layout i)" using assms(6) by simp
    also have "\<dots> = data d (unat base + copy_lba layout i)" using assms(4) l by (auto simp: power_cycle_def)
    finally show ?thesis by (simp add: part_content_def)
  qed
  have c: "current layout (part_content data base (p, d)) (st_boot s)" and a: "bp_active_copy (bsp (st_boot s)) < 2"
    using keptD(4,7) [OF k assms(2)] by auto
  have c2: "current layout (part_content data base c2) (st_boot s2)" and a2: "bp_active_copy (bsp (st_boot s2)) < 2"
    using keptD(4,7) [OF k2 r2] by auto
  have "current layout (part_content data base c2) (st_boot s)" using current_cong [OF _ a] same c by blast
  then show ?thesis using current_unique [OF _ c2 a a2] r2 by blast
qed

end

end
