(* ===== verification/BootEfi.thy ===== *)
theory BootEfi
  imports BootDisk
begin

text \<open>
  Block access of the boot loader: the helpers of \<^verbatim>\<open>boot/uefi_loader/recovery_gpt_layout.c\<close> around the firmware's
  block protocol, and the callbacks that \<^verbatim>\<open>kernel_discovery_streaming.c\<close> gives to the boot slot store. The firmware is
  a record of functions on the state of the machine: what the medium reports now, the three transfers, and the memory pool. A null
  function is \<open>None\<close>; the protocol itself is not null. A buffer is its address, which decides whether the transfer
  goes through an aligned copy, and its bytes. The contract \<open>efi_disk\<close> says what the transfers do to the disk; with it the callbacks satisfy the
  firmware laws of \<open>boot_partition\<close>.
\<close>

subsection \<open>Status codes\<close>

text \<open>The values of the UEFI specification; the headers that define them come with the tool chain.\<close>

definition EFIERR :: "u64 \<Rightarrow> u64" where "EFIERR a = 0x8000000000000000 OR a"
definition EFI_ERROR :: "u64 \<Rightarrow> bool" where "EFI_ERROR status \<longleftrightarrow> bit status 63"
definition EFI_SUCCESS :: u64 where "EFI_SUCCESS = 0"
definition EFI_LOAD_ERROR :: u64 where "EFI_LOAD_ERROR = EFIERR 1"
definition EFI_INVALID_PARAMETER :: u64 where "EFI_INVALID_PARAMETER = EFIERR 2"
definition EFI_UNSUPPORTED :: u64 where "EFI_UNSUPPORTED = EFIERR 3"
definition EFI_OUT_OF_RESOURCES :: u64 where "EFI_OUT_OF_RESOURCES = EFIERR 9"
definition EFI_MEDIA_CHANGED :: u64 where "EFI_MEDIA_CHANGED = EFIERR 13"
definition EFI_SECURITY_VIOLATION :: u64 where "EFI_SECURITY_VIOLATION = EFIERR 26"
definition EFI_CRC_ERROR :: u64 where "EFI_CRC_ERROR = EFIERR 27"
definition EFI_COMPROMISED_DATA :: u64 where "EFI_COMPROMISED_DATA = EFIERR 33"

lemma efi_error_code [simp]: "EFI_ERROR (EFIERR a)" "\<not> EFI_ERROR EFI_SUCCESS" "\<not> EFI_ERROR 0"
  by (simp_all add: EFI_ERROR_def EFIERR_def EFI_SUCCESS_def bit_simps)

lemmas efi_codes = EFI_LOAD_ERROR_def EFI_INVALID_PARAMETER_def EFI_UNSUPPORTED_def EFI_OUT_OF_RESOURCES_def EFI_MEDIA_CHANGED_def
  EFI_SECURITY_VIOLATION_def EFI_CRC_ERROR_def EFI_COMPROMISED_DATA_def

subsection \<open>Transfers\<close>

record efi_media =
  md_MediaId :: u32
  md_BlockSize :: u32
  md_LastBlock :: u64
  md_IoAlign :: u32

record 'd EFI_BLOCK_IO_PROTOCOL =
  bio_Media :: "'d \<Rightarrow> efi_media option"
  bio_ReadBlocks :: "(u32 \<Rightarrow> u64 \<Rightarrow> u64 \<Rightarrow> u64 \<Rightarrow> 'd \<Rightarrow> u64 \<times> u8 list \<times> 'd) option"
  bio_WriteBlocks :: "(u32 \<Rightarrow> u64 \<Rightarrow> u64 \<Rightarrow> u64 \<Rightarrow> u8 list \<Rightarrow> 'd \<Rightarrow> u64 \<times> 'd) option"
  bio_FlushBlocks :: "('d \<Rightarrow> u64 \<times> 'd) option"
  bio_AllocatePool :: "u64 \<Rightarrow> 'd \<Rightarrow> u64 \<times> 'd"
  bio_FreePool :: "u64 \<Rightarrow> 'd \<Rightarrow> 'd"

definition installer_disk_io_alignment_valid :: "u32 \<Rightarrow> bool" where
  "installer_disk_io_alignment_valid alignment \<longleftrightarrow> alignment \<le> 1 \<or> alignment AND (alignment - 1) = 0"

definition uefi_block_io_alignment :: "'d EFI_BLOCK_IO_PROTOCOL \<Rightarrow> 'd \<Rightarrow> u64 + u64" where
  "uefi_block_io_alignment bio d =
     (case bio_Media bio d of None \<Rightarrow> Inl EFI_INVALID_PARAMETER
      | Some md \<Rightarrow>
          if \<not> installer_disk_io_alignment_valid (md_IoAlign md) then Inl EFI_INVALID_PARAMETER
          else Inr (if md_IoAlign md \<le> 1 then 1 else ucast (md_IoAlign md)))"

text \<open>An error, or the address to free and the address to use.\<close>

definition uefi_block_io_allocate_aligned :: "'d EFI_BLOCK_IO_PROTOCOL \<Rightarrow> u64 \<Rightarrow> 'd \<Rightarrow> (u64 + u64 \<times> u64) \<times> 'd" where
  "uefi_block_io_allocate_aligned bio bytes d =
     (if bytes = 0 then (Inl EFI_INVALID_PARAMETER, d)
      else case uefi_block_io_alignment bio d of Inl status \<Rightarrow> (Inl status, d)
      | Inr alignment \<Rightarrow>
          (let extra = alignment - 1
           in if bytes > UINT64_MAX - extra then (Inl EFI_OUT_OF_RESOURCES, d)
              else (let (allocation, d1) = bio_AllocatePool bio (bytes + extra) d
                    in if allocation = 0 then (Inl EFI_OUT_OF_RESOURCES, d1)
                       else (Inr (allocation, (allocation + extra) AND NOT extra), d1))))"

definition uefi_block_io_transfer_valid :: "'d EFI_BLOCK_IO_PROTOCOL \<Rightarrow> u64 \<Rightarrow> u64 \<Rightarrow> 'd \<Rightarrow> u64 + u64" where
  "uefi_block_io_transfer_valid bio lba bytes d =
     (case (uefi_block_io_alignment bio d, bio_Media bio d) of
        (Inr alignment, Some md) \<Rightarrow>
          if md_BlockSize md = 0 \<or> bytes = 0 \<or> bytes mod ucast (md_BlockSize md) \<noteq> 0 then Inl EFI_INVALID_PARAMETER
          else (let blocks = bytes div ucast (md_BlockSize md)
                in if blocks = 0 \<or> lba > md_LastBlock md \<or> blocks - 1 > md_LastBlock md - lba then Inl EFI_INVALID_PARAMETER else Inr alignment)
      | _ \<Rightarrow> Inl EFI_INVALID_PARAMETER)"

definition uefi_block_io_read ::
  "'d EFI_BLOCK_IO_PROTOCOL \<Rightarrow> u32 \<Rightarrow> u64 \<Rightarrow> u64 \<Rightarrow> u64 \<Rightarrow> u8 list \<Rightarrow> 'd \<Rightarrow> u64 \<times> u8 list \<times> 'd" where
  "uefi_block_io_read bio expected_media_id lba bytes address buffer d =
     (case bio_ReadBlocks bio of None \<Rightarrow> (EFI_INVALID_PARAMETER, buffer, d)
      | Some ReadBlocks \<Rightarrow>
          if (case bio_Media bio d of None \<Rightarrow> True | Some md \<Rightarrow> md_MediaId md \<noteq> expected_media_id) then (EFI_MEDIA_CHANGED, buffer, d)
          else case uefi_block_io_transfer_valid bio lba bytes d of Inl status \<Rightarrow> (status, buffer, d)
          | Inr alignment \<Rightarrow>
              if address AND (alignment - 1) = 0 then ReadBlocks expected_media_id lba bytes address d
              else case uefi_block_io_allocate_aligned bio bytes d of (Inl status, d1) \<Rightarrow> (status, buffer, d1)
              | (Inr (allocation, aligned), d1) \<Rightarrow>
                  (let (status, r, d2) = ReadBlocks expected_media_id lba bytes aligned d1
                   in (status, if EFI_ERROR status then buffer else r, bio_FreePool bio allocation d2)))"

definition uefi_block_io_write ::
  "'d EFI_BLOCK_IO_PROTOCOL \<Rightarrow> u32 \<Rightarrow> u64 \<Rightarrow> u64 \<Rightarrow> u64 \<Rightarrow> u8 list \<Rightarrow> 'd \<Rightarrow> u64 \<times> 'd" where
  "uefi_block_io_write bio expected_media_id lba bytes address buffer d =
     (case bio_WriteBlocks bio of None \<Rightarrow> (EFI_INVALID_PARAMETER, d)
      | Some WriteBlocks \<Rightarrow>
          if (case bio_Media bio d of None \<Rightarrow> True | Some md \<Rightarrow> md_MediaId md \<noteq> expected_media_id) then (EFI_MEDIA_CHANGED, d)
          else case uefi_block_io_transfer_valid bio lba bytes d of Inl status \<Rightarrow> (status, d)
          | Inr alignment \<Rightarrow>
              if address AND (alignment - 1) = 0 then WriteBlocks expected_media_id lba bytes address buffer d
              else case uefi_block_io_allocate_aligned bio bytes d of (Inl status, d1) \<Rightarrow> (status, d1)
              | (Inr (allocation, aligned), d1) \<Rightarrow>
                  (let (status, d2) = WriteBlocks expected_media_id lba bytes aligned buffer d1
                   in (status, bio_FreePool bio allocation d2)))"

definition uefi_block_io_flush :: "'d EFI_BLOCK_IO_PROTOCOL \<Rightarrow> u32 \<Rightarrow> 'd \<Rightarrow> u64 \<times> 'd" where
  "uefi_block_io_flush bio expected_media_id d =
     (case (bio_Media bio d, bio_FlushBlocks bio) of
        (Some md, Some FlushBlocks) \<Rightarrow> if md_MediaId md \<noteq> expected_media_id then (EFI_MEDIA_CHANGED, d) else FlushBlocks d
      | _ \<Rightarrow> (EFI_INVALID_PARAMETER, d))"

subsection \<open>The callbacks of the store\<close>

record 'd uefi_boot_store_context =
  ctx_bio :: "'d EFI_BLOCK_IO_PROTOCOL"
  ctx_media_id :: u32
  ctx_boot_lba :: u64
  ctx_boot_sectors :: u32

text \<open>\<open>at\<close> is where the caller's sector buffer lies.\<close>

definition uefi_boot_store_read :: "'d uefi_boot_store_context \<Rightarrow> ('d \<Rightarrow> u64) \<Rightarrow> u32 \<Rightarrow> 'd \<Rightarrow> int \<times> u8 list \<times> 'd" where
  "uefi_boot_store_read ctx at lba d =
     (if lba \<ge> ctx_boot_sectors ctx \<or> ctx_boot_lba ctx > UINT64_MAX - ucast lba then (-1, sector_junk, d)
      else (let (status, r, d1) = uefi_block_io_read (ctx_bio ctx) (ctx_media_id ctx) (ctx_boot_lba ctx + ucast lba) 512 (at d) sector_junk d
            in (if EFI_ERROR status then -1 else 0, r, d1)))"

definition uefi_boot_store_write :: "'d uefi_boot_store_context \<Rightarrow> ('d \<Rightarrow> u64) \<Rightarrow> u32 \<Rightarrow> u8 list \<Rightarrow> 'd \<Rightarrow> int \<times> 'd" where
  "uefi_boot_store_write ctx at lba sector d =
     (if lba \<ge> ctx_boot_sectors ctx \<or> ctx_boot_lba ctx > UINT64_MAX - ucast lba then (-1, d)
      else (let (status, d1) = uefi_block_io_write (ctx_bio ctx) (ctx_media_id ctx) (ctx_boot_lba ctx + ucast lba) 512 (at d) sector d
            in (if EFI_ERROR status then -1 else 0, d1)))"

definition uefi_boot_store_flush :: "'d uefi_boot_store_context \<Rightarrow> 'd \<Rightarrow> int \<times> 'd" where
  "uefi_boot_store_flush ctx d =
     (let (status, d1) = uefi_block_io_flush (ctx_bio ctx) (ctx_media_id ctx) d in (if EFI_ERROR status then -1 else 0, d1))"

definition uefi_io :: "'d uefi_boot_store_context \<Rightarrow> ('d \<Rightarrow> u64) \<Rightarrow> 'd sector_io" where
  "uefi_io ctx at = \<lparr>sec_read = uefi_boot_store_read ctx at, sec_write = uefi_boot_store_write ctx at, sec_flush = uefi_boot_store_flush ctx\<rparr>"

subsection \<open>The contract with the firmware\<close>

text \<open>Transfers of \<open>n\<close> sectors of 512 bytes within the first \<open>blocks\<close> sectors of the disk, and a pool that is not on the disk.\<close>

locale efi_disk =
  fixes bio :: "'d EFI_BLOCK_IO_PROTOCOL"
    and ok :: "'d \<Rightarrow> bool"
    and data :: "'d \<Rightarrow> nat \<Rightarrow> u8 list"
    and left :: "'d \<Rightarrow> leftovers"
    and blocks :: nat
  assumes efi_sectors: "ok d \<Longrightarrow> k < blocks \<Longrightarrow> length (data d k) = 512"
    and efi_last: "ok d \<Longrightarrow> bio_Media bio d = Some md \<Longrightarrow> md_BlockSize md = 512 \<and> unat (md_LastBlock md) < blocks"
    and efi_read_blocks: "ok d \<Longrightarrow> unat lba + n \<le> blocks \<Longrightarrow> unat bytes = 512 * n \<Longrightarrow> bio_ReadBlocks bio = Some f \<Longrightarrow>
      f media lba bytes address d = (status, r, d') \<Longrightarrow>
      ok d' \<and> data d' = data d \<and> (\<forall>k. left d' k \<subseteq> left d k) \<and>
      (\<not> EFI_ERROR status \<longrightarrow> r = concat (map (\<lambda>i. data d (unat lba + i)) [0..<n]))"
    and efi_write_blocks: "ok d \<Longrightarrow> unat lba + n \<le> blocks \<Longrightarrow> unat bytes = 512 * n \<Longrightarrow> length buffer = 512 * n \<Longrightarrow> bio_WriteBlocks bio = Some g \<Longrightarrow>
      g media lba bytes address buffer d = (status, d') \<Longrightarrow>
      ok d' \<and> (\<forall>k. k < unat lba \<or> unat lba + n \<le> k \<longrightarrow> data d' k = data d k \<and> left d' k \<subseteq> left d k) \<and>
      (\<forall>i<n. left d' (unat lba + i) \<subseteq> insert (take 512 (drop (512 * i) buffer)) (left d (unat lba + i)) \<and>
        (\<not> EFI_ERROR status \<longrightarrow> data d' (unat lba + i) = take 512 (drop (512 * i) buffer)))"
    and efi_flush_blocks: "ok d \<Longrightarrow> bio_FlushBlocks bio = Some h \<Longrightarrow> h d = (status, d') \<Longrightarrow>
      ok d' \<and> data d' = data d \<and> (\<forall>k. left d' k \<subseteq> left d k) \<and> (\<not> EFI_ERROR status \<longrightarrow> (\<forall>k<blocks. left d' k \<subseteq> {data d k}))"
    and efi_allocate: "ok d \<Longrightarrow> bio_AllocatePool bio bytes d = (address, d') \<Longrightarrow> ok d' \<and> data d' = data d \<and> left d' = left d"
    and efi_free: "ok d \<Longrightarrow> ok (bio_FreePool bio address d) \<and> data (bio_FreePool bio address d) = data d \<and> left (bio_FreePool bio address d) = left d"
begin

lemma allocate_aligned:
  assumes "uefi_block_io_allocate_aligned bio bytes d = (r, d')" and "ok d"
  shows "ok d' \<and> data d' = data d \<and> left d' = left d"
  using assms efi_allocate [OF assms(2)]
  by (auto simp: uefi_block_io_allocate_aligned_def Let_def split: if_splits sum.splits prod.splits)

lemma block_read:
  assumes "uefi_block_io_read bio media lba bytes address buffer d = (status, r, d')" and "ok d"
    and "unat lba + n \<le> blocks" and "unat bytes = 512 * n"
  shows "ok d' \<and> data d' = data d \<and> (\<forall>k. left d' k \<subseteq> left d k) \<and>
    (\<not> EFI_ERROR status \<longrightarrow> r = concat (map (\<lambda>i. data d (unat lba + i)) [0..<n]))"
proof (cases "EFI_ERROR status \<and> d' = d")
  case True
  then show ?thesis using assms(2) by simp
next
  case False
  then obtain f al where f: "bio_ReadBlocks bio = Some f" "uefi_block_io_transfer_valid bio lba bytes d = Inr al"
    and res: "(if address AND (al - 1) = 0 then f media lba bytes address d
      else case uefi_block_io_allocate_aligned bio bytes d of (Inl status, d1) \<Rightarrow> (status, buffer, d1)
        | (Inr (allocation, aligned), d1) \<Rightarrow>
            (let (status, r, d2) = f media lba bytes aligned d1
             in (status, if EFI_ERROR status then buffer else r, bio_FreePool bio allocation d2))) = (status, r, d')"
    using assms(1) by (auto simp: uefi_block_io_read_def uefi_block_io_transfer_valid_def Let_def efi_codes split: option.splits sum.splits if_splits)
  note R = efi_read_blocks [OF _ assms(3,4) f(1)]
  show ?thesis
  proof (cases "address AND (al - 1) = 0")
    case True
    then show ?thesis using R [OF assms(2)] res by simp
  next
    case False
    obtain a d1 where al: "uefi_block_io_allocate_aligned bio bytes d = (a, d1)" by fastforce
    note A = allocate_aligned [OF al assms(2)]
    show ?thesis
    proof (cases a)
      case (Inl st)
      then have "EFI_ERROR status"
        using res al False by (auto simp: uefi_block_io_allocate_aligned_def uefi_block_io_alignment_def efi_codes Let_def split: if_splits sum.splits prod.splits option.splits)
      then show ?thesis using res al False Inl A by simp
    next
      case (Inr p)
      obtain allocation aligned where p: "p = (allocation, aligned)" by fastforce
      obtain st1 r1 d2 where rd: "f media lba bytes aligned d1 = (st1, r1, d2)" by (metis prod_cases3)
      have "status = st1" "d' = bio_FreePool bio allocation d2" "\<not> EFI_ERROR st1 \<longrightarrow> r = r1"
        using res al False Inr p rd by auto
      then show ?thesis using R [OF _ rd] A efi_free [of d2 allocation] by (simp add: Let_def)
    qed
  qed
qed

end

context efi_disk
begin

lemma block_write:
  assumes "uefi_block_io_write bio media lba bytes address buffer d = (status, d')" and "ok d"
    and "unat lba + n \<le> blocks" and "unat bytes = 512 * n" and "length buffer = 512 * n"
  shows "ok d' \<and> (\<forall>k. k < unat lba \<or> unat lba + n \<le> k \<longrightarrow> data d' k = data d k \<and> left d' k \<subseteq> left d k) \<and>
    (\<forall>i<n. left d' (unat lba + i) \<subseteq> insert (take 512 (drop (512 * i) buffer)) (left d (unat lba + i)) \<and>
      (\<not> EFI_ERROR status \<longrightarrow> data d' (unat lba + i) = take 512 (drop (512 * i) buffer)))"
proof (cases "EFI_ERROR status \<and> d' = d")
  case True
  then show ?thesis using assms(2) by auto
next
  case False
  then obtain g al where g: "bio_WriteBlocks bio = Some g" "uefi_block_io_transfer_valid bio lba bytes d = Inr al"
    and res: "(if address AND (al - 1) = 0 then g media lba bytes address buffer d
      else case uefi_block_io_allocate_aligned bio bytes d of (Inl status, d1) \<Rightarrow> (status, d1)
        | (Inr (allocation, aligned), d1) \<Rightarrow>
            (let (status, d2) = g media lba bytes aligned buffer d1 in (status, bio_FreePool bio allocation d2))) = (status, d')"
    using assms(1) by (auto simp: uefi_block_io_write_def uefi_block_io_transfer_valid_def Let_def efi_codes split: option.splits sum.splits if_splits)
  note W = efi_write_blocks [OF _ assms(3-5) g(1)]
  show ?thesis
  proof (cases "address AND (al - 1) = 0")
    case True
    then show ?thesis using W [OF assms(2)] res by simp
  next
    case False
    obtain a d1 where al: "uefi_block_io_allocate_aligned bio bytes d = (a, d1)" by fastforce
    note A = allocate_aligned [OF al assms(2)]
    show ?thesis
    proof (cases a)
      case (Inl st)
      then have "EFI_ERROR status"
        using res al False by (auto simp: uefi_block_io_allocate_aligned_def uefi_block_io_alignment_def efi_codes Let_def split: if_splits sum.splits prod.splits option.splits)
      then show ?thesis using res al False Inl A by auto
    next
      case (Inr p)
      obtain allocation aligned where p: "p = (allocation, aligned)" by fastforce
      obtain st1 d2 where wr: "g media lba bytes aligned buffer d1 = (st1, d2)" by fastforce
      have "status = st1" "d' = bio_FreePool bio allocation d2" using res al False Inr p wr by auto
      then show ?thesis using W [OF _ wr] A efi_free [of d2 allocation] by simp
    qed
  qed
qed

lemma block_flush:
  assumes "uefi_block_io_flush bio media d = (status, d')" and "ok d"
  shows "ok d' \<and> data d' = data d \<and> (\<forall>k. left d' k \<subseteq> left d k) \<and> (\<not> EFI_ERROR status \<longrightarrow> (\<forall>k<blocks. left d' k \<subseteq> {data d k}))"
  using assms efi_flush_blocks [OF assms(2)]
  by (auto simp: uefi_block_io_flush_def efi_codes split: option.splits if_splits)

end

text \<open>A disk that the kernel's driver and the firmware agree on: the callbacks of the loader are those of a partition.\<close>

lemma efi_partition:
  assumes "raw_disk raw ok data left" and "efi_disk bio ok data left (unat (bd_block_count raw))"
    and "boot_slot_layout_plan (ly_boot_sectors layout) = Some layout" and "unat base + unat (ly_boot_sectors layout) \<le> unat (bd_block_count raw)"
    and "ctx = \<lparr>ctx_bio = bio, ctx_media_id = media, ctx_boot_lba = ucast base, ctx_boot_sectors = ly_boot_sectors layout\<rparr>"
  shows "boot_partition raw ok data left base layout (uefi_io ctx at)"
proof (intro boot_partition.intro boot_partition_axioms.intro assms(1,3,4))
  have at_lba: "unat (ucast base + ucast lba :: u64) = unat base + unat lba" "unat base + unat lba + 1 \<le> unat (bd_block_count raw)"
    if "unat lba < unat (ly_boot_sectors layout)" for lba :: u32
  proof -
    have "unat base + unat lba < unat (bd_block_count raw)" using that assms(4) by linarith
    moreover have "unat (bd_block_count raw) < 2 ^ LENGTH(32)" by (rule unsigned_less)
    ultimately have "unat base + unat lba < 2 ^ LENGTH(64)" by simp
    moreover have "unat (ucast base :: u64) = unat base" "unat (ucast lba :: u64) = unat lba" by (simp_all add: unat_up)
    ultimately show "unat (ucast base + ucast lba :: u64) = unat base + unat lba" by (simp add: unat_word_ariths)
    show "unat base + unat lba + 1 \<le> unat (bd_block_count raw)" using that assms(4) by linarith
  qed
  have one: "unat (512 :: u64) = 512 * 1" by simp
  fix d lba rc r d' b
  assume o: "ok d"
  { assume l: "unat lba < unat (ly_boot_sectors layout)" and r: "sec_read (uefi_io ctx at) lba d = (rc, r, d')"
    note a = at_lba [OF l]
    show "ok d' \<and> rc \<le> 0 \<and> data d' = data d \<and> (\<forall>k. left d' k \<subseteq> left d k) \<and> (rc = 0 \<longrightarrow> r = data d (unat base + unat lba))"
    proof (cases "rc = -1 \<and> d' = d")
      case True
      then show ?thesis using o by simp
    next
      case False
      obtain st where rd: "uefi_block_io_read bio media (ucast base + ucast lba) 512 (at d) sector_junk d = (st, r, d')" and rc: "rc = (if EFI_ERROR st then -1 else 0)"
        using r False assms(5) by (auto simp: uefi_io_def uefi_boot_store_read_def split: prod.splits if_splits)
      have "unat (ucast base + ucast lba :: u64) + 1 \<le> unat (bd_block_count raw)" using a by simp
      from efi_disk.block_read [OF assms(2) rd o this one] show ?thesis using rc a(1) by auto
    qed }
  { assume l: "unat lba < unat (ly_boot_sectors layout)" and b: "length b = BOOT_SLOT_STORE_SECTOR_SIZE" and w: "sec_write (uefi_io ctx at) lba b d = (rc, d')"
    note a = at_lba [OF l]
    show "ok d' \<and> (\<forall>k. k \<noteq> unat base + unat lba \<longrightarrow> data d' k = data d k \<and> left d' k \<subseteq> left d k) \<and>
      left d' (unat base + unat lba) \<subseteq> insert b (left d (unat base + unat lba)) \<and> (rc = 0 \<longrightarrow> data d' (unat base + unat lba) = b)"
    proof (cases "rc = -1 \<and> d' = d")
      case True
      then show ?thesis using o by auto
    next
      case False
      obtain st where wr: "uefi_block_io_write bio media (ucast base + ucast lba) 512 (at d) b d = (st, d')" and rc: "rc = (if EFI_ERROR st then -1 else 0)"
        using w False assms(5) by (auto simp: uefi_io_def uefi_boot_store_write_def split: prod.splits if_splits)
      have len: "length b = 512 * 1" "take 512 b = b" using b by (simp_all add: BOOT_SLOT_STORE_SECTOR_SIZE_def)
      have "unat (ucast base + ucast lba :: u64) + 1 \<le> unat (bd_block_count raw)" using a by simp
      from efi_disk.block_write [OF assms(2) wr o this one len(1)] show ?thesis using rc a(1) len(2) by (auto simp: less_Suc_eq_le neq_iff Suc_le_eq)
    qed }
  { assume f: "sec_flush (uefi_io ctx at) d = (rc, d')"
    then obtain st where fl: "uefi_block_io_flush bio media d = (st, d')" and rc: "rc = (if EFI_ERROR st then -1 else 0)"
      using assms(5) by (auto simp: uefi_io_def uefi_boot_store_flush_def split: prod.splits)
    from efi_disk.block_flush [OF assms(2) fl o] show "ok d' \<and> data d' = data d \<and> (\<forall>k. left d' k \<subseteq> left d k) \<and>
      (rc = 0 \<longrightarrow> (\<forall>k<unat (bd_block_count raw). left d' k \<subseteq> {data d k}))" using rc by simp }
qed

end
