(* ===== verification/KernelImage.thy ===== *)
theory KernelImage
  imports BootEfi
begin

text \<open>
  Loading the kernel in the boot loader, \<^verbatim>\<open>boot/uefi_loader/kernel_loader.c\<close>: the ELF headers are checked, the pages of
  the image are acquired from the firmware at the address it is linked to, and the segments are copied there. The image is not trusted. Memory is
  a function from addresses to bytes, and the headers are read from it where the code reads them, so what a copy overwrites is what
  later reads see. Page allocation is a record of functions on the machine's state. Console and debug output are left out, and pointers are not null.
\<close>

subsection \<open>Memory\<close>

definition peek :: "(u64 \<Rightarrow> u8) \<Rightarrow> u64 \<Rightarrow> nat \<Rightarrow> u8 list" where
  "peek ram a n = map (\<lambda>i. ram (a + of_nat i)) [0..<n]"

definition poke :: "u64 \<Rightarrow> u8 list \<Rightarrow> (u64 \<Rightarrow> u8) \<Rightarrow> u64 \<Rightarrow> u8" where
  "poke a b ram x = (if unat (x - a) < length b then b ! unat (x - a) else ram x)"

subsection \<open>Headers\<close>

definition ELF_MAGIC :: u32 where "ELF_MAGIC = 0x464C457F"
definition EM_X86_64 :: u16 where "EM_X86_64 = 62"
definition PT_LOAD :: u32 where "PT_LOAD = 1"
definition KERNEL_MAX_PHDRS :: u16 where "KERNEL_MAX_PHDRS = 32"
definition KERNEL_FIXED_RESERVE_BASE :: u64 where "KERNEL_FIXED_RESERVE_BASE = 0x10000000"
definition KERNEL_FIXED_RESERVE_BYTES :: u64 where "KERNEL_FIXED_RESERVE_BYTES = 128 * 1024 * 1024"

definition le16_at :: "u8 list \<Rightarrow> nat \<Rightarrow> u16" where
  "le16_at b off = ucast (b ! off) OR push_bit 8 (ucast (b ! (off + 1)))"

text \<open>The fields the loader uses, at their offsets in the structures of 64 and 56 bytes.\<close>

record Elf64_Ehdr =
  e_magic :: u32
  e_machine :: u16
  e_entry :: u64
  e_phoff :: u64
  e_phentsize :: u16
  e_phnum :: u16

record Elf64_Phdr =
  p_type :: u32
  p_offset :: u64
  p_paddr :: u64
  p_filesz :: u64
  p_memsz :: u64

definition elf_ehdr :: "u8 list \<Rightarrow> Elf64_Ehdr" where
  "elf_ehdr b = \<lparr>e_magic = le32_at b 0, e_machine = le16_at b 18, e_entry = le64_at b 24, e_phoff = le64_at b 32, e_phentsize = le16_at b 54,
     e_phnum = le16_at b 56\<rparr>"

definition elf_phdr :: "u8 list \<Rightarrow> Elf64_Phdr" where
  "elf_phdr b = \<lparr>p_type = le32_at b 0, p_offset = le64_at b 8, p_paddr = le64_at b 24, p_filesz = le64_at b 32, p_memsz = le64_at b 40\<rparr>"

definition elf_phdrs :: "nat \<Rightarrow> u8 list \<Rightarrow> Elf64_Phdr list" where
  "elf_phdrs n b = map (\<lambda>i. elf_phdr (take 56 (drop (56 * i) b))) [0..<n]"

subsection \<open>The plan\<close>

record kernel_load_plan =
  kp_link_base :: u64
  kp_link_end :: u64
  kp_entry :: u64
  kp_span :: u64
  kp_pages :: u64

definition skipped :: "Elf64_Phdr \<Rightarrow> bool" where
  "skipped ph \<longleftrightarrow> p_type ph \<noteq> PT_LOAD \<or> p_memsz ph = 0"

text \<open>The span of a segment would wrap around.\<close>

definition span_wraps :: "Elf64_Phdr \<Rightarrow> bool" where
  "span_wraps ph \<longleftrightarrow> p_memsz ph > UINT64_MAX - 0xFFF \<or> p_paddr ph > (UINT64_MAX - 0xFFF) - p_memsz ph"

text \<open>The smallest and largest page boundary around the segments, widened by one more segment.\<close>

definition widen :: "Elf64_Phdr \<Rightarrow> u64 \<times> u64 \<Rightarrow> u64 \<times> u64" where
  "widen ph = (\<lambda>(link_base, link_end).
     let seg_start = p_paddr ph AND NOT 0xFFF; seg_end = (p_paddr ph + p_memsz ph + 0xFFF) AND NOT 0xFFF
     in (if seg_start < link_base then seg_start else link_base, if seg_end > link_end then seg_end else link_end))"

fun plan_segments :: "u64 \<Rightarrow> Elf64_Phdr list \<Rightarrow> u64 \<times> u64 \<Rightarrow> (u64 \<times> u64) option" where
  "plan_segments kernel_size [] b = Some b"
| "plan_segments kernel_size (ph # phs) b =
     (if skipped ph then plan_segments kernel_size phs b
      else if p_offset ph > kernel_size \<or> p_filesz ph > kernel_size - p_offset ph \<or> p_filesz ph > p_memsz ph \<or> span_wraps ph then None
      else plan_segments kernel_size phs (widen ph b))"

definition table_outside :: "Elf64_Ehdr \<Rightarrow> u64 \<Rightarrow> bool" where
  "table_outside eh kernel_size \<longleftrightarrow> e_phoff eh > kernel_size \<or> ucast (e_phnum eh) > (kernel_size - e_phoff eh) div 56"

definition kernel_plan_from_headers :: "Elf64_Ehdr \<Rightarrow> Elf64_Phdr list \<Rightarrow> u64 \<Rightarrow> u64 + kernel_load_plan" where
  "kernel_plan_from_headers eh phdrs kernel_size =
     (if e_magic eh \<noteq> ELF_MAGIC \<or> e_machine eh \<noteq> EM_X86_64 then Inl EFI_UNSUPPORTED
      else if e_phnum eh = 0 \<or> e_phnum eh > KERNEL_MAX_PHDRS then Inl EFI_LOAD_ERROR
      else if e_phentsize eh \<noteq> 56 then Inl EFI_UNSUPPORTED
      else if table_outside eh kernel_size then Inl EFI_LOAD_ERROR
      else case plan_segments kernel_size (take (unat (e_phnum eh)) phdrs) (UINT64_MAX, 0) of None \<Rightarrow> Inl EFI_LOAD_ERROR
      | Some (link_base, link_end) \<Rightarrow>
          if link_base = UINT64_MAX \<or> link_end \<le> link_base then Inl EFI_LOAD_ERROR
          else if e_entry eh < link_base \<or> e_entry eh \<ge> link_end then Inl EFI_LOAD_ERROR
          else Inr \<lparr>kp_link_base = link_base, kp_link_end = link_end, kp_entry = e_entry eh, kp_span = link_end - link_base,
                 kp_pages = drop_bit 12 (link_end - link_base + 0xFFF)\<rparr>)"

text \<open>Reading from a buffer in memory: the status and, on success, the bytes.\<close>

definition kernel_read_from_memory :: "u8 list \<Rightarrow> u64 \<Rightarrow> u64 \<Rightarrow> u64 + u8 list" where
  "kernel_read_from_memory buf offset amount =
     (if unat offset > length buf \<or> unat amount > length buf - unat offset then Inl EFI_LOAD_ERROR
      else Inr (take (unat amount) (drop (unat offset) buf)))"

definition validate_kernel_buffer :: "u8 list \<Rightarrow> u64 + kernel_load_plan" where
  "validate_kernel_buffer buf =
     (if buf = [] then Inl EFI_INVALID_PARAMETER
      else case kernel_read_from_memory buf 0 64 of Inl status \<Rightarrow> Inl EFI_LOAD_ERROR
      | Inr b \<Rightarrow>
          (let eh = elf_ehdr b
           in if e_phnum eh > KERNEL_MAX_PHDRS \<or> e_phentsize eh \<noteq> 56 then Inl EFI_LOAD_ERROR
              else case kernel_read_from_memory buf (e_phoff eh) (ucast (e_phnum eh) * 56) of Inl status \<Rightarrow> Inl status
              | Inr t \<Rightarrow> kernel_plan_from_headers eh (elf_phdrs (unat (e_phnum eh)) t) (of_nat (length buf))))"

subsection \<open>Pages\<close>

text \<open>Allocation at a given address (\<^verbatim>\<open>AllocateAddress\<close>) and freeing.\<close>

record 'd page_services =
  AllocatePages :: "u64 \<Rightarrow> u64 \<Rightarrow> 'd \<Rightarrow> u64 \<times> u64 \<times> 'd"
  FreePages :: "u64 \<Rightarrow> u64 \<Rightarrow> 'd \<Rightarrow> 'd"

record kernel_memory =
  km_ram :: "u64 \<Rightarrow> u8"
  g_kernel_reserved_base :: u64
  g_kernel_reserved_pages :: u64

definition kernel_reserve_fixed_window :: "'d page_services \<Rightarrow> kernel_memory \<Rightarrow> 'd \<Rightarrow> u64 \<times> kernel_memory \<times> 'd" where
  "kernel_reserve_fixed_window svc km d =
     (if g_kernel_reserved_pages km \<noteq> 0 then (EFI_SUCCESS, km, d)
      else (let reserve_pages = drop_bit 12 KERNEL_FIXED_RESERVE_BYTES;
                (stt, reserve_base, d1) = AllocatePages svc reserve_pages KERNEL_FIXED_RESERVE_BASE d
            in if EFI_ERROR stt then (stt, km, d1)
               else (EFI_SUCCESS, km\<lparr>g_kernel_reserved_base := reserve_base, g_kernel_reserved_pages := reserve_pages\<rparr>, d1)))"

definition kernel_release_fixed_window :: "'d page_services \<Rightarrow> kernel_memory \<Rightarrow> 'd \<Rightarrow> kernel_memory \<times> 'd" where
  "kernel_release_fixed_window svc km d =
     (if g_kernel_reserved_pages km = 0 then (km, d)
      else (km\<lparr>g_kernel_reserved_base := 0, g_kernel_reserved_pages := 0\<rparr>,
            FreePages svc (g_kernel_reserved_base km) (g_kernel_reserved_pages km) d))"

definition kernel_acquire_load_pages :: "'d page_services \<Rightarrow> u64 \<Rightarrow> u64 \<Rightarrow> kernel_memory \<Rightarrow> 'd \<Rightarrow> u64 \<times> u64 \<times> kernel_memory \<times> 'd" where
  "kernel_acquire_load_pages svc link_base pages km d =
     (if pages = 0 then (EFI_INVALID_PARAMETER, link_base, km, d)
      else
        (let ours = g_kernel_reserved_pages km \<noteq> 0 \<and> g_kernel_reserved_base km = link_base
         in if ours \<and> pages \<le> g_kernel_reserved_pages km then (EFI_SUCCESS, link_base, km, d)
            else (let (km1, d1) = (if ours then kernel_release_fixed_window svc km d else (km, d));
                      (stt, load_base, d2) = AllocatePages svc pages link_base d1
                  in (if EFI_ERROR stt then stt else EFI_SUCCESS, load_base, km1, d2))))"

definition kernel_release_load_pages :: "'d page_services \<Rightarrow> u64 \<Rightarrow> u64 \<Rightarrow> kernel_memory \<Rightarrow> 'd \<Rightarrow> kernel_memory \<times> 'd" where
  "kernel_release_load_pages svc load_base pages km d =
     (if pages = 0 then (km, d)
      else if g_kernel_reserved_pages km \<noteq> 0 \<and> g_kernel_reserved_base km = load_base then kernel_release_fixed_window svc km d
      else (km, FreePages svc load_base pages d))"

subsection \<open>Loading from a buffer\<close>

fun span_segments :: "Elf64_Phdr list \<Rightarrow> u64 \<times> u64 \<Rightarrow> (u64 \<times> u64) option" where
  "span_segments [] b = Some b"
| "span_segments (ph # phs) b =
     (if skipped ph then span_segments phs b else if span_wraps ph then None else span_segments phs (widen ph b))"

text \<open>The headers in memory at address \<open>buf\<close>.\<close>

definition ehdr_at :: "(u64 \<Rightarrow> u8) \<Rightarrow> u64 \<Rightarrow> Elf64_Ehdr" where "ehdr_at ram buf = elf_ehdr (peek ram buf 64)"
definition phdr_at :: "(u64 \<Rightarrow> u8) \<Rightarrow> u64 \<Rightarrow> Elf64_Phdr" where "phdr_at ram a = elf_phdr (peek ram a 56)"

text \<open>One segment: an error, or the memory after the copy.\<close>

definition copy_segment :: "u64 \<Rightarrow> u64 \<Rightarrow> u64 \<Rightarrow> u64 \<Rightarrow> Elf64_Phdr \<Rightarrow> (u64 \<Rightarrow> u8) \<Rightarrow> u64 option \<times> (u64 \<Rightarrow> u8)" where
  "copy_segment buf kernel_size load_base link_base ph ram =
     (if p_offset ph > kernel_size \<or> p_filesz ph > kernel_size - p_offset ph then (Some EFI_LOAD_ERROR, ram)
      else if p_filesz ph = 0 then (None, ram)
      else
        (let src = buf + p_offset ph; dst = load_base + (p_paddr ph - link_base); copy_size = p_filesz ph
         in if (src < dst + copy_size \<and> dst < src + copy_size) \<or> src + copy_size < src \<or> dst + copy_size < dst then (Some EFI_COMPROMISED_DATA, ram)
            else (let ram1 = poke dst (peek ram src (unat copy_size)) ram
                  in if peek ram1 dst (unat copy_size) \<noteq> peek ram1 src (unat copy_size) then (Some EFI_COMPROMISED_DATA, ram1)
                     else (None, ram1))))"

function copy_segments :: "u64 \<Rightarrow> u64 \<Rightarrow> u64 \<Rightarrow> u64 \<Rightarrow> u16 \<Rightarrow> u64 \<Rightarrow> (u64 \<Rightarrow> u8) \<Rightarrow> u64 option \<times> (u64 \<Rightarrow> u8)" where
  "copy_segments buf kernel_size load_base link_base i ph ram =
     (if \<not> i < e_phnum (ehdr_at ram buf) then (None, ram)
      else if skipped (phdr_at ram ph) then copy_segments buf kernel_size load_base link_base (i + 1) (ph + 56) ram
      else case copy_segment buf kernel_size load_base link_base (phdr_at ram ph) ram of
        (Some status, ram1) \<Rightarrow> (Some status, ram1)
      | (None, ram1) \<Rightarrow> copy_segments buf kernel_size load_base link_base (i + 1) (ph + 56) ram1)"
  by pat_completeness auto

lemma next_index: "i < n \<Longrightarrow> unat (i + 1) = unat i + 1" for i n :: u16
proof -
  assume "i < n"
  then have "unat i < unat n" by (simp add: word_less_nat_alt)
  moreover have "unat n < 2 ^ LENGTH(16)" by (rule unsigned_less)
  ultimately show ?thesis by (simp add: unat_word_ariths)
qed

termination copy_segments
proof (relation "measure (\<lambda>(_, _, _, _, i, _, _). 2 ^ 16 - unat i)", goal_cases)
  case (2 buf kernel_size load_base link_base i ph ram)
  then have "unat i < 2 ^ 16" "unat (i + 1) = unat i + 1" using next_index unsigned_less [of i] by auto
  then show ?case by simp
next
  case (3 buf kernel_size load_base link_base i ph ram)
  then have "unat i < 2 ^ 16" "unat (i + 1) = unat i + 1" using next_index unsigned_less [of i] by auto
  then show ?case by simp
qed simp

declare copy_segments.simps [simp del]

text \<open>The status and the address of the entry point.\<close>

definition load_kernel_from_buffer ::
  "'d page_services \<Rightarrow> u64 \<Rightarrow> u64 \<Rightarrow> kernel_memory \<Rightarrow> 'd \<Rightarrow> u64 \<times> u64 option \<times> kernel_memory \<times> 'd" where
  "load_kernel_from_buffer svc buf kernel_size km d =
     (case validate_kernel_buffer (peek (km_ram km) buf (unat kernel_size)) of Inl status \<Rightarrow> (status, None, km, d)
      | Inr _ \<Rightarrow>
          if kernel_size < 64 then (EFI_LOAD_ERROR, None, km, d)
          else
            (let eh = ehdr_at (km_ram km) buf
             in if e_magic eh \<noteq> ELF_MAGIC \<or> e_machine eh \<noteq> EM_X86_64 then (EFI_UNSUPPORTED, None, km, d)
                else if e_phnum eh = 0 \<or> e_phnum eh > KERNEL_MAX_PHDRS \<or> e_phentsize eh \<noteq> 56 then (EFI_LOAD_ERROR, None, km, d)
                else if table_outside eh kernel_size then (EFI_LOAD_ERROR, None, km, d)
                else
                  case span_segments (map (\<lambda>i. phdr_at (km_ram km) (buf + e_phoff eh + 56 * of_nat i)) [0..<unat (e_phnum eh)]) (UINT64_MAX, 0) of
                    None \<Rightarrow> (EFI_LOAD_ERROR, None, km, d)
                  | Some (link_base, link_end) \<Rightarrow>
                      if link_base = UINT64_MAX \<or> link_end \<le> link_base then (EFI_LOAD_ERROR, None, km, d)
                      else
                        (let pages = drop_bit 12 (link_end - link_base + 0xFFF);
                             (stt, load_base, km1, d1) = kernel_acquire_load_pages svc link_base pages km d
                         in if EFI_ERROR stt then (stt, None, km1, d1)
                            else
                              case copy_segments buf kernel_size load_base link_base 0 (buf + e_phoff eh) (km_ram km1) of
                                (Some status, ram) \<Rightarrow>
                                  (let (km2, d2) = kernel_release_load_pages svc load_base pages (km1\<lparr>km_ram := ram\<rparr>) d1 in (status, None, km2, d2))
                              | (None, ram) \<Rightarrow>
                                  (EFI_SUCCESS, Some (load_base + (e_entry (ehdr_at ram buf) - link_base)), km1\<lparr>km_ram := ram\<rparr>, d1))))"

subsection \<open>Loading through a reader\<close>

text \<open>
  A reader takes an offset and a size and puts bytes at the start of the destination: its result is the status, those bytes and the
  machine. The read that follows each copy is for the debug port.
\<close>

type_synonym 'd kernel_read_fn_t = "u64 \<Rightarrow> u64 \<Rightarrow> 'd \<Rightarrow> u64 \<times> u8 list \<times> 'd"

fun read_segments ::
  "'d kernel_read_fn_t \<Rightarrow> u64 \<Rightarrow> u64 \<Rightarrow> Elf64_Phdr list \<Rightarrow> (u64 \<Rightarrow> u8) \<Rightarrow> 'd \<Rightarrow> u64 option \<times> (u64 \<Rightarrow> u8) \<times> 'd" where
  "read_segments reader load_base link_base [] ram d = (None, ram, d)"
| "read_segments reader load_base link_base (ph # phs) ram d =
     (if skipped ph \<or> p_filesz ph = 0 then read_segments reader load_base link_base phs ram d
      else (let (read_st, b, d1) = reader (p_offset ph) (p_filesz ph) d; ram1 = poke (load_base + (p_paddr ph - link_base)) b ram
            in if EFI_ERROR read_st then (Some read_st, ram1, d1)
               else (let (_, _, d2) = reader (p_offset ph) 8 d1 in read_segments reader load_base link_base phs ram1 d2)))"

definition load_kernel_from_reader ::
  "'d page_services \<Rightarrow> 'd kernel_read_fn_t \<Rightarrow> u64 \<Rightarrow> kernel_memory \<Rightarrow> 'd \<Rightarrow> u64 \<times> u64 option \<times> kernel_memory \<times> 'd" where
  "load_kernel_from_reader svc reader kernel_size km d =
     (if kernel_size < 64 then (EFI_LOAD_ERROR, None, km, d)
      else
        (let (read_st, b, d1) = reader 0 64 d
         in if EFI_ERROR read_st then (read_st, None, km, d1)
            else
              (let eh = elf_ehdr b
               in if e_phnum eh > KERNEL_MAX_PHDRS \<or> e_phentsize eh \<noteq> 56
                  then (case kernel_plan_from_headers eh [] kernel_size of Inl status \<Rightarrow> (status, None, km, d1) | Inr _ \<Rightarrow> (EFI_SUCCESS, None, km, d1))
                  else
                    (let (read_st, t, d2) = reader (e_phoff eh) (ucast (e_phnum eh) * 56) d1; phdrs = elf_phdrs (unat (e_phnum eh)) t
                     in if EFI_ERROR read_st then (read_st, None, km, d2)
                        else case kernel_plan_from_headers eh phdrs kernel_size of Inl status \<Rightarrow> (status, None, km, d2)
                        | Inr plan \<Rightarrow>
                            (let (stt, load_base, km1, d3) = kernel_acquire_load_pages svc (kp_link_base plan) (kp_pages plan) km d2
                             in if EFI_ERROR stt then (stt, None, km1, d3)
                                else case read_segments reader load_base (kp_link_base plan) phdrs (km_ram km1) d3 of
                                  (Some status, ram, d4) \<Rightarrow>
                                    (let (km2, d5) = kernel_release_load_pages svc load_base (kp_pages plan) (km1\<lparr>km_ram := ram\<rparr>) d4 in (status, None, km2, d5))
                                | (None, ram, d4) \<Rightarrow>
                                    (EFI_SUCCESS, Some (load_base + (kp_entry plan - kp_link_base plan)), km1\<lparr>km_ram := ram\<rparr>, d4))))))"

subsection \<open>Spans\<close>

lemma mask_12: "(0xFFF :: u64) = mask 12"
  by (simp add: mask_eq_exp_minus_1)

lemma page_down: "unat (w AND NOT 0xFFF) = unat w div 4096 * 4096" for w :: u64
  unfolding mask_12 unat_and_not_mask by simp

text \<open>The pages from \<open>lo\<close> to \<open>hi\<close> hold the segment.\<close>

definition holds :: "u64 \<times> u64 \<Rightarrow> Elf64_Phdr \<Rightarrow> bool" where
  "holds b ph \<longleftrightarrow> unat (fst b) \<le> unat (p_paddr ph) \<and> unat (p_paddr ph) + unat (p_memsz ph) \<le> unat (snd b)"

definition wider :: "u64 \<times> u64 \<Rightarrow> u64 \<times> u64 \<Rightarrow> bool" where
  "wider b b' \<longleftrightarrow> fst b' \<le> fst b \<and> snd b \<le> snd b'"

lemma widen_wider: "wider b (widen ph b)"
  by (auto simp: wider_def widen_def Let_def split: prod.splits)

lemma wider_trans: "wider a b \<Longrightarrow> wider b c \<Longrightarrow> wider a c"
  by (auto simp: wider_def)

lemma holds_wider: "holds b ph \<Longrightarrow> wider b b' \<Longrightarrow> holds b' ph"
  by (auto simp: holds_def wider_def word_le_nat_alt)

lemma widen_holds:
  assumes "\<not> span_wraps ph"
  shows "holds (widen ph b) ph"
proof -
  let ?t = "0xFFFFFFFFFFFFF000 :: u64"
  have t: "UINT64_MAX - 0xFFF = ?t" "unat ?t = 18446744073709547520" by (simp_all add: UINT64_MAX_def)
  have m: "p_memsz ph \<le> ?t" and a: "p_paddr ph \<le> ?t - p_memsz ph" using assms unfolding span_wraps_def t by (simp_all add: not_less)
  have "unat (p_memsz ph) \<le> 18446744073709547520" using m t(2) by (simp add: word_le_nat_alt)
  moreover have "unat (?t - p_memsz ph) = 18446744073709547520 - unat (p_memsz ph)" using unat_sub [OF m] t(2) by simp
  then have "unat (p_paddr ph) \<le> 18446744073709547520 - unat (p_memsz ph)" using a by (simp add: word_le_nat_alt)
  ultimately have s: "unat (p_paddr ph) + unat (p_memsz ph) + 4095 < 18446744073709551616" by linarith
  have e1: "unat (p_paddr ph + p_memsz ph) = unat (p_paddr ph) + unat (p_memsz ph)" using s by (simp add: unat_word_ariths)
  have e: "unat (p_paddr ph + p_memsz ph + 0xFFF) = unat (p_paddr ph) + unat (p_memsz ph) + 4095"
    unfolding unat_word_ariths(1) [of "p_paddr ph + p_memsz ph"] e1 using s by simp
  have lo: "unat (p_paddr ph AND NOT 0xFFF) \<le> unat (p_paddr ph)" unfolding page_down by simp
  have up: "x \<le> (x + 4095) div 4096 * 4096" for x :: nat
    using div_mult_mod_eq [of "x + 4095" 4096] mod_less_divisor [of 4096 "x + 4095"] by linarith
  have hi: "unat (p_paddr ph) + unat (p_memsz ph) \<le> unat ((p_paddr ph + p_memsz ph + 0xFFF) AND NOT 0xFFF)"
    unfolding page_down e by (rule up)
  obtain l h where b: "b = (l, h)" by fastforce
  let ?lo = "p_paddr ph AND NOT 0xFFF" and ?hi = "(p_paddr ph + p_memsz ph + 0xFFF) AND NOT 0xFFF"
  have "widen ph b = (if ?lo < l then ?lo else l, if h < ?hi then ?hi else h)" unfolding b widen_def Let_def by simp
  then have w: "fst (widen ph b) \<le> ?lo" "?hi \<le> snd (widen ph b)" by (simp_all only: fst_conv snd_conv split: if_split) (simp_all add: not_less)
  have "unat (fst (widen ph b)) \<le> unat (p_paddr ph)" using w(1) [unfolded word_le_nat_alt] lo by (rule order_trans)
  moreover have "unat (p_paddr ph) + unat (p_memsz ph) \<le> unat (snd (widen ph b))" using hi w(2) [unfolded word_le_nat_alt] by (rule order_trans)
  ultimately show ?thesis by (simp add: holds_def)
qed

lemma plan_holds:
  assumes "plan_segments n phs b = Some b'"
  shows "wider b b' \<and> (\<forall>ph\<in>set phs. skipped ph \<or> holds b' ph \<and> p_filesz ph \<le> p_memsz ph \<and> p_offset ph \<le> n \<and> p_filesz ph \<le> n - p_offset ph)"
  using assms
proof (induction phs arbitrary: b)
  case Nil
  then show ?case by (simp add: wider_def)
next
  case (Cons ph phs)
  show ?case
  proof (cases "skipped ph")
    case True
    then show ?thesis using Cons by simp
  next
    case False
    then have ok: "\<not> (p_offset ph > n \<or> p_filesz ph > n - p_offset ph \<or> p_filesz ph > p_memsz ph \<or> span_wraps ph)"
      and r: "plan_segments n phs (widen ph b) = Some b'" using Cons.prems by (auto split: if_splits)
    note I = Cons.IH [OF r]
    have "holds b' ph" using holds_wider [OF widen_holds] ok I by blast
    then show ?thesis using I ok widen_wider [of b ph] wider_trans by (auto simp: not_less)
  qed
qed

lemma plan_span: "plan_segments n phs b = Some b' \<Longrightarrow> span_segments phs b = Some b'"
  by (induction phs arbitrary: b) (auto split: if_splits)

subsection \<open>Memory reads and writes\<close>

lemma peek_length [simp]: "length (peek ram a n) = n"
  by (simp add: peek_def)

lemma peek_zero [simp]: "peek ram a 0 = []"
  by (simp add: peek_def)

lemma peek_cong: "(\<And>i. i < n \<Longrightarrow> ram' (a + of_nat i) = ram (a + of_nat i)) \<Longrightarrow> peek ram' a n = peek ram a n"
  by (simp add: peek_def)

lemma peek_slice: "k + n \<le> m \<Longrightarrow> take n (drop k (peek ram a m)) = peek ram (a + of_nat k) n"
  by (rule nth_equalityI) (simp_all add: peek_def add.assoc)

lemma unat_index: "i < 2 ^ 64 \<Longrightarrow> unat (of_nat i :: u64) = i"
  by (simp add: unsigned_of_nat take_bit_nat_eq_self)

lemma peek_poke: "length b = n \<Longrightarrow> n \<le> 2 ^ 64 \<Longrightarrow> peek (poke a b ram) a n = b"
  by (rule nth_equalityI) (simp_all add: peek_def poke_def unat_index)

lemma poke_nil [simp]: "poke a [] ram = ram"
  by (simp add: poke_def fun_eq_iff)

text \<open>The addresses from \<open>a\<close> on, \<open>n\<close> of them.\<close>

definition window :: "u64 \<Rightarrow> nat \<Rightarrow> u64 set" where
  "window a n = {x. unat (x - a) < n}"

lemma poke_outside: "x \<notin> window a (length b) \<Longrightarrow> poke a b ram x = ram x"
  by (simp add: poke_def window_def)

lemma window_offset: "i < n \<Longrightarrow> i < 2 ^ 64 \<Longrightarrow> a + of_nat i \<in> window a n"
  by (simp add: window_def unat_index)

lemma unat_diff_le: "unat (lo :: u64) \<le> unat a \<Longrightarrow> unat (a - lo) = unat a - unat lo"
  by (simp add: unat_sub word_le_nat_alt)

lemma window_within:
  fixes lo a :: u64
  assumes "unat lo \<le> unat a" and "unat a + n \<le> unat lo + m" and "m < 2 ^ 64"
  shows "window a n \<subseteq> window lo m"
proof
  fix x
  assume "x \<in> window a n"
  then have x: "unat (x - a) < n" by (simp add: window_def)
  have e: "x - lo = (x - a) + (a - lo)" by simp
  have "unat (x - a) + unat (a - lo) < m" using x assms(1,2) unat_diff_le [OF assms(1)] by linarith
  then have "unat (x - lo) < m" unfolding e unat_word_ariths(1) using assms(3) by simp
  then show "x \<in> window lo m" by (simp add: window_def)
qed

lemma overlap_common:
  fixes a b c :: u64
  assumes "a < b + c" and "b < a + c" and "unat a + unat c < 2 ^ 64" and "unat b + unat c < 2 ^ 64"
  obtains x where "x \<in> window a (unat c)" and "x \<in> window b (unat c)"
proof -
  have s: "unat (a + c) = unat a + unat c" "unat (b + c) = unat b + unat c" using assms(3,4) by (simp_all add: unat_word_ariths)
  then have l: "unat a < unat b + unat c" "unat b < unat a + unat c" using assms(1,2) by (simp_all add: word_less_nat_alt)
  show thesis
  proof (cases "unat a \<le> unat b")
    case True
    show ?thesis by (rule that [of b]) (use l unat_diff_le [OF True] in \<open>auto simp: window_def\<close>)
  next
    case False
    show ?thesis by (rule that [of a]) (use l unat_diff_le [of b a] False in \<open>auto simp: window_def\<close>)
  qed
qed

subsection \<open>The image in place\<close>

text \<open>The specification: each loadable segment's bytes of the image at its address, in the order of the headers.\<close>

definition place :: "u8 list \<Rightarrow> Elf64_Phdr \<Rightarrow> (u64 \<Rightarrow> u8) \<Rightarrow> u64 \<Rightarrow> u8" where
  "place img ph ram = (if skipped ph then ram else poke (p_paddr ph) (take (unat (p_filesz ph)) (drop (unat (p_offset ph)) img)) ram)"

definition image_phdrs :: "u8 list \<Rightarrow> Elf64_Phdr list" where
  "image_phdrs img = (let eh = elf_ehdr (take 64 img) in elf_phdrs (unat (e_phnum eh)) (drop (unat (e_phoff eh)) img))"

lemma elf_phdrs_take: "elf_phdrs n (take (56 * n) b) = elf_phdrs n b"
proof -
  have "take 56 (drop (56 * i) (take (56 * n) b)) = take 56 (drop (56 * i) b)" if "i < n" for i
  proof -
    have "56 * i + 56 \<le> 56 * n" using that by linarith
    then show ?thesis by (simp add: drop_take)
  qed
  then show ?thesis by (simp add: elf_phdrs_def)
qed

lemma elf_phdrs_length [simp]: "length (elf_phdrs n b) = n"
  by (simp add: elf_phdrs_def)

lemma plan_facts:
  assumes "kernel_plan_from_headers eh phdrs n = Inr plan"
  shows "e_magic eh = ELF_MAGIC \<and> e_machine eh = EM_X86_64 \<and> e_phnum eh \<noteq> 0 \<and> e_phnum eh \<le> KERNEL_MAX_PHDRS \<and> e_phentsize eh = 56 \<and> \<not> table_outside eh n"
    and "plan_segments n (take (unat (e_phnum eh)) phdrs) (UINT64_MAX, 0) = Some (kp_link_base plan, kp_link_end plan)"
    and "kp_link_base plan \<noteq> UINT64_MAX" and "kp_link_base plan < kp_link_end plan" and "kp_link_base plan \<le> kp_entry plan" and "kp_entry plan < kp_link_end plan"
    and "kp_span plan = kp_link_end plan - kp_link_base plan" and "kp_pages plan = drop_bit 12 (kp_span plan + 0xFFF)" and "kp_entry plan = e_entry eh"
  using assms unfolding kernel_plan_from_headers_def by (auto split: if_splits option.splits prod.splits simp: not_le not_less)

lemma validate_facts:
  assumes "validate_kernel_buffer img = Inr plan" and "length img < 2 ^ 64"
  shows "64 \<le> length img" and "kernel_plan_from_headers (elf_ehdr (take 64 img)) (image_phdrs img) (of_nat (length img)) = Inr plan"
    and "unat (e_phoff (elf_ehdr (take 64 img))) + 56 * unat (e_phnum (elf_ehdr (take 64 img))) \<le> length img"
proof -
  let ?eh = "elf_ehdr (take 64 img)"
  have n: "\<not> length img < 64"
  proof
    assume "length img < 64"
    then have "kernel_read_from_memory img 0 64 = Inl EFI_LOAD_ERROR" by (simp add: kernel_read_from_memory_def)
    then show False using assms(1) by (simp add: validate_kernel_buffer_def split: if_splits)
  qed
  then show "64 \<le> length img" by simp
  have r0: "kernel_read_from_memory img 0 64 = Inr (take 64 img)" using n by (simp add: kernel_read_from_memory_def)
  have u: "unat (ucast (e_phnum ?eh) * 56 :: u64) = 56 * unat (e_phnum ?eh)"
  proof -
    have "unat (e_phnum ?eh) < 2 ^ LENGTH(16)" by (rule unsigned_less)
    moreover have "unat (ucast (e_phnum ?eh) :: u64) = unat (e_phnum ?eh)" by (simp add: unsigned_ucast_eq take_bit_nat_eq_self unsigned_less [THEN less_le_trans])
    ultimately show ?thesis by (simp add: unat_word_ariths)
  qed
  obtain t where t: "kernel_read_from_memory img (e_phoff ?eh) (ucast (e_phnum ?eh) * 56) = Inr t"
    and p: "kernel_plan_from_headers ?eh (elf_phdrs (unat (e_phnum ?eh)) t) (of_nat (length img)) = Inr plan"
    using assms(1) r0 by (auto simp: validate_kernel_buffer_def Let_def split: if_splits sum.splits)
  have te: "t = take (56 * unat (e_phnum ?eh)) (drop (unat (e_phoff ?eh)) img)" and le: "unat (e_phoff ?eh) + 56 * unat (e_phnum ?eh) \<le> length img"
    using t u by (auto simp: kernel_read_from_memory_def split: if_splits)
  show "kernel_plan_from_headers ?eh (image_phdrs img) (of_nat (length img)) = Inr plan"
    using p unfolding te elf_phdrs_take by (simp add: image_phdrs_def Let_def)
  show "unat (e_phoff ?eh) + 56 * unat (e_phnum ?eh) \<le> length img" by (rule le)
qed

text \<open>A buffer that does not meet the window.\<close>

lemma copy_one:
  assumes img: "img = peek ram buf (unat size0)" and end1: "unat buf + unat size0 < 2 ^ 64"
    and apart: "window buf (unat size0) \<inter> window lo (unat (hi - lo)) = {}" and le: "lo \<le> hi"
    and ph: "\<not> skipped ph" "holds (lo, hi) ph" "p_filesz ph \<le> p_memsz ph" "p_offset ph \<le> size0" "p_filesz ph \<le> size0 - p_offset ph"
  shows "copy_segment buf size0 lo lo ph ram = (None, place img ph ram)" and "\<forall>x. x \<notin> window lo (unat (hi - lo)) \<longrightarrow> place img ph ram x = ram x"
proof -
  let ?cs = "p_filesz ph" and ?src = "buf + p_offset ph" and ?dst = "p_paddr ph"
  have off: "unat (p_offset ph) + unat ?cs \<le> unat size0" using ph(4,5) by (simp add: word_le_nat_alt unat_sub)
  have s: "unat ?src = unat buf + unat (p_offset ph)" using off end1 by (simp add: unat_word_ariths)
  have w: "unat (hi - lo) = unat hi - unat lo" "unat lo \<le> unat hi" using le by (simp_all add: unat_sub word_le_nat_alt)
  have hi64: "unat hi < 2 ^ 64" using unsigned_less [of hi] by simp
  have d: "unat lo \<le> unat ?dst" "unat ?dst + unat ?cs \<le> unat hi" using ph(2,3) by (auto simp: holds_def word_le_nat_alt)
  have dw: "window ?dst (unat ?cs) \<subseteq> window lo (unat (hi - lo))" by (rule window_within) (use d w hi64 in auto)
  have sw: "window ?src (unat ?cs) \<subseteq> window buf (unat size0)" by (rule window_within) (use s off end1 in auto)
  have no: "\<not> (?src < ?dst + ?cs \<and> ?dst < ?src + ?cs)"
  proof
    assume o: "?src < ?dst + ?cs \<and> ?dst < ?src + ?cs"
    have "unat ?src + unat ?cs < 2 ^ 64" "unat ?dst + unat ?cs < 2 ^ 64" using s off end1 d hi64 by linarith+
    then obtain x where "x \<in> window ?src (unat ?cs)" "x \<in> window ?dst (unat ?cs)" using overlap_common [of ?src ?dst ?cs] o by blast
    then show False using dw sw apart by blast
  qed
  have nw: "\<not> ?src + ?cs < ?src" "\<not> ?dst + ?cs < ?dst"
  proof -
    have "unat (?src + ?cs) = unat ?src + unat ?cs" by (subst unat_word_ariths) (use s off end1 in simp)
    then show "\<not> ?src + ?cs < ?src" by (simp add: word_less_nat_alt)
    have "unat (?dst + ?cs) = unat ?dst + unat ?cs" by (subst unat_word_ariths) (use d hi64 in simp)
    then show "\<not> ?dst + ?cs < ?dst" by (simp add: word_less_nat_alt)
  qed
  have b: "take (unat ?cs) (drop (unat (p_offset ph)) img) = peek ram ?src (unat ?cs)" unfolding img using peek_slice [OF off, of ram buf] by simp
  let ?b = "peek ram ?src (unat ?cs)"
  have pl: "place img ph ram = poke ?dst ?b ram" using ph(1) by (simp add: place_def b)
  show out: "\<forall>x. x \<notin> window lo (unat (hi - lo)) \<longrightarrow> place img ph ram x = ram x" using dw unfolding pl by (auto intro!: poke_outside)
  have c64: "unat ?cs < 2 ^ 64" using unsigned_less [of ?cs] by simp
  have 1: "peek (poke ?dst ?b ram) ?dst (unat ?cs) = ?b" using c64 by (intro peek_poke) simp_all
  have 2: "peek (poke ?dst ?b ram) ?src (unat ?cs) = ?b"
  proof (rule peek_cong)
    fix i assume "i < unat ?cs"
    then have "?src + of_nat i \<in> window ?src (unat ?cs)" using c64 by (intro window_offset) simp_all
    then have "?src + of_nat i \<notin> window lo (unat (hi - lo))" using sw apart by blast
    then show "poke ?dst ?b ram (?src + of_nat i) = ram (?src + of_nat i)" using out unfolding pl by blast
  qed
  have "\<not> (p_offset ph > size0 \<or> ?cs > size0 - p_offset ph)" using ph(4,5) by (simp add: not_less)
  then show "copy_segment buf size0 lo lo ph ram = (None, place img ph ram)"
    using no nw 1 2 unfolding copy_segment_def Let_def pl by (auto simp: pl)
qed

lemma copy_all:
  assumes "phs = map (\<lambda>i. phdr_at ram0 (tab + 56 * of_nat i)) [0..<unat n]" and "n = e_phnum (ehdr_at ram0 buf)"
    and "unat size0 \<ge> 64" and "tab = buf + of_nat off" and "off + 56 * unat n \<le> unat size0" and "unat buf + unat size0 < 2 ^ 64"
    and "window buf (unat size0) \<inter> window lo (unat (hi - lo)) = {}" and "lo \<le> hi" and "img = peek ram0 buf (unat size0)"
    and "\<forall>ph\<in>set phs. skipped ph \<or> holds (lo, hi) ph \<and> p_filesz ph \<le> p_memsz ph \<and> p_offset ph \<le> size0 \<and> p_filesz ph \<le> size0 - p_offset ph"
    and "i \<le> unat n" and "\<forall>x\<in>window buf (unat size0). ram x = ram0 x"
  shows "copy_segments buf size0 lo lo (of_nat i) (tab + 56 * of_nat i) ram = (None, fold (place img) (drop i phs) ram) \<and>
    (\<forall>x. x \<notin> window lo (unat (hi - lo)) \<longrightarrow> fold (place img) (drop i phs) ram x = ram x)"
  using assms(11,12)
proof (induction "unat n - i" arbitrary: i ram)
  case 0
  then have i: "i = unat n" by simp
  have s64: "unat size0 < 2 ^ 64" using unsigned_less [of size0] by simp
  have "peek ram buf 64 = peek ram0 buf 64"
    by (rule peek_cong) (use "0.prems"(2) assms(3) window_offset [of _ "unat size0" buf] in auto)
  then have "e_phnum (ehdr_at ram buf) = n" using assms(2) by (simp add: ehdr_at_def)
  moreover have "(of_nat i :: u16) = n" using i by simp
  moreover have "drop i phs = []" using i assms(1) by simp
  ultimately show ?case by (subst copy_segments.simps) simp
next
  case (Suc k)
  have s64: "unat size0 < 2 ^ 64" using unsigned_less [of size0] by simp
  have i: "i < unat n" using Suc.hyps(2) by linarith
  have in_buf: "buf + of_nat j \<in> window buf (unat size0)" if "j < unat size0" for j
    using window_offset [OF that] that s64 by simp
  have "peek ram buf 64 = peek ram0 buf 64" by (rule peek_cong) (use Suc.prems(2) in_buf assms(3) in auto)
  then have en: "e_phnum (ehdr_at ram buf) = n" using assms(2) by (simp add: ehdr_at_def)
  have n16: "unat n < 2 ^ 16" using unsigned_less [of n] by simp
  have ui: "unat (of_nat i :: u16) = i" using i n16 by (simp add: unsigned_of_nat take_bit_nat_eq_self)
  then have lt: "(of_nat i :: u16) < n" using i by (simp add: word_less_nat_alt)
  let ?ph = "phs ! i"
  have "phdr_at ram (tab + 56 * of_nat i) = phdr_at ram0 (tab + 56 * of_nat i)"
  proof -
    have "peek ram (tab + 56 * of_nat i) 56 = peek ram0 (tab + 56 * of_nat i) 56"
    proof (rule peek_cong)
      fix j :: nat assume "j < 56"
      then have "off + 56 * i + j < unat size0" using assms(5) i by linarith
      moreover have "tab + 56 * of_nat i + of_nat j = buf + of_nat (off + 56 * i + j)" using assms(4) by (simp add: ac_simps)
      ultimately show "ram (tab + 56 * of_nat i + of_nat j) = ram0 (tab + 56 * of_nat i + of_nat j)" using Suc.prems(2) in_buf by metis
    qed
    then show ?thesis by (simp add: phdr_at_def)
  qed
  then have ph: "phdr_at ram (tab + 56 * of_nat i) = ?ph" using assms(1) i by simp
  have dr: "drop i phs = ?ph # drop (Suc i) phs" by (rule Cons_nth_drop_Suc [symmetric]) (use i assms(1) in simp)
  have nxt: "(of_nat i :: u16) + 1 = of_nat (Suc i)" "tab + 56 * of_nat i + 56 = tab + 56 * of_nat (Suc i)" by (simp_all add: algebra_simps)
  have img: "img = peek ram buf (unat size0)" unfolding assms(9) by (rule peek_cong [symmetric]) (use Suc.prems(2) in_buf in auto)
  have mem: "?ph \<in> set phs" using i assms(1) by simp
  have step: "copy_segments buf size0 lo lo (of_nat i) (tab + 56 * of_nat i) ram =
      copy_segments buf size0 lo lo (of_nat (Suc i)) (tab + 56 * of_nat (Suc i)) (place img ?ph ram) \<and>
      (\<forall>x. x \<notin> window lo (unat (hi - lo)) \<longrightarrow> place img ?ph ram x = ram x)"
  proof (cases "skipped ?ph")
    case True
    then show ?thesis using lt unfolding nxt [symmetric] by (subst copy_segments.simps) (simp add: en ph place_def)
  next
    case False
    then have f: "holds (lo, hi) ?ph" "p_filesz ?ph \<le> p_memsz ?ph" "p_offset ?ph \<le> size0" "p_filesz ?ph \<le> size0 - p_offset ?ph" using assms(10) mem by auto
    note C = copy_one [OF img assms(6,7,8) False f]
    show ?thesis using lt C False unfolding nxt [symmetric] by (subst copy_segments.simps) (simp add: en ph)
  qed
  have "\<forall>x\<in>window buf (unat size0). place img ?ph ram x = ram0 x" using step Suc.prems(2) assms(7) by fastforce
  from Suc.hyps(1) [OF _ _ this, of "Suc i"] have
    "copy_segments buf size0 lo lo (of_nat (Suc i)) (tab + 56 * of_nat (Suc i)) (place img ?ph ram) = (None, fold (place img) (drop (Suc i) phs) (place img ?ph ram)) \<and>
     (\<forall>x. x \<notin> window lo (unat (hi - lo)) \<longrightarrow> fold (place img) (drop (Suc i) phs) (place img ?ph ram) x = place img ?ph ram x)"
    using Suc.hyps(2) i by simp
  then show ?case using step unfolding dr by simp
qed

subsection \<open>The loader\<close>

text \<open>Allocation at an address gives that address or fails, as the firmware specification says.\<close>

definition allocates_at_address :: "'d page_services \<Rightarrow> bool" where
  "allocates_at_address svc \<longleftrightarrow> (\<forall>pages a d. case AllocatePages svc pages a d of (st, a', d') \<Rightarrow> EFI_ERROR st \<or> a' = a)"

lemma allocates_atD: "AllocatePages svc pages a d = (st, a', d') \<Longrightarrow> \<not> EFI_ERROR st \<Longrightarrow> allocates_at_address svc \<Longrightarrow> a' = a"
  unfolding allocates_at_address_def by (metis (mono_tags, lifting) prod.case)

lemma acquire_base:
  assumes "kernel_acquire_load_pages svc link_base pages km d = (stt, load_base, km1, d1)" and "\<not> EFI_ERROR stt" and "allocates_at_address svc"
  shows "load_base = link_base" and "km_ram km1 = km_ram km" and "stt = EFI_SUCCESS"
  using assms
  by (auto simp: kernel_acquire_load_pages_def kernel_release_fixed_window_def Let_def efi_codes dest: allocates_atD split: if_splits prod.splits)

lemma table_in_memory:
  assumes "off + 56 * n \<le> m" and "img = peek ram buf m"
  shows "elf_phdrs n (drop off img) = map (\<lambda>i. phdr_at ram (buf + of_nat off + 56 * of_nat i)) [0..<n]"
proof -
  have "take 56 (drop (56 * i) (drop off img)) = peek ram (buf + of_nat off + 56 * of_nat i) 56" if "i < n" for i
  proof -
    have "off + 56 * i + 56 \<le> m" using that assms(1) by linarith
    from peek_slice [OF this, of ram buf] show ?thesis by (simp add: assms(2) ac_simps)
  qed
  then show ?thesis by (simp add: elf_phdrs_def phdr_at_def)
qed

text \<open>A validated image: the second pass over the headers finds what the first one planned.\<close>

lemma load_validated:
  assumes "img = peek (km_ram km) buf (unat size0)" and "validate_kernel_buffer img = Inr plan"
  shows "load_kernel_from_buffer svc buf size0 km d =
    (let (stt, load_base, km1, d1) = kernel_acquire_load_pages svc (kp_link_base plan) (kp_pages plan) km d
     in if EFI_ERROR stt then (stt, None, km1, d1)
        else
          case copy_segments buf size0 load_base (kp_link_base plan) 0 (buf + e_phoff (elf_ehdr (take 64 img))) (km_ram km1) of
            (Some status, ram) \<Rightarrow>
              (let (km2, d2) = kernel_release_load_pages svc load_base (kp_pages plan) (km1\<lparr>km_ram := ram\<rparr>) d1 in (status, None, km2, d2))
          | (None, ram) \<Rightarrow>
              (EFI_SUCCESS, Some (load_base + (e_entry (ehdr_at ram buf) - kp_link_base plan)), km1\<lparr>km_ram := ram\<rparr>, d1))"
proof -
  let ?ram = "km_ram km" and ?eh = "elf_ehdr (take 64 img)"
  have len: "length img = unat size0" "length img < 2 ^ 64" using assms(1) unsigned_less [of size0] by simp_all
  note V = validate_facts [OF assms(2) len(2)]
  note P = plan_facts [OF V(2)]
  have "take 64 img = peek ?ram buf 64" using peek_slice [of 0 64 "unat size0" ?ram buf] V(1) len(1) assms(1) by simp
  then have eh: "ehdr_at ?ram buf = ?eh" by (simp add: ehdr_at_def)
  have tab: "unat (e_phoff ?eh) + 56 * unat (e_phnum ?eh) \<le> unat size0" using V(3) len(1) by simp
  have phs: "map (\<lambda>i. phdr_at ?ram (buf + e_phoff ?eh + 56 * of_nat i)) [0..<unat (e_phnum ?eh)] = image_phdrs img"
    using table_in_memory [OF tab assms(1)] by (simp add: image_phdrs_def Let_def)
  have sz: "(of_nat (length img) :: u64) = size0" using len(1) by simp
  have "length (image_phdrs img) = unat (e_phnum ?eh)" by (simp add: image_phdrs_def Let_def)
  then have span: "span_segments (image_phdrs img) (UINT64_MAX, 0) = Some (kp_link_base plan, kp_link_end plan)"
    using plan_span [of size0 "image_phdrs img"] P(2) by (simp add: sz)
  have pg: "drop_bit 12 (kp_link_end plan - kp_link_base plan + 0xFFF) = kp_pages plan" using P(7,8) by simp
  have ok: "\<not> size0 < 64" "\<not> (e_magic ?eh \<noteq> ELF_MAGIC \<or> e_machine ?eh \<noteq> EM_X86_64)"
    "\<not> (e_phnum ?eh = 0 \<or> e_phnum ?eh > KERNEL_MAX_PHDRS \<or> e_phentsize ?eh \<noteq> 56)" "\<not> table_outside ?eh size0"
    "\<not> (kp_link_base plan = UINT64_MAX \<or> kp_link_end plan \<le> kp_link_base plan)"
    using V(1) len(1) P(1,3,4) sz by (simp_all add: word_less_nat_alt word_le_nat_alt not_less not_le)
  show ?thesis
    unfolding load_kernel_from_buffer_def assms(1) [symmetric] assms(2) eh Let_def sum.case phs span option.case prod.case pg
    by (simp only: ok if_False)
qed

lemma load_buffer:
  assumes "img = peek (km_ram km) buf (unat size0)" and "validate_kernel_buffer img = Inr plan" and "allocates_at_address svc"
    and "unat buf + unat size0 < 2 ^ 64" and "window buf (unat size0) \<inter> window (kp_link_base plan) (unat (kp_span plan)) = {}"
    and "kernel_acquire_load_pages svc (kp_link_base plan) (kp_pages plan) km d = (stt, load_base, km1, d1)" and "\<not> EFI_ERROR stt"
  shows "load_kernel_from_buffer svc buf size0 km d =
      (EFI_SUCCESS, Some (kp_entry plan), km1\<lparr>km_ram := fold (place img) (image_phdrs img) (km_ram km)\<rparr>, d1) \<and>
    (\<forall>x. x \<notin> window (kp_link_base plan) (unat (kp_span plan)) \<longrightarrow> fold (place img) (image_phdrs img) (km_ram km) x = km_ram km x)"
proof -
  let ?ram = "km_ram km" and ?eh = "elf_ehdr (take 64 img)" and ?lo = "kp_link_base plan" and ?hi = "kp_link_end plan"
  have len: "length img = unat size0" "length img < 2 ^ 64" using assms(1) unsigned_less [of size0] by simp_all
  note V = validate_facts [OF assms(2) len(2)]
  note P = plan_facts [OF V(2)]
  note A = acquire_base [OF assms(6,7,3)]
  have t64: "take 64 img = peek ?ram buf 64" using peek_slice [of 0 64 "unat size0" ?ram buf] V(1) len(1) assms(1) by simp
  then have eh: "ehdr_at ?ram buf = ?eh" by (simp add: ehdr_at_def)
  define off where "off = unat (e_phoff ?eh)"
  define n where "n = e_phnum ?eh"
  have tab: "off + 56 * unat n \<le> unat size0" using V(3) len(1) by (simp add: off_def n_def)
  have offw: "of_nat off = e_phoff ?eh" by (simp add: off_def)
  have phs: "image_phdrs img = map (\<lambda>i. phdr_at ?ram (buf + of_nat off + 56 * of_nat i)) [0..<unat n]"
    using table_in_memory [OF tab assms(1)] by (simp add: image_phdrs_def Let_def off_def n_def)
  have sz: "(of_nat (length img) :: u64) = size0" using len(1) by simp
  have pl: "plan_segments size0 (image_phdrs img) (UINT64_MAX, 0) = Some (?lo, ?hi)" using P(2) phs by (simp add: sz n_def)
  note H = plan_holds [OF pl]
  have sp: "kp_span plan = ?hi - ?lo" using P by simp
  have C: "copy_segments buf size0 ?lo ?lo (of_nat 0) (buf + of_nat off + 56 * of_nat 0) ?ram = (None, fold (place img) (drop 0 (image_phdrs img)) ?ram) \<and>
    (\<forall>x. x \<notin> window ?lo (unat (?hi - ?lo)) \<longrightarrow> fold (place img) (drop 0 (image_phdrs img)) ?ram x = ?ram x)"
  proof (rule copy_all [OF phs])
    show "n = e_phnum (ehdr_at ?ram buf)" by (simp add: eh n_def)
    show "64 \<le> unat size0" using V(1) len(1) by simp
    show "window buf (unat size0) \<inter> window ?lo (unat (?hi - ?lo)) = {}" using assms(5) sp by simp
    show "?lo \<le> ?hi" using P(4) by simp
    show "\<forall>ph\<in>set (image_phdrs img). skipped ph \<or> holds (?lo, ?hi) ph \<and> p_filesz ph \<le> p_memsz ph \<and> p_offset ph \<le> size0 \<and> p_filesz ph \<le> size0 - p_offset ph"
      using H by blast
  qed (use tab assms(1,4) in simp_all)
  let ?fin = "fold (place img) (image_phdrs img) ?ram"
  have out: "\<forall>x. x \<notin> window ?lo (unat (kp_span plan)) \<longrightarrow> ?fin x = ?ram x" using C sp by simp
  have "peek ?fin buf 64 = peek ?ram buf 64"
  proof (rule peek_cong)
    fix i :: nat assume "i < 64"
    then have "buf + of_nat i \<in> window buf (unat size0)" using V(1) len by (intro window_offset) simp_all
    then show "?fin (buf + of_nat i) = ?ram (buf + of_nat i)" using out assms(5) by blast
  qed
  then have en: "e_entry (ehdr_at ?fin buf) = kp_entry plan" using P(9) eh by (simp add: ehdr_at_def)
  have "load_kernel_from_buffer svc buf size0 km d = (EFI_SUCCESS, Some (?lo + (kp_entry plan - ?lo)), km1\<lparr>km_ram := ?fin\<rparr>, d1)"
    unfolding load_validated [OF assms(1,2)] assms(6) using assms(7) C A en by (simp add: offw)
  then show ?thesis using out by simp
qed

text \<open>The pages acquired cover the span.\<close>

lemma plan_aligned: "plan_segments n phs b = Some b' \<Longrightarrow> unat (snd b) mod 4096 = 0 \<Longrightarrow> unat (snd b') mod 4096 = 0"
proof (induction phs arbitrary: b)
  case (Cons ph phs)
  have "unat (snd (widen ph b)) mod 4096 = 0"
  proof -
    obtain l h where b: "b = (l, h)" by fastforce
    have "snd (widen ph b) = h \<or> snd (widen ph b) = (p_paddr ph + p_memsz ph + 0xFFF) AND NOT 0xFFF" unfolding b widen_def Let_def by simp
    then show ?thesis using Cons.prems(2) page_down [of "p_paddr ph + p_memsz ph + 0xFFF"] b by (metis mod_mult_self2_is_0 snd_conv)
  qed
  then show ?case using Cons by (auto split: if_splits)
qed simp

lemma pages_cover:
  assumes "kernel_plan_from_headers eh phdrs n = Inr plan"
  shows "unat (kp_span plan) \<le> 4096 * unat (kp_pages plan)" and "kp_pages plan \<noteq> 0"
proof -
  note P = plan_facts [OF assms]
  have al: "unat (kp_link_end plan) mod 4096 = 0" using plan_aligned [OF P(2)] by simp
  have "unat (kp_link_end plan) < 2 ^ LENGTH(64)" by (rule unsigned_less)
  then have lt: "unat (kp_link_end plan) < 18446744073709551616" by simp
  have round: "x \<le> 18446744073709551616 - 4096" if "x mod 4096 = 0" "x < 18446744073709551616" for x :: nat
  proof -
    have "x = 4096 * (x div 4096)" using that(1) div_mult_mod_eq [of x 4096] by linarith
    moreover have "x div 4096 < 4503599627370496" using that(2) by (intro less_mult_imp_div_less) simp
    ultimately show ?thesis by linarith
  qed
  note e = round [OF al lt]
  have s: "unat (kp_span plan) = unat (kp_link_end plan) - unat (kp_link_base plan)" "0 < unat (kp_span plan)"
    using P(4,7) by (simp_all add: unat_sub less_imp_le word_less_nat_alt)
  then have "unat (kp_span plan + 0xFFF) = unat (kp_span plan) + 4095" using e by (simp add: unat_word_ariths)
  then have p: "unat (kp_pages plan) = (unat (kp_span plan) + 4095) div 4096" unfolding P(8) unat_drop_bit_eq by (simp add: drop_bit_eq_div)
  have up: "x \<le> 4096 * ((x + 4095) div 4096)" for x :: nat
    using div_mult_mod_eq [of "x + 4095" 4096] mod_less_divisor [of 4096 "x + 4095"] by linarith
  show "unat (kp_span plan) \<le> 4096 * unat (kp_pages plan)" unfolding p by (rule up)
  then show "kp_pages plan \<noteq> 0" using s(2) by auto
qed

lemma read_segments_window:
  assumes "\<forall>off n d. length (fst (snd (reader off n d))) \<le> unat n" and "lo \<le> hi"
    and "\<forall>ph\<in>set phs. skipped ph \<or> holds (lo, hi) ph \<and> p_filesz ph \<le> p_memsz ph"
    and "read_segments reader lo lo phs ram d = (r, ram', d')" and "x \<notin> window lo (unat (hi - lo))"
  shows "ram' x = ram x"
  using assms(3,4)
proof (induction phs arbitrary: ram d)
  case (Cons ph phs)
  show ?case
  proof (cases "skipped ph \<or> p_filesz ph = 0")
    case True
    then have "read_segments reader lo lo phs ram d = (r, ram', d')" using Cons.prems(2) by simp
    then show ?thesis using Cons.IH Cons.prems(1) by simp
  next
    case False
    obtain st b d1 where rd: "reader (p_offset ph) (p_filesz ph) d = (st, b, d1)" by (metis prod_cases3)
    obtain st2 b2 d2 where rd2: "reader (p_offset ph) 8 d1 = (st2, b2, d2)" by (metis prod_cases3)
    have lb: "length b \<le> unat (p_filesz ph)" using assms(1) rd by (metis fst_conv snd_conv)
    have h: "unat lo \<le> unat (p_paddr ph)" "unat (p_paddr ph) + unat (p_filesz ph) \<le> unat hi" using False Cons.prems(1) by (auto simp: holds_def word_le_nat_alt)
    have w: "unat (hi - lo) = unat hi - unat lo" "unat lo \<le> unat hi" using assms(2) by (simp_all add: unat_sub word_le_nat_alt)
    have "unat hi < 2 ^ LENGTH(64)" by (rule unsigned_less)
    then have "window (p_paddr ph) (length b) \<subseteq> window lo (unat (hi - lo))"
      by (intro window_within) (use h w lb in auto)
    then have same: "poke (p_paddr ph) b ram x = ram x" using assms(5) by (intro poke_outside) blast
    have "ram' = poke (p_paddr ph) b ram \<or> read_segments reader lo lo phs (poke (p_paddr ph) b ram) d2 = (r, ram', d')"
      using Cons.prems(2) False rd rd2 by (auto simp: Let_def split: if_splits)
    then show ?thesis using same Cons.IH [of "poke (p_paddr ph) b ram" d2] Cons.prems(1) by auto
  qed
qed simp

lemma read_segments_error: "read_segments reader a b phs ram d = (Some st, ram', d') \<Longrightarrow> EFI_ERROR st"
  by (induction phs arbitrary: ram d) (auto simp: Let_def split: if_splits prod.splits)

lemma release_ram: "kernel_release_load_pages svc a n km d = (km', d') \<Longrightarrow> km_ram km' = km_ram km"
  by (auto simp: kernel_release_load_pages_def kernel_release_fixed_window_def split: if_splits)

lemma load_reader:
  assumes "load_kernel_from_reader svc reader size0 km d = (st, entry, km', d')" and "allocates_at_address svc"
    and "\<forall>off n d. length (fst (snd (reader off n d))) \<le> unat n"
  shows "EFI_ERROR st \<and> km_ram km' = km_ram km \<or>
    (\<exists>(plan :: kernel_load_plan) d0 km1 d1. kernel_acquire_load_pages svc (kp_link_base plan) (kp_pages plan) km d0 = (EFI_SUCCESS, kp_link_base plan, km1, d1) \<and>
      (\<forall>x. x \<notin> window (kp_link_base plan) (4096 * unat (kp_pages plan)) \<longrightarrow> km_ram km' x = km_ram km x) \<and>
      (\<not> EFI_ERROR st \<longrightarrow> entry = Some (kp_entry plan) \<and> kp_entry plan \<in> window (kp_link_base plan) (4096 * unat (kp_pages plan))))"
proof -
  obtain st1 b d1 where r1: "reader 0 64 d = (st1, b, d1)" by (metis prod_cases3)
  let ?eh = "elf_ehdr b"
  obtain st2 t d2 where r2: "reader (e_phoff ?eh) (ucast (e_phnum ?eh) * 56) d1 = (st2, t, d2)" by (metis prod_cases3)
  let ?phs = "elf_phdrs (unat (e_phnum ?eh)) t"
  have bad: "EFI_ERROR st0" if "kernel_plan_from_headers eh phs n = Inl st0" for eh phs n st0
    using that by (auto simp: kernel_plan_from_headers_def efi_codes split: if_splits option.splits prod.splits)
  define rest where "rest plan =
    (let (stt, load_base, km1, d3) = kernel_acquire_load_pages svc (kp_link_base plan) (kp_pages plan) km d2
     in if EFI_ERROR stt then (stt, None, km1, d3)
        else case read_segments reader load_base (kp_link_base plan) ?phs (km_ram km1) d3 of
          (Some status, ram, d4) \<Rightarrow>
            (let (km2, d5) = kernel_release_load_pages svc load_base (kp_pages plan) (km1\<lparr>km_ram := ram\<rparr>) d4 in (status, None, km2, d5))
        | (None, ram, d4) \<Rightarrow>
            (EFI_SUCCESS, Some (load_base + (kp_entry plan - kp_link_base plan)), km1\<lparr>km_ram := ram\<rparr>, d4))" for plan :: kernel_load_plan
  let ?odd = "e_phnum ?eh > KERNEL_MAX_PHDRS \<or> e_phentsize ?eh \<noteq> 56"
  have eq: "load_kernel_from_reader svc reader size0 km d =
    (if size0 < 64 then (EFI_LOAD_ERROR, None, km, d) else if EFI_ERROR st1 then (st1, None, km, d1)
     else if ?odd then (case kernel_plan_from_headers ?eh [] size0 of Inl status \<Rightarrow> (status, None, km, d1) | Inr _ \<Rightarrow> (EFI_SUCCESS, None, km, d1))
     else if EFI_ERROR st2 then (st2, None, km, d2)
     else case kernel_plan_from_headers ?eh ?phs size0 of Inl status \<Rightarrow> (status, None, km, d2) | Inr plan \<Rightarrow> rest plan)"
    unfolding load_kernel_from_reader_def rest_def Let_def r1 r2 prod.case by (rule refl)
  have odd: "\<exists>st0. kernel_plan_from_headers ?eh [] size0 = Inl st0 \<and> EFI_ERROR st0" if ?odd
  proof (cases "kernel_plan_from_headers ?eh [] size0")
    case (Inl st0)
    then show ?thesis using bad by blast
  next
    case (Inr p)
    from plan_facts(1) [OF this] show ?thesis using that by (auto simp: not_le [symmetric])
  qed
  consider "EFI_ERROR st" "km' = km"
    | plan where "kernel_plan_from_headers ?eh ?phs size0 = Inr plan" "rest plan = (st, entry, km', d')"
  proof -
    have "EFI_ERROR st \<and> km' = km \<or> (\<exists>plan. kernel_plan_from_headers ?eh ?phs size0 = Inr plan \<and> rest plan = (st, entry, km', d'))"
    proof (cases "size0 < 64 \<or> EFI_ERROR st1 \<or> ?odd \<or> EFI_ERROR st2")
      case True
      then show ?thesis using assms(1) odd unfolding eq by (auto simp: efi_codes split: if_splits)
    next
      case False
      then have "(case kernel_plan_from_headers ?eh ?phs size0 of Inl status \<Rightarrow> (status, None, km, d2) | Inr plan \<Rightarrow> rest plan) = (st, entry, km', d')"
        using assms(1) unfolding eq by simp
      then show ?thesis using bad [of ?eh ?phs size0] by (auto split: sum.splits)
    qed
    then show thesis using that by blast
  qed
  then show ?thesis
  proof cases
    case 1
    then show ?thesis by simp
  next
    case (2 plan)
    note plan = 2(1)
    obtain stt lb km1 d3 where acq: "kernel_acquire_load_pages svc (kp_link_base plan) (kp_pages plan) km d2 = (stt, lb, km1, d3)" by (metis prod_cases4)
    obtain r ram d4 where rs: "read_segments reader lb (kp_link_base plan) ?phs (km_ram km1) d3 = (r, ram, d4)" by (metis prod_cases3)
    obtain km2 d5 where rel: "kernel_release_load_pages svc lb (kp_pages plan) (km1\<lparr>km_ram := ram\<rparr>) d4 = (km2, d5)" by fastforce
    have res: "(st, entry, km', d') =
      (if EFI_ERROR stt then (stt, None, km1, d3)
       else case r of Some status \<Rightarrow> (status, None, km2, d5) | None \<Rightarrow> (EFI_SUCCESS, Some (lb + (kp_entry plan - kp_link_base plan)), km1\<lparr>km_ram := ram\<rparr>, d4))"
      using 2(2) unfolding rest_def acq Let_def prod.case rs by (cases r) (auto simp: rel split: if_splits)
    show ?thesis
    proof (cases "EFI_ERROR stt")
      case True
      then have "km_ram km1 = km_ram km"
        using acq by (auto simp: kernel_acquire_load_pages_def kernel_release_fixed_window_def Let_def split: if_splits prod.splits)
      then show ?thesis using res True by simp
    next
      case False
      note A = acquire_base [OF acq False assms(2)] and P = plan_facts [OF plan] and G = pages_cover [OF plan]
      have m: "km_ram km' = ram" using res False release_ram [OF rel] by (auto split: option.splits)
      have span: "unat (kp_link_end plan - kp_link_base plan) \<le> 4096 * unat (kp_pages plan)" using G(1) P(7) by simp
      then have win: "window (kp_link_base plan) (unat (kp_link_end plan - kp_link_base plan)) \<subseteq> window (kp_link_base plan) (4096 * unat (kp_pages plan))"
        by (auto simp: window_def)
      have "take (unat (e_phnum ?eh)) ?phs = ?phs" by simp
      then have hold: "\<forall>ph\<in>set ?phs. skipped ph \<or> holds (kp_link_base plan, kp_link_end plan) ph \<and> p_filesz ph \<le> p_memsz ph"
        using plan_holds [OF P(2)] by auto
      have keep: "\<forall>x. x \<notin> window (kp_link_base plan) (4096 * unat (kp_pages plan)) \<longrightarrow> km_ram km' x = km_ram km x"
      proof (intro allI impI)
        fix x assume "x \<notin> window (kp_link_base plan) (4096 * unat (kp_pages plan))"
        then have x: "x \<notin> window (kp_link_base plan) (unat (kp_link_end plan - kp_link_base plan))" using win by blast
        have "kp_link_base plan \<le> kp_link_end plan" using P(4) by simp
        from read_segments_window [OF assms(3) this hold rs [unfolded A(1)] x] show "km_ram km' x = km_ram km x" using m A(2) by simp
      qed
      have ent: "kp_entry plan \<in> window (kp_link_base plan) (4096 * unat (kp_pages plan))"
      proof -
        have "unat (kp_entry plan - kp_link_base plan) < unat (kp_link_end plan - kp_link_base plan)"
          using P(4-6) by (simp add: unat_sub less_imp_le word_less_nat_alt word_le_nat_alt)
        then show ?thesis using span by (simp add: window_def)
      qed
      have "\<not> EFI_ERROR st \<longrightarrow> entry = Some (kp_entry plan)"
        using res False A(1) read_segments_error rs by (auto split: option.splits)
      moreover have "kernel_acquire_load_pages svc (kp_link_base plan) (kp_pages plan) km d2 = (EFI_SUCCESS, kp_link_base plan, km1, d3)"
        using acq A(1,3) by simp
      ultimately show ?thesis using keep ent by blast
    qed
  qed
qed

end
