(* ===== verification/BootLoader.thy ===== *)
theory BootLoader
  imports BootRun KernelImage
begin

text \<open>
  The boot loader's use of the slots: \<^verbatim>\<open>load_kernel_from_ab_store\<close> and its helpers in
  \<^verbatim>\<open>boot/uefi_loader/kernel_discovery_streaming.c\<close>, and the installer's \<^verbatim>\<open>write_boot_partition_raw\<close> in
  \<^verbatim>\<open>installer_run.c\<close>. The loader checks the partition table against the identity of the disk it was started from, binds the control
  records, asks the manager for a slot, reads the slot's payload, compares its digest with the record and only then
  loads it; if a slot on trial cannot be loaded, it asks again and gets the fallback.

  The state is the one of the machine (\<open>BootRun\<close>), with the memory of \<open>KernelImage\<close>; \<open>at\<close> says where the caller's sector
  buffers lie, and \<open>store\<close> is the address of the static store object. Debug output is left out.
\<close>

subsection \<open>The table and the identity\<close>

definition BOOT_HANDOFF_DISK_IDENTITY_VALID :: u32 where "BOOT_HANDOFF_DISK_IDENTITY_VALID = 1"
definition BOOT_HANDOFF_SLOT_ATTEMPT_VALID :: u32 where "BOOT_HANDOFF_SLOT_ATTEMPT_VALID = 1"
definition BOOT_HANDOFF_SLOT_ATTEMPT_PENDING :: u32 where "BOOT_HANDOFF_SLOT_ATTEMPT_PENDING = 2"
definition BOOT_HANDOFF_SLOT_ATTEMPT_ROLLBACK :: u32 where "BOOT_HANDOFF_SLOT_ATTEMPT_ROLLBACK = 4"

record boot_disk_identity =
  di_flags :: u32
  di_reserved :: u32
  di_esp_lba_start :: u64
  di_esp_lba_count :: u64
  di_boot_lba_start :: u64
  di_boot_lba_count :: u64
  di_data_lba_start :: u64
  di_data_lba_count :: u64
  di_disk_guid :: "u8 list"
  di_esp_partition_guid :: "u8 list"
  di_boot_partition_guid :: "u8 list"
  di_data_partition_guid :: "u8 list"

record boot_slot_attempt_handoff =
  at_flags :: u32
  at_slot :: u32
  at_generation :: u64

definition attempt_zero :: boot_slot_attempt_handoff where
  "attempt_zero = \<lparr>at_flags = 0, at_slot = 0, at_generation = 0\<rparr>"

definition uefi_slot_bytes_equal :: "u8 list \<Rightarrow> u8 list \<Rightarrow> nat \<Rightarrow> bool" where
  "uefi_slot_bytes_equal a b len = (fold (\<lambda>i diff. diff OR (a ! i XOR b ! i)) [0..<len] (0::u8) = 0)"

definition uefi_ab_gpt_read :: "'d uefi_boot_store_context \<Rightarrow> ('d \<Rightarrow> u64) \<Rightarrow> 'd gpt_reader" where
  "uefi_ab_gpt_read ctx at lba d =
     (let (status, r, d1) = uefi_block_io_read (ctx_bio ctx) (ctx_media_id ctx) (ucast lba) 512 (at d) sector_junk d
      in (if EFI_ERROR status then -1 else 0, r, d1))"

definition uefi_ab_identity_matches :: "capyos_gpt_identity \<Rightarrow> boot_disk_identity \<Rightarrow> bool" where
  "uefi_ab_identity_matches gi expected \<longleftrightarrow>
     di_flags expected = BOOT_HANDOFF_DISK_IDENTITY_VALID \<and>
     di_esp_lba_start expected = ucast (pi_lba (gi_esp gi)) \<and> di_esp_lba_count expected = ucast (pi_sectors (gi_esp gi)) \<and>
     di_boot_lba_start expected = ucast (pi_lba (gi_boot gi)) \<and> di_boot_lba_count expected = ucast (pi_sectors (gi_boot gi)) \<and>
     di_data_lba_start expected = ucast (pi_lba (gi_data gi)) \<and> di_data_lba_count expected = ucast (pi_sectors (gi_data gi)) \<and>
     uefi_slot_bytes_equal (di_disk_guid expected) (gi_disk_guid gi) 16 \<and>
     uefi_slot_bytes_equal (di_esp_partition_guid expected) (pi_guid (gi_esp gi)) 16 \<and>
     uefi_slot_bytes_equal (di_boot_partition_guid expected) (pi_guid (gi_boot gi)) 16 \<and>
     uefi_slot_bytes_equal (di_data_partition_guid expected) (pi_guid (gi_data gi)) 16"

subsection \<open>Loading the selected slot\<close>

text \<open>What the loader works on: store and manager, device, memory.\<close>

type_synonym 'd loader_state = "store_state \<times> 'd provided \<times> kernel_memory"

text \<open>The header read from the slot says what the manager says.\<close>

definition header_agrees :: "boot_slot \<Rightarrow> boot_slot_image \<Rightarrow> bool" where
  "header_agrees sl img \<longleftrightarrow>
     sl_payload_size sl = im_payload_size img \<and> uefi_slot_bytes_equal (sl_version sl) (im_version img) BOOT_SLOT_VERSION_MAX \<and>
     uefi_slot_bytes_equal (sl_payload_sha256 sl) (im_payload_sha256 img) BOOT_SLOT_SHA256_SIZE"

text \<open>The part after the header: read the payload into fresh memory, check padding and digest, load.\<close>

definition load_payload ::
  "'d page_services \<Rightarrow> 'd uefi_boot_store_context \<Rightarrow> boot_slot \<Rightarrow> boot_slot_image \<Rightarrow> 'd \<Rightarrow> kernel_memory \<Rightarrow>
   u64 \<times> u64 option \<times> 'd \<times> kernel_memory" where
  "load_payload svc ctx sl img d km =
     (let bio = ctx_bio ctx;
          sectors = im_payload_size img div 512 + (if im_payload_size img mod 512 \<noteq> 0 then 1 else 0)
      in if sectors = 0 \<or> sectors > sl_payload_capacity_sectors sl \<or> ucast sectors > UINT64_MAX div 512 then (EFI_COMPROMISED_DATA, None, d, km)
         else
           (let rounded = ucast sectors * 512
            in case uefi_block_io_allocate_aligned bio rounded d of (Inl status, d1) \<Rightarrow> (status, None, d1, km)
               | (Inr (allocation, buffer), d1) \<Rightarrow>
                   (let (status, r, d2) = uefi_block_io_read bio (ctx_media_id ctx) (ctx_boot_lba ctx + ucast (sl_payload_lba sl)) rounded buffer
                          (peek (km_ram km) buffer (unat rounded)) d1;
                        km1 = km\<lparr>km_ram := poke buffer r (km_ram km)\<rparr>
                    in if EFI_ERROR status then (status, None, bio_FreePool bio allocation d2, km1)
                       else if list_ex (\<lambda>x. x \<noteq> 0) (peek (km_ram km1) (buffer + ucast (im_payload_size img)) (unat rounded - unat (im_payload_size img)))
                       then (EFI_COMPROMISED_DATA, None, bio_FreePool bio allocation d2, km1)
                       else if \<not> uefi_slot_bytes_equal (sha256_hash sha_junk (peek (km_ram km1) buffer (unat (im_payload_size img))))
                              (im_payload_sha256 img) BOOT_SLOT_SHA256_SIZE
                       then (EFI_SECURITY_VIOLATION, None, bio_FreePool bio allocation d2, km1)
                       else
                         (let (status, entry, km2, d3) = load_kernel_from_buffer svc buffer (ucast (im_payload_size img)) km1 d2
                          in (status, entry, bio_FreePool bio allocation d3, km2)))))"

definition uefi_load_selected_slot ::
  "'d page_services \<Rightarrow> 'd uefi_boot_store_context \<Rightarrow> ('d \<Rightarrow> u64) \<Rightarrow> nat \<Rightarrow> u32 \<Rightarrow> 'd loader_state \<Rightarrow> u64 \<times> u64 option \<times> 'd loader_state" where
  "uefi_load_selected_slot svc ctx at store slot l =
     (let (s, c, km) = l
      in if slot \<ge> BOOT_SLOT_COUNT then (EFI_COMPROMISED_DATA, None, l)
         else
           (let ((rc, got), b) = boot_slot_manager_get (st_boot s); s1 = s\<lparr>st_boot := b\<rparr>
            in case got of None \<Rightarrow> (EFI_COMPROMISED_DATA, None, s1, c, km)
               | Some manager \<Rightarrow>
                   if rc \<noteq> 0 \<or> mg_active_slot manager \<noteq> slot \<or> sl_state (slot_at manager slot) \<noteq> BOOT_SLOT_ACTIVE
                   then (EFI_COMPROMISED_DATA, None, s1, c, km)
                   else
                     (let ((rc, header), s2, c2) = boot_slot_store_read_header (machine_io (uefi_io ctx at)) store 0 slot s1 c
                      in case header of None \<Rightarrow> (EFI_COMPROMISED_DATA, None, s2, c2, km)
                         | Some img \<Rightarrow>
                             if rc \<noteq> 0 \<or> \<not> header_agrees (slot_at manager slot) img then (EFI_COMPROMISED_DATA, None, s2, c2, km)
                             else
                               (let (status, entry, d3, km3) = load_payload svc ctx (slot_at manager slot) img (snd c2) km
                                in (status, entry, s2, (fst c2, d3), km3)))))"

subsection \<open>Starting from the slots\<close>

text \<open>The context is static; the checks that do not touch the slots come first.\<close>

definition ab_store_identity ::
  "'d EFI_BLOCK_IO_PROTOCOL \<Rightarrow> u32 \<Rightarrow> boot_disk_identity \<Rightarrow> ('d \<Rightarrow> u64) \<Rightarrow> 'd \<Rightarrow> (u64 + 'd uefi_boot_store_context) \<times> 'd" where
  "ab_store_identity bio expected_media_id identity at d =
     (case bio_Media bio d of None \<Rightarrow> (Inl EFI_INVALID_PARAMETER, d)
      | Some md \<Rightarrow>
          if md_BlockSize md \<noteq> 512 \<or> di_flags identity \<noteq> BOOT_HANDOFF_DISK_IDENTITY_VALID \<or> di_boot_lba_count identity = 0 \<or>
             di_boot_lba_count identity > 0xFFFFFFFF \<or> di_boot_lba_start identity > md_LastBlock md \<or>
             di_boot_lba_count identity - 1 > md_LastBlock md - di_boot_lba_start identity
          then (Inl EFI_INVALID_PARAMETER, d)
          else if md_MediaId md \<noteq> expected_media_id then (Inl EFI_MEDIA_CHANGED, d)
          else if md_LastBlock md \<ge> 0xFFFFFFFF then (Inl EFI_MEDIA_CHANGED, d)
          else
            (let ctx = \<lparr>ctx_bio = bio, ctx_media_id = expected_media_id, ctx_boot_lba = di_boot_lba_start identity,
                   ctx_boot_sectors = ucast (di_boot_lba_count identity)\<rparr>;
                 (gi, d1) = capyos_gpt_identity_read (uefi_ab_gpt_read ctx at) (md_BlockSize md) (ucast (md_LastBlock md) + 1) d
             in case gi of None \<Rightarrow> (Inl EFI_MEDIA_CHANGED, d1)
                | Some g \<Rightarrow> if \<not> uefi_ab_identity_matches g identity then (Inl EFI_MEDIA_CHANGED, d1) else (Inr ctx, d1)))"

text \<open>Binding the control records: planning, initialisation, opening, binding.\<close>

definition ab_store_bind ::
  "'d uefi_boot_store_context \<Rightarrow> ('d \<Rightarrow> u64) \<Rightarrow> nat \<Rightarrow> store_state \<Rightarrow> 'd provided \<Rightarrow> bool \<times> store_state \<times> 'd provided" where
  "ab_store_bind ctx at store s c =
     (case boot_slot_layout_plan (ctx_boot_sectors ctx) of None \<Rightarrow> (False, s, c)
      | Some layout \<Rightarrow>
          (let (rc, b) = boot_slot_init (st_boot s); s1 = s\<lparr>st_boot := b\<rparr>
           in if rc \<noteq> 0 then (False, s1, c)
              else (let (rc, s2) = boot_slot_store_init store layout (Some 0) s1
                    in if rc \<noteq> 0 then (False, s2, c)
                       else (let (rc, s3, c3) = boot_slot_store_bind_control (machine_io (uefi_io ctx at)) store 0 s2 c in (rc = 0, s3, c3)))))"

definition ab_select ::
  "'d uefi_boot_store_context \<Rightarrow> ('d \<Rightarrow> u64) \<Rightarrow> 'd loader_state \<Rightarrow> (int \<times> u32 \<times> u64) \<times> 'd loader_state" where
  "ab_select ctx at l =
     (let (s, c, km) = l; (r, s1, c1) = on_boot (boot_slot_select_for_boot (bound_io (machine_io (uefi_io ctx at)) s)) s c in (r, s1, c1, km))"

definition attempt_of :: "int \<Rightarrow> u32 \<Rightarrow> u64 \<Rightarrow> boot_slot_attempt_handoff" where
  "attempt_of selection slot generation =
     \<lparr>at_flags = BOOT_HANDOFF_SLOT_ATTEMPT_VALID OR
        (if selection = 1 then BOOT_HANDOFF_SLOT_ATTEMPT_PENDING else if selection = 2 then BOOT_HANDOFF_SLOT_ATTEMPT_ROLLBACK else 0),
      at_slot = slot, at_generation = generation\<rparr>"

text \<open>From the binding on: select, load, and if an image on trial cannot be loaded, select again.\<close>

definition ab_boot ::
  "'d page_services \<Rightarrow> 'd uefi_boot_store_context \<Rightarrow> ('d \<Rightarrow> u64) \<Rightarrow> nat \<Rightarrow> 'd loader_state \<Rightarrow> u64 \<times> u64 option \<times> boot_slot_attempt_handoff \<times> 'd loader_state" where
  "ab_boot svc ctx at store l =
     (let (s, c, km) = l; (bound, s2, c2) = ab_store_bind ctx at store s c
      in if \<not> bound then (EFI_COMPROMISED_DATA, None, attempt_zero, s2, c2, km)
         else
           (let ((selection, slot, generation), l3) = ab_select ctx at (s2, c2, km)
            in if selection < 0 \<or> slot \<ge> BOOT_SLOT_COUNT \<or> generation = 0 then (EFI_COMPROMISED_DATA, None, attempt_zero, l3)
               else
                 (let (status, entry, l4) = uefi_load_selected_slot svc ctx at store slot l3
                  in if EFI_ERROR status \<and> selection = 1
                     then
                       (let ((selection, slot, generation), l5) = ab_select ctx at l4
                        in if selection \<noteq> 2 \<or> slot \<ge> BOOT_SLOT_COUNT \<or> generation = 0 then (EFI_COMPROMISED_DATA, None, attempt_zero, l5)
                           else
                             (let (status, entry, l6) = uefi_load_selected_slot svc ctx at store slot l5
                              in if EFI_ERROR status then (status, None, attempt_zero, l6)
                                 else (EFI_SUCCESS, entry, attempt_of selection slot generation, l6)))
                     else if EFI_ERROR status then (status, None, attempt_zero, l4)
                     else (EFI_SUCCESS, entry, attempt_of selection slot generation, l4))))"

definition load_kernel_from_ab_store ::
  "'d page_services \<Rightarrow> 'd EFI_BLOCK_IO_PROTOCOL \<Rightarrow> u32 \<Rightarrow> boot_disk_identity \<Rightarrow> ('d \<Rightarrow> u64) \<Rightarrow> nat \<Rightarrow> 'd loader_state \<Rightarrow>
   u64 \<times> u64 option \<times> boot_slot_attempt_handoff \<times> 'd loader_state" where
  "load_kernel_from_ab_store svc bio expected_media_id identity at store l =
     (let (s, (p, d), km) = l; (checked, d1) = ab_store_identity bio expected_media_id identity at d
      in case checked of Inl status \<Rightarrow> (status, None, attempt_zero, s, (p, d1), km)
         | Inr ctx \<Rightarrow> ab_boot svc ctx at store (s, (p, d1), km))"

subsection \<open>Installing\<close>

text \<open>The version of the build, from \<^verbatim>\<open>core/version.h\<close>, as far as it fits.\<close>

definition CAPYOS_VERSION_FULL :: "u8 list" where
  "CAPYOS_VERSION_FULL = [0x30, 0x2e, 0x31, 0x31, 0x2e, 0x33, 0x2b, 0x32, 0x30, 0x32, 0x36, 0x31, 0x30, 0x30, 0x34]"

definition installer_image :: "u8 list \<Rightarrow> boot_slot_image" where
  "installer_image kern =
     \<lparr>im_version = take 40 (take 39 CAPYOS_VERSION_FULL @ replicate 40 0), im_payload_size = of_nat (length kern),
      im_payload_sha256 = sha256_hash sha_junk kern\<rparr>"

text \<open>The payload, padded to whole sectors, is written, flushed, read back and checked.\<close>

definition install_payload ::
  "'d EFI_BLOCK_IO_PROTOCOL \<Rightarrow> u32 \<Rightarrow> u64 \<Rightarrow> u64 \<Rightarrow> u8 list \<Rightarrow> boot_slot_image \<Rightarrow> 'd \<Rightarrow> u64 \<times> 'd" where
  "install_payload bio media lba rounded kern img d =
     (case uefi_block_io_allocate_aligned bio rounded d of (Inl status, d1) \<Rightarrow> (status, d1)
      | (Inr (allocation, buffer), d1) \<Rightarrow>
          (let (status, d2) = uefi_block_io_write bio media lba rounded buffer (kern @ replicate (unat rounded - length kern) 0) d1;
               (status, d3) = (if EFI_ERROR status then (status, d2) else uefi_block_io_flush bio media d2);
               (status, r, d4) = (if EFI_ERROR status then (status, [], d3)
                  else uefi_block_io_read bio media lba rounded buffer (replicate (unat rounded) 0) d3);
               status = (if EFI_ERROR status then status
                  else if \<not> uefi_slot_bytes_equal (sha256_hash sha_junk (take (length kern) r)) (im_payload_sha256 img) BOOT_SLOT_SHA256_SIZE
                  then EFI_CRC_ERROR
                  else if list_ex (\<lambda>x. x \<noteq> 0) (drop (length kern) r) then EFI_CRC_ERROR else status)
           in (status, bio_FreePool bio allocation d4)))"

text \<open>The header is written, flushed, read back and compared.\<close>

definition install_header :: "'d EFI_BLOCK_IO_PROTOCOL \<Rightarrow> u32 \<Rightarrow> u64 \<Rightarrow> u8 list \<Rightarrow> ('d \<Rightarrow> u64) \<Rightarrow> 'd \<Rightarrow> u64 \<times> 'd" where
  "install_header bio media lba header at d =
     (let (status, d1) = uefi_block_io_write bio media lba 512 (at d) header d;
          (status, d2) = (if EFI_ERROR status then (status, d1) else uefi_block_io_flush bio media d1);
          (status, readback, d3) = (if EFI_ERROR status then (status, [], d2) else uefi_block_io_read bio media lba 512 (at d2) sector_junk d2)
      in (if EFI_ERROR status then status else if \<not> uefi_slot_bytes_equal header readback 512 then EFI_CRC_ERROR else EFI_SUCCESS, d3))"

text \<open>The control records: both copies must be blank, and are then written.\<close>

definition install_control ::
  "'d uefi_boot_store_context \<Rightarrow> ('d \<Rightarrow> u64) \<Rightarrow> nat \<Rightarrow> boot_slot_layout \<Rightarrow> boot_slot_image \<Rightarrow> store_state \<Rightarrow> 'd provided \<Rightarrow>
   bool \<times> store_state \<times> 'd provided" where
  "install_control ctx at store layout img s c =
     (let ios = machine_io (uefi_io ctx at); (rc, b) = boot_slot_init (st_boot s); s1 = s\<lparr>st_boot := b\<rparr>
      in if rc \<noteq> 0 then (False, s1, c)
         else (let (rc, s2) = boot_slot_store_init store layout (Some 0) s1
               in if rc \<noteq> 0 then (False, s2, c)
                  else (let (rc, s3, c3) = boot_slot_store_bind_control ios store 0 s2 c
                        in if rc \<noteq> BOOT_SLOT_PERSIST_EMPTY then (False, s3, c3)
                           else (let (rc, s4, c4) = boot_slot_store_initialize_persistent ios store 0 img s3 c3
                                 in if rc \<noteq> 0 then (False, s4, c4)
                                    else (let ((rc, got), b) = boot_slot_manager_get (st_boot s4)
                                          in case got of None \<Rightarrow> (False, s4\<lparr>st_boot := b\<rparr>, c4)
                                             | Some m \<Rightarrow>
                                                 if rc \<noteq> 0 \<or> mg_active_slot m \<noteq> 0 \<or> mg_confirmed_slot m \<noteq> 0 \<or> mg_pending_slot m \<noteq> BOOT_SLOT_NONE
                                                 then (False, s4\<lparr>st_boot := b\<rparr>, c4)
                                                 else (let (g, b) = boot_slot_persistence_generation b in (g = 2, s4\<lparr>st_boot := b\<rparr>, c4)))))))"

definition write_boot_partition_raw ::
  "'d EFI_BLOCK_IO_PROTOCOL \<Rightarrow> u32 \<Rightarrow> u64 \<Rightarrow> u64 \<Rightarrow> u8 list \<Rightarrow> ('d \<Rightarrow> u64) \<Rightarrow> nat \<Rightarrow> store_state \<Rightarrow> 'd provided \<Rightarrow> u64 \<times> store_state \<times> 'd provided" where
  "write_boot_partition_raw bio media boot_lba boot_sectors kern at store s c =
     (let (p, d) = c
      in case bio_Media bio d of None \<Rightarrow> (EFI_INVALID_PARAMETER, s, c)
         | Some md \<Rightarrow>
             if md_BlockSize md \<noteq> 512 \<or> md_MediaId md \<noteq> media \<or> boot_sectors = 0 \<or> boot_sectors > 0xFFFFFFFF \<or> boot_lba > md_LastBlock md \<or>
                boot_sectors - 1 > md_LastBlock md - boot_lba \<or> kern = [] \<or> length kern > 0xFFFFFFFF
             then (EFI_INVALID_PARAMETER, s, c)
             else case (boot_slot_layout_plan (ucast boot_sectors), validate_kernel_buffer kern) of
               (Some layout, Inr _) \<Rightarrow>
                 (let img = installer_image kern; region = fst (ly_slots layout); sectors = of_nat ((length kern + 511) div 512) :: u32
                  in if sectors = 0 \<or> sectors > rg_payload_capacity_sectors region then (EFI_OUT_OF_RESOURCES, s, c)
                     else
                       (let (status, d1) = install_payload bio media (boot_lba + ucast (rg_payload_lba region)) (ucast sectors * 512) kern img d
                        in if EFI_ERROR status then (status, s, p, d1)
                           else case snd (boot_slot_store_encode_header layout 0 img) of
                             Some header \<Rightarrow>
                               (let (status, d2) = install_header bio media (boot_lba + ucast (rg_header_lba region)) header at d1
                                in if EFI_ERROR status then (status, s, p, d2)
                                   else
                                     (let ctx = \<lparr>ctx_bio = bio, ctx_media_id = media, ctx_boot_lba = boot_lba, ctx_boot_sectors = ucast boot_sectors\<rparr>;
                                          (done', s3, c3) = install_control ctx at store layout img s (p, d2)
                                      in (if done' then EFI_SUCCESS else EFI_COMPROMISED_DATA, s3, c3)))
                           | None \<Rightarrow> (EFI_COMPROMISED_DATA, s, p, d1)))
             | _ \<Rightarrow> (EFI_UNSUPPORTED, s, c))"

end
