(* ===== verification/BootStart.thy ===== *)
theory BootStart
  imports BootLoader Disk
begin

text \<open>
  What the boot loader starts: on a sound medium, the kernel that is loaded is, byte for byte, the payload that was installed in
  the slot the manager selected, and the loader keeps the medium sound. The locale \<open>boot_machine\<close> puts the contracts
  together: a disk on which the kernel's driver and the firmware agree, the boot partition on it, and page allocation that leaves the disk alone.
\<close>

subsection \<open>Payloads in sectors\<close>

lemma sector_count_bound: "length payload \<le> 512 * sector_count (length payload)"
  using div_mult_mod_eq [of "length payload + 511" 512] mod_less_divisor [of 512 "length payload + 511"] by (simp add: sector_count_def)

lemma padded_sector:
  assumes "i < sector_count (length payload)"
  shows "sector_of payload i = take 512 (drop (i * 512) (payload @ replicate (512 * sector_count (length payload) - length payload) 0))"
proof (rule nth_equalityI)
  let ?z = "512 * sector_count (length payload) - length payload"
  let ?p = "payload @ replicate ?z (0 :: u8)"
  have le: "i * 512 + 512 \<le> length ?p" using assms sector_count_bound [of payload] by simp
  then show "length (sector_of payload i) = length (take 512 (drop (i * 512) ?p))" by (simp add: BOOT_SLOT_STORE_SECTOR_SIZE_def)
  fix j assume "j < length (sector_of payload i)"
  then have j: "j < 512" by (simp add: BOOT_SLOT_STORE_SECTOR_SIZE_def)
  have "sector_of payload i ! j = (if i * 512 + j < length payload then payload ! (i * 512 + j) else 0)"
    using j by (auto simp: sector_of_def chunk_at_def BOOT_SLOT_STORE_SECTOR_SIZE_def nth_append)
  moreover have "take 512 (drop (i * 512) ?p) ! j = ?p ! (i * 512 + j)" using j le by (subst nth_take) (simp_all del: drop_append)
  moreover have "?p ! (i * 512 + j) = (if i * 512 + j < length payload then payload ! (i * 512 + j) else 0)"
  proof (cases "i * 512 + j < length payload")
    case False
    then have "i * 512 + j - length payload < ?z" using j le by simp
    then show ?thesis using False by (simp add: nth_append)
  qed (simp add: nth_append)
  ultimately show "sector_of payload i ! j = take 512 (drop (i * 512) ?p) ! j" by (simp del: drop_append)
qed

lemma padded_sectors:
  "concat (map (sector_of payload) [0..<sector_count (length payload)]) =
   payload @ replicate (512 * sector_count (length payload) - length payload) 0"
proof -
  let ?n = "sector_count (length payload)"
  let ?p = "payload @ replicate (512 * ?n - length payload) (0 :: u8)"
  have len: "length ?p = ?n * 512" using sector_count_bound [of payload] by simp
  have "map (sector_of payload) [0..<?n] = map (\<lambda>i. take 512 (drop (i * 512) ?p)) [0..<?n]"
    using padded_sector by (intro map_cong refl) (simp only: set_upt atLeastLessThan_iff)
  then have "concat (map (sector_of payload) [0..<?n]) = concat (map (\<lambda>i. take 512 (drop (i * 512) ?p)) [0..<?n])" by (rule arg_cong)
  also have "\<dots> = ?p" by (rule concat_slices [OF len])
  finally show ?thesis .
qed

subsection \<open>The machine\<close>

definition partition_ctx :: "'d EFI_BLOCK_IO_PROTOCOL \<Rightarrow> u32 \<Rightarrow> u32 \<Rightarrow> boot_slot_layout \<Rightarrow> 'd uefi_boot_store_context" where
  "partition_ctx bio media base layout = \<lparr>ctx_bio = bio, ctx_media_id = media, ctx_boot_lba = ucast base, ctx_boot_sectors = ly_boot_sectors layout\<rparr>"

locale boot_machine = raw_disk raw ok data left + efi_disk bio ok data left "unat (bd_block_count raw)"
  for raw :: "'d block_device" and ok data left and bio :: "'d EFI_BLOCK_IO_PROTOCOL" +
  fixes base :: u32 and layout :: boot_slot_layout and media :: u32 and at :: "'d \<Rightarrow> u64" and svc :: "'d page_services"
  assumes machine_plan: "boot_slot_layout_plan (ly_boot_sectors layout) = Some layout"
    and machine_fits: "unat base + unat (ly_boot_sectors layout) \<le> unat (bd_block_count raw)"
    and pages_allocate: "ok d \<Longrightarrow> AllocatePages svc pages a d = (st, a', d') \<Longrightarrow> ok d' \<and> data d' = data d \<and> left d' = left d"
    and pages_free: "ok d \<Longrightarrow> ok (FreePages svc a pages d) \<and> data (FreePages svc a pages d) = data d \<and> left (FreePages svc a pages d) = left d"

sublocale boot_machine \<subseteq> part: boot_partition raw ok data left base layout "uefi_io (partition_ctx bio media base layout) at"
  by (rule efi_partition [OF raw_disk_axioms efi_disk_axioms machine_plan machine_fits partition_ctx_def])

context boot_machine
begin

abbreviation "ctx \<equiv> partition_ctx bio media base layout"

lemma release_fixed_disk:
  assumes "kernel_release_fixed_window svc km d = (km', d')" and "ok d"
  shows "ok d' \<and> data d' = data d \<and> left d' = left d"
  using assms pages_free [OF assms(2)] by (auto simp: kernel_release_fixed_window_def split: if_splits)

lemma acquire_disk:
  assumes "kernel_acquire_load_pages svc link_base pages km d = (st, lb, km', d')" and "ok d"
  shows "ok d' \<and> data d' = data d \<and> left d' = left d"
proof -
  obtain km1 d1 where r: "kernel_release_fixed_window svc km d = (km1, d1)" by fastforce
  show ?thesis using assms release_fixed_disk [OF r assms(2)] pages_allocate [of d] pages_allocate [of d1]
    by (auto simp: kernel_acquire_load_pages_def Let_def r split: if_splits prod.splits)
qed

lemma load_buffer_disk:
  assumes "load_kernel_from_buffer svc buf n km d = (st, entry, km', d')" and "ok d"
  shows "ok d' \<and> data d' = data d \<and> left d' = left d"
proof (cases "d' = d")
  case True
  then show ?thesis using assms(2) by simp
next
  case False
  have "\<exists>lb pages stt lb' km1 d1. kernel_acquire_load_pages svc lb pages km d = (stt, lb', km1, d1) \<and>
    (d' = d1 \<or> (\<exists>ram km2. kernel_release_load_pages svc lb' pages (km1\<lparr>km_ram := ram\<rparr>) d1 = (km2, d')))"
    using assms(1) False unfolding load_kernel_from_buffer_def
    by (auto simp: Let_def split: sum.splits if_splits option.splits prod.splits) blast+
  then obtain lb pages stt lb' km1 d1 where aq: "kernel_acquire_load_pages svc lb pages km d = (stt, lb', km1, d1)"
    and d': "d' = d1 \<or> (\<exists>ram km2. kernel_release_load_pages svc lb' pages (km1\<lparr>km_ram := ram\<rparr>) d1 = (km2, d'))" by blast
  note A = acquire_disk [OF aq assms(2)]
  from d' show ?thesis
  proof
    assume "d' = d1"
    then show ?thesis using A by simp
  next
    assume "\<exists>ram km2. kernel_release_load_pages svc lb' pages (km1\<lparr>km_ram := ram\<rparr>) d1 = (km2, d')"
    then obtain ram km2 where r: "kernel_release_load_pages svc lb' pages (km1\<lparr>km_ram := ram\<rparr>) d1 = (km2, d')" by blast
    have "d' = d1 \<or> kernel_release_fixed_window svc (km1\<lparr>km_ram := ram\<rparr>) d1 = (km2, d') \<or> d' = FreePages svc lb' pages d1"
      using r by (auto simp: kernel_release_load_pages_def split: if_splits)
    then show ?thesis using A release_fixed_disk [of "km1\<lparr>km_ram := ram\<rparr>" d1 km2 d'] pages_free [of d1 lb' pages] by auto
  qed
qed

end

subsection \<open>Reading the partition table and the slots\<close>

lemma down_up: "(ucast (ucast (w :: u32) :: u64) :: u32) = w"
  by (rule bit_word_eqI) (simp add: bit_simps)

context efi_disk
begin

text \<open>A read past the end is refused.\<close>

lemma block_read_any:
  assumes "uefi_block_io_read bio media lba 512 address buffer d = (status, r, d')" and "ok d"
  shows "ok d' \<and> data d' = data d \<and> (\<forall>k. left d' k \<subseteq> left d k)"
proof (cases "unat lba + 1 \<le> blocks")
  case True
  then show ?thesis using block_read [OF assms True] by simp
next
  case False
  have "d' = d"
  proof (rule ccontr)
    assume ne: "d' \<noteq> d"
    then obtain al where v: "uefi_block_io_transfer_valid bio lba 512 d = Inr al"
      using assms(1) by (auto simp: uefi_block_io_read_def split: option.splits if_splits sum.splits)
    then obtain md where "bio_Media bio d = Some md" "\<not> lba > md_LastBlock md"
      by (auto simp: uefi_block_io_transfer_valid_def Let_def split: sum.splits option.splits if_splits)
    then show False using efi_last [OF assms(2)] False by (fastforce simp: word_less_nat_alt)
  qed
  then show ?thesis using assms(2) by simp
qed

end

context boot_machine
begin

lemma gpt_read_disk:
  assumes "uefi_ab_gpt_read c at' lba d = (rc, r, d')" and "ctx_bio c = bio" and "ok d"
  shows "ok d' \<and> data d' = data d \<and> (\<forall>k. left d' k \<subseteq> left d k)"
  using assms block_read_any [OF _ assms(3)] by (auto simp: uefi_ab_gpt_read_def split: prod.splits)

lemma identity_disk:
  assumes "ab_store_identity bio media identity at d = (res, d')" and "ok d"
    and "di_boot_lba_start identity = ucast base" and "di_boot_lba_count identity = ucast (ly_boot_sectors layout)"
  shows "ok d' \<and> data d' = data d \<and> (\<forall>k. left d' k \<subseteq> left d k) \<and> (\<forall>c. res = Inr c \<longrightarrow> c = ctx)"
proof -
  let ?c = "\<lparr>ctx_bio = bio, ctx_media_id = media, ctx_boot_lba = di_boot_lba_start identity,
    ctx_boot_sectors = ucast (di_boot_lba_count identity)\<rparr> :: 'd uefi_boot_store_context"
  have c: "?c = ctx" using assms(3,4) by (simp add: partition_ctx_def down_up)
  have rd: "ok d1 \<and> data d1 = data d \<and> (\<forall>k. left d1 k \<subseteq> left d k)"
    if "capyos_gpt_identity_read (uefi_ab_gpt_read ?c at) bs bc d = (gi, d1)" for bs bc gi d1
  proof (rule identity_read_keeps [where reader = "uefi_ab_gpt_read ?c at" and P = "\<lambda>e. ok e \<and> data e = data d \<and> (\<forall>k. left e k \<subseteq> left d k)"])
    show "identity_read_mode (uefi_ab_gpt_read ?c at) bs bc False d = (gi, d1)" using that by (simp add: capyos_gpt_identity_read_def)
    show "ok d \<and> data d = data d \<and> (\<forall>k. left d k \<subseteq> left d k)" using assms(2) by simp
    fix lba e rc r e'
    assume e: "ok e \<and> data e = data d \<and> (\<forall>k. left e k \<subseteq> left d k)" and r: "uefi_ab_gpt_read ?c at lba e = (rc, r, e')"
    show "ok e' \<and> data e' = data d \<and> (\<forall>k. left e' k \<subseteq> left d k)" using gpt_read_disk [OF r] e by (metis order_trans uefi_boot_store_context.select_convs(1))
  qed
  have "d' = d \<and> (\<exists>e. res = Inl e) \<or> (\<exists>bs bc gi. capyos_gpt_identity_read (uefi_ab_gpt_read ?c at) bs bc d = (gi, d') \<and> (res = Inr ?c \<or> (\<exists>e. res = Inl e)))"
    using assms(1) unfolding ab_store_identity_def by (auto simp: Let_def split: option.splits if_splits prod.splits)
  then show ?thesis using rd assms(2) c by (elim disjE exE conjE) auto
qed

end

subsection \<open>The steps of the loader\<close>

context boot_machine
begin

abbreviation "good_machine \<equiv> machine_ok ok data left raw base layout"

lemma good_machine_disk:
  assumes "good_machine K (s, p, d)" and "ok d'" and "data d' = data d" and "\<forall>k. left d' k \<subseteq> left d k"
  shows "good_machine K (s, p, d')"
  using assms part.kept_disk [of K p d "st_boot s" d' p] by (simp add: machine_ok_def part_valid_def)

lemma bind_step:
  assumes "ab_store_bind ctx at store s c = (bound, s', c')" and "good_machine K (s, c)"
  shows "good_machine K (s', c') \<and> (bound \<longrightarrow> boot_slot_internal_persistence_ready_locked (st_boot s'))"
proof -
  have plan: "boot_slot_layout_plan (ctx_boot_sectors ctx) = Some layout" using machine_plan by (simp add: partition_ctx_def)
  obtain rc1 b where i: "boot_slot_init (st_boot s) = (rc1, b)" by fastforce
  obtain rc2 s2 where o: "boot_slot_store_init store layout (Some 0) (s\<lparr>st_boot := b\<rparr>) = (rc2, s2)" by fastforce
  obtain rc3 s3 c3 where bi: "boot_slot_store_bind_control (machine_io (uefi_io ctx at)) store 0 s2 c = (rc3, s3, c3)" by (metis prod_cases3)
  have m: "part_valid ok raw base layout c" "attached layout s" "kept layout K (part_content left base c) (part_content data base c) (st_boot s)"
    using assms(2) by (simp_all add: machine_ok_def)
  note k1 = slot_init_kept [OF i m(3)]
  have a1: "attached layout (s\<lparr>st_boot := b\<rparr>)" using m(2) by simp
  obtain x where s2: "attached layout s2" "st_boot s2 = b\<lparr>boot_slot_operation_busy := x\<rparr>" using store_init_kept [OF o a1] by auto
  have k2: "kept layout K (part_content left base c) (part_content data base c) (st_boot s2)" using k1 s2(2) by simp
  note B = part.medium.bind_op [OF bi m(1) s2(1) k2]
  have "(bound, s', c') = (if rc1 \<noteq> 0 then (False, s\<lparr>st_boot := b\<rparr>, c) else if rc2 \<noteq> 0 then (False, s2, c) else (rc3 = 0, s3, c3))"
    using assms(1) by (simp add: ab_store_bind_def Let_def plan i o bi cong: if_cong)
  then show ?thesis using m k1 a1 s2 k2 B by (auto simp: machine_ok_def split: if_splits)
qed

text \<open>What a selection leaves: the chosen slot is the active one.\<close>

lemma select_step:
  assumes "ab_select ctx at (s, c, km) = ((rc, slot, g), s', c', km')" and "good_machine K (s, c)"
  shows "good_machine K (s', c') \<and> km' = km \<and>
    (rc = 0 \<or> rc = 1 \<or> rc = 2 \<longrightarrow> boot_slot_internal_persistence_ready_locked (st_boot s') \<and> g = bp_generation (bsp (st_boot s')) \<and> slot < 2) \<and>
    (rc = 0 \<longrightarrow> bsm (st_boot s') = bsm (st_boot s) \<and> slot = mg_confirmed_slot (bsm (st_boot s)) \<and> mg_pending_slot (bsm (st_boot s)) = BOOT_SLOT_NONE) \<and>
    (rc = 1 \<longrightarrow> slot = mg_pending_slot (bsm (st_boot s)) \<and> mg_tries_remaining (bsm (st_boot s)) = 1 \<and> bsm (st_boot s') = spend_attempt (bsm (st_boot s))) \<and>
    (rc = 2 \<longrightarrow> slot = mg_confirmed_slot (bsm (st_boot s)) \<and> mg_pending_slot (bsm (st_boot s)) \<noteq> BOOT_SLOT_NONE \<and> mg_tries_remaining (bsm (st_boot s)) = 0 \<and>
      bs_apply_rollback (bsm (st_boot s)) = Some (bsm (st_boot s')))"
proof -
  have se: "on_boot (boot_slot_select_for_boot (bound_io (machine_io (uefi_io ctx at)) s)) s c = ((rc, slot, g), s', c')" and km: "km' = km"
    using assms(1) by (auto simp: ab_select_def split: prod.splits)
  have m: "part_valid ok raw base layout c" "attached layout s" "kept layout K (part_content left base c) (part_content data base c) (st_boot s)"
    using assms(2) by (simp_all add: machine_ok_def)
  show ?thesis using part.medium.select_op [OF se m] km unfolding machine_ok_def fst_conv snd_conv by blast
qed

end

subsection \<open>The payload in memory\<close>

text \<open>Memory services: the pool gives memory outside the region \<open>R\<close> where the kernel goes, pages come at the address asked for.\<close>

locale boot_memory = boot_machine raw ok data left bio base layout media at svc
  for raw :: "'d block_device" and ok data left and bio :: "'d EFI_BLOCK_IO_PROTOCOL" and base layout media at svc +
  fixes R :: "u64 set"
  assumes pool_apart: "ok d \<Longrightarrow> bio_AllocatePool bio bytes d = (a, d') \<Longrightarrow> a \<noteq> 0 \<Longrightarrow> unat a + unat bytes < 2 ^ 64 \<and> window a (unat bytes) \<inter> R = {}"
    and pages_at: "allocates_at_address svc"
begin

lemma aligned_apart:
  assumes "uefi_block_io_allocate_aligned bio bytes d = (Inr (allocation, buffer), d')" and "ok d"
  shows "unat buffer + unat bytes < 2 ^ 64 \<and> window buffer (unat bytes) \<inter> R = {}"
proof -
  obtain al a1 where al: "uefi_block_io_alignment bio d = Inr al" and le: "bytes \<le> UINT64_MAX - (al - 1)"
    and ap: "bio_AllocatePool bio (bytes + (al - 1)) d = (allocation, a1)" "allocation \<noteq> 0" and buf: "buffer = (allocation + (al - 1)) AND NOT (al - 1)"
    using assms(1) by (auto simp: uefi_block_io_allocate_aligned_def Let_def not_less split: if_splits sum.splits prod.splits)
  define e where "e = al - 1"
  note P = pool_apart [OF assms(2) ap, folded e_def]
  have eb: "unat e < 2 ^ LENGTH(64)" by (rule unsigned_less)
  then have "e \<le> UINT64_MAX" "unat UINT64_MAX = 2 ^ 64 - 1" by (simp_all add: UINT64_MAX_def word_le_nat_alt)
  then have "unat (UINT64_MAX - e) = 2 ^ 64 - 1 - unat e" by (simp add: unat_sub)
  then have b: "unat bytes + unat e < 2 ^ 64" using le eb by (simp add: e_def [symmetric] word_le_nat_alt)
  then have be: "unat (bytes + e) = unat bytes + unat e" by (simp add: unat_word_ariths)
  have ae: "unat (allocation + e) = unat allocation + unat e" using P be by (simp add: unat_word_ariths)
  have split: "(allocation + e) AND NOT e = (allocation + e) - ((allocation + e) AND e)"
  proof -
    have "(allocation + e) - ((allocation + e) AND e) = (allocation + e) AND NOT ((allocation + e) AND e)"
      by (rule disjunctive_diff_eq_and_not) (simp add: bit_eq_iff bit_simps)
    also have "\<dots> = (allocation + e) AND NOT e" by (rule bit_word_eqI) (auto simp: bit_simps)
    finally show ?thesis by simp
  qed
  have "unat ((allocation + e) AND e) \<le> unat e" by (metis word_and_le1 word_le_nat_alt)
  moreover have "unat buffer = unat (allocation + e) - unat ((allocation + e) AND e)"
    unfolding buf e_def [symmetric] split by (rule unat_sub) (rule word_and_le2)
  ultimately have lo: "unat allocation \<le> unat buffer" "unat buffer \<le> unat allocation + unat e" using ae by linarith+
  then have "unat buffer + unat bytes \<le> unat allocation + unat (bytes + e)" using be by linarith
  moreover from this have "window buffer (unat bytes) \<subseteq> window allocation (unat (bytes + e))" by (intro window_within) (use lo be b in simp_all)
  ultimately show ?thesis using P by auto
qed

end

lemma validate_error: "validate_kernel_buffer b = Inl status \<Longrightarrow> EFI_ERROR status"
  by (auto simp: validate_kernel_buffer_def kernel_read_from_memory_def kernel_plan_from_headers_def Let_def efi_codes split: if_splits option.splits)

lemma load_success:
  assumes "load_kernel_from_buffer svc buf size0 km d = (st, entry, km', d')" and "\<not> EFI_ERROR st"
  obtains plan stt lb km1 d1 where "validate_kernel_buffer (peek (km_ram km) buf (unat size0)) = Inr plan"
    and "kernel_acquire_load_pages svc (kp_link_base plan) (kp_pages plan) km d = (stt, lb, km1, d1)" and "\<not> EFI_ERROR stt"
proof (cases "validate_kernel_buffer (peek (km_ram km) buf (unat size0))")
  case (Inl status)
  then have "st = status" using assms(1) by (simp add: load_kernel_from_buffer_def)
  then show ?thesis using validate_error [OF Inl] assms(2) by simp
next
  case (Inr plan)
  obtain stt lb km1 d1 where aq: "kernel_acquire_load_pages svc (kp_link_base plan) (kp_pages plan) km d = (stt, lb, km1, d1)" by (metis prod_cases4)
  have "\<not> EFI_ERROR stt" using assms load_validated [OF refl Inr, of svc d] by (auto simp: aq)
  then show ?thesis using that Inr aq by blast
qed

context boot_machine
begin

lemma slot_fits:
  assumes "slot_region sl = at2 (ly_slots layout) x" and "x < 2"
  shows "unat (ctx_boot_lba ctx + ucast (sl_payload_lba sl)) = unat base + unat (sl_payload_lba sl)"
    and "unat base + unat (sl_payload_lba sl) + unat (sl_payload_capacity_sectors sl) \<le> unat (bd_block_count raw)"
proof -
  have r: "rg_payload_lba (at2 (ly_slots layout) x) = sl_payload_lba sl" "rg_payload_capacity_sectors (at2 (ly_slots layout) x) = sl_payload_capacity_sectors sl"
    using assms(1) [symmetric] by (simp_all add: slot_region_def)
  define q where "q = (unat (ly_boot_sectors layout) - 2) div 2"
  note v = plan_values [OF machine_plan, folded q_def]
  have "q + 2 \<le> unat (ly_boot_sectors layout)" "2 \<le> q" using v(1) unfolding q_def by linarith+
  then have "unat (sl_payload_lba sl) + unat (sl_payload_capacity_sectors sl) \<le> unat (ly_boot_sectors layout)"
    using v(4,5,7,8) assms(2) r by (elim lt_two [THEN iffD1, THEN disjE]) auto
  then show s: "unat base + unat (sl_payload_lba sl) + unat (sl_payload_capacity_sectors sl) \<le> unat (bd_block_count raw)" using machine_fits by linarith
  have "unat (bd_block_count raw) < 2 ^ LENGTH(32)" by (rule unsigned_less)
  then have "unat base + unat (sl_payload_lba sl) < 2 ^ LENGTH(64)" using s by simp
  then show "unat (ctx_boot_lba ctx + ucast (sl_payload_lba sl)) = unat base + unat (sl_payload_lba sl)"
    by (simp add: partition_ctx_def unat_word_ariths unat_up)
qed

text \<open>\<open>load_payload\<close> leaves the disk alone; when it succeeds it has handed the sectors of the payload to the kernel loader.\<close>

lemma payload_read:
  assumes "load_payload svc ctx sl img d km = (st, entry, d', km')" and "ok d" and "slot_region sl = at2 (ly_slots layout) x" and "x < 2"
    and "n = sector_count (unat (im_payload_size img))"
  shows "ok d' \<and> data d' = data d \<and> (\<forall>k. left d' k \<subseteq> left d k) \<and>
    (EFI_ERROR st \<or> (\<exists>rounded allocation buffer d1 d2 d3 r. unat rounded = 512 * n \<and>
      uefi_block_io_allocate_aligned bio rounded d = (Inr (allocation, buffer), d1) \<and>
      r = concat (map (\<lambda>i. data d (unat base + unat (sl_payload_lba sl) + i)) [0..<n]) \<and>
      load_kernel_from_buffer svc buffer (ucast (im_payload_size img)) (km\<lparr>km_ram := poke buffer r (km_ram km)\<rparr>) d2 = (st, entry, km', d3)))"
proof -
  define w where "w = im_payload_size img"
  define sectors where "sectors = w div 512 + (if w mod 512 \<noteq> 0 then 1 else 0)"
  define rounded :: u64 where "rounded = ucast sectors * 512"
  have n: "unat sectors = n" using sectors_word [of "replicate (unat w) 0" w] assms(5) by (simp add: sectors_def w_def BOOT_SLOT_STORE_SECTOR_SIZE_def)
  have "unat sectors < 2 ^ LENGTH(32)" by (rule unsigned_less)
  then have ro: "unat rounded = 512 * n" using n by (simp add: rounded_def unat_word_ariths unat_up)
  show ?thesis
  proof (cases "sectors = 0 \<or> sectors > sl_payload_capacity_sectors sl \<or> ucast sectors > UINT64_MAX div 512")
    case True
    then have "st = EFI_COMPROMISED_DATA" "d' = d" using assms(1) by (auto simp: load_payload_def w_def [symmetric] sectors_def [symmetric])
    then show ?thesis using assms(2) by (simp add: efi_codes)
  next
    case False
    obtain al d1 where aa: "uefi_block_io_allocate_aligned bio rounded d = (al, d1)" by fastforce
    note A = allocate_aligned [OF aa assms(2)]
    show ?thesis
    proof (cases al)
      case (Inl status)
      have "EFI_ERROR status" using aa Inl by (auto simp: uefi_block_io_allocate_aligned_def uefi_block_io_alignment_def Let_def efi_codes split: if_splits option.splits prod.splits)
      moreover have "st = status" "d' = d1" using assms(1) False aa Inl
        by (auto simp: load_payload_def w_def [symmetric] sectors_def [symmetric] rounded_def [symmetric] partition_ctx_def Let_def)
      ultimately show ?thesis using A by simp
    next
      case (Inr ab)
      obtain allocation buffer where ab: "ab = (allocation, buffer)" by fastforce
      let ?lba = "ctx_boot_lba ctx + ucast (sl_payload_lba sl)" and ?old = "peek (km_ram km) buffer (unat rounded)"
      obtain st1 r d2 where rd: "uefi_block_io_read bio media ?lba rounded buffer ?old d1 = (st1, r, d2)" by (metis prod_cases3)
      have "n \<le> unat (sl_payload_capacity_sectors sl)" using False n by (simp add: word_less_nat_alt not_less)
      then have "unat ?lba + n \<le> unat (bd_block_count raw)" using slot_fits [OF assms(3,4)] by linarith
      note R = block_read [OF rd _ this ro]
      let ?km = "km\<lparr>km_ram := poke buffer r (km_ram km)\<rparr>"
      obtain st2 e2 km2 d3 where ld: "load_kernel_from_buffer svc buffer (ucast w) ?km d2 = (st2, e2, km2, d3)" by (metis prod_cases4)
      have d2: "ok d2" "data d2 = data d" "\<forall>k. left d2 k \<subseteq> left d k" using R A by auto
      note L = load_buffer_disk [OF ld d2(1)]
      have "d' = bio_FreePool bio allocation d2 \<and> EFI_ERROR st \<or> d' = bio_FreePool bio allocation d3 \<and> \<not> EFI_ERROR st1 \<and> (st, entry, km') = (st2, e2, km2)"
        using assms(1) False aa Inr ab rd ld
        by (auto simp: load_payload_def w_def [symmetric] sectors_def [symmetric] rounded_def [symmetric] Let_def partition_ctx_def efi_codes split: if_splits)
      then show ?thesis
      proof (elim disjE conjE)
        assume "d' = bio_FreePool bio allocation d2" "EFI_ERROR st"
        then show ?thesis using efi_free [OF d2(1), of allocation] d2 by simp
      next
        assume d': "d' = bio_FreePool bio allocation d3" and ne: "\<not> EFI_ERROR st1" and res: "(st, entry, km') = (st2, e2, km2)"
        have "r = concat (map (\<lambda>i. data d (unat base + unat (sl_payload_lba sl) + i)) [0..<n])" using R ne A slot_fits(1) [OF assms(3,4)] by simp
        then have "\<exists>rounded allocation buffer d1 d2 d3 r. unat rounded = 512 * n \<and>
            uefi_block_io_allocate_aligned bio rounded d = (Inr (allocation, buffer), d1) \<and>
            r = concat (map (\<lambda>i. data d (unat base + unat (sl_payload_lba sl) + i)) [0..<n]) \<and>
            load_kernel_from_buffer svc buffer (ucast (im_payload_size img)) (km\<lparr>km_ram := poke buffer r (km_ram km)\<rparr>) d2 = (st, entry, km', d3)"
          using ro aa Inr ab ld res unfolding w_def by blast
        moreover have "ok d' \<and> data d' = data d \<and> (\<forall>k. left d' k \<subseteq> left d k)"
          using d' efi_free [of d3 allocation] L d2 by simp
        ultimately show ?thesis by blast
      qed
    qed
  qed
qed

end

subsection \<open>What is started\<close>

text \<open>The payload of slot \<open>x\<close> in memory where it is linked to, entered at its entry point.\<close>

definition kernel_loaded :: "u64 set \<Rightarrow> u8 list \<Rightarrow> u64 option \<Rightarrow> kernel_memory \<Rightarrow> bool" where
  "kernel_loaded R payload entry km \<longleftrightarrow>
     (\<exists>plan. validate_kernel_buffer payload = Inr plan \<and>
       (window (kp_link_base plan) (unat (kp_span plan)) \<subseteq> R \<longrightarrow>
          entry = Some (kp_entry plan) \<and> (\<exists>ram. km_ram km = fold (place payload) (image_phdrs payload) ram)))"

lemma poked_payload:
  assumes "r = payload @ replicate (512 * n - length payload) 0" and "length payload \<le> 512 * n" and "unat buffer + 512 * n < 2 ^ 64"
  shows "peek (poke buffer r ram) buffer (512 * n) = r" and "payload = peek (poke buffer r ram) buffer (length payload)"
proof -
  have "length r = 512 * n" using assms(1,2) by simp
  then show p: "peek (poke buffer r ram) buffer (512 * n) = r" using peek_poke [of r "512 * n"] assms(3) by simp
  show "payload = peek (poke buffer r ram) buffer (length payload)"
    using peek_slice [of 0 "length payload" "512 * n" "poke buffer r ram" buffer] assms(1,2) p by simp
qed

context boot_machine
begin

text \<open>The sectors of an installed payload are the payload and zeros.\<close>

lemma payload_sectors:
  assumes "ok d" and "slot_region sl = at2 (ly_slots layout) x" and "x < 2" and "installed_as layout (\<lambda>k. left d (unat base + k)) x im payload"
    and "n = sector_count (unat (im_payload_size im))"
  shows "concat (map (\<lambda>i. data d (unat base + unat (sl_payload_lba sl) + i)) [0..<n]) = payload @ replicate (512 * n - length payload) 0"
    and "length payload \<le> 512 * n" and "n \<le> unat (sl_payload_capacity_sectors sl)" and "length payload = unat (im_payload_size im)"
proof -
  have inst: "length payload = unat (im_payload_size im)" "n \<le> unat (sl_payload_capacity_sectors sl)"
    "\<forall>i<n. left d (unat base + (unat (sl_payload_lba sl) + i)) \<subseteq> {sector_of payload i}"
    using assms(4,5) assms(2) [symmetric] by (auto simp: installed_as_def slot_region_def)
  have sec: "data d (unat base + unat (sl_payload_lba sl) + i) = sector_of payload i" if "i < n" for i
  proof -
    have "unat base + unat (sl_payload_lba sl) + i < unat (bd_block_count raw)" using that inst(2) slot_fits(2) [OF assms(2,3)] by linarith
    from raw_left [OF assms(1) this] show ?thesis using inst(3) that by (auto simp: add.assoc)
  qed
  have "concat (map (\<lambda>i. data d (unat base + unat (sl_payload_lba sl) + i)) [0..<n]) = concat (map (sector_of payload) [0..<n])"
    using sec by (intro arg_cong [where f = concat] map_cong) simp_all
  then show "concat (map (\<lambda>i. data d (unat base + unat (sl_payload_lba sl) + i)) [0..<n]) = payload @ replicate (512 * n - length payload) 0"
    using padded_sectors [of payload] inst(1) assms(5) by simp
  show "length payload \<le> 512 * n" using sector_count_bound [of payload] inst(1) assms(5) by simp
  show "n \<le> unat (sl_payload_capacity_sectors sl)" "length payload = unat (im_payload_size im)" by (rule inst)+
qed

end

context boot_memory
begin

lemma payload_loaded:
  assumes "load_payload svc ctx sl img d km = (st, entry, d', km')" and "ok d" and "slot_region sl = at2 (ly_slots layout) x" and "x < 2"
    and "installed_as layout (\<lambda>k. left d (unat base + k)) x im payload" and "im_payload_size img = im_payload_size im" and "\<not> EFI_ERROR st"
  shows "kernel_loaded R payload entry km'"
proof -
  define n where "n = sector_count (unat (im_payload_size img))"
  obtain rounded allocation buffer d1 d2 d3 r where ro: "unat rounded = 512 * n"
    and aa: "uefi_block_io_allocate_aligned bio rounded d = (Inr (allocation, buffer), d1)"
    and r: "r = concat (map (\<lambda>i. data d (unat base + unat (sl_payload_lba sl) + i)) [0..<n])"
    and ld: "load_kernel_from_buffer svc buffer (ucast (im_payload_size img)) (km\<lparr>km_ram := poke buffer r (km_ram km)\<rparr>) d2 = (st, entry, km', d3)"
    using payload_read [OF assms(1-4) n_def] assms(7) by blast
  note S = payload_sectors [OF assms(2-5) n_def [unfolded assms(6)], folded r]
  let ?km = "km\<lparr>km_ram := poke buffer r (km_ram km)\<rparr>"
  have apart: "unat buffer + 512 * n < 2 ^ 64" "window buffer (512 * n) \<inter> R = {}" using aligned_apart [OF aa assms(2)] ro by auto
  have le: "length payload \<le> 512 * n" by (rule S(2))
  have sz: "unat (ucast (im_payload_size img) :: u64) = length payload" using S(4) assms(6) by (simp add: unat_up)
  have img: "payload = peek (km_ram ?km) buffer (unat (ucast (im_payload_size img) :: u64))" using poked_payload(2) [OF S(1,2) apart(1)] sz by simp
  obtain plan stt lb km1 d4 where v: "validate_kernel_buffer payload = Inr plan"
    and aq: "kernel_acquire_load_pages svc (kp_link_base plan) (kp_pages plan) ?km d2 = (stt, lb, km1, d4)" "\<not> EFI_ERROR stt"
    using load_success [OF ld assms(7)] img by metis
  have "entry = Some (kp_entry plan) \<and> (\<exists>ram. km_ram km' = fold (place payload) (image_phdrs payload) ram)"
    if "window (kp_link_base plan) (unat (kp_span plan)) \<subseteq> R"
  proof -
    have sub: "window buffer (length payload) \<subseteq> window buffer (512 * n)" using le by (auto simp: window_def)
    have "window buffer (unat (ucast (im_payload_size img) :: u64)) \<inter> window (kp_link_base plan) (unat (kp_span plan)) = {}"
      using sub apart(2) that sz by auto
    moreover have "unat buffer + unat (ucast (im_payload_size img) :: u64) < 2 ^ 64" using le apart(1) sz by linarith
    ultimately show ?thesis using load_buffer [OF img v pages_at _ _ aq] ld by auto
  qed
  then show ?thesis using v by (auto simp: kernel_loaded_def)
qed

end

lemma manager_get_cases:
  assumes "boot_slot_manager_get b = ((rc, got), b')"
  shows "\<exists>x. b' = b\<lparr>boot_slot_operation_busy := x\<rparr>" and "got = Some m \<Longrightarrow> m = bsm b \<and> boot_slot_internal_persistence_ready_locked b"
  using assms
  by (auto simp: boot_slot_manager_get_def query_def boot_slot_internal_manager_get_locked_def boot_slot_internal_operation_begin_def boot_slot_internal_operation_end_def
      boot_slot_internal_observable_locked_def ready_iff split: if_splits)

context boot_memory
begin

lemma load_selected:
  assumes "uefi_load_selected_slot svc ctx at store slot (s, c, km) = (st, entry, s', c', km')" and "good_machine K (s, c)"
  shows "good_machine K (s', c') \<and> (\<exists>x. st_boot s' = (st_boot s)\<lparr>boot_slot_operation_busy := x\<rparr>) \<and>
    (\<not> EFI_ERROR st \<longrightarrow> slot < 2 \<and> mg_active_slot (bsm (st_boot s)) = slot \<and>
      (\<exists>payload. installed_as layout (part_content left base c') slot (image_of (slot_at (bsm (st_boot s)) slot)) payload \<and> kernel_loaded R payload entry km'))"
proof (cases "slot \<ge> BOOT_SLOT_COUNT")
  case True
  then have "st = EFI_COMPROMISED_DATA" "s' = s" "c' = c" using assms(1) by (simp_all add: uefi_load_selected_slot_def)
  then show ?thesis using assms(2) by (auto simp: efi_codes intro: exI [of _ "boot_slot_operation_busy (st_boot s)"])
next
  case slot: False
  let ?m = "bsm (st_boot s)" and ?sl = "slot_at (bsm (st_boot s)) slot"
  obtain rc got b where mg: "boot_slot_manager_get (st_boot s) = ((rc, got), b)" by (metis prod_cases3 prod.exhaust)
  note G = manager_get_cases [OF mg]
  let ?s1 = "s\<lparr>st_boot := b\<rparr>"
  have g1: "good_machine K (?s1, c)" using assms(2) G(1) by (auto simp: machine_ok_def)
  have early: ?thesis if "EFI_ERROR st" "s' = ?s1" "c' = c" using that g1 G(1) by auto
  show ?thesis
  proof (cases "\<exists>m. got = Some m \<and> rc = 0 \<and> mg_active_slot m = slot \<and> sl_state (slot_at m slot) = BOOT_SLOT_ACTIVE")
    case False
    then have "st = EFI_COMPROMISED_DATA" "s' = ?s1" "c' = c" using assms(1) slot mg
      by (auto simp: uefi_load_selected_slot_def Let_def split: option.splits if_splits)
    then show ?thesis using early by (simp add: efi_codes)
  next
    case True
    then have m: "got = Some ?m" "rc = 0" "mg_active_slot ?m = slot" "sl_state ?sl = BOOT_SLOT_ACTIVE" "boot_slot_internal_persistence_ready_locked (st_boot s)"
      using G(2) by auto
    obtain rc2 header s2 c2 where rh: "boot_slot_store_read_header (machine_io (uefi_io ctx at)) store 0 slot ?s1 c = ((rc2, header), s2, c2)"
      by (metis prod_cases3 prod.exhaust)
    have pm: "part_valid ok raw base layout c" "attached layout ?s1" "kept layout K (part_content left base c) (part_content data base c) (st_boot ?s1)"
      using g1 by (simp_all add: machine_ok_def)
    note H = part.medium.read_header_op [OF rh pm]
    have g2: "good_machine K (s2, c2)" using H unfolding machine_ok_def fst_conv snd_conv by blast
    have b2: "\<exists>x. st_boot s2 = (st_boot s)\<lparr>boot_slot_operation_busy := x\<rparr>" using H G(1) by auto
    show ?thesis
    proof (cases "\<exists>img. header = Some img \<and> rc2 = 0 \<and> header_agrees ?sl img")
      case False
      then have "st = EFI_COMPROMISED_DATA" "s' = s2" "c' = c2" using assms(1) slot mg m rh
        by (auto simp: uefi_load_selected_slot_def Let_def split: option.splits if_splits)
      then show ?thesis using g2 b2 by (simp add: efi_codes)
    next
      case True
      then obtain img where img: "header = Some img" "rc2 = 0" "header_agrees ?sl img" by blast
      obtain p2 d2 where c2: "c2 = (p2, d2)" by fastforce
      obtain st3 e3 d3 km3 where lp: "load_payload svc ctx ?sl img d2 km = (st3, e3, d3, km3)" by (metis prod_cases4)
      have res: "(st, entry, s', c', km') = (st3, e3, s2, (p2, d3), km3)"
        using assms(1) slot mg m rh img c2 lp by (simp add: uefi_load_selected_slot_def)
      have x2: "slot < 2" using slot by (simp add: BOOT_SLOT_COUNT_def not_le)
      have rdy: "boot_slot_internal_persistence_ready_locked (st_boot s2)" "bsm (st_boot s2) = ?m" using b2 m(5) by auto
      have gd: "good layout K (part_content left base c2) ?m" using keptD(3) [OF machine_okD(3) [OF g2] rdy(1)] rdy(2) by simp
      have "slot_region ?sl = at2 (ly_slots (manager_layout ?m)) slot" using x2 by (auto simp: manager_layout_def lt_two)
      then have reg: "slot_region ?sl = at2 (ly_slots layout) slot" using gd by (simp add: good_def manager_ok_def)
      have od: "ok d2" using g2 c2 by (simp add: machine_ok_def part_valid_def)
      note P = payload_read [OF lp od reg x2 refl]
      have g3: "good_machine K (s2, (p2, d3))" using good_machine_disk [OF g2 [unfolded c2]] P by blast
      obtain payload where inst: "installed_as layout (part_content left base c2) slot (image_of ?sl) payload"
        using gd m(4) x2 by (auto simp: good_def images_on_def installed_def bootable_def lt_two)
      have inst': "installed_as layout (\<lambda>k. left d2 (unat base + k)) slot (image_of ?sl) payload"
        using inst by (simp add: c2 part.part_content_pair)
      have "installed_as layout (part_content left base (p2, d3)) slot (image_of ?sl) payload"
        by (rule installed_as_mono [OF inst']) (use P in \<open>simp add: part_content_def\<close>)
      moreover have "kernel_loaded R payload e3 km3" if "\<not> EFI_ERROR st3"
        by (rule payload_loaded [OF lp od reg x2 inst' _ that]) (use img(3) in \<open>simp add: header_agrees_def image_of_def\<close>)
      ultimately show ?thesis using res g3 b2 x2 m(3) by auto
    qed
  qed
qed

end

subsection \<open>The loader as a whole\<close>

lemma select_codes:
  assumes "on_boot (boot_slot_select_for_boot io) s c = ((rc, slot, g), s', c')"
  shows "rc < 0 \<or> rc = 0 \<or> rc = 1 \<or> rc = 2"
proof -
  have "rc < 0 \<or> rc = 0 \<or> rc = 1 \<or> rc = 2" if "boot_slot_internal_select_locked io b c = (rc, slot, g, b', c')" for b b'
    using that commit_codes
    by (auto simp: boot_slot_internal_select_locked_def BOOT_SLOT_ERR_IO_def order.order_iff_strict split: if_splits option.splits prod.splits) fastforce+
  then show ?thesis using assms
    by (auto simp: on_boot_def boot_slot_select_for_boot_def guarded_def BOOT_SLOT_ERR_BUSY_def boot_slot_internal_operation_begin_def split: prod.splits if_splits)
qed

text \<open>A slot on trial is started with its only try spent; otherwise the confirmed slot is started and nothing is pending.\<close>

definition attempt_matches :: "boot_slot_attempt_handoff \<Rightarrow> boot_state \<Rightarrow> bool" where
  "attempt_matches a b \<longleftrightarrow>
     at_generation a = bp_generation (bsp b) \<and> at_slot a < 2 \<and> mg_active_slot (bsm b) = at_slot a \<and>
     (at_flags a = BOOT_HANDOFF_SLOT_ATTEMPT_VALID OR BOOT_HANDOFF_SLOT_ATTEMPT_PENDING \<and> mg_pending_slot (bsm b) = at_slot a \<and> mg_tries_remaining (bsm b) = 0 \<or>
      at_flags a \<in> {BOOT_HANDOFF_SLOT_ATTEMPT_VALID, BOOT_HANDOFF_SLOT_ATTEMPT_VALID OR BOOT_HANDOFF_SLOT_ATTEMPT_ROLLBACK} \<and>
        mg_pending_slot (bsm b) = BOOT_SLOT_NONE \<and> mg_confirmed_slot (bsm b) = at_slot a)"

context boot_memory
begin

lemma select_attempt:
  assumes "ab_select ctx at (s, c, km) = ((rc, slot, g), s', c', km')" and "good_machine K (s, c)" and "boot_slot_internal_persistence_ready_locked (st_boot s)"
    and "\<not> rc < 0" and "mg_active_slot (bsm (st_boot s')) = slot"
  shows "attempt_matches (attempt_of rc slot g) (st_boot s')"
proof -
  note S = select_step [OF assms(1,2)]
  have v: "boot_slot_manager_validate (bsm (st_boot s))"
    using keptD(3) [OF machine_okD(3) [OF assms(2)] assms(3)] by (simp add: good_def manager_ok_def)
  obtain r where "on_boot (boot_slot_select_for_boot (bound_io (machine_io (uefi_io ctx at)) s)) s c = ((rc, slot, g), r)"
    using assms(1) by (auto simp: ab_select_def split: prod.splits)
  then consider "rc = 0" | "rc = 1" | "rc = 2" using select_codes assms(4) by (metis prod.exhaust)
  then have lt: "slot < 2" "g = bp_generation (bsp (st_boot s'))" and c: "rc = 0 \<or> rc = 1 \<or> rc = 2" using S by auto
  from c show ?thesis
  proof (elim disjE)
    assume "rc = 0"
    then have "bsm (st_boot s') = bsm (st_boot s)" "slot = mg_confirmed_slot (bsm (st_boot s))" "mg_pending_slot (bsm (st_boot s)) = BOOT_SLOT_NONE" using S by auto
    then show ?thesis using lt assms(5) \<open>rc = 0\<close> by (simp add: attempt_matches_def attempt_of_def)
  next
    assume "rc = 1"
    then have "slot = mg_pending_slot (bsm (st_boot s))" "mg_tries_remaining (bsm (st_boot s)) = 1" "bsm (st_boot s') = spend_attempt (bsm (st_boot s))" using S by auto
    then show ?thesis using lt assms(5) \<open>rc = 1\<close> spend_valid(3,5) [OF v] none_not_slot(2) [OF lt(1)] by (simp add: attempt_matches_def attempt_of_def)
  next
    assume "rc = 2"
    then have "slot = mg_confirmed_slot (bsm (st_boot s))" "mg_pending_slot (bsm (st_boot s)) \<noteq> BOOT_SLOT_NONE"
      "bs_apply_rollback (bsm (st_boot s)) = Some (bsm (st_boot s'))" using S by auto
    then show ?thesis using lt assms(5) \<open>rc = 2\<close> rollback_valid [OF v] by (simp add: attempt_matches_def attempt_of_def)
  qed
qed

end

text \<open>What a machine that has started a kernel looks like.\<close>

definition started :: "boot_slot_layout \<Rightarrow> u64 set \<Rightarrow> leftovers \<Rightarrow> u64 option \<Rightarrow> boot_slot_attempt_handoff \<Rightarrow> boot_state \<Rightarrow> kernel_memory \<Rightarrow> bool" where
  "started layout R L entry a b km \<longleftrightarrow>
     attempt_matches a b \<and> boot_slot_internal_persistence_ready_locked b \<and>
     (\<exists>payload. installed_as layout L (at_slot a) (image_of (slot_at (bsm b) (at_slot a))) payload \<and> kernel_loaded R payload entry km)"

lemma started_busy [simp]: "started layout R L entry a (b\<lparr>boot_slot_operation_busy := x\<rparr>) km = started layout R L entry a b km"
  by (simp add: started_def attempt_matches_def)

context boot_memory
begin

lemma select_and_load:
  assumes "ab_select ctx at (s, c, km) = ((rc, slot, g), s1, c1, km1)" and "good_machine K (s, c)" and "boot_slot_internal_persistence_ready_locked (st_boot s)"
    and "\<not> rc < 0" and "uefi_load_selected_slot svc ctx at store slot (s1, c1, km1) = (st, entry, s', c', km')"
  shows "good_machine K (s', c') \<and> boot_slot_internal_persistence_ready_locked (st_boot s') \<and>
    (\<not> EFI_ERROR st \<longrightarrow> started layout R (part_content left base c') entry (attempt_of rc slot g) (st_boot s') km')"
proof -
  note S = select_step [OF assms(1,2)]
  obtain r where "on_boot (boot_slot_select_for_boot (bound_io (machine_io (uefi_io ctx at)) s)) s c = ((rc, slot, g), r)"
    using assms(1) by (auto simp: ab_select_def split: prod.splits)
  then have "rc = 0 \<or> rc = 1 \<or> rc = 2" using select_codes assms(4) by (metis prod.exhaust)
  then have g1: "good_machine K (s1, c1)" "boot_slot_internal_persistence_ready_locked (st_boot s1)" using S by auto
  note L = load_selected [OF assms(5) g1(1)]
  obtain x where x: "st_boot s' = (st_boot s1)\<lparr>boot_slot_operation_busy := x\<rparr>" using L by blast
  have "started layout R (part_content left base c') entry (attempt_of rc slot g) (st_boot s') km'" if "\<not> EFI_ERROR st"
  proof -
    have "mg_active_slot (bsm (st_boot s1)) = slot" using L that by blast
    from select_attempt [OF assms(1-4) this] have "attempt_matches (attempt_of rc slot g) (st_boot s1)" .
    moreover have "at_slot (attempt_of rc slot g) = slot" by (simp add: attempt_of_def)
    ultimately show ?thesis unfolding x started_busy unfolding started_def using g1(2) L that by simp
  qed
  then show ?thesis using L x g1(2) by simp
qed

lemma boot:
  assumes "ab_boot svc ctx at store (s, c, km) = (st, entry, attempt, s', c', km')" and "good_machine K (s, c)"
  shows "good_machine K (s', c') \<and> (EFI_ERROR st \<or> started layout R (part_content left base c') entry attempt (st_boot s') km')"
proof -
  obtain bound s2 c2 where bi: "ab_store_bind ctx at store s c = (bound, s2, c2)" by (metis prod_cases3)
  note B = bind_step [OF bi assms(2)]
  obtain rc slot g s3 c3 km3 where se: "ab_select ctx at (s2, c2, km) = ((rc, slot, g), s3, c3, km3)" by (metis prod_cases3 prod.exhaust)
  have g3: "good_machine K (s3, c3)" using select_step [OF se] B by blast
  obtain st4 e4 s4 c4 km4 where ld: "uefi_load_selected_slot svc ctx at store slot (s3, c3, km3) = (st4, e4, s4, c4, km4)" by (metis prod_cases5)
  obtain rc5 slot5 g5 s5 c5 km5 where se5: "ab_select ctx at (s4, c4, km4) = ((rc5, slot5, g5), s5, c5, km5)" by (metis prod_cases3 prod.exhaust)
  obtain st6 e6 s6 c6 km6 where ld6: "uefi_load_selected_slot svc ctx at store slot5 (s5, c5, km5) = (st6, e6, s6, c6, km6)" by (metis prod_cases5)
  have full: "(st, entry, attempt, s', c', km') =
    (if \<not> bound then (EFI_COMPROMISED_DATA, None, attempt_zero, s2, c2, km)
     else if rc < 0 \<or> slot \<ge> BOOT_SLOT_COUNT \<or> g = 0 then (EFI_COMPROMISED_DATA, None, attempt_zero, s3, c3, km3)
     else if EFI_ERROR st4 \<and> rc = 1 then
       (if rc5 \<noteq> 2 \<or> slot5 \<ge> BOOT_SLOT_COUNT \<or> g5 = 0 then (EFI_COMPROMISED_DATA, None, attempt_zero, s5, c5, km5)
        else if EFI_ERROR st6 then (st6, None, attempt_zero, s6, c6, km6) else (EFI_SUCCESS, e6, attempt_of rc5 slot5 g5, s6, c6, km6))
     else if EFI_ERROR st4 then (st4, None, attempt_zero, s4, c4, km4) else (EFI_SUCCESS, e4, attempt_of rc slot g, s4, c4, km4))"
    using assms(1) [symmetric] unfolding ab_boot_def Let_def prod.case bi se ld se5 ld6 .
  show ?thesis
  proof (cases "\<not> bound \<or> rc < 0")
    case True
    then show ?thesis using full B g3 by (auto simp: efi_codes split: if_splits)
  next
    case False
    then have b: "good_machine K (s2, c2)" "boot_slot_internal_persistence_ready_locked (st_boot s2)" "\<not> rc < 0" using B by auto
    note SL = select_and_load [OF se b ld]
    have g5: "good_machine K (s5, c5)" using select_step [OF se5] SL by blast
    have SL6: "good_machine K (s6, c6) \<and> (\<not> EFI_ERROR st6 \<longrightarrow> started layout R (part_content left base c6) e6 (attempt_of rc5 slot5 g5) (st_boot s6) km6)"
      if "rc5 = 2" using select_and_load [OF se5 conjunct1 [OF SL] conjunct1 [OF conjunct2 [OF SL]] _ ld6] that by simp
    show ?thesis using full False SL g3 g5 SL6 by (auto simp: efi_codes split: if_splits)
  qed
qed

lemma ab_store:
  assumes "load_kernel_from_ab_store svc bio media identity at store (s, c, km) = (st, entry, attempt, s', c', km')" and "good_machine K (s, c)"
    and "di_boot_lba_start identity = ucast base" and "di_boot_lba_count identity = ucast (ly_boot_sectors layout)"
  shows "good_machine K (s', c') \<and> (EFI_ERROR st \<or> started layout R (part_content left base c') entry attempt (st_boot s') km')"
proof -
  obtain p d where c: "c = (p, d)" by fastforce
  obtain res d1 where id: "ab_store_identity bio media identity at d = (res, d1)" by fastforce
  have "ok d" using assms(2) c by (simp add: machine_ok_def part_valid_def)
  note I = identity_disk [OF id this assms(3,4)]
  have g1: "good_machine K (s, p, d1)" using good_machine_disk [OF assms(2) [unfolded c]] I by blast
  show ?thesis
  proof (cases res)
    case (Inl e)
    have "EFI_ERROR e" using id Inl by (auto simp: ab_store_identity_def Let_def efi_codes split: option.splits if_splits prod.splits)
    then show ?thesis using assms(1) c id Inl g1 by (auto simp: load_kernel_from_ab_store_def)
  next
    case (Inr ctx')
    then have "ctx' = ctx" using I by simp
    then have "ab_boot svc ctx at store (s, (p, d1), km) = (st, entry, attempt, s', c', km')"
      using assms(1) by (simp add: load_kernel_from_ab_store_def c id Inr)
    then show ?thesis by (rule boot [OF _ g1])
  qed
qed

end

end
