(* ===== verification/BootInstall.thy ===== *)
theory BootInstall
  imports BootStart
begin

text \<open>
  The installer's part of the boot slots: when \<open>write_boot_partition_raw\<close> (\<^verbatim>\<open>boot/uefi_loader/installer_run.c\<close>) succeeds on a blank
  boot partition, the medium is sound, its fallback is the kernel that was installed, and the invariant of the machine holds. Nothing is
  assumed of what the partition held before, since the code itself checks that the control records are blank.
\<close>

subsection \<open>The first records\<close>

lemma initial_slots:
  "image_of (slot_at (initial_manager layout img) 0) =
     \<lparr>im_version = bs_strcpy (im_version img) BOOT_SLOT_VERSION_MAX, im_payload_size = im_payload_size img,
      im_payload_sha256 = take BOOT_SLOT_SHA256_SIZE (im_payload_sha256 img)\<rparr>"
  "sl_state (slot_at (initial_manager layout img) 1) = BOOT_SLOT_EMPTY" "mg_confirmed_slot (initial_manager layout img) = 0"
  by (simp_all add: initial_manager_def Let_def upd_slot_def at2_set2 image_of_def bs_slot_apply_image_def bs_manager_defaults_def slot_zero_def)

lemma initial_good:
  assumes "boot_slot_layout_plan (ly_boot_sectors layout) = Some layout" and "bs_image_valid img (rg_payload_capacity_sectors (at2 (ly_slots layout) 0))"
    and "image_wf img" and "version_padded (im_version img)" and "installed_as layout L 0 img kern"
  shows "good layout {(fallback (initial_manager layout img), kern)} L (initial_manager layout img)"
    and "image_of (slot_at (initial_manager layout img) 0) = img"
proof -
  show im: "image_of (slot_at (initial_manager layout img) 0) = img"
    using assms(3,4) by (simp add: initial_slots image_wf_def version_padded_def)
  show "good layout {(fallback (initial_manager layout img), kern)} L (initial_manager layout img)"
    using initial_valid [OF assms(1-3)] assms(5) im initial_slots(2) [of layout img]
    by (auto simp: good_def manager_ok_def images_on_def installed_def backed_def initial_slots(3) bootable_def)
qed

lemma owns_first: "owns 0 1" "owns 1 2"
  by (simp_all add: owns_def)

context boot_medium
begin

lemma initialize_blank:
  assumes "boot_slot_internal_initialize_persistent_locked (control_io ios b) layout img s c = (0, s', c')" and "valid c"
    and "bn_active b \<longrightarrow> bn_layout b = layout" and "image_wf img" and "version_padded (im_version img)" and "installed_as layout (lasting c) 0 img kern"
  shows "valid c' \<and> kept layout {(fallback (initial_manager layout img), kern)} (lasting c') (content c') s' \<and> bsm s' = initial_manager layout img \<and>
    boot_slot_internal_persistence_ready_locked s' \<and> boot_slot_phase s' = BOOT_SLOT_PHASE_BOUND_READY \<and> flushed layout (lasting c') (content c') \<and>
    (\<forall>k\<in>slot_sectors layout 0. lasting c' k \<subseteq> lasting c k)"
proof -
  let ?m = "initial_manager layout img" and ?s1 = "upd_bsp (\<lambda>p. p\<lparr>bp_blank := False\<rparr>) s"
  obtain rc1 c1 where w1: "bs_write_verified (control_io ios b) ?m 0 1 s c = (rc1, c1)" by fastforce
  obtain rc2 c2 where w2: "bs_write_verified (control_io ios b) ?m 1 2 ?s1 c1 = (rc2, c2)" by fastforce
  have pre: "bsm_initialized s" "bp_configured (bsp s)" "bs_image_valid img (rg_payload_capacity_sectors (at2 (ly_slots layout) 0))"
    and z: "rc1 = 0" "rc2 = 0" and c': "c' = c2"
    and s': "s' = (upd_bsp (\<lambda>p. p\<lparr>bp_generation := 2, bp_active_copy := 1, bp_degraded := False, bp_ready := True\<rparr>) (?s1\<lparr>bsm := ?m\<rparr>))
       \<lparr>boot_slot_phase := BOOT_SLOT_PHASE_BOUND_READY\<rparr>"
    using assms(1) unfolding boot_slot_internal_initialize_persistent_locked_def Let_def w1 prod.case w2
    by (auto simp: BOOT_SLOT_ERR_IO_def split: if_splits)
  note W1 = write_verified [OF assms(2,3) w1]
  have v1: "valid c1" using W1 by blast
  note W2 = write_verified [OF v1 assms(3) w2]
  have ne: "copy_lba layout 0 \<noteq> copy_lba layout 1" by (rule copy_lba_neq [OF plan])
  have L0: "lasting c2 (copy_lba layout 0) \<subseteq> {bs_record_encode ?m 1}" using W1 W2 z ne by blast
  have L1: "lasting c2 (copy_lba layout 1) \<subseteq> {bs_record_encode ?m 2}" using W2 z by blast
  have C0: "content c2 (copy_lba layout 0) = bs_record_encode ?m 1" using W1 W2 z ne by metis
  have C1: "content c2 (copy_lba layout 1) = bs_record_encode ?m 2" using W2 z by blast
  have slots: "lasting c2 k \<subseteq> lasting c k" if "k \<in> slot_sectors layout 0" for k
  proof -
    have "k \<notin> control_sectors layout" using plan_disjoint(2) [OF plan] that by blast
    then have "k \<noteq> copy_lba layout 0" "k \<noteq> copy_lba layout 1" using copy_lba_control [of 0 layout] copy_lba_control [of 1 layout] by auto
    then show ?thesis using W1 W2 by blast
  qed
  have inst: "installed_as layout (lasting c2) 0 img kern" by (rule installed_as_mono [OF assms(6)]) (use slots in blast)
  note G = initial_good(1) [OF plan pre(3) assms(4,5) inst]
  have ok: "manager_ok layout ?m" using G by (simp add: good_def)
  have U: "usable layout (bs_record_encode ?m 1) = Some (?m, 1)" "usable layout (bs_record_encode ?m 2) = Some (?m, 2)"
    using usable_encoded [OF ok] by simp_all
  have "sound layout {(fallback ?m, kern)} (lasting c2)"
    unfolding sound_def using L0 L1 U owns_first G by auto
  moreover have "current layout (content c2) s'" using s' C0 C1 U by (simp add: current_def upd_bsp_def)
  ultimately have "kept layout {(fallback ?m, kern)} (lasting c2) (content c2) s'"
    using G s' pre owns_first by (simp add: kept_def ram_ok_def ready_iff upd_bsp_def)
  then show ?thesis using W2 z c' s' pre slots by (simp add: flushed_def ready_iff upd_bsp_def)
qed

end

context boot_medium
begin

text \<open>Binding only reads, whatever is on the medium.\<close>

lemma set_persistence_reads:
  assumes "boot_slot_internal_set_persistence_locked (control_io ios b) layout s c = (rc, s', c')" and "valid c" and "bn_active b \<longrightarrow> bn_layout b = layout"
  shows "valid c' \<and> content c' = content c \<and> (\<forall>j. lasting c' j \<subseteq> lasting c j)"
proof -
  obtain k0 c1 where k0: "read_copy (control_io ios b) layout 0 c = (k0, c1)" by fastforce
  obtain k1 c2 where k1: "read_copy (control_io ios b) layout 1 c1 = (k1, c2)" by fastforce
  note R0 = read_copy_state [OF assms(2,3) _ k0, simplified]
  have v1: "valid c1" using R0 by blast
  note R1 = read_copy_state [OF v1 assms(3) _ k1, simplified]
  have "c' = c \<or> c' = c1 \<or> c' = c2"
    using assms(1) unfolding boot_slot_internal_set_persistence_locked_def Let_def k0 prod.case k1 by (auto split: if_splits option.splits prod.splits)
  then show ?thesis using R0 R1 assms(2) by (elim disjE) (simp, simp, auto)
qed

lemma bind_reads:
  assumes "boot_slot_store_bind_control ios store e s c = (rc, s', c')" and "valid c" and "attached layout s"
  shows "valid c' \<and> content c' = content c \<and> (\<forall>k. lasting c' k \<subseteq> lasting c k) \<and> attached layout s'"
  using assms(1) unfolding boot_slot_store_bind_control_def
proof (cases rule: held_cases)
  case 1
  then show ?thesis using assms(2,3) by simp
next
  case (2 s2)
  let ?s0 = "s\<lparr>st_boot := (st_boot s)\<lparr>boot_slot_operation_busy := True\<rparr>\<rparr>"
  obtain rcg io where gi: "store_io_get_locked store e ?s0 = (rcg, io)" by fastforce
  have at0: "attached layout ?s0" using assms(3) by simp
  note body = 2(1) [unfolded gi Let_def prod.case]
  show ?thesis
  proof (cases "rcg \<noteq> 0 \<or> \<not> si_ready io \<or> bp_configured (bsp (st_boot ?s0)) \<or> store_next_epoch ?s0 = 0 \<or>
      store_lease_owner ?s0 \<noteq> None \<and> store_lease_owner ?s0 \<noteq> Some store")
    case True
    then have "s2 = ?s0" "c' = c" using body by (simp_all split: if_splits)
    then show ?thesis using 2(2) assms(2) at0 by simp
  next
    case False
    let ?b = "\<lparr>bn_owner = Some store, bn_layout = si_layout io, bn_io = si_io io, bn_epoch = store_next_epoch ?s0,
       bn_lease_epoch = si_lease_epoch io, bn_provider_backed = si_provider_backed io, bn_active = True\<rparr>"
    let ?s1 = "?s0\<lparr>store_binding := ?b, store_next_epoch := store_next_epoch ?s0 + 1\<rparr>"
    let ?t = "if \<not> bsm_initialized (st_boot ?s1) then boot_slot_internal_init_locked (st_boot ?s1) else st_boot ?s1"
    obtain rc1 t1 c1 where sp: "boot_slot_internal_set_persistence_locked (control_io ios ?b) (bn_layout ?b) ?t c = (rc1, t1, c1)" by (metis prod_cases3)
    have lay: "bn_layout ?b = layout" using io_get_layout(1) [OF gi at0] False by simp
    note R = set_persistence_reads [OF sp [unfolded lay] assms(2)]
    have "c' = c1" "store_registration s2 = store_registration s" "st_stores s2 = st_stores s" "bn_layout (store_binding s2) = layout"
      using body [unfolded if_not_P [OF False] sp prod.case] lay by (auto split: if_splits)
    then show ?thesis using 2(2) R lay at0 by (simp add: attached_def)
  qed
qed

lemma initialize_store:
  assumes "boot_slot_store_initialize_persistent ios store e img s c = (0, s', c')" and "valid c" and "attached layout s"
    and "image_wf img" and "version_padded (im_version img)" and "installed_as layout (lasting c) 0 img kern"
  shows "valid c' \<and> kept layout {(fallback (initial_manager layout img), kern)} (lasting c') (content c') (st_boot s') \<and> attached layout s' \<and>
    bsm (st_boot s') = initial_manager layout img \<and> boot_slot_internal_persistence_ready_locked (st_boot s') \<and> flushed layout (lasting c') (content c') \<and>
    (\<forall>k\<in>slot_sectors layout 0. lasting c' k \<subseteq> lasting c k)"
  using assms(1) unfolding boot_slot_store_initialize_persistent_def
proof (cases rule: held_cases)
  case 1
  then show ?thesis by (simp add: BOOT_SLOT_STORE_ERR_BUSY_def)
next
  case (2 s2)
  let ?s0 = "s\<lparr>st_boot := (st_boot s)\<lparr>boot_slot_operation_busy := True\<rparr>\<rparr>"
  obtain rcg io where gi: "store_io_get_locked store e ?s0 = (rcg, io)" by fastforce
  have at0: "attached layout ?s0" using assms(3) by simp
  have rcg: "rcg = 0" using 2(1) by (auto simp: gi split: if_splits)
  have lay: "si_layout io = layout" by (rule io_get_layout(1) [OF gi at0 rcg])
  obtain rc1 t c1 where ip: "boot_slot_internal_initialize_persistent_locked (bound_io ios ?s0) layout img (st_boot ?s0) c = (rc1, t, c1)" by (metis prod_cases3)
  have "rc1 = 0" "c' = c1" "s2 = ?s0\<lparr>st_boot := t\<lparr>boot_slot_phase := BOOT_SLOT_PHASE_BOUND_READY\<rparr>\<rparr>"
    using 2(1) unfolding gi Let_def prod.case lay ip by (auto simp: rcg BOOT_SLOT_STORE_ERR_STALE_def split: if_splits)
  moreover from this have I: "valid c1 \<and> kept layout {(fallback (initial_manager layout img), kern)} (lasting c1) (content c1) t \<and> bsm t = initial_manager layout img \<and>
      boot_slot_internal_persistence_ready_locked t \<and> boot_slot_phase t = BOOT_SLOT_PHASE_BOUND_READY \<and> flushed layout (lasting c1) (content c1) \<and>
      (\<forall>k\<in>slot_sectors layout 0. lasting c1 k \<subseteq> lasting c k)"
    using initialize_blank [OF _ assms(2) attachedD [OF at0] assms(4-6)] ip by simp
  moreover from this have "t\<lparr>boot_slot_phase := BOOT_SLOT_PHASE_BOUND_READY\<rparr> = t" by (cases t) simp
  ultimately show ?thesis using 2(2) at0 by simp
qed

end

subsection \<open>Payload, header and records on the disk\<close>

context boot_machine
begin

lemma write_flush_read:
  assumes "uefi_block_io_write bio media lba bytes a1 buffer d = (st1, d1)" and "\<not> EFI_ERROR st1"
    and "uefi_block_io_flush bio media d1 = (st2, d2)" and "\<not> EFI_ERROR st2"
    and "uefi_block_io_read bio media lba bytes a2 old d2 = (st3, r, d3)"
    and "ok d" and "unat lba + n \<le> unat (bd_block_count raw)" and "unat bytes = 512 * n" and "length buffer = 512 * n"
  shows "ok d3 \<and> (\<forall>i<n. left d3 (unat lba + i) \<subseteq> {take 512 (drop (512 * i) buffer)}) \<and>
    (\<forall>k. k < unat lba \<or> unat lba + n \<le> k \<longrightarrow> left d3 k \<subseteq> left d k)"
proof -
  note W = block_write [OF assms(1,6-9)]
  have o1: "ok d1" using W by blast
  note F = block_flush [OF assms(3) o1]
  have o2: "ok d2" using F by blast
  note R = block_read [OF assms(5) o2 assms(7,8)]
  have sub: "left d3 k \<subseteq> left d1 k" for k using F R by (metis order_trans)
  have "left d3 (unat lba + i) \<subseteq> {take 512 (drop (512 * i) buffer)}" if "i < n" for i
  proof -
    have "unat lba + i < unat (bd_block_count raw)" using that assms(7) by linarith
    then have "left d2 (unat lba + i) \<subseteq> {data d1 (unat lba + i)}" using F assms(4) by blast
    then have "left d3 (unat lba + i) \<subseteq> {data d1 (unat lba + i)}" using R by (metis order_trans)
    then show ?thesis using W that assms(2) by simp
  qed
  moreover have "left d3 k \<subseteq> left d k" if "k < unat lba \<or> unat lba + n \<le> k" for k
    using W that sub [of k] by (metis order_trans)
  ultimately show ?thesis using R by blast
qed

lemma install_payload_ok:
  assumes "install_payload bio media lba rounded kern img d = (st, d')" and "\<not> EFI_ERROR st" and "ok d" and "n = sector_count (length kern)"
    and "unat rounded = 512 * n" and "unat lba + n \<le> unat (bd_block_count raw)"
  shows "ok d' \<and> (\<forall>i<n. left d' (unat lba + i) \<subseteq> {sector_of kern i}) \<and> (\<forall>k. k < unat lba \<or> unat lba + n \<le> k \<longrightarrow> left d' k \<subseteq> left d k)"
proof -
  let ?buf = "kern @ replicate (unat rounded - length kern) 0"
  obtain al d1 where aa: "uefi_block_io_allocate_aligned bio rounded d = (al, d1)" by fastforce
  note A = allocate_aligned [OF aa assms(3)]
  obtain allocation buffer where al: "al = Inr (allocation, buffer)"
  proof (cases al)
    case (Inl e)
    have "EFI_ERROR e" using aa Inl by (auto simp: uefi_block_io_allocate_aligned_def uefi_block_io_alignment_def Let_def efi_codes split: if_splits option.splits prod.splits)
    then show ?thesis using assms(1,2) by (simp add: install_payload_def aa Inl)
  qed (use that in fastforce)
  obtain st2 d2 where w: "uefi_block_io_write bio media lba rounded buffer ?buf d1 = (st2, d2)" by fastforce
  obtain st3 d3 where f: "uefi_block_io_flush bio media d2 = (st3, d3)" by fastforce
  obtain st4 r d4 where rd: "uefi_block_io_read bio media lba rounded buffer (replicate (unat rounded) 0) d3 = (st4, r, d4)" by (metis prod_cases3)
  have e: "\<not> EFI_ERROR st2" "\<not> EFI_ERROR st3" "d' = bio_FreePool bio allocation d4"
    using assms(1,2) unfolding install_payload_def aa al Let_def prod.case sum.case w by (auto simp: f rd split: if_splits)
  have len: "length ?buf = 512 * n" using sector_count_bound [of kern] assms(4,5) by simp
  have o1: "ok d1" using A by blast
  note W = write_flush_read [OF w e(1) f e(2) rd o1 assms(6,5) len]
  have "take 512 (drop (512 * i) ?buf) = sector_of kern i" if "i < n" for i
    using padded_sector [of i kern] that assms(4,5) by (simp add: mult.commute)
  then show ?thesis using W A e(3) efi_free [of d4 allocation] by auto
qed

lemma install_header_ok:
  assumes "install_header bio media lba header at d = (st, d')" and "\<not> EFI_ERROR st" and "ok d" and "unat lba + 1 \<le> unat (bd_block_count raw)" and "length header = 512"
  shows "ok d' \<and> left d' (unat lba) \<subseteq> {header} \<and> (\<forall>k. k \<noteq> unat lba \<longrightarrow> left d' k \<subseteq> left d k)"
proof -
  obtain st2 d2 where w: "uefi_block_io_write bio media lba 512 (at d) header d = (st2, d2)" by fastforce
  obtain st3 d3 where f: "uefi_block_io_flush bio media d2 = (st3, d3)" by fastforce
  obtain st4 r d4 where rd: "uefi_block_io_read bio media lba 512 (at d3) sector_junk d3 = (st4, r, d4)" by (metis prod_cases3)
  have e: "\<not> EFI_ERROR st2" "\<not> EFI_ERROR st3" "d' = d4"
    using assms(1,2) unfolding install_header_def Let_def w prod.case by (auto simp: f rd split: if_splits)
  have one: "unat (512 :: u64) = 512 * 1" "length header = 512 * 1" using assms(5) by simp_all
  from write_flush_read [OF w e(1) f e(2) rd assms(3,4) one] show ?thesis using e(3) assms(5) by (auto simp: less_Suc_eq_le neq_iff Suc_le_eq)
qed

end

subsection \<open>The installer as a whole\<close>

lemma generation_cases:
  assumes "boot_slot_persistence_generation b = (g, b')"
  shows "\<exists>x. b' = b\<lparr>boot_slot_operation_busy := x\<rparr>"
  using assms
  by (auto simp: boot_slot_persistence_generation_def query_def boot_slot_internal_operation_begin_def boot_slot_internal_operation_end_def split: if_splits)

lemma installer_image_wf: "image_wf (installer_image kern)" "version_padded (im_version (installer_image kern))"
  "length kern \<le> 0xFFFFFFFF \<Longrightarrow> unat (im_payload_size (installer_image kern)) = length kern" "im_payload_sha256 (installer_image kern) = sha256_ref kern"
  by (simp_all add: image_wf_def installer_image_def CAPYOS_VERSION_FULL_def BOOT_SLOT_VERSION_MAX_def BOOT_SLOT_SHA256_SIZE_def
      hash_is_ref sha256_ref_length SHA256_DIGEST_SIZE_def version_padded_def bs_strcpy_def Let_def unat_of_nat)

context boot_machine
begin

lemma install_control_ok:
  assumes "install_control ctx at store layout img s c = (True, s', c')" and "part_valid ok raw base layout c" and "attached layout s"
    and "image_wf img" and "version_padded (im_version img)" and "installed_as layout (part_content left base c) 0 img kern"
  shows "good_machine {(fallback (initial_manager layout img), kern)} (s', c') \<and> bsm (st_boot s') = initial_manager layout img \<and>
    boot_slot_internal_persistence_ready_locked (st_boot s') \<and> flushed layout (part_content left base c') (part_content data base c') \<and>
    (\<forall>k\<in>slot_sectors layout 0. part_content left base c' k \<subseteq> part_content left base c k)"
proof -
  let ?ios = "machine_io (uefi_io ctx at)"
  obtain rc1 b1 where i: "boot_slot_init (st_boot s) = (rc1, b1)" by fastforce
  obtain rc2 s2 where o: "boot_slot_store_init store layout (Some 0) (s\<lparr>st_boot := b1\<rparr>) = (rc2, s2)" by fastforce
  obtain rc3 s3 c3 where bi: "boot_slot_store_bind_control ?ios store 0 s2 c = (rc3, s3, c3)" by (metis prod_cases3)
  obtain rc4 s4 c4 where ip: "boot_slot_store_initialize_persistent ?ios store 0 img s3 c3 = (rc4, s4, c4)" by (metis prod_cases3)
  obtain rc5 got b5 where mg: "boot_slot_manager_get (st_boot s4) = ((rc5, got), b5)" by (metis prod_cases3 prod.exhaust)
  obtain g b6 where ge: "boot_slot_persistence_generation b5 = (g, b6)" by fastforce
  have r: "rc4 = 0" "c' = c4" "s' = s4\<lparr>st_boot := b6\<rparr>"
    using assms(1) unfolding install_control_def Let_def i prod.case o bi ip mg
    by (auto simp: ge split: if_splits option.splits)
  have a2: "attached layout s2" using store_init_kept [OF o] assms(3) by simp
  note B = part.medium.bind_reads [OF bi assms(2) a2]
  have v3: "part_valid ok raw base layout c3" "attached layout s3" using B by auto
  have i3: "installed_as layout (part_content left base c3) 0 img kern" by (rule installed_as_mono [OF assms(6)]) (use B in blast)
  note I = part.medium.initialize_store [OF ip [unfolded r(1)] v3 assms(4,5) i3]
  obtain x y where "b6 = (st_boot s4)\<lparr>boot_slot_operation_busy := x\<rparr>\<lparr>boot_slot_operation_busy := y\<rparr>"
    using generation_cases [OF ge] manager_get_cases(1) [OF mg] by blast
  moreover have "\<forall>k\<in>slot_sectors layout 0. part_content left base c4 k \<subseteq> part_content left base c k" using I B by (meson order_trans)
  ultimately show ?thesis using I r unfolding machine_ok_def fst_conv snd_conv by simp
qed

end

context boot_machine
begin

lemma slot_lba:
  assumes "x < 2"
  shows "unat (ucast base + ucast (rg_payload_lba (at2 (ly_slots layout) x)) :: u64) = unat base + unat (rg_payload_lba (at2 (ly_slots layout) x))"
    and "unat (ucast base + ucast (rg_header_lba (at2 (ly_slots layout) x)) :: u64) = unat base + unat (rg_header_lba (at2 (ly_slots layout) x))"
    and "unat base + unat (rg_header_lba (at2 (ly_slots layout) x)) + 1 \<le> unat (bd_block_count raw)"
    and "unat base + unat (rg_payload_lba (at2 (ly_slots layout) x)) + unat (rg_payload_capacity_sectors (at2 (ly_slots layout) x)) \<le> unat (bd_block_count raw)"
proof -
  let ?rg = "at2 (ly_slots layout) x"
  define sl where "sl = slot_zero\<lparr>sl_header_lba := rg_header_lba ?rg, sl_payload_lba := rg_payload_lba ?rg, sl_payload_capacity_sectors := rg_payload_capacity_sectors ?rg\<rparr>"
  have "slot_region sl = ?rg" by (simp add: sl_def slot_region_def)
  note F = slot_fits [OF this assms]
  then show p: "unat (ucast base + ucast (rg_payload_lba ?rg) :: u64) = unat base + unat (rg_payload_lba ?rg)"
    and "unat base + unat (rg_payload_lba ?rg) + unat (rg_payload_capacity_sectors ?rg) \<le> unat (bd_block_count raw)" by (simp_all add: sl_def partition_ctx_def)
  have "unat (rg_header_lba ?rg) < unat (ly_boot_sectors layout)" using part.medium.slot_bounds [OF assms] by (auto simp: slot_sectors_def)
  then show h: "unat base + unat (rg_header_lba ?rg) + 1 \<le> unat (bd_block_count raw)" using machine_fits by linarith
  have "unat (bd_block_count raw) < 2 ^ LENGTH(32)" by (rule unsigned_less)
  then have "unat base + unat (rg_header_lba ?rg) < 2 ^ LENGTH(64)" using h by simp
  then show "unat (ucast base + ucast (rg_header_lba ?rg) :: u64) = unat base + unat (rg_header_lba ?rg)" by (simp add: unat_word_ariths unat_up)
qed

lemma install_ok:
  assumes "write_boot_partition_raw bio media (ucast base) (ucast (ly_boot_sectors layout)) kern at store s c = (st, s', c')" and "\<not> EFI_ERROR st"
    and "part_valid ok raw base layout c" and "attached layout s"
  shows "good_machine {(fallback (initial_manager layout (installer_image kern)), kern)} (s', c') \<and>
    boot_slot_internal_persistence_ready_locked (st_boot s') \<and> bsm (st_boot s') = initial_manager layout (installer_image kern) \<and>
    flushed layout (part_content left base c') (part_content data base c') \<and>
    installed_as layout (part_content left base c') 0 (installer_image kern) kern \<and> (\<exists>plan. validate_kernel_buffer kern = Inr plan)"
proof -
  let ?rg = "at2 (ly_slots layout) 0" and ?img = "installer_image kern" and ?n = "sector_count (length kern)"
  let ?header = "store_encode_header layout 0 ?img"
  define sectors :: u32 where "sectors = of_nat ((length kern + 511) div 512)"
  obtain p d where c: "c = (p, d)" by fastforce
  obtain st1 d1 where ip: "install_payload bio media (ucast base + ucast (rg_payload_lba ?rg)) (ucast sectors * 512) kern ?img d = (st1, d1)" by fastforce
  obtain st2 d2 where ih: "install_header bio media (ucast base + ucast (rg_header_lba ?rg)) ?header at d1 = (st2, d2)" by fastforce
  obtain fin s3 c3 where ic: "install_control ctx at store layout ?img s (p, d2) = (fin, s3, c3)" by (metis prod_cases3)
  have ctx: "\<lparr>ctx_bio = bio, ctx_media_id = media, ctx_boot_lba = ucast base, ctx_boot_sectors = ucast (ucast (ly_boot_sectors layout) :: u64)\<rparr> = ctx"
    by (simp add: partition_ctx_def down_up)
  have plan: "boot_slot_layout_plan (ucast (ucast (ly_boot_sectors layout) :: u64)) = Some layout" using machine_plan by (simp add: down_up)
  have f0: "fst (ly_slots layout) = ?rg" by (simp add: at2_def)
  note eq = assms(1) [unfolded write_boot_partition_raw_def c Let_def prod.case plan sectors_def [symmetric] f0]
  obtain md pl where md: "bio_Media bio d = Some md" and v: "validate_kernel_buffer kern = Inr pl"
    and g1: "\<not> (md_BlockSize md \<noteq> 512 \<or> md_MediaId md \<noteq> media \<or> (ucast (ly_boot_sectors layout) :: u64) = 0 \<or> (ucast (ly_boot_sectors layout) :: u64) > 0xFFFFFFFF \<or>
       ucast base > md_LastBlock md \<or> ucast (ly_boot_sectors layout) - 1 > md_LastBlock md - ucast base \<or> kern = [] \<or> length kern > 0xFFFFFFFF)"
    using eq assms(2) by (simp add: efi_codes split: option.splits if_splits sum.splits) fastforce+
  have g2: "\<not> (sectors = 0 \<or> sectors > rg_payload_capacity_sectors ?rg)"
    using eq assms(2) unfolding md option.case if_not_P [OF g1] plan v sum.case f0 sectors_def [symmetric] prod.case by (auto simp: efi_codes split: if_splits)
  note eq2 = eq [unfolded md option.case if_not_P [OF g1] plan v sum.case prod.case f0 sectors_def [symmetric] if_not_P [OF g2] ip]
  have "\<not> EFI_ERROR st1 \<and> \<not> EFI_ERROR st2 \<and> fin \<and> (s', c') = (s3, c3)"
    using eq2 assms(2) by (auto simp: boot_slot_store_encode_header_def ih ic ctx efi_codes split: if_splits)
  then have key: "length kern \<le> 0xFFFFFFFF" "sectors \<le> rg_payload_capacity_sectors ?rg" "\<not> EFI_ERROR st1" "\<not> EFI_ERROR st2" "fin" "(s', c') = (s3, c3)"
    using g1 g2 by auto
  have sec: "unat sectors = ?n"
  proof -
    have "(length kern + 511) div 512 < 2 ^ 32" using key by auto
    then show ?thesis by (simp add: sectors_def sector_count_def unat_of_nat)
  qed
  have "unat sectors < 2 ^ LENGTH(32)" by (rule unsigned_less)
  then have ro: "unat (ucast sectors * 512 :: u64) = 512 * ?n" using sec by (simp add: unat_word_ariths unat_up)
  have cap: "?n \<le> unat (rg_payload_capacity_sectors ?rg)" using key sec by (simp add: word_le_nat_alt)
  note B = slot_lba [of 0, simplified]
  have "ok d" using assms(3) c by (simp add: part_valid_def)
  note P = install_payload_ok [OF ip _ this refl ro]
  have pl: "ok d1" "\<forall>i<?n. left d1 (unat base + (unat (rg_payload_lba ?rg) + i)) \<subseteq> {sector_of kern i}"
    using P key B cap by (simp_all add: add.assoc)
  note H = install_header_ok [OF ih _ pl(1), unfolded B(2)]
  have hd: "ok d2" "left d2 (unat base + unat (rg_header_lba ?rg)) \<subseteq> {?header}" "\<forall>k. k \<noteq> unat base + unat (rg_header_lba ?rg) \<longrightarrow> left d2 k \<subseteq> left d1 k"
    using H key B by simp_all
  have ne: "unat base + unat (rg_payload_lba ?rg) + i \<noteq> unat base + unat (rg_header_lba ?rg)" for i using plan_values(3,4) [OF machine_plan] by simp
  have inst: "installed_as layout (part_content left base (p, d2)) 0 ?img kern"
    unfolding installed_as_def part_content_def snd_conv
    using hd pl(2) ne cap installer_image_wf(3) [of kern] installer_image_wf(4) [of kern] key by (auto simp: add.assoc subset_iff) 
  have v2: "part_valid ok raw base layout (p, d2)" using assms(3) c hd(1) by (simp add: part_valid_def)
  have "install_control ctx at store layout ?img s (p, d2) = (True, s', c')" using ic key by simp
  note C = install_control_ok [OF this v2 assms(4) installer_image_wf(1,2)]
  have "installed_as layout (part_content left base c') 0 ?img kern" by (rule installed_as_mono [OF inst]) (use C [OF inst] in blast)
  then show ?thesis using C [OF inst] v by blast
qed

end

end
