(* ===== verification/BootLive.thy ===== *)
theory BootLive
  imports BootInstall
begin

text \<open>
  The machine starts. The other theories show what the boot slots never lose; here the device calls succeed from some point on, and the loader
  then does load a kernel: from a sound medium whose confirmed image is a kernel, it starts the image on trial or, when that
  cannot be loaded, the confirmed one. The locale \<open>calm_medium\<close> is a boot medium whose calls succeed, \<open>calm_machine\<close> a machine
  whose firmware services do.
\<close>

subsection \<open>A medium whose calls succeed\<close>

text \<open>A binding to this partition through the callbacks \<open>h\<close>; the loader's are number 0.\<close>

definition tied :: "boot_slot_layout \<Rightarrow> nat \<Rightarrow> boot_slot_store_binding \<Rightarrow> bool" where
  "tied layout h b \<longleftrightarrow> bn_active b \<and> bn_layout b = layout \<and> bn_io b = Some h"

lemma tiedD: "tied layout h b \<Longrightarrow> bn_active b \<longrightarrow> bn_layout b = layout"
  by (simp add: tied_def)

locale calm_medium = boot_medium ios layout valid content lasting
  for ios :: "nat \<Rightarrow> 'c sector_io" and layout valid content lasting +
  fixes calm :: "'c \<Rightarrow> bool"
  assumes calm_read: "valid c \<Longrightarrow> calm c \<Longrightarrow> unat lba < unat (ly_boot_sectors layout) \<Longrightarrow> sec_read (ios 0) lba c = (rc, r, c') \<Longrightarrow> rc = 0 \<and> calm c'"
    and calm_write: "valid c \<Longrightarrow> calm c \<Longrightarrow> unat lba < unat (ly_boot_sectors layout) \<Longrightarrow> length b = BOOT_SLOT_STORE_SECTOR_SIZE \<Longrightarrow>
      sec_write (ios 0) lba b c = (rc, c') \<Longrightarrow> rc = 0 \<and> calm c'"
    and calm_flush: "valid c \<Longrightarrow> calm c \<Longrightarrow> sec_flush (ios 0) c = (rc, c') \<Longrightarrow> rc = 0 \<and> calm c'"
begin

lemma calm_control_read:
  assumes "valid c" and "calm c" and "tied layout 0 b" and "i < 2" and "pr_read (control_io ios b) i c = (rc, r, c')"
  shows "rc = 0 \<and> calm c'"
  using assms calm_read [OF assms(1,2)] copy_bound [OF assms(4)]
  by (auto simp: control_io_def store_control_read_def tied_def io_of_def BOOT_SLOT_PERSIST_COPY_COUNT_def not_le[symmetric] simp del: not_le)

lemma calm_control_write:
  assumes "valid c" and "calm c" and "tied layout 0 b" and "i < 2" and "length r = 512" and "pr_write (control_io ios b) i r c = (rc, c')"
  shows "rc = 0 \<and> calm c'"
  using assms calm_write [OF assms(1,2)] copy_bound [OF assms(4)]
  by (auto simp: control_io_def store_control_write_def tied_def io_of_def BOOT_SLOT_PERSIST_COPY_COUNT_def BOOT_SLOT_PERSIST_RECORD_SIZE_def
      BOOT_SLOT_STORE_SECTOR_SIZE_def not_le[symmetric] simp del: not_le)

lemma calm_control_flush:
  assumes "valid c" and "calm c" and "tied layout 0 b" and "pr_flush (control_io ios b) c = (rc, c')"
  shows "rc = 0 \<and> calm c'"
  using assms calm_flush [OF assms(1,2)] by (auto simp: control_io_def store_control_flush_def tied_def io_of_def)

lemma calm_write_verified:
  assumes "valid c" and "calm c" and "tied layout 0 b" and "bp_configured (bsp s)" and "i < 2" and "boot_slot_manager_validate m" and "manager_wf m" and "g \<noteq> 0"
    and "bs_write_verified (control_io ios b) m i g s c = (rc, c')"
  shows "rc = 0 \<and> calm c'"
proof -
  let ?r = "bs_record_encode m g"
  obtain rc1 c1 where w: "pr_write (control_io ios b) i ?r c = (rc1, c1)" by fastforce
  obtain rc2 c2 where f: "pr_flush (control_io ios b) c1 = (rc2, c2)" by fastforce
  obtain rc3 r c3 where rd: "pr_read (control_io ios b) i c2 = (rc3, r, c3)" by (metis prod_cases3)
  have W: "rc1 = 0" "calm c1" using calm_control_write [OF assms(1-3,5) record_encode_length w] by auto
  have W': "valid c1" "content c1 (copy_lba layout i) = ?r" using control_write [OF assms(1) tiedD [OF assms(3)] assms(5) record_encode_length w] W by auto
  have F: "rc2 = 0" "calm c2" using calm_control_flush [OF W'(1) W(2) assms(3) f] by auto
  have F': "valid c2" "content c2 = content c1" using control_flush [OF W'(1) f] by auto
  have R: "rc3 = 0" "calm c3" using calm_control_read [OF F'(1) F(2) assms(3,5) rd] by auto
  have r: "r = ?r" using control_read [OF F'(1) tiedD [OF assms(3)] assms(5) rd] R F' W' by simp
  have "bs_record_decode r = Some (m, g)" unfolding r by (rule record_roundtrip_core [OF assms(6-8)])
  then have "rc = 0" "c' = c3" using assms(9) assms(4-6) W F R r
    by (simp_all add: bs_write_verified_def w f rd bs_bytes_equal_iff BOOT_SLOT_PERSIST_COPY_COUNT_def not_le[symmetric] del: not_le)
  then show ?thesis using R by simp
qed

lemma calm_commit:
  assumes "valid c" and "calm c" and "tied layout 0 b" and "boot_slot_internal_persistence_ready_locked s" and "\<not> bp_stage_claimed (bsp s)"
    and "bp_generation (bsp s) \<noteq> UINT64_MAX" and "bp_active_copy (bsp s) < 2" and "boot_slot_manager_validate m" and "manager_wf m"
    and "bs_commit_locked (control_io ios b) m s c = (rc, s', c')"
  shows "rc = 0 \<and> calm c' \<and> \<not> bp_stage_claimed (bsp s')"
proof -
  let ?i = "bp_active_copy (bsp s) XOR 1" and ?g = "bp_generation (bsp s) + 1"
  obtain rc1 c1 where w: "bs_write_verified (control_io ios b) m ?i ?g s c = (rc1, c1)" by fastforce
  have r: "bsm_initialized s" "bp_configured (bsp s)" "bp_ready (bsp s)" "boot_slot_phase s = BOOT_SLOT_PHASE_BOUND_READY" using assms(4) by (simp_all add: ready_iff)
  have "?g \<noteq> 0" using assms(6) word_less_next [OF assms(6)] by auto
  then have "rc1 = 0" "calm c1" using calm_write_verified [OF assms(1-3) r(2) xor_one_lt2 [OF assms(7)] assms(8,9) _ w] by auto
  then show ?thesis using assms(10) r assms(5,6) by (auto simp: bs_commit_locked_def w Let_def upd_bsp_def)
qed

end

subsection \<open>The loader's state\<close>

lemma held_free:
  assumes "held refused f s c = (r, s', c')" and "\<not> boot_slot_operation_busy (st_boot s)"
  obtains s1 where "f (s\<lparr>st_boot := (st_boot s)\<lparr>boot_slot_operation_busy := True\<rparr>\<rparr>) c = (r, s1, c')"
    and "s' = s1\<lparr>st_boot := (st_boot s1)\<lparr>boot_slot_operation_busy := False\<rparr>\<rparr>"
  using assms
  by (auto simp: held_def Let_def boot_slot_internal_operation_begin_def boot_slot_internal_operation_end_def split: prod.splits)

text \<open>What the loader has between its calls: its own store open and bound, nothing leased, nothing claimed, a generation that can still grow.\<close>

definition loader_bound :: "boot_slot_layout \<Rightarrow> nat \<Rightarrow> store_state \<Rightarrow> bool" where
  "loader_bound layout store s \<longleftrightarrow>
     boot_slot_internal_persistence_ready_locked (st_boot s) \<and> loader_build (st_boot s) \<and> \<not> boot_slot_operation_busy (st_boot s) \<and>
     \<not> bp_stage_claimed (bsp (st_boot s)) \<and> tied layout 0 (store_binding s) \<and> \<not> rn_active (store_registration s) \<and>
     so_test_ready (st_stores s store) \<and> so_opaque_epoch (st_stores s store) = 0 \<and> so_test_layout (st_stores s store) = layout \<and>
     so_test_io (st_stores s store) = Some 0"

lemma slot_image_valid:
  assumes "bs_slot_identity_valid sl" and "slot_wf i sl" and "sl_state sl \<noteq> BOOT_SLOT_EMPTY"
  shows "store_image_valid (image_of sl) (sl_payload_capacity_sectors sl)" and "length (im_version (image_of sl)) = BOOT_SLOT_VERSION_MAX"
    and "length (im_payload_sha256 (image_of sl)) = BOOT_SLOT_SHA256_SIZE"
proof -
  let ?v = "sl_version sl"
  have p: "version_padded ?v" using assms(2) by (simp add: slot_wf_def)
  have f: "bs_string_fits ?v BOOT_SLOT_VERSION_MAX" "sl_payload_size sl > 0" "(ucast (sl_payload_size sl) :: u64) \<le> ucast (sl_payload_capacity_sectors sl) * 512"
    "bs_digest_present (sl_payload_sha256 sl)"
    using assms(1,3) by (auto simp: bs_slot_identity_valid_def split: if_splits)
  note t = string_fits_text [OF f(1) p]
  have l: "length ?v = 40" by (rule padded_length [OF p])
  show "length (im_version (image_of sl)) = BOOT_SLOT_VERSION_MAX" using l by (simp add: image_of_def BOOT_SLOT_VERSION_MAX_def)
  show "length (im_payload_sha256 (image_of sl)) = BOOT_SLOT_SHA256_SIZE" using assms(2) by (simp add: image_of_def slot_wf_def)
  have e: "?v = c_text ?v @ replicate (40 - length (c_text ?v)) 0" by (rule paddedE [OF p])
  have tw: "takeWhile (\<lambda>b. b \<noteq> 0) ?v = c_text ?v" using takeWhile_padded [of "c_text ?v"] c_text_nonzero e by metis
  have z: "?v ! i = 0" if "length (c_text ?v) \<le> i" "i < 40" for i
    using that by (subst e) (simp add: nth_append)
  have "store_version_valid ?v"
    using t c_text_length [of ?v] z l
    by (auto simp: store_version_valid_def Let_def tw BOOT_SLOT_VERSION_MAX_def list_all_upt)
  then show "store_image_valid (image_of sl) (sl_payload_capacity_sectors sl)"
    using f by (simp add: store_image_valid_def image_of_def BOOT_SLOT_STORE_SECTOR_SIZE_def)
qed

context calm_medium
begin

lemma calm_read_copy:
  assumes "valid c" and "calm c" and "tied layout 0 b" and "i < 2" and "read_copy (control_io ios b) layout i c = (k, c')"
  shows "valid c' \<and> calm c' \<and> content c' = content c \<and> k = copy_state layout (content c (copy_lba layout i))"
proof -
  obtain rc r c1 where rd: "pr_read (control_io ios b) i c = (rc, r, c1)" by (metis prod_cases3)
  have R: "rc = 0" "calm c1" using calm_control_read [OF assms(1-4) rd] by auto
  have "c' = c1" "fst k = rc \<or> fst k = BOOT_SLOT_PERSIST_EMPTY" using assms(5) rd by (auto simp: read_copy_def Let_def)
  then show ?thesis using read_copy_state [OF assms(1) tiedD [OF assms(3)] assms(4,5)] R by (auto simp: BOOT_SLOT_PERSIST_EMPTY_def)
qed

lemma calm_set_persistence:
  assumes "valid c" and "calm c" and "tied layout 0 b" and "sound layout K (lasting c)" and "\<not> bp_stage_claimed (bsp s)" and "boot_slot_internal_bind_allowed_locked s"
    and "boot_slot_internal_set_persistence_locked (control_io ios b) layout s c = (rc, s', c')"
  shows "rc = 0 \<and> calm c' \<and> \<not> bp_stage_claimed (bsp s') \<and> loader_build s' = loader_build s \<and> boot_slot_operation_busy s' = boot_slot_operation_busy s"
proof -
  obtain k0 c1 where k0: "read_copy (control_io ios b) layout 0 c = (k0, c1)" by fastforce
  obtain k1 c2 where k1: "read_copy (control_io ios b) layout 1 c1 = (k1, c2)" by fastforce
  have R0: "valid c1" "calm c1" "content c1 = content c" "k0 = copy_state layout (content c (copy_lba layout 0))"
    using calm_read_copy [OF assms(1-3) _ k0] by auto
  have R1: "calm c2" "k1 = copy_state layout (content c (copy_lba layout 1))" using calm_read_copy [OF R0(1,2) assms(3) _ k1] R0(3) by auto
  obtain m0 g0 where u0: "usable layout (content c (copy_lba layout 0)) = Some (m0, g0)" "owns 0 g0" "good layout K (lasting c) m0"
    using sound_content [OF assms(4,1), of 0] by auto
  obtain m1 g1 where u1: "usable layout (content c (copy_lba layout 1)) = Some (m1, g1)" "owns 1 g1" "good layout K (lasting c) m1"
    using sound_content [OF assms(4,1), of 1] by auto
  have ch: "choose_copy k0 k1 = (0, Some (if g0 < g1 then (m1, g1, 1, False) else (m0, g0, 0, False)))"
    unfolding R0(4) R1(2) by (rule choose_newer [OF u0(1) u1(1) owns_neq [OF u0(2) u1(2)]])
  have f: "\<not> (fst k0 \<noteq> 0 \<and> fst k0 \<noteq> BOOT_SLOT_PERSIST_EMPTY)" "\<not> (fst k1 \<noteq> 0 \<and> fst k1 \<noteq> BOOT_SLOT_PERSIST_EMPTY)"
    using R0(4) R1(2) by (auto simp: copy_state_def)
  have p: "\<not> (\<not> boot_slot_internal_bind_allowed_locked s \<or>
      (case boot_slot_layout_plan (ly_boot_sectors layout) of None \<Rightarrow> True | Some expected \<Rightarrow> \<not> bs_layout_equal layout expected))"
    using assms(6) plan by simp
  show ?thesis
    using assms(7) unfolding boot_slot_internal_set_persistence_locked_def Let_def k0 prod.case k1 if_not_P [OF assms(5)] if_not_P [OF p] if_not_P [OF f(1)] if_not_P [OF f(2)] ch
    by (cases "g0 < g1") (use R1(1) in \<open>auto simp: upd_bsp_def\<close>)
qed

end

text \<open>Fresh memory in the loader, initialised and with the store opened.\<close>

definition opened :: "boot_slot_layout \<Rightarrow> nat \<Rightarrow> store_state" where
  "opened layout store =
     (memory_start True)\<lparr>st_boot := \<lparr>bsm = bs_manager_defaults, bsm_initialized = True, boot_slot_operation_busy = False, bsp = bsp_zero,
          boot_slot_phase = BOOT_SLOT_PHASE_RAM_TEST, loader_build = True\<rparr>,
        st_stores := (\<lambda>_. store_zeroed)(store := store_zeroed\<lparr>so_test_layout := layout, so_test_io := Some 0, so_test_ready := True\<rparr>)\<rparr>"

lemma fresh_open:
  assumes "boot_slot_layout_plan (ly_boot_sectors layout) = Some layout" and "boot_slot_init (st_boot (memory_start True)) = (rc1, b)"
    and "boot_slot_store_init store layout (Some 0) ((memory_start True)\<lparr>st_boot := b\<rparr>) = (rc2, s2)"
  shows "rc1 = 0 \<and> rc2 = 0 \<and> s2 = opened layout store"
proof -
  have b: "rc1 = 0 \<and> b = st_boot (opened layout store)"
    using assms(2) by (auto simp: boot_slot_init_def memory_start_def opened_def boot_slot_internal_operation_begin_def boot_slot_internal_operation_end_def
        boot_slot_internal_init_locked_def bsp_zero_def Let_def)
  have "plan_is layout" using assms(1) by (simp add: plan_is_def)
  then show ?thesis using assms(3) b
    by (auto simp: boot_slot_store_init_def Let_def boot_slot_internal_operation_begin_def boot_slot_internal_operation_end_def upd_store_def
        memory_start_def opened_def binding_zero_def)
qed

context calm_medium
begin

lemma calm_bind:
  assumes "boot_slot_store_bind_control ios store 0 (opened layout store) c = (rc, s', c')" and "valid c" and "calm c" and "sound layout K (lasting c)"
  shows "rc = 0 \<and> calm c' \<and> loader_bound layout store s'"
proof -
  let ?s = "opened layout store"
  have free: "\<not> boot_slot_operation_busy (st_boot ?s)" by (simp add: opened_def)
  let ?s0 = "?s\<lparr>st_boot := (st_boot ?s)\<lparr>boot_slot_operation_busy := True\<rparr>\<rparr>"
  let ?io = "io_zero\<lparr>si_layout := layout, si_io := Some 0, si_ready := True\<rparr>"
  let ?b = "\<lparr>bn_owner = Some store, bn_layout = si_layout ?io, bn_io = si_io ?io, bn_epoch = store_next_epoch ?s0, bn_lease_epoch = si_lease_epoch ?io,
     bn_provider_backed = si_provider_backed ?io, bn_active = True\<rparr>"
  let ?s1 = "?s0\<lparr>store_binding := ?b, store_next_epoch := store_next_epoch ?s0 + 1\<rparr>"
  let ?t = "if \<not> bsm_initialized (st_boot ?s1) then boot_slot_internal_init_locked (st_boot ?s1) else st_boot ?s1"
  have io: "store_io_get_locked store 0 ?s0 = (0, ?io)"
    by (simp add: store_io_get_locked_def opened_def memory_start_def registration_zero_def store_zeroed_def Let_def)
  have g: "\<not> ((0::int) \<noteq> 0 \<or> \<not> si_ready ?io \<or> bp_configured (bsp (st_boot ?s0)) \<or> store_next_epoch ?s0 = 0 \<or>
      store_lease_owner ?s0 \<noteq> None \<and> store_lease_owner ?s0 \<noteq> Some store)"
    by (simp add: opened_def memory_start_def bsp_zero_def)
  have t: "?t = st_boot ?s0" by (simp add: opened_def)
  have bl: "bn_layout ?b = layout" by simp
  have ti: "tied layout 0 ?b" by (simp add: tied_def)
  obtain rc1 t1 c1 where sp: "boot_slot_internal_set_persistence_locked (control_io ios ?b) (bn_layout ?b) ?t c = (rc1, t1, c1)" by (metis prod_cases3)
  note sp' = sp [unfolded t bl]
  have C: "rc1 = 0" "calm c1" "\<not> bp_stage_claimed (bsp t1)" "loader_build t1"
    using calm_set_persistence [OF assms(2,3) ti assms(4) _ _ sp'] by (simp_all add: opened_def bsp_zero_def boot_slot_internal_bind_allowed_locked_def)
  have "kept layout K (lasting c) (content c) (st_boot ?s0)" using assms(4) by (simp add: kept_def ram_ok_def ready_iff opened_def bsp_zero_def)
  from set_persistence [OF assms(2) tiedD [OF ti] assms(4) sp' this] C
  have D: "bp_configured (bsp t1)" "bp_ready (bsp t1)" "bsm_initialized t1" by (auto simp: opened_def)
  from assms(1) [unfolded boot_slot_store_bind_control_def] free show ?thesis
  proof (cases rule: held_free)
    case (1 s2)
    have "rc = 0" "c' = c1" "s2 = ?s1\<lparr>st_boot := (upd_bsp (\<lambda>p. p\<lparr>bp_authority_epoch := bn_epoch ?b\<rparr>) t1)\<lparr>boot_slot_phase := BOOT_SLOT_PHASE_BOUND_READY\<rparr>\<rparr>"
      using 1(1) [unfolded io Let_def prod.case if_not_P [OF g] sp] C(1) by (simp_all split: if_splits)
    then show ?thesis using 1(2) C D ti
      by (simp add: loader_bound_def ready_iff upd_bsp_def opened_def memory_start_def registration_zero_def store_zeroed_def)
  qed
qed

end

lemma commit_frame:
  assumes "bs_commit_locked io m s c = (rc, s', c')"
  shows "loader_build s' = loader_build s \<and> boot_slot_operation_busy s' = boot_slot_operation_busy s \<and>
    bp_generation (bsp s') \<in> {bp_generation (bsp s), bp_generation (bsp s) + 1}"
  using assms by (auto simp: bs_commit_locked_def upd_bsp_def Let_def split: if_splits prod.splits)

lemma guarded_free:
  assumes "guarded refused f s c = (r, s', c')" and "\<not> boot_slot_operation_busy s"
  obtains s1 where "f (s\<lparr>boot_slot_operation_busy := True\<rparr>) c = (r, s1, c')" and "s' = s1\<lparr>boot_slot_operation_busy := False\<rparr>"
  using assms
  by (auto simp: guarded_def Let_def boot_slot_internal_operation_begin_def boot_slot_internal_operation_end_def split: prod.splits)

context calm_medium
begin

lemma calm_select_locked:
  assumes "valid c" and "calm c" and "tied layout 0 b" and "kept layout K (lasting c) (content c) s" and "boot_slot_internal_persistence_ready_locked s"
    and "\<not> bp_stage_claimed (bsp s)" and "bp_generation (bsp s) \<noteq> UINT64_MAX"
    and "boot_slot_internal_select_locked (control_io ios b) s c = (rc, slot, g, s', c')"
  shows "rc = (if mg_pending_slot (bsm s) = BOOT_SLOT_NONE then 0 else if mg_tries_remaining (bsm s) > 0 then 1 else 2) \<and> calm c' \<and>
    \<not> bp_stage_claimed (bsp s') \<and> loader_build s' = loader_build s \<and> boot_slot_operation_busy s' = boot_slot_operation_busy s \<and>
    bp_generation (bsp s') \<in> {bp_generation (bsp s), bp_generation (bsp s) + 1}"
proof -
  let ?m = "bsm s"
  have v: "boot_slot_manager_validate ?m" "manager_wf ?m" using keptD(3) [OF assms(4,5)] by (simp_all add: good_def manager_ok_def)
  have a: "bp_active_copy (bsp s) < 2" by (rule keptD(4) [OF assms(4,5)])
  have commit: "rc1 = 0 \<and> calm c1 \<and> \<not> bp_stage_claimed (bsp s1) \<and> loader_build s1 = loader_build s \<and> boot_slot_operation_busy s1 = boot_slot_operation_busy s \<and>
      bp_generation (bsp s1) \<in> {bp_generation (bsp s), bp_generation (bsp s) + 1}"
    if "bs_commit_locked (control_io ios b) m s c = (rc1, s1, c1)" "boot_slot_manager_validate m" "same_images ?m m" for m rc1 s1 c1
    using calm_commit [OF assms(1-3,5-7) a that(2) same_images_wf [OF that(3) v(2)] that(1)] commit_frame [OF that(1)] by simp
  consider (none) "mg_pending_slot ?m = BOOT_SLOT_NONE" | (trial) "mg_pending_slot ?m \<noteq> BOOT_SLOT_NONE" "mg_tries_remaining ?m > 0"
    | (over) "mg_pending_slot ?m \<noteq> BOOT_SLOT_NONE" "\<not> mg_tries_remaining ?m > 0" by blast
  then show ?thesis
  proof cases
    case none
    then show ?thesis using assms(2,5,6,8) by (simp add: boot_slot_internal_select_locked_def)
  next
    case trial
    obtain rc1 s1 c1 where k: "bs_commit_locked (control_io ios b) (spend_attempt ?m) s c = (rc1, s1, c1)" by (metis prod_cases3)
    show ?thesis using commit [OF k spend_valid(1,2) [OF v(1) trial]] assms(5,8) trial by (simp add: boot_slot_internal_select_locked_def k)
  next
    case over
    obtain m where m: "bs_apply_rollback ?m = Some m" "boot_slot_manager_validate m" "same_images ?m m" using rollback_valid [OF v(1) over(1)] by blast
    obtain rc1 s1 c1 where k: "bs_commit_locked (control_io ios b) m s c = (rc1, s1, c1)" by (metis prod_cases3)
    show ?thesis using commit [OF k m(2,3)] assms(5,8) over m(1) by (simp add: boot_slot_internal_select_locked_def k)
  qed
qed

lemma calm_select:
  assumes "on_boot (boot_slot_select_for_boot (bound_io ios s)) s c = ((rc, slot, g), s', c')" and "loader_bound layout store s" and "valid c" and "calm c"
    and "kept layout K (lasting c) (content c) (st_boot s)" and "attached layout s" and "bp_generation (bsp (st_boot s)) \<noteq> UINT64_MAX"
  shows "rc \<in> {0, 1, 2} \<and> calm c' \<and> loader_bound layout store s' \<and>
    bp_generation (bsp (st_boot s')) \<in> {bp_generation (bsp (st_boot s)), bp_generation (bsp (st_boot s)) + 1}"
proof -
  let ?b = "st_boot s"
  let ?held = "?b\<lparr>boot_slot_operation_busy := True\<rparr>"
  have l: "boot_slot_internal_persistence_ready_locked ?b" "\<not> bp_stage_claimed (bsp ?b)" "\<not> boot_slot_operation_busy ?b" "loader_build ?b"
    "tied layout 0 (store_binding s)" using assms(2) unfolding loader_bound_def by blast+
  have l0: "boot_slot_internal_persistence_ready_locked ?held" "\<not> bp_stage_claimed (bsp ?held)" "bp_generation (bsp ?held) \<noteq> UINT64_MAX"
    using l(1,2) assms(7) by (simp_all add: ready_iff)
  have k0: "kept layout K (lasting c) (content c) ?held" using assms(5) by simp
  obtain b where gd: "boot_slot_select_for_boot (bound_io ios s) ?b c = ((rc, slot, g), b, c')" and s': "s' = s\<lparr>st_boot := b\<rparr>"
    using assms(1) by (auto simp: on_boot_def split: prod.splits)
  from gd [unfolded boot_slot_select_for_boot_def] l(3) show ?thesis
  proof (cases rule: guarded_free)
    case (1 b1)
    have "boot_slot_internal_select_locked (control_io ios (store_binding s)) ?held c = (rc, slot, g, b1, c')"
      using 1(1) by (auto split: prod.splits)
    note C = calm_select_locked [OF assms(3,4) l(5) k0 l0 this]
    have rc: "rc \<in> {0, 1, 2}" using C by (simp split: if_splits)
    then have "boot_slot_internal_persistence_ready_locked (st_boot s')" using select_op [OF assms(1,3,6,5)] by blast
    then have "loader_bound layout store s'" using C s' 1(2) l assms(2) unfolding loader_bound_def by simp
    then show ?thesis using rc C s' 1(2) by simp
  qed
qed

end

subsection \<open>Reading what was selected\<close>

lemma manager_get_free:
  assumes "boot_slot_internal_persistence_ready_locked b" and "\<not> boot_slot_operation_busy b"
  shows "boot_slot_manager_get b = ((0, Some (bsm b)), b)"
  using assms
  by (simp add: boot_slot_manager_get_def query_def boot_slot_internal_manager_get_locked_def boot_slot_internal_operation_begin_def
      boot_slot_internal_operation_end_def boot_slot_internal_observable_locked_def ready_iff)

lemma good_slot:
  assumes "good layout K L m" and "x < 2" and "sl_state (slot_at m x) \<noteq> BOOT_SLOT_EMPTY"
  shows "bs_slot_identity_valid (slot_at m x)" and "slot_wf x (slot_at m x)" and "slot_region (slot_at m x) = at2 (ly_slots layout) x"
    and "store_image_valid (image_of (slot_at m x)) (rg_payload_capacity_sectors (at2 (ly_slots layout) x))"
proof -
  have m: "boot_slot_manager_validate m" "manager_wf m" "manager_layout m = layout" using assms(1) by (simp_all add: good_def manager_ok_def)
  show i: "bs_slot_identity_valid (slot_at m x)" using m(1) assms(2) by (auto simp: boot_slot_manager_validate_def lt_two split: option.splits)
  show w: "slot_wf x (slot_at m x)" using m(2) assms(2) by (auto simp: manager_wf_def lt_two)
  have "slot_region (slot_at m x) = at2 (ly_slots (manager_layout m)) x" using assms(2) by (auto simp: manager_layout_def lt_two)
  then show r: "slot_region (slot_at m x) = at2 (ly_slots layout) x" using m(3) by simp
  have "rg_payload_capacity_sectors (at2 (ly_slots layout) x) = sl_payload_capacity_sectors (slot_at m x)" by (simp add: r [symmetric] slot_region_def)
  then show "store_image_valid (image_of (slot_at m x)) (rg_payload_capacity_sectors (at2 (ly_slots layout) x))"
    using slot_image_valid(1) [OF i w assms(3)] by simp
qed

context calm_medium
begin

lemma calm_read_header:
  assumes "boot_slot_store_read_header ios store 0 slot s c = ((rc, header), s', c')" and "loader_bound layout store s" and "valid c" and "calm c"
    and "kept layout K (lasting c) (content c) (st_boot s)" and "slot < 2" and "bootable (sl_state (slot_at (bsm (st_boot s)) slot))"
  shows "rc = 0 \<and> header = Some (image_of (slot_at (bsm (st_boot s)) slot)) \<and> s' = s \<and> calm c' \<and> valid c' \<and> content c' = content c \<and>
    (\<forall>k. lasting c' k \<subseteq> lasting c k)"
proof -
  let ?sl = "slot_at (bsm (st_boot s)) slot" and ?rg = "at2 (ly_slots layout) slot"
  let ?io = "io_zero\<lparr>si_layout := layout, si_io := Some 0, si_ready := True\<rparr>"
  let ?s0 = "s\<lparr>st_boot := (st_boot s)\<lparr>boot_slot_operation_busy := True\<rparr>\<rparr>"
  have l: "boot_slot_internal_persistence_ready_locked (st_boot s)" "loader_build (st_boot s)" "\<not> boot_slot_operation_busy (st_boot s)" "\<not> rn_active (store_registration s)"
    "so_test_ready (st_stores s store)" "so_opaque_epoch (st_stores s store) = 0" "so_test_layout (st_stores s store) = layout" "so_test_io (st_stores s store) = Some 0"
    using assms(2) unfolding loader_bound_def by blast+
  have g: "good layout K (lasting c) (bsm (st_boot s))" by (rule keptD(3) [OF assms(5) l(1)])
  have ne: "sl_state ?sl \<noteq> BOOT_SLOT_EMPTY" using assms(7) by (auto simp: bootable_def)
  note S = good_slot [OF g assms(6) ne]
  have io: "store_io_get_locked store 0 ?s0 = (0, ?io)" using l by (simp add: store_io_get_locked_def Let_def)
  have h: "unat (rg_header_lba ?rg) < unat (ly_boot_sectors layout)" using slot_bounds [OF assms(6)] by (auto simp: slot_sectors_def)
  obtain rc1 r c1 where rd: "sec_read (ios 0) (rg_header_lba ?rg) c = (rc1, r, c1)" by (metis prod_cases3)
  have C: "rc1 = 0" "calm c1" using calm_read [OF assms(3,4) h rd] by auto
  note R = read_law [OF assms(3) h rd]
  obtain payload where "installed_as layout (lasting c) slot (image_of ?sl) payload"
    using g assms(6,7) by (auto simp: good_def images_on_def installed_def lt_two)
  then have "r = store_encode_header layout slot (image_of ?sl)"
    using R C(1) content_lasting [OF assms(3) h] by (auto simp: installed_as_def)
  then have d: "store_decode_header layout slot r = Some (image_of ?sl)"
    using header_roundtrip_core [OF S(4) _ slot_image_valid(2,3) [OF S(1,2) ne]] assms(6) by (simp add: BOOT_SLOT_COUNT_def)
  have nb: "(st_boot s)\<lparr>boot_slot_operation_busy := False\<rparr> = st_boot s" using l(3) by simp
  have cnt: "\<not> BOOT_SLOT_COUNT \<le> slot" using assms(6) by (simp add: BOOT_SLOT_COUNT_def not_le)
  from assms(1) [unfolded boot_slot_store_read_header_def] l(3) show ?thesis
  proof (cases rule: held_free)
    case (1 s1)
    have "((0, Some (image_of ?sl)), ?s0, c1) = ((rc, header), s1, c')"
      using 1(1) cnt by (simp add: io io_of_def rd C(1) d)
    then show ?thesis using 1(2) nb C R by auto
  qed
qed

end

subsection \<open>A firmware whose services succeed\<close>

text \<open>
  While \<open>steady\<close>, the medium is in the drive, its transfers succeed, the pool has room for the boot partition, and pages of \<open>R\<close> that
  are \<open>free\<close> can be allocated; only page allocations take any of them away.
\<close>

locale calm_machine = boot_memory raw ok data left bio base layout media at svc R
  for raw :: "'d block_device" and ok data left and bio :: "'d EFI_BLOCK_IO_PROTOCOL" and base layout media at svc R +
  fixes steady :: "'d \<Rightarrow> bool" and free :: "'d \<Rightarrow> u64 set"
  assumes steady_media: "ok d \<Longrightarrow> steady d \<Longrightarrow> \<exists>md. bio_Media bio d = Some md \<and> md_MediaId md = media \<and>
      installer_disk_io_alignment_valid (md_IoAlign md) \<and> unat (md_LastBlock md) + 1 = unat (bd_block_count raw)"
    and steady_read: "ok d \<Longrightarrow> steady d \<Longrightarrow> unat lba + n \<le> unat (bd_block_count raw) \<Longrightarrow> unat bytes = 512 * n \<Longrightarrow>
      \<exists>f. bio_ReadBlocks bio = Some f \<and> (\<forall>a. case f media lba bytes a d of (st, r, d') \<Rightarrow> \<not> EFI_ERROR st \<and> steady d' \<and> free d \<subseteq> free d')"
    and steady_write: "ok d \<Longrightarrow> steady d \<Longrightarrow> unat lba + n \<le> unat (bd_block_count raw) \<Longrightarrow> unat bytes = 512 * n \<Longrightarrow> length buffer = 512 * n \<Longrightarrow>
      \<exists>g. bio_WriteBlocks bio = Some g \<and> (\<forall>a. case g media lba bytes a buffer d of (st, d') \<Rightarrow> \<not> EFI_ERROR st \<and> steady d' \<and> free d \<subseteq> free d')"
    and steady_flush: "ok d \<Longrightarrow> steady d \<Longrightarrow>
      \<exists>h. bio_FlushBlocks bio = Some h \<and> (case h d of (st, d') \<Rightarrow> \<not> EFI_ERROR st \<and> steady d' \<and> free d \<subseteq> free d')"
    and steady_pool: "ok d \<Longrightarrow> steady d \<Longrightarrow> bio_Media bio d = Some md \<Longrightarrow> 0 < bytes \<Longrightarrow>
      unat bytes \<le> 512 * unat (ly_boot_sectors layout) + unat (md_IoAlign md) \<Longrightarrow> bio_AllocatePool bio bytes d = (a, d') \<Longrightarrow> a \<noteq> 0 \<and> steady d' \<and> free d \<subseteq> free d'"
    and steady_pool_free: "ok d \<Longrightarrow> steady d \<Longrightarrow> steady (bio_FreePool bio a d) \<and> free d \<subseteq> free (bio_FreePool bio a d)"
    and steady_pages: "ok d \<Longrightarrow> steady d \<Longrightarrow> AllocatePages svc pages a d = (st, a', d') \<Longrightarrow> steady d' \<and>
      free d - (if EFI_ERROR st then {} else window a (4096 * unat pages)) \<subseteq> free d' \<and> (window a (4096 * unat pages) \<subseteq> free d \<longrightarrow> \<not> EFI_ERROR st)"
    and steady_pages_free: "ok d \<Longrightarrow> steady d \<Longrightarrow> steady (FreePages svc a pages d) \<and>
      free d \<union> (window a (4096 * unat pages) \<inter> R) \<subseteq> free (FreePages svc a pages d)"
begin

lemma steady_alignment:
  assumes "ok d" and "steady d"
  obtains md al where "bio_Media bio d = Some md" and "md_MediaId md = media" and "md_BlockSize md = 512" and "unat (md_LastBlock md) + 1 = unat (bd_block_count raw)"
    and "uefi_block_io_alignment bio d = Inr al" and "unat (al - 1) \<le> unat (md_IoAlign md)"
proof -
  obtain md where md: "bio_Media bio d = Some md" "md_MediaId md = media" "installer_disk_io_alignment_valid (md_IoAlign md)"
    "unat (md_LastBlock md) + 1 = unat (bd_block_count raw)" using steady_media [OF assms] by blast
  let ?al = "if md_IoAlign md \<le> 1 then 1 else ucast (md_IoAlign md) :: u64"
  have "unat (?al - 1) \<le> unat (md_IoAlign md)"
  proof (cases "md_IoAlign md \<le> 1")
    case False
    then have "(1 :: u64) \<le> ucast (md_IoAlign md)" by (simp add: word_le_nat_alt unat_up)
    then show ?thesis using False by (simp add: unat_sub unat_up)
  qed simp
  moreover have "uefi_block_io_alignment bio d = Inr ?al" using md(1,3) by (simp add: uefi_block_io_alignment_def)
  ultimately show ?thesis using that md efi_last [OF assms(1) md(1)] by blast
qed

lemma steady_allocate:
  assumes "uefi_block_io_allocate_aligned bio bytes d = (res, d')" and "ok d" and "steady d" and "unat bytes = 512 * n" and "0 < n" and "n \<le> unat (ly_boot_sectors layout)"
  shows "(\<exists>allocation buffer. res = Inr (allocation, buffer)) \<and> steady d' \<and> free d \<subseteq> free d'"
proof -
  obtain md al where md: "bio_Media bio d = Some md" and al: "uefi_block_io_alignment bio d = Inr al" "unat (al - 1) \<le> unat (md_IoAlign md)"
    using steady_alignment [OF assms(2,3)] by metis
  have "unat (ly_boot_sectors layout) < 2 ^ LENGTH(32)" "unat (md_IoAlign md) < 2 ^ LENGTH(32)" by (rule unsigned_less)+
  then have b: "unat bytes + unat (al - 1) < 2 ^ 64" using assms(4,6) al(2) by simp
  then have s: "unat (bytes + (al - 1)) = unat bytes + unat (al - 1)" by (simp add: unat_word_ariths)
  have eb: "unat (al - 1) < 2 ^ LENGTH(64)" by (rule unsigned_less)
  have "unat (UINT64_MAX - (al - 1)) = 2 ^ 64 - 1 - unat (al - 1)" using eb by (subst unat_sub) (simp_all add: UINT64_MAX_def word_le_nat_alt)
  then have le: "\<not> bytes > UINT64_MAX - (al - 1)" using b by (simp add: word_less_nat_alt)
  have "unat bytes \<noteq> 0" using assms(4,5) by simp
  then have nz: "bytes \<noteq> 0" "0 < bytes + (al - 1)" using s by (auto simp: word_gt_0)
  obtain a d1 where ap: "bio_AllocatePool bio (bytes + (al - 1)) d = (a, d1)" by fastforce
  have "unat (bytes + (al - 1)) \<le> 512 * unat (ly_boot_sectors layout) + unat (md_IoAlign md)" using s assms(4,6) al(2) by simp
  note P = steady_pool [OF assms(2,3) md nz(2) this ap]
  show ?thesis using assms(1) P nz(1) le by (auto simp: uefi_block_io_allocate_aligned_def al(1) ap Let_def)
qed

lemma steady_transfer:
  assumes "ok d" and "steady d" and "unat lba + n \<le> unat (bd_block_count raw)" and "unat bytes = 512 * n" and "0 < n"
  shows "\<exists>al. uefi_block_io_transfer_valid bio lba bytes d = Inr al"
proof -
  obtain md al where md: "bio_Media bio d = Some md" "md_BlockSize md = 512" "unat (md_LastBlock md) + 1 = unat (bd_block_count raw)"
    and al: "uefi_block_io_alignment bio d = Inr al" using steady_alignment [OF assms(1,2)] by metis
  have "unat (bytes mod 512) = 0" "unat (bytes div 512) = n" using assms(4) by (simp_all add: unat_mod unat_div)
  then have q: "bytes mod 512 = 0" "unat (bytes div 512) = n" by (simp_all add: unat_eq_zero)
  have "bytes \<noteq> 0" "bytes div 512 \<noteq> 0" using assms(4,5) q(2) by auto
  moreover have l': "unat lba \<le> unat (md_LastBlock md)" using assms(3,5) md(3) by linarith
  then have l: "lba \<le> md_LastBlock md" by (simp add: word_le_nat_alt)
  moreover have "unat (bytes div 512 - 1) = n - 1" using q(2) assms(5) by (subst unat_sub) (simp_all add: word_le_nat_alt)
  moreover have "unat (md_LastBlock md - lba) = unat (md_LastBlock md) - unat lba" by (rule unat_sub [OF l])
  ultimately show ?thesis using md al q assms(3) l' by (auto simp: uefi_block_io_transfer_valid_def Let_def word_less_nat_alt not_less)
qed

end

context calm_machine
begin

lemma steady_block_read:
  assumes "uefi_block_io_read bio media lba bytes address buffer d = (status, r, d')" and "ok d" and "steady d"
    and "unat lba + n \<le> unat (bd_block_count raw)" and "unat bytes = 512 * n" and "0 < n" and "n \<le> unat (ly_boot_sectors layout)"
  shows "\<not> EFI_ERROR status \<and> steady d' \<and> free d \<subseteq> free d'"
proof -
  obtain md where md: "bio_Media bio d = Some md" "md_MediaId md = media" using steady_media [OF assms(2,3)] by blast
  obtain al where al: "uefi_block_io_transfer_valid bio lba bytes d = Inr al" using steady_transfer [OF assms(2-6)] by blast
  obtain f where f: "bio_ReadBlocks bio = Some f" "\<And>a. case f media lba bytes a d of (st, r, d') \<Rightarrow> \<not> EFI_ERROR st \<and> steady d' \<and> free d \<subseteq> free d'"
    using steady_read [OF assms(2-5)] by blast
  show ?thesis
  proof (cases "address AND (al - 1) = 0")
    case True
    then show ?thesis using assms(1) f(2) [of address] by (simp add: uefi_block_io_read_def f(1) md al)
  next
    case False
    obtain res d1 where aa: "uefi_block_io_allocate_aligned bio bytes d = (res, d1)" by fastforce
    note A = steady_allocate [OF aa assms(2,3,5,6,7)] and A' = allocate_aligned [OF aa assms(2)]
    then obtain allocation aligned where res: "res = Inr (allocation, aligned)" by blast
    obtain st1 r1 d2 where rd: "f media lba bytes aligned d1 = (st1, r1, d2)" by (metis prod_cases3)
    obtain f' where f': "bio_ReadBlocks bio = Some f'" "\<And>a. case f' media lba bytes a d1 of (st, r, d') \<Rightarrow> \<not> EFI_ERROR st \<and> steady d' \<and> free d1 \<subseteq> free d'"
      using steady_read [of d1, OF _ _ assms(4,5)] A A' by blast
    have B: "\<not> EFI_ERROR st1" "steady d2" "free d1 \<subseteq> free d2" using f'(2) [of aligned] f'(1) f(1) rd by auto
    have "ok d2" using efi_read_blocks [OF _ assms(4,5) f(1) rd] A' by simp
    note C = steady_pool_free [OF this B(2), of allocation]
    show ?thesis using assms(1) False A B C by (auto simp: uefi_block_io_read_def f(1) md al aa res rd)
  qed
qed

lemma steady_block_write:
  assumes "uefi_block_io_write bio media lba bytes address buffer d = (status, d')" and "ok d" and "steady d"
    and "unat lba + n \<le> unat (bd_block_count raw)" and "unat bytes = 512 * n" and "0 < n" and "n \<le> unat (ly_boot_sectors layout)" and "length buffer = 512 * n"
  shows "\<not> EFI_ERROR status \<and> steady d' \<and> free d \<subseteq> free d'"
proof -
  obtain md where md: "bio_Media bio d = Some md" "md_MediaId md = media" using steady_media [OF assms(2,3)] by blast
  obtain al where al: "uefi_block_io_transfer_valid bio lba bytes d = Inr al" using steady_transfer [OF assms(2-6)] by blast
  obtain f where f: "bio_WriteBlocks bio = Some f" "\<And>a. case f media lba bytes a buffer d of (st, d') \<Rightarrow> \<not> EFI_ERROR st \<and> steady d' \<and> free d \<subseteq> free d'"
    using steady_write [OF assms(2-5,8)] by blast
  show ?thesis
  proof (cases "address AND (al - 1) = 0")
    case True
    then show ?thesis using assms(1) f(2) [of address] by (simp add: uefi_block_io_write_def f(1) md al)
  next
    case False
    obtain res d1 where aa: "uefi_block_io_allocate_aligned bio bytes d = (res, d1)" by fastforce
    note A = steady_allocate [OF aa assms(2,3,5,6,7)] and A' = allocate_aligned [OF aa assms(2)]
    then obtain allocation aligned where res: "res = Inr (allocation, aligned)" by blast
    obtain st1 d2 where wr: "f media lba bytes aligned buffer d1 = (st1, d2)" by fastforce
    obtain f' where f': "bio_WriteBlocks bio = Some f'" "\<And>a. case f' media lba bytes a buffer d1 of (st, d') \<Rightarrow> \<not> EFI_ERROR st \<and> steady d' \<and> free d1 \<subseteq> free d'"
      using steady_write [of d1, OF _ _ assms(4,5,8)] A A' by blast
    have B: "\<not> EFI_ERROR st1" "steady d2" "free d1 \<subseteq> free d2" using f'(2) [of aligned] f'(1) f(1) wr by auto
    have "ok d2" using efi_write_blocks [OF _ assms(4,5,8) f(1) wr] A' by simp
    note C = steady_pool_free [OF this B(2), of allocation]
    show ?thesis using assms(1) False A B C by (auto simp: uefi_block_io_write_def f(1) md al aa res wr)
  qed
qed

lemma steady_block_flush:
  assumes "uefi_block_io_flush bio media d = (status, d')" and "ok d" and "steady d"
  shows "\<not> EFI_ERROR status \<and> steady d' \<and> free d \<subseteq> free d'"
  using assms(1) steady_media [OF assms(2,3)] steady_flush [OF assms(2,3)] by (auto simp: uefi_block_io_flush_def)

lemma sector_at:
  assumes "unat lba < unat (ly_boot_sectors layout)"
  shows "\<not> (lba \<ge> ctx_boot_sectors ctx \<or> ctx_boot_lba ctx > UINT64_MAX - ucast lba)" and "unat (ctx_boot_lba ctx + ucast lba) + 1 \<le> unat (bd_block_count raw)"
proof -
  have "unat (bd_block_count raw) < 2 ^ LENGTH(32)" by (rule unsigned_less)
  then have b: "unat base + unat lba < 2 ^ 32" "unat base + unat lba + 1 \<le> unat (bd_block_count raw)" using machine_fits assms by simp_all
  have lb: "unat lba < 2 ^ LENGTH(32)" by (rule unsigned_less)
  have "unat (UINT64_MAX - (ucast lba :: u64)) = 2 ^ 64 - 1 - unat lba" using lb by (subst unat_sub) (simp_all add: UINT64_MAX_def word_le_nat_alt unat_up)
  then have "\<not> (ucast base :: u64) > UINT64_MAX - ucast lba" using b by (simp add: word_less_nat_alt unat_up)
  moreover have "\<not> lba \<ge> ly_boot_sectors layout" using assms by (simp add: word_le_nat_alt)
  ultimately show "\<not> (lba \<ge> ctx_boot_sectors ctx \<or> ctx_boot_lba ctx > UINT64_MAX - ucast lba)" by (simp add: partition_ctx_def)
  show "unat (ctx_boot_lba ctx + ucast lba) + 1 \<le> unat (bd_block_count raw)" using b by (simp add: partition_ctx_def unat_word_ariths unat_up)
qed

end

sublocale calm_machine \<subseteq> calm: calm_medium "machine_io (uefi_io (partition_ctx bio media base layout) at)" layout "part_valid ok raw base layout"
  "part_content data base" "part_content left base" "\<lambda>c. steady (snd c) \<and> F \<subseteq> free (snd c)" for F
proof
  have one: "0 < (1::nat)" "1 \<le> unat (ly_boot_sectors layout)" if "unat lba < unat (ly_boot_sectors layout)" for lba :: u32 using that by simp_all
  have cx: "ctx_bio ctx = bio" "ctx_media_id ctx = media" by (simp_all add: partition_ctx_def)
  fix c c' :: "'d provided" and lba rc r
  assume v: "part_valid ok raw base layout c" and s: "steady (snd c) \<and> F \<subseteq> free (snd c)"
  have ok: "ok (snd c)" using v by (simp add: part_valid_def)
  show "rc = 0 \<and> steady (snd c') \<and> F \<subseteq> free (snd c')"
    if l: "unat lba < unat (ly_boot_sectors layout)" and "sec_read (machine_io (uefi_io ctx at) 0) lba c = (rc, r, c')"
  proof -
    obtain st b d where rd: "uefi_block_io_read bio media (ctx_boot_lba ctx + ucast lba) 512 (at (snd c)) sector_junk (snd c) = (st, b, d)" by (metis prod_cases3)
    have "rc = (if EFI_ERROR st then -1 else 0)" "snd c' = d"
      using that(2) unfolding machine_io_def uefi_io_def by (auto simp: uefi_boot_store_read_def if_not_P [OF sector_at(1) [OF l]] cx rd)
    then show ?thesis using steady_block_read [OF rd ok _ sector_at(2) [OF l] _ one [OF l]] s by auto
  qed
  show "rc = 0 \<and> steady (snd c') \<and> F \<subseteq> free (snd c')"
    if l: "unat lba < unat (ly_boot_sectors layout)" and len: "length b = BOOT_SLOT_STORE_SECTOR_SIZE" and "sec_write (machine_io (uefi_io ctx at) 0) lba b c = (rc, c')" for b
  proof -
    obtain st d where wr: "uefi_block_io_write bio media (ctx_boot_lba ctx + ucast lba) 512 (at (snd c)) b (snd c) = (st, d)" by fastforce
    have "rc = (if EFI_ERROR st then -1 else 0)" "snd c' = d"
      using that(3) unfolding machine_io_def uefi_io_def by (auto simp: uefi_boot_store_write_def if_not_P [OF sector_at(1) [OF l]] cx wr)
    then show ?thesis using steady_block_write [OF wr ok _ sector_at(2) [OF l] _ one [OF l]] s len by (auto simp: BOOT_SLOT_STORE_SECTOR_SIZE_def)
  qed
  show "rc = 0 \<and> steady (snd c') \<and> F \<subseteq> free (snd c')" if "sec_flush (machine_io (uefi_io ctx at) 0) c = (rc, c')"
  proof -
    obtain st d where fl: "uefi_block_io_flush bio media (snd c) = (st, d)" by fastforce
    have "rc = (if EFI_ERROR st then -1 else 0)" "snd c' = d" using that unfolding machine_io_def uefi_io_def by (auto simp: uefi_boot_store_flush_def cx fl)
    then show ?thesis using steady_block_flush [OF fl ok] s by auto
  qed
qed

subsection \<open>Pages for the kernel\<close>

text \<open>The pages of a kernel: the head of the window reserved for it, or free.\<close>

definition plan_window :: "kernel_load_plan \<Rightarrow> u64 set" where
  "plan_window plan = window (kp_link_base plan) (4096 * unat (kp_pages plan))"

definition loadable :: "('d \<Rightarrow> u64 set) \<Rightarrow> kernel_load_plan \<Rightarrow> kernel_memory \<Rightarrow> 'd \<Rightarrow> bool" where
  "loadable free plan km d \<longleftrightarrow>
     g_kernel_reserved_pages km \<noteq> 0 \<and> g_kernel_reserved_base km = kp_link_base plan \<and> kp_pages plan \<le> g_kernel_reserved_pages km \<or>
     plan_window plan \<subseteq> free d"

lemma loadable_mono: "loadable free plan km d \<Longrightarrow> free d \<subseteq> free d' \<Longrightarrow> loadable free plan km d'"
  by (auto simp: loadable_def)

lemma loadable_ram [simp]: "loadable free plan (km\<lparr>km_ram := ram\<rparr>) d = loadable free plan km d"
  by (simp add: loadable_def)

context calm_machine
begin

lemma release_fixed_loadable:
  assumes "kernel_release_fixed_window svc km d = (km', d')" and "ok d" and "steady d" and "loadable free q km d" and "plan_window q \<subseteq> R"
    and "g_kernel_reserved_pages km \<noteq> 0"
  shows "steady d' \<and> plan_window q \<subseteq> free d' \<and> g_kernel_reserved_pages km' = 0"
proof -
  let ?w = "window (g_kernel_reserved_base km) (4096 * unat (g_kernel_reserved_pages km))"
  note F = steady_pages_free [OF assms(2,3), of "g_kernel_reserved_base km" "g_kernel_reserved_pages km"]
  have "plan_window q \<subseteq> free d \<or> plan_window q \<subseteq> ?w" using assms(4) by (auto simp: loadable_def plan_window_def window_def word_le_nat_alt)
  then show ?thesis using assms(1,5,6) F by (auto simp: kernel_release_fixed_window_def)
qed

lemma steady_acquire:
  assumes "kernel_acquire_load_pages svc (kp_link_base plan) (kp_pages plan) km d = (stt, lb, km1, d1)" and "ok d" and "steady d"
    and "loadable free plan km d" and "plan_window plan \<subseteq> R" and "kp_pages plan \<noteq> 0"
  shows "\<not> EFI_ERROR stt \<and> steady d1"
proof -
  let ?ours = "g_kernel_reserved_pages km \<noteq> 0 \<and> g_kernel_reserved_base km = kp_link_base plan"
  obtain km0 d0 where rel: "(if ?ours then kernel_release_fixed_window svc km d else (km, d)) = (km0, d0)" by fastforce
  obtain st a d2 where al: "AllocatePages svc (kp_pages plan) (kp_link_base plan) d0 = (st, a, d2)" by (metis prod_cases3)
  show ?thesis
  proof (cases "?ours \<and> kp_pages plan \<le> g_kernel_reserved_pages km")
    case True
    then show ?thesis using assms(1,3,6) by (auto simp: kernel_acquire_load_pages_def)
  next
    case False
    have "ok d0 \<and> steady d0 \<and> plan_window plan \<subseteq> free d0"
    proof (cases ?ours)
      case True
      then have "kernel_release_fixed_window svc km d = (km0, d0)" using rel by simp
      then show ?thesis using release_fixed_loadable [OF _ assms(2-5)] release_fixed_disk [OF _ assms(2)] True by blast
    next
      case no: False
      then show ?thesis using rel assms(2,3,4) False unfolding loadable_def by (auto split: if_splits)
    qed
    then have "\<not> EFI_ERROR st \<and> steady d2" using steady_pages [OF _ _ al] by (auto simp: plan_window_def)
    then show ?thesis using assms(1,6) False rel al by (auto simp: kernel_acquire_load_pages_def Let_def split: if_splits prod.splits)
  qed
qed

text \<open>Taking pages and giving them back leaves a kernel loadable.\<close>

lemma acquire_keeps:
  assumes "kernel_acquire_load_pages svc link_base pages km d = (stt, lb, km1, d1)" and "ok d" and "steady d" and "loadable free q km d" and "plan_window q \<subseteq> R"
  shows "ok d1 \<and> steady d1 \<and> (EFI_ERROR stt \<longrightarrow> loadable free q km1 d1) \<and>
    (\<not> EFI_ERROR stt \<longrightarrow> kernel_release_load_pages svc lb pages (km1\<lparr>km_ram := ram\<rparr>) d1 = (km2, d2) \<longrightarrow> ok d2 \<and> steady d2 \<and> loadable free q km2 d2)"
proof (cases "pages = 0")
  case True
  then have "stt = EFI_INVALID_PARAMETER" "km1 = km" "d1 = d" using assms(1) by (simp_all add: kernel_acquire_load_pages_def)
  then show ?thesis using assms(2-4) by (simp add: efi_codes)
next
  case False
  let ?ours = "g_kernel_reserved_pages km \<noteq> 0 \<and> g_kernel_reserved_base km = link_base"
  show ?thesis
  proof (cases "?ours \<and> pages \<le> g_kernel_reserved_pages km")
    case True
    then have e: "stt = EFI_SUCCESS" "lb = link_base" "km1 = km" "d1 = d" using assms(1) False by (auto simp: kernel_acquire_load_pages_def)
    have "ok d2 \<and> steady d2 \<and> loadable free q km2 d2" if "kernel_release_fixed_window svc (km\<lparr>km_ram := ram\<rparr>) d = (km2, d2)"
    proof -
      have "loadable free q (km\<lparr>km_ram := ram\<rparr>) d" "g_kernel_reserved_pages (km\<lparr>km_ram := ram\<rparr>) \<noteq> 0" using assms(4) True by simp_all
      from release_fixed_loadable [OF that assms(2,3) this(1) assms(5) this(2)] release_fixed_disk [OF that assms(2)]
      show ?thesis unfolding loadable_def by blast
    qed
    then show ?thesis using e True False assms(2,3) by (simp add: kernel_release_load_pages_def)
  next
    case no: False
    obtain km0 d0 where rel: "(if ?ours then kernel_release_fixed_window svc km d else (km, d)) = (km0, d0)" by fastforce
    obtain st a d3 where al: "AllocatePages svc pages link_base d0 = (st, a, d3)" by (metis prod_cases3)
    have e: "stt = (if EFI_ERROR st then st else EFI_SUCCESS)" "lb = a" "km1 = km0" "d1 = d3"
      using assms(1) unfolding kernel_acquire_load_pages_def Let_def if_not_P [OF False] if_not_P [OF no] rel prod.case al by simp_all
    have r: "ok d0 \<and> steady d0 \<and> loadable free q km0 d0 \<and> (g_kernel_reserved_pages km0 = 0 \<or> g_kernel_reserved_base km0 \<noteq> link_base)"
    proof (cases ?ours)
      case True
      then have "kernel_release_fixed_window svc km d = (km0, d0)" using rel by simp
      from release_fixed_loadable [OF this assms(2-5)] release_fixed_disk [OF this assms(2)] True show ?thesis unfolding loadable_def by blast
    next
      case False
      then have "km0 = km" "d0 = d" using rel by (simp_all split: if_splits)
      then show ?thesis using assms(2-4) False by blast
    qed
    have o: "ok d3" using pages_allocate [OF _ al] r by blast
    note A = steady_pages [OF _ _ al]
    have err: "loadable free q km0 d3" if "EFI_ERROR st"
    proof -
      have "free d0 \<subseteq> free d3" using r A that by simp
      then show ?thesis using r unfolding loadable_def by blast
    qed
    have returned: "ok d2 \<and> steady d2 \<and> loadable free q km2 d2"
      if ne: "\<not> EFI_ERROR st" and "kernel_release_load_pages svc a pages (km0\<lparr>km_ram := ram\<rparr>) d3 = (km2, d2)"
    proof -
      have a: "a = link_base" using allocates_atD [OF al ne pages_at] .
      then have e2: "km2 = km0\<lparr>km_ram := ram\<rparr>" "d2 = FreePages svc a pages d3" using that(2) False r by (auto simp: kernel_release_load_pages_def)
      have sd: "steady d3" and "free d0 - window link_base (4096 * unat pages) \<subseteq> free d3" using A r ne by auto
      moreover have "ok d2 \<and> steady d2 \<and> free d3 \<union> (window link_base (4096 * unat pages) \<inter> R) \<subseteq> free d2"
        using steady_pages_free [OF o sd, of a pages] pages_free [OF o, of a pages] unfolding e2(2) a by blast
      ultimately have "ok d2" "steady d2" "free d0 \<inter> R \<subseteq> free d2" by blast+
      then show ?thesis using r assms(5) unfolding e2(1) loadable_ram unfolding loadable_def by blast
    qed
    have st: "steady d3" using A r by simp
    show ?thesis
    proof (cases "EFI_ERROR st")
      case True
      then show ?thesis using e o st err by simp
    next
      case False
      then show ?thesis using e o st returned [OF False] by simp
    qed
  qed
qed

lemma failed_load_keeps:
  assumes "load_kernel_from_buffer svc buf size0 km d = (st, entry, km', d')" and "EFI_ERROR st" and "ok d" and "steady d" and "loadable free q km d" and "plan_window q \<subseteq> R"
  shows "steady d' \<and> loadable free q km' d'"
proof (cases "validate_kernel_buffer (peek (km_ram km) buf (unat size0))")
  case (Inl status)
  then show ?thesis using assms by (auto simp: load_kernel_from_buffer_def)
next
  case (Inr plan)
  obtain stt lb km1 d1 where aq: "kernel_acquire_load_pages svc (kp_link_base plan) (kp_pages plan) km d = (stt, lb, km1, d1)" by (metis prod_cases4)
  obtain res ram where cp: "copy_segments buf size0 lb (kp_link_base plan) 0
      (buf + e_phoff (elf_ehdr (take 64 (peek (km_ram km) buf (unat size0))))) (km_ram km1) = (res, ram)" by fastforce
  obtain km2 d2 where rl: "kernel_release_load_pages svc lb (kp_pages plan) (km1\<lparr>km_ram := ram\<rparr>) d1 = (km2, d2)" by fastforce
  note A = acquire_keeps [OF aq assms(3-6), of ram km2 d2]
  show ?thesis using assms(1,2) A rl unfolding load_validated [OF refl Inr] aq cp Let_def prod.case by (auto split: if_splits option.splits)
qed

end

end
