(* ===== verification/BootUp.thy ===== *)
theory BootUp
  imports BootLive
begin

text \<open>
  The loader succeeds. On a machine whose services succeed (\<open>calm_machine\<close>) and whose medium is sound, an installed payload that is a kernel is
  loaded; a slot on trial that cannot be loaded costs its try and the confirmed slot is started.
\<close>

subsection \<open>Loading an installed payload\<close>

lemma plan_end_aligned:
  "plan_segments n phs b = Some b' \<Longrightarrow> snd b AND NOT 0xFFF = snd b \<Longrightarrow> snd b' AND NOT 0xFFF = snd b'"
proof (induction n phs b rule: plan_segments.induct)
  case (2 n ph phs b)
  show ?case
  proof (cases "skipped ph")
    case True
    then show ?thesis using 2 by simp
  next
    case False
    then have "plan_segments n phs (widen ph b) = Some b'" "\<not> (p_offset ph > n \<or> p_filesz ph > n - p_offset ph \<or> p_filesz ph > p_memsz ph \<or> span_wraps ph)"
      using "2.prems"(1) by (simp_all split: if_splits)
    moreover have "snd (widen ph b) AND NOT 0xFFF = snd (widen ph b)" using "2.prems"(2) by (cases b) (simp add: widen_def Let_def and.assoc)
    ultimately show ?thesis using "2.IH"(2) [OF False] by blast
  qed
qed simp

text \<open>The pages of a plan cover its span.\<close>

lemma plan_pages:
  assumes "validate_kernel_buffer img = Inr plan" and "length img < 2 ^ 64"
  shows "unat (kp_span plan) \<le> 4096 * unat (kp_pages plan)" and "kp_pages plan \<noteq> 0"
proof -
  note P = plan_facts [OF validate_facts(2) [OF assms]]
  have "kp_link_end plan AND NOT 0xFFF = kp_link_end plan" using plan_end_aligned [OF P(2)] by simp
  then have "kp_link_end plan \<le> NOT 0xFFF" by (metis word_and_le1)
  then have e: "unat (kp_link_end plan) \<le> 2 ^ 64 - 4096" by (simp add: word_le_nat_alt)
  have s: "unat (kp_span plan) = unat (kp_link_end plan) - unat (kp_link_base plan)" unfolding P(7) by (rule unat_sub) (use P(4) in simp)
  then have "unat (kp_span plan) + 0xFFF < 2 ^ 64" using e by simp
  then have "unat (kp_span plan + 0xFFF) = unat (kp_span plan) + 0xFFF" by (simp add: unat_word_ariths)
  then have p: "unat (kp_pages plan) = (unat (kp_span plan) + 0xFFF) div 4096" unfolding P(8) by (simp add: drop_bit_eq_div unat_div)
  then show c: "unat (kp_span plan) \<le> 4096 * unat (kp_pages plan)" by linarith
  have "unat (kp_link_base plan) < unat (kp_link_end plan)" using P(4) by (simp add: word_less_nat_alt)
  then have "unat (kp_pages plan) \<noteq> 0" using s c by linarith
  then show "kp_pages plan \<noteq> 0" by auto
qed

lemma plan_window_span:
  assumes "validate_kernel_buffer img = Inr plan" and "length img < 2 ^ 64" and "plan_window plan \<subseteq> R"
  shows "window (kp_link_base plan) (unat (kp_span plan)) \<subseteq> R"
  using assms(3) plan_pages(1) [OF assms(1,2)] by (auto simp: plan_window_def window_def)

lemma no_nonzero: "\<not> list_ex (\<lambda>x. x \<noteq> 0) (replicate n 0)"
  by (simp add: list_ex_iff)

lemma slot_bytes_refl: "uefi_slot_bytes_equal a a n"
proof -
  have "fold (\<lambda>i diff. diff OR (a ! i XOR a ! i)) xs (0::u8) = 0" for xs by (induction xs) simp_all
  then show ?thesis by (simp add: uefi_slot_bytes_equal_def)
qed

context boot_machine
begin

lemma capacity_bound:
  assumes "slot_region sl = at2 (ly_slots layout) x" and "x < 2"
  shows "unat (sl_payload_capacity_sectors sl) \<le> unat (ly_boot_sectors layout)"
proof -
  have r: "rg_payload_capacity_sectors (at2 (ly_slots layout) x) = sl_payload_capacity_sectors sl" using assms(1) [symmetric] by (simp add: slot_region_def)
  define q where "q = (unat (ly_boot_sectors layout) - 2) div 2"
  note v = plan_values [OF machine_plan, folded q_def]
  have "q \<le> unat (ly_boot_sectors layout)" unfolding q_def by linarith
  then show ?thesis using v(4,5,7,8) assms(2) r by (elim lt_two [THEN iffD1, THEN disjE]) auto
qed

end

context calm_machine
begin

text \<open>Reading an installed payload succeeds, so loading it is loading a kernel from a buffer that holds the payload.\<close>

lemma payload_steps:
  assumes "ok d" and "steady d" and "slot_region sl = at2 (ly_slots layout) x" and "x < 2" and "installed_as layout (\<lambda>k. left d (unat base + k)) x img payload"
    and "0 < im_payload_size img"
  obtains allocation buffer d2 km2 where "ok d2" and "steady d2" and "free d \<subseteq> free d2" and "unat buffer + length payload < 2 ^ 64"
    and "window buffer (length payload) \<inter> R = {}" and "km2 = km\<lparr>km_ram := km_ram km2\<rparr>" and "payload = peek (km_ram km2) buffer (length payload)"
    and "load_payload svc ctx sl img d km = (let (status, entry, km3, d3) = load_kernel_from_buffer svc buffer (ucast (im_payload_size img)) km2 d2
      in (status, entry, bio_FreePool bio allocation d3, km3))"
proof -
  define n where "n = sector_count (unat (im_payload_size img))"
  define sectors where "sectors = im_payload_size img div 512 + (if im_payload_size img mod 512 \<noteq> 0 then 1 else 0)"
  define rounded :: u64 where "rounded = ucast sectors * 512"
  note S = payload_sectors [OF assms(1,3-5) n_def]
  have us: "unat sectors = n" using sectors_word [of payload "im_payload_size img"] S(4) by (simp add: sectors_def n_def BOOT_SLOT_STORE_SECTOR_SIZE_def)
  have "0 < unat (im_payload_size img)" using assms(6) by (simp add: word_gt_0 unat_gt_0)
  then have np: "0 < n" using S(2,4) by (cases n) simp_all
  have sb: "unat sectors < 2 ^ LENGTH(32)" by (rule unsigned_less)
  then have ro: "unat rounded = 512 * n" using us by (simp add: rounded_def unat_word_ariths unat_up)
  have cap: "unat (sl_payload_capacity_sectors sl) \<le> unat (ly_boot_sectors layout)" by (rule capacity_bound [OF assms(3,4)])
  have g: "\<not> (sectors = 0 \<or> sectors > sl_payload_capacity_sectors sl \<or> ucast sectors > (UINT64_MAX :: u64) div 512)"
    using us np S(3) sb by (auto simp: word_less_nat_alt unat_up unat_div UINT64_MAX_def)
  obtain res d1 where aa: "uefi_block_io_allocate_aligned bio rounded d = (res, d1)" by fastforce
  have nb: "n \<le> unat (ly_boot_sectors layout)" using S(3) cap by linarith
  note A = steady_allocate [OF aa assms(1,2) ro np nb] and A' = allocate_aligned [OF aa assms(1)]
  then obtain allocation buffer where res: "res = Inr (allocation, buffer)" by blast
  note ap = aligned_apart [OF aa [unfolded res] assms(1), unfolded ro]
  let ?lba = "ctx_boot_lba ctx + ucast (sl_payload_lba sl)"
  obtain st r d2 where rd: "uefi_block_io_read bio media ?lba rounded buffer (peek (km_ram km) buffer (unat rounded)) d1 = (st, r, d2)" by (metis prod_cases3)
  have lim: "unat ?lba + n \<le> unat (bd_block_count raw)" using slot_fits [OF assms(3,4)] S(3) by linarith
  have ok1: "ok d1" and st1: "steady d1" using A A' by blast+
  note B = block_read [OF rd ok1 lim ro] and B' = steady_block_read [OF rd ok1 st1 lim ro np nb]
  have r: "r = payload @ replicate (512 * n - length payload) 0" using B B' A' S(1) slot_fits(1) [OF assms(3,4)] by simp
  let ?km = "km\<lparr>km_ram := poke buffer r (km_ram km)\<rparr>"
  note P = poked_payload [OF r S(2) conjunct1 [OF ap], of "km_ram km"]
  have off: "buffer + ucast (im_payload_size img) = buffer + of_nat (length payload)" using S(4) by simp
  have kr: "km_ram ?km = poke buffer r (km_ram km)" by simp
  have sl: "length payload + (512 * n - length payload) \<le> 512 * n" using S(2) by simp
  have "peek (km_ram ?km) (buffer + ucast (im_payload_size img)) (unat rounded - unat (im_payload_size img)) =
      take (512 * n - length payload) (drop (length payload) r)"
    unfolding off kr ro S(4) [symmetric] peek_slice [OF sl, symmetric] P(1) ..
  then have pad: "\<not> list_ex (\<lambda>x. x \<noteq> 0) (peek (km_ram ?km) (buffer + ucast (im_payload_size img)) (unat rounded - unat (im_payload_size img)))"
    unfolding r by (auto simp: list_ex_iff)
  have "sha256_hash sha_junk (peek (km_ram ?km) buffer (unat (im_payload_size img))) = im_payload_sha256 img"
    using P(2) [symmetric] S(4) assms(5) by (simp add: hash_is_ref installed_as_def)
  then have sha: "\<not> \<not> uefi_slot_bytes_equal (sha256_hash sha_junk (peek (km_ram ?km) buffer (unat (im_payload_size img)))) (im_payload_sha256 img) BOOT_SLOT_SHA256_SIZE"
    using slot_bytes_refl by simp
  have ne: "\<not> EFI_ERROR st" using B' by blast
  have cx: "ctx_bio ctx = bio" "ctx_media_id ctx = media" by (simp_all add: partition_ctx_def)
  have eq: "load_payload svc ctx sl img d km = (let (status, entry, km3, d3) = load_kernel_from_buffer svc buffer (ucast (im_payload_size img)) ?km d2
      in (status, entry, bio_FreePool bio allocation d3, km3))"
    unfolding load_payload_def Let_def cx sectors_def [symmetric] if_not_P [OF g] rounded_def [symmetric] aa res prod.case sum.case rd if_not_P [OF ne]
      if_not_P [OF pad] if_not_P [OF sha] ..
  show ?thesis
  proof (rule that [OF _ _ _ _ _ _ _ eq])
    show "ok d2" "steady d2" "free d \<subseteq> free d2" using B B' A by auto
    show "unat buffer + length payload < 2 ^ 64" using ap S(2) by linarith
    have "window buffer (length payload) \<subseteq> window buffer (512 * n)" using S(2) by (auto simp: window_def)
    then show "window buffer (length payload) \<inter> R = {}" using ap by blast
    show "?km = km\<lparr>km_ram := km_ram ?km\<rparr>" by simp
    show "payload = peek (km_ram ?km) buffer (length payload)" using P(2) [symmetric] by simp
  qed
qed

text \<open>A kernel is loaded; any other payload leaves a kernel \<open>q\<close> that could be loaded before loadable.\<close>

lemma payload_starts:
  assumes "load_payload svc ctx sl img d km = (st, entry, d', km')" and "ok d" and "steady d" and "slot_region sl = at2 (ly_slots layout) x" and "x < 2"
    and "installed_as layout (\<lambda>k. left d (unat base + k)) x img payload" and "0 < im_payload_size img"
    and "validate_kernel_buffer payload = Inr plan" and "plan_window plan \<subseteq> R" and "loadable free plan km d"
  shows "\<not> EFI_ERROR st"
proof -
  obtain allocation buffer d2 km2 where o: "ok d2" "steady d2" "free d \<subseteq> free d2" and b: "unat buffer + length payload < 2 ^ 64"
    "window buffer (length payload) \<inter> R = {}" and km: "km2 = km\<lparr>km_ram := km_ram km2\<rparr>" and p: "payload = peek (km_ram km2) buffer (length payload)"
    and eq: "load_payload svc ctx sl img d km = (let (status, entry, km3, d3) = load_kernel_from_buffer svc buffer (ucast (im_payload_size img)) km2 d2
      in (status, entry, bio_FreePool bio allocation d3, km3))"
    by (rule payload_steps [OF assms(2-7), of km])
  have sz: "length payload = unat (ucast (im_payload_size img) :: u64)" using assms(6) by (simp add: installed_as_def unat_up)
  have l64: "length payload < 2 ^ 64" using b(1) by linarith
  have ld: "loadable free plan km2 d2" using loadable_mono [where free = free, OF assms(10) o(3)] by (subst km) simp
  obtain stt lb km3 d3 where aq: "kernel_acquire_load_pages svc (kp_link_base plan) (kp_pages plan) km2 d2 = (stt, lb, km3, d3)" by (metis prod_cases4)
  have ne: "\<not> EFI_ERROR stt" using steady_acquire [OF aq o(1,2) ld assms(9) plan_pages(2) [OF assms(8) l64]] by blast
  have "window buffer (length payload) \<inter> window (kp_link_base plan) (unat (kp_span plan)) = {}"
    using b(2) plan_window_span [OF assms(8) l64 assms(9)] by blast
  then have "load_kernel_from_buffer svc buffer (ucast (im_payload_size img)) km2 d2 =
      (EFI_SUCCESS, Some (kp_entry plan), km3\<lparr>km_ram := fold (place payload) (image_phdrs payload) (km_ram km2)\<rparr>, d3)"
    using load_buffer [OF p [unfolded sz] assms(8) pages_at _ _ aq ne] b(1) sz by simp
  then show ?thesis using assms(1) eq by auto
qed

lemma payload_keeps:
  assumes "load_payload svc ctx sl img d km = (st, entry, d', km')" and "ok d" and "steady d" and "slot_region sl = at2 (ly_slots layout) x" and "x < 2"
    and "installed_as layout (\<lambda>k. left d (unat base + k)) x img payload" and "0 < im_payload_size img"
    and "loadable free q km d" and "plan_window q \<subseteq> R" and "EFI_ERROR st"
  shows "steady d' \<and> loadable free q km' d'"
proof -
  obtain allocation buffer d2 km2 where o: "ok d2" "steady d2" "free d \<subseteq> free d2" and km: "km2 = km\<lparr>km_ram := km_ram km2\<rparr>"
    and eq: "load_payload svc ctx sl img d km = (let (status, entry, km3, d3) = load_kernel_from_buffer svc buffer (ucast (im_payload_size img)) km2 d2
      in (status, entry, bio_FreePool bio allocation d3, km3))"
    by (rule payload_steps [OF assms(2-7), of km])
  obtain st3 e3 km3 d3 where ld: "load_kernel_from_buffer svc buffer (ucast (im_payload_size img)) km2 d2 = (st3, e3, km3, d3)" by (metis prod_cases4)
  have "loadable free q km2 d2" using loadable_mono [where free = free, OF assms(8) o(3)] by (subst km) simp
  then have K: "steady d3" "loadable free q km3 d3" using failed_load_keeps [OF ld _ o(1,2) _ assms(9)] assms(1,10) eq ld by auto
  have "ok d3" using load_buffer_disk [OF ld o(1)] by blast
  note F = steady_pool_free [OF this K(1), of allocation]
  have "d' = bio_FreePool bio allocation d3" "km' = km3" using assms(1) eq ld by auto
  then show ?thesis using F K(2) loadable_mono [where free = free, OF K(2)] by simp
qed

end

subsection \<open>Loading the selected slot\<close>

context calm_machine
begin

lemma selected_steps:
  assumes "uefi_load_selected_slot svc ctx at store slot (s, c, km) = (st, entry, s', c', km')" and "good_machine K (s, c)" and "loader_bound layout store s"
    and "steady (snd c)" and "slot < 2" and "mg_active_slot (bsm (st_boot s)) = slot" and "sl_state (slot_at (bsm (st_boot s)) slot) = BOOT_SLOT_ACTIVE"
  obtains d payload where "s' = s" and "ok d" and "steady d" and "free (snd c) \<subseteq> free d"
    and "load_payload svc ctx (slot_at (bsm (st_boot s)) slot) (image_of (slot_at (bsm (st_boot s)) slot)) d km = (st, entry, snd c', km')"
    and "slot_region (slot_at (bsm (st_boot s)) slot) = at2 (ly_slots layout) slot" and "0 < im_payload_size (image_of (slot_at (bsm (st_boot s)) slot))"
    and "installed_as layout (\<lambda>k. left d (unat base + k)) slot (image_of (slot_at (bsm (st_boot s)) slot)) payload"
    and "installed_as layout (part_content left base c) slot (image_of (slot_at (bsm (st_boot s)) slot)) payload"
proof -
  let ?m = "bsm (st_boot s)" and ?sl = "slot_at (bsm (st_boot s)) slot" and ?ios = "machine_io (uefi_io ctx at)"
  have l: "boot_slot_internal_persistence_ready_locked (st_boot s)" "\<not> boot_slot_operation_busy (st_boot s)" using assms(3) unfolding loader_bound_def by blast+
  note G = machine_okD [OF assms(2)]
  have g: "good layout K (part_content left base c) ?m" by (rule keptD(3) [OF G(3) l(1)])
  have bt: "bootable (sl_state ?sl)" "sl_state ?sl \<noteq> BOOT_SLOT_EMPTY" using assms(7) by (simp_all add: bootable_def)
  note S = good_slot [OF g assms(5) bt(2)]
  obtain rc header s2 c2 where rh: "boot_slot_store_read_header ?ios store 0 slot s c = ((rc, header), s2, c2)" by (metis prod_cases3 prod.exhaust)
  have cf: "steady (snd c) \<and> free (snd c) \<subseteq> free (snd c)" using assms(4) by simp
  note H = calm.calm_read_header [OF rh assms(3) G(1) cf G(3) assms(5) bt(1)]
  have ag: "header_agrees ?sl (image_of ?sl)" by (simp add: header_agrees_def image_of_def slot_bytes_refl)
  obtain st3 e3 d3 km3 where lp: "load_payload svc ctx ?sl (image_of ?sl) (snd c2) km = (st3, e3, d3, km3)" by (metis prod_cases4)
  have cnt: "\<not> slot \<ge> BOOT_SLOT_COUNT" using assms(5) by (simp add: BOOT_SLOT_COUNT_def not_le)
  have "uefi_load_selected_slot svc ctx at store slot (s, c, km) = (st3, e3, s, (fst c2, d3), km3)"
    using H rh assms(6,7) ag cnt lp by (simp add: uefi_load_selected_slot_def manager_get_free [OF l])
  then have res: "(st, entry, s', c', km') = (st3, e3, s, (fst c2, d3), km3)" using assms(1) by simp
  obtain payload where inst: "installed_as layout (part_content left base c) slot (image_of ?sl) payload"
    using g bt(1) assms(5) by (auto simp: good_def images_on_def installed_def lt_two)
  then have inst2: "installed_as layout (\<lambda>k. left (snd c2) (unat base + k)) slot (image_of ?sl) payload"
    by (rule installed_as_mono) (use H in \<open>simp add: part_content_def\<close>)
  show ?thesis
  proof (rule that [OF _ _ _ _ _ S(3) _ inst2 inst])
    show "s' = s" "load_payload svc ctx ?sl (image_of ?sl) (snd c2) km = (st, entry, snd c', km')" using res lp by simp_all
    show "ok (snd c2)" "steady (snd c2)" "free (snd c) \<subseteq> free (snd c2)" using H by (auto simp: part_valid_def)
    show "0 < im_payload_size (image_of ?sl)" using S(4) by (simp add: store_image_valid_def)
  qed
qed

end

subsection \<open>The loader starts a kernel\<close>

lemma active_slot:
  assumes "boot_slot_manager_validate m"
  shows "sl_state (slot_at m (mg_active_slot m)) = BOOT_SLOT_ACTIVE"
    and "mg_active_slot m = (if mg_pending_slot m = BOOT_SLOT_NONE then mg_confirmed_slot m else mg_pending_slot m)"
  using assms by (auto simp: boot_slot_manager_validate_def Let_def split: option.splits if_splits)

context boot_machine
begin

lemma payload_unique:
  assumes "ok d" and "slot_region sl = at2 (ly_slots layout) x" and "x < 2" and "installed_as layout (\<lambda>k. left d (unat base + k)) x img p"
    and "installed_as layout (\<lambda>k. left d (unat base + k)) x img p'"
  shows "p' = p"
proof -
  note 1 = payload_sectors [OF assms(1-4) refl] and 2 = payload_sectors [OF assms(1-3,5) refl]
  have "length p' = length p" using 1(4) 2(4) by simp
  then show ?thesis using 1(1) 2(1) by (metis append_eq_append_conv)
qed

end

text \<open>A kernel that has room.\<close>

definition kernel_fits :: "u64 set \<Rightarrow> ('d \<Rightarrow> u64 set) \<Rightarrow> u8 list \<Rightarrow> kernel_memory \<Rightarrow> 'd \<Rightarrow> bool" where
  "kernel_fits R free payload km d \<longleftrightarrow> (\<exists>plan. validate_kernel_buffer payload = Inr plan \<and> plan_window plan \<subseteq> R \<and> loadable free plan km d)"

lemma kernel_fits_mono: "kernel_fits R free payload km d \<Longrightarrow> free d \<subseteq> free d' \<Longrightarrow> kernel_fits R free payload km d'"
  unfolding kernel_fits_def using loadable_mono [of free _ km d d'] by blast

context calm_machine
begin

lemma confirmed_starts:
  assumes "uefi_load_selected_slot svc ctx at store slot (s, c, km) = (st, entry, s', c', km')" and "good_machine {(fallback m, payload)} (s, c)" and "loader_bound layout store s"
    and "steady (snd c)" and "mg_pending_slot (bsm (st_boot s)) = BOOT_SLOT_NONE" and "slot = mg_confirmed_slot (bsm (st_boot s))"
    and "kernel_fits R free payload km (snd c)"
  shows "\<not> EFI_ERROR st"
proof -
  let ?m = "bsm (st_boot s)"
  have l: "boot_slot_internal_persistence_ready_locked (st_boot s)" using assms(3) unfolding loader_bound_def by blast
  have g: "good layout {(fallback m, payload)} (part_content left base c) ?m" by (rule keptD(3) [OF machine_okD(3) [OF assms(2)] l])
  then have v: "boot_slot_manager_validate ?m" and i1: "installed_as layout (part_content left base c) slot (image_of (slot_at ?m slot)) payload"
    using assms(6) by (auto simp: good_def manager_ok_def backed_def)
  obtain plan where pl: "validate_kernel_buffer payload = Inr plan" "plan_window plan \<subseteq> R" "loadable free plan km (snd c)" using assms(7) by (auto simp: kernel_fits_def)
  have x: "slot < 2" using v assms(6) by (simp add: validate_iff)
  have a: "mg_active_slot ?m = slot" "sl_state (slot_at ?m slot) = BOOT_SLOT_ACTIVE" using active_slot [OF v] assms(5,6) by simp_all
  obtain d p where d: "ok d" "steady d" "free (snd c) \<subseteq> free d"
    and lp: "load_payload svc ctx (slot_at ?m slot) (image_of (slot_at ?m slot)) d km = (st, entry, snd c', km')"
    and reg: "slot_region (slot_at ?m slot) = at2 (ly_slots layout) slot" and sz: "0 < im_payload_size (image_of (slot_at ?m slot))"
    and i: "installed_as layout (\<lambda>k. left d (unat base + k)) slot (image_of (slot_at ?m slot)) p"
    and i0: "installed_as layout (part_content left base c) slot (image_of (slot_at ?m slot)) p"
    by (rule selected_steps [OF assms(1-4) x a])
  have "ok (snd c)" using machine_okD(1) [OF assms(2)] by (simp add: part_valid_def)
  moreover have "part_content left base c = (\<lambda>k. left (snd c) (unat base + k))" by (simp add: part_content_def fun_eq_iff)
  ultimately have "payload = p" using payload_unique [OF _ reg x] i0 i1 by metis
  then show ?thesis using payload_starts [OF lp d(1,2) reg x i sz] pl loadable_mono [where free = free, OF pl(3) d(3)] by blast
qed

end

text \<open>The generations on the medium can still grow.\<close>

definition young :: "boot_slot_layout \<Rightarrow> (nat \<Rightarrow> u8 list) \<Rightarrow> bool" where
  "young layout C \<longleftrightarrow> (\<forall>i\<in>{0, 1}. \<forall>m g. usable layout (C (copy_lba layout i)) = Some (m, g) \<longrightarrow> g < UINT64_MAX - 1)"

lemma young_next: "g < UINT64_MAX - 1 \<Longrightarrow> g \<noteq> UINT64_MAX \<and> g + 1 \<noteq> UINT64_MAX"
  by (auto simp: UINT64_MAX_def word_less_nat_alt unat_word_ariths)

context calm_machine
begin

lemma bind_starts:
  assumes "ab_store_bind ctx at store (memory_start True) c = (bound, s', c')" and "good_machine K (memory_start True, c)" and "steady (snd c)"
    and "young layout (part_content data base c)"
  shows "bound \<and> loader_bound layout store s' \<and> steady (snd c') \<and> free (snd c) \<subseteq> free (snd c') \<and> bp_generation (bsp (st_boot s')) < UINT64_MAX - 1"
proof -
  have plan: "boot_slot_layout_plan (ctx_boot_sectors ctx) = Some layout" using machine_plan by (simp add: partition_ctx_def)
  obtain rc1 b where i: "boot_slot_init (st_boot (memory_start True)) = (rc1, b)" by fastforce
  obtain rc2 s2 where op: "boot_slot_store_init store layout (Some 0) ((memory_start True)\<lparr>st_boot := b\<rparr>) = (rc2, s2)" by fastforce
  obtain rc3 s3 c3 where bi: "boot_slot_store_bind_control (machine_io (uefi_io ctx at)) store 0 (opened layout store) c = (rc3, s3, c3)" by (metis prod_cases3)
  note O = fresh_open [OF machine_plan i op]
  have e: "(bound, s', c') = (rc3 = 0, s3, c3)" using assms(1) O by (simp add: ab_store_bind_def Let_def plan i op bi)
  note G = machine_okD [OF assms(2)]
  have sd: "sound layout K (part_content left base c)" using G(3) start_not_ready by simp
  have cf: "steady (snd c) \<and> free (snd c) \<subseteq> free (snd c)" using assms(3) by simp
  note B = calm.calm_bind [OF bi G(1) cf sd]
  have at: "attached layout (opened layout store)" by (simp add: attached_def opened_def memory_start_def binding_zero_def registration_zero_def store_zeroed_def)
  have k0: "kept layout K (part_content left base c) (part_content data base c) (st_boot (opened layout store))"
    using sd by (simp add: kept_def ram_ok_def ready_iff opened_def bsp_zero_def)
  have B': "kept layout K (part_content left base c3) (part_content data base c3) (st_boot s3)" "part_content data base c3 = part_content data base c"
    "\<forall>k. part_content left base c3 k \<subseteq> part_content left base c k" "boot_slot_internal_persistence_ready_locked (st_boot s3)"
    using part.medium.bind_op [OF bi G(1) at k0] B by blast+
  have cu: "current layout (part_content data base c) (st_boot s3)" "bp_active_copy (bsp (st_boot s3)) < 2" using keptD(4,7) [OF B'(1,4)] B'(2) by auto
  then have "bp_generation (bsp (st_boot s3)) < UINT64_MAX - 1" using assms(4) by (auto simp: young_def current_def lt_two)
  then show ?thesis using e B by auto
qed

lemma select_starts:
  assumes "ab_select ctx at (s, c, km) = ((rc, slot, g), s', c', km')" and "good_machine {(fallback m, payload)} (s, c)" and "loader_bound layout store s" and "steady (snd c)"
    and "bp_generation (bsp (st_boot s)) \<noteq> UINT64_MAX" and "kernel_fits R free payload km (snd c)"
  shows "rc \<in> {0, 1, 2} \<and> slot < 2 \<and> g \<noteq> 0 \<and> km' = km \<and> good_machine {(fallback m, payload)} (s', c') \<and> loader_bound layout store s' \<and> steady (snd c') \<and>
    mg_active_slot (bsm (st_boot s')) = slot \<and> bp_generation (bsp (st_boot s')) \<in> {bp_generation (bsp (st_boot s)), bp_generation (bsp (st_boot s)) + 1} \<and>
    kernel_fits R free payload km (snd c') \<and>
    (if rc = 1 then mg_pending_slot (bsm (st_boot s')) = slot \<and> mg_tries_remaining (bsm (st_boot s')) = 0
     else mg_pending_slot (bsm (st_boot s')) = BOOT_SLOT_NONE \<and> slot = mg_confirmed_slot (bsm (st_boot s')))"
proof -
  have se: "on_boot (boot_slot_select_for_boot (bound_io (machine_io (uefi_io ctx at)) s)) s c = ((rc, slot, g), s', c')" and km: "km' = km"
    using assms(1) by (auto simp: ab_select_def split: prod.splits)
  have l: "boot_slot_internal_persistence_ready_locked (st_boot s)" using assms(3) unfolding loader_bound_def by blast
  note G = machine_okD [OF assms(2)]
  have cf: "steady (snd c) \<and> free (snd c) \<subseteq> free (snd c)" using assms(4) by simp
  note C = calm.calm_select [OF se assms(3) G(1) cf G(3,2) assms(5)] and S = select_step [OF assms(1,2)]
  have ck: "kernel_fits R free payload km (snd c')" using kernel_fits_mono [where free = free, OF assms(6)] C by blast
  have l': "boot_slot_internal_persistence_ready_locked (st_boot s')" "g = bp_generation (bsp (st_boot s'))" "slot < 2" using S C by blast+
  have gm: "good_machine {(fallback m, payload)} (s', c')" using S by blast
  have g0: "g \<noteq> 0" using keptD(5) [OF machine_okD(3) [OF gm] l'(1)] l'(2) by (simp add: owns_def)
  have v: "boot_slot_manager_validate (bsm (st_boot s))" using keptD(3) [OF G(3) l] by (simp add: good_def manager_ok_def)
  have v': "boot_slot_manager_validate (bsm (st_boot s'))" using keptD(3) [OF machine_okD(3) [OF gm] l'(1)] by (simp add: good_def manager_ok_def)
  have pend: "if rc = 1 then mg_pending_slot (bsm (st_boot s')) = slot \<and> mg_tries_remaining (bsm (st_boot s')) = 0
     else mg_pending_slot (bsm (st_boot s')) = BOOT_SLOT_NONE \<and> slot = mg_confirmed_slot (bsm (st_boot s'))"
  proof -
    consider "rc = 0" | "rc = 1" | "rc = 2" using C by auto
    then show ?thesis
    proof cases
      case 1
      then show ?thesis using S by simp
    next
      case 2
      then have p: "slot = mg_pending_slot (bsm (st_boot s))" "mg_tries_remaining (bsm (st_boot s)) = 1" "bsm (st_boot s') = spend_attempt (bsm (st_boot s))" using S by auto
      then show ?thesis using spend_valid(3,5) [OF v] none_not_slot(2) [OF l'(3)] 2 by simp
    next
      case 3
      then have p: "slot = mg_confirmed_slot (bsm (st_boot s))" "mg_pending_slot (bsm (st_boot s)) \<noteq> BOOT_SLOT_NONE"
        "bs_apply_rollback (bsm (st_boot s)) = Some (bsm (st_boot s'))" using S by auto
      then show ?thesis using rollback_valid [OF v p(2)] 3 by simp
    qed
  qed
  then have "mg_active_slot (bsm (st_boot s')) = slot" using active_slot(2) [OF v'] none_not_slot(2) [OF l'(3)] by (simp split: if_splits)
  then show ?thesis using C S l' g0 km ck gm pend by blast
qed

text \<open>A slot on trial that cannot be loaded leaves the confirmed kernel as it was.\<close>

lemma trial_keeps:
  assumes "uefi_load_selected_slot svc ctx at store slot (s, c, km) = (st, entry, s', c', km')" and "good_machine {(fallback m, payload)} (s, c)" and "loader_bound layout store s"
    and "steady (snd c)" and "slot < 2" and "mg_active_slot (bsm (st_boot s)) = slot" and "EFI_ERROR st"
    and "kernel_fits R free payload km (snd c)"
  shows "s' = s \<and> steady (snd c') \<and> kernel_fits R free payload km' (snd c')"
proof -
  let ?m = "bsm (st_boot s)"
  have l: "boot_slot_internal_persistence_ready_locked (st_boot s)" using assms(3) unfolding loader_bound_def by blast
  have v: "boot_slot_manager_validate ?m" using keptD(3) [OF machine_okD(3) [OF assms(2)] l] by (simp add: good_def manager_ok_def)
  have a: "sl_state (slot_at ?m slot) = BOOT_SLOT_ACTIVE" using active_slot(1) [OF v] assms(6) by simp
  obtain d p where e: "s' = s" and d: "ok d" "steady d" "free (snd c) \<subseteq> free d"
    and lp: "load_payload svc ctx (slot_at ?m slot) (image_of (slot_at ?m slot)) d km = (st, entry, snd c', km')"
    and reg: "slot_region (slot_at ?m slot) = at2 (ly_slots layout) slot" and sz: "0 < im_payload_size (image_of (slot_at ?m slot))"
    and i: "installed_as layout (\<lambda>k. left d (unat base + k)) slot (image_of (slot_at ?m slot)) p"
    by (rule selected_steps [OF assms(1-6) a])
  obtain plan where pl: "validate_kernel_buffer payload = Inr plan" "plan_window plan \<subseteq> R" "loadable free plan km (snd c)" using assms(8) by (auto simp: kernel_fits_def)
  have "loadable free plan km d" using loadable_mono [where free = free, OF pl(3) d(3)] .
  note K = payload_keeps [OF lp d(1,2) reg assms(5) i sz this pl(2) assms(7)]
  show ?thesis using e K pl unfolding kernel_fits_def by blast
qed

lemma boots:
  assumes "ab_boot svc ctx at store (memory_start True, c, km) = (st, entry, attempt, s', c', km')" and "good_machine {(fallback m, payload)} (memory_start True, c)"
    and "steady (snd c)" and "young layout (part_content data base c)" and "kernel_fits R free payload km (snd c)"
  shows "\<not> EFI_ERROR st \<and> started layout R (part_content left base c') entry attempt (st_boot s') km'"
proof -
  obtain bound s2 c2 where bi: "ab_store_bind ctx at store (memory_start True) c = (bound, s2, c2)" by (metis prod_cases3)
  note B = bind_starts [OF bi assms(2-4)]
  have g2: "good_machine {(fallback m, payload)} (s2, c2)" using bind_step [OF bi assms(2)] by blast
  have ck2: "kernel_fits R free payload km (snd c2)"
    using kernel_fits_mono [where free = free, OF assms(5)] B by blast
  have y: "bp_generation (bsp (st_boot s2)) \<noteq> UINT64_MAX" "bp_generation (bsp (st_boot s2)) + 1 \<noteq> UINT64_MAX" using B young_next by blast+
  obtain rc slot g s3 c3 km3 where se: "ab_select ctx at (s2, c2, km) = ((rc, slot, g), s3, c3, km3)" by (metis prod_cases3 prod.exhaust)
  have b2: "loader_bound layout store s2" "steady (snd c2)" using B by blast+
  note S = select_starts [OF se g2 b2 y(1) ck2]
  obtain st4 e4 s4 c4 km4 where ld: "uefi_load_selected_slot svc ctx at store slot (s3, c3, km3) = (st4, e4, s4, c4, km4)" by (metis prod_cases5)
  obtain rc5 slot5 g5 s5 c5 km5 where se5: "ab_select ctx at (s4, c4, km4) = ((rc5, slot5, g5), s5, c5, km5)" by (metis prod_cases3 prod.exhaust)
  obtain st6 e6 s6 c6 km6 where ld6: "uefi_load_selected_slot svc ctx at store slot5 (s5, c5, km5) = (st6, e6, s6, c6, km6)" by (metis prod_cases5)
  have g3: "good_machine {(fallback m, payload)} (s3, c3)" "loader_bound layout store s3" "steady (snd c3)" "slot < 2" "mg_active_slot (bsm (st_boot s3)) = slot"
    "kernel_fits R free payload km3 (snd c3)" "rc \<in> {0, 1, 2}" "g \<noteq> 0" using S by blast+
  have y3: "bp_generation (bsp (st_boot s3)) \<noteq> UINT64_MAX" using S y by auto
  have fail: "rc5 = 2 \<and> slot5 < 2 \<and> g5 \<noteq> 0 \<and> \<not> EFI_ERROR st6" if "EFI_ERROR st4" "rc = 1"
  proof -
    have t: "mg_pending_slot (bsm (st_boot s3)) = slot" "mg_tries_remaining (bsm (st_boot s3)) = 0" using S that(2) by simp_all
    note T = trial_keeps [OF ld g3(1-5) that(1) g3(6)]
    have g4: "good_machine {(fallback m, payload)} (s4, c4)" using load_selected [OF ld g3(1)] by blast
    have b4: "loader_bound layout store s4" "steady (snd c4)" "bp_generation (bsp (st_boot s4)) \<noteq> UINT64_MAX"
      "kernel_fits R free payload km4 (snd c4)" using T g3(2) y3 by simp_all
    note S5 = select_starts [OF se5 g4 b4]
    have "rc5 = 2" using S5 select_step [OF se5 g4] t T none_not_slot(2) [OF g3(4)] by auto
    then have "\<not> EFI_ERROR st6" using confirmed_starts [OF ld6, of m payload] S5 by simp
    then show ?thesis using S5 \<open>rc5 = 2\<close> by blast
  qed
  have direct: "\<not> EFI_ERROR st4" if "rc \<noteq> 1" using confirmed_starts [OF ld g3(1-3) _ _ g3(6)] S that by simp
  have full: "(st, entry, attempt, s', c', km') =
    (if \<not> bound then (EFI_COMPROMISED_DATA, None, attempt_zero, s2, c2, km)
     else if rc < 0 \<or> slot \<ge> BOOT_SLOT_COUNT \<or> g = 0 then (EFI_COMPROMISED_DATA, None, attempt_zero, s3, c3, km3)
     else if EFI_ERROR st4 \<and> rc = 1 then
       (if rc5 \<noteq> 2 \<or> slot5 \<ge> BOOT_SLOT_COUNT \<or> g5 = 0 then (EFI_COMPROMISED_DATA, None, attempt_zero, s5, c5, km5)
        else if EFI_ERROR st6 then (st6, None, attempt_zero, s6, c6, km6) else (EFI_SUCCESS, e6, attempt_of rc5 slot5 g5, s6, c6, km6))
     else if EFI_ERROR st4 then (st4, None, attempt_zero, s4, c4, km4) else (EFI_SUCCESS, e4, attempt_of rc slot g, s4, c4, km4))"
    using assms(1) [symmetric] unfolding ab_boot_def Let_def prod.case bi se ld se5 ld6 .
  have "\<not> EFI_ERROR st"
    using full B g3(4,7,8) fail direct by (auto simp: BOOT_SLOT_COUNT_def not_le split: if_splits)
  then show ?thesis using boot [OF assms(1,2)] by blast
qed

end

end
