(* ===== verification/BootFlaky.thy ===== *)
theory BootFlaky
  imports BootUp
begin

text \<open>
  A machine on which the contracts of the boot path are met: a disk with a write cache and scripted failures, which the kernel reaches through its
  driver and the loader through the firmware. A write that times out has happened, one that fails otherwise has not; what a sector held
  since the last flush may come back when the power fails. The pool lies below the window where kernels are loaded, whose pages are handed out while
  they are free. Without failures left in the script the machine is calm.
\<close>

subsection \<open>The disk\<close>

record flaky =
  fk_data :: "nat \<Rightarrow> u8 list"
  fk_old :: "nat \<Rightarrow> u8 list list"
  fk_script :: "block_io_error_class list"
  fk_free :: "u64 set"

fun fk_next :: "flaky \<Rightarrow> block_io_error_class \<times> flaky" where
  "fk_next d = (case fk_script d of [] \<Rightarrow> (BLOCK_IO_OK, d) | cls # rest \<Rightarrow> (cls, d\<lparr>fk_script := rest\<rparr>))"

definition flaky_read :: "u32 \<Rightarrow> u8 list \<Rightarrow> flaky \<Rightarrow> block_io_error_class \<times> u8 list \<times> flaky" where
  "flaky_read b buf d = (let (cls, d1) = fk_next d in (cls, if cls = BLOCK_IO_OK then fk_data d (unat b) else buf, d1))"

definition flaky_write :: "u32 \<Rightarrow> u8 list \<Rightarrow> flaky \<Rightarrow> block_io_error_class \<times> flaky" where
  "flaky_write b buf d =
     (let (cls, d1) = fk_next d
      in (cls, if cls = BLOCK_IO_OK \<or> cls = BLOCK_IO_ERR_TIMEOUT
               then d1\<lparr>fk_data := (fk_data d)(unat b := buf), fk_old := (fk_old d)(unat b := fk_data d (unat b) # fk_old d (unat b))\<rparr> else d1))"

definition flaky_flush :: "flaky \<Rightarrow> block_io_error_class \<times> flaky" where
  "flaky_flush d = (let (cls, d1) = fk_next d in (cls, if cls = BLOCK_IO_OK then d1\<lparr>fk_old := (\<lambda>_. [])\<rparr> else d1))"

definition flaky_dev :: "u32 \<Rightarrow> flaky block_device" where
  "flaky_dev n =
     \<lparr>bd_name = ''flaky'', bd_block_size = 512, bd_block_count = n,
      bd_ops = \<lparr>op_read_block = None, op_write_block = None, op_read_block_ex = Some flaky_read, op_write_block_ex = Some flaky_write,
        op_reset = Some (\<lambda>d. (0, d)), op_flush = None, op_flush_ex = Some flaky_flush\<rparr>\<rparr>"

definition flaky_ok :: "flaky \<Rightarrow> bool" where
  "flaky_ok d \<longleftrightarrow> (\<forall>k. length (fk_data d k) = BOOT_SLOT_STORE_SECTOR_SIZE \<and> (\<forall>r\<in>set (fk_old d k). length r = BOOT_SLOT_STORE_SECTOR_SIZE))"

definition flaky_left :: "flaky \<Rightarrow> leftovers" where
  "flaky_left d k = insert (fk_data d k) (set (fk_old d k))"

interpretation flaky_disk: raw_disk "flaky_dev n" flaky_ok fk_data flaky_left for n
proof
  fix d k r
  assume "flaky_ok d"
  then show "fk_data d k \<in> flaky_left d k" "r \<in> flaky_left d k \<Longrightarrow> length r = BOOT_SLOT_STORE_SECTOR_SIZE"
    by (auto simp: flaky_left_def flaky_ok_def)
next
  fix d b buf cls r d'
  assume "flaky_ok d" "length buf = BOOT_SLOT_STORE_SECTOR_SIZE" "block_call_read (flaky_dev n) b buf d = (cls, r, d')"
  then show "flaky_ok d' \<and> fk_data d' = fk_data d \<and> (\<forall>k. flaky_left d' k \<subseteq> flaky_left d k) \<and> length r = BOOT_SLOT_STORE_SECTOR_SIZE \<and>
      (cls = BLOCK_IO_OK \<longrightarrow> r = fk_data d (unat b))"
    by (auto simp: block_call_read_def flaky_dev_def flaky_read_def flaky_ok_def flaky_left_def split: list.splits)
next
  fix d b buf cls d'
  assume "flaky_ok d" "length buf = BOOT_SLOT_STORE_SECTOR_SIZE" "block_call_write (flaky_dev n) b buf d = (cls, d')"
  then show "flaky_ok d' \<and> (\<forall>k. k \<noteq> unat b \<longrightarrow> fk_data d' k = fk_data d k \<and> flaky_left d' k \<subseteq> flaky_left d k) \<and>
      flaky_left d' (unat b) \<subseteq> insert buf (flaky_left d (unat b)) \<and> (cls = BLOCK_IO_OK \<longrightarrow> fk_data d' (unat b) = buf)"
    by (auto simp: block_call_write_def flaky_dev_def flaky_write_def flaky_ok_def flaky_left_def split: list.splits if_splits)
next
  fix d cls d'
  assume "flaky_ok d" "block_device_flush_once_ex (flaky_dev n) d = (cls, d')"
  then show "flaky_ok d' \<and> fk_data d' = fk_data d \<and> (\<forall>k. flaky_left d' k \<subseteq> flaky_left d k) \<and>
      (cls = BLOCK_IO_OK \<longrightarrow> (\<forall>k<unat (bd_block_count (flaky_dev n)). flaky_left d' k \<subseteq> {fk_data d k}))"
    by (auto simp: block_device_flush_once_ex_def flaky_dev_def flaky_flush_def flaky_ok_def flaky_left_def split: list.splits if_splits)
qed (auto simp: flaky_dev_def)

subsection \<open>The disk through the firmware\<close>

text \<open>One entry of the script for each transfer, whatever its length.\<close>

definition flaky_status :: "block_io_error_class \<Rightarrow> u64" where
  "flaky_status cls = (if cls = BLOCK_IO_OK then EFI_SUCCESS else EFIERR 7)"

definition flaky_ReadBlocks :: "u32 \<Rightarrow> u64 \<Rightarrow> u64 \<Rightarrow> u64 \<Rightarrow> flaky \<Rightarrow> u64 \<times> u8 list \<times> flaky" where
  "flaky_ReadBlocks media lba bytes address d =
     (let (cls, d1) = fk_next d in (flaky_status cls, concat (map (\<lambda>i. fk_data d (unat lba + i)) [0..<unat bytes div 512]), d1))"

definition flaky_WriteBlocks :: "u32 \<Rightarrow> u64 \<Rightarrow> u64 \<Rightarrow> u64 \<Rightarrow> u8 list \<Rightarrow> flaky \<Rightarrow> u64 \<times> flaky" where
  "flaky_WriteBlocks media lba bytes address buffer d =
     (let (cls, d1) = fk_next d;
          hit = (\<lambda>k. unat lba \<le> k \<and> k < unat lba + unat bytes div 512)
      in (flaky_status cls,
          if cls = BLOCK_IO_OK \<or> cls = BLOCK_IO_ERR_TIMEOUT
          then d1\<lparr>fk_data := (\<lambda>k. if hit k then take 512 (drop (512 * (k - unat lba)) buffer) else fk_data d k),
                 fk_old := (\<lambda>k. if hit k then fk_data d k # fk_old d k else fk_old d k)\<rparr> else d1))"

definition flaky_bio :: "u32 \<Rightarrow> flaky EFI_BLOCK_IO_PROTOCOL" where
  "flaky_bio n =
     \<lparr>bio_Media = (\<lambda>_. if n = 0 then None else Some \<lparr>md_MediaId = 7, md_BlockSize = 512, md_LastBlock = ucast n - 1, md_IoAlign = 0\<rparr>),
      bio_ReadBlocks = Some flaky_ReadBlocks, bio_WriteBlocks = Some flaky_WriteBlocks,
      bio_FlushBlocks = Some (\<lambda>d. let (cls, d1) = flaky_flush d in (flaky_status cls, d1)),
      bio_AllocatePool = (\<lambda>bytes d. (if bytes \<le> 0x100000 then 0x1000 else 0, d)), bio_FreePool = (\<lambda>_ d. d)\<rparr>"

definition load_window :: "u64 set" where
  "load_window = window KERNEL_FIXED_RESERVE_BASE (unat KERNEL_FIXED_RESERVE_BYTES)"

definition flaky_pages :: "flaky page_services" where
  "flaky_pages =
     \<lparr>AllocatePages = (\<lambda>pages a d. if window a (4096 * unat pages) \<subseteq> fk_free d then (EFI_SUCCESS, a, d\<lparr>fk_free := fk_free d - window a (4096 * unat pages)\<rparr>)
        else (EFI_OUT_OF_RESOURCES, a, d)),
      FreePages = (\<lambda>a pages d. d\<lparr>fk_free := fk_free d \<union> (window a (4096 * unat pages) \<inter> load_window)\<rparr>)\<rparr>"

definition flaky_calm :: "flaky \<Rightarrow> bool" where
  "flaky_calm d \<longleftrightarrow> fk_script d = []"

lemma flaky_status_error [simp]: "EFI_ERROR (flaky_status cls) \<longleftrightarrow> cls \<noteq> BLOCK_IO_OK"
  by (simp add: flaky_status_def)

lemma last_block: "n \<noteq> 0 \<Longrightarrow> unat (ucast (n::u32) - 1 :: u64) < unat n"
proof -
  assume n: "n \<noteq> 0"
  then have "unat n > 0" by (simp add: unat_gt_0)
  moreover have "unat (ucast n - 1 :: u64) = unat n - 1" using \<open>unat n > 0\<close> by (simp add: unat_sub unat_up word_le_nat_alt)
  ultimately show ?thesis by simp
qed

interpretation flaky_efi: efi_disk "flaky_bio n" flaky_ok fk_data flaky_left "unat (bd_block_count (flaky_dev n))" for n
proof
  fix d md
  assume "flaky_ok d" "bio_Media (flaky_bio n) d = Some md"
  then show "md_BlockSize md = 512 \<and> unat (md_LastBlock md) < unat (bd_block_count (flaky_dev n))"
    using last_block [of n] by (auto simp: flaky_bio_def flaky_dev_def split: if_splits)
next
  fix d lba m bytes f media address status r d'
  assume "flaky_ok d" "unat bytes = 512 * m" "bio_ReadBlocks (flaky_bio n) = Some f" "f media lba bytes address d = (status, r, d')"
  then show "flaky_ok d' \<and> fk_data d' = fk_data d \<and> (\<forall>k. flaky_left d' k \<subseteq> flaky_left d k) \<and>
      (\<not> EFI_ERROR status \<longrightarrow> r = concat (map (\<lambda>i. fk_data d (unat lba + i)) [0..<m]))"
    by (auto simp: flaky_bio_def flaky_ReadBlocks_def flaky_ok_def flaky_left_def split: list.splits)
next
  fix d lba m bytes buffer g media address status d'
  assume a: "flaky_ok d" "unat bytes = 512 * m" "length buffer = 512 * m" "bio_WriteBlocks (flaky_bio n) = Some g"
    "g media lba bytes address buffer d = (status, d')"
  have len: "length (take 512 (drop (512 * (k - unat lba)) buffer)) = 512" if "unat lba \<le> k" "k < unat lba + m" for k
  proof -
    have "512 * (k - unat lba) + 512 \<le> 512 * m" using that by linarith
    then show ?thesis using a(3) by simp
  qed
  from a show "flaky_ok d' \<and> (\<forall>k. k < unat lba \<or> unat lba + m \<le> k \<longrightarrow> fk_data d' k = fk_data d k \<and> flaky_left d' k \<subseteq> flaky_left d k) \<and>
      (\<forall>i<m. flaky_left d' (unat lba + i) \<subseteq> insert (take 512 (drop (512 * i) buffer)) (flaky_left d (unat lba + i)) \<and>
        (\<not> EFI_ERROR status \<longrightarrow> fk_data d' (unat lba + i) = take 512 (drop (512 * i) buffer)))"
    using len by (auto simp: flaky_bio_def flaky_WriteBlocks_def flaky_ok_def flaky_left_def BOOT_SLOT_STORE_SECTOR_SIZE_def Let_def split: list.splits if_splits)
next
  fix d h status d'
  assume "flaky_ok d" "bio_FlushBlocks (flaky_bio n) = Some h" "h d = (status, d')"
  then show "flaky_ok d' \<and> fk_data d' = fk_data d \<and> (\<forall>k. flaky_left d' k \<subseteq> flaky_left d k) \<and>
      (\<not> EFI_ERROR status \<longrightarrow> (\<forall>k<unat (bd_block_count (flaky_dev n)). flaky_left d' k \<subseteq> {fk_data d k}))"
    by (auto simp: flaky_bio_def flaky_flush_def flaky_ok_def flaky_left_def split: list.splits if_splits)
qed (auto simp: flaky_bio_def flaky_ok_def BOOT_SLOT_STORE_SECTOR_SIZE_def)

subsection \<open>The machine\<close>

text \<open>A disk of eight sectors, of which six are the boot partition: two slots with a header and one payload sector each, and the record twice.\<close>

definition layout6 :: boot_slot_layout where
  "layout6 = the (boot_slot_layout_plan 6)"

lemma layout6: "boot_slot_layout_plan (ly_boot_sectors layout6) = Some layout6" "boot_slot_layout_plan 6 = Some layout6" "ly_boot_sectors layout6 = 6"
  by code_simp+

lemma window_bounds: "x \<in> window a n \<Longrightarrow> unat a + n \<le> 2 ^ 64 \<Longrightarrow> unat a \<le> unat x \<and> unat x < unat a + n"
proof -
  assume x: "x \<in> window a n" and n: "unat a + n \<le> 2 ^ 64"
  have "x = a + (x - a)" by simp
  moreover have "unat a + unat (x - a) < 2 ^ 64" using x n by (simp add: window_def)
  ultimately have "unat x = (unat a + unat (x - a)) mod 2 ^ 64" "unat a + unat (x - a) < 2 ^ 64" using unat_word_ariths(1) [of a "x - a"] by simp_all
  then have "unat x = unat a + unat (x - a)" by simp
  then show ?thesis using x by (simp add: window_def)
qed

interpretation flaky_memory: boot_memory "flaky_dev 8" flaky_ok fk_data flaky_left "flaky_bio 8" 1 layout6 7 "\<lambda>_. 0x2000" flaky_pages load_window
proof (unfold_locales)
  fix d bytes a d'
  assume "bio_AllocatePool (flaky_bio 8) bytes d = (a, d')" "a \<noteq> 0"
  then have a: "a = 0x1000" "unat bytes \<le> 0x100000" by (auto simp: flaky_bio_def word_le_nat_alt split: if_splits)
  have "x \<notin> load_window" if "x \<in> window a (unat bytes)" for x
    using window_bounds [OF that] window_bounds [of x KERNEL_FIXED_RESERVE_BASE "unat KERNEL_FIXED_RESERVE_BYTES"] a
    by (auto simp: load_window_def KERNEL_FIXED_RESERVE_BASE_def KERNEL_FIXED_RESERVE_BYTES_def)
  then show "unat a + unat bytes < 2 ^ 64 \<and> window a (unat bytes) \<inter> load_window = {}" using a by auto
qed (auto simp: layout6 flaky_dev_def flaky_pages_def allocates_at_address_def flaky_ok_def flaky_left_def fun_eq_iff efi_codes split: if_splits)

interpretation flaky_machine: calm_machine "flaky_dev 8" flaky_ok fk_data flaky_left "flaky_bio 8" 1 layout6 7 "\<lambda>_. 0x2000" flaky_pages load_window flaky_calm fk_free
proof
  fix d
  assume "flaky_ok d" and c: "flaky_calm d"
  show "\<exists>md. bio_Media (flaky_bio 8) d = Some md \<and> md_MediaId md = 7 \<and> installer_disk_io_alignment_valid (md_IoAlign md) \<and>
      unat (md_LastBlock md) + 1 = unat (bd_block_count (flaky_dev 8))"
    by (simp add: flaky_bio_def flaky_dev_def installer_disk_io_alignment_valid_def)
  show "\<exists>f. bio_ReadBlocks (flaky_bio 8) = Some f \<and>
      (\<forall>a. case f 7 lba bytes a d of (st, r, d') \<Rightarrow> \<not> EFI_ERROR st \<and> flaky_calm d' \<and> fk_free d \<subseteq> fk_free d')" for lba bytes
    using c by (simp add: flaky_bio_def flaky_ReadBlocks_def flaky_calm_def)
  show "\<exists>g. bio_WriteBlocks (flaky_bio 8) = Some g \<and>
      (\<forall>a. case g 7 lba bytes a buffer d of (st, d') \<Rightarrow> \<not> EFI_ERROR st \<and> flaky_calm d' \<and> fk_free d \<subseteq> fk_free d')" for lba bytes buffer
    using c by (simp add: flaky_bio_def flaky_WriteBlocks_def flaky_calm_def)
  show "\<exists>h. bio_FlushBlocks (flaky_bio 8) = Some h \<and> (case h d of (st, d') \<Rightarrow> \<not> EFI_ERROR st \<and> flaky_calm d' \<and> fk_free d \<subseteq> fk_free d')"
    using c by (simp add: flaky_bio_def flaky_flush_def flaky_calm_def)
  show "a \<noteq> 0 \<and> flaky_calm d' \<and> fk_free d \<subseteq> fk_free d'"
    if "bio_Media (flaky_bio 8) d = Some md" "unat bytes \<le> 512 * unat (ly_boot_sectors layout6) + unat (md_IoAlign md)"
      "bio_AllocatePool (flaky_bio 8) bytes d = (a, d')" for md bytes a d'
    using that c by (auto simp: flaky_bio_def layout6 word_le_nat_alt split: if_splits)
  show "flaky_calm (bio_FreePool (flaky_bio 8) a d) \<and> fk_free d \<subseteq> fk_free (bio_FreePool (flaky_bio 8) a d)" for a
    using c by (simp add: flaky_bio_def)
  show "flaky_calm d' \<and> fk_free d - (if EFI_ERROR st then {} else window a (4096 * unat pages)) \<subseteq> fk_free d' \<and>
      (window a (4096 * unat pages) \<subseteq> fk_free d \<longrightarrow> \<not> EFI_ERROR st)"
    if "AllocatePages flaky_pages pages a d = (st, a', d')" for pages a st a' d'
    using that c by (auto simp: flaky_pages_def flaky_calm_def efi_codes split: if_splits)
  show "flaky_calm (FreePages flaky_pages a pages d) \<and>
      fk_free d \<union> (window a (4096 * unat pages) \<inter> load_window) \<subseteq> fk_free (FreePages flaky_pages a pages d)" for a pages
    using c by (simp add: flaky_pages_def flaky_calm_def)
qed

end
