(* ===== verification/KernelSample.thy ===== *)
theory KernelSample
  imports KernelImage
begin

text \<open>
  A kernel to try the boot path on: the smallest image that the kernel loader accepts, and its digest, computed round by round.
\<close>

subsection \<open>A kernel\<close>

text \<open>An ELF header whose last bytes are the first of its only program header: four bytes loaded at the start of the fixed window.\<close>

definition kernel0 :: "u8 list" where
  "kernel0 =
     [0x7f, 0x45, 0x4c, 0x46] @ replicate 14 0 @ [62, 0] @ replicate 4 0 @ [0, 0, 0, 0x10, 0, 0, 0, 0] @ [56, 0, 0, 0, 0, 0, 0, 0] @ replicate 14 0 @ [56, 0] @
     [1, 0, 0, 0, 5, 0, 0, 0] @ replicate 16 0 @ [0, 0, 0, 0x10, 0, 0, 0, 0] @ [4, 0, 0, 0, 0, 0, 0, 0] @ [0, 0x10, 0, 0, 0, 0, 0, 0] @ replicate 8 0"

definition plan0 :: kernel_load_plan where
  "plan0 = \<lparr>kp_link_base = 0x10000000, kp_link_end = 0x10001000, kp_entry = 0x10000000, kp_span = 0x1000, kp_pages = 1\<rparr>"

lemma kernel0_plan: "validate_kernel_buffer kernel0 = Inr plan0"
  by code_simp

lemma kernel0_length: "length kernel0 = 112"
  by (simp add: kernel0_def)

subsection \<open>Its digest\<close>

text \<open>Two blocks, each in four groups of sixteen rounds.\<close>

definition k256_part :: "nat \<Rightarrow> u32 list" where
  "k256_part i = take 16 (drop (16 * i) k256)"

lemma k256_length: "length k256 = 64"
  by (simp add: k256_def)

lemma k256_part_length: "i < 4 \<Longrightarrow> length (k256_part i) = 16"
  by (simp add: k256_part_def k256_length)

lemma k256_parts: "k256 = k256_part 0 @ k256_part 1 @ k256_part 2 @ k256_part 3"
proof -
  have "drop (16 * i) k256 = k256_part i @ drop (16 * Suc i) k256" for i
    using append_take_drop_id [of 16 "drop (16 * i) k256"] by (simp add: k256_part_def add.commute)
  from this [of 0] this [of 1] this [of 2] this [of 3] show ?thesis by (simp add: k256_length)
qed

lemma sixteen_rounds:
  assumes "i < 4" and "length b = 16" and "fold sha_round (zip (k256_part i) b) st = st1"
  shows "fold sha_round (zip (k256_part i @ c) (b @ d)) st = fold sha_round (zip c d) st1"
  using assms by (simp add: k256_part_length)

definition block1 :: "u8 list" where
  "block1 = [0x7f, 0x45, 0x4c, 0x46, 0x0, 0x0, 0x0, 0x0, 0x0, 0x0, 0x0, 0x0, 0x0, 0x0, 0x0, 0x0, 0x0, 0x0, 0x3e, 0x0, 0x0, 0x0, 0x0, 0x0, 0x0, 0x0, 0x0, 0x10, 0x0, 0x0, 0x0, 0x0, 0x38, 0x0, 0x0, 0x0, 0x0, 0x0, 0x0, 0x0, 0x0, 0x0, 0x0, 0x0, 0x0, 0x0, 0x0, 0x0, 0x0, 0x0, 0x0, 0x0, 0x0, 0x0, 0x38, 0x0, 0x1, 0x0, 0x0, 0x0, 0x5, 0x0, 0x0, 0x0]"

lemma schedule1: "message_schedule block1 =
  [0x7f454c46, 0x0, 0x0, 0x0, 0x3e00, 0x0, 0x10, 0x0, 0x38000000, 0x0, 0x0, 0x0, 0x0, 0x3800, 0x1000000, 0x5000000] @
  [0x7f458ce6, 0x14220, 0x77f02129, 0x98d4080c, 0x14acdf0e, 0xa625ea74, 0xf963e404, 0xcf12e992, 0xc6bdfd84, 0xa1b91bfa, 0xda175d02, 0xc35749bb, 0xf93da582, 0x47606857, 0x370c57a2, 0xa51e361e] @
  [0xd2af7212, 0xc5a1a5e, 0x9aef12e6, 0x9f8c622, 0x4e2c4c66, 0x48e90318, 0xd4474b07, 0xb1fb68b1, 0xc7791281, 0xdfc13297, 0x4cb3dfac, 0x4467ec29, 0x92ce47d4, 0x7e8f663a, 0x78aa7cea, 0xafd11ffb] @
  [0x5f6b72f1, 0x2008eb21, 0x2b2cc8c9, 0xdc0406d4, 0x437e0ec0, 0xcfd076c, 0xfa32590e, 0x948135ed, 0xc7fc8032, 0x6e406363, 0x99f50de5, 0xf035b69f, 0x69d5bf6f, 0x2b405007, 0x1ac749ca, 0xcfc7306a]"
  by code_simp

lemma rounds1_1: "fold sha_round (zip (k256_part 0)
    [0x7f454c46, 0x0, 0x0, 0x0, 0x3e00, 0x0, 0x10, 0x0, 0x38000000, 0x0, 0x0, 0x0, 0x0, 0x3800, 0x1000000, 0x5000000])
    sha256_iv =
  [0x8d48ffe0, 0x8617134d, 0x35165d1f, 0x403842f1, 0x66f52c0c, 0x27afcd3d, 0x345480fd, 0x886b1e3d]"
  by code_simp

lemma rounds1_2: "fold sha_round (zip (k256_part 1)
    [0x7f458ce6, 0x14220, 0x77f02129, 0x98d4080c, 0x14acdf0e, 0xa625ea74, 0xf963e404, 0xcf12e992, 0xc6bdfd84, 0xa1b91bfa, 0xda175d02, 0xc35749bb, 0xf93da582, 0x47606857, 0x370c57a2, 0xa51e361e])
    [0x8d48ffe0, 0x8617134d, 0x35165d1f, 0x403842f1, 0x66f52c0c, 0x27afcd3d, 0x345480fd, 0x886b1e3d] =
  [0xebbb4832, 0x9ae8f044, 0x2858d0d6, 0xabd41eb6, 0x48c1fa3e, 0x283e9be, 0x2ac7b74f, 0x370ad28]"
  by code_simp

lemma rounds1_3: "fold sha_round (zip (k256_part 2)
    [0xd2af7212, 0xc5a1a5e, 0x9aef12e6, 0x9f8c622, 0x4e2c4c66, 0x48e90318, 0xd4474b07, 0xb1fb68b1, 0xc7791281, 0xdfc13297, 0x4cb3dfac, 0x4467ec29, 0x92ce47d4, 0x7e8f663a, 0x78aa7cea, 0xafd11ffb])
    [0xebbb4832, 0x9ae8f044, 0x2858d0d6, 0xabd41eb6, 0x48c1fa3e, 0x283e9be, 0x2ac7b74f, 0x370ad28] =
  [0x328432dd, 0xb6defe12, 0x2b4e56cd, 0xa22a2254, 0xf49a4e14, 0x59b371f, 0x155033c5, 0xa57df9f3]"
  by code_simp

lemma rounds1_4: "fold sha_round (zip (k256_part 3)
    [0x5f6b72f1, 0x2008eb21, 0x2b2cc8c9, 0xdc0406d4, 0x437e0ec0, 0xcfd076c, 0xfa32590e, 0x948135ed, 0xc7fc8032, 0x6e406363, 0x99f50de5, 0xf035b69f, 0x69d5bf6f, 0x2b405007, 0x1ac749ca, 0xcfc7306a])
    [0x328432dd, 0xb6defe12, 0x2b4e56cd, 0xa22a2254, 0xf49a4e14, 0x59b371f, 0x155033c5, 0xa57df9f3] =
  [0x85eb7f99, 0x4d382489, 0xf7102a1a, 0x45b0ec44, 0x7c579951, 0x31af67f1, 0xfa379d98, 0xfc6a87b9]"
  by code_simp

definition block2 :: "u8 list" where
  "block2 = [0x0, 0x0, 0x0, 0x0, 0x0, 0x0, 0x0, 0x0, 0x0, 0x0, 0x0, 0x0, 0x0, 0x0, 0x0, 0x0, 0x0, 0x0, 0x0, 0x10, 0x0, 0x0, 0x0, 0x0, 0x4, 0x0, 0x0, 0x0, 0x0, 0x0, 0x0, 0x0, 0x0, 0x10, 0x0, 0x0, 0x0, 0x0, 0x0, 0x0, 0x0, 0x0, 0x0, 0x0, 0x0, 0x0, 0x0, 0x0, 0x80, 0x0, 0x0, 0x0, 0x0, 0x0, 0x0, 0x0, 0x0, 0x0, 0x0, 0x0, 0x0, 0x0, 0x3, 0x80]"

lemma schedule2: "message_schedule block2 =
  [0x0, 0x0, 0x0, 0x0, 0x10, 0x0, 0x4000000, 0x0, 0x100000, 0x0, 0x0, 0x0, 0x80000000, 0x0, 0x0, 0x380] @
  [0x0, 0x1b00000, 0x0, 0xa0046cf0, 0x10, 0xbc564619, 0x40a0380, 0xebe31c34, 0x43710004, 0xeda6104a, 0x4016e286, 0xdb1762f3, 0xe95a33ca, 0x611b56b1, 0x4c699bb5, 0x507ddff] @
  [0xec9a8695, 0x5708065a, 0xdd377db8, 0xad564420, 0x67eb9afd, 0x73e84dd3, 0x7af166b3, 0x48b6a33f, 0x4687aa1d, 0xceb5077, 0x3232057d, 0x944a374, 0x5aad39b8, 0xa7dc4561, 0xdaf30186, 0x8db3b719] @
  [0x9a2466f8, 0xebf95d5a, 0x6bfa47d4, 0x9dce523c, 0x36c02c4c, 0x62610eca, 0xfb8fb68b, 0x625a9b2c, 0x9bc4e866, 0x154e2c34, 0x7b00e6d2, 0x492d9734, 0xf3a8552c, 0xf3651351, 0x2cc81d47, 0x5145a0b4]"
  by code_simp

lemma rounds2_1: "fold sha_round (zip (k256_part 0)
    [0x0, 0x0, 0x0, 0x0, 0x10, 0x0, 0x4000000, 0x0, 0x100000, 0x0, 0x0, 0x0, 0x80000000, 0x0, 0x0, 0x380])
    [0xeff56600, 0x89fd30e, 0x337f1d8c, 0xeb00e17e, 0xcd65ebd0, 0xccb4d07d, 0x19bb7743, 0x584b54d2] =
  [0xff74994b, 0x4d8287cb, 0xce3b4487, 0x3702f0fd, 0x76dd75a6, 0xf9b54a3c, 0xdba096ed, 0x646b3ce7]"
  by code_simp

lemma rounds2_2: "fold sha_round (zip (k256_part 1)
    [0x0, 0x1b00000, 0x0, 0xa0046cf0, 0x10, 0xbc564619, 0x40a0380, 0xebe31c34, 0x43710004, 0xeda6104a, 0x4016e286, 0xdb1762f3, 0xe95a33ca, 0x611b56b1, 0x4c699bb5, 0x507ddff])
    [0xff74994b, 0x4d8287cb, 0xce3b4487, 0x3702f0fd, 0x76dd75a6, 0xf9b54a3c, 0xdba096ed, 0x646b3ce7] =
  [0xb54d4c23, 0xded355ec, 0xb927ff43, 0x6875cd07, 0x71404bf1, 0xb7675af5, 0x94cc2e5c, 0xed241a3e]"
  by code_simp

lemma rounds2_3: "fold sha_round (zip (k256_part 2)
    [0xec9a8695, 0x5708065a, 0xdd377db8, 0xad564420, 0x67eb9afd, 0x73e84dd3, 0x7af166b3, 0x48b6a33f, 0x4687aa1d, 0xceb5077, 0x3232057d, 0x944a374, 0x5aad39b8, 0xa7dc4561, 0xdaf30186, 0x8db3b719])
    [0xb54d4c23, 0xded355ec, 0xb927ff43, 0x6875cd07, 0x71404bf1, 0xb7675af5, 0x94cc2e5c, 0xed241a3e] =
  [0x1cea912, 0x7f9c6066, 0xc491d221, 0x37eca800, 0xebb1c739, 0x6b2383e7, 0xe3e1a6f0, 0xf0558631]"
  by code_simp

lemma rounds2_4: "fold sha_round (zip (k256_part 3)
    [0x9a2466f8, 0xebf95d5a, 0x6bfa47d4, 0x9dce523c, 0x36c02c4c, 0x62610eca, 0xfb8fb68b, 0x625a9b2c, 0x9bc4e866, 0x154e2c34, 0x7b00e6d2, 0x492d9734, 0xf3a8552c, 0xf3651351, 0x2cc81d47, 0x5145a0b4])
    [0x1cea912, 0x7f9c6066, 0xc491d221, 0x37eca800, 0xebb1c739, 0x6b2383e7, 0xe3e1a6f0, 0xf0558631] =
  [0xe55afb93, 0x5ced12de, 0x1471bce8, 0xe8ac479c, 0xc3b9fbf2, 0xab1d8f72, 0xd936c062, 0xac301537]"
  by code_simp

lemma compress1: "compress sha256_iv block1 =
  [0xeff56600, 0x89fd30e, 0x337f1d8c, 0xeb00e17e, 0xcd65ebd0, 0xccb4d07d, 0x19bb7743, 0x584b54d2]"
proof -
  have "fold sha_round (zip k256 (message_schedule block1)) sha256_iv = [0x85eb7f99, 0x4d382489, 0xf7102a1a, 0x45b0ec44, 0x7c579951, 0x31af67f1, 0xfa379d98, 0xfc6a87b9]"
    unfolding k256_parts schedule1
    by (subst sixteen_rounds [OF _ _ rounds1_1], simp, simp, subst sixteen_rounds [OF _ _ rounds1_2], simp, simp,
        subst sixteen_rounds [OF _ _ rounds1_3], simp, simp, rule rounds1_4)
  then show ?thesis by (simp add: compress_def sha256_iv_def)
qed

lemma compress2: "compress [0xeff56600, 0x89fd30e, 0x337f1d8c, 0xeb00e17e, 0xcd65ebd0, 0xccb4d07d, 0x19bb7743, 0x584b54d2] block2 =
  [0xd5506193, 0x658ce5ec, 0x47f0da74, 0xd3ad291a, 0x911fe7c2, 0x77d25fef, 0xf2f237a5, 0x47b6a09]"
proof -
  have "fold sha_round (zip k256 (message_schedule block2)) [0xeff56600, 0x89fd30e, 0x337f1d8c, 0xeb00e17e, 0xcd65ebd0, 0xccb4d07d, 0x19bb7743, 0x584b54d2] = [0xe55afb93, 0x5ced12de, 0x1471bce8, 0xe8ac479c, 0xc3b9fbf2, 0xab1d8f72, 0xd936c062, 0xac301537]"
    unfolding k256_parts schedule2
    by (subst sixteen_rounds [OF _ _ rounds2_1], simp, simp, subst sixteen_rounds [OF _ _ rounds2_2], simp, simp,
        subst sixteen_rounds [OF _ _ rounds2_3], simp, simp, rule rounds2_4)
  then show ?thesis by (simp add: compress_def)
qed

definition digest0 :: "u8 list" where
  "digest0 = [0xd5, 0x50, 0x61, 0x93, 0x65, 0x8c, 0xe5, 0xec, 0x47, 0xf0, 0xda, 0x74, 0xd3, 0xad, 0x29, 0x1a, 0x91, 0x1f, 0xe7, 0xc2, 0x77, 0xd2, 0x5f, 0xef, 0xf2, 0xf2, 0x37, 0xa5, 0x4, 0x7b, 0x6a, 0x9]"

lemma pad0: "sha256_pad kernel0 = block1 @ block2"
  by code_simp

lemma kernel0_digest: "sha256_ref kernel0 = digest0"
proof -
  have "absorb sha256_iv (block1 @ block2) = [0xd5506193, 0x658ce5ec, 0x47f0da74, 0xd3ad291a, 0x911fe7c2, 0x77d25fef, 0xf2f237a5, 0x47b6a09]"
  proof -
    have l: "length block1 = 64" "length block2 = 64" by (simp_all add: block1_def block2_def)
    have "absorb sha256_iv (block1 @ block2) = absorb (compress sha256_iv block1) block2" using l by (subst absorb.simps) simp
    also have "\<dots> = absorb (compress (compress sha256_iv block1) block2) []" using l by (subst absorb.simps) simp
    also have "\<dots> = compress (compress sha256_iv block1) block2" by (subst absorb.simps) simp
    finally show ?thesis by (simp only: compress1 compress2)
  qed
  then show ?thesis by (simp add: sha256_ref_def pad0 word_bytes_def digest0_def)
qed

end
