(* ===== verification/BootSample.thy ===== *)
theory BootSample
  imports BootFlaky KernelSample
begin

text \<open>
  The machine of \<open>BootFlaky\<close> with the kernel of \<open>KernelSample\<close> installed, alone (\<open>disk0\<close>) or with a second copy of it on trial (\<open>disk1\<close>):
  the hypotheses of the theorems about updates hold there.
\<close>

subsection \<open>An installed image\<close>

definition img0 :: boot_slot_image where "img0 = installer_image kernel0"
definition m0 :: boot_slot_manager where "m0 = initial_manager layout6 img0"

text \<open>Sector \<open>k\<close> of the partition is sector \<open>k + 1\<close> of the disk.\<close>

definition disk_with :: "(nat \<Rightarrow> u8 list) \<Rightarrow> flaky" where
  "disk_with C = \<lparr>fk_data = (\<lambda>k. if k = 0 then replicate 512 0 else C (k - 1)), fk_old = (\<lambda>_. []), fk_script = [], fk_free = load_window\<rparr>"

definition disk0 :: flaky where
  "disk0 = disk_with (\<lambda>k. if k = 0 then store_encode_header layout6 0 img0 else if k = 1 then sector_of kernel0 0
     else if k = 4 then bs_record_encode m0 1 else if k = 5 then bs_record_encode m0 2 else replicate 512 0)"

lemma layout6_values:
  "at2 (ly_slots layout6) 0 = \<lparr>rg_header_lba = 0, rg_payload_lba = 1, rg_payload_capacity_sectors = 1\<rparr>"
  "at2 (ly_slots layout6) 1 = \<lparr>rg_header_lba = 2, rg_payload_lba = 3, rg_payload_capacity_sectors = 1\<rparr>"
  "copy_lba layout6 0 = 4" "copy_lba layout6 1 = 5"
  by code_simp+

lemma kernel0_sectors: "sector_count 112 = 1"
  by (simp add: sector_count_def)

lemma img0_eq: "img0 = \<lparr>im_version = CAPYOS_VERSION_FULL @ replicate 25 0, im_payload_size = 112, im_payload_sha256 = digest0\<rparr>"
  by (simp add: img0_def installer_image_def hash_is_ref kernel0_digest kernel0_length CAPYOS_VERSION_FULL_def)

lemma img0_valid: "bs_image_valid img0 1"
  unfolding img0_eq by code_simp

lemma img0_version: "store_version_valid (im_version img0)"
  unfolding img0_eq by code_simp

lemma img0_wf: "image_wf img0" "version_padded (im_version img0)"
  unfolding img0_def by (rule installer_image_wf)+

lemma disk_with_left: "flaky_left (disk_with C) (1 + k) = {C k}" "fk_data (disk_with C) (1 + k) = C k"
  by (simp_all add: flaky_left_def disk_with_def)

lemma disk_with_ok: "(\<And>k. length (C k) = 512) \<Longrightarrow> flaky_ok (disk_with C)" "flaky_calm (disk_with C)" "fk_free (disk_with C) = load_window"
  by (simp_all add: flaky_ok_def disk_with_def BOOT_SLOT_STORE_SECTOR_SIZE_def flaky_calm_def)

lemma installed0:
  assumes "x < 2" and "C (unat (rg_header_lba (at2 (ly_slots layout6) x))) = store_encode_header layout6 x img0"
    and "C (unat (rg_payload_lba (at2 (ly_slots layout6) x))) = sector_of kernel0 0"
  shows "installed_as layout6 (\<lambda>k. {C k}) x img0 kernel0"
  using assms by (auto simp: installed_as_def img0_eq kernel0_length kernel0_digest kernel0_sectors layout6_values lt_two)

lemma m0_good:
  assumes "installed_as layout6 L 0 img0 kernel0"
  shows "good layout6 {(fallback m0, kernel0)} L m0" and "image_of (slot_at m0 0) = img0"
  using initial_good [OF layout6(1) _ img0_wf assms] img0_valid by (simp_all add: m0_def layout6_values)

subsection \<open>Sound disks\<close>

lemma part_of_disk: "part_content flaky_left 1 (p, disk_with C) = (\<lambda>k. {C k})" "part_content fk_data 1 (p, disk_with C) = C"
  by (simp_all add: part_content_def disk_with_left fun_eq_iff del: One_nat_def)

lemma disk_machine:
  assumes "\<And>k. length (C k) = 512" and "C 4 = bs_record_encode m g" and "owns 0 g" and "good layout6 K (\<lambda>k. {C k}) m"
    and "C 5 = bs_record_encode m' g'" and "owns 1 g'" and "good layout6 K (\<lambda>k. {C k}) m'"
  shows "machine_ok flaky_ok fk_data flaky_left (flaky_dev 8) 1 layout6 K (memory_start l, provider_start, disk_with C)"
    and "usable layout6 (C 4) = Some (m, g)" and "usable layout6 (C 5) = Some (m', g')"
proof -
  show u: "usable layout6 (C 4) = Some (m, g)" "usable layout6 (C 5) = Some (m', g')"
    using usable_encoded [of layout6 m g] usable_encoded [of layout6 m' g'] assms by (simp_all add: good_def owns_def)
  then have "sound layout6 K (\<lambda>k. {C k})" using assms(3,4,6,7) by (simp add: sound_def layout6_values)
  then show "machine_ok flaky_ok fk_data flaky_left (flaky_dev 8) 1 layout6 K (memory_start l, provider_start, disk_with C)"
    by (simp add: machine_ok_def part_valid_def part_of_disk start_not_ready disk_with_ok(1) assms(1) lease_ok_def provider_start_def)
qed

lemma disk0_machine: "machine_ok flaky_ok fk_data flaky_left (flaky_dev 8) 1 layout6 {(fallback m0, kernel0)} (memory_start l, provider_start, disk0)"
    and disk0_young: "young layout6 (part_content fk_data 1 (p, disk0))"
proof -
  define C where "C = (\<lambda>k::nat. if k = 0 then store_encode_header layout6 0 img0 else if k = 1 then sector_of kernel0 0
     else if k = 4 then bs_record_encode m0 1 else if k = 5 then bs_record_encode m0 2 else replicate 512 0)"
  have d: "disk0 = disk_with C" by (simp add: disk0_def C_def)
  have len: "\<And>k. length (C k) = 512" by (simp add: C_def record_encode_length BOOT_SLOT_STORE_SECTOR_SIZE_def)
  have "installed_as layout6 (\<lambda>k. {C k}) 0 img0 kernel0" by (rule installed0) (simp_all add: layout6_values C_def)
  note g = m0_good(1) [OF this]
  note M = disk_machine [OF len _ owns_first(1) g _ owns_first(2) g]
  show "machine_ok flaky_ok fk_data flaky_left (flaky_dev 8) 1 layout6 {(fallback m0, kernel0)} (memory_start l, provider_start, disk0)"
    unfolding d by (rule M(1)) (simp_all add: C_def)
  have "usable layout6 (C 4) = Some (m0, 1)" "usable layout6 (C 5) = Some (m0, 2)" using M(2,3) by (simp_all add: C_def)
  then show "young layout6 (part_content fk_data 1 (p, disk0))" by (simp add: young_def d part_of_disk layout6_values UINT64_MAX_def)
qed

lemma kernel0_fits:
  assumes "g_kernel_reserved_pages km = 0" and "load_window \<subseteq> fk_free d"
  shows "kernel_fits load_window fk_free kernel0 km d"
proof -
  have "plan_window plan0 \<subseteq> load_window"
    by (auto simp: plan_window_def plan0_def load_window_def window_def KERNEL_FIXED_RESERVE_BASE_def KERNEL_FIXED_RESERVE_BYTES_def)
  then show ?thesis using assms kernel0_plan by (auto simp: kernel_fits_def loadable_def)
qed

subsection \<open>An image on trial\<close>

definition m1 :: boot_slot_manager where "m1 = published_manager 1 img0 m0"
definition m2 :: boot_slot_manager where "m2 = on_trial 1 m1"

definition disk1 :: flaky where
  "disk1 = disk_with (\<lambda>k. if k = 0 then store_encode_header layout6 0 img0 else if k = 1 then sector_of kernel0 0
     else if k = 2 then store_encode_header layout6 1 img0 else if k = 3 then sector_of kernel0 0
     else if k = 4 then bs_record_encode m1 3 else if k = 5 then bs_record_encode m2 4 else replicate 512 0)"

lemma m0_facts: "mg_confirmed_slot m0 = 0" "mg_pending_slot m0 = BOOT_SLOT_NONE" "sl_payload_capacity_sectors (slot_at m0 1) = 1"
  by (simp_all add: m0_def initial_manager_def Let_def upd_slot_def at2_set2 bs_slot_apply_image_def bs_manager_defaults_def slot_zero_def layout6_values)

lemma m1_facts: "mg_confirmed_slot m1 = 0" "mg_pending_slot m1 = BOOT_SLOT_NONE" "sl_state (slot_at m1 1) = BOOT_SLOT_VALID"
  using m0_facts by (simp_all add: m1_def published_manager_def upd_slot_def at2_set2 bs_slot_apply_image_def)

lemma m2_facts: "mg_confirmed_slot m2 = 0" "mg_pending_slot m2 = 1" "mg_tries_remaining m2 = 1" "fallback m2 = fallback m1"
  using m1_facts by (simp_all add: m2_def on_trial_def upd_slot_def at2_set2 BOOT_SLOT_DEFAULT_TRIES_def fallback_def slot_image_def slot_region_def)

lemma trial_good:
  assumes "installed_as layout6 L 0 img0 kernel0" and "installed layout6 L 1 img0"
  shows "good layout6 {(fallback m0, kernel0)} L m1" and "good layout6 {(fallback m0, kernel0)} L m2"
proof -
  show g: "good layout6 {(fallback m0, kernel0)} L m1"
    unfolding m1_def by (rule published_good(1) [OF m0_good(1) [OF assms(1)] _ _ _ _ img0_wf(1) img0_version assms(2)]) (simp_all add: m0_facts img0_valid)
  show "good layout6 {(fallback m0, kernel0)} L m2"
  proof (rule good_step [OF _ g])
    show "ab_step m1 m2" unfolding m2_def by (rule ab_step.trial) (simp_all add: m1_facts)
    show "\<forall>x img. m2 \<noteq> published_manager x img m1" using m2_facts(2) m1_facts(2) by (metis none_not_slot(2) lt_two published_pending)
    show "backed layout6 {(fallback m0, kernel0)} L m2" using g backed_cong [OF m2_facts(4)] by (simp add: good_def)
  qed
qed

lemma owns_later: "owns 0 3" "owns 1 4"
  by (simp_all add: owns_def)

lemma disk1_machine: "machine_ok flaky_ok fk_data flaky_left (flaky_dev 8) 1 layout6 {(fallback m0, kernel0)} (memory_start l, provider_start, disk1)"
    and disk1_young: "young layout6 (part_content fk_data 1 (p, disk1))"
    and disk1_records: "usable layout6 (part_content fk_data 1 (p, disk1) 4) = Some (m1, 3)" "usable layout6 (part_content fk_data 1 (p, disk1) 5) = Some (m2, 4)"
proof -
  define C where "C = (\<lambda>k::nat. if k = 0 then store_encode_header layout6 0 img0 else if k = 1 then sector_of kernel0 0
     else if k = 2 then store_encode_header layout6 1 img0 else if k = 3 then sector_of kernel0 0
     else if k = 4 then bs_record_encode m1 3 else if k = 5 then bs_record_encode m2 4 else replicate 512 0)"
  have d: "disk1 = disk_with C" by (simp add: disk1_def C_def)
  have len: "\<And>k. length (C k) = 512" by (simp add: C_def record_encode_length BOOT_SLOT_STORE_SECTOR_SIZE_def)
  have "installed_as layout6 (\<lambda>k. {C k}) 0 img0 kernel0" by (rule installed0) (simp_all add: layout6_values C_def)
  moreover have "installed_as layout6 (\<lambda>k. {C k}) 1 img0 kernel0" by (rule installed0) (simp_all add: layout6_values C_def)
  then have "installed layout6 (\<lambda>k. {C k}) 1 img0" by (auto simp: installed_def)
  ultimately have g: "good layout6 {(fallback m0, kernel0)} (\<lambda>k. {C k}) m1" "good layout6 {(fallback m0, kernel0)} (\<lambda>k. {C k}) m2" by (rule trial_good)+
  note M = disk_machine [OF len _ owns_later(1) g(1) _ owns_later(2) g(2)]
  show "machine_ok flaky_ok fk_data flaky_left (flaky_dev 8) 1 layout6 {(fallback m0, kernel0)} (memory_start l, provider_start, disk1)"
    unfolding d by (rule M(1)) (simp_all add: C_def)
  have u: "usable layout6 (C 4) = Some (m1, 3)" "usable layout6 (C 5) = Some (m2, 4)" using M(2,3) by (simp_all add: C_def)
  then show "usable layout6 (part_content fk_data 1 (p, disk1) 4) = Some (m1, 3)" "usable layout6 (part_content fk_data 1 (p, disk1) 5) = Some (m2, 4)"
    by (simp_all add: d part_of_disk)
  show "young layout6 (part_content fk_data 1 (p, disk1))" using u by (simp add: young_def d part_of_disk layout6_values UINT64_MAX_def)
qed

end
