(* ===== verification/BootUpdate.thy ===== *)
theory BootUpdate
  imports BootSample
begin

text \<open>
  The theorems about boot and update, over the definitions of the boot theories: what the medium keeps through updates, failures and power
  cuts, that the machine starts, what it starts, how often it tries a new image. The firmware and the disk are parameters; what the theorems
  assume of them are the contracts of the locales, met by the machine of \<open>BootFlaky\<close>, on which each theorem is tried.
\<close>

abbreviation loader_io :: "'d EFI_BLOCK_IO_PROTOCOL \<Rightarrow> u32 \<Rightarrow> u32 \<Rightarrow> boot_slot_layout \<Rightarrow> ('d \<Rightarrow> u64) \<Rightarrow> 'd sector_io" where
  "loader_io bio media base layout at \<equiv> uefi_io (partition_ctx bio media base layout) at"

lemma content_at: "part_content f base (p, d) = (\<lambda>k. f d (unat base + k))"
  by (simp add: part_content_def fun_eq_iff)

subsection \<open>Updates do not lose the confirmed kernel\<close>

context boot_machine
begin

lemma after_power_cut:
  assumes "good_machine K (s, c)" and "(machine_step False (loader_io bio media base layout at) raw base layout (power_cycle ok data left))\<^sup>*\<^sup>* (s, c) (s1, p1, d1)"
    and "power_cycle ok data left d1 d"
  shows "good_machine K (memory_start loader, provider_start, d)"
proof -
  have "good_machine K (s1, p1, d1)" by (rule part.run_ok [OF assms(2,1)]) simp
  then show ?thesis by (rule part.step_ok [OF machine_step.power_failure [where confirms = False and power = "power_cycle ok data left", OF assms(3)]]) simp
qed

lemma confirmed_bytes:
  assumes "good_machine {(fallback m, kern)} (memory_start loader, p, d)" and "\<And>k. left d k = {data d k}" and "i \<in> {0, 1}"
  shows "\<exists>m' g. bs_record_decode (data d (unat base + copy_lba layout i)) = Some (m', g) \<and> boot_slot_manager_validate m' \<and> fallback m' = fallback m \<and>
    data d (unat base + unat (rg_header_lba (at2 (ly_slots layout) (mg_confirmed_slot m')))) =
      store_encode_header layout (mg_confirmed_slot m') (image_of (slot_at m' (mg_confirmed_slot m'))) \<and>
    concat (map (\<lambda>j. data d (unat base + unat (rg_payload_lba (at2 (ly_slots layout) (mg_confirmed_slot m'))) + j)) [0..<sector_count (length kern)]) =
      kern @ replicate (512 * sector_count (length kern) - length kern) 0 \<and>
    sha256_ref kern = sl_payload_sha256 (slot_at m' (mg_confirmed_slot m'))"
proof -
  have sd: "sound layout {(fallback m, kern)} (part_content left base (p, d))" using machine_okD(3) [OF assms(1)] start_not_ready by simp
  have r: "data d (unat base + copy_lba layout i) \<in> part_content left base (p, d) (copy_lba layout i)" using assms(2) by (simp add: part_content_def)
  obtain m' g where u: "usable layout (data d (unat base + copy_lba layout i)) = Some (m', g)" and gd: "good layout {(fallback m, kern)} (part_content left base (p, d)) m'"
    using sd assms(3) r unfolding sound_def by blast
  have dec: "bs_record_decode (data d (unat base + copy_lba layout i)) = Some (m', g)" using u by (auto simp: usable_def split: option.splits prod.splits if_splits)
  have v: "boot_slot_manager_validate m'" "fallback m' = fallback m"
    and i: "installed_as layout (\<lambda>k. left d (unat base + k)) (mg_confirmed_slot m') (image_of (slot_at m' (mg_confirmed_slot m'))) kern"
    using gd by (auto simp: good_def manager_ok_def backed_def part.part_content_pair)
  have x: "mg_confirmed_slot m' < 2" using v(1) by (simp add: validate_iff)
  have ne: "sl_state (slot_at m' (mg_confirmed_slot m')) \<noteq> BOOT_SLOT_EMPTY" using v(1) by (auto simp: validate_iff settled_def trying_def)
  note reg = good_slot(3) [OF gd x ne]
  have "ok d" using machine_okD(1) [OF assms(1)] by (simp add: part_valid_def)
  note P = payload_sectors [OF this reg x i refl]
  have pl: "sl_payload_lba (slot_at m' (mg_confirmed_slot m')) = rg_payload_lba (at2 (ly_slots layout) (mg_confirmed_slot m'))" by (simp add: reg [symmetric] slot_region_def)
  have h: "data d (unat base + unat (rg_header_lba (at2 (ly_slots layout) (mg_confirmed_slot m')))) =
      store_encode_header layout (mg_confirmed_slot m') (image_of (slot_at m' (mg_confirmed_slot m')))"
    using i assms(2) by (simp add: installed_as_def)
  have "sha256_ref kern = sl_payload_sha256 (slot_at m' (mg_confirmed_slot m'))" using i by (simp add: installed_as_def image_of_def)
  then show ?thesis using dec v h P(1) [unfolded P(4) [symmetric] pl] by blast
qed

end

text \<open>
  C9. The bytes of the confirmed kernel survive. A machine whose confirmed slot holds the kernel \<open>kern\<close> takes any number of steps without a confirmation
  (starts, staging and arming of updates, selections, rollbacks, with device calls that fail at any point, and power cuts) and then loses power,
  which may bring back what any sector held since its last flush. Both copies of the control record still decode to a valid manager with the same
  confirmed slot and image; the header of that slot is on the disk, the sectors of its payload are the bytes of \<open>kern\<close>, padded with zeros, and
  \<open>kern\<close> has the digest in the record.
\<close>

theorem confirmed_kernel_survives:
  assumes "boot_machine raw ok data left bio base layout svc"
    and "machine_ok ok data left raw base layout {(fallback m, kern)} (s, c)"
    and "(machine_step False (loader_io bio media base layout at) raw base layout (power_cycle ok data left))\<^sup>*\<^sup>* (s, c) (s1, p1, d1)"
    and "power_cycle ok data left d1 d" and "i \<in> {0, 1}"
  shows "\<exists>m' g. bs_record_decode (data d (unat base + copy_lba layout i)) = Some (m', g) \<and> boot_slot_manager_validate m' \<and> fallback m' = fallback m \<and>
    data d (unat base + unat (rg_header_lba (at2 (ly_slots layout) (mg_confirmed_slot m')))) =
      store_encode_header layout (mg_confirmed_slot m') (image_of (slot_at m' (mg_confirmed_slot m'))) \<and>
    concat (map (\<lambda>j. data d (unat base + unat (rg_payload_lba (at2 (ly_slots layout) (mg_confirmed_slot m'))) + j)) [0..<sector_count (length kern)]) =
      kern @ replicate (512 * sector_count (length kern) - length kern) 0 \<and>
    sha256_ref kern = sl_payload_sha256 (slot_at m' (mg_confirmed_slot m'))"
  by (rule boot_machine.confirmed_bytes [OF assms(1) boot_machine.after_power_cut [OF assms(1-4), of True] _ assms(5)])
    (use assms(4) in \<open>simp add: power_cycle_def\<close>)

lemma disk_cycle: "flaky_ok (disk_with C) \<Longrightarrow> power_cycle flaky_ok fk_data flaky_left (disk_with C) (disk_with C)"
  by (simp add: power_cycle_def flaky_left_def disk_with_def)

lemma disk0_cycle: "power_cycle flaky_ok fk_data flaky_left disk0 disk0"
  using disk_cycle machine_okD(1) [OF disk0_machine] by (simp add: part_valid_def disk0_def)

text \<open>A power cut of the machine with one installed image.\<close>

lemma disk0_run:
  "(machine_step False (loader_io (flaky_bio 8) 7 1 layout6 (\<lambda>_. 0x2000)) (flaky_dev 8) 1 layout6 (power_cycle flaky_ok fk_data flaky_left))\<^sup>*\<^sup>*
     (memory_start False, provider_start, disk0) (memory_start True, provider_start, disk0)"
  by (rule r_into_rtranclp) (rule machine_step.power_failure, rule disk0_cycle)

theorem confirmed_kernel_survives_witness:
  "\<exists>m' g. bs_record_decode (fk_data disk0 5) = Some (m', g) \<and> mg_confirmed_slot m' = 0 \<and>
     fk_data disk0 1 = store_encode_header layout6 0 (image_of (slot_at m' 0)) \<and> fk_data disk0 2 = kernel0 @ replicate 400 0 \<and>
     sl_payload_sha256 (slot_at m' 0) = digest0"
proof -
  have "fallback m' = fallback m0 \<Longrightarrow> mg_confirmed_slot m' = 0" for m' by (simp add: fallback_def m0_facts)
  then show ?thesis
    using confirmed_kernel_survives [OF flaky_memory.boot_machine_axioms disk0_machine disk0_run disk0_cycle, of 0]
    by (auto simp: layout6_values kernel0_length kernel0_sectors kernel0_digest numeral_2_eq_2)
qed

subsection \<open>The machine starts\<close>


definition km0 :: kernel_memory where
  "km0 = \<lparr>km_ram = (\<lambda>_. 0), g_kernel_reserved_base = 0, g_kernel_reserved_pages = 0\<rparr>"


subsection \<open>What is started\<close>


definition identity0 :: boot_disk_identity where
  "identity0 = \<lparr>di_flags = BOOT_HANDOFF_DISK_IDENTITY_VALID, di_reserved = 0, di_esp_lba_start = 0, di_esp_lba_count = 1, di_boot_lba_start = 1, di_boot_lba_count = 6,
     di_data_lba_start = 7, di_data_lba_count = 1, di_disk_guid = replicate 16 1, di_esp_partition_guid = replicate 16 2,
     di_boot_partition_guid = replicate 16 3, di_data_partition_guid = replicate 16 4\<rparr>"


subsection \<open>One try\<close>

lemma current_young:
  assumes "current layout C b" and "bp_active_copy (bsp b) < 2" and "bp_generation (bsp b) < UINT64_MAX - 1"
  shows "young layout C"
proof -
  obtain m g where o: "usable layout (C (copy_lba layout (bp_active_copy (bsp b) XOR 1))) = Some (m, g)" "g < bp_generation (bsp b)"
    and a: "usable layout (C (copy_lba layout (bp_active_copy (bsp b)))) = Some (bsm b, bp_generation (bsp b))" using assms(1) by (auto simp: current_def)
  have "g < UINT64_MAX - 1" using o(2) assms(3) by (rule less_trans)
  then show ?thesis using o(1) a assms(2,3) by (auto simp: young_def lt_two)
qed

context boot_machine
begin

lemma bound_from_start:
  assumes "ab_store_bind ctx at store (memory_start True) c = (True, s', c')" and "good_machine K (memory_start True, c)"
  shows "boot_slot_store_bind_control (machine_io (loader_io bio media base layout at)) store 0 (opened layout store) c = (0, s', c') \<and>
    good_machine K (opened layout store, c)"
proof -
  have plan: "boot_slot_layout_plan (ctx_boot_sectors ctx) = Some layout" using machine_plan by (simp add: partition_ctx_def)
  obtain rc1 b where i: "boot_slot_init (st_boot (memory_start True)) = (rc1, b)" by fastforce
  obtain rc2 s2 where op: "boot_slot_store_init store layout (Some 0) ((memory_start True)\<lparr>st_boot := b\<rparr>) = (rc2, s2)" by fastforce
  note O = fresh_open [OF machine_plan i op]
  have sd: "sound layout K (part_content left base c)" using machine_okD(3) [OF assms(2)] start_not_ready by simp
  have "attached layout (opened layout store)" by (simp add: attached_def opened_def memory_start_def binding_zero_def registration_zero_def store_zeroed_def)
  moreover have "kept layout K (part_content left base c) (part_content data base c) (st_boot (opened layout store))"
    using sd by (simp add: kept_def ram_ok_def ready_iff opened_def bsp_zero_def)
  ultimately have "good_machine K (opened layout store, c)" using machine_okD(1) [OF assms(2)] by (simp add: machine_ok_def)
  moreover have "boot_slot_store_bind_control (machine_io (loader_io bio media base layout at)) store 0 (opened layout store) c = (0, s', c')"
    using assms(1) O by (auto simp: ab_store_bind_def Let_def plan i op split: prod.splits)
  ultimately show ?thesis by blast
qed

lemma tried_once:
  assumes "good_machine K (s, p, d)" and "ab_select ctx at (s, (p, d), km) = ((1, slot, g), s1, (p1, d1), km1)" and "power_cycle ok data left d1 d2"
    and "ab_store_bind ctx at store (memory_start True) (provider_start, d2) = (True, s3, c3)" and "ab_select ctx at (s3, c3, km2) = ((rc, slot', g'), s4, c4, km4)"
  shows "rc < 0 \<or> rc = 2 \<and> slot' = mg_confirmed_slot (bsm (st_boot s)) \<and> slot' \<noteq> slot \<and> mg_pending_slot (bsm (st_boot s4)) = BOOT_SLOT_NONE \<and>
    sl_state (slot_at (bsm (st_boot s4)) slot) = BOOT_SLOT_FAILED"
proof -
  have se: "on_boot (boot_slot_select_for_boot (bound_io (machine_io (uefi_io ctx at)) s)) s (p, d) = ((1, slot, g), s1, p1, d1)"
    using assms(2) by (auto simp: ab_select_def split: prod.splits)
  note S = part.medium.select_op [OF se machine_okD [OF assms(1)]]
  have g1: "good_machine K (s1, p1, d1)" using S unfolding machine_ok_def fst_conv snd_conv by blast
  have m1: "boot_slot_internal_persistence_ready_locked (st_boot s1)" "bsm (st_boot s1) = spend_attempt (bsm (st_boot s))" "slot = mg_pending_slot (bsm (st_boot s))"
    "mg_tries_remaining (bsm (st_boot s)) = 1" "slot < 2" "flushed layout (part_content left base (p1, d1)) (part_content data base (p1, d1))"
    using S [simplified] by blast+
  have rdy: "boot_slot_internal_persistence_ready_locked (st_boot s)"
    using se by (auto simp: on_boot_def boot_slot_select_for_boot_def guarded_def boot_slot_internal_select_locked_def BOOT_SLOT_ERR_BUSY_def BOOT_SLOT_ERR_IO_def
        boot_slot_internal_operation_begin_def ready_iff split: if_splits prod.splits)
  have v: "boot_slot_manager_validate (bsm (st_boot s))" using keptD(3) [OF machine_okD(3) [OF assms(1)] rdy] by (simp add: good_def manager_ok_def)
  have gs: "good_machine K (memory_start True, provider_start, d2)"
    by (rule after_power_cut [OF g1 rtranclp.rtrancl_refl assms(3)])
  note B = bound_from_start [OF assms(4) gs]
  have bm: "bsm (st_boot s3) = spend_attempt (bsm (st_boot s))"
    using part.bind_after_power_failure [OF g1 m1(1,6) assms(3) conjunct2 [OF B] refl conjunct1 [OF B]] m1(2) by simp
  have g3: "good_machine K (s3, c3)" using bind_step [OF assms(4) gs] by blast
  have p3: "mg_pending_slot (bsm (st_boot s3)) = slot" "mg_tries_remaining (bsm (st_boot s3)) = 0" "mg_confirmed_slot (bsm (st_boot s3)) = mg_confirmed_slot (bsm (st_boot s))"
    using spend_valid(3-5) [OF v] m1(3-5) none_not_slot(2) [OF m1(5)] bm by simp_all
  note T = select_step [OF assms(5) g3]
  obtain r where "on_boot (boot_slot_select_for_boot (bound_io (machine_io (uefi_io ctx at)) s3)) s3 c3 = ((rc, slot', g'), r)"
    using assms(5) by (auto simp: ab_select_def split: prod.splits)
  then have "rc < 0 \<or> rc = 0 \<or> rc = 1 \<or> rc = 2" using select_codes by (metis prod.exhaust)
  then have rc: "rc < 0 \<or> rc = 2" using T p3 none_not_slot(2) [OF m1(5)] by auto
  have v3: "boot_slot_manager_validate (bsm (st_boot s3))" using bm spend_valid(1) [OF v] m1(3-5) none_not_slot(2) [OF m1(5)] by simp
  have np: "mg_pending_slot (bsm (st_boot s3)) \<noteq> BOOT_SLOT_NONE" using p3(1) m1(5) by auto
  have "mg_confirmed_slot (bsm (st_boot s3)) \<noteq> slot" using trying_pending(2) [OF v3 np] p3(1) by auto
  then show ?thesis using rc T p3 rollback_valid [OF v3 np] by auto
qed

end

text \<open>
  C22. A new image is tried once. When the loader has selected a slot for its trial, and the machine then loses power without a confirmation, the next
  binding of the control records and selection never choose that slot again: the selection fails, or it rolls back, choosing the confirmed slot,
  clearing the trial and recording the tried slot as failed.
\<close>

theorem trial_is_tried_once:
  assumes "boot_machine raw ok data left bio base layout svc" and "machine_ok ok data left raw base layout K (s, p, d)"
    and "ab_select (partition_ctx bio media base layout) at (s, (p, d), km) = ((1, slot, g), s1, (p1, d1), km1)" and "power_cycle ok data left d1 d2"
    and "ab_store_bind (partition_ctx bio media base layout) at store (memory_start True) (provider_start, d2) = (True, s3, c3)"
    and "ab_select (partition_ctx bio media base layout) at (s3, c3, km2) = ((rc, slot', g'), s4, c4, km4)"
  shows "rc < 0 \<or> rc = 2 \<and> slot' = mg_confirmed_slot (bsm (st_boot s)) \<and> slot' \<noteq> slot \<and> mg_pending_slot (bsm (st_boot s4)) = BOOT_SLOT_NONE \<and>
    sl_state (slot_at (bsm (st_boot s4)) slot) = BOOT_SLOT_FAILED"
  by (rule boot_machine.tried_once [OF assms])

text \<open>The machine with an image on trial: it is bound, selects slot 1, loses power, is bound again.\<close>

abbreviation "ctx8 \<equiv> partition_ctx (flaky_bio 8) 7 1 layout6"
abbreviation "at8 \<equiv> \<lambda>_ :: flaky. 0x2000 :: u64"

lemma disk1_bound:
  assumes "ab_store_bind ctx8 at8 0 (memory_start True) (provider_start, disk1) = (bound, s, c)"
  shows "bound \<and> flaky_memory.good_machine {(fallback m0, kernel0)} (s, c) \<and> loader_bound layout6 0 s \<and> flaky_calm (snd c) \<and> load_window \<subseteq> fk_free (snd c) \<and>
    bsm (st_boot s) = m2 \<and> bp_generation (bsp (st_boot s)) = 4"
proof -
  have st: "flaky_calm (snd (provider_start, disk1))" by (simp add: disk1_def disk_with_ok)
  note B = flaky_machine.bind_starts [OF assms disk1_machine st disk1_young]
  have g: "flaky_memory.good_machine {(fallback m0, kernel0)} (s, c)" using flaky_memory.bind_step [OF assms disk1_machine] by blast
  have b: "ab_store_bind ctx8 at8 0 (memory_start True) (provider_start, disk1) = (True, s, c)" using assms B by simp
  note C = flaky_memory.bound_from_start [OF b disk1_machine]
  have cs: "part_content fk_data 1 c = part_content fk_data 1 (provider_start, disk1)"
    using flaky_memory.part.medium.bind_op [OF conjunct1 [OF C] machine_okD [OF conjunct2 [OF C]]] by blast
  have r: "boot_slot_internal_persistence_ready_locked (st_boot s)" using B unfolding loader_bound_def by blast
  have cu: "current layout6 (part_content fk_data 1 (provider_start, disk1)) (st_boot s)" "bp_active_copy (bsp (st_boot s)) < 2"
    using keptD(4,7) [OF machine_okD(3) [OF g] r] cs by auto
  then have "bsm (st_boot s) = m2" "bp_generation (bsp (st_boot s)) = 4" using disk1_records [of provider_start] by (auto simp: current_def layout6_values lt_two)
  moreover have "load_window \<subseteq> fk_free (snd c)" using B by (simp add: disk1_def disk_with_ok)
  ultimately show ?thesis using B g by blast
qed

lemma flaky_cut: "flaky_ok d \<Longrightarrow> power_cycle flaky_ok fk_data flaky_left d (d\<lparr>fk_old := (\<lambda>_. [])\<rparr>)"
  by (simp add: power_cycle_def flaky_left_def flaky_ok_def)

theorem trial_is_tried_once_witness:
  "\<exists>s c g s1 p1 d1 km1 s3 c3 g' s4 r. ab_store_bind ctx8 at8 0 (memory_start True) (provider_start, disk1) = (True, s, c) \<and>
     ab_select ctx8 at8 (s, c, km0) = ((1, 1, g), s1, (p1, d1), km1) \<and>
     ab_store_bind ctx8 at8 0 (memory_start True) (provider_start, d1\<lparr>fk_old := (\<lambda>_. [])\<rparr>) = (True, s3, c3) \<and>
     ab_select ctx8 at8 (s3, c3, km0) = ((2, 0, g'), s4, r) \<and> sl_state (slot_at (bsm (st_boot s4)) 1) = BOOT_SLOT_FAILED"
proof -
  obtain bound s p d where bi: "ab_store_bind ctx8 at8 0 (memory_start True) (provider_start, disk1) = (bound, s, p, d)" by (metis prod_cases4)
  note B = disk1_bound [OF bi, unfolded snd_conv]
  have k0: "kernel_fits load_window fk_free kernel0 km0 e" if "load_window \<subseteq> fk_free e" for e using kernel0_fits [OF _ that] by (simp add: km0_def)
  obtain rc slot g s1 p1 d1 km1 where se: "ab_select ctx8 at8 (s, (p, d), km0) = ((rc, slot, g), s1, (p1, d1), km1)" by (metis prod.exhaust)
  have gm: "flaky_memory.good_machine {(fallback m0, kernel0)} (s, p, d)" and lb: "loader_bound layout6 0 s" and cm: "flaky_calm (snd (p, d))"
    and ge: "bp_generation (bsp (st_boot s)) \<noteq> UINT64_MAX" and kf: "kernel_fits load_window fk_free kernel0 km0 (snd (p, d))"
    using B k0 by (auto simp: UINT64_MAX_def)
  note S = flaky_machine.select_starts [OF se gm lb cm ge kf]
  have rc: "rc = 1" "slot = 1" using S flaky_memory.select_step [OF se gm] B m2_facts none_not_slot by (auto simp: BOOT_SLOT_NONE_def)
  let ?d2 = "d1\<lparr>fk_old := (\<lambda>_. [])\<rparr>"
  have g1: "flaky_memory.good_machine {(fallback m0, kernel0)} (s1, p1, d1)" using S by blast
  have "flaky_ok d1" using machine_okD(1) [OF g1] by (simp add: part_valid_def)
  note cut = flaky_cut [OF this]
  have g2: "flaky_memory.good_machine {(fallback m0, kernel0)} (memory_start True, provider_start, ?d2)"
    by (rule flaky_memory.after_power_cut [OF g1 rtranclp.rtrancl_refl cut])
  have l1: "boot_slot_internal_persistence_ready_locked (st_boot s1)" using S unfolding loader_bound_def by blast
  have "bp_generation (bsp (st_boot s1)) < UINT64_MAX - 1" using S B by (auto simp: UINT64_MAX_def)
  then have y: "young layout6 (part_content fk_data 1 (provider_start, ?d2))"
    using current_young [of layout6 "part_content fk_data 1 (p1, d1)" "st_boot s1"] keptD(4,7) [OF machine_okD(3) [OF g1] l1] by (simp add: content_at)
  have c2: "flaky_calm (snd (provider_start, ?d2))" and f2: "kernel_fits load_window fk_free kernel0 km0 ?d2"
    using S by (simp_all add: flaky_calm_def kernel_fits_def loadable_def)
  obtain bound3 s3 c3 where b3: "ab_store_bind ctx8 at8 0 (memory_start True) (provider_start, ?d2) = (bound3, s3, c3)" by (metis prod_cases3)
  note B3 = flaky_machine.bind_starts [OF b3 g2 c2 y]
  have g3: "flaky_memory.good_machine {(fallback m0, kernel0)} (s3, c3)" using flaky_memory.bind_step [OF b3 g2] by blast
  obtain rc' slot' g' s4 c4 km4 where s4: "ab_select ctx8 at8 (s3, c3, km0) = ((rc', slot', g'), s4, c4, km4)" by (metis prod.exhaust)
  have "rc' \<in> {0, 1, 2}"
    using flaky_machine.select_starts [OF s4 g3] B3 young_next kernel_fits_mono [where free = fk_free, OF f2] by auto
  moreover have b3': "ab_store_bind ctx8 at8 0 (memory_start True) (provider_start, ?d2) = (True, s3, c3)" using b3 B3 by simp
  from trial_is_tried_once [OF flaky_memory.boot_machine_axioms gm se [unfolded rc] cut this s4]
  have "rc' < 0 \<or> rc' = 2 \<and> slot' = mg_confirmed_slot (bsm (st_boot s)) \<and> sl_state (slot_at (bsm (st_boot s4)) 1) = BOOT_SLOT_FAILED" by blast
  ultimately have e: "rc' = 2" "slot' = 0" and f: "sl_state (slot_at (bsm (st_boot s4)) 1) = BOOT_SLOT_FAILED" using B m2_facts by auto
  have b: "ab_store_bind ctx8 at8 0 (memory_start True) (provider_start, disk1) = (True, s, p, d)" using bi B by simp
  show ?thesis by (intro exI conjI) (rule b, rule se [unfolded rc], rule b3', rule s4 [unfolded e], rule f)
qed

subsection \<open>Records\<close>

text \<open>
  C24. What a control record decodes to is well formed. A sector that \<open>bs_record_decode\<close> accepts, whatever its bytes, gives a manager whose two slots have
  the names of their positions, versions padded to their field and digests of 32 bytes, whose slot numbers are 0 or 1 (or none), that passes the
  consistency check, with a generation that is not 0; and encoding it again gives a record of one sector that decodes to the same manager.
\<close>

theorem decoded_record_well_formed:
  assumes "length r = BOOT_SLOT_PERSIST_RECORD_SIZE" and "bs_record_decode r = Some (m, g)"
  shows "manager_wf m \<and> boot_slot_manager_validate m \<and> g \<noteq> 0 \<and> mg_active_slot m < 2 \<and> mg_next_slot m < 2 \<and> mg_confirmed_slot m < 2 \<and>
    mg_pending_slot m \<in> {BOOT_SLOT_NONE, 0, 1} \<and> mg_tries_remaining m \<le> 1 \<and>
    length (bs_record_encode m g) = BOOT_SLOT_PERSIST_RECORD_SIZE \<and> bs_record_decode (bs_record_encode m g) = Some (m, g)"
proof -
  have "length r = 512" using assms(1) by (simp add: BOOT_SLOT_PERSIST_RECORD_SIZE_def)
  note D = decode_ok [OF assms(2) this]
  have "mg_pending_slot m \<in> {BOOT_SLOT_NONE, 0, 1}" "mg_active_slot m < 2" "mg_next_slot m < 2" "mg_confirmed_slot m < 2" "mg_tries_remaining m \<le> 1"
    using D(1) by (auto simp: boot_slot_manager_validate_def BOOT_SLOT_COUNT_def BOOT_SLOT_MAX_TRIES_def lt_two)
  then show ?thesis using D record_roundtrip_core [OF D] by (simp add: record_encode_length BOOT_SLOT_PERSIST_RECORD_SIZE_def)
qed

lemma m0_decodes: "bs_record_decode (bs_record_encode m0 1) = Some (m0, 1)"
proof -
  have "installed_as layout6 (\<lambda>_. {}) 0 img0 kernel0" by (simp add: installed_as_def img0_eq kernel0_length kernel0_digest kernel0_sectors layout6_values)
  then show ?thesis using m0_good(1) [of "\<lambda>_. {}"] by (intro record_roundtrip_core) (simp_all add: good_def manager_ok_def)
qed

theorem decoded_record_well_formed_witness: "manager_wf m0 \<and> boot_slot_manager_validate m0 \<and> mg_confirmed_slot m0 < 2"
  using decoded_record_well_formed [OF _ m0_decodes] by (simp add: record_encode_length BOOT_SLOT_PERSIST_RECORD_SIZE_def)

text \<open>
  C21. One damaged copy. When one copy of the control record is usable and the other, though readable, is erased or does not decode for this partition, the
  binding takes the usable manager and reports a degraded mirror if nothing is on trial; if a slot is on trial it refuses, and the records
  are not used.
\<close>

theorem one_damaged_copy:
  assumes "pr_read io 0 c = (0, r 0, c)" and "pr_read io 1 c = (0, r 1, c)" and "x < 2" and "usable layout (r x) = Some (m, g)" and "usable layout (r (x XOR 1)) = None"
    and "\<not> bp_stage_claimed (bsp s)" and "boot_slot_internal_bind_allowed_locked s" and "boot_slot_layout_plan (ly_boot_sectors layout) = Some layout"
  shows "case boot_slot_internal_set_persistence_locked io layout s c of (rc, s', c') \<Rightarrow> c' = c \<and>
    (if mg_pending_slot m = BOOT_SLOT_NONE then rc = 0 \<and> bsm s' = m \<and> bp_generation (bsp s') = g \<and> bp_active_copy (bsp s') = x \<and> bp_ready (bsp s') \<and> bp_degraded (bsp s')
     else rc = BOOT_SLOT_ERR_IO \<and> \<not> bp_ready (bsp s') \<and> \<not> boot_slot_internal_persistence_ready_locked s')"
proof -
  have k: "read_copy io layout i c = (copy_state layout (r i), c)" if "i = 0 \<or> i = 1" for i
    using that assms(1,2) by (auto simp: read_copy_def copy_state_def usable_def Let_def BOOT_SLOT_PERSIST_EMPTY_def)
  have f: "\<not> (fst (copy_state layout q) \<noteq> 0 \<and> fst (copy_state layout q) \<noteq> BOOT_SLOT_PERSIST_EMPTY)" for q by (simp add: copy_state_def)
  have p: "\<not> (\<not> boot_slot_internal_bind_allowed_locked s \<or>
      (case boot_slot_layout_plan (ly_boot_sectors layout) of None \<Rightarrow> True | Some expected \<Rightarrow> \<not> bs_layout_equal layout expected))"
    using assms(7,8) by simp
  have ch: "choose_copy (copy_state layout (r 0)) (copy_state layout (r 1)) =
      (if mg_pending_slot m = BOOT_SLOT_NONE then (0, Some (m, g, x, True)) else (BOOT_SLOT_ERR_IO, None))"
    using choose_damaged [OF assms(4,5)] assms(3) by (auto simp: lt_two)
  show ?thesis
    unfolding boot_slot_internal_set_persistence_locked_def Let_def if_not_P [OF assms(6)] if_not_P [OF p] k [OF disjI1 [OF refl]] k [OF disjI2 [OF refl]] prod.case
      if_not_P [OF f] ch
    by (simp add: upd_bsp_def ready_iff BOOT_SLOT_ERR_IO_def BOOT_SLOT_PERSIST_EMPTY_def)
qed

text \<open>Copy 1 holds zeros: the record of the installed image is bound as degraded, that of the image on trial is refused.\<close>

definition copies_io :: "u8 list \<Rightarrow> unit persist_io" where
  "copies_io r = \<lparr>pr_read = (\<lambda>i c. (0, if i = 0 then r else replicate 512 0, c)), pr_write = (\<lambda>_ _ c. (0, c)), pr_flush = (\<lambda>c. (0, c))\<rparr>"

lemma zeros_unusable: "usable layout (replicate 512 0) = None"
  by (simp add: usable_def bs_record_erased_def BOOT_SLOT_PERSIST_RECORD_SIZE_def list_all_upt)

theorem one_damaged_copy_witness:
  "(case boot_slot_internal_set_persistence_locked (copies_io (bs_record_encode m0 1)) layout6 (st_boot (opened layout6 0)) () of
      (rc, s', c') \<Rightarrow> rc = 0 \<and> bsm s' = m0 \<and> bp_degraded (bsp s')) \<and>
   (case boot_slot_internal_set_persistence_locked (copies_io (bs_record_encode m2 4)) layout6 (st_boot (opened layout6 0)) () of
      (rc, s', c') \<Rightarrow> rc = BOOT_SLOT_ERR_IO \<and> \<not> boot_slot_internal_persistence_ready_locked s')"
proof -
  have i: "installed_as layout6 (\<lambda>_. {}) x img0 kernel0" if "x < 2" for x
    using that by (auto simp: installed_as_def img0_eq kernel0_length kernel0_digest kernel0_sectors layout6_values lt_two)
  have "usable layout6 (bs_record_encode m0 1) = Some (m0, 1)" using m0_good(1) [OF i] usable_encoded [of layout6 m0 1] by (simp add: good_def)
  moreover have "usable layout6 (bs_record_encode m2 4) = Some (m2, 4)"
    using trial_good(2) [of "\<lambda>_. {}"] i [of 0] i [of 1] usable_encoded [of layout6 m2 4] by (auto simp: good_def installed_def)
  moreover have "\<not> bp_stage_claimed (bsp (st_boot (opened layout6 0)))" "boot_slot_internal_bind_allowed_locked (st_boot (opened layout6 0))"
    by (simp_all add: opened_def bsp_zero_def boot_slot_internal_bind_allowed_locked_def)
  ultimately show ?thesis
    using one_damaged_copy [where io = "copies_io (bs_record_encode m0 1)" and c = "()" and r = "\<lambda>i. if i = 0 then bs_record_encode m0 1 else replicate 512 0" and x = 0 and layout = layout6 and m = m0 and g = 1 and s = "st_boot (opened layout6 0)"]
      one_damaged_copy [where io = "copies_io (bs_record_encode m2 4)" and c = "()" and r = "\<lambda>i. if i = 0 then bs_record_encode m2 4 else replicate 512 0" and x = 0 and layout = layout6 and m = m2 and g = 4 and s = "st_boot (opened layout6 0)"]
    by (auto simp: copies_io_def zeros_unusable layout6(1) m0_facts m2_facts BOOT_SLOT_NONE_def split: prod.splits)
qed

subsection \<open>The kernel in memory\<close>



subsection \<open>The partition table\<close>

definition within_disk :: "u32 \<Rightarrow> capyos_gpt_partition_identity \<Rightarrow> bool" where
  "within_disk block_count p \<longleftrightarrow> 34 \<le> unat (pi_lba p) \<and> 0 < unat (pi_sectors p) \<and> unat (pi_lba p) + unat (pi_sectors p) + 33 \<le> unat block_count"

text \<open>
  C18. Accepted partitions lie on the disk and apart. Whatever a disk of 512-byte sectors answers to the reads, when its partition table is accepted as CapyOS's, the
  three partitions lie behind the primary table and before the backup table, without wrap-around, and no two of them share a sector; no two of the
  identifiers of the disk and its partitions are equal; the size recorded is that of the disk.
\<close>

theorem accepted_partitions_in_bounds:
  "case capyos_gpt_identity_read reader block_size block_count c of (None, c') \<Rightarrow> True
   | (Some gi, c') \<Rightarrow> block_size = 512 \<and> gi_disk_sectors gi = block_count \<and>
       within_disk block_count (gi_esp gi) \<and> within_disk block_count (gi_boot gi) \<and> within_disk block_count (gi_data gi) \<and>
       part_sectors (gi_esp gi) \<inter> part_sectors (gi_boot gi) = {} \<and> part_sectors (gi_esp gi) \<inter> part_sectors (gi_data gi) = {} \<and>
       part_sectors (gi_boot gi) \<inter> part_sectors (gi_data gi) = {} \<and> \<not> guid_collision (gi_disk_guid gi) (gi_esp gi) (gi_boot gi) (gi_data gi)"
proof (cases "capyos_gpt_identity_read reader block_size block_count c")
  case (Pair gi c')
  show ?thesis
  proof (cases gi)
    case (Some g)
    have "identity_read_mode reader block_size block_count False c = (Some g, c')" using Pair Some by (simp add: capyos_gpt_identity_read_def)
    from identity_accepted [OF this] show ?thesis using Pair Some by (simp add: within_disk_def)
  qed (simp add: Pair)
qed

end
