(* ===== verification/Spec2Isabelle.thy ===== *)
theory Spec2Isabelle
  imports ProcessLife Kmem StdinBuf WorkQueue OpBudget BufferCoherent JournalCrash BootUpdate
begin

text \<open>
  \<^bold>\<open>CapyOS\<close>

  CapyOS is a 64-bit x86 operating system written in C. This library models its kernel core: memory, tasks and
  processes, kernel channels, storage from the block devices up to the write-ahead journal of the file system, and how the machine starts and is
  updated: two system images, the records that choose between them, and the boot loader. It
  proves the properties the rest of the system relies on. The C sources are under \<^verbatim>\<open>src/src\<close>, the headers under
  \<^verbatim>\<open>src/include\<close>. File names below are relative to \<^verbatim>\<open>src/src\<close>.

  \<^bold>\<open>Foundations\<close>

  \<^item> \<open>CapyBase\<close>: word types, C arrays as total functions (\<open>carr\<close>), C strings, the theorem collections.
  \<^item> \<open>Interfaces\<close>: contracts as locales. \<open>frame_allocator\<close> is what the virtual memory code expects of the
    physical one; \<open>bounded_stream\<close> is a bounded first-in first-out byte channel, proved once to conserve its data.
  \<^item> \<open>Bytes\<close>: little-endian fields, buffers filled at fixed offsets, the step of the checksum.

  \<^bold>\<open>Memory\<close>

  \<^item> \<open>Pmm\<close>: \<^verbatim>\<open>memory/pmm.c\<close>, the bitmap of physical frames. It interprets \<open>frame_allocator\<close>. Allocation refines a set of
    free frames, the run allocator finds the first run, the counters agree with the bitmap in every reachable state.
  \<^item> \<open>Vmm\<close>, \<open>VmmTables\<close>, \<open>VmmFault\<close>: \<^verbatim>\<open>memory/vmm.c\<close>, \<^verbatim>\<open>vmm_fault.c\<close>, \<^verbatim>\<open>vmm_regions.c\<close>, \<^verbatim>\<open>vmm_cow.c\<close>, \<^verbatim>\<open>pmm_refcount.c\<close>: the
    definitions, the theory of the four-level table tree with mapping and unmapping, and the fault handlers.
  \<^item> \<open>VmSpace\<close>: the rest of \<^verbatim>\<open>vmm.c\<close> with \<^verbatim>\<open>vmm_active.c\<close> and \<^verbatim>\<open>vmm_mmio.c\<close>: the kernel tables, creating, cloning, destroying
    and switching address spaces. The recursions over table levels are bounded by the four levels.
  \<^item> \<open>Kmem\<close>: \<^verbatim>\<open>arch/x86_64/kmem64.c\<close>, the kernel heap. The blocks tile the arena in every reachable state.

  \<^bold>\<open>Tasks, processes and channels\<close>

  \<^item> \<open>Sched\<close>: \<^verbatim>\<open>kernel/task.c\<close> and \<^verbatim>\<open>kernel/scheduler.c\<close>: the run queue as a linked list, the three policies, ticks, fairness.
  \<^item> \<open>Process\<close>, \<open>ProcessTree\<close>, \<open>ProcessLife\<close>: \<^verbatim>\<open>kernel/process.c\<close> and \<^verbatim>\<open>kernel/process_iter.c\<close>: the process table over tasks,
    address spaces and pipes; the tree of parents and children is consistent in every reachable state; a process that ends hangs up
    its pipes at once; a parent that waits gets the exit code. The two loops of \<^verbatim>\<open>process_wait\<close> are \<open>partial_function\<close>s, since
    they may run for ever; an argument says what the rest of the system does during a yield.
  \<^item> \<open>Pipe\<close>: \<^verbatim>\<open>kernel/pipe.c\<close>, and \<open>StdinBuf\<close>: \<^verbatim>\<open>kernel/stdin_buf.c\<close>; both interpret \<open>bounded_stream\<close>.
  \<^item> \<open>WorkQueue\<close>: \<^verbatim>\<open>core/work_queue.c\<close>, and \<open>OpBudget\<close>: \<^verbatim>\<open>util/op_budget.c\<close>.

  \<^bold>\<open>Storage\<close>

  \<^item> \<open>Sha256\<close>: \<^verbatim>\<open>security/sha256.c\<close> and the keyed hash of \<^verbatim>\<open>security/crypt.c\<close>, proved equal to a reference definition on whole
    messages.
  \<^item> \<open>BlockDev\<close>: \<^verbatim>\<open>fs/storage/\<close> with \<^verbatim>\<open>drivers/storage/block_error.c\<close> and \<^verbatim>\<open>ramdisk.c\<close>. A driver is a record of functions over its
    state. \<open>Disk\<close> states as the locale \<open>disk\<close> what a working device promises, interprets it on the RAM disk, and shows that
    the partition and chunk wrappers preserve it and that retries are bounded.
  \<^item> \<open>BufferCache\<close>: \<^verbatim>\<open>fs/cache/buffer_cache.c\<close>, the cache of blocks: hash chains and the list of least recently used buffers
    as they are linked in C. Walks along the links are bounded by the number of buffers. \<open>BufferLinks\<close> proves that the chains stay well
    formed. \<open>BufferCoherent\<close> states as the locale \<open>disks\<close> what the cache expects of the devices, interprets it on the RAM disk, and
    proves that the cache is transparent.
  \<^item> \<open>Journal\<close>: \<^verbatim>\<open>fs/journal/journal.c\<close>, and \<open>JournalMount\<close>: \<^verbatim>\<open>fs/capyfs/capyfs_journal_integration.c\<close>. The replay loop is
    a \<open>partial_function\<close>; \<open>JournalSafe\<close> proves that it returns on every ring, that encodings can be read back and that
    only authentic entries are applied. \<open>JournalCrash\<close> treats a crash as a prefix of the writes of a commit and proves
    that the next mount finds all of the transaction or nothing of it.

  \<^bold>\<open>Boot and update\<close>

  The disk has a boot partition with two slots for a kernel image and two copies of a control record. The record says which slot is
  confirmed, which one is on trial and whether the trial has been spent. An update stages an image into the slot that is not in use, arms it for one try,
  and the started system confirms it; the loader falls back to the confirmed slot otherwise.

  \<^item> \<open>BootSlot\<close>: \<^verbatim>\<open>boot/boot_slot.c\<close>, \<^verbatim>\<open>boot_slot_lifecycle.c\<close>, \<^verbatim>\<open>boot_slot_operations.c\<close>, \<^verbatim>\<open>boot_slot_authorization.c\<close>: the manager and its record.
    \<open>BootStore\<close>: \<^verbatim>\<open>boot/boot_slot_store.c\<close>: headers, leases, staging. \<open>BootRecord\<close>, \<open>BootLife\<close> and \<open>BootCommit\<close> prove that the formats can be read back and
    that every transition keeps a valid manager.
  \<^item> \<open>BootMedium\<close> states as the locale \<open>boot_medium\<close> what the store expects of a device with a write cache, and when a medium is sound: every
    record and every bootable slot is intact under every outcome of a power failure. \<open>BootSafe\<close>, \<open>BootStage\<close> and \<open>BootOps\<close> prove in that locale that each
    operation keeps the medium sound, however its device calls fail.
  \<^item> \<open>GptIdentity\<close>: \<^verbatim>\<open>boot/gpt_identity.c\<close>, the partition table. \<open>BootProvider\<close>: \<^verbatim>\<open>boot/boot_slot_block_provider.c\<close>, the leased partition.
    \<open>BootDisk\<close> has the locales \<open>raw_disk\<close> and \<open>boot_partition\<close>; the second gives \<open>boot_medium\<close> by a \<open>sublocale\<close>.
  \<^item> \<open>BootRun\<close>: loader, kernel and power failures as the step relation \<open>machine_step\<close>, with the invariant \<open>machine_ok\<close> of its reachable states.
  \<^item> \<open>BootEfi\<close>: the block transfers of \<^verbatim>\<open>boot/uefi_loader/recovery_gpt_layout.c\<close> over the firmware (locale \<open>efi_disk\<close>). \<open>KernelImage\<close>:
    \<^verbatim>\<open>kernel_loader.c\<close>, the checks and the loading of an ELF image. \<open>BootLoader\<close>: the A/B path of \<^verbatim>\<open>kernel_discovery_streaming.c\<close> and the part of
    \<^verbatim>\<open>installer_run.c\<close> that writes the boot partition.
  \<^item> \<open>BootStart\<close> (locales \<open>boot_machine\<close>, \<open>boot_memory\<close>) proves what the loader starts, \<open>BootInstall\<close> what the installer leaves, \<open>BootLive\<close> and
    \<open>BootUp\<close> (locales \<open>calm_medium\<close>, \<open>calm_machine\<close>) that the loader succeeds once its services do.
  \<^item> \<open>BootFlaky\<close> interprets these locales on a machine whose disk has a write cache and scripted failures; the disk and the firmware are not code of this
    repository, and the operations are the repository's. \<open>KernelSample\<close> and \<open>BootSample\<close> put a kernel on it. \<open>BootUpdate\<close> has the theorems: the confirmed kernel survives
    every update and power failure, the machine starts, it starts only what it has verified, and it tries a new image once.

  \<^bold>\<open>Conventions\<close>

  Fixed-width integers are words, sizes and indices that cannot overflow are natural numbers. Every operation is atomic:
  locks and interrupt masking are not modelled. Pointers into tables are indices, null is \<open>None\<close>. Callbacks, reclaim hooks and the
  success of allocations are arguments. Undefined behaviour of the C code that a model could meet (a read through a null
  pointer in \<^verbatim>\<open>journal_commit\<close>) is a separate result.

  \<^bold>\<open>Not modelled\<close>

  The program loader and \<^verbatim>\<open>process_exec\<close>, the system call table, locks and workers, the VFS and the capyfs runtime,
  the remaining cryptography and the encrypted volume provider are not modelled. Of the UEFI loader, the menus, the recovery and ISO paths, the FAT
  writer and the main sequence are left out. Device drivers, networking, graphics, audio, the shell and the applications are outside: their meaning is fixed by hardware or protocols, or they
  are user interface. Generated tables (\<^verbatim>\<open>tls_trust_anchors.c\<close>) are data.
\<close>

end
